(* ===== verification/Prelude.thy ===== *)
theory Prelude
  imports Main "HOL-Library.Word" "HOL-Library.Monad_Syntax"
begin

text \<open>
  Shared vocabulary of the development: the C integer conventions, the treatment of
  undefined behaviour, generic facts on lists, options and bits, and the fact
  collections the component theories extend.

  Conventions. An \<^verbatim>\<open>unsigned int\<close> that is only counted, compared and added far below
  its limit is a \<open>nat\<close>, and every place where the C arithmetic can leave the range
  \<open>0 ..< 2 ^ 32\<close> goes through \<open>wrap32\<close> or \<open>sub32\<close>. Values whose bits matter (packet
  fields, sequence numbers) are \<open>32 word\<close>, \<open>16 word\<close> and \<open>8 word\<close>. A function that can
  run into undefined behaviour of C (an uninitialised, dangling or out-of-range access)
  returns an \<open>option\<close>, with \<open>None\<close> for that case. The kernel's \<^verbatim>\<open>panic()\<close> prints and
  returns (its \<^verbatim>\<open>while(1)\<close> is commented out, \<^verbatim>\<open>src/kmain.c\<close>), so a panic is an event counted
  in the state and the code that follows it is modelled as well.
\<close>

section \<open>Types\<close>

type_synonym addr = nat
type_synonym u8 = "8 word"
type_synonym u16 = "16 word"
type_synonym u32 = "32 word"

section \<open>Fact collections\<close>

named_theorems layout_simps \<open>constants of the memory layout, evaluated\<close>
named_theorems frame_simps \<open>fields an operation leaves alone\<close>

section \<open>32-bit arithmetic on natural numbers\<close>

definition wrap32 :: "nat \<Rightarrow> nat" where
  "wrap32 n = n mod 2 ^ 32"

definition sub32 :: "nat \<Rightarrow> nat \<Rightarrow> nat" where
  "sub32 a b = (a + (2 ^ 32 - b mod 2 ^ 32)) mod 2 ^ 32"

lemma wrap32_less [simp]: "n < 2 ^ 32 \<Longrightarrow> wrap32 n = n"
  by (simp add: wrap32_def)

lemma wrap32_bound: "wrap32 n < 2 ^ 32"
  by (simp add: wrap32_def)

lemma sub32_le:
  assumes "b \<le> a" and "a < 2 ^ 32"
  shows "sub32 a b = a - b"
proof -
  have "a + (2 ^ 32 - b mod 2 ^ 32) = (a - b) + 2 ^ 32"
    using assms by simp
  then have "sub32 a b = ((a - b) + 2 ^ 32) mod 2 ^ 32"
    by (simp only: sub32_def)
  also have "\<dots> = (a - b) mod 2 ^ 32" by (rule mod_add_self2)
  also have "\<dots> = a - b" using assms by (intro mod_less) simp
  finally show ?thesis .
qed

lemma sub32_zero_one: "sub32 0 1 = 2 ^ 32 - 1"
  by (simp add: sub32_def)

lemma sub32_bound: "sub32 a b < 2 ^ 32"
  by (simp add: sub32_def)

section \<open>Options\<close>

lemma bind_Some_iff [simp]:
  "Option.bind m f = Some y \<longleftrightarrow> (\<exists>x. m = Some x \<and> f x = Some y)"
  by (cases m) auto

section \<open>Lists\<close>

lemma distinct_map_fst_mem:
  assumes "distinct (map fst xs)" and "(k, v) \<in> set xs" and "(k, w) \<in> set xs"
  shows "v = w"
  using assms by (metis map_of_is_SomeI option.inject)

lemma map_of_filter_fst [simp]:
  "map_of (filter (\<lambda>p. fst p \<noteq> k) xs) = (map_of xs)(k := None)"
  by (induction xs) (auto simp: fun_eq_iff)

lemma distinct_map_fst_filter:
  "distinct (map fst xs) \<Longrightarrow> distinct (map fst (filter P xs))"
  by (induction xs) auto

lemma in_set_take_nth: "b \<in> set (take i xs) \<Longrightarrow> \<exists>k. k < length xs \<and> k < i \<and> b = xs ! k"
  by (auto simp: in_set_conv_nth)

lemma in_set_drop_nth:
  assumes "b \<in> set (drop (Suc i) xs)"
  shows "\<exists>k. k < length xs \<and> i < k \<and> b = xs ! k"
proof -
  obtain j where "j < length xs - Suc i" and "b = xs ! (Suc i + j)"
    using assms by (auto simp: in_set_conv_nth)
  then show ?thesis by (intro exI [of _ "Suc i + j"]) simp
qed

section \<open>Bits of natural numbers\<close>

unbundle bit_operations_syntax

lemma bit_iff_div_odd: "bit (a :: nat) n \<longleftrightarrow> odd (a div 2 ^ n)"
  by (simp add: bit_iff_odd)

lemma xor_exp_eq:
  fixes a :: nat
  shows "a XOR 2 ^ n = (if odd (a div 2 ^ n) then a - 2 ^ n else a + 2 ^ n)"
proof -
  have "a XOR 2 ^ n = flip_bit n a"
    by (simp add: flip_bit_eq_xor push_bit_eq_mult)
  also have "\<dots> = (if odd (a div 2 ^ n) then unset_bit n a else set_bit n a)"
    by (simp add: flip_bit_eq_if bit_iff_div_odd)
  also have "\<dots> = (if odd (a div 2 ^ n) then a - 2 ^ n else a + 2 ^ n)"
  proof (cases "odd (a div 2 ^ n)")
    case True
    then have "bit a n" by (simp add: bit_iff_div_odd)
    then have "set_bit n (unset_bit n a) = a"
      by (intro bit_eqI) (auto simp: bit_simps)
    then have "a = unset_bit n a + 2 ^ n"
      by (simp add: set_bit_eq bit_unset_bit_iff)
    with True show ?thesis by simp
  next
    case False
    then show ?thesis by (simp add: set_bit_eq bit_iff_div_odd)
  qed
  finally show ?thesis .
qed

end
