(* ===== verification/Fixed_Size.thy ===== *)
theory Fixed_Size
  imports Prelude
begin

text \<open>
  The fixed-size block allocator of \<^verbatim>\<open>src/memory_manager/fixed_size.c\<close>. A pool is a
  region cut into blocks of one size, each preceded by an eight-byte header that holds the
  links of the free list. The headers live in memory, so the model keeps them in one map
  from header addresses to link pairs that all pools share. The free list is never
  terminated: after initialisation it is circular, and \<open>current_free_block\<close> alone says
  how many of its leading blocks are free. \<open>free_chain\<close> reads those blocks off the links.
\<close>

section \<open>Data\<close>

record block_desc =
  previous_block :: addr
  next_block :: addr

type_synonym headers = "addr \<Rightarrow> block_desc"

record a_fixed_size_desc =
  first_block :: addr
  has_initialized :: nat
  block_size :: nat
  current_free_block :: nat

definition sizeof_block_desc :: nat where
  "sizeof_block_desc = 8"

section \<open>Operations\<close>

text \<open>The linking loop of \<open>a_fixed_size_init\<close>; the first argument counts its iterations.\<close>

fun init_blocks :: "nat \<Rightarrow> nat \<Rightarrow> addr \<Rightarrow> addr \<Rightarrow> headers \<Rightarrow> addr \<times> addr \<times> headers" where
  "init_blocks 0 bs prev cur hdr = (prev, cur, hdr)"
| "init_blocks (Suc n) bs prev cur hdr =
     (let nxt = cur + sizeof_block_desc + bs;
          hdr' = hdr(cur := hdr cur\<lparr>next_block := nxt, previous_block := prev\<rparr>)
      in init_blocks n bs cur nxt hdr')"

definition a_fixed_size_init ::
  "nat \<Rightarrow> addr \<Rightarrow> nat \<Rightarrow> headers \<Rightarrow> a_fixed_size_desc \<times> headers" where
  "a_fixed_size_init bs mem_addr sz hdr =
     (let num_block = sz div (sizeof_block_desc + bs);
          desc = \<lparr>first_block = mem_addr, has_initialized = 1, block_size = bs,
                  current_free_block = num_block\<rparr>;
          (prev, cur, hdr1) = init_blocks (num_block - 1) bs 0 mem_addr hdr;
          hdr2 = hdr1(cur := hdr1 cur\<lparr>next_block := mem_addr, previous_block := prev\<rparr>);
          hdr3 = hdr2(mem_addr := hdr2 mem_addr\<lparr>previous_block := cur\<rparr>)
      in (desc, hdr3))"

text \<open>
  Allocation takes the first block whatever the counter says: with no free block left the
  code panics, goes on and decrements the unsigned counter below zero. The boolean tells
  whether it panicked.
\<close>

definition a_fixed_size_alloc ::
  "a_fixed_size_desc \<Rightarrow> headers \<Rightarrow> bool \<times> addr \<times> a_fixed_size_desc \<times> headers" where
  "a_fixed_size_alloc desc hdr =
     (let panicked = (current_free_block desc = 0);
          cur = first_block desc;
          nxt = next_block (hdr cur);
          hdr' = (if nxt \<noteq> 0 then hdr(nxt := hdr nxt\<lparr>previous_block := 0\<rparr>) else hdr)
      in (panicked, cur + sizeof_block_desc,
          desc\<lparr>first_block := nxt, current_free_block := sub32 (current_free_block desc) 1\<rparr>,
          hdr'))"

definition a_fixed_size_free ::
  "a_fixed_size_desc \<Rightarrow> addr \<Rightarrow> headers \<Rightarrow> a_fixed_size_desc \<times> headers" where
  "a_fixed_size_free desc address hdr =
     (let cur = sub32 address sizeof_block_desc;
          old_first = first_block desc;
          hdr1 = hdr(cur := hdr cur\<lparr>next_block := old_first, previous_block := 0\<rparr>);
          hdr2 = hdr1(old_first := hdr1 old_first\<lparr>previous_block := cur\<rparr>)
      in (desc\<lparr>first_block := cur, current_free_block := wrap32 (current_free_block desc + 1)\<rparr>,
          hdr2))"

section \<open>The free chain and the pool invariant\<close>

fun free_chain :: "headers \<Rightarrow> addr \<Rightarrow> nat \<Rightarrow> addr list" where
  "free_chain hdr a 0 = []"
| "free_chain hdr a (Suc n) = a # free_chain hdr (next_block (hdr a)) n"

definition pool_free :: "a_fixed_size_desc \<Rightarrow> headers \<Rightarrow> addr list" where
  "pool_free desc hdr = free_chain hdr (first_block desc) (current_free_block desc)"

definition block_addr :: "addr \<Rightarrow> nat \<Rightarrow> nat \<Rightarrow> addr" where
  "block_addr base bs k = base + k * (sizeof_block_desc + bs)"

definition pool_blocks :: "addr \<Rightarrow> nat \<Rightarrow> nat \<Rightarrow> addr set" where
  "pool_blocks base bs sz = block_addr base bs ` {..< sz div (sizeof_block_desc + bs)}"

definition pool_inv :: "addr \<Rightarrow> nat \<Rightarrow> nat \<Rightarrow> a_fixed_size_desc \<Rightarrow> headers \<Rightarrow> bool" where
  "pool_inv base bs sz desc hdr \<longleftrightarrow>
     block_size desc = bs \<and>
     set (pool_free desc hdr) \<subseteq> pool_blocks base bs sz \<and>
     distinct (pool_free desc hdr)"

text \<open>
  The links never leave the pool, even past the free blocks: what makes allocation from an
  exhausted pool hand out a block that is in use.
\<close>

definition pool_closed :: "addr \<Rightarrow> nat \<Rightarrow> nat \<Rightarrow> a_fixed_size_desc \<Rightarrow> headers \<Rightarrow> bool" where
  "pool_closed base bs sz desc hdr \<longleftrightarrow>
     first_block desc \<in> pool_blocks base bs sz \<and>
     (\<forall>b \<in> pool_blocks base bs sz. next_block (hdr b) \<in> pool_blocks base bs sz)"

text \<open>Payload addresses handed out and not yet returned.\<close>

definition pool_live :: "addr \<Rightarrow> nat \<Rightarrow> nat \<Rightarrow> a_fixed_size_desc \<Rightarrow> headers \<Rightarrow> addr set" where
  "pool_live base bs sz desc hdr =
     (\<lambda>b. b + sizeof_block_desc) ` (pool_blocks base bs sz - set (pool_free desc hdr))"

section \<open>Lemmas\<close>

lemma free_chain_frame:
  "(\<And>b. b \<in> set (free_chain h a n) \<Longrightarrow> next_block (h' b) = next_block (h b)) \<Longrightarrow>
   free_chain h' a n = free_chain h a n"
  by (induction n arbitrary: a) auto

lemma length_free_chain [simp]: "length (free_chain h a n) = n"
  by (induction n arbitrary: a) auto

lemma block_addr_inj: "block_addr base bs j = block_addr base bs k \<longleftrightarrow> j = k"
  by (simp add: block_addr_def sizeof_block_desc_def)

lemma block_addr_Suc:
  "block_addr base bs (Suc k) = block_addr base bs k + sizeof_block_desc + bs"
  by (simp add: block_addr_def)

lemma finite_pool_blocks [simp]: "finite (pool_blocks base bs sz)"
  by (simp add: pool_blocks_def)

lemma card_pool_blocks: "card (pool_blocks base bs sz) = sz div (sizeof_block_desc + bs)"
  unfolding pool_blocks_def by (subst card_image) (auto simp: inj_on_def block_addr_inj)

text \<open>Every block of a pool lies inside the region the pool was given.\<close>

lemma pool_blocks_bounds:
  assumes "b \<in> pool_blocks base bs sz"
  shows "base \<le> b" and "b + sizeof_block_desc + bs \<le> base + sz"
proof -
  obtain k where k: "k < sz div (sizeof_block_desc + bs)" and b: "b = block_addr base bs k"
    using assms by (auto simp: pool_blocks_def)
  show "base \<le> b" by (simp add: b block_addr_def)
  from k have "Suc k * (sizeof_block_desc + bs) \<le> sz div (sizeof_block_desc + bs) * (sizeof_block_desc + bs)"
    by (intro mult_le_mono1) simp
  also have "\<dots> \<le> sz" by (rule div_times_less_eq_dividend)
  finally show "b + sizeof_block_desc + bs \<le> base + sz"
    by (simp add: b block_addr_def)
qed

text \<open>Two different blocks of a pool do not overlap, headers included.\<close>

lemma pool_blocks_disjoint:
  assumes "b \<in> pool_blocks base bs sz" and "c \<in> pool_blocks base bs sz" and "b \<noteq> c"
  shows "b + sizeof_block_desc + bs \<le> c \<or> c + sizeof_block_desc + bs \<le> b"
proof -
  obtain j k where b: "b = block_addr base bs j" and c: "c = block_addr base bs k"
    using assms(1,2) by (auto simp: pool_blocks_def)
  have step: "block_addr base bs i + sizeof_block_desc + bs \<le> block_addr base bs l" if "i < l" for i l
  proof -
    from that have "Suc i * (sizeof_block_desc + bs) \<le> l * (sizeof_block_desc + bs)"
      by (intro mult_le_mono1) simp
    then show ?thesis by (simp add: block_addr_def)
  qed
  from assms(3) b c consider "j < k" | "k < j" by (metis nat_neq_iff)
  then show ?thesis by cases (auto simp: b c dest: step)
qed

subsection \<open>Initialisation\<close>

lemma init_blocks_spec:
  assumes "init_blocks n bs prev cur h = (p, c, h')"
  shows "c = block_addr cur bs n
    \<and> (\<forall>k < n. next_block (h' (block_addr cur bs k)) = block_addr cur bs (Suc k))
    \<and> (\<forall>a. a \<notin> block_addr cur bs ` {..< n} \<longrightarrow> h' a = h a)"
  using assms
proof (induction n arbitrary: prev cur h)
  case 0
  then show ?case by (simp add: block_addr_def)
next
  case (Suc n)
  let ?nxt = "cur + sizeof_block_desc + bs"
  let ?h = "h(cur := h cur\<lparr>next_block := ?nxt, previous_block := prev\<rparr>)"
  have shift: "block_addr ?nxt bs k = block_addr cur bs (Suc k)" for k
    by (simp add: block_addr_def)
  have run: "init_blocks n bs cur ?nxt ?h = (p, c, h')"
    using Suc.prems by (simp add: Let_def)
  note IH = Suc.IH [OF run, unfolded shift]
  have zero: "block_addr cur bs 0 = cur" by (simp add: block_addr_def)
  have "cur \<notin> (\<lambda>k. block_addr cur bs (Suc k)) ` {..< n}"
    by (auto simp: block_addr_def sizeof_block_desc_def)
  then have first: "next_block (h' cur) = ?nxt" using IH by simp
  have links: "next_block (h' (block_addr cur bs k)) = block_addr cur bs (Suc k)" if "k < Suc n" for k
    using that IH first zero by (cases k) (auto simp: block_addr_Suc)
  have rest: "h' a = h a" if "a \<notin> block_addr cur bs ` {..< Suc n}" for a
    using that IH zero by (auto simp: lessThan_Suc_eq_insert_0 image_image)
  from IH links rest show ?case by blast
qed

lemma free_chain_links:
  assumes "\<And>k. k < n \<Longrightarrow> next_block (h (block_addr base bs (j + k))) = block_addr base bs (Suc (j + k))"
  shows "free_chain h (block_addr base bs j) (Suc n) = map (block_addr base bs) [j ..< j + Suc n]"
  using assms
proof (induction n arbitrary: j)
  case 0
  then show ?case by simp
next
  case (Suc n)
  have "free_chain h (block_addr base bs (Suc j)) (Suc n) = map (block_addr base bs) [Suc j ..< Suc j + Suc n]"
  proof (rule Suc.IH)
    fix k assume "k < n"
    then show "next_block (h (block_addr base bs (Suc j + k))) = block_addr base bs (Suc (Suc j + k))"
      using Suc.prems [of "Suc k"] by simp
  qed
  moreover have "next_block (h (block_addr base bs j)) = block_addr base bs (Suc j)"
    using Suc.prems [of 0] by simp
  moreover have "[j ..< j + Suc (Suc n)] = j # [Suc j ..< Suc j + Suc n]"
    by (simp add: upt_conv_Cons)
  ultimately show ?case by simp
qed

lemma a_fixed_size_init_spec:
  assumes run: "a_fixed_size_init bs base sz h = (d, h')" and pos: "0 < sz div (sizeof_block_desc + bs)"
  shows "pool_free d h' = map (block_addr base bs) [0 ..< sz div (sizeof_block_desc + bs)]"
    and "block_size d = bs"
    and "a \<notin> pool_blocks base bs sz \<Longrightarrow> next_block (h' a) = next_block (h a)"
proof -
  let ?num = "sz div (sizeof_block_desc + bs)"
  obtain n where n: "?num = Suc n" using pos by (cases ?num) auto
  obtain p c h1 where loop: "init_blocks n bs 0 base h = (p, c, h1)"
    by (cases "init_blocks n bs 0 base h") auto
  note sp = init_blocks_spec [OF loop]
  have zero: "block_addr base bs 0 = base" by (simp add: block_addr_def)
  have d: "d = \<lparr>first_block = base, has_initialized = 1, block_size = bs, current_free_block = Suc n\<rparr>"
    and nxt: "next_block (h' x) = (if x = c then base else next_block (h1 x))" for x
    using run n loop by (auto simp: a_fixed_size_init_def Let_def)
  show "block_size d = bs" by (simp add: d)
  have "free_chain h' (block_addr base bs 0) (Suc n) = map (block_addr base bs) [0 ..< 0 + Suc n]"
  proof (rule free_chain_links)
    fix k assume "k < n"
    then show "next_block (h' (block_addr base bs (0 + k))) = block_addr base bs (Suc (0 + k))"
      using sp by (simp add: nxt block_addr_inj)
  qed
  then show "pool_free d h' = map (block_addr base bs) [0 ..< ?num]"
    by (simp only: pool_free_def d a_fixed_size_desc.simps zero n add_0)
  show "next_block (h' a) = next_block (h a)" if "a \<notin> pool_blocks base bs sz"
  proof -
    have "a \<notin> block_addr base bs ` {..< n}" and "a \<noteq> c"
      using that sp by (auto simp: pool_blocks_def n)
    then show ?thesis using sp by (simp add: nxt)
  qed
qed

subsection \<open>Allocation and release\<close>

lemma pool_inv_count:
  assumes "pool_inv base bs sz d h"
  shows "current_free_block d \<le> sz div (sizeof_block_desc + bs)"
proof -
  have "current_free_block d = card (set (pool_free d h))"
    using assms by (simp add: pool_inv_def distinct_card) (simp add: pool_free_def)
  also have "\<dots> \<le> card (pool_blocks base bs sz)"
    using assms by (intro card_mono) (simp_all add: pool_inv_def)
  finally show ?thesis by (simp add: card_pool_blocks)
qed

lemma next_block_alloc:
  "a_fixed_size_alloc d h = (p, a, d', h') \<Longrightarrow> next_block (h' x) = next_block (h x)"
  by (auto simp: a_fixed_size_alloc_def Let_def)

lemma a_fixed_size_alloc_spec:
  assumes run: "a_fixed_size_alloc d h = (p, a, d', h')"
    and pos: "0 < current_free_block d" and lim: "current_free_block d < 2 ^ 32"
  shows "\<not> p" and "a = first_block d + sizeof_block_desc"
    and "pool_free d h = first_block d # pool_free d' h'"
    and "block_size d' = block_size d"
    and "current_free_block d' = current_free_block d - 1"
proof -
  have d': "d' = d\<lparr>first_block := next_block (h (first_block d)),
                   current_free_block := sub32 (current_free_block d) 1\<rparr>"
    and pa: "p = (current_free_block d = 0)" "a = first_block d + sizeof_block_desc"
    using run by (auto simp: a_fixed_size_alloc_def Let_def)
  show "\<not> p" and "a = first_block d + sizeof_block_desc" using pa pos by auto
  have cnt: "sub32 (current_free_block d) 1 = current_free_block d - 1"
    using pos lim by (intro sub32_le) simp_all
  obtain n where n: "current_free_block d = Suc n" using pos by (cases "current_free_block d") auto
  show "block_size d' = block_size d" by (simp add: d')
  show "current_free_block d' = current_free_block d - 1" by (simp add: d' cnt [simplified])
  have "free_chain h' (next_block (h (first_block d))) n = free_chain h (next_block (h (first_block d))) n"
    by (rule free_chain_frame) (simp add: next_block_alloc [OF run])
  then show "pool_free d h = first_block d # pool_free d' h'"
    using cnt by (simp add: pool_free_def d' n)
qed

lemma next_block_free:
  "a_fixed_size_free d address h = (d', h') \<Longrightarrow> x \<noteq> sub32 address sizeof_block_desc \<Longrightarrow>
   next_block (h' x) = next_block (h x)"
  by (auto simp: a_fixed_size_free_def Let_def)

lemma a_fixed_size_free_spec:
  assumes run: "a_fixed_size_free d (b + sizeof_block_desc) h = (d', h')"
    and lim: "current_free_block d + 1 < 2 ^ 32" "b + sizeof_block_desc < 2 ^ 32"
    and notin: "b \<notin> set (pool_free d h)"
  shows "pool_free d' h' = b # pool_free d h"
    and "block_size d' = block_size d"
    and "x \<noteq> b \<Longrightarrow> next_block (h' x) = next_block (h x)"
    and "current_free_block d' = current_free_block d + 1"
proof -
  have cur: "sub32 (b + sizeof_block_desc) sizeof_block_desc = b"
    using lim by (subst sub32_le) simp_all
  have d': "d' = d\<lparr>first_block := b, current_free_block := current_free_block d + 1\<rparr>"
    and nb: "next_block (h' b) = first_block d"
    using run lim by (auto simp: a_fixed_size_free_def Let_def cur)
  show frame: "next_block (h' x) = next_block (h x)" if "x \<noteq> b" for x
    using next_block_free [OF run] that by (simp add: cur)
  show "block_size d' = block_size d" and "current_free_block d' = current_free_block d + 1"
    by (simp_all add: d')
  have "free_chain h' (first_block d) (current_free_block d) = pool_free d h"
    unfolding pool_free_def
  proof (rule free_chain_frame)
    fix x assume "x \<in> set (free_chain h (first_block d) (current_free_block d))"
    then show "next_block (h' x) = next_block (h x)"
      using notin frame by (metis pool_free_def)
  qed
  then show "pool_free d' h' = b # pool_free d h"
    by (simp add: pool_free_def d' nb)
qed

subsection \<open>The invariant over the operations\<close>

lemma pool_inv_init:
  assumes "a_fixed_size_init bs base sz h = (d, h')" and "0 < sz div (sizeof_block_desc + bs)"
  shows "pool_inv base bs sz d h'" and "pool_live base bs sz d h' = {}"
proof -
  note sp = a_fixed_size_init_spec [OF assms]
  have "set (pool_free d h') = pool_blocks base bs sz"
    by (simp add: sp pool_blocks_def atLeast0LessThan)
  moreover have "distinct (pool_free d h')"
    by (simp add: sp distinct_map inj_on_def block_addr_inj)
  ultimately show "pool_inv base bs sz d h'" and "pool_live base bs sz d h' = {}"
    by (simp_all add: pool_inv_def pool_live_def sp)
qed

lemma pool_closed_init:
  assumes run: "a_fixed_size_init bs base sz h = (d, h')" and pos: "0 < sz div (sizeof_block_desc + bs)"
  shows "pool_closed base bs sz d h'"
proof -
  let ?num = "sz div (sizeof_block_desc + bs)"
  obtain n where n: "?num = Suc n" using pos by (cases ?num) auto
  obtain p c h1 where loop: "init_blocks n bs 0 base h = (p, c, h1)"
    by (cases "init_blocks n bs 0 base h") auto
  note sp = init_blocks_spec [OF loop]
  have base: "base \<in> pool_blocks base bs sz"
    unfolding pool_blocks_def by (rule image_eqI [where x = 0]) (simp_all add: block_addr_def n)
  have first: "first_block d = base"
    and nxt: "next_block (h' x) = (if x = c then base else next_block (h1 x))" for x
    using run n loop by (auto simp: a_fixed_size_init_def Let_def)
  have "next_block (h' b) \<in> pool_blocks base bs sz" if "b \<in> pool_blocks base bs sz" for b
  proof -
    obtain k where k: "k < Suc n" "b = block_addr base bs k"
      using \<open>b \<in> _\<close> by (auto simp: pool_blocks_def n)
    then have "k < n \<or> b = c" using sp by (auto simp: block_addr_inj)
    then show ?thesis using sp base k
      by (auto simp: nxt pool_blocks_def n)
  qed
  then show ?thesis by (simp add: pool_closed_def first base)
qed

lemma pool_inv_frame:
  assumes "\<And>b. b \<in> pool_blocks base bs sz \<Longrightarrow> next_block (h' b) = next_block (h b)"
    and "pool_inv base bs sz d h"
  shows "pool_free d h' = pool_free d h" and "pool_inv base bs sz d h'"
    and "pool_live base bs sz d h' = pool_live base bs sz d h"
    and "pool_closed base bs sz d h \<Longrightarrow> pool_closed base bs sz d h'"
proof -
  show eq: "pool_free d h' = pool_free d h"
    using assms unfolding pool_free_def pool_inv_def by (intro free_chain_frame) blast
  show "pool_inv base bs sz d h'" and "pool_live base bs sz d h' = pool_live base bs sz d h"
    using assms(2) by (simp_all add: pool_inv_def pool_live_def eq)
  show "pool_closed base bs sz d h'" if "pool_closed base bs sz d h"
    using that assms(1) by (simp add: pool_closed_def)
qed

lemma pool_inv_alloc:
  assumes run: "a_fixed_size_alloc d h = (p, a, d', h')" and ok: "\<not> p"
    and inv: "pool_inv base bs sz d h" and lim: "base + sz < 2 ^ 32"
  shows "pool_inv base bs sz d' h'"
    and "a \<notin> pool_live base bs sz d h"
    and "pool_live base bs sz d' h' = insert a (pool_live base bs sz d h)"
proof -
  have pos: "0 < current_free_block d" using run ok by (auto simp: a_fixed_size_alloc_def Let_def)
  have "current_free_block d \<le> sz"
    using pool_inv_count [OF inv] div_le_dividend le_trans by blast
  then have cnt: "current_free_block d < 2 ^ 32" using lim by linarith
  note sp = a_fixed_size_alloc_spec [OF run pos cnt]
  have mem: "first_block d \<in> pool_blocks base bs sz" "first_block d \<in> set (pool_free d h)"
    and set: "set (pool_free d' h') = set (pool_free d h) - {first_block d}"
    using inv by (auto simp: pool_inv_def sp)
  show "pool_inv base bs sz d' h'" using inv by (auto simp: pool_inv_def sp)
  show "a \<notin> pool_live base bs sz d h"
    using mem by (auto simp: pool_live_def sp)
  show "pool_live base bs sz d' h' = insert a (pool_live base bs sz d h)"
    using mem unfolding pool_live_def sp(2) set by auto
qed

lemma pool_closed_alloc:
  assumes "a_fixed_size_alloc d h = (p, a, d', h')" and "pool_closed base bs sz d h"
  shows "pool_closed base bs sz d' h'"
proof -
  have "first_block d' = next_block (h (first_block d))"
    using assms(1) by (auto simp: a_fixed_size_alloc_def Let_def)
  then show ?thesis
    using assms(2) by (simp add: pool_closed_def next_block_alloc [OF assms(1)])
qed

lemma pool_inv_free:
  assumes run: "a_fixed_size_free d a h = (d', h')" and mem: "a \<in> pool_live base bs sz d h"
    and inv: "pool_inv base bs sz d h" and lim: "base + sz < 2 ^ 32"
  shows "pool_inv base bs sz d' h'"
    and "pool_live base bs sz d' h' = pool_live base bs sz d h - {a}"
    and "x \<noteq> a - sizeof_block_desc \<Longrightarrow> next_block (h' x) = next_block (h x)"
    and "pool_free d' h' = (a - sizeof_block_desc) # pool_free d h"
    and "pool_closed base bs sz d h \<Longrightarrow> pool_closed base bs sz d' h'"
proof -
  obtain b where b: "a = b + sizeof_block_desc" "b \<in> pool_blocks base bs sz" "b \<notin> set (pool_free d h)"
    using mem by (auto simp: pool_live_def)
  have "card (set (pool_free d h)) < card (pool_blocks base bs sz)"
    using inv b by (intro psubset_card_mono) (auto simp: pool_inv_def)
  then have "current_free_block d < sz div (sizeof_block_desc + bs)"
    using inv by (simp add: card_pool_blocks pool_inv_def distinct_card) (simp add: pool_free_def)
  then have "current_free_block d < sz"
    using div_le_dividend less_le_trans by blast
  then have lims: "current_free_block d + 1 < 2 ^ 32" "b + sizeof_block_desc < 2 ^ 32"
    using lim pool_blocks_bounds [OF b(2)] by (simp_all add: sizeof_block_desc_def)
  note sp = a_fixed_size_free_spec [OF run [unfolded b(1)] lims b(3)]
  have first: "first_block d' = b" and nb: "next_block (h' b) = first_block d"
    using run lims by (auto simp: b a_fixed_size_free_def Let_def sub32_le)
  show "pool_inv base bs sz d' h'" using inv b by (auto simp: pool_inv_def sp)
  show "pool_live base bs sz d' h' = pool_live base bs sz d h - {a}"
    using b by (auto simp: pool_live_def sp)
  show "next_block (h' x) = next_block (h x)" if "x \<noteq> a - sizeof_block_desc"
    using that by (simp add: sp(3) b)
  show "pool_free d' h' = (a - sizeof_block_desc) # pool_free d h"
    by (simp add: sp(1) b)
  show "pool_closed base bs sz d' h'" if "pool_closed base bs sz d h"
    unfolding pool_closed_def
  proof (intro conjI ballI)
    show "first_block d' \<in> pool_blocks base bs sz" using b(2) first by simp
    fix y assume "y \<in> pool_blocks base bs sz"
    then show "next_block (h' y) \<in> pool_blocks base bs sz"
      using that nb sp(3) by (cases "y = b") (auto simp: pool_closed_def)
  qed
qed

end
