(* ===== verification/Hashtable.thy ===== *)
theory Hashtable
  imports Prelude
begin

text \<open>
  The chained hash table of \<^verbatim>\<open>src/data_types/hashtable.c\<close>. A bucket is the list of its
  \<open>t_bucket_data\<close> in chain order (the doubly linked list under it is the subject of theory
  \<open>Dllist\<close>). Keys are the \<^verbatim>\<open>u32\<close> the callers pass, values are the non-null pointers or
  marks they store, and a null result is \<open>None\<close>.

  \<open>hashtable_put\<close> prepends without looking for the key, so the table is a stack of
  values per key (\<open>ht_view\<close>). Growing reinserts every chain front to back and so
  reverses each stack: the table is a finite map exactly as long as no key is entered
  twice, which is what the locale \<open>dictionary\<close> asks of its clients.
\<close>

section \<open>Data\<close>

record 'v hashtable =
  ht_size :: nat
  elements :: nat
  bucket :: "(nat \<times> 'v) list list"

section \<open>Operations\<close>

definition hashtable_init :: "nat \<Rightarrow> 'v hashtable" where
  "hashtable_init init_size =
     \<lparr>ht_size = init_size, elements = 0, bucket = replicate init_size []\<rparr>"

text \<open>
  \<open>chain_find\<close> is the scan of \<open>hashtable_search\<close>: the value of the first node with the
  key, and the chain without that node. An empty table divides by zero.
\<close>

fun chain_find :: "nat \<Rightarrow> (nat \<times> 'v) list \<Rightarrow> ('v \<times> (nat \<times> 'v) list) option" where
  "chain_find key [] = None"
| "chain_find key ((k, v) # rest) =
     (if k = key then Some (v, rest)
      else map_option (\<lambda>(w, rest'). (w, (k, v) # rest')) (chain_find key rest))"

definition hashtable_search ::
  "'v hashtable \<Rightarrow> nat \<Rightarrow> bool \<Rightarrow> ('v option \<times> 'v hashtable) option" where
  "hashtable_search h key remove =
     (if ht_size h = 0 then None
      else let index = key mod ht_size h in
           case chain_find key (bucket h ! index) of
             None \<Rightarrow> Some (None, h)
           | Some (v, rest) \<Rightarrow>
               Some (Some v,
                 if remove then h\<lparr>bucket := (bucket h)[index := rest], elements := elements h - 1\<rparr>
                 else h))"

definition hashtable_get :: "'v hashtable \<Rightarrow> nat \<Rightarrow> 'v option" where
  "hashtable_get h key =
     (case hashtable_search h key False of None \<Rightarrow> None | Some (r, _) \<Rightarrow> r)"

definition hashtable_remove :: "'v hashtable \<Rightarrow> nat \<Rightarrow> ('v option \<times> 'v hashtable) option" where
  "hashtable_remove h key = hashtable_search h key True"

text \<open>
  Emptying the buckets. The result lists, in order, the values handed to the destructor
  (or to \<open>kfree\<close> when there is none); with \<open>remove\<close> false the values survive.
\<close>

fun hashtable_free_bucket :: "(nat \<times> 'v) list list \<Rightarrow> bool \<Rightarrow> 'v list" where
  "hashtable_free_bucket [] remove = []"
| "hashtable_free_bucket (b # bs) remove =
     (if remove then map snd b else []) @ hashtable_free_bucket bs remove"

definition hashtable_free :: "'v hashtable \<Rightarrow> 'v list" where
  "hashtable_free h = hashtable_free_bucket (bucket h) True"

definition hashtable_dispose :: "'v hashtable \<Rightarrow> 'v list" where
  "hashtable_dispose h = hashtable_free_bucket (bucket h) False"

text \<open>
  The load test compares \<^verbatim>\<open>(float)(elements+1)/(float)size\<close> with \<^verbatim>\<open>.75\<close>; for tables below
  \<open>2 ^ 22\<close> buckets this is the exact comparison of fractions.
\<close>

definition above_load_factor :: "'v hashtable \<Rightarrow> bool" where
  "above_load_factor h \<longleftrightarrow> 4 * (elements h + 1) > 3 * ht_size h"

definition put_entry :: "'v hashtable \<Rightarrow> nat \<Rightarrow> 'v \<Rightarrow> 'v hashtable option" where
  "put_entry h key v =
     (if ht_size h = 0 then None
      else let index = key mod ht_size h in
           Some (h\<lparr>elements := elements h + 1,
                   bucket := (bucket h)[index := (key, v) # bucket h ! index]\<rparr>))"

text \<open>
  \<open>hashtable_put\<close> and \<open>rehash\<close> call each other, so the nesting depth is bounded by a
  fuel argument; \<open>hashtable_put_total\<close> below shows that depth two is enough.
\<close>

fun put_list :: "('v hashtable \<Rightarrow> nat \<Rightarrow> 'v \<Rightarrow> 'v hashtable option) \<Rightarrow> 'v hashtable
    \<Rightarrow> (nat \<times> 'v) list \<Rightarrow> 'v hashtable option" where
  "put_list put h [] = Some h"
| "put_list put h ((k, v) # es) = do { h' \<leftarrow> put h k v; put_list put h' es }"

definition rehash_with ::
  "('v hashtable \<Rightarrow> nat \<Rightarrow> 'v \<Rightarrow> 'v hashtable option) \<Rightarrow> 'v hashtable \<Rightarrow> 'v hashtable option" where
  "rehash_with put h =
     do { new \<leftarrow> put_list put (hashtable_init (ht_size h * 2)) (concat (bucket h));
          Some (h\<lparr>bucket := bucket new, ht_size := ht_size new, elements := elements new\<rparr>) }"

fun put_depth :: "nat \<Rightarrow> 'v hashtable \<Rightarrow> nat \<Rightarrow> 'v \<Rightarrow> 'v hashtable option" where
  "put_depth 0 h key v = None"
| "put_depth (Suc n) h key v =
     do { h' \<leftarrow> (if above_load_factor h then rehash_with (put_depth n) h else Some h);
          put_entry h' key v }"

definition hashtable_put :: "'v hashtable \<Rightarrow> nat \<Rightarrow> 'v \<Rightarrow> 'v hashtable option" where
  "hashtable_put h key v = put_depth 2 h key v"

definition rehash :: "'v hashtable \<Rightarrow> 'v hashtable option" where
  "rehash h = rehash_with (put_depth 1) h"

text \<open>
  \<open>hashtable_clone_map\<close> asks for the keys below the table size only; the copy of a value
  has the same contents.
\<close>

fun clone_keys :: "'v hashtable \<Rightarrow> nat list \<Rightarrow> 'v hashtable \<Rightarrow> 'v hashtable option" where
  "clone_keys m [] cloned = Some cloned"
| "clone_keys m (i # is) cloned =
     (case hashtable_get m i of
        None \<Rightarrow> clone_keys m is cloned
      | Some v \<Rightarrow> do { cloned' \<leftarrow> hashtable_put cloned i v; clone_keys m is cloned' })"

definition hashtable_clone_map :: "'v hashtable \<Rightarrow> 'v hashtable option" where
  "hashtable_clone_map m = clone_keys m [0 ..< ht_size m] (hashtable_init (ht_size m))"

text \<open>
  \<open>hashtable_put_str\<close> hashes the bytes of \<open>value\<close>, not of \<open>key\<close>, and stores the pointer
  just past the terminator of \<open>value\<close>. The characters are signed, so the hash adds their
  sign extension. \<open>contents\<close> are the bytes at \<open>value\<close>; without a terminator among them the
  loop runs out of the string.
\<close>

fun djb2 :: "u32 \<Rightarrow> u8 list \<Rightarrow> u32 option" where
  "djb2 acc [] = None"
| "djb2 acc (c # cs) = (if c = 0 then Some acc else djb2 ((push_bit 5 acc + acc) + scast c) cs)"

definition hashtable_put_str ::
  "addr hashtable \<Rightarrow> addr \<Rightarrow> addr \<Rightarrow> u8 list \<Rightarrow> addr hashtable option" where
  "hashtable_put_str h key value contents =
     do { long_key \<leftarrow> djb2 5381 contents;
          hashtable_put h (unat long_key) (value + length (takeWhile (\<lambda>c. c \<noteq> 0) contents) + 1) }"

section \<open>Abstraction and invariant\<close>

definition chain_values :: "nat \<Rightarrow> (nat \<times> 'v) list \<Rightarrow> 'v list" where
  "chain_values key b = map snd (filter (\<lambda>p. fst p = key) b)"

definition ht_view :: "'v hashtable \<Rightarrow> nat \<Rightarrow> 'v list" where
  "ht_view h key = chain_values key (bucket h ! (key mod ht_size h))"

definition ht_wf :: "'v hashtable \<Rightarrow> bool" where
  "ht_wf h \<longleftrightarrow> 0 < ht_size h \<and> length (bucket h) = ht_size h
     \<and> (\<forall>i < ht_size h. \<forall>p \<in> set (bucket h ! i). fst p mod ht_size h = i)
     \<and> elements h = length (concat (bucket h))"

definition ht_inv :: "'v hashtable \<Rightarrow> bool" where
  "ht_inv h \<longleftrightarrow> ht_wf h \<and> 4 * elements h \<le> 3 * ht_size h"

definition ht_unique :: "'v hashtable \<Rightarrow> bool" where
  "ht_unique h \<longleftrightarrow> (\<forall>key. length (ht_view h key) \<le> 1)"

section \<open>Chains\<close>

lemma chain_values_Nil [simp]: "chain_values key [] = []"
  by (simp add: chain_values_def)

lemma chain_values_Cons [simp]:
  "chain_values key ((k, v) # b) = (if k = key then v # chain_values key b else chain_values key b)"
  by (simp add: chain_values_def)

lemma chain_values_append [simp]:
  "chain_values key (b @ c) = chain_values key b @ chain_values key c"
  by (simp add: chain_values_def)

lemma chain_values_empty:
  "(\<And>p. p \<in> set b \<Longrightarrow> fst p \<noteq> key) \<Longrightarrow> chain_values key b = []"
  by (auto simp: chain_values_def filter_empty_conv)

lemma chain_find_None: "chain_find key b = None \<longleftrightarrow> chain_values key b = []"
  by (induction key b rule: chain_find.induct) auto

lemma chain_find_Some:
  "chain_find key b = Some (v, rest) \<Longrightarrow>
     chain_values key b = v # chain_values key rest \<and> length b = Suc (length rest) \<and> set rest \<subseteq> set b
     \<and> (\<forall>j. j \<noteq> key \<longrightarrow> chain_values j rest = chain_values j b)"
  by (induction key b arbitrary: v rest rule: chain_find.induct) (fastforce split: if_splits)+

lemma chain_find_cases:
  obtains "chain_find key b = None" "chain_values key b = []"
  | v rest where "chain_find key b = Some (v, rest)" "chain_values key b = v # chain_values key rest"
  by (cases "chain_find key b") (auto simp: chain_find_None dest: chain_find_Some)

section \<open>Well-formedness\<close>

lemma ht_wf_bucket:
  assumes "ht_wf h"
  shows "key mod ht_size h < length (bucket h)"
  using assms by (simp add: ht_wf_def)

lemma ht_wf_chain:
  assumes "ht_wf h" and "p \<in> set (bucket h ! (key mod ht_size h))"
  shows "fst p mod ht_size h = key mod ht_size h"
proof -
  have "key mod ht_size h < ht_size h" using assms(1) by (simp add: ht_wf_def)
  then show ?thesis using assms unfolding ht_wf_def by blast
qed

lemma ht_wf_init:
  "0 < n \<Longrightarrow> ht_wf (hashtable_init n :: 'v hashtable) \<and> ht_view (hashtable_init n :: 'v hashtable) = (\<lambda>_. [])"
  by (simp add: ht_wf_def hashtable_init_def ht_view_def fun_eq_iff)

lemma length_concat_update:
  "i < length bs \<Longrightarrow> length (concat (bs[i := b])) + length (bs ! i) = length (concat bs) + length b"
  by (induction bs arbitrary: i) (auto split: nat.split)

text \<open>Replacing the chain of one key by another that differs in that key only.\<close>

lemma ht_view_bucket_update:
  assumes "ht_wf h" and "\<And>j. j \<noteq> key \<Longrightarrow> chain_values j b = chain_values j (bucket h ! (key mod ht_size h))"
  shows "ht_view (h\<lparr>bucket := (bucket h)[key mod ht_size h := b], elements := e\<rparr>)
         = (ht_view h)(key := chain_values key b)"
  using assms ht_wf_bucket [OF assms(1), of key]
  by (auto simp: fun_eq_iff ht_view_def nth_list_update)

lemma ht_wf_bucket_update:
  assumes "ht_wf h" and "\<And>p. p \<in> set b \<Longrightarrow> fst p mod ht_size h = i" and "i < ht_size h"
    and "e + length (bucket h ! i) = elements h + length b"
  shows "ht_wf (h\<lparr>bucket := (bucket h)[i := b], elements := e\<rparr>)"
  using assms length_concat_update [of i "bucket h" b]
  by (auto simp: ht_wf_def nth_list_update)

lemma hashtable_get_view:
  assumes "ht_wf h"
  shows "hashtable_get h key = (case ht_view h key of [] \<Rightarrow> None | v # _ \<Rightarrow> Some v)"
proof -
  have "ht_size h \<noteq> 0" using assms by (simp add: ht_wf_def)
  then show ?thesis
    by (cases rule: chain_find_cases [of key "bucket h ! (key mod ht_size h)"])
      (auto simp: hashtable_get_def hashtable_search_def ht_view_def Let_def)
qed

lemma hashtable_remove_spec:
  assumes wf: "ht_wf h"
  obtains h' where "hashtable_remove h key = Some (hashtable_get h key, h')" and "ht_wf h'"
    and "ht_size h' = ht_size h" and "elements h' \<le> elements h"
    and "ht_view h' = (ht_view h)(key := tl (ht_view h key))"
proof (cases rule: chain_find_cases [of key "bucket h ! (key mod ht_size h)"])
  case 1
  have "hashtable_remove h key = Some (hashtable_get h key, h)"
    using wf 1 by (simp add: hashtable_remove_def hashtable_get_def hashtable_search_def Let_def ht_wf_def)
  moreover have "ht_view h = (ht_view h)(key := tl (ht_view h key))"
    using 1 by (auto simp: ht_view_def fun_eq_iff)
  ultimately show ?thesis using wf that by blast
next
  case (2 v rest)
  let ?i = "key mod ht_size h"
  let ?h = "h\<lparr>bucket := (bucket h)[?i := rest], elements := elements h - 1\<rparr>"
  note cf = chain_find_Some [OF 2(1)]
  have pos: "0 < ht_size h" using wf by (simp add: ht_wf_def)
  have "bucket h ! ?i \<in> set (bucket h)" using ht_wf_bucket [OF wf] by simp
  then have "length (bucket h ! ?i) \<le> length (concat (bucket h))"
    by (simp add: length_concat member_le_sum_list)
  then have cnt: "elements h - 1 + length (bucket h ! ?i) = elements h + length rest"
    using cf wf by (simp add: ht_wf_def)
  have "ht_wf ?h"
  proof (rule ht_wf_bucket_update [OF wf _ _ cnt])
    show "fst p mod ht_size h = ?i" if "p \<in> set rest" for p
      using that cf ht_wf_chain [OF wf, of p key] by blast
  qed (simp add: pos)
  moreover have "ht_view ?h = (ht_view h)(key := tl (ht_view h key))"
    using wf cf by (subst ht_view_bucket_update) (auto simp: ht_view_def 2(2))
  moreover have "hashtable_remove h key = Some (hashtable_get h key, ?h)"
    using pos 2 by (simp add: hashtable_remove_def hashtable_get_def hashtable_search_def Let_def)
  ultimately show ?thesis using that by simp
qed

lemma put_entry_spec:
  assumes wf: "ht_wf h"
  obtains h' where "put_entry h key v = Some h'" and "ht_wf h'" and "ht_size h' = ht_size h"
    and "elements h' = elements h + 1" and "ht_view h' = (ht_view h)(key := v # ht_view h key)"
proof -
  let ?i = "key mod ht_size h"
  let ?b = "(key, v) # bucket h ! ?i"
  let ?h = "h\<lparr>bucket := (bucket h)[?i := ?b], elements := elements h + 1\<rparr>"
  have pos: "0 < ht_size h" using wf by (simp add: ht_wf_def)
  have "put_entry h key v = Some ?h"
    using pos by (simp add: put_entry_def Let_def)
  moreover have "ht_wf ?h"
  proof (rule ht_wf_bucket_update [OF wf])
    show "fst p mod ht_size h = ?i" if "p \<in> set ?b" for p
      using that ht_wf_chain [OF wf, of p key] by auto
  qed (simp_all add: pos)
  moreover have "ht_view ?h = (ht_view h)(key := v # ht_view h key)"
    using wf by (subst ht_view_bucket_update) (auto simp: ht_view_def)
  ultimately show ?thesis using that by simp
qed

section \<open>Growing\<close>

lemma put_depth_light:
  "4 * (elements h + 1) \<le> 3 * ht_size h \<Longrightarrow> put_depth (Suc n) h key v = put_entry h key v"
  by (simp add: above_load_factor_def)

lemma put_list_spec:
  assumes "ht_wf h" and "4 * (elements h + length es) \<le> 3 * ht_size h"
  shows "\<exists>h'. put_list (put_depth (Suc n)) h es = Some h' \<and> ht_wf h' \<and> ht_size h' = ht_size h
     \<and> elements h' = elements h + length es
     \<and> ht_view h' = (\<lambda>j. rev (chain_values j es) @ ht_view h j)"
  using assms
proof (induction es arbitrary: h)
  case Nil
  then show ?case by simp
next
  case (Cons e es)
  obtain k v where e: "e = (k, v)" by (cases e)
  obtain h1 where put: "put_entry h k v = Some h1" and h1: "ht_wf h1" "ht_size h1 = ht_size h"
      "elements h1 = elements h + 1" and view: "ht_view h1 = (ht_view h)(k := v # ht_view h k)"
    using put_entry_spec [OF Cons.prems(1)] by metis
  have step: "put_depth (Suc n) h k v = Some h1"
    using Cons.prems(2) put by (subst put_depth_light) simp_all
  have "4 * (elements h1 + length es) \<le> 3 * ht_size h1"
    using Cons.prems(2) h1 by simp
  from Cons.IH [OF h1(1) this] obtain h' where
    "put_list (put_depth (Suc n)) h1 es = Some h'" "ht_wf h'" "ht_size h' = ht_size h1"
    "elements h' = elements h1 + length es"
    "ht_view h' = (\<lambda>j. rev (chain_values j es) @ ht_view h1 j)" by blast
  then show ?case
    using step h1 by (auto simp: e view fun_eq_iff simp del: put_depth.simps)
qed

lemma chain_values_concat:
  assumes wf: "ht_wf h"
  shows "chain_values key (concat (bucket h)) = ht_view h key"
proof -
  let ?i = "key mod ht_size h"
  have i: "?i < length (bucket h)" using wf by (rule ht_wf_bucket)
  have other: "chain_values key (concat bs) = []"
    if "\<And>b. b \<in> set bs \<Longrightarrow> \<exists>k. k < ht_size h \<and> k \<noteq> ?i \<and> b = bucket h ! k" for bs
  proof (rule chain_values_empty)
    fix p assume "p \<in> set (concat bs)"
    then obtain b where "b \<in> set bs" and "p \<in> set b" by auto
    with that obtain k where "k < ht_size h" "k \<noteq> ?i" "p \<in> set (bucket h ! k)" by blast
    then show "fst p \<noteq> key" using wf by (auto simp: ht_wf_def)
  qed
  have take: "chain_values key (concat (take ?i (bucket h))) = []"
  proof (rule other)
    fix b assume "b \<in> set (take ?i (bucket h))"
    then show "\<exists>k. k < ht_size h \<and> k \<noteq> ?i \<and> b = bucket h ! k"
      using wf in_set_take_nth [of b ?i "bucket h"] by (metis ht_wf_def nat_neq_iff)
  qed
  have drop: "chain_values key (concat (drop (Suc ?i) (bucket h))) = []"
  proof (rule other)
    fix b assume "b \<in> set (drop (Suc ?i) (bucket h))"
    then show "\<exists>k. k < ht_size h \<and> k \<noteq> ?i \<and> b = bucket h ! k"
      using wf in_set_drop_nth [of b ?i "bucket h"] by (metis ht_wf_def nat_neq_iff)
  qed
  have "concat (bucket h) = concat (take ?i (bucket h)) @ bucket h ! ?i @ concat (drop (Suc ?i) (bucket h))"
    by (subst id_take_nth_drop [OF i]) simp
  then show ?thesis using take drop by (simp add: ht_view_def)
qed

lemma rehash_with_spec:
  assumes inv: "ht_inv h"
  shows "\<exists>h'. rehash_with (put_depth (Suc n)) h = Some h' \<and> ht_wf h' \<and> ht_size h' = 2 * ht_size h
     \<and> elements h' = elements h \<and> ht_view h' = (\<lambda>j. rev (ht_view h j))"
proof -
  let ?new = "hashtable_init (ht_size h * 2) :: 'a hashtable"
  have wf: "ht_wf h" using inv by (simp add: ht_inv_def)
  have new: "ht_wf ?new" "ht_view ?new = (\<lambda>_. [])"
    using ht_wf_init [of "ht_size h * 2"] wf by (auto simp: ht_wf_def)
  have sz: "ht_size ?new = 2 * ht_size h" "elements ?new = 0"
    by (simp_all add: hashtable_init_def)
  have "4 * (elements ?new + length (concat (bucket h))) \<le> 3 * ht_size ?new"
    using inv by (simp add: sz ht_inv_def ht_wf_def)
  from put_list_spec [OF new(1) this] obtain h1 where h1:
    "put_list (put_depth (Suc n)) ?new (concat (bucket h)) = Some h1" "ht_wf h1"
    "ht_size h1 = 2 * ht_size h" "elements h1 = length (concat (bucket h))"
    "ht_view h1 = (\<lambda>j. rev (ht_view h j))"
    using new sz by (auto simp: chain_values_concat [OF wf])
  let ?h = "h\<lparr>bucket := bucket h1, ht_size := ht_size h1, elements := elements h1\<rparr>"
  have "rehash_with (put_depth (Suc n)) h = Some ?h"
    using h1 by (simp add: rehash_with_def del: put_depth.simps)
  moreover have "ht_view ?h = ht_view h1" by (simp add: fun_eq_iff ht_view_def)
  moreover have "ht_wf ?h" using h1(2) by (simp add: ht_wf_def)
  ultimately show ?thesis using h1 wf by (simp add: ht_wf_def)
qed

text \<open>The values each key holds before the new entry goes in.\<close>

definition grown_view :: "'v hashtable \<Rightarrow> nat \<Rightarrow> 'v list" where
  "grown_view h = (if above_load_factor h then (\<lambda>j. rev (ht_view h j)) else ht_view h)"

lemma put_depth_spec:
  assumes inv: "ht_inv h"
  shows "\<exists>h'. put_depth (Suc (Suc n)) h key v = Some h' \<and> ht_inv h'
     \<and> ht_view h' = (grown_view h)(key := v # grown_view h key)"
proof -
  have wf: "ht_wf h" using inv by (simp add: ht_inv_def)
  obtain h1 where grow: "(if above_load_factor h then rehash_with (put_depth (Suc n)) h else Some h) = Some h1"
      and h1: "ht_wf h1" "ht_view h1 = grown_view h" "4 * (elements h1 + 1) \<le> 3 * ht_size h1"
  proof (cases "above_load_factor h")
    case True
    obtain h1 where "rehash_with (put_depth (Suc n)) h = Some h1" "ht_wf h1"
        "ht_size h1 = 2 * ht_size h" "elements h1 = elements h" "ht_view h1 = (\<lambda>j. rev (ht_view h j))"
      using rehash_with_spec [OF inv] by blast
    moreover have "4 * (elements h + 1) \<le> 3 * (2 * ht_size h)"
    proof -
      have "4 * elements h \<le> 3 * ht_size h" and "0 < ht_size h"
        using inv by (simp_all add: ht_inv_def ht_wf_def)
      then show ?thesis by presburger
    qed
    ultimately show ?thesis using that True by (simp add: grown_view_def del: put_depth.simps)
  next
    case False
    then show ?thesis using that wf by (simp add: grown_view_def above_load_factor_def)
  qed
  obtain h' where "put_entry h1 key v = Some h'" "ht_wf h'" "ht_size h' = ht_size h1"
      "elements h' = elements h1 + 1" "ht_view h' = (ht_view h1)(key := v # ht_view h1 key)"
    using put_entry_spec [OF h1(1)] by metis
  then show ?thesis using grow h1 by (simp add: ht_inv_def del: put_depth.simps add: put_depth.simps(2) [of "Suc n"])
qed

text \<open>Depth two is enough: deeper nesting gives the same table.\<close>

lemma hashtable_put_total:
  assumes "ht_inv h"
  shows "\<exists>h'. hashtable_put h key v = Some h' \<and> ht_inv h'
     \<and> ht_view h' = (grown_view h)(key := v # grown_view h key)"
  using put_depth_spec [OF assms, of 0 key v] by (simp only: hashtable_put_def numeral_2_eq_2)

lemma rehash_total:
  assumes "ht_inv h"
  shows "\<exists>h'. rehash h = Some h' \<and> ht_wf h' \<and> ht_size h' = 2 * ht_size h
     \<and> elements h' = elements h \<and> ht_view h' = (\<lambda>j. rev (ht_view h j))"
  using rehash_with_spec [OF assms, of 0] by (simp only: rehash_def One_nat_def)

section \<open>The table as a dictionary\<close>

text \<open>
  What clients rely on: a partial function of the keys in which an absent key can be
  entered and a present one removed. Entering a key that is present is outside the
  contract.
\<close>

locale dictionary =
  fixes get :: "'t \<Rightarrow> nat \<Rightarrow> 'v option"
    and put :: "'t \<Rightarrow> nat \<Rightarrow> 'v \<Rightarrow> 't option"
    and remove :: "'t \<Rightarrow> nat \<Rightarrow> ('v option \<times> 't) option"
    and inv :: "'t \<Rightarrow> bool"
  assumes put_absent: "inv t \<Longrightarrow> get t k = None \<Longrightarrow>
      \<exists>t'. put t k v = Some t' \<and> inv t' \<and> get t' = (get t)(k := Some v)"
    and remove_key: "inv t \<Longrightarrow>
      \<exists>t'. remove t k = Some (get t k, t') \<and> inv t' \<and> get t' = (get t)(k := None)"
begin

lemma put_remove:
  assumes "inv t" and "get t k = None"
  shows "\<exists>t1 t2. put t k v = Some t1 \<and> remove t1 k = Some (Some v, t2) \<and> inv t2 \<and> get t2 = get t"
proof -
  obtain t1 where t1: "put t k v = Some t1" "inv t1" "get t1 = (get t)(k := Some v)"
    using put_absent [OF assms] by blast
  obtain t2 where "remove t1 k = Some (get t1 k, t2)" "inv t2" "get t2 = (get t1)(k := None)"
    using remove_key [OF t1(2)] by blast
  moreover have "(get t)(k := None) = get t" using assms(2) by (simp add: fun_upd_idem)
  ultimately show ?thesis using t1 by auto
qed

end

definition ht_dict :: "'v hashtable \<Rightarrow> bool" where
  "ht_dict h \<longleftrightarrow> ht_inv h \<and> ht_unique h"

lemma ht_get_unique:
  "ht_wf h \<Longrightarrow> hashtable_get h = (\<lambda>k. case ht_view h k of [] \<Rightarrow> None | v # _ \<Rightarrow> Some v)"
  by (simp add: fun_eq_iff hashtable_get_view)

lemma grown_view_unique: "ht_unique h \<Longrightarrow> grown_view h = ht_view h"
proof -
  assume u: "ht_unique h"
  have "rev (ht_view h j) = ht_view h j" for j
    using u [unfolded ht_unique_def, rule_format, of j] by (cases "ht_view h j") auto
  then show ?thesis by (simp add: grown_view_def)
qed

lemma hashtable_put_dict:
  assumes d: "ht_dict h" and absent: "hashtable_get h k = None"
  shows "\<exists>h'. hashtable_put h k v = Some h' \<and> ht_dict h' \<and> hashtable_get h' = (hashtable_get h)(k := Some v)"
proof -
  have inv: "ht_inv h" and wf: "ht_wf h" and u: "ht_unique h"
    using d by (simp_all add: ht_dict_def ht_inv_def)
  obtain h' where h': "hashtable_put h k v = Some h'" "ht_inv h'"
      and view: "ht_view h' = (ht_view h)(k := v # ht_view h k)"
    using hashtable_put_total [OF inv] grown_view_unique [OF u] by metis
  have nil: "ht_view h k = []"
    using absent by (simp add: hashtable_get_view [OF wf] split: list.splits)
  have "ht_unique h'" using u nil by (simp add: ht_unique_def view)
  moreover have "hashtable_get h' = (hashtable_get h)(k := Some v)"
    using h'(2) wf nil by (auto simp: ht_get_unique ht_inv_def view fun_eq_iff)
  ultimately show ?thesis using h' by (simp add: ht_dict_def)
qed

lemma hashtable_remove_dict:
  assumes d: "ht_dict h"
  shows "\<exists>h'. hashtable_remove h k = Some (hashtable_get h k, h') \<and> ht_dict h'
     \<and> hashtable_get h' = (hashtable_get h)(k := None)"
proof -
  have wf: "ht_wf h" and load: "4 * elements h \<le> 3 * ht_size h" and u: "ht_unique h"
    using d by (simp_all add: ht_dict_def ht_inv_def)
  obtain h' where h': "hashtable_remove h k = Some (hashtable_get h k, h')" "ht_wf h'"
      "ht_size h' = ht_size h" "elements h' \<le> elements h"
      and view: "ht_view h' = (ht_view h)(k := tl (ht_view h k))"
    using hashtable_remove_spec [OF wf] by metis
  have tl: "tl (ht_view h k) = []"
    using u [unfolded ht_unique_def, rule_format, of k] by (cases "ht_view h k") auto
  have "ht_unique h'" using u by (simp add: ht_unique_def view tl)
  moreover have "hashtable_get h' = (hashtable_get h)(k := None)"
    using h'(2) wf by (auto simp: ht_get_unique view tl fun_eq_iff)
  ultimately show ?thesis using h' load by (auto simp: ht_dict_def ht_inv_def)
qed

interpretation ht: dictionary hashtable_get hashtable_put hashtable_remove ht_dict
  by unfold_locales (blast intro: hashtable_put_dict hashtable_remove_dict)+

lemma hashtable_init_fields [simp]:
  "elements (hashtable_init n) = 0" "ht_size (hashtable_init n) = n"
  by (simp_all add: hashtable_init_def)

lemma ht_dict_init:
  assumes "0 < n"
  shows "ht_dict (hashtable_init n :: 'v hashtable)"
    and "hashtable_get (hashtable_init n :: 'v hashtable) = (\<lambda>_. None)"
  using ht_wf_init [OF assms, where 'v = 'v] by (simp_all add: ht_dict_def ht_inv_def ht_unique_def ht_get_unique)

section \<open>Cloning\<close>

lemma clone_keys_spec:
  assumes "ht_dict cloned" and "distinct is" and "\<And>i. i \<in> set is \<Longrightarrow> hashtable_get cloned i = None"
  shows "\<exists>c. clone_keys m is cloned = Some c \<and> ht_dict c
     \<and> hashtable_get c = (\<lambda>k. if k \<in> set is then hashtable_get m k else hashtable_get cloned k)"
  using assms
proof (induction "is" arbitrary: cloned)
  case Nil
  then show ?case by simp
next
  case (Cons i js)
  show ?case
  proof (cases "hashtable_get m i")
    case None
    then show ?thesis using Cons.IH [of cloned] Cons.prems by (auto simp: fun_eq_iff)
  next
    case (Some v)
    obtain c1 where c1: "hashtable_put cloned i v = Some c1" "ht_dict c1"
        "hashtable_get c1 = (hashtable_get cloned)(i := Some v)"
      using ht.put_absent [of cloned i v] Cons.prems by auto
    have "hashtable_get c1 j = None" if "j \<in> set js" for j using that c1(3) Cons.prems by auto
    then obtain c where "clone_keys m js c1 = Some c" "ht_dict c"
        "hashtable_get c = (\<lambda>k. if k \<in> set js then hashtable_get m k else hashtable_get c1 k)"
      using Cons.IH [OF c1(2)] Cons.prems(2) by auto
    then show ?thesis using c1 Cons.prems(2) Some by (auto simp: fun_eq_iff)
  qed
qed

section \<open>Properties\<close>

text \<open>Putting a key into a table within its load bound always returns (growing the table at
  most once), keeps the bound, and pushes the value on the stack of values of its key; when
  the table has to grow, the stacks of all keys are reversed first.\<close>

lemma hashtable_put_stacks:
  assumes "ht_inv h"
  shows "\<exists>h'. hashtable_put h key v = Some h' \<and> ht_inv h'
     \<and> ht_view h' key = v # (if above_load_factor h then rev (ht_view h key) else ht_view h key)
     \<and> (\<forall>k. k \<noteq> key \<longrightarrow> ht_view h' k = (if above_load_factor h then rev (ht_view h k) else ht_view h k))"
  using hashtable_put_total [OF assms, of key v] by (auto simp: grown_view_def)

lemma hashtable_put_stacks_witness:
  "ht_inv (hashtable_init 4 :: nat hashtable)
   \<and> (\<exists>h'. hashtable_put (hashtable_init 4) 7 (42::nat) = Some h' \<and> ht_inv h' \<and> hd (ht_view h' 7) = 42)"
proof -
  have "ht_inv (hashtable_init 4 :: nat hashtable)" using ht_dict_init(1) [of 4, where 'v = nat] by (simp add: ht_dict_def)
  then show ?thesis using hashtable_put_stacks [of "hashtable_init 4" 7 "42::nat"] by auto
qed

text \<open>C28: on a table without duplicate keys, entering an absent key makes exactly that key
  readable with its value, and removing it again returns the value and restores every
  lookup.\<close>

theorem hashtable_put_get_remove:
  assumes "ht_dict h" and "hashtable_get h k = None"
  shows "\<exists>h1 h2. hashtable_put h k v = Some h1 \<and> hashtable_get h1 = (hashtable_get h)(k := Some v)
     \<and> hashtable_remove h1 k = Some (Some v, h2) \<and> ht_dict h2 \<and> hashtable_get h2 = hashtable_get h"
  using ht.put_remove [OF assms, of v] ht.put_absent [OF assms, of v] by auto

theorem hashtable_put_get_remove_witness:
  "ht_dict (hashtable_init 3 :: nat hashtable)
   \<and> (\<exists>h1 h2. hashtable_put (hashtable_init 3) 5 (9::nat) = Some h1 \<and> hashtable_get h1 5 = Some 9
        \<and> hashtable_remove h1 5 = Some (Some 9, h2))"
proof -
  note init = ht_dict_init [of 3, where 'v = nat, simplified]
  show ?thesis using init hashtable_put_get_remove [OF init(1), of 5 9] by auto
qed

text \<open>When a table that is about to grow holds two values under one key, the put of any other
  key makes the older value visible again and hides the newer one.\<close>

lemma hashtable_growth_unshadows:
  assumes "ht_inv h" and "above_load_factor h" and "ht_view h k = [new, old]" and "key \<noteq> k"
  shows "hashtable_get h k = Some new
     \<and> (\<exists>h'. hashtable_put h key v = Some h' \<and> hashtable_get h' k = Some old)"
proof -
  obtain h' where "hashtable_put h key v = Some h'" "ht_inv h'" "ht_view h' k = [old, new]"
    using hashtable_put_total [OF assms(1), of key v] assms by (auto simp: grown_view_def)
  then show ?thesis using assms by (auto simp: hashtable_get_view ht_inv_def)
qed

lemma hashtable_growth_unshadows_witness:
  "\<exists>h. put_list hashtable_put (hashtable_init 4) [(6, 10), (6, 20), (1, 30)] = Some (h :: nat hashtable)
     \<and> hashtable_get h 6 = Some 20
     \<and> (\<exists>h'. hashtable_put h 2 40 = Some h' \<and> hashtable_get h' 6 = Some 10)"
proof -
  let ?h = "\<lparr>ht_size = 4, elements = 3, bucket = [[], [(1, 30)], [(6, 20), (6, 10)], []]\<rparr> :: nat hashtable"
  have run: "put_list hashtable_put (hashtable_init 4) [(6, 10), (6, 20), (1, 30)] = Some ?h"
    by code_simp
  have view: "ht_view ?h 6 = [20, 10]" by code_simp
  have "i \<in> {0, 1, 2, 3}" if "i < 4" for i :: nat using that by auto
  then have "\<forall>i < 4. \<forall>p \<in> set (bucket ?h ! i). fst p mod 4 = i" by fastforce
  then have "ht_inv ?h" by (simp add: ht_inv_def ht_wf_def)
  moreover have "above_load_factor ?h" by code_simp
  ultimately show ?thesis using run hashtable_growth_unshadows [OF _ _ view, of 2 40] by auto
qed

text \<open>\<open>hashtable_clone_map\<close> always returns; the copy holds the keys below the size of the
  table with their values, and no other key of the original.\<close>

lemma hashtable_clone_map_spec:
  assumes "ht_dict m"
  shows "\<exists>c. hashtable_clone_map m = Some c \<and> ht_dict c
     \<and> hashtable_get c = (\<lambda>k. if k < ht_size m then hashtable_get m k else None)"
proof -
  have "0 < ht_size m" using assms by (simp add: ht_dict_def ht_inv_def ht_wf_def)
  note init = ht_dict_init [OF this, where 'v = 'a]
  show ?thesis
    using clone_keys_spec [OF init(1), of "[0 ..< ht_size m]" m] by (auto simp: hashtable_clone_map_def init(2) cong: if_cong)
qed

lemma hashtable_clone_map_spec_witness:
  "\<exists>m c. hashtable_put (hashtable_init 4) 9 (1::nat) = Some m \<and> hashtable_clone_map m = Some c
     \<and> hashtable_get m 9 = Some 1 \<and> hashtable_get c 9 = None"
proof -
  note init = ht_dict_init [of 4, where 'v = nat, simplified]
  obtain m where m: "hashtable_put (hashtable_init 4) 9 (1::nat) = Some m" "ht_dict m"
      "hashtable_get m = (\<lambda>_. None)(9 := Some 1)"
    using ht.put_absent [OF init(1), of 9 1] init(2) by auto
  have "(hashtable_put (hashtable_init 4) 9 (1::nat)) =
      Some \<lparr>ht_size = 4, elements = 1, bucket = [[], [(9, 1)], [], []]\<rparr>" by code_simp
  then have "ht_size m = 4" using m(1) by auto
  then show ?thesis using m hashtable_clone_map_spec [OF m(2)] by auto
qed

end
