(* ===== verification/Allocator.thy ===== *)
theory Allocator
  imports Prelude
begin

text \<open>
  The contract between the kernel allocator and the code that stores its nodes in it:
  \<open>kmalloc\<close> returns a block that is not in use, \<open>kfree\<close> takes one back, both under an
  invariant of the allocator's own state. Running out of memory shows as a panic, which
  the allocator counts and which never goes down.
\<close>

locale allocator =
  fixes alloc :: "nat \<Rightarrow> 'm \<Rightarrow> (addr \<times> 'm) option"
    and release :: "addr \<Rightarrow> 'm \<Rightarrow> 'm option"
    and live :: "'m \<Rightarrow> addr set"
    and minv :: "'m \<Rightarrow> bool"
    and panics :: "'m \<Rightarrow> nat"
  assumes alloc_panics: "alloc sz m = Some (a, m') \<Longrightarrow> panics m \<le> panics m'"
    and alloc_fresh: "minv m \<Longrightarrow> alloc sz m = Some (a, m') \<Longrightarrow> panics m' = panics m \<Longrightarrow>
      minv m' \<and> a \<notin> live m \<and> live m' = insert a (live m) \<and> 0 < a \<and> a < 0xf0000000"
    and release_live: "minv m \<Longrightarrow> a \<in> live m \<Longrightarrow>
      \<exists>m'. release a m = Some m' \<and> minv m' \<and> live m' = live m - {a} \<and> panics m' = panics m"
begin

lemma alloc_release:
  assumes "minv m" and "alloc sz m = Some (a, m')" and "panics m' = panics m"
  shows "\<exists>m''. release a m' = Some m'' \<and> minv m'' \<and> live m'' = live m \<and> panics m'' = panics m"
proof -
  note fresh = alloc_fresh [OF assms]
  then have "a \<in> live m'" by simp
  then obtain m'' where "release a m' = Some m''" "minv m''" "live m'' = live m' - {a}"
      "panics m'' = panics m'"
    using release_live fresh by blast
  moreover have "live m' - {a} = live m" using fresh by auto
  ultimately show ?thesis using assms(3) by simp
qed

text \<open>Two requests in a row are served with different blocks.\<close>

lemma alloc_alloc_distinct:
  assumes "minv m" and "alloc s m = Some (a, m1)" and "alloc t m1 = Some (b, m2)"
    and "panics m2 = panics m"
  shows "a \<noteq> b" and "live m2 = {a, b} \<union> live m" and "minv m2" and "panics m1 = panics m"
proof -
  have p: "panics m1 = panics m"
    using alloc_panics [OF assms(2)] alloc_panics [OF assms(3)] assms(4) by simp
  note f1 = alloc_fresh [OF assms(1,2) p]
  have f2: "minv m2 \<and> b \<notin> live m1 \<and> live m2 = insert b (live m1) \<and> 0 < b \<and> b < 0xf0000000"
    using alloc_fresh f1 assms(3,4) p by metis
  show "a \<noteq> b" and "live m2 = {a, b} \<union> live m" and "minv m2" and "panics m1 = panics m"
    using f1 f2 p by auto
qed

end

end
