(* ===== verification/Kmalloc.thy ===== *)
theory Kmalloc
  imports Fixed_Size Hashtable Allocator
begin

text \<open>
  The kernel allocator of \<^verbatim>\<open>src/memory_manager/kmalloc.c\<close>: sixteen fixed-size pools of
  4, 8, \<dots>, 131072 byte blocks laid out one after the other, with the constants of
  \<^verbatim>\<open>src/include/memory_manager/general.h\<close> and \<^verbatim>\<open>src/include/virtual_memory/vm.h\<close>. The
  interface the rest of the kernel relies on is the locale \<open>allocator\<close>, interpreted at the
  end on \<open>kmalloc\<close> and \<open>kfree\<close>.
\<close>

section \<open>The memory layout\<close>

definition VIRT_MEM_START_ADDR :: nat where "VIRT_MEM_START_ADDR = 0xC0000000"
definition PHY_MEM_START_ADDR :: nat where "PHY_MEM_START_ADDR = 0x100000"
definition PAGE_SIZE :: nat where "PAGE_SIZE = 0x1000"
definition PHY_MEM_SIZE :: nat where "PHY_MEM_SIZE = 0xC800000"
definition MEM_START_ADDR :: nat where "MEM_START_ADDR = 0x1700000"
definition ALLOCATED_MEM :: nat where "ALLOCATED_MEM = PHY_MEM_SIZE - MEM_START_ADDR"
definition POOL_START_ADDR :: nat where "POOL_START_ADDR = MEM_START_ADDR"
definition POOL_END_ADDR :: nat where "POOL_END_ADDR = POOL_START_ADDR + (ALLOCATED_MEM div 10 - 1)"
definition POOL_NUM :: nat where "POOL_NUM = 16"
definition MEM_TO_POOL :: nat where "MEM_TO_POOL = (POOL_END_ADDR - POOL_START_ADDR) div POOL_NUM"

lemmas layout_defs = VIRT_MEM_START_ADDR_def PHY_MEM_START_ADDR_def PAGE_SIZE_def
  PHY_MEM_SIZE_def MEM_START_ADDR_def ALLOCATED_MEM_def POOL_START_ADDR_def POOL_END_ADDR_def
  POOL_NUM_def MEM_TO_POOL_def

section \<open>State\<close>

record kmem =
  pools :: "a_fixed_size_desc list"
  hdrs :: headers
  kpanics :: nat
  aligned_address_map :: "addr hashtable"

definition panic :: "kmem \<Rightarrow> kmem" where
  "panic m = m\<lparr>kpanics := kpanics m + 1\<rparr>"

definition pool_alloc :: "nat \<Rightarrow> kmem \<Rightarrow> (addr \<times> kmem) option" where
  "pool_alloc i m =
     (case a_fixed_size_alloc (pools m ! i) (hdrs m) of (panicked, a, d, h) \<Rightarrow>
        let m' = m\<lparr>pools := (pools m)[i := d], hdrs := h\<rparr>
        in Some (a, if panicked then panic m' else m'))"

definition pool_release :: "nat \<Rightarrow> addr \<Rightarrow> kmem \<Rightarrow> kmem option" where
  "pool_release i address m =
     (case a_fixed_size_free (pools m ! i) address (hdrs m) of (d, h) \<Rightarrow>
        Some (m\<lparr>pools := (pools m)[i := d], hdrs := h\<rparr>))"

section \<open>Operations\<close>

definition pow2 :: "nat \<Rightarrow> nat" where
  "pow2 x = wrap32 (2 ^ x)"

text \<open>The loop of \<open>init_kmallocs\<close>: each step moves on by one pool and formats it.\<close>

fun init_pools :: "nat \<Rightarrow> addr \<Rightarrow> kmem \<Rightarrow> kmem" where
  "init_pools 0 mem_addr m = m"
| "init_pools (Suc k) mem_addr m =
     (let i = POOL_NUM - Suc k;
          mem_addr' = mem_addr + MEM_TO_POOL;
          (d, h) = a_fixed_size_init (pow2 (2 + i)) mem_addr' MEM_TO_POOL (hdrs m)
      in init_pools k mem_addr' (m\<lparr>pools := (pools m)[i := d], hdrs := h\<rparr>))"

definition ALGND_ADDR_MAP_INIT_SIZE :: nat where "ALGND_ADDR_MAP_INIT_SIZE = 100"

definition init_kmallocs :: "kmem \<Rightarrow> kmem" where
  "init_kmallocs m =
     (let m' = init_pools POOL_NUM (POOL_START_ADDR + VIRT_MEM_START_ADDR - MEM_TO_POOL) m
      in m'\<lparr>aligned_address_map := hashtable_init ALGND_ADDR_MAP_INIT_SIZE\<rparr>)"

text \<open>Before \<open>init_kmallocs\<close> the pool descriptors are zero and the memory holds anything.\<close>

definition boot_kmem :: "headers \<Rightarrow> kmem" where
  "boot_kmem h = \<lparr>pools = replicate POOL_NUM
     \<lparr>first_block = 0, has_initialized = 0, block_size = 0, current_free_block = 0\<rparr>,
     hdrs = h, kpanics = 0, aligned_address_map = hashtable_init 0\<rparr>"

text \<open>
  \<open>kmalloc_pool\<close> is the search loop of \<open>kmalloc\<close>. A request above the largest pool panics
  and then returns an uninitialised pointer. The second panic is a low-water alarm of the
  256-byte pool; the block is still handed out.
\<close>

function kmalloc_pool :: "nat \<Rightarrow> nat \<Rightarrow> nat" where
  "kmalloc_pool i mem_size =
     (if i < POOL_NUM \<and> \<not> mem_size \<le> pow2 (2 + i) then kmalloc_pool (i + 1) mem_size else i)"
  by pat_completeness auto
termination by (relation "measure (\<lambda>(i, s). POOL_NUM - i)") auto

declare kmalloc_pool.simps [simp del]

definition kmalloc :: "nat \<Rightarrow> kmem \<Rightarrow> (addr \<times> kmem) option" where
  "kmalloc mem_size m =
     (let i = kmalloc_pool 0 mem_size
      in if i \<noteq> POOL_NUM
         then do { (a, m') \<leftarrow> pool_alloc i m;
                   Some (a, if i = 6 \<and> current_free_block (pools m' ! i) < 100
                            then panic m' else m') }
         else None)"

text \<open>The unused variant \<^verbatim>\<open>_kmalloc\<close>, a switch over the request.\<close>

definition kmalloc_switch :: "nat \<Rightarrow> kmem \<Rightarrow> (addr \<times> kmem) option" where
  "kmalloc_switch mem_size m =
     (if 0 \<le> mem_size \<and> mem_size \<le> 4 then pool_alloc 0 m
      else if 5 \<le> mem_size \<and> mem_size \<le> 8 then pool_alloc 1 m
      else if 9 \<le> mem_size \<and> mem_size \<le> 16 then pool_alloc 2 m
      else if 17 \<le> mem_size \<and> mem_size \<le> 32 then pool_alloc 3 m
      else if 33 \<le> mem_size \<and> mem_size \<le> 64 then pool_alloc 4 m
      else if 65 \<le> mem_size \<and> mem_size \<le> 128 then pool_alloc 5 m
      else if 129 \<le> mem_size \<and> mem_size \<le> 256 then pool_alloc 6 m
      else if 257 \<le> mem_size \<and> mem_size \<le> 512 then pool_alloc 7 m
      else if 513 \<le> mem_size \<and> mem_size \<le> 1024 then pool_alloc 8 m
      else if 1025 \<le> mem_size \<and> mem_size \<le> 2048 then pool_alloc 9 m
      else if 2049 \<le> mem_size \<and> mem_size \<le> 4096 then pool_alloc 10 m
      else if 4097 \<le> mem_size \<and> mem_size \<le> 8192 then pool_alloc 11 m
      else if 8193 \<le> mem_size \<and> mem_size \<le> 16384 then pool_alloc 12 m
      else if 16385 \<le> mem_size \<and> mem_size \<le> 32768 then pool_alloc 13 m
      else if 32769 \<le> mem_size \<and> mem_size \<le> 65536 then pool_alloc 14 m
      else if 65537 \<le> mem_size \<and> mem_size \<le> 131072 then pool_alloc 15 m
      else None)"

text \<open>
  \<open>kfree_pool\<close> is the search loop of \<open>kfree\<close>; it has no bound of its own, and an address
  past the last pool indexes the descriptor array out of range.
\<close>

function kfree_pool :: "nat \<Rightarrow> nat \<Rightarrow> nat" where
  "kfree_pool i pool_offset =
     (if i < POOL_NUM \<and> (i + 1) * MEM_TO_POOL < pool_offset then kfree_pool (i + 1) pool_offset else i)"
  by pat_completeness auto
termination by (relation "measure (\<lambda>(i, s). POOL_NUM - i)") auto

declare kfree_pool.simps [simp del]

definition pool_offset_of :: "addr \<Rightarrow> nat" where
  "pool_offset_of address = sub32 (sub32 address VIRT_MEM_START_ADDR) POOL_START_ADDR"

definition kfree :: "addr \<Rightarrow> kmem \<Rightarrow> kmem option" where
  "kfree address m =
     (let i = kfree_pool 0 (pool_offset_of address)
      in if i < POOL_NUM then pool_release i address m else None)"

text \<open>The unused variant \<^verbatim>\<open>_kfree\<close>; its default branch panics and frees nothing.\<close>

definition kfree_switch :: "addr \<Rightarrow> kmem \<Rightarrow> kmem option" where
  "kfree_switch address m =
     (let pool_offset = pool_offset_of address in
      if 0 \<le> pool_offset \<and> pool_offset \<le> 1 * MEM_TO_POOL - 1 then pool_release 0 address m
      else if 1 * MEM_TO_POOL \<le> pool_offset \<and> pool_offset \<le> 2 * MEM_TO_POOL - 1 then pool_release 1 address m
      else if 2 * MEM_TO_POOL \<le> pool_offset \<and> pool_offset \<le> 3 * MEM_TO_POOL - 1 then pool_release 2 address m
      else if 3 * MEM_TO_POOL \<le> pool_offset \<and> pool_offset \<le> 4 * MEM_TO_POOL - 1 then pool_release 3 address m
      else if 4 * MEM_TO_POOL \<le> pool_offset \<and> pool_offset \<le> 5 * MEM_TO_POOL - 1 then pool_release 4 address m
      else if 5 * MEM_TO_POOL \<le> pool_offset \<and> pool_offset \<le> 6 * MEM_TO_POOL - 1 then pool_release 5 address m
      else if 6 * MEM_TO_POOL \<le> pool_offset \<and> pool_offset \<le> 7 * MEM_TO_POOL - 1 then pool_release 6 address m
      else if 7 * MEM_TO_POOL \<le> pool_offset \<and> pool_offset \<le> 8 * MEM_TO_POOL - 1 then pool_release 7 address m
      else if 8 * MEM_TO_POOL \<le> pool_offset \<and> pool_offset \<le> 9 * MEM_TO_POOL - 1 then pool_release 8 address m
      else if 9 * MEM_TO_POOL \<le> pool_offset \<and> pool_offset \<le> 10 * MEM_TO_POOL - 1 then pool_release 9 address m
      else if 10 * MEM_TO_POOL \<le> pool_offset \<and> pool_offset \<le> 11 * MEM_TO_POOL - 1 then pool_release 10 address m
      else if 11 * MEM_TO_POOL \<le> pool_offset \<and> pool_offset \<le> 12 * MEM_TO_POOL - 1 then pool_release 11 address m
      else if 12 * MEM_TO_POOL \<le> pool_offset \<and> pool_offset \<le> 13 * MEM_TO_POOL - 1 then pool_release 12 address m
      else if 13 * MEM_TO_POOL \<le> pool_offset \<and> pool_offset \<le> 14 * MEM_TO_POOL - 1 then pool_release 13 address m
      else if 14 * MEM_TO_POOL \<le> pool_offset \<and> pool_offset \<le> 15 * MEM_TO_POOL - 1 then pool_release 14 address m
      else if 15 * MEM_TO_POOL \<le> pool_offset \<and> pool_offset \<le> 16 * MEM_TO_POOL - 1 then pool_release 15 address m
      else Some (panic m))"

definition kfree_mem :: "kmem \<Rightarrow> nat" where
  "kfree_mem m = wrap32 (sum_list (map current_free_block (pools m)))"

text \<open>
  Aligned requests take a larger block and remember the block of each aligned address.
  A zero alignment divides by zero; an unknown address releases the null pointer.
\<close>

definition ALIGNED_TO_OFFSET :: "addr \<Rightarrow> nat \<Rightarrow> addr" where
  "ALIGNED_TO_OFFSET address offset = sub32 (wrap32 (address + offset)) (address mod offset)"

definition aligned_kmalloc :: "nat \<Rightarrow> nat \<Rightarrow> kmem \<Rightarrow> (addr \<times> kmem) option" where
  "aligned_kmalloc mem_size alignment m =
     (if alignment = 0 then None
      else do { (a, m1) \<leftarrow> kmalloc (wrap32 (mem_size + alignment)) m;
                let aligned = ALIGNED_TO_OFFSET a alignment;
                t \<leftarrow> hashtable_put (aligned_address_map m1) aligned a;
                Some (aligned, m1\<lparr>aligned_address_map := t\<rparr>) })"

definition aligned_kfree :: "addr \<Rightarrow> kmem \<Rightarrow> kmem option" where
  "aligned_kfree address m =
     do { (r, t) \<leftarrow> hashtable_remove (aligned_address_map m) address;
          kfree (case r of None \<Rightarrow> 0 | Some a \<Rightarrow> a) (m\<lparr>aligned_address_map := t\<rparr>) }"

section \<open>Invariant\<close>

definition pool_base :: "nat \<Rightarrow> addr" where
  "pool_base i = POOL_START_ADDR + VIRT_MEM_START_ADDR + i * MEM_TO_POOL"

definition km_inv :: "kmem \<Rightarrow> bool" where
  "km_inv m \<longleftrightarrow> length (pools m) = POOL_NUM \<and>
     (\<forall>i < POOL_NUM. pool_inv (pool_base i) (2 ^ (2 + i)) MEM_TO_POOL (pools m ! i) (hdrs m)
                  \<and> pool_closed (pool_base i) (2 ^ (2 + i)) MEM_TO_POOL (pools m ! i) (hdrs m))"

definition km_live_in :: "nat \<Rightarrow> kmem \<Rightarrow> addr set" where
  "km_live_in i m = pool_live (pool_base i) (2 ^ (2 + i)) MEM_TO_POOL (pools m ! i) (hdrs m)"

definition km_live :: "kmem \<Rightarrow> addr set" where
  "km_live m = (\<Union>i < POOL_NUM. km_live_in i m)"

text \<open>
  Every aligned address lies inside its block, and no block serves two aligned addresses.
\<close>

definition aligned_inv :: "kmem \<Rightarrow> bool" where
  "aligned_inv m \<longleftrightarrow> km_inv m \<and> ht_dict (aligned_address_map m)
     \<and> (\<forall>p a. hashtable_get (aligned_address_map m) p = Some a \<longrightarrow>
          (\<exists>i < POOL_NUM. a \<in> km_live_in i m \<and> a < p \<and> p \<le> a + 2 ^ (2 + i)))
     \<and> (\<forall>p q a. hashtable_get (aligned_address_map m) p = Some a \<longrightarrow>
          hashtable_get (aligned_address_map m) q = Some a \<longrightarrow> p = q)"

section \<open>The layout evaluated\<close>

lemma MEM_TO_POOL_eq: "MEM_TO_POOL = 1159987"
  by (simp add: layout_defs)

lemma POOL_NUM_eq: "POOL_NUM = 16"
  by (simp add: POOL_NUM_def)

lemma pool_base_eq: "pool_base i = 0xC1700000 + i * 1159987"
  by (simp add: pool_base_def layout_defs)

lemmas layout_eqs [layout_simps] = MEM_TO_POOL_eq POOL_NUM_eq pool_base_eq

lemma pow2_pool [simp]:
  assumes "i < POOL_NUM"
  shows "pow2 (2 + i) = 2 ^ (2 + i)"
proof -
  have "(2::nat) ^ (2 + i) < 2 ^ 32"
    using assms by (intro power_strict_increasing) (simp_all add: POOL_NUM_eq)
  then show ?thesis by (simp add: pow2_def)
qed

lemma pool_limit: "i < POOL_NUM \<Longrightarrow> pool_base i + MEM_TO_POOL < 2 ^ 32"
  by (simp add: layout_simps)

lemma pool_nonempty:
  assumes "i < POOL_NUM"
  shows "0 < MEM_TO_POOL div (sizeof_block_desc + 2 ^ (2 + i))"
proof -
  have "(2::nat) ^ (2 + i) \<le> 2 ^ 17"
    using assms by (intro power_increasing) (simp_all add: POOL_NUM_eq)
  then have "sizeof_block_desc + 2 ^ (2 + i) \<le> MEM_TO_POOL"
    by (simp add: layout_simps sizeof_block_desc_def)
  moreover have "0 < sizeof_block_desc + 2 ^ (2 + i)"
    by (simp add: sizeof_block_desc_def)
  ultimately show ?thesis by (simp add: div_greater_zero_iff)
qed

lemma pool_regions_disjoint:
  assumes "b \<in> pool_blocks (pool_base i) bs MEM_TO_POOL" and "c \<in> pool_blocks (pool_base j) bs' MEM_TO_POOL"
    and "i < j"
  shows "b + sizeof_block_desc + bs \<le> c"
proof -
  have "b + sizeof_block_desc + bs \<le> pool_base i + MEM_TO_POOL"
    using pool_blocks_bounds(2) [OF assms(1)] .
  also have "\<dots> \<le> pool_base j"
  proof -
    have "Suc i * MEM_TO_POOL \<le> j * MEM_TO_POOL" using assms(3) by (intro mult_le_mono1) simp
    then show ?thesis by (simp add: pool_base_def)
  qed
  also have "\<dots> \<le> c" using pool_blocks_bounds(1) [OF assms(2)] .
  finally show ?thesis .
qed

lemma pool_blocks_not_shared:
  assumes "b \<in> pool_blocks (pool_base i) bs MEM_TO_POOL" and "i \<noteq> j"
  shows "b \<notin> pool_blocks (pool_base j) bs' MEM_TO_POOL"
proof
  assume c: "b \<in> pool_blocks (pool_base j) bs' MEM_TO_POOL"
  show False
    using assms(2) pool_regions_disjoint [OF assms(1) c] pool_regions_disjoint [OF c assms(1)]
    by (cases "i < j") (auto simp: sizeof_block_desc_def)
qed

section \<open>Choosing the pool\<close>

lemma kmalloc_pool_spec:
  assumes "i \<le> POOL_NUM"
  shows "i \<le> kmalloc_pool i sz \<and> kmalloc_pool i sz \<le> POOL_NUM
    \<and> (kmalloc_pool i sz < POOL_NUM \<longrightarrow> sz \<le> 2 ^ (2 + kmalloc_pool i sz))
    \<and> (\<forall>j. i \<le> j \<and> j < kmalloc_pool i sz \<longrightarrow> 2 ^ (2 + j) < sz)"
  using assms
proof (induction i sz rule: kmalloc_pool.induct)
  case (1 i sz)
  show ?case
  proof (cases "i < POOL_NUM \<and> \<not> sz \<le> pow2 (2 + i)")
    case True
    then have step: "kmalloc_pool i sz = kmalloc_pool (i + 1) sz"
      and big: "2 ^ (2 + i) < sz" and le: "i + 1 \<le> POOL_NUM"
      using pow2_pool [of i] by (auto simp: kmalloc_pool.simps [of i sz])
    note IH = "1.IH" [OF True le]
    have "2 ^ (2 + j) < sz" if "i \<le> j" "j < kmalloc_pool (i + 1) sz" for j
      using that IH big by (cases "j = i") auto
    with IH show ?thesis unfolding step by auto
  next
    case False
    then have "kmalloc_pool i sz = i" by (subst kmalloc_pool.simps) (rule if_not_P)
    with False "1.prems" pow2_pool [of i] show ?thesis by auto
  qed
qed

lemma kmalloc_pool_least:
  assumes "i < POOL_NUM" and "sz \<le> 2 ^ (2 + i)" and "\<And>j. j < i \<Longrightarrow> 2 ^ (2 + j) < sz"
  shows "kmalloc_pool 0 sz = i"
proof -
  note sp = kmalloc_pool_spec [of 0 sz]
  let ?r = "kmalloc_pool 0 sz"
  have "\<not> ?r < i" using assms(1,3) sp by fastforce
  moreover have "\<not> i < ?r" using assms(2) sp by fastforce
  ultimately show ?thesis by simp
qed

lemma kfree_pool_spec:
  assumes "i * MEM_TO_POOL < off \<and> off \<le> (i + 1) * MEM_TO_POOL" and "i < POOL_NUM" and "k \<le> i"
  shows "kfree_pool k off = i"
  using assms
proof (induction k off rule: kfree_pool.induct)
  case (1 k off)
  show ?case
  proof (cases "k = i")
    case True
    then show ?thesis using "1.prems" by (subst kfree_pool.simps) auto
  next
    case False
    then have "k + 1 \<le> i" using "1.prems" by simp
    then have "(k + 1) * MEM_TO_POOL \<le> i * MEM_TO_POOL" by (rule mult_le_mono1)
    then have "k < POOL_NUM \<and> (k + 1) * MEM_TO_POOL < off" using "1.prems" by auto
    then show ?thesis
      using "1.IH" "1.prems" \<open>k + 1 \<le> i\<close> by (simp add: kfree_pool.simps [of k off])
  qed
qed

section \<open>The invariant over the operations\<close>

lemma km_invD:
  assumes "km_inv m" and "i < POOL_NUM"
  shows "pool_inv (pool_base i) (2 ^ (2 + i)) MEM_TO_POOL (pools m ! i) (hdrs m)"
    and "pool_closed (pool_base i) (2 ^ (2 + i)) MEM_TO_POOL (pools m ! i) (hdrs m)"
  using assms by (simp_all add: km_inv_def)

lemma km_live_in_block:
  assumes "a \<in> km_live_in i m"
  shows "\<exists>b \<in> pool_blocks (pool_base i) (2 ^ (2 + i)) MEM_TO_POOL. a = b + sizeof_block_desc"
  using assms by (auto simp: km_live_in_def pool_live_def)

lemma km_live_in_disjoint: "i \<noteq> j \<Longrightarrow> a \<in> km_live_in i m \<Longrightarrow> a \<notin> km_live_in j m'"
  using km_live_in_block pool_blocks_not_shared by (metis add_right_cancel)

text \<open>Changing one pool and only links inside it leaves the others as they are.\<close>

lemma km_pool_step:
  assumes inv: "km_inv m" and i: "i < POOL_NUM"
    and pools': "pools m' = (pools m)[i := d]"
    and links: "\<And>x. x \<notin> pool_blocks (pool_base i) (2 ^ (2 + i)) MEM_TO_POOL \<Longrightarrow>
        next_block (hdrs m' x) = next_block (hdrs m x)"
    and pinv: "pool_inv (pool_base i) (2 ^ (2 + i)) MEM_TO_POOL d (hdrs m')"
    and pcl: "pool_closed (pool_base i) (2 ^ (2 + i)) MEM_TO_POOL d (hdrs m')"
  shows "km_inv m'" and "j < POOL_NUM \<Longrightarrow> j \<noteq> i \<Longrightarrow> km_live_in j m' = km_live_in j m"
proof -
  have len: "length (pools m) = POOL_NUM" using inv by (simp add: km_inv_def)
  have other: "pool_inv (pool_base j) (2 ^ (2 + j)) MEM_TO_POOL (pools m ! j) (hdrs m')"
      "pool_live (pool_base j) (2 ^ (2 + j)) MEM_TO_POOL (pools m ! j) (hdrs m')
       = pool_live (pool_base j) (2 ^ (2 + j)) MEM_TO_POOL (pools m ! j) (hdrs m)"
      "pool_closed (pool_base j) (2 ^ (2 + j)) MEM_TO_POOL (pools m ! j) (hdrs m')"
    if "j < POOL_NUM" "j \<noteq> i" for j
    using that km_invD [OF inv that(1)] pool_inv_frame [OF links]
    by (meson pool_blocks_not_shared pool_inv_frame)+
  show "km_inv m'"
    unfolding km_inv_def using len i pinv pcl other by (auto simp: pools' nth_list_update)
  show "km_live_in j m' = km_live_in j m" if "j < POOL_NUM" "j \<noteq> i"
    using other [OF that] that len by (simp add: km_live_in_def pools')
qed

lemma pool_alloc_spec:
  assumes inv: "km_inv m" and i: "i < POOL_NUM" and run: "pool_alloc i m = Some (a, m')"
    and ok: "kpanics m' = kpanics m"
  shows "km_inv m'" and "a \<notin> km_live m" and "a \<in> km_live_in i m'"
    and "km_live m' = insert a (km_live m)"
proof -
  obtain p d h where al: "a_fixed_size_alloc (pools m ! i) (hdrs m) = (p, a, d, h)"
      and m': "m' = (if p then panic (m\<lparr>pools := (pools m)[i := d], hdrs := h\<rparr>)
                     else m\<lparr>pools := (pools m)[i := d], hdrs := h\<rparr>)"
    using run by (auto simp: pool_alloc_def Let_def split: prod.splits)
  have np: "\<not> p" using ok by (auto simp: m' panic_def)
  have eqs: "pools m' = (pools m)[i := d]" "hdrs m' = h" using m' np by auto
  note pinv = pool_inv_alloc [OF al np km_invD(1) [OF inv i] pool_limit [OF i]]
  note pcl = pool_closed_alloc [OF al km_invD(2) [OF inv i]]
  note step = km_pool_step [OF inv i eqs(1), unfolded eqs(2), OF _ pinv(1) pcl]
  show "km_inv m'" by (rule step(1)) (simp add: next_block_alloc [OF al])
  have others: "km_live_in j m' = km_live_in j m" if "j < POOL_NUM" "j \<noteq> i" for j
    using that by (intro step(2)) (simp_all add: next_block_alloc [OF al])
  have mine: "km_live_in i m' = insert a (km_live_in i m)"
    using pinv(3) i inv by (simp add: km_live_in_def eqs km_inv_def)
  show mem: "a \<in> km_live_in i m'" using mine by simp
  have "a \<notin> km_live_in j m" if "j < POOL_NUM" for j
    using pinv(2) km_live_in_disjoint [OF _ mem] by (cases "j = i") (auto simp: km_live_in_def)
  then show "a \<notin> km_live m" by (auto simp: km_live_def)
  have "km_live_in j m' = (if j = i then insert a (km_live_in j m) else km_live_in j m)"
    if "j < POOL_NUM" for j
    using others [OF that] mine by auto
  then show "km_live m' = insert a (km_live m)"
    using i by (auto simp: km_live_def split: if_splits)
qed

lemma pool_release_spec:
  assumes inv: "km_inv m" and i: "i < POOL_NUM" and mem: "a \<in> km_live_in i m"
  shows "\<exists>m'. pool_release i a m = Some m' \<and> km_inv m' \<and> km_live m' = km_live m - {a}
     \<and> kpanics m' = kpanics m \<and> aligned_address_map m' = aligned_address_map m"
proof -
  obtain d h where fr: "a_fixed_size_free (pools m ! i) a (hdrs m) = (d, h)" by fastforce
  let ?m = "m\<lparr>pools := (pools m)[i := d], hdrs := h\<rparr>"
  have eqs: "pools ?m = (pools m)[i := d]" by simp
  note pf = pool_inv_free [OF fr mem [unfolded km_live_in_def] km_invD(1) [OF inv i] pool_limit [OF i]]
  obtain b where b: "b \<in> pool_blocks (pool_base i) (2 ^ (2 + i)) MEM_TO_POOL" "a = b + sizeof_block_desc"
    using km_live_in_block [OF mem] by blast
  have links: "next_block (hdrs ?m x) = next_block (hdrs m x)"
    if "x \<notin> pool_blocks (pool_base i) (2 ^ (2 + i)) MEM_TO_POOL" for x
  proof -
    have "x \<noteq> a - sizeof_block_desc" using b that by auto
    then show ?thesis using pf(3) by simp
  qed
  have pinv: "pool_inv (pool_base i) (2 ^ (2 + i)) MEM_TO_POOL d (hdrs ?m)"
    and pcl: "pool_closed (pool_base i) (2 ^ (2 + i)) MEM_TO_POOL d (hdrs ?m)"
    using pf(1) pf(5) [OF km_invD(2) [OF inv i]] by simp_all
  have step: "km_inv ?m" by (rule km_pool_step(1) [OF inv i eqs _ pinv pcl]) (rule links)
  have others: "km_live_in j ?m = km_live_in j m" if "j < POOL_NUM" "j \<noteq> i" for j
    by (rule km_pool_step(2) [OF inv i eqs _ pinv pcl that]) (rule links)
  have mine: "km_live_in i ?m = km_live_in i m - {a}"
    using pf(2) i inv by (simp add: km_live_in_def km_inv_def)
  have "km_live_in j ?m = km_live_in j m - {a}" if "j < POOL_NUM" for j
    using others [OF that] mine km_live_in_disjoint [OF _ mem, of j] by (cases "j = i") auto
  then have "km_live ?m = km_live m - {a}" by (auto simp: km_live_def)
  moreover have "pool_release i a m = Some ?m" by (simp add: pool_release_def fr)
  ultimately show ?thesis using step by simp
qed

subsection \<open>kmalloc and kfree\<close>

lemma kpanics_pool_alloc: "pool_alloc i m = Some (a, m') \<Longrightarrow> kpanics m \<le> kpanics m'"
  by (auto simp: pool_alloc_def Let_def panic_def split: prod.splits)

lemma kmalloc_cases:
  assumes "kmalloc sz m = Some (a, m')"
  obtains i m1 where "i = kmalloc_pool 0 sz" and "i < POOL_NUM" and "sz \<le> 2 ^ (2 + i)"
    and "pool_alloc i m = Some (a, m1)" and "m' = m1 \<or> m' = panic m1"
proof -
  let ?i = "kmalloc_pool 0 sz"
  have "?i \<noteq> POOL_NUM" using assms by (auto simp: kmalloc_def Let_def)
  then have "?i < POOL_NUM" "sz \<le> 2 ^ (2 + ?i)"
    using kmalloc_pool_spec [of 0 sz] by auto
  then show ?thesis using assms that by (auto simp: kmalloc_def Let_def split: if_splits)
qed

lemma kpanics_kmalloc: "kmalloc sz m = Some (a, m') \<Longrightarrow> kpanics m \<le> kpanics m'"
  by (erule kmalloc_cases) (auto simp: panic_def dest: kpanics_pool_alloc)

lemma kmalloc_spec:
  assumes inv: "km_inv m" and run: "kmalloc sz m = Some (a, m')" and ok: "kpanics m' = kpanics m"
  shows "kmalloc_pool 0 sz < POOL_NUM" and "sz \<le> 2 ^ (2 + kmalloc_pool 0 sz)"
    and "pool_alloc (kmalloc_pool 0 sz) m = Some (a, m')"
    and "km_inv m'" and "a \<notin> km_live m" and "a \<in> km_live_in (kmalloc_pool 0 sz) m'"
    and "km_live m' = insert a (km_live m)"
proof -
  obtain m1 where i: "kmalloc_pool 0 sz < POOL_NUM" "sz \<le> 2 ^ (2 + kmalloc_pool 0 sz)"
      and al: "pool_alloc (kmalloc_pool 0 sz) m = Some (a, m1)" and m': "m' = m1 \<or> m' = panic m1"
    using kmalloc_cases [OF run] by metis
  have eq: "m' = m1"
    using m' ok kpanics_pool_alloc [OF al] by (auto simp: panic_def)
  show "kmalloc_pool 0 sz < POOL_NUM" "sz \<le> 2 ^ (2 + kmalloc_pool 0 sz)" by (fact i)+
  show "pool_alloc (kmalloc_pool 0 sz) m = Some (a, m')" using al eq by simp
  show "km_inv m'" "a \<notin> km_live m" "a \<in> km_live_in (kmalloc_pool 0 sz) m'"
    "km_live m' = insert a (km_live m)"
    using pool_alloc_spec [OF inv i(1) al] ok eq by simp_all
qed

lemma km_live_bounds:
  assumes "i < POOL_NUM" and "a \<in> km_live_in i m"
  shows "pool_base i + sizeof_block_desc \<le> a" and "a + 2 ^ (2 + i) \<le> pool_base i + MEM_TO_POOL"
    and "0 < a" and "a < 0xf0000000"
proof -
  obtain b where b: "b \<in> pool_blocks (pool_base i) (2 ^ (2 + i)) MEM_TO_POOL" "a = b + sizeof_block_desc"
    using km_live_in_block [OF assms(2)] by blast
  show lo: "pool_base i + sizeof_block_desc \<le> a" and hi: "a + 2 ^ (2 + i) \<le> pool_base i + MEM_TO_POOL"
    using pool_blocks_bounds [OF b(1)] b(2) by simp_all
  show "0 < a" using b(2) by (simp add: sizeof_block_desc_def)
  show "a < 0xf0000000" using lo hi assms(1) by (simp add: layout_simps sizeof_block_desc_def)
qed

lemma kfree_pool_live:
  assumes i: "i < POOL_NUM" and mem: "a \<in> km_live_in i m"
  shows "kfree_pool 0 (pool_offset_of a) = i" and "i * MEM_TO_POOL < pool_offset_of a"
    and "pool_offset_of a < (i + 1) * MEM_TO_POOL"
proof -
  note bd = km_live_bounds [OF i mem]
  have "VIRT_MEM_START_ADDR \<le> a" "POOL_START_ADDR \<le> a - VIRT_MEM_START_ADDR"
    using bd(1) by (simp_all add: layout_simps layout_defs sizeof_block_desc_def)
  then have off: "pool_offset_of a = a - VIRT_MEM_START_ADDR - POOL_START_ADDR"
    using bd(4) by (simp add: pool_offset_of_def sub32_le)
  have "a < a + 2 ^ (2 + i)" by simp
  then have "a < pool_base i + MEM_TO_POOL" using bd(2) by (rule less_le_trans)
  then show lo: "i * MEM_TO_POOL < pool_offset_of a" and hi: "pool_offset_of a < (i + 1) * MEM_TO_POOL"
    using bd(1) off by (simp_all add: pool_base_def sizeof_block_desc_def)
  show "kfree_pool 0 (pool_offset_of a) = i"
    using lo hi by (intro kfree_pool_spec i) simp_all
qed

lemma kfree_spec:
  assumes "km_inv m" and "a \<in> km_live m"
  shows "\<exists>m'. kfree a m = Some m' \<and> km_inv m' \<and> km_live m' = km_live m - {a}
     \<and> kpanics m' = kpanics m \<and> aligned_address_map m' = aligned_address_map m"
proof -
  obtain i where i: "i < POOL_NUM" "a \<in> km_live_in i m" using assms(2) by (auto simp: km_live_def)
  have "kfree a m = pool_release i a m"
    using i by (simp add: kfree_def kfree_pool_live [OF i])
  then show ?thesis using pool_release_spec [OF assms(1) i] by simp
qed

interpretation km: allocator kmalloc kfree km_live km_inv kpanics
proof unfold_locales
  show "kpanics m \<le> kpanics m'" if "kmalloc sz m = Some (a, m')" for sz m a m'
    using that by (rule kpanics_kmalloc)
next
  fix m sz a m' assume asm: "km_inv m" "kmalloc sz m = Some (a, m')" "kpanics m' = kpanics m"
  note sp = kmalloc_spec [OF asm]
  then show "km_inv m' \<and> a \<notin> km_live m \<and> km_live m' = insert a (km_live m) \<and> 0 < a \<and> a < 0xf0000000"
    using km_live_bounds(3,4) [OF sp(1,6)] by simp
next
  show "\<exists>m'. kfree a m = Some m' \<and> km_inv m' \<and> km_live m' = km_live m - {a} \<and> kpanics m' = kpanics m"
    if "km_inv m" "a \<in> km_live m" for m a
    using kfree_spec [OF that] by blast
qed

subsection \<open>Initialisation\<close>

lemma init_pools_spec:
  assumes "k \<le> POOL_NUM" and "length (pools m) = POOL_NUM"
    and "mem_addr + MEM_TO_POOL = pool_base (POOL_NUM - k)"
    and "\<forall>i < POOL_NUM - k. pool_inv (pool_base i) (2 ^ (2 + i)) MEM_TO_POOL (pools m ! i) (hdrs m)
        \<and> pool_closed (pool_base i) (2 ^ (2 + i)) MEM_TO_POOL (pools m ! i) (hdrs m)
        \<and> km_live_in i m = {}"
  shows "km_inv (init_pools k mem_addr m) \<and> km_live (init_pools k mem_addr m) = {}
    \<and> kpanics (init_pools k mem_addr m) = kpanics m"
  using assms
proof (induction k arbitrary: mem_addr m)
  case 0
  then show ?case by (auto simp: km_inv_def km_live_def)
next
  case (Suc k)
  let ?i = "POOL_NUM - Suc k"
  let ?bs = "(2::nat) ^ (2 + ?i)"
  have i: "?i < POOL_NUM" and ki: "POOL_NUM - k = Suc ?i" using Suc.prems(1) by simp_all
  obtain d h where ini: "a_fixed_size_init ?bs (pool_base ?i) MEM_TO_POOL (hdrs m) = (d, h)" by fastforce
  let ?m = "m\<lparr>pools := (pools m)[?i := d], hdrs := h\<rparr>"
  have run: "init_pools (Suc k) mem_addr m = init_pools k (pool_base ?i) ?m"
    using Suc.prems(3) pow2_pool [OF i] ini by (simp add: Let_def del: pow2_pool add_2_eq_Suc)
  note pos = pool_nonempty [OF i]
  have here: "pool_inv (pool_base ?i) ?bs MEM_TO_POOL d h" "pool_closed (pool_base ?i) ?bs MEM_TO_POOL d h"
      "pool_live (pool_base ?i) ?bs MEM_TO_POOL d h = {}"
    using pool_inv_init [OF ini pos] pool_closed_init [OF ini pos] by simp_all
  have ready: "pool_inv (pool_base j) (2 ^ (2 + j)) MEM_TO_POOL (pools ?m ! j) (hdrs ?m)
        \<and> pool_closed (pool_base j) (2 ^ (2 + j)) MEM_TO_POOL (pools ?m ! j) (hdrs ?m)
        \<and> km_live_in j ?m = {}" if "j < POOL_NUM - k" for j
  proof (cases "j = ?i")
    case True
    then show ?thesis using here Suc.prems(2) i by (simp add: km_live_in_def)
  next
    case False
    then have j: "j < ?i" using that ki by simp
    have frame: "next_block (h b) = next_block (hdrs m b)"
      if "b \<in> pool_blocks (pool_base j) (2 ^ (2 + j)) MEM_TO_POOL" for b
      using a_fixed_size_init_spec(3) [OF ini pos] pool_blocks_not_shared [OF that False] by blast
    have old: "pool_inv (pool_base j) (2 ^ (2 + j)) MEM_TO_POOL (pools m ! j) (hdrs m)"
        "pool_closed (pool_base j) (2 ^ (2 + j)) MEM_TO_POOL (pools m ! j) (hdrs m)" "km_live_in j m = {}"
      using Suc.prems(4) j by simp_all
    show ?thesis
      using pool_inv_frame [OF frame old(1)] old False by (simp add: km_live_in_def)
  qed
  have "pool_base ?i + MEM_TO_POOL = pool_base (POOL_NUM - k)"
    by (simp add: ki pool_base_def)
  then show ?case
    unfolding run using Suc.IH [of ?m "pool_base ?i"] Suc.prems(1,2) ready by simp
qed

lemma init_kmallocs_inv:
  shows "km_inv (init_kmallocs (boot_kmem h))" and "km_live (init_kmallocs (boot_kmem h)) = {}"
    and "kpanics (init_kmallocs (boot_kmem h)) = 0"
proof -
  let ?a = "POOL_START_ADDR + VIRT_MEM_START_ADDR - MEM_TO_POOL"
  let ?m = "init_pools POOL_NUM ?a (boot_kmem h)"
  have "km_inv ?m \<and> km_live ?m = {} \<and> kpanics ?m = kpanics (boot_kmem h)"
  proof (rule init_pools_spec)
    show "?a + MEM_TO_POOL = pool_base (POOL_NUM - POOL_NUM)"
      by (simp add: pool_base_def layout_defs)
  qed (simp_all add: boot_kmem_def)
  then show "km_inv (init_kmallocs (boot_kmem h))" "km_live (init_kmallocs (boot_kmem h)) = {}"
    "kpanics (init_kmallocs (boot_kmem h)) = 0"
    by (simp_all add: init_kmallocs_def Let_def km_inv_def km_live_def km_live_in_def boot_kmem_def)
qed

lemma km_count:
  assumes inv: "km_inv m" and i: "i < POOL_NUM" and none: "km_live_in i m = {}"
  shows "current_free_block (pools m ! i) = MEM_TO_POOL div (sizeof_block_desc + 2 ^ (2 + i))"
proof -
  note pi = km_invD(1) [OF inv i]
  have "set (pool_free (pools m ! i) (hdrs m)) = pool_blocks (pool_base i) (2 ^ (2 + i)) MEM_TO_POOL"
    using pi none by (auto simp: pool_inv_def km_live_in_def pool_live_def)
  then have "card (pool_blocks (pool_base i) (2 ^ (2 + i)) MEM_TO_POOL) = length (pool_free (pools m ! i) (hdrs m))"
    using pi by (metis distinct_card pool_inv_def)
  then show ?thesis by (simp only: card_pool_blocks) (simp add: pool_free_def)
qed

lemma kmalloc_pool_range:
  assumes "i < POOL_NUM" and "i = 0 \<or> 2 ^ (1 + i) < sz" and "sz \<le> 2 ^ (2 + i)"
  shows "kmalloc_pool 0 sz = i"
proof (rule kmalloc_pool_least [OF assms(1,3)])
  fix j assume "j < i"
  then have "(2::nat) ^ (2 + j) \<le> 2 ^ (1 + i)" by (intro power_increasing) simp_all
  also have "\<dots> < sz" using assms(2) \<open>j < i\<close> by auto
  finally show "2 ^ (2 + j) < sz" .
qed

lemma km_extents_disjoint:
  assumes "a \<in> km_live_in i m" and "c \<in> km_live_in j m'" and "a \<noteq> c"
  shows "a + 2 ^ (2 + i) \<le> c - sizeof_block_desc \<or> c + 2 ^ (2 + j) \<le> a - sizeof_block_desc"
proof -
  obtain b where b: "b \<in> pool_blocks (pool_base i) (2 ^ (2 + i)) MEM_TO_POOL" "a = b + sizeof_block_desc"
    using km_live_in_block [OF assms(1)] by blast
  obtain d where d: "d \<in> pool_blocks (pool_base j) (2 ^ (2 + j)) MEM_TO_POOL" "c = d + sizeof_block_desc"
    using km_live_in_block [OF assms(2)] by blast
  consider "i = j" | "i < j" | "j < i" by linarith
  then show ?thesis
  proof cases
    case 1
    then show ?thesis using pool_blocks_disjoint [OF b(1)] d b(2) assms(3) by fastforce
  next
    case 2
    then show ?thesis using pool_regions_disjoint [OF b(1) d(1)] b(2) d(2) by simp
  next
    case 3
    then show ?thesis using pool_regions_disjoint [OF d(1) b(1)] b(2) d(2) by simp
  qed
qed

lemma pool_cases:
  "i < POOL_NUM \<Longrightarrow> i \<in> {0, 1, 2, 3, 4, 5, 6, 7, 8, 9, 10, 11, 12, 13, 14, 15}"
  by (simp add: POOL_NUM_eq) arith

lemma kmalloc_pool_none: "kmalloc_pool 0 sz = POOL_NUM \<Longrightarrow> 131072 < sz"
proof -
  assume "kmalloc_pool 0 sz = POOL_NUM"
  then have "\<forall>j < 16. 2 ^ (2 + j) < sz"
    using kmalloc_pool_spec [of 0 sz] by (simp add: POOL_NUM_eq)
  then have "2 ^ (2 + 15) < sz" by (elim allE [of _ 15]) simp
  then show ?thesis by simp
qed

lemma kmalloc_switch_pool:
  "kmalloc_switch sz m = (let i = kmalloc_pool 0 sz in if i \<noteq> POOL_NUM then pool_alloc i m else None)"
proof (cases "kmalloc_pool 0 sz < POOL_NUM")
  case False
  then have none: "kmalloc_pool 0 sz = POOL_NUM" using kmalloc_pool_spec [of 0 sz] by simp
  then have "131072 < sz" by (rule kmalloc_pool_none)
  with none show ?thesis by (simp add: kmalloc_switch_def)
next
  case True
  let ?i = "kmalloc_pool 0 sz"
  have hi: "sz \<le> 2 ^ (2 + ?i)" and below: "\<And>j. j < ?i \<Longrightarrow> 2 ^ (2 + j) < sz"
    using kmalloc_pool_spec [of 0 sz] True by auto
  have lo: "?i = 0 \<or> 2 ^ (2 + (?i - 1)) < sz"
    using below [of "?i - 1"] by (cases "?i = 0") simp_all
  have "kmalloc_switch sz m = pool_alloc ?i m"
    using pool_cases [OF True] hi lo by (elim insertE emptyE) (simp_all add: kmalloc_switch_def)
  then show ?thesis using True by (simp add: Let_def)
qed

subsection \<open>Aligned requests\<close>

lemma aligned_map_kmalloc:
  "kmalloc sz m = Some (a, m') \<Longrightarrow> aligned_address_map m' = aligned_address_map m"
  by (erule kmalloc_cases) (auto simp: pool_alloc_def Let_def panic_def split: prod.splits if_splits)

lemma km_live_in_mono:
  assumes "km_live m \<subseteq> km_live m'" and "i < POOL_NUM" and "a \<in> km_live_in i m"
  shows "a \<in> km_live_in i m'"
proof -
  obtain j where "j < POOL_NUM" "a \<in> km_live_in j m'"
    using assms by (auto simp: km_live_def)
  then show ?thesis using km_live_in_disjoint [OF _ assms(3)] by metis
qed

lemma ALIGNED_TO_OFFSET_spec:
  assumes "0 < al" and "a + al < 2 ^ 32"
  shows "al dvd ALIGNED_TO_OFFSET a al" and "a < ALIGNED_TO_OFFSET a al"
    and "ALIGNED_TO_OFFSET a al \<le> a + al"
proof -
  have "a mod al \<le> a" by simp
  then have "sub32 (a + al) (a mod al) = a + al - a mod al"
    using assms(2) by (intro sub32_le) linarith+
  then have eq: "ALIGNED_TO_OFFSET a al = (a - a mod al) + al"
    using assms by (simp add: ALIGNED_TO_OFFSET_def)
  show "al dvd ALIGNED_TO_OFFSET a al" unfolding eq by (intro dvd_add dvd_minus_mod) simp
  show "a < ALIGNED_TO_OFFSET a al" using assms(1) mod_less_divisor [OF assms(1), of a] by (simp add: eq)
  show "ALIGNED_TO_OFFSET a al \<le> a + al" by (simp add: eq)
qed

lemma aligned_invD:
  assumes "aligned_inv m" and "hashtable_get (aligned_address_map m) p = Some a"
  obtains i where "i < POOL_NUM" and "a \<in> km_live_in i m" and "a < p" and "p \<le> a + 2 ^ (2 + i)"
  using assms unfolding aligned_inv_def by blast

lemma aligned_inv_live:
  assumes "aligned_inv m" and "hashtable_get (aligned_address_map m) p = Some a"
  shows "a \<in> km_live m"
  using aligned_invD [OF assms] by (auto simp: km_live_def)

lemma aligned_inv_inj:
  "aligned_inv m \<Longrightarrow> hashtable_get (aligned_address_map m) p = Some a \<Longrightarrow>
   hashtable_get (aligned_address_map m) q = Some a \<Longrightarrow> p = q"
  unfolding aligned_inv_def by blast

lemma aligned_kmalloc_spec:
  assumes inv: "aligned_inv m" and al: "0 < al" and sz: "sz + al < 2 ^ 32"
    and run: "aligned_kmalloc sz al m = Some (p, m')" and ok: "kpanics m' = kpanics m"
  obtains a i where "i < POOL_NUM" and "a \<in> km_live_in i m'" and "a \<notin> km_live m"
    and "al dvd p" and "a < p" and "p + sz \<le> a + 2 ^ (2 + i)" and "aligned_inv m'"
    and "km_live m' = insert a (km_live m)" and "hashtable_get (aligned_address_map m) p = None"
    and "hashtable_get (aligned_address_map m') = (hashtable_get (aligned_address_map m))(p := Some a)"
proof -
  let ?G = "hashtable_get (aligned_address_map m)"
  obtain a m1 t where km: "kmalloc (sz + al) m = Some (a, m1)" and p: "p = ALIGNED_TO_OFFSET a al"
      and put: "hashtable_put (aligned_address_map m1) p a = Some t"
      and m': "m' = m1\<lparr>aligned_address_map := t\<rparr>"
    using run al sz by (auto simp: aligned_kmalloc_def Let_def)
  have inv0: "km_inv m" and d: "ht_dict (aligned_address_map m)" using inv by (simp_all add: aligned_inv_def)
  have ok1: "kpanics m1 = kpanics m" using ok m' by simp
  let ?i = "kmalloc_pool 0 (sz + al)"
  note sp = kmalloc_spec [OF inv0 km ok1]
  note bd = km_live_bounds [OF sp(1,6)]
  have "a + al \<le> a + 2 ^ (2 + ?i)" using sp(2) by simp
  then have "a + al < 2 ^ 32" using bd(2) pool_limit [OF sp(1)] by linarith
  note als = ALIGNED_TO_OFFSET_spec [OF al this, folded p]
  have top: "p + sz \<le> a + 2 ^ (2 + ?i)" using als(3) sp(2) by linarith
  have absent: "?G p = None"
  proof (rule ccontr)
    assume "?G p \<noteq> None"
    then obtain c where "?G p = Some c" by blast
    then obtain j where c: "j < POOL_NUM" "c \<in> km_live_in j m" "c < p" "p \<le> c + 2 ^ (2 + j)"
      using aligned_invD [OF inv] by metis
    then have "a \<noteq> c" using sp(5) by (auto simp: km_live_def)
    then show False
      using km_extents_disjoint [OF sp(6) c(2)] c als(2) top by linarith
  qed
  have map1: "aligned_address_map m1 = aligned_address_map m" using km by (rule aligned_map_kmalloc)
  obtain t' where "hashtable_put (aligned_address_map m1) p a = Some t'" "ht_dict t'"
      "hashtable_get t' = ?G(p := Some a)"
    using hashtable_put_dict [OF d absent] map1 by metis
  then have t: "ht_dict t" "hashtable_get t = ?G(p := Some a)" using put by simp_all
  have live_eq: "km_live_in j m' = km_live_in j m1" "km_live m' = km_live m1" "km_inv m' = km_inv m1" for j
    by (simp_all add: m' km_live_in_def km_live_def km_inv_def)
  have sub: "km_live m \<subseteq> km_live m1" using sp(7) by auto
  have in_block: "\<exists>i < POOL_NUM. c \<in> km_live_in i m' \<and> c < q \<and> q \<le> c + 2 ^ (2 + i)"
    if "(?G(p := Some a)) q = Some c" for q c
  proof (cases "q = p")
    case True
    then have "c = a" using that by simp
    then show ?thesis using True sp(1,6) als(2) top live_eq by (intro exI [of _ ?i]) auto
  next
    case False
    then have "?G q = Some c" using that by simp
    then obtain j where "j < POOL_NUM" "c \<in> km_live_in j m" "c < q" "q \<le> c + 2 ^ (2 + j)"
      using aligned_invD [OF inv] by metis
    then show ?thesis using km_live_in_mono [OF sub] live_eq by blast
  qed
  have fresh: "?G q \<noteq> Some a" for q
    using aligned_inv_live [OF inv] sp(5) by blast
  have inj: "q = r" if "(?G(p := Some a)) q = Some c" "(?G(p := Some a)) r = Some c" for q r c
    using that fresh aligned_inv_inj [OF inv] by (metis fun_upd_apply option.inject)
  have "ht_dict (aligned_address_map m')" and G': "hashtable_get (aligned_address_map m') = ?G(p := Some a)"
    using t by (simp_all add: m')
  then have "aligned_inv m'"
    using sp(4) live_eq(3) in_block inj unfolding aligned_inv_def by (metis (no_types, lifting))
  moreover have "a \<in> km_live_in ?i m'" "km_live m' = insert a (km_live m)"
    using sp live_eq by simp_all
  ultimately show ?thesis
    using that [OF sp(1)] sp(5) als top absent G' by blast
qed

lemma kmalloc_total:
  assumes "km_inv m" and "sz \<le> 131072"
    and "0 < current_free_block (pools m ! kmalloc_pool 0 sz)"
    and "kmalloc_pool 0 sz = 6 \<longrightarrow> 100 < current_free_block (pools m ! 6)"
  shows "\<exists>a m'. kmalloc sz m = Some (a, m') \<and> kpanics m' = kpanics m"
proof -
  let ?i = "kmalloc_pool 0 sz"
  have "?i \<noteq> POOL_NUM" using assms(2) kmalloc_pool_none [of sz] by auto
  then have i: "?i < POOL_NUM" using kmalloc_pool_spec [of 0 sz] by simp
  obtain p a d h where al: "a_fixed_size_alloc (pools m ! ?i) (hdrs m) = (p, a, d, h)"
    by (cases "a_fixed_size_alloc (pools m ! ?i) (hdrs m)") auto
  have "current_free_block (pools m ! ?i) \<le> MEM_TO_POOL"
    using pool_inv_count [OF km_invD(1) [OF assms(1) i]] div_le_dividend le_trans by blast
  then have lim: "current_free_block (pools m ! ?i) < 2 ^ 32" by (simp add: layout_simps)
  note sp = a_fixed_size_alloc_spec [OF al assms(3) lim]
  let ?m = "m\<lparr>pools := (pools m)[?i := d], hdrs := h\<rparr>"
  have run: "pool_alloc ?i m = Some (a, ?m)" by (simp add: pool_alloc_def al sp(1) Let_def)
  have "pools ?m ! ?i = d" using assms(1) i by (simp add: km_inv_def)
  moreover have "\<not> (?i = 6 \<and> current_free_block d < 100)" using assms(4) sp(5) by auto
  ultimately have "kmalloc sz m = Some (a, ?m)"
    using i run by (auto simp: kmalloc_def Let_def)
  then show ?thesis by simp
qed

subsection \<open>The state after boot\<close>

definition kmem0 :: kmem where
  "kmem0 = init_kmallocs (boot_kmem (\<lambda>_. \<lparr>previous_block = 0, next_block = 0\<rparr>))"

definition kmem_exhausted :: kmem where
  "kmem_exhausted = kmem0\<lparr>pools := (pools kmem0)[15 := (pools kmem0 ! 15)\<lparr>current_free_block := 0\<rparr>]\<rparr>"

lemma aligned_inv_boot: "aligned_inv (init_kmallocs (boot_kmem h))"
proof -
  have "aligned_address_map (init_kmallocs (boot_kmem h)) = hashtable_init 100"
    by (simp add: init_kmallocs_def Let_def ALGND_ADDR_MAP_INIT_SIZE_def)
  then show ?thesis
    using init_kmallocs_inv [of h] by (simp add: aligned_inv_def ht_dict_init)
qed

lemma kmem0_facts: "km_inv kmem0" "km_live kmem0 = {}" "kpanics kmem0 = 0" "aligned_inv kmem0"
  by (simp_all add: kmem0_def init_kmallocs_inv aligned_inv_boot)

lemma kmem0_count:
  "i < POOL_NUM \<Longrightarrow> current_free_block (pools kmem0 ! i) = MEM_TO_POOL div (sizeof_block_desc + 2 ^ (2 + i))"
  using kmem0_facts by (intro km_count) (auto simp: km_live_def)

lemma kmalloc_kmem0:
  assumes "sz \<le> 131072"
  obtains a m' where "kmalloc sz kmem0 = Some (a, m')" and "kpanics m' = kpanics kmem0"
proof -
  let ?i = "kmalloc_pool 0 sz"
  have "?i \<noteq> POOL_NUM" using assms kmalloc_pool_none [of sz] by auto
  then have i: "?i < POOL_NUM" using kmalloc_pool_spec [of 0 sz] by simp
  have "0 < current_free_block (pools kmem0 ! ?i)"
    using i pool_nonempty by (simp only: kmem0_count)
  moreover have "100 < current_free_block (pools kmem0 ! 6)"
    by (simp add: kmem0_count layout_simps sizeof_block_desc_def)
  ultimately show ?thesis using that kmalloc_total [OF kmem0_facts(1) assms] by blast
qed

lemma km_live_finite: "finite (km_live m)"
  by (auto simp: km_live_def km_live_in_def pool_live_def pool_blocks_def)

lemma km_count_live:
  assumes inv: "km_inv m" and i: "i < POOL_NUM"
  shows "current_free_block (pools m ! i) + card (km_live_in i m) = MEM_TO_POOL div (sizeof_block_desc + 2 ^ (2 + i))"
proof -
  let ?B = "pool_blocks (pool_base i) (2 ^ (2 + i)) MEM_TO_POOL"
  let ?F = "set (pool_free (pools m ! i) (hdrs m))"
  note pi = km_invD(1) [OF inv i]
  have F: "?F \<subseteq> ?B" "card ?F = current_free_block (pools m ! i)"
    using pi by (simp_all add: pool_inv_def distinct_card) (simp add: pool_free_def)
  have fin: "finite ?B" by (simp add: pool_blocks_def)
  have "card (km_live_in i m) = card (?B - ?F)"
    unfolding km_live_in_def pool_live_def by (rule card_image) (simp add: inj_on_def)
  also have "\<dots> = card ?B - card ?F" using F(1) fin by (intro card_Diff_subset) (auto intro: finite_subset)
  finally show ?thesis using F card_mono [OF fin F(1)] card_pool_blocks [of "pool_base i" "2 ^ (2 + i)" MEM_TO_POOL] by simp
qed

text \<open>While few blocks are in use, small requests are served.\<close>

lemma kmalloc_room_pool:
  assumes inv: "km_inv m" and few: "card (km_live m) < MEM_TO_POOL div (sizeof_block_desc + 2 ^ (2 + j))"
    and j: "j \<le> 5" and sz: "sz \<le> 2 ^ (2 + j)"
  obtains a m' where "kmalloc sz m = Some (a, m')" and "kpanics m' = kpanics m"
    and "km_live m' = insert a (km_live m)" and "card (km_live m') = Suc (card (km_live m))" and "km_inv m'"
    and "a \<notin> km_live m"
proof -
  let ?i = "kmalloc_pool 0 sz"
  have "\<not> j < ?i" using kmalloc_pool_spec [of 0 sz] sz by (auto dest!: spec [of _ j])
  then have i: "?i \<le> j" "?i < POOL_NUM" "?i \<noteq> 6" using j by (simp_all add: POOL_NUM_eq)
  have "card (km_live_in ?i m) \<le> card (km_live m)"
    using i(2) km_live_finite by (intro card_mono) (auto simp: km_live_def)
  moreover have "MEM_TO_POOL div (sizeof_block_desc + 2 ^ (2 + j)) \<le> MEM_TO_POOL div (sizeof_block_desc + 2 ^ (2 + ?i))"
    using i(1) by (intro div_le_mono2 add_left_mono power_increasing) simp_all
  ultimately have "0 < current_free_block (pools m ! ?i)"
    using km_count_live [OF inv i(2)] few by linarith
  moreover have "(2::nat) ^ (2 + j) \<le> 2 ^ (2 + 5)" using j by (intro power_increasing) simp_all
  ultimately obtain a m' where run: "kmalloc sz m = Some (a, m')" "kpanics m' = kpanics m"
    using kmalloc_total [OF inv, of sz] sz i(3) by auto
  note fresh = km.alloc_fresh [OF inv run]
  then have "card (km_live m') = Suc (card (km_live m))" using km_live_finite by simp
  then show ?thesis using that run fresh by blast
qed

lemma kmalloc_room:
  assumes "km_inv m" and "card (km_live m) < 8000" and "sz \<le> 128"
  obtains a m' where "kmalloc sz m = Some (a, m')" and "kpanics m' = kpanics m"
    and "km_live m' = insert a (km_live m)" and "card (km_live m') = Suc (card (km_live m))" and "km_inv m'"
    and "a \<notin> km_live m"
  by (rule kmalloc_room_pool [OF assms(1), of 5 sz])
    (use assms that in \<open>simp_all add: layout_simps sizeof_block_desc_def\<close>)

lemma kmalloc_room16:
  assumes "km_inv m" and "card (km_live m) < 48000" and "sz \<le> 16"
  obtains a m' where "kmalloc sz m = Some (a, m')" and "kpanics m' = kpanics m"
    and "km_live m' = insert a (km_live m)" and "card (km_live m') = Suc (card (km_live m))" and "km_inv m'"
    and "a \<notin> km_live m"
  by (rule kmalloc_room_pool [OF assms(1), of 2 sz])
    (use assms that in \<open>simp_all add: layout_simps sizeof_block_desc_def\<close>)

lemma aligned_kmalloc_runs:
  assumes "aligned_inv m" and "0 < al" and "kmalloc (wrap32 (sz + al)) m = Some (a, m1)"
  obtains p m' where "aligned_kmalloc sz al m = Some (p, m')" and "kpanics m' = kpanics m1"
proof -
  have "ht_dict (aligned_address_map m)" using assms(1) unfolding aligned_inv_def by blast
  then have "ht_inv (aligned_address_map m1)"
    using aligned_map_kmalloc [OF assms(3)] by (simp only: ht_dict_def)
  from hashtable_put_total [OF this, of "ALIGNED_TO_OFFSET a al" a]
  obtain t where "hashtable_put (aligned_address_map m1) (ALIGNED_TO_OFFSET a al) a = Some t" by blast
  then have "aligned_kmalloc sz al m = Some (ALIGNED_TO_OFFSET a al, m1\<lparr>aligned_address_map := t\<rparr>)"
    using assms(2,3) by (simp add: aligned_kmalloc_def Let_def)
  then show ?thesis by (rule that) simp
qed

section \<open>Properties\<close>

text \<open>C1: a successful \<open>kmalloc\<close> (one that raises no panic) keeps the allocator invariant, returns
  an address that was not in use, marks exactly that address as in use, returns a block at
  least as large as the request, and the block overlaps no block that is in use, headers
  included.\<close>

theorem kmalloc_safe:
  assumes "km_inv m" and "kmalloc sz m = Some (a, m')" and "kpanics m' = kpanics m"
  shows "km_inv m' \<and> a \<notin> km_live m \<and> km_live m' = insert a (km_live m)
    \<and> sz \<le> 2 ^ (2 + kmalloc_pool 0 sz)
    \<and> (\<forall>i < POOL_NUM. \<forall>c \<in> km_live_in i m.
         a + 2 ^ (2 + kmalloc_pool 0 sz) \<le> c - sizeof_block_desc \<or> c + 2 ^ (2 + i) \<le> a - sizeof_block_desc)"
proof -
  note sp = kmalloc_spec [OF assms]
  have "a \<noteq> c" if "i < POOL_NUM" "c \<in> km_live_in i m" for i c
    using that sp(5) by (auto simp: km_live_def)
  then show ?thesis using sp km_extents_disjoint [OF sp(6)] by blast
qed

theorem kmalloc_safe_witness:
  "\<exists>a m'. km_inv kmem0 \<and> kmalloc 12 kmem0 = Some (a, m') \<and> kpanics m' = kpanics kmem0
     \<and> km_inv m' \<and> a \<notin> km_live kmem0 \<and> km_live m' = insert a (km_live kmem0) \<and> (12::nat) \<le> 2 ^ (2 + kmalloc_pool 0 12)"
proof -
  obtain a m' where run: "kmalloc 12 kmem0 = Some (a, m')" "kpanics m' = kpanics kmem0"
    using kmalloc_kmem0 [of 12] by auto
  show ?thesis using run kmem0_facts(1) kmalloc_safe [OF kmem0_facts(1) run] by blast
qed



text \<open>Releasing a block just obtained restores the pool descriptors exactly, and the set
  of blocks in use.\<close>

lemma kmalloc_kfree_roundtrip:
  assumes "km_inv m" and "kmalloc sz m = Some (a, m')" and "kpanics m' = kpanics m"
  shows "\<exists>m''. kfree a m' = Some m'' \<and> km_inv m'' \<and> pools m'' = pools m \<and> km_live m'' = km_live m"
proof -
  note sp = kmalloc_spec [OF assms]
  let ?i = "kmalloc_pool 0 sz"
  have len: "length (pools m) = POOL_NUM" using assms(1) by (simp add: km_inv_def)
  obtain m'' where m'': "kfree a m' = Some m''" "km_inv m''" "km_live m'' = km_live m"
    using km.alloc_release [OF assms] by blast
  obtain p d h where al: "a_fixed_size_alloc (pools m ! ?i) (hdrs m) = (p, a, d, h)"
      and m': "m' = (if p then panic (m\<lparr>pools := (pools m)[?i := d], hdrs := h\<rparr>)
                     else m\<lparr>pools := (pools m)[?i := d], hdrs := h\<rparr>)"
    using sp(3) by (auto simp: pool_alloc_def Let_def split: prod.splits)
  have np: "\<not> p" using assms(3) by (auto simp: m' panic_def)
  then have pos: "0 < current_free_block (pools m ! ?i)"
    using al by (auto simp: a_fixed_size_alloc_def Let_def)
  have "current_free_block (pools m ! ?i) \<le> MEM_TO_POOL"
    using pool_inv_count [OF km_invD(1) [OF assms(1) sp(1)]] div_le_dividend le_trans by blast
  then have lim: "current_free_block (pools m ! ?i) < 2 ^ 32" by (simp add: layout_simps)
  note alsp = a_fixed_size_alloc_spec [OF al pos lim]
  obtain d' h' where fr: "a_fixed_size_free d a h = (d', h')" by fastforce
  have m'_eqs: "pools m' = (pools m)[?i := d]" "hdrs m' = h" using m' np by simp_all
  have "kfree a m' = pool_release ?i a m'"
    using sp(1) by (simp add: kfree_def kfree_pool_live [OF sp(1,6)])
  then have pools'': "pools m'' = (pools m)[?i := d']"
    using m''(1) sp(1) len fr by (auto simp: pool_release_def m'_eqs)
  have "a < 2 ^ 32" using km_live_bounds(4) [OF sp(1,6)] by simp
  then have "sub32 a sizeof_block_desc = first_block (pools m ! ?i)"
    using alsp(2) by (simp add: sub32_le)
  moreover have "wrap32 (current_free_block d + 1) = current_free_block (pools m ! ?i)"
    using alsp(5) pos lim by simp
  moreover have "block_size d = block_size (pools m ! ?i)" "has_initialized d = has_initialized (pools m ! ?i)"
    using al by (auto simp: a_fixed_size_alloc_def Let_def)
  ultimately have "d' = pools m ! ?i"
    using fr by (auto simp: a_fixed_size_free_def Let_def)
  then show ?thesis using m'' pools'' by simp
qed

lemma kmalloc_kfree_roundtrip_witness:
  "\<exists>a m' m''. kmalloc 100 kmem0 = Some (a, m') \<and> kpanics m' = kpanics kmem0 \<and> kfree a m' = Some m''
     \<and> km_inv m'' \<and> pools m'' = pools kmem0 \<and> km_live m'' = km_live kmem0"
proof -
  obtain a m' where run: "kmalloc 100 kmem0 = Some (a, m')" "kpanics m' = kpanics kmem0"
    using kmalloc_kmem0 [of 100] by auto
  show ?thesis using run kmalloc_kfree_roundtrip [OF kmem0_facts(1) run] by blast
qed

text \<open>The switch-based \<^verbatim>\<open>_kmalloc\<close> is \<open>kmalloc\<close> without the low-water alarm of the
  256-byte pool, for every request and state.\<close>

lemma kmalloc_switch_equiv:
  "kmalloc sz m =
     map_option (\<lambda>(a, m'). (a, if kmalloc_pool 0 sz = 6 \<and> current_free_block (pools m' ! 6) < 100
                               then panic m' else m')) (kmalloc_switch sz m)"
  by (cases "kmalloc_pool 0 sz = 6"; cases "pool_alloc (kmalloc_pool 0 sz) m")
    (auto simp: kmalloc_switch_pool kmalloc_def Let_def POOL_NUM_eq)

text \<open>On every address in use the switch-based \<^verbatim>\<open>_kfree\<close> and the search loop of \<open>kfree\<close>
  release the block to the same pool with the same result.\<close>

lemma kfree_switch_equiv:
  assumes "a \<in> km_live m"
  shows "kfree_switch a m = kfree a m"
proof -
  obtain i where i: "i < POOL_NUM" "a \<in> km_live_in i m" using assms by (auto simp: km_live_def)
  note kp = kfree_pool_live [OF i]
  have "kfree a m = pool_release i a m" using i(1) by (simp add: kfree_def kp(1))
  moreover have "kfree_switch a m = pool_release i a m"
    using pool_cases [OF i(1)] kp(2,3)
    by (elim insertE emptyE) (simp_all add: kfree_switch_def Let_def MEM_TO_POOL_eq)
  ultimately show ?thesis by simp
qed

lemma kfree_switch_equiv_witness:
  "\<exists>a m'. kmalloc 5000 kmem0 = Some (a, m') \<and> a \<in> km_live m' \<and> kfree_switch a m' = kfree a m'"
proof -
  obtain a m' where run: "kmalloc 5000 kmem0 = Some (a, m')" "kpanics m' = kpanics kmem0"
    using kmalloc_kmem0 [of 5000] by auto
  have "a \<in> km_live m'" using kmalloc_spec(7) [OF kmem0_facts(1) run] by simp
  then show ?thesis using run kfree_switch_equiv by blast
qed

text \<open>\<open>init_kmallocs\<close> establishes the allocator invariant with no block in use, whatever the
  memory held before.\<close>

lemma init_kmallocs_establishes:
  "aligned_inv (init_kmallocs (boot_kmem h)) \<and> km_live (init_kmallocs (boot_kmem h)) = {}
   \<and> kpanics (init_kmallocs (boot_kmem h)) = 0"
  by (simp add: init_kmallocs_inv aligned_inv_boot)

text \<open>When the pool of a request is exhausted \<open>kmalloc\<close> panics but still returns: the address
  it hands out belongs to a block that is in use, and the unsigned free counter wraps to
  \<open>2 ^ 32 - 1\<close>.\<close>

lemma kmalloc_exhausted_reuses:
  assumes "km_inv m" and "sz \<le> 131072" and "current_free_block (pools m ! kmalloc_pool 0 sz) = 0"
  shows "\<exists>a m'. kmalloc sz m = Some (a, m') \<and> a \<in> km_live m \<and> kpanics m < kpanics m'
    \<and> current_free_block (pools m' ! kmalloc_pool 0 sz) = 2 ^ 32 - 1"
proof -
  let ?i = "kmalloc_pool 0 sz"
  let ?d = "pools m ! ?i"
  have "?i \<noteq> POOL_NUM" using assms(2) kmalloc_pool_none [of sz] by auto
  then have i: "?i < POOL_NUM" using kmalloc_pool_spec [of 0 sz] by simp
  have "first_block ?d \<in> pool_blocks (pool_base ?i) (2 ^ (2 + ?i)) MEM_TO_POOL"
    using km_invD(2) [OF assms(1) i] by (simp add: pool_closed_def)
  moreover have "pool_free ?d (hdrs m) = []" using assms(3) by (simp add: pool_free_def)
  ultimately have "first_block ?d + sizeof_block_desc \<in> km_live_in ?i m"
    by (simp add: km_live_in_def pool_live_def)
  then have live: "first_block ?d + sizeof_block_desc \<in> km_live m" using i by (auto simp: km_live_def)
  obtain h where al: "a_fixed_size_alloc ?d (hdrs m) = (True, first_block ?d + sizeof_block_desc,
      ?d\<lparr>first_block := next_block (hdrs m (first_block ?d)), current_free_block := 2 ^ 32 - 1\<rparr>, h)"
    using assms(3) sub32_zero_one by (simp add: a_fixed_size_alloc_def Let_def)
  have "?i < length (pools m)" using assms(1) i by (simp add: km_inv_def)
  then show ?thesis
    using i live al by (auto simp: kmalloc_def Let_def pool_alloc_def panic_def)
qed

lemma kmalloc_exhausted_reuses_witness:
  "km_inv kmem_exhausted
   \<and> (\<exists>a m'. kmalloc 131072 kmem_exhausted = Some (a, m') \<and> a \<in> km_live kmem_exhausted
        \<and> kpanics kmem_exhausted < kpanics m')"
proof -
  have i: "(15::nat) < POOL_NUM" by (simp add: POOL_NUM_eq)
  have eqs: "pools kmem_exhausted = (pools kmem0)[15 := (pools kmem0 ! 15)\<lparr>current_free_block := 0\<rparr>]"
      "hdrs kmem_exhausted = hdrs kmem0"
    by (simp_all add: kmem_exhausted_def)
  have inv: "km_inv kmem_exhausted"
  proof (rule km_pool_step(1) [OF kmem0_facts(1) i eqs(1)], unfold eqs(2))
    show "pool_inv (pool_base 15) (2 ^ (2 + 15)) MEM_TO_POOL ((pools kmem0 ! 15)\<lparr>current_free_block := 0\<rparr>) (hdrs kmem0)"
      using km_invD(1) [OF kmem0_facts(1) i] by (auto simp: pool_inv_def pool_free_def)
    show "pool_closed (pool_base 15) (2 ^ (2 + 15)) MEM_TO_POOL ((pools kmem0 ! 15)\<lparr>current_free_block := 0\<rparr>) (hdrs kmem0)"
      using km_invD(2) [OF kmem0_facts(1) i] by (simp add: pool_closed_def)
  qed (rule refl)
  have pool: "kmalloc_pool 0 131072 = 15"
    by (rule kmalloc_pool_range) (simp_all add: POOL_NUM_eq)
  have "length (pools kmem0) = 16" using kmem0_facts(1) by (simp add: km_inv_def POOL_NUM_eq)
  then have "current_free_block (pools kmem_exhausted ! kmalloc_pool 0 131072) = 0"
    by (simp add: pool kmem_exhausted_def)
  then show ?thesis using inv kmalloc_exhausted_reuses [OF inv, of 131072] by auto
qed

text \<open>An aligned request returns a multiple of the alignment whose \<open>sz\<close> bytes lie inside one
  fresh block, and \<open>aligned_kfree\<close> finds that block again: afterwards the blocks in use are
  those from before.\<close>

lemma aligned_kmalloc_roundtrip:
  assumes "aligned_inv m" and "0 < al" and "sz + al < 2 ^ 32"
    and "aligned_kmalloc sz al m = Some (p, m')" and "kpanics m' = kpanics m"
  shows "al dvd p \<and> (\<exists>a i. i < POOL_NUM \<and> a \<in> km_live_in i m' \<and> a \<notin> km_live m \<and> a < p \<and> p + sz \<le> a + 2 ^ (2 + i))
    \<and> (\<exists>m''. aligned_kfree p m' = Some m'' \<and> aligned_inv m'' \<and> km_live m'' = km_live m)"
proof -
  let ?G = "hashtable_get (aligned_address_map m)"
  obtain a i where a: "i < POOL_NUM" "a \<in> km_live_in i m'" "a \<notin> km_live m" "al dvd p" "a < p"
      "p + sz \<le> a + 2 ^ (2 + i)" and inv': "aligned_inv m'" and live': "km_live m' = insert a (km_live m)"
      and absent: "?G p = None"
      and G': "hashtable_get (aligned_address_map m') = ?G(p := Some a)"
    using aligned_kmalloc_spec [OF assms] by metis
  have "ht_dict (aligned_address_map m')" using inv' by (simp add: aligned_inv_def)
  then obtain t where "hashtable_remove (aligned_address_map m') p
        = Some (hashtable_get (aligned_address_map m') p, t)" "ht_dict t"
      "hashtable_get t = (hashtable_get (aligned_address_map m'))(p := None)"
    using hashtable_remove_dict by blast
  then have t: "hashtable_remove (aligned_address_map m') p = Some (Some a, t)" "ht_dict t"
      "hashtable_get t = ?G(p := None)"
    by (simp_all add: G')
  let ?m = "m'\<lparr>aligned_address_map := t\<rparr>"
  have eqs: "km_inv ?m = km_inv m'" "km_live ?m = km_live m'"
    by (simp_all add: km_inv_def km_live_def km_live_in_def)
  have "km_inv ?m" "a \<in> km_live ?m" using inv' live' by (simp_all add: eqs aligned_inv_def)
  then obtain m'' where m'': "kfree a ?m = Some m''" "km_inv m''" "km_live m'' = km_live m"
      "aligned_address_map m'' = t"
    using kfree_spec [of ?m a] live' a(3) by (auto simp: eqs)
  have G: "hashtable_get (aligned_address_map m'') = ?G" using absent t m'' by (simp add: fun_upd_idem)
  have "aligned_inv m''"
    unfolding aligned_inv_def G
  proof (intro conjI allI impI)
    show "km_inv m''" "ht_dict (aligned_address_map m'')" using m'' t by simp_all
    show "q = r" if "?G q = Some c" "?G r = Some c" for q r c
      using aligned_inv_inj [OF assms(1) that] .
    fix q c assume "?G q = Some c"
    then obtain j where "j < POOL_NUM" "c \<in> km_live_in j m" "c < q" "q \<le> c + 2 ^ (2 + j)"
      using aligned_invD [OF assms(1)] by metis
    then show "\<exists>i < POOL_NUM. c \<in> km_live_in i m'' \<and> c < q \<and> q \<le> c + 2 ^ (2 + i)"
      using km_live_in_mono [of m m''] m''(3) by blast
  qed
  moreover have "aligned_kfree p m' = Some m''" using t m'' by (simp add: aligned_kfree_def)
  ultimately show ?thesis using a m'' by blast
qed

lemma aligned_kmalloc_roundtrip_witness:
  "\<exists>p m' m''. aligned_kmalloc 1000 256 kmem0 = Some (p, m') \<and> kpanics m' = kpanics kmem0 \<and> 256 dvd p
     \<and> aligned_kfree p m' = Some m'' \<and> aligned_inv m'' \<and> km_live m'' = km_live kmem0"
proof -
  have sz: "(1256::nat) \<le> 131072" "(0::nat) < 256" "(1000::nat) + 256 < 2 ^ 32"
      "wrap32 (1000 + 256) = 1256"
    by (simp_all add: wrap32_def)
  obtain p m' where run: "aligned_kmalloc 1000 256 kmem0 = Some (p, m')" "kpanics m' = kpanics kmem0"
    using aligned_kmalloc_runs [OF kmem0_facts(4) sz(2)] kmalloc_kmem0 [OF sz(1)] by (metis sz(4))
  show ?thesis using run aligned_kmalloc_roundtrip [OF kmem0_facts(4) sz(2,3) run] by blast
qed

end
