(* ===== verification/Buddy.thy ===== *)
theory Buddy
  imports Kmalloc "HOL-Library.Multiset"
begin

text \<open>
  The page allocator of \<^verbatim>\<open>src/memory_manager/buddy.c\<close>. Each of the eleven free lists is
  the list of its nodes and of the heap cells (\<open>mem_addr_bucket\<close>) the nodes point to, which
  is the view \<open>Dllist\<close> justifies for the pointer structure; nodes and cells come from
  \<open>kmalloc\<close> and go back to \<open>kfree\<close>. The arrays \<open>order\<close>, \<open>page_list_ref\<close> and \<open>count\<close> have one
  entry per page and an access outside them is \<open>None\<close>.

  The invariant says that the blocks in use and the free blocks tile the managed memory,
  that the arrays describe the first page of every block (entries of other pages may be
  stale), and that no two free buddies are left unmerged.
\<close>

section \<open>Layout\<close>

definition NUM_LIST :: nat where "NUM_LIST = 11"

definition BUDDY_START_RAW :: nat where
  "BUDDY_START_RAW = MEM_START_ADDR + ALLOCATED_MEM div 10"

definition BUDDY_START_ADDR :: nat where
  "BUDDY_START_ADDR =
     (if BUDDY_START_RAW mod 0x1000 \<noteq> 0
      then (BUDDY_START_RAW + 0x1000) - (BUDDY_START_RAW + 0x1000) mod 0x1000
      else BUDDY_START_RAW mod 0x1000)"

definition BUDDY_MEM_SIZE :: nat where "BUDDY_MEM_SIZE = PHY_MEM_SIZE - BUDDY_START_ADDR"

definition NUM_PAGES :: nat where "NUM_PAGES = BUDDY_MEM_SIZE div PAGE_SIZE"

definition BLOCK_INDEX :: "nat \<Rightarrow> nat" where "BLOCK_INDEX mem_addr = mem_addr div PAGE_SIZE"

definition bsz :: "nat \<Rightarrow> nat" where "bsz i = PAGE_SIZE * 2 ^ i"

section \<open>State\<close>

record buddy_desc =
  page_list :: "(addr \<times> addr) list list"
  order :: "nat \<Rightarrow> nat"
  page_list_ref :: "nat \<Rightarrow> addr"
  count :: "nat \<Rightarrow> nat"
  free_mem_list :: "nat \<Rightarrow> nat"
  cells :: "addr \<rightharpoonup> nat"
  bmem :: kmem

definition get_order :: "nat \<Rightarrow> buddy_desc \<Rightarrow> nat option" where
  "get_order i b = (if i < NUM_PAGES then Some (order b i) else None)"

definition set_order :: "nat \<Rightarrow> nat \<Rightarrow> buddy_desc \<Rightarrow> buddy_desc option" where
  "set_order i v b = (if i < NUM_PAGES then Some (b\<lparr>order := (order b)(i := v)\<rparr>) else None)"

definition set_page_list_ref :: "nat \<Rightarrow> addr \<Rightarrow> buddy_desc \<Rightarrow> buddy_desc option" where
  "set_page_list_ref i v b =
     (if i < NUM_PAGES then Some (b\<lparr>page_list_ref := (page_list_ref b)(i := v)\<rparr>) else None)"

definition set_count :: "nat \<Rightarrow> nat \<Rightarrow> buddy_desc \<Rightarrow> buddy_desc option" where
  "set_count i v b = (if i < NUM_PAGES then Some (b\<lparr>count := (count b)(i := v)\<rparr>) else None)"

text \<open>\<open>mem_addr_bucket = kmalloc(4); *mem_addr_bucket = a; ll_prepend(page_list[i], mem_addr_bucket)\<close>\<close>

definition push_page :: "nat \<Rightarrow> nat \<Rightarrow> buddy_desc \<Rightarrow> (addr \<times> buddy_desc) option" where
  "push_page i a b =
     (if i < length (page_list b)
      then do { (bucket, m1) \<leftarrow> kmalloc 4 (bmem b);
                (node, m2) \<leftarrow> kmalloc 12 m1;
                Some (node, b\<lparr>bmem := m2, cells := (cells b)(bucket \<mapsto> a),
                              page_list := (page_list b)[i := (node, bucket) # page_list b ! i]\<rparr>) }
      else None)"

text \<open>\<open>kfree(node->val); ll_delete_node(node)\<close>, whichever list the node is in.\<close>

definition drop_page :: "addr \<Rightarrow> buddy_desc \<Rightarrow> buddy_desc option" where
  "drop_page node b =
     do { bucket \<leftarrow> map_of (concat (page_list b)) node;
          m1 \<leftarrow> kfree bucket (bmem b);
          m2 \<leftarrow> kfree node m1;
          Some (b\<lparr>bmem := m2, cells := (cells b)(bucket := None),
                  page_list := map (filter (\<lambda>p. fst p \<noteq> node)) (page_list b)\<rparr>) }"

section \<open>Operations\<close>

text \<open>Eleven empty lists: a descriptor and a sentinel each.\<close>

fun new_lists :: "nat \<Rightarrow> kmem \<Rightarrow> kmem option" where
  "new_lists 0 m = Some m"
| "new_lists (Suc n) m =
     do { (l, m1) \<leftarrow> kmalloc 8 m; (s, m2) \<leftarrow> kmalloc 12 m1; new_lists n m2 }"

fun init_entries :: "nat \<Rightarrow> nat \<Rightarrow> buddy_desc \<Rightarrow> buddy_desc option" where
  "init_entries 0 mem_addr b = Some b"
| "init_entries (Suc n) mem_addr b =
     do { b1 \<leftarrow> set_order (BLOCK_INDEX mem_addr) (NUM_LIST - 1) b;
          (node, b2) \<leftarrow> push_page (NUM_LIST - 1) mem_addr b1;
          b3 \<leftarrow> set_page_list_ref (BLOCK_INDEX mem_addr) 0 b2;
          b4 \<leftarrow> set_count (BLOCK_INDEX mem_addr) 0 b3;
          init_entries n (mem_addr + bsz (NUM_LIST - 1)) b4 }"

definition buddy_init :: "buddy_desc \<Rightarrow> buddy_desc option" where
  "buddy_init b =
     do { m \<leftarrow> new_lists NUM_LIST (bmem b);
          init_entries (BUDDY_MEM_SIZE div bsz (NUM_LIST - 1)) 0
            (b\<lparr>bmem := m, page_list := replicate NUM_LIST []\<rparr>) }"

function page_order :: "nat \<Rightarrow> nat \<Rightarrow> nat" where
  "page_order list_index mem_size =
     (if list_index < NUM_LIST then
        if PAGE_SIZE * 2 ^ list_index \<ge> mem_size then list_index
        else page_order (list_index + 1) mem_size
      else list_index)"
  by pat_completeness auto
termination by (relation "measure (\<lambda>(i, _). NUM_LIST - i)") auto

function first_list :: "nat \<Rightarrow> buddy_desc \<Rightarrow> nat" where
  "first_list next_list_index b =
     (if next_list_index < NUM_LIST \<and> page_list b ! next_list_index = []
      then first_list (next_list_index + 1) b
      else next_list_index)"
  by pat_completeness auto
termination by (relation "measure (\<lambda>(i, _). NUM_LIST - i)") auto

text \<open>The loop over \<open>i = j - 1, \<dots>, list_index\<close>.\<close>

fun split_pages :: "nat \<Rightarrow> nat \<Rightarrow> nat \<Rightarrow> nat \<Rightarrow> buddy_desc \<Rightarrow> buddy_desc option" where
  "split_pages list_index 0 page_addr page_size b = Some b"
| "split_pages list_index (Suc i) page_addr page_size b =
     (if i < list_index then Some b
      else do { let half = page_size div 2;
                (node_buddy, b1) \<leftarrow> push_page i (page_addr + half) b;
                b2 \<leftarrow> set_order (BLOCK_INDEX (page_addr + half)) i b1;
                b3 \<leftarrow> set_page_list_ref (BLOCK_INDEX (page_addr + half)) node_buddy b2;
                b4 \<leftarrow> set_count (BLOCK_INDEX (page_addr + half)) 0 b3;
                split_pages list_index i page_addr half b4 })"

text \<open>With no list found the code reports a panic and then reads \<open>node\<close> uninitialised: \<open>None\<close>.\<close>

definition buddy_alloc_page :: "nat \<Rightarrow> buddy_desc \<Rightarrow> (addr \<times> buddy_desc) option" where
  "buddy_alloc_page mem_size b =
     (let list_index = page_order 0 mem_size;
          next_list_index = first_list list_index b in
      if next_list_index \<ge> NUM_LIST then None
      else do { let node = fst (hd (page_list b ! next_list_index));
                page_addr \<leftarrow> cells b (snd (hd (page_list b ! next_list_index)));
                b1 \<leftarrow> drop_page node b;
                b2 \<leftarrow> (if next_list_index \<noteq> list_index
                      then split_pages list_index next_list_index page_addr (PAGE_SIZE * 2 ^ next_list_index) b1
                      else Some b1);
                b3 \<leftarrow> set_order (BLOCK_INDEX page_addr) (list_index OR 16) b2;
                b4 \<leftarrow> set_page_list_ref (BLOCK_INDEX page_addr) node b3;
                b5 \<leftarrow> set_count (BLOCK_INDEX page_addr) 0 b4;
                Some (page_addr + BUDDY_START_ADDR + VIRT_MEM_START_ADDR, b5) })"

text \<open>
  The loop of \<open>buddy_free_page\<close>: as long as it runs, \<open>free_page_addr\<close> is \<open>page_addr\<close> and
  \<open>free_page_order\<close> is \<open>i\<close>.
\<close>

function coalesce :: "nat \<Rightarrow> nat \<Rightarrow> buddy_desc \<Rightarrow> (nat \<times> nat \<times> buddy_desc) option" where
  "coalesce i page_addr b =
     (if i < NUM_LIST - 1 then
        do { let buddy_page_addr = page_addr XOR (PAGE_SIZE * 2 ^ i);
             ord \<leftarrow> get_order (BLOCK_INDEX buddy_page_addr) b;
             if ord AND 15 = i \<and> ord AND 16 = 0 \<and> page_list_ref b (BLOCK_INDEX buddy_page_addr) \<noteq> 0
             then do { b1 \<leftarrow> drop_page (page_list_ref b (BLOCK_INDEX buddy_page_addr)) b;
                       b2 \<leftarrow> set_order (BLOCK_INDEX buddy_page_addr) 0 b1;
                       b3 \<leftarrow> set_page_list_ref (BLOCK_INDEX buddy_page_addr) 0 b2;
                       let lower = page_addr AND buddy_page_addr;
                       o1 \<leftarrow> get_order (BLOCK_INDEX lower) b3;
                       b4 \<leftarrow> set_order (BLOCK_INDEX lower) (o1 AND 15) b3;
                       coalesce (i + 1) lower b4 }
             else Some (page_addr, i, b) }
      else Some (page_addr, i, b))"
  by pat_completeness auto
termination by (relation "measure (\<lambda>(i, _). NUM_LIST - i)") auto

definition buddy_free_page :: "addr \<Rightarrow> buddy_desc \<Rightarrow> buddy_desc option" where
  "buddy_free_page to_free_page_addr b =
     do { let page_addr = sub32 to_free_page_addr (BUDDY_START_ADDR + VIRT_MEM_START_ADDR);
          ord \<leftarrow> get_order (BLOCK_INDEX page_addr) b;
          let b0 = (if ord AND 16 = 0 then b\<lparr>bmem := panic (bmem b)\<rparr> else b);
          (free_page_addr, free_page_order, b1) \<leftarrow> coalesce (ord AND 15) page_addr b0;
          (node_buddy, b2) \<leftarrow> push_page free_page_order free_page_addr b1;
          b3 \<leftarrow> set_page_list_ref (BLOCK_INDEX free_page_addr) node_buddy b2;
          set_order (BLOCK_INDEX free_page_addr) free_page_order b3 }"

fun sum_free :: "nat \<Rightarrow> nat \<Rightarrow> buddy_desc \<Rightarrow> nat \<times> buddy_desc" where
  "sum_free 0 tot b = (tot, b)"
| "sum_free (Suc n) tot b =
     (let i = 11 - Suc n; tmp = length (page_list b ! i) in
      sum_free n (wrap32 (tot + 4096 * 2 ^ i * tmp)) (b\<lparr>free_mem_list := (free_mem_list b)(i := tmp)\<rparr>))"

definition buddy_free_mem :: "buddy_desc \<Rightarrow> nat \<times> buddy_desc" where
  "buddy_free_mem b = sum_free 11 0 b"

declare set_concat [simp del]
declare page_order.simps [simp del] first_list.simps [simp del] coalesce.simps [simp del]

section \<open>Blocks\<close>

text \<open>A block is its offset in the managed memory and its order.\<close>

definition span :: "nat \<times> nat \<Rightarrow> nat set" where
  "span bl = {fst bl ..< fst bl + bsz (snd bl)}"

definition wf_block :: "nat \<times> nat \<Rightarrow> bool" where
  "wf_block bl \<longleftrightarrow> snd bl < NUM_LIST \<and> bsz (snd bl) dvd fst bl"

definition tiles :: "nat \<Rightarrow> (nat \<times> nat) set \<Rightarrow> bool" where
  "tiles T B \<longleftrightarrow> (\<forall>bl \<in> B. wf_block bl) \<and> (\<forall>bl \<in> B. \<forall>c \<in> B. bl \<noteq> c \<longrightarrow> span bl \<inter> span c = {})
     \<and> (\<Union>bl \<in> B. span bl) = {..<T}"

definition BUDDY_TOP :: nat where
  "BUDDY_TOP = BUDDY_MEM_SIZE div bsz (NUM_LIST - 1) * bsz (NUM_LIST - 1)"

definition free_blocks :: "buddy_desc \<Rightarrow> (nat \<times> nat) set" where
  "free_blocks b = {(a, k). k < length (page_list b) \<and> (\<exists>n c. (n, c) \<in> set (page_list b ! k) \<and> cells b c = Some a)}"

text \<open>The heap blocks the free lists own.\<close>

definition own_ok :: "buddy_desc \<Rightarrow> bool" where
  "own_ok b \<longleftrightarrow> length (page_list b) = NUM_LIST \<and> km_inv (bmem b)
     \<and> distinct (map fst (concat (page_list b)) @ map snd (concat (page_list b)))
     \<and> fst ` set (concat (page_list b)) \<union> snd ` set (concat (page_list b)) \<subseteq> km_live (bmem b)"

text \<open>
  The free lists: each node owns a cell with the offset of a block, no two nodes the same
  block, and the arrays describe it at its first page.
\<close>

definition lists_ok :: "buddy_desc \<Rightarrow> bool" where
  "lists_ok b \<longleftrightarrow> (\<forall>k < NUM_LIST. \<forall>(n, c) \<in> set (page_list b ! k). \<exists>a. cells b c = Some a
       \<and> order b (BLOCK_INDEX a) = k \<and> (k < NUM_LIST - 1 \<longrightarrow> page_list_ref b (BLOCK_INDEX a) = n))
     \<and> distinct (map (\<lambda>p. cells b (snd p)) (concat (page_list b)))"

definition no_pairs :: "(nat \<times> nat) set \<Rightarrow> bool" where
  "no_pairs F \<longleftrightarrow> (\<forall>(a, k) \<in> F. k < NUM_LIST - 1 \<longrightarrow> (a XOR bsz k, k) \<notin> F)"

text \<open>\<open>H\<close> are the blocks an operation holds, \<open>A\<close> the blocks in use, up to offset \<open>T\<close>.\<close>

definition bd_inv :: "nat \<Rightarrow> (nat \<times> nat) set \<Rightarrow> (nat \<times> nat) set \<Rightarrow> buddy_desc \<Rightarrow> bool" where
  "bd_inv T H A b \<longleftrightarrow> own_ok b \<and> lists_ok b \<and> T \<le> BUDDY_TOP \<and> tiles T (H \<union> A \<union> free_blocks b)
     \<and> H \<inter> A = {} \<and> (H \<union> A) \<inter> free_blocks b = {}
     \<and> (\<forall>(a, k) \<in> A. order b (BLOCK_INDEX a) = k OR 16) \<and> no_pairs (free_blocks b)"

section \<open>Arithmetic of buddies\<close>

lemma bsz_eq: "bsz k = 2 ^ (12 + k)"
  by (simp add: bsz_def PAGE_SIZE_def power_add)

lemma bsz_Suc: "bsz (Suc k) = 2 * bsz k"
  by (simp add: bsz_def)

lemma bsz_pos [simp]: "0 < bsz k"
  by (simp add: bsz_eq)

lemma bsz_dvd: "i \<le> j \<Longrightarrow> bsz i dvd bsz j"
  by (simp add: bsz_eq le_imp_power_dvd)

lemma dvd_between:
  fixes b x m :: nat
  assumes "m dvd b" and "m dvd x" and "b \<le> x" and "x < b + m"
  shows "x = b"
proof -
  have "m dvd x - b" using assms(1,2) by (simp add: dvd_diff_nat)
  moreover have "x - b < m" using assms(3,4) by simp
  ultimately show ?thesis using assms(3) by (auto dest: dvd_imp_le)
qed

lemma dvd_step:
  fixes a b m :: nat
  assumes "m dvd a" and "m dvd b" and "a < b"
  shows "a + m \<le> b"
proof -
  have "m dvd b - a" using assms(1,2) by (simp add: dvd_diff_nat)
  then have "m \<le> b - a" using assms(3) by (intro dvd_imp_le) auto
  then show ?thesis using assms(3) by linarith
qed

lemma dvd_double_iff:
  fixes p m :: nat
  assumes "m dvd p" and "0 < m"
  shows "2 * m dvd p \<longleftrightarrow> even (p div m)"
  using assms by (metis dvd_mult_div_cancel mult.commute nat_mult_dvd_cancel_disj not_gr_zero)

lemma buddy_addr:
  assumes "bsz i dvd p"
  shows "p XOR bsz i = (if bsz (Suc i) dvd p then p + bsz i else p - bsz i)"
proof -
  have "bsz (Suc i) dvd p \<longleftrightarrow> even (p div bsz i)" using dvd_double_iff [OF assms] by (simp add: bsz_Suc)
  then show ?thesis using xor_exp_eq [of p "12 + i"] by (simp add: bsz_eq)
qed

lemma xor_bsz_neq: "p XOR bsz i \<noteq> p"
proof
  assume "p XOR bsz i = p"
  then have "p XOR (p XOR bsz i) = 0" by simp
  then show False using bsz_pos [of i] by (simp add: xor.assoc [symmetric] del: bsz_pos)
qed

lemma and_xor_exp:
  fixes a :: nat
  shows "a AND (a XOR 2 ^ n) = (if odd (a div 2 ^ n) then a - 2 ^ n else a)"
proof (cases "odd (a div 2 ^ n)")
  case True
  then have "bit a n" by (simp add: bit_iff_div_odd)
  then have "a AND (a XOR 2 ^ n) = a XOR 2 ^ n"
    by (intro bit_eqI) (auto simp: bit_simps)
  then show ?thesis using True by (simp add: xor_exp_eq)
next
  case False
  then have "\<not> bit a n" by (simp add: bit_iff_div_odd)
  then have "a AND (a XOR 2 ^ n) = a"
    by (intro bit_eqI) (auto simp: bit_simps)
  then show ?thesis using False by simp
qed

lemma lower_addr:
  assumes "bsz i dvd p"
  shows "p AND (p XOR bsz i) = (if bsz (Suc i) dvd p then p else p - bsz i)"
proof -
  have "bsz (Suc i) dvd p \<longleftrightarrow> even (p div bsz i)" using dvd_double_iff [OF assms] by (simp add: bsz_Suc)
  then show ?thesis using and_xor_exp [of p "12 + i"] by (simp add: bsz_eq)
qed

lemma odd_block:
  assumes "bsz i dvd p" and "\<not> bsz (Suc i) dvd p"
  shows "bsz i \<le> p" and "bsz (Suc i) dvd p - bsz i"
proof -
  have "p \<noteq> 0" using assms(2) by (cases p) auto
  then show le: "bsz i \<le> p" using assms(1) by (simp add: dvd_imp_le)
  have "odd (p div bsz i)" using dvd_double_iff [OF assms(1)] assms(2) by (simp add: bsz_Suc)
  then have "even ((p - bsz i) div bsz i)" using le by (simp add: le_div_geq)
  moreover have "bsz i dvd p - bsz i" using assms(1) by (simp add: dvd_diff_nat)
  ultimately show "bsz (Suc i) dvd p - bsz i" using dvd_double_iff [of "bsz i" "p - bsz i"] by (simp add: bsz_Suc)
qed

section \<open>Tilings\<close>

lemma span_nonempty: "span bl \<noteq> {}"
  by (simp add: span_def)

lemma tilesD:
  assumes "tiles T B"
  shows "bl \<in> B \<Longrightarrow> wf_block bl" and "bl \<in> B \<Longrightarrow> c \<in> B \<Longrightarrow> x \<in> span bl \<Longrightarrow> x \<in> span c \<Longrightarrow> bl = c"
    and "x < T \<Longrightarrow> \<exists>bl \<in> B. x \<in> span bl" and "bl \<in> B \<Longrightarrow> fst bl + bsz (snd bl) \<le> T"
proof -
  show "bl \<in> B \<Longrightarrow> wf_block bl" using assms by (simp add: tiles_def)
  show "bl \<in> B \<Longrightarrow> c \<in> B \<Longrightarrow> x \<in> span bl \<Longrightarrow> x \<in> span c \<Longrightarrow> bl = c"
    using assms unfolding tiles_def by blast
  show "x < T \<Longrightarrow> \<exists>bl \<in> B. x \<in> span bl" using assms unfolding tiles_def by blast
  assume "bl \<in> B"
  then have "span bl \<subseteq> {..<T}" using assms unfolding tiles_def by blast
  moreover have "fst bl + bsz (snd bl) - 1 \<in> span bl" 
    using bsz_pos [of "snd bl"] unfolding span_def by (simp del: bsz_pos)
  ultimately have "fst bl + bsz (snd bl) - 1 < T" by blast
  then show "fst bl + bsz (snd bl) \<le> T" using bsz_pos [of "snd bl"] by linarith
qed

lemma tiles_same_base: "tiles T B \<Longrightarrow> (a, k) \<in> B \<Longrightarrow> (a, j) \<in> B \<Longrightarrow> k = j"
  using tilesD(2) [of T B "(a, k)" "(a, j)" a] by (simp add: span_def)

text \<open>Two blocks of one tiling start on different pages.\<close>

lemma tiles_index:
  assumes "tiles T B" and "(a, k) \<in> B" and "(c, j) \<in> B" and "BLOCK_INDEX a = BLOCK_INDEX c"
  shows "a = c" and "k = j"
proof -
  have "bsz 0 dvd a" "bsz 0 dvd c"
    using tilesD(1) [OF assms(1,2)] tilesD(1) [OF assms(1,3)] bsz_dvd [of 0 k] bsz_dvd [of 0 j]
    by (auto simp: wf_block_def intro: dvd_trans)
  then show "a = c" using assms(4) by (auto simp: BLOCK_INDEX_def bsz_def elim!: dvdE)
  then show "k = j" using tiles_same_base assms by blast
qed

lemma tiles_replace:
  assumes t: "tiles T (X \<union> B)" and XB: "X \<inter> B = {}" and wf: "\<And>y. y \<in> Y \<Longrightarrow> wf_block y"
    and dj: "\<And>y z. y \<in> Y \<Longrightarrow> z \<in> Y \<Longrightarrow> y \<noteq> z \<Longrightarrow> span y \<inter> span z = {}"
    and un: "(\<Union>y \<in> Y. span y) = (\<Union>x \<in> X. span x)"
  shows "tiles T (Y \<union> B)" and "Y \<inter> B = {}"
proof -
  have XBs: "span y \<inter> span c = {}" if "y \<in> Y" "c \<in> B" for y c
  proof (rule ccontr)
    assume "span y \<inter> span c \<noteq> {}"
    then obtain z where z: "z \<in> span y" "z \<in> span c" by blast
    from z(1) that(1) have "z \<in> (\<Union>x \<in> X. span x)" unfolding un [symmetric] by blast
    then obtain x where x: "x \<in> X" "z \<in> span x" by blast
    then have "x = c" using tilesD(2) [OF t, of x c z] z(2) that(2) by simp
    then show False using x(1) that(2) XB by blast
  qed
  then show "Y \<inter> B = {}" using span_nonempty by (metis Int_absorb disjoint_iff)
  have "(\<Union>y \<in> Y \<union> B. span y) = (\<Union>x \<in> X \<union> B. span x)" by (simp only: UN_Un un)
  moreover have "span y \<inter> span c = {}" if yc: "y \<in> Y \<union> B" "c \<in> Y \<union> B" "y \<noteq> c" for y c
  proof -
    consider "y \<in> Y" "c \<in> Y" | "y \<in> Y" "c \<in> B" | "y \<in> B" "c \<in> Y" | "y \<in> B" "c \<in> B" using yc(1,2) by blast
    then show ?thesis
    proof cases
      case 1
      then show ?thesis using yc(3) by (rule dj)
    next
      case 2
      then show ?thesis by (rule XBs)
    next
      case 3
      then show ?thesis by (subst Int_commute) (rule XBs)
    next
      case 4
      then show ?thesis using t yc(3) unfolding tiles_def by blast
    qed
  qed
  moreover have "wf_block y" if "y \<in> Y \<union> B" for y using that wf tilesD(1) [OF t] by blast
  moreover have "(\<Union>x \<in> X \<union> B. span x) = {..<T}" using t by (simp add: tiles_def)
  ultimately show "tiles T (Y \<union> B)" unfolding tiles_def by (intro conjI ballI impI) simp_all
qed

lemma span_halves:
  "span (a, Suc i) = span (a, i) \<union> span (a + bsz i, i)" "span (a, i) \<inter> span (a + bsz i, i) = {}"
  by (auto simp: span_def bsz_Suc)

lemma tiles_split:
  assumes "tiles T ({(a, Suc i)} \<union> B)" and "(a, Suc i) \<notin> B"
  shows "tiles T ({(a, i), (a + bsz i, i)} \<union> B)" and "{(a, i), (a + bsz i, i)} \<inter> B = {}"
proof -
  have "wf_block (a, Suc i)" using assms(1) by (simp add: tiles_def)
  then have "wf_block (a, i)" "wf_block (a + bsz i, i)"
    using bsz_dvd [of i "Suc i"] by (auto simp: wf_block_def dest: dvd_trans)
  then show "tiles T ({(a, i), (a + bsz i, i)} \<union> B)" "{(a, i), (a + bsz i, i)} \<inter> B = {}"
    using tiles_replace [OF assms(1), of "{(a, i), (a + bsz i, i)}"] assms(2) span_halves [of a i] by auto
qed

lemma tiles_merge:
  assumes "tiles T ({(a, i), (a + bsz i, i)} \<union> B)" and "{(a, i), (a + bsz i, i)} \<inter> B = {}"
    and "bsz (Suc i) dvd a" and "Suc i < NUM_LIST"
  shows "tiles T ({(a, Suc i)} \<union> B)" and "(a, Suc i) \<notin> B"
  using tiles_replace [OF assms(1,2), of "{(a, Suc i)}"] assms(3,4) span_halves(1) [of a i]
  by (auto simp: wf_block_def)

text \<open>The buddy of a block is the first page of a block that is no larger.\<close>

lemma buddy_is_base:
  assumes t: "tiles T B" and mem: "(p, i) \<in> B" and i: "Suc i < NUM_LIST" and T: "bsz (NUM_LIST - 1) dvd T"
  shows "\<exists>j \<le> i. (p XOR bsz i, j) \<in> B" and "(p XOR bsz i) + bsz i \<le> T"
proof -
  let ?x = "p XOR bsz i"
  let ?q = "if bsz (Suc i) dvd p then p else p - bsz i"
  have al: "bsz i dvd p" using tilesD(1) [OF t mem] by (simp add: wf_block_def)
  note odd = odd_block [OF al]
  have q: "bsz (Suc i) dvd ?q" using odd(2) by auto
  have parent: "?q \<le> p" "p < ?q + bsz (Suc i)" "?q \<le> ?x" "?x + bsz i \<le> ?q + bsz (Suc i)"
    using odd(1) by (auto simp: buddy_addr [OF al] bsz_Suc)
  have xal: "bsz i dvd ?x" using al by (auto simp: buddy_addr [OF al] intro: dvd_diff_nat)
  have "bsz (Suc i) dvd T" using T bsz_dvd [of "Suc i" "NUM_LIST - 1"] i by (auto intro: dvd_trans)
  moreover have "?q < T" using tilesD(4) [OF t mem] bsz_pos [of i] parent(1) unfolding fst_conv snd_conv by linarith
  ultimately have "?q + bsz (Suc i) \<le> T" using dvd_step [OF q] by blast
  then show top: "?x + bsz i \<le> T" using parent(4) by linarith
  then have "?x < T" using bsz_pos [of i] by linarith
  then obtain b j where b: "(b, j) \<in> B" "?x \<in> span (b, j)"
    using tilesD(3) [OF t, of ?x] by (metis prod.collapse)
  have bal: "bsz j dvd b" using tilesD(1) [OF t b(1)] by (simp add: wf_block_def)
  have bx: "b \<le> ?x" "?x < b + bsz j" using b(2) by (simp_all add: span_def)
  have "j \<le> i"
  proof (rule ccontr)
    assume "\<not> j \<le> i"
    then have "bsz (Suc i) dvd bsz j" using bsz_dvd [of "Suc i" j] by simp
    then have dv: "bsz (Suc i) dvd b" "bsz (Suc i) dvd b + bsz j" using bal by (auto intro: dvd_trans)
    have "?q + bsz (Suc i) \<le> b + bsz j" using dvd_step [OF q dv(2)] parent(3) bx(2) by linarith
    moreover have "b \<le> ?q"
    proof (rule ccontr)
      assume "\<not> b \<le> ?q"
      then have "?q + bsz (Suc i) \<le> b" using dvd_step [OF q dv(1)] by simp
      then show False using parent(4) bx(1) bsz_pos [of i] by linarith
    qed
    ultimately have "p \<in> span (b, j)" using parent(1,2) unfolding span_def by auto
    moreover have "p \<in> span (p, i)" by (simp add: span_def)
    ultimately show False using tilesD(2) [OF t b(1) mem] \<open>\<not> j \<le> i\<close> by blast
  qed
  moreover have "?x = b"
    using dvd_between [OF bal dvd_trans [OF bsz_dvd [OF \<open>j \<le> i\<close>] xal] bx] .
  ultimately show "\<exists>j \<le> i. (?x, j) \<in> B" using b(1) by blast
qed

section \<open>The lists\<close>

lemma order_mask:
  assumes "k < NUM_LIST"
  shows "(k OR 16) AND 15 = k" "(k OR 16) AND 16 \<noteq> 0" "k AND 15 = k" "k AND 16 = 0"
proof -
  have "k \<in> {0, 1, 2, 3, 4, 5, 6, 7, 8, 9, 10}"
    using assms unfolding NUM_LIST_def insert_iff empty_iff by arith
  then show "(k OR 16) AND 15 = k" "(k OR 16) AND 16 \<noteq> 0" "k AND 15 = k" "k AND 16 = 0" by auto
qed

lemma mset_concat_update:
  assumes "k < length xs"
  shows "mset (concat (xs[k := p # xs ! k])) = add_mset p (mset (concat xs))"
proof -
  have "mset (concat xs) = mset (concat (take k xs @ xs ! k # drop (Suc k) xs))"
    using id_take_nth_drop [OF assms] by simp
  then show ?thesis using assms by (simp add: upd_conv_take_nth_drop)
qed

lemma concat_update:
  assumes "k < length xs"
  shows "set (concat (xs[k := p # xs ! k])) = insert p (set (concat xs))"
    and "distinct (map f (concat (xs[k := p # xs ! k])) @ map g (concat (xs[k := p # xs ! k])))
      = distinct (f p # g p # map f (concat xs) @ map g (concat xs))"
    and "distinct (map f (concat (xs[k := p # xs ! k]))) = distinct (f p # map f (concat xs))"
proof -
  note m = mset_concat_update [OF assms, of p]
  show "set (concat (xs[k := p # xs ! k])) = insert p (set (concat xs))"
    using arg_cong [OF m, of set_mset] by simp
  show "distinct (map f (concat (xs[k := p # xs ! k])) @ map g (concat (xs[k := p # xs ! k])))
      = distinct (f p # g p # map f (concat xs) @ map g (concat xs))"
    by (rule mset_eq_imp_distinct_iff) (simp add: m)
  show "distinct (map f (concat (xs[k := p # xs ! k]))) = distinct (f p # map f (concat xs))"
    by (rule mset_eq_imp_distinct_iff) (simp only: m mset_map mset.simps image_mset_add_mset)
qed

lemma push_page_spec:
  assumes own: "own_ok b" and k: "k < NUM_LIST" and room: "card (km_live (bmem b)) < 47000"
  obtains node bucket m where "push_page k a b = Some (node, b\<lparr>bmem := m, cells := (cells b)(bucket \<mapsto> a),
       page_list := (page_list b)[k := (node, bucket) # page_list b ! k]\<rparr>)"
    and "own_ok (b\<lparr>bmem := m, cells := (cells b)(bucket \<mapsto> a),
       page_list := (page_list b)[k := (node, bucket) # page_list b ! k]\<rparr>)"
    and "bucket \<notin> snd ` set (concat (page_list b))" and "kpanics m = kpanics (bmem b)"
    and "card (km_live m) = card (km_live (bmem b)) + 2"
proof -
  have len: "length (page_list b) = NUM_LIST" and inv: "km_inv (bmem b)" using own by (simp_all add: own_ok_def)
  obtain bucket m1 where m1: "kmalloc 4 (bmem b) = Some (bucket, m1)" "kpanics m1 = kpanics (bmem b)"
      "km_live m1 = insert bucket (km_live (bmem b))" "card (km_live m1) = Suc (card (km_live (bmem b)))"
      "km_inv m1" "bucket \<notin> km_live (bmem b)"
    by (rule kmalloc_room16 [OF inv, of 4]) (use room in simp_all)
  obtain node m2 where m2: "kmalloc 12 m1 = Some (node, m2)" "kpanics m2 = kpanics m1"
      "km_live m2 = insert node (km_live m1)" "card (km_live m2) = Suc (card (km_live m1))"
      "km_inv m2" "node \<notin> km_live m1"
    by (rule kmalloc_room16 [OF m1(5), of 12]) (use room m1(4) in simp_all)
  let ?b = "b\<lparr>bmem := m2, cells := (cells b)(bucket \<mapsto> a),
       page_list := (page_list b)[k := (node, bucket) # page_list b ! k]\<rparr>"
  have old: "fst ` set (concat (page_list b)) \<subseteq> km_live (bmem b)" "snd ` set (concat (page_list b)) \<subseteq> km_live (bmem b)"
      "distinct (map fst (concat (page_list b)) @ map snd (concat (page_list b)))"
    using own by (simp_all add: own_ok_def)
  have new: "bucket \<notin> fst ` set (concat (page_list b))" "bucket \<notin> snd ` set (concat (page_list b))"
      "node \<notin> fst ` set (concat (page_list b))" "node \<notin> snd ` set (concat (page_list b))" "node \<noteq> bucket"
    using old(1,2) m1(3,6) m2(6) by auto
  have kl: "k < length (page_list b)" using k len by simp
  have "distinct (map fst (concat ((page_list b)[k := (node, bucket) # page_list b ! k])) @
      map snd (concat ((page_list b)[k := (node, bucket) # page_list b ! k])))"
    unfolding concat_update(2) [OF kl] using old(3) new by simp
  then have "own_ok ?b"
    using old(1,2) m2(3,5) m1(3) len unfolding own_ok_def concat_update(1) [OF kl] buddy_desc.simps
    by (auto simp: concat_update(1) [OF kl])
  then show ?thesis
    using that [of node bucket m2] m1 m2 new k len by (simp add: push_page_def)
qed

lemma free_blocks_push:
  assumes "k < length (page_list b)" and "cell \<notin> snd ` set (concat (page_list b))"
    and "page_list b' = (page_list b)[k := (node, cell) # page_list b ! k]"
    and "cells b' = (cells b)(cell \<mapsto> a)"
  shows "free_blocks b' = insert (a, k) (free_blocks b)"
proof -
  have same: "cells b' c = cells b c" if "(n, c) \<in> set (page_list b ! j)" "j < length (page_list b)" for n c j
  proof -
    have "(n, c) \<in> set (concat (page_list b))" using that by (auto simp: set_concat intro!: nth_mem)
    then show ?thesis using assms(2,4) by force
  qed
  have new: "cells b' cell = Some a" by (simp add: assms(4))
  have mem: "(\<exists>n c. (n, c) \<in> set (page_list b' ! j) \<and> cells b' c = Some x)
      \<longleftrightarrow> (x, j) = (a, k) \<or> (\<exists>n c. (n, c) \<in> set (page_list b ! j) \<and> cells b c = Some x)"
    if j: "j < length (page_list b)" for x j
  proof (cases "j = k")
    case True
    then have "set (page_list b' ! j) = insert (node, cell) (set (page_list b ! j))"
      using assms(1,3) by simp
    then show ?thesis using same [OF _ j] new True by (metis insert_iff option.inject prod.inject)
  next
    case False
    then have "page_list b' ! j = page_list b ! j" using assms(3) by simp
    then show ?thesis using same [OF _ j] False by (metis prod.inject)
  qed
  have len: "length (page_list b') = length (page_list b)" using assms(3) by simp
  show ?thesis
  proof (rule set_eqI, clarify)
    fix x j
    show "(x, j) \<in> free_blocks b' \<longleftrightarrow> (x, j) \<in> insert (a, k) (free_blocks b)"
      using assms(1) mem [of j x] by (cases "j < length (page_list b)") (auto simp: free_blocks_def len)
  qed
qed

lemma in_lists: "j < length xs \<Longrightarrow> p \<in> set (xs ! j) \<Longrightarrow> p \<in> set (concat xs)"
  by (auto simp: set_concat intro!: nth_mem)

lemma lists_okD:
  assumes "lists_ok b" and "k < NUM_LIST" and "(n, c) \<in> set (page_list b ! k)"
  obtains a where "cells b c = Some a" and "order b (BLOCK_INDEX a) = k"
    and "k < NUM_LIST - 1 \<Longrightarrow> page_list_ref b (BLOCK_INDEX a) = n"
  using assms unfolding lists_ok_def by blast

text \<open>Handing a held block to its free list.\<close>

lemma release_block:
  assumes inv: "bd_inv T (insert (a, k) H) A b" and notin: "(a, k) \<notin> H" and k: "k < NUM_LIST"
    and fresh: "cell \<notin> snd ` set (concat (page_list b))"
    and pl: "page_list b' = (page_list b)[k := (node, cell) # page_list b ! k]"
    and ce: "cells b' = (cells b)(cell \<mapsto> a)"
    and od: "order b' = (order b)(BLOCK_INDEX a := k)"
    and rf: "page_list_ref b' = (page_list_ref b)(BLOCK_INDEX a := r)" and r: "k < NUM_LIST - 1 \<longrightarrow> r = node"
    and own: "own_ok b'" and lone: "k < NUM_LIST - 1 \<longrightarrow> (a XOR bsz k, k) \<notin> free_blocks b"
  shows "bd_inv T H A b'" and "free_blocks b' = insert (a, k) (free_blocks b)"
proof -
  have b: "own_ok b" "lists_ok b" "T \<le> BUDDY_TOP" "tiles T (insert (a, k) H \<union> A \<union> free_blocks b)"
      "insert (a, k) H \<inter> A = {}" "(insert (a, k) H \<union> A) \<inter> free_blocks b = {}"
      "\<forall>(a, k) \<in> A. order b (BLOCK_INDEX a) = k OR 16" "no_pairs (free_blocks b)"
    using inv by (simp_all add: bd_inv_def)
  have len: "length (page_list b) = NUM_LIST" using b(1) by (simp add: own_ok_def)
  have kl: "k < length (page_list b)" using k len by simp
  show free': "free_blocks b' = insert (a, k) (free_blocks b)"
    by (rule free_blocks_push [OF kl fresh pl ce])
  have other: "BLOCK_INDEX c \<noteq> BLOCK_INDEX a" if "(c, j) \<in> A \<union> free_blocks b" for c j
  proof
    assume "BLOCK_INDEX c = BLOCK_INDEX a"
    then have "c = a" "j = k" using tiles_index [OF b(4), of c j a k] that by auto
    then show False using that b(5,6) by auto
  qed
  have cells': "cells b' c = cells b c" if "(n, c) \<in> set (page_list b ! j)" "j < NUM_LIST" for n c j
    using in_lists [of j "page_list b"] that len fresh by (force simp: ce)
  have "\<exists>x. cells b' c = Some x \<and> order b' (BLOCK_INDEX x) = j
       \<and> (j < NUM_LIST - 1 \<longrightarrow> page_list_ref b' (BLOCK_INDEX x) = n)"
    if j: "j < NUM_LIST" and nc: "(n, c) \<in> set (page_list b' ! j)" for j n c
  proof (cases "(n, c) \<in> set (page_list b ! j)")
    case True
    then obtain x where x: "cells b c = Some x" "order b (BLOCK_INDEX x) = j"
        "j < NUM_LIST - 1 \<longrightarrow> page_list_ref b (BLOCK_INDEX x) = n"
      using lists_okD [OF b(2) j] by metis
    then have "(x, j) \<in> free_blocks b" using True j len by (auto simp: free_blocks_def)
    then show ?thesis using x cells' [OF True j] other [of x j] by (simp add: od rf)
  next
    case False
    then have "j = k" "n = node" "c = cell" using nc kl by (auto simp: pl nth_list_update split: if_splits)
    then show ?thesis using r by (simp add: ce od rf)
  qed
  moreover have "distinct (map (\<lambda>p. cells b' (snd p)) (concat (page_list b')))"
  proof -
    have eq: "map (\<lambda>p. cells b' (snd p)) (concat (page_list b)) = map (\<lambda>p. cells b (snd p)) (concat (page_list b))"
      using fresh by (force simp: ce)
    have "Some a \<notin> (\<lambda>p. cells b (snd p)) ` set (concat (page_list b))"
    proof
      assume "Some a \<in> (\<lambda>p. cells b (snd p)) ` set (concat (page_list b))"
      then obtain n c j where c: "(n, c) \<in> set (page_list b ! j)" "j < NUM_LIST" "cells b c = Some a"
        using len by (force simp: set_concat in_set_conv_nth)
      then have "(a, j) \<in> free_blocks b" using len by (auto simp: free_blocks_def)
      then show False using other [of a j] by simp
    qed
    then show ?thesis
      unfolding pl concat_update(3) [OF kl] using b(2) by (simp add: eq lists_ok_def) (simp add: ce)
  qed
  ultimately have "lists_ok b'" unfolding lists_ok_def by blast
  moreover have "tiles T (H \<union> A \<union> free_blocks b')"
    using b(4) unfolding free' by (simp add: Un_commute insert_commute)
  moreover have "(H \<union> A) \<inter> free_blocks b' = {}" using b(5,6) notin unfolding free' by blast
  moreover have "\<forall>(c, j) \<in> A. order b' (BLOCK_INDEX c) = j OR 16" 
  proof clarify
    fix c j assume "(c, j) \<in> A"
    then show "order b' (BLOCK_INDEX c) = j OR 16" using b(7) other [of c j] by (auto simp: od)
  qed
  moreover have "no_pairs (free_blocks b')"
  proof -
    have "(c XOR bsz j, j) \<noteq> (a, k)" if "(c, j) \<in> free_blocks b" "j < NUM_LIST - 1" for c j
    proof
      assume eq: "(c XOR bsz j, j) = (a, k)"
      then have "a XOR bsz k = c" by (auto simp: xor.assoc)
      then show False using lone that eq by simp
    qed
    then show ?thesis using b(8) lone xor_bsz_neq [of a k] unfolding free' no_pairs_def by auto
  qed
  ultimately show "bd_inv T H A b'" using own b(3,5) by (simp add: bd_inv_def)
qed

lemma distinct_map_mem: "distinct (map f xs) \<Longrightarrow> p \<in> set xs \<Longrightarrow> q \<in> set xs \<Longrightarrow> f p = f q \<Longrightarrow> p = q"
  by (auto simp: distinct_map dest: inj_onD)

lemma drop_page_spec:
  assumes own: "own_ok b" and k: "k < NUM_LIST" and nc: "(n, c) \<in> set (page_list b ! k)"
  obtains m where "drop_page n b = Some (b\<lparr>bmem := m, cells := (cells b)(c := None),
       page_list := map (filter (\<lambda>p. fst p \<noteq> n)) (page_list b)\<rparr>)"
    and "own_ok (b\<lparr>bmem := m, cells := (cells b)(c := None),
       page_list := map (filter (\<lambda>p. fst p \<noteq> n)) (page_list b)\<rparr>)"
    and "kpanics m = kpanics (bmem b)" and "card (km_live m) \<le> card (km_live (bmem b))"
proof -
  let ?es = "concat (page_list b)"
  have len: "length (page_list b) = NUM_LIST" and inv: "km_inv (bmem b)"
      and dis: "distinct (map fst ?es @ map snd ?es)" and live: "fst ` set ?es \<union> snd ` set ?es \<subseteq> km_live (bmem b)"
    using own by (simp_all add: own_ok_def)
  have mem: "(n, c) \<in> set ?es" using in_lists nc k len by metis
  have lk: "map_of ?es n = Some c" using dis mem by (simp add: map_of_is_SomeI)
  have cross: "x \<noteq> y'" if "(x, y) \<in> set ?es" "(x', y') \<in> set ?es" for x y x' y'
  proof -
    have "x \<in> fst ` set ?es" "y' \<in> snd ` set ?es" using that by (metis fst_conv snd_conv image_eqI)+
    moreover have "fst ` set ?es \<inter> snd ` set ?es = {}" using dis by simp
    ultimately show ?thesis by blast
  qed
  have livep: "x \<in> km_live (bmem b) \<and> y \<in> km_live (bmem b)" if "(x, y) \<in> set ?es" for x y
    using live that by (metis Un_subset_iff fst_conv image_subset_iff snd_conv)
  obtain m1 where m1: "kfree c (bmem b) = Some m1" "km_inv m1" "km_live m1 = km_live (bmem b) - {c}"
      "kpanics m1 = kpanics (bmem b)"
    using km.release_live [OF inv, of c] livep [OF mem] by blast
  have "n \<in> km_live m1" using livep [OF mem] cross [OF mem mem] m1(3) by simp
  from km.release_live [OF m1(2) this] obtain m2 where m2: "kfree n m1 = Some m2" "km_inv m2"
      "km_live m2 = km_live m1 - {n}" "kpanics m2 = kpanics m1" by blast
  let ?b = "b\<lparr>bmem := m2, cells := (cells b)(c := None),
       page_list := map (filter (\<lambda>p. fst p \<noteq> n)) (page_list b)\<rparr>"
  have run: "drop_page n b = Some ?b" using lk m1(1) m2(1) by (simp add: drop_page_def)
  let ?fs = "filter (\<lambda>p. fst p \<noteq> n) ?es"
  have fs: "concat (map (filter (\<lambda>p. fst p \<noteq> n)) (page_list b)) = ?fs" by (simp add: filter_concat)
  have "distinct (map fst ?fs @ map snd ?fs)"
    using dis by (auto simp: distinct_map_filter)
  moreover have "fst ` set ?fs \<union> snd ` set ?fs \<subseteq> km_live m2"
  proof -
    have "x \<in> km_live m2 \<and> y \<in> km_live m2" if "(x, y) \<in> set ?fs" for x y
    proof -
      have xy: "(x, y) \<in> set ?es" "x \<noteq> n" using that by simp_all
      then have "y \<noteq> c" using distinct_map_mem [of snd ?es "(x, y)" "(n, c)"] dis mem by auto
      then show ?thesis
        using xy(2) livep [OF xy(1)] cross [OF xy(1) mem] cross [OF mem xy(1)] m1(3) m2(3) by simp
    qed
    then show ?thesis by (metis (no_types, lifting) Un_subset_iff image_subsetI prod.collapse)
  qed
  ultimately have "own_ok ?b" using len m2(2) by (simp add: own_ok_def fs)
  moreover have "card (km_live m2) \<le> card (km_live (bmem b))"
    using m1(3) m2(3) km_live_finite by (intro card_mono) auto
  ultimately show ?thesis using that run m1(4) m2(4) by simp
qed

text \<open>Taking a block off its free list: the caller holds it.\<close>

lemma take_block:
  assumes inv: "bd_inv T H A b" and k: "k < NUM_LIST" and nc: "(n, c) \<in> set (page_list b ! k)" and a: "cells b c = Some a"
  obtains b' where "drop_page n b = Some b'" and "bd_inv T (insert (a, k) H) A b'"
    and "free_blocks b' = free_blocks b - {(a, k)}" and "(a, k) \<in> free_blocks b"
    and "order b' = order b" and "page_list_ref b' = page_list_ref b"
    and "kpanics (bmem b') = kpanics (bmem b)" and "card (km_live (bmem b')) \<le> card (km_live (bmem b))"
proof -
  have b: "own_ok b" "lists_ok b" "T \<le> BUDDY_TOP" "tiles T (H \<union> A \<union> free_blocks b)"
      "H \<inter> A = {}" "(H \<union> A) \<inter> free_blocks b = {}"
      "\<forall>(a, k) \<in> A. order b (BLOCK_INDEX a) = k OR 16" "no_pairs (free_blocks b)"
    using inv by (simp_all add: bd_inv_def)
  have len: "length (page_list b) = NUM_LIST" using b(1) by (simp add: own_ok_def)
  obtain m where m: "drop_page n b = Some (b\<lparr>bmem := m, cells := (cells b)(c := None),
         page_list := map (filter (\<lambda>p. fst p \<noteq> n)) (page_list b)\<rparr>)"
      "own_ok (b\<lparr>bmem := m, cells := (cells b)(c := None),
         page_list := map (filter (\<lambda>p. fst p \<noteq> n)) (page_list b)\<rparr>)" "kpanics m = kpanics (bmem b)" "card (km_live m) \<le> card (km_live (bmem b))"
    using drop_page_spec [OF b(1) k nc] by blast
  let ?b = "b\<lparr>bmem := m, cells := (cells b)(c := None),
       page_list := map (filter (\<lambda>p. fst p \<noteq> n)) (page_list b)\<rparr>"
  have fb: "(a, k) \<in> free_blocks b" using nc k a len by (auto simp: free_blocks_def)
  let ?es = "concat (page_list b)"
  have disv: "distinct (map (\<lambda>p. cells b (snd p)) ?es)" using b(2) by (simp add: lists_ok_def)
  have diss: "distinct (map fst ?es)" "distinct (map snd ?es)" using b(1) by (simp_all add: own_ok_def)
  have mem: "(n, c) \<in> set ?es" using in_lists nc k len by metis
  have keep: "y \<noteq> c \<and> cells b y \<noteq> Some a" if "(x, y) \<in> set ?es" "x \<noteq> n" for x y
  proof -
    have "y \<noteq> c" using distinct_map_mem [OF diss(2) mem that(1)] that(2) by auto
    moreover have "cells b y \<noteq> cells b c"
      using distinct_map_mem [OF disv mem that(1)] that(2) by auto
    ultimately show ?thesis using a by simp
  qed
  have nth: "page_list ?b ! j = filter (\<lambda>p. fst p \<noteq> n) (page_list b ! j)" if "j < NUM_LIST" for j
    using that len by simp
  have mem': "(\<exists>x y. (x, y) \<in> set (page_list ?b ! j) \<and> cells ?b y = Some z)
      \<longleftrightarrow> (\<exists>x y. (x, y) \<in> set (page_list b ! j) \<and> cells b y = Some z) \<and> (z, j) \<noteq> (a, k)"
    if j: "j < NUM_LIST" for z j
  proof
    assume "\<exists>x y. (x, y) \<in> set (page_list ?b ! j) \<and> cells ?b y = Some z"
    then obtain x y where xy: "(x, y) \<in> set (page_list b ! j)" "x \<noteq> n" "y \<noteq> c" "cells b y = Some z"
      unfolding nth [OF j] by (auto split: if_splits)
    moreover have "(x, y) \<in> set ?es" using in_lists xy(1) j len by metis
    ultimately show "(\<exists>x y. (x, y) \<in> set (page_list b ! j) \<and> cells b y = Some z) \<and> (z, j) \<noteq> (a, k)"
      using keep by blast
  next
    assume as: "(\<exists>x y. (x, y) \<in> set (page_list b ! j) \<and> cells b y = Some z) \<and> (z, j) \<noteq> (a, k)"
    then obtain x y where xy: "(x, y) \<in> set (page_list b ! j)" "cells b y = Some z" by blast
    have es: "(x, y) \<in> set ?es" using in_lists xy(1) j len by metis
    have "x \<noteq> n"
    proof
      assume "x = n"
      then have "y = c" using diss(1) es mem distinct_map_fst_mem by metis
      then have "z = a" using xy(2) a by simp
      moreover have "(a, j) \<in> free_blocks b" using xy j len \<open>z = a\<close> by (auto simp: free_blocks_def)
      ultimately have "j = k" using tiles_same_base [OF b(4), of a j k] fb by simp
      then show False using as \<open>z = a\<close> by simp
    qed
    then show "\<exists>x y. (x, y) \<in> set (page_list ?b ! j) \<and> cells ?b y = Some z"
      using xy keep [OF es] unfolding nth [OF j] by (intro exI [of _ x] exI [of _ y]) simp
  qed
  have free': "free_blocks ?b = free_blocks b - {(a, k)}"
  proof (rule set_eqI, clarify)
    fix z j
    show "(z, j) \<in> free_blocks ?b \<longleftrightarrow> (z, j) \<in> free_blocks b - {(a, k)}"
      using mem' [of j z] len by (cases "j < NUM_LIST") (auto simp: free_blocks_def)
  qed
  have "lists_ok ?b"
    unfolding lists_ok_def
  proof (intro conjI allI impI ballI)
    fix j p assume j: "j < NUM_LIST" and p: "p \<in> set (page_list ?b ! j)"
    obtain x y where xy: "p = (x, y)" by fastforce
    then have old: "(x, y) \<in> set (page_list b ! j)" "x \<noteq> n" using p unfolding nth [OF j] by simp_all
    have "y \<noteq> c" using keep old in_lists j len by metis
    then show "case p of (n, c) \<Rightarrow> \<exists>a. cells ?b c = Some a \<and> order ?b (BLOCK_INDEX a) = j
        \<and> (j < NUM_LIST - 1 \<longrightarrow> page_list_ref ?b (BLOCK_INDEX a) = n)"
      using lists_okD [OF b(2) j old(1)] xy by fastforce
  next
    have eqm: "map (\<lambda>p. cells ?b (snd p)) (filter (\<lambda>p. fst p \<noteq> n) ?es)
        = map (\<lambda>p. cells b (snd p)) (filter (\<lambda>p. fst p \<noteq> n) ?es)"
      using keep by auto
    have "concat (page_list ?b) = filter (\<lambda>p. fst p \<noteq> n) ?es" by (simp add: filter_concat)
    then show "distinct (map (\<lambda>p. cells ?b (snd p)) (concat (page_list ?b)))"
      by (simp only: eqm distinct_map_filter [OF disv])
  qed
  moreover have "insert (a, k) H \<union> A \<union> free_blocks ?b = H \<union> A \<union> free_blocks b" unfolding free' using fb by blast
  moreover have "insert (a, k) H \<inter> A = {}" using b(5,6) fb by blast
  moreover have "(insert (a, k) H \<union> A) \<inter> free_blocks ?b = {}" unfolding free' using b(6) by blast
  moreover have "no_pairs (free_blocks ?b)" using b(8) unfolding free' no_pairs_def by auto
  ultimately have "bd_inv T (insert (a, k) H) A ?b" using m(2) b(3,4,7) by (simp add: bd_inv_def)
  then show ?thesis using that [OF m(1)] free' fb m(3,4) by simp
qed

section \<open>Marks\<close>

text \<open>Array entries of pages that start no block in use and no free block do not matter.\<close>

lemma bd_inv_writes:
  assumes inv: "bd_inv T H A b" and "own_ok b'" and "page_list b' = page_list b" and "cells b' = cells b"
    and same: "\<And>a k. (a, k) \<in> A \<union> free_blocks b \<Longrightarrow>
      order b' (BLOCK_INDEX a) = order b (BLOCK_INDEX a) \<and> page_list_ref b' (BLOCK_INDEX a) = page_list_ref b (BLOCK_INDEX a)"
  shows "bd_inv T H A b'" and "free_blocks b' = free_blocks b"
proof -
  show free': "free_blocks b' = free_blocks b" using assms(3,4) by (simp add: free_blocks_def)
  have len: "length (page_list b) = NUM_LIST" using inv by (simp add: bd_inv_def own_ok_def)
  have "\<exists>a. cells b' c = Some a \<and> order b' (BLOCK_INDEX a) = k \<and> (k < NUM_LIST - 1 \<longrightarrow> page_list_ref b' (BLOCK_INDEX a) = n)"
    if k: "k < NUM_LIST" and nc: "(n, c) \<in> set (page_list b' ! k)" for k n c
  proof -
    have nc': "(n, c) \<in> set (page_list b ! k)" using nc assms(3) by simp
    have "lists_ok b" using inv by (simp add: bd_inv_def)
    then obtain a where a: "cells b c = Some a" "order b (BLOCK_INDEX a) = k"
        "k < NUM_LIST - 1 \<longrightarrow> page_list_ref b (BLOCK_INDEX a) = n"
      using lists_okD [OF _ k nc'] by metis
    then have "(a, k) \<in> free_blocks b" using nc' k len by (auto simp: free_blocks_def)
    then show ?thesis using a same [of a k] assms(4) by simp
  qed
  moreover have "distinct (map (\<lambda>p. cells b' (snd p)) (concat (page_list b')))"
    using inv assms(3,4) by (simp add: bd_inv_def lists_ok_def)
  ultimately have "lists_ok b'" unfolding lists_ok_def by blast
  moreover have "\<forall>(a, k) \<in> A. order b' (BLOCK_INDEX a) = k OR 16"
    using inv same unfolding bd_inv_def by (metis (no_types, lifting) UnI1 case_prodD case_prodI2)
  ultimately show "bd_inv T H A b'" using inv assms(2) unfolding bd_inv_def free' by blast
qed

lemma held_index:
  assumes "bd_inv T H A b" and "(a, k) \<in> H" and "(c, j) \<in> A \<union> free_blocks b"
  shows "BLOCK_INDEX c \<noteq> BLOCK_INDEX a"
proof
  assume eq: "BLOCK_INDEX c = BLOCK_INDEX a"
  have t: "tiles T (H \<union> A \<union> free_blocks b)" using assms(1) by (simp add: bd_inv_def)
  have "(c, j) \<in> H \<union> A \<union> free_blocks b" "(a, k) \<in> H \<union> A \<union> free_blocks b" using assms(2,3) by blast+
  from tiles_index [OF t this eq] have "(a, k) \<in> A \<union> free_blocks b" using assms(3) by simp
  moreover have "H \<inter> (A \<union> free_blocks b) = {}" using assms(1) unfolding bd_inv_def by blast
  ultimately show False using assms(2) by blast
qed

lemma mark_block:
  assumes inv: "bd_inv T (insert (a, k) H) A b" and "(a, k) \<notin> H"
    and b': "own_ok b'" "page_list b' = page_list b" "cells b' = cells b"
      "order b' = (order b)(BLOCK_INDEX a := k OR 16)"
      "page_list_ref b' = (page_list_ref b)(BLOCK_INDEX a := r)"
  shows "bd_inv T H (insert (a, k) A) b'" and "free_blocks b' = free_blocks b"
proof -
  have other: "BLOCK_INDEX c \<noteq> BLOCK_INDEX a" if "(c, j) \<in> A \<union> free_blocks b" for c j
    using held_index [OF inv _ that, of a k] by simp
  have same: "order b' (BLOCK_INDEX c) = order b (BLOCK_INDEX c) \<and> page_list_ref b' (BLOCK_INDEX c) = page_list_ref b (BLOCK_INDEX c)"
    if "(c, j) \<in> A \<union> free_blocks b" for c j
    unfolding b'(4,5) using other [OF that] by simp
  have w: "bd_inv T (insert (a, k) H) A b'" "free_blocks b' = free_blocks b"
    by (rule bd_inv_writes [OF inv b'(1-3)]; rule same; assumption)+
  show "free_blocks b' = free_blocks b" using w(2) .
  have eq: "H \<union> insert (a, k) A \<union> F = insert (a, k) H \<union> A \<union> F" for F by blast
  have new: "own_ok b'" "lists_ok b'" "T \<le> BUDDY_TOP" "tiles T (insert (a, k) H \<union> A \<union> free_blocks b')"
      "insert (a, k) H \<inter> A = {}" "(insert (a, k) H \<union> A) \<inter> free_blocks b' = {}"
      "\<forall>(a, k) \<in> A. order b' (BLOCK_INDEX a) = k OR 16" "no_pairs (free_blocks b')"
    using w(1) by (simp_all add: bd_inv_def)
  have "H \<inter> insert (a, k) A = {}" "(H \<union> insert (a, k) A) \<inter> free_blocks b' = {}"
    using new(5,6) assms(2) by blast+
  moreover have "\<forall>(c, j) \<in> insert (a, k) A. order b' (BLOCK_INDEX c) = j OR 16"
    using new(7) b'(4) by simp
  ultimately show "bd_inv T H (insert (a, k) A) b'" unfolding bd_inv_def eq using new(1-4,8) by blast
qed

lemma unmark_block:
  assumes "bd_inv T H (insert (a, k) A) b" and "(a, k) \<notin> A"
  shows "bd_inv T (insert (a, k) H) A b" and "order b (BLOCK_INDEX a) = k OR 16"
proof -
  have eq: "H \<union> insert (a, k) A \<union> F = insert (a, k) H \<union> A \<union> F" for F by blast
  show "bd_inv T (insert (a, k) H) A b" using assms unfolding bd_inv_def eq by auto
  show "order b (BLOCK_INDEX a) = k OR 16" using assms(1) by (auto simp: bd_inv_def)
qed

lemma BUDDY_layout: "BUDDY_START_ADDR = 0x28B4000" "BUDDY_MEM_SIZE = 0x9F4C000" "NUM_PAGES = 40780"
    "BUDDY_TOP = 39 * bsz 10" "BUDDY_MEM_SIZE div bsz (NUM_LIST - 1) = 39"
  by (simp_all add: BUDDY_START_ADDR_def BUDDY_START_RAW_def BUDDY_MEM_SIZE_def NUM_PAGES_def BUDDY_TOP_def
      MEM_START_ADDR_def ALLOCATED_MEM_def PHY_MEM_SIZE_def PAGE_SIZE_def NUM_LIST_def bsz_def)

lemma page_in_range: "a + bsz k \<le> T \<Longrightarrow> T \<le> BUDDY_TOP \<Longrightarrow> BLOCK_INDEX a < NUM_PAGES"
proof -
  assume "a + bsz k \<le> T" "T \<le> BUDDY_TOP"
  then have "a < 39 * bsz 10" using bsz_pos [of k] BUDDY_layout(4) by linarith
  then show ?thesis by (simp add: BLOCK_INDEX_def BUDDY_layout PAGE_SIZE_def bsz_def div_less_iff_less_mult)
qed

lemma bd_inv_bounds:
  assumes "bd_inv T H A b" and "(a, k) \<in> H \<union> A \<union> free_blocks b"
  shows "a + bsz k \<le> T" and "BLOCK_INDEX a < NUM_PAGES" and "k < NUM_LIST" and "bsz k dvd a"
proof -
  have t: "tiles T (H \<union> A \<union> free_blocks b)" and T: "T \<le> BUDDY_TOP" using assms(1) by (simp_all add: bd_inv_def)
  show le: "a + bsz k \<le> T" using tilesD(4) [OF t assms(2)] by simp
  show "BLOCK_INDEX a < NUM_PAGES" by (rule page_in_range [OF le T])
  show "k < NUM_LIST" "bsz k dvd a" using tilesD(1) [OF t assms(2)] by (simp_all add: wf_block_def)
qed

section \<open>Splitting\<close>

lemma own_ok_frame:
  "page_list b' = page_list b \<Longrightarrow> bmem b' = bmem b \<Longrightarrow> own_ok b' = own_ok b"
  by (simp add: own_ok_def)

lemma split_block:
  assumes inv: "bd_inv T {(a, Suc i)} A b" and room: "card (km_live (bmem b)) < 47000"
  obtains b1 b2 b3 b4 n where "push_page i (a + bsz i) b = Some (n, b1)"
    and "set_order (BLOCK_INDEX (a + bsz i)) i b1 = Some b2"
    and "set_page_list_ref (BLOCK_INDEX (a + bsz i)) n b2 = Some b3"
    and "set_count (BLOCK_INDEX (a + bsz i)) 0 b3 = Some b4"
    and "bd_inv T {(a, i)} A b4" and "kpanics (bmem b4) = kpanics (bmem b)"
    and "card (km_live (bmem b4)) = card (km_live (bmem b)) + 2"
proof -
  have b: "own_ok b" "T \<le> BUDDY_TOP" "tiles T ({(a, Suc i)} \<union> (A \<union> free_blocks b))"
      "(a, Suc i) \<notin> A \<union> free_blocks b"
    using inv by (auto simp: bd_inv_def)
  have al: "bsz (Suc i) dvd a" and k: "Suc i < NUM_LIST" using bd_inv_bounds [OF inv, of a "Suc i"] by auto
  note sp = tiles_split [OF b(3,4)]
  have eq: "{(a, i), (a + bsz i, i)} \<union> (A \<union> F) = insert (a + bsz i, i) {(a, i)} \<union> A \<union> F" for F by blast
  have inv1: "bd_inv T (insert (a + bsz i, i) {(a, i)}) A b"
    using inv sp unfolding bd_inv_def eq by auto
  obtain node cell m where p: "push_page i (a + bsz i) b = Some (node, b\<lparr>bmem := m, cells := (cells b)(cell \<mapsto> a + bsz i),
         page_list := (page_list b)[i := (node, cell) # page_list b ! i]\<rparr>)"
      and own: "own_ok (b\<lparr>bmem := m, cells := (cells b)(cell \<mapsto> a + bsz i),
         page_list := (page_list b)[i := (node, cell) # page_list b ! i]\<rparr>)"
      and fresh: "cell \<notin> snd ` set (concat (page_list b))" and km: "kpanics m = kpanics (bmem b)"
      "card (km_live m) = card (km_live (bmem b)) + 2"
    using push_page_spec [OF b(1) _ room, of i "a + bsz i"] k by (metis Suc_lessD)
  let ?j = "BLOCK_INDEX (a + bsz i)"
  let ?b1 = "b\<lparr>bmem := m, cells := (cells b)(cell \<mapsto> a + bsz i),
         page_list := (page_list b)[i := (node, cell) # page_list b ! i]\<rparr>"
  let ?b2 = "?b1\<lparr>order := (order b)(?j := i)\<rparr>"
  let ?b3 = "?b2\<lparr>page_list_ref := (page_list_ref b)(?j := node)\<rparr>"
  let ?b4 = "?b3\<lparr>count := (count b)(?j := 0)\<rparr>"
  have idx: "?j < NUM_PAGES" using bd_inv_bounds(2) [OF inv1, of "a + bsz i" i] by simp
  have "(a + bsz i) XOR bsz i = a"
    using buddy_addr [of i a] al bsz_dvd [of i "Suc i"] by (metis dvd_trans le_add2 plus_1_eq_Suc xor.assoc xor.right_neutral xor_self_eq)
  then have lone: "i < NUM_LIST - 1 \<longrightarrow> ((a + bsz i) XOR bsz i, i) \<notin> free_blocks b" using sp(2) by auto
  have ne: "(a + bsz i, i) \<notin> {(a, i)}" using bsz_pos [of i] by simp
  have "own_ok ?b4" using own own_ok_frame [of ?b4 ?b1] by simp
  then have "bd_inv T {(a, i)} A ?b4"
    using release_block(1) [OF inv1 ne _ fresh, of ?b4 node node] lone k by simp
  then show ?thesis
    using that [OF p, of ?b2 ?b3 ?b4] idx km by (simp add: set_order_def set_page_list_ref_def set_count_def)
qed

lemma split_pages_spec:
  assumes "bd_inv T {(a, j)} A b" and "list_index \<le> j" and "card (km_live (bmem b)) + 2 * j < 47000"
  shows "\<exists>b'. split_pages list_index j a (bsz j) b = Some b' \<and> bd_inv T {(a, list_index)} A b'
     \<and> kpanics (bmem b') = kpanics (bmem b) \<and> card (km_live (bmem b')) \<le> card (km_live (bmem b)) + 2 * j"
  using assms
proof (induction j arbitrary: b)
  case 0
  then show ?case by simp
next
  case (Suc i)
  show ?case
  proof (cases "i < list_index")
    case True
    then show ?thesis using Suc.prems by (simp add: le_Suc_eq)
  next
    case False
    have room: "card (km_live (bmem b)) < 47000" using Suc.prems(3) by simp
    obtain b1 b2 b3 b4 n where st: "push_page i (a + bsz i) b = Some (n, b1)"
        "set_order (BLOCK_INDEX (a + bsz i)) i b1 = Some b2"
        "set_page_list_ref (BLOCK_INDEX (a + bsz i)) n b2 = Some b3"
        "set_count (BLOCK_INDEX (a + bsz i)) 0 b3 = Some b4"
        "bd_inv T {(a, i)} A b4" "kpanics (bmem b4) = kpanics (bmem b)"
        "card (km_live (bmem b4)) = card (km_live (bmem b)) + 2"
      using split_block [OF Suc.prems(1) room] by metis
    have "\<exists>b'. split_pages list_index i a (bsz i) b4 = Some b' \<and> bd_inv T {(a, list_index)} A b'
       \<and> kpanics (bmem b') = kpanics (bmem b4) \<and> card (km_live (bmem b')) \<le> card (km_live (bmem b4)) + 2 * i"
      using Suc.prems(3) st(7) False by (intro Suc.IH [OF st(5)]) simp_all
    then show ?thesis using False st by (auto simp: bsz_Suc Let_def)
  qed
qed

section \<open>Merging\<close>

text \<open>The test of the loop decides exactly whether the buddy is free and of the same order.\<close>

lemma buddy_test:
  assumes inv: "bd_inv T {(p, i)} A b" and i: "i < NUM_LIST - 1" and T: "bsz (NUM_LIST - 1) dvd T"
  defines "x \<equiv> p XOR bsz i"
  shows "BLOCK_INDEX x < NUM_PAGES"
    and "(order b (BLOCK_INDEX x) AND 15 = i \<and> order b (BLOCK_INDEX x) AND 16 = 0 \<and> page_list_ref b (BLOCK_INDEX x) \<noteq> 0)
      \<longleftrightarrow> (x, i) \<in> free_blocks b"
    and "(x, i) \<in> free_blocks b \<Longrightarrow>
      \<exists>c. (page_list_ref b (BLOCK_INDEX x), c) \<in> set (page_list b ! i) \<and> cells b c = Some x"
proof -
  have t: "tiles T ({(p, i)} \<union> A \<union> free_blocks b)" and top: "T \<le> BUDDY_TOP" and own: "own_ok b"
      and lists: "lists_ok b" and marks: "\<forall>(a, k) \<in> A. order b (BLOCK_INDEX a) = k OR 16"
    using inv by (simp_all add: bd_inv_def)
  have i': "Suc i < NUM_LIST" using i by simp
  have len: "length (page_list b) = NUM_LIST" using own by (simp add: own_ok_def)
  have le: "x + bsz i \<le> T" unfolding x_def by (rule buddy_is_base(2) [OF t _ i' T]) simp
  show "BLOCK_INDEX x < NUM_PAGES" by (rule page_in_range [OF le top])
  obtain j where j: "j \<le> i" "(x, j) \<in> {(p, i)} \<union> A \<union> free_blocks b"
    using buddy_is_base(1) [OF t _ i' T, of p] unfolding x_def by auto
  have "x \<noteq> p" using xor_bsz_neq [of p i] unfolding x_def .
  then have j': "(x, j) \<in> A \<or> (x, j) \<in> free_blocks b" using j(2) by auto
  have jn: "j < NUM_LIST" using j(1) i by simp
  have node: "\<exists>c. (page_list_ref b (BLOCK_INDEX x), c) \<in> set (page_list b ! j) \<and> cells b c = Some x
      \<and> order b (BLOCK_INDEX x) = j \<and> page_list_ref b (BLOCK_INDEX x) \<noteq> 0" if f: "(x, j) \<in> free_blocks b"
  proof -
    obtain n c where nc: "(n, c) \<in> set (page_list b ! j)" "cells b c = Some x"
      using f by (auto simp: free_blocks_def)
    obtain a where a: "cells b c = Some a" "order b (BLOCK_INDEX a) = j"
        "j < NUM_LIST - 1 \<longrightarrow> page_list_ref b (BLOCK_INDEX a) = n"
      using lists_okD [OF lists jn nc(1)] by metis
    have "n \<in> fst ` set (concat (page_list b))" using in_lists [of j "page_list b" "(n, c)"] nc(1) jn len by force
    then have "n \<in> km_live (bmem b)" using own by (auto simp: own_ok_def)
    then have "0 < n"
      using own km_live_bounds(3) [of _ n "bmem b"] by (auto simp: own_ok_def km_live_def)
    then show ?thesis using nc a j(1) i by auto
  qed
  show "(order b (BLOCK_INDEX x) AND 15 = i \<and> order b (BLOCK_INDEX x) AND 16 = 0 \<and> page_list_ref b (BLOCK_INDEX x) \<noteq> 0)
      \<longleftrightarrow> (x, i) \<in> free_blocks b" (is "?test \<longleftrightarrow> _")
  proof
    assume ?test
    have "(x, j) \<notin> A"
    proof
      assume "(x, j) \<in> A"
      then have "order b (BLOCK_INDEX x) = j OR 16" using marks by auto
      then show False using \<open>?test\<close> order_mask(2) [OF jn] by simp
    qed
    then have f: "(x, j) \<in> free_blocks b" using j' by simp
    then have "order b (BLOCK_INDEX x) = j" using node by blast
    then show "(x, i) \<in> free_blocks b" using \<open>?test\<close> order_mask(3) [OF jn] f by simp
  next
    assume f: "(x, i) \<in> free_blocks b"
    then have "j = i" using tiles_same_base [OF t j(2), of i] by simp
    then show ?test using node f order_mask(3,4) [OF jn] by auto
  qed
  show "(x, i) \<in> free_blocks b \<Longrightarrow>
      \<exists>c. (page_list_ref b (BLOCK_INDEX x), c) \<in> set (page_list b ! i) \<and> cells b c = Some x"
    using node tiles_same_base [OF t j(2), of i] by auto
qed

lemma merge_block:
  assumes inv: "bd_inv T {(x, i), (p, i)} A b" and i: "i < NUM_LIST - 1" and x: "x = p XOR bsz i"
    and b': "own_ok b'" "page_list b' = page_list b" "cells b' = cells b"
    and od: "\<And>j. j \<noteq> BLOCK_INDEX x \<Longrightarrow> j \<noteq> BLOCK_INDEX p \<Longrightarrow> order b' j = order b j"
    and rf: "\<And>j. j \<noteq> BLOCK_INDEX x \<Longrightarrow> j \<noteq> BLOCK_INDEX p \<Longrightarrow> page_list_ref b' j = page_list_ref b j"
  shows "bd_inv T {(p AND x, Suc i)} A b'" and "free_blocks b' = free_blocks b" and "p AND x \<in> {x, p}"
proof -
  have same: "order b' (BLOCK_INDEX c) = order b (BLOCK_INDEX c) \<and> page_list_ref b' (BLOCK_INDEX c) = page_list_ref b (BLOCK_INDEX c)"
    if "(c, j) \<in> A \<union> free_blocks b" for c j
  proof -
    have "BLOCK_INDEX c \<noteq> BLOCK_INDEX x" "BLOCK_INDEX c \<noteq> BLOCK_INDEX p"
      using held_index [OF inv _ that, of x i] held_index [OF inv _ that, of p i] by simp_all
    then show ?thesis using od rf by simp
  qed
  have w: "bd_inv T {(x, i), (p, i)} A b'" "free_blocks b' = free_blocks b"
    by (rule bd_inv_writes [OF inv b']; rule same; assumption)+
  show "free_blocks b' = free_blocks b" by (rule w(2))
  have al: "bsz i dvd p" using bd_inv_bounds(4) [OF inv, of p i] by simp
  let ?q = "p AND x"
  have q: "?q = (if bsz (Suc i) dvd p then p else p - bsz i)" unfolding x by (rule lower_addr [OF al])
  have x': "x = (if bsz (Suc i) dvd p then p + bsz i else p - bsz i)" unfolding x by (rule buddy_addr [OF al])
  note odd = odd_block [OF al]
  have qal: "bsz (Suc i) dvd ?q" using odd(2) by (simp add: q)
  show "?q \<in> {x, p}" unfolding q using x' by (simp split: if_splits)
  have pair: "{(x, i), (p, i)} = {(?q, i), (?q + bsz i, i)}"
    unfolding q using odd(1) x' by (auto split: if_splits)
  have new: "tiles T ({(?q, i), (?q + bsz i, i)} \<union> (A \<union> free_blocks b'))"
      "{(?q, i), (?q + bsz i, i)} \<inter> (A \<union> free_blocks b') = {}"
    using w(1) unfolding bd_inv_def pair by (simp_all add: Un_assoc)
  have "Suc i < NUM_LIST" using i by simp
  from tiles_merge [OF new qal this]
  show "bd_inv T {(?q, Suc i)} A b'" using w(1) unfolding bd_inv_def by (simp add: Un_assoc)
qed

lemma coalesce_spec:
  assumes "bd_inv T {(p, i)} A b" and "i < NUM_LIST" and T: "bsz (NUM_LIST - 1) dvd T"
  shows "\<exists>q k b'. coalesce i p b = Some (q, k, b') \<and> bd_inv T {(q, k)} A b' \<and> k < NUM_LIST
     \<and> (k < NUM_LIST - 1 \<longrightarrow> (q XOR bsz k, k) \<notin> free_blocks b')
     \<and> kpanics (bmem b') = kpanics (bmem b) \<and> card (km_live (bmem b')) \<le> card (km_live (bmem b))"
  using assms(1,2)
proof (induction "NUM_LIST - 1 - i" arbitrary: i p b)
  case 0
  then have top: "\<not> i < NUM_LIST - 1" by simp
  then have "coalesce i p b = Some (p, i, b)" by (subst coalesce.simps) (simp only: if_False)
  then show ?case using 0 top by simp
next
  case (Suc n)
  have i: "i < NUM_LIST - 1" and n: "n = NUM_LIST - 1 - Suc i" using Suc.hyps(2) by simp_all
  show ?case
  proof -
    let ?x = "p XOR bsz i"
    note test = buddy_test [OF Suc.prems(1) i T]
    have ps: "PAGE_SIZE * 2 ^ i = bsz i" by (simp add: bsz_def)
    have ord: "get_order (BLOCK_INDEX ?x) b = Some (order b (BLOCK_INDEX ?x))" using test(1) by (simp add: get_order_def)
    show ?thesis
    proof (cases "(?x, i) \<in> free_blocks b")
      case False
      then have "coalesce i p b = Some (p, i, b)"
        using i ord test(2) by (subst coalesce.simps) (auto simp: ps Let_def)
      then show ?thesis using Suc.prems False by simp
    next
      case True
      let ?r = "page_list_ref b (BLOCK_INDEX ?x)"
      obtain c where c: "(?r, c) \<in> set (page_list b ! i)" "cells b c = Some ?x" using test(3) [OF True] by blast
      have il: "i < NUM_LIST" using i by simp
      obtain b1 where b1: "drop_page ?r b = Some b1" "bd_inv T {(?x, i), (p, i)} A b1"
          "order b1 = order b" "page_list_ref b1 = page_list_ref b"
          "kpanics (bmem b1) = kpanics (bmem b)" "card (km_live (bmem b1)) \<le> card (km_live (bmem b))"
        using take_block [OF Suc.prems(1) il c] by metis
      let ?q = "p AND ?x"
      let ?b2 = "b1\<lparr>order := (order b1)(BLOCK_INDEX ?x := 0)\<rparr>"
      let ?b3 = "?b2\<lparr>page_list_ref := (page_list_ref b1)(BLOCK_INDEX ?x := 0)\<rparr>"
      let ?b4 = "?b3\<lparr>order := (order ?b3)(BLOCK_INDEX ?q := order ?b3 (BLOCK_INDEX ?q) AND 15)\<rparr>"
      have own: "own_ok ?b4" using b1(2) own_ok_frame [of ?b4 b1] by (simp add: bd_inv_def)
      have pq: "?q \<in> {?x, p}" by (rule merge_block(3) [OF b1(2) i refl, of b1]) (use b1(2) in \<open>simp_all add: bd_inv_def\<close>)
      have inv4: "bd_inv T {(?q, Suc i)} A ?b4"
        by (rule merge_block(1) [OF b1(2) i refl own]) (use pq in auto)
      have p: "BLOCK_INDEX p < NUM_PAGES" using bd_inv_bounds(2) [OF Suc.prems(1), of p i] by simp
      have q: "BLOCK_INDEX ?q < NUM_PAGES" using pq p test(1) by auto
      have so: "set_order (BLOCK_INDEX ?x) 0 b1 = Some ?b2" "set_page_list_ref (BLOCK_INDEX ?x) 0 ?b2 = Some ?b3"
          "get_order (BLOCK_INDEX ?q) ?b3 = Some (order ?b3 (BLOCK_INDEX ?q))"
          "set_order (BLOCK_INDEX ?q) (order ?b3 (BLOCK_INDEX ?q) AND 15) ?b3 = Some ?b4"
        using test(1) q by (simp_all add: set_order_def set_page_list_ref_def get_order_def)
      have step: "coalesce i p b = coalesce (Suc i) ?q ?b4"
        using i ord test(2) True b1(1) so by (subst coalesce.simps) (simp add: ps Let_def)
      have "\<exists>q k b'. coalesce (Suc i) ?q ?b4 = Some (q, k, b') \<and> bd_inv T {(q, k)} A b' \<and> k < NUM_LIST
           \<and> (k < NUM_LIST - 1 \<longrightarrow> (q XOR bsz k, k) \<notin> free_blocks b')
           \<and> kpanics (bmem b') = kpanics (bmem ?b4) \<and> card (km_live (bmem b')) \<le> card (km_live (bmem ?b4))"
        using i by (intro Suc.hyps(1) [OF n inv4]) simp
      then show ?thesis using step b1(5,6) by auto
    qed
  qed
qed

section \<open>Requests\<close>

abbreviation buddy_ok :: "(nat \<times> nat) set \<Rightarrow> buddy_desc \<Rightarrow> bool" where
  "buddy_ok A b \<equiv> bd_inv BUDDY_TOP {} A b"

lemma page_order_spec:
  assumes "i \<le> NUM_LIST"
  shows "i \<le> page_order i sz \<and> page_order i sz \<le> NUM_LIST
    \<and> (page_order i sz < NUM_LIST \<longrightarrow> sz \<le> bsz (page_order i sz))
    \<and> (\<forall>j. i \<le> j \<and> j < page_order i sz \<longrightarrow> bsz j < sz)"
  using assms
proof (induction "NUM_LIST - i" arbitrary: i)
  case 0
  then have "page_order i sz = i" by (subst page_order.simps) simp
  then show ?case using 0 by simp
next
  case (Suc n)
  have i: "i < NUM_LIST" and n: "n = NUM_LIST - Suc i" using Suc.hyps(2) by simp_all
  show ?case
  proof (cases "sz \<le> bsz i")
    case True
    then have "page_order i sz = i" using i by (subst page_order.simps) (simp add: bsz_def)
    then show ?thesis using True i by simp
  next
    case False
    then have "page_order i sz = page_order (Suc i) sz" using i by (subst page_order.simps) (simp add: bsz_def)
    moreover have "bsz j < sz" if "i \<le> j" "j < page_order (Suc i) sz" for j
      using that False Suc.hyps(1) [OF n] i by (cases "j = i") auto
    ultimately show ?thesis using Suc.hyps(1) [OF n] i by simp
  qed
qed

lemma first_list_spec:
  assumes "i \<le> NUM_LIST"
  shows "i \<le> first_list i b \<and> first_list i b \<le> NUM_LIST
    \<and> (first_list i b < NUM_LIST \<longrightarrow> page_list b ! first_list i b \<noteq> [])
    \<and> (\<forall>j. i \<le> j \<and> j < first_list i b \<longrightarrow> page_list b ! j = [])"
  using assms
proof (induction "NUM_LIST - i" arbitrary: i)
  case 0
  then have "first_list i b = i" by (subst first_list.simps) simp
  then show ?case using 0 by auto
next
  case (Suc n)
  have i: "i < NUM_LIST" and n: "n = NUM_LIST - Suc i" using Suc.hyps(2) by simp_all
  show ?case
  proof (cases "page_list b ! i = []")
    case False
    then have "first_list i b = i" by (subst first_list.simps) simp
    then show ?thesis using False i by auto
  next
    case True
    then have "first_list i b = first_list (Suc i) b" using i by (subst first_list.simps) simp
    moreover have "page_list b ! j = []" if "i \<le> j" "j < first_list (Suc i) b" for j
      using that True Suc.hyps(1) [OF n] i by (cases "j = i") auto
    ultimately show ?thesis using Suc.hyps(1) [OF n] i by simp
  qed
qed

lemma buddy_alloc_page_spec:
  assumes inv: "buddy_ok A b" and free: "(c, j) \<in> free_blocks b" "page_order 0 sz \<le> j"
    and room: "card (km_live (bmem b)) < 46900"
  defines "k \<equiv> page_order 0 sz"
  shows "\<exists>a b'. buddy_alloc_page sz b = Some (a + BUDDY_START_ADDR + VIRT_MEM_START_ADDR, b')
     \<and> buddy_ok (insert (a, k) A) b' \<and> (a, k) \<notin> A \<and> kpanics (bmem b') = kpanics (bmem b)
     \<and> card (km_live (bmem b')) \<le> card (km_live (bmem b)) + 20"
proof -
  have own: "own_ok b" and lists: "lists_ok b" using inv by (simp_all add: bd_inv_def)
  have len: "length (page_list b) = NUM_LIST" using own by (simp add: own_ok_def)
  let ?l = "first_list k b"
  have j: "j < NUM_LIST" "page_list b ! j \<noteq> []" using free(1) len by (auto simp: free_blocks_def)
  have k: "k \<le> NUM_LIST" "k \<le> j" using page_order_spec [of 0 sz] free(2) by (simp_all add: k_def)
  note fl = first_list_spec [OF k(1), of b]
  have l: "?l < NUM_LIST" using fl j k(2) by (metis leI le_less_trans not_less)
  obtain n cl rest where hd: "page_list b ! ?l = (n, cl) # rest" using fl l by (metis list.exhaust prod.exhaust)
  have mem: "(n, cl) \<in> set (page_list b ! ?l)" by (simp add: hd)
  obtain a where a: "cells b cl = Some a" using lists_okD [OF lists l mem] by blast
  obtain b1 where b1: "drop_page n b = Some b1" "bd_inv BUDDY_TOP {(a, ?l)} A b1"
      "kpanics (bmem b1) = kpanics (bmem b)" "card (km_live (bmem b1)) \<le> card (km_live (bmem b))"
    using take_block [OF inv l mem a] by metis
  have l10: "?l \<le> 10" using l by (simp add: NUM_LIST_def)
  obtain b2 where b2: "split_pages k ?l a (bsz ?l) b1 = Some b2" "bd_inv BUDDY_TOP {(a, k)} A b2"
      "kpanics (bmem b2) = kpanics (bmem b)" "card (km_live (bmem b2)) \<le> card (km_live (bmem b)) + 20"
    using split_pages_spec [OF b1(2), of k] fl room b1(3,4) l10 by fastforce
  have noop: "split_pages k k a (bsz k) b1 = Some b1" by (cases k) simp_all
  have sp: "(if ?l \<noteq> k then split_pages k ?l a (PAGE_SIZE * 2 ^ ?l) b1 else Some b1) = Some b2"
    using b2(1) noop by (auto simp: bsz_def)
  let ?i = "BLOCK_INDEX a"
  let ?b5 = "b2\<lparr>order := (order b2)(?i := k OR 16), page_list_ref := (page_list_ref b2)(?i := n), count := (count b2)(?i := 0)\<rparr>"
  have idx: "?i < NUM_PAGES" using bd_inv_bounds(2) [OF b2(2), of a k] by simp
  have run: "buddy_alloc_page sz b = Some (a + BUDDY_START_ADDR + VIRT_MEM_START_ADDR, ?b5)"
    using l b1(1) sp idx a
    by (simp add: buddy_alloc_page_def Let_def k_def [symmetric] hd set_order_def set_page_list_ref_def set_count_def)
  have "own_ok ?b5" using b2(2) own_ok_frame [of ?b5 b2] by (simp add: bd_inv_def)
  then have "buddy_ok (insert (a, k) A) ?b5"
    using mark_block(1) [OF b2(2), of ?b5 n] by simp
  moreover have "(a, k) \<notin> A" using b2(2) by (simp add: bd_inv_def)
  ultimately show ?thesis using run b2(3,4) by (intro exI [of _ a] exI [of _ ?b5]) simp
qed

lemma buddy_free_page_spec:
  assumes inv: "buddy_ok (insert (a, k) A) b" and notin: "(a, k) \<notin> A"
    and room: "card (km_live (bmem b)) < 46900"
  shows "\<exists>b'. buddy_free_page (a + BUDDY_START_ADDR + VIRT_MEM_START_ADDR) b = Some b'
     \<and> buddy_ok A b' \<and> kpanics (bmem b') = kpanics (bmem b)"
proof -
  note held = unmark_block [OF inv notin]
  have k: "k < NUM_LIST" and idx: "BLOCK_INDEX a < NUM_PAGES" and top: "a + bsz k \<le> BUDDY_TOP"
    using bd_inv_bounds [OF held(1), of a k] by simp_all
  have "a < 39 * bsz 10" using top BUDDY_layout(4) bsz_pos [of k] by linarith
  then have "a < 0x9C00000" by (simp add: bsz_def PAGE_SIZE_def)
  then have pa: "sub32 (a + BUDDY_START_ADDR + VIRT_MEM_START_ADDR) (BUDDY_START_ADDR + VIRT_MEM_START_ADDR) = a"
    by (subst sub32_le) (simp_all add: BUDDY_layout VIRT_MEM_START_ADDR_def)
  have T: "bsz (NUM_LIST - 1) dvd BUDDY_TOP" by (simp add: BUDDY_TOP_def)
  obtain q j b1 where b1: "coalesce k a b = Some (q, j, b1)" "bd_inv BUDDY_TOP {(q, j)} A b1" "j < NUM_LIST"
      "j < NUM_LIST - 1 \<longrightarrow> (q XOR bsz j, j) \<notin> free_blocks b1"
      "kpanics (bmem b1) = kpanics (bmem b)" "card (km_live (bmem b1)) \<le> card (km_live (bmem b))"
    using coalesce_spec [OF held(1) k T] by blast
  have own: "own_ok b1" using b1(2) by (simp add: bd_inv_def)
  have "card (km_live (bmem b1)) < 47000" using b1(6) room by simp
  from push_page_spec [OF own b1(3) this]
  obtain node cell m where p: "push_page j q b1 = Some (node, b1\<lparr>bmem := m, cells := (cells b1)(cell \<mapsto> q),
         page_list := (page_list b1)[j := (node, cell) # page_list b1 ! j]\<rparr>)"
      and own2: "own_ok (b1\<lparr>bmem := m, cells := (cells b1)(cell \<mapsto> q),
         page_list := (page_list b1)[j := (node, cell) # page_list b1 ! j]\<rparr>)"
      and fresh: "cell \<notin> snd ` set (concat (page_list b1))" and km: "kpanics m = kpanics (bmem b1)"
    by metis
  let ?b2 = "b1\<lparr>bmem := m, cells := (cells b1)(cell \<mapsto> q),
         page_list := (page_list b1)[j := (node, cell) # page_list b1 ! j]\<rparr>"
  let ?b4 = "?b2\<lparr>page_list_ref := (page_list_ref b1)(BLOCK_INDEX q := node), order := (order b1)(BLOCK_INDEX q := j)\<rparr>"
  have qidx: "BLOCK_INDEX q < NUM_PAGES" using bd_inv_bounds(2) [OF b1(2), of q j] by simp
  have "buddy_free_page (a + BUDDY_START_ADDR + VIRT_MEM_START_ADDR) b = Some ?b4"
    using idx held(2) order_mask(1,2) [OF k] b1(1) p qidx
    by (simp add: buddy_free_page_def pa Let_def get_order_def set_page_list_ref_def set_order_def)
  moreover have "own_ok ?b4" using own2 own_ok_frame [of ?b4 ?b2] by simp
  then have "buddy_ok A ?b4"
    using release_block(1) [OF b1(2) _ b1(3) fresh, of ?b4 node node] b1(4) by simp
  ultimately show ?thesis using km b1(5) by (intro exI [of _ ?b4]) simp
qed

section \<open>Initialisation\<close>

lemma new_lists_spec:
  assumes "km_inv m" and "card (km_live m) + 2 * n < 47000"
  shows "\<exists>m'. new_lists n m = Some m' \<and> km_inv m' \<and> kpanics m' = kpanics m \<and> card (km_live m') = card (km_live m) + 2 * n"
  using assms
proof (induction n arbitrary: m)
  case (Suc n)
  obtain l m1 where m1: "kmalloc 8 m = Some (l, m1)" "kpanics m1 = kpanics m" "card (km_live m1) = Suc (card (km_live m))" "km_inv m1"
    by (rule kmalloc_room16 [OF Suc.prems(1), of 8]) (use Suc.prems(2) in simp_all)
  obtain s m2 where m2: "kmalloc 12 m1 = Some (s, m2)" "kpanics m2 = kpanics m1" "card (km_live m2) = Suc (card (km_live m1))" "km_inv m2"
    by (rule kmalloc_room16 [OF m1(4), of 12]) (use Suc.prems(2) m1(3) in simp_all)
  show ?case using Suc.IH [OF m2(4)] Suc.prems(2) m1 m2 by auto
qed simp

lemma tiles_extend:
  assumes "tiles T B" and "bsz (NUM_LIST - 1) dvd T"
  shows "tiles (T + bsz (NUM_LIST - 1)) (insert (T, NUM_LIST - 1) B)" and "(T, k) \<notin> B"
proof -
  have below: "x < T" if "bl \<in> B" "x \<in> span bl" for bl x
    using that assms(1) unfolding tiles_def by blast
  show "(T, k) \<notin> B" using below [of "(T, k)" T] by (auto simp: span_def)
  let ?n = "(T, NUM_LIST - 1)"
  have sp: "span ?n = {T ..< T + bsz (NUM_LIST - 1)}" by (simp add: span_def)
  have dj: "span ?n \<inter> span bl = {}" if "bl \<in> B" for bl using below [OF that] unfolding sp by fastforce
  have un: "(\<Union>bl \<in> B. span bl) = {..<T}" using assms(1) by (simp add: tiles_def)
  have "(\<Union>bl \<in> insert ?n B. span bl) = {..<T + bsz (NUM_LIST - 1)}"
    unfolding UN_insert sp un by auto
  moreover have "wf_block ?n" using assms(2) by (simp add: wf_block_def NUM_LIST_def)
  moreover have "span bl \<inter> span c = {}" if bc: "bl \<in> insert ?n B" "c \<in> insert ?n B" "bl \<noteq> c" for bl c
  proof -
    consider "bl = ?n" "c \<in> B" | "c = ?n" "bl \<in> B" | "bl \<in> B" "c \<in> B" using bc by blast
    then show ?thesis
    proof cases
      case 1
      then show ?thesis using dj by simp
    next
      case 2
      then show ?thesis using dj [of bl] by (simp add: Int_commute)
    next
      case 3
      then show ?thesis using assms(1) bc(3) unfolding tiles_def by blast
    qed
  qed
  moreover have "wf_block bl" if "bl \<in> B" for bl using tilesD(1) [OF assms(1) that] .
  ultimately show "tiles (T + bsz (NUM_LIST - 1)) (insert ?n B)" unfolding tiles_def by blast
qed

lemma init_entries_spec:
  assumes "bd_inv T {} {} b" and "bsz (NUM_LIST - 1) dvd T" and "T + n * bsz (NUM_LIST - 1) \<le> BUDDY_TOP"
    and "card (km_live (bmem b)) + 2 * n < 47000"
  shows "\<exists>b'. init_entries n T b = Some b' \<and> bd_inv (T + n * bsz (NUM_LIST - 1)) {} {} b'
     \<and> free_blocks b' = free_blocks b \<union> (\<lambda>i. (T + i * bsz (NUM_LIST - 1), NUM_LIST - 1)) ` {..<n}
     \<and> kpanics (bmem b') = kpanics (bmem b) \<and> card (km_live (bmem b')) = card (km_live (bmem b)) + 2 * n"
  using assms
proof (induction n arbitrary: T b)
  case (Suc n)
  let ?k = "NUM_LIST - 1"
  let ?i = "BLOCK_INDEX T"
  let ?b1 = "b\<lparr>order := (order b)(?i := ?k)\<rparr>"
  have le: "T + bsz ?k \<le> BUDDY_TOP" using Suc.prems(3) by simp
  have idx: "?i < NUM_PAGES" by (rule page_in_range [OF le]) simp
  have own: "own_ok ?b1" using Suc.prems(1) own_ok_frame [of ?b1 b] by (simp add: bd_inv_def)
  have kn: "?k < NUM_LIST" by (simp add: NUM_LIST_def)
  obtain node cell m where p: "push_page ?k T ?b1 = Some (node, ?b1\<lparr>bmem := m, cells := (cells b)(cell \<mapsto> T),
         page_list := (page_list b)[?k := (node, cell) # page_list b ! ?k]\<rparr>)"
      and own2: "own_ok (?b1\<lparr>bmem := m, cells := (cells b)(cell \<mapsto> T),
         page_list := (page_list b)[?k := (node, cell) # page_list b ! ?k]\<rparr>)"
      and fresh: "cell \<notin> snd ` set (concat (page_list b))" and km: "kpanics m = kpanics (bmem b)"
      "card (km_live m) = card (km_live (bmem b)) + 2"
    by (rule push_page_spec [OF own kn, of T]) (use Suc.prems(4) in simp_all)
  let ?b4 = "?b1\<lparr>bmem := m, cells := (cells b)(cell \<mapsto> T), page_list := (page_list b)[?k := (node, cell) # page_list b ! ?k],
      page_list_ref := (page_list_ref b)(?i := 0), count := (count b)(?i := 0)\<rparr>"
  have t: "tiles T (free_blocks b)" using Suc.prems(1) by (simp add: bd_inv_def)
  note te = tiles_extend [OF t Suc.prems(2)]
  have inv1: "bd_inv (T + bsz ?k) (insert (T, ?k) {}) {} b"
    using Suc.prems(1) te le by (simp add: bd_inv_def)
  have own4: "own_ok ?b4"
    using own2 own_ok_frame [of ?b4 "?b1\<lparr>bmem := m, cells := (cells b)(cell \<mapsto> T),
         page_list := (page_list b)[?k := (node, cell) # page_list b ! ?k]\<rparr>"] by simp
  have rel: "bd_inv (T + bsz ?k) {} {} ?b4" "free_blocks ?b4 = insert (T, ?k) (free_blocks b)"
    using release_block [OF inv1 _ kn fresh, of ?b4 node 0] own4 by simp_all
  obtain b' where b': "init_entries n (T + bsz ?k) ?b4 = Some b'" "bd_inv (T + bsz ?k + n * bsz ?k) {} {} b'"
      "free_blocks b' = free_blocks ?b4 \<union> (\<lambda>i. (T + bsz ?k + i * bsz ?k, ?k)) ` {..<n}"
      "kpanics (bmem b') = kpanics (bmem ?b4)" "card (km_live (bmem b')) = card (km_live (bmem ?b4)) + 2 * n"
    using Suc.IH [OF rel(1)] Suc.prems km by auto
  have run: "init_entries (Suc n) T b = Some b'"
    using idx p b'(1) by (simp add: set_order_def set_page_list_ref_def set_count_def)
  have "free_blocks b' = free_blocks b \<union> (\<lambda>i. (T + i * bsz ?k, ?k)) ` {..<Suc n}"
  proof -
    have "(\<lambda>i. (T + i * bsz ?k, ?k)) ` {..<Suc n} = insert (T, ?k) ((\<lambda>i. (T + bsz ?k + i * bsz ?k, ?k)) ` {..<n})"
      by (simp add: lessThan_Suc_eq_insert_0 image_image add.assoc)
    then show ?thesis using b'(3) rel(2) by auto
  qed
  then show ?case using run b' km by (intro exI [of _ b']) (simp add: algebra_simps)
qed simp

lemma buddy_init_spec:
  assumes "km_inv (bmem b)" and "card (km_live (bmem b)) < 46000"
  shows "\<exists>b'. buddy_init b = Some b' \<and> buddy_ok {} b' \<and> free_blocks b' = (\<lambda>i. (i * bsz 10, 10)) ` {..<39}
     \<and> kpanics (bmem b') = kpanics (bmem b) \<and> card (km_live (bmem b')) = card (km_live (bmem b)) + 100"
proof -
  obtain m where m: "new_lists NUM_LIST (bmem b) = Some m" "km_inv m" "kpanics m = kpanics (bmem b)"
      "card (km_live m) = card (km_live (bmem b)) + 2 * NUM_LIST"
    using new_lists_spec [OF assms(1), of NUM_LIST] assms(2) by (auto simp: NUM_LIST_def)
  let ?b = "b\<lparr>bmem := m, page_list := replicate NUM_LIST []\<rparr>"
  have f: "free_blocks ?b = {}" by (auto simp: free_blocks_def)
  have "concat (replicate NUM_LIST []) = ([] :: (addr \<times> addr) list)" by simp
  then have "own_ok ?b" "lists_ok ?b" using m(2) by (simp_all add: own_ok_def lists_ok_def)
  then have inv: "bd_inv 0 {} {} ?b" by (simp add: bd_inv_def f tiles_def no_pairs_def)
  have top: "39 * bsz (NUM_LIST - 1) = BUDDY_TOP" by (simp only: BUDDY_TOP_def BUDDY_layout(5))
  obtain b' where b': "init_entries 39 0 ?b = Some b'" "bd_inv (39 * bsz (NUM_LIST - 1)) {} {} b'"
      "free_blocks b' = free_blocks ?b \<union> (\<lambda>i. (i * bsz (NUM_LIST - 1), NUM_LIST - 1)) ` {..<39}"
      "kpanics (bmem b') = kpanics m" "card (km_live (bmem b')) = card (km_live m) + 2 * 39"
    using init_entries_spec [OF inv, of 39] top m(4) assms(2) by (auto simp: NUM_LIST_def)
  have "buddy_init b = Some b'" unfolding buddy_init_def BUDDY_layout(5) using m(1) b'(1) by simp
  then show ?thesis
    using m b'(2-5) f top by (intro exI [of _ b']) (simp add: NUM_LIST_def)
qed

section \<open>Full coalescing\<close>

lemma all_free_coalesced:
  assumes inv: "buddy_ok {} b" and mem: "(a, k) \<in> free_blocks b"
  shows "k = NUM_LIST - 1"
proof (rule ccontr)
  assume "k \<noteq> NUM_LIST - 1"
  have t: "tiles BUDDY_TOP (free_blocks b)" and np: "no_pairs (free_blocks b)" using inv by (simp_all add: bd_inv_def)
  define i where "i = (LEAST i. \<exists>a. (a, i) \<in> free_blocks b)"
  have "\<exists>a. (a, k) \<in> free_blocks b" using mem by blast
  then have ex: "\<exists>a. (a, i) \<in> free_blocks b" and le: "i \<le> k"
    unfolding i_def by (rule LeastI, rule Least_le)
  then obtain p where p: "(p, i) \<in> free_blocks b" by blast
  have "k < NUM_LIST" using bd_inv_bounds(3) [OF inv, of a k] mem by simp
  then have i: "Suc i < NUM_LIST" using le \<open>k \<noteq> NUM_LIST - 1\<close> by simp
  have T: "bsz (NUM_LIST - 1) dvd BUDDY_TOP" by (simp add: BUDDY_TOP_def)
  obtain j where "j \<le> i" "(p XOR bsz i, j) \<in> free_blocks b" using buddy_is_base(1) [OF t p i T] by blast
  moreover from this(2) have "i \<le> j" unfolding i_def by (intro Least_le) blast
  ultimately have "(p XOR bsz i, i) \<in> free_blocks b" by simp
  then show False using np p i unfolding no_pairs_def by fastforce
qed

lemma all_free_complete:
  assumes inv: "buddy_ok {} b"
  shows "free_blocks b = (\<lambda>i. (i * bsz 10, 10)) ` {..<39}"
proof
  have t: "tiles BUDDY_TOP (free_blocks b)" using inv by (simp add: bd_inv_def)
  have ten: "NUM_LIST - 1 = 10" by (simp add: NUM_LIST_def)
  have al: "\<exists>i < 39. a = i * bsz 10 \<and> k = 10" if "(a, k) \<in> free_blocks b" for a k
  proof -
    have k: "k = 10" using all_free_coalesced [OF inv that] ten by simp
    have "bsz k dvd a" "a + bsz k \<le> BUDDY_TOP" using bd_inv_bounds(1,4) [OF inv, of a k] that by simp_all
    then obtain i where "a = i * bsz 10" "i * bsz 10 + bsz 10 \<le> 39 * bsz 10"
      using k BUDDY_layout(4) by (metis dvd_def mult.commute)
    then have "(i + 1) * bsz 10 \<le> 39 * bsz 10" by simp
    then have "i + 1 \<le> 39" using bsz_pos [of 10] by (metis mult_le_cancel2)
    then show ?thesis using k \<open>a = i * bsz 10\<close> by (intro exI [of _ i]) simp
  qed
  then show "free_blocks b \<subseteq> (\<lambda>i. (i * bsz 10, 10)) ` {..<39}" by auto
  show "(\<lambda>i. (i * bsz 10, 10)) ` {..<39} \<subseteq> free_blocks b"
  proof clarify
    fix i :: nat assume i: "i < 39"
    then have "i * bsz 10 < BUDDY_TOP" by (simp add: BUDDY_layout(4))
    then obtain a k where ak: "(a, k) \<in> free_blocks b" "i * bsz 10 \<in> span (a, k)" using tilesD(3) [OF t] by force
    obtain j where j: "a = j * bsz 10" "k = 10" using al [OF ak(1)] by blast
    have "i * bsz 10 = a" using dvd_between [of "bsz 10" a "i * bsz 10"] ak(2) j by (simp add: span_def)
    then show "(i * bsz 10, 10) \<in> free_blocks b" using ak(1) j(2) by metis
  qed
qed

section \<open>Properties\<close>

definition buddy_raw :: buddy_desc where
  "buddy_raw = \<lparr>page_list = [], order = (\<lambda>_. 0), page_list_ref = (\<lambda>_. 0), count = (\<lambda>_. 0),
     free_mem_list = (\<lambda>_. 0), cells = Map.empty, bmem = kmem0\<rparr>"

lemma buddy_raw_init:
  obtains b where "buddy_init buddy_raw = Some b" and "buddy_ok {} b"
    and "free_blocks b = (\<lambda>i. (i * bsz 10, 10)) ` {..<39}" and "card (km_live (bmem b)) = 100"
  using buddy_init_spec [of buddy_raw] by (auto simp: buddy_raw_def kmem0_facts)

text \<open>C26: \<open>buddy_init\<close> returns, with nothing in use and the managed memory cut into 39 free blocks
  of the largest order, whatever the arrays held.\<close>

theorem buddy_init_establishes:
  assumes "km_inv (bmem b)" and "card (km_live (bmem b)) < 46000"
  shows "\<exists>b'. buddy_init b = Some b' \<and> buddy_ok {} b' \<and> free_blocks b' = (\<lambda>i. (i * bsz 10, 10)) ` {..<39}
     \<and> kpanics (bmem b') = kpanics (bmem b)"
  using buddy_init_spec [OF assms] by blast

theorem buddy_init_establishes_witness:
  "km_inv (bmem buddy_raw) \<and> (\<exists>b'. buddy_init buddy_raw = Some b' \<and> buddy_ok {} b')"
proof -
  have "km_inv (bmem buddy_raw)" "card (km_live (bmem buddy_raw)) < 46000" by (simp_all add: buddy_raw_def kmem0_facts)
  then show ?thesis using buddy_init_establishes by blast
qed

text \<open>C2: while a free block of sufficient order exists, \<open>buddy_alloc_page\<close> returns, without a
  panic, a block that is aligned to its size, at least as large as the request, inside the
  managed memory and disjoint from every block in use, and the invariant holds with the
  block in use.\<close>

theorem buddy_alloc_page_safe:
  assumes "buddy_ok A b" and "(c, j) \<in> free_blocks b" and "sz \<le> bsz j" and "card (km_live (bmem b)) < 46900"
  shows "\<exists>a k b'. buddy_alloc_page sz b = Some (a + BUDDY_START_ADDR + VIRT_MEM_START_ADDR, b')
     \<and> sz \<le> bsz k \<and> bsz k dvd a \<and> a + bsz k \<le> BUDDY_MEM_SIZE
     \<and> (\<forall>bl \<in> A. span bl \<inter> span (a, k) = {})
     \<and> buddy_ok (insert (a, k) A) b' \<and> kpanics (bmem b') = kpanics (bmem b)"
proof -
  let ?k = "page_order 0 sz"
  have j: "j < NUM_LIST" using bd_inv_bounds(3) [OF assms(1), of c j] assms(2) by simp
  note po = page_order_spec [of 0 sz, simplified]
  have "?k \<le> j" using po assms(3) j by (meson leD leI)
  from buddy_alloc_page_spec [OF assms(1,2) this assms(4)]
  obtain a b' where run: "buddy_alloc_page sz b = Some (a + BUDDY_START_ADDR + VIRT_MEM_START_ADDR, b')"
      "buddy_ok (insert (a, ?k) A) b'" "(a, ?k) \<notin> A" "kpanics (bmem b') = kpanics (bmem b)" by blast
  have k: "?k < NUM_LIST" "bsz ?k dvd a" "a + bsz ?k \<le> BUDDY_TOP"
    using bd_inv_bounds [OF run(2), of a ?k] by simp_all
  have "BUDDY_TOP \<le> BUDDY_MEM_SIZE" by (simp add: BUDDY_TOP_def)
  moreover have "tiles BUDDY_TOP (insert (a, ?k) A \<union> free_blocks b')" using run(2) by (simp add: bd_inv_def)
  then have "span bl \<inter> span (a, ?k) = {}" if "bl \<in> A" for bl
    using that run(3) unfolding tiles_def by (metis UnI1 insertI1 insertI2)
  ultimately show ?thesis using run k po by (intro exI [of _ a] exI [of _ ?k] exI [of _ b']) auto
qed

theorem buddy_alloc_page_safe_witness:
  "\<exists>b a k b'. buddy_init buddy_raw = Some b \<and> buddy_ok {} b
     \<and> buddy_alloc_page 5000 b = Some (a + BUDDY_START_ADDR + VIRT_MEM_START_ADDR, b')
     \<and> 5000 \<le> bsz k \<and> buddy_ok {(a, k)} b'"
proof -
  obtain b where b: "buddy_init buddy_raw = Some b" "buddy_ok {} b"
      "free_blocks b = (\<lambda>i. (i * bsz 10, 10)) ` {..<39}" "card (km_live (bmem b)) = 100"
    using buddy_raw_init by metis
  have f: "(0, 10) \<in> free_blocks b" unfolding b(3) by force
  have "5000 \<le> bsz 10" by (simp add: bsz_def PAGE_SIZE_def)
  from buddy_alloc_page_safe [OF b(2) f this] show ?thesis using b by auto
qed

text \<open>C5: freeing a block in use returns, without a panic; the block leaves the set in use, every
  other block stays in use, and the freed memory is merged with all free buddies.\<close>

theorem buddy_free_page_safe:
  assumes "buddy_ok (insert (a, k) A) b" and "(a, k) \<notin> A" and "card (km_live (bmem b)) < 46900"
  shows "\<exists>b'. buddy_free_page (a + BUDDY_START_ADDR + VIRT_MEM_START_ADDR) b = Some b'
     \<and> buddy_ok A b' \<and> kpanics (bmem b') = kpanics (bmem b)"
  using buddy_free_page_spec [OF assms] .

theorem buddy_free_page_safe_witness:
  "\<exists>b a k b' b''. buddy_init buddy_raw = Some b
     \<and> buddy_alloc_page 5000 b = Some (a + BUDDY_START_ADDR + VIRT_MEM_START_ADDR, b') \<and> buddy_ok {(a, k)} b'
     \<and> buddy_free_page (a + BUDDY_START_ADDR + VIRT_MEM_START_ADDR) b' = Some b'' \<and> buddy_ok {} b''"
proof -
  obtain b where b: "buddy_init buddy_raw = Some b" "buddy_ok {} b"
      "free_blocks b = (\<lambda>i. (i * bsz 10, 10)) ` {..<39}" "card (km_live (bmem b)) = 100"
    using buddy_raw_init by metis
  have f: "(0, 10) \<in> free_blocks b" unfolding b(3) by force
  have "page_order 0 5000 \<le> 10" using page_order_spec [of 0 5000] by (auto simp: bsz_def PAGE_SIZE_def NUM_LIST_def dest!: spec [of _ 10])
  from buddy_alloc_page_spec [OF b(2) f this] b(4)
  obtain a k b' where b': "buddy_alloc_page 5000 b = Some (a + BUDDY_START_ADDR + VIRT_MEM_START_ADDR, b')"
      "buddy_ok (insert (a, k) {}) b'" "card (km_live (bmem b')) \<le> 120" by auto
  then show ?thesis using b(1) buddy_free_page_safe [OF b'(2)] by auto
qed



end
