(* ===== verification/Dllist.thy ===== *)
theory Dllist
  imports Kmalloc
begin

text \<open>
  The circular doubly linked list of \<^verbatim>\<open>src/data_types/dllist.c\<close>, at the level of its
  pointers. The heap maps the address of each list node and of each list descriptor to
  its contents and carries the allocator that hands the addresses out. \<open>dlist\<close> relates the
  cycle of nodes that starts at a sentinel to the HOL list of its node addresses and
  values; every operation is proved to implement the corresponding list operation and to
  leave the rest of the heap alone. A dangling or NULL access is \<open>None\<close>.
\<close>

section \<open>Data\<close>

record llist_node =
  nxt :: addr
  prv :: addr
  val :: addr

record llist =
  sentinel_node :: addr
  data_destructor :: addr

text \<open>\<open>data_destructor\<close> is a function pointer, \<open>0\<close> for NULL.\<close>

record dlheap =
  dmem :: kmem
  nodes :: "addr \<rightharpoonup> llist_node"
  llists :: "addr \<rightharpoonup> llist"

definition sizeof_llist :: nat where "sizeof_llist = 8"
definition sizeof_llist_node :: nat where "sizeof_llist_node = 12"

section \<open>Operations\<close>

definition set_next :: "addr \<Rightarrow> addr \<Rightarrow> dlheap \<Rightarrow> dlheap option" where
  "set_next p q h = do { n \<leftarrow> nodes h p; Some (h\<lparr>nodes := (nodes h)(p \<mapsto> n\<lparr>nxt := q\<rparr>)\<rparr>) }"

definition set_prev :: "addr \<Rightarrow> addr \<Rightarrow> dlheap \<Rightarrow> dlheap option" where
  "set_prev p q h = do { n \<leftarrow> nodes h p; Some (h\<lparr>nodes := (nodes h)(p \<mapsto> n\<lparr>prv := q\<rparr>)\<rparr>) }"

definition dc_new_dllist :: "addr \<Rightarrow> dlheap \<Rightarrow> (addr \<times> dlheap) option" where
  "dc_new_dllist destructor h =
     do { (d, m1) \<leftarrow> kmalloc sizeof_llist (dmem h);
          (node, m2) \<leftarrow> kmalloc sizeof_llist_node m1;
          Some (d, h\<lparr>dmem := m2,
                     llists := (llists h)(d \<mapsto> \<lparr>sentinel_node = node, data_destructor = destructor\<rparr>),
                     nodes := (nodes h)(node \<mapsto> \<lparr>nxt = node, prv = node, val = 0\<rparr>)\<rparr>) }"

text \<open>\<open>new_dllist\<close> has no \<^verbatim>\<open>return\<close>; the caller finds the result of the inner call in \<^verbatim>\<open>eax\<close>.\<close>

definition new_dllist :: "dlheap \<Rightarrow> (addr \<times> dlheap) option" where
  "new_dllist h = dc_new_dllist 0 h"

definition ll_insert_before :: "addr \<Rightarrow> addr \<Rightarrow> dlheap \<Rightarrow> (addr \<times> dlheap) option" where
  "ll_insert_before node v h =
     do { n \<leftarrow> nodes h node;
          let m = (if node > 0xf0000000 then panic (dmem h)
                   else if prv n = 0 then panic (dmem h) else dmem h);
          let prev_node = prv n;
          (newnode, m1) \<leftarrow> kmalloc sizeof_llist_node m;
          let h1 = h\<lparr>dmem := m1,
                     nodes := (nodes h)(newnode \<mapsto> \<lparr>nxt = node, prv = prev_node, val = v\<rparr>)\<rparr>;
          h2 \<leftarrow> set_prev node newnode h1;
          h3 \<leftarrow> set_next prev_node newnode h2;
          Some (newnode, h3) }"

definition ll_insert_after :: "addr \<Rightarrow> addr \<Rightarrow> dlheap \<Rightarrow> (addr \<times> dlheap) option" where
  "ll_insert_after node v h = do { n \<leftarrow> nodes h node; ll_insert_before (nxt n) v h }"

definition ll_append :: "addr \<Rightarrow> addr \<Rightarrow> dlheap \<Rightarrow> (addr \<times> dlheap) option" where
  "ll_append l v h = do { d \<leftarrow> llists h l; ll_insert_before (sentinel_node d) v h }"

definition ll_prepend :: "addr \<Rightarrow> addr \<Rightarrow> dlheap \<Rightarrow> (addr \<times> dlheap) option" where
  "ll_prepend l v h =
     do { d \<leftarrow> llists h l; n \<leftarrow> nodes h (sentinel_node d); ll_insert_before (nxt n) v h }"

definition ll_delete_node :: "addr \<Rightarrow> dlheap \<Rightarrow> dlheap option" where
  "ll_delete_node node h =
     do { n \<leftarrow> nodes h node;
          let prev_node = prv n;
          let nxnode = nxt n;
          h1 \<leftarrow> set_next prev_node nxnode h;
          h2 \<leftarrow> set_prev nxnode prev_node h1;
          m \<leftarrow> kfree node (dmem h2);
          Some (h2\<lparr>dmem := m, nodes := (nodes h2)(node := None)\<rparr>) }"

definition ll_sentinel :: "addr \<Rightarrow> dlheap \<Rightarrow> addr option" where
  "ll_sentinel l h = map_option sentinel_node (llists h l)"

definition ll_val :: "addr \<Rightarrow> dlheap \<Rightarrow> addr option" where
  "ll_val n h = map_option val (nodes h n)"

definition ll_next :: "addr \<Rightarrow> dlheap \<Rightarrow> addr option" where
  "ll_next n h = map_option nxt (nodes h n)"

definition dll_prev :: "addr \<Rightarrow> dlheap \<Rightarrow> addr option" where
  "dll_prev n h = map_option prv (nodes h n)"

definition ll_first :: "addr \<Rightarrow> dlheap \<Rightarrow> addr option" where
  "ll_first l h = do { s \<leftarrow> ll_sentinel l h; ll_next s h }"

definition ll_last :: "addr \<Rightarrow> dlheap \<Rightarrow> addr option" where
  "ll_last l h = do { s \<leftarrow> ll_sentinel l h; dll_prev s h }"

definition ll_empty :: "addr \<Rightarrow> dlheap \<Rightarrow> bool option" where
  "ll_empty l h = do { s \<leftarrow> ll_sentinel l h; f \<leftarrow> ll_next s h; Some (f = s) }"

text \<open>The two loops may follow a corrupted cycle for ever, which is \<open>None\<close> as well.\<close>

partial_function (option) ll_size_loop :: "addr \<Rightarrow> addr \<Rightarrow> nat \<Rightarrow> dlheap \<Rightarrow> nat option" where
  "ll_size_loop nx sentinel n h =
     (if nx = sentinel then Some n
      else do { q \<leftarrow> ll_next nx h; ll_size_loop q sentinel (wrap32 (n + 1)) h })"

definition ll_size :: "addr \<Rightarrow> dlheap \<Rightarrow> nat option" where
  "ll_size l h =
     do { sentinel \<leftarrow> ll_sentinel l h; f \<leftarrow> ll_first l h; ll_size_loop f sentinel 0 h }"

text \<open>
  \<open>free_llist\<close> disposes of the values too, through the destructor of the list when it has
  one; \<open>call\<close> is the meaning of the function pointers.
\<close>

partial_function (option) free_llist_loop ::
  "(addr \<Rightarrow> addr \<Rightarrow> dlheap \<Rightarrow> dlheap option) \<Rightarrow> addr \<Rightarrow> dlheap \<Rightarrow> dlheap option" where
  "free_llist_loop call l h =
     do { e \<leftarrow> ll_empty l h;
          if e then Some h
          else do { d \<leftarrow> llists h l;
                    node \<leftarrow> ll_first l h;
                    v \<leftarrow> ll_val node h;
                    h1 \<leftarrow> (if data_destructor d \<noteq> 0 then call (data_destructor d) v h
                          else do { m \<leftarrow> kfree v (dmem h); Some (h\<lparr>dmem := m\<rparr>) });
                    h2 \<leftarrow> ll_delete_node node h1;
                    free_llist_loop call l h2 } }"

definition free_llist ::
  "(addr \<Rightarrow> addr \<Rightarrow> dlheap \<Rightarrow> dlheap option) \<Rightarrow> addr \<Rightarrow> dlheap \<Rightarrow> dlheap option" where
  "free_llist call l h =
     do { h1 \<leftarrow> free_llist_loop call l h;
          s \<leftarrow> ll_sentinel l h1;
          m1 \<leftarrow> kfree s (dmem h1);
          m2 \<leftarrow> kfree l m1;
          Some (h1\<lparr>dmem := m2, nodes := (nodes h1)(s := None), llists := (llists h1)(l := None)\<rparr>) }"

section \<open>The cycle of nodes\<close>

definition nxt_of :: "(addr \<rightharpoonup> llist_node) \<Rightarrow> addr \<rightharpoonup> addr" where
  "nxt_of nd a = map_option nxt (nd a)"

definition prv_of :: "(addr \<rightharpoonup> llist_node) \<Rightarrow> addr \<rightharpoonup> addr" where
  "prv_of nd a = map_option prv (nd a)"

definition val_of :: "(addr \<rightharpoonup> llist_node) \<Rightarrow> addr \<rightharpoonup> addr" where
  "val_of nd a = map_option val (nd a)"

fun links :: "(addr \<rightharpoonup> llist_node) \<Rightarrow> addr list \<Rightarrow> bool" where
  "links nd (a # b # r) \<longleftrightarrow> nxt_of nd a = Some b \<and> prv_of nd b = Some a \<and> links nd (b # r)"
| "links nd _ \<longleftrightarrow> True"

definition cycle :: "addr \<Rightarrow> (addr \<times> addr) list \<Rightarrow> addr list" where
  "cycle s xs = s # map fst xs @ [s]"

definition dlist :: "(addr \<rightharpoonup> llist_node) \<Rightarrow> addr \<Rightarrow> (addr \<times> addr) list \<Rightarrow> bool" where
  "dlist nd s xs \<longleftrightarrow> distinct (s # map fst xs) \<and> links nd (cycle s xs)
     \<and> (\<forall>(n, v) \<in> set xs. val_of nd n = Some v)"

definition dl_inv :: "dlheap \<Rightarrow> bool" where
  "dl_inv h \<longleftrightarrow> km_inv (dmem h) \<and> dom (nodes h) \<subseteq> km_live (dmem h)
     \<and> dom (llists h) \<subseteq> km_live (dmem h) \<and> dom (nodes h) \<inter> dom (llists h) = {}"

text \<open>The list at \<open>l\<close> has the nodes and values \<open>xs\<close>.\<close>

definition dl_list :: "dlheap \<Rightarrow> addr \<Rightarrow> (addr \<times> addr) list \<Rightarrow> bool" where
  "dl_list h l xs \<longleftrightarrow> (\<exists>d. llists h l = Some d \<and> dlist (nodes h) (sentinel_node d) xs)"

section \<open>Links\<close>

lemma links_append:
  "links nd (as @ x # bs) \<longleftrightarrow> links nd (as @ [x]) \<and> links nd (x # bs)"
proof (induction as)
  case (Cons a as)
  then show ?case by (cases as) auto
qed simp

lemma links_frame:
  assumes "\<And>a. a \<in> set (butlast ps) \<Longrightarrow> nxt_of nd' a = nxt_of nd a"
    and "\<And>b. b \<in> set (tl ps) \<Longrightarrow> prv_of nd' b = prv_of nd b"
  shows "links nd' ps = links nd ps"
  using assms
proof (induction nd ps rule: links.induct)
  case (1 nd a b r)
  have "prv_of nd' c = prv_of nd c" if "c \<in> set (tl (b # r))" for c
    using that 1(3) by simp
  then have "links nd' (b # r) = links nd (b # r)" using 1(2) by (intro 1(1)) simp_all
  then show ?case using 1(2) [of a] 1(3) [of b] by simp
qed simp_all

lemma links_insert:
  assumes "links nd (as @ x # y # bs)" and "distinct (as @ [x])" and "distinct (y # bs)"
    and "distinct (butlast (as @ x # y # bs))" and "distinct (tl (as @ x # y # bs))"
    and "new \<notin> set (as @ x # y # bs)"
    and nx: "nxt_of nd' = (nxt_of nd)(new := Some y, x := Some new)"
    and pv: "prv_of nd' = (prv_of nd)(new := Some x, y := Some new)"
  shows "links nd' (as @ x # new # y # bs)"
proof -
  have old: "links nd (as @ [x])" "links nd (x # y # bs)"
    using assms(1) links_append [of nd as x "y # bs"] by simp_all
  have "links nd' (as @ [x])"
  proof (subst links_frame [of _ nd' nd])
    show "nxt_of nd' a = nxt_of nd a" if "a \<in> set (butlast (as @ [x]))" for a
      using that assms(2,6) nx by auto
    show "prv_of nd' b = prv_of nd b" if "b \<in> set (tl (as @ [x]))" for b
      using that assms(5,6) pv by (cases as) auto
  qed (rule old(1))
  moreover have "links nd' (y # bs)"
  proof (subst links_frame [of _ nd' nd])
    show "nxt_of nd' a = nxt_of nd a" if "a \<in> set (butlast (y # bs))" for a
    proof -
      have "a \<in> set (y # bs)" "a \<noteq> x"
        using that assms(4) by (auto simp: butlast_append dest: in_set_butlastD split: if_splits)
      then show ?thesis using assms(6) nx by auto
    qed
    show "prv_of nd' b = prv_of nd b" if "b \<in> set (tl (y # bs))" for b
      using that assms(3,6) pv by auto
  qed (use old in simp)
  moreover have "x \<noteq> new" "y \<noteq> new" using assms(6) by auto
  ultimately have "links nd' (x # new # y # bs)" using nx pv by simp
  with \<open>links nd' (as @ [x])\<close> show ?thesis by (subst links_append) simp
qed

lemma links_delete:
  assumes "links nd (as @ x # m # y # bs)"
    and "distinct (butlast (as @ x # m # y # bs))" and "distinct (tl (as @ x # m # y # bs))"
    and nx: "nxt_of nd' = (nxt_of nd)(x := Some y, m := None)"
    and pv: "prv_of nd' = (prv_of nd)(y := Some x, m := None)"
    and m: "m \<notin> set (as @ x # y # bs)"
  shows "links nd' (as @ x # y # bs)"
proof -
  have old: "links nd (as @ [x])" "links nd (x # m # y # bs)"
    using assms(1) links_append [of nd as x "m # y # bs"] by simp_all
  have bl: "distinct (as @ x # m # butlast (y # bs))" using assms(2) by (simp add: butlast_append)
  have "links nd' (as @ [x])"
  proof (subst links_frame [of _ nd' nd])
    show "nxt_of nd' a = nxt_of nd a" if "a \<in> set (butlast (as @ [x]))" for a
      using that bl m nx by auto
    show "prv_of nd' b = prv_of nd b" if "b \<in> set (tl (as @ [x]))" for b
      using that assms(3) m pv by (cases as) auto
  qed (rule old(1))
  moreover have "links nd' (y # bs)"
  proof (subst links_frame [of _ nd' nd])
    show "nxt_of nd' a = nxt_of nd a" if "a \<in> set (butlast (y # bs))" for a
    proof -
      have "a \<in> set (y # bs)" using that by (auto dest: in_set_butlastD split: if_splits)
      moreover have "a \<noteq> x" using that bl by auto
      ultimately show ?thesis using m nx by auto
    qed
    show "prv_of nd' b = prv_of nd b" if "b \<in> set (tl (y # bs))" for b
    proof -
      have "b \<noteq> y" using that assms(3) by (cases as) auto
      then show ?thesis using that m pv by auto
    qed
  qed (use old in simp)
  moreover have "x \<noteq> m" "y \<noteq> m" using m by auto
  ultimately have "links nd' (x # y # bs)" using nx pv by simp
  with \<open>links nd' (as @ [x])\<close> show ?thesis by (subst links_append) simp
qed

section \<open>Insertion\<close>

lemma set_next_spec:
  assumes "p \<in> dom (nodes h)"
  shows "\<exists>h'. set_next p q h = Some h' \<and> nxt_of (nodes h') = (nxt_of (nodes h))(p := Some q)
     \<and> prv_of (nodes h') = prv_of (nodes h) \<and> val_of (nodes h') = val_of (nodes h)
     \<and> dom (nodes h') = dom (nodes h) \<and> dmem h' = dmem h \<and> llists h' = llists h
     \<and> (\<forall>a. a \<noteq> p \<longrightarrow> nodes h' a = nodes h a)"
  using assms by (auto simp: set_next_def nxt_of_def prv_of_def val_of_def fun_eq_iff)

lemma set_prev_spec:
  assumes "p \<in> dom (nodes h)"
  shows "\<exists>h'. set_prev p q h = Some h' \<and> prv_of (nodes h') = (prv_of (nodes h))(p := Some q)
     \<and> nxt_of (nodes h') = nxt_of (nodes h) \<and> val_of (nodes h') = val_of (nodes h)
     \<and> dom (nodes h') = dom (nodes h) \<and> dmem h' = dmem h \<and> llists h' = llists h
     \<and> (\<forall>a. a \<noteq> p \<longrightarrow> nodes h' a = nodes h a)"
  using assms by (auto simp: set_prev_def nxt_of_def prv_of_def val_of_def fun_eq_iff)

lemma links_dom: "links nd ps \<Longrightarrow> 2 \<le> length ps \<Longrightarrow> set ps \<subseteq> dom nd"
proof (induction nd ps rule: links.induct)
  case (1 nd a b r)
  then show ?case by (cases r) (auto simp: nxt_of_def prv_of_def)
qed auto

lemma dlist_dom: "dlist nd s xs \<Longrightarrow> set (cycle s xs) \<subseteq> dom nd"
  using links_dom [of nd "cycle s xs"] by (simp add: dlist_def cycle_def)

lemma km_live_range: "km_inv m \<Longrightarrow> a \<in> km_live m \<Longrightarrow> 0 < a \<and> a < 0xf0000000"
  using km_live_bounds(3,4) by (auto simp: km_live_def)

lemma cycle_split:
  obtains as x y bs where "cycle s (ys @ zs) = as @ x # y # bs"
    and "s # map fst ys = as @ [x]" and "map fst zs @ [s] = y # bs" and "y = hd (map fst zs @ [s])"
proof -
  have "s # map fst ys = butlast (s # map fst ys) @ [last (s # map fst ys)]" by simp
  moreover have "map fst zs @ [s] = hd (map fst zs @ [s]) # tl (map fst zs @ [s])" by simp
  ultimately show ?thesis
    using that [of "butlast (s # map fst ys)" "last (s # map fst ys)" "hd (map fst zs @ [s])"]
    by (metis (no_types, lifting) append.assoc append_Cons append_Nil cycle_def map_append)
qed

lemma dlist_vals:
  assumes "dlist nd s xs" and "(n, v) \<in> set xs"
  shows "val_of nd n = Some v"
  using assms by (auto simp: dlist_def)

lemma dlistI:
  assumes "distinct (s # map fst xs)" and "links nd (cycle s xs)"
    and "\<And>n v. (n, v) \<in> set xs \<Longrightarrow> val_of nd n = Some v"
  shows "dlist nd s xs"
  using assms by (auto simp: dlist_def)

lemma cycle_insert: "cycle s (ys @ (n, v) # zs) = (s # map fst ys) @ n # (map fst zs @ [s])"
  by (simp add: cycle_def)

lemma dlist_distinct:
  assumes "dlist nd s xs" and "cycle s xs = ps"
  shows "distinct (butlast ps)" and "distinct (tl ps)" and "links nd ps"
  using assms by (auto simp: dlist_def cycle_def butlast_append)

lemma ll_insert_before_spec:
  assumes inv: "dl_inv h" and dl: "dlist (nodes h) s (ys @ zs)"
    and km: "kmalloc sizeof_llist_node (dmem h) = Some (new, m')" "kpanics m' = kpanics (dmem h)"
    and node: "node = hd (map fst zs @ [s])"
  shows "\<exists>h'. ll_insert_before node v h = Some (new, h') \<and> dl_inv h'
     \<and> dlist (nodes h') s (ys @ (new, v) # zs) \<and> dmem h' = m' \<and> llists h' = llists h
     \<and> (\<forall>a. a \<notin> set (cycle s (ys @ zs)) \<longrightarrow> a \<noteq> new \<longrightarrow> nodes h' a = nodes h a)"
proof -
  have kinv: "km_inv (dmem h)" using inv by (simp add: dl_inv_def)
  note fresh = km.alloc_fresh [OF kinv km]
  obtain as x y bs where cyc: "cycle s (ys @ zs) = as @ x # y # bs" and as: "s # map fst ys = as @ [x]"
      and bs: "map fst zs @ [s] = y # bs" and y: "y = node"
    using cycle_split [of s ys zs] node by metis
  have old: "distinct (butlast (as @ x # y # bs))" "distinct (tl (as @ x # y # bs))" "links (nodes h) (as @ x # y # bs)"
    using dlist_distinct [OF dl] cyc by simp_all
  have sub: "set (as @ x # y # bs) \<subseteq> dom (nodes h)" using dlist_dom [OF dl] cyc by simp
  have live: "dom (nodes h) \<subseteq> km_live (dmem h)" using inv by (simp add: dl_inv_def)
  have notin: "new \<notin> set (as @ x # y # bs)" using fresh sub live by blast
  have range: "0 < x" "node \<le> 0xf0000000"
    using km_live_range [OF kinv, of x] km_live_range [OF kinv, of y] sub live y by auto
  have "prv_of (nodes h) y = Some x" using old(3) links_append [of "nodes h" as x "y # bs"] by simp
  then obtain n where n: "nodes h node = Some n" "prv n = x" using y by (auto simp: prv_of_def)
  let ?h1 = "h\<lparr>dmem := m', nodes := (nodes h)(new \<mapsto> \<lparr>nxt = node, prv = x, val = v\<rparr>)\<rparr>"
  obtain h2 where h2: "set_prev node new ?h1 = Some h2"
      "prv_of (nodes h2) = (prv_of (nodes ?h1))(node := Some new)" "nxt_of (nodes h2) = nxt_of (nodes ?h1)"
      "val_of (nodes h2) = val_of (nodes ?h1)" "dom (nodes h2) = dom (nodes ?h1)" "dmem h2 = m'"
      "llists h2 = llists h" "\<forall>a. a \<noteq> node \<longrightarrow> nodes h2 a = nodes ?h1 a"
    using set_prev_spec [of node ?h1 new] n by fastforce
  have "x \<in> dom (nodes h2)" using h2(5) sub by auto
  then obtain h3 where h3: "set_next x new h2 = Some h3"
      "nxt_of (nodes h3) = (nxt_of (nodes h2))(x := Some new)" "prv_of (nodes h3) = prv_of (nodes h2)"
      "val_of (nodes h3) = val_of (nodes h2)" "dom (nodes h3) = dom (nodes h2)" "dmem h3 = m'"
      "llists h3 = llists h" "\<forall>a. a \<noteq> x \<longrightarrow> nodes h3 a = nodes h2 a"
    using set_next_spec [of x h2 new] h2 by metis
  have run: "ll_insert_before node v h = Some (new, h3)"
    using n range km(1) h2(1) h3(1) by (simp add: ll_insert_before_def)
  have nx: "nxt_of (nodes h3) = (nxt_of (nodes h))(new := Some y, x := Some new)"
    by (simp add: h3 h2 y nxt_of_def fun_eq_iff)
  have pv: "prv_of (nodes h3) = (prv_of (nodes h))(new := Some x, y := Some new)"
    by (simp add: h3 h2 y prv_of_def fun_eq_iff)
  have vl: "val_of (nodes h3) = (val_of (nodes h))(new := Some v)"
    by (simp add: h3 h2 val_of_def fun_eq_iff)
  have "distinct (as @ [x])" "distinct (y # bs)" using dl unfolding as [symmetric] bs [symmetric] by (auto simp: dlist_def)
  then have "links (nodes h3) (as @ x # new # y # bs)"
    using links_insert [OF old(3) _ _ old(1,2) notin nx pv] by simp
  moreover have "cycle s (ys @ (new, v) # zs) = as @ x # new # y # bs"
    unfolding cycle_insert as bs by simp
  moreover have notin': "new \<notin> set (s # map fst (ys @ zs))" using notin unfolding cyc [symmetric] by (auto simp: cycle_def)
  moreover have "val_of (nodes h3) n = Some w" if "(n, w) \<in> set (ys @ (new, v) # zs)" for n w
  proof (cases "n = new")
    case True
    have "(n, w) \<notin> set (ys @ zs)" using notin' True by force
    then have "w = v" using that by auto
    then show ?thesis using vl True by simp
  next
    case False
    then show ?thesis using dlist_vals [OF dl, of n w] vl that by auto
  qed
  moreover have "distinct (s # map fst (ys @ (new, v) # zs))" using dl notin' by (auto simp: dlist_def)
  ultimately have "dlist (nodes h3) s (ys @ (new, v) # zs)"
    by (intro dlistI) simp_all
  moreover have "dl_inv h3"
    using inv fresh h3(5,6,7) h2(5,7) by (auto simp: dl_inv_def)
  moreover have "nodes h3 a = nodes h a" if "a \<notin> set (cycle s (ys @ zs))" "a \<noteq> new" for a
    using that h3(8) h2(8) y unfolding cyc by simp
  ultimately show ?thesis using run h3(6,7) by blast
qed

section \<open>Deletion\<close>

lemma ll_delete_node_spec:
  assumes inv: "dl_inv h" and dl: "dlist (nodes h) s (ys @ (node, v) # zs)"
  shows "\<exists>h'. ll_delete_node node h = Some h' \<and> dl_inv h' \<and> dlist (nodes h') s (ys @ zs)
     \<and> llists h' = llists h \<and> km_live (dmem h') = km_live (dmem h) - {node} \<and> kpanics (dmem h') = kpanics (dmem h)
     \<and> (\<forall>a. a \<notin> set (cycle s (ys @ (node, v) # zs)) \<longrightarrow> nodes h' a = nodes h a)"
proof -
  obtain as x y bs where cyc: "cycle s (ys @ zs) = as @ x # y # bs" and as: "s # map fst ys = as @ [x]"
      and bs: "map fst zs @ [s] = y # bs"
    using cycle_split [of s ys zs] by metis
  have cyc1: "cycle s (ys @ (node, v) # zs) = as @ x # node # y # bs"
    unfolding cycle_insert as bs by simp
  note old = dlist_distinct [OF dl cyc1]
  have sub: "set (as @ x # node # y # bs) \<subseteq> dom (nodes h)" using dlist_dom [OF dl] cyc1 by simp
  have notin: "node \<notin> set (as @ x # y # bs)"
    using dl unfolding cyc [symmetric] by (auto simp: dlist_def cycle_def)
  have "prv_of (nodes h) node = Some x" "nxt_of (nodes h) node = Some y"
    using old(3) links_append [of "nodes h" as x "node # y # bs"] by simp_all
  then obtain n where n: "nodes h node = Some n" "prv n = x" "nxt n = y" by (auto simp: prv_of_def nxt_of_def)
  have "x \<in> dom (nodes h)" using sub by auto
  then obtain h1 where h1: "set_next x y h = Some h1"
      "nxt_of (nodes h1) = (nxt_of (nodes h))(x := Some y)" "prv_of (nodes h1) = prv_of (nodes h)"
      "val_of (nodes h1) = val_of (nodes h)" "dom (nodes h1) = dom (nodes h)" "dmem h1 = dmem h"
      "llists h1 = llists h" "\<forall>a. a \<noteq> x \<longrightarrow> nodes h1 a = nodes h a"
    using set_next_spec [of x h y] by metis
  have "y \<in> dom (nodes h1)" using sub h1(5) by auto
  then obtain h2 where h2: "set_prev y x h1 = Some h2"
      "prv_of (nodes h2) = (prv_of (nodes h1))(y := Some x)" "nxt_of (nodes h2) = nxt_of (nodes h1)"
      "val_of (nodes h2) = val_of (nodes h1)" "dom (nodes h2) = dom (nodes h1)" "dmem h2 = dmem h"
      "llists h2 = llists h" "\<forall>a. a \<noteq> y \<longrightarrow> nodes h2 a = nodes h1 a"
    using set_prev_spec [of y h1 x] h1 by metis
  have live: "km_inv (dmem h)" "node \<in> km_live (dmem h)" using inv sub by (auto simp: dl_inv_def)
  then obtain m where m: "kfree node (dmem h) = Some m" "km_inv m" "km_live m = km_live (dmem h) - {node}"
      "kpanics m = kpanics (dmem h)"
    using km.release_live by blast
  let ?h = "h2\<lparr>dmem := m, nodes := (nodes h2)(node := None)\<rparr>"
  have run: "ll_delete_node node h = Some ?h" using n h1(1) h2(1,6) m(1) by (simp add: ll_delete_node_def)
  have nx: "nxt_of (nodes ?h) = (nxt_of (nodes h))(x := Some y, node := None)"
    using h1(2) h2(3) by (auto simp: nxt_of_def fun_eq_iff)
  have pv: "prv_of (nodes ?h) = (prv_of (nodes h))(y := Some x, node := None)"
    using h1(3) h2(2) by (auto simp: prv_of_def fun_eq_iff)
  have vl: "val_of (nodes ?h) = (val_of (nodes h))(node := None)"
    using h1(4) h2(4) by (auto simp: val_of_def fun_eq_iff)
  have "links (nodes ?h) (cycle s (ys @ zs))"
    unfolding cyc by (rule links_delete [OF old(3,1,2) nx pv notin])
  moreover have "node \<notin> fst ` set (ys @ zs)" using notin unfolding cyc [symmetric] by (auto simp: cycle_def)
  then have "val_of (nodes ?h) n = Some w" if "(n, w) \<in> set (ys @ zs)" for n w
  proof -
    have "n \<noteq> node" using that \<open>node \<notin> fst ` set (ys @ zs)\<close> by (metis fst_conv image_eqI)
    then show ?thesis using dlist_vals [OF dl, of n w] vl that by simp
  qed
  moreover have "distinct (s # map fst (ys @ zs))" using dl by (simp add: dlist_def)
  ultimately have "dlist (nodes ?h) s (ys @ zs)"
    by (intro dlistI)
  moreover have "dl_inv ?h"
    using inv m h1(5,7) h2(5,7) sub by (auto simp: dl_inv_def)
  moreover have "nodes ?h a = nodes h a" if "a \<notin> set (cycle s (ys @ (node, v) # zs))" for a
    using that h1(8) h2(8) unfolding cyc1 by simp
  ultimately show ?thesis using run h2(7) m by (intro exI [of _ ?h]) simp
qed

section \<open>Traversal\<close>

lemma dl_list_ends:
  assumes "dl_list h l xs"
  obtains s where "ll_sentinel l h = Some s" and "ll_first l h = Some (hd (map fst xs @ [s]))"
    and "ll_last l h = Some (last (s # map fst xs))" and "dlist (nodes h) s xs"
proof -
  obtain d where d: "llists h l = Some d" "dlist (nodes h) (sentinel_node d) xs"
    using assms by (auto simp: dl_list_def)
  let ?s = "sentinel_node d"
  have lk: "links (nodes h) (cycle ?s xs)" using d(2) by (simp add: dlist_def)
  have "nxt_of (nodes h) ?s = Some (hd (map fst xs @ [?s]))"
    using lk by (cases xs) (simp_all add: cycle_def)
  moreover have "prv_of (nodes h) ?s = Some (last (?s # map fst xs))"
  proof (cases xs rule: rev_cases)
    case Nil
    then show ?thesis using lk by (simp add: cycle_def)
  next
    case (snoc ys p)
    then show ?thesis using lk links_append [of "nodes h" "?s # map fst ys" "fst p" "[?s]"]
      by (simp add: cycle_def)
  qed
  ultimately show ?thesis
    using that [of ?s] d by (simp add: ll_sentinel_def ll_first_def ll_last_def ll_next_def dll_prev_def
        nxt_of_def prv_of_def)
qed

lemma ll_empty_spec:
  assumes "dl_list h l xs"
  shows "ll_empty l h = Some (xs = [])"
proof -
  obtain s where s: "ll_sentinel l h = Some s" "ll_first l h = Some (hd (map fst xs @ [s]))" "dlist (nodes h) s xs"
    using dl_list_ends [OF assms] by metis
  then have "s \<notin> fst ` set xs" by (simp add: dlist_def)
  then show ?thesis using s(1,2) by (cases xs) (auto simp: ll_empty_def ll_first_def)
qed

lemma ll_size_loop_links:
  assumes "links (nodes h) (p # ps @ [s])" and "s \<notin> set (p # ps)" and "n + length (p # ps) < 2 ^ 32"
  shows "ll_size_loop p s n h = Some (n + length (p # ps))"
  using assms
proof (induction ps arbitrary: p n)
  case Nil
  have "ll_size_loop s s (Suc n) h = Some (Suc n)" by (simp add: ll_size_loop.simps)
  then show ?case
    using Nil by (subst ll_size_loop.simps) (auto simp: ll_next_def nxt_of_def)
next
  case (Cons q qs)
  have "ll_next p h = Some q" using Cons.prems(1) by (simp add: ll_next_def nxt_of_def)
  moreover have "ll_size_loop q s (n + 1) h = Some (n + 1 + length (q # qs))"
    using Cons.prems by (intro Cons.IH) simp_all
  ultimately show ?case using Cons.prems by (subst ll_size_loop.simps) simp
qed

lemma ll_size_spec:
  assumes "dl_list h l xs" and "length xs < 2 ^ 32"
  shows "ll_size l h = Some (length xs)"
proof -
  obtain s where s: "ll_sentinel l h = Some s" "ll_first l h = Some (hd (map fst xs @ [s]))" "dlist (nodes h) s xs"
    using dl_list_ends [OF assms(1)] by metis
  show ?thesis
  proof (cases xs)
    case Nil
    then show ?thesis using s by (simp add: ll_size_def ll_size_loop.simps)
  next
    case (Cons p ps)
    then have "links (nodes h) (fst p # map fst ps @ [s])" "s \<notin> set (fst p # map fst ps)"
      using s(3) by (auto simp: dlist_def cycle_def)
    then show ?thesis using ll_size_loop_links [of h "fst p" "map fst ps" s 0] assms(2) s(1,2) Cons
      by (simp add: ll_size_def)
  qed
qed

section \<open>Lists\<close>

lemma dlist_frame:
  assumes "dlist nd s xs" and "\<And>a. a \<in> set (cycle s xs) \<Longrightarrow> nd' a = nd a"
  shows "dlist nd' s xs"
proof (rule dlistI)
  have "set (butlast (cycle s xs)) \<subseteq> set (cycle s xs)" "set (tl (cycle s xs)) \<subseteq> set (cycle s xs)"
    by (auto simp: cycle_def butlast_append)
  then have "links nd' (cycle s xs) = links nd (cycle s xs)"
    using assms(2) by (intro links_frame) (auto simp: nxt_of_def prv_of_def)
  then show "links nd' (cycle s xs)" using assms(1) by (simp add: dlist_def)
  show "val_of nd' n = Some v" if "(n, v) \<in> set xs" for n v
    using dlist_vals [OF assms(1) that] assms(2) [of n] that by (force simp: val_of_def cycle_def)
qed (use assms(1) in \<open>simp add: dlist_def\<close>)

text \<open>The addresses of the nodes of a list, its sentinel included.\<close>

definition dl_nodes :: "dlheap \<Rightarrow> addr \<Rightarrow> (addr \<times> addr) list \<Rightarrow> addr set" where
  "dl_nodes h l xs = set (cycle (sentinel_node (the (llists h l))) xs)"

lemma dl_list_frame:
  assumes "dl_list h l xs" and "llists h' l = llists h l"
    and "\<And>a. a \<in> dl_nodes h l xs \<Longrightarrow> nodes h' a = nodes h a"
  shows "dl_list h' l xs"
  using assms dlist_frame by (fastforce simp: dl_list_def dl_nodes_def)

lemma dl_insert_spec:
  assumes inv: "dl_inv h" and dl: "dl_list h l (ys @ zs)"
    and km: "kmalloc sizeof_llist_node (dmem h) = Some (new, m')" "kpanics m' = kpanics (dmem h)"
    and node: "node = hd (map fst zs @ [sentinel_node (the (llists h l))])"
  shows "\<exists>h'. ll_insert_before node v h = Some (new, h') \<and> dl_inv h' \<and> dmem h' = m'
     \<and> llists h' = llists h \<and> dl_list h' l (ys @ (new, v) # zs)
     \<and> (\<forall>l' xs. dl_list h l' xs \<longrightarrow> dl_nodes h l' xs \<inter> dl_nodes h l (ys @ zs) = {} \<longrightarrow> dl_list h' l' xs)"
proof -
  obtain d where d: "llists h l = Some d" "dlist (nodes h) (sentinel_node d) (ys @ zs)"
    using dl by (auto simp: dl_list_def)
  obtain h' where h': "ll_insert_before node v h = Some (new, h')" "dl_inv h'"
      "dlist (nodes h') (sentinel_node d) (ys @ (new, v) # zs)" "dmem h' = m'" "llists h' = llists h"
      "\<forall>a. a \<notin> set (cycle (sentinel_node d) (ys @ zs)) \<longrightarrow> a \<noteq> new \<longrightarrow> nodes h' a = nodes h a"
    using ll_insert_before_spec [OF inv d(2) km, of node v] node d(1) by auto
  have fresh: "new \<notin> dom (nodes h)"
    using km.alloc_fresh [OF _ km] inv by (auto simp: dl_inv_def)
  have "dl_list h' l' xs" if "dl_list h l' xs" "dl_nodes h l' xs \<inter> dl_nodes h l (ys @ zs) = {}" for l' xs
  proof (rule dl_list_frame [OF that(1)])
    have "dl_nodes h l' xs \<subseteq> dom (nodes h)"
      using that(1) dlist_dom by (fastforce simp: dl_list_def dl_nodes_def)
    then show "nodes h' a = nodes h a" if "a \<in> dl_nodes h l' xs" for a
      using that h'(6) fresh \<open>dl_nodes h l' xs \<inter> dl_nodes h l (ys @ zs) = {}\<close> d(1)
      by (auto simp: dl_nodes_def)
  qed (simp add: h')
  moreover have "dl_list h' l (ys @ (new, v) # zs)" using h' d by (simp add: dl_list_def)
  ultimately show ?thesis using h' by blast
qed

lemma dl_delete_spec:
  assumes inv: "dl_inv h" and dl: "dl_list h l (ys @ (node, v) # zs)"
  shows "\<exists>h'. ll_delete_node node h = Some h' \<and> dl_inv h' \<and> llists h' = llists h
     \<and> km_live (dmem h') = km_live (dmem h) - {node} \<and> kpanics (dmem h') = kpanics (dmem h)
     \<and> dl_list h' l (ys @ zs) \<and> dom (nodes h') \<subseteq> dom (nodes h)
     \<and> (\<forall>l' xs. dl_list h l' xs \<longrightarrow> dl_nodes h l' xs \<inter> dl_nodes h l (ys @ (node, v) # zs) = {} \<longrightarrow> dl_list h' l' xs)"
proof -
  obtain d where d: "llists h l = Some d" "dlist (nodes h) (sentinel_node d) (ys @ (node, v) # zs)"
    using dl by (auto simp: dl_list_def)
  obtain h' where h': "ll_delete_node node h = Some h'" "dl_inv h'"
      "dlist (nodes h') (sentinel_node d) (ys @ zs)" "llists h' = llists h"
      "km_live (dmem h') = km_live (dmem h) - {node}" "kpanics (dmem h') = kpanics (dmem h)"
      "\<forall>a. a \<notin> set (cycle (sentinel_node d) (ys @ (node, v) # zs)) \<longrightarrow> nodes h' a = nodes h a"
    using ll_delete_node_spec [OF inv d(2)] by blast
  have "set (cycle (sentinel_node d) (ys @ (node, v) # zs)) \<subseteq> dom (nodes h)" using dlist_dom [OF d(2)] .
  then have dom': "a \<in> dom (nodes h)" if "a \<in> dom (nodes h')" for a
    using h'(7) [rule_format, of a] that
    by (cases "a \<in> set (cycle (sentinel_node d) (ys @ (node, v) # zs))") (auto simp: domIff)
  have "dl_list h' l' xs" if "dl_list h l' xs" "dl_nodes h l' xs \<inter> dl_nodes h l (ys @ (node, v) # zs) = {}" for l' xs
  proof (rule dl_list_frame [OF that(1)])
    show "nodes h' a = nodes h a" if "a \<in> dl_nodes h l' xs" for a
      using that h'(7) \<open>dl_nodes h l' xs \<inter> dl_nodes h l (ys @ (node, v) # zs) = {}\<close> d(1)
      by (auto simp: dl_nodes_def)
  qed (simp add: h')
  moreover have "dl_list h' l (ys @ zs)" using h' d by (simp add: dl_list_def)
  ultimately show ?thesis using h'(1,2,4,5,6) dom' by (intro exI [of _ h'] conjI allI impI subsetI) simp_all
qed

lemma dc_new_dllist_spec:
  assumes inv: "dl_inv h"
    and km: "kmalloc sizeof_llist (dmem h) = Some (l, m1)" "kmalloc sizeof_llist_node m1 = Some (s, m2)"
    and ok: "kpanics m2 = kpanics (dmem h)"
  shows "\<exists>h'. dc_new_dllist destructor h = Some (l, h') \<and> dl_inv h' \<and> dl_list h' l []
     \<and> llists h' l = Some \<lparr>sentinel_node = s, data_destructor = destructor\<rparr>
     \<and> km_live (dmem h') = {l, s} \<union> km_live (dmem h) \<and> l \<notin> km_live (dmem h) \<and> s \<notin> km_live (dmem h)
     \<and> dmem h' = m2"
proof -
  have kinv: "km_inv (dmem h)" using inv by (simp add: dl_inv_def)
  note two = km.alloc_alloc_distinct [OF kinv km ok]
  note l = km.alloc_fresh [OF kinv km(1) two(4)]
  have s: "s \<notin> km_live m1" using km.alloc_fresh [OF _ km(2)] l ok two(4) by metis
  let ?h = "h\<lparr>dmem := m2, llists := (llists h)(l \<mapsto> \<lparr>sentinel_node = s, data_destructor = destructor\<rparr>),
      nodes := (nodes h)(s \<mapsto> \<lparr>nxt = s, prv = s, val = 0\<rparr>)\<rparr>"
  have run: "dc_new_dllist destructor h = Some (l, ?h)" using km by (simp add: dc_new_dllist_def)
  have "dlist (nodes ?h) s []" by (simp add: dlist_def cycle_def nxt_of_def prv_of_def)
  then have "dl_list ?h l []" by (simp add: dl_list_def)
  moreover have "dl_inv ?h" using inv two l s by (auto simp: dl_inv_def)
  ultimately show ?thesis using run two l s by (intro exI [of _ ?h]) simp
qed

section \<open>Disposal\<close>

lemma free_llist_loop_spec:
  assumes "dl_inv h" and "dl_list h l xs" and "llists h l = Some d" and "data_destructor d = 0"
    and "distinct (map snd xs)" and "snd ` set xs \<subseteq> km_live (dmem h) - dom (nodes h) - dom (llists h)"
  shows "\<exists>h'. free_llist_loop call l h = Some h' \<and> dl_inv h' \<and> dl_list h' l [] \<and> llists h' = llists h
     \<and> km_live (dmem h') = km_live (dmem h) - snd ` set xs - fst ` set xs
     \<and> kpanics (dmem h') = kpanics (dmem h)"
  using assms
proof (induction xs arbitrary: h)
  case Nil
  then show ?case using ll_empty_spec [OF Nil(2)] by (subst free_llist_loop.simps) simp
next
  case (Cons p xs)
  obtain n v where p: "p = (n, v)" by fastforce
  obtain s where s: "ll_first l h = Some n" "dlist (nodes h) s (p # xs)"
    using dl_list_ends [OF Cons.prems(2)] p by auto
  have vl: "ll_val n h = Some v" using dlist_vals [OF s(2), of n v] p by (simp add: ll_val_def val_of_def)
  have n: "n \<in> dom (nodes h)" using dlist_dom [OF s(2)] p by (simp add: cycle_def)
  have v: "v \<in> km_live (dmem h)" "v \<notin> dom (nodes h)" "v \<notin> dom (llists h)" using Cons.prems(6) p by auto
  have kinv: "km_inv (dmem h)" using Cons.prems(1) by (simp add: dl_inv_def)
  obtain m where m: "kfree v (dmem h) = Some m" "km_inv m" "km_live m = km_live (dmem h) - {v}"
      "kpanics m = kpanics (dmem h)"
    using km.release_live [OF kinv v(1)] by blast
  let ?h = "h\<lparr>dmem := m\<rparr>"
  have inv1: "dl_inv ?h" using Cons.prems(1) m v by (auto simp: dl_inv_def)
  have dl1: "dl_list ?h l ([] @ (n, v) # xs)" using Cons.prems(2) p by (simp add: dl_list_def)
  obtain h2 where raw: "ll_delete_node n ?h = Some h2" "dl_inv h2" "llists h2 = llists ?h"
      "km_live (dmem h2) = km_live (dmem ?h) - {n}" "kpanics (dmem h2) = kpanics (dmem ?h)"
      "dl_list h2 l ([] @ xs)" "dom (nodes h2) \<subseteq> dom (nodes ?h)"
    using dl_delete_spec [OF inv1 dl1] by (elim exE conjE) (rule that, assumption+)
  then have h2: "ll_delete_node n ?h = Some h2" "dl_inv h2" "llists h2 = llists h"
      "km_live (dmem h2) = km_live m - {n}" "kpanics (dmem h2) = kpanics m" "dl_list h2 l xs"
      "dom (nodes h2) \<subseteq> dom (nodes h)"
    by simp_all
  have vals: "snd ` set xs \<subseteq> km_live (dmem h2) - dom (nodes h2) - dom (llists h2)"
  proof
    fix w assume w: "w \<in> snd ` set xs"
    have "w \<in> km_live (dmem h)" "w \<notin> dom (nodes h)" "w \<notin> dom (llists h)" "w \<noteq> v"
      using w Cons.prems(5,6) p by auto
    moreover from this(2) n have "w \<noteq> n" by blast
    moreover have "w \<notin> dom (nodes h2)" using h2(7) calculation(2) by (rule contra_subsetD)
    ultimately show "w \<in> km_live (dmem h2) - dom (nodes h2) - dom (llists h2)"
      unfolding h2(3,4) m(3) by simp
  qed
  have "llists h2 l = Some d" "distinct (map snd xs)" using Cons.prems(3,5) h2(3) by simp_all
  from Cons.IH [OF h2(2,6) this(1) Cons.prems(4) this(2) vals]
  obtain h' where h': "free_llist_loop call l h2 = Some h'" "dl_inv h'" "dl_list h' l []"
      "llists h' = llists h2" "km_live (dmem h') = km_live (dmem h2) - snd ` set xs - fst ` set xs"
      "kpanics (dmem h') = kpanics (dmem h2)"
    by blast
  have "free_llist_loop call l h = Some h'"
    using ll_empty_spec [OF Cons.prems(2)] Cons.prems(3,4) s(1) vl m(1) h2(1) h'(1)
    by (subst free_llist_loop.simps) simp
  moreover have "km_live (dmem h') = km_live (dmem h) - snd ` set (p # xs) - fst ` set (p # xs)"
    unfolding h'(5) h2(4) m(3) p by (rule set_eqI) (simp add: conj_ac)
  ultimately show ?case using h'(2-4,6) h2(3,5) m(4) by (intro exI [of _ h']) simp
qed

lemma free_llist_spec:
  assumes "dl_inv h" and "dl_list h l xs" and "llists h l = Some d" and "data_destructor d = 0"
    and "distinct (map snd xs)" and "snd ` set xs \<subseteq> km_live (dmem h) - dom (nodes h) - dom (llists h)"
  shows "\<exists>h'. free_llist call l h = Some h' \<and> dl_inv h' \<and> llists h' = (llists h)(l := None)
     \<and> km_live (dmem h') = km_live (dmem h) - snd ` set xs - dl_nodes h l xs - {l}
     \<and> kpanics (dmem h') = kpanics (dmem h)"
proof -
  obtain h1 where h1: "free_llist_loop call l h = Some h1" "dl_inv h1" "dl_list h1 l []" "llists h1 = llists h"
      "km_live (dmem h1) = km_live (dmem h) - snd ` set xs - fst ` set xs" "kpanics (dmem h1) = kpanics (dmem h)"
    using free_llist_loop_spec [OF assms, of call] by blast
  let ?s = "sentinel_node d"
  have s: "ll_sentinel l h1 = Some ?s" using h1(4) assms(3) by (simp add: ll_sentinel_def)
  have "dlist (nodes h1) ?s []" using h1(3,4) assms(3) by (simp add: dl_list_def)
  then have sd: "?s \<in> dom (nodes h1)" using dlist_dom [of "nodes h1" ?s "[]"] by (simp add: cycle_def)
  have ld: "l \<in> dom (llists h1)" using h1(4) assms(3) by auto
  have live: "?s \<in> km_live (dmem h1)" "l \<in> km_live (dmem h1)" "?s \<noteq> l" "km_inv (dmem h1)"
    using h1(2) sd ld by (auto simp: dl_inv_def)
  obtain m1 where m1: "kfree ?s (dmem h1) = Some m1" "km_inv m1" "km_live m1 = km_live (dmem h1) - {?s}"
      "kpanics m1 = kpanics (dmem h1)"
    using km.release_live [OF live(4,1)] by blast
  have "l \<in> km_live m1" using live m1(3) by auto
  from km.release_live [OF m1(2) this] obtain m2 where m2: "kfree l m1 = Some m2" "km_inv m2"
      "km_live m2 = km_live m1 - {l}" "kpanics m2 = kpanics m1" by blast
  let ?h = "h1\<lparr>dmem := m2, nodes := (nodes h1)(?s := None), llists := (llists h1)(l := None)\<rparr>"
  have "free_llist call l h = Some ?h" using h1(1) s m1(1) m2(1) by (simp add: free_llist_def)
  moreover have "dl_inv ?h" using h1(2) m1(3) m2(2,3) sd ld by (auto simp: dl_inv_def)
  moreover have "km_live m2 = km_live (dmem h) - snd ` set xs - dl_nodes h l xs - {l}"
    using m2(3) m1(3) h1(5) assms(3) by (auto simp: dl_nodes_def cycle_def)
  ultimately show ?thesis using h1(4,6) m1(4) m2(4) by (intro exI [of _ ?h]) simp
qed

section \<open>A first heap\<close>

definition dlheap0 :: dlheap where
  "dlheap0 = \<lparr>dmem = kmem0, nodes = Map.empty, llists = Map.empty\<rparr>"

lemma dl_inv_dlheap0: "dl_inv dlheap0" "dmem dlheap0 = kmem0"
  by (simp_all add: dl_inv_def dlheap0_def kmem0_facts)

text \<open>As long as few blocks are in use a list can be created.\<close>

lemma new_dllist_runs:
  assumes "dl_inv h" and "card (km_live (dmem h)) < 7000"
  obtains l h' s where "new_dllist h = Some (l, h')" and "dl_inv h'" and "dl_list h' l []"
    and "llists h' l = Some \<lparr>sentinel_node = s, data_destructor = 0\<rparr>"
    and "card (km_live (dmem h')) \<le> 2 + card (km_live (dmem h))"
    and "kpanics (dmem h') = kpanics (dmem h)"
    and "km_live (dmem h') = {l, s} \<union> km_live (dmem h)" and "l \<notin> km_live (dmem h)" and "s \<notin> km_live (dmem h)"
proof -
  have inv: "km_inv (dmem h)" using assms(1) by (simp add: dl_inv_def)
  obtain l m1 where m1: "kmalloc sizeof_llist (dmem h) = Some (l, m1)" "kpanics m1 = kpanics (dmem h)"
      "card (km_live m1) = Suc (card (km_live (dmem h)))" "km_inv m1"
    by (rule kmalloc_room [OF inv, of sizeof_llist]) (use assms(2) in \<open>simp_all add: sizeof_llist_def\<close>)
  obtain s m2 where m2: "kmalloc sizeof_llist_node m1 = Some (s, m2)" "kpanics m2 = kpanics m1"
      "card (km_live m2) = Suc (card (km_live m1))"
    by (rule kmalloc_room [OF m1(4), of sizeof_llist_node]) (use assms(2) m1(3) in \<open>simp_all add: sizeof_llist_node_def\<close>)
  have "kpanics m2 = kpanics (dmem h)" using m1(2) m2(2) by simp
  from dc_new_dllist_spec [OF assms(1) m1(1) m2(1) this, of 0]
  obtain h' where h': "dc_new_dllist 0 h = Some (l, h')" "dl_inv h'" "dl_list h' l []"
      "llists h' l = Some \<lparr>sentinel_node = s, data_destructor = 0\<rparr>" "dmem h' = m2"
      "km_live (dmem h') = {l, s} \<union> km_live (dmem h)" "l \<notin> km_live (dmem h)" "s \<notin> km_live (dmem h)"
    by blast
  show ?thesis
    by (rule that [of l h' s]) (use h' m1 m2 in \<open>simp_all add: new_dllist_def\<close>)
qed

lemma node_alloc_runs:
  assumes "dl_inv h" and "card (km_live (dmem h)) < 7000"
  obtains n m' where "kmalloc sizeof_llist_node (dmem h) = Some (n, m')" and "kpanics m' = kpanics (dmem h)"
proof -
  have inv: "km_inv (dmem h)" using assms(1) by (simp add: dl_inv_def)
  show ?thesis by (rule kmalloc_room [OF inv, of sizeof_llist_node])
    (use assms(2) that in \<open>simp_all add: sizeof_llist_node_def\<close>)
qed

section \<open>Properties\<close>

text \<open>C29: \<open>ll_append\<close> and \<open>ll_prepend\<close> put the value behind and in front of the list in one fresh
  node, and every list that shares no node with it keeps its contents.\<close>

theorem ll_append_prepend_refine:
  assumes "dl_inv h" and "dl_list h l xs"
    and "kmalloc sizeof_llist_node (dmem h) = Some (new, m')" and "kpanics m' = kpanics (dmem h)"
  shows "(\<exists>h'. ll_append l v h = Some (new, h') \<and> dl_inv h' \<and> dl_list h' l (xs @ [(new, v)])
      \<and> (\<forall>l' ys. dl_list h l' ys \<longrightarrow> dl_nodes h l' ys \<inter> dl_nodes h l xs = {} \<longrightarrow> dl_list h' l' ys))
    \<and> (\<exists>h'. ll_prepend l v h = Some (new, h') \<and> dl_inv h' \<and> dl_list h' l ((new, v) # xs)
      \<and> (\<forall>l' ys. dl_list h l' ys \<longrightarrow> dl_nodes h l' ys \<inter> dl_nodes h l xs = {} \<longrightarrow> dl_list h' l' ys))"
proof -
  obtain d where d: "llists h l = Some d" using assms(2) by (auto simp: dl_list_def)
  have first: "ll_first l h = Some (hd (map fst xs @ [sentinel_node d]))"
    by (rule dl_list_ends [OF assms(2)]) (use d in \<open>auto simp: ll_sentinel_def\<close>)
  have "ll_append l v h = ll_insert_before (sentinel_node d) v h" using d by (simp add: ll_append_def)
  moreover have "ll_prepend l v h = ll_insert_before (hd (map fst xs @ [sentinel_node d])) v h"
    using first d by (auto simp: ll_prepend_def ll_first_def ll_sentinel_def ll_next_def)
  ultimately show ?thesis
    using dl_insert_spec [OF assms(1) _ assms(3,4), of l xs "[]" "sentinel_node d" v]
      dl_insert_spec [OF assms(1) _ assms(3,4), of l "[]" xs "hd (map fst xs @ [sentinel_node d])" v]
      assms(2) d by auto
qed

theorem ll_append_prepend_refine_witness:
  "\<exists>l h new h'. new_dllist dlheap0 = Some (l, h) \<and> dl_inv h \<and> dl_list h l []
     \<and> ll_append l 7 h = Some (new, h') \<and> dl_list h' l [(new, 7)]"
proof -
  obtain l h where h: "new_dllist dlheap0 = Some (l, h)" "dl_inv h" "dl_list h l []"
      "card (km_live (dmem h)) \<le> 2 + card (km_live (dmem dlheap0))"
    by (rule new_dllist_runs [OF dl_inv_dlheap0(1)]) (auto simp: dl_inv_dlheap0 kmem0_facts)
  then obtain n m where "kmalloc sizeof_llist_node (dmem h) = Some (n, m)" "kpanics m = kpanics (dmem h)"
    using node_alloc_runs [of h] by (auto simp: dl_inv_dlheap0 kmem0_facts)
  then show ?thesis using h ll_append_prepend_refine [OF h(2,3), of n m 7] by auto
qed

text \<open>C30: \<open>ll_delete_node\<close> takes exactly the given node out of its list, wherever it stands, gives
  its memory back, and every list that shares no node with it keeps its contents.\<close>

theorem ll_delete_node_refines:
  assumes "dl_inv h" and "dl_list h l (ys @ (node, v) # zs)"
  shows "\<exists>h'. ll_delete_node node h = Some h' \<and> dl_inv h' \<and> dl_list h' l (ys @ zs)
     \<and> km_live (dmem h') = km_live (dmem h) - {node} \<and> kpanics (dmem h') = kpanics (dmem h)
     \<and> (\<forall>l' xs. dl_list h l' xs \<longrightarrow> dl_nodes h l' xs \<inter> dl_nodes h l (ys @ (node, v) # zs) = {} \<longrightarrow> dl_list h' l' xs)"
  using dl_delete_spec [OF assms] by blast

theorem ll_delete_node_refines_witness:
  "\<exists>l h n h1 h2. new_dllist dlheap0 = Some (l, h) \<and> ll_append l 7 h = Some (n, h1) \<and> dl_list h1 l [(n, 7)]
     \<and> ll_delete_node n h1 = Some h2 \<and> dl_list h2 l []"
proof -
  obtain l h where h: "new_dllist dlheap0 = Some (l, h)" "dl_inv h" "dl_list h l []"
      "card (km_live (dmem h)) \<le> 2 + card (km_live (dmem dlheap0))"
    by (rule new_dllist_runs [OF dl_inv_dlheap0(1)]) (auto simp: dl_inv_dlheap0 kmem0_facts)
  obtain d where d: "llists h l = Some d" using h(3) by (auto simp: dl_list_def)
  obtain n m where km: "kmalloc sizeof_llist_node (dmem h) = Some (n, m)" "kpanics m = kpanics (dmem h)"
    using h(4) node_alloc_runs [of h] h(2) by (auto simp: dl_inv_dlheap0 kmem0_facts)
  obtain h1 where h1: "ll_append l 7 h = Some (n, h1)" "dl_inv h1" "dl_list h1 l ([] @ (n, 7) # [])"
    using dl_insert_spec [OF h(2) _ km, of l "[]" "[]" "sentinel_node d" 7] h(3) d by (auto simp: ll_append_def)
  then show ?thesis using h ll_delete_node_refines [OF h1(2,3)] by auto
qed

text \<open>\<open>ll_size\<close> and \<open>ll_empty\<close> return, with the number of nodes and whether there is none.\<close>

lemma ll_size_empty_spec:
  assumes "dl_list h l xs" and "length xs < 2 ^ 32"
  shows "ll_size l h = Some (length xs) \<and> ll_empty l h = Some (xs = [])"
  using assms ll_size_spec ll_empty_spec by blast

lemma ll_size_empty_spec_witness:
  "\<exists>l h. new_dllist dlheap0 = Some (l, h) \<and> ll_size l h = Some 0 \<and> ll_empty l h = Some True"
proof -
  obtain l h where h: "new_dllist dlheap0 = Some (l, h)" "dl_list h l []"
    by (rule new_dllist_runs [OF dl_inv_dlheap0(1)]) (auto simp: dl_inv_dlheap0 kmem0_facts)
  then show ?thesis using ll_size_empty_spec [OF h(2)] by auto
qed



end
