(* ===== verification/Queue.thy ===== *)
theory Queue
  imports Dllist
begin

text \<open>
  The queue of \<^verbatim>\<open>src/data_types/queue.c\<close>: a descriptor that owns a doubly linked list,
  new values in front, old ones taken from the back. The interface \<open>fifo\<close> states what a
  first-in first-out queue promises and proves once that values come out in the order
  they went in; the pointer-level queue is an instance.
\<close>

section \<open>The interface\<close>

text \<open>\<open>send f s xs\<close> applies a partial state transformer for each element in turn.\<close>

fun send :: "('v \<Rightarrow> 's \<Rightarrow> 's option) \<Rightarrow> 's \<Rightarrow> 'v list \<Rightarrow> 's option" where
  "send f s [] = Some s"
| "send f s (x # xs) = do { s' \<leftarrow> f x s; send f s' xs }"

fun receive :: "('s \<Rightarrow> ('v \<times> 's) option) \<Rightarrow> 's \<Rightarrow> nat \<Rightarrow> ('v list \<times> 's) option" where
  "receive f s 0 = Some ([], s)"
| "receive f s (Suc n) = do { (x, s1) \<leftarrow> f s; (xs, s2) \<leftarrow> receive f s1 n; Some (x # xs, s2) }"

locale fifo =
  fixes enq :: "'v \<Rightarrow> 's \<Rightarrow> 's option"
    and deq :: "'s \<Rightarrow> ('v \<times> 's) option"
    and nil :: 'v
    and holds :: "'s \<Rightarrow> 'v list \<Rightarrow> bool"
    and faults :: "'s \<Rightarrow> nat"
  assumes enq_faults: "enq v s = Some s' \<Longrightarrow> faults s \<le> faults s'"
    and enq_holds: "holds s vs \<Longrightarrow> enq v s = Some s' \<Longrightarrow> faults s' = faults s \<Longrightarrow> holds s' (vs @ [v])"
    and deq_empty: "holds s [] \<Longrightarrow> deq s = Some (nil, s)"
    and deq_holds: "holds s (v # vs) \<Longrightarrow> \<exists>s'. deq s = Some (v, s') \<and> holds s' vs \<and> faults s' = faults s"
begin

lemma send_faults: "send enq s xs = Some s' \<Longrightarrow> faults s \<le> faults s'"
proof (induction xs arbitrary: s)
  case (Cons x xs)
  then obtain s1 where s1: "enq x s = Some s1" "send enq s1 xs = Some s'" by auto
  have "faults s \<le> faults s1" using s1(1) by (rule enq_faults)
  also have "\<dots> \<le> faults s'" using s1(2) by (rule Cons.IH)
  finally show ?case .
qed simp

lemma send_holds:
  "holds s vs \<Longrightarrow> send enq s xs = Some s' \<Longrightarrow> faults s' = faults s \<Longrightarrow> holds s' (vs @ xs)"
proof (induction xs arbitrary: s vs)
  case (Cons x xs)
  then obtain s1 where s1: "enq x s = Some s1" "send enq s1 xs = Some s'" by auto
  have eq: "faults s1 = faults s"
    using enq_faults [OF s1(1)] send_faults [OF s1(2)] Cons.prems(3) by simp
  then have "holds s1 (vs @ [x])" using enq_holds [OF Cons.prems(1) s1(1)] by simp
  then show ?case using Cons.IH [of s1 "vs @ [x]"] s1(2) eq Cons.prems(3) by simp
qed simp

lemma receive_holds:
  "holds s (vs @ ws) \<Longrightarrow> \<exists>s'. receive deq s (length vs) = Some (vs, s') \<and> holds s' ws \<and> faults s' = faults s"
proof (induction vs arbitrary: s)
  case (Cons v vs)
  then obtain s1 where s1: "deq s = Some (v, s1)" "holds s1 (vs @ ws)" "faults s1 = faults s"
    using deq_holds [of s v "vs @ ws"] by auto
  then show ?case using Cons.IH [OF s1(2)] by auto
qed simp

text \<open>What is sent into an empty queue is received in the same order.\<close>

lemma send_receive:
  assumes "holds s []" and "send enq s vs = Some s1" and "faults s1 = faults s"
  shows "\<exists>s2. receive deq s1 (length vs) = Some (vs, s2) \<and> holds s2 [] \<and> faults s2 = faults s"
  using send_holds [OF assms] receive_holds [of s1 vs "[]"] assms(3) by simp

end

section \<open>Data and operations\<close>

record queue =
  qdata :: addr
  qdata_destructor :: addr

record qheap =
  qdl :: dlheap
  queues :: "addr \<rightharpoonup> queue"

definition sizeof_queue :: nat where "sizeof_queue = 8"

text \<open>
  \<open>dc_new_queue\<close> tests the destructor field of the fresh descriptor before it has been
  written: \<open>junk\<close> is what the block held. \<open>new_queue\<close> has no \<^verbatim>\<open>return\<close>, like \<open>new_dllist\<close>.
\<close>

definition dc_new_queue :: "addr \<Rightarrow> addr \<Rightarrow> qheap \<Rightarrow> (addr \<times> qheap) option" where
  "dc_new_queue junk destructor h =
     do { (q, m) \<leftarrow> kmalloc sizeof_queue (dmem (qdl h));
          (l, d) \<leftarrow> (if junk \<noteq> 0 then dc_new_dllist destructor ((qdl h)\<lparr>dmem := m\<rparr>)
                    else dc_new_dllist 0 ((qdl h)\<lparr>dmem := m\<rparr>));
          Some (q, \<lparr>qdl = d, queues = (queues h)(q \<mapsto> \<lparr>qdata = l, qdata_destructor = destructor\<rparr>)\<rparr>) }"

definition new_queue :: "addr \<Rightarrow> qheap \<Rightarrow> (addr \<times> qheap) option" where
  "new_queue junk h = dc_new_queue junk 0 h"

definition enqueue :: "addr \<Rightarrow> addr \<Rightarrow> qheap \<Rightarrow> qheap option" where
  "enqueue q datum h =
     do { r \<leftarrow> queues h q;
          (n, d) \<leftarrow> ll_prepend (qdata r) datum (qdl h);
          Some (h\<lparr>qdl := d\<rparr>) }"

definition dequeue :: "addr \<Rightarrow> qheap \<Rightarrow> (addr \<times> qheap) option" where
  "dequeue q h =
     do { r \<leftarrow> queues h q;
          e \<leftarrow> ll_empty (qdata r) (qdl h);
          if e then Some (0, h)
          else do { node \<leftarrow> ll_last (qdata r) (qdl h);
                    datum \<leftarrow> ll_val node (qdl h);
                    d \<leftarrow> ll_delete_node node (qdl h);
                    Some (datum, h\<lparr>qdl := d\<rparr>) } }"

definition free_queue ::
  "(addr \<Rightarrow> addr \<Rightarrow> dlheap \<Rightarrow> dlheap option) \<Rightarrow> addr \<Rightarrow> qheap \<Rightarrow> qheap option" where
  "free_queue call q h =
     do { r \<leftarrow> queues h q;
          d \<leftarrow> free_llist call (qdata r) (qdl h);
          m \<leftarrow> kfree q (dmem d);
          Some \<lparr>qdl = d\<lparr>dmem := m\<rparr>, queues = (queues h)(q := None)\<rparr> }"

section \<open>The queue as an instance\<close>

text \<open>The values in the queue at \<open>q\<close>, oldest first.\<close>

definition q_holds :: "addr \<Rightarrow> qheap \<Rightarrow> addr list \<Rightarrow> bool" where
  "q_holds q h vs \<longleftrightarrow> dl_inv (qdl h)
     \<and> (\<exists>r xs. queues h q = Some r \<and> dl_list (qdl h) (qdata r) xs \<and> vs = rev (map snd xs))"

definition q_faults :: "qheap \<Rightarrow> nat" where
  "q_faults h = kpanics (dmem (qdl h))"

lemma ll_insert_before_cases:
  assumes "ll_insert_before node v h = Some (new, h')"
  obtains m where "kmalloc sizeof_llist_node m = Some (new, dmem h')" and "kpanics (dmem h) \<le> kpanics m"
    and "\<And>n. nodes h node = Some n \<Longrightarrow> node \<le> 0xf0000000 \<Longrightarrow> prv n \<noteq> 0 \<Longrightarrow> m = dmem h"
  using assms that
  by (auto simp: ll_insert_before_def set_prev_def set_next_def Let_def panic_def split: if_splits)

lemma ll_prepend_faults:
  assumes "ll_prepend l v h = Some (new, h')"
  shows "kpanics (dmem h) \<le> kpanics (dmem h')"
proof -
  obtain node where "ll_insert_before node v h = Some (new, h')"
    using assms by (auto simp: ll_prepend_def)
  then show ?thesis using km.alloc_panics by (elim ll_insert_before_cases) (meson le_trans)
qed

lemma ll_prepend_spec:
  assumes inv: "dl_inv h" and dl: "dl_list h l xs" and run: "ll_prepend l v h = Some (new, h')"
    and ok: "kpanics (dmem h') = kpanics (dmem h)"
  shows "dl_inv h' \<and> dl_list h' l ((new, v) # xs)"
proof -
  obtain d where d: "llists h l = Some d" using dl by (auto simp: dl_list_def)
  have first: "ll_first l h = Some (hd (map fst xs @ [sentinel_node d]))"
    by (rule dl_list_ends [OF dl]) (use d in \<open>auto simp: ll_sentinel_def\<close>)
  let ?node = "hd (map fst xs @ [sentinel_node d])"
  have ins: "ll_insert_before ?node v h = Some (new, h')"
    using run first d by (auto simp: ll_prepend_def ll_first_def ll_sentinel_def ll_next_def)
  have kinv: "km_inv (dmem h)" using inv by (simp add: dl_inv_def)
  obtain m where m: "kmalloc sizeof_llist_node m = Some (new, dmem h')" "kpanics (dmem h) \<le> kpanics m"
      "\<And>n. nodes h ?node = Some n \<Longrightarrow> ?node \<le> 0xf0000000 \<Longrightarrow> prv n \<noteq> 0 \<Longrightarrow> m = dmem h"
    using ll_insert_before_cases [OF ins] by metis
  have cyc: "dlist (nodes h) (sentinel_node d) xs" using dl d by (simp add: dl_list_def)
  then have "prv_of (nodes h) ?node = Some (sentinel_node d)"
    by (cases xs) (simp_all add: dlist_def cycle_def)
  then obtain n where n: "nodes h ?node = Some n" "prv n = sentinel_node d" by (auto simp: prv_of_def)
  have "?node \<in> dom (nodes h)" "sentinel_node d \<in> dom (nodes h)"
    using dlist_dom [OF cyc] n(1) by (auto simp: cycle_def)
  then have live: "?node \<in> km_live (dmem h)" "sentinel_node d \<in> km_live (dmem h)"
    using inv unfolding dl_inv_def by blast+
  have "m = dmem h"
    using m(3) [OF n(1)] n(2) km_live_range [OF kinv live(1)] km_live_range [OF kinv live(2)] by simp
  then show ?thesis
    using dl_insert_spec [OF inv _ _ ok, of l "[]" xs new ?node v] m(1) dl d ins by auto
qed

lemma dequeue_spec:
  assumes "q_holds q h (v # vs)"
  shows "\<exists>h'. dequeue q h = Some (v, h') \<and> q_holds q h' vs \<and> q_faults h' = q_faults h"
proof -
  obtain r xs where r: "queues h q = Some r" "dl_list (qdl h) (qdata r) xs" "v # vs = rev (map snd xs)"
      and inv: "dl_inv (qdl h)"
    using assms by (auto simp: q_holds_def)
  then obtain ys n where xs: "xs = ys @ [(n, v)]" "vs = rev (map snd ys)"
    by (cases xs rule: rev_cases) auto
  have last: "ll_last (qdata r) (qdl h) = Some n"
    by (rule dl_list_ends [OF r(2)]) (simp add: xs)
  have "ll_val n (qdl h) = Some v"
    by (rule dl_list_ends [OF r(2)], drule dlist_vals [of _ _ _ n v])
      (simp_all add: xs ll_val_def val_of_def)
  moreover have "dl_list (qdl h) (qdata r) (ys @ (n, v) # [])" using r(2) xs by simp
  from dl_delete_spec [OF inv this] obtain d where d: "ll_delete_node n (qdl h) = Some d" "dl_inv d"
      "dl_list d (qdata r) (ys @ [])" "kpanics (dmem d) = kpanics (dmem (qdl h))"
    by (elim exE conjE) (rule that, assumption+)
  moreover have "ll_empty (qdata r) (qdl h) = Some False" using ll_empty_spec [OF r(2)] xs by simp
  ultimately have "dequeue q h = Some (v, h\<lparr>qdl := d\<rparr>)"
    using r(1) last by (simp add: dequeue_def)
  moreover have "q_holds q (h\<lparr>qdl := d\<rparr>) vs"
    using r(1) d xs by (auto simp: q_holds_def)
  ultimately show ?thesis using d(4) by (simp add: q_faults_def)
qed

interpretation fq: fifo "enqueue q" "dequeue q" 0 "q_holds q" q_faults for q
proof unfold_locales
  show "q_faults h \<le> q_faults h'" if "enqueue q v h = Some h'" for v h h'
    using that ll_prepend_faults by (fastforce simp: enqueue_def q_faults_def)
  show "q_holds q h' (vs @ [v])"
    if "q_holds q h vs" "enqueue q v h = Some h'" "q_faults h' = q_faults h" for h vs v h'
    using that ll_prepend_spec by (fastforce simp: enqueue_def q_holds_def q_faults_def)
  show "dequeue q h = Some (0, h)" if "q_holds q h []" for h
    using that ll_empty_spec by (fastforce simp: dequeue_def q_holds_def)
  show "\<exists>h'. dequeue q h = Some (v, h') \<and> q_holds q h' vs \<and> q_faults h' = q_faults h"
    if "q_holds q h (v # vs)" for h v vs
    using that by (rule dequeue_spec)
qed

section \<open>Properties\<close>

text \<open>C32: values enqueued into an empty queue, with memory available, are dequeued in the order
  they went in, and the queue is empty again.\<close>

theorem queue_fifo:
  assumes "q_holds q h []" and "send (enqueue q) h vs = Some h1" and "q_faults h1 = q_faults h"
  shows "\<exists>h2. receive (dequeue q) h1 (length vs) = Some (vs, h2) \<and> q_holds q h2 []
     \<and> dequeue q h2 = Some (0, h2)"
  using fq.send_receive [OF assms] fq.deq_empty by blast

definition qheap0 :: qheap where
  "qheap0 = \<lparr>qdl = dlheap0, queues = Map.empty\<rparr>"

lemma new_queue_qheap0:
  obtains q h where "new_queue 0 qheap0 = Some (q, h)" and "q_holds q h []"
    and "card (km_live (dmem (qdl h))) \<le> 3" and "km_inv (dmem (qdl h))"
proof -
  obtain q m where m: "kmalloc sizeof_queue kmem0 = Some (q, m)" "km_inv m" "card (km_live m) = Suc (card (km_live kmem0))"
      "km_live m = insert q (km_live kmem0)"
    by (rule kmalloc_room [OF kmem0_facts(1), of sizeof_queue]) (simp_all add: sizeof_queue_def kmem0_facts)
  have "dl_inv (dlheap0\<lparr>dmem := m\<rparr>)" using m(2) by (simp add: dl_inv_def dlheap0_def)
  then obtain l d where d: "new_dllist (dlheap0\<lparr>dmem := m\<rparr>) = Some (l, d)" "dl_inv d" "dl_list d l []"
      "card (km_live (dmem d)) \<le> 2 + card (km_live m)"
    by (rule new_dllist_runs) (use m in \<open>auto simp: kmem0_facts\<close>)
  show ?thesis
  proof (rule that)
    show "new_queue 0 qheap0 = Some (q, \<lparr>qdl = d, queues = [q \<mapsto> \<lparr>qdata = l, qdata_destructor = 0\<rparr>]\<rparr>)"
      using m(1) d(1) by (simp add: new_queue_def dc_new_queue_def qheap0_def new_dllist_def dl_inv_dlheap0)
  qed (use d m in \<open>auto simp: q_holds_def dl_inv_def kmem0_facts\<close>)
qed

lemma enqueue_runs:
  assumes h: "q_holds q h vs" and few: "card (km_live (dmem (qdl h))) < 7000"
  obtains h' where "enqueue q v h = Some h'" and "q_faults h' = q_faults h"
    and "card (km_live (dmem (qdl h'))) = Suc (card (km_live (dmem (qdl h))))"
proof -
  obtain r xs where r: "queues h q = Some r" "dl_list (qdl h) (qdata r) xs" and inv: "dl_inv (qdl h)"
    using h by (auto simp: q_holds_def)
  have kinv: "km_inv (dmem (qdl h))" using inv by (simp add: dl_inv_def)
  obtain d where d: "llists (qdl h) (qdata r) = Some d" using r(2) by (auto simp: dl_list_def)
  have first: "ll_first (qdata r) (qdl h) = Some (hd (map fst xs @ [sentinel_node d]))"
    by (rule dl_list_ends [OF r(2)]) (use d in \<open>auto simp: ll_sentinel_def\<close>)
  obtain n m where m: "kmalloc sizeof_llist_node (dmem (qdl h)) = Some (n, m)" "kpanics m = kpanics (dmem (qdl h))"
      "card (km_live m) = Suc (card (km_live (dmem (qdl h))))"
    by (rule kmalloc_room [OF kinv, of sizeof_llist_node]) (use few in \<open>simp_all add: sizeof_llist_node_def\<close>)
  obtain h' where h': "ll_insert_before (hd (map fst xs @ [sentinel_node d])) v (qdl h) = Some (n, h')" "dmem h' = m"
    using dl_insert_spec [OF inv _ m(1,2), of "qdata r" "[]" xs _ v] r(2) d by auto
  have "enqueue q v h = Some (h\<lparr>qdl := h'\<rparr>)"
    using r(1) first d h'(1)
    by (auto simp: enqueue_def ll_prepend_def ll_first_def ll_sentinel_def ll_next_def)
  then show ?thesis by (rule that) (use h'(2) m in \<open>simp_all add: q_faults_def\<close>)
qed

theorem queue_fifo_witness:
  "\<exists>q h h1 h2. new_queue 0 qheap0 = Some (q, h) \<and> send (enqueue q) h [11, 22] = Some h1
     \<and> receive (dequeue q) h1 2 = Some ([11, 22], h2) \<and> dequeue q h2 = Some (0, h2)"
proof -
  obtain q h where h: "new_queue 0 qheap0 = Some (q, h)" "q_holds q h []" "card (km_live (dmem (qdl h))) \<le> 3"
    using new_queue_qheap0 by metis
  obtain h1 where h1: "enqueue q 11 h = Some h1" "q_faults h1 = q_faults h"
      "card (km_live (dmem (qdl h1))) = Suc (card (km_live (dmem (qdl h))))"
    by (rule enqueue_runs [OF h(2)]) (use h(3) in auto)
  have holds1: "q_holds q h1 [11]" using fq.enq_holds [OF h(2) h1(1,2)] by simp
  obtain h2 where h2: "enqueue q 22 h1 = Some h2" "q_faults h2 = q_faults h1"
    by (rule enqueue_runs [OF holds1]) (use h(3) h1(3) in auto)
  have "send (enqueue q) h [11, 22] = Some h2" "q_faults h2 = q_faults h" using h1 h2 by simp_all
  then show ?thesis using h(1) queue_fifo [OF h(2)] by (metis One_nat_def Suc_1 length_Cons list.size(3))
qed

end
