(* ===== verification/Wire.thy ===== *)
theory Wire
  imports Prelude
begin

text \<open>
  Bytes on the wire: the byte-order macros of \<^verbatim>\<open>src/include/common.h\<close> and the Internet
  checksum of \<^verbatim>\<open>src/network/socket_buffer.c\<close>. Packets are lists of bytes; a 16-bit word of
  the checksum is read from memory in the little-endian order of the machine.
\<close>

section \<open>Byte order\<close>

definition LOW_16 :: "u16 \<Rightarrow> u8" where "LOW_16 d = ucast (d AND 0xFF)"
definition HI_16 :: "u16 \<Rightarrow> u8" where "HI_16 d = ucast (drop_bit 8 d AND 0xFF)"
definition SWAP_WORD :: "u16 \<Rightarrow> u16" where
  "SWAP_WORD d = (drop_bit 8 d AND 0xFF) OR (push_bit 8 d AND 0xFFFF)"
definition GET_WORD :: "u8 \<Rightarrow> u8 \<Rightarrow> u16" where
  "GET_WORD a b = ucast b OR (push_bit 8 (ucast a) AND 0xFFFF)"
definition GET_DWORD :: "u8 \<Rightarrow> u8 \<Rightarrow> u8 \<Rightarrow> u8 \<Rightarrow> u32" where
  "GET_DWORD a b c d = ucast d OR (push_bit 8 (ucast c) AND 0xFFFF)
     OR (push_bit 16 (ucast b) AND 0xFFFFFF) OR push_bit 24 (ucast a)"
definition LOW_OCT_32 :: "u32 \<Rightarrow> u8" where "LOW_OCT_32 d = ucast (d AND 0xFF)"
definition MID_RGT_OCT_32 :: "u32 \<Rightarrow> u8" where "MID_RGT_OCT_32 d = ucast (drop_bit 8 d AND 0xFF)"
definition MID_LFT_OCT_32 :: "u32 \<Rightarrow> u8" where "MID_LFT_OCT_32 d = ucast (drop_bit 16 d AND 0xFF)"
definition HI_OCT_32 :: "u32 \<Rightarrow> u8" where "HI_OCT_32 d = ucast (drop_bit 24 d AND 0xFF)"

lemmas oct_defs = LOW_OCT_32_def MID_RGT_OCT_32_def MID_LFT_OCT_32_def HI_OCT_32_def

lemma mask_numerals: "(0xFF :: 'a::len word) = mask 8" "(0xFFFF :: 'a::len word) = mask 16" "(0xFFFFFF :: 'a::len word) = mask 24"
  by (simp_all add: mask_eq_exp_minus_1)

lemma get_word_split: "GET_WORD (HI_16 d) (LOW_16 d) = d"
  unfolding GET_WORD_def HI_16_def LOW_16_def mask_numerals
  by (rule bit_word_eqI) (auto simp: bit_simps)

lemma get_dword_split: "GET_DWORD (HI_OCT_32 d) (MID_LFT_OCT_32 d) (MID_RGT_OCT_32 d) (LOW_OCT_32 d) = d"
proof (rule bit_word_eqI)
  fix n assume n: "n < LENGTH(32)"
  consider "n < 8" | "8 \<le> n" "n < 16" | "16 \<le> n" "n < 24" | "24 \<le> n" "n < 32" using n by (simp, linarith)
  then show "bit (GET_DWORD (HI_OCT_32 d) (MID_LFT_OCT_32 d) (MID_RGT_OCT_32 d) (LOW_OCT_32 d)) n = bit d n"
    unfolding GET_DWORD_def oct_defs mask_numerals by cases (simp_all add: bit_simps, auto)
qed

lemma swap_bytes: "HI_16 (SWAP_WORD c) = LOW_16 c" "LOW_16 (SWAP_WORD c) = HI_16 c"
  unfolding SWAP_WORD_def HI_16_def LOW_16_def mask_numerals
  by (rule bit_word_eqI; auto simp: bit_simps)+

lemma unat_LOW_16: "unat (LOW_16 c) = unat c mod 256"
  unfolding LOW_16_def mask_numerals
  by (simp add: unsigned_ucast_eq take_bit_eq_mod unat_mod_distrib flip: take_bit_eq_mask)

lemma unat_HI_16: "unat (HI_16 c) = unat c div 256"
proof -
  have "unat c < 2 ^ 16" using unsigned_less [of c] by simp
  then show ?thesis
    unfolding HI_16_def mask_numerals
    by (simp add: unsigned_ucast_eq unsigned_drop_bit_eq drop_bit_eq_div take_bit_eq_mod unat_mod_distrib unat_div_distrib flip: take_bit_eq_mask)
qed

lemma unat_bytes: "unat (LOW_16 c) + 256 * unat (HI_16 c) = unat c"
  by (simp add: unat_LOW_16 unat_HI_16)

section \<open>The Internet checksum\<close>

text \<open>
  \<open>sum\<close> is a signed 32-bit \<^verbatim>\<open>long\<close>: it never becomes negative without overflowing, which is
  undefined, so an addition that leaves its range is \<open>None\<close> and the fold inside the loop,
  which waits for the sign bit, has no defined way to run. An odd last byte is added as it
  is. Fewer bytes than \<open>len\<close> are an out-of-range read.
\<close>

definition add_sum :: "nat \<Rightarrow> nat \<Rightarrow> nat option" where
  "add_sum s w = (if s + w < 2 ^ 31 then Some (s + w) else None)"

fun word_sum :: "u8 list \<Rightarrow> nat \<Rightarrow> nat \<Rightarrow> nat option" where
  "word_sum bs 0 s = Some s"
| "word_sum (b # bs) (Suc 0) s = add_sum s (unat b)"
| "word_sum (b0 # b1 # bs) (Suc (Suc len)) s =
     do { s' \<leftarrow> add_sum s (unat b0 + 256 * unat b1); word_sum bs len s' }"
| "word_sum _ _ _ = None"

function fold_sum :: "nat \<Rightarrow> nat" where
  "fold_sum s = (if s div 65536 = 0 then s else fold_sum (s mod 65536 + s div 65536))"
  by pat_completeness auto
termination
proof (relation "measure id", simp)
  fix s :: nat assume "s div 65536 \<noteq> 0"
  then have "0 < s div 65536" by simp
  moreover have "s = 65536 * (s div 65536) + s mod 65536" by simp
  ultimately show "(s mod 65536 + s div 65536, s) \<in> measure id" unfolding in_measure id_apply by linarith
qed

declare fold_sum.simps [simp del]

definition checksum :: "u8 list \<Rightarrow> nat \<Rightarrow> u16 option" where
  "checksum ip len = do { s \<leftarrow> word_sum ip len 0; Some (NOT (of_nat (fold_sum s))) }"

text \<open>
  The checksum of \<open>checksum_udp\<close> and \<open>checksum_tcp\<close>: the sums of the pseudo header and of the
  packet are combined by a checksum over their complements.
\<close>

definition checksum_pair :: "u8 list \<Rightarrow> u8 list \<Rightarrow> nat \<Rightarrow> u16 option" where
  "checksum_pair header_virt packet packet_len =
     do { chk \<leftarrow> checksum packet packet_len;
          chk_virt \<leftarrow> checksum header_virt 12;
          checksum [LOW_16 (NOT chk_virt), HI_16 (NOT chk_virt), LOW_16 (NOT chk), HI_16 (NOT chk)] 4 }"

section \<open>What the checksum computes\<close>

fun wsum :: "u8 list \<Rightarrow> nat" where
  "wsum (b0 # b1 # bs) = unat b0 + 256 * unat b1 + wsum bs"
| "wsum [b] = unat b"
| "wsum [] = 0"

lemma unat_u8: "unat (b :: u8) \<le> 255"
proof -
  have "unat b < 2 ^ 8" using unsigned_less [of b] by simp
  then show ?thesis by simp
qed

lemma wsum_bound: "wsum bs \<le> 65535 * ((length bs + 1) div 2)"
proof (induction bs rule: wsum.induct)
  case (1 b0 b1 bs)
  have "unat b0 + 256 * unat b1 \<le> 65535" using unat_u8 [of b0] unat_u8 [of b1] by linarith
  then show ?case using 1 by simp
next
  case (2 b)
  then show ?case using unat_u8 [of b] by simp
qed simp

lemma word_sum_eq:
  assumes "len \<le> length bs" and "s + wsum (take len bs) < 2 ^ 31"
  shows "word_sum bs len s = Some (s + wsum (take len bs))"
  using assms by (induction bs len s rule: word_sum.induct) (auto simp: add_sum_def)

lemma word_sum_short: "length bs < len \<Longrightarrow> word_sum bs len s = None"
proof (induction bs len s rule: word_sum.induct)
  case (3 b0 b1 bs len s)
  then have "word_sum bs len s' = None" if "add_sum s (unat b0 + 256 * unat b1) = Some s'" for s'
    using that by simp
  then show ?case by (cases "add_sum s (unat b0 + 256 * unat b1)") auto
qed auto

lemma fold_sum_spec: "fold_sum s < 65536 \<and> fold_sum s mod 65535 = s mod 65535 \<and> (fold_sum s = 0 \<longleftrightarrow> s = 0)"
proof (induction s rule: fold_sum.induct)
  case (1 s)
  show ?case
  proof (cases "s div 65536 = 0")
    case True
    have "fold_sum s = s" using True by (subst fold_sum.simps) simp
    moreover have "s < 65536" using True by (simp add: div_eq_0_iff)
    ultimately have "fold_sum s = s" "s < 65536" .
    then show ?thesis by simp
  next
    case False
    let ?t = "s mod 65536 + s div 65536"
    have eq: "fold_sum s = fold_sum ?t" using False by (subst fold_sum.simps) simp
    have "s = ?t + 65535 * (s div 65536)" using div_mult_mod_eq [of s 65536] by linarith
    then have "s mod 65535 = ?t mod 65535" by (metis mod_mult_self2)
    then show ?thesis using 1 False eq by auto
  qed
qed

lemma fold_sum_value: "fold_sum s = (if s = 0 then 0 else if 65535 dvd s then 65535 else s mod 65535)"
proof -
  note f = fold_sum_spec [of s]
  show ?thesis
  proof (cases "fold_sum s = 65535")
    case True
    then have "s mod 65535 = 0" "s \<noteq> 0" using f by auto
    then show ?thesis using True by (simp add: dvd_eq_mod_eq_0)
  next
    case False
    then have "fold_sum s < 65535" using f by simp
    then have "fold_sum s = s mod 65535" using f by simp
    moreover have "65535 dvd s \<longrightarrow> s = 0" using f \<open>fold_sum s = s mod 65535\<close> by (auto simp: dvd_eq_mod_eq_0)
    ultimately show ?thesis by auto
  qed
qed

lemma checksum_eq:
  assumes "len \<le> length bs" and "len < 65536"
  shows "checksum bs len = Some (NOT (of_nat (fold_sum (wsum (take len bs)))))"
proof -
  have "wsum (take len bs) \<le> 65535 * ((len + 1) div 2)" using wsum_bound [of "take len bs"] assms(1) by simp
  also have "\<dots> \<le> 65535 * 32768" using assms(2) by (intro mult_le_mono2) simp
  finally have "wsum (take len bs) < 2 ^ 31" by simp
  then show ?thesis using word_sum_eq [OF assms(1), of 0] by (simp add: checksum_def)
qed

lemma unat_not_of_nat: "n < 65536 \<Longrightarrow> unat (NOT (of_nat n :: u16)) = 65535 - n"
proof -
  assume n: "n < 65536"
  have "NOT (of_nat n :: u16) = of_nat (65535 - n)"
    using n by (simp add: not_eq_complement of_nat_diff)
  moreover have "unat (of_nat (65535 - n) :: u16) = 65535 - n"
    by (subst unsigned_of_nat) (use n in \<open>simp add: take_bit_nat_eq_self\<close>)
  ultimately show ?thesis by simp
qed

lemma fold_sum_cong:
  assumes "s mod 65535 = t mod 65535" and "s = 0 \<longleftrightarrow> t = 0"
  shows "fold_sum s = fold_sum t"
  using assms by (simp add: fold_sum_value dvd_eq_mod_eq_0)

lemma fold_sum_lt: "fold_sum s < 65536"
  using fold_sum_spec [of s] by simp

lemma fold_sum_add: "fold_sum (fold_sum a + fold_sum b) = fold_sum (a + b)"
proof (rule fold_sum_cong)
  show "(fold_sum a + fold_sum b) mod 65535 = (a + b) mod 65535"
    using fold_sum_spec [of a] fold_sum_spec [of b] by (metis mod_add_cong)
  show "fold_sum a + fold_sum b = 0 \<longleftrightarrow> a + b = 0"
    using fold_sum_spec [of a] fold_sum_spec [of b] by simp
qed

lemma wsum_append: "even (length xs) \<Longrightarrow> wsum (xs @ ys) = wsum xs + wsum ys"
  by (induction xs rule: wsum.induct) auto

lemma wsum_word: "wsum [LOW_16 c, HI_16 c] = unat c"
  using unat_bytes [of c] by simp

lemma not_of_nat_eq_0: "n < 65536 \<Longrightarrow> NOT (of_nat n :: u16) = 0 \<longleftrightarrow> n = 65535"
proof -
  assume n: "n < 65536"
  have "NOT (of_nat n :: u16) = 0 \<longleftrightarrow> unat (NOT (of_nat n :: u16)) = 0" by (rule unsigned_eq_0_iff [symmetric])
  also have "\<dots> \<longleftrightarrow> n = 65535" unfolding unat_not_of_nat [OF n] using n by arith
  finally show ?thesis .
qed

lemma checksum_pair_eq:
  assumes "length hv = 12" and "len \<le> length pkt" and "len < 65536"
  shows "checksum_pair hv pkt len = Some (NOT (of_nat (fold_sum (wsum hv + wsum (take len pkt)))))"
proof -
  let ?a = "fold_sum (wsum hv)" and ?b = "fold_sum (wsum (take len pkt))"
  have n: "unat (of_nat (fold_sum x) :: u16) = fold_sum x" for x
    using fold_sum_lt [of x] by (simp add: unat_of_nat)
  let ?A = "of_nat ?a :: u16" and ?B = "of_nat ?b :: u16"
  have "wsum [LOW_16 ?A, HI_16 ?A, LOW_16 ?B, HI_16 ?B] = ?a + ?b"
    using unat_bytes [of ?A] unat_bytes [of ?B] n by simp
  then have "checksum [LOW_16 ?A, HI_16 ?A, LOW_16 ?B, HI_16 ?B] 4 = Some (NOT (of_nat (fold_sum (?a + ?b))))"
    using checksum_eq [of 4 "[LOW_16 ?A, HI_16 ?A, LOW_16 ?B, HI_16 ?B]"] by simp
  moreover have "checksum pkt len = Some (NOT ?B)" using checksum_eq [OF assms(2,3)] .
  moreover have "checksum hv 12 = Some (NOT ?A)" using checksum_eq [of 12 hv] assms(1) by simp
  ultimately show ?thesis by (simp add: checksum_pair_def fold_sum_add)
qed

lemma fold_sum_complement:
  assumes "c = 65535 - fold_sum s"
  shows "fold_sum (s + c) = 65535"
proof -
  have "fold_sum (s + c) = fold_sum (fold_sum s + fold_sum c)" by (simp add: fold_sum_add)
  also have "fold_sum c = c" using assms by (subst fold_sum.simps) (simp add: div_eq_0_iff)
  also have "fold_sum s + c = 65535" using assms fold_sum_lt [of s] by simp
  finally show ?thesis by (simp add: fold_sum.simps)
qed

text \<open>
  Storing a checksum: a field at an even offset that held zero gets the low byte of the
  complement first, as the code does after its \<^verbatim>\<open>SWAP_WORD\<close>.
\<close>

lemma split_two:
  assumes "Suc i < length bs"
  shows "bs = take i bs @ [bs ! i, bs ! Suc i] @ drop (i + 2) bs"
proof -
  have "bs = take i bs @ bs ! i # drop (Suc i) bs" using assms by (intro id_take_nth_drop) simp
  moreover have "drop (Suc i) bs = bs ! Suc i # drop (i + 2) bs" using assms Cons_nth_drop_Suc [of "Suc i" bs] by simp
  ultimately show ?thesis by simp
qed

lemma update_two:
  assumes "Suc i < length bs"
  shows "bs [i := a, Suc i := b] = take i bs @ [a, b] @ drop (i + 2) bs"
proof -
  have l: "length (take i bs) = i" using assms by simp
  show ?thesis
    using list_update_append [of "take i bs" "[bs ! i, bs ! Suc i] @ drop (i + 2) bs" i a]
      list_update_append [of "take i bs" "a # bs ! Suc i # drop (i + 2) bs" "Suc i" b] l
      split_two [OF assms, symmetric] by simp
qed

lemma wsum_store:
  assumes "even i" and "i + 2 \<le> length bs" and "bs ! i = 0" and "bs ! Suc i = 0"
  shows "wsum (bs [i := LOW_16 c, Suc i := HI_16 c]) = wsum bs + unat c"
proof -
  have i: "Suc i < length bs" using assms(2) by simp
  have l: "even (length (take i bs))" using assms(1,2) by simp
  have bs: "bs = take i bs @ [0, 0] @ drop (i + 2) bs" using split_two [OF i] assms(3,4) by simp
  have "wsum (bs [i := LOW_16 c, Suc i := HI_16 c]) = wsum (take i bs) + (unat c + wsum (drop (i + 2) bs))"
    using wsum_append [OF l] wsum_append [of "[LOW_16 c, HI_16 c]"] wsum_word [of c] by (simp add: update_two [OF i])
  moreover have "wsum bs = wsum (take i bs) + wsum (drop (i + 2) bs)"
    using wsum_append [OF l, of "[0, 0] @ drop (i + 2) bs"] bs by simp
  ultimately show ?thesis by simp
qed

lemma checksum_store:
  assumes "even i" and "i + 2 \<le> length bs" and "length bs < 65536"
      and "bs ! i = 0" and "bs ! Suc i = 0" and "checksum bs (length bs) = Some c"
  shows "checksum (bs [i := LOW_16 c, Suc i := HI_16 c]) (length bs) = Some 0"
proof -
  let ?s = "wsum bs"
  have c: "c = NOT (of_nat (fold_sum ?s))" using checksum_eq [of "length bs" bs] assms(3,6) by simp
  have "unat c = 65535 - fold_sum ?s" using unat_not_of_nat [OF fold_sum_lt] c by simp
  then have "fold_sum (wsum (bs [i := LOW_16 c, Suc i := HI_16 c])) = 65535"
    using wsum_store [OF assms(1,2,4,5), of c] fold_sum_complement by simp
  then show ?thesis
    using checksum_eq [of "length bs" "bs [i := LOW_16 c, Suc i := HI_16 c]"] assms(3) not_of_nat_eq_0 [of 65535] by simp
qed

lemma checksum_pair_store:
  assumes "length hv = 12" and "even i" and "i + 2 \<le> length bs" and "length bs < 65536"
      and "bs ! i = 0" and "bs ! Suc i = 0" and "checksum_pair hv bs (length bs) = Some c"
  shows "checksum_pair hv (bs [i := LOW_16 c, Suc i := HI_16 c]) (length bs) = Some 0"
proof -
  let ?s = "wsum hv + wsum bs"
  have c: "c = NOT (of_nat (fold_sum ?s))"
    using checksum_pair_eq [OF assms(1), of "length bs" bs] assms(4,7) by simp
  have "unat c = 65535 - fold_sum ?s" using unat_not_of_nat [OF fold_sum_lt] c by simp
  then have "fold_sum (wsum hv + wsum (bs [i := LOW_16 c, Suc i := HI_16 c])) = 65535"
    using wsum_store [OF assms(2,3,5,6), of c] fold_sum_complement [of "unat c" ?s] by (simp add: add.assoc)
  then show ?thesis
    using checksum_pair_eq [OF assms(1), of "length bs" "bs [i := LOW_16 c, Suc i := HI_16 c]"] assms(4)
      not_of_nat_eq_0 [of 65535] by simp
qed

section \<open>Properties\<close>

text \<open>C33: The Internet checksum is defined on every packet of at most 65535 bytes, its loop
  that folds the carries ends, and the result is zero, the test the receivers make, exactly
  when the sum of the packet's 16-bit words is a positive multiple of 65535.\<close>

theorem checksum_verifies:
  assumes "len \<le> length bs" and "len < 65536"
  shows "\<exists>c. checksum bs len = Some c \<and>
    (c = 0 \<longleftrightarrow> wsum (take len bs) \<noteq> 0 \<and> 65535 dvd wsum (take len bs))"
proof -
  let ?f = "fold_sum (wsum (take len bs))"
  have "NOT (of_nat ?f :: u16) = 0 \<longleftrightarrow> ?f = 65535" by (rule not_of_nat_eq_0 [OF fold_sum_lt])
  also have "\<dots> \<longleftrightarrow> wsum (take len bs) \<noteq> 0 \<and> 65535 dvd wsum (take len bs)"
    using mod_less_divisor [of 65535 "wsum (take len bs)"] by (auto simp: fold_sum_value simp del: mod_less_divisor)
  finally show ?thesis using checksum_eq [OF assms] by simp
qed

theorem checksum_verifies_witness:
  "\<exists>c. checksum [0x45, 0x00, 0xBA, 0xFF] 4 = Some c \<and>
    (c = 0 \<longleftrightarrow> wsum (take 4 [0x45, 0x00, 0xBA, 0xFF]) \<noteq> 0 \<and> 65535 dvd wsum (take 4 [0x45, 0x00, 0xBA, 0xFF]))"
  by (rule checksum_verifies) simp_all

text \<open>Filling in a checksum. When the field at an even offset is zero and the checksum of
  the packet is stored there in the byte order the code uses, the receiver's checksum over the
  whole packet is zero.\<close>

lemma checksum_fill_verify:
  assumes "even i" and "i + 2 \<le> length bs" and "length bs < 65536" and "bs ! i = 0" and "bs ! Suc i = 0"
  shows "\<exists>c. checksum bs (length bs) = Some c \<and>
    checksum (bs [i := HI_16 (SWAP_WORD c), Suc i := LOW_16 (SWAP_WORD c)]) (length bs) = Some 0"
proof -
  obtain c where "checksum bs (length bs) = Some c" using checksum_eq [of "length bs" bs] assms(3) by simp
  then show ?thesis using checksum_store [OF assms] by (simp add: swap_bytes)
qed

lemma checksum_fill_verify_witness:
  "\<exists>c. checksum [1, 2, 0, 0, 5] 5 = Some c \<and>
    checksum ([1, 2, 0, 0, 5] [2 := HI_16 (SWAP_WORD c), 3 := LOW_16 (SWAP_WORD c)]) 5 = Some 0"
  using checksum_fill_verify [of 2 "[1, 2, 0, 0, 5]"] by (simp add: eval_nat_numeral)

end
