(* ===== verification/Net_State.thy ===== *)
theory Net_State
  imports Hashtable Wire
begin

text \<open>
  The state of the network stack of g-os, after the declarations of
  \<^verbatim>\<open>src/include/network/\<close>, \<^verbatim>\<open>src/include/timer.h\<close> and the process fields the stack uses
  (\<^verbatim>\<open>src/include/scheduler/process.h\<close>), and the primitive operations on it.

  Objects reached through several pointers (connections, sockets, UDP descriptors) live in
  stores indexed by a pointer, with \<open>0\<close> for \<^verbatim>\<open>NULL\<close>; a pointer that is not in its store is
  dangling and using it is \<open>None\<close>. Packet buffers, whose ownership is handed from layer to
  layer, are values, and \<open>sckts\<close> counts the buffers allocated and not yet freed. Fresh memory
  has arbitrary contents, given by \<open>heap_junk\<close>. Pointers into a packet are offsets into its
  bytes; a header pointer that was never set is \<open>None\<close>.

  A process that sleeps lets the rest of the system run: every operation that may sleep takes
  a function \<open>ev\<close> from the state before to the state after the sleep as its first argument.
  Processes are named by numbers, \<open>0\<close> for \<^verbatim>\<open>NULL\<close>.
\<close>

section \<open>Constants\<close>

definition MTU_IP4 :: nat where "MTU_IP4 = 65536"
definition MTU_ETH :: nat where "MTU_ETH = 1518"
definition MTU_ARP :: nat where "MTU_ARP = 60"
definition HEADER_IP4 :: nat where "HEADER_IP4 = 20"
definition HEADER_ETH :: nat where "HEADER_ETH = 14"
definition HEADER_UDP :: nat where "HEADER_UDP = 8"
definition HEADER_TCP :: nat where "HEADER_TCP = 20"
definition HEADER_ICMP :: nat where "HEADER_ICMP = 4"
definition SOCKET_BUFFER_SIZE :: nat where "SOCKET_BUFFER_SIZE = 2000"
definition LOCAL_IP :: u32 where "LOCAL_IP = 0xC0A80541"
definition LOCAL_NETMASK :: u32 where "LOCAL_NETMASK = 0xFFFFFF00"
definition DEFAULT_GW_IP :: u32 where "DEFAULT_GW_IP = 0xC0A80501"
definition NETWORK_PROTOCOL_TYPE :: u16 where "NETWORK_PROTOCOL_TYPE = 0x800"
definition ARP_PROTOCOL_TYPE :: u16 where "ARP_PROTOCOL_TYPE = 0x806"
definition TCP_PROTOCOL :: u8 where "TCP_PROTOCOL = 0x6"
definition UDP_PROTOCOL :: u8 where "UDP_PROTOCOL = 0x11"
definition ICMP_PROTOCOL :: u8 where "ICMP_PROTOCOL = 0x1"
definition ARP_ATTEMPT :: nat where "ARP_ATTEMPT = 3"
definition SMSS :: nat where "SMSS = 1454"
definition TCP_RCV_SIZE :: nat where "TCP_RCV_SIZE = 32768"
definition TCP_SND_SIZE :: nat where "TCP_SND_SIZE = 16384 * 256"
definition WND_ADV :: nat where "WND_ADV = 2048"
definition PIGGYBACKING_TIMEOUT :: nat where "PIGGYBACKING_TIMEOUT = 4"
definition RTO_UBOUND :: nat where "RTO_UBOUND = 6000"
definition RTO_LBOUND :: nat where "RTO_LBOUND = 100"
definition DEFAULT_RTO :: nat where "DEFAULT_RTO = 100"

lemmas net_consts = MTU_IP4_def MTU_ETH_def MTU_ARP_def HEADER_IP4_def HEADER_ETH_def
  HEADER_UDP_def HEADER_TCP_def HEADER_ICMP_def SOCKET_BUFFER_SIZE_def LOCAL_IP_def
  LOCAL_NETMASK_def DEFAULT_GW_IP_def NETWORK_PROTOCOL_TYPE_def ARP_PROTOCOL_TYPE_def
  TCP_PROTOCOL_def UDP_PROTOCOL_def ICMP_PROTOCOL_def ARP_ATTEMPT_def SMSS_def TCP_RCV_SIZE_def
  TCP_SND_SIZE_def WND_ADV_def PIGGYBACKING_TIMEOUT_def RTO_UBOUND_def RTO_LBOUND_def DEFAULT_RTO_def

section \<open>Packets and queues of packets\<close>

record mac_addr =
  mac_lo :: u16
  mac_mi :: u16
  mac_hi :: u16

record data_sckt_buf =
  transport_hdr :: "nat option"
  network_hdr :: "nat option"
  mac_hdr :: "nat option"
  data :: "u8 list"
  data_len :: u16

record sckt_buf_desc =
  sk_buf :: "data_sckt_buf list"
  sk_buf_size :: nat
  buf_index :: nat

section \<open>TCP\<close>

datatype tcp_status = SYN_SENT | SYN_RCVD | ESTABILISHED | FIN_WAIT_1 | CLOSE_WAIT | FIN_WAIT_2
  | LAST_ACK | TIME_WAIT | CLOSED | FIN_WAIT_1_PENDING | LAST_ACK_PENDING | RESET

text \<open>A timer is linked into \<^verbatim>\<open>system.timer_list\<close> exactly when its \<open>ref\<close> is not null.\<close>

record timer =
  val :: u32
  ref :: bool

datatype timer_id = Rtrsn nat | Pgybg nat

record tcp_snd_queue =
  sq_buf :: "nat \<Rightarrow> u8"
  sq_buf_size :: u32
  cur :: u32
  sq_wnd_min :: u32
  sq_wnd_size :: u32
  nxt_snd :: u32
  pnd_data :: u32

record tcp_rcv_queue =
  rq_buf :: "nat \<Rightarrow> u8"
  rq_buf_size :: u32
  rq_wnd_min :: u32
  rq_wnd_size :: u32
  nxt_rcv :: u32
  buf_state :: "nat \<Rightarrow> bool"
  rq_seq_num :: u32
  rq_data_len :: u32
  last_adv_wnd :: u32
  is_wnd_hole :: bool
  max_seq_num :: u32

text \<open>
  The values of \<open>duplicate_key_map\<close> are the pointers \<open>zero_const\<close> and \<open>one_const\<close>, here the
  booleans they point to.
\<close>

record tcp_conn_map =
  conn_map :: "nat hashtable"
  duplicate_key_map :: "bool hashtable"
  duplicate_conn_list :: "nat list"

record tcp_conn_desc =
  duplicated_ack :: u32
  rto :: u32
  srtt :: u32
  rtrsn_timer :: timer
  pgybg_timer :: timer
  cwnd :: u32
  ssthresh :: u32
  rcv_wmd_adv :: u32
  max_adv_wnd :: u32
  rcv_queue :: tcp_rcv_queue
  snd_queue :: tcp_snd_queue
  src_ip :: u32
  dst_ip :: u32
  src_port :: u16
  dst_port :: u16
  status :: tcp_status
  back_log_i_map :: tcp_conn_map
  back_log_c_queue :: "nat list"
  process_context :: nat
  ref_count :: u32
  last_sent_time :: u32
  flight_size :: u32
  pending_ack :: u8
  isActive :: bool

record tcp_desc =
  tcp_conns_map :: tcp_conn_map
  req_map :: tcp_conn_map
  listen_map :: tcp_conn_map
  tcp_ep_port_index :: u32
  tcp_ep_port_map :: "unit hashtable"

section \<open>UDP, ICMP, sockets and processes\<close>

record udp_desc =
  udp_ep_port_index :: u32
  udp_ep_port_map :: "unit hashtable"
  udp_conn_map :: "nat hashtable"

record udp_conn_desc =
  u_src_port :: u16
  u_dst_port :: u16
  u_dst_ip :: u32
  u_src_ip :: u32
  u_rx_queue :: "data_sckt_buf list"

record socket =
  sk_process_context :: nat
  sk_udp_conn_desc :: nat
  sk_tcp_conn_desc :: nat
  sk_type :: u32
  sd :: u32

record proc =
  socket_desc :: "nat hashtable"
  next_sd :: u32
  sig_num :: u8
  icmp_pending_req :: u32

section \<open>The stack\<close>

text \<open>
  \<open>wire\<close> lists the frames handed to the adapter (\<open>send_packet_i8254x\<close>), read at the moment
  they are handed over; \<open>awakened\<close> lists the processes passed to \<open>_awake\<close>. \<open>fp_srtt\<close> is the
  result of the floating-point expression of \<open>rcv_ack\<close> for the smoothed round trip, which
  depends on the precision of the machine.
\<close>

record net =
  rx_queue :: sckt_buf_desc
  tx_queue :: sckt_buf_desc
  dev_mac :: mac_addr
  ip :: u32
  netmask :: u32
  default_gw_ip :: u32
  tcp_desc_of :: tcp_desc
  udp_desc_of :: udp_desc
  icmp_req_map :: "nat hashtable"
  arp_cache :: "mac_addr hashtable"
  ipv4_id :: u16
  conns :: "nat \<Rightarrow> tcp_conn_desc option"
  udp_conns :: "nat \<Rightarrow> udp_conn_desc option"
  sockets :: "nat \<Rightarrow> socket option"
  procs :: "nat \<Rightarrow> proc option"
  timer_list :: "timer_id list"
  next_ptr :: nat
  cur_proc :: nat
  time :: u32
  flush_network :: bool
  net_panics :: nat
  awakened :: "nat list"
  wire :: "u8 list list"
  sckts :: int
  allocs :: nat
  heap_junk :: "nat \<Rightarrow> nat \<Rightarrow> u8"
  fp_srtt :: "u32 \<Rightarrow> u32 \<Rightarrow> u32"

section \<open>Bytes of a packet\<close>

definition rd :: "u8 list \<Rightarrow> nat \<Rightarrow> u8 option" where
  "rd bs i = (if i < length bs then Some (bs ! i) else None)"

definition rd_bytes :: "u8 list \<Rightarrow> nat \<Rightarrow> nat \<Rightarrow> u8 list option" where
  "rd_bytes bs i n = (if i + n \<le> length bs then Some (take n (drop i bs)) else None)"

definition wr_bytes :: "u8 list \<Rightarrow> nat \<Rightarrow> u8 list \<Rightarrow> u8 list option" where
  "wr_bytes bs i vs =
     (if i + length vs \<le> length bs then Some (take i bs @ vs @ drop (i + length vs) bs) else None)"

definition mac_bytes :: "mac_addr \<Rightarrow> u8 list" where
  "mac_bytes m = [HI_16 (mac_hi m), LOW_16 (mac_hi m), HI_16 (mac_mi m), LOW_16 (mac_mi m),
                  HI_16 (mac_lo m), LOW_16 (mac_lo m)]"

definition word_bytes :: "u16 \<Rightarrow> u8 list" where
  "word_bytes w = [HI_16 w, LOW_16 w]"

definition dword_bytes :: "u32 \<Rightarrow> u8 list" where
  "dword_bytes d = [HI_OCT_32 d, MID_LFT_OCT_32 d, MID_RGT_OCT_32 d, LOW_OCT_32 d]"

definition rd_word :: "u8 list \<Rightarrow> nat \<Rightarrow> u16 option" where
  "rd_word bs i = do { a \<leftarrow> rd bs i; b \<leftarrow> rd bs (i + 1); Some (GET_WORD a b) }"

definition rd_dword :: "u8 list \<Rightarrow> nat \<Rightarrow> u32 option" where
  "rd_dword bs i = do { a \<leftarrow> rd bs i; b \<leftarrow> rd bs (i + 1); c \<leftarrow> rd bs (i + 2); d \<leftarrow> rd bs (i + 3);
                        Some (GET_DWORD a b c d) }"

definition rd_mac :: "u8 list \<Rightarrow> nat \<Rightarrow> mac_addr option" where
  "rd_mac bs i = do { h \<leftarrow> rd_word bs i; m \<leftarrow> rd_word bs (i + 2); l \<leftarrow> rd_word bs (i + 4);
                      Some \<lparr>mac_lo = l, mac_mi = m, mac_hi = h\<rparr> }"

section \<open>Socket buffers\<close>

definition sckt_buf_desc_init :: sckt_buf_desc where
  "sckt_buf_desc_init = \<lparr>sk_buf = [], sk_buf_size = SOCKET_BUFFER_SIZE, buf_index = 0\<rparr>"

definition sckt_buf_desc_free :: "sckt_buf_desc \<Rightarrow> net \<Rightarrow> net" where
  "sckt_buf_desc_free q s = s\<lparr>sckts := sckts s - int (length (sk_buf q))\<rparr>"

definition enqueue_sckt :: "sckt_buf_desc \<Rightarrow> data_sckt_buf \<Rightarrow> sckt_buf_desc" where
  "enqueue_sckt q b =
     (if buf_index q + 1 \<le> sk_buf_size q
      then q\<lparr>sk_buf := sk_buf q @ [b], buf_index := buf_index q + 1\<rparr> else q)"

text \<open>The pointer-level \<open>dequeue\<close> of an empty list answers null.\<close>

definition dequeue_sckt :: "sckt_buf_desc \<Rightarrow> data_sckt_buf option \<times> sckt_buf_desc" where
  "dequeue_sckt q =
     (if buf_index q > 0
      then (case sk_buf q of
              [] \<Rightarrow> (None, q\<lparr>buf_index := buf_index q - 1\<rparr>)
            | b # bs \<Rightarrow> (Some b, q\<lparr>sk_buf := bs, buf_index := buf_index q - 1\<rparr>))
      else (None, q))"

definition alloc_sckt :: "u16 \<Rightarrow> net \<Rightarrow> data_sckt_buf \<times> net" where
  "alloc_sckt len s =
     (\<lparr>transport_hdr = None, network_hdr = None, mac_hdr = None,
       data = map (heap_junk s (allocs s)) [0 ..< unat len], data_len = len\<rparr>,
      s\<lparr>allocs := allocs s + 1, sckts := sckts s + 1\<rparr>)"

definition alloc_void_sckt :: "net \<Rightarrow> data_sckt_buf \<times> net" where
  "alloc_void_sckt s =
     (\<lparr>transport_hdr = None, network_hdr = None, mac_hdr = None, data = [], data_len = 0\<rparr>,
      s\<lparr>sckts := sckts s + 1\<rparr>)"

definition free_sckt :: "net \<Rightarrow> net" where
  "free_sckt s = s\<lparr>sckts := sckts s - 1\<rparr>"

section \<open>The driver and the scheduler, as the stack sees them\<close>

definition send_packet_i8254x :: "u8 list \<Rightarrow> net \<Rightarrow> net" where
  "send_packet_i8254x frame s = s\<lparr>wire := wire s @ [frame]\<rparr>"

text \<open>
  One received frame of \<open>int_handler_i8254x\<close>: \<open>contents\<close> is the receive buffer of the ring
  slot, of which the adapter filled the first \<open>frame_len\<close> bytes.
\<close>

definition rcv_frame_i8254x :: "u8 list \<Rightarrow> u16 \<Rightarrow> net \<Rightarrow> net" where
  "rcv_frame_i8254x contents frame_len s =
     (let (b, s) = alloc_void_sckt s;
          b = b\<lparr>mac_hdr := Some 0, data := contents, data_len := frame_len\<rparr>
      in s\<lparr>rx_queue := enqueue_sckt (rx_queue s) b, flush_network := True\<rparr>)"

definition awake :: "nat \<Rightarrow> net \<Rightarrow> net option" where
  "awake p s = (if p = 0 then None else Some (s\<lparr>awakened := awakened s @ [p]\<rparr>))"

definition net_panic :: "net \<Rightarrow> net" where
  "net_panic s = s\<lparr>net_panics := net_panics s + 1\<rparr>"

section \<open>Stores\<close>

definition upd_conn :: "nat \<Rightarrow> (tcp_conn_desc \<Rightarrow> tcp_conn_desc) \<Rightarrow> net \<Rightarrow> net option" where
  "upd_conn c f s = do { d \<leftarrow> conns s c; Some (s\<lparr>conns := (conns s)(c \<mapsto> f d)\<rparr>) }"

definition upd_socket :: "nat \<Rightarrow> (socket \<Rightarrow> socket) \<Rightarrow> net \<Rightarrow> net option" where
  "upd_socket k f s = do { d \<leftarrow> sockets s k; Some (s\<lparr>sockets := (sockets s)(k \<mapsto> f d)\<rparr>) }"

definition upd_udp :: "nat \<Rightarrow> (udp_conn_desc \<Rightarrow> udp_conn_desc) \<Rightarrow> net \<Rightarrow> net option" where
  "upd_udp k f s = do { d \<leftarrow> udp_conns s k; Some (s\<lparr>udp_conns := (udp_conns s)(k \<mapsto> f d)\<rparr>) }"

definition upd_proc :: "nat \<Rightarrow> (proc \<Rightarrow> proc) \<Rightarrow> net \<Rightarrow> net option" where
  "upd_proc k f s = do { d \<leftarrow> procs s k; Some (s\<lparr>procs := (procs s)(k \<mapsto> f d)\<rparr>) }"

section \<open>Bytes: read what was written\<close>

lemma length_wr_bytes: "wr_bytes bs i vs = Some bs' \<Longrightarrow> length bs' = length bs"
  by (auto simp: wr_bytes_def split: if_splits)

lemma wr_bytes_Some: "i + length vs \<le> length bs \<Longrightarrow> \<exists>bs'. wr_bytes bs i vs = Some bs'"
  by (simp add: wr_bytes_def)

lemma nth_wr_bytes:
  assumes "wr_bytes bs i vs = Some bs'" and "k < length bs"
  shows "bs' ! k = (if i \<le> k \<and> k < i + length vs then vs ! (k - i) else bs ! k)"
  using assms by (auto simp: wr_bytes_def nth_append min_def split: if_splits)

lemma rd_bytes_wr_same: "wr_bytes bs i vs = Some bs' \<Longrightarrow> rd_bytes bs' i (length vs) = Some vs"
  by (auto simp: wr_bytes_def rd_bytes_def split: if_splits)

lemma rd_wr_bytes:
  assumes "wr_bytes bs i vs = Some bs'"
  shows "rd bs' k = (if i \<le> k \<and> k < i + length vs then Some (vs ! (k - i)) else rd bs k)"
  using assms nth_wr_bytes [OF assms, of k] length_wr_bytes [OF assms]
  by (auto simp: rd_def wr_bytes_def split: if_splits)

lemma length_fields [simp]:
  "length (mac_bytes m) = 6" "length (word_bytes w) = 2" "length (dword_bytes d) = 4"
  by (simp_all add: mac_bytes_def word_bytes_def dword_bytes_def)

lemma get_word_bytes: "GET_WORD (word_bytes w ! 0) (word_bytes w ! 1) = w"
  by (simp add: word_bytes_def get_word_split)

section \<open>A stack with empty tables\<close>

definition empty_conn_map :: tcp_conn_map where
  "empty_conn_map = \<lparr>conn_map = hashtable_init 20, duplicate_key_map = hashtable_init 5, duplicate_conn_list = []\<rparr>"

definition empty_net :: net where
  "empty_net = \<lparr>rx_queue = sckt_buf_desc_init, tx_queue = sckt_buf_desc_init,
     dev_mac = \<lparr>mac_lo = 0x3456, mac_mi = 0x5412, mac_hi = 0x5254\<rparr>,
     ip = LOCAL_IP, netmask = LOCAL_NETMASK, default_gw_ip = DEFAULT_GW_IP,
     tcp_desc_of = \<lparr>tcp_conns_map = empty_conn_map, req_map = empty_conn_map, listen_map = empty_conn_map,
       tcp_ep_port_index = 32767, tcp_ep_port_map = hashtable_init 20\<rparr>,
     udp_desc_of = \<lparr>udp_ep_port_index = 32767, udp_ep_port_map = hashtable_init 20, udp_conn_map = hashtable_init 20\<rparr>,
     icmp_req_map = hashtable_init 20, arp_cache = hashtable_init 10, ipv4_id = 0,
     conns = Map.empty, udp_conns = Map.empty, sockets = Map.empty, procs = Map.empty, timer_list = [],
     next_ptr = 1, cur_proc = 1, time = 0, flush_network = False, net_panics = 0, awakened = [], wire = [],
     sckts = 0, allocs = 0, heap_junk = (\<lambda>_ _. 0), fp_srtt = (\<lambda>a _. a)\<rparr>"

end
