(* ===== verification/Net.thy ===== *)
theory Net
  imports Net_State
begin

text \<open>
  Ethernet, ARP, IPv4 sending, ICMP and UDP: \<^verbatim>\<open>src/network/mac.c\<close> (sending), \<^verbatim>\<open>arp.c\<close>, \<^verbatim>\<open>ip4.c\<close>
  (sending), \<^verbatim>\<open>icmp.c\<close> and \<^verbatim>\<open>udp.c\<close>. The receiving side of \<^verbatim>\<open>mac.c\<close> and \<^verbatim>\<open>ip4.c\<close>, which dispatches
  to all transports, is in theory \<open>Socket\<close>.
\<close>

section \<open>mac.c\<close>

definition put_packet_mac :: "data_sckt_buf \<Rightarrow> mac_addr \<Rightarrow> mac_addr \<Rightarrow> net \<Rightarrow> net option" where
  "put_packet_mac b src_mac dst_mac s =
     do { m \<leftarrow> mac_hdr b;
          bs \<leftarrow> wr_bytes (data b) m
                 (mac_bytes dst_mac @ mac_bytes src_mac @ word_bytes NETWORK_PROTOCOL_TYPE);
          Some (s\<lparr>tx_queue := enqueue_sckt (tx_queue s) (b\<lparr>data := bs\<rparr>)\<rparr>) }"

section \<open>arp.c\<close>

definition arp_init :: "net \<Rightarrow> net" where
  "arp_init s = s\<lparr>arp_cache := hashtable_init 10\<rparr>"

definition arp_frame :: "mac_addr \<Rightarrow> mac_addr \<Rightarrow> u32 \<Rightarrow> u32 \<Rightarrow> u8 \<Rightarrow> u8 list" where
  "arp_frame src_mac dst_mac sip dip op_type =
     mac_bytes dst_mac @ mac_bytes src_mac
     @ [0x8, 0x6, 0x0, 0x1, 0x8, 0x0, 0x6, 0x4, 0x0, op_type]
     @ mac_bytes src_mac @ dword_bytes sip @ mac_bytes dst_mac @ dword_bytes dip @ replicate 18 0"

definition send_packet_arp :: "mac_addr \<Rightarrow> mac_addr \<Rightarrow> u32 \<Rightarrow> u32 \<Rightarrow> u8 \<Rightarrow> net \<Rightarrow> net" where
  "send_packet_arp src_mac dst_mac sip dip op_type s =
     send_packet_i8254x (arp_frame src_mac dst_mac sip dip op_type) s"

fun arp_attempts :: "(net \<Rightarrow> net) \<Rightarrow> nat \<Rightarrow> mac_addr \<Rightarrow> u32 \<Rightarrow> u32 \<Rightarrow> net \<Rightarrow> mac_addr option \<times> net" where
  "arp_attempts ev 0 src_mac sip dip s = (None, s)"
| "arp_attempts ev (Suc n) src_mac sip dip s =
     (let s = send_packet_arp src_mac \<lparr>mac_lo = 0xFFFF, mac_mi = 0xFFFF, mac_hi = 0xFFFF\<rparr> sip dip 1 s;
          s = ev (s\<lparr>flush_network := True\<rparr>)
      in case hashtable_get (arp_cache s) (unat dip) of
           Some m \<Rightarrow> (Some m, s)
         | None \<Rightarrow> arp_attempts ev n src_mac sip dip s)"

definition lookup_mac :: "(net \<Rightarrow> net) \<Rightarrow> u32 \<Rightarrow> net \<Rightarrow> mac_addr option \<times> net" where
  "lookup_mac ev dip s =
     (case hashtable_get (arp_cache s) (unat dip) of
        Some m \<Rightarrow> (Some m, s)
      | None \<Rightarrow> arp_attempts ev ARP_ATTEMPT (dev_mac s) (ip s) dip s)"

definition rcv_packet_arp :: "data_sckt_buf \<Rightarrow> net \<Rightarrow> net option" where
  "rcv_packet_arp b s =
     do { m \<leftarrow> mac_hdr b;
          optype \<leftarrow> rd (data b) (m + 21);
          dip \<leftarrow> rd_dword (data b) (m + 38);
          sip \<leftarrow> rd_dword (data b) (m + 28);
          dmac \<leftarrow> rd_mac (data b) (m + 32);
          smac \<leftarrow> rd_mac (data b) (m + 22);
          s \<leftarrow> (if optype = 1
                then if dip = ip s then Some (send_packet_arp (dev_mac s) smac dip sip 2 s) else Some s
                else if optype = 2
                then (case hashtable_get (arp_cache s) (unat sip) of
                        Some _ \<Rightarrow> Some s
                      | None \<Rightarrow> do { h \<leftarrow> hashtable_put (arp_cache s) (unat sip) smac;
                                      Some (s\<lparr>arp_cache := h\<rparr>) })
                else Some s);
          Some (free_sckt s) }"

section \<open>ip4.c, sending\<close>

definition ip_header :: "u16 \<Rightarrow> u16 \<Rightarrow> u8 \<Rightarrow> u32 \<Rightarrow> u32 \<Rightarrow> u8 list" where
  "ip_header packet_len ident protocol sip dip =
     [64 + 5, 0] @ word_bytes packet_len @ [HI_16 ident, LOW_16 (ident + 1)] @ [0, 0]
     @ [64, protocol] @ [0, 0] @ dword_bytes sip @ dword_bytes dip"

text \<open>
  The result is the \<^verbatim>\<open>int\<close> of the function, \<open>None\<close> where it returns without a value. A packet
  too long for a frame is dropped, since the fragmentation is not written.
\<close>

definition send_packet_ip4 ::
  "(net \<Rightarrow> net) \<Rightarrow> data_sckt_buf \<Rightarrow> u32 \<Rightarrow> u32 \<Rightarrow> u16 \<Rightarrow> u8 \<Rightarrow> net \<Rightarrow> (int option \<times> net) option" where
  "send_packet_ip4 ev b sip dip len protocol s =
     (if unat len + HEADER_IP4 > MTU_IP4 then Some (Some (- 1), s)
      else let packet_len = of_nat (unat len + HEADER_IP4) :: u16 in
      if unat packet_len \<le> MTU_ETH
      then do {
        n \<leftarrow> network_hdr b;
        m \<leftarrow> (if HEADER_ETH \<le> n then Some (n - HEADER_ETH) else None);
        bs \<leftarrow> wr_bytes (data b) n (ip_header packet_len (ipv4_id s) protocol sip dip);
        let s = s\<lparr>ipv4_id := ipv4_id s + 2\<rparr>;
        hdr \<leftarrow> rd_bytes bs n HEADER_IP4;
        c \<leftarrow> checksum hdr HEADER_IP4;
        let chksum_val = SWAP_WORD c;
        bs \<leftarrow> wr_bytes bs (n + 10) [HI_16 chksum_val, LOW_16 chksum_val];
        let b = b\<lparr>mac_hdr := Some m, data := bs\<rparr>;
        let (dst_mac, s) = lookup_mac ev
              (if dip AND LOCAL_NETMASK \<noteq> ip s AND LOCAL_NETMASK then default_gw_ip s else dip) s;
        case dst_mac of
          None \<Rightarrow> Some (Some 0, s)
        | Some dm \<Rightarrow> do { s \<leftarrow> put_packet_mac b (dev_mac s) dm s; Some (None, s) } }
      else Some (None, s))"

section \<open>icmp.c\<close>

definition icmp_init :: "nat hashtable" where
  "icmp_init = hashtable_init 20"

definition icmp_key :: "u16 \<Rightarrow> u16 \<Rightarrow> u32" where
  "icmp_key msg_id seq = push_bit 16 (ucast msg_id) OR ucast seq"

text \<open>
  The reply is built in the received packet, which the caller frees afterwards, and copied
  into a buffer for \<open>60 + HEADER_ICMP\<close> bytes whatever its length.
\<close>

definition send_packet_icmp_reply ::
  "(net \<Rightarrow> net) \<Rightarrow> u32 \<Rightarrow> u32 \<Rightarrow> u8 list \<Rightarrow> nat \<Rightarrow> u16 \<Rightarrow> net \<Rightarrow> net option" where
  "send_packet_icmp_reply ev sip dip bs t packet_len s =
     do { let (b, s) = alloc_sckt (of_nat (60 + HEADER_ETH + HEADER_IP4 + HEADER_ICMP)) s;
          let th = HEADER_ETH + HEADER_IP4;
          bs \<leftarrow> wr_bytes bs t [0];
          bs \<leftarrow> wr_bytes bs (t + 2) [0, 0];
          pkt \<leftarrow> rd_bytes bs t (unat packet_len);
          c \<leftarrow> checksum pkt (unat packet_len);
          let chk = SWAP_WORD c;
          bs \<leftarrow> wr_bytes bs (t + 2) [HI_16 chk, LOW_16 chk];
          pkt \<leftarrow> rd_bytes bs t (unat packet_len);
          d \<leftarrow> wr_bytes (data b) th pkt;
          (_, s) \<leftarrow> send_packet_ip4 ev
             (b\<lparr>transport_hdr := Some th, network_hdr := Some (th - HEADER_IP4), data := d\<rparr>)
             sip dip packet_len ICMP_PROTOCOL s;
          Some s }"

definition send_packet_icmp_request ::
  "(net \<Rightarrow> net) \<Rightarrow> u32 \<Rightarrow> u32 \<Rightarrow> u16 \<Rightarrow> u16 \<Rightarrow> net \<Rightarrow> net option" where
  "send_packet_icmp_request ev sip dip msg_id seq s =
     do { let (b, s) = alloc_sckt (of_nat (60 + HEADER_ETH + HEADER_IP4 + HEADER_ICMP)) s;
          let th = HEADER_ETH + HEADER_IP4;
          bs \<leftarrow> wr_bytes (data b) (th + HEADER_ICMP) (word_bytes msg_id @ word_bytes seq @ replicate 52 0);
          bs \<leftarrow> wr_bytes bs th [8, 0, 0, 0];
          pkt \<leftarrow> rd_bytes bs th 64;
          c \<leftarrow> checksum pkt 64;
          let chk = SWAP_WORD c;
          bs \<leftarrow> wr_bytes bs (th + 2) [HI_16 chk, LOW_16 chk];
          (_, s) \<leftarrow> send_packet_ip4 ev
             (b\<lparr>transport_hdr := Some th, network_hdr := Some (th - HEADER_IP4), data := bs\<rparr>)
             sip dip (of_nat (HEADER_ICMP + 60)) ICMP_PROTOCOL s;
          Some s }"

definition icmp_echo_request ::
  "(net \<Rightarrow> net) \<Rightarrow> u32 \<Rightarrow> u16 \<Rightarrow> u16 \<Rightarrow> net \<Rightarrow> (u32 \<times> net) option" where
  "icmp_echo_request ev dip msg_id seq s =
     do { let key = icmp_key msg_id seq;
          h \<leftarrow> hashtable_put (icmp_req_map s) (unat key) (cur_proc s);
          let s = s\<lparr>icmp_req_map := h\<rparr>;
          s \<leftarrow> upd_proc (cur_proc s) (icmp_pending_req_update (\<lambda>_. key)) s;
          let t1 = time s;
          s \<leftarrow> send_packet_icmp_request ev (ip s) dip msg_id seq s;
          let s = ev s;
          Some (time s - t1, s) }"

definition rcv_packet_icmp ::
  "(net \<Rightarrow> net) \<Rightarrow> data_sckt_buf \<Rightarrow> u32 \<Rightarrow> u32 \<Rightarrow> u16 \<Rightarrow> net \<Rightarrow> net option" where
  "rcv_packet_icmp ev b sip dip len s =
     do { t \<leftarrow> transport_hdr b;
          let packet_len = (of_nat (HEADER_ICMP + unat len) :: u16);
          pkt \<leftarrow> rd_bytes (data b) t (unat packet_len);
          c \<leftarrow> checksum pkt (unat packet_len);
          if c \<noteq> 0 then Some s
          else do {
            ty \<leftarrow> rd (data b) t;
            if ty = 0
            then do {
              msg_id \<leftarrow> rd_word (data b) (t + 4);
              seq \<leftarrow> rd_word (data b) (t + 6);
              (p, h) \<leftarrow> hashtable_remove (icmp_req_map s) (unat (icmp_key msg_id seq));
              let s = s\<lparr>icmp_req_map := h\<rparr>;
              case p of
                None \<Rightarrow> Some s
              | Some q \<Rightarrow> do { s \<leftarrow> upd_proc q (icmp_pending_req_update (\<lambda>_. 0)) s; awake q s } }
            else if ty = 8 then send_packet_icmp_reply ev dip sip (data b) t packet_len s
            else Some s } }"

section \<open>udp.c\<close>

text \<open>
  The search for a free ephemeral port; \<open>free_port_search\<close> of \<^verbatim>\<open>tcp_socket.c\<close> is the same loop
  over the TCP descriptor. The result is the port, or \<open>0\<close>, with the new index and map.
\<close>

fun port_search :: "nat \<Rightarrow> u32 \<Rightarrow> unit hashtable \<Rightarrow> (u32 \<times> u32 \<times> unit hashtable) option" where
  "port_search 0 idx h = Some (0, idx, h)"
| "port_search (Suc n) idx h =
     (let idx = (if idx + 1 > 65535 then 32767 else idx + 1) in
      case hashtable_get h (unat idx) of
        None \<Rightarrow> do { h' \<leftarrow> hashtable_put h (unat idx) (); Some (idx, idx, h') }
      | Some _ \<Rightarrow> port_search n idx h)"

definition udp_free_port_search :: "net \<Rightarrow> (u32 \<times> net) option" where
  "udp_free_port_search s =
     do { let u = udp_desc_of s;
          (port, idx, h) \<leftarrow> port_search 32767 (udp_ep_port_index u) (udp_ep_port_map u);
          Some (port, s\<lparr>udp_desc_of := u\<lparr>udp_ep_port_index := idx, udp_ep_port_map := h\<rparr>\<rparr>) }"

definition udp_init :: udp_desc where
  "udp_init = \<lparr>udp_ep_port_index = 32767, udp_ep_port_map = hashtable_init 20,
               udp_conn_map = hashtable_init 20\<rparr>"

text \<open>The fields not set here are set by both callers before they are read.\<close>

definition udp_conn_desc_init :: "net \<Rightarrow> nat \<times> net" where
  "udp_conn_desc_init s =
     (next_ptr s,
      s\<lparr>udp_conns := (udp_conns s)(next_ptr s \<mapsto>
           \<lparr>u_src_port = 0, u_dst_port = 0, u_dst_ip = 0, u_src_ip = 0, u_rx_queue = []\<rparr>),
        next_ptr := next_ptr s + 1\<rparr>)"

definition udp_conn_desc_free :: "nat \<Rightarrow> net \<Rightarrow> net option" where
  "udp_conn_desc_free u s =
     do { d \<leftarrow> udp_conns s u;
          (_, h) \<leftarrow> hashtable_remove (udp_ep_port_map (udp_desc_of s)) (unat (u_src_port d));
          Some (s\<lparr>udp_desc_of := (udp_desc_of s)\<lparr>udp_ep_port_map := h\<rparr>,
                  sckts := sckts s - int (length (u_rx_queue d)),
                  udp_conns := (udp_conns s)(u := None)\<rparr>) }"

definition bind_udp :: "nat \<Rightarrow> u32 \<Rightarrow> u32 \<Rightarrow> u16 \<Rightarrow> u16 \<Rightarrow> net \<Rightarrow> net option" where
  "bind_udp u sip dip sport dport s =
     upd_udp u (\<lambda>d. d\<lparr>u_src_ip := sip, u_src_port := sport, u_dst_ip := 0, u_dst_port := 0\<rparr>) s"

definition checksum_udp :: "u8 list \<Rightarrow> nat \<Rightarrow> u32 \<Rightarrow> u32 \<Rightarrow> u16 \<Rightarrow> u16 option" where
  "checksum_udp bs t sip dip len =
     do { h4 \<leftarrow> rd bs (t + 4);
          h5 \<leftarrow> rd bs (t + 5);
          let header_virt = dword_bytes sip @ dword_bytes dip @ [0, UDP_PROTOCOL, h4, h5];
          let packet_len = unat (of_nat (HEADER_UDP + unat len) :: u16);
          pkt \<leftarrow> rd_bytes bs t packet_len;
          checksum_pair header_virt pkt packet_len }"

definition udp_header :: "u16 \<Rightarrow> u16 \<Rightarrow> u16 \<Rightarrow> u8 list" where
  "udp_header sport dport len =
     word_bytes sport @ word_bytes dport @ word_bytes (of_nat (HEADER_UDP + unat len)) @ [0, 0]"

text \<open>\<open>payload\<close> is the caller's memory from \<^verbatim>\<open>data\<close> on.\<close>

definition send_packet_udp ::
  "(net \<Rightarrow> net) \<Rightarrow> u32 \<Rightarrow> u32 \<Rightarrow> u16 \<Rightarrow> u16 \<Rightarrow> u8 list \<Rightarrow> u16 \<Rightarrow> net \<Rightarrow> (nat \<times> net) option" where
  "send_packet_udp ev sip dip sport dport payload len s =
     do { let (b, s) = alloc_sckt (of_nat (unat len + HEADER_ETH + HEADER_IP4 + HEADER_UDP)) s;
          let th = HEADER_ETH + HEADER_IP4;
          pl \<leftarrow> rd_bytes payload 0 (unat len);
          bs \<leftarrow> wr_bytes (data b) (th + HEADER_UDP) pl;
          if unat len \<le> 0xFFFF - HEADER_UDP
          then do {
            bs \<leftarrow> wr_bytes bs th (udp_header sport dport len);
            c \<leftarrow> checksum_udp bs th sip dip len;
            let chk = SWAP_WORD c;
            bs \<leftarrow> wr_bytes bs (th + 6) [HI_16 chk, LOW_16 chk];
            (_, s) \<leftarrow> send_packet_ip4 ev
               (b\<lparr>transport_hdr := Some th, network_hdr := Some (th - HEADER_IP4), data := bs\<rparr>)
               sip dip (of_nat (HEADER_UDP + unat len)) UDP_PROTOCOL s;
            Some (unat len, s) }
          else Some (0, s) }"

definition rcv_packet_udp :: "data_sckt_buf \<Rightarrow> u32 \<Rightarrow> u32 \<Rightarrow> u16 \<Rightarrow> net \<Rightarrow> net option" where
  "rcv_packet_udp b sip dip len s =
     do { t \<leftarrow> transport_hdr b;
          dport \<leftarrow> rd_word (data b) (t + 2);
          c \<leftarrow> checksum_udp (data b) t sip dip len;
          if c = 0
          then (case hashtable_get (udp_conn_map (udp_desc_of s)) (unat dport) of
                  Some k \<Rightarrow> do {
                    sk \<leftarrow> sockets s k;
                    s \<leftarrow> upd_udp (sk_udp_conn_desc sk) (\<lambda>d. d\<lparr>u_rx_queue := u_rx_queue d @ [b]\<rparr>) s;
                    if sk_process_context sk \<noteq> 0
                    then do { s \<leftarrow> awake (sk_process_context sk) s;
                              upd_socket k (\<lambda>sk. sk\<lparr>sk_process_context := 0\<rparr>) s }
                    else Some s }
                | None \<Rightarrow> Some (free_sckt s))
          else Some (free_sckt s) }"

definition close_udp :: "nat \<Rightarrow> net \<Rightarrow> net option" where
  "close_udp k s =
     do { sk \<leftarrow> sockets s k;
          d \<leftarrow> udp_conns s (sk_udp_conn_desc sk);
          (_, h) \<leftarrow> hashtable_remove (udp_ep_port_map (udp_desc_of s)) (unat (u_src_ip d));
          (_, c) \<leftarrow> hashtable_remove (udp_conn_map (udp_desc_of s)) (unat (u_src_port d));
          udp_conn_desc_free (sk_udp_conn_desc sk)
            (s\<lparr>udp_desc_of := (udp_desc_of s)\<lparr>udp_ep_port_map := h, udp_conn_map := c\<rparr>\<rparr>) }"

text \<open>
  Reading a datagram. The result carries the bytes written to \<open>src_ip\<close>, \<open>src_port\<close> and
  \<^verbatim>\<open>data\<close>; the early return after an empty wakeup writes nothing.
\<close>

definition udp_dequeue :: "nat \<Rightarrow> net \<Rightarrow> (data_sckt_buf option \<times> net) option" where
  "udp_dequeue u s =
     do { d \<leftarrow> udp_conns s u;
          case u_rx_queue d of
            [] \<Rightarrow> Some (None, s)
          | b # bs \<Rightarrow> do { s \<leftarrow> upd_udp u (\<lambda>d. d\<lparr>u_rx_queue := bs\<rparr>) s; Some (Some b, s) } }"

definition udp_read ::
  "data_sckt_buf \<Rightarrow> u32 \<Rightarrow> net \<Rightarrow> ((int \<times> (u8 list \<times> u8 list \<times> u8 list)) \<times> net) option" where
  "udp_read b len s =
     do { t \<leftarrow> transport_hdr b;
          n \<leftarrow> network_hdr b;
          sport \<leftarrow> rd_word (data b) t;
          sip \<leftarrow> rd_dword (data b) (n + 12);
          w \<leftarrow> rd_word (data b) (t + 4);
          let read_data = (ucast w - of_nat HEADER_UDP :: u32);
          let read_data = (if read_data > len then len else read_data);
          pl \<leftarrow> rd_bytes (data b) (t + HEADER_UDP) (unat read_data);
          Some ((sint read_data, dword_bytes sip, word_bytes sport, pl), free_sckt s) }"

definition dequeue_packet_udp ::
  "(net \<Rightarrow> net) \<Rightarrow> nat \<Rightarrow> u32 \<Rightarrow> net \<Rightarrow> ((int \<times> (u8 list \<times> u8 list \<times> u8 list) option) \<times> net) option" where
  "dequeue_packet_udp ev sockfd len s =
     do { p \<leftarrow> procs s (cur_proc s);
          k \<leftarrow> hashtable_get (socket_desc p) sockfd;
          sk \<leftarrow> sockets s k;
          (b, s) \<leftarrow> udp_dequeue (sk_udp_conn_desc sk) s;
          (b, s) \<leftarrow> (case b of
              Some b \<Rightarrow> Some (Some b, s)
            | None \<Rightarrow> do { s \<leftarrow> upd_socket k (\<lambda>sk. sk\<lparr>sk_process_context := cur_proc s\<rparr>) s;
                            let s = ev s;
                            sk \<leftarrow> sockets s k;
                            udp_dequeue (sk_udp_conn_desc sk) s });
          case b of
            None \<Rightarrow> Some ((- 1, None), s)
          | Some b \<Rightarrow> do { ((r, out), s) \<leftarrow> udp_read b len s; Some ((r, Some out), s) } }"

section \<open>Bytes on the wire\<close>

lemma wr_bytes_append:
  "length xs = i \<Longrightarrow> length vs = length ys \<Longrightarrow> wr_bytes (xs @ ys @ zs) i vs = Some (xs @ vs @ zs)"
  by (simp add: wr_bytes_def)

lemma rd_bytes_append:
  "length xs = i \<Longrightarrow> length ys = n \<Longrightarrow> rd_bytes (xs @ ys @ zs) i n = Some ys"
  by (simp add: rd_bytes_def)

lemma rd_shift: "length xs \<le> i \<Longrightarrow> rd (xs @ ys) i = rd ys (i - length xs)"
  by (auto simp: rd_def nth_append)

lemma rd_Cons: "rd (x # xs) i = (if i = 0 then Some x else rd xs (i - 1))"
  by (cases i) (auto simp: rd_def)

lemma rd_left: "i < length xs \<Longrightarrow> rd (xs @ ys) i = rd xs i"
  by (simp add: rd_def nth_append)

lemma rd_word_bytes: "rd_word (word_bytes w @ zs) 0 = Some w"
  by (simp add: rd_word_def rd_Cons word_bytes_def get_word_split)

lemma rd_dword_bytes: "rd_dword (dword_bytes w @ zs) 0 = Some w"
  by (simp add: rd_dword_def rd_Cons dword_bytes_def get_dword_split)

lemma rd_mac_bytes: "rd_mac (mac_bytes m @ zs) 0 = Some m"
  by (simp add: rd_mac_def rd_word_def rd_Cons mac_bytes_def get_word_split)

lemma rd_word_shift: "length xs \<le> i \<Longrightarrow> rd_word (xs @ ys) i = rd_word ys (i - length xs)"
  by (simp add: rd_word_def rd_shift Suc_diff_le)

lemma rd_dword_shift: "length xs \<le> i \<Longrightarrow> rd_dword (xs @ ys) i = rd_dword ys (i - length xs)"
  by (simp add: rd_dword_def rd_shift Suc_diff_le)

lemma rd_mac_shift: "length xs \<le> i \<Longrightarrow> rd_mac (xs @ ys) i = rd_mac ys (i - length xs)"
  by (simp add: rd_mac_def rd_word_shift Suc_diff_le)

lemma rd_Cons_shift:
  "0 < i \<Longrightarrow> rd_word (x # xs) i = rd_word xs (i - 1)"
  "0 < i \<Longrightarrow> rd_dword (x # xs) i = rd_dword xs (i - 1)"
  "0 < i \<Longrightarrow> rd_mac (x # xs) i = rd_mac xs (i - 1)"
  using rd_word_shift [of "[x]" i xs] rd_dword_shift [of "[x]" i xs] rd_mac_shift [of "[x]" i xs] by simp_all

lemmas rd_simps = rd_word_bytes rd_dword_bytes rd_mac_bytes rd_word_shift rd_dword_shift rd_mac_shift
  rd_shift rd_Cons_shift rd_Cons

lemma length_arp_frame: "length (arp_frame sm dm sip dip op) = MTU_ARP"
  by (simp add: arp_frame_def net_consts)

lemma arp_frame_fields:
  "rd (arp_frame sm dm sip dip op @ pad) 21 = Some op"
  "rd_dword (arp_frame sm dm sip dip op @ pad) 38 = Some dip"
  "rd_dword (arp_frame sm dm sip dip op @ pad) 28 = Some sip"
  "rd_mac (arp_frame sm dm sip dip op @ pad) 32 = Some dm"
  "rd_mac (arp_frame sm dm sip dip op @ pad) 22 = Some sm"
  by (simp_all add: arp_frame_def rd_simps)

lemma arp_request_answered:
  assumes "mac_hdr req = Some 0" and "data req = arp_frame sm dm sip (ip b) 1 @ pad"
  shows "rcv_packet_arp req b =
    Some (b\<lparr>wire := wire b @ [arp_frame (dev_mac b) sm (ip b) sip 2], sckts := sckts b - 1\<rparr>)"
  using assms
  by (simp add: rcv_packet_arp_def arp_frame_fields send_packet_arp_def send_packet_i8254x_def free_sckt_def)

lemma arp_reply_cached:
  assumes "mac_hdr rsp = Some 0" and "data rsp = arp_frame sm dm sip dip 2 @ pad"
    and "hashtable_get (arp_cache a) (unat sip) = None" and "hashtable_put (arp_cache a) (unat sip) sm = Some h"
  shows "rcv_packet_arp rsp a = Some (a\<lparr>arp_cache := h, sckts := sckts a - 1\<rparr>)"
  using assms by (simp add: rcv_packet_arp_def arp_frame_fields free_sckt_def)

section \<open>What the sending side puts on the wire\<close>

definition eth_header :: "mac_addr \<Rightarrow> mac_addr \<Rightarrow> u8 list" where
  "eth_header dm sm = mac_bytes dm @ mac_bytes sm @ word_bytes NETWORK_PROTOCOL_TYPE"

definition ip_sealed :: "u16 \<Rightarrow> u16 \<Rightarrow> u8 \<Rightarrow> u32 \<Rightarrow> u32 \<Rightarrow> u8 list" where
  "ip_sealed packet_len ident protocol sip dip =
     (let h = ip_header packet_len ident protocol sip dip; c = the (checksum h 20)
      in h [10 := LOW_16 c, 11 := HI_16 c])"

definition next_hop :: "net \<Rightarrow> u32 \<Rightarrow> u32" where
  "next_hop s dip = (if dip AND LOCAL_NETMASK \<noteq> ip s AND LOCAL_NETMASK then default_gw_ip s else dip)"

lemma length_headers [simp]:
  "length (eth_header dm sm) = 14" "length (ip_header l i p sip dip) = 20" "length (ip_sealed l i p sip dip) = 20"
  by (simp_all add: eth_header_def ip_header_def ip_sealed_def Let_def)

lemma ip_sealed_checksum: "checksum (ip_sealed l i p sip dip) 20 = Some 0"
proof -
  let ?h = "ip_header l i p sip dip"
  obtain c where c: "checksum ?h 20 = Some c" using checksum_eq [of 20 ?h] by simp
  have "?h ! 10 = 0" "?h ! 11 = 0"
    by (simp_all add: ip_header_def word_bytes_def numeral_eq_Suc)
  then show ?thesis using checksum_store [of 10 ?h c] c by (simp add: ip_sealed_def)
qed

lemma ip_sealed_eq:
  "\<exists>a b. ip_sealed l i p sip dip = [64 + 5, 0] @ word_bytes l @ [HI_16 i, LOW_16 (i + 1)] @ [0, 0]
     @ [64, p] @ [a, b] @ dword_bytes sip @ dword_bytes dip"
  by (simp add: ip_sealed_def ip_header_def Let_def word_bytes_def numeral_eq_Suc)

lemma ip_sealed_fields:
  "rd_word (ip_sealed l i p sip dip @ zs) 2 = Some l"
  "rd (ip_sealed l i p sip dip @ zs) 9 = Some p"
  "rd_dword (ip_sealed l i p sip dip @ zs) 12 = Some sip"
  "rd_dword (ip_sealed l i p sip dip @ zs) 16 = Some dip"
proof -
  obtain a b where e: "ip_sealed l i p sip dip = [64 + 5, 0] @ word_bytes l @ [HI_16 i, LOW_16 (i + 1)] @ [0, 0]
     @ [64, p] @ [a, b] @ dword_bytes sip @ dword_bytes dip" using ip_sealed_eq by metis
  show "rd_word (ip_sealed l i p sip dip @ zs) 2 = Some l"
    and "rd (ip_sealed l i p sip dip @ zs) 9 = Some p"
    and "rd_dword (ip_sealed l i p sip dip @ zs) 12 = Some sip"
    and "rd_dword (ip_sealed l i p sip dip @ zs) 16 = Some dip"
    by (simp_all add: e rd_simps)
qed

lemma lookup_mac_hit: "hashtable_get (arp_cache s) (unat dip) = Some m \<Longrightarrow> lookup_mac ev dip s = (Some m, s)"
  by (simp add: lookup_mac_def)

lemma wr_bytes_two:
  assumes "Suc i < length h" and "length xs = n"
  shows "wr_bytes (xs @ h @ zs) (n + i) [a, b] = Some (xs @ h [i := a, Suc i := b] @ zs)"
proof -
  have eq: "xs @ h @ zs = (xs @ take i h) @ [h ! i, h ! Suc i] @ (drop (i + 2) h @ zs)"
    by (subst (1) split_two [OF assms(1)]) (simp only: append.assoc)
  have "wr_bytes ((xs @ take i h) @ [h ! i, h ! Suc i] @ (drop (i + 2) h @ zs)) (n + i) [a, b]
      = Some ((xs @ take i h) @ [a, b] @ (drop (i + 2) h @ zs))"
    using assms by (intro wr_bytes_append) simp_all
  then show ?thesis by (simp only: eq update_two [OF assms(1)] append.assoc)
qed

lemma send_ip4_spec:
  assumes b: "network_hdr b = Some 14" "data b = eth @ old @ rest" "length eth = 14" "length old = 20"
    and len: "unat len + 20 \<le> 1518"
    and hop: "hashtable_get (arp_cache s) (unat (next_hop s dip)) = Some dm"
  shows "send_packet_ip4 ev b sip dip len protocol s =
    Some (None, s\<lparr>ipv4_id := ipv4_id s + 2,
      tx_queue := enqueue_sckt (tx_queue s) (b\<lparr>mac_hdr := Some 0,
        data := eth_header dm (dev_mac s) @ ip_sealed (len + 20) (ipv4_id s) protocol sip dip @ rest\<rparr>)\<rparr>)"
proof -
  let ?h = "ip_header (len + 20) (ipv4_id s) protocol sip dip"
  let ?s = "s\<lparr>ipv4_id := ipv4_id s + 2\<rparr>"
  have pl: "of_nat (unat len + 20) = len + 20" by simp
  have ul: "unat (len + 20) \<le> 1518" using len by (simp add: unat_word_ariths)
  obtain c where c: "checksum ?h 20 = Some c" using checksum_eq [of 20 ?h] by simp
  have w1: "wr_bytes (eth @ old @ rest) 14 ?h = Some (eth @ ?h @ rest)"
    using b by (intro wr_bytes_append) simp_all
  have r: "rd_bytes (eth @ ?h @ rest) 14 20 = Some ?h" using b by (intro rd_bytes_append) simp_all
  have w2: "wr_bytes (eth @ ?h @ rest) 24 [HI_16 (SWAP_WORD c), LOW_16 (SWAP_WORD c)]
      = Some (eth @ ip_sealed (len + 20) (ipv4_id s) protocol sip dip @ rest)"
    using wr_bytes_two [of 10 ?h eth 14 rest] b c by (simp add: swap_bytes ip_sealed_def)
  have m: "lookup_mac ev (if dip AND LOCAL_NETMASK \<noteq> ip ?s AND LOCAL_NETMASK then default_gw_ip ?s else dip) ?s = (Some dm, ?s)"
    using hop by (intro lookup_mac_hit) (auto simp: next_hop_def)
  have w3: "wr_bytes (eth @ x) 0 (eth_header dm (dev_mac s)) = Some (eth_header dm (dev_mac s) @ x)" for x
    using wr_bytes_append [of "[]" 0 "eth_header dm (dev_mac s)" eth x] b by simp
  show ?thesis
    using len ul b w1 r c w2 m w3 [unfolded eth_header_def NETWORK_PROTOCOL_TYPE_def]
    by (simp add: send_packet_ip4_def put_packet_mac_def net_consts eth_header_def pl Let_def)
qed

section \<open>UDP datagrams on the wire\<close>

definition udp_pseudo :: "u32 \<Rightarrow> u32 \<Rightarrow> u16 \<Rightarrow> u8 list" where
  "udp_pseudo sip dip len = dword_bytes sip @ dword_bytes dip @ [0, UDP_PROTOCOL] @ word_bytes (len + 8)"

definition udp_sealed :: "u32 \<Rightarrow> u32 \<Rightarrow> u16 \<Rightarrow> u16 \<Rightarrow> u8 list \<Rightarrow> u8 list" where
  "udp_sealed sip dip sport dport pl =
     (let pkt = udp_header sport dport (of_nat (length pl)) @ pl;
          c = the (checksum_pair (udp_pseudo sip dip (of_nat (length pl))) pkt (length pkt))
      in pkt [6 := LOW_16 c, 7 := HI_16 c])"

definition udp_frame :: "mac_addr \<Rightarrow> mac_addr \<Rightarrow> u16 \<Rightarrow> u32 \<Rightarrow> u32 \<Rightarrow> u16 \<Rightarrow> u16 \<Rightarrow> u8 list \<Rightarrow> u8 list" where
  "udp_frame dm sm ident sip dip sport dport pl =
     eth_header dm sm @ ip_sealed (of_nat (length pl) + 28) ident UDP_PROTOCOL sip dip @ udp_sealed sip dip sport dport pl"

lemma length_udp [simp]:
  "length (udp_header sport dport len) = 8" "length (udp_pseudo sip dip len) = 12"
  "length (udp_sealed sip dip sport dport pl) = length pl + 8"
  by (simp_all add: udp_header_def udp_pseudo_def udp_sealed_def Let_def)

lemma length_udp_frame: "length (udp_frame dm sm i sip dip sport dport pl) = length pl + 42"
  by (simp add: udp_frame_def)

lemma udp_header_eq:
  "udp_header sport dport len = word_bytes sport @ word_bytes dport @ word_bytes (len + 8) @ [0, 0]"
  by (simp add: udp_header_def HEADER_UDP_def add.commute)

lemma udp_sealed_eq:
  "\<exists>a b. udp_sealed sip dip sport dport pl =
     word_bytes sport @ word_bytes dport @ word_bytes (of_nat (length pl) + 8) @ [a, b] @ pl"
  by (simp add: udp_sealed_def udp_header_eq Let_def word_bytes_def numeral_eq_Suc)

lemma udp_sealed_fields:
  "rd_word (udp_sealed sip dip sport dport pl @ zs) 0 = Some sport"
  "rd_word (udp_sealed sip dip sport dport pl @ zs) 2 = Some dport"
  "rd_word (udp_sealed sip dip sport dport pl @ zs) 4 = Some (of_nat (length pl) + 8)"
  "rd (udp_sealed sip dip sport dport pl @ zs) 4 = Some (HI_16 (of_nat (length pl) + 8))"
  "rd (udp_sealed sip dip sport dport pl @ zs) 5 = Some (LOW_16 (of_nat (length pl) + 8))"
  "rd_bytes (udp_sealed sip dip sport dport pl @ zs) 8 (length pl) = Some pl"
proof -
  obtain a b where e: "udp_sealed sip dip sport dport pl =
     word_bytes sport @ word_bytes dport @ word_bytes (of_nat (length pl) + 8) @ [a, b] @ pl"
    using udp_sealed_eq by metis
  show "rd_word (udp_sealed sip dip sport dport pl @ zs) 0 = Some sport"
    and "rd_word (udp_sealed sip dip sport dport pl @ zs) 2 = Some dport"
    and "rd_word (udp_sealed sip dip sport dport pl @ zs) 4 = Some (of_nat (length pl) + 8)"
    by (simp_all add: e rd_simps)
  show "rd (udp_sealed sip dip sport dport pl @ zs) 4 = Some (HI_16 (of_nat (length pl) + 8))"
    and "rd (udp_sealed sip dip sport dport pl @ zs) 5 = Some (LOW_16 (of_nat (length pl) + 8))"
    by (simp_all add: e rd_simps) (simp_all add: word_bytes_def rd_Cons)
  show "rd_bytes (udp_sealed sip dip sport dport pl @ zs) 8 (length pl) = Some pl"
    using rd_bytes_append [of "word_bytes sport @ word_bytes dport @ word_bytes (of_nat (length pl) + 8) @ [a, b]" 8 pl _ zs]
    by (simp add: e)
qed

lemma checksum_udp_pair:
  assumes "length xs = t" and "length pkt = length pl + 8" and "length pl + 8 < 65536"
    and "rd (pkt @ zs) 4 = Some (HI_16 (of_nat (length pl) + 8))" and "rd (pkt @ zs) 5 = Some (LOW_16 (of_nat (length pl) + 8))"
  shows "checksum_udp (xs @ pkt @ zs) t sip dip (of_nat (length pl))
    = checksum_pair (udp_pseudo sip dip (of_nat (length pl))) pkt (length pkt)"
proof -
  have "unat (of_nat (HEADER_UDP + unat (of_nat (length pl) :: u16)) :: u16) = length pl + 8"
    using assms(3) by (simp add: HEADER_UDP_def unat_of_nat unat_word_ariths)
  moreover have "rd_bytes (xs @ pkt @ zs) t (length pl + 8) = Some pkt"
    using assms(1,2) by (intro rd_bytes_append) simp_all
  ultimately show ?thesis
    using assms by (simp add: checksum_udp_def rd_shift udp_pseudo_def word_bytes_def)
qed

lemma udp_sealed_checksum:
  assumes "length xs = t" and "length pl + 8 < 65536"
  shows "checksum_udp (xs @ udp_sealed sip dip sport dport pl @ zs) t sip dip (of_nat (length pl)) = Some 0"
proof -
  let ?hv = "udp_pseudo sip dip (of_nat (length pl))" and ?pkt = "udp_header sport dport (of_nat (length pl)) @ pl"
  obtain c where c: "checksum_pair ?hv ?pkt (length ?pkt) = Some c"
    using checksum_pair_eq [of ?hv "length ?pkt" ?pkt] assms(2) by simp
  have "?pkt ! 6 = 0" "?pkt ! 7 = 0" by (simp_all add: udp_header_eq word_bytes_def numeral_eq_Suc)
  then have "checksum_pair ?hv (?pkt [6 := LOW_16 c, 7 := HI_16 c]) (length ?pkt) = Some 0"
    using checksum_pair_store [of ?hv 6 ?pkt c] assms(2) c by simp
  then have "checksum_pair ?hv (udp_sealed sip dip sport dport pl) (length pl + 8) = Some 0"
    using c by (simp add: udp_sealed_def add.commute)
  then show ?thesis
    using checksum_udp_pair [OF assms(1) _ assms(2), of "udp_sealed sip dip sport dport pl" zs] udp_sealed_fields(4,5)
    by simp
qed

lemma frame_split:
  assumes "length j = 34 + n + m"
  obtains eth old oh pd where "j = eth @ old @ oh @ pd" "length eth = 14" "length old = 20" "length oh = n" "length pd = m"
proof -
  have "drop 14 j = take 20 (drop 14 j) @ drop 34 j" using append_take_drop_id [of 20 "drop 14 j"] by simp
  moreover have "drop 34 j = take n (drop 34 j) @ drop (34 + n) j"
    using append_take_drop_id [of n "drop 34 j"] by (simp add: add.commute)
  ultimately have "j = take 14 j @ take 20 (drop 14 j) @ take n (drop 34 j) @ drop (34 + n) j"
    using append_take_drop_id [of 14 j] by metis
  then show thesis by (rule that) (use assms in simp_all)
qed

lemma unat_of_nat16: "n < 65536 \<Longrightarrow> unat (of_nat n :: u16) = n"
  by (simp add: unat_of_nat)

lemma send_udp_spec:
  assumes len: "length pl \<le> 1490"
    and hop: "hashtable_get (arp_cache s) (unat (next_hop s dip)) = Some dm"
  shows "send_packet_udp ev sip dip sport dport pl (of_nat (length pl)) s =
    Some (length pl, s\<lparr>allocs := allocs s + 1, sckts := sckts s + 1, ipv4_id := ipv4_id s + 2,
      tx_queue := enqueue_sckt (tx_queue s)
        \<lparr>transport_hdr = Some 34, network_hdr = Some 14, mac_hdr = Some 0,
         data = udp_frame dm (dev_mac s) (ipv4_id s) sip dip sport dport pl, data_len = of_nat (length pl + 42)\<rparr>\<rparr>)"
proof -
  let ?n = "length pl" and ?l = "of_nat (length pl) :: u16"
  let ?s = "s\<lparr>allocs := allocs s + 1, sckts := sckts s + 1\<rparr>"
  let ?pkt = "udp_header sport dport ?l @ pl"
  have ul: "unat ?l = ?n" using len by (intro unat_of_nat16) simp
  have u42: "unat (of_nat (?n + 42) :: u16) = ?n + 42" using len by (intro unat_of_nat16) simp
  obtain eth old oh pd where j: "map (heap_junk s (allocs s)) [0 ..< ?n + 42] = eth @ old @ oh @ pd"
      and lens: "length eth = 14" "length old = 20" "length oh = 8" "length pd = ?n"
    by (rule frame_split [of "map (heap_junk s (allocs s)) [0 ..< ?n + 42]" 8 ?n]) simp
  have w1: "wr_bytes (eth @ old @ oh @ pd) 42 pl = Some (eth @ old @ oh @ pl)"
    using wr_bytes_append [of "eth @ old @ oh" 42 pl pd "[]"] lens by simp
  have w2: "wr_bytes (eth @ old @ oh @ pl) 34 (udp_header sport dport ?l) = Some (eth @ old @ ?pkt)"
    using wr_bytes_append [of "eth @ old" 34 "udp_header sport dport ?l" oh pl] lens by simp
  obtain c where c: "checksum_pair (udp_pseudo sip dip ?l) ?pkt (length ?pkt) = Some c"
    using checksum_pair_eq [of "udp_pseudo sip dip ?l" "length ?pkt" ?pkt] len by simp
  have f: "rd (?pkt @ []) 4 = Some (HI_16 (?l + 8))" "rd (?pkt @ []) 5 = Some (LOW_16 (?l + 8))"
    by (simp_all add: udp_header_eq word_bytes_def rd_Cons)
  have ck: "checksum_udp (eth @ old @ ?pkt) 34 sip dip ?l = Some c"
    using checksum_udp_pair [of "eth @ old" 34 ?pkt pl "[]" sip dip] c f len lens by simp
  have w3: "wr_bytes (eth @ old @ ?pkt) 40 [HI_16 (SWAP_WORD c), LOW_16 (SWAP_WORD c)]
      = Some (eth @ old @ udp_sealed sip dip sport dport pl)"
    using wr_bytes_two [of 6 ?pkt "eth @ old" 34 "[]" "LOW_16 c" "HI_16 c"] c lens
    by (simp add: swap_bytes udp_sealed_def)
  have rp: "rd_bytes pl 0 ?n = Some pl" by (simp add: rd_bytes_def)
  have hop': "hashtable_get (arp_cache ?s) (unat (next_hop ?s dip)) = Some dm" using hop by (auto simp: next_hop_def)
  have l8: "of_nat (8 + ?n) = (?l + 8 :: u16)" "unat (?l + 8) + 20 \<le> 1518" "?l + 8 + 20 = (?l + 28 :: u16)"
    using len ul by (simp_all add: unat_word_ariths)
  note snd = send_ip4_spec [where b = "\<lparr>transport_hdr = Some 34, network_hdr = Some 14, mac_hdr = None,
      data = eth @ old @ udp_sealed sip dip sport dport pl, data_len = ?l + 42\<rparr>"
      and eth = eth and old = old and rest = "udp_sealed sip dip sport dport pl" and s = ?s and len = "?l + 8",
      OF _ _ lens(1,2) l8(2) hop', of ev sip UDP_PROTOCOL]
  have al: "alloc_sckt (of_nat (?n + 42)) s = (\<lparr>transport_hdr = None, network_hdr = None, mac_hdr = None,
      data = eth @ old @ oh @ pd, data_len = of_nat (?n + 42)\<rparr>, ?s)"
    unfolding alloc_sckt_def u42 j by simp
  show ?thesis
    using snd len
    by (simp add: send_packet_udp_def ul rp w1 w2 ck w3 al [simplified] Let_def HEADER_ETH_def HEADER_IP4_def HEADER_UDP_def
        udp_frame_def l8 add.commute [of 42 ?l] add.commute [of 8 ?l])
qed

section \<open>Ephemeral ports\<close>

definition port_at :: "u32 \<Rightarrow> nat \<Rightarrow> nat" where
  "port_at idx k = 32767 + (unat idx - 32767 + k) mod 32769"

lemma port_step:
  assumes "32767 \<le> unat idx" and "unat idx \<le> 65535" and "idx' = (if idx + 1 > 65535 then 32767 else idx + 1)"
  shows "unat idx' = port_at idx 1" and "32767 \<le> unat idx'" and "unat idx' \<le> 65535"
proof -
  have u: "unat (idx + 1) = unat idx + 1" using assms(2) by (simp add: unat_word_ariths)
  have "idx + 1 > 65535 \<longleftrightarrow> unat idx = 65535" using u assms(2) by (auto simp: word_less_nat_alt)
  then have "unat idx' = (if unat idx = 65535 then 32767 else unat idx + 1)" using assms(3) u by simp
  moreover have "(unat idx - 32767 + 1) mod 32769 = (if unat idx = 65535 then 0 else unat idx - 32766)"
    using assms(1,2) by auto
  ultimately show "unat idx' = port_at idx 1" "32767 \<le> unat idx'" "unat idx' \<le> 65535"
    using assms(1,2) by (auto simp: port_at_def)
qed

lemma port_at_step:
  assumes "unat idx' = port_at idx 1"
  shows "port_at idx' k = port_at idx (Suc k)"
proof -
  have "unat idx' - 32767 = (unat idx - 32767 + 1) mod 32769" using assms by (simp add: port_at_def)
  then have "(unat idx' - 32767 + k) mod 32769 = (unat idx - 32767 + 1 + k) mod 32769" by (simp add: mod_add_left_eq)
  then show ?thesis by (simp add: port_at_def)
qed

lemma port_search_spec:
  assumes "ht_dict h" and "32767 \<le> unat idx" and "unat idx \<le> 65535"
  shows "\<exists>port idx' h'. port_search n idx h = Some (port, idx', h') \<and> ht_dict h' \<and>
    32767 \<le> unat idx' \<and> unat idx' \<le> 65535 \<and>
    (if port = 0 then h' = h \<and> (\<forall>k. 1 \<le> k \<and> k \<le> n \<longrightarrow> hashtable_get h (port_at idx k) \<noteq> None)
     else 32767 \<le> unat port \<and> unat port \<le> 65535 \<and> hashtable_get h (unat port) = None \<and>
       hashtable_get h' = (hashtable_get h)(unat port \<mapsto> ()))"
  using assms
proof (induction n arbitrary: idx)
  case (Suc n)
  define idx1 where "idx1 = (if idx + 1 > 65535 then 32767 else idx + 1)"
  note p = port_step [OF Suc.prems(2,3) idx1_def]
  show ?case
  proof (cases "hashtable_get h (unat idx1)")
    case None
    obtain h' where "hashtable_put h (unat idx1) () = Some h'" "ht_dict h'"
        "hashtable_get h' = (hashtable_get h)(unat idx1 \<mapsto> ())"
      using hashtable_put_dict [OF Suc.prems(1) None, of "()"] by blast
    moreover have "idx1 \<noteq> 0" using p(2) by auto
    ultimately show ?thesis using None p by (auto simp: idx1_def [symmetric] Let_def)
  next
    case (Some u)
    obtain port idx' h' where r: "port_search n idx1 h = Some (port, idx', h')" "ht_dict h'"
        "32767 \<le> unat idx'" "unat idx' \<le> 65535"
      and spec: "if port = 0 then h' = h \<and> (\<forall>k. 1 \<le> k \<and> k \<le> n \<longrightarrow> hashtable_get h (port_at idx1 k) \<noteq> None)
       else 32767 \<le> unat port \<and> unat port \<le> 65535 \<and> hashtable_get h (unat port) = None \<and>
         hashtable_get h' = (hashtable_get h)(unat port \<mapsto> ())"
      using Suc.IH [OF Suc.prems(1) p(2,3)] by blast
    have "hashtable_get h (port_at idx k) \<noteq> None"
      if port: "port = 0" and k: "1 \<le> k" "k \<le> Suc n" for k
    proof (cases "k = 1")
      case True
      then show ?thesis using Some p(1) by simp
    next
      case False
      then show ?thesis using spec port k port_at_step [OF p(1), of "k - 1"] by (cases k) (auto simp: Suc_le_eq)
    qed
    then show ?thesis using r spec Some by (auto simp: idx1_def [symmetric] Let_def)
  qed
qed simp

section \<open>Properties\<close>

text \<open>C34: Address resolution. When host \<open>b\<close> owns the address asked for and host \<open>a\<close> has no entry
  for it, the request that \<open>a\<close> broadcasts makes \<open>b\<close> put one frame on the wire, and that frame,
  received by \<open>a\<close>, enters \<open>b\<close>'s hardware address under the address asked for, leaving every other
  entry alone. Both hosts free the packet they received. Bytes after the frame do not matter.\<close>

theorem arp_resolution:
  assumes "ht_dict (arp_cache a)" and "hashtable_get (arp_cache a) (unat (ip b)) = None"
    and "mac_hdr req = Some 0" and "mac_hdr rsp = Some 0"
    and "data req = arp_frame (dev_mac a) \<lparr>mac_lo = 0xFFFF, mac_mi = 0xFFFF, mac_hi = 0xFFFF\<rparr> (ip a) (ip b) 1 @ pad"
    and "data rsp = reply @ pad'"
    and "reply = arp_frame (dev_mac b) (dev_mac a) (ip b) (ip a) 2"
  shows "rcv_packet_arp req b = Some (b\<lparr>wire := wire b @ [reply], sckts := sckts b - 1\<rparr>) \<and>
    (\<exists>h. rcv_packet_arp rsp a = Some (a\<lparr>arp_cache := h, sckts := sckts a - 1\<rparr>) \<and> ht_dict h \<and>
      hashtable_get h = (hashtable_get (arp_cache a))(unat (ip b) \<mapsto> dev_mac b))"
proof -
  obtain h where "hashtable_put (arp_cache a) (unat (ip b)) (dev_mac b) = Some h" "ht_dict h"
      "hashtable_get h = (hashtable_get (arp_cache a))(unat (ip b) \<mapsto> dev_mac b)"
    using hashtable_put_dict [OF assms(1,2)] by blast
  then show ?thesis
    using arp_request_answered [OF assms(3,5)] arp_reply_cached [OF assms(4) assms(6) [unfolded assms(7)] assms(2)] assms(7)
    by (intro conjI exI [of _ h]) simp_all
qed

definition sample_buf :: "u8 list \<Rightarrow> data_sckt_buf" where
  "sample_buf bs = \<lparr>transport_hdr = None, network_hdr = None, mac_hdr = Some 0, data = bs, data_len = of_nat (length bs)\<rparr>"

definition peer_net :: net where
  "peer_net = empty_net\<lparr>ip := 0xC0A80542, dev_mac := \<lparr>mac_lo = 1, mac_mi = 2, mac_hi = 3\<rparr>\<rparr>"

lemma empty_net_tables [simp]:
  "arp_cache empty_net = hashtable_init 10" "udp_conn_map (udp_desc_of empty_net) = hashtable_init 20"
  "udp_ep_port_map (udp_desc_of empty_net) = hashtable_init 20" "udp_ep_port_index (udp_desc_of empty_net) = 32767"
  "sk_buf (tx_queue empty_net) = []" "sk_buf (rx_queue empty_net) = []" "ip empty_net = LOCAL_IP"
  by (simp_all add: empty_net_def sckt_buf_desc_init_def)

theorem arp_resolution_witness:
  "rcv_packet_arp (sample_buf (arp_frame (dev_mac empty_net) \<lparr>mac_lo = 0xFFFF, mac_mi = 0xFFFF, mac_hi = 0xFFFF\<rparr>
      (ip empty_net) (ip peer_net) 1)) peer_net
    = Some (peer_net\<lparr>wire := [arp_frame (dev_mac peer_net) (dev_mac empty_net) (ip peer_net) (ip empty_net) 2], sckts := - 1\<rparr>)
   \<and> (\<exists>h. rcv_packet_arp (sample_buf (arp_frame (dev_mac peer_net) (dev_mac empty_net) (ip peer_net) (ip empty_net) 2)) empty_net
      = Some (empty_net\<lparr>arp_cache := h, sckts := - 1\<rparr>) \<and> ht_dict h \<and>
      hashtable_get h = (hashtable_get (arp_cache empty_net))(unat (ip peer_net) \<mapsto> dev_mac peer_net))"
  using arp_resolution [where a = empty_net and b = peer_net and pad = "[]" and pad' = "[]"
      and req = "sample_buf (arp_frame (dev_mac empty_net) \<lparr>mac_lo = 0xFFFF, mac_mi = 0xFFFF, mac_hi = 0xFFFF\<rparr>
        (ip empty_net) (ip peer_net) 1)"
      and rsp = "sample_buf (arp_frame (dev_mac peer_net) (dev_mac empty_net) (ip peer_net) (ip empty_net) 2)"
      and reply = "arp_frame (dev_mac peer_net) (dev_mac empty_net) (ip peer_net) (ip empty_net) 2"]
  by (simp add: ht_dict_init sample_buf_def) (simp add: peer_net_def empty_net_def)

text \<open>The ephemeral port search of UDP returns; a port it returns lies between 32767 and 65535,
  was free and is entered in the map, every other port keeping its mark; it answers 0 only when
  each of the 32767 ports after the current index, in cyclic order, is taken.\<close>

lemma udp_free_port_search_spec:
  assumes "ht_dict (udp_ep_port_map (udp_desc_of s))"
    and "32767 \<le> unat (udp_ep_port_index (udp_desc_of s))" and "unat (udp_ep_port_index (udp_desc_of s)) \<le> 65535"
  shows "\<exists>port s'. udp_free_port_search s = Some (port, s') \<and>
    ht_dict (udp_ep_port_map (udp_desc_of s')) \<and>
    32767 \<le> unat (udp_ep_port_index (udp_desc_of s')) \<and> unat (udp_ep_port_index (udp_desc_of s')) \<le> 65535 \<and>
    (if port = 0 then udp_ep_port_map (udp_desc_of s') = udp_ep_port_map (udp_desc_of s) \<and>
       (\<forall>k. 1 \<le> k \<and> k \<le> 32767 \<longrightarrow>
          hashtable_get (udp_ep_port_map (udp_desc_of s)) (port_at (udp_ep_port_index (udp_desc_of s)) k) \<noteq> None)
     else 32767 \<le> unat port \<and> unat port \<le> 65535 \<and>
       hashtable_get (udp_ep_port_map (udp_desc_of s)) (unat port) = None \<and>
       hashtable_get (udp_ep_port_map (udp_desc_of s')) =
         (hashtable_get (udp_ep_port_map (udp_desc_of s)))(unat port \<mapsto> ()))"
proof -
  let ?u = "udp_desc_of s"
  obtain port idx' h' where r: "port_search 32767 (udp_ep_port_index ?u) (udp_ep_port_map ?u) = Some (port, idx', h')"
      and spec: "ht_dict h' \<and> 32767 \<le> unat idx' \<and> unat idx' \<le> 65535 \<and>
    (if port = 0 then h' = udp_ep_port_map ?u \<and>
        (\<forall>k. 1 \<le> k \<and> k \<le> 32767 \<longrightarrow> hashtable_get (udp_ep_port_map ?u) (port_at (udp_ep_port_index ?u) k) \<noteq> None)
     else 32767 \<le> unat port \<and> unat port \<le> 65535 \<and> hashtable_get (udp_ep_port_map ?u) (unat port) = None \<and>
       hashtable_get h' = (hashtable_get (udp_ep_port_map ?u))(unat port \<mapsto> ()))"
    using port_search_spec [OF assms, of 32767] by blast
  define s' where "s' = s\<lparr>udp_desc_of := ?u\<lparr>udp_ep_port_index := idx', udp_ep_port_map := h'\<rparr>\<rparr>"
  have s': "udp_ep_port_index (udp_desc_of s') = idx'" "udp_ep_port_map (udp_desc_of s') = h'" by (simp_all add: s'_def)
  have "udp_free_port_search s = Some (port, s')"
    using r by (simp add: udp_free_port_search_def Let_def s'_def)
  then show ?thesis using spec unfolding s' [symmetric] by blast
qed

lemma udp_free_port_search_spec_witness:
  "\<exists>port s'. udp_free_port_search empty_net = Some (port, s') \<and>
    ht_dict (udp_ep_port_map (udp_desc_of s')) \<and>
    32767 \<le> unat (udp_ep_port_index (udp_desc_of s')) \<and> unat (udp_ep_port_index (udp_desc_of s')) \<le> 65535 \<and> port \<noteq> 0"
  using udp_free_port_search_spec [of empty_net] by (auto simp: ht_dict_init split: if_splits)

text \<open>Echo requests longer than the reply buffer. The reply is always built in a buffer with
  room for 64 bytes of ICMP message, so a well-formed echo request of more than 64 bytes makes the
  copy run past the end of that buffer.\<close>

lemma icmp_reply_overflows:
  assumes "64 < unat packet_len" and "t + unat packet_len \<le> length bs"
  shows "send_packet_icmp_reply ev sip dip bs t packet_len s = None"
proof -
  have "wr_bytes (data (fst (alloc_sckt (of_nat (60 + HEADER_ETH + HEADER_IP4 + HEADER_ICMP)) s))) 34 pkt = None"
    if "length pkt = unat packet_len" for pkt
    using that assms by (simp add: wr_bytes_def alloc_sckt_def net_consts)
  moreover have "length pkt = unat packet_len" if "rd_bytes x t (unat packet_len) = Some pkt" for x pkt
    using that by (auto simp: rd_bytes_def split: if_splits)
  ultimately show ?thesis
    unfolding send_packet_icmp_reply_def
    by (auto simp: alloc_sckt_def Let_def net_consts Option.bind_eq_None_conv split: option.splits)
qed

lemma icmp_reply_overflows_witness:
  "send_packet_icmp_reply (\<lambda>s. s) 1 2 (replicate 100 0) 34 65 empty_net = None"
  by (rule icmp_reply_overflows) simp_all

end
