(* ===== verification/Tcp_Conn.thy ===== *)
theory Tcp_Conn
  imports Net
begin

text \<open>
  The objects TCP works on: timers (\<^verbatim>\<open>src/timer.c\<close>), the maps from port pairs to connections
  (\<^verbatim>\<open>src/network/tcp_conn_map.c\<close>) and the creation and release of connections (the first part of
  \<^verbatim>\<open>src/network/tcp.c\<close>). The buffers of a connection are modelled by their contents; their
  allocation is the subject of \<open>Kmalloc\<close> and \<open>Buddy\<close>.
\<close>

section \<open>timer.c\<close>

text \<open>
  Every timer of the stack belongs to a connection. \<open>timer_init\<close> has no return statement and
  relies on the result of its \<open>kmalloc\<close> being left in the result register.
\<close>

definition timer_init :: "u32 \<Rightarrow> bool \<Rightarrow> timer" where
  "timer_init v r = \<lparr>val = v, ref = r\<rparr>"

fun get_timer :: "timer_id \<Rightarrow> net \<Rightarrow> timer option" where
  "get_timer (Rtrsn c) s = map_option rtrsn_timer (conns s c)"
| "get_timer (Pgybg c) s = map_option pgybg_timer (conns s c)"

fun put_timer :: "timer_id \<Rightarrow> timer \<Rightarrow> net \<Rightarrow> net option" where
  "put_timer (Rtrsn c) t s = upd_conn c (rtrsn_timer_update (\<lambda>_. t)) s"
| "put_timer (Pgybg c) t s = upd_conn c (pgybg_timer_update (\<lambda>_. t)) s"

definition timer_unlink :: "timer_id \<Rightarrow> net \<Rightarrow> net option" where
  "timer_unlink i s =
     do { t \<leftarrow> get_timer i s;
          if ref t then put_timer i (t\<lparr>ref := False\<rparr>) (s\<lparr>timer_list := remove1 i (timer_list s)\<rparr>) else Some s }"

text \<open>The memory of a timer goes with its connection.\<close>

definition timer_free :: "timer_id \<Rightarrow> net \<Rightarrow> net option" where
  "timer_free i s = timer_unlink i s"

definition timer_set :: "timer_id \<Rightarrow> u32 \<Rightarrow> net \<Rightarrow> net option" where
  "timer_set i v s =
     do { t \<leftarrow> get_timer i s;
          if \<not> ref t then put_timer i \<lparr>val = v, ref = True\<rparr> (s\<lparr>timer_list := timer_list s @ [i]\<rparr>)
          else put_timer i (t\<lparr>val := v\<rparr>) s }"

definition timer_reset :: "timer_id \<Rightarrow> net \<Rightarrow> net option" where
  "timer_reset i s =
     do { t \<leftarrow> get_timer i s;
          if ref t then put_timer i \<lparr>val = 0, ref = False\<rparr> (s\<lparr>timer_list := remove1 i (timer_list s)\<rparr>)
          else Some s }"

section \<open>tcp\_conn\_map.c\<close>

definition conn_id :: "u16 \<Rightarrow> u16 \<Rightarrow> u32" where
  "conn_id sport dport = ucast dport OR push_bit 16 (ucast sport)"

definition tcp_conn_map_init :: tcp_conn_map where
  "tcp_conn_map_init =
     \<lparr>conn_map = hashtable_init 20, duplicate_key_map = hashtable_init 5, duplicate_conn_list = []\<rparr>"

definition tcp_conn_map_put :: "tcp_conn_map \<Rightarrow> u16 \<Rightarrow> u16 \<Rightarrow> nat \<Rightarrow> tcp_conn_map option" where
  "tcp_conn_map_put m sport dport c =
     (let k = unat (conn_id sport dport) in
      case hashtable_get (conn_map m) k of
        Some _ \<Rightarrow> do { d \<leftarrow> hashtable_put (duplicate_key_map m) k True;
                       Some (m\<lparr>duplicate_key_map := d, duplicate_conn_list := duplicate_conn_list m @ [c]\<rparr>) }
      | None \<Rightarrow> do { d \<leftarrow> hashtable_put (duplicate_key_map m) k False;
                     h \<leftarrow> hashtable_put (conn_map m) k c;
                     Some (m\<lparr>duplicate_key_map := d, conn_map := h\<rparr>) })"

definition same_conn :: "tcp_conn_desc \<Rightarrow> u32 \<Rightarrow> u32 \<Rightarrow> u16 \<Rightarrow> u16 \<Rightarrow> bool" where
  "same_conn d sip dip sport dport \<longleftrightarrow>
     src_ip d = sip \<and> dst_ip d = dip \<and> src_port d = sport \<and> dst_port d = dport"

text \<open>
  The three loops over \<open>duplicate_conn_list\<close> never advance \<^verbatim>\<open>next\<close>: on a list that is not empty
  they run forever unless the body returns in the first round, and on an empty list they leave
  \<open>remove_node\<close> null, which is then dereferenced. Not returning is \<open>None\<close>, as is a null
  dereference, so both removals of a duplicated connection are \<open>None\<close>. A lookup that leaves its
  loop falls off the end of the function without a value.
\<close>

definition tcp_conn_map_remove ::
  "tcp_conn_map \<Rightarrow> u32 \<Rightarrow> u32 \<Rightarrow> u16 \<Rightarrow> u16 \<Rightarrow> net \<Rightarrow> tcp_conn_map option" where
  "tcp_conn_map_remove m sip dip sport dport s =
     (let k = unat (conn_id sport dport) in
      case hashtable_get (conn_map m) k of
        None \<Rightarrow> Some m
      | Some c \<Rightarrow> do {
          tmp \<leftarrow> hashtable_get (duplicate_key_map m) k;
          if \<not> tmp
          then do { (_, h) \<leftarrow> hashtable_remove (conn_map m) k;
                    (_, d) \<leftarrow> hashtable_remove (duplicate_key_map m) k;
                    Some (m\<lparr>conn_map := h, duplicate_key_map := d\<rparr>) }
          else None })"

definition tcp_conn_map_get ::
  "tcp_conn_map \<Rightarrow> u32 \<Rightarrow> u32 \<Rightarrow> u16 \<Rightarrow> u16 \<Rightarrow> net \<Rightarrow> nat option" where
  "tcp_conn_map_get m sip dip sport dport s =
     (let k = unat (conn_id sport dport) in
      case hashtable_get (conn_map m) k of
        None \<Rightarrow> Some 0
      | Some c \<Rightarrow> do {
          tmp \<leftarrow> hashtable_get (duplicate_key_map m) k;
          if \<not> tmp then Some c
          else do {
            d \<leftarrow> conns s c;
            if same_conn d sip dip sport dport then Some c
            else case duplicate_conn_list m of
                   [] \<Rightarrow> None
                 | e # _ \<Rightarrow> do { d \<leftarrow> conns s e;
                                  if same_conn d sip dip sport dport then Some e else None } } })"

text \<open>Freeing a pointer that is not in the store is a double free.\<close>

fun free_descs :: "nat list \<Rightarrow> net \<Rightarrow> net option" where
  "free_descs [] s = Some s"
| "free_descs (c # cs) s =
     do { _ \<leftarrow> conns s c; free_descs cs (s\<lparr>conns := (conns s)(c := None)\<rparr>) }"

text \<open>
  The tables free the values they hold. Those of \<open>duplicate_key_map\<close> are the two constants,
  which are then freed again.
\<close>

definition tcp_conn_map_free :: "tcp_conn_map \<Rightarrow> net \<Rightarrow> net option" where
  "tcp_conn_map_free m s =
     (if hashtable_free (duplicate_key_map m) \<noteq> [] then None
      else free_descs (hashtable_free (conn_map m) @ duplicate_conn_list m) s)"

section \<open>Connections\<close>

definition tcp_snd_queue_init :: "(nat \<Rightarrow> u8) \<Rightarrow> tcp_snd_queue" where
  "tcp_snd_queue_init junk =
     \<lparr>sq_buf = junk, sq_buf_size = of_nat TCP_SND_SIZE, cur = 1, sq_wnd_min = 4293967296,
      sq_wnd_size = of_nat SMSS, nxt_snd = 4293967296, pnd_data = 0\<rparr>"

definition tcp_rcv_queue_init :: "(nat \<Rightarrow> u8) \<Rightarrow> tcp_rcv_queue" where
  "tcp_rcv_queue_init junk =
     \<lparr>rq_buf = junk, rq_buf_size = of_nat TCP_RCV_SIZE, rq_wnd_min = 0, rq_wnd_size = of_nat TCP_RCV_SIZE,
      nxt_rcv = 0, buf_state = (\<lambda>_. False), rq_seq_num = 0, rq_data_len = 0, last_adv_wnd = 0,
      is_wnd_hole = False, max_seq_num = 0\<rparr>"

definition tcp_conn_desc_int :: "net \<Rightarrow> nat \<times> net" where
  "tcp_conn_desc_int s =
     (next_ptr s,
      s\<lparr>conns := (conns s)(next_ptr s \<mapsto>
          \<lparr>duplicated_ack = 0, rto = of_nat DEFAULT_RTO, srtt = of_nat DEFAULT_RTO,
           rtrsn_timer = timer_init 0 False, pgybg_timer = timer_init 0 False,
           cwnd = of_nat SMSS, ssthresh = of_nat WND_ADV, rcv_wmd_adv = 0, max_adv_wnd = 0,
           rcv_queue = tcp_rcv_queue_init (heap_junk s (allocs s)),
           snd_queue = tcp_snd_queue_init (heap_junk s (allocs s + 1)),
           src_ip = 0, dst_ip = 0, src_port = 0, dst_port = 0, status = CLOSED,
           back_log_i_map = tcp_conn_map_init, back_log_c_queue = [], process_context = 0,
           ref_count = 1, last_sent_time = 0, flight_size = 0, pending_ack = 0, isActive = False\<rparr>),
        next_ptr := next_ptr s + 1, allocs := allocs s + 2\<rparr>)"

definition tcp_conn_desc_free :: "nat \<Rightarrow> net \<Rightarrow> net option" where
  "tcp_conn_desc_free c s =
     do { d \<leftarrow> conns s c;
          s \<leftarrow> tcp_conn_map_free (back_log_i_map d) s;
          s \<leftarrow> free_descs (back_log_c_queue d) s;
          s \<leftarrow> timer_free (Rtrsn c) s;
          s \<leftarrow> timer_free (Pgybg c) s;
          s \<leftarrow> (if isActive d
                then do { (_, h) \<leftarrow> hashtable_remove (tcp_ep_port_map (tcp_desc_of s)) (unat (src_port d));
                          Some (s\<lparr>tcp_desc_of := (tcp_desc_of s)\<lparr>tcp_ep_port_map := h\<rparr>\<rparr>) }
                else Some s);
          Some (s\<lparr>conns := (conns s)(c := None)\<rparr>) }"

definition tcp_init :: tcp_desc where
  "tcp_init = \<lparr>tcp_conns_map = tcp_conn_map_init, req_map = tcp_conn_map_init, listen_map = tcp_conn_map_init,
               tcp_ep_port_index = 32767, tcp_ep_port_map = hashtable_init 20\<rparr>"

section \<open>Timers are linked exactly once\<close>

definition timers_ok :: "net \<Rightarrow> bool" where
  "timers_ok s \<longleftrightarrow> distinct (timer_list s) \<and>
     (\<forall>i. i \<in> set (timer_list s) \<longleftrightarrow> (\<exists>t. get_timer i s = Some t \<and> ref t))"

lemma get_timer_list [simp]: "get_timer i (s\<lparr>timer_list := l\<rparr>) = get_timer i s"
  by (cases i) simp_all

lemma put_timer_spec:
  assumes "get_timer i s = Some t"
  shows "\<exists>s'. put_timer i t' s = Some s' \<and> timer_list s' = timer_list s \<and>
    (\<forall>j. get_timer j s' = (if j = i then Some t' else get_timer j s))"
proof (cases i)
  case (Rtrsn c)
  then obtain d where d: "conns s c = Some d" using assms by auto
  have "get_timer j (s\<lparr>conns := (conns s)(c \<mapsto> d\<lparr>rtrsn_timer := t'\<rparr>)\<rparr>) = (if j = i then Some t' else get_timer j s)" for j
    by (cases j) (auto simp: Rtrsn d)
  then show ?thesis using Rtrsn d by (simp add: upd_conn_def)
next
  case (Pgybg c)
  then obtain d where d: "conns s c = Some d" using assms by auto
  have "get_timer j (s\<lparr>conns := (conns s)(c \<mapsto> d\<lparr>pgybg_timer := t'\<rparr>)\<rparr>) = (if j = i then Some t' else get_timer j s)" for j
    by (cases j) (auto simp: Pgybg d)
  then show ?thesis using Pgybg d by (simp add: upd_conn_def)
qed

lemma timers_link:
  assumes "timers_ok s" and "get_timer i s = Some t" and "\<not> ref t" and "ref t'"
  shows "\<exists>s'. put_timer i t' (s\<lparr>timer_list := timer_list s @ [i]\<rparr>) = Some s' \<and> timers_ok s' \<and> get_timer i s' = Some t'"
  using assms put_timer_spec [of i "s\<lparr>timer_list := timer_list s @ [i]\<rparr>" t t'] by (auto simp: timers_ok_def)

lemma timers_keep:
  assumes "timers_ok s" and "get_timer i s = Some t" and "ref t' = ref t"
  shows "\<exists>s'. put_timer i t' s = Some s' \<and> timers_ok s' \<and> get_timer i s' = Some t'"
  using assms put_timer_spec [of i s t t'] by (fastforce simp: timers_ok_def)

lemma timers_drop:
  assumes "timers_ok s" and "get_timer i s = Some t" and "\<not> ref t'"
  shows "\<exists>s'. put_timer i t' (s\<lparr>timer_list := remove1 i (timer_list s)\<rparr>) = Some s' \<and> timers_ok s' \<and> get_timer i s' = Some t'"
  using assms put_timer_spec [of i "s\<lparr>timer_list := remove1 i (timer_list s)\<rparr>" t t'] by (fastforce simp: timers_ok_def)

section \<open>Connection maps\<close>

definition cm_ok :: "tcp_conn_map \<Rightarrow> bool" where
  "cm_ok m \<longleftrightarrow> ht_dict (conn_map m) \<and> ht_dict (duplicate_key_map m) \<and> duplicate_conn_list m = [] \<and>
     (\<forall>k. hashtable_get (duplicate_key_map m) k = map_option (\<lambda>_. False) (hashtable_get (conn_map m) k))"

definition cm_view :: "tcp_conn_map \<Rightarrow> nat \<Rightarrow> nat option" where
  "cm_view m = hashtable_get (conn_map m)"

lemma cm_ok_init: "cm_ok tcp_conn_map_init" and cm_view_init: "cm_view tcp_conn_map_init = Map.empty"
  by (simp_all add: cm_ok_def cm_view_def tcp_conn_map_init_def ht_dict_init)

lemma cm_get: "cm_ok m \<Longrightarrow> tcp_conn_map_get m sip dip sport dport s =
    Some (case cm_view m (unat (conn_id sport dport)) of None \<Rightarrow> 0 | Some c \<Rightarrow> c)"
  by (auto simp: tcp_conn_map_get_def cm_ok_def cm_view_def Let_def split: option.splits)

lemma cm_put:
  assumes "cm_ok m" and "cm_view m (unat (conn_id sport dport)) = None"
  shows "\<exists>m'. tcp_conn_map_put m sport dport c = Some m' \<and> cm_ok m' \<and>
    cm_view m' = (cm_view m)(unat (conn_id sport dport) \<mapsto> c)"
proof -
  let ?k = "unat (conn_id sport dport)"
  have dict: "ht_dict (conn_map m)" "ht_dict (duplicate_key_map m)" using assms(1) by (simp_all add: cm_ok_def)
  have none: "hashtable_get (conn_map m) ?k = None" "hashtable_get (duplicate_key_map m) ?k = None"
    using assms by (simp_all add: cm_ok_def cm_view_def)
  obtain d where d: "hashtable_put (duplicate_key_map m) ?k False = Some d" "ht_dict d"
      "hashtable_get d = (hashtable_get (duplicate_key_map m))(?k \<mapsto> False)"
    using hashtable_put_dict [OF dict(2) none(2)] by blast
  obtain h where h: "hashtable_put (conn_map m) ?k c = Some h" "ht_dict h"
      "hashtable_get h = (hashtable_get (conn_map m))(?k \<mapsto> c)"
    using hashtable_put_dict [OF dict(1) none(1)] by blast
  have "tcp_conn_map_put m sport dport c = Some (m\<lparr>duplicate_key_map := d, conn_map := h\<rparr>)"
    using none d(1) h(1) by (simp add: tcp_conn_map_put_def Let_def)
  moreover have "cm_ok (m\<lparr>duplicate_key_map := d, conn_map := h\<rparr>)"
    using assms(1) d h by (simp add: cm_ok_def)
  ultimately show ?thesis using h(3) by (simp add: cm_view_def)
qed

lemma cm_remove:
  assumes "cm_ok m"
  shows "\<exists>m'. tcp_conn_map_remove m sip dip sport dport s = Some m' \<and> cm_ok m' \<and>
    cm_view m' = (cm_view m)(unat (conn_id sport dport) := None)"
proof (cases "hashtable_get (conn_map m) (unat (conn_id sport dport))")
  case None
  then show ?thesis using assms by (auto simp: tcp_conn_map_remove_def cm_view_def Let_def)
next
  case (Some c)
  let ?k = "unat (conn_id sport dport)"
  have dict: "ht_dict (conn_map m)" "ht_dict (duplicate_key_map m)" using assms by (simp_all add: cm_ok_def)
  have dup: "hashtable_get (duplicate_key_map m) ?k = Some False" using assms Some by (simp add: cm_ok_def)
  obtain h where h: "hashtable_remove (conn_map m) ?k = Some (Some c, h)" "ht_dict h"
      "hashtable_get h = (hashtable_get (conn_map m))(?k := None)"
    using hashtable_remove_dict [OF dict(1), of ?k] Some by auto
  obtain d where d: "hashtable_remove (duplicate_key_map m) ?k = Some (Some False, d)" "ht_dict d"
      "hashtable_get d = (hashtable_get (duplicate_key_map m))(?k := None)"
    using hashtable_remove_dict [OF dict(2), of ?k] dup by auto
  have "tcp_conn_map_remove m sip dip sport dport s = Some (m\<lparr>conn_map := h, duplicate_key_map := d\<rparr>)"
    using Some dup h(1) d(1) by (simp add: tcp_conn_map_remove_def Let_def)
  moreover have "cm_ok (m\<lparr>conn_map := h, duplicate_key_map := d\<rparr>)" using assms d h by (simp add: cm_ok_def)
  ultimately show ?thesis using h(3) by (simp add: cm_view_def)
qed

lemma conn_id_inj: "conn_id a b = conn_id c d \<longleftrightarrow> a = c \<and> b = d"
proof
  assume eq: "conn_id a b = conn_id c d"
  have "b = ucast (conn_id a b)" for a b
    unfolding conn_id_def by (rule bit_word_eqI) (auto simp: bit_simps)
  moreover have "a = ucast (drop_bit 16 (conn_id a b))" for a b
    unfolding conn_id_def by (rule bit_word_eqI) (auto simp: bit_simps dest: bit_imp_le_length)
  ultimately show "a = c \<and> b = d" using eq by metis
qed simp

section \<open>Properties\<close>

text \<open>C35: Timers. As long as the list of running timers holds every timer that is marked as linked
  exactly once and no other, arming, resetting and unlinking a timer of a live connection return and
  keep it so; an armed timer is linked with the given value, a reset one is unlinked with value zero
  unless it was not linked before.\<close>

theorem timers_linked_once:
  assumes "timers_ok s" and "get_timer i s = Some t"
  shows "(\<exists>s'. timer_set i v s = Some s' \<and> timers_ok s' \<and> get_timer i s' = Some \<lparr>val = v, ref = True\<rparr>) \<and>
    (\<exists>s'. timer_reset i s = Some s' \<and> timers_ok s' \<and>
       get_timer i s' = Some (if ref t then \<lparr>val = 0, ref = False\<rparr> else t)) \<and>
    (\<exists>s'. timer_free i s = Some s' \<and> timers_ok s' \<and> get_timer i s' = Some (t\<lparr>ref := False\<rparr>))"
proof (cases "ref t")
  case True
  have "\<exists>s'. timer_set i v s = Some s' \<and> timers_ok s' \<and> get_timer i s' = Some \<lparr>val = v, ref = True\<rparr>"
    using timers_keep [OF assms, of "t\<lparr>val := v\<rparr>"] True assms(2) by (cases t) (simp add: timer_set_def)
  then show ?thesis
    using timers_drop [OF assms, of "\<lparr>val = 0, ref = False\<rparr>"] timers_drop [OF assms, of "t\<lparr>ref := False\<rparr>"] True assms
    by (simp add: timer_reset_def timer_free_def timer_unlink_def)
next
  case False
  then have "t\<lparr>ref := False\<rparr> = t" by (cases t) simp
  then show ?thesis
    using timers_link [OF assms False, of "\<lparr>val = v, ref = True\<rparr>"] False assms
    by (simp add: timer_set_def timer_reset_def timer_free_def timer_unlink_def)
qed

definition net_one_conn :: net where
  "net_one_conn = snd (tcp_conn_desc_int empty_net)"

lemma net_one_conn_timers:
  "timers_ok net_one_conn" "get_timer (Rtrsn 1) net_one_conn = Some \<lparr>val = 0, ref = False\<rparr>"
proof -
  have "\<not> (\<exists>t. get_timer i net_one_conn = Some t \<and> ref t)" for i
    by (cases i) (auto simp: net_one_conn_def tcp_conn_desc_int_def empty_net_def timer_init_def split: if_splits)
  then show "timers_ok net_one_conn" by (simp add: timers_ok_def) (simp add: net_one_conn_def tcp_conn_desc_int_def empty_net_def)
qed (simp add: net_one_conn_def tcp_conn_desc_int_def empty_net_def timer_init_def)

theorem timers_linked_once_witness:
  "\<exists>s'. timer_set (Rtrsn 1) 100 net_one_conn = Some s' \<and> timers_ok s' \<and>
     get_timer (Rtrsn 1) s' = Some \<lparr>val = 100, ref = True\<rparr>"
  using timers_linked_once [OF net_one_conn_timers, of 100] by blast

text \<open>C36: Connection maps. While no pair of ports has been entered twice, a lookup returns, entering
  a connection under a new pair of ports makes lookups of that pair, whatever the addresses asked for,
  answer it and changes no other pair, and removing the pair undoes it. The addresses are not compared.\<close>

theorem tcp_conn_map_roundtrip:
  assumes "cm_ok m" and "tcp_conn_map_get m sip dip sport dport s = Some 0"
    and "\<And>k. cm_view m k \<noteq> Some 0"
  shows "\<exists>m'. tcp_conn_map_put m sport dport c = Some m' \<and> cm_ok m' \<and>
    (\<forall>sip' dip' sport' dport'. tcp_conn_map_get m' sip' dip' sport' dport' s =
      (if sport' = sport \<and> dport' = dport then Some c else tcp_conn_map_get m sip' dip' sport' dport' s)) \<and>
    (\<exists>m''. tcp_conn_map_remove m' sip dip sport dport s = Some m'' \<and> cm_ok m'' \<and> cm_view m'' = cm_view m)"
proof -
  let ?k = "unat (conn_id sport dport)"
  have none: "cm_view m ?k = None" using assms(2,3) by (auto simp: cm_get [OF assms(1)] split: option.splits)
  obtain m' where m': "tcp_conn_map_put m sport dport c = Some m'" "cm_ok m'" "cm_view m' = (cm_view m)(?k \<mapsto> c)"
    using cm_put [OF assms(1) none] by blast
  obtain m'' where m'': "tcp_conn_map_remove m' sip dip sport dport s = Some m''" "cm_ok m''"
      "cm_view m'' = (cm_view m')(?k := None)"
    using cm_remove [OF m'(2)] by blast
  have "unat (conn_id sport' dport') = ?k \<longleftrightarrow> sport' = sport \<and> dport' = dport" for sport' dport'
    using conn_id_inj by (metis unsigned_word_eqI)
  then have "tcp_conn_map_get m' sip' dip' sport' dport' s =
      (if sport' = sport \<and> dport' = dport then Some c else tcp_conn_map_get m sip' dip' sport' dport' s)" for sip' dip' sport' dport'
    by (simp add: cm_get [OF m'(2)] cm_get [OF assms(1)] m'(3))
  moreover have "cm_view m'' = cm_view m" using m''(3) m'(3) none by (simp add: fun_upd_idem)
  ultimately show ?thesis using m'(1,2) m''(1,2) by blast
qed

theorem tcp_conn_map_roundtrip_witness:
  "\<exists>m'. tcp_conn_map_put tcp_conn_map_init 80 4000 7 = Some m' \<and> cm_ok m' \<and>
    (\<forall>sip' dip' sport' dport'. tcp_conn_map_get m' sip' dip' sport' dport' empty_net =
      (if sport' = 80 \<and> dport' = 4000 then Some 7 else tcp_conn_map_get tcp_conn_map_init sip' dip' sport' dport' empty_net)) \<and>
    (\<exists>m''. tcp_conn_map_remove m' 1 2 80 4000 empty_net = Some m'' \<and> cm_ok m'' \<and> cm_view m'' = cm_view tcp_conn_map_init)"
  by (rule tcp_conn_map_roundtrip) (simp_all add: cm_ok_init cm_get cm_view_init)

end
