(* ===== verification/Tcp.thy ===== *)
theory Tcp
  imports Tcp_Conn
begin

text \<open>
  TCP: sending, the send window, acknowledgements, retransmission, the receive window and the
  connection state machine, after \<^verbatim>\<open>src/network/tcp.c\<close>. Fields of 32 bits are words, so that
  sequence numbers wrap as they do in C; the \<^verbatim>\<open>long long\<close> locals are \<open>int\<close>. A connection is
  re-read from the store after every packet sent, since sending may sleep.
\<close>

section \<open>Segments\<close>

definition FLG_FIN :: u8 where "FLG_FIN = 1"
definition FLG_SYN :: u8 where "FLG_SYN = 2"
definition FLG_RST :: u8 where "FLG_RST = 4"
definition FLG_ACK :: u8 where "FLG_ACK = 16"

definition CHK_OVRFLW :: "u32 \<Rightarrow> u32 \<Rightarrow> int" where
  "CHK_OVRFLW v r = (if v \<ge> r then uint v else uint v + 4294967295)"

definition SLOT_WND :: "u32 \<Rightarrow> u32 \<Rightarrow> nat" where
  "SLOT_WND i wnd_size = unat i mod unat wnd_size"

definition upd_max_adv_wnd :: "nat \<Rightarrow> u32 \<Rightarrow> net \<Rightarrow> net option" where
  "upd_max_adv_wnd c adv s =
     upd_conn c (\<lambda>d. d\<lparr>rcv_wmd_adv := adv, max_adv_wnd := (if max_adv_wnd d < adv then adv else max_adv_wnd d)\<rparr>) s"

definition checksum_tcp :: "u8 list \<Rightarrow> nat \<Rightarrow> u32 \<Rightarrow> u32 \<Rightarrow> u16 \<Rightarrow> nat \<Rightarrow> u16 option" where
  "checksum_tcp bs t sip dip len tcp_header_len =
     do { let packet_len = (of_nat (tcp_header_len + unat len) :: u16);
          let header_virt = dword_bytes sip @ dword_bytes dip @ [0, TCP_PROTOCOL] @ word_bytes packet_len;
          pkt \<leftarrow> rd_bytes bs t (unat packet_len);
          checksum_pair header_virt pkt (unat packet_len) }"

definition tcp_header :: "u16 \<Rightarrow> u16 \<Rightarrow> u32 \<Rightarrow> u32 \<Rightarrow> u8 \<Rightarrow> u32 \<Rightarrow> u8 list" where
  "tcp_header sport dport seq ack flags wnd =
     word_bytes sport @ word_bytes dport @ dword_bytes seq @ dword_bytes ack
     @ [if flags AND FLG_SYN \<noteq> 0 then 0x60 else 0x50, flags] @ word_bytes (ucast wnd) @ [0, 0, 0, 0]
     @ (if flags AND FLG_SYN \<noteq> 0 then [0x2, 0x4, 0x05, 0xAE] else [])"

text \<open>
  The first checksum of the function is computed over the header before it is written and
  replaced by the second. \<open>payload\<close> is the memory from \<^verbatim>\<open>data\<close> on.
\<close>

definition send_packet_tcp ::
  "(net \<Rightarrow> net) \<Rightarrow> u32 \<Rightarrow> u32 \<Rightarrow> u16 \<Rightarrow> u16 \<Rightarrow> u32 \<Rightarrow> u8 list \<Rightarrow> u32 \<Rightarrow> u32 \<Rightarrow> u8 \<Rightarrow> u32 \<Rightarrow> net \<Rightarrow> net option" where
  "send_packet_tcp ev sip dip sport dport wnd payload len ack flags seq s =
     do { let tcp_header_len = (if flags AND FLG_SYN \<noteq> 0 then HEADER_TCP + 4 else HEADER_TCP);
          let (b, s) = alloc_sckt (of_nat (unat len + HEADER_ETH + HEADER_IP4 + tcp_header_len)) s;
          let th = HEADER_ETH + HEADER_IP4;
          pl \<leftarrow> rd_bytes payload 0 (unat len);
          bs \<leftarrow> wr_bytes (data b) (th + tcp_header_len) pl;
          bs \<leftarrow> wr_bytes bs th (tcp_header sport dport seq ack flags wnd);
          c \<leftarrow> checksum_tcp bs th sip dip (ucast len) tcp_header_len;
          let chk = SWAP_WORD c;
          bs \<leftarrow> wr_bytes bs (th + 16) [HI_16 chk, LOW_16 chk];
          (_, s) \<leftarrow> send_packet_ip4 ev
             (b\<lparr>transport_hdr := Some th, network_hdr := Some (th - HEADER_IP4), data := bs\<rparr>)
             sip dip (of_nat (unat len + tcp_header_len)) TCP_PROTOCOL s;
          Some s }"

text \<open>The macro \<^verbatim>\<open>_SEND_PACKET_TCP\<close>.\<close>

definition SEND_PACKET_TCP ::
  "(net \<Rightarrow> net) \<Rightarrow> nat \<Rightarrow> u8 list \<Rightarrow> u32 \<Rightarrow> u32 \<Rightarrow> u8 \<Rightarrow> u32 \<Rightarrow> net \<Rightarrow> net option" where
  "SEND_PACKET_TCP ev c payload len ack flags seq s =
     do { d \<leftarrow> conns s c;
          send_packet_tcp ev (src_ip d) (dst_ip d) (src_port d) (dst_port d) (rq_wnd_size (rcv_queue d))
            payload len ack flags seq s }"

definition update_adv_wnd :: "(net \<Rightarrow> net) \<Rightarrow> nat \<Rightarrow> net \<Rightarrow> net option" where
  "update_adv_wnd ev c s =
     do { d \<leftarrow> conns s c;
          SEND_PACKET_TCP ev c [] 0 (nxt_rcv (rcv_queue d)) FLG_ACK (nxt_snd (snd_queue d)) s }"

section \<open>The send window\<close>

definition upd_sq :: "nat \<Rightarrow> (tcp_snd_queue \<Rightarrow> tcp_snd_queue) \<Rightarrow> net \<Rightarrow> net option" where
  "upd_sq c f = upd_conn c (snd_queue_update f)"

definition upd_rq :: "nat \<Rightarrow> (tcp_rcv_queue \<Rightarrow> tcp_rcv_queue) \<Rightarrow> net \<Rightarrow> net option" where
  "upd_rq c f = upd_conn c (rcv_queue_update f)"

text \<open>One segment of \<open>flush_data\<close>, in two packets when it crosses the end of the ring.\<close>

definition flush_segment :: "(net \<Rightarrow> net) \<Rightarrow> nat \<Rightarrow> u32 \<Rightarrow> u32 \<Rightarrow> u32 \<Rightarrow> net \<Rightarrow> net option" where
  "flush_segment ev c len ack seq s =
     do { d \<leftarrow> conns s c;
          let offset = SLOT_WND seq (of_nat TCP_SND_SIZE);
          if offset + unat len \<le> TCP_SND_SIZE
          then SEND_PACKET_TCP ev c (map (sq_buf (snd_queue d)) [offset ..< offset + unat len]) len ack FLG_ACK seq s
          else do {
            let len_1 = TCP_SND_SIZE - offset;
            let len_2 = unat len - len_1;
            s \<leftarrow> SEND_PACKET_TCP ev c (map (sq_buf (snd_queue d)) [offset ..< TCP_SND_SIZE]) (of_nat len_1) ack FLG_ACK seq s;
            d \<leftarrow> conns s c;
            SEND_PACKET_TCP ev c (map (sq_buf (snd_queue d)) [0 ..< len_2]) (of_nat len_2) ack FLG_ACK (seq + of_nat len_1) s } }"

function flush_loop :: "(net \<Rightarrow> net) \<Rightarrow> nat \<Rightarrow> nat \<Rightarrow> u32 \<Rightarrow> u32 \<Rightarrow> net \<Rightarrow> net option" where
  "flush_loop ev c n ack seq s =
     (if SMSS \<le> n
      then do { s \<leftarrow> flush_segment ev c (of_nat SMSS) ack seq s;
                flush_loop ev c (n - SMSS) ack (seq + of_nat SMSS) s }
      else if 0 < n then flush_segment ev c (of_nat n) ack seq s
      else Some s)"
  by pat_completeness auto
termination
  by (relation "measure (\<lambda>(ev, c, n, ack, seq, s). n)") (auto simp: SMSS_def)

declare flush_loop.simps [simp del]

definition flush_data :: "(net \<Rightarrow> net) \<Rightarrow> nat \<Rightarrow> u32 \<Rightarrow> u32 \<Rightarrow> u32 \<Rightarrow> net \<Rightarrow> net option" where
  "flush_data ev c data_to_send ack indx s =
     do { let s = (if data_to_send > 100000 then net_panic s else s);
          if data_to_send > 0
          then do { s \<leftarrow> timer_reset (Pgybg c) s;
                    s \<leftarrow> flush_loop ev c (unat data_to_send) ack indx s;
                    d \<leftarrow> conns s c;
                    timer_set (Rtrsn c) (rto d) s }
          else Some s }"

text \<open>
  \<open>snd_window\<close> is the body of \<open>update_snd_window\<close> up to its \<^verbatim>\<open>EXIT\<close> label: the descriptor it
  leaves, the amount and position of the data to send, and the process it awakes (\<open>0\<close> for none).
\<close>

definition snd_ack :: "tcp_conn_desc \<Rightarrow> u32 \<Rightarrow> int \<Rightarrow> tcp_conn_desc \<times> nat" where
  "snd_ack d ack_seq wnd_cur =
     (let q = snd_queue d;
          word_to_ack = of_int (CHK_OVRFLW ack_seq (sq_wnd_min q) - uint (sq_wnd_min q)) :: u32;
          q = q\<lparr>sq_wnd_min := sq_wnd_min q + word_to_ack\<rparr>;
          buf_max = uint (sq_wnd_min q) + uint (sq_buf_size q);
          b_free_size = of_int (buf_max - wnd_cur) :: u32
      in if b_free_size \<ge> pnd_data q \<and> pnd_data q > 0 \<and> process_context d \<noteq> 0
         then (d\<lparr>snd_queue := q\<lparr>pnd_data := 0\<rparr>, process_context := 0\<rparr>, process_context d)
         else (d\<lparr>snd_queue := q\<rparr>, 0))"

definition snd_window :: "tcp_conn_desc \<Rightarrow> u32 \<Rightarrow> bool \<Rightarrow> tcp_conn_desc \<times> u32 \<times> u32 \<times> nat" where
  "snd_window d ack_seq skip_ack =
     (let q = snd_queue d;
          wnd_max = uint (sq_wnd_min q) + uint (sq_wnd_size q);
          wnd_cur = CHK_OVRFLW (cur q) (sq_wnd_min q);
          wnd_nxt = CHK_OVRFLW (nxt_snd q) (sq_wnd_min q);
          smss = of_nat SMSS :: u32
      in if duplicated_ack d = 0
      then let (d, wake) = (if \<not> skip_ack then snd_ack d ack_seq wnd_cur else (d, 0));
               q = snd_queue d
           in if \<not> wnd_cur \<le> wnd_max \<and> \<not> (wnd_cur \<ge> wnd_max \<and> wnd_nxt \<le> wnd_max)
              then (d, 0, nxt_snd q, wake)
              else let wnd_l_limit = nxt_snd q;
                       wnd_r_limit = (if wnd_cur \<le> wnd_max then cur q else of_int wnd_max);
                       w_size = (if wnd_r_limit > wnd_l_limit then wnd_r_limit - wnd_l_limit
                                 else of_int (uint wnd_r_limit + (4294967296 - uint wnd_l_limit)));
                       expected_ack = of_int (wnd_nxt - uint (sq_wnd_min q)) :: u32;
                       data_to_send = (if expected_ack = 0 then w_size
                                       else if w_size \<ge> smss then w_size - w_size mod smss
                                       else if w_size \<ge> max_adv_wnd d div 2 then w_size
                                       else 0)
                   in (d\<lparr>snd_queue := q\<lparr>nxt_snd := nxt_snd q + data_to_send\<rparr>,
                         flight_size := of_int (wnd_nxt - uint (sq_wnd_min q))\<rparr>,
                       data_to_send, wnd_l_limit, wake)
      else if duplicated_ack d = 1 \<or> duplicated_ack d = 2
      then let w_size = (if wnd_max > uint (nxt_snd q) then of_int (wnd_max - uint (nxt_snd q)) else 0) :: u32;
               fsize = nxt_snd q - sq_wnd_min q;
               fsize_limit = cwnd d + 2 * smss
           in if w_size \<ge> smss \<and> fsize + smss \<le> fsize_limit \<and> wnd_cur \<ge> wnd_nxt + int SMSS
              then (d\<lparr>snd_queue := q\<lparr>nxt_snd := nxt_snd q + smss\<rparr>, flight_size := of_int (wnd_nxt - wnd_cur)\<rparr>,
                    smss, nxt_snd q, 0)
              else (d, 0, 3, 0)
      else if duplicated_ack d = 3 then (d, smss, ack_seq, 0)
      else let w_size = (if wnd_max > wnd_nxt then of_int (wnd_max - wnd_nxt) else 0) :: u32
           in if w_size \<ge> smss \<and> wnd_cur \<ge> wnd_nxt + int SMSS
              then (d\<lparr>snd_queue := q\<lparr>nxt_snd := nxt_snd q + smss\<rparr>, flight_size := of_int (wnd_nxt - wnd_cur)\<rparr>,
                    smss, nxt_snd q, 0)
              else (d, 0, nxt_snd q, 0))"

definition fin_after_flush :: "(net \<Rightarrow> net) \<Rightarrow> nat \<Rightarrow> u32 \<Rightarrow> net \<Rightarrow> net option" where
  "fin_after_flush ev c ack s =
     do { d \<leftarrow> conns s c;
          if sq_wnd_min (snd_queue d) = cur (snd_queue d) \<and> (status d = FIN_WAIT_1_PENDING \<or> status d = LAST_ACK_PENDING)
          then do {
            s \<leftarrow> upd_conn c (\<lambda>d. d\<lparr>status := (if status d = FIN_WAIT_1_PENDING then FIN_WAIT_1 else LAST_ACK)\<rparr>) s;
            s \<leftarrow> timer_unlink (Pgybg c) s;
            d \<leftarrow> conns s c;
            s \<leftarrow> SEND_PACKET_TCP ev c [] 0 ack (FLG_FIN OR FLG_ACK) (nxt_snd (snd_queue d)) s;
            d \<leftarrow> conns s c;
            timer_set (Rtrsn c) (rto d) s }
          else Some s }"

definition update_snd_window :: "(net \<Rightarrow> net) \<Rightarrow> nat \<Rightarrow> u32 \<Rightarrow> bool \<Rightarrow> net \<Rightarrow> net option" where
  "update_snd_window ev c ack_seq skip_ack s =
     do { d \<leftarrow> conns s c;
          let ack = nxt_rcv (rcv_queue d);
          if duplicated_ack d > 2 \<and> ack_seq = 0 then Some s
          else do {
            let (d', data_to_send, indx, wake) = snd_window d ack_seq skip_ack;
            let s = s\<lparr>conns := (conns s)(c \<mapsto> d')\<rparr>;
            s \<leftarrow> (if wake \<noteq> 0 then awake wake s else Some s);
            s \<leftarrow> flush_data ev c data_to_send ack indx s;
            fin_after_flush ev c ack s } }"

section \<open>Acknowledgements and timers\<close>

text \<open>
  The update of the descriptor by \<open>rcv_ack\<close>, apart from the timer. \<open>now\<close> is \<^verbatim>\<open>system.time\<close> and
  \<open>estimate\<close> the floating-point smoothing. Truncating \<open>1.5 * srtt\<close> to an unsigned integer it does
  not fit is undefined.
\<close>

definition rto_of :: "u32 \<Rightarrow> u32 option" where
  "rto_of sr = (if unat sr * 3 div 2 < 2 ^ 32
     then Some (min (of_nat RTO_UBOUND) (max (of_nat RTO_LBOUND) (of_nat (unat sr * 3 div 2))) div 10) else None)"

definition ack_new :: "(u32 \<Rightarrow> u32 \<Rightarrow> u32) \<Rightarrow> u32 \<Rightarrow> bool \<Rightarrow> tcp_conn_desc \<Rightarrow> tcp_conn_desc option" where
  "ack_new estimate now measured d =
     (let d = (if duplicated_ack d > 0 then d\<lparr>duplicated_ack := 0, cwnd := ssthresh d\<rparr> else d);
          d = (if cwnd d \<le> ssthresh d then d\<lparr>cwnd := cwnd d + of_nat SMSS\<rparr>
               else d\<lparr>cwnd := cwnd d + of_nat (SMSS * SMSS) div cwnd d\<rparr>)
      in if measured
         then do { let sr = estimate (srtt d) (now - last_sent_time d);
                   r \<leftarrow> rto_of sr;
                   Some (d\<lparr>srtt := sr, rto := r, last_sent_time := now\<rparr>) }
         else Some d)"

definition ack_dup :: "tcp_conn_desc \<Rightarrow> tcp_conn_desc" where
  "ack_dup d =
     (let d = d\<lparr>duplicated_ack := duplicated_ack d + 1\<rparr>
      in if duplicated_ack d = 3
         then let st = max (flight_size d div 2) (of_nat (2 * SMSS))
              in d\<lparr>ssthresh := st, cwnd := st + of_nat (3 * SMSS)\<rparr>
         else d)"

definition ack_wnd :: "tcp_conn_desc \<Rightarrow> tcp_conn_desc" where
  "ack_wnd d =
     (let d = (if cwnd d > of_nat TCP_SND_SIZE then d\<lparr>cwnd := of_nat TCP_SND_SIZE\<rparr> else d)
      in d\<lparr>snd_queue := (snd_queue d)\<lparr>sq_wnd_size := min (cwnd d) (rcv_wmd_adv d)\<rparr>\<rparr>)"

definition rcv_ack :: "(net \<Rightarrow> net) \<Rightarrow> nat \<Rightarrow> u32 \<Rightarrow> net \<Rightarrow> net option" where
  "rcv_ack ev c ack_seq s =
     do { d \<leftarrow> conns s c;
          let q = snd_queue d;
          let a = CHK_OVRFLW ack_seq (sq_wnd_min q);
          let n = CHK_OVRFLW (nxt_snd q) (sq_wnd_min q);
          if uint (sq_wnd_min q) \<le> a
          then do {
            s \<leftarrow> (if uint (sq_wnd_min q) < a
                  then do {
                    s \<leftarrow> (if nxt_snd q = ack_seq then timer_reset (Rtrsn c) s
                          else if n > a then timer_set (Rtrsn c) (rto d) s
                          else if n < a then do { s \<leftarrow> timer_set (Rtrsn c) (rto d) s;
                                                  upd_sq c (\<lambda>q. q\<lparr>nxt_snd := ack_seq\<rparr>) s }
                          else Some s);
                    d \<leftarrow> conns s c;
                    d \<leftarrow> ack_new (fp_srtt s) (time s) (n < a) d;
                    Some (s\<lparr>conns := (conns s)(c \<mapsto> d)\<rparr>) }
                  else upd_conn c ack_dup s);
            s \<leftarrow> upd_conn c ack_wnd s;
            update_snd_window ev c ack_seq False s }
          else Some s }"

definition set_timer_val :: "timer_id \<Rightarrow> u32 \<Rightarrow> net \<Rightarrow> net option" where
  "set_timer_val i v s = do { t \<leftarrow> get_timer i s; put_timer i (t\<lparr>val := v\<rparr>) s }"

definition rtrsn_timer_handler :: "(net \<Rightarrow> net) \<Rightarrow> nat \<Rightarrow> net \<Rightarrow> net option" where
  "rtrsn_timer_handler ev c s =
     do { d \<leftarrow> conns s c;
          if status d = ESTABILISHED \<or> status d = FIN_WAIT_1_PENDING
          then do {
            s \<leftarrow> upd_conn c (\<lambda>d. d\<lparr>rto := min (rto d * 2) (of_nat DEFAULT_RTO), cwnd := of_nat SMSS,
                   snd_queue := (snd_queue d)\<lparr>nxt_snd := sq_wnd_min (snd_queue d),
                                              sq_wnd_size := min (of_nat SMSS) (rcv_wmd_adv d)\<rparr>,
                   duplicated_ack := 0\<rparr>) s;
            update_snd_window ev c 0 True s }
          else if status d = SYN_SENT
          then do {
            s \<leftarrow> SEND_PACKET_TCP ev c [] 0 0 FLG_SYN (nxt_snd (snd_queue d)) s;
            d \<leftarrow> conns s c;
            set_timer_val (Rtrsn c) (rto d) s }
          else if status d = SYN_RCVD
          then do {
            s \<leftarrow> upd_rq c (\<lambda>q. q\<lparr>nxt_rcv := 0\<rparr>) s;
            s \<leftarrow> SEND_PACKET_TCP ev c [] 0 0 (FLG_SYN OR FLG_ACK) (nxt_snd (snd_queue d)) s;
            d \<leftarrow> conns s c;
            set_timer_val (Rtrsn c) (rto d) s }
          else if status d = FIN_WAIT_1 \<or> status d = LAST_ACK
          then do {
            s \<leftarrow> set_timer_val (Rtrsn c) (rto d) s;
            s \<leftarrow> SEND_PACKET_TCP ev c [] 0 (nxt_rcv (rcv_queue d)) (FLG_FIN OR FLG_ACK) (nxt_snd (snd_queue d)) s;
            Some (s\<lparr>flush_network := True\<rparr>) }
          else Some s }"

definition pgybg_timer_handler :: "(net \<Rightarrow> net) \<Rightarrow> nat \<Rightarrow> net \<Rightarrow> net option" where
  "pgybg_timer_handler ev c s =
     do { d \<leftarrow> conns s c;
          let s = s\<lparr>flush_network := True\<rparr>;
          if ref (pgybg_timer d) \<and> rq_wnd_size (rcv_queue d) > 1400
          then do {
            s \<leftarrow> SEND_PACKET_TCP ev c [] 0 (nxt_rcv (rcv_queue d)) FLG_ACK (nxt_snd (snd_queue d)) s;
            s \<leftarrow> timer_reset (Pgybg c) s;
            upd_rq c (\<lambda>q. q\<lparr>last_adv_wnd := rq_wnd_size q\<rparr>) s }
          else set_timer_val (Pgybg c) (of_nat PIGGYBACKING_TIMEOUT) s }"

section \<open>The receive window\<close>

text \<open>
  The scan of \<^verbatim>\<open>_update_rcv_window_and_ack\<close> over the marked slots, from the first byte not yet
  read; its 64-bit index is a natural number.
\<close>

function rcv_scan :: "(nat \<Rightarrow> bool) \<Rightarrow> nat \<Rightarrow> nat \<Rightarrow> nat \<Rightarrow> nat \<Rightarrow> nat" where
  "rcv_scan marks sz wnd_max max_seq i =
     (if i < wnd_max \<and> i < max_seq \<and> marks (i mod 2 ^ 32 mod sz) then rcv_scan marks sz wnd_max max_seq (i + 1) else i)"
  by pat_completeness auto
termination
  by (relation "measure (\<lambda>(marks, sz, wnd_max, max_seq, i). wnd_max - i)") auto

declare rcv_scan.simps [simp del]

definition clear_slots :: "(nat \<Rightarrow> bool) \<Rightarrow> nat \<Rightarrow> nat \<Rightarrow> nat \<Rightarrow> nat \<Rightarrow> bool" where
  "clear_slots marks sz lo hi =
     (if lo < hi then (\<lambda>i. marks i \<and> \<not> (lo \<le> i \<and> i \<le> hi))
      else if lo > hi then (\<lambda>i. marks i \<and> \<not> (lo \<le> i \<and> i < sz) \<and> \<not> i \<le> hi)
      else marks)"

definition scan_rcv_window_and_ack :: "tcp_rcv_queue \<Rightarrow> bool \<times> tcp_rcv_queue" where
  "scan_rcv_window_and_ack q =
     (let start = unat (rq_wnd_min q);
          index = rcv_scan (buf_state q) (unat (rq_buf_size q)) (start + unat (rq_buf_size q)) (unat (max_seq_num q)) start;
          n = CHK_OVRFLW (nxt_rcv q) (rq_wnd_min q);
          adv = (int index > n);
          q = (if adv then q\<lparr>nxt_rcv := of_nat (if index > 4294967295 then index - 4294967295 else index)\<rparr> else q);
          n = (if adv then int index else n);
          r = (n > uint (rq_wnd_min q));
          q = (if nxt_rcv q = max_seq_num q then q\<lparr>is_wnd_hole := False, max_seq_num := 0\<rparr> else q);
          q = (if start \<noteq> index
               then q\<lparr>buf_state := clear_slots (buf_state q) (unat (rq_buf_size q))
                       (SLOT_WND (of_nat start) (rq_buf_size q)) (SLOT_WND (of_nat index) (rq_buf_size q))\<rparr>
               else q)
      in (r, q))"

definition update_rcv_window_and_ack :: "tcp_rcv_queue \<Rightarrow> u32 \<Rightarrow> u32 \<Rightarrow> bool \<times> tcp_rcv_queue" where
  "update_rcv_window_and_ack q len seq =
     (if nxt_rcv q = seq \<and> \<not> is_wnd_hole q
      then (True, q\<lparr>nxt_rcv := nxt_rcv q + len, rq_wnd_size := rq_wnd_size q - len\<rparr>)
      else scan_rcv_window_and_ack q)"

definition buf_write :: "(nat \<Rightarrow> u8) \<Rightarrow> nat \<Rightarrow> u8 list \<Rightarrow> nat \<Rightarrow> u8" where
  "buf_write f off vs = (\<lambda>i. if off \<le> i \<and> i < off + length vs then vs ! (i - off) else f i)"

fun mark_slots :: "nat list \<Rightarrow> tcp_rcv_queue \<Rightarrow> tcp_rcv_queue" where
  "mark_slots [] q = q"
| "mark_slots (i # is) q =
     mark_slots is (if buf_state q i then q
                    else q\<lparr>buf_state := (buf_state q)(i := True), rq_wnd_size := rq_wnd_size q - 1\<rparr>)"

text \<open>
  Storing the payload \<open>pl\<close> of a segment that lies in the window. \<open>sq64\<close> is the sequence number
  on the 64-bit scale; the branch that crosses the end of the ring compares with the 32-bit sum.
\<close>

definition store_segment :: "tcp_rcv_queue \<Rightarrow> u8 list \<Rightarrow> u32 \<Rightarrow> int \<Rightarrow> u16 \<Rightarrow> tcp_rcv_queue option" where
  "store_segment q pl seq sq64 len =
     (let sz = unat (rq_buf_size q);
          low_index = SLOT_WND seq (rq_buf_size q);
          hi_index = SLOT_WND (seq + ucast len) (rq_buf_size q);
          m = max_seq_num q;
          hole = (nxt_rcv q \<noteq> seq \<or> is_wnd_hole q)
      in if low_index < hi_index
         then if low_index + length pl \<le> sz
              then let q = q\<lparr>rq_buf := buf_write (rq_buf q) low_index pl\<rparr>
                   in Some (if hole
                            then mark_slots [low_index ..< hi_index]
                                   (q\<lparr>is_wnd_hole := True,
                                      max_seq_num := (if uint m < sq64 + int (unat len) then seq + ucast len else m)\<rparr>)
                            else q)
              else None
         else let len_1 = sz - low_index;
                  len_2 = length pl - len_1
              in if len_1 \<le> length pl \<and> len_2 \<le> sz
                 then let q = q\<lparr>rq_buf := buf_write (buf_write (rq_buf q) low_index (take len_1 pl)) 0 (drop len_1 pl)\<rparr>
                      in Some (if hole
                               then mark_slots ([low_index ..< low_index + len_1] @ [0 ..< len_2])
                                      (q\<lparr>is_wnd_hole := True,
                                         max_seq_num := (if m < seq + ucast len then seq + ucast len else m)\<rparr>)
                               else q)
                 else None)"

section \<open>Receiving a segment\<close>

text \<open>
  \<open>rcv_packet_tcp\<close> in the order of its parts. A part answers whether the code jumps to the
  label \<^verbatim>\<open>EXIT\<close>. \<open>seg\<close> holds what the function reads from the packet and its arguments.
\<close>

record seg =
  sg_src_ip :: u32
  sg_dst_ip :: u32
  sg_src_port :: u16
  sg_dst_port :: u16
  sg_seq :: u32
  sg_ack :: u32
  sg_flags :: u8
  sg_wnd :: u32
  sg_len :: u16
  sg_payload :: "u8 list"

abbreviation flag :: "u8 \<Rightarrow> u8 \<Rightarrow> bool" where
  "flag f m \<equiv> f AND m \<noteq> 0"

definition conns_put :: "u16 \<Rightarrow> u16 \<Rightarrow> nat \<Rightarrow> net \<Rightarrow> net option" where
  "conns_put sport dport c s =
     do { m \<leftarrow> tcp_conn_map_put (tcp_conns_map (tcp_desc_of s)) sport dport c;
          Some (s\<lparr>tcp_desc_of := (tcp_desc_of s)\<lparr>tcp_conns_map := m\<rparr>\<rparr>) }"

definition conns_remove :: "u32 \<Rightarrow> u32 \<Rightarrow> u16 \<Rightarrow> u16 \<Rightarrow> net \<Rightarrow> net option" where
  "conns_remove sip dip sport dport s =
     do { m \<leftarrow> tcp_conn_map_remove (tcp_conns_map (tcp_desc_of s)) sip dip sport dport s;
          Some (s\<lparr>tcp_desc_of := (tcp_desc_of s)\<lparr>tcp_conns_map := m\<rparr>\<rparr>) }"

definition req_remove :: "u32 \<Rightarrow> u32 \<Rightarrow> u16 \<Rightarrow> u16 \<Rightarrow> net \<Rightarrow> net option" where
  "req_remove sip dip sport dport s =
     do { m \<leftarrow> tcp_conn_map_remove (req_map (tcp_desc_of s)) sip dip sport dport s;
          Some (s\<lparr>tcp_desc_of := (tcp_desc_of s)\<lparr>req_map := m\<rparr>\<rparr>) }"

definition rcv_parse :: "data_sckt_buf \<Rightarrow> u32 \<Rightarrow> u32 \<Rightarrow> u16 \<Rightarrow> seg option" where
  "rcv_parse b sip dip len =
     do { t \<leftarrow> transport_hdr b;
          sport \<leftarrow> rd_word (data b) t;
          dport \<leftarrow> rd_word (data b) (t + 2);
          ack \<leftarrow> rd_dword (data b) (t + 8);
          seq \<leftarrow> rd_dword (data b) (t + 4);
          flags \<leftarrow> rd (data b) (t + 13);
          wnd \<leftarrow> rd_word (data b) (t + 14);
          Some \<lparr>sg_src_ip = sip, sg_dst_ip = dip, sg_src_port = sport, sg_dst_port = dport, sg_seq = seq,
                sg_ack = ack, sg_flags = flags, sg_wnd = ucast wnd, sg_len = len,
                sg_payload = drop (t + HEADER_TCP) (data b)\<rparr> }"

definition rcv_reset :: "seg \<Rightarrow> nat \<Rightarrow> nat \<Rightarrow> nat \<Rightarrow> net \<Rightarrow> (bool \<times> net) option" where
  "rcv_reset g conn req lst s =
     (if flag (sg_flags g) FLG_RST
      then if conn \<noteq> 0
           then do { s \<leftarrow> timer_reset (Rtrsn conn) s;
                     s \<leftarrow> upd_conn conn (status_update (\<lambda>_. RESET)) s;
                     d \<leftarrow> conns s conn;
                     if ref_count d = 0
                     then do { s \<leftarrow> conns_remove (src_ip d) (dst_ip d) (src_port d) (dst_port d) s;
                               s \<leftarrow> tcp_conn_desc_free conn s;
                               Some (True, s) }
                     else Some (False, s) }
           else if req \<noteq> 0 then None
           else if lst \<noteq> 0
           then do { l \<leftarrow> conns s lst;
                     p \<leftarrow> tcp_conn_map_get (back_log_i_map l) (sg_dst_ip g) (sg_src_ip g) (sg_dst_port g) (sg_src_port g) s;
                     if p \<noteq> 0
                     then do { m \<leftarrow> tcp_conn_map_remove (back_log_i_map l) (sg_dst_ip g) (sg_src_ip g) (sg_dst_port g) (sg_src_port g) s;
                               s \<leftarrow> upd_conn lst (back_log_i_map_update (\<lambda>_. m)) s;
                               s \<leftarrow> tcp_conn_desc_free p s;
                               Some (False, s) }
                     else Some (False, s) }
           else Some (False, s)
      else Some (False, s))"

text \<open>
  The client's answer to \<^verbatim>\<open>SYN\<close> and \<^verbatim>\<open>ACK\<close>. On a repeated one the code sends \<^verbatim>\<open>ack_num\<close> without
  having set it, which is undefined.
\<close>

definition rcv_syn_ack :: "(net \<Rightarrow> net) \<Rightarrow> seg \<Rightarrow> nat \<Rightarrow> net \<Rightarrow> net option" where
  "rcv_syn_ack ev g req s =
     (if req \<noteq> 0
      then do { let ack = sg_seq g + 1;
                s \<leftarrow> upd_rq req (\<lambda>q. q\<lparr>nxt_rcv := ack\<rparr>) s;
                s \<leftarrow> upd_sq req (\<lambda>q. q\<lparr>nxt_snd := nxt_snd q + 1\<rparr>) s;
                d \<leftarrow> conns s req;
                s \<leftarrow> SEND_PACKET_TCP ev req [] 0 ack FLG_ACK (nxt_snd (snd_queue d)) s;
                s \<leftarrow> req_remove (sg_dst_ip g) (sg_src_ip g) (sg_dst_port g) (sg_src_port g) s;
                s \<leftarrow> conns_put (sg_dst_port g) (sg_src_port g) req s;
                s \<leftarrow> upd_conn req (\<lambda>d. d\<lparr>status := ESTABILISHED,
                       snd_queue := (snd_queue d)\<lparr>cur := nxt_snd (snd_queue d)\<rparr>\<rparr>) s;
                s \<leftarrow> upd_max_adv_wnd req (sg_wnd g) s;
                s \<leftarrow> upd_rq req (\<lambda>q. q\<lparr>rq_wnd_min := ack\<rparr>) s;
                s \<leftarrow> upd_sq req (\<lambda>q. q\<lparr>sq_wnd_min := nxt_snd q\<rparr>) s;
                s \<leftarrow> timer_reset (Rtrsn req) s;
                d \<leftarrow> conns s req;
                s \<leftarrow> awake (process_context d) s;
                upd_conn req (process_context_update (\<lambda>_. 0)) s }
      else None)"

definition rcv_syn :: "(net \<Rightarrow> net) \<Rightarrow> seg \<Rightarrow> nat \<Rightarrow> net \<Rightarrow> net option" where
  "rcv_syn ev g lst s =
     do { let ack = sg_seq g + 1;
          l \<leftarrow> conns s lst;
          n \<leftarrow> tcp_conn_map_get (back_log_i_map l) (sg_dst_ip g) (sg_src_ip g) (sg_dst_port g) (sg_src_port g) s;
          (go, n, s) \<leftarrow>
            (if n = 0
             then do { let (n, s) = tcp_conn_desc_int s;
                       s \<leftarrow> upd_conn n (\<lambda>d. d\<lparr>src_ip := sg_dst_ip g, dst_ip := sg_src_ip g,
                              src_port := sg_dst_port g, dst_port := sg_src_port g\<rparr>) s;
                       m \<leftarrow> tcp_conn_map_put (back_log_i_map l) (sg_dst_port g) (sg_src_port g) n;
                       s \<leftarrow> upd_conn lst (back_log_i_map_update (\<lambda>_. m)) s;
                       s \<leftarrow> upd_conn n (\<lambda>d. d\<lparr>snd_queue := (snd_queue d)\<lparr>nxt_snd := nxt_snd (snd_queue d) + 1\<rparr>,
                              status := SYN_RCVD,
                              rcv_queue := (rcv_queue d)\<lparr>nxt_rcv := ack, rq_wnd_min := ack\<rparr>\<rparr>) s;
                       d \<leftarrow> conns s n;
                       s \<leftarrow> timer_set (Rtrsn n) (rto d) s;
                       Some (True, n, s) }
             else do { d \<leftarrow> conns s n; Some (status d = SYN_RCVD, n, s) });
          if go
          then do { s \<leftarrow> upd_max_adv_wnd n (sg_wnd g) s;
                    d \<leftarrow> conns s n;
                    SEND_PACKET_TCP ev n [] 0 ack (FLG_SYN OR FLG_ACK) (nxt_snd (snd_queue d)) s }
          else Some s }"

definition rcv_hs_ack :: "seg \<Rightarrow> nat \<Rightarrow> net \<Rightarrow> (bool \<times> net) option" where
  "rcv_hs_ack g lst s =
     do { l \<leftarrow> conns s lst;
          n \<leftarrow> tcp_conn_map_get (back_log_i_map l) (sg_dst_ip g) (sg_src_ip g) (sg_dst_port g) (sg_src_port g) s;
          if n = 0 then Some (False, s)
          else do {
            d \<leftarrow> conns s n;
            if nxt_snd (snd_queue d) + 1 = sg_ack g
            then do {
              m \<leftarrow> tcp_conn_map_remove (back_log_i_map l) (sg_dst_ip g) (sg_src_ip g) (sg_dst_port g) (sg_src_port g) s;
              s \<leftarrow> upd_conn lst (\<lambda>l. l\<lparr>back_log_i_map := m, back_log_c_queue := back_log_c_queue l @ [n]\<rparr>) s;
              s \<leftarrow> conns_put (sg_dst_port g) (sg_src_port g) n s;
              s \<leftarrow> upd_conn n (\<lambda>d. d\<lparr>status := ESTABILISHED,
                     snd_queue := (snd_queue d)\<lparr>nxt_snd := nxt_snd (snd_queue d) + 1,
                       cur := nxt_snd (snd_queue d) + 1, sq_wnd_min := nxt_snd (snd_queue d) + 1\<rparr>,
                     rcv_wmd_adv := sg_wnd g\<rparr>) s;
              s \<leftarrow> upd_max_adv_wnd n (sg_wnd g) s;
              l \<leftarrow> conns s lst;
              s \<leftarrow> (if process_context l \<noteq> 0
                    then do { s \<leftarrow> awake (process_context l) s;
                              upd_conn lst (process_context_update (\<lambda>_. 0)) s }
                    else Some s);
              s \<leftarrow> timer_reset (Rtrsn n) s;
              Some (True, s) }
            else Some (True, s) } }"

text \<open>The closing handshakes. The result is \<open>free_conn\<close>, \<open>no_piggy\<close> and the state.\<close>

definition conns_remove_conn :: "nat \<Rightarrow> net \<Rightarrow> net option" where
  "conns_remove_conn c s =
     do { d \<leftarrow> conns s c; conns_remove (src_ip d) (dst_ip d) (src_port d) (dst_port d) s }"

definition rcv_close :: "(net \<Rightarrow> net) \<Rightarrow> seg \<Rightarrow> nat \<Rightarrow> net \<Rightarrow> (bool \<times> bool \<times> net) option" where
  "rcv_close ev g c s =
     do { d \<leftarrow> conns s c;
          let fin = flag (sg_flags g) FLG_FIN;
          let ack = flag (sg_flags g) FLG_ACK;
          let fin_num = nxt_snd (snd_queue d);
          let ack_fin_num = (if sg_len g > 0 then sg_seq g + ucast (sg_len g) + 1 else sg_seq g + 1);
          if fin \<and> ack \<and> status d = FIN_WAIT_1
          then if fin_num + 1 = sg_ack g
               then do { s \<leftarrow> upd_conn c (status_update (\<lambda>_. CLOSED)) s;
                         s \<leftarrow> SEND_PACKET_TCP ev c [] 0 ack_fin_num FLG_ACK (fin_num + 1) s;
                         s \<leftarrow> conns_remove_conn c s;
                         s \<leftarrow> upd_sq c (\<lambda>q. q\<lparr>nxt_snd := fin_num + 1\<rparr>) s;
                         s \<leftarrow> timer_reset (Rtrsn c) s;
                         Some (True, True, s) }
               else Some (False, False, s)
          else if ack \<and> status d = FIN_WAIT_1 \<and> fin_num + 1 = sg_ack g
          then do { s \<leftarrow> upd_conn c (status_update (\<lambda>_. FIN_WAIT_2)) s;
                    s \<leftarrow> timer_reset (Rtrsn c) s;
                    Some (False, False, s) }
          else if fin \<and> status d = FIN_WAIT_2
          then do { s \<leftarrow> upd_conn c (status_update (\<lambda>_. CLOSED)) s;
                    s \<leftarrow> SEND_PACKET_TCP ev c [] 0 ack_fin_num FLG_ACK (fin_num + 1) s;
                    s \<leftarrow> upd_sq c (\<lambda>q. q\<lparr>nxt_snd := fin_num\<rparr>) s;
                    s \<leftarrow> timer_reset (Rtrsn c) s;
                    s \<leftarrow> conns_remove_conn c s;
                    Some (True, True, s) }
          else if fin \<and> status d = FIN_WAIT_1 then Some (False, False, s)
          else if fin \<and> status d = ESTABILISHED
          then do { let in_order = (sg_seq g = nxt_rcv (rcv_queue d));
                    s \<leftarrow> (if in_order
                          then do { s \<leftarrow> upd_conn c (status_update (\<lambda>_. CLOSE_WAIT)) s;
                                    if process_context d \<noteq> 0 then awake (process_context d) s else Some s }
                          else Some s);
                    s \<leftarrow> SEND_PACKET_TCP ev c [] 0 (if in_order then ack_fin_num else nxt_rcv (rcv_queue d)) FLG_ACK fin_num s;
                    s \<leftarrow> upd_sq c (\<lambda>q. q\<lparr>nxt_snd := fin_num\<rparr>) s;
                    s \<leftarrow> timer_reset (Rtrsn c) s;
                    Some (False, True, s) }
          else if ack \<and> status d = LAST_ACK \<and> fin_num + 1 = sg_ack g
          then do { s \<leftarrow> timer_reset (Rtrsn c) s;
                    s \<leftarrow> conns_remove_conn c s;
                    Some (True, False, s) }
          else Some (False, False, s) }"

definition in_window :: "tcp_rcv_queue \<Rightarrow> u32 \<Rightarrow> int \<times> int \<times> int" where
  "in_window q seq =
     (let wnd_max = uint (rq_wnd_min q) + uint (rq_buf_size q);
          n = CHK_OVRFLW (nxt_rcv q) (rq_wnd_min q);
          sq64 = (if wnd_max > 4294967295 \<and> seq \<le> rq_wnd_min q + rq_buf_size q
                  then uint seq + 4294967295 else uint seq)
      in (wnd_max, n, sq64))"

definition rcv_data :: "(net \<Rightarrow> net) \<Rightarrow> seg \<Rightarrow> nat \<Rightarrow> bool \<Rightarrow> net \<Rightarrow> (bool \<times> net) option" where
  "rcv_data ev g c no_piggy s =
     do { s \<leftarrow> upd_rq c (\<lambda>q. q\<lparr>rq_seq_num := sg_seq g, rq_data_len := ucast (sg_len g)\<rparr>) s;
          d \<leftarrow> conns s c;
          s \<leftarrow> (if val (pgybg_timer d) = 0 \<and> \<not> no_piggy
                then timer_set (Pgybg c) (of_nat PIGGYBACKING_TIMEOUT) s else Some s);
          d \<leftarrow> conns s c;
          let (wnd_max, n, sq64) = in_window (rcv_queue d) (sg_seq g);
          if sq64 \<ge> n \<and> sq64 + uint (sg_len g) \<le> wnd_max
          then do {
            pl \<leftarrow> rd_bytes (sg_payload g) 0 (unat (sg_len g));
            q \<leftarrow> store_segment (rcv_queue d) pl (sg_seq g) sq64 (sg_len g);
            let (is_new_data, q) = update_rcv_window_and_ack q (ucast (sg_len g)) (sg_seq g);
            s \<leftarrow> upd_rq c (\<lambda>_. q) s;
            if process_context d \<noteq> 0 \<and> is_new_data
            then do { s \<leftarrow> awake (process_context d) s;
                      s \<leftarrow> upd_conn c (process_context_update (\<lambda>_. 0)) s;
                      Some (False, if nxt_rcv q - rq_wnd_min q = 0 then net_panic s else s) }
            else Some (False, s) }
          else if sq64 < n
          then do { s \<leftarrow> upd_conn c (pending_ack_update (\<lambda>_. 0)) s;
                    s \<leftarrow> timer_reset (Pgybg c) s;
                    s \<leftarrow> update_adv_wnd ev c s;
                    Some (True, s) }
          else Some (True, s) }"

text \<open>The delayed acknowledgement, also at the end of \<open>dequeue_packet_tcp\<close>.\<close>

definition delayed_ack :: "(net \<Rightarrow> net) \<Rightarrow> nat \<Rightarrow> net \<Rightarrow> net option" where
  "delayed_ack ev c s =
     do { d \<leftarrow> conns s c;
          let q = rcv_queue d;
          if (rq_wnd_size q \<ge> last_adv_wnd q + of_nat SMSS \<or> rq_wnd_size q \<ge> of_nat (TCP_RCV_SIZE - SMSS)) \<and> pending_ack d \<ge> 2
          then do { s \<leftarrow> upd_conn c (\<lambda>d. d\<lparr>pending_ack := 0, rcv_queue := (rcv_queue d)\<lparr>last_adv_wnd := rq_wnd_size (rcv_queue d)\<rparr>\<rparr>) s;
                    s \<leftarrow> timer_reset (Pgybg c) s;
                    update_adv_wnd ev c s }
          else Some s }"

definition rcv_exit :: "(net \<Rightarrow> net) \<Rightarrow> nat \<Rightarrow> bool \<Rightarrow> u16 \<Rightarrow> net \<Rightarrow> net option" where
  "rcv_exit ev c free_conn len s =
     do { s \<leftarrow> (if c \<noteq> 0 \<and> len \<noteq> 0
                then do { s \<leftarrow> upd_conn c (\<lambda>d. d\<lparr>pending_ack := pending_ack d + 1\<rparr>) s; delayed_ack ev c s }
                else Some s);
          let s = free_sckt s;
          if free_conn then tcp_conn_desc_free c s else Some s }"

definition rcv_established :: "(net \<Rightarrow> net) \<Rightarrow> seg \<Rightarrow> nat \<Rightarrow> net \<Rightarrow> net option" where
  "rcv_established ev g c s =
     do { s \<leftarrow> upd_max_adv_wnd c (sg_wnd g) s;
          (free_conn, no_piggy, s) \<leftarrow> rcv_close ev g c s;
          (go_exit, s) \<leftarrow> (if sg_len g \<noteq> 0 then rcv_data ev g c no_piggy s else Some (False, s));
          s \<leftarrow> (if go_exit then Some s
                else do {
                  d \<leftarrow> conns s c;
                  if CHK_OVRFLW (nxt_snd (snd_queue d)) (sq_wnd_min (snd_queue d)) - uint (sq_wnd_min (snd_queue d)) > 0
                     \<and> status d \<noteq> CLOSED
                  then rcv_ack ev c (sg_ack g) s else Some s });
          rcv_exit ev c free_conn (sg_len g) s }"

definition rcv_packet_tcp :: "(net \<Rightarrow> net) \<Rightarrow> data_sckt_buf \<Rightarrow> u32 \<Rightarrow> u32 \<Rightarrow> u16 \<Rightarrow> net \<Rightarrow> net option" where
  "rcv_packet_tcp ev b sip dip len s =
     do { t \<leftarrow> transport_hdr b;
          g \<leftarrow> rcv_parse b sip dip len;
          chk \<leftarrow> checksum_tcp (data b) t sip dip len HEADER_TCP;
          if chk \<noteq> 0 then rcv_exit ev 0 False len s
          else do {
            let td = tcp_desc_of s;
            let lookup = (\<lambda>s. tcp_conn_map_get (tcp_conns_map (tcp_desc_of s)) dip sip (sg_dst_port g) (sg_src_port g) s);
            conn \<leftarrow> lookup s;
            req \<leftarrow> tcp_conn_map_get (req_map td) dip (ip s) (sg_dst_port g) (sg_src_port g) s;
            lst \<leftarrow> tcp_conn_map_get (listen_map td) (ip s) 0 (sg_dst_port g) 0 s;
            if req = 0 \<and> lst = 0 \<and> conn = 0 then rcv_exit ev 0 False len s
            else do {
              (gone, s) \<leftarrow> rcv_reset g conn req lst s;
              let syn = flag (sg_flags g) FLG_SYN;
              let ack = flag (sg_flags g) FLG_ACK;
              if gone then rcv_exit ev conn False len s
              else if syn \<and> ack \<and> (req \<noteq> 0 \<or> conn \<noteq> 0)
              then do { s \<leftarrow> rcv_syn_ack ev g req s; rcv_exit ev conn False len s }
              else if syn \<and> lst \<noteq> 0
              then do { s \<leftarrow> rcv_syn ev g lst s; rcv_exit ev conn False len s }
              else do {
                (done, s) \<leftarrow> (if ack \<and> lst \<noteq> 0 then rcv_hs_ack g lst s else Some (False, s));
                if done then rcv_exit ev conn False len s
                else do {
                  conn \<leftarrow> lookup s;
                  if conn = 0 then rcv_exit ev 0 False len s
                  else rcv_established ev g conn s } } } } }"

end
