(* ===== verification/Ring.thy ===== *)
theory Ring
  imports Tcp
begin

text \<open>
  Reading and writing a ring buffer, the layout TCP gives its send and receive buffers: reads and
  writes that cross the end of the ring, in terms of the sequence of bytes they stand for.
\<close>

section \<open>Rings\<close>

definition ring_read :: "(nat \<Rightarrow> 'a) \<Rightarrow> nat \<Rightarrow> nat \<Rightarrow> nat \<Rightarrow> 'a list" where
  "ring_read f sz start n = map (\<lambda>i. f ((start + i) mod sz)) [0 ..< n]"

lemma length_ring_read [simp]: "length (ring_read f sz p n) = n"
  by (simp add: ring_read_def)

lemma ring_index:
  fixes p k sz :: nat
  assumes "0 < sz" and "k \<le> sz"
  shows "(p + k) mod sz = (if p mod sz + k < sz then p mod sz + k else p mod sz + k - sz)"
proof -
  have lt: "p mod sz < sz" using assms(1) by simp
  have e: "(p + k) mod sz = (p mod sz + k) mod sz" by (simp add: mod_add_left_eq)
  show ?thesis
  proof (cases "p mod sz + k < sz")
    case False
    then have "(p mod sz + k) mod sz = (p mod sz + k - sz) mod sz" by (simp add: le_mod_geq)
    also have "\<dots> = p mod sz + k - sz" using lt assms(2) by (intro mod_less) simp
    finally show ?thesis using False e by simp
  qed (simp add: e)
qed

lemma ring_read_low:
  assumes "0 < sz" and "p mod sz + n \<le> sz"
  shows "map f [p mod sz ..< p mod sz + n] = ring_read f sz p n"
  unfolding ring_read_def
proof (rule nth_equalityI)
  fix i assume "i < length (map f [p mod sz ..< p mod sz + n])"
  then show "map f [p mod sz ..< p mod sz + n] ! i = map (\<lambda>i. f ((p + i) mod sz)) [0 ..< n] ! i"
    using assms ring_index [of sz i p] by simp
qed simp

lemma ring_read_high:
  assumes "0 < sz" and "sz \<le> p mod sz + n" and "n \<le> sz"
  shows "map f [p mod sz ..< sz] @ map f [0 ..< n - (sz - p mod sz)] = ring_read f sz p n"
  unfolding ring_read_def
proof (rule nth_equalityI)
  have lt: "p mod sz < sz" using assms(1) by simp
  then show "length (map f [p mod sz ..< sz] @ map f [0 ..< n - (sz - p mod sz)]) = length (map (\<lambda>i. f ((p + i) mod sz)) [0 ..< n])"
    using assms by simp
  fix i assume "i < length (map f [p mod sz ..< sz] @ map f [0 ..< n - (sz - p mod sz)])"
  then have i: "i < n" using lt assms by simp
  show "(map f [p mod sz ..< sz] @ map f [0 ..< n - (sz - p mod sz)]) ! i = map (\<lambda>i. f ((p + i) mod sz)) [0 ..< n] ! i"
    using i lt assms ring_index [of sz i p] by (auto simp: nth_append add.commute)
qed

lemma ring_read_add: "ring_read f sz p (m + n) = ring_read f sz p m @ ring_read f sz (p + m) n"
  unfolding ring_read_def by (rule nth_equalityI) (auto simp: nth_append add.assoc)

lemma ring_read_cong: "(\<And>i. i < n \<Longrightarrow> f ((p + i) mod sz) = g ((p + i) mod sz)) \<Longrightarrow> ring_read f sz p n = ring_read g sz p n"
  by (simp add: ring_read_def)

lemma ring_read_mod: "p mod sz = p' mod sz \<Longrightarrow> ring_read f sz p n = ring_read f sz p' n"
  unfolding ring_read_def by (metis mod_add_left_eq)

definition ring_write :: "(nat \<Rightarrow> u8) \<Rightarrow> nat \<Rightarrow> nat \<Rightarrow> u8 list \<Rightarrow> nat \<Rightarrow> u8" where
  "ring_write f sz low vs =
     (if low + length vs \<le> sz then buf_write f low vs
      else buf_write (buf_write f low (take (sz - low) vs)) 0 (drop (sz - low) vs))"

lemma ring_write_read:
  assumes "0 < sz" and "length vs \<le> sz" and "low = p mod sz"
  shows "ring_read (ring_write f sz low vs) sz p (length vs) = vs"
  unfolding ring_read_def
proof (rule nth_equalityI)
  have lt: "low < sz" using assms by simp
  fix i assume "i < length (map (\<lambda>i. ring_write f sz low vs ((p + i) mod sz)) [0 ..< length vs])"
  then show "map (\<lambda>i. ring_write f sz low vs ((p + i) mod sz)) [0 ..< length vs] ! i = vs ! i"
    using lt assms ring_index [of sz i p] by (auto simp: ring_write_def buf_write_def)
qed simp

lemma ring_write_frame:
  assumes "0 < sz" and "u + length vs \<le> sz" and "low = (p + u) mod sz"
  shows "ring_read (ring_write f sz low vs) sz p u = ring_read f sz p u"
proof (rule ring_read_cong)
  fix i assume i: "i < u"
  define a where "a = p mod sz"
  have lt: "a < sz" using assms by (simp add: a_def)
  have low: "low = (if a + u < sz then a + u else a + u - sz)" using ring_index [of sz u p] assms by (simp add: a_def)
  have j: "(p + i) mod sz = (if a + i < sz then a + i else a + i - sz)" using ring_index [of sz i p] i assms by (simp add: a_def)
  show "ring_write f sz low vs ((p + i) mod sz) = f ((p + i) mod sz)"
    using i lt low j assms(2) by (auto simp: ring_write_def buf_write_def)
qed

lemma slot_add:
  assumes "m dvd 2 ^ 32"
  shows "unat (a + b :: u32) mod m = (unat a + unat b) mod m"
proof -
  have "unat (a + b) = (unat a + unat b) mod 2 ^ 32" by (simp add: unat_word_ariths)
  then show ?thesis using assms by (simp add: mod_mod_cancel)
qed

end
