(* ===== verification/Socket.thy ===== *)
theory Socket
  imports Tcp
begin

text \<open>
  The top of the network stack: the TCP side of the socket calls (\<^verbatim>\<open>src/network/tcp_socket.c\<close>),
  the socket calls (\<^verbatim>\<open>src/network/socket.c\<close>), the dispatch of received frames
  (\<open>rcv_packet_ip4\<close> of \<^verbatim>\<open>ip4.c\<close>, \<open>rcv_packet_mac\<close> of \<^verbatim>\<open>mac.c\<close>) and the queues of
  \<^verbatim>\<open>src/network/network.c\<close>.
\<close>

section \<open>tcp\_socket.c\<close>

definition SIGINT :: u8 where "SIGINT = 2"

definition free_port_search :: "net \<Rightarrow> (u32 \<times> net) option" where
  "free_port_search s =
     do { let u = tcp_desc_of s;
          (port, idx, h) \<leftarrow> port_search 32767 (tcp_ep_port_index u) (tcp_ep_port_map u);
          Some (port, s\<lparr>tcp_desc_of := u\<lparr>tcp_ep_port_index := idx, tcp_ep_port_map := h\<rparr>\<rparr>) }"

definition bind_tcp :: "nat \<Rightarrow> u32 \<Rightarrow> u32 \<Rightarrow> u16 \<Rightarrow> u16 \<Rightarrow> net \<Rightarrow> net option" where
  "bind_tcp c sip dip sport dport s =
     upd_conn c (\<lambda>d. d\<lparr>src_ip := sip, src_port := sport, dst_ip := 0, dst_port := 0\<rparr>) s"

definition listen_tcp :: "nat \<Rightarrow> net \<Rightarrow> (int \<times> net) option" where
  "listen_tcp c s =
     do { d \<leftarrow> conns s c;
          let td = tcp_desc_of s;
          tmp \<leftarrow> tcp_conn_map_get (listen_map td) (src_ip d) 0 (src_port d) 0 s;
          if tmp = 0
          then do { m \<leftarrow> tcp_conn_map_put (listen_map td) (src_port d) 0 c;
                    Some (0, s\<lparr>tcp_desc_of := td\<lparr>listen_map := m\<rparr>\<rparr>) }
          else Some (- 1, s) }"

definition backlog_dequeue :: "nat \<Rightarrow> net \<Rightarrow> (nat \<times> net) option" where
  "backlog_dequeue c s =
     do { d \<leftarrow> conns s c;
          case back_log_c_queue d of
            [] \<Rightarrow> Some (0, s)
          | n # ns \<Rightarrow> do { s \<leftarrow> upd_conn c (back_log_c_queue_update (\<lambda>_. ns)) s; Some (n, s) } }"

text \<open>A wakeup with nothing in the queue leaves a null pointer, which is then written through.\<close>

definition accept_tcp :: "(net \<Rightarrow> net) \<Rightarrow> nat \<Rightarrow> net \<Rightarrow> (nat \<times> net) option" where
  "accept_tcp ev c s =
     do { (n, s) \<leftarrow> backlog_dequeue c s;
          (n, s) \<leftarrow> (if n = 0
                     then do { s \<leftarrow> upd_conn c (process_context_update (\<lambda>_. cur_proc s)) s;
                               backlog_dequeue c (ev s) }
                     else Some (n, s));
          if n = 0 then None
          else do { s \<leftarrow> upd_conn n (status_update (\<lambda>_. ESTABILISHED)) s; Some (n, s) } }"

definition connect_tcp :: "(net \<Rightarrow> net) \<Rightarrow> u32 \<Rightarrow> u16 \<Rightarrow> nat \<Rightarrow> net \<Rightarrow> (int \<times> net) option" where
  "connect_tcp ev dip dport k s =
     do { (port, s) \<leftarrow> free_port_search s;
          let sport = (ucast port :: u16);
          if sport = 0 then Some (- 1, s)
          else do {
            let sip = ip s;
            let (c, s) = tcp_conn_desc_int s;
            s \<leftarrow> upd_conn c (\<lambda>d. d\<lparr>isActive := True, ref_count := 1, dst_ip := dip, dst_port := dport,
                   src_ip := sip, src_port := sport, status := SYN_SENT\<rparr>) s;
            d \<leftarrow> conns s c;
            s \<leftarrow> timer_set (Rtrsn c) (rto d) s;
            s \<leftarrow> upd_socket k (sk_tcp_conn_desc_update (\<lambda>_. c)) s;
            m \<leftarrow> tcp_conn_map_put (req_map (tcp_desc_of s)) sport dport c;
            let s = s\<lparr>tcp_desc_of := (tcp_desc_of s)\<lparr>req_map := m\<rparr>\<rparr>;
            s \<leftarrow> SEND_PACKET_TCP ev c [] 0 0 FLG_SYN (nxt_snd (snd_queue d)) s;
            s \<leftarrow> upd_conn c (process_context_update (\<lambda>_. cur_proc s)) s;
            Some (0, ev (s\<lparr>flush_network := True\<rparr>)) } }"

definition close_reset :: "nat \<Rightarrow> net \<Rightarrow> net option" where
  "close_reset c s =
     do { d \<leftarrow> conns s c;
          let td = tcp_desc_of s;
          a \<leftarrow> tcp_conn_map_get (tcp_conns_map td) (src_ip d) (dst_ip d) (src_port d) (dst_port d) s;
          if a \<noteq> 0
          then do { m \<leftarrow> tcp_conn_map_remove (tcp_conns_map td) (src_ip d) (dst_ip d) (src_port d) (dst_port d) s;
                    tcp_conn_desc_free a (s\<lparr>tcp_desc_of := td\<lparr>tcp_conns_map := m\<rparr>\<rparr>) }
          else do {
            a \<leftarrow> tcp_conn_map_get (listen_map td) (src_ip d) (dst_ip d) (src_port d) (dst_port d) s;
            if a \<noteq> 0
            then do { m \<leftarrow> tcp_conn_map_remove (listen_map td) (src_ip d) (dst_ip d) (src_port d) (dst_port d) s;
                      tcp_conn_desc_free a (s\<lparr>tcp_desc_of := td\<lparr>listen_map := m\<rparr>\<rparr>) }
            else do {
              a \<leftarrow> tcp_conn_map_get (req_map td) (src_ip d) (dst_ip d) (src_port d) (dst_port d) s;
              if a \<noteq> 0
              then do { m \<leftarrow> tcp_conn_map_remove (req_map td) (src_ip d) (dst_ip d) (src_port d) (dst_port d) s;
                        tcp_conn_desc_free a (s\<lparr>tcp_desc_of := td\<lparr>req_map := m\<rparr>\<rparr>) }
              else Some s } } }"

definition close_tcp :: "(net \<Rightarrow> net) \<Rightarrow> nat \<Rightarrow> net \<Rightarrow> net option" where
  "close_tcp ev c s =
     do { d \<leftarrow> conns s c;
          p \<leftarrow> procs s (cur_proc s);
          let seq = nxt_snd (snd_queue d);
          let ack = nxt_rcv (rcv_queue d);
          if status d = RESET \<or> sig_num p = SIGINT then close_reset c s
          else do {
            s \<leftarrow> (if status d = CLOSED
                  then do { m \<leftarrow> tcp_conn_map_remove (listen_map (tcp_desc_of s)) (src_ip d) (dst_ip d) (src_port d) (dst_port d) s;
                            Some (s\<lparr>tcp_desc_of := (tcp_desc_of s)\<lparr>listen_map := m\<rparr>\<rparr>) }
                  else Some s);
            s \<leftarrow> (if sq_wnd_min (snd_queue d) = cur (snd_queue d)
                  then do { s \<leftarrow> SEND_PACKET_TCP ev c [] 0 ack (FLG_FIN OR FLG_ACK) seq s;
                            d \<leftarrow> conns s c;
                            s \<leftarrow> timer_set (Rtrsn c) (rto d) s;
                            upd_conn c (\<lambda>d. d\<lparr>status := (if status d = ESTABILISHED then FIN_WAIT_1
                                 else if status d = CLOSE_WAIT then LAST_ACK else status d)\<rparr>) s }
                  else Some s);
            upd_conn c (\<lambda>d. d\<lparr>status := (if status d = ESTABILISHED then FIN_WAIT_1_PENDING
                 else if status d = CLOSE_WAIT then LAST_ACK_PENDING else status d)\<rparr>) s } }"

text \<open>
  Copying out of the receive ring. \<open>len\<close> bytes are taken at \<open>wnd_min\<close>; the result is the bytes
  written to the caller.
\<close>

definition rcv_copy :: "tcp_rcv_queue \<Rightarrow> u32 \<Rightarrow> u8 list option" where
  "rcv_copy q len =
     (let sz = unat (rq_buf_size q);
          low_index = SLOT_WND (rq_wnd_min q) (rq_buf_size q);
          hi_index = SLOT_WND (rq_wnd_min q + len) (rq_buf_size q)
      in if low_index < hi_index
         then if low_index + unat len \<le> sz then Some (map (rq_buf q) [low_index ..< low_index + unat len]) else None
         else let len_1 = sz - low_index
              in if len_1 \<le> unat len \<and> unat len - len_1 \<le> sz
                 then Some (map (rq_buf q) [low_index ..< sz] @ map (rq_buf q) [0 ..< unat len - len_1])
                 else None)"

definition dequeue_packet_tcp :: "(net \<Rightarrow> net) \<Rightarrow> nat \<Rightarrow> u32 \<Rightarrow> net \<Rightarrow> ((int \<times> u8 list) \<times> net) option" where
  "dequeue_packet_tcp ev c len s =
     do { let s = s\<lparr>flush_network := False\<rparr>;
          d \<leftarrow> conns s c;
          ((r, out), s) \<leftarrow>
            (if status d = RESET then Some ((- 1, []), net_panic s)
             else if status d = ESTABILISHED \<or> status d = CLOSE_WAIT
             then do {
               let avail = nxt_rcv (rcv_queue d) - rq_wnd_min (rcv_queue d);
               if status d = CLOSE_WAIT \<and> avail = 0 then Some ((0, []), s)
               else do {
                 (avail, s) \<leftarrow>
                   (if avail = 0
                    then do { s \<leftarrow> upd_conn c (process_context_update (\<lambda>_. cur_proc s)) s;
                              let s = ev (s\<lparr>flush_network := True\<rparr>);
                              d \<leftarrow> conns s c;
                              Some (nxt_rcv (rcv_queue d) - rq_wnd_min (rcv_queue d), s) }
                    else Some (avail, s));
                 if avail = 0 then Some ((- 1, []), s)
                 else do {
                   d \<leftarrow> conns s c;
                   let n = (if avail < len then avail else len);
                   out \<leftarrow> rcv_copy (rcv_queue d) n;
                   s \<leftarrow> upd_rq c (\<lambda>q. q\<lparr>rq_wnd_size := rq_wnd_size q + n, rq_wnd_min := rq_wnd_min q + n\<rparr>) s;
                   s \<leftarrow> delayed_ack ev c s;
                   Some ((sint n, out), s) } } }
             else Some ((0, []), s));
          Some ((r, out), s\<lparr>flush_network := True\<rparr>) }"

text \<open>
  Copying into the send ring. When the data crosses the end of the ring the second copy starts
  again at the beginning of the data.
\<close>

definition snd_copy :: "tcp_snd_queue \<Rightarrow> u8 list \<Rightarrow> tcp_snd_queue option" where
  "snd_copy q pl =
     (let sz = unat (sq_buf_size q);
          cur_index = SLOT_WND (cur q) (sq_buf_size q)
      in if sz - cur_index > length pl
         then Some (q\<lparr>sq_buf := buf_write (sq_buf q) cur_index pl, cur := cur q + of_nat (length pl)\<rparr>)
         else let len_1 = sz - cur_index;
                  len_2 = length pl - len_1
              in if len_2 \<le> sz
                 then Some (q\<lparr>sq_buf := buf_write (buf_write (sq_buf q) cur_index (take len_1 pl)) 0 (take len_2 pl),
                              cur := cur q + of_nat (length pl)\<rparr>)
                 else None)"

definition snd_free :: "tcp_snd_queue \<Rightarrow> int \<Rightarrow> u32" where
  "snd_free q wnd_max = of_int (wnd_max - CHK_OVRFLW (cur q) (sq_wnd_min q))"

definition enqueue_packet_tcp :: "(net \<Rightarrow> net) \<Rightarrow> nat \<Rightarrow> u8 list \<Rightarrow> u32 \<Rightarrow> net \<Rightarrow> (int \<times> net) option" where
  "enqueue_packet_tcp ev c payload len s =
     do { d \<leftarrow> conns s c;
          if status d = RESET then Some (- 1, net_panic s)
          else if status d = ESTABILISHED \<or> status d = CLOSE_WAIT
          then do {
            let q = snd_queue d;
            (ok, s) \<leftarrow>
              (if snd_free q (uint (sq_wnd_min q) + uint (sq_buf_size q)) < len
               then do { s \<leftarrow> upd_conn c (process_context_update (\<lambda>_. cur_proc s)) s;
                         s \<leftarrow> upd_sq c (pnd_data_update (\<lambda>_. len)) s;
                         let s = ev s;
                         d \<leftarrow> conns s c;
                         let q = snd_queue d;
                         Some (\<not> snd_free q (uint (sq_wnd_min q + sq_buf_size q)) < len, s) }
               else Some (True, s));
            if \<not> ok then Some (- 1, s)
            else do {
              pl \<leftarrow> rd_bytes payload 0 (unat len);
              d \<leftarrow> conns s c;
              q \<leftarrow> snd_copy (snd_queue d) pl;
              s \<leftarrow> upd_sq c (\<lambda>_. q) s;
              s \<leftarrow> update_snd_window ev c 0 True s;
              Some (sint len, s\<lparr>flush_network := True\<rparr>) } }
          else Some (0, s) }"

section \<open>socket.c\<close>

definition socket_init :: "u32 \<Rightarrow> net \<Rightarrow> nat \<times> net" where
  "socket_init ty s =
     (next_ptr s,
      s\<lparr>sockets := (sockets s)(next_ptr s \<mapsto>
          \<lparr>sk_process_context = 0, sk_udp_conn_desc = 0, sk_tcp_conn_desc = 0, sk_type = ty, sd = 0\<rparr>),
        next_ptr := next_ptr s + 1\<rparr>)"

text \<open>Entering a socket under the next descriptor of the current process.\<close>

definition install_socket :: "nat \<Rightarrow> net \<Rightarrow> (u32 \<times> net) option" where
  "install_socket k s =
     do { p \<leftarrow> procs s (cur_proc s);
          let n = next_sd p + 1;
          s \<leftarrow> upd_socket k (sd_update (\<lambda>_. n)) s;
          h \<leftarrow> hashtable_put (socket_desc p) (unat n) k;
          s \<leftarrow> upd_proc (cur_proc s) (\<lambda>p. p\<lparr>next_sd := n, socket_desc := h\<rparr>) s;
          Some (n, s) }"

definition open_socket :: "u32 \<Rightarrow> net \<Rightarrow> (u32 \<times> net) option" where
  "open_socket ty s = (let (k, s) = socket_init ty s in install_socket k s)"

definition find_socket :: "u32 \<Rightarrow> net \<Rightarrow> nat option option" where
  "find_socket sockfd s = do { p \<leftarrow> procs s (cur_proc s); Some (hashtable_get (socket_desc p) (unat sockfd)) }"

text \<open>
  \<open>_bind\<close> answers \<open>-1\<close> for TCP sockets, and for a UDP port in use it still replaces the
  descriptor of the socket.
\<close>

definition bind_socket :: "u32 \<Rightarrow> u32 \<Rightarrow> u32 \<Rightarrow> u32 \<Rightarrow> u16 \<Rightarrow> net \<Rightarrow> (int \<times> net) option" where
  "bind_socket sockfd sip sport dip dport s =
     do { k \<leftarrow> find_socket sockfd s;
          case k of
            None \<Rightarrow> Some (- 1, s)
          | Some k \<Rightarrow> do {
              sk \<leftarrow> sockets s k;
              if sk_type sk = 2
              then do {
                let u = udp_desc_of s;
                (r, s) \<leftarrow> (case hashtable_get (udp_conn_map u) (unat sport) of
                    None \<Rightarrow> do { h \<leftarrow> hashtable_put (udp_conn_map u) (unat sport) k;
                                 Some (0, s\<lparr>udp_desc_of := u\<lparr>udp_conn_map := h\<rparr>\<rparr>) }
                  | Some _ \<Rightarrow> Some (- 1, s));
                let (ud, s) = udp_conn_desc_init s;
                s \<leftarrow> upd_socket k (sk_udp_conn_desc_update (\<lambda>_. ud)) s;
                s \<leftarrow> bind_udp ud sip dip (ucast sport) dport s;
                Some (r, s) }
              else if sk_type sk = 1
              then do {
                let (c, s) = tcp_conn_desc_int s;
                s \<leftarrow> upd_socket k (sk_tcp_conn_desc_update (\<lambda>_. c)) s;
                s \<leftarrow> bind_tcp c sip dip (ucast sport) dport s;
                Some (- 1, s) }
              else Some (- 1, s) } }"

definition connect_socket :: "(net \<Rightarrow> net) \<Rightarrow> u32 \<Rightarrow> u32 \<Rightarrow> u16 \<Rightarrow> net \<Rightarrow> (int \<times> net) option" where
  "connect_socket ev sockfd dip dport s =
     do { k \<leftarrow> find_socket sockfd s;
          case k of
            None \<Rightarrow> Some (- 1, s)
          | Some k \<Rightarrow> do { sk \<leftarrow> sockets s k;
                            if sk_type sk = 1 then do { (_, s) \<leftarrow> connect_tcp ev dip dport k s; Some (- 1, s) }
                            else Some (- 1, s) } }"

definition listen_socket :: "u32 \<Rightarrow> net \<Rightarrow> (int \<times> net) option" where
  "listen_socket sockfd s =
     do { k \<leftarrow> find_socket sockfd s;
          case k of
            None \<Rightarrow> Some (- 1, s)
          | Some k \<Rightarrow> do { sk \<leftarrow> sockets s k;
                            if sk_type sk = 1 then do { (_, s) \<leftarrow> listen_tcp (sk_tcp_conn_desc sk) s; Some (- 1, s) }
                            else Some (- 1, s) } }"

definition accept_socket :: "(net \<Rightarrow> net) \<Rightarrow> u32 \<Rightarrow> net \<Rightarrow> (int \<times> net) option" where
  "accept_socket ev sockfd s =
     do { k \<leftarrow> find_socket sockfd s;
          case k of
            None \<Rightarrow> Some (- 1, s)
          | Some k \<Rightarrow> do {
              sk \<leftarrow> sockets s k;
              if sk_type sk = 1
              then do { (n, s) \<leftarrow> accept_tcp ev (sk_tcp_conn_desc sk) s;
                        let (k', s) = socket_init 1 s;
                        (fd, s) \<leftarrow> install_socket k' s;
                        s \<leftarrow> upd_socket k' (sk_tcp_conn_desc_update (\<lambda>_. n)) s;
                        Some (sint fd, s) }
              else Some (- 1, s) } }"

text \<open>The bytes written to the caller's buffers are those of the UDP or TCP read.\<close>

definition recvfrom_socket ::
  "(net \<Rightarrow> net) \<Rightarrow> u32 \<Rightarrow> u32 \<Rightarrow> net \<Rightarrow> ((int \<times> (u8 list \<times> u8 list \<times> u8 list) option) \<times> net) option" where
  "recvfrom_socket ev sockfd len s =
     do { k \<leftarrow> find_socket sockfd s;
          case k of
            None \<Rightarrow> Some ((0, None), s)
          | Some k \<Rightarrow> do {
              sk \<leftarrow> sockets s k;
              if sk_type sk = 2 then dequeue_packet_udp ev (unat sockfd) len s
              else if sk_type sk = 1
              then do { ((r, out), s) \<leftarrow> dequeue_packet_tcp ev (sk_tcp_conn_desc sk) len s;
                        Some ((r, Some ([], [], out)), s) }
              else Some ((0, None), s) } }"

definition sendto_socket :: "(net \<Rightarrow> net) \<Rightarrow> u32 \<Rightarrow> u32 \<Rightarrow> u16 \<Rightarrow> u8 list \<Rightarrow> u32 \<Rightarrow> net \<Rightarrow> (int \<times> net) option" where
  "sendto_socket ev sockfd dip dport payload len s =
     do { k \<leftarrow> find_socket sockfd s;
          case k of
            None \<Rightarrow> Some (0, s)
          | Some k \<Rightarrow> do {
              sk \<leftarrow> sockets s k;
              if sk_type sk = 2
              then do {
                s \<leftarrow> (if sk_udp_conn_desc sk = 0
                      then do {
                        let (ud, s) = udp_conn_desc_init s;
                        (port, s) \<leftarrow> udp_free_port_search s;
                        s \<leftarrow> upd_udp ud (\<lambda>d. d\<lparr>u_src_ip := ip s, u_src_port := ucast port, u_dst_ip := dip, u_dst_port := dport\<rparr>) s;
                        s \<leftarrow> upd_socket k (sk_udp_conn_desc_update (\<lambda>_. ud)) s;
                        h \<leftarrow> hashtable_put (udp_conn_map (udp_desc_of s)) (unat (ucast port :: u16)) k;
                        Some (s\<lparr>udp_desc_of := (udp_desc_of s)\<lparr>udp_conn_map := h\<rparr>\<rparr>) }
                      else Some s);
                sk \<leftarrow> sockets s k;
                d \<leftarrow> udp_conns s (sk_udp_conn_desc sk);
                (r, s) \<leftarrow> send_packet_udp ev (ip s) dip (u_src_port d) dport payload (ucast len) s;
                Some (int r, s) }
              else if sk_type sk = 1 then enqueue_packet_tcp ev (sk_tcp_conn_desc sk) payload len s
              else Some (0, s) } }"

definition socket_free :: "(net \<Rightarrow> net) \<Rightarrow> nat \<Rightarrow> net \<Rightarrow> net option" where
  "socket_free ev k s =
     do { sk \<leftarrow> sockets s k;
          p \<leftarrow> procs s (cur_proc s);
          s \<leftarrow> (if sk_type sk = 2 then close_udp k s
                else if sk_type sk = 1
                then do {
                  s \<leftarrow> upd_conn (sk_tcp_conn_desc sk) (\<lambda>d. d\<lparr>ref_count := ref_count d - 1\<rparr>) s;
                  d \<leftarrow> conns s (sk_tcp_conn_desc sk);
                  if (status d = ESTABILISHED \<or> status d = CLOSE_WAIT \<or> status d = RESET) \<and> ref_count d = 0
                     \<or> sig_num p = SIGINT
                  then close_tcp ev (sk_tcp_conn_desc sk) s else Some s }
                else Some s);
          Some (s\<lparr>sockets := (sockets s)(k := None)\<rparr>) }"

text \<open>Closing a descriptor that is not open passes a null socket on.\<close>

definition close_socket :: "(net \<Rightarrow> net) \<Rightarrow> u32 \<Rightarrow> net \<Rightarrow> net option" where
  "close_socket ev sockfd s =
     do { p \<leftarrow> procs s (cur_proc s);
          (k, h) \<leftarrow> hashtable_remove (socket_desc p) (unat sockfd);
          s \<leftarrow> upd_proc (cur_proc s) (socket_desc_update (\<lambda>_. h)) s;
          k \<leftarrow> k;
          socket_free ev k s }"

text \<open>The sockets of a new process: copies under the same descriptors, the connections shared.\<close>

fun clone_sockets :: "nat hashtable \<Rightarrow> nat list \<Rightarrow> nat hashtable \<Rightarrow> net \<Rightarrow> (nat hashtable \<times> net) option" where
  "clone_sockets m [] cloned s = Some (cloned, s)"
| "clone_sockets m (i # is) cloned s =
     (case hashtable_get m i of
        None \<Rightarrow> clone_sockets m is cloned s
      | Some k \<Rightarrow> do {
          sk \<leftarrow> sockets s k;
          let k' = next_ptr s;
          let s = s\<lparr>sockets := (sockets s)(k' \<mapsto> sk), next_ptr := k' + 1\<rparr>;
          cloned \<leftarrow> hashtable_put cloned i k';
          s \<leftarrow> (if sk_tcp_conn_desc sk \<noteq> 0
                then upd_conn (sk_tcp_conn_desc sk) (\<lambda>d. d\<lparr>ref_count := ref_count d + 1\<rparr>) s else Some s);
          clone_sockets m is cloned s })"

definition clone_socket_desc :: "nat hashtable \<Rightarrow> net \<Rightarrow> (nat hashtable \<times> net) option" where
  "clone_socket_desc m s =
     do { p \<leftarrow> procs s (cur_proc s);
          clone_sockets m [0 ..< unat (next_sd p) + 1] (hashtable_init (ht_size m)) s }"

section \<open>Receiving frames\<close>

definition ip_addr :: "u8 list \<Rightarrow> nat \<Rightarrow> u32 option" where
  "ip_addr bs i =
     do { a \<leftarrow> rd bs i; b \<leftarrow> rd bs (i + 1); c \<leftarrow> rd bs (i + 2); d \<leftarrow> rd bs (i + 3);
          Some (ucast d + push_bit 8 (ucast c) + push_bit 16 (ucast b) + push_bit 24 (ucast a)) }"

text \<open>A packet of an unknown protocol is neither queued nor freed.\<close>

definition rcv_packet_ip4 :: "(net \<Rightarrow> net) \<Rightarrow> data_sckt_buf \<Rightarrow> mac_addr \<Rightarrow> net \<Rightarrow> net option" where
  "rcv_packet_ip4 ev b src_mac s =
     do { n \<leftarrow> network_hdr b;
          let b = b\<lparr>transport_hdr := Some (n + HEADER_IP4)\<rparr>;
          dip \<leftarrow> ip_addr (data b) (n + 16);
          hdr \<leftarrow> rd_bytes (data b) n HEADER_IP4;
          c \<leftarrow> checksum hdr HEADER_IP4;
          if c = 0 \<and> dip = LOCAL_IP
          then do {
            sip \<leftarrow> ip_addr (data b) (n + 12);
            s \<leftarrow> (case hashtable_get (arp_cache s) (unat sip) of
                    None \<Rightarrow> do { h \<leftarrow> hashtable_put (arp_cache s) (unat sip) src_mac; Some (s\<lparr>arp_cache := h\<rparr>) }
                  | Some _ \<Rightarrow> Some s);
            protocol \<leftarrow> rd (data b) (n + 9);
            total \<leftarrow> rd_word (data b) (n + 2);
            if protocol = TCP_PROTOCOL
            then rcv_packet_tcp ev b sip dip (total - of_nat HEADER_IP4 - of_nat HEADER_TCP) s
            else if protocol = UDP_PROTOCOL
            then rcv_packet_udp b sip dip (total - of_nat HEADER_IP4 - of_nat HEADER_UDP) s
            else if protocol = ICMP_PROTOCOL
            then do { s \<leftarrow> rcv_packet_icmp ev b sip dip (total - of_nat HEADER_IP4 - of_nat HEADER_ICMP) s;
                      Some (free_sckt s) }
            else Some s }
          else Some (free_sckt s) }"

definition rcv_packet_mac :: "(net \<Rightarrow> net) \<Rightarrow> data_sckt_buf \<Rightarrow> net \<Rightarrow> net option" where
  "rcv_packet_mac ev b s =
     do { m \<leftarrow> mac_hdr b;
          let b = b\<lparr>network_hdr := Some (m + HEADER_ETH)\<rparr>;
          protocol_type \<leftarrow> rd_word (data b) (m + 12);
          if protocol_type = ARP_PROTOCOL_TYPE then rcv_packet_arp b s
          else if protocol_type = 0x800
          then do { src_mac \<leftarrow> rd_mac (data b) (m + 6); rcv_packet_ip4 ev b src_mac s }
          else Some (free_sckt s) }"

section \<open>network.c\<close>

text \<open>
  \<open>init_8254x\<close> provides the hardware address. The heap contents and the floating-point unit are
  those of \<open>s\<close>, the state before the stack is set up.
\<close>

definition network_init :: "mac_addr \<Rightarrow> net \<Rightarrow> net" where
  "network_init mac s =
     arp_init (s\<lparr>tx_queue := sckt_buf_desc_init, rx_queue := sckt_buf_desc_init, dev_mac := mac,
                 ip := LOCAL_IP, netmask := LOCAL_NETMASK, default_gw_ip := DEFAULT_GW_IP,
                 tcp_desc_of := tcp_init, udp_desc_of := udp_init, icmp_req_map := icmp_init\<rparr>)"

text \<open>
  The loops of \<open>equeue_packet\<close> and \<open>dequeue_packet\<close> end when the queue is empty. Interrupts are
  enabled while a packet is handled: \<open>ev\<close> is what they do. The number of rounds is bounded by the
  fuel, running out of it is \<open>None\<close>.
\<close>

fun equeue_packet :: "(net \<Rightarrow> net) \<Rightarrow> nat \<Rightarrow> net \<Rightarrow> net option" where
  "equeue_packet ev 0 s = None"
| "equeue_packet ev (Suc fuel) s =
     (case dequeue_sckt (tx_queue s) of
        (None, q) \<Rightarrow> Some (s\<lparr>tx_queue := q\<rparr>)
      | (Some b, q) \<Rightarrow> do {
          m \<leftarrow> mac_hdr b;
          frame \<leftarrow> rd_bytes (data b) m (unat (data_len b));
          equeue_packet ev fuel (ev (free_sckt (send_packet_i8254x frame (s\<lparr>tx_queue := q\<rparr>)))) })"

fun dequeue_packets :: "(net \<Rightarrow> net) \<Rightarrow> (net \<Rightarrow> net) \<Rightarrow> nat \<Rightarrow> net \<Rightarrow> net option" where
  "dequeue_packets ev irq 0 s = None"
| "dequeue_packets ev irq (Suc fuel) s =
     (case dequeue_sckt (rx_queue s) of
        (None, q) \<Rightarrow> Some (s\<lparr>rx_queue := q\<rparr>)
      | (Some b, q) \<Rightarrow> do {
          s \<leftarrow> rcv_packet_mac ev b (s\<lparr>rx_queue := q\<rparr>);
          dequeue_packets ev irq fuel (irq s) })"

definition dequeue_packet :: "(net \<Rightarrow> net) \<Rightarrow> (net \<Rightarrow> net) \<Rightarrow> nat \<Rightarrow> net \<Rightarrow> net option" where
  "dequeue_packet ev irq fuel s = dequeue_packets ev irq fuel (s\<lparr>flush_network := False\<rparr>)"

end
