(* ===== verification/Tcp_Segments.thy ===== *)
theory Tcp_Segments
  imports Ring Socket
begin

text \<open>
  What TCP puts on the wire: the frame \<open>send_packet_tcp\<close> builds, that the receiver reads back the
  fields it was built from and accepts its checksum, and how \<open>flush_data\<close> cuts the send ring into
  segments.
\<close>

section \<open>One segment\<close>

definition tcp_pseudo :: "u32 \<Rightarrow> u32 \<Rightarrow> nat \<Rightarrow> u8 list" where
  "tcp_pseudo sip dip n = dword_bytes sip @ dword_bytes dip @ [0, TCP_PROTOCOL] @ word_bytes (of_nat n)"

definition tcp_sealed :: "u32 \<Rightarrow> u32 \<Rightarrow> u16 \<Rightarrow> u16 \<Rightarrow> u32 \<Rightarrow> u32 \<Rightarrow> u8 \<Rightarrow> u32 \<Rightarrow> u8 list \<Rightarrow> u8 list" where
  "tcp_sealed sip dip sport dport seq ack flags wnd pl =
     (let pkt = tcp_header sport dport seq ack flags wnd @ pl;
          c = the (checksum_pair (tcp_pseudo sip dip (length pkt)) pkt (length pkt))
      in pkt [16 := LOW_16 c, 17 := HI_16 c])"

definition tcp_hlen :: "u8 \<Rightarrow> nat" where
  "tcp_hlen flags = (if flags AND FLG_SYN \<noteq> 0 then 24 else 20)"

definition tcp_frame :: "mac_addr \<Rightarrow> mac_addr \<Rightarrow> u16 \<Rightarrow> u32 \<Rightarrow> u32 \<Rightarrow> u8 list \<Rightarrow> u8 list" where
  "tcp_frame dm sm ident sip dip sealed =
     eth_header dm sm @ ip_sealed (of_nat (length sealed) + 20) ident TCP_PROTOCOL sip dip @ sealed"

lemma length_tcp [simp]:
  "length (tcp_header sport dport seq ack flags wnd) = tcp_hlen flags" "length (tcp_pseudo sip dip n) = 12"
  "length (tcp_sealed sip dip sport dport seq ack flags wnd pl) = tcp_hlen flags + length pl"
  by (simp_all add: tcp_header_def tcp_pseudo_def tcp_sealed_def tcp_hlen_def Let_def)

lemma tcp_sealed_eq:
  "\<exists>a b rest. tcp_sealed sip dip sport dport seq ack flags wnd pl =
     word_bytes sport @ word_bytes dport @ dword_bytes seq @ dword_bytes ack
     @ [if flags AND FLG_SYN \<noteq> 0 then 0x60 else 0x50, flags] @ word_bytes (ucast wnd) @ [a, b, 0, 0] @ rest \<and>
     drop (tcp_hlen flags - 20) rest = pl"
  by (simp add: tcp_sealed_def tcp_header_def tcp_hlen_def Let_def word_bytes_def dword_bytes_def numeral_eq_Suc)

lemma tcp_sealed_fields:
  "rd_word (tcp_sealed sip dip sport dport seq ack flags wnd pl @ zs) 0 = Some sport"
  "rd_word (tcp_sealed sip dip sport dport seq ack flags wnd pl @ zs) 2 = Some dport"
  "rd_dword (tcp_sealed sip dip sport dport seq ack flags wnd pl @ zs) 4 = Some seq"
  "rd_dword (tcp_sealed sip dip sport dport seq ack flags wnd pl @ zs) 8 = Some ack"
  "rd (tcp_sealed sip dip sport dport seq ack flags wnd pl @ zs) 13 = Some flags"
  "rd_word (tcp_sealed sip dip sport dport seq ack flags wnd pl @ zs) 14 = Some (ucast wnd)"
  "drop (tcp_hlen flags) (tcp_sealed sip dip sport dport seq ack flags wnd pl @ zs) = pl @ zs"
proof -
  obtain a b rest where e: "tcp_sealed sip dip sport dport seq ack flags wnd pl =
     word_bytes sport @ word_bytes dport @ dword_bytes seq @ dword_bytes ack
     @ [if flags AND FLG_SYN \<noteq> 0 then 0x60 else 0x50, flags] @ word_bytes (ucast wnd) @ [a, b, 0, 0] @ rest"
     and r: "drop (tcp_hlen flags - 20) rest = pl"
    using tcp_sealed_eq [of sip dip sport dport seq ack flags wnd pl] by blast
  show "rd_word (tcp_sealed sip dip sport dport seq ack flags wnd pl @ zs) 0 = Some sport"
    "rd_word (tcp_sealed sip dip sport dport seq ack flags wnd pl @ zs) 2 = Some dport"
    "rd_dword (tcp_sealed sip dip sport dport seq ack flags wnd pl @ zs) 4 = Some seq"
    "rd_dword (tcp_sealed sip dip sport dport seq ack flags wnd pl @ zs) 8 = Some ack"
    "rd (tcp_sealed sip dip sport dport seq ack flags wnd pl @ zs) 13 = Some flags"
    "rd_word (tcp_sealed sip dip sport dport seq ack flags wnd pl @ zs) 14 = Some (ucast wnd)"
    by (simp_all add: e rd_simps)
  have "drop (tcp_hlen flags) (tcp_sealed sip dip sport dport seq ack flags wnd pl) = pl"
    using tcp_sealed_eq [of sip dip sport dport seq ack flags wnd pl]
    by (auto simp: tcp_hlen_def word_bytes_def dword_bytes_def)
  then show "drop (tcp_hlen flags) (tcp_sealed sip dip sport dport seq ack flags wnd pl @ zs) = pl @ zs" by simp
qed

lemma checksum_tcp_pair:
  assumes "length xs = t" and "length pkt = h + unat len" and "h + unat len < 65536"
  shows "checksum_tcp (xs @ pkt @ zs) t sip dip len h = checksum_pair (tcp_pseudo sip dip (length pkt)) pkt (length pkt)"
proof -
  have "unat (of_nat (h + unat len) :: u16) = h + unat len" using assms(3) by (intro unat_of_nat16)
  moreover have "rd_bytes (xs @ pkt @ zs) t (h + unat len) = Some pkt" using assms(1,2) by (intro rd_bytes_append) simp_all
  ultimately show ?thesis using assms(2) by (simp add: checksum_tcp_def tcp_pseudo_def)
qed

lemma tcp_sealed_checksum:
  assumes "length xs = t" and "unat len + h = length pl + tcp_hlen flags" and "length pl + tcp_hlen flags < 65536"
  shows "checksum_tcp (xs @ tcp_sealed sip dip sport dport seq ack flags wnd pl @ zs) t sip dip len h = Some 0"
proof -
  let ?pkt = "tcp_header sport dport seq ack flags wnd @ pl"
  let ?hv = "tcp_pseudo sip dip (length ?pkt)"
  have lp: "length ?pkt < 65536" "18 \<le> length ?pkt" using assms(3) by (simp_all add: tcp_hlen_def)
  obtain c where c: "checksum_pair ?hv ?pkt (length ?pkt) = Some c"
    using checksum_pair_eq [of ?hv "length ?pkt" ?pkt] lp by simp
  have "?pkt ! 16 = 0" "?pkt ! 17 = 0"
    by (simp_all add: tcp_header_def word_bytes_def dword_bytes_def numeral_eq_Suc)
  then have "checksum_pair ?hv (?pkt [16 := LOW_16 c, 17 := HI_16 c]) (length ?pkt) = Some 0"
    using checksum_pair_store [of ?hv 16 ?pkt c] lp c by simp
  then have "checksum_pair ?hv (tcp_sealed sip dip sport dport seq ack flags wnd pl) (length ?pkt) = Some 0"
    using c by (simp add: tcp_sealed_def)
  then show ?thesis
    using checksum_tcp_pair [OF assms(1), of "tcp_sealed sip dip sport dport seq ack flags wnd pl" h len zs] assms(2,3)
    by (simp add: add.commute)
qed

text \<open>The packet in the transmit queue.\<close>

definition tcp_buf :: "net \<Rightarrow> mac_addr \<Rightarrow> u32 \<Rightarrow> u32 \<Rightarrow> u8 list \<Rightarrow> data_sckt_buf" where
  "tcp_buf s dm sip dip sealed =
     \<lparr>transport_hdr = Some 34, network_hdr = Some 14, mac_hdr = Some 0,
      data = tcp_frame dm (dev_mac s) (ipv4_id s) sip dip sealed, data_len = of_nat (length sealed + 34)\<rparr>"

definition put_tx :: "data_sckt_buf \<Rightarrow> net \<Rightarrow> net" where
  "put_tx b s = s\<lparr>allocs := allocs s + 1, sckts := sckts s + 1, ipv4_id := ipv4_id s + 2,
     tx_queue := enqueue_sckt (tx_queue s) b\<rparr>"

lemma send_tcp_spec:
  assumes pl: "rd_bytes payload 0 (unat len) = Some pl" and len: "length pl + tcp_hlen flags + 20 \<le> 1518"
    and hop: "hashtable_get (arp_cache s) (unat (next_hop s dip)) = Some dm"
  shows "send_packet_tcp ev sip dip sport dport wnd payload len ack flags seq s =
    Some (put_tx (tcp_buf s dm sip dip (tcp_sealed sip dip sport dport seq ack flags wnd pl)) s)"
proof -
  let ?h = "tcp_hlen flags" and ?n = "length pl"
  let ?s = "s\<lparr>allocs := allocs s + 1, sckts := sckts s + 1\<rparr>"
  let ?hd = "tcp_header sport dport seq ack flags wnd"
  let ?pkt = "?hd @ pl" and ?seal = "tcp_sealed sip dip sport dport seq ack flags wnd pl"
  have h: "?h = 20 \<or> ?h = 24" by (simp add: tcp_hlen_def)
  have ul: "unat len = ?n" using pl by (auto simp: rd_bytes_def split: if_splits)
  have hh: "(if flags AND FLG_SYN \<noteq> 0 then HEADER_TCP + 4 else HEADER_TCP) = ?h" by (simp add: tcp_hlen_def HEADER_TCP_def)
  have ua: "unat (of_nat (?n + 34 + ?h) :: u16) = ?n + 34 + ?h" using len h by (intro unat_of_nat16) auto
  obtain eth old oh pd where j: "map (heap_junk s (allocs s)) [0 ..< ?n + 34 + ?h] = eth @ old @ oh @ pd"
      and lens: "length eth = 14" "length old = 20" "length oh = ?h" "length pd = ?n"
    by (rule frame_split [of "map (heap_junk s (allocs s)) [0 ..< ?n + 34 + ?h]" ?h ?n]) simp
  have w1: "wr_bytes (eth @ old @ oh @ pd) (?h + 34) pl = Some (eth @ old @ oh @ pl)"
    using wr_bytes_append [of "eth @ old @ oh" "?h + 34" pl pd "[]"] lens by simp
  have w2: "wr_bytes (eth @ old @ oh @ pl) 34 ?hd = Some (eth @ old @ ?pkt)"
    using wr_bytes_append [of "eth @ old" 34 ?hd oh pl] lens by simp
  obtain c where c: "checksum_pair (tcp_pseudo sip dip (length ?pkt)) ?pkt (length ?pkt) = Some c"
    using checksum_pair_eq [of "tcp_pseudo sip dip (length ?pkt)" "length ?pkt" ?pkt] len by auto
  have u16: "unat (ucast len :: u16) = ?n" using ul len by (simp add: unsigned_ucast_eq take_bit_nat_eq_self)
  have ck: "checksum_tcp (eth @ old @ ?pkt) 34 sip dip (ucast len) ?h = Some c"
    using checksum_tcp_pair [of "eth @ old" 34 ?pkt ?h "ucast len" "[]" sip dip] c u16 len lens by simp
  have w3: "wr_bytes (eth @ old @ ?pkt) 50 [HI_16 (SWAP_WORD c), LOW_16 (SWAP_WORD c)] = Some (eth @ old @ ?seal)"
    using wr_bytes_two [of 16 ?pkt "eth @ old" 34 "[]" "LOW_16 c" "HI_16 c"] c lens h
    by (auto simp: swap_bytes tcp_sealed_def)
  have hop': "hashtable_get (arp_cache ?s) (unat (next_hop ?s dip)) = Some dm" using hop by (auto simp: next_hop_def)
  let ?l = "of_nat (?n + ?h) :: u16"
  have l20: "unat ?l + 20 \<le> 1518" using len unat_of_nat16 [of "?n + ?h"] by simp
  note snd = send_ip4_spec [where b = "\<lparr>transport_hdr = Some 34, network_hdr = Some 14, mac_hdr = None,
      data = eth @ old @ ?seal, data_len = of_nat (?n + 34 + ?h)\<rparr>"
      and eth = eth and old = old and rest = ?seal and s = ?s and len = ?l, OF _ _ lens(1,2) l20 hop', of ev sip TCP_PROTOCOL]
  have n34: "?n + 14 + 20 + ?h = ?n + 34 + ?h" by simp
  have al: "alloc_sckt (of_nat (?n + 14 + 20 + ?h)) s = (\<lparr>transport_hdr = None, network_hdr = None, mac_hdr = None,
      data = eth @ old @ oh @ pd, data_len = of_nat (?n + 34 + ?h)\<rparr>, ?s)"
    unfolding alloc_sckt_def n34 ua j by simp
  show ?thesis
    using snd pl unfolding send_packet_tcp_def ul hh HEADER_ETH_def HEADER_IP4_def Let_def al prod.case
    by (simp add: w1 w2 ck w3 put_tx_def tcp_buf_def tcp_frame_def algebra_simps)
qed

section \<open>Cutting the send ring into segments\<close>

definition seg_seq :: "data_sckt_buf \<Rightarrow> u32 option" where
  "seg_seq b = rd_dword (data b) 38"

definition seg_bytes :: "data_sckt_buf \<Rightarrow> u8 list" where
  "seg_bytes b = drop 54 (data b)"

fun contiguous :: "u32 \<Rightarrow> data_sckt_buf list \<Rightarrow> bool" where
  "contiguous seq [] \<longleftrightarrow> True"
| "contiguous seq (b # bs) \<longleftrightarrow> seg_seq b = Some seq \<and> contiguous (seq + of_nat (length (seg_bytes b))) bs"

lemma contiguous_append:
  "contiguous seq (xs @ ys) \<longleftrightarrow> contiguous seq xs \<and> contiguous (seq + of_nat (length (concat (map seg_bytes xs)))) ys"
  by (induction xs arbitrary: seq) (auto simp: add.assoc)

lemma flags_ack: "FLG_ACK AND FLG_SYN = (0 :: u8)" "tcp_hlen FLG_ACK = 20"
  by (simp_all add: FLG_ACK_def FLG_SYN_def tcp_hlen_def)

lemma tcp_buf_view:
  assumes "flags AND FLG_SYN = 0"
  shows "seg_seq (tcp_buf s dm sip dip (tcp_sealed sip dip sport dport seq ack flags wnd pl)) = Some seq"
    and "seg_bytes (tcp_buf s dm sip dip (tcp_sealed sip dip sport dport seq ack flags wnd pl)) = pl"
proof -
  have h: "tcp_hlen flags = 20" using assms by (simp add: tcp_hlen_def)
  let ?se = "tcp_sealed sip dip sport dport seq ack flags wnd pl"
  show "seg_seq (tcp_buf s dm sip dip ?se) = Some seq"
    using tcp_sealed_fields(3) [of sip dip sport dport seq ack flags wnd pl "[]"]
    by (simp add: seg_seq_def tcp_buf_def tcp_frame_def rd_dword_shift)
  show "seg_bytes (tcp_buf s dm sip dip ?se) = pl"
    using tcp_sealed_fields(7) [of flags sip dip sport dport seq ack wnd pl "[]"] h
    by (simp add: seg_bytes_def tcp_buf_def tcp_frame_def)
qed

text \<open>
  \<open>sent s s' bs\<close>: the packets \<open>bs\<close> were appended to the transmit queue and nothing the send window
  depends on changed.
\<close>

definition sent :: "net \<Rightarrow> net \<Rightarrow> data_sckt_buf list \<Rightarrow> bool" where
  "sent s s' bs \<longleftrightarrow> sk_buf (tx_queue s') = sk_buf (tx_queue s) @ bs \<and>
     buf_index (tx_queue s') = buf_index (tx_queue s) + length bs \<and> sk_buf_size (tx_queue s') = sk_buf_size (tx_queue s) \<and>
     conns s' = conns s \<and> arp_cache s' = arp_cache s \<and> ip s' = ip s \<and> default_gw_ip s' = default_gw_ip s \<and>
     timer_list s' = timer_list s \<and> dev_mac s' = dev_mac s"

lemma sent_trans: "sent s s' xs \<Longrightarrow> sent s' s'' ys \<Longrightarrow> sent s s'' (xs @ ys)"
  by (simp add: sent_def)

lemma put_tx_sent: "buf_index (tx_queue s) < sk_buf_size (tx_queue s) \<Longrightarrow> sent s (put_tx b s) [b]"
  by (simp add: sent_def put_tx_def enqueue_sckt_def)

text \<open>A live connection whose next hop is known.\<close>

definition ready :: "nat \<Rightarrow> tcp_conn_desc \<Rightarrow> net \<Rightarrow> bool" where
  "ready c d s \<longleftrightarrow> conns s c = Some d \<and> (\<exists>dm. hashtable_get (arp_cache s) (unat (next_hop s (dst_ip d))) = Some dm)"

lemma ready_sent: "ready c d s \<Longrightarrow> sent s s' bs \<Longrightarrow> ready c d s'"
  by (auto simp: ready_def sent_def next_hop_def)

lemma SEND_spec:
  assumes "ready c d s" and "buf_index (tx_queue s) < sk_buf_size (tx_queue s)"
    and "unat len = length pl" and "length pl \<le> 1474" and "flags AND FLG_SYN = 0"
  shows "\<exists>s' b. SEND_PACKET_TCP ev c pl len ack flags seq s = Some s' \<and> sent s s' [b] \<and> seg_seq b = Some seq \<and> seg_bytes b = pl"
proof -
  obtain dm where dm: "conns s c = Some d" "hashtable_get (arp_cache s) (unat (next_hop s (dst_ip d))) = Some dm"
    using assms(1) by (auto simp: ready_def)
  let ?b = "tcp_buf s dm (src_ip d) (dst_ip d)
      (tcp_sealed (src_ip d) (dst_ip d) (src_port d) (dst_port d) seq ack flags (rq_wnd_size (rcv_queue d)) pl)"
  have "rd_bytes pl 0 (unat len) = Some pl" using assms(3) by (simp add: rd_bytes_def)
  moreover have "length pl + tcp_hlen flags + 20 \<le> 1518" using assms(4,5) by (simp add: tcp_hlen_def)
  ultimately have "SEND_PACKET_TCP ev c pl len ack flags seq s = Some (put_tx ?b s)"
    using send_tcp_spec [of pl len pl flags s "dst_ip d" dm] dm by (simp add: SEND_PACKET_TCP_def)
  then show ?thesis using tcp_buf_view [OF assms(5)] put_tx_sent [OF assms(2)]
    by (intro exI [of _ "put_tx ?b s"] exI [of _ ?b]) simp
qed

lemma unat_of_nat32: "n < 4294967296 \<Longrightarrow> unat (of_nat n :: u32) = n"
  by (simp add: unat_of_nat)

lemma snd_slot: "SLOT_WND seq (of_nat TCP_SND_SIZE) = unat seq mod TCP_SND_SIZE"
  by (simp add: SLOT_WND_def TCP_SND_SIZE_def)

lemma flush_segment_spec:
  assumes r: "ready c d s" and room: "buf_index (tx_queue s) + 2 \<le> sk_buf_size (tx_queue s)"
    and n: "0 < n" "n \<le> SMSS"
  shows "\<exists>s' bs. flush_segment ev c (of_nat n) ack seq s = Some s' \<and> sent s s' bs \<and> length bs \<le> 2 \<and>
    contiguous seq bs \<and> concat (map seg_bytes bs) = ring_read (sq_buf (snd_queue d)) TCP_SND_SIZE (unat seq) n \<and>
    (\<forall>b \<in> set bs. length (seg_bytes b) \<le> SMSS)"
proof -
  let ?sz = TCP_SND_SIZE and ?f = "sq_buf (snd_queue d)" and ?p = "unat seq"
  have c: "conns s c = Some d" using r by (simp add: ready_def)
  have un: "unat (of_nat n :: u32) = n" using n by (simp add: SMSS_def unat_of_nat)
  have sz: "0 < ?sz" "n \<le> ?sz" using n by (simp_all add: TCP_SND_SIZE_def SMSS_def)
  have lt: "?p mod ?sz < ?sz" using sz by simp
  have b1: "buf_index (tx_queue s) < sk_buf_size (tx_queue s)" using room by simp
  show ?thesis
  proof (cases "?p mod ?sz + n \<le> ?sz")
    case True
    let ?pl = "map ?f [?p mod ?sz ..< ?p mod ?sz + n]"
    obtain s' b where s: "SEND_PACKET_TCP ev c ?pl (of_nat n) ack FLG_ACK seq s = Some s'" "sent s s' [b]"
        "seg_seq b = Some seq" "seg_bytes b = ?pl"
      using SEND_spec [OF r b1 _ _ flags_ack(1), of "of_nat n" ?pl ev ack seq] un n by (auto simp: SMSS_def)
    then show ?thesis
      using True c un ring_read_low [OF sz(1) True, of ?f] n
      by (intro exI [of _ s'] exI [of _ "[b]"]) (simp add: flush_segment_def snd_slot Let_def)
  next
    case False
    define l1 where "l1 = ?sz - ?p mod ?sz"
    define l2 where "l2 = n - l1"
    have l1: "0 < l1" "n = l1 + l2" "l1 \<le> SMSS" "l2 \<le> SMSS" using False lt n by (simp_all add: l1_def l2_def)
    have ul: "unat (of_nat l1 :: u32) = l1" "unat (of_nat l2 :: u32) = l2"
      by (rule unat_of_nat32, use l1 in \<open>simp add: SMSS_def\<close>)+
    let ?x = "map ?f [?p mod ?sz ..< ?sz]" and ?y = "map ?f [0 ..< l2]"
    obtain s1 b where s1: "SEND_PACKET_TCP ev c ?x (of_nat l1) ack FLG_ACK seq s = Some s1" "sent s s1 [b]"
        "seg_seq b = Some seq" "seg_bytes b = ?x"
      using SEND_spec [OF r b1 _ _ flags_ack(1), of "of_nat l1" ?x ev ack seq] ul l1 by (auto simp: SMSS_def l1_def)
    have b2: "buf_index (tx_queue s1) < sk_buf_size (tx_queue s1)" using s1(2) room by (simp add: sent_def)
    have r1: "ready c d s1" by (rule ready_sent [OF r s1(2)])
    obtain s2 b' where s2: "SEND_PACKET_TCP ev c ?y (of_nat l2) ack FLG_ACK (seq + of_nat l1) s1 = Some s2" "sent s1 s2 [b']"
        "seg_seq b' = Some (seq + of_nat l1)" "seg_bytes b' = ?y"
      using SEND_spec [OF r1 b2 _ _ flags_ack(1), of "of_nat l2" ?y ev ack "seq + of_nat l1"] ul l1 by (auto simp: SMSS_def)
    have "conns s1 c = Some d" using r1 by (simp add: ready_def)
    then have f: "flush_segment ev c (of_nat n) ack seq s = Some s2"
      using False c s1(1) s2(1) unfolding flush_segment_def snd_slot Let_def un l1_def [symmetric] l2_def [symmetric] by simp
    have x: "?x @ ?y = ring_read ?f ?sz ?p n" "length ?x = l1"
      using ring_read_high [of ?sz ?p n ?f] False sz by (simp_all add: l1_def l2_def)
    have lb: "length (seg_bytes b) = l1" "length (seg_bytes b') = l2" by (simp_all only: s1(4) s2(4) x(2)) simp
    show ?thesis
    proof (intro exI [of _ s2] exI [of _ "[b, b']"] conjI)
      show "flush_segment ev c (of_nat n) ack seq s = Some s2" by (rule f)
      show "sent s s2 [b, b']" using sent_trans [OF s1(2) s2(2)] by simp
      show "contiguous seq [b, b']" using s1(3) s2(3) lb by simp
      show "concat (map seg_bytes [b, b']) = ring_read ?f ?sz ?p n" using s1(4) s2(4) x(1) by simp
      show "\<forall>b\<in>set [b, b']. length (seg_bytes b) \<le> SMSS" using lb l1 by simp
    qed simp
  qed
qed

lemma snd_dvd: "TCP_SND_SIZE dvd 2 ^ 32"
proof -
  have "(2 :: nat) ^ 32 = TCP_SND_SIZE * 1024" by (simp add: TCP_SND_SIZE_def)
  then show ?thesis by (rule dvdI)
qed

lemma ring_read_next:
  assumes "m \<le> n" and "unat (of_nat m :: u32) = m"
  shows "ring_read f TCP_SND_SIZE (unat seq) n =
    ring_read f TCP_SND_SIZE (unat seq) m @ ring_read f TCP_SND_SIZE (unat (seq + of_nat m :: u32)) (n - m)"
proof -
  have "(unat seq + m) mod TCP_SND_SIZE = unat (seq + of_nat m :: u32) mod TCP_SND_SIZE"
    using slot_add [OF snd_dvd, of seq "of_nat m"] assms(2) by simp
  then have "ring_read f TCP_SND_SIZE (unat seq + m) (n - m) = ring_read f TCP_SND_SIZE (unat (seq + of_nat m :: u32)) (n - m)"
    by (rule ring_read_mod)
  then show ?thesis using ring_read_add [of f TCP_SND_SIZE "unat seq" m "n - m"] assms(1) by simp
qed

text \<open>The segments of a part of the ring: contiguous, none longer than a segment may be.\<close>

definition segmented :: "tcp_conn_desc \<Rightarrow> u32 \<Rightarrow> nat \<Rightarrow> data_sckt_buf list \<Rightarrow> bool" where
  "segmented d seq n bs \<longleftrightarrow> contiguous seq bs \<and> (\<forall>b \<in> set bs. length (seg_bytes b) \<le> SMSS) \<and>
     concat (map seg_bytes bs) = ring_read (sq_buf (snd_queue d)) TCP_SND_SIZE (unat seq) n"

lemma segmented_append:
  assumes "segmented d seq m xs" and "segmented d (seq + of_nat m) (n - m) ys" and "m \<le> n" and "unat (of_nat m :: u32) = m"
  shows "segmented d seq n (xs @ ys)"
proof -
  have "length (concat (map seg_bytes xs)) = m" using assms(1) by (simp add: segmented_def)
  then show ?thesis using assms(1,2) ring_read_next [OF assms(3,4), of "sq_buf (snd_queue d)" seq]
    unfolding segmented_def contiguous_append by (auto simp only: map_append concat_append set_append Un_iff)
qed

lemma flush_loop_spec:
  assumes "ready c d s" and "buf_index (tx_queue s) + 2 * (n div SMSS + 1) \<le> sk_buf_size (tx_queue s)"
  shows "\<exists>s' bs. flush_loop ev c n ack seq s = Some s' \<and> sent s s' bs \<and> segmented d seq n bs"
  using assms
proof (induction n arbitrary: s seq rule: less_induct)
  case (less n)
  have room: "buf_index (tx_queue s) + 2 \<le> sk_buf_size (tx_queue s)" using less.prems(2) by simp
  note seg = flush_segment_spec [OF less.prems(1) room, of _ ev ack seq, folded segmented_def]
  consider "n = 0" | "0 < n" "n < SMSS" | "SMSS \<le> n" by linarith
  then show ?case
  proof cases
    case 1
    then have "flush_loop ev c n ack seq s = Some s" "sent s s []" "segmented d seq n []"
      by (simp_all add: flush_loop.simps SMSS_def sent_def segmented_def ring_read_def)
    then show ?thesis by blast
  next
    case 2
    then obtain s' bs where "flush_segment ev c (of_nat n) ack seq s = Some s'" "sent s s' bs" "segmented d seq n bs"
      using seg [of n] unfolding segmented_def by auto
    moreover from this(1) have "flush_loop ev c n ack seq s = Some s'" using 2 by (subst flush_loop.simps) simp
    ultimately show ?thesis by blast
  next
    case 3
    have sm: "0 < SMSS" "unat (of_nat SMSS :: u32) = SMSS" by (simp_all add: SMSS_def)
    obtain s1 bs1 where s1: "flush_segment ev c (of_nat SMSS) ack seq s = Some s1" "sent s s1 bs1" "length bs1 \<le> 2" "segmented d seq SMSS bs1"
      using seg [OF sm(1) order.refl] unfolding segmented_def by auto
    have "n div SMSS = (n - SMSS) div SMSS + 1" using 3 sm(1) by (simp add: le_div_geq)
    then have room1: "buf_index (tx_queue s1) + 2 * ((n - SMSS) div SMSS + 1) \<le> sk_buf_size (tx_queue s1)"
      using less.prems(2) s1(2,3) by (simp add: sent_def)
    have lt: "n - SMSS < n" using 3 sm(1) by simp
    obtain s2 bs2 where s2: "flush_loop ev c (n - SMSS) ack (seq + of_nat SMSS) s1 = Some s2" "sent s1 s2 bs2"
        "segmented d (seq + of_nat SMSS) (n - SMSS) bs2"
      using less.IH [OF lt ready_sent [OF less.prems(1) s1(2)] room1] by blast
    have "flush_loop ev c n ack seq s = Some s2" using 3 s1(1) s2(1) by (subst flush_loop.simps) simp
    moreover have "segmented d seq n (bs1 @ bs2)" by (rule segmented_append [OF s1(4) s2(3) 3 sm(2)])
    ultimately show ?thesis using sent_trans [OF s1(2) s2(2)] by blast
  qed
qed

text \<open>Timers touch their connection and the timer list only.\<close>

lemma timer_reset_pgybg:
  assumes "conns s c = Some d"
  shows "\<exists>t l. timer_reset (Pgybg c) s = Some (s\<lparr>conns := (conns s)(c \<mapsto> d\<lparr>pgybg_timer := t\<rparr>), timer_list := l\<rparr>)"
proof (cases "ref (pgybg_timer d)")
  case True
  then show ?thesis using assms
    by (intro exI [of _ "\<lparr>val = 0, ref = False\<rparr>"] exI [of _ "remove1 (Pgybg c) (timer_list s)"])
      (simp add: timer_reset_def upd_conn_def)
next
  case False
  have "(conns s)(c \<mapsto> d\<lparr>pgybg_timer := pgybg_timer d\<rparr>) = conns s" using assms by (simp add: fun_upd_idem)
  then have "s\<lparr>conns := (conns s)(c \<mapsto> d\<lparr>pgybg_timer := pgybg_timer d\<rparr>), timer_list := timer_list s\<rparr> = s" by simp
  moreover have "timer_reset (Pgybg c) s = Some s" using False assms by (simp add: timer_reset_def)
  ultimately show ?thesis by metis
qed

lemma timer_set_rtrsn:
  assumes "conns s c = Some d"
  shows "\<exists>l. timer_set (Rtrsn c) v s = Some (s\<lparr>conns := (conns s)(c \<mapsto> d\<lparr>rtrsn_timer := \<lparr>val = v, ref = True\<rparr>\<rparr>), timer_list := l\<rparr>)"
proof (cases "ref (rtrsn_timer d)")
  case True
  then have e: "(rtrsn_timer d)\<lparr>val := v\<rparr> = \<lparr>val = v, ref = True\<rparr>" by (cases "rtrsn_timer d") simp
  show ?thesis
    using True assms by (intro exI [of _ "timer_list s"]) (simp add: timer_set_def upd_conn_def e)
next
  case False
  then show ?thesis using assms
    by (intro exI [of _ "timer_list s @ [Rtrsn c]"]) (simp add: timer_set_def upd_conn_def)
qed

section \<open>Properties\<close>

text \<open>A connection to a peer behind the gateway, whose hardware address is known.\<close>

definition linked_net :: net where
  "linked_net = net_one_conn\<lparr>arp_cache :=
     the (hashtable_put (hashtable_init 10) (unat DEFAULT_GW_IP) \<lparr>mac_lo = 1, mac_mi = 2, mac_hi = 3\<rparr>)\<rparr>"

lemma linked_net_hop:
  "hashtable_get (arp_cache linked_net) (unat (next_hop linked_net 0)) = Some \<lparr>mac_lo = 1, mac_mi = 2, mac_hi = 3\<rparr>"
proof -
  let ?m = "\<lparr>mac_lo = 1, mac_mi = 2, mac_hi = 3\<rparr> :: mac_addr"
  obtain h where "hashtable_put (hashtable_init 10) (unat DEFAULT_GW_IP) ?m = Some h"
      "hashtable_get h = (hashtable_get (hashtable_init 10))(unat DEFAULT_GW_IP := Some ?m)"
    using hashtable_put_dict [of "hashtable_init 10 :: mac_addr hashtable" "unat DEFAULT_GW_IP" ?m] by (auto simp: ht_dict_init)
  moreover have "next_hop linked_net 0 = DEFAULT_GW_IP"
    by (simp add: next_hop_def linked_net_def net_one_conn_def tcp_conn_desc_int_def empty_net_def LOCAL_NETMASK_def LOCAL_IP_def)
  ultimately show ?thesis by (simp add: linked_net_def)
qed

lemma linked_net_tx: "tx_queue linked_net = sckt_buf_desc_init"
  by (simp add: linked_net_def net_one_conn_def tcp_conn_desc_int_def empty_net_def)

lemma linked_net_ready:
  "\<exists>d. ready 1 d linked_net \<and> rcv_queue d = tcp_rcv_queue_init (\<lambda>_. 0) \<and> snd_queue d = tcp_snd_queue_init (\<lambda>_. 0) \<and> rto d = of_nat DEFAULT_RTO"
  using linked_net_hop
  by (simp add: ready_def linked_net_def net_one_conn_def tcp_conn_desc_int_def empty_net_def)

text \<open>C10: The segments of TCP. With the next hop in the ARP cache and room in the transmit queue,
  sending a segment returns and queues one packet from which the receiver reads back the ports, the
  sequence and acknowledgement numbers, the flags and the low 16 bits of the window, whose checksum
  it accepts, and whose payload is the one sent. A segment with the SYN flag carries an option of
  four bytes, which the receiver, ignoring the data offset, counts as data before the payload.\<close>

theorem tcp_segment_roundtrip:
  assumes "length pl + tcp_hlen flags + 20 \<le> 1518"
    and "hashtable_get (arp_cache s) (unat (next_hop s dip)) = Some dm"
    and "buf_index (tx_queue s) < sk_buf_size (tx_queue s)"
  shows "\<exists>s' b g. send_packet_tcp ev sip dip sport dport wnd pl (of_nat (length pl)) ack flags seq s = Some s' \<and>
    sk_buf (tx_queue s') = sk_buf (tx_queue s) @ [b] \<and>
    rcv_parse b sip dip (of_nat (length pl + tcp_hlen flags - 20)) = Some g \<and>
    checksum_tcp (data b) 34 sip dip (sg_len g) HEADER_TCP = Some 0 \<and>
    sg_src_port g = sport \<and> sg_dst_port g = dport \<and> sg_seq g = seq \<and> sg_ack g = ack \<and> sg_flags g = flags \<and>
    sg_wnd g = wnd AND 0xFFFF \<and> drop (tcp_hlen flags - 20) (sg_payload g) = pl"
proof -
  let ?se = "tcp_sealed sip dip sport dport seq ack flags wnd pl"
  let ?b = "tcp_buf s dm sip dip ?se"
  define len where "len = (of_nat (length pl + tcp_hlen flags - 20) :: u16)"
  let ?xs = "eth_header dm (dev_mac s) @ ip_sealed (of_nat (length ?se) + 20) (ipv4_id s) TCP_PROTOCOL sip dip"
  have h: "20 \<le> tcp_hlen flags" by (simp add: tcp_hlen_def)
  have "unat (of_nat (length pl) :: u32) = length pl" using assms(1) by (intro unat_of_nat32) simp
  then have "rd_bytes pl 0 (unat (of_nat (length pl) :: u32)) = Some pl" by (simp add: rd_bytes_def)
  then have snd: "send_packet_tcp ev sip dip sport dport wnd pl (of_nat (length pl)) ack flags seq s = Some (put_tx ?b s)"
    using assms(1,2) by (rule send_tcp_spec)
  have db: "data ?b = ?xs @ ?se" "transport_hdr ?b = Some 34" by (simp_all add: tcp_buf_def tcp_frame_def)
  have ul: "unat len + 20 = length pl + tcp_hlen flags"
    unfolding len_def using h assms(1) unat_of_nat16 [of "length pl + tcp_hlen flags - 20"] by simp
  then have ck: "checksum_tcp (data ?b) 34 sip dip len HEADER_TCP = Some 0"
    using tcp_sealed_checksum [of ?xs 34 len 20 pl flags sip dip sport dport seq ack wnd "[]"] assms(1) db(1)
    by (simp only: HEADER_TCP_def append_assoc append_Nil2) simp
  have wnd: "ucast (ucast wnd :: u16) = wnd AND 0xFFFF"
  proof -
    have "ucast (ucast wnd :: u16) = take_bit 16 wnd" by (rule bit_word_eqI) (auto simp: bit_simps)
    then show ?thesis by (simp add: take_bit_eq_mask mask_eq_exp_minus_1)
  qed
  note f = tcp_sealed_fields [where zs = "[]", simplified]
  define g where "g = \<lparr>sg_src_ip = sip, sg_dst_ip = dip, sg_src_port = sport, sg_dst_port = dport, sg_seq = seq,
      sg_ack = ack, sg_flags = flags, sg_wnd = wnd AND 0xFFFF, sg_len = len, sg_payload = drop 20 ?se\<rparr>"
  have "rcv_parse ?b sip dip len = Some g"
    by (simp add: rcv_parse_def db rd_word_shift rd_dword_shift rd_shift f wnd g_def HEADER_TCP_def)
  moreover have "drop (tcp_hlen flags - 20) (drop 20 ?se) = pl"
    using f(7) [of flags sip dip sport dport seq ack wnd pl] h by (simp add: add.commute)
  ultimately show ?thesis unfolding len_def [symmetric] using snd ck assms(3)
    by (intro exI [of _ "put_tx ?b s"] exI [of _ ?b] exI [of _ g]) (simp add: put_tx_def enqueue_sckt_def g_def)
qed

theorem tcp_segment_roundtrip_witness:
  "\<exists>s' b g. send_packet_tcp id LOCAL_IP 0 80 4000 2000 [7, 8, 9] (of_nat (length [7, 8, 9 :: u8])) 5 FLG_ACK 6 linked_net = Some s' \<and>
    sk_buf (tx_queue s') = sk_buf (tx_queue linked_net) @ [b] \<and>
    rcv_parse b LOCAL_IP 0 (of_nat (length [7, 8, 9 :: u8] + tcp_hlen FLG_ACK - 20)) = Some g \<and>
    checksum_tcp (data b) 34 LOCAL_IP 0 (sg_len g) HEADER_TCP = Some 0 \<and>
    sg_src_port g = 80 \<and> sg_dst_port g = 4000 \<and> sg_seq g = 6 \<and> sg_ack g = 5 \<and> sg_flags g = FLG_ACK \<and>
    sg_wnd g = 2000 AND 0xFFFF \<and> drop (tcp_hlen FLG_ACK - 20) (sg_payload g) = [7, 8, 9]"
  by (rule tcp_segment_roundtrip [OF _ linked_net_hop])
    (simp_all add: linked_net_tx sckt_buf_desc_init_def SOCKET_BUFFER_SIZE_def tcp_hlen_def)

text \<open>C9: Flushing the send window. With the next hop in the ARP cache and room in the transmit
  queue, \<open>flush_data\<close> returns; the packets it queues carry consecutive ranges of sequence numbers
  from the given one on, none longer than a segment, and their payloads together are the given
  number of bytes of the send ring, also where this range crosses the end of the ring. The send queue of
  the connection is unchanged and its retransmission timer is armed with the current timeout.\<close>

theorem flush_data_segments:
  assumes r: "ready c d s" and "0 < n"
    and room: "buf_index (tx_queue s) + 2 * (unat n div SMSS + 1) \<le> sk_buf_size (tx_queue s)"
  shows "\<exists>s' d' bs. flush_data ev c n ack seq s = Some s' \<and> sk_buf (tx_queue s') = sk_buf (tx_queue s) @ bs \<and>
    contiguous seq bs \<and> (\<forall>b \<in> set bs. length (seg_bytes b) \<le> SMSS) \<and>
    concat (map seg_bytes bs) = ring_read (sq_buf (snd_queue d)) TCP_SND_SIZE (unat seq) (unat n) \<and>
    conns s' c = Some d' \<and> snd_queue d' = snd_queue d \<and> rtrsn_timer d' = \<lparr>val = rto d, ref = True\<rparr>"
proof -
  define s0 where "s0 = (if n > 100000 then net_panic s else s)"
  have c: "conns s0 c = Some d" and tx: "tx_queue s0 = tx_queue s"
    and hop: "\<exists>dm. hashtable_get (arp_cache s0) (unat (next_hop s0 (dst_ip d))) = Some dm"
    using r by (auto simp: s0_def ready_def net_panic_def next_hop_def)
  obtain t l where t: "timer_reset (Pgybg c) s0 = Some (s0\<lparr>conns := (conns s0)(c \<mapsto> d\<lparr>pgybg_timer := t\<rparr>), timer_list := l\<rparr>)"
    using timer_reset_pgybg [OF c] by blast
  let ?d = "d\<lparr>pgybg_timer := t\<rparr>"
  let ?s1 = "s0\<lparr>conns := (conns s0)(c \<mapsto> ?d), timer_list := l\<rparr>"
  have r1: "ready c ?d ?s1" using hop by (auto simp: ready_def next_hop_def)
  obtain s2 bs where s2: "flush_loop ev c (unat n) ack seq ?s1 = Some s2" "sent ?s1 s2 bs" "segmented ?d seq (unat n) bs"
    using flush_loop_spec [OF r1, of "unat n" ev ack seq] room tx by auto
  have c2: "conns s2 c = Some ?d" using s2(2) by (simp add: sent_def)
  obtain l' where s3: "timer_set (Rtrsn c) (rto d) s2 =
      Some (s2\<lparr>conns := (conns s2)(c \<mapsto> ?d\<lparr>rtrsn_timer := \<lparr>val = rto d, ref = True\<rparr>\<rparr>), timer_list := l'\<rparr>)"
    using timer_set_rtrsn [OF c2] by blast
  let ?s3 = "s2\<lparr>conns := (conns s2)(c \<mapsto> ?d\<lparr>rtrsn_timer := \<lparr>val = rto d, ref = True\<rparr>\<rparr>), timer_list := l'\<rparr>"
  have "flush_data ev c n ack seq s = Some ?s3"
    using t s2(1) c2 s3 \<open>0 < n\<close> by (simp add: flush_data_def s0_def [symmetric])
  then show ?thesis using s2(2,3) tx
    by (intro exI [of _ ?s3] exI [of _ "?d\<lparr>rtrsn_timer := \<lparr>val = rto d, ref = True\<rparr>\<rparr>"] exI [of _ bs])
      (simp add: sent_def segmented_def)
qed

theorem flush_data_segments_witness:
  "\<exists>(d :: tcp_conn_desc) s' d' bs. flush_data id 1 3000 0 4194000 linked_net = Some s' \<and> sk_buf (tx_queue s') = sk_buf (tx_queue linked_net) @ bs \<and>
    contiguous 4194000 bs \<and> (\<forall>b \<in> set bs. length (seg_bytes b) \<le> SMSS) \<and>
    concat (map seg_bytes bs) = ring_read (sq_buf (snd_queue d)) TCP_SND_SIZE (unat (4194000 :: u32)) (unat (3000 :: u32)) \<and>
    conns s' 1 = Some d' \<and> snd_queue d' = snd_queue d \<and> rtrsn_timer d' = \<lparr>val = rto d, ref = True\<rparr>"
proof -
  obtain d where "ready 1 d linked_net" using linked_net_ready by blast
  show ?thesis
    by (rule exI [of _ d], rule flush_data_segments [OF \<open>ready 1 d linked_net\<close>]) (simp_all add: linked_net_tx sckt_buf_desc_init_def SOCKET_BUFFER_SIZE_def SMSS_def)
qed

end
