(* ===== verification/Tcp_Stream.thy ===== *)
theory Tcp_Stream
  imports Tcp_Segments
begin

text \<open>
  The byte streams of a TCP connection. The interface \<open>byte_stream\<close> states what a bounded stream
  buffer promises: data put in comes out unchanged, in order and once. The receive ring of
  \<^verbatim>\<open>src/network/tcp.c\<close> and \<^verbatim>\<open>tcp_socket.c\<close> provides it for segments that arrive in order; the copy into
  the send ring does not when it crosses the end of the ring.
\<close>

section \<open>The interface\<close>

datatype 'a stream_op = Put "'a list" | Get nat

locale byte_stream =
  fixes contents :: "'q \<Rightarrow> 'a list"
    and room :: "'q \<Rightarrow> nat"
    and ok :: "'q \<Rightarrow> bool"
    and put :: "'q \<Rightarrow> 'a list \<Rightarrow> 'q option"
    and get :: "'q \<Rightarrow> nat \<Rightarrow> ('a list \<times> 'q) option"
  assumes put_ok: "ok q \<Longrightarrow> xs \<noteq> [] \<Longrightarrow> length xs \<le> room q \<Longrightarrow>
      \<exists>q'. put q xs = Some q' \<and> ok q' \<and> contents q' = contents q @ xs \<and> room q' + length xs = room q"
    and get_ok: "ok q \<Longrightarrow> 0 < n \<Longrightarrow> n \<le> length (contents q) \<Longrightarrow>
      \<exists>q'. get q n = Some (take n (contents q), q') \<and> ok q' \<and> contents q' = drop n (contents q) \<and> room q' = room q + n"
begin

text \<open>A sequence of operations, with what it puts in and what it takes out.\<close>

fun run :: "'a stream_op list \<Rightarrow> 'q \<Rightarrow> ('a list \<times> 'q) option" where
  "run [] q = Some ([], q)"
| "run (Put xs # ops) q = do { q \<leftarrow> put q xs; run ops q }"
| "run (Get n # ops) q = do { (ys, q) \<leftarrow> get q n; (zs, q) \<leftarrow> run ops q; Some (ys @ zs, q) }"

fun inputs :: "'a stream_op list \<Rightarrow> 'a list" where
  "inputs [] = []"
| "inputs (Put xs # ops) = xs @ inputs ops"
| "inputs (Get n # ops) = inputs ops"

text \<open>\<open>fits ops u r\<close>: with \<open>u\<close> bytes held and room for \<open>r\<close> more, no operation asks for too much.\<close>

fun fits :: "'a stream_op list \<Rightarrow> nat \<Rightarrow> nat \<Rightarrow> bool" where
  "fits [] u r \<longleftrightarrow> True"
| "fits (Put xs # ops) u r \<longleftrightarrow> xs \<noteq> [] \<and> length xs \<le> r \<and> fits ops (u + length xs) (r - length xs)"
| "fits (Get n # ops) u r \<longleftrightarrow> 0 < n \<and> n \<le> u \<and> fits ops (u - n) (r + n)"

lemma stream_preserved:
  assumes "ok q" and "fits ops (length (contents q)) (room q)"
  shows "\<exists>out q'. run ops q = Some (out, q') \<and> ok q' \<and> out @ contents q' = contents q @ inputs ops"
  using assms
proof (induction ops arbitrary: q rule: inputs.induct)
  case (2 xs ops)
  then obtain q' where q': "put q xs = Some q'" "ok q'" "contents q' = contents q @ xs" "room q' + length xs = room q"
    using put_ok [of q xs] by auto
  have "room q - length xs = room q'" using q'(4) by simp
  then have "fits ops (length (contents q')) (room q')" using 2(3) q'(3) by simp
  then show ?case using 2(1) [OF q'(2)] q' by auto
next
  case (3 n ops)
  then obtain q' where q': "get q n = Some (take n (contents q), q')" "ok q'" "contents q' = drop n (contents q)" "room q' = room q + n"
    using get_ok [of q n] by auto
  have "fits ops (length (contents q')) (room q')" using 3(3) q'(3,4) by simp
  then obtain out q'' where "run ops q' = Some (out, q'')" "ok q''" "out @ contents q'' = contents q' @ inputs ops"
    using 3(1) [OF q'(2)] by blast
  then show ?case using q' by (intro exI [of _ "take n (contents q) @ out"] exI [of _ q'']) simp
qed simp

end

section \<open>The receive ring\<close>

text \<open>
  In order means at \<open>nxt_rcv\<close> with no hole in the window. \<open>rcv_put\<close> is what \<open>rcv_data\<close> does with
  the queue for such a segment, \<open>rcv_get\<close> what \<open>dequeue_packet_tcp\<close> does.
\<close>

definition rcv_put :: "tcp_rcv_queue \<Rightarrow> u8 list \<Rightarrow> tcp_rcv_queue option" where
  "rcv_put q pl =
     do { let (wnd_max, n, sq64) = in_window q (nxt_rcv q);
          let len = (of_nat (length pl) :: u16);
          if sq64 \<ge> n \<and> sq64 + uint len \<le> wnd_max
          then do { q' \<leftarrow> store_segment q pl (nxt_rcv q) sq64 len;
                    Some (snd (update_rcv_window_and_ack q' (ucast len) (nxt_rcv q))) }
          else None }"

definition rcv_get :: "tcp_rcv_queue \<Rightarrow> nat \<Rightarrow> (u8 list \<times> tcp_rcv_queue) option" where
  "rcv_get q n =
     do { out \<leftarrow> rcv_copy q (of_nat n);
          Some (out, q\<lparr>rq_wnd_size := rq_wnd_size q + of_nat n, rq_wnd_min := rq_wnd_min q + of_nat n\<rparr>) }"

definition rq_unread :: "tcp_rcv_queue \<Rightarrow> nat" where
  "rq_unread q = unat (nxt_rcv q - rq_wnd_min q)"

definition rq_ok :: "tcp_rcv_queue \<Rightarrow> bool" where
  "rq_ok q \<longleftrightarrow> rq_buf_size q = of_nat TCP_RCV_SIZE \<and> \<not> is_wnd_hole q \<and>
     rq_unread q + unat (rq_wnd_size q) = TCP_RCV_SIZE"

definition rq_contents :: "tcp_rcv_queue \<Rightarrow> u8 list" where
  "rq_contents q = ring_read (rq_buf q) TCP_RCV_SIZE (unat (rq_wnd_min q)) (rq_unread q)"

lemma rcv_dvd: "TCP_RCV_SIZE dvd 2 ^ 32"
proof -
  have "(2 :: nat) ^ 32 = 32768 * 131072" by simp
  then show ?thesis unfolding TCP_RCV_SIZE_def by (metis dvd_triv_left)
qed

lemma rcv_size [simp]: "unat (of_nat TCP_RCV_SIZE :: u32) = TCP_RCV_SIZE" "0 < TCP_RCV_SIZE"
  by (simp_all add: TCP_RCV_SIZE_def)

lemma nxt_slot: "unat (nxt_rcv q) mod TCP_RCV_SIZE = (unat (rq_wnd_min q) + rq_unread q) mod TCP_RCV_SIZE"
  using slot_add [OF rcv_dvd, of "rq_wnd_min q" "nxt_rcv q - rq_wnd_min q"] by (simp add: rq_unread_def)

text \<open>The window test on the 64-bit scale, also where the sequence numbers wrap around.\<close>

lemma wrap_unread:
  "unat (nxt_rcv q) = (if nxt_rcv q \<ge> rq_wnd_min q then unat (rq_wnd_min q) + rq_unread q
     else unat (rq_wnd_min q) + rq_unread q - 2 ^ 32)"
  "\<not> nxt_rcv q \<ge> rq_wnd_min q \<Longrightarrow> 2 ^ 32 \<le> unat (rq_wnd_min q) + rq_unread q"
proof -
  let ?a = "unat (rq_wnd_min q)" and ?b = "unat (nxt_rcv q)"
  have b: "?a < 2 ^ 32" "?b < 2 ^ 32" using unsigned_less [of "rq_wnd_min q"] unsigned_less [of "nxt_rcv q"] by simp_all
  have "rq_unread q = (if ?a \<le> ?b then ?b - ?a else 2 ^ 32 + ?b - ?a)"
    unfolding rq_unread_def by (auto simp: unat_sub_if' word_le_nat_alt)
  then show "?b = (if nxt_rcv q \<ge> rq_wnd_min q then ?a + rq_unread q else ?a + rq_unread q - 2 ^ 32)"
    and "\<not> nxt_rcv q \<ge> rq_wnd_min q \<Longrightarrow> 2 ^ 32 \<le> ?a + rq_unread q"
    using b by (auto simp: word_le_nat_alt)
qed

lemma in_window_in_order:
  assumes "rq_ok q" and "length pl \<le> unat (rq_wnd_size q)"
  shows "\<exists>wnd_max n. in_window q (nxt_rcv q) = (wnd_max, n, n) \<and> n + int (length pl) \<le> wnd_max"
proof -
  let ?a = "unat (rq_wnd_min q)" and ?b = "unat (nxt_rcv q)" and ?u = "rq_unread q"
  have sz: "uint (rq_buf_size q) = 32768" using assms(1) by (simp add: rq_ok_def TCP_RCV_SIZE_def)
  have u: "?u + length pl \<le> 32768" using assms by (simp add: rq_ok_def TCP_RCV_SIZE_def)
  have lim: "nxt_rcv q \<le> rq_wnd_min q + rq_buf_size q \<longleftrightarrow> ?b \<le> (?a + 32768) mod 2 ^ 32"
    using assms(1) by (simp add: word_le_nat_alt unat_word_ariths rq_ok_def TCP_RCV_SIZE_def)
  have alt: "?a < 2 ^ 32" using unsigned_less [of "rq_wnd_min q"] by simp
  show ?thesis
  proof (cases "nxt_rcv q \<ge> rq_wnd_min q")
    case True
    have "\<not> (int ?a + 32768 > 4294967295 \<and> ?b \<le> (?a + 32768) mod 2 ^ 32)"
    proof
      assume w: "int ?a + 32768 > 4294967295 \<and> ?b \<le> (?a + 32768) mod 2 ^ 32"
      then have ge: "4294967296 \<le> ?a + 32768" by (elim conjE) linarith
      then have "(?a + 32768) mod 2 ^ 32 = ?a + 32768 - 2 ^ 32" using alt by (simp add: mod_if)
      then have "?b \<le> ?a + 32768 - 4294967296" using w by simp
      moreover have "?a \<le> ?b" using True by (simp add: word_le_nat_alt)
      ultimately show False using ge by linarith
    qed
    then have "in_window q (nxt_rcv q) = (int ?a + 32768, int ?b, int ?b)"
      using True sz lim by (simp add: in_window_def Let_def CHK_OVRFLW_def)
    moreover have "int ?b + int (length pl) \<le> int ?a + 32768"
      using wrap_unread(1) [of q] True u by (simp only: if_True)
    ultimately show ?thesis by blast
  next
    case False
    have w: "4294967296 \<le> ?a + ?u" "?b = ?a + ?u - 4294967296" using wrap_unread [of q] False by simp_all
    then have "(?a + 32768) mod 2 ^ 32 = ?a + 32768 - 2 ^ 32" using alt u by (simp add: mod_if)
    then have "?b \<le> (?a + 32768) mod 2 ^ 32" using w u by simp
    moreover have "int ?a + 32768 > 4294967295" using w(1) u by linarith
    ultimately have "int ?a + 32768 > 4294967295 \<and> ?b \<le> (?a + 32768) mod 2 ^ 32" by blast
    then have "in_window q (nxt_rcv q) = (int ?a + 32768, int ?b + 4294967295, int ?b + 4294967295)"
      using False sz lim by (simp add: in_window_def Let_def CHK_OVRFLW_def)
    moreover have "int ?b + 4294967295 + int (length pl) \<le> int ?a + 32768"
      using w u by linarith
    ultimately show ?thesis by blast
  qed
qed

lemma store_in_order:
  assumes ok: "rq_ok q" and ne: "pl \<noteq> []" and len: "length pl \<le> TCP_RCV_SIZE"
  shows "store_segment q pl (nxt_rcv q) n (of_nat (length pl)) =
    Some (q\<lparr>rq_buf := ring_write (rq_buf q) TCP_RCV_SIZE (unat (nxt_rcv q) mod TCP_RCV_SIZE) pl\<rparr>)"
proof -
  let ?l = "of_nat (length pl) :: u16" and ?sz = TCP_RCV_SIZE
  let ?low = "unat (nxt_rcv q) mod ?sz"
  have ul: "unat (ucast ?l :: u32) = length pl"
    using len by (simp add: unsigned_ucast_eq TCP_RCV_SIZE_def take_bit_nat_eq_self unat_of_nat)
  have low: "SLOT_WND (nxt_rcv q) (rq_buf_size q) = ?low" using ok by (simp add: SLOT_WND_def rq_ok_def)
  have "unat (nxt_rcv q + ucast ?l) mod ?sz = (unat (nxt_rcv q) + length pl) mod ?sz"
    using slot_add [OF rcv_dvd, of "nxt_rcv q" "ucast ?l"] ul by simp
  then have hi: "SLOT_WND (nxt_rcv q + ucast ?l) (rq_buf_size q) = (if ?low + length pl < ?sz then ?low + length pl else ?low + length pl - ?sz)"
    using ring_index [of ?sz "length pl" "unat (nxt_rcv q)"] len ok by (simp add: SLOT_WND_def rq_ok_def)
  have sz: "unat (rq_buf_size q) = ?sz" and nh: "\<not> is_wnd_hole q" using ok by (simp_all add: rq_ok_def)
  have lt: "?low < ?sz" "0 < length pl" using ne by simp_all
  show ?thesis
  proof (cases "?low + length pl < ?sz")
    case True
    then show ?thesis using low hi sz nh lt unfolding store_segment_def Let_def by (simp add: ring_write_def)
  next
    case False
    then have hl: "\<not> ?low < ?low + length pl - ?sz" and l1: "?sz - ?low \<le> length pl" "length pl - (?sz - ?low) \<le> ?sz"
      using lt len by linarith+
    have w: "ring_write f ?sz ?low pl = buf_write (buf_write f ?low (take (?sz - ?low) pl)) 0 (drop (?sz - ?low) pl)" for f
    proof (cases "?low + length pl = ?sz")
      case True
      then have "take (?sz - ?low) pl = pl" "drop (?sz - ?low) pl = []" by simp_all
      then show ?thesis using True by (auto simp: ring_write_def buf_write_def)
    qed (use False in \<open>simp add: ring_write_def\<close>)
    show ?thesis using False low hi sz nh hl l1 unfolding store_segment_def Let_def by (simp add: w)
  qed
qed

lemma rcv_put_spec:
  assumes ok: "rq_ok q" and ne: "pl \<noteq> []" and len: "length pl \<le> unat (rq_wnd_size q)"
  shows "\<exists>q'. rcv_put q pl = Some q' \<and> rq_ok q' \<and> rq_contents q' = rq_contents q @ pl \<and>
    unat (rq_wnd_size q') + length pl = unat (rq_wnd_size q)"
proof -
  let ?sz = TCP_RCV_SIZE and ?l = "of_nat (length pl) :: u32"
  let ?g = "ring_write (rq_buf q) ?sz (unat (nxt_rcv q) mod ?sz) pl"
  have u: "rq_unread q + unat (rq_wnd_size q) = ?sz" using ok by (simp add: rq_ok_def)
  have l: "length pl \<le> ?sz" "rq_unread q + length pl \<le> ?sz" using u len by simp_all
  have l16: "uint (of_nat (length pl) :: u16) = int (length pl)" "ucast (of_nat (length pl) :: u16) = ?l" "unat ?l = length pl"
    using l(1) by (simp_all add: TCP_RCV_SIZE_def unsigned_of_nat take_bit_nat_eq_self)
  obtain wnd_max n where w: "in_window q (nxt_rcv q) = (wnd_max, n, n)" "n + int (length pl) \<le> wnd_max"
    using in_window_in_order [OF ok len] by blast
  define q' where "q' = q\<lparr>rq_buf := ?g, nxt_rcv := nxt_rcv q + ?l, rq_wnd_size := rq_wnd_size q - ?l\<rparr>"
  have put: "rcv_put q pl = Some q'"
    using w l16 ok store_in_order [OF ok ne l(1)]
    by (simp add: rcv_put_def Let_def update_rcv_window_and_ack_def rq_ok_def q'_def)
  have ws: "unat (rq_wnd_size q') = unat (rq_wnd_size q) - length pl"
    using l16(3) len by (simp add: q'_def unat_sub word_le_nat_alt)
  have "unat (nxt_rcv q - rq_wnd_min q + ?l) = rq_unread q + length pl"
    using l(2) l16(3) by (simp add: rq_unread_def unat_word_ariths TCP_RCV_SIZE_def)
  then have ur: "rq_unread q' = rq_unread q + length pl" by (simp add: q'_def rq_unread_def algebra_simps)
  have "rq_ok q'" using ok u ws ur len by (simp add: rq_ok_def) (simp add: q'_def)
  moreover have "rq_contents q' = rq_contents q @ pl"
  proof -
    have "rq_contents q' = ring_read ?g ?sz (unat (rq_wnd_min q)) (rq_unread q)
        @ ring_read ?g ?sz (unat (rq_wnd_min q) + rq_unread q) (length pl)"
      by (simp add: rq_contents_def ur ring_read_add) (simp add: q'_def)
    also have "ring_read ?g ?sz (unat (rq_wnd_min q)) (rq_unread q) = rq_contents q"
      using ring_write_frame [of ?sz "rq_unread q" pl _ "unat (rq_wnd_min q)"] l(2) nxt_slot [of q] by (simp add: rq_contents_def)
    also have "ring_read ?g ?sz (unat (rq_wnd_min q) + rq_unread q) (length pl) = pl"
      using ring_write_read [of ?sz pl] l(1) nxt_slot [of q] by simp
    finally show ?thesis .
  qed
  ultimately show ?thesis using put ws len by auto
qed

lemma rcv_copy_spec:
  assumes ok: "rq_ok q" and n: "0 < n" "n \<le> rq_unread q"
  shows "rcv_copy q (of_nat n) = Some (take n (rq_contents q))"
proof -
  let ?sz = TCP_RCV_SIZE and ?p = "unat (rq_wnd_min q)"
  have le: "rq_unread q \<le> ?sz" using ok by (simp add: rq_ok_def)
  have un: "unat (of_nat n :: u32) = n" using n le by (simp add: TCP_RCV_SIZE_def unat_of_nat)
  have low: "SLOT_WND (rq_wnd_min q) (rq_buf_size q) = ?p mod ?sz" and sz: "unat (rq_buf_size q) = ?sz"
    using ok by (simp_all add: SLOT_WND_def rq_ok_def)
  have "unat (rq_wnd_min q + of_nat n) mod ?sz = (?p + n) mod ?sz" using slot_add [OF rcv_dvd, of _ "of_nat n"] un by simp
  then have hi: "SLOT_WND (rq_wnd_min q + of_nat n) (rq_buf_size q) = (if ?p mod ?sz + n < ?sz then ?p mod ?sz + n else ?p mod ?sz + n - ?sz)"
    using ring_index [of ?sz n ?p] n le sz by (simp add: SLOT_WND_def)
  have lt: "?p mod ?sz < ?sz" by simp
  have r: "take n (rq_contents q) = ring_read (rq_buf q) ?sz ?p n"
    using ring_read_add [of "rq_buf q" ?sz ?p n "rq_unread q - n"] n by (simp add: rq_contents_def)
  show ?thesis
  proof (cases "?p mod ?sz + n < ?sz")
    case True
    then show ?thesis using low hi sz n(1) un r ring_read_low [of ?sz ?p n "rq_buf q"]
      unfolding rcv_copy_def Let_def by simp
  next
    case False
    then have "\<not> ?p mod ?sz < ?p mod ?sz + n - ?sz" "?sz - ?p mod ?sz \<le> n" "n - (?sz - ?p mod ?sz) \<le> ?sz"
      using lt n le by linarith+
    then show ?thesis using False low hi sz un r ring_read_high [of ?sz ?p n "rq_buf q"] n le
      unfolding rcv_copy_def Let_def by simp
  qed
qed

lemma rcv_get_spec:
  assumes ok: "rq_ok q" and n: "0 < n" "n \<le> rq_unread q"
  shows "\<exists>q'. rcv_get q n = Some (take n (rq_contents q), q') \<and> rq_ok q' \<and> rq_contents q' = drop n (rq_contents q) \<and>
    unat (rq_wnd_size q') = unat (rq_wnd_size q) + n"
proof -
  let ?sz = TCP_RCV_SIZE and ?n = "of_nat n :: u32"
  define q' where "q' = q\<lparr>rq_wnd_size := rq_wnd_size q + ?n, rq_wnd_min := rq_wnd_min q + ?n\<rparr>"
  have u: "rq_unread q + unat (rq_wnd_size q) = ?sz" using ok by (simp add: rq_ok_def)
  have un: "unat ?n = n" using n u by (simp add: TCP_RCV_SIZE_def unat_of_nat)
  have ws: "unat (rq_wnd_size q') = unat (rq_wnd_size q) + n"
    using n u un by (simp add: q'_def unat_word_ariths TCP_RCV_SIZE_def)
  have "unat (nxt_rcv q - rq_wnd_min q - ?n) = rq_unread q - n"
    using n un by (simp add: rq_unread_def unat_sub word_le_nat_alt)
  then have ur: "rq_unread q' = rq_unread q - n" by (simp add: q'_def rq_unread_def algebra_simps)
  have "rq_ok q'" using ok u ws ur n by (simp add: rq_ok_def) (simp add: q'_def)
  moreover have "rq_contents q' = drop n (rq_contents q)"
  proof -
    have "rq_contents q = ring_read (rq_buf q) ?sz (unat (rq_wnd_min q)) n
        @ ring_read (rq_buf q) ?sz (unat (rq_wnd_min q) + n) (rq_unread q - n)"
      using ring_read_add [of "rq_buf q" ?sz "unat (rq_wnd_min q)" n "rq_unread q - n"] n by (simp add: rq_contents_def)
    then have "drop n (rq_contents q) = ring_read (rq_buf q) ?sz (unat (rq_wnd_min q) + n) (rq_unread q - n)"
      by (simp add: ring_read_def)
    moreover have "unat (rq_wnd_min q + ?n) mod ?sz = (unat (rq_wnd_min q) + n) mod ?sz"
      using slot_add [OF rcv_dvd, of "rq_wnd_min q" ?n] un by simp
    ultimately show ?thesis
      using ring_read_mod [of "unat (rq_wnd_min q + ?n)" ?sz "unat (rq_wnd_min q) + n" "rq_buf q"]
      by (simp add: rq_contents_def ur) (simp add: q'_def)
  qed
  ultimately show ?thesis using rcv_copy_spec [OF ok n] ws by (auto simp: rcv_get_def q'_def)
qed

lemma length_rq_contents: "length (rq_contents q) = rq_unread q"
  by (simp add: rq_contents_def ring_read_def)

interpretation rcv: byte_stream rq_contents "\<lambda>q. unat (rq_wnd_size q)" rq_ok rcv_put rcv_get
  by unfold_locales (use rcv_put_spec rcv_get_spec length_rq_contents in auto)

section \<open>Delivering and reading\<close>

text \<open>
  The operations of the stack the ring serves: \<open>rcv_data\<close> on the next segment in order and
  \<open>dequeue_packet_tcp\<close>, the TCP part of the system call that reads.
\<close>

definition in_order_seg :: "tcp_conn_desc \<Rightarrow> u8 list \<Rightarrow> seg" where
  "in_order_seg d pl = \<lparr>sg_src_ip = dst_ip d, sg_dst_ip = src_ip d, sg_src_port = dst_port d, sg_dst_port = src_port d,
     sg_seq = nxt_rcv (rcv_queue d), sg_ack = nxt_snd (snd_queue d), sg_flags = FLG_ACK, sg_wnd = rcv_wmd_adv d,
     sg_len = of_nat (length pl), sg_payload = pl\<rparr>"

definition deliver :: "(net \<Rightarrow> net) \<Rightarrow> nat \<Rightarrow> net \<Rightarrow> u8 list \<Rightarrow> net option" where
  "deliver ev c s pl =
     do { d \<leftarrow> conns s c;
          (dropped, s) \<leftarrow> rcv_data ev (in_order_seg d pl) c False s;
          if dropped then None else Some s }"

definition receive :: "(net \<Rightarrow> net) \<Rightarrow> nat \<Rightarrow> net \<Rightarrow> nat \<Rightarrow> (u8 list \<times> net) option" where
  "receive ev c s n =
     do { ((r, out), s) \<leftarrow> dequeue_packet_tcp ev c (of_nat n) s;
          if r = int n then Some (out, s) else None }"

definition rx_ok :: "nat \<Rightarrow> net \<Rightarrow> bool" where
  "rx_ok c s \<longleftrightarrow> (\<exists>d. ready c d s \<and> rq_ok (rcv_queue d) \<and> status d = ESTABILISHED)"

definition rx_queue_of :: "nat \<Rightarrow> net \<Rightarrow> tcp_rcv_queue" where
  "rx_queue_of c s = rcv_queue (the (conns s c))"

lemma ready_other:
  assumes "ready c d s" and "conns s' c = Some d'" and "dst_ip d' = dst_ip d"
    and "arp_cache s' = arp_cache s" and "ip s' = ip s" and "default_gw_ip s' = default_gw_ip s"
  shows "ready c d' s'"
  using assms by (auto simp: ready_def next_hop_def)

lemma timer_set_pgybg:
  assumes "conns s c = Some d"
  shows "\<exists>t l. timer_set (Pgybg c) v s = Some (s\<lparr>conns := (conns s)(c \<mapsto> d\<lparr>pgybg_timer := t\<rparr>), timer_list := l\<rparr>)"
proof (cases "ref (pgybg_timer d)")
  case True
  then show ?thesis using assms
    by (intro exI [of _ "(pgybg_timer d)\<lparr>val := v\<rparr>"] exI [of _ "timer_list s"]) (simp add: timer_set_def upd_conn_def)
next
  case False
  then show ?thesis using assms
    by (intro exI [of _ "\<lparr>val = v, ref = True\<rparr>"] exI [of _ "timer_list s @ [Pgybg c]"]) (simp add: timer_set_def upd_conn_def)
qed

lemma maybe_timer_set_pgybg:
  assumes "conns s c = Some d"
  shows "\<exists>t l. (if b then timer_set (Pgybg c) v s else Some s) =
    Some (s\<lparr>conns := (conns s)(c \<mapsto> d\<lparr>pgybg_timer := t\<rparr>), timer_list := l\<rparr>)"
proof (cases b)
  case True
  then show ?thesis using timer_set_pgybg [OF assms] by simp
next
  case False
  have "(conns s)(c \<mapsto> d\<lparr>pgybg_timer := pgybg_timer d\<rparr>) = conns s" using assms by (simp add: fun_upd_idem)
  then show ?thesis using False by (intro exI [of _ "pgybg_timer d"] exI [of _ "timer_list s"]) simp
qed

lemma rq_note:
  "rq_ok (q\<lparr>rq_seq_num := a, rq_data_len := b\<rparr>) = rq_ok q"
  "rq_contents (q\<lparr>rq_seq_num := a, rq_data_len := b\<rparr>) = rq_contents q"
  by (simp_all add: rq_ok_def rq_contents_def rq_unread_def)

text \<open>\<open>rcv_data\<close> from the point where the segment has been noted and the timer set.\<close>

lemma rcv_data_store:
  assumes up: "upd_rq c (\<lambda>q. q\<lparr>rq_seq_num := sg_seq g, rq_data_len := ucast (sg_len g)\<rparr>) s = Some s0" "conns s0 c = Some d0"
    and t: "(if val (pgybg_timer d0) = 0 \<and> \<not> no_piggy then timer_set (Pgybg c) (of_nat PIGGYBACKING_TIMEOUT) s0 else Some s0) = Some s1"
    and c1: "conns s1 c = Some d1" and sq: "sg_seq g = nxt_rcv (rcv_queue d1)"
    and len: "sg_len g = of_nat (length (sg_payload g))" "unat (sg_len g) = length (sg_payload g)"
    and put: "rcv_put (rcv_queue d1) (sg_payload g) = Some q1"
  shows "\<exists>s2 d2. rcv_data ev g c no_piggy s = Some (False, s2) \<and> conns s2 c = Some d2 \<and> rcv_queue d2 = q1 \<and>
    dst_ip d2 = dst_ip d1 \<and> status d2 = status d1 \<and> arp_cache s2 = arp_cache s1 \<and> ip s2 = ip s1 \<and> default_gw_ip s2 = default_gw_ip s1"
proof -
  let ?q = "rcv_queue d1" and ?pl = "sg_payload g"
  obtain wm n sq64 where w: "in_window ?q (nxt_rcv ?q) = (wm, n, sq64)" by (cases "in_window ?q (nxt_rcv ?q)")
  obtain q' where cnd: "sq64 \<ge> n \<and> sq64 + uint (sg_len g) \<le> wm" and st: "store_segment ?q ?pl (nxt_rcv ?q) sq64 (sg_len g) = Some q'"
      and up': "snd (update_rcv_window_and_ack q' (ucast (sg_len g)) (nxt_rcv ?q)) = q1"
    using put w len(1) by (auto simp: rcv_put_def Let_def bind_eq_Some_conv split: if_splits)
  obtain new where u: "update_rcv_window_and_ack q' (ucast (sg_len g)) (nxt_rcv ?q) = (new, q1)"
    using up' by (cases "update_rcv_window_and_ack q' (ucast (sg_len g)) (nxt_rcv ?q)") simp
  have pl: "rd_bytes ?pl 0 (unat (sg_len g)) = Some ?pl" using len(2) by (simp add: rd_bytes_def)
  let ?s = "s1\<lparr>conns := (conns s1)(c \<mapsto> d1\<lparr>rcv_queue := q1\<rparr>)\<rparr>"
  have "upd_rq c (\<lambda>_. q1) s1 = Some ?s" using c1 by (simp add: upd_rq_def upd_conn_def)
  then have e: "rcv_data ev g c no_piggy s =
      (if process_context d1 \<noteq> 0 \<and> new
       then do { s \<leftarrow> awake (process_context d1) ?s;
                 s \<leftarrow> upd_conn c (process_context_update (\<lambda>_. 0)) s;
                 Some (False, if nxt_rcv q1 - rq_wnd_min q1 = 0 then net_panic s else s) }
       else Some (False, ?s))"
    using up t c1 sq w cnd st u pl by (simp add: rcv_data_def)
  show ?thesis unfolding e by (simp add: awake_def upd_conn_def net_panic_def)
qed

lemma upd_rq_eq: "conns s c = Some d \<Longrightarrow> upd_rq c f s = Some (s\<lparr>conns := (conns s)(c \<mapsto> d\<lparr>rcv_queue := f (rcv_queue d)\<rparr>)\<rparr>)"
  by (cases d) (simp add: upd_rq_def upd_conn_def)

lemma deliver_spec:
  assumes ok: "rx_ok c s" and ne: "pl \<noteq> []" and len: "length pl \<le> unat (rq_wnd_size (rx_queue_of c s))"
  shows "\<exists>s'. deliver ev c s pl = Some s' \<and> rx_ok c s' \<and>
    rq_contents (rx_queue_of c s') = rq_contents (rx_queue_of c s) @ pl \<and>
    unat (rq_wnd_size (rx_queue_of c s')) + length pl = unat (rq_wnd_size (rx_queue_of c s))"
proof -
  obtain d where r: "ready c d s" and q: "rq_ok (rcv_queue d)" and st: "status d = ESTABILISHED"
    using ok by (auto simp: rx_ok_def)
  have c: "conns s c = Some d" using r by (simp add: ready_def)
  define q0 where "q0 = (rcv_queue d)\<lparr>rq_seq_num := nxt_rcv (rcv_queue d), rq_data_len := ucast (of_nat (length pl) :: u16)\<rparr>"
  let ?d0 = "d\<lparr>rcv_queue := q0\<rparr>" and ?s0 = "s\<lparr>conns := (conns s)(c \<mapsto> d\<lparr>rcv_queue := q0\<rparr>)\<rparr>"
  have q0: "rq_ok q0" "rq_contents q0 = rq_contents (rcv_queue d)" "rq_wnd_size q0 = rq_wnd_size (rcv_queue d)" "nxt_rcv q0 = nxt_rcv (rcv_queue d)"
    using q by (simp_all add: q0_def rq_note)
  have wl: "length pl \<le> unat (rq_wnd_size q0)" using len c q0(3) by (simp add: rx_queue_of_def)
  then obtain q1 where q1: "rcv_put q0 pl = Some q1" "rq_ok q1" "rq_contents q1 = rq_contents q0 @ pl"
      "unat (rq_wnd_size q1) + length pl = unat (rq_wnd_size q0)"
    using rcv_put_spec [OF q0(1) ne] by blast
  have "length pl \<le> TCP_RCV_SIZE" using wl q0(1) by (simp add: rq_ok_def)
  then have ul: "unat (of_nat (length pl) :: u16) = length pl" by (intro unat_of_nat16) (simp add: TCP_RCV_SIZE_def)
  obtain t l where t: "(if val (pgybg_timer ?d0) = 0 \<and> \<not> False then timer_set (Pgybg c) (of_nat PIGGYBACKING_TIMEOUT) ?s0 else Some ?s0) =
      Some (?s0\<lparr>conns := (conns ?s0)(c \<mapsto> ?d0\<lparr>pgybg_timer := t\<rparr>), timer_list := l\<rparr>)"
    using maybe_timer_set_pgybg [of ?s0 c ?d0] by fastforce
  let ?g = "in_order_seg d pl"
  have up: "upd_rq c (\<lambda>q. q\<lparr>rq_seq_num := sg_seq ?g, rq_data_len := ucast (sg_len ?g)\<rparr>) s = Some ?s0" "conns ?s0 c = Some ?d0"
    using upd_rq_eq [OF c] by (simp_all add: in_order_seg_def q0_def)
  obtain s2 d2 where s2: "rcv_data ev ?g c False s = Some (False, s2)"
      "conns s2 c = Some d2" "rcv_queue d2 = q1" "dst_ip d2 = dst_ip d" "status d2 = status d"
      "arp_cache s2 = arp_cache s" "ip s2 = ip s" "default_gw_ip s2 = default_gw_ip s"
    using rcv_data_store [OF up t, of "?d0\<lparr>pgybg_timer := t\<rparr>" q1 ev] ul q1(1) q0(4) by (auto simp: in_order_seg_def)
  have "ready c d2 s2" using s2 by (intro ready_other [OF r])
  then have "rx_ok c s2" using s2 st q1(2) by (auto simp: rx_ok_def)
  then show ?thesis using s2 q1 q0 c by (intro exI [of _ s2]) (simp add: deliver_def rx_queue_of_def)
qed

lemma SEND_keeps:
  assumes "ready c d s" and "unat len = length pl" and "length pl \<le> 1474"
  shows "\<exists>b. SEND_PACKET_TCP ev c pl len ack flags seq s = Some (put_tx b s)"
proof -
  obtain dm where dm: "conns s c = Some d" "hashtable_get (arp_cache s) (unat (next_hop s (dst_ip d))) = Some dm"
    using assms(1) by (auto simp: ready_def)
  have "rd_bytes pl 0 (unat len) = Some pl" using assms(2) by (simp add: rd_bytes_def)
  moreover have "length pl + tcp_hlen flags + 20 \<le> 1518" using assms(3) by (simp add: tcp_hlen_def)
  ultimately show ?thesis
    using send_tcp_spec [of pl len pl flags s "dst_ip d" dm] dm by (auto simp: SEND_PACKET_TCP_def)
qed

lemma put_tx_fields [simp]:
  "conns (put_tx b s) = conns s" "arp_cache (put_tx b s) = arp_cache s" "ip (put_tx b s) = ip s"
  "default_gw_ip (put_tx b s) = default_gw_ip s"
  by (simp_all add: put_tx_def)

lemma delayed_ack_keeps:
  assumes r: "ready c d s"
  shows "\<exists>s' d'. delayed_ack ev c s = Some s' \<and> ready c d' s' \<and> status d' = status d \<and>
    rcv_queue d' = (rcv_queue d)\<lparr>last_adv_wnd := last_adv_wnd (rcv_queue d')\<rparr>"
proof -
  let ?q = "rcv_queue d"
  have c: "conns s c = Some d" using r by (simp add: ready_def)
  show ?thesis
  proof (cases "(rq_wnd_size ?q \<ge> last_adv_wnd ?q + of_nat SMSS \<or> rq_wnd_size ?q \<ge> of_nat (TCP_RCV_SIZE - SMSS)) \<and> pending_ack d \<ge> 2")
    case True
    let ?d = "d\<lparr>pending_ack := 0, rcv_queue := ?q\<lparr>last_adv_wnd := rq_wnd_size ?q\<rparr>\<rparr>"
    let ?s = "s\<lparr>conns := (conns s)(c \<mapsto> ?d)\<rparr>"
    obtain t l where t: "timer_reset (Pgybg c) ?s = Some (?s\<lparr>conns := (conns ?s)(c \<mapsto> ?d\<lparr>pgybg_timer := t\<rparr>), timer_list := l\<rparr>)"
      using timer_reset_pgybg [of ?s c ?d] by auto
    let ?s1 = "?s\<lparr>conns := (conns ?s)(c \<mapsto> ?d\<lparr>pgybg_timer := t\<rparr>), timer_list := l\<rparr>"
    let ?d1 = "?d\<lparr>pgybg_timer := t\<rparr>"
    have r1: "ready c ?d1 ?s1" by (rule ready_other [OF r]) simp_all
    obtain b where b: "SEND_PACKET_TCP ev c [] 0 (nxt_rcv ?q) FLG_ACK (nxt_snd (snd_queue d)) ?s1 = Some (put_tx b ?s1)"
      using SEND_keeps [OF r1, of 0 "[]"] by fastforce
    have u: "upd_conn c (\<lambda>d. d\<lparr>pending_ack := 0, rcv_queue := (rcv_queue d)\<lparr>last_adv_wnd := rq_wnd_size (rcv_queue d)\<rparr>\<rparr>) s = Some ?s"
      using c by (simp add: upd_conn_def)
    have "delayed_ack ev c s = Some (put_tx b ?s1)"
      unfolding delayed_ack_def c Let_def bind.bind_lunit if_P [OF True] u t update_adv_wnd_def using b by simp
    moreover have "ready c ?d1 (put_tx b ?s1)" by (rule ready_other [OF r1]) simp_all
    ultimately show ?thesis by (intro exI [of _ "put_tx b ?s1"] exI [of _ ?d1]) simp
  next
    case False
    then have "delayed_ack ev c s = Some s" unfolding delayed_ack_def c Let_def bind.bind_lunit by (simp only: if_False)
    then show ?thesis using r by (intro exI [of _ s] exI [of _ d]) simp
  qed
qed

lemma sint_of_nat_small: "n \<le> TCP_RCV_SIZE \<Longrightarrow> sint (of_nat n :: u32) = int n"
  by (simp add: signed_of_nat TCP_RCV_SIZE_def signed_take_bit_int_eq_self)

lemma receive_spec:
  assumes ok: "rx_ok c s" and n: "0 < n" "n \<le> length (rq_contents (rx_queue_of c s))"
  shows "\<exists>s'. receive ev c s n = Some (take n (rq_contents (rx_queue_of c s)), s') \<and> rx_ok c s' \<and>
    rq_contents (rx_queue_of c s') = drop n (rq_contents (rx_queue_of c s)) \<and>
    unat (rq_wnd_size (rx_queue_of c s')) = unat (rq_wnd_size (rx_queue_of c s)) + n"
proof -
  obtain d where r: "ready c d s" and q: "rq_ok (rcv_queue d)" and st: "status d = ESTABILISHED"
    using ok by (auto simp: rx_ok_def)
  let ?q = "rcv_queue d" and ?s = "s\<lparr>flush_network := False\<rparr>"
  have c: "conns s c = Some d" using r by (simp add: ready_def)
  have nu: "n \<le> rq_unread ?q" using n(2) c by (simp add: rx_queue_of_def length_rq_contents)
  then have ns: "n \<le> TCP_RCV_SIZE" using q by (simp add: rq_ok_def)
  have un: "unat (of_nat n :: u32) = n" using ns by (intro unat_of_nat32) (simp add: TCP_RCV_SIZE_def)
  obtain q' where g: "rcv_get ?q n = Some (take n (rq_contents ?q), q')" "rq_ok q'" "rq_contents q' = drop n (rq_contents ?q)"
      "unat (rq_wnd_size q') = unat (rq_wnd_size ?q) + n"
    using rcv_get_spec [OF q n(1) nu] by blast
  then have cp: "rcv_copy ?q (of_nat n) = Some (take n (rq_contents ?q))"
    and q': "q' = ?q\<lparr>rq_wnd_size := rq_wnd_size ?q + of_nat n, rq_wnd_min := rq_wnd_min ?q + of_nat n\<rparr>"
    by (auto simp: rcv_get_def bind_eq_Some_conv)
  have av: "nxt_rcv ?q - rq_wnd_min ?q \<noteq> 0" "\<not> nxt_rcv ?q - rq_wnd_min ?q < of_nat n"
    using nu n(1) un by (auto simp: rq_unread_def word_less_nat_alt)
  let ?s1 = "?s\<lparr>conns := (conns ?s)(c \<mapsto> d\<lparr>rcv_queue := q'\<rparr>)\<rparr>"
  have up: "upd_rq c (\<lambda>q. q\<lparr>rq_wnd_size := rq_wnd_size q + of_nat n, rq_wnd_min := rq_wnd_min q + of_nat n\<rparr>) ?s = Some ?s1"
    using upd_rq_eq [of ?s c d] c by (simp add: q')
  have "ready c (d\<lparr>rcv_queue := q'\<rparr>) ?s1" by (rule ready_other [OF r]) simp_all
  then obtain s2 d2 where s2: "delayed_ack ev c ?s1 = Some s2" "ready c d2 s2" "status d2 = status d"
      "rcv_queue d2 = q'\<lparr>last_adv_wnd := last_adv_wnd (rcv_queue d2)\<rparr>"
    using delayed_ack_keeps [of c "d\<lparr>rcv_queue := q'\<rparr>" ?s1 ev] by auto
  let ?s3 = "s2\<lparr>flush_network := True\<rparr>"
  have "dequeue_packet_tcp ev c (of_nat n) s = Some ((sint (of_nat n :: u32), take n (rq_contents ?q)), ?s3)"
    using c st av cp up s2(1) by (simp add: dequeue_packet_tcp_def)
  then have rc: "receive ev c s n = Some (take n (rq_contents ?q), ?s3)"
    using sint_of_nat_small [OF ns] by (simp add: receive_def)
  have c2: "conns ?s3 c = Some d2" using s2(2) by (simp add: ready_def)
  have "ready c d2 ?s3" by (rule ready_other [OF s2(2) c2]) simp_all
  moreover have q2: "rq_ok (rcv_queue d2)" "rq_contents (rcv_queue d2) = rq_contents q'" "rq_wnd_size (rcv_queue d2) = rq_wnd_size q'"
    using g(2) by (subst s2(4), simp add: rq_ok_def rq_contents_def rq_unread_def)+
  ultimately have "rx_ok c ?s3" using s2(3) st by (auto simp: rx_ok_def)
  then show ?thesis using rc c c2 q2 g by (intro exI [of _ ?s3]) (simp add: rx_queue_of_def)
qed

interpretation rx: byte_stream "\<lambda>s. rq_contents (rx_queue_of c s)" "\<lambda>s. unat (rq_wnd_size (rx_queue_of c s))" "rx_ok c"
    "deliver ev c" "receive ev c" for c ev
  by unfold_locales (use deliver_spec receive_spec in blast)+

section \<open>Properties\<close>

text \<open>C3: The receive stream of a connection. For every sequence of segments that arrive in order
  and fit the advertised window and reads of at most the bytes received so far, \<open>rcv_data\<close> and
  \<open>dequeue_packet_tcp\<close> return, and the bytes read, followed by those still in the ring, are the
  bytes that were in the ring followed by the payloads received: nothing is lost, duplicated or
  reordered, wherever the ring and the sequence numbers wrap around.\<close>

theorem tcp_receive_stream:
  assumes "rx_ok c s"
    and "byte_stream.fits ops (length (rq_contents (rx_queue_of c s))) (unat (rq_wnd_size (rx_queue_of c s)))"
  shows "\<exists>out s'. byte_stream.run (deliver ev c) (receive ev c) ops s = Some (out, s') \<and> rx_ok c s' \<and>
    out @ rq_contents (rx_queue_of c s') = rq_contents (rx_queue_of c s) @ byte_stream.inputs ops"
  using assms by (rule rx.stream_preserved)

definition open_net :: net where
  "open_net = linked_net\<lparr>conns := (conns linked_net)(1 \<mapsto>
     (the (conns linked_net 1))\<lparr>status := ESTABILISHED, src_ip := LOCAL_IP, src_port := 80, dst_port := 4000\<rparr>)\<rparr>"

lemma open_net_rx: "rx_ok 1 open_net" "rx_queue_of 1 open_net = tcp_rcv_queue_init (\<lambda>_. 0)"
proof -
  obtain d where d: "ready 1 d linked_net" "rcv_queue d = tcp_rcv_queue_init (\<lambda>_. 0)" using linked_net_ready by blast
  then have c: "conns linked_net 1 = Some d" by (simp add: ready_def)
  show "rx_queue_of 1 open_net = tcp_rcv_queue_init (\<lambda>_. 0)" using c d(2) by (simp del: One_nat_def add: rx_queue_of_def open_net_def)
  have "ready 1 (d\<lparr>status := ESTABILISHED, src_ip := LOCAL_IP, src_port := 80, dst_port := 4000\<rparr>) open_net"
    by (rule ready_other [OF d(1)]) (simp_all del: One_nat_def add: open_net_def c)
  then show "rx_ok 1 open_net"
    using d(2) by (auto simp: rx_ok_def rq_ok_def rq_unread_def tcp_rcv_queue_init_def)
qed

theorem tcp_receive_stream_witness:
  "\<exists>out s'. byte_stream.run (deliver id 1) (receive id 1) [Put [1, 2, 3], Get 2, Put [4], Get 2] open_net = Some (out, s') \<and>
    rx_ok 1 s' \<and> out @ rq_contents (rx_queue_of 1 s') = [1, 2, 3, 4]"
  using tcp_receive_stream [OF open_net_rx(1), of "[Put [1, 2, 3], Get 2, Put [4], Get 2]" id]
  by (simp del: One_nat_def add: open_net_rx(2) length_rq_contents rq_contents_def rq_unread_def tcp_rcv_queue_init_def
      TCP_RCV_SIZE_def ring_read_def rx.fits.simps rx.inputs.simps)

text \<open>C37: Writing across the end of the send ring. The copy of \<open>enqueue_packet_tcp\<close> leaves the data
  in the ring when it ends before the end of the ring; otherwise the ring holds the part up to its end,
  followed by the beginning of the data again instead of the rest, since the second copy starts at the
  first byte.\<close>

theorem snd_copy_wraps_wrong:
  assumes "sq_buf_size q = of_nat TCP_SND_SIZE" and "length pl \<le> TCP_SND_SIZE"
  shows "\<exists>q'. snd_copy q pl = Some q' \<and> cur q' = cur q + of_nat (length pl) \<and>
    (let k = TCP_SND_SIZE - unat (cur q) mod TCP_SND_SIZE in
     ring_read (sq_buf q') TCP_SND_SIZE (unat (cur q)) (length pl) =
       (if length pl < k then pl else take k pl @ take (length pl - k) pl))"
proof -
  let ?sz = TCP_SND_SIZE and ?p = "unat (cur q)"
  have sz: "unat (sq_buf_size q) = ?sz" "SLOT_WND (cur q) (sq_buf_size q) = ?p mod ?sz" "0 < ?sz"
    using assms(1) snd_slot by (simp_all add: TCP_SND_SIZE_def)
  have lt: "?p mod ?sz < ?sz" using sz(3) by simp
  define k where "k = ?sz - ?p mod ?sz"
  show ?thesis
  proof (cases "length pl < k")
    case True
    then have f: "snd_copy q pl = Some (q\<lparr>sq_buf := buf_write (sq_buf q) (?p mod ?sz) pl, cur := cur q + of_nat (length pl)\<rparr>)"
      unfolding snd_copy_def Let_def sz k_def [symmetric] by simp
    have "?p mod ?sz + length pl \<le> ?sz" using True lt unfolding k_def by linarith
    then have "ring_write (sq_buf q) ?sz (?p mod ?sz) pl = buf_write (sq_buf q) (?p mod ?sz) pl"
      by (simp add: ring_write_def)
    then have "ring_read (buf_write (sq_buf q) (?p mod ?sz) pl) ?sz ?p (length pl) = pl"
      using ring_write_read [OF sz(3) assms(2), of "?p mod ?sz" ?p "sq_buf q"] by simp
    then show ?thesis using f True by (simp add: k_def [symmetric])
  next
    case False
    define xs where "xs = take k pl @ take (length pl - k) pl"
    let ?f = "buf_write (buf_write (sq_buf q) (?p mod ?sz) (take k pl)) 0 (take (length pl - k) pl)"
    have lx: "length xs = length pl" "take k xs = take k pl" "drop k xs = take (length pl - k) pl" using False by (simp_all add: xs_def)
    have f: "snd_copy q pl = Some (q\<lparr>sq_buf := ?f, cur := cur q + of_nat (length pl)\<rparr>)"
      using False assms(2) unfolding snd_copy_def Let_def sz k_def [symmetric] by simp
    have "ring_write (sq_buf q) ?sz (?p mod ?sz) xs = ?f"
    proof (cases "length pl = k")
      case True
      then show ?thesis using lt by (auto simp: ring_write_def xs_def k_def buf_write_def)
    next
      case ne: False
      then have "\<not> ?p mod ?sz + length xs \<le> ?sz" using False lt unfolding k_def lx(1) by linarith
      then show ?thesis using lx(2,3) by (simp add: ring_write_def k_def [symmetric])
    qed
    then have "ring_read ?f ?sz ?p (length pl) = xs"
      using ring_write_read [OF sz(3), of xs "?p mod ?sz" ?p "sq_buf q"] assms(2) lx(1) by simp
    then show ?thesis using f False by (simp add: k_def [symmetric] xs_def)
  qed
qed

theorem snd_copy_wraps_wrong_witness:
  "\<exists>q'. snd_copy ((tcp_snd_queue_init (\<lambda>_. 0))\<lparr>cur := 4194302\<rparr>) [1, 2, 3, 4] = Some q' \<and>
    ring_read (sq_buf q') TCP_SND_SIZE (unat (4194302 :: u32)) (length [1, 2, 3, 4 :: u8]) = [1, 2, 1, 2]"
  using snd_copy_wraps_wrong [of "(tcp_snd_queue_init (\<lambda>_. 0))\<lparr>cur := 4194302\<rparr>" "[1, 2, 3, 4]"]
  by (auto simp: tcp_snd_queue_init_def TCP_SND_SIZE_def)

end
