(* ===== verification/Tcp_Inv.thy ===== *)
theory Tcp_Inv
  imports Tcp_Stream
begin

text \<open>
  Invariants of the connections that every TCP operation keeps. The interface \<open>conn_inv\<close> lists
  what a predicate on connections has to satisfy, one law per way the code changes the fields it
  may depend on; the operations are shown to keep such a predicate once, and the predicates are
  its interpretations: the bounds of the windows and of the timeout, and the state machine of the
  closing handshake. What happens while a process sleeps is assumed to keep the predicate too.
\<close>

section \<open>The state machine of the closing handshake\<close>

inductive tcp_edge :: "tcp_status \<Rightarrow> tcp_status \<Rightarrow> bool" where
  close: "tcp_edge ESTABILISHED FIN_WAIT_1"
| close_later: "tcp_edge ESTABILISHED FIN_WAIT_1_PENDING"
| flushed: "tcp_edge FIN_WAIT_1_PENDING FIN_WAIT_1"
| fin_acked: "tcp_edge FIN_WAIT_1 FIN_WAIT_2"
| fin_acked_fin: "tcp_edge FIN_WAIT_1 CLOSED"
| fin: "tcp_edge FIN_WAIT_2 CLOSED"
| peer_fin: "tcp_edge ESTABILISHED CLOSE_WAIT"
| peer_close: "tcp_edge CLOSE_WAIT LAST_ACK"
| peer_close_later: "tcp_edge CLOSE_WAIT LAST_ACK_PENDING"
| peer_flushed: "tcp_edge LAST_ACK_PENDING LAST_ACK"
| reset: "tcp_edge st RESET"

code_pred tcp_edge .

inductive_simps tcp_edge_simps:
  "tcp_edge ESTABILISHED st" "tcp_edge FIN_WAIT_1 st" "tcp_edge FIN_WAIT_2 st" "tcp_edge CLOSE_WAIT st"
  "tcp_edge FIN_WAIT_1_PENDING st" "tcp_edge LAST_ACK_PENDING st" "tcp_edge LAST_ACK st" "tcp_edge CLOSED st" "tcp_edge RESET st"

section \<open>The interface\<close>

definition all_conns :: "(nat \<Rightarrow> tcp_conn_desc \<Rightarrow> bool) \<Rightarrow> net \<Rightarrow> bool" where
  "all_conns P s \<longleftrightarrow> (\<forall>c d. conns s c = Some d \<longrightarrow> P c d)"

lemma all_conns_simps [simp]:
  "all_conns P (s\<lparr>ipv4_id := v1\<rparr>) = all_conns P s" "all_conns P (s\<lparr>tx_queue := v2\<rparr>) = all_conns P s"
  "all_conns P (s\<lparr>tcp_desc_of := v3\<rparr>) = all_conns P s" "all_conns P (s\<lparr>flush_network := v4\<rparr>) = all_conns P s"
  "all_conns P (s\<lparr>timer_list := v5\<rparr>) = all_conns P s" "all_conns P (net_panic s) = all_conns P s"
  "all_conns P (free_sckt s) = all_conns P s" "all_conns P (s\<lparr>allocs := v6, sckts := v7\<rparr>) = all_conns P s"
  "all_conns P (s\<lparr>sockets := v8\<rparr>) = all_conns P s" "all_conns P (s\<lparr>awakened := v9\<rparr>) = all_conns P s"
  by (simp_all add: all_conns_def net_panic_def free_sckt_def)

definition same_key :: "tcp_conn_desc \<Rightarrow> tcp_conn_desc \<Rightarrow> bool" where
  "same_key d d' \<longleftrightarrow> status d' = status d \<and> rto d' = rto d \<and> cwnd d' = cwnd d \<and>
     sq_wnd_size (snd_queue d') = sq_wnd_size (snd_queue d) \<and> sq_buf_size (snd_queue d') = sq_buf_size (snd_queue d) \<and>
     rq_buf_size (rcv_queue d') = rq_buf_size (rcv_queue d)"

definition after_timeout :: "tcp_conn_desc \<Rightarrow> tcp_conn_desc" where
  "after_timeout d = d\<lparr>rto := min (rto d * 2) (of_nat DEFAULT_RTO), cwnd := of_nat SMSS,
     snd_queue := (snd_queue d)\<lparr>nxt_snd := sq_wnd_min (snd_queue d), sq_wnd_size := min (of_nat SMSS) (rcv_wmd_adv d)\<rparr>,
     duplicated_ack := 0\<rparr>"

locale conn_inv =
  fixes P :: "nat \<Rightarrow> tcp_conn_desc \<Rightarrow> bool" and ev :: "net \<Rightarrow> net"
  assumes P_cong: "P c d \<Longrightarrow> same_key d d' \<Longrightarrow> P c d'"
    and P_ack_new: "P c d \<Longrightarrow> ack_new est now b d = Some d' \<Longrightarrow> P c (ack_wnd d')"
    and P_ack_dup: "P c d \<Longrightarrow> P c (ack_wnd (ack_dup d))"
    and P_timeout: "P c d \<Longrightarrow> P c (after_timeout d)"
    and P_edge: "P c d \<Longrightarrow> tcp_edge (status d) st \<Longrightarrow> P c (d\<lparr>status := st\<rparr>)"
    and ev_inv: "all_conns P s \<Longrightarrow> all_conns P (ev s)"
begin

abbreviation inv :: "net \<Rightarrow> bool" where
  "inv \<equiv> all_conns P"

lemma inv_conn: "inv s \<Longrightarrow> conns s c = Some d \<Longrightarrow> P c d"
  by (simp add: all_conns_def)

lemma inv_same: "inv s \<Longrightarrow> conns s' = conns s \<Longrightarrow> inv s'"
  by (simp add: all_conns_def)

lemma inv_upd: "inv s \<Longrightarrow> P c d \<Longrightarrow> inv (s\<lparr>conns := (conns s)(c \<mapsto> d)\<rparr>)"
  by (simp add: all_conns_def)

lemma inv_del: "inv s \<Longrightarrow> inv (s\<lparr>conns := (conns s)(c := None)\<rparr>)"
  by (simp add: all_conns_def)

lemma upd_conn_inv:
  assumes "upd_conn c f s = Some s'" and "inv s" and "\<And>d. conns s c = Some d \<Longrightarrow> P c d \<Longrightarrow> P c (f d)"
  shows "inv s'"
  using assms by (auto simp: upd_conn_def bind_eq_Some_conv all_conns_def split: if_splits)

lemma upd_key_inv: "upd_conn c f s = Some s' \<Longrightarrow> inv s \<Longrightarrow> (\<And>d. same_key d (f d)) \<Longrightarrow> inv s'"
  by (erule upd_conn_inv) (auto intro: P_cong)

text \<open>
  A computation keeps the invariant when the state in its result, if it has one, satisfies it. The
  rules follow the structure of the code.
\<close>

definition keeps :: "('a \<Rightarrow> net) \<Rightarrow> 'a option \<Rightarrow> bool" where
  "keeps st m \<longleftrightarrow> (\<forall>x. m = Some x \<longrightarrow> inv (st x))"

lemma keepsD: "keeps st m \<Longrightarrow> m = Some x \<Longrightarrow> inv (st x)"
  by (simp add: keeps_def)

lemma keeps2: "m = Some (b, s) \<Longrightarrow> keeps snd m \<Longrightarrow> inv s"
  by (simp add: keeps_def)

lemma keeps3: "m = Some (a, b, s) \<Longrightarrow> keeps (snd \<circ> snd) m \<Longrightarrow> inv s"
  by (simp add: keeps_def)

lemma keeps_bind: "(\<And>x. m = Some x \<Longrightarrow> keeps st (f x)) \<Longrightarrow> keeps st (m \<bind> f)"
  by (auto simp: keeps_def bind_eq_Some_conv)

lemma keeps_bind_state:
  "keeps id m \<Longrightarrow> (\<And>s. m = Some s \<Longrightarrow> inv s \<Longrightarrow> keeps st (f s)) \<Longrightarrow> keeps st (m \<bind> f)"
  "keeps snd k \<Longrightarrow> (\<And>a s. k = Some (a, s) \<Longrightarrow> inv s \<Longrightarrow> keeps st (g (a, s))) \<Longrightarrow> keeps st (k \<bind> g)"
  by (auto simp: keeps_def bind_eq_Some_conv)

lemma keeps_if: "(b \<Longrightarrow> keeps st x) \<Longrightarrow> (\<not> b \<Longrightarrow> keeps st y) \<Longrightarrow> keeps st (if b then x else y)"
  by simp

lemma keeps_let: "(\<And>x. e = x \<Longrightarrow> keeps st (f x)) \<Longrightarrow> keeps st (Let e f)"
  by simp

lemma keeps_prod: "(\<And>a b. p = (a, b) \<Longrightarrow> keeps st (f a b)) \<Longrightarrow> keeps st (case p of (a, b) \<Rightarrow> f a b)"
  by (cases p) simp

lemma keeps_option: "(p = None \<Longrightarrow> keeps st x) \<Longrightarrow> (\<And>a. p = Some a \<Longrightarrow> keeps st (f a)) \<Longrightarrow> keeps st (case p of None \<Rightarrow> x | Some a \<Rightarrow> f a)"
  by (cases p) simp_all

lemma keeps_list: "(p = [] \<Longrightarrow> keeps st x) \<Longrightarrow> (\<And>a as. p = a # as \<Longrightarrow> keeps st (f a as)) \<Longrightarrow> keeps st (case p of [] \<Rightarrow> x | a # as \<Rightarrow> f a as)"
  by (cases p) simp_all

lemma keeps_Some: "inv (st x) \<Longrightarrow> keeps st (Some x)"
  by (simp add: keeps_def)

lemma keeps_None: "keeps st None"
  by (simp add: keeps_def)

lemma keeps_call: "(\<And>x. m = Some x \<Longrightarrow> inv (st x)) \<Longrightarrow> keeps st m"
  by (simp add: keeps_def)

lemmas keeps_rules = keeps_bind keeps_if keeps_let keeps_prod keeps_option keeps_list keeps_Some keeps_None

section \<open>Timers and sending\<close>

lemma put_timer_inv: "put_timer i t s = Some s' \<Longrightarrow> inv s \<Longrightarrow> inv s'"
  by (cases i) (auto elim!: upd_key_inv simp: same_key_def)

lemma put_timer_list_inv: "put_timer i t (s\<lparr>timer_list := l\<rparr>) = Some s' \<Longrightarrow> inv s \<Longrightarrow> inv s'"
  by (erule put_timer_inv) (simp add: all_conns_def)

lemma timer_inv:
  "timer_unlink i s = Some s' \<Longrightarrow> inv s \<Longrightarrow> inv s'" "timer_free i s = Some s' \<Longrightarrow> inv s \<Longrightarrow> inv s'"
  "timer_set i v s = Some s' \<Longrightarrow> inv s \<Longrightarrow> inv s'" "timer_reset i s = Some s' \<Longrightarrow> inv s \<Longrightarrow> inv s'"
  "set_timer_val i v s = Some s' \<Longrightarrow> inv s \<Longrightarrow> inv s'"
  by (auto simp: timer_unlink_def timer_free_def timer_set_def timer_reset_def set_timer_val_def bind_eq_Some_conv
      split: if_splits dest: put_timer_inv put_timer_list_inv)

lemma awake_inv: "awake p s = Some s' \<Longrightarrow> inv s \<Longrightarrow> inv s'"
  by (auto simp: awake_def all_conns_def split: if_splits)

lemma arp_attempts_inv: "arp_attempts ev n sm sip dip s = (m, s') \<Longrightarrow> inv s \<Longrightarrow> inv s'"
proof (induction n arbitrary: s)
  case (Suc n)
  let ?s = "ev (send_packet_arp sm \<lparr>mac_lo = 0xFFFF, mac_mi = 0xFFFF, mac_hi = 0xFFFF\<rparr> sip dip 1 s\<lparr>flush_network := True\<rparr>)"
  have "inv ?s" using Suc.prems(2) by (intro ev_inv) (simp add: all_conns_def send_packet_arp_def send_packet_i8254x_def)
  then show ?case using Suc by (auto simp: Let_def split: option.splits)
qed simp

lemma lookup_mac_inv: "lookup_mac ev dip s = (m, s') \<Longrightarrow> inv s \<Longrightarrow> inv s'"
  by (auto simp: lookup_mac_def split: option.splits dest: arp_attempts_inv)

lemma put_packet_mac_inv: "put_packet_mac b sm dm s = Some s' \<Longrightarrow> inv s \<Longrightarrow> inv s'"
  by (auto simp: put_packet_mac_def bind_eq_Some_conv all_conns_def)

lemma send_packet_ip4_inv: "send_packet_ip4 ev b sip dip len pr s = Some r \<Longrightarrow> inv s \<Longrightarrow> inv (snd r)"
  unfolding send_packet_ip4_def
  by (erule keepsD [rotated], intro keeps_rules) (auto dest: lookup_mac_inv put_packet_mac_inv)

lemma alloc_sckt_inv: "alloc_sckt len s = (b, s') \<Longrightarrow> inv s \<Longrightarrow> inv s'"
  by (auto simp: alloc_sckt_def)

lemmas keeps1 = keepsD [where st = id, unfolded id_apply, rotated]

lemma send_packet_tcp_inv: "send_packet_tcp ev sip dip sport dport wnd pl len ack flags seq s = Some s' \<Longrightarrow> inv s \<Longrightarrow> inv s'"
  unfolding send_packet_tcp_def
  by (erule keeps1, intro keeps_rules) (auto dest: alloc_sckt_inv send_packet_ip4_inv)

lemma SEND_inv: "SEND_PACKET_TCP ev c pl len ack flags seq s = Some s' \<Longrightarrow> inv s \<Longrightarrow> inv s'"
  by (auto simp: SEND_PACKET_TCP_def bind_eq_Some_conv dest: send_packet_tcp_inv)

lemma update_adv_wnd_inv: "update_adv_wnd ev c s = Some s' \<Longrightarrow> inv s \<Longrightarrow> inv s'"
  by (auto simp: update_adv_wnd_def bind_eq_Some_conv dest: SEND_inv)

lemma flush_segment_inv: "flush_segment ev c len ack seq s = Some s' \<Longrightarrow> inv s \<Longrightarrow> inv s'"
  by (auto simp: flush_segment_def Let_def bind_eq_Some_conv split: if_split_asm dest: SEND_inv)

lemma flush_loop_inv: "flush_loop ev c n ack seq s = Some s' \<Longrightarrow> inv s \<Longrightarrow> inv s'"
proof (induction n arbitrary: seq s rule: less_induct)
  case (less n)
  have sm: "SMSS \<le> n \<Longrightarrow> n - SMSS < n" by (simp add: SMSS_def)
  show ?case using less.prems less.IH [OF sm]
    by (subst (asm) flush_loop.simps) (auto simp: bind_eq_Some_conv split: if_split_asm dest: flush_segment_inv)
qed

lemma flush_data_inv: "flush_data ev c n ack seq s = Some s' \<Longrightarrow> inv s \<Longrightarrow> inv s'"
  by (auto simp: flush_data_def Let_def bind_eq_Some_conv split: if_split_asm elim!: timer_inv flush_loop_inv)

section \<open>The send window, acknowledgements and timers\<close>

definition keyed :: "tcp_conn_desc \<Rightarrow> tcp_conn_desc \<times> 'b \<Rightarrow> bool" where
  "keyed d r \<longleftrightarrow> same_key d (fst r)"

lemma keyed_rules:
  "same_key d d' \<Longrightarrow> keyed d (d', x)"
  "(b \<Longrightarrow> keyed d r) \<Longrightarrow> (\<not> b \<Longrightarrow> keyed d r') \<Longrightarrow> keyed d (if b then r else r')"
  "(\<And>x. e = x \<Longrightarrow> keyed d (f x)) \<Longrightarrow> keyed d (Let e f)"
  "(\<And>a b. p = (a, b) \<Longrightarrow> keyed d (g a b)) \<Longrightarrow> keyed d (case p of (a, b) \<Rightarrow> g a b)"
  by (auto simp: keyed_def split: prod.splits)

lemma snd_ack_key: "snd_ack d a w = (d', p) \<Longrightarrow> same_key d d'"
  by (auto simp: snd_ack_def Let_def same_key_def split: if_split_asm)

lemma snd_window_key: "snd_window d a sk = (d', r) \<Longrightarrow> same_key d d'"
proof -
  assume "snd_window d a sk = (d', r)"
  moreover have "keyed d (snd_window d a sk)"
    unfolding snd_window_def
    by (intro keyed_rules) (auto simp: same_key_def split: if_split_asm dest!: snd_ack_key)
  ultimately show ?thesis by (simp add: keyed_def)
qed

lemma upd_queue_inv:
  "upd_sq c f s = Some s' \<Longrightarrow> inv s \<Longrightarrow> (\<And>q. sq_wnd_size (f q) = sq_wnd_size q \<and> sq_buf_size (f q) = sq_buf_size q) \<Longrightarrow> inv s'"
  "upd_rq c g s = Some s' \<Longrightarrow> inv s \<Longrightarrow> (\<And>q. rq_buf_size (g q) = rq_buf_size q) \<Longrightarrow> inv s'"
  unfolding upd_sq_def upd_rq_def by (erule upd_key_inv; simp add: same_key_def)+

lemma fin_after_flush_inv: "fin_after_flush ev c ack s = Some s' \<Longrightarrow> inv s \<Longrightarrow> inv s'"
proof (unfold fin_after_flush_def, erule keeps1, intro keeps_rules keeps_call)
  fix d s1
  assume "inv s" "conns s c = Some d"
    and st: "sq_wnd_min (snd_queue d) = cur (snd_queue d) \<and> (status d = FIN_WAIT_1_PENDING \<or> status d = LAST_ACK_PENDING)"
    and "upd_conn c (\<lambda>d. d\<lparr>status := if status d = FIN_WAIT_1_PENDING then FIN_WAIT_1 else LAST_ACK\<rparr>) s = Some s1"
  then have "inv s1" by (elim upd_conn_inv) (auto intro!: P_edge simp: tcp_edge_simps)
  then show "inv s'" if "timer_unlink (Pgybg c) s1 = Some s2" "conns s2 c = Some d2"
    "SEND_PACKET_TCP ev c [] 0 ack (FLG_FIN OR FLG_ACK) (nxt_snd (snd_queue d2)) s2 = Some s3" "conns s3 c = Some d3"
    "timer_set (Rtrsn c) (rto d3) s3 = Some s'" for s2 d2 s3 d3 s' using that by (elim timer_inv SEND_inv)
qed simp

lemma update_snd_window_inv: "update_snd_window ev c a sk s = Some s' \<Longrightarrow> inv s \<Longrightarrow> inv s'"
  unfolding update_snd_window_def
  by (erule keeps1, intro keeps_rules keeps_call)
    (auto split: if_split_asm elim!: fin_after_flush_inv flush_data_inv awake_inv intro!: inv_upd
      intro: P_cong [OF inv_conn snd_window_key])

lemma ack_new_wnd_inv:
  "upd_conn c ack_wnd (s\<lparr>conns := (conns s)(c \<mapsto> d')\<rparr>) = Some s' \<Longrightarrow> ack_new est now b d = Some d' \<Longrightarrow>
    conns s c = Some d \<Longrightarrow> inv s \<Longrightarrow> inv s'"
  by (auto simp: upd_conn_def intro!: inv_upd intro: P_ack_new inv_conn)

lemma ack_dup_wnd_inv:
  assumes "upd_conn c ack_wnd s1 = Some s'" and "upd_conn c ack_dup s = Some s1" and "inv s"
  shows "inv s'"
proof -
  obtain d where d: "conns s c = Some d" "s1 = s\<lparr>conns := (conns s)(c \<mapsto> ack_dup d)\<rparr>"
    using assms(2) by (auto simp: upd_conn_def bind_eq_Some_conv)
  then have "s' = s\<lparr>conns := (conns s)(c \<mapsto> ack_wnd (ack_dup d))\<rparr>" using assms(1) by (simp add: upd_conn_def)
  then show ?thesis using inv_upd [OF assms(3) P_ack_dup [OF inv_conn [OF assms(3) d(1)]]] by simp
qed

lemma rcv_ack_timer_inv:
  "(if a then timer_reset i s else if b then timer_set i v s
    else if e then do { s \<leftarrow> timer_set i v s; upd_sq c (\<lambda>q. q\<lparr>nxt_snd := sq\<rparr>) s } else Some s) = Some s' \<Longrightarrow> inv s \<Longrightarrow> inv s'"
  by (auto simp: bind_eq_Some_conv split: if_split_asm elim!: timer_inv upd_queue_inv)

lemma rcv_ack_inv: "rcv_ack ev c a s = Some s' \<Longrightarrow> inv s \<Longrightarrow> inv s'"
proof (unfold rcv_ack_def, erule keeps1, intro keeps_rules keeps_call)
  fix d q aa n s1 s2 s3
  assume "inv s" and q: "snd_queue d = q"
    and s1: "(if uint (sq_wnd_min q) < aa
        then do { s \<leftarrow> (if nxt_snd q = a then timer_reset (Rtrsn c) s else if n > aa then timer_set (Rtrsn c) (rto d) s
                        else if n < aa then do { s \<leftarrow> timer_set (Rtrsn c) (rto d) s; upd_sq c (\<lambda>q. q\<lparr>nxt_snd := a\<rparr>) s } else Some s);
                  d \<leftarrow> conns s c; d \<leftarrow> ack_new (fp_srtt s) (time s) (n < aa) d; Some (s\<lparr>conns := (conns s)(c \<mapsto> d)\<rparr>) }
        else upd_conn c ack_dup s) = Some s1"
    and s2: "upd_conn c ack_wnd s1 = Some s2" and s3: "update_snd_window ev c a False s2 = Some s3"
  have "inv s2"
  proof (cases "uint (sq_wnd_min q) < aa")
    case True
    then obtain t d' e where t: "(if nxt_snd q = a then timer_reset (Rtrsn c) s else if n > aa then timer_set (Rtrsn c) (rto d) s
          else if n < aa then do { s \<leftarrow> timer_set (Rtrsn c) (rto d) s; upd_sq c (\<lambda>q. q\<lparr>nxt_snd := a\<rparr>) s } else Some s) = Some t"
        "conns t c = Some d'" "ack_new (fp_srtt t) (time t) (n < aa) d' = Some e" "s1 = t\<lparr>conns := (conns t)(c \<mapsto> e)\<rparr>"
      using s1 by (auto simp only: if_True bind_eq_Some_conv option.inject)
    have "inv t" by (rule rcv_ack_timer_inv [OF t(1) \<open>inv s\<close>])
    then show ?thesis using ack_new_wnd_inv [OF s2 [unfolded t(4)] t(3,2)] by simp
  next
    case False
    then show ?thesis using ack_dup_wnd_inv [OF s2 _ \<open>inv s\<close>] s1 by simp
  qed
  then show "inv s3" by (rule update_snd_window_inv [OF s3])
qed simp

lemma rtrsn_timer_handler_inv: "rtrsn_timer_handler ev c s = Some s' \<Longrightarrow> inv s \<Longrightarrow> inv s'"
  unfolding rtrsn_timer_handler_def after_timeout_def [symmetric]
  by (erule keeps1, intro keeps_rules keeps_call)
    (auto elim!: update_snd_window_inv upd_conn_inv SEND_inv timer_inv upd_queue_inv intro: P_timeout)

lemma pgybg_timer_handler_inv: "pgybg_timer_handler ev c s = Some s' \<Longrightarrow> inv s \<Longrightarrow> inv s'"
  unfolding pgybg_timer_handler_def
  by (erule keeps1, intro keeps_rules keeps_call)
    (auto elim!: SEND_inv timer_inv upd_queue_inv)

section \<open>Receiving, reading, writing and closing\<close>

lemma upd_max_adv_wnd_inv: "upd_max_adv_wnd c w s = Some s' \<Longrightarrow> inv s \<Longrightarrow> inv s'"
  unfolding upd_max_adv_wnd_def by (erule upd_key_inv) (simp_all add: same_key_def)

lemma free_descs_inv: "free_descs cs s = Some s' \<Longrightarrow> inv s \<Longrightarrow> inv s'"
  by (induction cs arbitrary: s) (auto simp: bind_eq_Some_conv intro: inv_del)

lemma tcp_conn_desc_free_inv: "tcp_conn_desc_free c s = Some s' \<Longrightarrow> inv s \<Longrightarrow> inv s'"
  unfolding tcp_conn_desc_free_def tcp_conn_map_free_def
  by (erule keeps1, intro keeps_rules keeps_call)
    (auto simp: bind_eq_Some_conv split: if_split_asm elim!: timer_inv free_descs_inv intro!: inv_del)

lemma conns_map_inv:
  "conns_put sp dp c s = Some s' \<Longrightarrow> inv s \<Longrightarrow> inv s'" "conns_remove a b sp dp s = Some s' \<Longrightarrow> inv s \<Longrightarrow> inv s'"
  "req_remove a b sp dp s = Some s' \<Longrightarrow> inv s \<Longrightarrow> inv s'" "conns_remove_conn c s = Some s' \<Longrightarrow> inv s \<Longrightarrow> inv s'"
  by (auto simp: conns_put_def conns_remove_def req_remove_def conns_remove_conn_def bind_eq_Some_conv)

lemma field_inv:
  "upd_conn c (process_context_update (\<lambda>_. p)) s = Some s' \<Longrightarrow> inv s \<Longrightarrow> inv s'"
  "upd_conn c (back_log_i_map_update (\<lambda>_. m)) s = Some s' \<Longrightarrow> inv s \<Longrightarrow> inv s'"
  "upd_conn c (back_log_c_queue_update (\<lambda>_. l)) s = Some s' \<Longrightarrow> inv s \<Longrightarrow> inv s'"
  "upd_conn c (pending_ack_update (\<lambda>_. k)) s = Some s' \<Longrightarrow> inv s \<Longrightarrow> inv s'"
  "upd_conn c (\<lambda>d. d\<lparr>pending_ack := pending_ack d + 1\<rparr>) s = Some s' \<Longrightarrow> inv s \<Longrightarrow> inv s'"
  "upd_conn c (\<lambda>d. d\<lparr>pending_ack := 0, rcv_queue := (rcv_queue d)\<lparr>last_adv_wnd := rq_wnd_size (rcv_queue d)\<rparr>\<rparr>) s = Some s' \<Longrightarrow> inv s \<Longrightarrow> inv s'"
  "upd_rq c (\<lambda>q. q\<lparr>rq_seq_num := x, rq_data_len := y\<rparr>) s = Some s' \<Longrightarrow> inv s \<Longrightarrow> inv s'"
  by (auto elim!: upd_key_inv upd_queue_inv simp: same_key_def)

lemma set_reset_inv: "upd_conn c (status_update (\<lambda>_. RESET)) s = Some s' \<Longrightarrow> inv s \<Longrightarrow> inv s'"
  by (erule upd_conn_inv) (auto intro: P_edge tcp_edge.reset)

lemma delayed_ack_inv: "delayed_ack ev c s = Some s' \<Longrightarrow> inv s \<Longrightarrow> inv s'"
  unfolding delayed_ack_def
  by (erule keeps1, intro keeps_rules keeps_call) (auto elim!: update_adv_wnd_inv timer_inv field_inv)

lemma rcv_exit_inv: "rcv_exit ev c fr len s = Some s' \<Longrightarrow> inv s \<Longrightarrow> inv s'"
  unfolding rcv_exit_def
  by (erule keeps1, intro keeps_rules keeps_call)
    (auto simp: bind_eq_Some_conv split: if_split_asm elim!: tcp_conn_desc_free_inv delayed_ack_inv field_inv)

lemma mark_slots_size: "rq_buf_size (mark_slots is q) = rq_buf_size q"
  by (induction "is" q rule: mark_slots.induct) simp_all

lemma store_segment_size: "store_segment q pl seq sq64 len = Some q' \<Longrightarrow> rq_buf_size q' = rq_buf_size q"
  by (auto simp: store_segment_def Let_def mark_slots_size split: if_split_asm)

lemma update_rcv_window_size: "update_rcv_window_and_ack q len seq = (b, q') \<Longrightarrow> rq_buf_size q' = rq_buf_size q"
  by (auto simp: update_rcv_window_and_ack_def scan_rcv_window_and_ack_def Let_def split: if_split_asm)

lemma store_inv:
  assumes "upd_rq c (\<lambda>_. q') s = Some s'" and "update_rcv_window_and_ack q len seq = (b, q')"
    and "store_segment (rcv_queue d) pl seq' sq64 len' = Some q" and "conns s c = Some d" and "inv s"
  shows "inv s'"
proof -
  have "rq_buf_size q' = rq_buf_size (rcv_queue d)"
    using store_segment_size [OF assms(3)] update_rcv_window_size [OF assms(2)] by simp
  then have "P c (d\<lparr>rcv_queue := q'\<rparr>)" by (intro P_cong [OF inv_conn [OF assms(5,4)]]) (simp add: same_key_def)
  then show ?thesis using assms(1) upd_rq_eq [OF assms(4)] by (auto intro: inv_upd [OF assms(5)])
qed

lemma rcv_data_inv: "rcv_data ev g c np s = Some (b, s') \<Longrightarrow> inv s \<Longrightarrow> inv s'"
  unfolding rcv_data_def
  by (erule keeps2, intro keeps_rules keeps_call)
    (auto split: if_split_asm elim!: awake_inv timer_inv field_inv update_adv_wnd_inv elim: store_inv)

lemma set_status_inv:
  "upd_conn c (status_update (\<lambda>_. st)) s = Some s' \<Longrightarrow> conns s c = Some d \<Longrightarrow> tcp_edge (status d) st \<Longrightarrow> inv s \<Longrightarrow> inv s'"
  by (erule upd_conn_inv) (auto intro: P_edge)

lemma rcv_close_inv: "rcv_close ev g c s = Some (a, b, s') \<Longrightarrow> inv s \<Longrightarrow> inv s'"
  unfolding rcv_close_def
  by (erule keeps3, intro keeps_rules keeps_call)
    (auto simp: tcp_edge_simps bind_eq_Some_conv split: if_split_asm
      elim!: SEND_inv awake_inv timer_inv upd_queue_inv conns_map_inv elim: set_status_inv)

lemma rcv_reset_inv: "rcv_reset g cn rq l s = Some (b, s') \<Longrightarrow> inv s \<Longrightarrow> inv s'"
  unfolding rcv_reset_def
  by (erule keeps2, intro keeps_rules keeps_call)
    (auto elim!: conns_map_inv timer_inv tcp_conn_desc_free_inv field_inv set_reset_inv)

lemma rcv_established_inv: "rcv_established ev g c s = Some s' \<Longrightarrow> inv s \<Longrightarrow> inv s'"
  unfolding rcv_established_def
  by (erule keeps1, intro keeps_rules keeps_call)
    (auto simp: bind_eq_Some_conv split: if_split_asm
      elim!: rcv_exit_inv rcv_ack_inv upd_max_adv_wnd_inv rcv_close_inv rcv_data_inv)

lemma close_reset_inv: "close_reset c s = Some s' \<Longrightarrow> inv s \<Longrightarrow> inv s'"
  unfolding close_reset_def
  by (erule keeps1, intro keeps_rules keeps_call) (auto elim!: tcp_conn_desc_free_inv)

lemma status_if_inv:
  assumes "upd_conn c (\<lambda>d. d\<lparr>status := f (status d)\<rparr>) s = Some s'" and "\<And>st. f st = st \<or> tcp_edge st (f st)" and "inv s"
  shows "inv s'"
proof (rule upd_conn_inv [OF assms(1,3)])
  fix d assume "P c d"
  then show "P c (d\<lparr>status := f (status d)\<rparr>)"
    using assms(2) [of "status d"] P_edge [of c d "f (status d)"] P_cong [of c d "d\<lparr>status := f (status d)\<rparr>"]
    by (auto simp: same_key_def)
qed

lemma close_status_inv:
  "upd_conn c (\<lambda>d. d\<lparr>status := (if status d = ESTABILISHED then FIN_WAIT_1
      else if status d = CLOSE_WAIT then LAST_ACK else status d)\<rparr>) s = Some s' \<Longrightarrow> inv s \<Longrightarrow> inv s'"
  "upd_conn c (\<lambda>d. d\<lparr>status := (if status d = ESTABILISHED then FIN_WAIT_1_PENDING
      else if status d = CLOSE_WAIT then LAST_ACK_PENDING else status d)\<rparr>) s = Some s' \<Longrightarrow> inv s \<Longrightarrow> inv s'"
  by (erule status_if_inv; simp add: tcp_edge_simps)+

lemma close_tcp_inv: "close_tcp ev c s = Some s' \<Longrightarrow> inv s \<Longrightarrow> inv s'"
  unfolding close_tcp_def
  by (erule keeps1, intro keeps_rules keeps_call)
    (auto simp: bind_eq_Some_conv split: if_split_asm elim!: close_reset_inv SEND_inv timer_inv close_status_inv)

lemma dequeue_packet_tcp_inv: "dequeue_packet_tcp ev c len s = Some (r, s') \<Longrightarrow> inv s \<Longrightarrow> inv s'"
  unfolding dequeue_packet_tcp_def
  by (erule keeps2, intro keeps_bind_state keeps_rules keeps_call) (auto elim!: delayed_ack_inv upd_queue_inv field_inv intro!: ev_inv)

lemma snd_copy_inv:
  assumes "upd_sq c (\<lambda>_. q) s = Some s'" and "snd_copy (snd_queue d) pl = Some q" and "conns s c = Some d" and "inv s"
  shows "inv s'"
proof -
  have "sq_buf_size q = sq_buf_size (snd_queue d) \<and> sq_wnd_size q = sq_wnd_size (snd_queue d)"
    using assms(2) by (auto simp: snd_copy_def Let_def split: if_split_asm)
  then have "P c (snd_queue_update (\<lambda>_. q) d)" by (intro P_cong [OF inv_conn [OF assms(4,3)]]) (simp add: same_key_def)
  then show ?thesis using assms(1,3) by (auto simp: upd_sq_def upd_conn_def intro: inv_upd [OF assms(4)])
qed

lemma pnd_data_inv: "upd_sq c (pnd_data_update (\<lambda>_. v)) s = Some s' \<Longrightarrow> inv s \<Longrightarrow> inv s'"
  by (erule upd_queue_inv) simp_all

lemma enqueue_packet_tcp_inv: "enqueue_packet_tcp ev c pl len s = Some (r, s') \<Longrightarrow> inv s \<Longrightarrow> inv s'"
  unfolding enqueue_packet_tcp_def
  by (erule keeps2, intro keeps_bind_state keeps_rules keeps_call)
    (auto elim!: update_snd_window_inv pnd_data_inv field_inv elim: snd_copy_inv intro!: ev_inv)

end

section \<open>The handshakes\<close>

text \<open>
  The opening handshakes set the state of a connection without looking at it, and enter fresh
  connections: a predicate they keep must not depend on the state and must hold of a fresh one.
\<close>

definition fresh_conn :: "(nat \<Rightarrow> u8) \<Rightarrow> (nat \<Rightarrow> u8) \<Rightarrow> tcp_conn_desc" where
  "fresh_conn f g = \<lparr>duplicated_ack = 0, rto = of_nat DEFAULT_RTO, srtt = of_nat DEFAULT_RTO,
     rtrsn_timer = timer_init 0 False, pgybg_timer = timer_init 0 False,
     cwnd = of_nat SMSS, ssthresh = of_nat WND_ADV, rcv_wmd_adv = 0, max_adv_wnd = 0,
     rcv_queue = tcp_rcv_queue_init f, snd_queue = tcp_snd_queue_init g,
     src_ip = 0, dst_ip = 0, src_port = 0, dst_port = 0, status = CLOSED,
     back_log_i_map = tcp_conn_map_init, back_log_c_queue = [], process_context = 0,
     ref_count = 1, last_sent_time = 0, flight_size = 0, pending_ack = 0, isActive = False\<rparr>"

locale conn_inv_open = conn_inv +
  assumes P_status: "P c d \<Longrightarrow> P c (d\<lparr>status := st\<rparr>)"
    and P_fresh: "P c (fresh_conn f g)"
begin

definition same_sizes :: "tcp_conn_desc \<Rightarrow> tcp_conn_desc \<Rightarrow> bool" where
  "same_sizes d d' \<longleftrightarrow> same_key (d\<lparr>status := status d'\<rparr>) d'"

lemma upd_sizes_inv: "upd_conn c f s = Some s' \<Longrightarrow> inv s \<Longrightarrow> (\<And>d. same_sizes d (f d)) \<Longrightarrow> inv s'"
  by (erule upd_conn_inv) (auto simp: same_sizes_def intro: P_cong [OF P_status])

lemma tcp_conn_desc_int_inv: "tcp_conn_desc_int s = (n, s') \<Longrightarrow> inv s \<Longrightarrow> inv s'"
  using P_fresh by (auto simp: tcp_conn_desc_int_def fresh_conn_def all_conns_def split: if_split_asm)

lemma rcv_syn_ack_inv: "rcv_syn_ack ev g c s = Some s' \<Longrightarrow> inv s \<Longrightarrow> inv s'"
  unfolding rcv_syn_ack_def
  by (erule keeps1, intro keeps_rules keeps_call)
    (auto elim!: field_inv awake_inv timer_inv upd_queue_inv upd_max_adv_wnd_inv conns_map_inv SEND_inv upd_sizes_inv
      simp: same_sizes_def same_key_def)

lemma rcv_hs_ack_inv: "rcv_hs_ack g l s = Some (b, s') \<Longrightarrow> inv s \<Longrightarrow> inv s'"
  unfolding rcv_hs_ack_def
  by (erule keeps2, intro keeps_rules keeps_call)
    (auto simp: same_sizes_def same_key_def bind_eq_Some_conv split: if_split_asm
      elim!: field_inv awake_inv timer_inv upd_max_adv_wnd_inv conns_map_inv upd_sizes_inv)

lemma rcv_syn_inv: "rcv_syn ev g l s = Some s' \<Longrightarrow> inv s \<Longrightarrow> inv s'"
  unfolding rcv_syn_def
  by (erule keeps1, intro keeps_rules keeps_call)
    (auto simp: same_sizes_def same_key_def bind_eq_Some_conv Let_def split: if_split_asm prod.split_asm
      elim!: field_inv timer_inv upd_max_adv_wnd_inv SEND_inv upd_sizes_inv tcp_conn_desc_int_inv)

lemma rcv_packet_tcp_inv: "rcv_packet_tcp ev b sip dip len s = Some s' \<Longrightarrow> inv s \<Longrightarrow> inv s'"
  unfolding rcv_packet_tcp_def
  by (erule keeps1, intro keeps_rules keeps_call)
    (auto split: if_split_asm elim!: rcv_exit_inv rcv_established_inv rcv_syn_ack_inv rcv_syn_inv rcv_hs_ack_inv rcv_reset_inv)

lemma backlog_dequeue_inv: "backlog_dequeue c s = Some (n, s') \<Longrightarrow> inv s \<Longrightarrow> inv s'"
  unfolding backlog_dequeue_def by (erule keeps2, intro keeps_rules keeps_call) (auto elim!: field_inv)

lemma accept_tcp_inv: "accept_tcp ev c s = Some (n, s') \<Longrightarrow> inv s \<Longrightarrow> inv s'"
  unfolding accept_tcp_def
  by (erule keeps2, intro keeps_rules keeps_call)
    (auto simp: same_sizes_def same_key_def bind_eq_Some_conv split: if_split_asm
      elim!: backlog_dequeue_inv field_inv upd_sizes_inv intro!: ev_inv)

lemma free_port_search_inv: "free_port_search s = Some (p, s') \<Longrightarrow> inv s \<Longrightarrow> inv s'"
  by (auto simp: free_port_search_def Let_def bind_eq_Some_conv)

lemma upd_socket_inv: "upd_socket k f s = Some s' \<Longrightarrow> inv s \<Longrightarrow> inv s'"
  by (auto simp: upd_socket_def bind_eq_Some_conv)

lemma connect_tcp_inv: "connect_tcp ev dip dport k s = Some (r, s') \<Longrightarrow> inv s \<Longrightarrow> inv s'"
  unfolding connect_tcp_def
  by (erule keeps2, intro keeps_rules keeps_call)
    (auto simp: same_sizes_def same_key_def
      elim!: free_port_search_inv upd_socket_inv field_inv timer_inv SEND_inv upd_sizes_inv tcp_conn_desc_int_inv intro!: ev_inv)

end

end
