(* ===== verification/Tcp_Runs.thy ===== *)
theory Tcp_Runs
  imports Tcp_Inv
begin

text \<open>
  Runs of TCP: sequences of operations in which every sleep of an operation is itself filled by a
  run, and the two invariants they keep, as interpretations of \<open>conn_inv\<close>.
\<close>

section \<open>Sleeping\<close>

text \<open>
  \<open>steadied P f\<close> is \<open>f\<close> when \<open>f\<close> keeps the predicate, as the interfaces require of what happens
  during a sleep.
\<close>

definition steadied :: "(nat \<Rightarrow> tcp_conn_desc \<Rightarrow> bool) \<Rightarrow> (net \<Rightarrow> net) \<Rightarrow> net \<Rightarrow> net" where
  "steadied P f s = (if all_conns P s \<longrightarrow> all_conns P (f s) then f s else s)"

lemma steadied_keeps: "all_conns P s \<Longrightarrow> all_conns P (steadied P f s)"
  by (simp add: steadied_def)

lemma steadied_eq: "(\<And>s. all_conns P s \<Longrightarrow> all_conns P (f s)) \<Longrightarrow> steadied P f = f"
  by (rule ext) (simp add: steadied_def)

section \<open>The bounds of a connection\<close>

definition conn_bounds :: "tcp_conn_desc \<Rightarrow> bool" where
  "conn_bounds d \<longleftrightarrow> 10 \<le> rto d \<and> rto d \<le> 600 \<and> sq_wnd_size (snd_queue d) \<le> cwnd d \<and> cwnd d \<le> of_nat TCP_SND_SIZE \<and>
     sq_buf_size (snd_queue d) = of_nat TCP_SND_SIZE \<and> rq_buf_size (rcv_queue d) = of_nat TCP_RCV_SIZE"

lemma rto_of_bounds: "rto_of sr = Some r \<Longrightarrow> 10 \<le> r \<and> r \<le> 600"
proof -
  assume "rto_of sr = Some r"
  define m :: u32 where "m = min 6000 (max 100 (of_nat (unat sr * 3 div 2)))"
  have r: "r = m div 10"
    using \<open>rto_of sr = Some r\<close> by (auto simp: rto_of_def RTO_UBOUND_def RTO_LBOUND_def m_def split: if_split_asm)
  have "100 \<le> m" "m \<le> 6000" by (simp_all add: m_def)
  then have "100 \<le> unat m" "unat m \<le> 6000" by (simp_all add: word_le_nat_alt)
  moreover have "unat r = unat m div 10" unfolding r by (simp add: unat_div)
  moreover have "10 \<le> n div 10 \<and> n div 10 \<le> 600" if "100 \<le> n" "n \<le> 6000" for n :: nat using that by presburger
  ultimately show ?thesis unfolding word_le_nat_alt by simp
qed

lemma ack_wnd_bounds:
  "sq_wnd_size (snd_queue (ack_wnd d)) \<le> cwnd (ack_wnd d)" "cwnd (ack_wnd d) \<le> of_nat TCP_SND_SIZE"
  "rto (ack_wnd d) = rto d" "sq_buf_size (snd_queue (ack_wnd d)) = sq_buf_size (snd_queue d)" "rcv_queue (ack_wnd d) = rcv_queue d"
  "status (ack_wnd d) = status d"
  by (auto simp: ack_wnd_def Let_def not_less)

lemma ack_new_fields:
  assumes "ack_new est now b d = Some d'"
  shows "rto d' = rto d \<or> 10 \<le> rto d' \<and> rto d' \<le> 600" "snd_queue d' = snd_queue d" "rcv_queue d' = rcv_queue d" "status d' = status d"
  using assms rto_of_bounds by (auto simp: ack_new_def Let_def bind_eq_Some_conv split: if_split_asm)

lemma ack_dup_fields:
  "rto (ack_dup d) = rto d" "snd_queue (ack_dup d) = snd_queue d" "rcv_queue (ack_dup d) = rcv_queue d" "status (ack_dup d) = status d"
  by (simp_all add: ack_dup_def Let_def)

lemma timeout_rto: "10 \<le> x \<Longrightarrow> x \<le> 600 \<Longrightarrow> 10 \<le> min (x * 2) (100 :: u32) \<and> min (x * 2) 100 \<le> 600"
  by (auto simp: word_le_nat_alt unat_word_ariths min_def)

interpretation bounds: conn_inv_open "\<lambda>_. conn_bounds" "steadied (\<lambda>_. conn_bounds) f" for f
proof
  show "conn_bounds (after_timeout d)" if "conn_bounds d" for d
    using that timeout_rto [of "rto d"] by (simp add: conn_bounds_def after_timeout_def DEFAULT_RTO_def SMSS_def TCP_SND_SIZE_def)
  show "conn_bounds (fresh_conn h g)" for h g
    by (simp add: conn_bounds_def fresh_conn_def DEFAULT_RTO_def SMSS_def TCP_SND_SIZE_def tcp_snd_queue_init_def tcp_rcv_queue_init_def)
qed (auto simp: conn_bounds_def same_key_def ack_wnd_bounds ack_dup_fields dest: ack_new_fields intro: steadied_keeps)

section \<open>The closing handshake\<close>

definition closing :: "nat \<Rightarrow> tcp_status \<Rightarrow> nat \<Rightarrow> tcp_conn_desc \<Rightarrow> bool" where
  "closing c0 st0 c d \<longleftrightarrow> (c = c0 \<longrightarrow> tcp_edge\<^sup>*\<^sup>* st0 (status d))"

interpretation closing: conn_inv "closing c0 st0" "steadied (closing c0 st0) f" for c0 st0 f
  by unfold_locales
    (auto simp: closing_def same_key_def ack_wnd_bounds ack_dup_fields after_timeout_def dest: ack_new_fields
      intro: rtranclp.rtrancl_into_rtrancl steadied_keeps)

lemma edge_to_open: "\<not> tcp_edge st ESTABILISHED"
  by (auto elim: tcp_edge.cases)

lemma edges_to_open: "tcp_edge\<^sup>*\<^sup>* st ESTABILISHED \<longleftrightarrow> st = ESTABILISHED"
  using edge_to_open by (auto elim: rtranclp.cases)

section \<open>Runs\<close>

text \<open>
  A run of an established connection, without the handshakes that open one: \<open>other\<close> stands for
  the parts of the system that do not touch connections, and every sleep is a run.
\<close>

inductive est_run :: "net \<Rightarrow> net \<Rightarrow> bool" where
  start: "est_run s s"
| other: "est_run s t \<Longrightarrow> conns u = conns t \<Longrightarrow> est_run s u"
| segment: "est_run s t \<Longrightarrow> (\<And>v. est_run v (ev v)) \<Longrightarrow> rcv_established ev g c t = Some u \<Longrightarrow> est_run s u"
| reset: "est_run s t \<Longrightarrow> rcv_reset g c req lst t = Some (gone, u) \<Longrightarrow> est_run s u"
| retransmit: "est_run s t \<Longrightarrow> (\<And>v. est_run v (ev v)) \<Longrightarrow> rtrsn_timer_handler ev c t = Some u \<Longrightarrow> est_run s u"
| delayed: "est_run s t \<Longrightarrow> (\<And>v. est_run v (ev v)) \<Longrightarrow> pgybg_timer_handler ev c t = Some u \<Longrightarrow> est_run s u"
| close: "est_run s t \<Longrightarrow> (\<And>v. est_run v (ev v)) \<Longrightarrow> close_tcp ev c t = Some u \<Longrightarrow> est_run s u"
| read: "est_run s t \<Longrightarrow> (\<And>v. est_run v (ev v)) \<Longrightarrow> dequeue_packet_tcp ev c len t = Some (r, u) \<Longrightarrow> est_run s u"
| send: "est_run s t \<Longrightarrow> (\<And>v. est_run v (ev v)) \<Longrightarrow> enqueue_packet_tcp ev c pl len t = Some (n, u) \<Longrightarrow> est_run s u"

lemma est_run_closing:
  assumes "est_run s s'"
  shows "all_conns (closing c0 st0) s \<longrightarrow> all_conns (closing c0 st0) s'"
  using assms
proof (induction rule: est_run.induct)
  case (segment s t ev g c u)
  then show ?case using closing.rcv_established_inv [of c0 st0 ev] steadied_eq [of "closing c0 st0" ev] by simp
next
  case (reset s t g c req lst gone u)
  then show ?case using closing.rcv_reset_inv by blast
next
  case (retransmit s t ev c u)
  then show ?case using closing.rtrsn_timer_handler_inv [of c0 st0 ev] steadied_eq [of "closing c0 st0" ev] by simp
next
  case (delayed s t ev c u)
  then show ?case using closing.pgybg_timer_handler_inv [of c0 st0 ev] steadied_eq [of "closing c0 st0" ev] by simp
next
  case (close s t ev c u)
  then show ?case using closing.close_tcp_inv [of c0 st0 ev] steadied_eq [of "closing c0 st0" ev] by simp
next
  case (read s t ev c len r u)
  then show ?case using closing.dequeue_packet_tcp_inv [of c0 st0 ev] steadied_eq [of "closing c0 st0" ev] by simp
next
  case (send s t ev c pl len n u)
  then show ?case using closing.enqueue_packet_tcp_inv [of c0 st0 ev] steadied_eq [of "closing c0 st0" ev] by simp
qed (simp_all add: all_conns_def)

text \<open>A run of TCP, from packets to system calls.\<close>

inductive tcp_run :: "net \<Rightarrow> net \<Rightarrow> bool" where
  start: "tcp_run s s"
| other: "tcp_run s t \<Longrightarrow> conns u = conns t \<Longrightarrow> tcp_run s u"
| packet: "tcp_run s t \<Longrightarrow> (\<And>v. tcp_run v (ev v)) \<Longrightarrow> rcv_packet_tcp ev b sip dip len t = Some u \<Longrightarrow> tcp_run s u"
| retransmit: "tcp_run s t \<Longrightarrow> (\<And>v. tcp_run v (ev v)) \<Longrightarrow> rtrsn_timer_handler ev c t = Some u \<Longrightarrow> tcp_run s u"
| delayed: "tcp_run s t \<Longrightarrow> (\<And>v. tcp_run v (ev v)) \<Longrightarrow> pgybg_timer_handler ev c t = Some u \<Longrightarrow> tcp_run s u"
| connect: "tcp_run s t \<Longrightarrow> (\<And>v. tcp_run v (ev v)) \<Longrightarrow> connect_tcp ev dip dport k t = Some (n, u) \<Longrightarrow> tcp_run s u"
| accept: "tcp_run s t \<Longrightarrow> (\<And>v. tcp_run v (ev v)) \<Longrightarrow> accept_tcp ev c t = Some (m, u) \<Longrightarrow> tcp_run s u"
| close: "tcp_run s t \<Longrightarrow> (\<And>v. tcp_run v (ev v)) \<Longrightarrow> close_tcp ev c t = Some u \<Longrightarrow> tcp_run s u"
| read: "tcp_run s t \<Longrightarrow> (\<And>v. tcp_run v (ev v)) \<Longrightarrow> dequeue_packet_tcp ev c len' t = Some (r, u) \<Longrightarrow> tcp_run s u"
| send: "tcp_run s t \<Longrightarrow> (\<And>v. tcp_run v (ev v)) \<Longrightarrow> enqueue_packet_tcp ev c pl len' t = Some (n, u) \<Longrightarrow> tcp_run s u"

lemma bounds_step:
  assumes "\<And>s. all_conns (\<lambda>_. conn_bounds) s \<Longrightarrow> all_conns (\<lambda>_. conn_bounds) (ev s)" and "all_conns (\<lambda>_. conn_bounds) s"
  shows "rcv_packet_tcp ev b sip dip len s = Some s' \<Longrightarrow> all_conns (\<lambda>_. conn_bounds) s'"
    and "rtrsn_timer_handler ev c s = Some s' \<Longrightarrow> all_conns (\<lambda>_. conn_bounds) s'"
    and "pgybg_timer_handler ev c s = Some s' \<Longrightarrow> all_conns (\<lambda>_. conn_bounds) s'"
    and "connect_tcp ev dip dport k s = Some (n, s') \<Longrightarrow> all_conns (\<lambda>_. conn_bounds) s'"
    and "accept_tcp ev c s = Some (m, s') \<Longrightarrow> all_conns (\<lambda>_. conn_bounds) s'"
    and "close_tcp ev c s = Some s' \<Longrightarrow> all_conns (\<lambda>_. conn_bounds) s'"
    and "dequeue_packet_tcp ev c len' s = Some (r, s') \<Longrightarrow> all_conns (\<lambda>_. conn_bounds) s'"
    and "enqueue_packet_tcp ev c pl len' s = Some (n, s') \<Longrightarrow> all_conns (\<lambda>_. conn_bounds) s'"
  using steadied_eq [of "\<lambda>_. conn_bounds" ev, OF assms(1)] assms(2)
    bounds.rcv_packet_tcp_inv [of ev] bounds.rtrsn_timer_handler_inv [of ev] bounds.pgybg_timer_handler_inv [of ev]
    bounds.connect_tcp_inv [of ev] bounds.accept_tcp_inv [of ev] bounds.close_tcp_inv [of ev]
    bounds.dequeue_packet_tcp_inv [of ev] bounds.enqueue_packet_tcp_inv [of ev]
  by simp_all

section \<open>Properties\<close>

text \<open>C7: The bounds of a connection. In every state a run of TCP reaches from one where they hold,
  among them every state without connections, each connection has a retransmission timeout between
  10 and 600 ticks, a send window within its congestion window, a congestion window
  within the size of the send ring, and rings of the sizes they were allocated with. Runs are made of
  received packets, timer expirations and system calls, the sleeps of each filled with runs.\<close>

theorem tcp_run_bounds:
  assumes "tcp_run s s'" and "all_conns (\<lambda>_. conn_bounds) s"
  shows "all_conns (\<lambda>_. conn_bounds) s'"
  using assms
proof (induction rule: tcp_run.induct)
  case (packet s t ev b sip dip len u)
  then show ?case using bounds_step(1) by blast
next
  case (retransmit s t ev c u)
  then show ?case using bounds_step(2) by blast
next
  case (delayed s t ev c u)
  then show ?case using bounds_step(3) by blast
next
  case (connect s t ev dip dport k n u)
  then show ?case using bounds_step(4) by blast
next
  case (accept s t ev c m u)
  then show ?case using bounds_step(5) by blast
next
  case (close s t ev c u)
  then show ?case using bounds_step(6) by blast
next
  case (read s t ev c len' r u)
  then show ?case using bounds_step(7) by blast
next
  case (send s t ev c pl len' n u)
  then show ?case using bounds_step(8) by blast
qed (simp_all add: all_conns_def)

lemma open_net_conn: "\<exists>d. conns open_net = [1 \<mapsto> d\<lparr>status := ESTABILISHED, src_ip := LOCAL_IP, src_port := 80, dst_port := 4000\<rparr>] \<and>
    d = fresh_conn (\<lambda>_. 0) (\<lambda>_. 0)"
  by (simp add: open_net_def linked_net_def net_one_conn_def tcp_conn_desc_int_def empty_net_def fresh_conn_def)

lemma open_net_delayed:
  "\<exists>s'. pgybg_timer_handler id 1 open_net = Some s' \<and> (\<exists>d. conns s' = [1 \<mapsto> d] \<and> status d = ESTABILISHED)"
proof -
  obtain d where d: "conns open_net = [1 \<mapsto> d]" "status d = ESTABILISHED" "pgybg_timer d = timer_init 0 False"
    using open_net_conn by (auto simp: fresh_conn_def)
  let ?d = "d\<lparr>pgybg_timer := \<lparr>val = of_nat PIGGYBACKING_TIMEOUT, ref = False\<rparr>\<rparr>"
  have "pgybg_timer_handler id 1 open_net = Some (open_net\<lparr>flush_network := True, conns := [1 \<mapsto> ?d]\<rparr>)"
    using d by (simp add: pgybg_timer_handler_def set_timer_val_def upd_conn_def timer_init_def)
  then show ?thesis using d(2) by (intro exI [of _ "open_net\<lparr>flush_network := True, conns := [1 \<mapsto> ?d]\<rparr>"] conjI exI [of _ ?d]) simp_all
qed

theorem tcp_run_bounds_witness:
  "\<exists>s'. pgybg_timer_handler id 1 open_net = Some s' \<and> all_conns (\<lambda>_. conn_bounds) s'"
proof -
  obtain s' where s': "pgybg_timer_handler id 1 open_net = Some s'" using open_net_delayed by blast
  have "tcp_run open_net s'" by (rule tcp_run.delayed [OF tcp_run.start _ s']) (simp add: tcp_run.start)
  moreover have "all_conns (\<lambda>_. conn_bounds) open_net"
    using open_net_conn by (auto simp: all_conns_def conn_bounds_def fresh_conn_def DEFAULT_RTO_def SMSS_def TCP_SND_SIZE_def
        TCP_RCV_SIZE_def tcp_snd_queue_init_def tcp_rcv_queue_init_def)
  ultimately show ?thesis using tcp_run_bounds s' by blast
qed


definition closing_net :: net where
  "closing_net = open_net\<lparr>procs := [1 \<mapsto> \<lparr>socket_desc = hashtable_init 10, next_sd = 0, sig_num = 0, icmp_pending_req = 0\<rparr>]\<rparr>"

lemma closing_net_close:
  "\<exists>d d' s'. conns closing_net 1 = Some d \<and> status d = ESTABILISHED \<and> close_tcp id 1 closing_net = Some s' \<and>
    conns s' 1 = Some d' \<and> status d' = FIN_WAIT_1_PENDING"
proof -
  obtain d where d: "conns open_net = [1 \<mapsto> d]" "status d = ESTABILISHED" "snd_queue d = tcp_snd_queue_init (\<lambda>_. 0)"
    using open_net_conn by (auto simp: fresh_conn_def)
  have c: "cur_proc open_net = 1"
    by (simp add: open_net_def linked_net_def net_one_conn_def tcp_conn_desc_int_def empty_net_def)
  let ?d = "d\<lparr>status := FIN_WAIT_1_PENDING\<rparr>"
  have "close_tcp id 1 closing_net = Some (closing_net\<lparr>conns := [1 \<mapsto> ?d]\<rparr>)"
    using d c by (simp add: close_tcp_def closing_net_def SIGINT_def tcp_snd_queue_init_def upd_conn_def)
  then show ?thesis using d
    by (intro exI [of _ d] exI [of _ ?d] exI [of _ "closing_net\<lparr>conns := [1 \<mapsto> ?d]\<rparr>"]) (simp add: closing_net_def)
qed


end
