(* ===== verification/Tcp_Open.thy ===== *)
theory Tcp_Open
  imports Tcp_Runs
begin

text \<open>
  The passive opening of a connection: a \<^verbatim>\<open>SYN\<close> to a listening port, the client's acknowledgement, and
  \<open>accept\<close>.
\<close>

section \<open>One update\<close>

lemma upd_conn_eq: "conns s c = Some d \<Longrightarrow> upd_conn c f s = Some (s\<lparr>conns := (conns s)(c \<mapsto> f d)\<rparr>)"
  by (simp add: upd_conn_def)

definition half_open :: "seg \<Rightarrow> u32 \<Rightarrow> tcp_conn_desc \<Rightarrow> bool" where
  "half_open g iss d \<longleftrightarrow> status d = SYN_RCVD \<and> src_ip d = sg_dst_ip g \<and> dst_ip d = sg_src_ip g \<and> src_port d = sg_dst_port g \<and>
     dst_port d = sg_src_port g \<and> nxt_snd (snd_queue d) = iss \<and> nxt_rcv (rcv_queue d) = sg_seq g + 1 \<and>
     rq_wnd_min (rcv_queue d) = sg_seq g + 1 \<and> rtrsn_timer d = \<lparr>val = of_nat DEFAULT_RTO, ref = True\<rparr> \<and>
     rcv_wmd_adv d = sg_wnd g \<and> back_log_c_queue d = [] \<and> rq_ok (rcv_queue d)"

lemma rcv_syn_spec:
  assumes l: "conns s lst = Some l" and m: "cm_ok (back_log_i_map l)"
    and new: "cm_view (back_log_i_map l) (unat (conn_id (sg_dst_port g) (sg_src_port g))) = None"
    and n: "next_ptr s \<noteq> lst"
    and hop: "hashtable_get (arp_cache s) (unat (next_hop s (sg_src_ip g))) = Some dm"
  shows "\<exists>s' d m'. rcv_syn ev g lst s = Some s' \<and> conns s' (next_ptr s) = Some d \<and> half_open g 4293967297 d \<and>
    conns s' lst = Some (l\<lparr>back_log_i_map := m'\<rparr>) \<and> cm_ok m' \<and>
    cm_view m' = (cm_view (back_log_i_map l))(unat (conn_id (sg_dst_port g) (sg_src_port g)) \<mapsto> next_ptr s) \<and>
    tcp_desc_of s' = tcp_desc_of s \<and> cur_proc s' = cur_proc s"
proof -
  let ?n = "next_ptr s" and ?ack = "sg_seq g + 1"
  let ?f1 = "\<lambda>d :: tcp_conn_desc. d\<lparr>src_ip := sg_dst_ip g, dst_ip := sg_src_ip g, src_port := sg_dst_port g, dst_port := sg_src_port g\<rparr>"
  let ?f3 = "\<lambda>d :: tcp_conn_desc. d\<lparr>snd_queue := (snd_queue d)\<lparr>nxt_snd := nxt_snd (snd_queue d) + 1\<rparr>, status := SYN_RCVD,
      rcv_queue := (rcv_queue d)\<lparr>nxt_rcv := ?ack, rq_wnd_min := ?ack\<rparr>\<rparr>"
  define d0 where "d0 = fresh_conn (heap_junk s (allocs s)) (heap_junk s (allocs s + 1))"
  define s0 where "s0 = s\<lparr>conns := (conns s)(?n \<mapsto> d0), next_ptr := ?n + 1, allocs := allocs s + 2\<rparr>"
  have g0: "tcp_conn_map_get (back_log_i_map l) (sg_dst_ip g) (sg_src_ip g) (sg_dst_port g) (sg_src_port g) s = Some 0"
    using cm_get [OF m] new by simp
  have i: "tcp_conn_desc_int s = (?n, s0)" by (simp add: tcp_conn_desc_int_def fresh_conn_def s0_def d0_def)
  define s1 where "s1 = s0\<lparr>conns := (conns s0)(?n \<mapsto> ?f1 d0)\<rparr>"
  have u1: "upd_conn ?n ?f1 s0 = Some s1" unfolding s1_def by (rule upd_conn_eq) (simp add: s0_def)
  obtain m' where m': "tcp_conn_map_put (back_log_i_map l) (sg_dst_port g) (sg_src_port g) ?n = Some m'" "cm_ok m'"
      "cm_view m' = (cm_view (back_log_i_map l))(unat (conn_id (sg_dst_port g) (sg_src_port g)) \<mapsto> ?n)"
    using cm_put [OF m new] by blast
  define s2 where "s2 = s1\<lparr>conns := (conns s1)(lst \<mapsto> l\<lparr>back_log_i_map := m'\<rparr>)\<rparr>"
  have u2: "upd_conn lst (back_log_i_map_update (\<lambda>_. m')) s1 = Some s2"
    unfolding s2_def using l n by (intro upd_conn_eq) (simp add: s1_def s0_def)
  define d3 where "d3 = ?f3 (?f1 d0)"
  define s3 where "s3 = s2\<lparr>conns := (conns s2)(?n \<mapsto> d3)\<rparr>"
  have u3: "upd_conn ?n ?f3 s2 = Some s3"
    unfolding s3_def d3_def using n by (intro upd_conn_eq) (simp add: s2_def s1_def)
  have c3: "conns s3 ?n = Some d3" by (simp add: s3_def)
  define d4 where "d4 = d3\<lparr>rtrsn_timer := \<lparr>val = rto d3, ref = True\<rparr>\<rparr>"
  obtain tl where t: "timer_set (Rtrsn ?n) (rto d3) s3 = Some (s3\<lparr>conns := (conns s3)(?n \<mapsto> d4), timer_list := tl\<rparr>)"
    using timer_set_rtrsn [OF c3] unfolding d4_def by blast
  define s4 where "s4 = s3\<lparr>conns := (conns s3)(?n \<mapsto> d4), timer_list := tl\<rparr>"
  define d5 where "d5 = d4\<lparr>rcv_wmd_adv := sg_wnd g, max_adv_wnd := (if max_adv_wnd d4 < sg_wnd g then sg_wnd g else max_adv_wnd d4)\<rparr>"
  define s5 where "s5 = s4\<lparr>conns := (conns s4)(?n \<mapsto> d5)\<rparr>"
  have u5: "upd_max_adv_wnd ?n (sg_wnd g) s4 = Some s5"
    unfolding upd_max_adv_wnd_def s5_def d5_def by (rule upd_conn_eq) (simp add: s4_def)
  have c5: "conns s5 ?n = Some d5" "conns s5 lst = Some (l\<lparr>back_log_i_map := m'\<rparr>)" "arp_cache s5 = arp_cache s" "ip s5 = ip s"
      "default_gw_ip s5 = default_gw_ip s" "tcp_desc_of s5 = tcp_desc_of s" "cur_proc s5 = cur_proc s"
    using n by (simp_all add: s5_def s4_def s3_def s2_def s1_def s0_def)
  have h: "half_open g 4293967297 d5"
    by (simp add: half_open_def d5_def d4_def d3_def d0_def fresh_conn_def tcp_snd_queue_init_def tcp_rcv_queue_init_def rq_ok_def rq_unread_def)
  then have r: "ready ?n d5 s5" using hop c5 by (auto simp: ready_def half_open_def next_hop_def)
  obtain b where b: "SEND_PACKET_TCP ev ?n [] 0 ?ack (FLG_SYN OR FLG_ACK) (nxt_snd (snd_queue d5)) s5 = Some (put_tx b s5)"
    using SEND_keeps [OF r, of 0 "[]"] by fastforce
  have "rcv_syn ev g lst s = Some (put_tx b s5)"
    by (simp add: rcv_syn_def Let_def l g0 i u1 m'(1) u2 u3 c3 t [folded s4_def] u5 c5(1) b)
  then show ?thesis using h m'(2,3) c5 by (intro exI [of _ "put_tx b s5"] exI [of _ d5] exI [of _ m']) (simp add: put_tx_def)
qed

definition opened :: "u32 \<Rightarrow> tcp_conn_desc \<Rightarrow> bool" where
  "opened snd_nxt d \<longleftrightarrow> status d = ESTABILISHED \<and> nxt_snd (snd_queue d) = snd_nxt \<and> cur (snd_queue d) = snd_nxt \<and>
     sq_wnd_min (snd_queue d) = snd_nxt \<and> rtrsn_timer d = \<lparr>val = 0, ref = False\<rparr>"

lemma timer_reset_armed:
  "conns s c = Some d \<Longrightarrow> ref (rtrsn_timer d) \<Longrightarrow> timer_reset (Rtrsn c) s =
    Some (s\<lparr>conns := (conns s)(c \<mapsto> d\<lparr>rtrsn_timer := \<lparr>val = 0, ref = False\<rparr>\<rparr>), timer_list := remove1 (Rtrsn c) (timer_list s)\<rparr>)"
  by (simp add: timer_reset_def upd_conn_def)

lemma listener_awake:
  assumes "conns s lst = Some l" and "n \<noteq> lst"
  shows "\<exists>s' l'. (if process_context l \<noteq> 0 then do { s \<leftarrow> awake (process_context l) s; upd_conn lst (process_context_update (\<lambda>_. 0)) s }
      else Some s) = Some s' \<and> conns s' lst = Some l' \<and> back_log_c_queue l' = back_log_c_queue l \<and> conns s' n = conns s n \<and>
      tcp_desc_of s' = tcp_desc_of s"
  using assms by (cases "process_context l = 0") (simp_all add: awake_def upd_conn_def)

lemma rcv_hs_ack_spec:
  assumes l: "conns s lst = Some l" and m: "cm_ok (back_log_i_map l)" and n: "n \<noteq> 0" "n \<noteq> lst"
    and bl: "cm_view (back_log_i_map l) (unat (conn_id (sg_dst_port g) (sg_src_port g))) = Some n"
    and d: "conns s n = Some d" "ref (rtrsn_timer d)" and ack: "sg_ack g = nxt_snd (snd_queue d) + 1"
    and cm: "cm_ok (tcp_conns_map (tcp_desc_of s))" "cm_view (tcp_conns_map (tcp_desc_of s)) (unat (conn_id (sg_dst_port g) (sg_src_port g))) = None"
  shows "\<exists>s' d' l'. rcv_hs_ack g lst s = Some (True, s') \<and> conns s' n = Some d' \<and> opened (sg_ack g) d' \<and>
    rcv_queue d' = rcv_queue d \<and> conns s' lst = Some l' \<and> back_log_c_queue l' = back_log_c_queue l @ [n] \<and>
    cm_ok (tcp_conns_map (tcp_desc_of s')) \<and>
    cm_view (tcp_conns_map (tcp_desc_of s')) = (cm_view (tcp_conns_map (tcp_desc_of s)))(unat (conn_id (sg_dst_port g) (sg_src_port g)) \<mapsto> n)"
proof -
  let ?k = "unat (conn_id (sg_dst_port g) (sg_src_port g))"
  let ?f = "\<lambda>d :: tcp_conn_desc. d\<lparr>status := ESTABILISHED, snd_queue := (snd_queue d)\<lparr>nxt_snd := nxt_snd (snd_queue d) + 1,
      cur := nxt_snd (snd_queue d) + 1, sq_wnd_min := nxt_snd (snd_queue d) + 1\<rparr>, rcv_wmd_adv := sg_wnd g\<rparr>"
  have g0: "tcp_conn_map_get (back_log_i_map l) (sg_dst_ip g) (sg_src_ip g) (sg_dst_port g) (sg_src_port g) s = Some n"
    using cm_get [OF m] bl by simp
  obtain m1 where m1: "tcp_conn_map_remove (back_log_i_map l) (sg_dst_ip g) (sg_src_ip g) (sg_dst_port g) (sg_src_port g) s = Some m1"
    using cm_remove [OF m] by blast
  let ?fl = "\<lambda>l :: tcp_conn_desc. l\<lparr>back_log_i_map := m1, back_log_c_queue := back_log_c_queue l @ [n]\<rparr>"
  define s1 where "s1 = s\<lparr>conns := (conns s)(lst \<mapsto> ?fl l)\<rparr>"
  have u1: "upd_conn lst ?fl s = Some s1" unfolding s1_def by (rule upd_conn_eq [OF l])
  obtain cmap where cmap: "tcp_conn_map_put (tcp_conns_map (tcp_desc_of s)) (sg_dst_port g) (sg_src_port g) n = Some cmap" "cm_ok cmap"
      "cm_view cmap = (cm_view (tcp_conns_map (tcp_desc_of s)))(?k \<mapsto> n)"
    using cm_put [OF cm] by blast
  define s2 where "s2 = s1\<lparr>tcp_desc_of := (tcp_desc_of s)\<lparr>tcp_conns_map := cmap\<rparr>\<rparr>"
  have u2: "conns_put (sg_dst_port g) (sg_src_port g) n s1 = Some s2" using cmap(1) by (simp add: conns_put_def s2_def s1_def)
  define s3 where "s3 = s2\<lparr>conns := (conns s2)(n \<mapsto> ?f d)\<rparr>"
  have u3: "upd_conn n ?f s2 = Some s3" unfolding s3_def using d n by (intro upd_conn_eq) (simp add: s2_def s1_def)
  define d4 where "d4 = (?f d)\<lparr>rcv_wmd_adv := sg_wnd g, max_adv_wnd := (if max_adv_wnd d < sg_wnd g then sg_wnd g else max_adv_wnd d)\<rparr>"
  define s4 where "s4 = s3\<lparr>conns := (conns s3)(n \<mapsto> d4)\<rparr>"
  have u4: "upd_max_adv_wnd n (sg_wnd g) s3 = Some s4"
    using upd_conn_eq [of s3 n "?f d"] by (simp add: upd_max_adv_wnd_def s4_def s3_def d4_def)
  have c4: "conns s4 lst = Some (?fl l)" "conns s4 n = Some d4" using n by (simp_all add: s4_def s3_def s2_def s1_def)
  obtain s5 l5 where s5: "(if process_context (?fl l) \<noteq> 0 then do { s \<leftarrow> awake (process_context (?fl l)) s4; upd_conn lst (process_context_update (\<lambda>_. 0)) s }
      else Some s4) = Some s5" "conns s5 lst = Some l5" "back_log_c_queue l5 = back_log_c_queue l @ [n]" "conns s5 n = Some d4"
      "tcp_desc_of s5 = tcp_desc_of s4"
    using listener_awake [OF c4(1) n(2)] c4(2) by auto
  have ref: "ref (rtrsn_timer d4)" using d(2) by (simp add: d4_def)
  let ?d6 = "d4\<lparr>rtrsn_timer := \<lparr>val = 0, ref = False\<rparr>\<rparr>"
  let ?s6 = "s5\<lparr>conns := (conns s5)(n \<mapsto> ?d6), timer_list := remove1 (Rtrsn n) (timer_list s5)\<rparr>"
  have u6: "timer_reset (Rtrsn n) s5 = Some ?s6" by (rule timer_reset_armed [OF s5(4) ref])
  have "rcv_hs_ack g lst s = Some (True, ?s6)"
    using n(1) by (simp add: rcv_hs_ack_def l g0 d(1) ack [symmetric] m1 u1 u2 u3 u4 c4(1) s5(1) [simplified] u6)
  moreover have "opened (sg_ack g) ?d6" by (simp add: opened_def d4_def ack)
  ultimately show ?thesis using s5 n cmap(2,3)
    by (intro exI [of _ ?s6] exI [of _ ?d6] exI [of _ l5]) (simp add: d4_def s4_def s3_def s2_def)
qed

section \<open>Properties\<close>

text \<open>C8: The passive opening of a connection. A \<^verbatim>\<open>SYN\<close> for a listening port, from a port pair that
  is not in the backlog, from a peer whose next hop is known, creates a connection in state
  \<^verbatim>\<open>SYN_RCVD\<close> that expects the byte after the client's initial sequence number; the client's
  acknowledgement of the server's \<^verbatim>\<open>SYN\<close> establishes it, stops its timer, makes it the connection its
  port pair leads to and queues it, so that \<open>accept\<close> returns it at once, with empty streams on
  both sides.\<close>

theorem tcp_passive_open:
  assumes l: "conns s lst = Some l" "cm_ok (back_log_i_map l)" "back_log_c_queue l = []"
    and new: "cm_view (back_log_i_map l) (unat (conn_id (sg_dst_port g) (sg_src_port g))) = None"
    and n: "n = next_ptr s" "n \<noteq> lst" "n \<noteq> 0"
    and hop: "hashtable_get (arp_cache s) (unat (next_hop s (sg_src_ip g))) = Some dm"
    and cm: "cm_ok (tcp_conns_map (tcp_desc_of s))" "cm_view (tcp_conns_map (tcp_desc_of s)) (unat (conn_id (sg_dst_port g) (sg_src_port g))) = None"
    and g': "sg_dst_port g' = sg_dst_port g" "sg_src_port g' = sg_src_port g" "sg_ack g' = 4293967298"
  shows "\<exists>s1 d1 s2 s3 d3. rcv_syn ev g lst s = Some s1 \<and> conns s1 n = Some d1 \<and> half_open g 4293967297 d1 \<and>
    rcv_hs_ack g' lst s1 = Some (True, s2) \<and>
    tcp_conn_map_get (tcp_conns_map (tcp_desc_of s2)) (sg_dst_ip g) (sg_src_ip g) (sg_dst_port g) (sg_src_port g) s2 = Some n \<and>
    accept_tcp ev' lst s2 = Some (n, s3) \<and> conns s3 n = Some d3 \<and> opened 4293967298 d3 \<and>
    rq_contents (rcv_queue d3) = [] \<and> nxt_rcv (rcv_queue d3) = sg_seq g + 1"
proof -
  obtain s1 d1 m1 where s1: "rcv_syn ev g lst s = Some s1" "conns s1 n = Some d1" "half_open g 4293967297 d1"
      "conns s1 lst = Some (l\<lparr>back_log_i_map := m1\<rparr>)" "cm_ok m1"
      "cm_view m1 = (cm_view (back_log_i_map l))(unat (conn_id (sg_dst_port g) (sg_src_port g)) \<mapsto> n)"
      "tcp_desc_of s1 = tcp_desc_of s"
    using rcv_syn_spec [OF l(1,2) new _ hop, of ev] n by auto
  have ref: "ref (rtrsn_timer d1)" and ack: "sg_ack g' = nxt_snd (snd_queue d1) + 1" using s1(3) g' by (simp_all add: half_open_def)
  obtain s2 d2 l2 where s2: "rcv_hs_ack g' lst s1 = Some (True, s2)" "conns s2 n = Some d2" "opened (sg_ack g') d2"
      "rcv_queue d2 = rcv_queue d1" "conns s2 lst = Some l2" "back_log_c_queue l2 = [n]" "cm_ok (tcp_conns_map (tcp_desc_of s2))"
      "cm_view (tcp_conns_map (tcp_desc_of s2)) (unat (conn_id (sg_dst_port g) (sg_src_port g))) = Some n"
    using rcv_hs_ack_spec [OF s1(4) _ n(3,2) _ s1(2) ref ack] s1 l(3) cm g' by auto
  let ?l3 = "l2\<lparr>back_log_c_queue := []\<rparr>" and ?d3 = "d2\<lparr>status := ESTABILISHED\<rparr>"
  let ?s3 = "s2\<lparr>conns := (conns s2)(lst \<mapsto> ?l3, n \<mapsto> ?d3)\<rparr>"
  have "accept_tcp ev' lst s2 = Some (n, ?s3)"
    using s2(2,5,6) n by (simp add: accept_tcp_def backlog_dequeue_def upd_conn_def)
  moreover have "rq_contents (rcv_queue d1) = []" "nxt_rcv (rcv_queue d1) = sg_seq g + 1"
    using s1(3) by (simp_all add: half_open_def rq_contents_def rq_unread_def ring_read_def)
  ultimately show ?thesis using s1(1-3) s2 g'(3)
    by (intro exI [of _ s1] exI [of _ d1] exI [of _ s2] exI [of _ ?s3] exI [of _ ?d3]) (simp add: opened_def cm_get)
qed

definition syn_seg :: seg where
  "syn_seg = \<lparr>sg_src_ip = 0, sg_dst_ip = LOCAL_IP, sg_src_port = 4000, sg_dst_port = 80, sg_seq = 7, sg_ack = 0,
     sg_flags = FLG_SYN, sg_wnd = 8192, sg_len = 0, sg_payload = []\<rparr>"

theorem tcp_passive_open_witness:
  "\<exists>s1 d1 s2 s3 d3. rcv_syn id syn_seg 1 linked_net = Some s1 \<and> conns s1 2 = Some d1 \<and> half_open syn_seg 4293967297 d1 \<and>
    rcv_hs_ack (syn_seg\<lparr>sg_flags := FLG_ACK, sg_ack := 4293967298\<rparr>) 1 s1 = Some (True, s2) \<and>
    tcp_conn_map_get (tcp_conns_map (tcp_desc_of s2)) (sg_dst_ip syn_seg) (sg_src_ip syn_seg) (sg_dst_port syn_seg) (sg_src_port syn_seg) s2 = Some 2 \<and>
    accept_tcp id 1 s2 = Some (2, s3) \<and> conns s3 2 = Some d3 \<and> opened 4293967298 d3 \<and>
    rq_contents (rcv_queue d3) = [] \<and> nxt_rcv (rcv_queue d3) = sg_seq syn_seg + 1"
proof -
  have c: "conns linked_net 1 = Some (fresh_conn (\<lambda>_. 0) (\<lambda>_. 0))" "next_ptr linked_net = 2"
      "tcp_conns_map (tcp_desc_of linked_net) = tcp_conn_map_init"
    by (simp_all add: linked_net_def net_one_conn_def tcp_conn_desc_int_def empty_net_def fresh_conn_def empty_conn_map_def tcp_conn_map_init_def)
  show ?thesis
    by (rule tcp_passive_open [OF c(1), where dm = "\<lparr>mac_lo = 1, mac_mi = 2, mac_hi = 3\<rparr>"])
      (use c linked_net_hop in \<open>simp_all add: fresh_conn_def cm_ok_init cm_view_init syn_seg_def\<close>)
qed

end
