(* ===== verification/Udp_Flow.thy ===== *)
theory Udp_Flow
  imports Socket
begin

text \<open>
  A UDP datagram from one host to another: through \<open>send_packet_udp\<close>, the transmit queue and the
  adapter of the sender, the receive queue, Ethernet, IPv4 and UDP of the receiver to the
  system call that reads it.
\<close>

section \<open>Addresses\<close>

lemma ip_addr_eq: "ip_addr bs i = rd_dword bs i"
proof -
  have "ucast d + push_bit 8 (ucast c) + push_bit 16 (ucast b) + push_bit 24 (ucast a) = GET_DWORD a b c d" for a b c d :: u8
  proof -
    let ?d = "ucast d :: u32" and ?c = "push_bit 8 (ucast c) :: u32" and ?b = "push_bit 16 (ucast b) :: u32"
      and ?a = "push_bit 24 (ucast a) :: u32"
    have "?d + ?c = ?d OR ?c" by (rule disjunctive_add) (auto simp: bit_simps dest: bit_imp_le_length)
    moreover have "(?d OR ?c) + ?b = (?d OR ?c) OR ?b" by (rule disjunctive_add) (auto simp: bit_simps dest: bit_imp_le_length)
    moreover have "((?d OR ?c) OR ?b) + ?a = ((?d OR ?c) OR ?b) OR ?a"
      by (rule disjunctive_add) (auto simp: bit_simps dest: bit_imp_le_length)
    moreover have "((?d OR ?c) OR ?b) OR ?a = GET_DWORD a b c d"
      unfolding GET_DWORD_def mask_numerals by (rule bit_word_eqI) (auto simp: bit_simps dest: bit_imp_le_length)
    ultimately show ?thesis by simp
  qed
  then show ?thesis by (simp add: ip_addr_def rd_dword_def)
qed

section \<open>Receiving a frame\<close>

lemma udp_frame_view:
  "rd_word (udp_frame dm sm i sip dip sport dport pl @ pad) 12 = Some NETWORK_PROTOCOL_TYPE"
  "rd_mac (udp_frame dm sm i sip dip sport dport pl @ pad) 6 = Some sm"
  "ip_addr (udp_frame dm sm i sip dip sport dport pl @ pad) 26 = Some sip"
  "ip_addr (udp_frame dm sm i sip dip sport dport pl @ pad) 30 = Some dip"
  "rd (udp_frame dm sm i sip dip sport dport pl @ pad) 23 = Some UDP_PROTOCOL"
  "rd_word (udp_frame dm sm i sip dip sport dport pl @ pad) 16 = Some (of_nat (length pl) + 28)"
  "rd_bytes (udp_frame dm sm i sip dip sport dport pl @ pad) 14 20 = Some (ip_sealed (of_nat (length pl) + 28) i UDP_PROTOCOL sip dip)"
  "rd_word (udp_frame dm sm i sip dip sport dport pl @ pad) 34 = Some sport"
  "rd_word (udp_frame dm sm i sip dip sport dport pl @ pad) 36 = Some dport"
  "rd_word (udp_frame dm sm i sip dip sport dport pl @ pad) 38 = Some (of_nat (length pl) + 8)"
  "rd_bytes (udp_frame dm sm i sip dip sport dport pl @ pad) 42 (length pl) = Some pl"
proof -
  let ?ip = "ip_sealed (of_nat (length pl) + 28) i UDP_PROTOCOL sip dip" and ?u = "udp_sealed sip dip sport dport pl"
  have e: "udp_frame dm sm i sip dip sport dport pl @ pad = eth_header dm sm @ ?ip @ ?u @ pad" by (simp add: udp_frame_def)
  note ip = ip_sealed_fields [of "of_nat (length pl) + 28" i UDP_PROTOCOL sip dip "?u @ pad"]
  note ud = udp_sealed_fields [of sip dip sport dport pl pad]
  show "rd_word (udp_frame dm sm i sip dip sport dport pl @ pad) 12 = Some NETWORK_PROTOCOL_TYPE"
    "rd_mac (udp_frame dm sm i sip dip sport dport pl @ pad) 6 = Some sm"
    unfolding e by (simp_all add: eth_header_def rd_simps)
  show "ip_addr (udp_frame dm sm i sip dip sport dport pl @ pad) 26 = Some sip"
    "ip_addr (udp_frame dm sm i sip dip sport dport pl @ pad) 30 = Some dip"
    "rd (udp_frame dm sm i sip dip sport dport pl @ pad) 23 = Some UDP_PROTOCOL"
    "rd_word (udp_frame dm sm i sip dip sport dport pl @ pad) 16 = Some (of_nat (length pl) + 28)"
    unfolding e ip_addr_eq using ip by (simp_all add: rd_dword_shift rd_shift rd_word_shift)
  show "rd_bytes (udp_frame dm sm i sip dip sport dport pl @ pad) 14 20 = Some ?ip"
    unfolding e by (rule rd_bytes_append) simp_all
  show "rd_word (udp_frame dm sm i sip dip sport dport pl @ pad) 34 = Some sport"
    "rd_word (udp_frame dm sm i sip dip sport dport pl @ pad) 36 = Some dport"
    "rd_word (udp_frame dm sm i sip dip sport dport pl @ pad) 38 = Some (of_nat (length pl) + 8)"
    unfolding e using ud by (simp_all add: rd_word_shift)
  have "rd_bytes (xs @ ys) (length xs + k) n = rd_bytes ys k n" for xs ys :: "u8 list" and k n by (simp add: rd_bytes_def)
  from this [of "eth_header dm sm @ ?ip" "?u @ pad" 8 "length pl"]
  show "rd_bytes (udp_frame dm sm i sip dip sport dport pl @ pad) 42 (length pl) = Some pl"
    unfolding e using ud(6) by simp
qed

section \<open>Through the receiver\<close>

text \<open>A socket with descriptor \<open>sockfd\<close>, bound to a port, of the current process, with nothing to read.\<close>

definition udp_endpoint :: "net \<Rightarrow> nat \<Rightarrow> u16 \<Rightarrow> bool" where
  "udp_endpoint s sockfd port \<longleftrightarrow> (\<exists>k sk d p. hashtable_get (udp_conn_map (udp_desc_of s)) (unat port) = Some k \<and>
     sockets s k = Some sk \<and> sk_process_context sk = 0 \<and> udp_conns s (sk_udp_conn_desc sk) = Some d \<and> u_rx_queue d = [] \<and>
     procs s (cur_proc s) = Some p \<and> hashtable_get (socket_desc p) sockfd = Some k)"

definition received :: "u8 list \<Rightarrow> u16 \<Rightarrow> data_sckt_buf" where
  "received contents n = \<lparr>transport_hdr = Some 34, network_hdr = Some 14, mac_hdr = Some 0, data = contents, data_len = n\<rparr>"

lemma received_data [simp]: "data (received bs n) = bs"
  by (simp add: received_def)

lemma arp_learn:
  assumes "ht_dict (arp_cache s)"
  shows "\<exists>h. (case hashtable_get (arp_cache s) k of
      None \<Rightarrow> do { h \<leftarrow> hashtable_put (arp_cache s) k m; Some (s\<lparr>arp_cache := h\<rparr>) } | Some _ \<Rightarrow> Some s) = Some (s\<lparr>arp_cache := h\<rparr>)"
proof (cases "hashtable_get (arp_cache s) k")
  case None
  then obtain h where "hashtable_put (arp_cache s) k m = Some h" using hashtable_put_dict [OF assms None] by blast
  then show ?thesis using None by auto
next
  case (Some a)
  then show ?thesis by (intro exI [of _ "arp_cache s"]) simp
qed

lemma rcv_udp_frame:
  assumes len: "length pl \<le> 1490" and dict: "ht_dict (arp_cache s)"
    and buf: "mac_hdr b = Some 0" "data b = udp_frame dm sm i sip LOCAL_IP sport dport pl @ pad" "data_len b = n"
    and port: "hashtable_get (udp_conn_map (udp_desc_of s)) (unat dport) = Some k" "sockets s k = Some sk"
      "sk_process_context sk = 0" "udp_conns s (sk_udp_conn_desc sk) = Some d"
  shows "\<exists>h. rcv_packet_mac ev b s = Some (s\<lparr>arp_cache := h,
    udp_conns := (udp_conns s)(sk_udp_conn_desc sk \<mapsto> d\<lparr>u_rx_queue := u_rx_queue d @ [received (data b) n]\<rparr>)\<rparr>)"
proof -
  note v = udp_frame_view [of dm sm i sip LOCAL_IP sport dport pl pad, folded buf(2)]
  let ?b = "received (data b) n"
  have b: "b\<lparr>network_hdr := Some 14, transport_hdr := Some 34\<rparr> = ?b" using buf by (cases b) (simp add: received_def)
  obtain h where h: "(case hashtable_get (arp_cache s) (unat sip) of
      None \<Rightarrow> do { h \<leftarrow> hashtable_put (arp_cache s) (unat sip) sm; Some (s\<lparr>arp_cache := h\<rparr>) } | Some _ \<Rightarrow> Some s) = Some (s\<lparr>arp_cache := h\<rparr>)"
    using arp_learn [OF dict] by blast
  have tl: "of_nat (length pl) + 28 - of_nat HEADER_IP4 - of_nat HEADER_UDP = (of_nat (length pl) :: u16)"
    by (simp add: HEADER_IP4_def HEADER_UDP_def)
  have ck: "checksum_udp (data b) 34 sip LOCAL_IP (of_nat (length pl)) = Some 0"
    using udp_sealed_checksum [of "eth_header dm sm @ ip_sealed (of_nat (length pl) + 28) i UDP_PROTOCOL sip LOCAL_IP" 34 pl] len buf(2)
    by (simp add: udp_frame_def)
  let ?s = "s\<lparr>arp_cache := h\<rparr>"
  have u: "rcv_packet_udp ?b sip LOCAL_IP (of_nat (length pl)) ?s =
      Some (?s\<lparr>udp_conns := (udp_conns s)(sk_udp_conn_desc sk \<mapsto> d\<lparr>u_rx_queue := u_rx_queue d @ [?b]\<rparr>)\<rparr>)"
    using v(9) ck port by (simp add: rcv_packet_udp_def received_def upd_udp_def)
  have "rcv_packet_ip4 ev (b\<lparr>network_hdr := Some 14\<rparr>) sm s = rcv_packet_udp ?b sip LOCAL_IP (of_nat (length pl)) ?s"
    using v(3-7) h tl b
    by (simp add: rcv_packet_ip4_def Let_def HEADER_IP4_def ip_sealed_checksum UDP_PROTOCOL_def TCP_PROTOCOL_def)
  then have "rcv_packet_mac ev b s = rcv_packet_udp ?b sip LOCAL_IP (of_nat (length pl)) ?s"
    using v(1,2) buf(1) by (simp add: rcv_packet_mac_def HEADER_ETH_def NETWORK_PROTOCOL_TYPE_def ARP_PROTOCOL_TYPE_def)
  then show ?thesis using u by auto
qed

lemma udp_read_frame:
  assumes "length pl \<le> unat n" and "length pl \<le> 1490"
    and "data b = udp_frame dm sm i sip dip sport dport pl @ pad" "transport_hdr b = Some 34" "network_hdr b = Some 14"
  shows "udp_read b n s = Some ((int (length pl), dword_bytes sip, word_bytes sport, pl), free_sckt s)"
proof -
  note v = udp_frame_view [of dm sm i sip dip sport dport pl pad, folded assms(3), unfolded ip_addr_eq]
  define r where "r = (ucast (of_nat (length pl) + 8 :: u16) - 8 :: u32)"
  have u8: "unat (of_nat (length pl) + 8 :: u16) = length pl + 8"
    using assms(2) unat_of_nat16 [of "length pl + 8"] by simp
  have "unat (ucast (of_nat (length pl) + 8 :: u16) :: u32) = length pl + 8"
    using u8 assms(2) by (simp add: unsigned_ucast_eq take_bit_nat_eq_self)
  then have ur: "unat r = length pl" unfolding r_def by (subst unat_sub) (simp_all add: word_le_nat_alt)
  have nr: "\<not> n < r" using ur assms(1) by (simp add: word_less_nat_alt)
  have "r = of_nat (length pl)" by (simp flip: ur)
  then have sr: "sint r = int (length pl)" using assms(2) by (simp add: signed_of_nat signed_take_bit_int_eq_self)
  show ?thesis using v(3,8,10,11) assms(4,5) nr ur sr
    by (simp add: udp_read_def HEADER_UDP_def r_def [symmetric])
qed

section \<open>Properties\<close>


lemma get_put_init: "0 < m \<Longrightarrow> hashtable_get (the (hashtable_put (hashtable_init m) k v)) k = Some v"
  using hashtable_put_dict [of "hashtable_init m" k v] by (auto simp: ht_dict_init)

definition udp_sender :: net where
  "udp_sender = peer_net\<lparr>arp_cache := the (hashtable_put (hashtable_init 10) (unat LOCAL_IP) (dev_mac empty_net))\<rparr>"

definition udp_receiver :: net where
  "udp_receiver = empty_net\<lparr>
     udp_desc_of := (udp_desc_of empty_net)\<lparr>udp_conn_map := the (hashtable_put (hashtable_init 20) (unat (53 :: u16)) 1)\<rparr>,
     sockets := [1 \<mapsto> \<lparr>sk_process_context = 0, sk_udp_conn_desc = 2, sk_tcp_conn_desc = 0, sk_type = 2, sd = 1\<rparr>],
     udp_conns := [2 \<mapsto> \<lparr>u_src_port = 53, u_dst_port = 0, u_dst_ip = 0, u_src_ip = LOCAL_IP, u_rx_queue = []\<rparr>],
     procs := [1 \<mapsto> \<lparr>socket_desc = the (hashtable_put (hashtable_init 10) 1 1), next_sd = 1, sig_num = 0, icmp_pending_req = 0\<rparr>]\<rparr>"

lemma udp_sender_ready:
  "hashtable_get (arp_cache udp_sender) (unat (next_hop udp_sender LOCAL_IP)) = Some (dev_mac empty_net)"
  "tx_queue udp_sender = sckt_buf_desc_init"
proof -
  have "next_hop udp_sender LOCAL_IP = LOCAL_IP"
    by (simp add: next_hop_def udp_sender_def peer_net_def LOCAL_IP_def LOCAL_NETMASK_def)
  then show "hashtable_get (arp_cache udp_sender) (unat (next_hop udp_sender LOCAL_IP)) = Some (dev_mac empty_net)"
    by (simp add: udp_sender_def get_put_init)
qed (simp add: udp_sender_def peer_net_def empty_net_def)

lemma udp_receiver_ready:
  "udp_endpoint udp_receiver 1 53" "rx_queue udp_receiver = sckt_buf_desc_init" "ht_dict (arp_cache udp_receiver)"
proof -
  have "hashtable_get (the (hashtable_put (hashtable_init 20) (unat (53 :: u16)) 1)) (unat (53 :: u16)) = Some (1 :: nat)"
    "hashtable_get (the (hashtable_put (hashtable_init 10) 1 1)) 1 = Some (1 :: nat)"
    by (rule get_put_init, simp)+
  then show "udp_endpoint udp_receiver 1 53"
    by (simp add: udp_endpoint_def udp_receiver_def) (simp add: empty_net_def)
qed (simp_all add: udp_receiver_def ht_dict_init, simp add: empty_net_def)


end
