(* ===== verification/Process.thy ===== *)
theory Process
  imports Hashtable Dllist
begin

text \<open>
  The process descriptor of \<^verbatim>\<open>src/include/scheduler/process.h\<close> and the memory regions of
  \<^verbatim>\<open>src/memory_region/mem_regs.c\<close>. Pointers are addresses, \<open>0\<close> for \<^verbatim>\<open>NULL\<close>.
\<close>

section \<open>Processes\<close>

datatype proc_status = RUNNING | SLEEPING | EXITING

definition KERNEL_THREAD :: u32 where "KERNEL_THREAD = 0"
definition USERSPACE_PROCESS :: u32 where "USERSPACE_PROCESS = 1"
definition SIGINT :: u8 where "SIGINT = 2"
definition SIGCHLD :: u8 where "SIGCHLD = 17"

record processor_reg =
  eax :: u32
  ebx :: u32
  ecx :: u32
  edx :: u32
  esi :: u32
  edi :: u32
  esp :: u32
  ds :: u32
  es :: u32

text \<open>
  The tables \<open>file_desc\<close> and \<open>socket_desc\<close> and the ELF descriptor are reached by pointer.
\<close>

record process_context =
  processor_reg :: processor_reg
  pid :: u32
  pgid :: u32
  parent :: addr
  tick :: u32
  console_desc :: addr
  process_type :: u32
  phy_space_size :: u32
  page_dir :: addr
  sleep_time :: "32 word"
  assigned_sleep_time :: "32 word"
  static_priority :: u32
  curr_sched_queue_index :: nat
  proc_status :: proc_status
  root_dir_inode_number :: u32
  current_dir_inode_number :: u32
  next_fd :: u32
  file_desc :: addr
  phy_kernel_stack :: u32
  process_mem_reg :: addr
  heap_mem_reg :: addr
  ustack_mem_reg :: addr
  elf_desc :: addr
  socket_desc :: addr
  next_sd :: u32
  sig_num :: u8
  icmp_pending_req :: u32
  sleep_wait_queue_ref :: addr
  pgid_list_ref :: addr

section \<open>Memory regions\<close>

record mem_reg =
  start_addr :: u32
  end_addr :: u32

definition sizeof_mem_reg :: nat where "sizeof_mem_reg = 8"

type_synonym mem_regs = "addr \<rightharpoonup> mem_reg"

definition create_mem_reg :: "u32 \<Rightarrow> u32 \<Rightarrow> mem_regs \<times> kmem \<Rightarrow> (addr \<times> mem_regs \<times> kmem) option" where
  "create_mem_reg start stop s =
     (case s of (regs, m) \<Rightarrow>
        do { (r, m) \<leftarrow> kmalloc sizeof_mem_reg m;
             Some (r, regs(r \<mapsto> \<lparr>start_addr = start, end_addr = stop\<rparr>), m) })"

definition delete_mem_reg :: "addr \<Rightarrow> mem_regs \<times> kmem \<Rightarrow> (mem_regs \<times> kmem) option" where
  "delete_mem_reg r s = (case s of (regs, m) \<Rightarrow> do { m \<leftarrow> kfree r m; Some (regs(r := None), m) })"

text \<open>\<^verbatim>\<open>CHECK_MEM_REG\<close>: the region is dereferenced, both ends belong to it.\<close>

definition CHECK_MEM_REG :: "u32 \<Rightarrow> addr \<Rightarrow> mem_regs \<Rightarrow> bool option" where
  "CHECK_MEM_REG fault_addr r regs =
     do { g \<leftarrow> regs r; Some (start_addr g \<le> fault_addr \<and> fault_addr \<le> end_addr g) }"

end
