(* ===== verification/Loops.thy ===== *)
theory Loops
  imports Prelude
begin

text \<open>
  The counting loops of the kernel. \<open>for_each f xs s\<close> runs the body \<open>f\<close> on the elements of
  \<open>xs\<close> in turn, threading the state \<open>s\<close>; the C loop \<^verbatim>\<open>for (i=a;i<b;i++)\<close> is \<open>for_each f [a..<b]\<close>.
  The rules reduce a loop to one step of its body.
\<close>

primrec for_each :: "('a \<Rightarrow> 's \<Rightarrow> 's option) \<Rightarrow> 'a list \<Rightarrow> 's \<Rightarrow> 's option" where
  "for_each f [] s = Some s"
| "for_each f (x # xs) s = do { t \<leftarrow> f x s; for_each f xs t }"

lemma for_each_append: "for_each f (xs @ ys) s = do { t \<leftarrow> for_each f xs s; for_each f ys t }"
  by (induction xs arbitrary: s) (simp_all add: bind_assoc)

lemma for_each_cong [fundef_cong]:
  assumes "xs = ys" and "s = t" and "\<And>x u. x \<in> set ys \<Longrightarrow> f x u = g x u"
  shows "for_each f xs s = for_each g ys t"
proof -
  have "for_each f ys t = for_each g ys t" using assms(3) by (induction ys arbitrary: t) auto
  then show ?thesis using assms(1,2) by simp
qed

text \<open>Total correctness from an invariant indexed by the number of steps done.\<close>

lemma for_each_runs:
  assumes "P 0 s" and "\<And>k s. k < length xs \<Longrightarrow> P k s \<Longrightarrow> \<exists>t. f (xs ! k) s = Some t \<and> P (Suc k) t"
  shows "\<exists>t. for_each f xs s = Some t \<and> P (length xs) t"
  using assms
proof (induction xs arbitrary: P s)
  case (Cons x xs)
  obtain t where t: "f x s = Some t" "P (Suc 0) t" using Cons.prems(2) [of 0 s] Cons.prems(1) by auto
  have "\<exists>u. for_each f xs t = Some u \<and> P (Suc (length xs)) u"
    using Cons.IH [of "\<lambda>k. P (Suc k)" t] t(2) Cons.prems(2) by force
  then show ?case using t(1) by simp
qed simp

lemma for_upto_runs:
  assumes "P a s" and "a \<le> b" and "\<And>i s. a \<le> i \<Longrightarrow> i < b \<Longrightarrow> P i s \<Longrightarrow> \<exists>t. f i s = Some t \<and> P (Suc i) t"
  shows "\<exists>t. for_each f [a..<b] s = Some t \<and> P b t"
  using for_each_runs [of "\<lambda>k. P (a + k)" s "[a..<b]" f] assms by force

text \<open>Partial correctness: what every step keeps, the loop keeps.\<close>

lemma for_each_keeps:
  assumes "for_each f xs s = Some t" and "P s" and "\<And>x s t. x \<in> set xs \<Longrightarrow> P s \<Longrightarrow> f x s = Some t \<Longrightarrow> P t"
  shows "P t"
  using assms
proof (induction xs arbitrary: s)
  case (Cons x xs)
  obtain u where u: "f x s = Some u" "for_each f xs u = Some t" using Cons.prems(1) by auto
  then show ?case using Cons.IH [OF u(2)] Cons.prems(2,3) by (meson list.set_intros)
qed simp

text \<open>A loop whose body only stores at the addresses of an injective range.\<close>

lemma for_each_store:
  assumes "\<And>x s. x \<in> set xs \<Longrightarrow> f x s = Some (upd x s)"
  shows "for_each f xs s = Some (fold upd xs s)"
  using assms by (induction xs arbitrary: s) auto

end
