(* ===== verification/Vm.thy ===== *)
theory Vm
  imports Process Buddy Loops "HOL-Library.Signed_Division"
begin

text \<open>
  Virtual memory (\<^verbatim>\<open>src/virtual_memory/vm.c\<close>, \<^verbatim>\<open>src/include/virtual_memory/vm.h\<close>): page
  directories and page tables in the kernel's memory, the page allocator that provides
  them, copy on write between a process and its child, and the page fault handler.

  \<open>ram\<close> holds the 32-bit words of the memory the kernel sees in its window from
  \<open>VIRT_MEM_START_ADDR\<close> on, by kernel address; an access outside the window or off a word
  boundary is \<open>None\<close>. \<open>walk\<close> is the translation the processor makes. Interrupt masking
  (\<^verbatim>\<open>SAVE_IF_STATUS\<close>, \<^verbatim>\<open>CLI\<close>, \<^verbatim>\<open>RESTORE_IF_STATUS\<close>) and the translation buffer are not part of the
  state; \<open>cr3\<close> is what \<^verbatim>\<open>SWITCH_PAGE_DIR\<close> loads.
\<close>

unbundle bit_operations_syntax

section \<open>State and memory access\<close>

record vm =
  ram :: "addr \<Rightarrow> u32"
  buddy :: buddy_desc
  regs :: mem_regs
  master_page_dir :: addr
  cr3 :: u32

definition KERNEL_STACK :: u32 where "KERNEL_STACK = 0xBFFFF000"
definition KERNEL_STACK_SIZE :: u32 where "KERNEL_STACK_SIZE = 0x2000"
definition PAGE_WRITE :: u8 where "PAGE_WRITE = 2"
definition PAGE_IN_MEMORY :: u8 where "PAGE_IN_MEMORY = 1"
definition PAGE_OUT_MEMORY :: u8 where "PAGE_OUT_MEMORY = 0"
definition USER :: u8 where "USER = 4"

definition FROM_VIRT_TO_PHY :: "u32 \<Rightarrow> u32" where
  "FROM_VIRT_TO_PHY a = a - 0xC0000000 + 0x100000"

definition FROM_PHY_TO_VIRT :: "u32 \<Rightarrow> u32" where
  "FROM_PHY_TO_VIRT a = a + 0xC0000000 - 0x100000"

definition ALIGN_4K :: "u32 \<Rightarrow> u32" where
  "ALIGN_4K a = a AND 0xFFFFF000"

definition BLOCK_INDEX_FROM_PHY :: "u32 \<Rightarrow> nat" where
  "BLOCK_INDEX_FROM_PHY mem_addr =
     unat (mem_addr - of_nat BUDDY_START_ADDR - of_nat PHY_MEM_START_ADDR) div PAGE_SIZE"

definition kaddr :: "addr \<Rightarrow> bool" where
  "kaddr a \<longleftrightarrow> a mod 4 = 0 \<and> VIRT_MEM_START_ADDR \<le> a \<and> a < VIRT_MEM_START_ADDR + PHY_MEM_SIZE"

definition ld :: "addr \<Rightarrow> vm \<Rightarrow> u32 option" where
  "ld a s = (if kaddr a then Some (ram s a) else None)"

definition st :: "addr \<Rightarrow> u32 \<Rightarrow> vm \<Rightarrow> vm option" where
  "st a v s = (if kaddr a then Some (s\<lparr>ram := (ram s)(a := v)\<rparr>) else None)"

text \<open>The page table a directory entry points to.\<close>

definition table_of :: "u32 \<Rightarrow> addr" where
  "table_of e = unat (ALIGN_4K (FROM_PHY_TO_VIRT e))"

definition SWITCH_PAGE_DIR :: "u32 \<Rightarrow> vm \<Rightarrow> vm" where
  "SWITCH_PAGE_DIR d s = s\<lparr>cr3 := d\<rparr>"

definition alloc_page :: "nat \<Rightarrow> vm \<Rightarrow> (addr \<times> vm) option" where
  "alloc_page mem_size s = do { (a, b) \<leftarrow> buddy_alloc_page mem_size (buddy s); Some (a, s\<lparr>buddy := b\<rparr>) }"

definition free_page :: "addr \<Rightarrow> vm \<Rightarrow> vm option" where
  "free_page a s = do { b \<leftarrow> buddy_free_page a (buddy s); Some (s\<lparr>buddy := b\<rparr>) }"

definition buddy_clean_mem :: "addr \<Rightarrow> vm \<Rightarrow> vm option" where
  "buddy_clean_mem page_addr = for_each (\<lambda>i. st (page_addr + 4 * i) 0) [0..<PAGE_SIZE div 4]"

text \<open>
  The reference counts are C \<^verbatim>\<open>short\<close>s, kept as their 16-bit pattern. Comparing with the
  \<^verbatim>\<open>int\<close> \<open>1\<close> reads them as signed.
\<close>

definition get_count :: "nat \<Rightarrow> vm \<Rightarrow> nat option" where
  "get_count i s = (if i < NUM_PAGES then Some (count (buddy s) i) else None)"

definition put_count :: "nat \<Rightarrow> nat \<Rightarrow> vm \<Rightarrow> vm option" where
  "put_count i v s = do { b \<leftarrow> set_count i (v mod 65536) (buddy s); Some (s\<lparr>buddy := b\<rparr>) }"

definition count_inc :: "nat \<Rightarrow> vm \<Rightarrow> vm option" where
  "count_inc i s = do { c \<leftarrow> get_count i s; put_count i (c + 1) s }"

definition count_dec :: "nat \<Rightarrow> vm \<Rightarrow> vm option" where
  "count_dec i s = do { c \<leftarrow> get_count i s; put_count i (c + 65535) s }"

section \<open>Mapping\<close>

definition page_count_of :: "u32 \<Rightarrow> u32" where
  "page_count_of mem_size =
     word_of_int (sint mem_size sdiv 4096) + (if sint mem_size smod 4096 > 0 then 1 else 0)"

definition pd_count_of :: "u32 \<Rightarrow> u32" where
  "pd_count_of page_count = page_count div 1024 + (if page_count mod 1024 > 0 then 1 else 0)"

definition first_pt_of :: "u32 \<Rightarrow> nat" where
  "first_pt_of a = unat (drop_bit 12 (a AND 0x3FFFFF))"

text \<open>The page table of slot \<open>i\<close>, allocated and cleared when the slot is empty.\<close>

definition get_page_table :: "addr \<Rightarrow> nat \<Rightarrow> vm \<Rightarrow> (addr \<times> vm) option" where
  "get_page_table dir i s =
     do { e \<leftarrow> ld (dir + 4 * i) s;
          if e = 0
          then do { (page_table, s) \<leftarrow> alloc_page 0x1000 s;
                    s \<leftarrow> buddy_clean_mem page_table s;
                    s \<leftarrow> st (dir + 4 * i) (FROM_VIRT_TO_PHY (of_nat page_table) OR 7) s;
                    Some (page_table, s) }
          else Some (table_of e, s) }"

text \<open>The slots of the table used by the \<open>i\<close>-th directory entry.\<close>

definition map_range :: "nat \<Rightarrow> nat \<Rightarrow> nat \<Rightarrow> nat \<Rightarrow> nat \<Rightarrow> nat \<Rightarrow> nat \<times> nat" where
  "map_range i first_pd pd_count last_pd first_pt last_pt =
     (if i = first_pd \<and> pd_count > 1 then (first_pt, 1024)
      else if i = first_pd \<and> pd_count = 1 then (first_pt, last_pt + 1)
      else if i = last_pd - 1 then (0, last_pt + 1)
      else (0, 1024))"

definition map_pages :: "addr \<Rightarrow> u32 \<Rightarrow> nat \<Rightarrow> nat \<Rightarrow> u32 \<times> vm \<Rightarrow> (u32 \<times> vm) option" where
  "map_pages page_table flags start stop =
     for_each (\<lambda>j (phy, s). do { let phy = (phy + 4096) OR flags;
                                 s \<leftarrow> st (page_table + 4 * j) phy s;
                                 Some (phy, s) }) [start..<stop]"

definition map_vm_mem :: "addr \<Rightarrow> u32 \<Rightarrow> u32 \<Rightarrow> u32 \<Rightarrow> u32 \<Rightarrow> vm \<Rightarrow> vm option" where
  "map_vm_mem dir vir_mem_addr phy_mem_addr mem_size flags s =
     do { let page_count = page_count_of mem_size;
          let pd_count = unat (pd_count_of page_count);
          let first_pd = unat (drop_bit 22 vir_mem_addr);
          let first_pt = first_pt_of vir_mem_addr;
          let last_pt = first_pt_of (vir_mem_addr + mem_size - 1);
          let last_pd = pd_count + first_pd;
          (phy, s) \<leftarrow> for_each (\<lambda>i (phy, s).
              do { (page_table, s) \<leftarrow> get_page_table dir i s;
                   let (start, stop) = map_range i first_pd pd_count last_pd first_pt last_pt;
                   map_pages page_table flags start stop (phy, s) })
            [first_pd..<last_pd] (phy_mem_addr - 4096, s);
          Some s }"

text \<open>\<open>umap_vm_mem\<close> compares \<open>tot_pd\<close>, not the number of slots, with one.\<close>

definition umap_range :: "nat \<Rightarrow> nat \<Rightarrow> nat \<Rightarrow> nat \<Rightarrow> nat \<Rightarrow> nat \<times> nat" where
  "umap_range i first_pd tot_pd first_pt last_pt =
     (if i = first_pd \<and> tot_pd > 1 then (first_pt, 1024)
      else if i = first_pd \<and> tot_pd = 1 then (first_pt, last_pt + 1)
      else if i = tot_pd - 1 then (0, last_pt + 1)
      else (0, 1024))"

definition umap_vm_mem :: "addr \<Rightarrow> u32 \<Rightarrow> u32 \<Rightarrow> bool \<Rightarrow> vm \<Rightarrow> vm option" where
  "umap_vm_mem dir virt_mem_addr mem_size flush s =
     (let page_count = mem_size div 4096 + (if mem_size mod 4096 > 0 then 1 else 0);
          pd_count = unat (pd_count_of page_count);
          first_pd = unat (drop_bit 22 virt_mem_addr);
          first_pt = first_pt_of virt_mem_addr;
          last_pt = first_pt_of (virt_mem_addr + mem_size - 1);
          tot_pd = pd_count + first_pd in
      for_each (\<lambda>i s.
          do { e \<leftarrow> ld (dir + 4 * i) s;
               let (start, stop) = umap_range i first_pd tot_pd first_pt last_pt;
               if (start = 0 \<and> stop = 1024) \<or> flush
               then do { s \<leftarrow> free_page (table_of e) s; st (dir + 4 * i) 0 s }
               else Some s })
        [first_pd..<tot_pd] s)"

section \<open>Address spaces\<close>

text \<open>The gate of the fault handler in the interrupt table is not part of the state.\<close>

definition init_virtual_memory :: "vm \<Rightarrow> (addr \<times> vm) option" where
  "init_virtual_memory s =
     do { (new_page_dir, s) \<leftarrow> alloc_page 0x1000 s;
          s \<leftarrow> buddy_clean_mem new_page_dir s;
          s \<leftarrow> map_vm_mem new_page_dir 0 0 0x100000 3 s;
          s \<leftarrow> map_vm_mem new_page_dir (of_nat VIRT_MEM_START_ADDR) (of_nat PHY_MEM_START_ADDR)
                 (of_nat PHY_MEM_SIZE) 3 s;
          Some (new_page_dir, s) }"

text \<open>\<^verbatim>\<open>dst[i] = src[i]\<close>\<close>

definition copy_entry :: "addr \<Rightarrow> addr \<Rightarrow> nat \<Rightarrow> vm \<Rightarrow> vm option" where
  "copy_entry dst src i s = do { v \<leftarrow> ld (src + 4 * i) s; st (dst + 4 * i) v s }"

text \<open>\<open>cur_dir\<close> is the page directory of the current process.\<close>

definition init_vm_process :: "process_context \<Rightarrow> addr \<Rightarrow> vm \<Rightarrow> vm option" where
  "init_vm_process p cur_dir s =
     do { let dir = page_dir p;
          e \<leftarrow> ld (master_page_dir s) s;
          let master_page_table = table_of e;
          (page_table, s) \<leftarrow> alloc_page 0x1000 s;
          s \<leftarrow> buddy_clean_mem page_table s;
          s \<leftarrow> st dir (FROM_VIRT_TO_PHY (of_nat page_table) OR 7) s;
          s \<leftarrow> for_each (copy_entry page_table master_page_table) [0..<256] s;
          s \<leftarrow> for_each (\<lambda>i. st (page_table + 4 * i) 0) [256..<1024] s;
          s \<leftarrow> for_each (\<lambda>i. st (dir + 4 * i) 0) [1..<768] s;
          s \<leftarrow> for_each (\<lambda>i s. copy_entry dir (master_page_dir s) i s) [768..<1024] s;
          s \<leftarrow> map_vm_mem dir (KERNEL_STACK - KERNEL_STACK_SIZE) (phy_kernel_stack p) KERNEL_STACK_SIZE 3 s;
          Some (SWITCH_PAGE_DIR (FROM_VIRT_TO_PHY (of_nat cur_dir)) s) }"

text \<open>Sharing of one page: read-only in both tables, and counted when it exists.\<close>

definition share_page :: "addr \<Rightarrow> addr \<Rightarrow> nat \<Rightarrow> vm \<Rightarrow> vm option" where
  "share_page parent_page_table child_page_table j s =
     do { v \<leftarrow> ld (parent_page_table + 4 * j) s;
          s \<leftarrow> st (parent_page_table + 4 * j) (v AND 0xFFFFFFFD) s;
          v \<leftarrow> ld (parent_page_table + 4 * j) s;
          s \<leftarrow> st (child_page_table + 4 * j) v s;
          c \<leftarrow> ld (child_page_table + 4 * j) s;
          if c \<noteq> 0
          then do { v \<leftarrow> ld (parent_page_table + 4 * j) s;
                    count_inc (BLOCK_INDEX_FROM_PHY (ALIGN_4K v)) s }
          else Some s }"

definition clone_table :: "addr \<Rightarrow> addr \<Rightarrow> nat \<Rightarrow> vm \<Rightarrow> vm option" where
  "clone_table parent_page_dir child_page_dir i s =
     do { e \<leftarrow> ld (parent_page_dir + 4 * i) s;
          if ALIGN_4K e \<noteq> 0
          then do { (child_page_table, s) \<leftarrow>
                      (if i \<noteq> 767
                       then do { (t, s) \<leftarrow> alloc_page PAGE_SIZE s; s \<leftarrow> buddy_clean_mem t s; Some (t, s) }
                       else do { c \<leftarrow> ld (child_page_dir + 4 * 767) s; Some (table_of c, s) });
                    e \<leftarrow> ld (parent_page_dir + 4 * i) s;
                    let parent_page_table = table_of e;
                    s \<leftarrow> for_each (\<lambda>j s. if i \<noteq> 767 \<or> (i = 767 \<and> j \<noteq> 1021 \<and> j \<noteq> 1022)
                                       then share_page parent_page_table child_page_table j s
                                       else Some s) [0..<1024] s;
                    if i \<noteq> 767
                    then st (child_page_dir + 4 * i) (FROM_VIRT_TO_PHY (of_nat child_page_table) OR 7) s
                    else do { e \<leftarrow> ld (parent_page_dir + 4 * i) s; st (parent_page_dir + 4 * i) (e OR 7) s } }
          else if i \<noteq> 767 then st (child_page_dir + 4 * i) 0 s
          else Some s }"

definition clone_vm_process :: "addr \<Rightarrow> u32 \<Rightarrow> u32 \<Rightarrow> addr \<Rightarrow> vm \<Rightarrow> (addr \<times> vm) option" where
  "clone_vm_process parent_page_dir ptype kernel_stack_addr cur_dir s =
     do { (child_page_dir, s) \<leftarrow> alloc_page PAGE_SIZE s;
          s \<leftarrow> buddy_clean_mem child_page_dir s;
          (child_page_table, s) \<leftarrow> alloc_page 0x1000 s;
          s \<leftarrow> buddy_clean_mem child_page_table s;
          s \<leftarrow> st child_page_dir (FROM_VIRT_TO_PHY (of_nat child_page_table) OR 7) s;
          e \<leftarrow> ld parent_page_dir s;
          s \<leftarrow> for_each (copy_entry child_page_table (table_of e)) [0..<256] s;
          s \<leftarrow> map_vm_mem child_page_dir (KERNEL_STACK - KERNEL_STACK_SIZE) kernel_stack_addr KERNEL_STACK_SIZE 3 s;
          s \<leftarrow> (if ptype = USERSPACE_PROCESS
               then do { e \<leftarrow> ld parent_page_dir s;
                         c \<leftarrow> ld child_page_dir s;
                         s \<leftarrow> for_each (share_page (table_of e) (table_of c)) [256..<1024] s;
                         for_each (clone_table parent_page_dir child_page_dir) [1..<768] s }
               else Some s);
          s \<leftarrow> for_each (copy_entry child_page_dir parent_page_dir) [768..<1024] s;
          Some (child_page_dir, SWITCH_PAGE_DIR (FROM_VIRT_TO_PHY (of_nat cur_dir)) s) }"

text \<open>
  Release of one page of a table: the last user frees it, any other user is discounted.
  The first loop of \<open>free_vm_process_user_space\<close> also reads the count of the absent page
  into a variable it never uses; that read is left out.
\<close>

definition drop_user_page :: "addr \<Rightarrow> nat \<Rightarrow> vm \<Rightarrow> vm option" where
  "drop_user_page page_table j s =
     do { v \<leftarrow> ld (page_table + 4 * j) s;
          if v = 0 then Some s
          else do { let i = BLOCK_INDEX_FROM_PHY (ALIGN_4K v);
                    c \<leftarrow> get_count i s;
                    s \<leftarrow> (if c = 1
                         then do { s \<leftarrow> free_page (unat (ALIGN_4K (FROM_PHY_TO_VIRT v))) s; put_count i 0 s }
                         else count_dec i s);
                    st (page_table + 4 * j) 0 s } }"

definition free_vm_process_user_space :: "process_context \<Rightarrow> vm \<Rightarrow> vm option" where
  "free_vm_process_user_space p s =
     do { let dir = page_dir p;
          e \<leftarrow> ld dir s;
          s \<leftarrow> for_each (\<lambda>i s. do { s \<leftarrow> drop_user_page (table_of e) i s; st (table_of e + 4 * i) 0 s }) [256..<1024] s;
          for_each (\<lambda>i s.
              do { e \<leftarrow> ld (dir + 4 * i) s;
                   if e = 0 then Some s
                   else do { let page_table = table_of e;
                             s \<leftarrow> for_each (\<lambda>j s. if i \<noteq> 767 \<or> (i = 767 \<and> j \<noteq> 1021 \<and> j \<noteq> 1022)
                                                then drop_user_page page_table j s else Some s) [0..<1024] s;
                             if i \<noteq> 767
                             then do { s \<leftarrow> free_page page_table s; st (dir + 4 * i) 0 s }
                             else Some s } }) [1..<768] s }"

definition free_vm_process :: "process_context \<Rightarrow> vm \<Rightarrow> vm option" where
  "free_vm_process p s =
     do { s \<leftarrow> (if process_type p = USERSPACE_PROCESS then free_vm_process_user_space p s else Some s);
          s \<leftarrow> umap_vm_mem (page_dir p) 0 0x100000 True s;
          s \<leftarrow> umap_vm_mem (page_dir p) KERNEL_STACK KERNEL_STACK_SIZE True s;
          free_page (page_dir p) s }"

section \<open>Page faults\<close>

text \<open>
  The entry the processor finds for virtual page \<open>v\<close> (address \<open>4096 * v\<close>) under a directory,
  \<open>0\<close> when the directory has no table for it.
\<close>

definition walk :: "addr \<Rightarrow> nat \<Rightarrow> vm \<Rightarrow> u32" where
  "walk dir v s =
     (let e = ram s (dir + 4 * (v div 1024)) in
      if e AND 1 = 0 then 0 else ram s (table_of e + 4 * (v mod 1024)))"

text \<open>\<^verbatim>\<open>kmemcpy\<close> of the page at a user address, read through the directory the processor uses.\<close>

definition kmemcpy_page :: "addr \<Rightarrow> u32 \<Rightarrow> vm \<Rightarrow> vm option" where
  "kmemcpy_page dest src s =
     (let e = walk (unat (FROM_PHY_TO_VIRT (cr3 s))) (unat src div 4096) s in
      if e AND 1 = 0 then None
      else for_each (\<lambda>i s. do { v \<leftarrow> ld (table_of e + 4 * i) s; st (dest + 4 * i) v s }) [0..<1024] s)"

text \<open>A fresh page at an address of the process, counted.\<close>

definition map_new_page :: "process_context \<Rightarrow> u32 \<Rightarrow> vm \<Rightarrow> (addr \<times> vm) option" where
  "map_new_page p aligned_fault_addr s =
     do { (page_addr, s) \<leftarrow> alloc_page PAGE_SIZE s;
          s \<leftarrow> map_vm_mem (page_dir p) aligned_fault_addr (FROM_VIRT_TO_PHY (of_nat page_addr)) 4096 7 s;
          s \<leftarrow> count_inc (BLOCK_INDEX_FROM_PHY (FROM_VIRT_TO_PHY (of_nat page_addr))) s;
          Some (page_addr, s) }"

text \<open>A write to a present page: a shared page is copied, any page becomes writable.\<close>

definition copy_on_write :: "process_context \<Rightarrow> u32 \<Rightarrow> vm \<Rightarrow> vm option" where
  "copy_on_write p aligned_fault_addr s =
     do { let pd_num = unat (drop_bit 22 aligned_fault_addr);
          let pt_num = first_pt_of aligned_fault_addr;
          e \<leftarrow> ld (page_dir p + 4 * pd_num) s;
          let page_table = table_of e;
          v \<leftarrow> ld (page_table + 4 * pt_num) s;
          let phy_fault_addr = ALIGN_4K v;
          s \<leftarrow> st (page_table + 4 * pt_num) (v OR 7) s;
          c \<leftarrow> get_count (BLOCK_INDEX_FROM_PHY phy_fault_addr) s;
          if 1 < c \<and> c < 32768
          then do { (page_addr, s) \<leftarrow> alloc_page PAGE_SIZE s;
                    s \<leftarrow> kmemcpy_page page_addr aligned_fault_addr s;
                    s \<leftarrow> map_vm_mem (page_dir p) aligned_fault_addr (FROM_VIRT_TO_PHY (of_nat page_addr)) 4096 7 s;
                    s \<leftarrow> count_dec (BLOCK_INDEX_FROM_PHY phy_fault_addr) s;
                    count_inc (BLOCK_INDEX_FROM_PHY (FROM_VIRT_TO_PHY (of_nat page_addr))) s }
          else Some s }"

text \<open>
  The handler up to its return. \<open>user_esp\<close> is the stack pointer of the interrupted code,
  read from the frame; the loader that fills a page from the executable is an argument.
  \<open>on_exit_action\<close> is zero on every path, so the handler never reschedules.
\<close>

definition page_fault_handler ::
    "(addr \<Rightarrow> u32 \<Rightarrow> addr \<Rightarrow> vm \<Rightarrow> vm option) \<Rightarrow> process_context \<Rightarrow> u32 \<Rightarrow> u8 \<Rightarrow> u32 \<Rightarrow> vm \<Rightarrow> vm option" where
  "page_fault_handler elf_loader_read p fault_addr fault_code user_esp s =
     do { let aligned_fault_addr = fault_addr AND NOT 0xFFF;
          in_process \<leftarrow> CHECK_MEM_REG fault_addr (process_mem_reg p) (regs s);
          in_heap \<leftarrow> (if in_process then Some False else CHECK_MEM_REG fault_addr (heap_mem_reg p) (regs s));
          in_stack \<leftarrow> (if in_process \<or> in_heap then Some False
                      else CHECK_MEM_REG fault_addr (ustack_mem_reg p) (regs s));
          s \<leftarrow>
            (if in_process \<or> in_heap \<or> in_stack then
               (if fault_code AND 1 = PAGE_OUT_MEMORY \<and> in_process
                then do { (page_addr, s) \<leftarrow> map_new_page p aligned_fault_addr s;
                          elf_loader_read (elf_desc p) fault_addr page_addr s }
                else if fault_code AND 1 = PAGE_OUT_MEMORY
                then do { (_, s) \<leftarrow> map_new_page p aligned_fault_addr s; Some s }
                else if fault_code AND 3 = PAGE_IN_MEMORY OR PAGE_WRITE
                then copy_on_write p aligned_fault_addr s
                else Some s)
             else if fault_code AND 4 = USER \<and> user_esp - 32 \<le> fault_addr
             then do { r \<leftarrow> regs s (ustack_mem_reg p);
                       let s = s\<lparr>regs := (regs s)(ustack_mem_reg p \<mapsto> r\<lparr>start_addr := aligned_fault_addr\<rparr>)\<rparr>;
                       (_, s) \<leftarrow> map_new_page p aligned_fault_addr s; Some s }
             else do { let s = s\<lparr>buddy := (buddy s)\<lparr>bmem := panic (bmem (buddy s))\<rparr>\<rparr>;
                       (page_addr, s) \<leftarrow> alloc_page PAGE_SIZE s;
                       map_vm_mem (page_dir p) aligned_fault_addr (FROM_VIRT_TO_PHY (of_nat page_addr)) 4096 7 s });
          Some (SWITCH_PAGE_DIR (FROM_VIRT_TO_PHY (of_nat (page_dir p))) s) }"

end
