(* ===== verification/Vm_Map.thy ===== *)
theory Vm_Map
  imports Vm
begin

text \<open>
  The mapping functions implement updates of the address space: the entry the processor finds
  for a page under a directory is changed for the pages of the region and for no other page, and
  no memory outside the directory, its tables and newly allocated pages is written.
\<close>

unbundle bit_operations_syntax

section \<open>Words and pages\<close>

definition page_of :: "nat \<Rightarrow> addr" where
  "page_of a = a + BUDDY_START_ADDR + VIRT_MEM_START_ADDR"

definition is_page :: "(nat \<times> nat) set \<Rightarrow> addr \<Rightarrow> bool" where
  "is_page A p \<longleftrightarrow> (\<exists>a. (a, 0) \<in> A \<and> p = page_of a)"

lemma and_FFF: "x AND 0xFFF = take_bit 12 x" for x :: u32
  by (simp add: take_bit_eq_mask mask_eq_exp_minus_1)

lemma unat_take12: "unat (take_bit 12 x) = unat x mod 4096" for x :: u32
proof -
  have "unat (take_bit 12 x) = take_bit 12 (unat x)" by (rule unsigned_take_bit_eq)
  also have "\<dots> = unat x mod 4096" by (simp add: take_bit_eq_mod)
  finally show ?thesis .
qed

lemma align_split: "ALIGN_4K x + take_bit 12 x = x"
proof -
  have "ALIGN_4K x + take_bit 12 x = (x AND 0xFFFFF000) OR (x AND 0xFFF)"
    unfolding ALIGN_4K_def and_FFF [symmetric]
    by (rule disjunctive_add_eq_or) (simp add: and.assoc and.left_commute)
  also have "\<dots> = x AND (0xFFFFF000 OR 0xFFF)" by (simp only: bit.conj_disj_distrib)
  also have "0xFFFFF000 OR 0xFFF = (- 1 :: u32)" by simp
  finally show ?thesis by (simp only: and.right_neutral)
qed

lemma ALIGN_4K_eq: "ALIGN_4K x = x - take_bit 12 x"
  using align_split [of x] by (metis add_diff_cancel_right')

lemma unat_ALIGN_4K: "unat (ALIGN_4K x) = unat x - unat x mod 4096"
proof -
  have "take_bit 12 x \<le> x" by (simp add: word_le_nat_alt unat_take12)
  then show ?thesis by (simp add: ALIGN_4K_eq unat_sub unat_take12)
qed

text \<open>Page-aligned words.\<close>

definition al :: "u32 \<Rightarrow> bool" where "al x \<longleftrightarrow> take_bit 12 x = 0"

lemma al_unat: "al x \<longleftrightarrow> 4096 dvd unat x"
  by (metis al_def unat_take12 dvd_eq_mod_eq_0 unat_0 word_unat_eq_iff)

lemma al_add [intro]: "al x \<Longrightarrow> al y \<Longrightarrow> al (x + y)"
  by (simp add: al_unat unat_word_ariths dvd_mod)

lemma al_4096 [simp]: "al 4096" "al (of_nat (4096 * n))" "al 0"
  by (simp_all add: al_unat unat_of_nat dvd_mod del: of_nat_mult)

lemma or_flags:
  assumes "al x" and "unat f < 4096"
  shows "x OR f = x + f" and "take_bit 12 (x OR f) = f" and "ALIGN_4K (x OR f) = x"
proof -
  have "take_bit 12 f = f" using assms(2) by (simp only: word_unat_eq_iff unat_take12 mod_less)
  then have f: "f AND 0xFFF = f" by (simp only: and_FFF)
  have "x AND f = x AND (f AND 0xFFF)" by (simp only: f)
  also have "\<dots> = (x AND 0xFFF) AND f" by (simp only: ac_simps)
  also have "\<dots> = 0" using assms(1) by (simp only: al_def and_FFF and_zero_eq zero_and_eq)
  finally have "x AND f = 0" .
  then show sum: "x OR f = x + f" by (simp only: disjunctive_add_eq_or)
  have "unat x + unat f < 2 ^ 32"
  proof -
    have "unat x < 2 ^ 20 * 4096" using unsigned_less [of x] by simp
    moreover obtain k where "unat x = 4096 * k" using assms(1) by (auto simp: al_unat)
    ultimately show ?thesis using assms(2) by simp
  qed
  then have "unat (x + f) mod 4096 = unat f"
    using assms by (auto simp: unat_word_ariths al_unat)
  then show low: "take_bit 12 (x OR f) = f" by (simp only: word_unat_eq_iff unat_take12 sum)
  then show "ALIGN_4K (x OR f) = x" unfolding ALIGN_4K_eq sum by simp
qed

section \<open>Pages of the allocator\<close>

lemma is_pageD:
  assumes "buddy_ok A b" and "is_page A p"
  shows "4096 dvd p" and "VIRT_MEM_START_ADDR + BUDDY_START_ADDR \<le> p" and "p + 4096 \<le> VIRT_MEM_START_ADDR + PHY_MEM_SIZE"
proof -
  obtain a where a: "(a, 0) \<in> A" "p = page_of a" using assms(2) by (auto simp: is_page_def)
  have b: "a + bsz 0 \<le> BUDDY_TOP" "bsz 0 dvd a" using bd_inv_bounds [OF assms(1), of a 0] a(1) by simp_all
  show "4096 dvd p" using b(2)
    by (simp add: a(2) page_of_def bsz_def PAGE_SIZE_def BUDDY_layout(1) VIRT_MEM_START_ADDR_def)
  show "VIRT_MEM_START_ADDR + BUDDY_START_ADDR \<le> p" by (simp add: a(2) page_of_def)
  show "p + 4096 \<le> VIRT_MEM_START_ADDR + PHY_MEM_SIZE"
    using b(1) by (simp add: a(2) page_of_def bsz_def PAGE_SIZE_def BUDDY_layout VIRT_MEM_START_ADDR_def PHY_MEM_SIZE_def)
qed

lemma page_kaddr:
  assumes "buddy_ok A b" and "is_page A p" and "j < 1024"
  shows "kaddr (p + 4 * j)"
  using is_pageD [OF assms(1,2)] assms(3) by (auto simp: kaddr_def VIRT_MEM_START_ADDR_def elim!: dvdE)

lemma page_al:
  assumes "buddy_ok A b" and "is_page A p"
  shows "al (of_nat p)" and "p < 2 ^ 32" and "unat (of_nat p :: u32) = p"
proof -
  show lt: "p < 2 ^ 32" using is_pageD [OF assms] by (simp add: VIRT_MEM_START_ADDR_def PHY_MEM_SIZE_def)
  then show "unat (of_nat p :: u32) = p" by (simp add: unat_of_nat)
  then show "al (of_nat p)" using is_pageD(1) [OF assms] by (simp add: al_unat)
qed

lemma al_FROM_VIRT:
  assumes "al w"
  shows "al (FROM_VIRT_TO_PHY w)"
proof -
  have "al (0x40100000 :: u32)" by (simp add: al_unat)
  moreover have "FROM_VIRT_TO_PHY w = w + (0x100000 - 0xC0000000)" unfolding FROM_VIRT_TO_PHY_def by (simp only: algebra_simps)
  moreover have "0x100000 - 0xC0000000 = (0x40100000 :: u32)" by simp
  ultimately show ?thesis using al_add [OF assms] by (simp only:)
qed

lemma table_of_entry:
  assumes "al w" and "unat f < 4096"
  shows "table_of (FROM_VIRT_TO_PHY w OR f) = unat w"
proof -
  have "FROM_PHY_TO_VIRT (FROM_VIRT_TO_PHY w OR f) = w OR f"
    unfolding or_flags(1) [OF al_FROM_VIRT [OF assms(1)] assms(2)] or_flags(1) [OF assms]
    by (simp add: FROM_VIRT_TO_PHY_def FROM_PHY_TO_VIRT_def)
  then show ?thesis using or_flags(3) [OF assms] by (simp add: table_of_def)
qed

lemma entry_present:
  assumes "al w"
  shows "(FROM_VIRT_TO_PHY w OR 7) AND 1 = 1"
  by (simp add: bit.conj_disj_distrib2)

lemma finite_blocks: "buddy_ok A b \<Longrightarrow> finite A"
proof (rule finite_subset)
  assume inv: "buddy_ok A b"
  show "A \<subseteq> {..<BUDDY_TOP} \<times> {..<NUM_LIST}"
  proof (rule subrelI)
    fix a k assume "(a, k) \<in> A"
    then show "(a, k) \<in> {..<BUDDY_TOP} \<times> {..<NUM_LIST}"
      using bd_inv_bounds(1,3) [OF inv, of a k] bsz_pos [of k] by (simp, linarith)
  qed
qed simp

lemma free_space:
  assumes inv: "buddy_ok A b" and used: "(\<Sum>bl \<in> A. bsz (snd bl)) < BUDDY_TOP"
  shows "free_blocks b \<noteq> {}"
proof
  assume none: "free_blocks b = {}"
  have t: "tiles BUDDY_TOP A" using inv none by (simp add: bd_inv_def)
  have "card (\<Union>bl \<in> A. span bl) \<le> (\<Sum>bl \<in> A. card (span bl))" using finite_blocks [OF inv] by (rule card_UN_le)
  then show False using t used by (simp add: tiles_def span_def)
qed

text \<open>Allocation resets the count of the new block only, among the blocks in use.\<close>

lemma push_drop_count:
  "push_page i a b = Some (n, b') \<Longrightarrow> count b' = count b" "drop_page n b = Some b' \<Longrightarrow> count b' = count b"
  by (auto simp: push_page_def drop_page_def split: if_splits)

lemma split_pages_count:
  assumes "split_pages l j a (bsz j) b = Some b'" and "4096 dvd a" and "4096 dvd x" and "x < a \<or> a + bsz j \<le> x"
  shows "count b' (BLOCK_INDEX x) = count b (BLOCK_INDEX x)"
  using assms
proof (induction j arbitrary: b)
  case (Suc i)
  show ?case
  proof (cases "i < l")
    case False
    then obtain n b1 b2 b3 b4 where st: "push_page i (a + bsz i) b = Some (n, b1)" "set_order (BLOCK_INDEX (a + bsz i)) i b1 = Some b2"
        "set_page_list_ref (BLOCK_INDEX (a + bsz i)) n b2 = Some b3" "set_count (BLOCK_INDEX (a + bsz i)) 0 b3 = Some b4"
        "split_pages l i a (bsz i) b4 = Some b'"
      using Suc.prems(1) by (auto simp: bsz_Suc Let_def)
    have "4096 dvd a + bsz i" using Suc.prems(2) by (simp add: bsz_def PAGE_SIZE_def)
    moreover have "x \<noteq> a + bsz i" using Suc.prems(4) bsz_pos [of i] by (auto simp: bsz_Suc)
    ultimately have "BLOCK_INDEX x \<noteq> BLOCK_INDEX (a + bsz i)"
      using Suc.prems(3) by (auto simp: BLOCK_INDEX_def PAGE_SIZE_def elim!: dvdE)
    then have "count b4 (BLOCK_INDEX x) = count b (BLOCK_INDEX x)"
      using st(2-4) push_drop_count(1) [OF st(1)] by (auto simp: set_order_def set_page_list_ref_def set_count_def split: if_splits)
    moreover have "x < a \<or> a + bsz i \<le> x" using Suc.prems(4) by (auto simp: bsz_Suc)
    ultimately show ?thesis using Suc.IH [OF st(5) Suc.prems(2,3)] by simp
  qed (use Suc.prems in auto)
qed simp

lemma alloc_count:
  assumes inv: "buddy_ok A b" and run: "buddy_alloc_page sz b = Some (p, b')"
  shows "(c, k) \<in> A \<Longrightarrow> count b' (BLOCK_INDEX c) = count b (BLOCK_INDEX c)"
    and "p = page_of a \<Longrightarrow> count b' (BLOCK_INDEX a) = 0"
proof -
  let ?l = "first_list (page_order 0 sz) b"
  have l: "?l < NUM_LIST" using run by (auto simp: buddy_alloc_page_def Let_def split: if_splits)
  obtain d b1 b2 b3 b4 where st: "?l < NUM_LIST" "cells b (snd (hd (page_list b ! ?l))) = Some d"
      "drop_page (fst (hd (page_list b ! ?l))) b = Some b1"
      "(if ?l \<noteq> page_order 0 sz then split_pages (page_order 0 sz) ?l d (PAGE_SIZE * 2 ^ ?l) b1 else Some b1) = Some b2"
      "set_order (BLOCK_INDEX d) (page_order 0 sz OR 16) b2 = Some b3"
      "set_page_list_ref (BLOCK_INDEX d) (fst (hd (page_list b ! ?l))) b3 = Some b4"
      "set_count (BLOCK_INDEX d) 0 b4 = Some b'" "p = page_of d"
    using run l by (auto simp: buddy_alloc_page_def Let_def page_of_def bsz_def split del: if_split)
  show "count b' (BLOCK_INDEX a) = 0" if "p = page_of a"
    using that st(7,8) by (auto simp: page_of_def set_count_def split: if_splits)
  assume c: "(c, k) \<in> A"
  have "page_list b ! ?l \<noteq> []"
    using first_list_spec [of "page_order 0 sz" b] page_order_spec [of 0 sz] st(1) by simp
  then have "hd (page_list b ! ?l) \<in> set (page_list b ! ?l)" by simp
  then have free: "(d, ?l) \<in> free_blocks b"
    using st(1,2) inv unfolding free_blocks_def bd_inv_def own_ok_def by (simp, metis prod.collapse)
  have dvd: "4096 dvd c" "4096 dvd d"
    using bd_inv_bounds(4) [OF inv, of c k] bd_inv_bounds(4) [OF inv, of d ?l] c free
    by (auto simp: bsz_def PAGE_SIZE_def elim!: dvd_mult_left)
  have out: "c < d \<or> d + bsz ?l \<le> c"
  proof (rule ccontr)
    assume "\<not> (c < d \<or> d + bsz ?l \<le> c)"
    then have "c \<in> span (c, k)" "c \<in> span (d, ?l)" using bsz_pos [of k] by (simp_all add: span_def)
    then have "(c, k) = (d, ?l)" using tilesD(2) [of BUDDY_TOP "{} \<union> A \<union> free_blocks b" "(c, k)" "(d, ?l)" c] inv c free by (simp add: bd_inv_def)
    then show False using inv c free by (auto simp: bd_inv_def)
  qed
  have "count b2 (BLOCK_INDEX c) = count b1 (BLOCK_INDEX c)"
    using st(4) split_pages_count [OF _ dvd(2,1) out] by (auto simp: bsz_def split: if_splits)
  moreover have "BLOCK_INDEX c \<noteq> BLOCK_INDEX d"
  proof -
    have "c \<noteq> d" using out bsz_pos [of ?l] by linarith
    then show ?thesis using dvd by (auto simp: BLOCK_INDEX_def PAGE_SIZE_def elim!: dvdE)
  qed
  ultimately show "count b' (BLOCK_INDEX c) = count b (BLOCK_INDEX c)"
    using st(5-7) push_drop_count(2) [OF st(3)]
    by (auto simp: set_order_def set_page_list_ref_def set_count_def split: if_splits)
qed

lemma alloc_page_spec:
  assumes inv: "buddy_ok A (buddy s)" and used: "(\<Sum>bl \<in> A. bsz (snd bl)) < BUDDY_TOP"
    and room: "card (km_live (bmem (buddy s))) < 46900"
  shows "\<exists>a b. alloc_page 4096 s = Some (page_of a, s\<lparr>buddy := b\<rparr>) \<and> buddy_ok (insert (a, 0) A) b \<and> (a, 0) \<notin> A
     \<and> kpanics (bmem b) = kpanics (bmem (buddy s)) \<and> card (km_live (bmem b)) \<le> card (km_live (bmem (buddy s))) + 20
     \<and> (\<forall>(c, k) \<in> A. count b (BLOCK_INDEX c) = count (buddy s) (BLOCK_INDEX c)) \<and> count b (BLOCK_INDEX a) = 0"
proof -
  have k: "page_order 0 4096 = 0" by (subst page_order.simps) (simp add: NUM_LIST_def PAGE_SIZE_def)
  obtain c j where "(c, j) \<in> free_blocks (buddy s)" using free_space [OF inv used] by fastforce
  from buddy_alloc_page_spec [OF inv this, of 4096] room obtain a b where
      ab: "buddy_alloc_page 4096 (buddy s) = Some (page_of a, b)" "buddy_ok (insert (a, 0) A) b" "(a, 0) \<notin> A"
        "kpanics (bmem b) = kpanics (bmem (buddy s))" "card (km_live (bmem b)) \<le> card (km_live (bmem (buddy s))) + 20"
    unfolding k by (auto simp: page_of_def)
  then show ?thesis using alloc_count [OF inv ab(1)]
    by (intro exI [of _ a] exI [of _ b]) (auto simp: alloc_page_def)
qed

section \<open>Runs of stores\<close>

text \<open>The words \<open>a ..< b\<close> of the page at \<open>p\<close> replaced by \<open>f\<close>.\<close>

definition fill :: "addr \<Rightarrow> nat \<Rightarrow> nat \<Rightarrow> (nat \<Rightarrow> u32) \<Rightarrow> (addr \<Rightarrow> u32) \<Rightarrow> addr \<Rightarrow> u32" where
  "fill p a b f m x = (if \<exists>j. a \<le> j \<and> j < b \<and> x = p + 4 * j then f ((x - p) div 4) else m x)"

lemma fill_at: "fill p a b f m (p + 4 * j) = (if a \<le> j \<and> j < b then f j else m (p + 4 * j))"
  by (auto simp: fill_def)

lemma fill_empty [simp]: "b \<le> a \<Longrightarrow> fill p a b f m = m"
  by (auto simp: fill_def fun_eq_iff)

lemma fill_Suc: "a \<le> b \<Longrightarrow> (fill p a b f m)(p + 4 * b := f b) = fill p a (Suc b) f m"
  by (auto simp: fill_def fun_eq_iff less_Suc_eq)

lemma page_word_eq:
  assumes "4096 dvd (p :: nat)" and "4096 dvd q" and "i < 1024" and "j < 1024" and "p + 4 * i = q + 4 * j"
  shows "p = q" and "i = j"
proof -
  obtain x y where xy: "p = 4096 * x" "q = 4096 * y" using assms(1,2) by (auto elim!: dvdE)
  from assms(5) have "1024 * x + i = 1024 * y + j" unfolding xy by linarith
  then have "(1024 * x + i) div 1024 = (1024 * y + j) div 1024" by simp
  then show "p = q" using assms(3,4) xy by simp
  then show "i = j" using assms(5) by simp
qed

lemma fill_other:
  assumes "4096 dvd p" and "4096 dvd q" and "p \<noteq> q" and "b \<le> 1024" and "j < 1024"
  shows "fill p a b f m (q + 4 * j) = m (q + 4 * j)"
  using page_word_eq(1) [OF assms(1,2) _ assms(5)] assms(3,4) unfolding fill_def by (metis order_less_le_trans)

lemma st_range:
  assumes "\<And>i. a \<le> i \<Longrightarrow> i < b \<Longrightarrow> kaddr (p + 4 * i)" and "a \<le> b"
  shows "for_each (\<lambda>i. st (p + 4 * i) (f i)) [a..<b] s = Some (s\<lparr>ram := fill p a b f (ram s)\<rparr>)"
proof -
  have "\<exists>t. for_each (\<lambda>i. st (p + 4 * i) (f i)) [a..<b] s = Some t \<and> t = s\<lparr>ram := fill p a b f (ram s)\<rparr>"
    by (rule for_upto_runs [where P = "\<lambda>i t. t = s\<lparr>ram := fill p a i f (ram s)\<rparr>"])
      (use assms in \<open>simp_all add: st_def fill_Suc\<close>)
  then show ?thesis by simp
qed

lemma clean_page:
  assumes "buddy_ok A b" and "is_page A p"
  shows "buddy_clean_mem p s = Some (s\<lparr>ram := fill p 0 1024 (\<lambda>_. 0) (ram s)\<rparr>)"
  unfolding buddy_clean_mem_def
  using st_range [of 0 1024 p "\<lambda>_. 0"] page_kaddr [OF assms] by (simp add: PAGE_SIZE_def)

text \<open>The running physical address: one more step gives page \<open>x\<close> with the flags.\<close>

definition next_phy :: "u32 \<Rightarrow> u32 \<Rightarrow> u32 \<Rightarrow> bool" where
  "next_phy flags phy x \<longleftrightarrow> al x \<and> (phy + 4096) OR flags = x OR flags"

lemma next_phy_step:
  assumes "next_phy f phy x" and "unat f < 4096"
  shows "next_phy f (x OR f) (x + 4096)"
proof -
  have x: "al x" "al (x + 4096)" using assms(1) by (auto simp: next_phy_def)
  have "(x OR f) + 4096 = (x + 4096) OR f" by (simp add: or_flags(1) [OF x(1) assms(2)] or_flags(1) [OF x(2) assms(2)])
  then show ?thesis using x(2) by (simp add: next_phy_def or.assoc)
qed

lemma map_pages_spec:
  assumes pg: "buddy_ok A b" "is_page A pt" and stop: "start \<le> stop" "stop \<le> 1024"
    and phy: "next_phy f phy x" and f: "unat f < 4096"
  shows "\<exists>phy'. map_pages pt f start stop (phy, s) =
       Some (phy', s\<lparr>ram := fill pt start stop (\<lambda>j. (x + of_nat (4096 * (j - start))) OR f) (ram s)\<rparr>)
     \<and> next_phy f phy' (x + of_nat (4096 * (stop - start)))"
proof -
  let ?m = "\<lambda>k. fill pt start k (\<lambda>j. (x + of_nat (4096 * (j - start))) OR f) (ram s)"
  have "\<exists>t. map_pages pt f start stop (phy, s) = Some t
    \<and> snd t = s\<lparr>ram := ?m stop\<rparr> \<and> next_phy f (fst t) (x + of_nat (4096 * (stop - start)))"
    unfolding map_pages_def
  proof (rule for_upto_runs [where P = "\<lambda>k t. snd t = s\<lparr>ram := ?m k\<rparr> \<and> next_phy f (fst t) (x + of_nat (4096 * (k - start)))"])
    fix i and t :: "u32 \<times> vm"
    assume i: "start \<le> i" "i < stop"
      and P: "snd t = s\<lparr>ram := ?m i\<rparr> \<and> next_phy f (fst t) (x + of_nat (4096 * (i - start)))"
    let ?x = "x + of_nat (4096 * (i - start))"
    have k: "kaddr (pt + 4 * i)" using page_kaddr [OF pg] i(2) stop(2) by simp
    have upd: "(?m i)(pt + 4 * i := ?x OR f) = ?m (Suc i)"
      by (rule fill_Suc [OF i(1), of pt "\<lambda>j. (x + of_nat (4096 * (j - start))) OR f"])
    have v: "(fst t + 4096) OR f = ?x OR f" using P by (simp add: next_phy_def)
    have "?x + 4096 = x + of_nat (4096 * (Suc i - start))" using i(1) by (simp add: Suc_diff_le)
    then have "next_phy f (?x OR f) (x + of_nat (4096 * (Suc i - start)))"
      using next_phy_step [of f "fst t" ?x] P f by metis
    then show "\<exists>t'. (case t of (phy, s) \<Rightarrow> let phy = (phy + 4096) OR f in st (pt + 4 * i) phy s \<bind> (\<lambda>s. Some (phy, s))) = Some t'
        \<and> snd t' = s\<lparr>ram := ?m (Suc i)\<rparr> \<and> next_phy f (fst t') (x + of_nat (4096 * (Suc i - start)))"
      using P k v upd by (cases t) (simp add: st_def Let_def)
  qed (use stop phy in simp_all)
  then show ?thesis by (metis prod.collapse)
qed

section \<open>Directories\<close>

abbreviation pde :: "addr \<Rightarrow> nat \<Rightarrow> vm \<Rightarrow> u32" where
  "pde dir i s \<equiv> ram s (dir + 4 * i)"

text \<open>
  \<open>A\<close> are the blocks in use. The directory and the table of every slot in use are different
  pages of \<open>A\<close>.
\<close>

definition dir_ok :: "(nat \<times> nat) set \<Rightarrow> addr \<Rightarrow> vm \<Rightarrow> bool" where
  "dir_ok A dir s \<longleftrightarrow> buddy_ok A (buddy s) \<and> is_page A dir
     \<and> (\<forall>i < 1024. pde dir i s \<noteq> 0 \<longrightarrow>
          pde dir i s AND 1 = 1 \<and> is_page A (table_of (pde dir i s)) \<and> table_of (pde dir i s) \<noteq> dir)
     \<and> (\<forall>i < 1024. \<forall>j < 1024. i \<noteq> j \<longrightarrow> pde dir i s \<noteq> 0 \<longrightarrow> pde dir j s \<noteq> 0 \<longrightarrow>
          table_of (pde dir i s) \<noteq> table_of (pde dir j s))"

text \<open>\<open>n\<close> pages can be allocated.\<close>

definition vm_room :: "nat \<Rightarrow> (nat \<times> nat) set \<Rightarrow> vm \<Rightarrow> bool" where
  "vm_room n A s \<longleftrightarrow> (\<Sum>bl \<in> A. bsz (snd bl)) + 4096 * n \<le> BUDDY_TOP
     \<and> card (km_live (bmem (buddy s))) + 20 * n \<le> 46900"

lemma dir_okD:
  assumes "dir_ok A dir s"
  shows "buddy_ok A (buddy s)" and "is_page A dir"
    and "i < 1024 \<Longrightarrow> pde dir i s \<noteq> 0 \<Longrightarrow> pde dir i s AND 1 = 1"
    and "i < 1024 \<Longrightarrow> pde dir i s \<noteq> 0 \<Longrightarrow> is_page A (table_of (pde dir i s))"
    and "i < 1024 \<Longrightarrow> pde dir i s \<noteq> 0 \<Longrightarrow> table_of (pde dir i s) \<noteq> dir"
    and "i < 1024 \<Longrightarrow> j < 1024 \<Longrightarrow> i \<noteq> j \<Longrightarrow> pde dir i s \<noteq> 0 \<Longrightarrow> pde dir j s \<noteq> 0 \<Longrightarrow>
          table_of (pde dir i s) \<noteq> table_of (pde dir j s)"
  using assms unfolding dir_ok_def by blast+

lemma is_page_mono: "is_page A p \<Longrightarrow> A \<subseteq> B \<Longrightarrow> is_page B p"
  by (auto simp: is_page_def)

lemma walk_ram_cong:
  assumes "pde dir (v div 1024) t = pde dir (v div 1024) s"
    and "pde dir (v div 1024) s AND 1 \<noteq> 0 \<Longrightarrow>
      ram t (table_of (pde dir (v div 1024) s) + 4 * (v mod 1024)) = ram s (table_of (pde dir (v div 1024) s) + 4 * (v mod 1024))"
  shows "walk dir v t = walk dir v s"
  using assms by (simp add: walk_def Let_def)

text \<open>A new page: fresh, and the other pages keep their contents when it is cleared.\<close>

lemma new_page_spec:
  assumes inv: "buddy_ok A (buddy s)" and room: "vm_room (Suc n) A s"
  obtains p a b where "alloc_page 4096 s = Some (p, s\<lparr>buddy := b\<rparr>)"
    and "buddy_ok (insert (a, 0) A) b" and "is_page (insert (a, 0) A) p" and "\<not> is_page A p"
    and "kpanics (bmem b) = kpanics (bmem (buddy s))" and "\<And>m. vm_room n (insert (a, 0) A) (s\<lparr>buddy := b, ram := m\<rparr>)"
    and "\<forall>(c, k) \<in> A. count b (BLOCK_INDEX c) = count (buddy s) (BLOCK_INDEX c)" and "p = page_of a" and "count b (BLOCK_INDEX a) = 0"
proof -
  obtain a b where ab: "alloc_page 4096 s = Some (page_of a, s\<lparr>buddy := b\<rparr>)" "buddy_ok (insert (a, 0) A) b" "(a, 0) \<notin> A"
      "kpanics (bmem b) = kpanics (bmem (buddy s))" "card (km_live (bmem b)) \<le> card (km_live (bmem (buddy s))) + 20"
      "\<forall>(c, k) \<in> A. count b (BLOCK_INDEX c) = count (buddy s) (BLOCK_INDEX c)" "count b (BLOCK_INDEX a) = 0"
    using alloc_page_spec [OF inv] room by (auto simp: vm_room_def)
  have "(\<Sum>bl \<in> insert (a, 0) A. bsz (snd bl)) = 4096 + (\<Sum>bl \<in> A. bsz (snd bl))"
    using ab(3) finite_blocks [OF inv] by (simp add: bsz_def PAGE_SIZE_def)
  then have "vm_room n (insert (a, 0) A) (s\<lparr>buddy := b, ram := m\<rparr>)" for m
    using room ab(5) by (simp add: vm_room_def)
  moreover have "\<not> is_page A (page_of a)" using ab(3) by (auto simp: is_page_def page_of_def)
  moreover have "is_page (insert (a, 0) A) (page_of a)" by (auto simp: is_page_def)
  ultimately show ?thesis using that ab by blast
qed

definition words :: "addr \<Rightarrow> addr set" where
  "words p = {p + 4 * j | j. j < 1024}"

text \<open>The words of a directory and of its tables.\<close>

definition dir_words :: "addr \<Rightarrow> vm \<Rightarrow> addr set" where
  "dir_words dir s = words dir \<union> (\<Union>i \<in> {i. i < 1024 \<and> pde dir i s \<noteq> 0}. words (table_of (pde dir i s)))"

text \<open>
  What the operations on a directory promise: it stays well-formed, no slot in use moves,
  new tables are new pages, nothing but the directory and its tables is written, no panic is raised.
\<close>

definition dir_step :: "addr \<Rightarrow> (nat \<times> nat) set \<Rightarrow> vm \<Rightarrow> (nat \<times> nat) set \<Rightarrow> vm \<Rightarrow> bool" where
  "dir_step dir A s A' s' \<longleftrightarrow> dir_ok A' dir s' \<and> A \<subseteq> A'
     \<and> (\<forall>i < 1024. pde dir i s \<noteq> 0 \<longrightarrow> pde dir i s' = pde dir i s)
     \<and> (\<forall>i < 1024. pde dir i s = 0 \<longrightarrow> pde dir i s' \<noteq> 0 \<longrightarrow> \<not> is_page A (table_of (pde dir i s')))
     \<and> (\<forall>x. x \<notin> dir_words dir s' \<longrightarrow> ram s' x = ram s x)
     \<and> kpanics (bmem (buddy s')) = kpanics (bmem (buddy s)) \<and> regs s' = regs s
     \<and> master_page_dir s' = master_page_dir s \<and> cr3 s' = cr3 s
     \<and> (\<forall>(c, k) \<in> A. count (buddy s') (BLOCK_INDEX c) = count (buddy s) (BLOCK_INDEX c))"

lemma dir_step_refl: "dir_ok A dir s \<Longrightarrow> dir_step dir A s A s"
  by (simp add: dir_step_def)

lemma dir_step_count:
  "dir_step dir A s B t \<Longrightarrow> (c, k) \<in> A \<Longrightarrow> count (buddy t) (BLOCK_INDEX c) = count (buddy s) (BLOCK_INDEX c)"
  by (auto simp: dir_step_def)

lemma dir_words_mono:
  "(\<And>i. i < 1024 \<Longrightarrow> pde dir i s \<noteq> 0 \<Longrightarrow> pde dir i s' = pde dir i s) \<Longrightarrow> dir_words dir s \<subseteq> dir_words dir s'"
  by (force simp: dir_words_def)

lemma dir_step_trans:
  assumes "dir_step dir A s B t" and "dir_step dir B t C u"
  shows "dir_step dir A s C u"
proof -
  have "dir_words dir t \<subseteq> dir_words dir u" using assms(2) by (intro dir_words_mono) (simp add: dir_step_def)
  moreover have "\<forall>(c, k) \<in> A. count (buddy u) (BLOCK_INDEX c) = count (buddy s) (BLOCK_INDEX c)"
  proof (clarify)
    fix c k assume c: "(c, k) \<in> A"
    then have "(c, k) \<in> B" using assms(1) by (auto simp: dir_step_def)
    then have "count (buddy u) (BLOCK_INDEX c) = count (buddy t) (BLOCK_INDEX c)" using assms(2) by (auto simp: dir_step_def)
    also have "\<dots> = count (buddy s) (BLOCK_INDEX c)" using assms(1) c by (auto simp: dir_step_def)
    finally show "count (buddy u) (BLOCK_INDEX c) = count (buddy s) (BLOCK_INDEX c)" .
  qed
  moreover have "\<not> is_page A (table_of (pde dir i u))" if i: "i < 1024" "pde dir i s = 0" "pde dir i u \<noteq> 0" for i
  proof (cases "pde dir i t = 0")
    case True
    then have "\<not> is_page B (table_of (pde dir i u))" using assms(2) i by (auto simp: dir_step_def)
    then show ?thesis using is_page_mono assms(1) by (auto simp: dir_step_def)
  qed (use assms i in \<open>auto simp: dir_step_def\<close>)
  ultimately show ?thesis using assms unfolding dir_step_def by (intro conjI) auto
qed

lemma get_page_table_spec:
  assumes ok: "dir_ok A dir s" and i: "i < 1024" and room: "vm_room (Suc n) A s"
  obtains pt A' s' where "get_page_table dir i s = Some (pt, s')" and "dir_step dir A s A' s'" and "vm_room n A' s'"
    and "pde dir i s' \<noteq> 0" and "table_of (pde dir i s') = pt" and "\<And>v. v < 2 ^ 20 \<Longrightarrow> walk dir v s' = walk dir v s"
proof (cases "pde dir i s = 0")
  case False
  have k: "kaddr (dir + 4 * i)" using page_kaddr [OF dir_okD(1,2) [OF ok] i] .
  have "vm_room n A s" using room by (simp add: vm_room_def)
  then show ?thesis using that [of "table_of (pde dir i s)" s A] False k dir_step_refl [OF ok]
    by (simp add: get_page_table_def ld_def)
next
  case True
  note inv = dir_okD(1) [OF ok] and dir = dir_okD(2) [OF ok]
  have k: "kaddr (dir + 4 * i)" using page_kaddr [OF inv dir i] .
  obtain p a b where p: "alloc_page 4096 s = Some (p, s\<lparr>buddy := b\<rparr>)" "buddy_ok (insert (a, 0) A) b"
      "is_page (insert (a, 0) A) p" "\<not> is_page A p" "kpanics (bmem b) = kpanics (bmem (buddy s))"
      "\<And>m. vm_room n (insert (a, 0) A) (s\<lparr>buddy := b, ram := m\<rparr>)"
      "\<forall>(c, k) \<in> A. count b (BLOCK_INDEX c) = count (buddy s) (BLOCK_INDEX c)"
    by (rule new_page_spec [OF inv room], rule that)
  let ?e = "FROM_VIRT_TO_PHY (of_nat p) OR 7"
  let ?m = "(fill p 0 1024 (\<lambda>_. 0) (ram s))(dir + 4 * i := ?e)"
  let ?s = "s\<lparr>buddy := b, ram := ?m\<rparr>"
  have e: "table_of ?e = p" "?e AND 1 = 1"
    using table_of_entry [OF page_al(1) [OF p(2,3)], of 7] page_al(3) [OF p(2,3)] entry_present [OF page_al(1) [OF p(2,3)]] by simp_all
  have run: "get_page_table dir i s = Some (p, ?s)"
    using True k p(1) clean_page [OF p(2,3), of "s\<lparr>buddy := b\<rparr>"] by (simp add: get_page_table_def ld_def st_def)
  have al: "4096 dvd p" using is_pageD(1) [OF p(2,3)] .
  have keep: "?m (q + 4 * j) = ram s (q + 4 * j)" if "is_page A q" "j < 1024" "q \<noteq> dir \<or> j \<noteq> i" for q j
  proof -
    have "4096 dvd q" "4096 dvd dir" using is_pageD(1) [OF inv] that(1) dir by blast+
    moreover have "q + 4 * j \<noteq> dir + 4 * i" using page_word_eq [OF calculation that(2) i] that(3) by blast
    ultimately show ?thesis using fill_other [OF al, of q 1024 j] that p(4) by fastforce
  qed
  have slot: "pde dir i ?s = ?e" "\<And>j. j < 1024 \<Longrightarrow> j \<noteq> i \<Longrightarrow> pde dir j ?s = pde dir j s"
    using keep [OF dir] by simp_all
  have old: "is_page (insert (a, 0) A) q" "q \<noteq> p" if "is_page A q" for q
    using that p(4) is_page_mono [OF that] by blast+
  have "dir_ok (insert (a, 0) A) dir ?s"
    unfolding dir_ok_def
  proof (intro conjI allI impI)
    show "is_page (insert (a, 0) A) dir" using old(1) [OF dir] .
    fix j assume j: "j < 1024" "pde dir j ?s \<noteq> 0"
    show "pde dir j ?s AND 1 = 1" using e slot j dir_okD(3) [OF ok j(1)] by (cases "j = i") simp_all
    show "is_page (insert (a, 0) A) (table_of (pde dir j ?s))"
      using e slot j dir_okD(4) [OF ok j(1)] p(3) old(1) by (cases "j = i") simp_all
    show "table_of (pde dir j ?s) \<noteq> dir" using e slot j dir_okD(5) [OF ok j(1)] old(2) [OF dir] by (cases "j = i") simp_all
    fix k assume "k < 1024" "j \<noteq> k" "pde dir k ?s \<noteq> 0"
    then show "table_of (pde dir j ?s) \<noteq> table_of (pde dir k ?s)"
      using e slot j dir_okD(6) [OF ok j(1)] dir_okD(4) [OF ok] old(2) by (cases "j = i"; cases "k = i") (simp_all, metis+)
  qed (simp add: p(2))
  moreover have "ram ?s x = ram s x" if "x \<notin> dir_words dir ?s" for x
  proof -
    have "x \<notin> words p" using that i e slot(1) by (force simp: dir_words_def)
    moreover have "x \<noteq> dir + 4 * i" using that i by (auto simp: dir_words_def words_def)
    ultimately show ?thesis by (auto simp: fill_def words_def)
  qed
  ultimately have "dir_step dir A s (insert (a, 0) A) ?s"
    using True slot p(4,5,7) e by (auto simp: dir_step_def)
  moreover have "walk dir v ?s = walk dir v s" if "v < 2 ^ 20" for v
  proof (cases "v div 1024 = i")
    case True
    have "p + 4 * (v mod 1024) \<noteq> dir + 4 * i"
      using page_word_eq(1) [OF al is_pageD(1) [OF inv dir] _ i, of "v mod 1024"] old(2) [OF dir] by auto
    then have "walk dir v ?s = 0" using True e slot(1) fill_at [of p 0 1024 "\<lambda>_. 0" "ram s" "v mod 1024"]
      by (simp add: walk_def Let_def)
    then show ?thesis using True \<open>pde dir i s = 0\<close> by (simp add: walk_def)
  next
    case False
    have v: "v div 1024 < 1024" using that by simp
    show ?thesis
    proof (rule walk_ram_cong)
      assume "pde dir (v div 1024) s AND 1 \<noteq> 0"
      then have nz: "pde dir (v div 1024) s \<noteq> 0" by auto
      show "ram ?s (table_of (pde dir (v div 1024) s) + 4 * (v mod 1024)) = ram s (table_of (pde dir (v div 1024) s) + 4 * (v mod 1024))"
        using keep [OF dir_okD(4) [OF ok v nz]] dir_okD(5) [OF ok v nz] by simp
    qed (use slot(2) v False in simp)
  qed
  ultimately show ?thesis using that [of p ?s] run p(6) [of ?m] slot(1) e by force
qed

section \<open>One directory slot\<close>

lemma fill_table_step:
  assumes ok: "dir_ok A dir s" and i: "i < 1024" and nz: "pde dir i s \<noteq> 0" and stop: "stop \<le> 1024"
  defines "pt \<equiv> table_of (pde dir i s)"
  shows "dir_step dir A s A (s\<lparr>ram := fill pt start stop g (ram s)\<rparr>)"
    and "v < 2 ^ 20 \<Longrightarrow> walk dir v (s\<lparr>ram := fill pt start stop g (ram s)\<rparr>) =
      (if v div 1024 = i \<and> start \<le> v mod 1024 \<and> v mod 1024 < stop then g (v mod 1024) else walk dir v s)"
proof -
  let ?s = "s\<lparr>ram := fill pt start stop g (ram s)\<rparr>"
  note inv = dir_okD(1) [OF ok]
  have pt: "is_page A pt" "pt \<noteq> dir" "4096 dvd pt"
    using dir_okD(4,5) [OF ok i nz] is_pageD(1) [OF inv] by (simp_all add: pt_def)
  have other: "ram ?s (q + 4 * j) = ram s (q + 4 * j)" if "is_page A q" "q \<noteq> pt" "j < 1024" for q j
    using fill_other [OF pt(3) is_pageD(1) [OF inv that(1)]] that stop by simp
  have slot: "pde dir j ?s = pde dir j s" if "j < 1024" for j
    using other [OF dir_okD(2) [OF ok]] pt(2) that by simp
  have "dir_ok A dir ?s"
    unfolding dir_ok_def using slot dir_okD [OF ok] by simp
  moreover have "fill pt start stop g (ram s) x = ram s x" if "x \<notin> dir_words dir ?s" for x
  proof -
    have "x \<notin> words pt" using that i nz slot [OF i] by (auto simp: dir_words_def pt_def)
    then show ?thesis using stop by (auto simp: fill_def words_def)
  qed
  ultimately show "dir_step dir A s A ?s" using slot by (simp add: dir_step_def)
  show "walk dir v ?s = (if v div 1024 = i \<and> start \<le> v mod 1024 \<and> v mod 1024 < stop then g (v mod 1024) else walk dir v s)"
    if v: "v < 2 ^ 20"
  proof (cases "v div 1024 = i")
    case True
    then have "walk dir v ?s = ram ?s (pt + 4 * (v mod 1024))" "walk dir v s = ram s (pt + 4 * (v mod 1024))"
      using slot [OF i] dir_okD(3) [OF ok i nz] by (simp_all add: walk_def Let_def pt_def)
    then show ?thesis using True by (simp add: fill_at)
  next
    case False
    let ?j = "v div 1024"
    have j: "?j < 1024" using v by simp
    have "walk dir v ?s = walk dir v s"
    proof (rule walk_ram_cong)
      assume "pde dir ?j s AND 1 \<noteq> 0"
      then have "pde dir ?j s \<noteq> 0" by auto
      then have "is_page A (table_of (pde dir ?j s))" "table_of (pde dir ?j s) \<noteq> pt"
        using dir_okD(4) [OF ok j] dir_okD(6) [OF ok j i] False nz by (auto simp: pt_def)
      then show "ram ?s (table_of (pde dir ?j s) + 4 * (v mod 1024)) = ram s (table_of (pde dir ?j s) + 4 * (v mod 1024))"
        using other by simp
    qed (use slot j in simp)
    then show ?thesis using False by simp
  qed
qed

lemma map_slot_spec:
  assumes ok: "dir_ok A dir s" and i: "i < 1024" and room: "vm_room (Suc n) A s"
    and stop: "start \<le> stop" "stop \<le> 1024" and phy: "next_phy f phy x" and f: "unat f < 4096"
  shows "\<exists>pt s1 phy' A' s'. get_page_table dir i s = Some (pt, s1) \<and> map_pages pt f start stop (phy, s1) = Some (phy', s')
     \<and> dir_step dir A s A' s' \<and> vm_room n A' s' \<and> next_phy f phy' (x + of_nat (4096 * (stop - start)))
     \<and> (\<forall>v < 2 ^ 20. walk dir v s' =
          (if v div 1024 = i \<and> start \<le> v mod 1024 \<and> v mod 1024 < stop
           then (x + of_nat (4096 * (v mod 1024 - start))) OR f else walk dir v s))"
proof -
  obtain pt A' s1 where s1: "get_page_table dir i s = Some (pt, s1)" "dir_step dir A s A' s1" "vm_room n A' s1"
      "pde dir i s1 \<noteq> 0" "table_of (pde dir i s1) = pt" "\<And>v. v < 2 ^ 20 \<Longrightarrow> walk dir v s1 = walk dir v s"
    by (rule get_page_table_spec [OF ok i room], rule that)
  have ok1: "dir_ok A' dir s1" using s1(2) by (simp add: dir_step_def)
  have pt: "is_page A' pt" using dir_okD(4) [OF ok1 i s1(4)] s1(5) by simp
  let ?g = "\<lambda>j. (x + of_nat (4096 * (j - start))) OR f"
  obtain phy' where phy': "map_pages pt f start stop (phy, s1) = Some (phy', s1\<lparr>ram := fill pt start stop ?g (ram s1)\<rparr>)"
      "next_phy f phy' (x + of_nat (4096 * (stop - start)))"
    using map_pages_spec [OF dir_okD(1) [OF ok1] pt stop phy f] by blast
  note step = fill_table_step [OF ok1 i s1(4) stop(2), where start = start and g = ?g, unfolded s1(5)]
  have "vm_room n A' (s1\<lparr>ram := fill pt start stop ?g (ram s1)\<rparr>)" using s1(3) by (simp add: vm_room_def)
  then show ?thesis
    using s1(1) phy' dir_step_trans [OF s1(2) step(1)] step(2) s1(6)
    by (intro exI [of _ pt] exI [of _ s1] exI [of _ phy'] exI [of _ A'] exI [of _ "s1\<lparr>ram := fill pt start stop ?g (ram s1)\<rparr>"])
      simp
qed

section \<open>The region\<close>

lemma first_pt_eq: "first_pt_of a = unat a div 4096 mod 1024"
proof -
  have "a AND 0x3FFFFF = take_bit 22 a" by (simp add: take_bit_eq_mask mask_eq_exp_minus_1)
  moreover have "unat (drop_bit 12 (take_bit 22 a)) = drop_bit 12 (take_bit 22 (unat a))"
    by (simp only: unat_drop_bit_eq unsigned_take_bit_eq)
  ultimately have "first_pt_of a = drop_bit 12 (take_bit 22 (unat a))" by (simp only: first_pt_of_def)
  then show ?thesis by (simp add: drop_bit_eq_div take_bit_eq_mod mod_mult2_eq [of _ 4096 1024, simplified] del: mod_mult2_eq)
qed

lemma first_pd_eq: "unat (drop_bit 22 a) = unat (a :: u32) div 4096 div 1024"
proof -
  have "unat (drop_bit 22 a) = drop_bit 22 (unat a)" by (rule unat_drop_bit_eq)
  also have "\<dots> = unat a div (4096 * 1024)" by (simp add: drop_bit_eq_div)
  finally show ?thesis by (simp only: div_mult2_eq)
qed

lemma sdiv_nat: "int n sdiv 4096 = int (n div 4096)" "int n smod 4096 = int (n mod 4096)"
proof -
  show d: "int n sdiv 4096 = int (n div 4096)"
    by (simp add: signed_divide_int_def sgn_if zdiv_int)
  show "int n smod 4096 = int (n mod 4096)"
    by (simp add: signed_modulo_int_def d zmod_int minus_mult_div_eq_mod sgn_if)
qed

lemma ceil_div:
  assumes "0 < (k :: nat)"
  shows "n div k + (if 0 < n mod k then 1 else 0) = (n + (k - 1)) div k"
proof -
  define q r where "q = n div k" and "r = n mod k"
  have n: "n = r + k * q" and r: "r < k" using assms by (simp_all add: q_def r_def)
  show ?thesis
  proof (cases "r = 0")
    case True
    have "(n + (k - 1)) div k = ((k - 1) + k * q) div k" using True n by (simp add: add.commute)
    also have "\<dots> = q + (k - 1) div k" using assms by (intro div_mult_self2) simp
    also have "\<dots> = q" using assms by simp
    finally show ?thesis using True by (simp add: q_def r_def)
  next
    case False
    have "(n + (k - 1)) div k = ((r - 1) + k * Suc q) div k" using False n assms by (intro arg_cong2 [where f = "(div)"]) auto
    also have "\<dots> = Suc q + (r - 1) div k" using assms by (intro div_mult_self2) simp
    also have "\<dots> = Suc q" using r by simp
    finally show ?thesis using False by (simp add: q_def r_def)
  qed
qed

lemma page_count_eq:
  assumes "unat z < 2 ^ 31"
  shows "unat (page_count_of z) = (unat z + 4095) div 4096"
proof -
  have lt: "int (unat z) < 2 ^ 31" using assms by (simp only: of_nat_less_numeral_power_cancel_iff)
  have "sint z = signed_take_bit 31 (int (unat z))" by (simp add: sint_uint)
  also have "\<dots> = int (unat z)"
  proof (rule signed_take_bit_int_eq_self)
    show "- (2 ^ 31) \<le> int (unat z)" by (rule order_trans [OF _ of_nat_0_le_iff]) simp
  qed (rule lt)
  finally have z: "sint z = int (unat z)" .
  have "page_count_of z = of_nat (unat z div 4096 + (if 0 < unat z mod 4096 then 1 else 0))"
    unfolding page_count_of_def z sdiv_nat by (simp only: of_int_of_nat_eq of_nat_0_less_iff of_nat_add) simp
  then show ?thesis
    using assms ceil_div [of 4096 "unat z"] by (simp only: unat_of_nat) simp
qed

lemma pd_count_eq:
  assumes "unat n < 2 ^ 31"
  shows "unat (pd_count_of n) = (unat n + 1023) div 1024"
proof -
  have "n div 1024 = of_nat (unat n div 1024)" and "(n mod 1024 > 0) = (0 < unat n mod 1024)"
    using assms by (simp_all add: word_unat_eq_iff unat_div unat_mod word_less_nat_alt unat_of_nat)
  then have "pd_count_of n = of_nat (unat n div 1024 + (if 0 < unat n mod 1024 then 1 else 0))"
    unfolding pd_count_of_def by simp
  then show ?thesis
    using assms ceil_div [of 1024 "unat n"] by (simp only: unat_of_nat) simp
qed

lemma map_range_eq:
  assumes V: "V = 1024 * F + P" "P < 1024" and E: "E \<le> 1024 * (F + D)" "1024 * (F + D - 1) < E" "V < E"
    and i: "F \<le> i" "i < F + D"
  shows "map_range i F D (F + D) P ((E - 1) mod 1024) = (max V (1024 * i) - 1024 * i, min E (1024 * Suc i) - 1024 * i)"
proof -
  obtain c where c: "E = 1024 * (F + D - 1) + Suc c" "c < 1024"
    using E(1,2) i by (intro that [of "E - 1024 * (F + D - 1) - 1"]) auto
  have "E - 1 = c + 1024 * (F + D - 1)" using c(1) by simp
  then have m: "(E - 1) mod 1024 = c" using c(2) by (metis mod_mult_self2 mod_less)
  have mx: "max V (1024 * i) = (if i = F then V else 1024 * i)" using V i(1) by (auto simp: max_def)
  have mn: "min E (1024 * Suc i) = (if i = F + D - 1 then E else 1024 * Suc i)"
    using E(1,2) c i by (auto simp: min_def)
  show ?thesis unfolding mx mn m map_range_def using V c(1) i by auto
qed

lemma map_loop:
  assumes ok: "dir_ok A dir s" and V: "V = 1024 * F + P" "P < 1024"
    and E: "E \<le> 1024 * (F + D)" "1024 * (F + D - 1) < E" "V < E" "E \<le> 2 ^ 20"
    and room: "vm_room (D + m) A s" and pa: "al pa" and f: "unat f < 4096"
  shows "\<exists>phy s' A'. for_each (\<lambda>i (phy, s).
              do { (page_table, s) \<leftarrow> get_page_table dir i s;
                   let (start, stop) = map_range i F D (F + D) P ((E - 1) mod 1024);
                   map_pages page_table f start stop (phy, s) }) [F..<F + D] (pa - 4096, s) = Some (phy, s')
     \<and> dir_step dir A s A' s' \<and> vm_room m A' s'
     \<and> (\<forall>v < 2 ^ 20. walk dir v s' = (if V \<le> v \<and> v < E then (pa + of_nat (4096 * (v - V))) OR f else walk dir v s))"
proof -
  define upto where "upto i = max V (min E (1024 * i))" for i
  define Q where "Q i t \<longleftrightarrow> (\<exists>A'. dir_step dir A s A' (snd t) \<and> vm_room (F + D - i + m) A' (snd t)
      \<and> next_phy f (fst t) (pa + of_nat (4096 * (upto i - V)))
      \<and> (\<forall>v < 2 ^ 20. walk dir v (snd t) = (if V \<le> v \<and> v < upto i then (pa + of_nat (4096 * (v - V))) OR f else walk dir v s)))"
    for i and t :: "u32 \<times> vm"
  have "Q F (pa - 4096, s)"
    using dir_step_refl [OF ok] room pa V by (auto simp: Q_def upto_def next_phy_def intro!: exI [of _ A])
  moreover have "\<exists>t'. (case t of (phy, s) \<Rightarrow>
        do { (page_table, s) \<leftarrow> get_page_table dir i s;
             let (start, stop) = map_range i F D (F + D) P ((E - 1) mod 1024);
             map_pages page_table f start stop (phy, s) }) = Some t' \<and> Q (Suc i) t'"
    if i: "F \<le> i" "i < F + D" and Q: "Q i t" for i t
  proof -
    obtain A1 where A1: "dir_step dir A s A1 (snd t)" "vm_room (Suc (F + D - Suc i + m)) A1 (snd t)"
        "next_phy f (fst t) (pa + of_nat (4096 * (upto i - V)))"
        "\<And>v. v < 2 ^ 20 \<Longrightarrow> walk dir v (snd t) = (if V \<le> v \<and> v < upto i then (pa + of_nat (4096 * (v - V))) OR f else walk dir v s)"
      using Q i(2) by (auto simp: Q_def Suc_diff_Suc simp flip: add_Suc)
    have "1024 * i \<le> 1024 * (F + D - 1)" using i(2) by (intro mult_le_mono) simp_all
    then have i1024: "i < 1024" using E(2,4) by simp
    let ?start = "max V (1024 * i) - 1024 * i" and ?stop = "min E (1024 * Suc i) - 1024 * i"
    have up: "upto i = max V (1024 * i)" "upto (Suc i) = min E (1024 * Suc i)"
      using V E i by (auto simp: upto_def max_def min_def)
    have r: "?start \<le> ?stop" "?stop \<le> 1024" "upto i - V + (?stop - ?start) = upto (Suc i) - V"
      using V E i by (auto simp: up)
    have ok1: "dir_ok A1 dir (snd t)" using A1(1) by (simp add: dir_step_def)
    obtain pt s1 phy' A2 s2 where s2: "get_page_table dir i (snd t) = Some (pt, s1)"
        "map_pages pt f ?start ?stop (fst t, s1) = Some (phy', s2)" "dir_step dir A1 (snd t) A2 s2" "vm_room (F + D - Suc i + m) A2 s2"
        "next_phy f phy' (pa + of_nat (4096 * (upto i - V)) + of_nat (4096 * (?stop - ?start)))"
        "\<And>v. v < 2 ^ 20 \<Longrightarrow> walk dir v s2 = (if v div 1024 = i \<and> ?start \<le> v mod 1024 \<and> v mod 1024 < ?stop
           then (pa + of_nat (4096 * (upto i - V)) + of_nat (4096 * (v mod 1024 - ?start))) OR f else walk dir v (snd t))"
      using map_slot_spec [OF ok1 i1024 A1(2) r(1,2) A1(3) f] by blast
    have sum: "of_nat (4096 * a) + of_nat (4096 * b) = (of_nat (4096 * (a + b)) :: u32)" for a b
      by (simp only: distrib_left of_nat_add)
    have lo: "1024 * i \<le> upto i" and hi: "upto (Suc i) \<le> 1024 * Suc i" by (simp_all add: up)
    have st: "?start = upto i - 1024 * i" "?stop = upto (Suc i) - 1024 * i" by (simp_all only: up)
    have slot: "(v div 1024 = i \<and> ?start \<le> v mod 1024 \<and> v mod 1024 < ?stop) \<longleftrightarrow> upto i \<le> v \<and> v < upto (Suc i)" for v
    proof (cases "v div 1024 = i")
      case True
      then have "v = v mod 1024 + 1024 * i" using mod_mult_div_eq [of v 1024] by simp
      then show ?thesis unfolding st using True by (metis le_diff_conv less_diff_conv)
    next
      case False
      then have "\<not> (upto i \<le> v \<and> v < upto (Suc i))" using lo hi div_nat_eqI [of 1024 i v] by (auto simp: mult.commute)
      then show ?thesis using False by simp
    qed
    have "walk dir v s2 = (if V \<le> v \<and> v < upto (Suc i) then (pa + of_nat (4096 * (v - V))) OR f else walk dir v s)"
      if v: "v < 2 ^ 20" for v
    proof (cases "upto i \<le> v \<and> v < upto (Suc i)")
      case True
      then have "v div 1024 = i" using slot by blast
      then have "v mod 1024 = v - 1024 * i" using mod_mult_div_eq [of v 1024] by simp
      then have "upto i - V + (v mod 1024 - ?start) = v - V" unfolding st using True lo up(1) by simp
      then have "pa + of_nat (4096 * (upto i - V)) + of_nat (4096 * (v mod 1024 - ?start)) = pa + of_nat (4096 * (v - V))"
        by (simp only: add.assoc sum)
      moreover have "V \<le> v" using True up(1) by simp
      ultimately show ?thesis using s2(6) [OF v] slot True by (simp only: simp_thms if_True)
    next
      case False
      then have "walk dir v s2 = walk dir v (snd t)" using s2(6) [OF v] slot by (simp only: if_False)
      moreover have "upto i \<le> upto (Suc i)" by (auto simp: upto_def)
      then have "v < upto (Suc i) \<longleftrightarrow> v < upto i" using False by linarith
      ultimately show ?thesis using A1(4) [OF v] by (simp only:)
    qed
    moreover have "next_phy f phy' (pa + of_nat (4096 * (upto (Suc i) - V)))"
      using s2(5) by (simp only: add.assoc sum r(3))
    ultimately have "Q (Suc i) (phy', s2)"
      unfolding Q_def fst_conv snd_conv using s2(4) dir_step_trans [OF A1(1) s2(3)] by blast
    then show ?thesis
      using s2(1,2) map_range_eq [OF V E(1-3) i] by (intro exI [of _ "(phy', s2)"]) (cases t, simp)
  qed
  ultimately have "\<exists>t. for_each (\<lambda>i (phy, s).
              do { (page_table, s) \<leftarrow> get_page_table dir i s;
                   let (start, stop) = map_range i F D (F + D) P ((E - 1) mod 1024);
                   map_pages page_table f start stop (phy, s) }) [F..<F + D] (pa - 4096, s) = Some t \<and> Q (F + D) t"
    by (intro for_upto_runs [where P = Q]) simp_all
  then obtain t where "for_each (\<lambda>i (phy, s).
              do { (page_table, s) \<leftarrow> get_page_table dir i s;
                   let (start, stop) = map_range i F D (F + D) P ((E - 1) mod 1024);
                   map_pages page_table f start stop (phy, s) }) [F..<F + D] (pa - 4096, s) = Some t" "Q (F + D) t"
    by blast
  moreover have "upto (F + D) = E" using V E by (simp add: upto_def)
  ultimately show ?thesis by (cases t) (auto simp: Q_def)
qed

text \<open>
  The region \<open>pa\<close> is mapped page by page from virtual address \<open>va\<close> on; it has \<open>N\<close> pages and uses
  \<open>D\<close> directory slots, which have to reach its last page.
\<close>

lemma map_vm_mem_spec:
  fixes va pa sz f :: u32
  defines "V \<equiv> unat va div 4096" and "N \<equiv> (unat sz + 4095) div 4096"
  defines "D \<equiv> (N + 1023) div 1024"
  assumes ok: "dir_ok A dir s" and al: "al va" "al pa" and f: "unat f < 4096"
    and sz: "0 < unat sz" "unat sz < 2 ^ 31" "unat va + unat sz \<le> 2 ^ 32"
    and fits: "V mod 1024 + N \<le> 1024 * D" and room: "vm_room (D + m) A s"
  shows "\<exists>s' A'. map_vm_mem dir va pa sz f s = Some s' \<and> dir_step dir A s A' s' \<and> vm_room m A' s'
     \<and> (\<forall>v < 2 ^ 20. walk dir v s' = (if V \<le> v \<and> v < V + N then (pa + of_nat (4096 * (v - V))) OR f else walk dir v s))"
proof -
  have va: "unat va = 4096 * V" using al(1) by (auto simp: al_unat V_def)
  obtain z where z: "unat sz = Suc z" using sz(1) by (cases "unat sz") auto
  have N: "N = z div 4096 + 1" unfolding N_def z by simp
  have E: "V + N \<le> 2 ^ 20"
  proof -
    have "4096 * V + z < 4096 * 2 ^ 20" using sz(3) va z by simp
    then have "(z + 4096 * V) div 4096 < 2 ^ 20" by (subst less_mult_imp_div_less) (simp_all add: ac_simps)
    then show ?thesis unfolding N by simp
  qed
  have wrap: "unat (va + sz - 1) = unat va + z"
  proof -
    have "va + sz = of_nat (unat va + unat sz)" by simp
    then have "va + sz - 1 = of_nat (unat va + z)" by (simp add: z)
    then show ?thesis using sz(3) z by (simp only: unat_of_nat) simp
  qed
  have "(unat va + z) div 4096 = V + N - 1" unfolding va N by simp
  then have lpt: "first_pt_of (va + sz - 1) = (V + N - 1) mod 1024" by (simp only: first_pt_eq wrap)
  have pc: "unat (page_count_of sz) = N" using page_count_eq [OF sz(2)] by (simp only: N_def)
  have "N < 2 ^ 31" using E by simp
  then have pd: "unat (pd_count_of (page_count_of sz)) = D" using pd_count_eq [of "page_count_of sz"] by (simp only: pc D_def)
  have F: "unat (drop_bit 22 va) = V div 1024" "first_pt_of va = V mod 1024" by (simp_all only: first_pd_eq first_pt_eq V_def)
  have D: "1024 * (D - 1) < N" "0 < D" using N unfolding D_def by auto
  have b: "V + N \<le> 1024 * (V div 1024 + D)" "1024 * (V div 1024 + D - 1) < V + N"
  proof -
    have v: "V = 1024 * (V div 1024) + V mod 1024" by simp
    show "V + N \<le> 1024 * (V div 1024 + D)" using fits v by (simp only: distrib_left)
    have "1024 * (V div 1024 + D - 1) = 1024 * (V div 1024) + 1024 * (D - 1)" using D(2) by (simp add: algebra_simps)
    then show "1024 * (V div 1024 + D - 1) < V + N" using D(1) v by linarith
  qed
  have "V < V + N" using N by simp
  then obtain phy s' A' where "for_each (\<lambda>i (phy, s).
              do { (page_table, s) \<leftarrow> get_page_table dir i s;
                   let (start, stop) = map_range i (V div 1024) D (V div 1024 + D) (V mod 1024) ((V + N - 1) mod 1024);
                   map_pages page_table f start stop (phy, s) }) [V div 1024..<V div 1024 + D] (pa - 4096, s) = Some (phy, s')"
      "dir_step dir A s A' s'" "vm_room m A' s'" "\<forall>v < 2 ^ 20. walk dir v s' = (if V \<le> v \<and> v < V + N then (pa + of_nat (4096 * (v - V))) OR f else walk dir v s)"
    using map_loop [OF ok _ _ b _ E room al(2) f, of V "V mod 1024"] by auto
  moreover from this(1) have "map_vm_mem dir va pa sz f s = Some s'"
    unfolding map_vm_mem_def Let_def pd F lpt by (simp add: add.commute [of D])
  ultimately show ?thesis by blast
qed

lemma map_one_page:
  assumes "dir_ok A dir s" and va: "al va" and "al pa" and "unat f < 4096" and "vm_room (Suc m) A s"
  shows "\<exists>s' A'. map_vm_mem dir va pa 4096 f s = Some s' \<and> dir_step dir A s A' s' \<and> vm_room m A' s'
     \<and> (\<forall>w < 2 ^ 20. walk dir w s' = (if w = unat va div 4096 then pa OR f else walk dir w s))"
proof -
  let ?V = "unat va div 4096"
  have n: "(unat (4096 :: u32) + 4095) div 4096 = 1" "(1 + 1023 :: nat) div 1024 = 1" by simp_all
  have "unat va < 2 ^ 20 * 4096" using unsigned_less [of va] by simp
  then have "unat va + unat (4096 :: u32) \<le> 2 ^ 32" using va by (auto simp: al_unat elim!: dvdE)
  moreover have "?V mod 1024 + 1 \<le> 1024 * 1" by (simp add: Suc_leI)
  ultimately obtain s' A' where s': "map_vm_mem dir va pa 4096 f s = Some s'" "dir_step dir A s A' s' \<and> vm_room m A' s'"
      "\<forall>w < 2 ^ 20. walk dir w s' = (if ?V \<le> w \<and> w < ?V + 1 then (pa + of_nat (4096 * (w - ?V))) OR f else walk dir w s)"
    using map_vm_mem_spec [OF assms(1-4), of 4096, unfolded n, of m] assms(5) by force
  have "walk dir w s' = (if w = ?V then pa OR f else walk dir w s)" if "w < 2 ^ 20" for w
    using s'(3) that by (cases "w = ?V") (simp, auto)
  then show ?thesis using s'(1,2) by blast
qed

text \<open>
  A region of at most 1024 pages that crosses the end of its first slot: the code asks for one slot,
  whose range is then empty, and maps nothing.
\<close>

lemma map_straddling_region:
  fixes va pa sz f :: u32
  defines "V \<equiv> unat va div 4096" and "N \<equiv> (unat sz + 4095) div 4096"
  assumes ok: "dir_ok A dir s" and al: "al va" and sz: "unat sz < 2 ^ 31" "unat va + unat sz \<le> 2 ^ 32"
    and N: "0 < N" "N \<le> 1024" "1024 < V mod 1024 + N" and room: "vm_room 1 A s"
  shows "\<exists>s'. map_vm_mem dir va pa sz f s = Some s' \<and> (\<forall>v < 2 ^ 20. walk dir v s' = walk dir v s)"
proof -
  have "unat va < 2 ^ 20 * 4096" using unsigned_less [of va] by simp
  then have F1024: "V div 1024 < 1024" unfolding V_def by (simp add: less_mult_imp_div_less)
  have room': "vm_room (Suc 0) A s" using room by simp
  obtain pt A' s' where s': "get_page_table dir (V div 1024) s = Some (pt, s')" "\<And>v. v < 2 ^ 20 \<Longrightarrow> walk dir v s' = walk dir v s"
    by (rule get_page_table_spec [OF ok F1024 room']) (use that in auto)
  have pc: "unat (page_count_of sz) = N" using page_count_eq [OF sz(1)] by (simp only: N_def)
  have "(N + 1023) div 1024 = 1" using N(1,2) by auto
  then have pd: "unat (pd_count_of (page_count_of sz)) = 1" using pd_count_eq [of "page_count_of sz"] N(2) by (simp only: pc) simp
  have F: "unat (drop_bit 22 va) = V div 1024" "first_pt_of va = V mod 1024" by (simp_all only: first_pd_eq first_pt_eq V_def)
  obtain z where z: "unat sz = Suc z" using N(1) by (cases "unat sz") (auto simp: N_def)
  have "va + sz = of_nat (unat va + unat sz)" by simp
  then have "va + sz - 1 = of_nat (unat va + z)" by (simp add: z)
  then have wrap: "unat (va + sz - 1) = unat va + z" using sz(2) z by (simp only: unat_of_nat) simp
  have "unat va = 4096 * V" using al by (auto simp: al_unat V_def)
  moreover have "N = z div 4096 + 1" unfolding N_def z by simp
  ultimately have "(unat va + z) div 4096 = V + N - 1" by simp
  then have "first_pt_of (va + sz - 1) = (V + N - 1) mod 1024" by (simp only: first_pt_eq wrap)
  moreover have "(V + N - 1) mod 1024 < V mod 1024"
  proof -
    have "V mod 1024 < 1024" by simp
    then have c: "V mod 1024 + N - 1 - 1024 < V mod 1024" "V mod 1024 + N - 1 - 1024 < 1024" using N by linarith+
    have "V + N - 1 = (V mod 1024 + N - 1 - 1024) + 1024 * (V div 1024 + 1)"
    proof -
      obtain q r where "V = 1024 * q + r" "r = V mod 1024" "q = V div 1024" by simp
      then show ?thesis using N(3) by simp
    qed
    then have "(V + N - 1) mod 1024 = (V mod 1024 + N - 1 - 1024) mod 1024" by (metis mod_mult_self2)
    then show ?thesis using c by simp
  qed
  ultimately have r: "first_pt_of (va + sz - 1) + 1 \<le> V mod 1024" by simp
  have "map_vm_mem dir va pa sz f s = Some s'"
    unfolding map_vm_mem_def Let_def pd F using s'(1) r by (simp add: map_range_def map_pages_def)
  then show ?thesis using s'(2) by blast
qed

section \<open>A first directory\<close>

definition vm0 :: "buddy_desc \<Rightarrow> vm" where
  "vm0 b = \<lparr>ram = (\<lambda>_. 0), buddy = b, regs = Map.empty, master_page_dir = 0, cr3 = 0\<rparr>"

lemma empty_dir_ok: "buddy_ok A (buddy s) \<Longrightarrow> is_page A dir \<Longrightarrow> ram s = (\<lambda>_. 0) \<Longrightarrow> dir_ok A dir s"
  by (simp add: dir_ok_def)

lemma first_dir:
  obtains b d b' where "buddy_init buddy_raw = Some b" and "alloc_page 4096 (vm0 b) = Some (page_of d, vm0 b')"
    and "dir_ok {(d, 0)} (page_of d) (vm0 b')" and "vm_room 1000 {(d, 0)} (vm0 b')"
proof -
  obtain b where b: "buddy_init buddy_raw = Some b" "buddy_ok {} b" "card (km_live (bmem b)) = 100"
    using buddy_raw_init by metis
  then obtain d b' where d: "alloc_page 4096 (vm0 b) = Some (page_of d, (vm0 b)\<lparr>buddy := b'\<rparr>)" "buddy_ok {(d, 0)} b'"
      "card (km_live (bmem b')) \<le> 120"
    using alloc_page_spec [of "{}" "vm0 b"] by (auto simp: vm0_def BUDDY_layout bsz_def PAGE_SIZE_def)
  have "dir_ok {(d, 0)} (page_of d) (vm0 b')" using d(2) by (intro empty_dir_ok) (auto simp: vm0_def is_page_def)
  moreover have "vm_room 1000 {(d, 0)} (vm0 b')" using d(3) by (simp add: vm_room_def vm0_def BUDDY_layout bsz_def PAGE_SIZE_def)
  ultimately show ?thesis using that b(1) d(1) by (simp add: vm0_def)
qed

lemma walk_vm0: "walk d v (vm0 b) = 0"
  by (simp add: walk_def vm0_def)

section \<open>Properties\<close>

text \<open>C11: while pages are available, \<open>map_vm_mem\<close> of a page-aligned region that does not reach past the
  directory slots its size asks for returns without a panic, and afterwards the processor finds, under
  the directory, the frames of the region with the given flags at its pages and what was there before
  at every other page. At most one page per slot is used for tables, nothing but the directory and its tables is written, tables in use stay where they
  are, and the reference counts of the pages in use are kept.\<close>

theorem map_vm_mem_maps:
  fixes va pa sz flags :: u32
  assumes "dir_ok A dir s" and "al va" and "al pa" and "unat flags < 4096"
    and "0 < unat sz" and "unat sz < 2 ^ 31" and "unat va + unat sz \<le> 2 ^ 32"
    and "unat va div 4096 mod 1024 + (unat sz + 4095) div 4096 \<le> 1024 * (((unat sz + 4095) div 4096 + 1023) div 1024)"
    and "vm_room (((unat sz + 4095) div 4096 + 1023) div 1024 + m) A s"
  shows "\<exists>s' A'. map_vm_mem dir va pa sz flags s = Some s' \<and> dir_step dir A s A' s' \<and> vm_room m A' s'
     \<and> (\<forall>v < 2 ^ 20. walk dir v s' =
          (if unat va div 4096 \<le> v \<and> v < unat va div 4096 + (unat sz + 4095) div 4096
           then (pa + of_nat (4096 * (v - unat va div 4096))) OR flags else walk dir v s))"
  using map_vm_mem_spec [OF assms] .

theorem map_vm_mem_maps_witness:
  "\<exists>b d b' s'. buddy_init buddy_raw = Some b \<and> alloc_page 4096 (vm0 b) = Some (page_of d, vm0 b')
     \<and> map_vm_mem (page_of d) 0x40000000 0x500000 8192 7 (vm0 b') = Some s'
     \<and> walk (page_of d) 0x40000 s' = 0x500007 \<and> walk (page_of d) 0x40001 s' = 0x501007 \<and> walk (page_of d) 0x40002 s' = 0"
proof -
  obtain b d b' where b: "buddy_init buddy_raw = Some b" "alloc_page 4096 (vm0 b) = Some (page_of d, vm0 b')"
      "dir_ok {(d, 0)} (page_of d) (vm0 b')" "vm_room 1000 {(d, 0)} (vm0 b')"
    by (rule first_dir)
  have "vm_room 1 {(d, 0)} (vm0 b')" using b(4) by (simp add: vm_room_def)
  then show ?thesis
    using map_vm_mem_maps [OF b(3), where va = "0x40000000" and pa = "0x500000" and flags = 7 and sz = 8192 and m = 0] b(1,2)
    by (fastforce simp: al_unat walk_vm0)
qed

end
