(* ===== verification/Vm_Fault.thy ===== *)
theory Vm_Fault
  imports Vm_Map
begin

text \<open>
  Copy on write: a write fault on a page that several processes share gives the faulting process
  a private copy and leaves the shared page and every other page of the process alone.
\<close>

unbundle bit_operations_syntax

section \<open>Frames and counts\<close>

lemma block_index_page:
  assumes "buddy_ok A b" and "(c, 0) \<in> A" and "unat f < 4096"
  shows "BLOCK_INDEX_FROM_PHY (ALIGN_4K (FROM_VIRT_TO_PHY (of_nat (page_of c)) OR f)) = BLOCK_INDEX c"
    and "BLOCK_INDEX_FROM_PHY (FROM_VIRT_TO_PHY (of_nat (page_of c))) = BLOCK_INDEX c"
    and "BLOCK_INDEX c < NUM_PAGES"
proof -
  have pg: "is_page A (page_of c)" using assms(2) by (auto simp: is_page_def)
  have c: "c + bsz 0 \<le> BUDDY_TOP" using bd_inv_bounds(1) [OF assms(1), of c 0] assms(2) by simp
  then have lt: "c < 2 ^ 32" by (simp add: bsz_def PAGE_SIZE_def BUDDY_layout)
  have "FROM_VIRT_TO_PHY (of_nat (page_of c)) - of_nat BUDDY_START_ADDR - of_nat PHY_MEM_START_ADDR = (of_nat c :: u32)"
    by (simp add: FROM_VIRT_TO_PHY_def page_of_def VIRT_MEM_START_ADDR_def PHY_MEM_START_ADDR_def)
  then show i: "BLOCK_INDEX_FROM_PHY (FROM_VIRT_TO_PHY (of_nat (page_of c))) = BLOCK_INDEX c"
    using lt by (simp add: BLOCK_INDEX_FROM_PHY_def BLOCK_INDEX_def unat_of_nat)
  show "BLOCK_INDEX_FROM_PHY (ALIGN_4K (FROM_VIRT_TO_PHY (of_nat (page_of c)) OR f)) = BLOCK_INDEX c"
    using or_flags(3) [OF al_FROM_VIRT [OF page_al(1) [OF assms(1) pg]] assms(3)] i by simp
  show "BLOCK_INDEX c < NUM_PAGES" using bd_inv_bounds(2) [OF assms(1), of c 0] assms(2) by simp
qed

lemma or_present: "f AND 1 = 1 \<Longrightarrow> (x OR f) AND 1 = 1" for x f :: u32
  by (auto simp: and_one_eq mod_2_eq_odd even_or_iff)

lemma walk_ram: "ram t = ram s \<Longrightarrow> walk dir v t = walk dir v s"
  by (simp add: walk_def Let_def)

lemma walk_buddy [simp]: "walk dir v (s\<lparr>buddy := b\<rparr>) = walk dir v s"
  by (rule walk_ram) simp

lemma or_7_flags:
  assumes "unat (f :: u32) < 4096"
  shows "unat (f OR 7) < 4096"
proof -
  have "take_bit 12 f = f" using assms by (simp only: word_unat_eq_iff unat_take12 mod_less)
  then have "take_bit 12 (f OR 7) = f OR 7" by (simp add: take_bit_or)
  then show ?thesis using unat_take12 [of "f OR 7"] by simp
qed

lemma block_index_inj:
  assumes "buddy_ok A b" and "(a, k) \<in> A" and "(c, j) \<in> A" and "a \<noteq> c"
  shows "BLOCK_INDEX a \<noteq> BLOCK_INDEX c"
proof -
  have "4096 dvd a" "4096 dvd c"
    using bd_inv_bounds(4) [OF assms(1), of a k] bd_inv_bounds(4) [OF assms(1), of c j] assms(2,3)
    by (auto simp: bsz_def PAGE_SIZE_def elim!: dvd_mult_left)
  then show ?thesis using assms(4) by (auto simp: BLOCK_INDEX_def PAGE_SIZE_def elim!: dvdE)
qed

lemma copy_page:
  assumes pg: "buddy_ok A b" "is_page A q" "is_page A r" "q \<noteq> r"
  shows "for_each (\<lambda>i s. do { v \<leftarrow> ld (r + 4 * i) s; st (q + 4 * i) v s }) [0..<1024] s =
    Some (s\<lparr>ram := fill q 0 1024 (\<lambda>i. ram s (r + 4 * i)) (ram s)\<rparr>)"
proof -
  let ?m = "\<lambda>k. fill q 0 k (\<lambda>i. ram s (r + 4 * i)) (ram s)"
  have "\<exists>t. for_each (\<lambda>i s. do { v \<leftarrow> ld (r + 4 * i) s; st (q + 4 * i) v s }) [0..<1024] s = Some t \<and> t = s\<lparr>ram := ?m 1024\<rparr>"
  proof (rule for_upto_runs [where P = "\<lambda>k t. t = s\<lparr>ram := ?m k\<rparr>"])
    fix i t assume i: "0 \<le> i" "i < 1024" and t: "t = s\<lparr>ram := ?m i\<rparr>"
    have "?m i (r + 4 * i) = ram s (r + 4 * i)"
      using fill_other [OF is_pageD(1) [OF pg(1,2)] is_pageD(1) [OF pg(1,3)] pg(4)] i by simp
    moreover have "(?m i)(q + 4 * i := ram s (r + 4 * i)) = ?m (Suc i)"
      by (rule fill_Suc [of 0 i q "\<lambda>i. ram s (r + 4 * i)"]) simp
    ultimately show "\<exists>t'. ld (r + 4 * i) t \<bind> (\<lambda>v. st (q + 4 * i) v t) = Some t' \<and> t' = s\<lparr>ram := ?m (Suc i)\<rparr>"
      using t page_kaddr [OF pg(1,2) i(2)] page_kaddr [OF pg(1,3) i(2)] by (simp add: ld_def st_def)
  qed simp_all
  then show ?thesis by simp
qed

lemma is_page_insert: "is_page (insert (a, 0) A) q \<longleftrightarrow> q = page_of a \<or> is_page A q"
  by (auto simp: is_page_def)

text \<open>Allocating and filling a page outside the directory changes no entry.\<close>

lemma fresh_fill:
  assumes ok: "dir_ok A dir s" and b: "buddy_ok (insert (a, 0) A) b" and new: "\<not> is_page A (page_of a)"
  shows "dir_ok (insert (a, 0) A) dir (s\<lparr>buddy := b, ram := fill (page_of a) 0 1024 g (ram s)\<rparr>)"
    and "w < 2 ^ 20 \<Longrightarrow> walk dir w (s\<lparr>buddy := b, ram := fill (page_of a) 0 1024 g (ram s)\<rparr>) = walk dir w s"
    and "is_page A q \<Longrightarrow> j < 1024 \<Longrightarrow> fill (page_of a) 0 1024 g (ram s) (q + 4 * j) = ram s (q + 4 * j)"
proof -
  let ?s = "s\<lparr>buddy := b, ram := fill (page_of a) 0 1024 g (ram s)\<rparr>"
  note inv = dir_okD(1) [OF ok] and dir = dir_okD(2) [OF ok]
  have al: "4096 dvd page_of a" using is_pageD(1) [OF b] by (simp add: is_page_insert)
  show keep: "fill (page_of a) 0 1024 g (ram s) (q + 4 * j) = ram s (q + 4 * j)" if "is_page A q" "j < 1024" for q j
  proof -
    have "page_of a \<noteq> q" using that new by blast
    then show ?thesis using fill_other [OF al is_pageD(1) [OF inv that(1)]] that by simp
  qed
  have slot: "pde dir j ?s = pde dir j s" if "j < 1024" for j using keep [OF dir that] by simp
  show "dir_ok (insert (a, 0) A) dir ?s"
    unfolding dir_ok_def is_page_insert using slot dir_okD [OF ok] b by simp
  show "walk dir w ?s = walk dir w s" if w: "w < 2 ^ 20"
  proof (rule walk_ram_cong)
    have i: "w div 1024 < 1024" using w by simp
    show "pde dir (w div 1024) ?s = pde dir (w div 1024) s" using slot i by simp
    assume "pde dir (w div 1024) s AND 1 \<noteq> 0"
    then have "pde dir (w div 1024) s \<noteq> 0" by auto
    then show "ram ?s (table_of (pde dir (w div 1024) s) + 4 * (w mod 1024)) = ram s (table_of (pde dir (w div 1024) s) + 4 * (w mod 1024))"
      using keep dir_okD(4) [OF ok i] by simp
  qed
qed

text \<open>A page that is neither the directory nor one of its tables.\<close>

definition data_page :: "(nat \<times> nat) set \<Rightarrow> addr \<Rightarrow> addr \<Rightarrow> vm \<Rightarrow> bool" where
  "data_page A dir q s \<longleftrightarrow> is_page A q \<and> q \<noteq> dir \<and> (\<forall>i < 1024. pde dir i s \<noteq> 0 \<longrightarrow> table_of (pde dir i s) \<noteq> q)"

lemma data_page_kept:
  assumes ok: "dir_ok A dir s" and step: "dir_step dir A s B t" and q: "data_page A dir q s" and j: "j < 1024"
  shows "ram t (q + 4 * j) = ram s (q + 4 * j)"
proof -
  have okt: "dir_ok B dir t" and AB: "A \<subseteq> B" using step by (simp_all add: dir_step_def)
  have al: "4096 dvd q" "4096 dvd dir"
    using is_pageD(1) [OF dir_okD(1) [OF ok]] q dir_okD(2) [OF ok] by (simp_all add: data_page_def)
  have "table_of (pde dir i t) \<noteq> q" if i: "i < 1024" "pde dir i t \<noteq> 0" for i
  proof (cases "pde dir i s = 0")
    case True
    then have "\<not> is_page A (table_of (pde dir i t))" using step i by (simp add: dir_step_def)
    then show ?thesis using q by (auto simp: data_page_def)
  next
    case False
    then have "pde dir i t = pde dir i s" using step i by (simp add: dir_step_def)
    then show ?thesis using q i False by (simp add: data_page_def)
  qed
  moreover have "4096 dvd table_of (pde dir i t)" if "i < 1024" "pde dir i t \<noteq> 0" for i
    using is_pageD(1) [OF dir_okD(1) [OF okt] dir_okD(4) [OF okt that]] .
  ultimately have "q + 4 * j \<notin> dir_words dir t"
    using page_word_eq(1) [OF al(1) _ j] q al(2) by (fastforce simp: dir_words_def words_def data_page_def)
  then show ?thesis using step by (simp add: dir_step_def)
qed

section \<open>Copy on write\<close>

lemma set_count_keeps:
  assumes "dir_ok A dir s" and "i < NUM_PAGES"
  shows "put_count i c s = Some (s\<lparr>buddy := (buddy s)\<lparr>count := (count (buddy s))(i := c mod 65536)\<rparr>\<rparr>)"
    and "dir_ok A dir (s\<lparr>buddy := (buddy s)\<lparr>count := g\<rparr>\<rparr>)"
proof -
  show "put_count i c s = Some (s\<lparr>buddy := (buddy s)\<lparr>count := (count (buddy s))(i := c mod 65536)\<rparr>\<rparr>)"
    using assms(2) by (simp add: put_count_def set_count_def)
  have "own_ok ((buddy s)\<lparr>count := g\<rparr>) = own_ok (buddy s)" "lists_ok ((buddy s)\<lparr>count := g\<rparr>) = lists_ok (buddy s)"
      "free_blocks ((buddy s)\<lparr>count := g\<rparr>) = free_blocks (buddy s)"
    by (simp_all add: own_ok_def lists_ok_def free_blocks_def)
  then have "buddy_ok A ((buddy s)\<lparr>count := g\<rparr>)"
    using dir_okD(1) [OF assms(1)] by (simp add: bd_inv_def)
  then show "dir_ok A dir (s\<lparr>buddy := (buddy s)\<lparr>count := g\<rparr>\<rparr>)"
    using assms(1) by (simp add: dir_ok_def)
qed

text \<open>The page becomes writable in its table.\<close>

lemma mark_writable:
  assumes ok: "dir_ok A dir s" and v: "v < 2 ^ 20" and e1: "walk dir v s AND 1 = 1"
  defines "pt \<equiv> table_of (pde dir (v div 1024) s)"
  obtains s1 where "ld (dir + 4 * (v div 1024)) s = Some (pde dir (v div 1024) s)"
    and "ld (pt + 4 * (v mod 1024)) s = Some (walk dir v s)"
    and "st (pt + 4 * (v mod 1024)) (walk dir v s OR 7) s = Some s1" and "dir_step dir A s A s1" and "buddy s1 = buddy s"
    and "\<And>w. w < 2 ^ 20 \<Longrightarrow> walk dir w s1 = (if w = v then walk dir v s OR 7 else walk dir w s)"
    and "\<And>q j. data_page A dir q s \<Longrightarrow> j < 1024 \<Longrightarrow> ram s1 (q + 4 * j) = ram s (q + 4 * j)"
    and "\<And>j. j < 1024 \<Longrightarrow> pde dir j s1 = pde dir j s"
proof -
  let ?i = "v div 1024" and ?j = "v mod 1024" and ?e = "walk dir v s"
  note inv = dir_okD(1) [OF ok] and dir = dir_okD(2) [OF ok]
  have i: "?i < 1024" using v by simp
  have nz: "pde dir ?i s \<noteq> 0" using e1 by (auto simp: walk_def split: if_splits)
  have pt: "is_page A pt" "pt \<noteq> dir" using dir_okD(4,5) [OF ok i nz] by (simp_all add: pt_def)
  have entry: "ram s (pt + 4 * ?j) = ?e" using dir_okD(3) [OF ok i nz] by (simp add: walk_def Let_def pt_def)
  define s1 where "s1 = s\<lparr>ram := fill pt ?j (Suc ?j) (\<lambda>_. ?e OR 7) (ram s)\<rparr>"
  have le: "Suc ?j \<le> 1024" by (simp add: Suc_leI)
  have other: "ram s1 (r + 4 * k) = ram s (r + 4 * k)" if "is_page A r" "r \<noteq> pt" "k < 1024" for r k
    using fill_other [OF is_pageD(1) [OF inv pt(1)] is_pageD(1) [OF inv that(1)]] that le by (auto simp: s1_def)
  have "w div 1024 = ?i \<and> ?j \<le> w mod 1024 \<and> w mod 1024 < Suc ?j \<longleftrightarrow> w = v" for w
    by (metis div_mult_mod_eq le_antisym less_Suc_eq_le order_refl)
  then have "walk dir w s1 = (if w = v then ?e OR 7 else walk dir w s)" if "w < 2 ^ 20" for w
    using fill_table_step(2) [OF ok i nz le that, where start = ?j and g = "\<lambda>_. ?e OR 7"] by (simp add: s1_def pt_def)
  moreover have "ram s1 (q + 4 * j) = ram s (q + 4 * j)" if "data_page A dir q s" "j < 1024" for q j
    using other [of q j] that i nz by (auto simp: data_page_def pt_def)
  moreover have "dir_step dir A s A s1" unfolding s1_def pt_def by (rule fill_table_step(1) [OF ok i nz le])
  moreover have "st (pt + 4 * ?j) (?e OR 7) s = Some s1"
    using page_kaddr [OF inv pt(1), of ?j] fill_Suc [of ?j ?j pt "\<lambda>_. ?e OR 7" "ram s"] by (simp add: st_def s1_def)
  ultimately show ?thesis
    using that [of s1] page_kaddr [OF inv dir i] page_kaddr [OF inv pt(1), of ?j] entry other [OF dir] pt(2)
    by (simp add: ld_def s1_def)
qed

text \<open>A new page receives the words of the page behind an entry.\<close>

lemma private_copy:
  assumes ok: "dir_ok A dir s" and cr3: "cr3 s = FROM_VIRT_TO_PHY (of_nat dir)"
    and e: "table_of (walk dir (unat va div 4096) s) = page_of c" "walk dir (unat va div 4096) s AND 1 = 1"
    and c: "data_page A dir (page_of c) s" and room: "vm_room 2 A s"
  obtains a b s3 where "alloc_page 4096 s = Some (page_of a, s\<lparr>buddy := b\<rparr>)"
    and "kmemcpy_page (page_of a) va (s\<lparr>buddy := b\<rparr>) = Some s3" and "dir_ok (insert (a, 0) A) dir s3" and "(a, 0) \<notin> A"
    and "vm_room 1 (insert (a, 0) A) s3" and "\<And>w. w < 2 ^ 20 \<Longrightarrow> walk dir w s3 = walk dir w s"
    and "\<And>j. j < 1024 \<Longrightarrow> ram s3 (page_of a + 4 * j) = ram s (page_of c + 4 * j) \<and> ram s3 (page_of c + 4 * j) = ram s (page_of c + 4 * j)"
    and "data_page (insert (a, 0) A) dir (page_of a) s3" and "data_page (insert (a, 0) A) dir (page_of c) s3"
    and "count (buddy s3) (BLOCK_INDEX a) = 0" and "\<And>d k. (d, k) \<in> A \<Longrightarrow> count (buddy s3) (BLOCK_INDEX d) = count (buddy s) (BLOCK_INDEX d)"
proof -
  note inv = dir_okD(1) [OF ok] and dir = dir_okD(2) [OF ok]
  have pgc: "is_page A (page_of c)" using c by (simp add: data_page_def)
  have room': "vm_room (Suc 1) A s" using room by (simp add: numeral_2_eq_2)
  obtain q a b where q: "alloc_page 4096 s = Some (q, s\<lparr>buddy := b\<rparr>)" "buddy_ok (insert (a, 0) A) b"
      "is_page (insert (a, 0) A) q" "\<not> is_page A q" "\<And>m. vm_room 1 (insert (a, 0) A) (s\<lparr>buddy := b, ram := m\<rparr>)"
      "\<forall>(c, k) \<in> A. count b (BLOCK_INDEX c) = count (buddy s) (BLOCK_INDEX c)" "q = page_of a" "count b (BLOCK_INDEX a) = 0"
    by (rule new_page_spec [OF inv room'], rule that)
  define s3 where "s3 = s\<lparr>buddy := b, ram := fill q 0 1024 (\<lambda>j. ram s (page_of c + 4 * j)) (ram s)\<rparr>"
  have pgs: "is_page (insert (a, 0) A) (page_of c)" "q \<noteq> page_of c" using pgc q(4) by (auto simp: is_page_insert)
  note new = fresh_fill [OF ok q(2) q(4) [unfolded q(7)], folded q(7)]
  have "unat (FROM_PHY_TO_VIRT (cr3 s)) = dir"
    using page_al(3) [OF inv dir] by (simp add: cr3 FROM_PHY_TO_VIRT_def FROM_VIRT_TO_PHY_def)
  then have "kmemcpy_page q va (s\<lparr>buddy := b\<rparr>) = Some s3"
    using e copy_page [OF q(2,3) pgs] by (simp add: kmemcpy_page_def Let_def s3_def)
  moreover have slot: "pde dir i s3 = pde dir i s" if "i < 1024" for i using new(3) [OF dir that] by (simp add: s3_def)
  have "data_page (insert (a, 0) A) dir q s3" "data_page (insert (a, 0) A) dir (page_of c) s3"
    using c q(4,7) dir_okD(4) [OF ok] dir slot unfolding data_page_def is_page_insert by metis+
  moreover have "ram s3 (q + 4 * j) = ram s (page_of c + 4 * j) \<and> ram s3 (page_of c + 4 * j) = ram s (page_of c + 4 * j)"
    if "j < 1024" for j
    using that new(3) [OF pgc that] by (simp add: s3_def fill_at)
  moreover have "(a, 0) \<notin> A" using q(4,7) by (auto simp: is_page_def)
  moreover have "count (buddy s3) (BLOCK_INDEX d) = count (buddy s) (BLOCK_INDEX d)" if "(d, k) \<in> A" for d k
    using bspec [OF q(6) that] by (simp add: s3_def)
  ultimately show ?thesis
    using that [of a b s3] q new(1,2) by (simp add: s3_def)
qed

lemma copy_on_write_spec:
  fixes va fl :: u32
  defines "v \<equiv> unat va div 4096"
  assumes ok: "dir_ok A (page_dir p) s" and cr3: "cr3 s = FROM_VIRT_TO_PHY (of_nat (page_dir p))" and al: "al va"
    and e: "walk (page_dir p) v s = FROM_VIRT_TO_PHY (of_nat (page_of c)) OR fl" "unat fl < 4096" "fl AND 1 = 1"
    and c: "(c, 0) \<in> A" "data_page A (page_dir p) (page_of c) s"
    and shared: "1 < count (buddy s) (BLOCK_INDEX c)" "count (buddy s) (BLOCK_INDEX c) < 32768"
    and room: "vm_room 2 A s"
  shows "\<exists>s' A' a. copy_on_write p va s = Some s' \<and> dir_ok A' (page_dir p) s' \<and> A \<subseteq> A' \<and> (a, 0) \<in> A' - A
     \<and> walk (page_dir p) v s' = FROM_VIRT_TO_PHY (of_nat (page_of a)) OR 7
     \<and> (\<forall>w < 2 ^ 20. w \<noteq> v \<longrightarrow> walk (page_dir p) w s' = walk (page_dir p) w s)
     \<and> (\<forall>j < 1024. ram s' (page_of a + 4 * j) = ram s (page_of c + 4 * j) \<and> ram s' (page_of c + 4 * j) = ram s (page_of c + 4 * j))
     \<and> count (buddy s') (BLOCK_INDEX a) = 1 \<and> count (buddy s') (BLOCK_INDEX c) = count (buddy s) (BLOCK_INDEX c) - 1"
proof -
  let ?dir = "page_dir p" and ?e = "walk (page_dir p) v s" and ?n = "count (buddy s) (BLOCK_INDEX c)"
  let ?pt = "table_of (pde ?dir (v div 1024) s)"
  note inv = dir_okD(1) [OF ok]
  have "unat va < 2 ^ 20 * 4096" using unsigned_less [of va] by simp
  then have v: "v < 2 ^ 20" unfolding v_def by (rule less_mult_imp_div_less)
  have pgc: "is_page A (page_of c)" using c(2) by (simp add: data_page_def)
  have e1: "?e AND 1 = 1" unfolding e(1) by (rule or_present [OF e(3)])
  obtain s1 where s1: "ld (?dir + 4 * (v div 1024)) s = Some (pde ?dir (v div 1024) s)" "ld (?pt + 4 * (v mod 1024)) s = Some ?e"
      "st (?pt + 4 * (v mod 1024)) (?e OR 7) s = Some s1" "dir_step ?dir A s A s1" "buddy s1 = buddy s"
      "\<And>w. w < 2 ^ 20 \<Longrightarrow> walk ?dir w s1 = (if w = v then ?e OR 7 else walk ?dir w s)"
      "\<And>q j. data_page A ?dir q s \<Longrightarrow> j < 1024 \<Longrightarrow> ram s1 (q + 4 * j) = ram s (q + 4 * j)"
      "\<And>j. j < 1024 \<Longrightarrow> pde ?dir j s1 = pde ?dir j s"
    by (rule mark_writable [OF ok v e1], rule that)
  have ok1: "dir_ok A ?dir s1" "cr3 s1 = cr3 s" using s1(4) by (simp_all add: dir_step_def)
  have "?e OR 7 = FROM_VIRT_TO_PHY (of_nat (page_of c)) OR (fl OR 7)" by (simp only: e(1) or.assoc)
  then have frame: "table_of (walk ?dir v s1) = page_of c" "walk ?dir v s1 AND 1 = 1"
    using table_of_entry [OF page_al(1) [OF inv pgc] or_7_flags [OF e(2)]] page_al(3) [OF inv pgc] or_present [of 7 ?e] s1(6) [OF v] by simp_all
  have c1: "data_page A ?dir (page_of c) s1" "vm_room 2 A s1" using c(2) s1(5,8) room by (simp_all add: data_page_def vm_room_def)
  obtain a b s3 where s3: "alloc_page 4096 s1 = Some (page_of a, s1\<lparr>buddy := b\<rparr>)"
      "kmemcpy_page (page_of a) va (s1\<lparr>buddy := b\<rparr>) = Some s3" "dir_ok (insert (a, 0) A) ?dir s3" "(a, 0) \<notin> A"
      "vm_room 1 (insert (a, 0) A) s3" "\<And>w. w < 2 ^ 20 \<Longrightarrow> walk ?dir w s3 = walk ?dir w s1"
      "\<And>j. j < 1024 \<Longrightarrow> ram s3 (page_of a + 4 * j) = ram s1 (page_of c + 4 * j) \<and> ram s3 (page_of c + 4 * j) = ram s1 (page_of c + 4 * j)"
      "data_page (insert (a, 0) A) ?dir (page_of a) s3" "data_page (insert (a, 0) A) ?dir (page_of c) s3"
      "count (buddy s3) (BLOCK_INDEX a) = 0" "\<And>d k. (d, k) \<in> A \<Longrightarrow> count (buddy s3) (BLOCK_INDEX d) = count (buddy s1) (BLOCK_INDEX d)"
    by (rule private_copy [OF ok1(1) _ frame(1) [unfolded v_def] frame(2) [unfolded v_def] c1], simp add: ok1 cr3, rule that)
  note inv3 = dir_okD(1) [OF s3(3)]
  have pga: "is_page (insert (a, 0) A) (page_of a)" by (simp add: is_page_insert)
  obtain s4 B where s4: "map_vm_mem ?dir va (FROM_VIRT_TO_PHY (of_nat (page_of a))) 4096 7 s3 = Some s4" "dir_step ?dir (insert (a, 0) A) s3 B s4"
      "\<And>w. w < 2 ^ 20 \<Longrightarrow> walk ?dir w s4 = (if w = v then FROM_VIRT_TO_PHY (of_nat (page_of a)) OR 7 else walk ?dir w s3)"
    using map_one_page [OF s3(3) al al_FROM_VIRT [OF page_al(1) [OF inv3 pga]], of 7 0] s3(5) by (auto simp: v_def)
  note idx = block_index_page [OF inv3 _ e(2)]
  have ac: "BLOCK_INDEX a \<noteq> BLOCK_INDEX c" using block_index_inj [OF inv3, of a 0 c 0] s3(4) c(1) by auto
  have cnt: "count (buddy s4) (BLOCK_INDEX c) = ?n" "count (buddy s4) (BLOCK_INDEX a) = 0"
    using dir_step_count [OF s4(2), of c 0] dir_step_count [OF s4(2), of a 0] s3(10) s3(11) [OF c(1)] s1(5) c(1) by simp_all
  have ok4: "dir_ok B ?dir s4" and AB: "insert (a, 0) A \<subseteq> B" using s4(2) by (simp_all add: dir_step_def)
  let ?s = "s4\<lparr>buddy := (buddy s4)\<lparr>count := (count (buddy s4))(BLOCK_INDEX c := ?n - 1, BLOCK_INDEX a := 1)\<rparr>\<rparr>"
  have counts: "count_dec (BLOCK_INDEX c) s4 \<bind> count_inc (BLOCK_INDEX a) = Some ?s"
    using shared idx(3) [of c] idx(3) [of a] c(1) cnt ac
    by (simp add: count_dec_def count_inc_def get_count_def put_count_def set_count_def mod_if)
  have run: "copy_on_write p va s = Some ?s"
    unfolding copy_on_write_def Let_def first_pd_eq first_pt_eq v_def [symmetric]
    using s1(1-3,5) idx(1,3) [of c] idx(2) [of a] c(1) shared s3(1,2) s4(1) counts
    by (simp add: PAGE_SIZE_def get_count_def e(1) flip: v_def)
  have "walk ?dir w s4 = walk ?dir w s" if "w < 2 ^ 20" "w \<noteq> v" for w
    using s4(3) [OF that(1)] s3(6) [OF that(1)] s1(6) [OF that(1)] that(2) by simp
  moreover have "ram s4 (page_of x + 4 * j) = ram s3 (page_of x + 4 * j)" if "x = a \<or> x = c" "j < 1024" for x j
    using data_page_kept [OF s3(3) s4(2) _ that(2)] s3(8,9) that(1) by blast
  ultimately show ?thesis
    using run set_count_keeps(2) [OF ok4] idx(3) [of c] c(1) AB ac s3(4,7) s1(7) [OF c(2)] s4(3) [OF v]
    by (intro exI [of _ ?s] exI [of _ B] exI [of _ a]) auto
qed

section \<open>The handler\<close>

lemma fault_page:
  fixes a :: u32
  shows "al (a AND NOT 0xFFF)" and "unat (a AND NOT 0xFFF) div 4096 = unat a div 4096"
proof -
  have "NOT 0xFFF = (0xFFFFF000 :: u32)" by code_simp
  then have "a AND NOT 0xFFF = ALIGN_4K a" by (simp only: ALIGN_4K_def)
  then have e: "unat (a AND NOT 0xFFF) = 4096 * (unat a div 4096)"
    using unat_ALIGN_4K [of a] by (simp only: minus_mod_eq_mult_div)
  then show "al (a AND NOT 0xFFF)" "unat (a AND NOT 0xFFF) div 4096 = unat a div 4096" by (simp_all only: al_unat, simp_all)
qed

lemma write_fault_code:
  assumes "code AND 3 = (3 :: u8)"
  shows "code AND 1 \<noteq> PAGE_OUT_MEMORY" and "code AND 3 = PAGE_IN_MEMORY OR PAGE_WRITE"
proof -
  have "code AND 1 = (code AND 3) AND 1" by (simp add: and.assoc)
  then show "code AND 1 \<noteq> PAGE_OUT_MEMORY" using assms by (simp add: PAGE_OUT_MEMORY_def)
  show "code AND 3 = PAGE_IN_MEMORY OR PAGE_WRITE" using assms by (simp add: PAGE_IN_MEMORY_def PAGE_WRITE_def)
qed

lemma write_fault_runs:
  assumes "CHECK_MEM_REG a (process_mem_reg p) (regs s) = Some x" and "CHECK_MEM_REG a (heap_mem_reg p) (regs s) = Some y"
    and "CHECK_MEM_REG a (ustack_mem_reg p) (regs s) = Some z" and "x \<or> y \<or> z" and "code AND 3 = 3"
  shows "page_fault_handler elf p a code sp s =
    map_option (SWITCH_PAGE_DIR (FROM_VIRT_TO_PHY (of_nat (page_dir p)))) (copy_on_write p (a AND NOT 0xFFF) s)"
  using assms write_fault_code [OF assms(5)]
  by (cases "copy_on_write p (a AND NOT 0xFFF) s") (auto simp: page_fault_handler_def Let_def)

lemma switch_dir [simp]:
  "dir_ok A dir (SWITCH_PAGE_DIR d s) = dir_ok A dir s" "walk dir v (SWITCH_PAGE_DIR d s) = walk dir v s"
  "ram (SWITCH_PAGE_DIR d s) = ram s" "buddy (SWITCH_PAGE_DIR d s) = buddy s"
  by (simp_all add: SWITCH_PAGE_DIR_def dir_ok_def walk_def Let_def)

section \<open>A shared page\<close>

text \<open>A process with one heap page that two processes use.\<close>

definition proc0 :: "addr \<Rightarrow> process_context" where
  "proc0 dir = \<lparr>processor_reg = \<lparr>eax = 0, ebx = 0, ecx = 0, edx = 0, esi = 0, edi = 0, esp = 0, ds = 0, es = 0\<rparr>,
     pid = 1, pgid = 1, parent = 0, tick = 0, console_desc = 0, process_type = USERSPACE_PROCESS, phy_space_size = 0,
     page_dir = dir, sleep_time = 0, assigned_sleep_time = 0, static_priority = 0, curr_sched_queue_index = 9,
     proc_status = RUNNING, root_dir_inode_number = 2, current_dir_inode_number = 2, next_fd = 0, file_desc = 0,
     phy_kernel_stack = 0, process_mem_reg = 1, heap_mem_reg = 2, ustack_mem_reg = 3, elf_desc = 0, socket_desc = 0,
     next_sd = 0, sig_num = 0, icmp_pending_req = 0, sleep_wait_queue_ref = 0, pgid_list_ref = 0\<rparr>"

definition regs0 :: mem_regs where
  "regs0 = [1 \<mapsto> \<lparr>start_addr = 0x100000, end_addr = 0x200000\<rparr>, 2 \<mapsto> \<lparr>start_addr = 0x40000000, end_addr = 0x40200000\<rparr>,
            3 \<mapsto> \<lparr>start_addr = 0xBFEFC000, end_addr = 0xBFFFC000\<rparr>]"

lemma shared_page_state:
  obtains A dir c s where "dir_ok A dir s" and "cr3 s = FROM_VIRT_TO_PHY (of_nat dir)" and "regs s = regs0"
    and "walk dir 0x40000 s = FROM_VIRT_TO_PHY (of_nat (page_of c)) OR 5" and "(c, 0) \<in> A" and "data_page A dir (page_of c) s"
    and "count (buddy s) (BLOCK_INDEX c) = 2" and "vm_room 2 A s"
proof -
  obtain d b where d: "dir_ok {(d, 0)} (page_of d) (vm0 b)" "vm_room 1000 {(d, 0)} (vm0 b)" using first_dir by metis
  obtain c b' where c: "buddy_ok {(c, 0), (d, 0)} b'" "is_page {(c, 0), (d, 0)} (page_of c)" "\<not> is_page {(d, 0)} (page_of c)"
      "\<And>m. vm_room 999 {(c, 0), (d, 0)} ((vm0 b)\<lparr>buddy := b', ram := m\<rparr>)"
    by (rule new_page_spec [OF dir_okD(1) [OF d(1)], of 999]) (use d(2) that in auto)
  let ?A = "{(c, 0), (d, 0)}" and ?d = "page_of d"
  have ok: "dir_ok ?A ?d (vm0 b')" using c(1) by (intro empty_dir_ok) (auto simp: vm0_def is_page_def)
  have room: "vm_room (Suc 2) ?A (vm0 b')" using c(4) [of "\<lambda>_. 0"] by (simp add: vm_room_def vm0_def)
  have "al (0x40000000 :: u32)" by (simp add: al_unat)
  from map_one_page [OF ok this al_FROM_VIRT [OF page_al(1) [OF c(1,2)]] _ room, of 5]
  obtain s A where s: "dir_step ?d ?A (vm0 b') A s" "vm_room 2 A s" "walk ?d 0x40000 s = FROM_VIRT_TO_PHY (of_nat (page_of c)) OR 5"
    by auto
  have okA: "dir_ok A ?d s" and sub: "?A \<subseteq> A" using s(1) by (simp_all add: dir_step_def)
  have "is_page A (page_of c)" using is_page_mono [OF c(2) sub] .
  moreover have "page_of c \<noteq> ?d" using c(3) by (auto simp: is_page_def)
  moreover have "table_of (pde ?d i s) \<noteq> page_of c" if "i < 1024" "pde ?d i s \<noteq> 0" for i
    using s(1) that c(2) by (auto simp: dir_step_def vm0_def)
  ultimately have data: "data_page A ?d (page_of c) s" by (simp add: data_page_def)
  let ?s = "s\<lparr>buddy := (buddy s)\<lparr>count := (count (buddy s))(BLOCK_INDEX c := 2)\<rparr>, regs := regs0, cr3 := FROM_VIRT_TO_PHY (of_nat ?d)\<rparr>"
  have "dir_ok A ?d (s\<lparr>buddy := (buddy s)\<lparr>count := (count (buddy s))(BLOCK_INDEX c := 2)\<rparr>\<rparr>)"
    by (rule set_count_keeps(2) [OF okA, of 0]) (simp add: BUDDY_layout)
  then have "dir_ok A ?d ?s" by (simp add: dir_ok_def)
  moreover have "walk ?d 0x40000 ?s = walk ?d 0x40000 s" by (rule walk_ram) simp
  ultimately show ?thesis
    using that [of A ?d ?s c] s(2,3) data sub by (simp add: data_page_def vm_room_def)
qed

section \<open>Properties\<close>

text \<open>C12: a write fault of a process inside one of its regions, on a present page that other processes
  share, gives it a new page with the words of the shared one, writable, at that address; every
  other page of the process is mapped as before, the shared page keeps its words and loses one user.\<close>

theorem write_fault_copies:
  fixes fault_addr fl :: u32
  assumes "dir_ok A (page_dir p) s" and "cr3 s = FROM_VIRT_TO_PHY (of_nat (page_dir p))"
    and "walk (page_dir p) (unat fault_addr div 4096) s = FROM_VIRT_TO_PHY (of_nat (page_of c)) OR fl"
    and "unat fl < 4096" and "fl AND 1 = 1" and "(c, 0) \<in> A" and "data_page A (page_dir p) (page_of c) s"
    and "1 < count (buddy s) (BLOCK_INDEX c)" and "count (buddy s) (BLOCK_INDEX c) < 32768" and "vm_room 2 A s"
    and "CHECK_MEM_REG fault_addr (process_mem_reg p) (regs s) = Some x"
    and "CHECK_MEM_REG fault_addr (heap_mem_reg p) (regs s) = Some y"
    and "CHECK_MEM_REG fault_addr (ustack_mem_reg p) (regs s) = Some z" and "x \<or> y \<or> z" and "fault_code AND 3 = 3"
  shows "\<exists>s' A' a. page_fault_handler elf_loader_read p fault_addr fault_code user_esp s = Some s'
     \<and> dir_ok A' (page_dir p) s' \<and> (a, 0) \<in> A' - A
     \<and> walk (page_dir p) (unat fault_addr div 4096) s' = FROM_VIRT_TO_PHY (of_nat (page_of a)) OR 7
     \<and> (\<forall>w < 2 ^ 20. w \<noteq> unat fault_addr div 4096 \<longrightarrow> walk (page_dir p) w s' = walk (page_dir p) w s)
     \<and> (\<forall>j < 1024. ram s' (page_of a + 4 * j) = ram s (page_of c + 4 * j)
                   \<and> ram s' (page_of c + 4 * j) = ram s (page_of c + 4 * j))
     \<and> count (buddy s') (BLOCK_INDEX a) = 1
     \<and> count (buddy s') (BLOCK_INDEX c) = count (buddy s) (BLOCK_INDEX c) - 1"
proof -
  obtain s' A' a where s': "copy_on_write p (fault_addr AND NOT 0xFFF) s = Some s'" "dir_ok A' (page_dir p) s'" "(a, 0) \<in> A' - A"
      "walk (page_dir p) (unat fault_addr div 4096) s' = FROM_VIRT_TO_PHY (of_nat (page_of a)) OR 7"
      "\<forall>w < 2 ^ 20. w \<noteq> unat fault_addr div 4096 \<longrightarrow> walk (page_dir p) w s' = walk (page_dir p) w s"
      "\<forall>j < 1024. ram s' (page_of a + 4 * j) = ram s (page_of c + 4 * j) \<and> ram s' (page_of c + 4 * j) = ram s (page_of c + 4 * j)"
      "count (buddy s') (BLOCK_INDEX a) = 1" "count (buddy s') (BLOCK_INDEX c) = count (buddy s) (BLOCK_INDEX c) - 1"
    using copy_on_write_spec [OF assms(1,2) fault_page(1) [of fault_addr], unfolded fault_page(2), OF assms(3-10)] by blast
  then show ?thesis
    using write_fault_runs [OF assms(11-15)]
    by (intro exI [of _ "SWITCH_PAGE_DIR (FROM_VIRT_TO_PHY (of_nat (page_dir p))) s'"] exI [of _ A'] exI [of _ a]) simp
qed

theorem write_fault_copies_witness:
  "\<exists>p c s s' a. walk (page_dir p) 0x40000 s = FROM_VIRT_TO_PHY (of_nat (page_of c)) OR 5 \<and> count (buddy s) (BLOCK_INDEX c) = 2
     \<and> page_fault_handler (\<lambda>_ _ _ _. None) p 0x40000123 7 0xBFFFB000 s = Some s'
     \<and> walk (page_dir p) 0x40000 s' = FROM_VIRT_TO_PHY (of_nat (page_of a)) OR 7
     \<and> count (buddy s') (BLOCK_INDEX a) = 1 \<and> count (buddy s') (BLOCK_INDEX c) = 1"
proof -
  obtain A dir c s where s: "dir_ok A dir s" "cr3 s = FROM_VIRT_TO_PHY (of_nat dir)" "regs s = regs0"
      "walk dir 0x40000 s = FROM_VIRT_TO_PHY (of_nat (page_of c)) OR 5" "(c, 0) \<in> A" "data_page A dir (page_of c) s"
      "count (buddy s) (BLOCK_INDEX c) = 2" "vm_room 2 A s"
    by (rule shared_page_state)
  have "page_dir (proc0 dir) = dir" by (simp add: proc0_def)
  moreover have "CHECK_MEM_REG 0x40000123 (process_mem_reg (proc0 dir)) (regs s) = Some False"
      "CHECK_MEM_REG 0x40000123 (heap_mem_reg (proc0 dir)) (regs s) = Some True"
      "CHECK_MEM_REG 0x40000123 (ustack_mem_reg (proc0 dir)) (regs s) = Some False"
    by (simp_all add: CHECK_MEM_REG_def proc0_def s(3) regs0_def)
  ultimately obtain s' a where "page_fault_handler (\<lambda>_ _ _ _. None) (proc0 dir) 0x40000123 7 0xBFFFB000 s = Some s'"
      "walk (page_dir (proc0 dir)) 0x40000 s' = FROM_VIRT_TO_PHY (of_nat (page_of a)) OR 7"
      "count (buddy s') (BLOCK_INDEX a) = 1" "count (buddy s') (BLOCK_INDEX c) = 1"
    using write_fault_copies [of A "proc0 dir" s "0x40000123" c 5 False True False 7 "\<lambda>_ _ _ _. None" "0xBFFFB000"] s by auto
  then show ?thesis using s(4,7) \<open>page_dir (proc0 dir) = dir\<close>
    by (intro exI [of _ "proc0 dir"] exI [of _ c] exI [of _ s] exI [of _ s'] exI [of _ a]) simp
qed

end
