(* ===== verification/Dl_Family.thy ===== *)
theory Dl_Family
  imports Dllist
begin

text \<open>
  Several lists in one heap. \<open>dl_fam h L\<close> says that the heap holds, for every list descriptor in
  the domain of \<open>L\<close>, a list with the given nodes and values, that no node is shared, and that the
  nodes lie in the allocator's pool for their size. Each list operation changes one list of the family.
  The allocator hands out the block released last, so that a node taken out of a list and put
  back at once keeps its address.
\<close>

section \<open>Blocks of the size of a node\<close>

definition node_pool :: "kmem \<Rightarrow> addr set" where
  "node_pool m = km_live_in 2 m"

lemma pool_12: "kmalloc_pool 0 sizeof_llist_node = 2" "2 < POOL_NUM"
proof -
  show "2 < POOL_NUM" by (simp add: POOL_NUM_eq)
  show "kmalloc_pool 0 sizeof_llist_node = 2"
    by (rule kmalloc_pool_range) (simp_all add: POOL_NUM_eq sizeof_llist_node_def)
qed

lemma node_pool_live: "node_pool m \<subseteq> km_live m"
  using pool_12(2) by (auto simp: node_pool_def km_live_def)

lemma live_in_iff:
  assumes "km_live m' = km_live m - S" and "i < POOL_NUM" and "a \<in> km_live_in i m" and "a \<notin> S"
  shows "a \<in> km_live_in i m'"
proof -
  have "a \<in> km_live m'" using assms by (auto simp: km_live_def)
  then obtain j where j: "j < POOL_NUM" "a \<in> km_live_in j m'" by (auto simp: km_live_def)
  then have "j = i" using km_live_in_disjoint [of i j a m m'] assms(3) by blast
  then show ?thesis using j by simp
qed

lemma node_pool_kfree:
  assumes "km_inv m" and "a \<in> km_live m" and "kfree a m = Some m'"
  shows "node_pool m' = node_pool m - {a}"
proof -
  have live: "km_live m' = km_live m - {a}" using kfree_spec [OF assms(1,2)] assms(3) by auto
  then have "km_live m = km_live m' \<union> {a}" using assms(2) by auto
  show ?thesis
  proof (intro set_eqI iffI)
    fix x assume x: "x \<in> node_pool m'"
    then have xl: "x \<in> km_live m'" using node_pool_live by blast
    then obtain j where j: "j < POOL_NUM" "x \<in> km_live_in j m" using live by (auto simp: km_live_def)
    then have "j = 2" using km_live_in_disjoint [of 2 j x m' m] x by (auto simp: node_pool_def)
    then show "x \<in> node_pool m - {a}" using j xl live by (auto simp: node_pool_def)
  next
    fix x assume "x \<in> node_pool m - {a}"
    then show "x \<in> node_pool m'" using live_in_iff [OF live pool_12(2)] by (auto simp: node_pool_def)
  qed
qed

lemma node_pool_kmalloc:
  assumes "km_inv m" and "kmalloc sizeof_llist_node m = Some (a, m')" and "kpanics m' = kpanics m"
  shows "a \<in> node_pool m'" and "node_pool m \<subseteq> node_pool m'"
proof -
  note sp = kmalloc_spec [OF assms]
  show "a \<in> node_pool m'" using sp(6) by (simp add: node_pool_def pool_12)
  show "node_pool m \<subseteq> node_pool m'"
  proof
    fix x assume x: "x \<in> node_pool m"
    then have "x \<in> km_live m'" using node_pool_live sp(7) by auto
    then obtain j where j: "j < POOL_NUM" "x \<in> km_live_in j m'" by (auto simp: km_live_def)
    then have "j = 2" using km_live_in_disjoint [of 2 j x m m'] x by (auto simp: node_pool_def)
    then show "x \<in> node_pool m'" using j by (simp add: node_pool_def)
  qed
qed

text \<open>The block released last is handed out next.\<close>

lemma kfree_kmalloc_same:
  assumes inv: "km_inv m" and a: "a \<in> node_pool m" and fr: "kfree a m = Some m'"
  obtains m'' where "kmalloc sizeof_llist_node m' = Some (a, m'')" and "kpanics m'' = kpanics m'"
proof -
  have mem: "a \<in> km_live_in 2 m" using a by (simp add: node_pool_def)
  have len: "length (pools m) = POOL_NUM" using inv by (simp add: km_inv_def)
  have m': "m' = m\<lparr>pools := (pools m)[2 := fst (a_fixed_size_free (pools m ! 2) a (hdrs m))],
      hdrs := snd (a_fixed_size_free (pools m ! 2) a (hdrs m))\<rparr>"
    using fr kfree_pool_live(1) [OF pool_12(2) mem] pool_12(2)
    by (auto simp: kfree_def pool_release_def Let_def split: prod.splits)
  have "current_free_block (pools m ! 2) \<le> MEM_TO_POOL"
    using pool_inv_count [OF km_invD(1) [OF inv pool_12(2)]] div_le_dividend le_trans by blast
  then have cnt: "wrap32 (current_free_block (pools m ! 2) + 1) \<noteq> 0" by (simp add: layout_simps)
  have "a < 2 ^ 32" "sizeof_block_desc \<le> a"
    using km_live_bounds(1,4) [OF pool_12(2) mem] by simp_all
  then have fb: "first_block (pools m' ! 2) + sizeof_block_desc = a" "current_free_block (pools m' ! 2) \<noteq> 0"
    using pool_12(2) len cnt by (simp_all add: m' a_fixed_size_free_def Let_def sub32_le)
  then obtain d h where "a_fixed_size_alloc (pools m' ! 2) (hdrs m') = (False, a, d, h)"
    by (simp add: a_fixed_size_alloc_def Let_def)
  then have "kmalloc sizeof_llist_node m' = Some (a, m'\<lparr>pools := (pools m')[2 := d], hdrs := h\<rparr>)"
    using pool_12 by (simp add: kmalloc_def pool_alloc_def Let_def)
  then show ?thesis using that by simp
qed

section \<open>Families of lists\<close>

type_synonym lists = "addr \<rightharpoonup> (addr \<times> addr) list"

definition dl_fam :: "dlheap \<Rightarrow> lists \<Rightarrow> bool" where
  "dl_fam h L \<longleftrightarrow> dl_inv h \<and> dom (nodes h) \<subseteq> node_pool (dmem h)
     \<and> (\<forall>l xs. L l = Some xs \<longrightarrow> dl_list h l xs)
     \<and> (\<forall>l l' xs ys. L l = Some xs \<longrightarrow> L l' = Some ys \<longrightarrow> l \<noteq> l' \<longrightarrow> dl_nodes h l xs \<inter> dl_nodes h l' ys = {})"

lemma dl_famD:
  assumes "dl_fam h L"
  shows "dl_inv h" and "dom (nodes h) \<subseteq> node_pool (dmem h)" and "L l = Some xs \<Longrightarrow> dl_list h l xs"
    and "L l = Some xs \<Longrightarrow> L l' = Some ys \<Longrightarrow> l \<noteq> l' \<Longrightarrow> dl_nodes h l xs \<inter> dl_nodes h l' ys = {}"
  using assms unfolding dl_fam_def by blast+

lemma dl_nodes_cong: "llists h' = llists h \<Longrightarrow> dl_nodes h' l xs = dl_nodes h l xs"
  by (simp add: dl_nodes_def)

lemma dl_nodes_dom: "dl_list h l xs \<Longrightarrow> dl_nodes h l xs \<subseteq> dom (nodes h)"
  using dlist_dom by (fastforce simp: dl_list_def dl_nodes_def)

lemma in_dl_nodes: "(n, v) \<in> set xs \<Longrightarrow> n \<in> dl_nodes h l xs"
  by (force simp: dl_nodes_def cycle_def)

lemma dl_nodes_append: "dl_nodes h l (ys @ zs) \<subseteq> dl_nodes h l (ys @ x # zs)"
    "dl_nodes h l (ys @ (n, v) # zs) = insert n (dl_nodes h l (ys @ zs))"
  by (auto simp: dl_nodes_def cycle_def)

text \<open>A node belongs to one list, at one place, with one value.\<close>

lemma fam_node_unique:
  assumes fam: "dl_fam h L" and "L l = Some xs" "(n, v) \<in> set xs" and "L l' = Some ys" "(n, w) \<in> set ys"
  shows "l' = l \<and> w = v"
proof -
  have "l' = l" using dl_famD(4) [OF fam assms(2,4)] in_dl_nodes [OF assms(3)] in_dl_nodes [OF assms(5)] by blast
  obtain d :: llist where "dlist (nodes h) (sentinel_node d) xs"
    using dl_famD(3) [OF fam assms(2)] by (auto simp: dl_list_def)
  then have vals: "val_of (nodes h) n = Some u" if "(n, u) \<in> set xs" for u using dlist_vals that by blast
  have "xs = ys" using \<open>l' = l\<close> assms(2,4) by simp
  then have "w = v" using vals [OF assms(3)] vals [of w] assms(5) by simp
  then show ?thesis using \<open>l' = l\<close> by simp
qed

lemma fam_val:
  assumes "dl_fam h L" and "L l = Some xs" and "(n, v) \<in> set xs"
  shows "ll_val n h = Some v"
  using dl_famD(3) [OF assms(1,2)] dlist_vals assms(3) by (force simp: dl_list_def ll_val_def val_of_def)

lemma delete_dmem:
  assumes "ll_delete_node n h = Some h'"
  shows "kfree n (dmem h) = Some (dmem h')" and "nodes h' n = None"
  using assms by (auto simp: ll_delete_node_def set_next_def set_prev_def Let_def)

lemma fam_delete:
  assumes fam: "dl_fam h L" and l: "L l = Some (ys @ (n, v) # zs)"
  obtains h' where "ll_delete_node n h = Some h'" and "dl_fam h' (L(l \<mapsto> ys @ zs))" and "llists h' = llists h"
    and "km_live (dmem h') = km_live (dmem h) - {n}" and "kpanics (dmem h') = kpanics (dmem h)"
    and "\<exists>m. kmalloc sizeof_llist_node (dmem h') = Some (n, m) \<and> kpanics m = kpanics (dmem h')"
proof -
  note inv = dl_famD(1) [OF fam] and dl = dl_famD(3) [OF fam l]
  obtain h' where h': "ll_delete_node n h = Some h'" "dl_inv h'" "llists h' = llists h"
      "km_live (dmem h') = km_live (dmem h) - {n}" "kpanics (dmem h') = kpanics (dmem h)" "dl_list h' l (ys @ zs)"
      "dom (nodes h') \<subseteq> dom (nodes h)"
      "\<And>l' xs. dl_list h l' xs \<Longrightarrow> dl_nodes h l' xs \<inter> dl_nodes h l (ys @ (n, v) # zs) = {} \<Longrightarrow> dl_list h' l' xs"
    using dl_delete_spec [OF inv dl] by auto
  note dm = delete_dmem [OF h'(1)]
  have kinv: "km_inv (dmem h)" using inv by (simp add: dl_inv_def)
  have "n \<in> dl_nodes h l (ys @ (n, v) # zs)" by (rule in_dl_nodes [of n v]) simp
  then have n: "n \<in> node_pool (dmem h)" using dl_nodes_dom [OF dl] dl_famD(2) [OF fam] by blast
  then have pool: "node_pool (dmem h') = node_pool (dmem h) - {n}"
    using node_pool_kfree [OF kinv _ dm(1)] node_pool_live by blast
  have "dl_fam h' (L(l \<mapsto> ys @ zs))"
    unfolding dl_fam_def
  proof (intro conjI allI impI)
    show "dom (nodes h') \<subseteq> node_pool (dmem h')" using h'(7) dl_famD(2) [OF fam] dm(2) by (auto simp: pool)
    show "dl_list h' a xs" if "(L(l \<mapsto> ys @ zs)) a = Some xs" for a xs
      using that h'(6) h'(8) [OF dl_famD(3) [OF fam]] dl_famD(4) [OF fam _ l] by (cases "a = l") auto
    show "dl_nodes h' a xs \<inter> dl_nodes h' b us = {}"
      if "(L(l \<mapsto> ys @ zs)) a = Some xs" "(L(l \<mapsto> ys @ zs)) b = Some us" "a \<noteq> b" for a b xs us
      using that dl_famD(4) [OF fam, of a xs b us] dl_famD(4) [OF fam l, of b us] dl_famD(4) [OF fam _ l, of a xs]
        dl_nodes_append(1) [of h l ys zs "(n, v)"]
      unfolding dl_nodes_cong [OF h'(3)] by (cases "a = l"; cases "b = l") (simp_all, blast+)
  qed (fact h'(2))
  moreover have "\<exists>m. kmalloc sizeof_llist_node (dmem h') = Some (n, m) \<and> kpanics m = kpanics (dmem h')"
    using kfree_kmalloc_same [OF kinv n dm(1)] by blast
  ultimately show ?thesis using that h' by blast
qed

lemma insert_dom:
  assumes "ll_insert_before node v h = Some (new, h')"
  shows "dom (nodes h') \<subseteq> insert new (dom (nodes h))"
  using assms by (auto simp: ll_insert_before_def set_prev_def set_next_def Let_def split: if_splits)

lemma fam_insert:
  assumes fam: "dl_fam h L" and l: "L l = Some (ys @ zs)"
    and km: "kmalloc sizeof_llist_node (dmem h) = Some (new, m')" "kpanics m' = kpanics (dmem h)"
    and node: "node = hd (map fst zs @ [sentinel_node (the (llists h l))])"
  obtains h' where "ll_insert_before node v h = Some (new, h')" and "dl_fam h' (L(l \<mapsto> ys @ (new, v) # zs))"
    and "llists h' = llists h" and "dmem h' = m'"
proof -
  note inv = dl_famD(1) [OF fam] and dl = dl_famD(3) [OF fam l]
  obtain h' where h': "ll_insert_before node v h = Some (new, h')" "dl_inv h'" "dmem h' = m'" "llists h' = llists h"
      "dl_list h' l (ys @ (new, v) # zs)"
      "\<And>l' xs. dl_list h l' xs \<Longrightarrow> dl_nodes h l' xs \<inter> dl_nodes h l (ys @ zs) = {} \<Longrightarrow> dl_list h' l' xs"
    using dl_insert_spec [OF inv dl km node, of v] by blast
  have kinv: "km_inv (dmem h)" using inv by (simp add: dl_inv_def)
  have fresh: "new \<notin> dom (nodes h)" using km.alloc_fresh [OF kinv km] inv by (auto simp: dl_inv_def)
  then have out: "new \<notin> dl_nodes h a xs" if "L a = Some xs" for a xs
    using dl_nodes_dom [OF dl_famD(3) [OF fam that]] by blast
  have "dl_fam h' (L(l \<mapsto> ys @ (new, v) # zs))"
    unfolding dl_fam_def
  proof (intro conjI allI impI)
    show "dom (nodes h') \<subseteq> node_pool (dmem h')"
      using insert_dom [OF h'(1)] node_pool_kmalloc [OF kinv km] dl_famD(2) [OF fam] h'(3) by blast
    show "dl_list h' a xs" if "(L(l \<mapsto> ys @ (new, v) # zs)) a = Some xs" for a xs
      using that h'(5) h'(6) [OF dl_famD(3) [OF fam]] dl_famD(4) [OF fam _ l] by (cases "a = l") auto
    show "dl_nodes h' a xs \<inter> dl_nodes h' b us = {}"
      if "(L(l \<mapsto> ys @ (new, v) # zs)) a = Some xs" "(L(l \<mapsto> ys @ (new, v) # zs)) b = Some us" "a \<noteq> b" for a b xs us
      using that dl_famD(4) [OF fam, of a xs b us] dl_famD(4) [OF fam l, of b us] dl_famD(4) [OF fam _ l, of a xs]
        dl_nodes_append(2) [of h l ys new v zs] out [of a xs] out [of b us]
      unfolding dl_nodes_cong [OF h'(4)] by (cases "a = l"; cases "b = l") simp_all
  qed (fact h'(2))
  then show ?thesis using that h' by blast
qed

text \<open>\<open>ll_append\<close> and \<open>ll_prepend\<close>, when the pool of nodes has a block left.\<close>

lemma node_block:
  assumes "dl_inv h" and "0 < current_free_block (pools (dmem h) ! 2)"
  obtains n m where "kmalloc sizeof_llist_node (dmem h) = Some (n, m)" and "kpanics m = kpanics (dmem h)"
  using kmalloc_total [of "dmem h" sizeof_llist_node] assms pool_12(1) by (auto simp: dl_inv_def sizeof_llist_node_def)

lemma fam_append:
  assumes fam: "dl_fam h L" and l: "L l = Some xs"
    and km: "kmalloc sizeof_llist_node (dmem h) = Some (new, m')" "kpanics m' = kpanics (dmem h)"
  obtains h' where "ll_append l v h = Some (new, h')" and "dl_fam h' (L(l \<mapsto> xs @ [(new, v)]))"
    and "llists h' = llists h" and "dmem h' = m'"
proof -
  obtain d where d: "llists h l = Some d" using dl_famD(3) [OF fam l] by (auto simp: dl_list_def)
  have l': "L l = Some (xs @ [])" using l by simp
  obtain h' where "ll_insert_before (sentinel_node d) v h = Some (new, h')" "dl_fam h' (L(l \<mapsto> xs @ [(new, v)]))"
      "llists h' = llists h" "dmem h' = m'"
    by (rule fam_insert [OF fam l' km, of "sentinel_node d" v]) (use d in simp_all)
  then show ?thesis using that d by (simp add: ll_append_def)
qed

lemma fam_prepend:
  assumes fam: "dl_fam h L" and l: "L l = Some xs"
    and km: "kmalloc sizeof_llist_node (dmem h) = Some (new, m')" "kpanics m' = kpanics (dmem h)"
  obtains h' where "ll_prepend l v h = Some (new, h')" and "dl_fam h' (L(l \<mapsto> (new, v) # xs))"
    and "llists h' = llists h" and "dmem h' = m'"
proof -
  obtain d where d: "llists h l = Some d" using dl_famD(3) [OF fam l] by (auto simp: dl_list_def)
  have first: "ll_first l h = Some (hd (map fst xs @ [sentinel_node d]))"
    by (rule dl_list_ends [OF dl_famD(3) [OF fam l]]) (use d in \<open>auto simp: ll_sentinel_def\<close>)
  have l': "L l = Some ([] @ xs)" using l by simp
  obtain h' where "ll_insert_before (hd (map fst xs @ [sentinel_node d])) v h = Some (new, h')"
      "dl_fam h' (L(l \<mapsto> (new, v) # xs))" "llists h' = llists h" "dmem h' = m'"
    by (rule fam_insert [OF fam l' km, of _ v]) (use d in simp_all)
  then show ?thesis using that d first by (auto simp: ll_prepend_def ll_first_def ll_sentinel_def ll_next_def)
qed

end
