(* ===== verification/Scheduler.thy ===== *)
theory Scheduler
  imports Vm Dl_Family
begin

text \<open>
  The scheduler and the life of processes (\<^verbatim>\<open>src/scheduler/scheduler.c\<close>,
  \<^verbatim>\<open>src/include/scheduler/\<close>): ten ready queues, the choice of the next process, sleeping and
  waking, process groups, \<^verbatim>\<open>fork\<close> and \<^verbatim>\<open>exit\<close>, the clock tick (\<^verbatim>\<open>src/drivers/lapic/lapic.c\<close>) and
  the way out of every interrupt (\<^verbatim>\<open>src/include/idt.h\<close>).

  Lists live in the pointer-level heap of \<open>Dllist\<close>; a process is named by the address of its
  descriptor. Reads through a pointer that is not what the code takes it for give the
  argument \<open>wild\<close>. A process that gives up the processor goes on in a later state, which the
  argument \<open>suspend\<close> provides: the effect of the software interrupt \<^verbatim>\<open>SUSPEND\<close> and of all that
  runs until the process is chosen again. Interrupt masking is not part of the state.
\<close>

section \<open>State\<close>

record elf_desc =
  elf_file_desc :: u32
  elf_file_offset :: u32
  elf_file_size :: u32

record sem_desc =
  wait_queue :: addr
  sem_count :: u32

text \<open>
  The parts of \<^verbatim>\<open>t_system\<close>, \<^verbatim>\<open>t_process_info\<close> and \<^verbatim>\<open>t_scheduler_desc\<close> that the code below uses. The
  heap of the lists carries the allocator of the whole kernel; the virtual memory borrows it.
\<close>

record kernel =
  lsts :: dlheap
  vmm :: vm
  procs :: "addr \<rightharpoonup> process_context"
  elfs :: "addr \<rightharpoonup> elf_desc"
  tables :: "addr \<rightharpoonup> addr hashtable"
  locks :: "addr \<rightharpoonup> u32"
  sems :: "addr \<rightharpoonup> sem_desc"
  current_process :: addr
  process_0 :: addr
  next_pid :: u32
  tss_esp :: u32
  scheduler_queue :: "addr list"
  pause_queue :: addr
  sleep_wait_queue :: addr
  pid_hash :: "addr hashtable"
  pgid_hash :: "addr hashtable"
  req_map :: "addr hashtable"
  systime :: u32
  force_scheduling :: u8
  int_path_count :: u32
  fg_pgid :: u32
  sleeping_process :: addr
  console_empty :: bool
  flush_network :: u8
  timer_list :: addr
  ktimers :: "addr \<rightharpoonup> u32"

definition sizeof_process_context :: nat where "sizeof_process_context = 148"
definition sizeof_elf_desc :: nat where "sizeof_elf_desc = 12"
definition QUANTUM_DURATION :: u32 where "QUANTUM_DURATION = 10"
definition TICK :: u32 where "TICK = 10"

section \<open>Access\<close>

definition on_lists :: "(dlheap \<Rightarrow> dlheap option) \<Rightarrow> kernel \<Rightarrow> kernel option" where
  "on_lists f k = do { h \<leftarrow> f (lsts k); Some (k\<lparr>lsts := h\<rparr>) }"

definition ret_lists :: "(dlheap \<Rightarrow> ('a \<times> dlheap) option) \<Rightarrow> kernel \<Rightarrow> ('a \<times> kernel) option" where
  "ret_lists f k = do { (a, h) \<leftarrow> f (lsts k); Some (a, k\<lparr>lsts := h\<rparr>) }"

definition on_heap :: "(kmem \<Rightarrow> kmem option) \<Rightarrow> kernel \<Rightarrow> kernel option" where
  "on_heap f = on_lists (\<lambda>h. do { m \<leftarrow> f (dmem h); Some (h\<lparr>dmem := m\<rparr>) })"

definition ret_heap :: "(kmem \<Rightarrow> ('a \<times> kmem) option) \<Rightarrow> kernel \<Rightarrow> ('a \<times> kernel) option" where
  "ret_heap f = ret_lists (\<lambda>h. do { (a, m) \<leftarrow> f (dmem h); Some (a, h\<lparr>dmem := m\<rparr>) })"

definition borrow_vm :: "kernel \<Rightarrow> vm" where
  "borrow_vm k = (vmm k)\<lparr>buddy := (buddy (vmm k))\<lparr>bmem := dmem (lsts k)\<rparr>\<rparr>"

definition return_vm :: "vm \<Rightarrow> kernel \<Rightarrow> kernel" where
  "return_vm s k = k\<lparr>vmm := s, lsts := (lsts k)\<lparr>dmem := bmem (buddy s)\<rparr>\<rparr>"

definition on_vm :: "(vm \<Rightarrow> vm option) \<Rightarrow> kernel \<Rightarrow> kernel option" where
  "on_vm f k = do { s \<leftarrow> f (borrow_vm k); Some (return_vm s k) }"

definition ret_vm :: "(vm \<Rightarrow> ('a \<times> vm) option) \<Rightarrow> kernel \<Rightarrow> ('a \<times> kernel) option" where
  "ret_vm f k = do { (a, s) \<leftarrow> f (borrow_vm k); Some (a, return_vm s k) }"

definition upd_proc :: "addr \<Rightarrow> (process_context \<Rightarrow> process_context) \<Rightarrow> kernel \<Rightarrow> kernel option" where
  "upd_proc a f k = do { p \<leftarrow> procs k a; Some (k\<lparr>procs := (procs k)(a \<mapsto> f p)\<rparr>) }"

definition CURRENT_PROCESS_CONTEXT :: "kernel \<Rightarrow> addr option" where
  "CURRENT_PROCESS_CONTEXT k = ll_val (current_process k) (lsts k)"

definition ready_queue :: "nat \<Rightarrow> kernel \<Rightarrow> addr option" where
  "ready_queue i k = (if i < length (scheduler_queue k) then Some (scheduler_queue k ! i) else None)"

section \<open>The ready queues\<close>

definition init_scheduler :: "kernel \<Rightarrow> kernel option" where
  "init_scheduler k =
     for_each (\<lambda>i k. do { (q, k) \<leftarrow> ret_lists new_dllist k;
                          Some (k\<lparr>scheduler_queue := (scheduler_queue k)[i := q]\<rparr>) }) [0..<10] k"

text \<open>
  The queue of a priority. The \<^verbatim>\<open>switch\<close> leaves the index unset for a priority outside
  \<open>0..1000\<close>.
\<close>

definition queue_of_priority :: "int \<Rightarrow> nat option" where
  "queue_of_priority priority =
     (if 0 \<le> priority \<and> priority \<le> 99 then Some 9
      else if 100 \<le> priority \<and> priority \<le> 199 then Some 8
      else if 200 \<le> priority \<and> priority \<le> 299 then Some 7
      else if 300 \<le> priority \<and> priority \<le> 399 then Some 6
      else if 400 \<le> priority \<and> priority \<le> 499 then Some 5
      else if 500 \<le> priority \<and> priority \<le> 599 then Some 4
      else if 600 \<le> priority \<and> priority \<le> 699 then Some 3
      else if 700 \<le> priority \<and> priority \<le> 799 then Some 2
      else if 800 \<le> priority \<and> priority \<le> 899 then Some 1
      else if 900 \<le> priority \<and> priority \<le> 1000 then Some 0
      else None)"

definition priority_of :: "process_context \<Rightarrow> int" where
  "priority_of p = sint (sleep_time p + static_priority p * 10)"

definition adjust_sched_queue :: "addr \<Rightarrow> kernel \<Rightarrow> kernel option" where
  "adjust_sched_queue a k =
     do { p \<leftarrow> procs k a;
          queue_index \<leftarrow> queue_of_priority (priority_of p);
          upd_proc a (curr_sched_queue_index_update (\<lambda>_. queue_index)) k }"

section \<open>Choice of the next process\<close>

text \<open>
  The registers at an address taken for a process descriptor. The idle branch of \<open>schedule\<close>
  passes the list node of process 0, not its descriptor.
\<close>

definition regs_at :: "processor_reg \<Rightarrow> addr \<Rightarrow> kernel \<Rightarrow> processor_reg" where
  "regs_at wild a k = (case procs k a of Some p \<Rightarrow> processor_reg p | None \<Rightarrow> wild)"

text \<open>The segment registers are restored from the process that is left.\<close>

definition do_context_switch ::
    "processor_reg \<Rightarrow> addr \<Rightarrow> processor_reg \<Rightarrow> addr \<Rightarrow> kernel \<Rightarrow> (processor_reg \<times> kernel) option" where
  "do_context_switch wild current r new k =
     do { let k = k\<lparr>tss_esp := KERNEL_STACK\<rparr>;
          k \<leftarrow> upd_proc current (processor_reg_update (\<lambda>_. r)) k;
          let saved = regs_at wild current k;
          Some ((regs_at wild new k)\<lparr>ds := ds saved, es := es saved\<rparr>, k) }"

text \<open>The first node of a queue, from \<open>node\<close> on, whose process may run instead of process \<open>cur_pid\<close>.\<close>

partial_function (option) find_next :: "u32 \<Rightarrow> addr \<Rightarrow> addr \<Rightarrow> kernel \<Rightarrow> addr option option" where
  "find_next cur_pid sentinel node k =
     (if node = sentinel then Some None
      else do { a \<leftarrow> ll_val node (lsts k);
                p \<leftarrow> procs k a;
                if cur_pid \<noteq> pid p \<and> pid p \<noteq> 0 then Some (Some node)
                else do { q \<leftarrow> ll_next node (lsts k); find_next cur_pid sentinel q k } })"

fun pick_next :: "u32 \<Rightarrow> addr list \<Rightarrow> kernel \<Rightarrow> addr option option" where
  "pick_next cur_pid [] k = Some None"
| "pick_next cur_pid (q # qs) k =
     do { sentinel \<leftarrow> ll_sentinel q (lsts k);
          first \<leftarrow> ll_first q (lsts k);
          found \<leftarrow> find_next cur_pid sentinel first k;
          case found of Some node \<Rightarrow> Some (Some node) | None \<Rightarrow> pick_next cur_pid qs k }"

text \<open>What becomes of the process that leaves the processor, by its status.\<close>

definition requeue :: "addr \<Rightarrow> addr \<Rightarrow> kernel \<Rightarrow> kernel option" where
  "requeue current node k =
     do { k \<leftarrow> adjust_sched_queue current k;
          k \<leftarrow> on_lists (ll_delete_node node) k;
          p \<leftarrow> procs k current;
          q \<leftarrow> ready_queue (curr_sched_queue_index p) k;
          (_, k) \<leftarrow> ret_lists (ll_append q current) k;
          Some k }"

definition release_process :: "addr \<Rightarrow> addr \<Rightarrow> kernel \<Rightarrow> kernel option" where
  "release_process current node k =
     do { k \<leftarrow> on_heap (kfree current) k;
          on_lists (ll_delete_node node) (k\<lparr>procs := (procs k)(current := None)\<rparr>) }"

definition schedule :: "processor_reg \<Rightarrow> processor_reg \<Rightarrow> kernel \<Rightarrow> (processor_reg \<times> kernel) option" where
  "schedule wild r k =
     do { let node = current_process k;
          current \<leftarrow> ll_val node (lsts k);
          p \<leftarrow> procs k current;
          found \<leftarrow> pick_next (pid p) (scheduler_queue k) k;
          case found of
            Some next_node \<Rightarrow>
              do { new \<leftarrow> ll_val next_node (lsts k);
                   (r, k) \<leftarrow> do_context_switch wild current r new k;
                   let k = k\<lparr>current_process := next_node\<rparr>;
                   k \<leftarrow> (case proc_status p of
                          RUNNING \<Rightarrow> requeue current node k
                        | SLEEPING \<Rightarrow> on_lists (ll_delete_node node) k
                        | EXITING \<Rightarrow> release_process current node k);
                   Some (r, k) }
          | None \<Rightarrow>
              (if proc_status p = RUNNING
               then do { k \<leftarrow> adjust_sched_queue current k; Some (r, k) }
               else do { (r, k) \<leftarrow> do_context_switch wild current r (process_0 k) k;
                         let k = k\<lparr>current_process := process_0 k\<rparr>;
                         k \<leftarrow> (if proc_status p = SLEEPING then on_lists (ll_delete_node node) k
                              else release_process current node k);
                         Some (r, k) }) }"

section \<open>Sleeping and waking\<close>

definition SPINLOCK_UNLOCK :: "addr \<Rightarrow> kernel \<Rightarrow> kernel option" where
  "SPINLOCK_UNLOCK l k =
     do { _ \<leftarrow> locks k l; Some (k\<lparr>locks := (locks k)(l \<mapsto> 0), int_path_count := int_path_count k - 1\<rparr>) }"

text \<open>A lock that is taken and never given back is waited for without end.\<close>

definition SPINLOCK_LOCK :: "addr \<Rightarrow> kernel \<Rightarrow> kernel option" where
  "SPINLOCK_LOCK l k =
     do { v \<leftarrow> locks k l;
          if v = 0 then Some (k\<lparr>locks := (locks k)(l \<mapsto> 1), int_path_count := int_path_count k + 1\<rparr>)
          else None }"

definition sleep_and_unlock :: "(kernel \<Rightarrow> kernel) \<Rightarrow> addr \<Rightarrow> kernel \<Rightarrow> kernel option" where
  "sleep_and_unlock suspend lock k =
     do { current \<leftarrow> CURRENT_PROCESS_CONTEXT k;
          k \<leftarrow> upd_proc current (\<lambda>p. p\<lparr>sleep_time := systime k, proc_status := SLEEPING\<rparr>) k;
          k \<leftarrow> (if lock \<noteq> 0 then SPINLOCK_UNLOCK lock k else Some k);
          Some (suspend k) }"

definition sleep :: "(kernel \<Rightarrow> kernel) \<Rightarrow> kernel \<Rightarrow> kernel option" where
  "sleep suspend k = sleep_and_unlock suspend 0 k"

text \<open>The time asleep, at most 1000, decides the queue; the comparison is unsigned.\<close>

definition slept :: "u32 \<Rightarrow> u32 \<Rightarrow> u32" where
  "slept now since = (if now - since \<ge> 1000 then 1000 else now - since)"

definition awake :: "addr \<Rightarrow> kernel \<Rightarrow> kernel option" where
  "awake new k =
     do { current \<leftarrow> CURRENT_PROCESS_CONTEXT k;
          k \<leftarrow> upd_proc new (\<lambda>p. p\<lparr>sleep_time := slept (systime k) (sleep_time p)\<rparr>) k;
          k \<leftarrow> adjust_sched_queue new k;
          c \<leftarrow> procs k current;
          p \<leftarrow> procs k new;
          k \<leftarrow> (if pid c \<noteq> pid p \<and> proc_status p = SLEEPING
               then do { q \<leftarrow> ready_queue (curr_sched_queue_index p) k;
                         (_, k) \<leftarrow> ret_lists (ll_prepend q new) k;
                         Some k }
               else Some k);
          k \<leftarrow> upd_proc new (proc_status_update (\<lambda>_. RUNNING)) k;
          Some (k\<lparr>force_scheduling := 1\<rparr>) }"

definition tcgetpgrp :: "kernel \<Rightarrow> u32" where
  "tcgetpgrp k = fg_pgid k"

definition tcsetpgrp :: "u32 \<Rightarrow> kernel \<Rightarrow> kernel" where
  "tcsetpgrp g k = k\<lparr>fg_pgid := g\<rparr>"

definition pause :: "(kernel \<Rightarrow> kernel) \<Rightarrow> kernel \<Rightarrow> kernel option" where
  "pause suspend k =
     do { current \<leftarrow> CURRENT_PROCESS_CONTEXT k;
          p \<leftarrow> procs k current;
          if sig_num p \<noteq> SIGCHLD
          then do { (_, k) \<leftarrow> ret_lists (ll_prepend (pause_queue k) current) k;
                    k \<leftarrow> sleep suspend k;
                    p \<leftarrow> procs k current;
                    if sig_num p = SIGCHLD
                    then upd_proc current (sig_num_update (\<lambda>_. 0)) (tcsetpgrp (pgid p) k)
                    else Some k }
          else Some k }"

definition sleep_for :: "(kernel \<Rightarrow> kernel) \<Rightarrow> u32 \<Rightarrow> kernel \<Rightarrow> kernel option" where
  "sleep_for suspend duration k =
     do { current \<leftarrow> CURRENT_PROCESS_CONTEXT k;
          k \<leftarrow> upd_proc current (assigned_sleep_time_update (\<lambda>_. duration)) k;
          (n, k) \<leftarrow> ret_lists (ll_prepend (sleep_wait_queue k) current) k;
          k \<leftarrow> upd_proc current (sleep_wait_queue_ref_update (\<lambda>_. n)) k;
          k \<leftarrow> sleep suspend k;
          upd_proc current (sleep_wait_queue_ref_update (\<lambda>_. 0)) k }"

end
