(* ===== verification/Schedule.thy ===== *)
theory Schedule
  imports Scheduler
begin

text \<open>
  What \<open>schedule\<close> does. The ready queues are described by the lists they hold; the processes
  that may run are taken in the order of the queues, and the process that leaves the
  processor is queued again, dropped or released.
\<close>

section \<open>Queues as lists\<close>

text \<open>All ready nodes with their processes, in the order the scheduler looks at them.\<close>

definition ready :: "kernel \<Rightarrow> lists \<Rightarrow> (addr \<times> addr) list" where
  "ready k L = concat (map (\<lambda>q. the (L q)) (scheduler_queue k))"

definition may_run :: "u32 \<Rightarrow> kernel \<Rightarrow> addr \<times> addr \<Rightarrow> bool" where
  "may_run cur_pid k x \<longleftrightarrow> (case procs k (snd x) of Some p \<Rightarrow> cur_pid \<noteq> pid p \<and> pid p \<noteq> 0 | None \<Rightarrow> False)"

text \<open>
  A well-formed state: the ten queues are lists of a family, each process is ready once, and
  a process descriptor is a block of the heap that no list uses. The current process and
  process 0 are ready, and process 0 never sleeps or exits.
\<close>

definition sched_wf :: "kernel \<Rightarrow> lists \<Rightarrow> bool" where
  "sched_wf k L \<longleftrightarrow> dl_fam (lsts k) L
     \<and> length (scheduler_queue k) = 10 \<and> distinct (scheduler_queue k) \<and> set (scheduler_queue k) \<subseteq> dom L
     \<and> distinct (map snd (ready k L)) \<and> snd ` set (ready k L) \<subseteq> dom (procs k)
     \<and> dom (procs k) \<subseteq> km_live (dmem (lsts k)) - dom (nodes (lsts k)) - dom (llists (lsts k))
     \<and> (\<exists>a p. (process_0 k, a) \<in> set (ready k L) \<and> procs k a = Some p \<and> pid p = 0 \<and> proc_status p = RUNNING)"

lemma sched_wfD:
  assumes "sched_wf k L"
  shows "dl_fam (lsts k) L" and "length (scheduler_queue k) = 10" and "distinct (scheduler_queue k)"
    and "set (scheduler_queue k) \<subseteq> dom L" and "distinct (map snd (ready k L))"
    and "snd ` set (ready k L) \<subseteq> dom (procs k)"
    and "dom (procs k) \<subseteq> km_live (dmem (lsts k)) - dom (nodes (lsts k)) - dom (llists (lsts k))"
    and "\<exists>a p. (process_0 k, a) \<in> set (ready k L) \<and> procs k a = Some p \<and> pid p = 0 \<and> proc_status p = RUNNING"
  using assms unfolding sched_wf_def by blast+

lemma sched_wfI:
  assumes "dl_fam (lsts k) L" and "length (scheduler_queue k) = 10" and "distinct (scheduler_queue k)"
    and "set (scheduler_queue k) \<subseteq> dom L" and "distinct (map snd (ready k L))"
    and "snd ` set (ready k L) \<subseteq> dom (procs k)"
    and "dom (procs k) \<subseteq> km_live (dmem (lsts k)) - dom (nodes (lsts k)) - dom (llists (lsts k))"
    and "(process_0 k, a) \<in> set (ready k L)" and "procs k a = Some p" and "pid p = 0" and "proc_status p = RUNNING"
  shows "sched_wf k L"
  using assms unfolding sched_wf_def by blast

section \<open>The search\<close>

lemma find_next_links:
  assumes "links (nodes (lsts k)) (map fst xs @ [s])" and "s \<notin> fst ` set xs"
    and "\<And>n a. (n, a) \<in> set xs \<Longrightarrow> val_of (nodes (lsts k)) n = Some a" and "snd ` set xs \<subseteq> dom (procs k)"
  shows "find_next cur_pid s (hd (map fst xs @ [s])) k = Some (map_option fst (List.find (may_run cur_pid k) xs))"
  using assms
proof (induction xs)
  case Nil
  then show ?case by (simp add: find_next.simps)
next
  case (Cons x xs)
  obtain n a where x: "x = (n, a)" by (cases x)
  obtain p where p: "procs k a = Some p" using Cons.prems(4) x by auto
  have "ll_val n (lsts k) = Some a" using Cons.prems(3) [of n a] x by (simp add: ll_val_def val_of_def)
  moreover have "ll_next n (lsts k) = Some (hd (map fst xs @ [s]))"
    using Cons.prems(1) x by (cases xs) (auto simp: ll_next_def nxt_of_def)
  moreover have "find_next cur_pid s (hd (map fst xs @ [s])) k = Some (map_option fst (List.find (may_run cur_pid k) xs))"
  proof (rule Cons.IH)
    show "links (nodes (lsts k)) (map fst xs @ [s])" using Cons.prems(1) by (cases xs) auto
  qed (use Cons.prems in auto)
  moreover have "n \<noteq> s" using Cons.prems(2) x by auto
  ultimately show ?case using p by (subst find_next.simps) (auto simp: x may_run_def)
qed

lemma find_next_spec:
  assumes "dl_list (lsts k) q xs" and "snd ` set xs \<subseteq> dom (procs k)"
  obtains s first where "ll_sentinel q (lsts k) = Some s" and "ll_first q (lsts k) = Some first"
    and "find_next cur_pid s first k = Some (map_option fst (List.find (may_run cur_pid k) xs))"
proof -
  obtain s where s: "ll_sentinel q (lsts k) = Some s" "ll_first q (lsts k) = Some (hd (map fst xs @ [s]))"
      "dlist (nodes (lsts k)) s xs"
    using dl_list_ends [OF assms(1)] by metis
  have lk: "links (nodes (lsts k)) (s # map fst xs @ [s])" using s(3) by (simp add: dlist_def cycle_def)
  have "find_next cur_pid s (hd (map fst xs @ [s])) k = Some (map_option fst (List.find (may_run cur_pid k) xs))"
  proof (rule find_next_links)
    show "links (nodes (lsts k)) (map fst xs @ [s])" using lk by (cases xs) auto
    show "s \<notin> fst ` set xs" using s(3) by (simp add: dlist_def)
    show "val_of (nodes (lsts k)) n = Some a" if "(n, a) \<in> set xs" for n a using dlist_vals [OF s(3) that] .
  qed (fact assms(2))
  then show ?thesis using that s by blast
qed

lemma find_append: "List.find P (xs @ ys) = (case List.find P xs of Some x \<Rightarrow> Some x | None \<Rightarrow> List.find P ys)"
  by (induction xs) auto

lemma pick_next_spec:
  assumes "\<And>q. q \<in> set qs \<Longrightarrow> \<exists>xs. L q = Some xs \<and> dl_list (lsts k) q xs \<and> snd ` set xs \<subseteq> dom (procs k)"
  shows "pick_next cur_pid qs k = Some (map_option fst (List.find (may_run cur_pid k) (concat (map (\<lambda>q. the (L q)) qs))))"
  using assms
proof (induction qs)
  case (Cons q qs)
  obtain xs where xs: "L q = Some xs" "dl_list (lsts k) q xs" "snd ` set xs \<subseteq> dom (procs k)"
    using Cons.prems [of q] by auto
  obtain s first where "ll_sentinel q (lsts k) = Some s" "ll_first q (lsts k) = Some first"
      "find_next cur_pid s first k = Some (map_option fst (List.find (may_run cur_pid k) xs))"
    by (rule find_next_spec [OF xs(2,3)])
  moreover have "pick_next cur_pid qs k = Some (map_option fst (List.find (may_run cur_pid k) (concat (map (\<lambda>q. the (L q)) qs))))"
    by (rule Cons.IH) (use Cons.prems in simp)
  ultimately show ?case using xs(1) by (auto simp: find_append split: option.splits)
qed simp

lemma wf_queue:
  assumes wf: "sched_wf k L" and q: "q \<in> set (scheduler_queue k)"
  obtains xs where "L q = Some xs" and "dl_list (lsts k) q xs" and "set xs \<subseteq> set (ready k L)"
proof -
  obtain xs where xs: "L q = Some xs" using q sched_wfD(4) [OF wf] by auto
  moreover have "set xs \<subseteq> set (ready k L)" using q xs by (force simp: ready_def)
  ultimately show ?thesis using that dl_famD(3) [OF sched_wfD(1) [OF wf] xs] by blast
qed

lemma wf_pick:
  assumes "sched_wf k L"
  shows "pick_next cur_pid (scheduler_queue k) k = Some (map_option fst (List.find (may_run cur_pid k) (ready k L)))"
  unfolding ready_def
proof (rule pick_next_spec)
  fix q assume q: "q \<in> set (scheduler_queue k)"
  obtain xs where xs: "L q = Some xs" "dl_list (lsts k) q xs" "set xs \<subseteq> set (ready k L)" by (rule wf_queue [OF assms q])
  then have "snd ` set xs \<subseteq> dom (procs k)" using sched_wfD(6) [OF assms] by blast
  then show "\<exists>xs. L q = Some xs \<and> dl_list (lsts k) q xs \<and> snd ` set xs \<subseteq> dom (procs k)" using xs by blast
qed

lemma wf_ready:
  assumes wf: "sched_wf k L" and "(n, a) \<in> set (ready k L)"
  obtains q xs where "q \<in> set (scheduler_queue k)" and "L q = Some xs" and "(n, a) \<in> set xs"
proof -
  obtain q where q: "q \<in> set (scheduler_queue k)" "(n, a) \<in> set (the (L q))" using assms(2) by (auto simp: ready_def)
  obtain xs where "L q = Some xs" by (rule wf_queue [OF wf q(1)])
  then show ?thesis using that q by simp
qed

lemma wf_val:
  assumes wf: "sched_wf k L" and "(n, a) \<in> set (ready k L)"
  shows "ll_val n (lsts k) = Some a" and "\<exists>p. procs k a = Some p"
proof -
  obtain q xs where "L q = Some xs" "(n, a) \<in> set xs" by (rule wf_ready [OF assms])
  then show "ll_val n (lsts k) = Some a" using fam_val [OF sched_wfD(1) [OF wf]] by blast
  show "\<exists>p. procs k a = Some p" using sched_wfD(6) [OF wf] assms(2) by force
qed

section \<open>Leaving a queue\<close>

text \<open>The family without a node, and with a node added at the end of a list.\<close>

definition drop_node :: "addr \<Rightarrow> lists \<Rightarrow> lists" where
  "drop_node n L = (\<lambda>l. map_option (filter (\<lambda>x. fst x \<noteq> n)) (L l))"

definition add_last :: "addr \<Rightarrow> addr \<times> addr \<Rightarrow> lists \<Rightarrow> lists" where
  "add_last q x L = L(q \<mapsto> the (L q) @ [x])"

lemma delete_dom:
  assumes "ll_delete_node n h = Some h'"
  shows "dom (nodes h') \<subseteq> dom (nodes h)"
  using assms by (auto simp: ll_delete_node_def set_next_def set_prev_def Let_def split: if_splits)

lemma append_dom:
  assumes "ll_append l v h = Some (new, h')"
  shows "dom (nodes h') \<subseteq> insert new (dom (nodes h))"
  using assms by (auto simp: ll_append_def dest!: insert_dom)

lemma filter_other: "n \<notin> fst ` set xs \<Longrightarrow> filter (\<lambda>x. fst x \<noteq> n) xs = xs"
  by (induction xs) auto

lemma drop_node_eq:
  assumes fam: "dl_fam h L" and l: "L l = Some (ys @ (n, v) # zs)"
  shows "drop_node n L = L(l \<mapsto> ys @ zs)"
proof
  fix l'
  show "drop_node n L l' = (L(l \<mapsto> ys @ zs)) l'"
  proof (cases "l' = l")
    case True
    obtain d :: llist where "dlist (nodes h) (sentinel_node d) (ys @ (n, v) # zs)"
      using dl_famD(3) [OF fam l] by (auto simp: dl_list_def)
    then have "n \<notin> fst ` set ys" "n \<notin> fst ` set zs" by (auto simp: dlist_def)
    then show ?thesis using True l by (simp add: drop_node_def filter_other)
  next
    case False
    have "n \<notin> fst ` set xs" if "L l' = Some xs" for xs
    proof
      assume "n \<in> fst ` set xs"
      then obtain w where w: "(n, w) \<in> set xs" by auto
      have "(n, v) \<in> set (ys @ (n, v) # zs)" by simp
      then show False using fam_node_unique [OF fam l _ that w] False by blast
    qed
    then show ?thesis using False by (cases "L l'") (auto simp: drop_node_def filter_other)
  qed
qed

lemma fam_drop:
  assumes fam: "dl_fam h L" and l: "L l = Some xs" "(n, v) \<in> set xs"
  obtains h' where "ll_delete_node n h = Some h'" and "dl_fam h' (drop_node n L)" and "llists h' = llists h"
    and "km_live (dmem h') = km_live (dmem h) - {n}" and "kpanics (dmem h') = kpanics (dmem h)"
    and "\<exists>m. kmalloc sizeof_llist_node (dmem h') = Some (n, m) \<and> kpanics m = kpanics (dmem h')"
    and "dom (nodes h') \<subseteq> dom (nodes h)"
proof -
  obtain ys zs where xs: "xs = ys @ (n, v) # zs" using split_list l(2) by metis
  then have l': "L l = Some (ys @ (n, v) # zs)" using l(1) by simp
  obtain h' where h': "ll_delete_node n h = Some h'" "dl_fam h' (L(l \<mapsto> ys @ zs))" "llists h' = llists h"
    "km_live (dmem h') = km_live (dmem h) - {n}" "kpanics (dmem h') = kpanics (dmem h)"
    "\<exists>m. kmalloc sizeof_llist_node (dmem h') = Some (n, m) \<and> kpanics m = kpanics (dmem h')"
    by (rule fam_delete [OF fam l'])
  then show ?thesis using that [OF h'(1)] drop_node_eq [OF fam l'] delete_dom [OF h'(1)] by simp
qed

lemma ready_drop: "set (scheduler_queue k) \<subseteq> dom L \<Longrightarrow> ready k (drop_node n L) = filter (\<lambda>x. fst x \<noteq> n) (ready k L)"
proof -
  assume dom: "set (scheduler_queue k) \<subseteq> dom L"
  have "the (drop_node n L q) = filter (\<lambda>x. fst x \<noteq> n) (the (L q))" if "q \<in> set (scheduler_queue k)" for q
    using that dom by (auto simp: drop_node_def)
  then show ?thesis unfolding ready_def filter_concat map_map by (auto intro!: arg_cong [of _ _ concat])
qed

lemma ready_add:
  assumes "q \<in> set (scheduler_queue k)" and "distinct (scheduler_queue k)"
  obtains A B where "ready k L = A @ B" and "ready k (add_last q x L) = A @ x # B"
proof -
  obtain us vs where qs: "scheduler_queue k = us @ q # vs" using split_list assms(1) by metis
  then have "q \<notin> set us" "q \<notin> set vs" using assms(2) by auto
  then have eq: "map (\<lambda>q'. the (add_last q x L q')) us = map (\<lambda>q'. the (L q')) us"
      "map (\<lambda>q'. the (add_last q x L q')) vs = map (\<lambda>q'. the (L q')) vs" by (auto simp: add_last_def)
  have "the (add_last q x L q) = the (L q) @ [x]" by (simp add: add_last_def)
  then show ?thesis using that [of "concat (map (\<lambda>q'. the (L q')) us) @ the (L q)" "concat (map (\<lambda>q'. the (L q')) vs)"]
    by (simp add: ready_def qs eq)
qed

lemma dom_drop [simp]: "dom (drop_node n L) = dom L"
  by (auto simp: drop_node_def)

text \<open>A released block that no list uses leaves the family alone.\<close>

lemma fam_kfree:
  assumes fam: "dl_fam h L" and a: "a \<in> km_live (dmem h)" "a \<notin> dom (nodes h)" "a \<notin> dom (llists h)"
  obtains m where "kfree a (dmem h) = Some m" and "dl_fam (h\<lparr>dmem := m\<rparr>) L" and "km_live m = km_live (dmem h) - {a}"
    and "kpanics m = kpanics (dmem h)"
proof -
  have inv: "km_inv (dmem h)" using dl_famD(1) [OF fam] by (simp add: dl_inv_def)
  obtain m where m: "kfree a (dmem h) = Some m" "km_inv m" "km_live m = km_live (dmem h) - {a}" "kpanics m = kpanics (dmem h)"
    using kfree_spec [OF inv a(1)] by blast
  have "dl_inv (h\<lparr>dmem := m\<rparr>)" using dl_famD(1) [OF fam] m a by (auto simp: dl_inv_def)
  moreover have "dom (nodes h) \<subseteq> node_pool m" using node_pool_kfree [OF inv a(1) m(1)] dl_famD(2) [OF fam] a(2) by blast
  moreover have "dl_list (h\<lparr>dmem := m\<rparr>) l xs" if "L l = Some xs" for l xs
    using dl_famD(3) [OF fam that] by (simp add: dl_list_def)
  ultimately have "dl_fam (h\<lparr>dmem := m\<rparr>) L"
    using dl_famD(4) [OF fam] unfolding dl_fam_def dl_nodes_def by simp
  then show ?thesis using that m by blast
qed

section \<open>The process that leaves\<close>

lemma sched_wf_cong:
  assumes "lsts k' = lsts k" and "scheduler_queue k' = scheduler_queue k" and "process_0 k' = process_0 k"
    and "procs k' = procs k"
  shows "sched_wf k' L = sched_wf k L"
  using assms by (simp add: sched_wf_def ready_def)

lemma sched_wf_proc:
  assumes wf: "sched_wf k L" and "procs k a = Some p" and "pid p' = pid p" and "proc_status p' = proc_status p"
  shows "sched_wf (k\<lparr>procs := (procs k)(a \<mapsto> p')\<rparr>) L"
proof -
  have "ready (k\<lparr>procs := (procs k)(a \<mapsto> p')\<rparr>) L = ready k L" by (simp add: ready_def)
  moreover have "dom ((procs k)(a \<mapsto> p')) = dom (procs k)" using assms(2) by auto
  moreover obtain a0 p0 where "(process_0 k, a0) \<in> set (ready k L)" "procs k a0 = Some p0" "pid p0 = 0" "proc_status p0 = RUNNING"
    using sched_wfD(8) [OF wf] by blast
  ultimately show ?thesis using wf assms(2-4) unfolding sched_wf_def by auto
qed

lemma node_dom: "ll_val n h = Some a \<Longrightarrow> n \<in> dom (nodes h)"
  by (auto simp: ll_val_def)

lemma distinct_snd_filter:
  assumes "distinct (map snd xs)" and "(n, a) \<in> set xs"
  shows "distinct (map snd (filter (\<lambda>x. fst x \<noteq> n) xs))" and "a \<notin> snd ` set (filter (\<lambda>x. fst x \<noteq> n) xs)"
proof -
  show "distinct (map snd (filter (\<lambda>x. fst x \<noteq> n) xs))" using assms(1) by (simp add: distinct_map_filter)
  show "a \<notin> snd ` set (filter (\<lambda>x. fst x \<noteq> n) xs)"
    using assms eq_key_imp_eq_value [of "map prod.swap xs" a] by (force simp: comp_def)
qed

lemma frame_sets:
  fixes P A B C A' B' :: "addr set"
  assumes "P \<subseteq> A - B - C" and "n \<in> B" and "A - {n} \<subseteq> A'" and "B' \<subseteq> insert n B"
  shows "P \<subseteq> A' - B' - C"
  using assms by blast

text \<open>A process that sleeps is taken out of its queue.\<close>

lemma wf_drop:
  assumes wf: "sched_wf k L" and n: "(n, a) \<in> set (ready k L)" and p: "procs k a = Some p" "proc_status p \<noteq> RUNNING"
  obtains h' where "ll_delete_node n (lsts k) = Some h'" and "sched_wf (k\<lparr>lsts := h'\<rparr>) (drop_node n L)"
    and "km_live (dmem h') = km_live (dmem (lsts k)) - {n}"
proof -
  obtain q xs where q: "q \<in> set (scheduler_queue k)" "L q = Some xs" "(n, a) \<in> set xs" by (rule wf_ready [OF wf n])
  obtain h' where h': "ll_delete_node n (lsts k) = Some h'" "dl_fam h' (drop_node n L)" "llists h' = llists (lsts k)"
      "km_live (dmem h') = km_live (dmem (lsts k)) - {n}" "dom (nodes h') \<subseteq> dom (nodes (lsts k))"
    by (rule fam_drop [OF sched_wfD(1) [OF wf] q(2,3)])
  obtain a0 p0 where z: "(process_0 k, a0) \<in> set (ready k L)" "procs k a0 = Some p0" "pid p0 = 0" "proc_status p0 = RUNNING"
    using sched_wfD(8) [OF wf] by blast
  have ne: "process_0 k \<noteq> n" using wf_val(1) [OF wf n] wf_val(1) [OF wf z(1)] p z(2,4) by auto
  have rd: "ready (k\<lparr>lsts := h'\<rparr>) (drop_node n L) = filter (\<lambda>x. fst x \<noteq> n) (ready k L)"
    using ready_drop [OF sched_wfD(4) [OF wf]] by (simp add: ready_def)
  have "sched_wf (k\<lparr>lsts := h'\<rparr>) (drop_node n L)"
  proof (rule sched_wfI [of _ _ a0 p0])
    show "distinct (map snd (ready (k\<lparr>lsts := h'\<rparr>) (drop_node n L)))"
      unfolding rd by (rule distinct_snd_filter [OF sched_wfD(5) [OF wf] n])
    show "snd ` set (ready (k\<lparr>lsts := h'\<rparr>) (drop_node n L)) \<subseteq> dom (procs (k\<lparr>lsts := h'\<rparr>))"
      unfolding rd using sched_wfD(6) [OF wf] by auto
    have "dom (procs k) \<subseteq> km_live (dmem h') - dom (nodes h') - dom (llists h')"
      unfolding h'(3) by (rule frame_sets [OF sched_wfD(7) [OF wf] node_dom [OF wf_val(1) [OF wf n]]]) (use h'(4,5) in auto)
    then show "dom (procs (k\<lparr>lsts := h'\<rparr>)) \<subseteq> km_live (dmem (lsts (k\<lparr>lsts := h'\<rparr>)))
        - dom (nodes (lsts (k\<lparr>lsts := h'\<rparr>))) - dom (llists (lsts (k\<lparr>lsts := h'\<rparr>)))" by simp
    show "(process_0 (k\<lparr>lsts := h'\<rparr>), a0) \<in> set (ready (k\<lparr>lsts := h'\<rparr>) (drop_node n L))"
      unfolding rd using z(1) ne by simp
  qed (use h'(2) z sched_wfD(2-4) [OF wf] in simp_all)
  then show ?thesis using that h'(1,4) by blast
qed

text \<open>A process that exits is released as well.\<close>

lemma wf_release:
  assumes wf: "sched_wf k L" and n: "(n, a) \<in> set (ready k L)" and p: "procs k a = Some p" "proc_status p \<noteq> RUNNING"
  obtains h' where "release_process a n k = Some (k\<lparr>lsts := h', procs := (procs k)(a := None)\<rparr>)"
    and "sched_wf (k\<lparr>lsts := h', procs := (procs k)(a := None)\<rparr>) (drop_node n L)"
proof -
  have a: "a \<in> km_live (dmem (lsts k))" "a \<notin> dom (nodes (lsts k))" "a \<notin> dom (llists (lsts k))"
    using sched_wfD(7) [OF wf] p(1) by blast+
  obtain m where m: "kfree a (dmem (lsts k)) = Some m" "dl_fam ((lsts k)\<lparr>dmem := m\<rparr>) L"
      "km_live m = km_live (dmem (lsts k)) - {a}"
    by (rule fam_kfree [OF sched_wfD(1) [OF wf] a])
  obtain q xs where q: "q \<in> set (scheduler_queue k)" "L q = Some xs" "(n, a) \<in> set xs" by (rule wf_ready [OF wf n])
  obtain h' where h': "ll_delete_node n ((lsts k)\<lparr>dmem := m\<rparr>) = Some h'" "dl_fam h' (drop_node n L)"
      "llists h' = llists ((lsts k)\<lparr>dmem := m\<rparr>)" "km_live (dmem h') = km_live (dmem ((lsts k)\<lparr>dmem := m\<rparr>)) - {n}"
      "dom (nodes h') \<subseteq> dom (nodes ((lsts k)\<lparr>dmem := m\<rparr>))"
    by (rule fam_drop [OF m(2) q(2,3)])
  obtain a0 p0 where z: "(process_0 k, a0) \<in> set (ready k L)" "procs k a0 = Some p0" "pid p0 = 0" "proc_status p0 = RUNNING"
    using sched_wfD(8) [OF wf] by blast
  have ne: "process_0 k \<noteq> n" "a0 \<noteq> a" using wf_val(1) [OF wf n] wf_val(1) [OF wf z(1)] p z(2,4) by auto
  let ?k = "k\<lparr>lsts := h', procs := (procs k)(a := None)\<rparr>"
  have rd: "ready ?k (drop_node n L) = filter (\<lambda>x. fst x \<noteq> n) (ready k L)"
    using ready_drop [OF sched_wfD(4) [OF wf]] by (simp add: ready_def)
  note dist = distinct_snd_filter [OF sched_wfD(5) [OF wf] n]
  have "sched_wf ?k (drop_node n L)"
  proof (rule sched_wfI [of _ _ a0 p0])
    show "distinct (map snd (ready ?k (drop_node n L)))" unfolding rd by (rule dist)
    show "snd ` set (ready ?k (drop_node n L)) \<subseteq> dom (procs ?k)"
      unfolding rd using sched_wfD(6) [OF wf] dist(2) by auto
    have "dom (procs k) - {a} \<subseteq> km_live (dmem h') - dom (nodes h') - dom (llists h')"
    proof
      fix x assume "x \<in> dom (procs k) - {a}"
      then have "x \<in> km_live (dmem (lsts k))" "x \<notin> dom (nodes (lsts k))" "x \<notin> dom (llists (lsts k))" "x \<noteq> a"
        using sched_wfD(7) [OF wf] by blast+
      then show "x \<in> km_live (dmem h') - dom (nodes h') - dom (llists h')"
        using h'(3-5) m(3) node_dom [OF wf_val(1) [OF wf n]] by auto
    qed
    then show "dom (procs ?k) \<subseteq> km_live (dmem (lsts ?k)) - dom (nodes (lsts ?k)) - dom (llists (lsts ?k))" by simp
    show "(process_0 ?k, a0) \<in> set (ready ?k (drop_node n L))" unfolding rd using z(1) ne by simp
  qed (use h'(2) z ne sched_wfD(2-4) [OF wf] in simp_all)
  moreover have "release_process a n k = Some (k\<lparr>lsts := h', procs := (procs k)(a := None)\<rparr>)"
    using m(1) h'(1) by (simp add: release_process_def on_heap_def on_lists_def)
  ultimately show ?thesis using that by blast
qed

text \<open>A process that runs on is queued again, in a node at the same address.\<close>

lemma queue_of_priority_some:
  assumes "0 \<le> i" and "i \<le> 1000"
  obtains j where "queue_of_priority i = Some j" and "j < 10"
proof -
  have "queue_of_priority i \<noteq> None" using assms unfolding queue_of_priority_def by auto
  moreover have "j < 10" if "queue_of_priority i = Some j" for j
    using that unfolding queue_of_priority_def by (auto split: if_splits)
  ultimately show ?thesis using that by blast
qed

lemma wf_requeue:
  assumes wf: "sched_wf k L" and n: "(n, a) \<in> set (ready k L)" and p: "procs k a = Some p"
    and j: "queue_of_priority (priority_of p) = Some j" "j < 10"
  defines "p' \<equiv> p\<lparr>curr_sched_queue_index := j\<rparr>"
  obtains h' where "requeue a n k = Some (k\<lparr>procs := (procs k)(a \<mapsto> p'), lsts := h'\<rparr>)"
    and "sched_wf (k\<lparr>procs := (procs k)(a \<mapsto> p'), lsts := h'\<rparr>) (add_last (scheduler_queue k ! j) (n, a) (drop_node n L))"
proof -
  let ?q = "scheduler_queue k ! j" and ?k = "k\<lparr>procs := (procs k)(a \<mapsto> p')\<rparr>"
  have wf1: "sched_wf ?k L" by (rule sched_wf_proc [OF wf p]) (simp_all add: p'_def)
  have rd: "ready ?k L = ready k L" by (simp add: ready_def)
  obtain q xs where q: "L q = Some xs" "(n, a) \<in> set xs" by (rule wf_ready [OF wf n])
  obtain h1 m where h1: "ll_delete_node n (lsts k) = Some h1" "dl_fam h1 (drop_node n L)" "llists h1 = llists (lsts k)"
      "km_live (dmem h1) = km_live (dmem (lsts k)) - {n}" "dom (nodes h1) \<subseteq> dom (nodes (lsts k))"
    and m: "kmalloc sizeof_llist_node (dmem h1) = Some (n, m)" "kpanics m = kpanics (dmem h1)"
    by (rule fam_drop [OF sched_wfD(1) [OF wf] q]) blast
  have qj: "?q \<in> set (scheduler_queue k)" using j(2) sched_wfD(2) [OF wf] by simp
  then obtain ys where ys: "drop_node n L ?q = Some ys" using sched_wfD(4) [OF wf] by (metis domD dom_drop subsetD)
  obtain h2 where h2: "ll_append ?q a h1 = Some (n, h2)" "dl_fam h2 ((drop_node n L)(?q \<mapsto> ys @ [(n, a)]))"
      "llists h2 = llists h1" "dmem h2 = m"
    by (rule fam_append [OF h1(2) ys m, of a])
  have fam: "dl_fam h2 (add_last ?q (n, a) (drop_node n L))" using h2(2) ys by (simp add: add_last_def)
  have "km_inv (dmem h1)" using dl_famD(1) [OF h1(2)] by (simp add: dl_inv_def)
  then have live: "km_live m = insert n (km_live (dmem h1))" using km.alloc_fresh [OF _ m] by auto
  have run: "requeue a n k = Some (?k\<lparr>lsts := h2\<rparr>)"
    using j h1(1) h2(1) p sched_wfD(2) [OF wf]
    by (simp add: requeue_def adjust_sched_queue_def upd_proc_def on_lists_def ret_lists_def ready_queue_def p'_def)
  let ?L = "add_last ?q (n, a) (drop_node n L)"
  obtain A B where AB: "ready ?k (drop_node n L) = A @ B" "ready ?k ?L = A @ (n, a) # B"
    using ready_add [of ?q ?k "drop_node n L" "(n, a)"] qj sched_wfD(3) [OF wf] by auto
  have rdrop: "A @ B = filter (\<lambda>x. fst x \<noteq> n) (ready k L)"
    using ready_drop [OF sched_wfD(4) [OF wf1]] AB(1) rd by simp
  have sub: "set (ready ?k ?L) = set (ready k L)"
  proof -
    have key: "x = (n, a)" if x: "x \<in> set (ready k L)" "fst x = n" for x
    proof -
      obtain b where b: "x = (n, b)" using x(2) by (cases x) simp
      then have "ll_val n (lsts k) = Some b" using wf_val(1) [OF wf] x(1) by simp
      then show ?thesis using wf_val(1) [OF wf n] b by simp
    qed
    have "set (A @ B) = {x \<in> set (ready k L). fst x \<noteq> n}" unfolding rdrop by simp
    moreover have "set (ready ?k ?L) = insert (n, a) (set (A @ B))" unfolding AB(2) by simp
    ultimately have "set (ready ?k ?L) = insert (n, a) {x \<in> set (ready k L). fst x \<noteq> n}" by (simp only:)
    also have "\<dots> = set (ready k L)" using key n by blast
    finally show ?thesis .
  qed
  have dist: "distinct (map snd (ready ?k ?L))"
  proof -
    have "distinct (map snd (A @ B))" "a \<notin> snd ` set (A @ B)"
      using distinct_snd_filter [OF sched_wfD(5) [OF wf] n] unfolding rdrop by blast+
    then show ?thesis unfolding AB(2) by auto
  qed
  obtain a0 p0 where z: "(process_0 ?k, a0) \<in> set (ready ?k L)" "procs ?k a0 = Some p0" "pid p0 = 0" "proc_status p0 = RUNNING"
    using sched_wfD(8) [OF wf1] by blast
  have rd2: "ready (?k\<lparr>lsts := h2\<rparr>) ?L = ready ?k ?L" by (simp add: ready_def)
  have "sched_wf (?k\<lparr>lsts := h2\<rparr>) ?L"
  proof (rule sched_wfI [of _ _ a0 p0])
    show "dom (procs (?k\<lparr>lsts := h2\<rparr>)) \<subseteq> km_live (dmem (lsts (?k\<lparr>lsts := h2\<rparr>)))
        - dom (nodes (lsts (?k\<lparr>lsts := h2\<rparr>))) - dom (llists (lsts (?k\<lparr>lsts := h2\<rparr>)))"
    proof -
      have dk: "dom (procs ?k) = dom (procs k)" using p by auto
      have "dom (nodes h2) \<subseteq> insert n (dom (nodes (lsts k)))" using append_dom [OF h2(1)] h1(5) by blast
      moreover have "km_live (dmem (lsts k)) - {n} \<subseteq> km_live (dmem h2)" unfolding h2(4) live h1(4) by blast
      ultimately have "dom (procs k) \<subseteq> km_live (dmem h2) - dom (nodes h2) - dom (llists (lsts k))"
        using frame_sets [OF sched_wfD(7) [OF wf] node_dom [OF wf_val(1) [OF wf n]]] by metis
      then show ?thesis using dk h2(3) h1(3) by simp
    qed
    have "dom ?L = dom L" using qj sched_wfD(4) [OF wf] by (auto simp: add_last_def drop_node_def)
    then show "set (scheduler_queue (?k\<lparr>lsts := h2\<rparr>)) \<subseteq> dom ?L" using sched_wfD(4) [OF wf] by simp
    show "snd ` set (ready (?k\<lparr>lsts := h2\<rparr>) ?L) \<subseteq> dom (procs (?k\<lparr>lsts := h2\<rparr>))"
      unfolding rd2 sub using sched_wfD(6) [OF wf1] rd by simp
    show "(process_0 (?k\<lparr>lsts := h2\<rparr>), a0) \<in> set (ready (?k\<lparr>lsts := h2\<rparr>) ?L)"
      unfolding rd2 sub using z(1) rd by simp
    show "distinct (map snd (ready (?k\<lparr>lsts := h2\<rparr>) ?L))" unfolding rd2 by (rule dist)
  qed (use fam z(2-4) sched_wfD(2,3) [OF wf] in simp_all)
  then show ?thesis using that [of h2] run by simp
qed

section \<open>Scheduling\<close>

text \<open>
  What becomes of process \<open>c\<close>, with descriptor \<open>p\<close> and ready in node \<open>n\<close>: it is queued again by its
  priority, or taken out of the queues, or released.
\<close>

definition leaves :: "process_context \<Rightarrow> addr \<Rightarrow> addr \<Rightarrow> kernel \<Rightarrow> lists \<Rightarrow> kernel \<Rightarrow> lists \<Rightarrow> bool" where
  "leaves p c n k L k' L' \<longleftrightarrow>
     (case proc_status p of
        RUNNING \<Rightarrow> (\<exists>j. queue_of_priority (priority_of p) = Some j
                       \<and> L' = add_last (scheduler_queue k ! j) (n, c) (drop_node n L)
                       \<and> procs k' = (procs k)(c \<mapsto> p\<lparr>curr_sched_queue_index := j\<rparr>))
      | SLEEPING \<Rightarrow> L' = drop_node n L \<and> procs k' = (procs k)(c \<mapsto> p)
      | EXITING \<Rightarrow> L' = drop_node n L \<and> procs k' = (procs k)(c := None))"

lemma wf_leave:
  assumes wf: "sched_wf k L" and n: "(n, c) \<in> set (ready k L)" and p: "procs k c = Some p"
    and prio: "proc_status p = RUNNING \<Longrightarrow> 0 \<le> priority_of p \<and> priority_of p \<le> 1000"
  obtains k' L' where "(case proc_status p of RUNNING \<Rightarrow> requeue c n k | SLEEPING \<Rightarrow> on_lists (ll_delete_node n) k
      | EXITING \<Rightarrow> release_process c n k) = Some k'"
    and "sched_wf k' L'" and "current_process k' = current_process k" and "leaves p c n k L k' L'"
    and "\<And>x. x \<in> set (ready k L) \<Longrightarrow> fst x \<noteq> n \<Longrightarrow> x \<in> set (ready k' L')"
proof (cases "proc_status p")
  case RUNNING
  obtain j where j: "queue_of_priority (priority_of p) = Some j" "j < 10"
    using queue_of_priority_some prio [OF RUNNING] by metis
  let ?L = "add_last (scheduler_queue k ! j) (n, c) (drop_node n L)"
  obtain h' where h': "requeue c n k = Some (k\<lparr>procs := (procs k)(c \<mapsto> p\<lparr>curr_sched_queue_index := j\<rparr>), lsts := h'\<rparr>)"
      "sched_wf (k\<lparr>procs := (procs k)(c \<mapsto> p\<lparr>curr_sched_queue_index := j\<rparr>), lsts := h'\<rparr>) ?L"
    by (rule wf_requeue [OF wf n p j])
  have "x \<in> set (ready k ?L)" if "x \<in> set (ready k L)" "fst x \<noteq> n" for x
  proof -
    obtain A B where "ready k (drop_node n L) = A @ B" "ready k ?L = A @ (n, c) # B"
      using ready_add [of "scheduler_queue k ! j" k "drop_node n L" "(n, c)"] j(2) sched_wfD(2,3) [OF wf] by auto
    moreover have "x \<in> set (ready k (drop_node n L))" unfolding ready_drop [OF sched_wfD(4) [OF wf]] using that by simp
    ultimately show ?thesis by auto
  qed
  then show ?thesis using that [OF _ h'(2)] h'(1) RUNNING j(1) by (simp add: leaves_def ready_def)
next
  case SLEEPING
  obtain h' where h': "ll_delete_node n (lsts k) = Some h'" "sched_wf (k\<lparr>lsts := h'\<rparr>) (drop_node n L)"
    by (rule wf_drop [OF wf n p]) (simp_all add: SLEEPING)
  have "x \<in> set (ready (k\<lparr>lsts := h'\<rparr>) (drop_node n L))" if "x \<in> set (ready k L)" "fst x \<noteq> n" for x
    using ready_drop [OF sched_wfD(4) [OF wf], of n] that by (simp add: ready_def)
  moreover have "procs k = (procs k)(c \<mapsto> p)" using p by auto
  ultimately show ?thesis using that [OF _ h'(2)] h'(1) SLEEPING by (simp add: leaves_def on_lists_def)
next
  case EXITING
  obtain h' where h': "release_process c n k = Some (k\<lparr>lsts := h', procs := (procs k)(c := None)\<rparr>)"
      "sched_wf (k\<lparr>lsts := h', procs := (procs k)(c := None)\<rparr>) (drop_node n L)"
    by (rule wf_release [OF wf n p]) (simp_all add: EXITING)
  have "x \<in> set (ready (k\<lparr>lsts := h', procs := (procs k)(c := None)\<rparr>) (drop_node n L))"
    if "x \<in> set (ready k L)" "fst x \<noteq> n" for x
    using ready_drop [OF sched_wfD(4) [OF wf], of n] that by (simp add: ready_def)
  then show ?thesis using that [OF _ h'(2)] h'(1) EXITING by (simp add: leaves_def)
qed

text \<open>The switch saves the registers of the process that leaves and loads those of the next.\<close>

lemma do_context_switch_spec:
  assumes "procs k c = Some p" and "a \<noteq> c"
  shows "do_context_switch wild c r a k =
    Some ((regs_at wild a k)\<lparr>ds := ds r, es := es r\<rparr>,
          k\<lparr>tss_esp := KERNEL_STACK, procs := (procs k)(c \<mapsto> p\<lparr>processor_reg := r\<rparr>)\<rparr>)"
  using assms by (simp add: do_context_switch_def upd_proc_def regs_at_def)

lemma find_ready:
  assumes "List.find (may_run i k) xs = Some (n, a)"
  shows "(n, a) \<in> set xs" and "\<exists>q. procs k a = Some q \<and> pid q \<noteq> i \<and> pid q \<noteq> 0"
proof -
  obtain m where m: "m < length xs" "may_run i k (xs ! m)" "xs ! m = (n, a)"
    using assms unfolding find_Some_iff by metis
  show "(n, a) \<in> set xs" using m nth_mem [of m xs] by simp
  show "\<exists>q. procs k a = Some q \<and> pid q \<noteq> i \<and> pid q \<noteq> 0"
    using m(2,3) by (auto simp: may_run_def split: option.splits)
qed

lemma switched_wf:
  assumes wf: "sched_wf k L" and p: "procs k c = Some p"
  shows "sched_wf (k\<lparr>tss_esp := e, procs := (procs k)(c \<mapsto> p\<lparr>processor_reg := r\<rparr>), current_process := n\<rparr>) L"
proof -
  have "sched_wf (k\<lparr>procs := (procs k)(c \<mapsto> p\<lparr>processor_reg := r\<rparr>)\<rparr>) L"
    by (rule sched_wf_proc [OF wf p]) simp_all
  then show ?thesis by (subst sched_wf_cong [of _ "k\<lparr>procs := (procs k)(c \<mapsto> p\<lparr>processor_reg := r\<rparr>)\<rparr>"]) simp_all
qed

lemma leaves_switched:
  assumes "leaves p c n (k\<lparr>tss_esp := e, procs := (procs k)(c \<mapsto> p0), current_process := m\<rparr>) L k' L'"
  shows "leaves p c n k L k' L'"
  using assms by (auto simp: leaves_def split: proc_status.splits)

text \<open>
  Without such a process a running process goes on, and otherwise process 0 takes over; the
  registers that are loaded then do not come from its descriptor.
\<close>

lemma schedule_idle:
  assumes wf: "sched_wf k L" and cur: "(current_process k, c) \<in> set (ready k L)" "procs k c = Some p"
    and none: "List.find (may_run (pid p) k) (ready k L) = None" and st: "proc_status p \<noteq> RUNNING"
  shows "\<exists>k' L'. schedule wild r k = Some (wild\<lparr>ds := ds r, es := es r\<rparr>, k')
     \<and> sched_wf k' L' \<and> current_process k' = process_0 k
     \<and> leaves (p\<lparr>processor_reg := r\<rparr>) c (current_process k) k L k' L'"
proof -
  let ?n = "current_process k"
  let ?k = "k\<lparr>tss_esp := KERNEL_STACK, procs := (procs k)(c \<mapsto> p\<lparr>processor_reg := r\<rparr>), current_process := process_0 k\<rparr>"
  have rd: "ready ?k L = ready k L" by (simp add: ready_def)
  have wf': "sched_wf ?k L" by (rule switched_wf [OF wf cur(2)])
  obtain a0 where "(process_0 k, a0) \<in> set (ready k L)" using sched_wfD(8) [OF wf] by blast
  then have "process_0 k \<in> dom (nodes (lsts k))" using wf_val(1) [OF wf] node_dom by blast
  then have z: "procs k (process_0 k) = None" using sched_wfD(7) [OF wf] by blast
  then have zc: "process_0 k \<noteq> c" using cur(2) by auto
  obtain k' L' where k': "(case proc_status (p\<lparr>processor_reg := r\<rparr>) of RUNNING \<Rightarrow> requeue c ?n ?k
        | SLEEPING \<Rightarrow> on_lists (ll_delete_node ?n) ?k | EXITING \<Rightarrow> release_process c ?n ?k) = Some k'"
      "sched_wf k' L'" "current_process k' = current_process ?k" "leaves (p\<lparr>processor_reg := r\<rparr>) c ?n ?k L k' L'"
  proof (rule wf_leave [OF wf', of ?n c "p\<lparr>processor_reg := r\<rparr>"])
    show "(?n, c) \<in> set (ready ?k L)" unfolding rd by (rule cur(1))
  qed (use st in auto)
  have "schedule wild r k = Some (wild\<lparr>ds := ds r, es := es r\<rparr>, k')"
    using wf_val(1) [OF wf cur(1)] cur(2) wf_pick [OF wf, of "pid p"] none k'(1) st z
      do_context_switch_spec [OF cur(2) zc, of wild r]
    by (cases "proc_status p") (simp_all add: schedule_def regs_at_def)
  then show ?thesis using k'(2,3) leaves_switched [OF k'(4)] by auto
qed

lemma schedule_continues:
  assumes wf: "sched_wf k L" and cur: "(current_process k, c) \<in> set (ready k L)" "procs k c = Some p"
    and none: "List.find (may_run (pid p) k) (ready k L) = None" and st: "proc_status p = RUNNING"
    and j: "queue_of_priority (priority_of p) = Some j"
  shows "schedule wild r k = Some (r, k\<lparr>procs := (procs k)(c \<mapsto> p\<lparr>curr_sched_queue_index := j\<rparr>)\<rparr>)"
  using wf_val(1) [OF wf cur(1)] cur(2) wf_pick [OF wf, of "pid p"] none st j
  by (simp add: schedule_def adjust_sched_queue_def upd_proc_def)

end
