(* ===== verification/Process_Life.thy ===== *)
theory Process_Life
  imports Scheduler
begin

text \<open>
  The rest of \<^verbatim>\<open>src/scheduler/scheduler.c\<close>: process groups, signals, \<^verbatim>\<open>_exit\<close>, \<^verbatim>\<open>_fork\<close> and \<^verbatim>\<open>_exec\<close>;
  the clock tick of \<^verbatim>\<open>src/drivers/lapic/lapic.c\<close>; the end of the interrupt handlers
  (\<^verbatim>\<open>src/include/idt.h\<close>) and of the system call handler (\<^verbatim>\<open>src/syscall_handler.c\<close>).

  Operations of other components are arguments: the file and socket tables are cloned and
  freed, and the executable opened and closed, by functions on the kernel state.
\<close>

section \<open>Process groups\<close>

definition getpid :: "kernel \<Rightarrow> u16 option" where
  "getpid k = do { a \<leftarrow> CURRENT_PROCESS_CONTEXT k; p \<leftarrow> procs k a; Some (ucast (pid p)) }"

definition getpgid :: "u32 \<Rightarrow> kernel \<Rightarrow> u32 option" where
  "getpgid n k = do { a \<leftarrow> hashtable_get (pid_hash k) (unat n); p \<leftarrow> procs k a; Some (pgid p) }"

text \<open>
  The node of the process with a given number is taken out of its group. The code then reads
  the successor of the released node into a variable it no longer uses.
\<close>

partial_function (option) leave_group :: "u32 \<Rightarrow> addr \<Rightarrow> addr \<Rightarrow> kernel \<Rightarrow> kernel option" where
  "leave_group n sentinel node k =
     (if node = sentinel then Some k
      else do { a \<leftarrow> ll_val node (lsts k);
                p \<leftarrow> procs k a;
                if pid p = n then on_lists (ll_delete_node node) k
                else do { q \<leftarrow> ll_next node (lsts k); leave_group n sentinel q k } })"

text \<open>An empty group loses its list and its entry.\<close>

definition drop_group :: "addr \<Rightarrow> u32 \<Rightarrow> kernel \<Rightarrow> kernel option" where
  "drop_group l g k =
     do { (_, t) \<leftarrow> hashtable_remove (pgid_hash k) (unat g);
          s \<leftarrow> ll_sentinel l (lsts k);
          k \<leftarrow> on_heap (kfree s) (k\<lparr>pgid_hash := t\<rparr>);
          k \<leftarrow> on_heap (kfree l) k;
          let h = lsts k;
          Some (k\<lparr>lsts := h\<lparr>nodes := (nodes h)(s := None), llists := (llists h)(l := None)\<rparr>\<rparr>) }"

definition setpgid :: "u32 \<Rightarrow> u32 \<Rightarrow> kernel \<Rightarrow> kernel option" where
  "setpgid n g k =
     do { a \<leftarrow> hashtable_get (pid_hash k) (unat n);
          p \<leftarrow> procs k a;
          l \<leftarrow> hashtable_get (pgid_hash k) (unat (pgid p));
          s \<leftarrow> ll_sentinel l (lsts k);
          first \<leftarrow> ll_first l (lsts k);
          k \<leftarrow> leave_group n s first k;
          e \<leftarrow> ll_empty l (lsts k);
          k \<leftarrow> (if e then drop_group l (pgid p) k else Some k);
          k \<leftarrow> upd_proc a (pgid_update (\<lambda>_. g)) k;
          (l, k) \<leftarrow> (case hashtable_get (pgid_hash k) (unat g) of
                     Some l \<Rightarrow> Some (l, k)
                   | None \<Rightarrow> do { (l, k) \<leftarrow> ret_lists new_dllist k;
                                  t \<leftarrow> hashtable_put (pgid_hash k) (unat g) l;
                                  Some (l, k\<lparr>pgid_hash := t\<rparr>) });
          (n, k) \<leftarrow> ret_lists (ll_append l a) k;
          upd_proc a (\<lambda>p. p\<lparr>pgid_list_ref := n, pgid := g\<rparr>) k }"

text \<open>Every process of the foreground group gets the signal; the parent of its leader is told.\<close>

partial_function (option) signal_group :: "addr \<Rightarrow> addr \<Rightarrow> kernel \<Rightarrow> kernel option" where
  "signal_group sentinel node k =
     (if node = sentinel then Some k
      else do { a \<leftarrow> ll_val node (lsts k);
                k \<leftarrow> upd_proc a (sig_num_update (\<lambda>_. SIGINT)) k;
                p \<leftarrow> procs k a;
                k \<leftarrow> (if pid p = pgid p then upd_proc (parent p) (sig_num_update (\<lambda>_. SIGCHLD)) k else Some k);
                p \<leftarrow> procs k a;
                k \<leftarrow> (if proc_status p = SLEEPING then awake a k else Some k);
                q \<leftarrow> ll_next node (lsts k);
                signal_group sentinel q k })"

text \<open>
  The group is removed from the table and the descriptor of its list released, although its
  processes still refer to the list.
\<close>

definition signal_foreground :: "kernel \<Rightarrow> kernel option" where
  "signal_foreground k =
     do { (found, t) \<leftarrow> hashtable_remove (pgid_hash k) (unat (fg_pgid k));
          let k = k\<lparr>pgid_hash := t\<rparr>;
          case found of
            None \<Rightarrow> on_heap (kfree 0) k
          | Some l \<Rightarrow> do { s \<leftarrow> ll_sentinel l (lsts k);
                           first \<leftarrow> ll_first l (lsts k);
                           k \<leftarrow> signal_group s first k;
                           k \<leftarrow> on_heap (kfree l) k;
                           let h = lsts k;
                           Some (k\<lparr>lsts := h\<lparr>llists := (llists h)(l := None)\<rparr>\<rparr>) } }"

section \<open>The end of a process\<close>

text \<open>
  The parent is woken if it waits in the pause queue. After it the code reads two fields of
  the released node into variables it no longer uses.
\<close>

partial_function (option) wake_parent :: "addr \<Rightarrow> addr \<Rightarrow> addr \<Rightarrow> kernel \<Rightarrow> kernel option" where
  "wake_parent current sentinel node k =
     (if node = sentinel then Some k
      else do { a \<leftarrow> ll_val node (lsts k);
                q \<leftarrow> procs k a;
                p \<leftarrow> procs k current;
                par \<leftarrow> procs k (parent p);
                if pid q = pid par
                then do { k \<leftarrow> awake a k; on_lists (ll_delete_node node) k }
                else do { nx \<leftarrow> ll_next node (lsts k); wake_parent current sentinel nx k } })"

definition drop_mem_reg :: "addr \<Rightarrow> kernel \<Rightarrow> kernel option" where
  "drop_mem_reg r k =
     do { (rs, m) \<leftarrow> delete_mem_reg r (regs (vmm k), dmem (lsts k));
          Some (k\<lparr>vmm := (vmm k)\<lparr>regs := rs\<rparr>, lsts := (lsts k)\<lparr>dmem := m\<rparr>\<rparr>) }"

definition new_mem_reg :: "u32 \<Rightarrow> u32 \<Rightarrow> kernel \<Rightarrow> (addr \<times> kernel) option" where
  "new_mem_reg a b k =
     do { (r, rs, m) \<leftarrow> create_mem_reg a b (regs (vmm k), dmem (lsts k));
          Some (r, k\<lparr>vmm := (vmm k)\<lparr>regs := rs\<rparr>, lsts := (lsts k)\<lparr>dmem := m\<rparr>\<rparr>) }"

definition free_elf :: "(u32 \<Rightarrow> kernel \<Rightarrow> kernel option) \<Rightarrow> addr \<Rightarrow> kernel \<Rightarrow> kernel option" where
  "free_elf close_file e k =
     do { d \<leftarrow> elfs k e;
          k \<leftarrow> (if elf_file_desc d \<noteq> -1 then close_file (elf_file_desc d) k else Some k);
          k \<leftarrow> on_heap (kfree e) k;
          Some (k\<lparr>elfs := (elfs k)(e := None)\<rparr>) }"

definition free_table :: "(addr \<Rightarrow> kernel \<Rightarrow> kernel option) \<Rightarrow> bool \<Rightarrow> addr \<Rightarrow> kernel \<Rightarrow> kernel option" where
  "free_table destroy values t k =
     do { h \<leftarrow> tables k t;
          k \<leftarrow> for_each destroy (if values then hashtable_free h else hashtable_dispose h) k;
          Some (k\<lparr>tables := (tables k)(t := None)\<rparr>) }"

text \<open>Process 0 never returns from \<^verbatim>\<open>_exit\<close>; the exit status is ignored.\<close>

definition exit_process ::
    "(u32 \<Rightarrow> kernel \<Rightarrow> kernel option) \<Rightarrow> (addr \<Rightarrow> kernel \<Rightarrow> kernel option) \<Rightarrow> kernel \<Rightarrow> kernel option" where
  "exit_process close_file socket_free k =
     do { current \<leftarrow> CURRENT_PROCESS_CONTEXT k;
          p \<leftarrow> procs k current;
          _ \<leftarrow> (if pid p = 0 then None else Some ());
          k \<leftarrow> (if elf_desc p \<noteq> 0 then free_elf close_file (elf_desc p) k else Some k);
          k \<leftarrow> upd_proc current (proc_status_update (\<lambda>_. EXITING)) k;
          s \<leftarrow> ll_sentinel (pause_queue k) (lsts k);
          first \<leftarrow> ll_first (pause_queue k) (lsts k);
          k \<leftarrow> wake_parent current s first k;
          k \<leftarrow> (if process_type p = USERSPACE_PROCESS
               then do { k \<leftarrow> drop_mem_reg (process_mem_reg p) k;
                         k \<leftarrow> drop_mem_reg (heap_mem_reg p) k;
                         drop_mem_reg (ustack_mem_reg p) k }
               else Some k);
          k \<leftarrow> free_table (\<lambda>_. Some) False (file_desc p) k;
          k \<leftarrow> free_table socket_free True (socket_desc p) k;
          (_, t) \<leftarrow> hashtable_remove (pid_hash k) (unat (pid p));
          k \<leftarrow> on_lists (ll_delete_node (pgid_list_ref p)) (k\<lparr>pid_hash := t\<rparr>);
          l \<leftarrow> hashtable_get (pgid_hash k) (unat (pgid p));
          e \<leftarrow> ll_empty l (lsts k);
          k \<leftarrow> (if e then drop_group l (pgid p) k else Some k);
          k \<leftarrow> (if icmp_pending_req p \<noteq> 0
               then do { (_, t) \<leftarrow> hashtable_remove (req_map k) (unat (icmp_pending_req p));
                         Some (k\<lparr>req_map := t\<rparr>) }
               else Some k);
          if sleep_wait_queue_ref p \<noteq> 0 then on_lists (ll_delete_node (sleep_wait_queue_ref p)) k else Some k }"

section \<open>Fork\<close>

definition copy_stack :: "addr \<Rightarrow> addr \<Rightarrow> vm \<Rightarrow> vm option" where
  "copy_stack dst src = for_each (copy_entry dst src) [0..<unat KERNEL_STACK_SIZE div 4]"

definition copy_mem_reg :: "addr \<Rightarrow> kernel \<Rightarrow> (addr \<times> kernel) option" where
  "copy_mem_reg r k = do { g \<leftarrow> regs (vmm k) r; new_mem_reg (start_addr g) (end_addr g) k }"

definition fork_user :: "addr \<Rightarrow> process_context \<Rightarrow> kernel \<Rightarrow> kernel option" where
  "fork_user child p k =
     do { (e, k) \<leftarrow> ret_heap (kmalloc sizeof_elf_desc) k;
          d \<leftarrow> elfs k (elf_desc p);
          let k = k\<lparr>elfs := (elfs k)(e \<mapsto> d)\<rparr>;
          k \<leftarrow> upd_proc child (elf_desc_update (\<lambda>_. e)) k;
          (r, k) \<leftarrow> copy_mem_reg (process_mem_reg p) k;
          k \<leftarrow> upd_proc child (process_mem_reg_update (\<lambda>_. r)) k;
          (r, k) \<leftarrow> copy_mem_reg (heap_mem_reg p) k;
          k \<leftarrow> upd_proc child (heap_mem_reg_update (\<lambda>_. r)) k;
          (r, k) \<leftarrow> copy_mem_reg (ustack_mem_reg p) k;
          upd_proc child (ustack_mem_reg_update (\<lambda>_. r)) k }"

definition fork_process ::
    "(addr \<Rightarrow> kernel \<Rightarrow> (addr \<times> kernel) option) \<Rightarrow> (addr \<Rightarrow> kernel \<Rightarrow> (addr \<times> kernel) option)
     \<Rightarrow> processor_reg \<Rightarrow> kernel \<Rightarrow> (u32 \<times> kernel) option" where
  "fork_process clone_file_desc clone_socket_desc r k =
     do { (child, k) \<leftarrow> ret_heap (kmalloc sizeof_process_context) k;
          current \<leftarrow> CURRENT_PROCESS_CONTEXT k;
          p \<leftarrow> procs k current;
          let k = (if pid p = 0 then k\<lparr>process_0 := current_process k\<rparr> else k);
          (stack, k) \<leftarrow> ret_vm (alloc_page (unat KERNEL_STACK_SIZE)) k;
          let phy = FROM_VIRT_TO_PHY (of_nat stack);
          k \<leftarrow> on_vm (copy_stack stack (unat (FROM_PHY_TO_VIRT (phy_kernel_stack p)))) k;
          let n = next_pid k;
          let c = p\<lparr>processor_reg := r, phy_kernel_stack := phy, pid := n\<rparr>;
          let k = k\<lparr>procs := (procs k)(child \<mapsto> c), next_pid := n + 1\<rparr>;
          t \<leftarrow> hashtable_put (pid_hash k) (unat n) child;
          let k = k\<lparr>pid_hash := t\<rparr>;
          l \<leftarrow> hashtable_get (pgid_hash k) (unat (pgid p));
          (node, k) \<leftarrow> ret_lists (ll_append l child) k;
          k \<leftarrow> upd_proc child (\<lambda>c. c\<lparr>pgid_list_ref := node, sig_num := 0, parent := current\<rparr>) k;
          (fd, k) \<leftarrow> clone_file_desc (file_desc p) k;
          k \<leftarrow> upd_proc child (file_desc_update (\<lambda>_. fd)) k;
          (sd, k) \<leftarrow> clone_socket_desc (socket_desc p) k;
          k \<leftarrow> upd_proc child (socket_desc_update (\<lambda>_. sd)) k;
          k \<leftarrow> (if process_type p = USERSPACE_PROCESS then fork_user child p k else Some k);
          q \<leftarrow> ready_queue (curr_sched_queue_index p) k;
          (_, k) \<leftarrow> ret_lists (ll_prepend q child) k;
          (dir, k) \<leftarrow> ret_vm (clone_vm_process (page_dir p) (process_type p) phy (page_dir p)) k;
          k \<leftarrow> upd_proc child (page_dir_update (\<lambda>_. dir)) k;
          c \<leftarrow> procs k child;
          Some (pid c, k) }"

section \<open>Exec\<close>

definition PROC_VIRT_MEM_START_ADDR :: u32 where "PROC_VIRT_MEM_START_ADDR = 0x100000"
definition HEAP_VIRT_MEM_START_ADDR :: u32 where "HEAP_VIRT_MEM_START_ADDR = 0x40000000"
definition HEAP_INIT_SIZE :: u32 where "HEAP_INIT_SIZE = 0x200000"
definition USER_STACK :: u32 where "USER_STACK = 0xBFFFC000"
definition USER_STACK_INIT_SIZE :: u32 where "USER_STACK_INIT_SIZE = 0x100000"
definition PROCESS_INIT_FILE :: nat where "PROCESS_INIT_FILE = 10"
definition PROCESS_INIT_SOCKET :: nat where "PROCESS_INIT_SOCKET = 10"

text \<open>The four bytes of a word, lowest first.\<close>

definition le_word :: "u32 \<Rightarrow> u32 \<Rightarrow> (u32 \<times> u8) list" where
  "le_word a w = [(a, ucast w), (a + 1, ucast (drop_bit 8 w)), (a + 2, ucast (drop_bit 16 w)), (a + 3, ucast (drop_bit 24 w))]"

definition string_bytes :: "u32 \<Rightarrow> u8 list \<Rightarrow> (u32 \<times> u8) list" where
  "string_bytes a s = map (\<lambda>i. (a + of_nat i, (s @ [0]) ! i)) [0..<length s + 1]"

text \<open>
  The first stack frame of a program: \<open>argv\<close> are its arguments without terminators. The
  strings follow the array of their addresses.
\<close>

definition data_size_of :: "u8 list list \<Rightarrow> u32" where
  "data_size_of argv = of_nat (sum_list (map (\<lambda>s. length s + 1) argv))"

definition exec_sp :: "u8 list list \<Rightarrow> u32" where
  "exec_sp argv = USER_STACK - (4 * (of_nat (length argv) + 4) + data_size_of argv + 16)"

fun frame_strings :: "u32 \<Rightarrow> u32 \<Rightarrow> u8 list list \<Rightarrow> (u32 \<times> u8) list" where
  "frame_strings pointers text_addr [] = []"
| "frame_strings pointers text_addr (s # ss) =
     string_bytes text_addr s @ le_word pointers text_addr
     @ frame_strings (pointers + 4) (text_addr + of_nat (length s + 1)) ss"

definition exec_frame :: "u8 list list \<Rightarrow> (u32 \<times> u8) list" where
  "exec_frame argv =
     (let sp = exec_sp argv; stack_data_pointers = sp + 16; argc = of_nat (length argv) in
      le_word sp 0 @ le_word (sp + 4) argc @ le_word (sp + 8) stack_data_pointers @ le_word (sp + 12) 0
      @ frame_strings stack_data_pointers (stack_data_pointers + 4 * argc) argv)"

definition backup_args :: "u8 list list \<Rightarrow> kernel \<Rightarrow> (addr list \<times> kernel) option" where
  "backup_args argv k =
     do { (b, k) \<leftarrow> ret_heap (kmalloc (4 * length argv)) k;
          (as, k) \<leftarrow> for_each (\<lambda>s (as, k). do { (a, k) \<leftarrow> ret_heap (kmalloc (length s + 1)) k; Some (as @ [a], k) }) argv ([], k);
          Some (as @ [b], k) }"

definition exec_space :: "addr \<Rightarrow> u32 \<Rightarrow> kernel \<Rightarrow> kernel option" where
  "exec_space current process_size k =
     do { p \<leftarrow> procs k current;
          k \<leftarrow> (if process_type p = KERNEL_THREAD
               then do { (r, k) \<leftarrow> new_mem_reg PROC_VIRT_MEM_START_ADDR (PROC_VIRT_MEM_START_ADDR + process_size) k;
                         k \<leftarrow> upd_proc current (process_mem_reg_update (\<lambda>_. r)) k;
                         (r, k) \<leftarrow> new_mem_reg HEAP_VIRT_MEM_START_ADDR (HEAP_VIRT_MEM_START_ADDR + HEAP_INIT_SIZE) k;
                         k \<leftarrow> upd_proc current (heap_mem_reg_update (\<lambda>_. r)) k;
                         (r, k) \<leftarrow> new_mem_reg (USER_STACK - USER_STACK_INIT_SIZE) USER_STACK k;
                         k \<leftarrow> upd_proc current (ustack_mem_reg_update (\<lambda>_. r)) k;
                         (page, k) \<leftarrow> ret_vm (alloc_page PAGE_SIZE) k;
                         k \<leftarrow> on_vm (map_vm_mem (page_dir p) (USER_STACK - 0x1000) (FROM_VIRT_TO_PHY (of_nat page)) 0x1000 7) k;
                         on_vm (count_inc (BLOCK_INDEX_FROM_PHY (FROM_VIRT_TO_PHY (of_nat page)))) k }
               else do { k \<leftarrow> on_vm (free_vm_process_user_space p) k;
                         g \<leftarrow> regs (vmm k) (process_mem_reg p);
                         Some (k\<lparr>vmm := (vmm k)\<lparr>regs := (regs (vmm k))(process_mem_reg p \<mapsto>
                            g\<lparr>end_addr := PROC_VIRT_MEM_START_ADDR + process_size\<rparr>)\<rparr>\<rparr>) });
          k \<leftarrow> on_vm (\<lambda>s. Some (SWITCH_PAGE_DIR (FROM_VIRT_TO_PHY (of_nat (page_dir p))) s)) k;
          upd_proc current (process_type_update (\<lambda>_. USERSPACE_PROCESS)) k }"

text \<open>
  \<open>elf_loader_init\<close> opens the executable and fills the descriptor, or fails; \<open>put_user\<close> writes
  a byte of user memory; \<open>fdt\<close> and \<open>sdt\<close> are the addresses of the new tables. The result is the
  stack pointer user mode starts with, \<open>None\<close> when \<^verbatim>\<open>_exec\<close> returns \<open>-1\<close>.
\<close>

definition exec_process ::
    "(addr \<Rightarrow> kernel \<Rightarrow> kernel option) \<Rightarrow> (addr \<Rightarrow> kernel \<Rightarrow> kernel option) \<Rightarrow> (addr \<Rightarrow> kernel \<Rightarrow> (bool \<times> kernel) option)
     \<Rightarrow> (u32 \<Rightarrow> u8 \<Rightarrow> kernel \<Rightarrow> kernel option) \<Rightarrow> addr \<Rightarrow> addr \<Rightarrow> u8 list list \<Rightarrow> kernel \<Rightarrow> (u32 option \<times> kernel) option" where
  "exec_process file_free socket_free elf_loader_init put_user fdt sdt argv k =
     do { current \<leftarrow> CURRENT_PROCESS_CONTEXT k;
          p \<leftarrow> procs k current;
          k \<leftarrow> (if elf_desc p = 0
               then do { (e, k) \<leftarrow> ret_heap (kmalloc sizeof_elf_desc) k; upd_proc current (elf_desc_update (\<lambda>_. e)) k }
               else Some k);
          k \<leftarrow> free_table file_free True (file_desc p) k;
          k \<leftarrow> free_table socket_free True (socket_desc p) k;
          let k = k\<lparr>tables := (tables k)(fdt \<mapsto> hashtable_init PROCESS_INIT_FILE, sdt \<mapsto> hashtable_init PROCESS_INIT_SOCKET)\<rparr>;
          k \<leftarrow> upd_proc current (\<lambda>p. p\<lparr>file_desc := fdt, socket_desc := sdt\<rparr>) k;
          p \<leftarrow> procs k current;
          (ok, k) \<leftarrow> elf_loader_init (elf_desc p) k;
          if \<not> ok then Some (None, k)
          else do { d \<leftarrow> elfs k (elf_desc p);
                    k \<leftarrow> upd_proc current (\<lambda>p. p\<lparr>proc_status := RUNNING, sleep_time := 0,
                                                assigned_sleep_time := 0, static_priority := 0\<rparr>) k;
                    (areas, k) \<leftarrow> backup_args argv k;
                    k \<leftarrow> exec_space current (elf_file_size d) k;
                    k \<leftarrow> for_each (\<lambda>(a, b). put_user a b) (exec_frame argv) k;
                    k \<leftarrow> for_each (\<lambda>a. on_heap (kfree a)) areas k;
                    Some (Some (exec_sp argv), k) } }"

section \<open>The clock\<close>

definition clamp_sleep :: "u32 \<Rightarrow> u32" where
  "clamp_sleep t = (if sint t > 1000 then 1000 else if sint t < 0 then 0 else t)"

text \<open>
  One tick for every process in the queue of timed sleepers. A process wakes when its time is
  exactly zero.
\<close>

partial_function (option) tick_sleepers :: "addr \<Rightarrow> addr \<Rightarrow> nat \<Rightarrow> kernel \<Rightarrow> (nat \<times> kernel) option" where
  "tick_sleepers sentinel node is_schedule k =
     (if node = sentinel then Some (is_schedule, k)
      else do { a \<leftarrow> ll_val node (lsts k);
                k \<leftarrow> upd_proc a (\<lambda>p. p\<lparr>assigned_sleep_time := assigned_sleep_time p - QUANTUM_DURATION,
                                      sleep_time := clamp_sleep (sleep_time p + QUANTUM_DURATION)\<rparr>) k;
                p \<leftarrow> procs k a;
                if assigned_sleep_time p = 0
                then do { k \<leftarrow> adjust_sched_queue a k;
                          k \<leftarrow> upd_proc a (proc_status_update (\<lambda>_. RUNNING)) k;
                          p \<leftarrow> procs k a;
                          q \<leftarrow> ready_queue (curr_sched_queue_index p) k;
                          (_, k) \<leftarrow> ret_lists (ll_append q a) k;
                          nx \<leftarrow> ll_next node (lsts k);
                          k \<leftarrow> on_lists (ll_delete_node node) k;
                          tick_sleepers sentinel nx 1 k }
                else do { nx \<leftarrow> ll_next node (lsts k); tick_sleepers sentinel nx is_schedule k } })"

text \<open>The time slice of the running process.\<close>

definition tick_current :: "nat \<Rightarrow> kernel \<Rightarrow> (nat \<times> kernel) option" where
  "tick_current is_schedule k =
     do { a \<leftarrow> CURRENT_PROCESS_CONTEXT k;
          k \<leftarrow> upd_proc a (\<lambda>p. p\<lparr>sleep_time := clamp_sleep (sleep_time p - QUANTUM_DURATION)\<rparr>) k;
          p \<leftarrow> procs k a;
          if proc_status p = EXITING then Some (2, k)
          else if tick p - 1 = 0 then do { k \<leftarrow> upd_proc a (tick_update (\<lambda>_. TICK)) k; Some (1, k) }
          else do { k \<leftarrow> upd_proc a (tick_update (\<lambda>t. t - 1)) k; Some (is_schedule, k) } }"

text \<open>
  The timers are counted down from the first node round to it again, the sentinel included,
  until one expires; \<open>handler\<close> runs it.
\<close>

partial_function (option) tick_timers :: "(addr \<Rightarrow> kernel \<Rightarrow> kernel option) \<Rightarrow> addr \<Rightarrow> kernel \<Rightarrow> kernel option" where
  "tick_timers handler node k =
     do { t \<leftarrow> ll_val node (lsts k);
          v \<leftarrow> ktimers k t;
          let k = k\<lparr>ktimers := (ktimers k)(t \<mapsto> v - 1)\<rparr>;
          if v - 1 = 0 then handler t k
          else do { nx \<leftarrow> ll_next node (lsts k);
                    first \<leftarrow> ll_first (timer_list k) (lsts k);
                    if nx = first then Some k else tick_timers handler nx k } }"

definition clock_tick :: "(addr \<Rightarrow> kernel \<Rightarrow> kernel option) \<Rightarrow> kernel \<Rightarrow> (nat \<times> kernel) option" where
  "clock_tick handler k =
     do { let k = k\<lparr>systime := systime k + QUANTUM_DURATION\<rparr>;
          (is_schedule, k) \<leftarrow>
            (if int_path_count k > 0 then Some (0, k)
             else do { let sleeping = sleeping_process k;
                       s \<leftarrow> ll_sentinel (sleep_wait_queue k) (lsts k);
                       first \<leftarrow> ll_first (sleep_wait_queue k) (lsts k);
                       (is_schedule, k) \<leftarrow> tick_sleepers s first 0 k;
                       if sleeping \<noteq> 0 \<and> \<not> console_empty k
                       then do { k \<leftarrow> awake sleeping k; Some (is_schedule, k\<lparr>sleeping_process := 0\<rparr>) }
                       else tick_current is_schedule k });
          first \<leftarrow> ll_first (timer_list k) (lsts k);
          k \<leftarrow> tick_timers handler first k;
          Some (is_schedule, k) }"

section \<open>The way out of an interrupt\<close>

definition free_space :: "process_context \<Rightarrow> kernel \<Rightarrow> kernel option" where
  "free_space p k =
     do { k \<leftarrow> on_vm (free_vm_process p) k;
          on_vm (free_page (unat (FROM_PHY_TO_VIRT (phy_kernel_stack p)))) k }"

text \<open>
  A process with a pending \<open>SIGINT\<close> is not entered; \<open>on_sigint\<close> is what is done for it besides
  releasing its address space.
\<close>

partial_function (option) schedule_loop ::
    "processor_reg \<Rightarrow> (kernel \<Rightarrow> kernel option) \<Rightarrow> processor_reg \<Rightarrow> kernel \<Rightarrow> (process_context \<times> processor_reg \<times> kernel) option" where
  "schedule_loop wild on_sigint r k =
     do { (r, k) \<leftarrow> schedule wild r k;
          a \<leftarrow> CURRENT_PROCESS_CONTEXT k;
          p \<leftarrow> procs k a;
          if sig_num p = SIGINT
          then do { k \<leftarrow> on_sigint k; k \<leftarrow> free_space p k; schedule_loop wild on_sigint r k }
          else Some (p, r, k) }"

definition flush_packets :: "(kernel \<Rightarrow> kernel option) \<Rightarrow> kernel \<Rightarrow> kernel option" where
  "flush_packets network k =
     (if int_path_count k = 0 \<and> force_scheduling k = 0 \<and> flush_network k = 1
      then do { k \<leftarrow> network (k\<lparr>flush_network := 0\<rparr>); Some (k\<lparr>flush_network := 1\<rparr>) }
      else Some k)"

text \<open>
  \<open>leave_interrupt\<close> is shared by the two versions; \<open>forced\<close> tells whether a pending request to
  reschedule counts. The result are the registers the processor goes on with.
\<close>

definition leave_interrupt ::
    "(kernel \<Rightarrow> kernel option) \<Rightarrow> processor_reg \<Rightarrow> (kernel \<Rightarrow> kernel option) \<Rightarrow> bool \<Rightarrow> nat \<Rightarrow> processor_reg
     \<Rightarrow> kernel \<Rightarrow> (processor_reg \<times> kernel) option" where
  "leave_interrupt network wild on_sigint forced action r k =
     do { k \<leftarrow> flush_packets network k;
          a \<leftarrow> CURRENT_PROCESS_CONTEXT k;
          old \<leftarrow> procs k a;
          let action2 = (if force_scheduling k = 1 \<and> forced \<and> int_path_count k = 0
                         then (if proc_status old = EXITING then 2 else 1) else action);
          if action2 > 0
          then do { (new, r, k) \<leftarrow> schedule_loop wild on_sigint r (k\<lparr>force_scheduling := 0\<rparr>);
                    let r = (if pid new \<noteq> pid old then processor_reg new else r);
                    k \<leftarrow> on_vm (\<lambda>s. Some (SWITCH_PAGE_DIR (FROM_VIRT_TO_PHY (of_nat (page_dir new))) s)) k;
                    k \<leftarrow> (if action2 = 2 then free_space old k else Some k);
                    Some (r, k) }
          else Some (r, k) }"

definition EXIT_INT_HANDLER ::
    "(kernel \<Rightarrow> kernel option) \<Rightarrow> processor_reg \<Rightarrow> nat \<Rightarrow> processor_reg \<Rightarrow> kernel \<Rightarrow> (processor_reg \<times> kernel) option" where
  "EXIT_INT_HANDLER network wild action r k = leave_interrupt network wild Some (action = 0) action r k"

definition exit_syscall_handler ::
    "(kernel \<Rightarrow> kernel option) \<Rightarrow> processor_reg \<Rightarrow> (u32 \<Rightarrow> kernel \<Rightarrow> kernel option) \<Rightarrow> (addr \<Rightarrow> kernel \<Rightarrow> kernel option)
     \<Rightarrow> nat \<Rightarrow> processor_reg \<Rightarrow> kernel \<Rightarrow> (processor_reg \<times> kernel) option" where
  "exit_syscall_handler network wild close_file socket_free action r k =
     leave_interrupt network wild (exit_process close_file socket_free) True action r k"

definition int_handler_lapic ::
    "(addr \<Rightarrow> kernel \<Rightarrow> kernel option) \<Rightarrow> (kernel \<Rightarrow> kernel option) \<Rightarrow> processor_reg \<Rightarrow> processor_reg
     \<Rightarrow> kernel \<Rightarrow> (processor_reg \<times> kernel) option" where
  "int_handler_lapic handler network wild r k =
     do { (is_schedule, k) \<leftarrow> clock_tick handler k; EXIT_INT_HANDLER network wild is_schedule r k }"

end
