(* ===== verification/Sched_Start.thy ===== *)
theory Sched_Start
  imports Schedule Process_Life
begin

text \<open>
  The start of the scheduler: \<open>init_scheduler\<close> makes ten empty queues, and a state with two
  ready processes is well-formed.
\<close>

section \<open>New blocks and new lists in a family\<close>

lemma node_pool_mono:
  assumes "km_live m \<subseteq> km_live m'"
  shows "node_pool m \<subseteq> node_pool m'"
proof
  fix x assume x: "x \<in> node_pool m"
  then have "x \<in> km_live m'" using node_pool_live assms by blast
  then obtain j where j: "j < POOL_NUM" "x \<in> km_live_in j m'" by (auto simp: km_live_def)
  then have "j = 2" using km_live_in_disjoint [of 2 j x m m'] x by (auto simp: node_pool_def)
  then show "x \<in> node_pool m'" using j by (simp add: node_pool_def)
qed

lemma fam_kmalloc:
  assumes fam: "dl_fam h L" and km: "kmalloc sz (dmem h) = Some (a, m)" "kpanics m = kpanics (dmem h)"
  shows "dl_fam (h\<lparr>dmem := m\<rparr>) L" and "km_live m = insert a (km_live (dmem h))" and "a \<notin> km_live (dmem h)"
proof -
  have inv: "km_inv (dmem h)" using dl_famD(1) [OF fam] by (simp add: dl_inv_def)
  note sp = kmalloc_spec [OF inv km]
  show live: "km_live m = insert a (km_live (dmem h))" and "a \<notin> km_live (dmem h)" by (fact sp)+
  have "dl_inv (h\<lparr>dmem := m\<rparr>)" using dl_famD(1) [OF fam] sp(4) live by (auto simp: dl_inv_def)
  moreover have "dom (nodes h) \<subseteq> node_pool m" using node_pool_mono [of "dmem h" m] live dl_famD(2) [OF fam] by blast
  moreover have "dl_list (h\<lparr>dmem := m\<rparr>) l xs" if "L l = Some xs" for l xs
    using dl_famD(3) [OF fam that] by (simp add: dl_list_def)
  ultimately show "dl_fam (h\<lparr>dmem := m\<rparr>) L"
    using dl_famD(4) [OF fam] unfolding dl_fam_def dl_nodes_def by simp
qed

lemma new_dllist_fields:
  assumes "new_dllist h = Some (l, h')" and "llists h' l = Some \<lparr>sentinel_node = s, data_destructor = 0\<rparr>"
  shows "nodes h' = (nodes h)(s \<mapsto> \<lparr>nxt = s, prv = s, val = 0\<rparr>)"
    and "llists h' = (llists h)(l \<mapsto> \<lparr>sentinel_node = s, data_destructor = 0\<rparr>)"
    and "\<exists>m. kmalloc sizeof_llist (dmem h) = Some (l, m) \<and> kmalloc sizeof_llist_node m = Some (s, dmem h')"
  using assms by (auto simp: new_dllist_def dc_new_dllist_def)

lemma fam_new:
  assumes fam: "dl_fam h L" and few: "card (km_live (dmem h)) < 7000"
  obtains l h' where "new_dllist h = Some (l, h')" and "dl_fam h' (L(l \<mapsto> []))" and "l \<notin> dom L"
    and "card (km_live (dmem h')) \<le> 2 + card (km_live (dmem h))" and "kpanics (dmem h') = kpanics (dmem h)"
proof -
  obtain l h' s where h': "new_dllist h = Some (l, h')" "dl_inv h'" "dl_list h' l []"
      "llists h' l = Some \<lparr>sentinel_node = s, data_destructor = 0\<rparr>"
      "card (km_live (dmem h')) \<le> 2 + card (km_live (dmem h))" "kpanics (dmem h') = kpanics (dmem h)"
      "km_live (dmem h') = {l, s} \<union> km_live (dmem h)" "l \<notin> km_live (dmem h)" "s \<notin> km_live (dmem h)"
    by (rule new_dllist_runs [OF dl_famD(1) [OF fam] few])
  note f = new_dllist_fields [OF h'(1,4)]
  obtain m where m: "kmalloc sizeof_llist (dmem h) = Some (l, m)" "kmalloc sizeof_llist_node m = Some (s, dmem h')"
    using f(3) by blast
  have inv: "km_inv (dmem h)" using dl_famD(1) [OF fam] by (simp add: dl_inv_def)
  have pm: "kpanics m = kpanics (dmem h)" "kpanics (dmem h') = kpanics m"
    using kpanics_kmalloc [OF m(1)] kpanics_kmalloc [OF m(2)] h'(6) by linarith+
  have s: "s \<in> node_pool (dmem h')" using node_pool_kmalloc(1) [OF kmalloc_spec(4) [OF inv m(1) pm(1)] m(2) pm(2)] .
  have live: "dom (nodes h) \<subseteq> km_live (dmem h)" "dom (llists h) \<subseteq> km_live (dmem h)"
    using dl_famD(1) [OF fam] by (simp_all add: dl_inv_def)
  have old: "a \<in> dom (llists h)" "dl_nodes h a xs \<subseteq> dom (nodes h)" if "L a = Some xs" for a xs
    using dl_famD(3) [OF fam that] dl_nodes_dom [OF dl_famD(3) [OF fam that]] by (auto simp: dl_list_def)
  have ne: "a \<noteq> l" "s \<notin> dl_nodes h a xs" "dl_nodes h' a xs = dl_nodes h a xs" if "L a = Some xs" for a xs
  proof -
    show "a \<noteq> l" using old(1) [OF that] live(2) h'(8) by blast
    then show "dl_nodes h' a xs = dl_nodes h a xs" by (simp add: dl_nodes_def f(2))
    show "s \<notin> dl_nodes h a xs" using old(2) [OF that] live(1) h'(9) by blast
  qed
  have "dl_fam h' (L(l \<mapsto> []))"
    unfolding dl_fam_def
  proof (intro conjI allI impI)
    have "node_pool (dmem h) \<subseteq> node_pool (dmem h')" using h'(7) by (intro node_pool_mono) blast
    then show "dom (nodes h') \<subseteq> node_pool (dmem h')" using s dl_famD(2) [OF fam] by (auto simp: f(1))
    show "dl_list h' a xs" if "(L(l \<mapsto> [])) a = Some xs" for a xs
    proof (cases "a = l")
      case False
      then have a: "L a = Some xs" using that by simp
      show ?thesis
        by (rule dl_list_frame [OF dl_famD(3) [OF fam a]]) (use ne [OF a] in \<open>auto simp: f(1,2)\<close>)
    qed (use that h'(3) in simp)
    have nl: "dl_nodes h' l [] = {s}" by (simp add: dl_nodes_def cycle_def f(2))
    show "dl_nodes h' a xs \<inter> dl_nodes h' b us = {}"
      if "(L(l \<mapsto> [])) a = Some xs" "(L(l \<mapsto> [])) b = Some us" "a \<noteq> b" for a b xs us
      using that ne [of a xs] ne [of b us] dl_famD(4) [OF fam, of a xs b us] nl
      by (cases "a = l"; cases "b = l") simp_all
  qed (fact h'(2))
  moreover have "l \<notin> dom L" using ne(1) by blast
  ultimately show ?thesis using that h'(1,5,6) by blast
qed

text \<open>Ten empty queues; every other list keeps its contents.\<close>

lemma init_scheduler_spec:
  assumes fam: "dl_fam (lsts k) L" and few: "card (km_live (dmem (lsts k))) < 6000" and len: "length (scheduler_queue k) = 10"
  obtains h qs L' where "init_scheduler k = Some (k\<lparr>lsts := h, scheduler_queue := qs\<rparr>)" and "dl_fam h L'"
    and "length qs = 10" and "distinct qs" and "set qs \<inter> dom L = {}" and "\<And>q. q \<in> set qs \<Longrightarrow> L' q = Some []"
    and "L \<subseteq>\<^sub>m L'" and "card (km_live (dmem h)) \<le> 20 + card (km_live (dmem (lsts k)))"
proof -
  let ?P = "\<lambda>i t. \<exists>h qs L'. t = k\<lparr>lsts := h, scheduler_queue := qs\<rparr> \<and> dl_fam h L' \<and> length qs = 10
      \<and> distinct (take i qs) \<and> set (take i qs) \<inter> dom L = {} \<and> (\<forall>q \<in> set (take i qs). L' q = Some [])
      \<and> L \<subseteq>\<^sub>m L' \<and> card (km_live (dmem h)) \<le> 2 * i + card (km_live (dmem (lsts k)))"
  have "\<exists>t. init_scheduler k = Some t \<and> ?P 10 t"
    unfolding init_scheduler_def
  proof (rule for_upto_runs [where P = ?P])
    show "?P 0 k" by (rule exI [of _ "lsts k"], rule exI [of _ "scheduler_queue k"], rule exI [of _ L]) (simp add: fam len)
  next
    fix i t assume i: "0 \<le> i" "i < (10::nat)" and P: "?P i t"
    from P obtain h qs L' where t: "t = k\<lparr>lsts := h, scheduler_queue := qs\<rparr>" and fam': "dl_fam h L'" and qs: "length qs = 10"
        "distinct (take i qs)" "set (take i qs) \<inter> dom L = {}" "\<forall>q \<in> set (take i qs). L' q = Some []" "L \<subseteq>\<^sub>m L'"
        and c: "card (km_live (dmem h)) \<le> 2 * i + card (km_live (dmem (lsts k)))" by blast
    have few': "card (km_live (dmem h)) < 7000" using c few i(2) by linarith
    obtain l h' where h': "new_dllist h = Some (l, h')" "dl_fam h' (L'(l \<mapsto> []))" "l \<notin> dom L'"
        "card (km_live (dmem h')) \<le> 2 + card (km_live (dmem h))"
      by (rule fam_new [OF fam' few'])
    have tk: "take (Suc i) (qs[i := l]) = take i qs @ [l]" using i(2) qs(1) by (simp add: take_Suc_conv_app_nth)
    have "dom L \<subseteq> dom L'" using qs(5) by (rule map_le_implies_dom_le)
    then have nl: "l \<notin> dom L" using h'(3) by blast
    have "?P (Suc i) (k\<lparr>lsts := h', scheduler_queue := qs[i := l]\<rparr>)"
    proof (rule exI [of _ h'], rule exI [of _ "qs[i := l]"], rule exI [of _ "L'(l \<mapsto> [])"], intro conjI)
      show "distinct (take (Suc i) (qs[i := l]))" using qs(2,4) h'(3) unfolding tk by auto
      show "set (take (Suc i) (qs[i := l])) \<inter> dom L = {}" using qs(3) nl unfolding tk by auto
      show "\<forall>q \<in> set (take (Suc i) (qs[i := l])). (L'(l \<mapsto> [])) q = Some []" using qs(4) unfolding tk by auto
      show "L \<subseteq>\<^sub>m L'(l \<mapsto> [])" using qs(5) nl unfolding map_le_def by auto
    qed (use h' qs(1) c in simp_all)
    then show "\<exists>u. (do { (q, k) \<leftarrow> ret_lists new_dllist t; Some (k\<lparr>scheduler_queue := (scheduler_queue k)[i := q]\<rparr>) }) = Some u
        \<and> ?P (Suc i) u"
      using h'(1) by (simp add: t ret_lists_def)
  qed simp
  then obtain h qs L' where r: "init_scheduler k = Some (k\<lparr>lsts := h, scheduler_queue := qs\<rparr>)" "dl_fam h L'" "length qs = 10"
      "distinct (take 10 qs)" "set (take 10 qs) \<inter> dom L = {}" "\<forall>q \<in> set (take 10 qs). L' q = Some []" "L \<subseteq>\<^sub>m L'"
      "card (km_live (dmem h)) \<le> 2 * 10 + card (km_live (dmem (lsts k)))" by blast
  show ?thesis by (rule that [OF r(1,2,3)]) (use r in simp_all)
qed

section \<open>Two processes\<close>

definition regs0 :: processor_reg where
  "regs0 = \<lparr>eax = 0, ebx = 0, ecx = 0, edx = 0, esi = 0, edi = 0, esp = 0, ds = 0x18, es = 0x18\<rparr>"

definition ready_proc :: "u32 \<Rightarrow> process_context" where
  "ready_proc i = \<lparr>processor_reg = regs0\<lparr>eax := i\<rparr>, pid = i, pgid = 0, parent = 0, tick = 10, console_desc = 0,
     process_type = KERNEL_THREAD, phy_space_size = 0, page_dir = 0, sleep_time = 0, assigned_sleep_time = 0,
     static_priority = 0, curr_sched_queue_index = 9, proc_status = RUNNING, root_dir_inode_number = 2,
     current_dir_inode_number = 2, next_fd = 0, file_desc = 0, phy_kernel_stack = 0, process_mem_reg = 0,
     heap_mem_reg = 0, ustack_mem_reg = 0, elf_desc = 0, socket_desc = 0, next_sd = 0, sig_num = 0,
     icmp_pending_req = 0, sleep_wait_queue_ref = 0, pgid_list_ref = 0\<rparr>"

definition kernel0 :: kernel where
  "kernel0 = \<lparr>lsts = dlheap0,
     vmm = \<lparr>ram = (\<lambda>_. 0), buddy = buddy_raw, regs = Map.empty, master_page_dir = 0, cr3 = 0\<rparr>,
     procs = Map.empty, elfs = Map.empty, tables = Map.empty, locks = Map.empty, sems = Map.empty, current_process = 0, process_0 = 0,
     next_pid = 1, tss_esp = 0, scheduler_queue = replicate 10 0, pause_queue = 0, sleep_wait_queue = 0,
     pid_hash = hashtable_init 20, pgid_hash = hashtable_init 20, req_map = hashtable_init 20, systime = 0,
     force_scheduling = 0, int_path_count = 0, fg_pgid = 0, sleeping_process = 0, console_empty = True,
     flush_network = 0, timer_list = 0, ktimers = Map.empty\<rparr>"

lemma dl_fam_dlheap0: "dl_fam dlheap0 Map.empty"
  using dl_inv_dlheap0(1) by (simp add: dl_fam_def) (simp add: dlheap0_def)

lemma ready_9:
  assumes "length qs = 10" and "distinct qs" and "\<And>q. q \<in> set qs \<Longrightarrow> L q = Some []"
  shows "concat (map (\<lambda>q. the ((L(qs ! 9 \<mapsto> xs)) q)) qs) = xs"
proof -
  have qs: "qs = take 9 qs @ [qs ! 9]" using assms(1) take_Suc_conv_app_nth [of 9 qs] by simp
  have "distinct (take 9 qs @ [qs ! 9])" using assms(2) qs by simp
  then have "qs ! 9 \<notin> set (take 9 qs)" by simp
  then have "map (\<lambda>q. the ((L(qs ! 9 \<mapsto> xs)) q)) (take 9 qs) = map (\<lambda>_. []) (take 9 qs)"
    using assms(3) by (auto dest: in_set_takeD)
  then show ?thesis by (subst qs) simp
qed

text \<open>Process 0 runs and another process waits in the last queue.\<close>

lemma two_ready:
  obtains k L c a n where "sched_wf k L" and "ready k L = [(current_process k, c), (n, a)]"
    and "procs k = [c \<mapsto> ready_proc 0, a \<mapsto> p1]" and "c \<noteq> a"
    and "card (km_live (dmem (lsts k))) \<le> 24" and "sems k = Map.empty"
proof -
  have few: "card (km_live (dmem (lsts kernel0))) = 0" by (simp add: kernel0_def dl_inv_dlheap0 kmem0_facts)
  have "dl_fam (lsts kernel0) Map.empty" by (simp add: kernel0_def dl_fam_dlheap0)
  then obtain h qs L where k: "dl_fam h L" "length qs = 10" "distinct qs" "\<And>q. q \<in> set qs \<Longrightarrow> L q = Some []"
      "card (km_live (dmem h)) \<le> 20"
    by (rule init_scheduler_spec) (use few in \<open>simp_all add: kernel0_def\<close>)
  have inv: "km_inv (dmem h)" using dl_famD(1) [OF k(1)] by (simp add: dl_inv_def)
  obtain c m1 where c: "kmalloc 100 (dmem h) = Some (c, m1)" "kpanics m1 = kpanics (dmem h)"
      "card (km_live m1) = Suc (card (km_live (dmem h)))" "km_inv m1"
    by (rule kmalloc_room [OF inv, of 100]) (use k(5) in simp_all)
  note f1 = fam_kmalloc [OF k(1) c(1,2)]
  obtain a m2 where a: "kmalloc 100 m1 = Some (a, m2)" "kpanics m2 = kpanics m1"
      "card (km_live m2) = Suc (card (km_live m1))" "km_inv m2"
    by (rule kmalloc_room [OF c(4), of 100]) (use k(5) c(3) in simp_all)
  have a': "kmalloc 100 (dmem (h\<lparr>dmem := m1\<rparr>)) = Some (a, m2)" "kpanics m2 = kpanics (dmem (h\<lparr>dmem := m1\<rparr>))"
    using a by simp_all
  note f2 = fam_kmalloc [OF f1(1) a']
  let ?h2 = "h\<lparr>dmem := m1\<rparr>\<lparr>dmem := m2\<rparr>" and ?q = "qs ! 9"
  have q: "L ?q = Some []" "?q \<in> set qs" using k(2,4) by simp_all
  have inv2: "dl_inv ?h2" by (rule dl_famD(1) [OF f2(1)])
  obtain n0 m3 where n0: "kmalloc sizeof_llist_node (dmem ?h2) = Some (n0, m3)" "kpanics m3 = kpanics (dmem ?h2)"
      "card (km_live m3) = Suc (card (km_live m2))" "km_inv m3" "n0 \<notin> km_live m2" "km_live m3 = insert n0 (km_live m2)"
    by (rule kmalloc_room [OF a(4), of sizeof_llist_node])
      (use k(5) c(3) a(3) in \<open>simp_all add: sizeof_llist_node_def\<close>)
  obtain h3 where h3: "ll_append ?q c ?h2 = Some (n0, h3)" "dl_fam h3 (L(?q \<mapsto> [] @ [(n0, c)]))" "llists h3 = llists ?h2" "dmem h3 = m3"
    by (rule fam_append [OF f2(1) q(1) n0(1,2), of c])
  obtain n1 m4 where n1: "kmalloc sizeof_llist_node m3 = Some (n1, m4)" "kpanics m4 = kpanics m3"
      "n1 \<notin> km_live m3" "km_live m4 = insert n1 (km_live m3)" "card (km_live m4) = Suc (card (km_live m3))"
    by (rule kmalloc_room [OF n0(4), of sizeof_llist_node])
      (use k(5) c(3) a(3) n0(3) in \<open>simp_all add: sizeof_llist_node_def\<close>)
  have n1': "kmalloc sizeof_llist_node (dmem h3) = Some (n1, m4)" "kpanics m4 = kpanics (dmem h3)"
    using n1(1,2) h3(4) by simp_all
  have q3: "(L(?q \<mapsto> [] @ [(n0, c)])) ?q = Some [(n0, c)]" by simp
  obtain h4 where h4: "ll_append ?q a h3 = Some (n1, h4)"
      "dl_fam h4 (L(?q \<mapsto> [] @ [(n0, c)], ?q \<mapsto> [(n0, c)] @ [(n1, a)]))" "llists h4 = llists h3" "dmem h4 = m4"
    by (rule fam_append [OF h3(2) q3 n1', of a])
  define L4 where "L4 = L(?q \<mapsto> [(n0, c), (n1, a)])"
  define k4 where "k4 = kernel0\<lparr>lsts := h4, scheduler_queue := qs, procs := [c \<mapsto> ready_proc 0, a \<mapsto> p1],
    current_process := n0, process_0 := n0\<rparr>"
  have ca: "c \<noteq> a" using f2(3) f1(2) by auto
  have rd: "ready k4 L4 = [(n0, c), (n1, a)]" unfolding ready_def k4_def L4_def using ready_9 [OF k(2,3,4)] by simp
  have "sched_wf k4 L4"
  proof (rule sched_wfI [of _ _ c "ready_proc 0"])
    show "dl_fam (lsts k4) L4" using h4(2) by (simp add: k4_def L4_def)
    show "set (scheduler_queue k4) \<subseteq> dom L4" using k(4) by (auto simp: k4_def L4_def)
    have old: "dom (nodes h) \<subseteq> km_live (dmem h)" "dom (llists h) \<subseteq> km_live (dmem h)"
      using dl_famD(1) [OF k(1)] by (simp_all add: dl_inv_def)
    have "dom (nodes h4) \<subseteq> {n0, n1} \<union> km_live (dmem h)" using append_dom [OF h4(1)] append_dom [OF h3(1)] old(1) by auto
    moreover have "dom (llists h4) \<subseteq> km_live (dmem h)" using h4(3) h3(3) old(2) by simp
    moreover have "c \<notin> km_live (dmem h)" "a \<notin> km_live (dmem h)" "{c, a} \<subseteq> km_live m2" using f1(2,3) f2(2,3) by auto
    ultimately have "{c, a} \<subseteq> km_live m4 - dom (nodes h4) - dom (llists h4)" using n0(5,6) n1(3,4) by auto
    then show "dom (procs k4) \<subseteq> km_live (dmem (lsts k4)) - dom (nodes (lsts k4)) - dom (llists (lsts k4))"
      by (auto simp: k4_def h4(4))
  qed (use ca k(2,3) rd in \<open>auto simp: k4_def ready_proc_def\<close>)
  moreover have "card (km_live (dmem (lsts k4))) \<le> 24" using k(5) c(3) a(3) n0(3) n1(5) by (simp add: k4_def h4(4))
  ultimately show ?thesis using that [of k4 L4 c n1 a] rd ca by (simp add: k4_def kernel0_def)
qed

section \<open>Properties\<close>

text \<open>C13: When some ready process other than process 0 and the current one exists, \<open>schedule\<close> gives the
  processor to the first such process in the order of the queues: its registers are loaded
  (the segment registers apart) and those of the current process saved. The current process
  is queued again by its priority in a node at the same address, or taken out of the
  queues when it sleeps, or released when it exits; the rest of the queues keeps its order and the state stays well-formed.\<close>

theorem schedule_switches:
  assumes wf: "sched_wf k L" and cur: "(current_process k, c) \<in> set (ready k L)" "procs k c = Some p"
    and prio: "proc_status p = RUNNING \<Longrightarrow> 0 \<le> priority_of p \<and> priority_of p \<le> 1000"
    and found: "List.find (may_run (pid p) k) (ready k L) = Some (n, a)"
  shows "\<exists>k' L'. schedule wild r k = Some ((processor_reg (the (procs k a)))\<lparr>ds := ds r, es := es r\<rparr>, k')
     \<and> sched_wf k' L' \<and> current_process k' = n \<and> (n, a) \<in> set (ready k' L')
     \<and> leaves (p\<lparr>processor_reg := r\<rparr>) c (current_process k) k L k' L'"
proof -
  let ?n = "current_process k"
  let ?k = "k\<lparr>tss_esp := KERNEL_STACK, procs := (procs k)(c \<mapsto> p\<lparr>processor_reg := r\<rparr>), current_process := n\<rparr>"
  obtain q where q: "procs k a = Some q" "pid q \<noteq> pid p" and na: "(n, a) \<in> set (ready k L)" using find_ready [OF found] by blast
  have ac: "a \<noteq> c" using q cur(2) by auto
  have nn: "n \<noteq> ?n" using wf_val(1) [OF wf na] wf_val(1) [OF wf cur(1)] ac by auto
  have rd: "ready ?k L = ready k L" by (simp add: ready_def)
  have wf': "sched_wf ?k L" by (rule switched_wf [OF wf cur(2)])
  obtain k' L' where k': "(case proc_status (p\<lparr>processor_reg := r\<rparr>) of RUNNING \<Rightarrow> requeue c ?n ?k
        | SLEEPING \<Rightarrow> on_lists (ll_delete_node ?n) ?k | EXITING \<Rightarrow> release_process c ?n ?k) = Some k'"
      "sched_wf k' L'" "current_process k' = current_process ?k" "leaves (p\<lparr>processor_reg := r\<rparr>) c ?n ?k L k' L'"
      "\<And>x. x \<in> set (ready ?k L) \<Longrightarrow> fst x \<noteq> ?n \<Longrightarrow> x \<in> set (ready k' L')"
  proof (rule wf_leave [OF wf', of ?n c "p\<lparr>processor_reg := r\<rparr>"])
    show "(?n, c) \<in> set (ready ?k L)" unfolding rd by (rule cur(1))
  qed (use prio in \<open>auto simp: priority_of_def\<close>)
  have "schedule wild r k = Some ((processor_reg (the (procs k a)))\<lparr>ds := ds r, es := es r\<rparr>, k')"
    using wf_val(1) [OF wf cur(1)] wf_val(1) [OF wf na] cur(2) wf_pick [OF wf, of "pid p"] found k'(1)
      do_context_switch_spec [OF cur(2) ac, of wild r] q(1)
    by (simp add: schedule_def regs_at_def)
  moreover have "(n, a) \<in> set (ready k' L')" using k'(5) [of "(n, a)"] rd na nn by simp
  ultimately show ?thesis using k'(2,3) leaves_switched [OF k'(4)] by auto
qed

theorem schedule_switches_witness:
  "\<exists>k L c n a k' L'. sched_wf k L \<and> ready k L = [(current_process k, c), (n, a)] \<and> c \<noteq> a
     \<and> schedule regs0 regs0 k = Some (regs0\<lparr>eax := 1\<rparr>, k') \<and> sched_wf k' L' \<and> current_process k' = n
     \<and> leaves (ready_proc 0) c (current_process k) k L k' L'"
proof -
  obtain k L c a n where k: "sched_wf k L" "ready k L = [(current_process k, c), (n, a)]"
      "procs k = [c \<mapsto> ready_proc 0, a \<mapsto> ready_proc 1]" "c \<noteq> a" by (rule two_ready)
  have "List.find (may_run (pid (ready_proc 0)) k) (ready k L) = Some (n, a)"
    unfolding k(2) using k(3,4) by (simp add: may_run_def ready_proc_def)
  moreover have "priority_of (ready_proc 0) = 0" by (simp add: priority_of_def ready_proc_def)
  moreover have "(ready_proc 0)\<lparr>processor_reg := regs0\<rparr> = ready_proc 0" by (simp add: ready_proc_def regs0_def)
  moreover have "(processor_reg (the (procs k a)))\<lparr>ds := ds regs0, es := es regs0\<rparr> = regs0\<lparr>eax := 1\<rparr>"
    using k(3) by (simp add: ready_proc_def regs0_def)
  ultimately have "\<exists>k' L'. schedule regs0 regs0 k = Some (regs0\<lparr>eax := 1\<rparr>, k') \<and> sched_wf k' L' \<and> current_process k' = n
      \<and> (n, a) \<in> set (ready k' L') \<and> leaves (ready_proc 0) c (current_process k) k L k' L'"
    using schedule_switches [OF k(1), of c "ready_proc 0" n a regs0 regs0] k(2,3,4) by simp
  then show ?thesis using k(1,2,4) by blast
qed

end
