(* ===== verification/Semaphore.thy ===== *)
theory Semaphore
  imports Sched_Start
begin

text \<open>
  Semaphores (\<^verbatim>\<open>src/synchro_types/semaphore.c\<close>): a count and a queue of waiting processes.
  The current process waits by sleeping; \<open>sem_up\<close> passes the semaphore on to the process that
  has waited longest.
\<close>

section \<open>Operations\<close>

definition sem_init :: "addr \<Rightarrow> u32 \<Rightarrow> kernel \<Rightarrow> kernel option" where
  "sem_init s n k =
     do { (q, k) \<leftarrow> ret_lists new_dllist k;
          Some (k\<lparr>sems := (sems k)(s \<mapsto> \<lparr>wait_queue = q, sem_count = n\<rparr>)\<rparr>) }"

definition sem_down :: "(kernel \<Rightarrow> kernel) \<Rightarrow> addr \<Rightarrow> kernel \<Rightarrow> kernel option" where
  "sem_down suspend s k =
     do { current \<leftarrow> CURRENT_PROCESS_CONTEXT k;
          d \<leftarrow> sems k s;
          if sem_count d = 0
          then do { (_, k) \<leftarrow> ret_lists (ll_append (wait_queue d) current) k; sleep suspend k }
          else Some (k\<lparr>sems := (sems k)(s \<mapsto> d\<lparr>sem_count := sem_count d - 1\<rparr>)\<rparr>) }"

definition sem_up :: "addr \<Rightarrow> kernel \<Rightarrow> kernel option" where
  "sem_up s k =
     do { _ \<leftarrow> CURRENT_PROCESS_CONTEXT k;
          d \<leftarrow> sems k s;
          e \<leftarrow> ll_empty (wait_queue d) (lsts k);
          if \<not> e
          then do { node \<leftarrow> ll_first (wait_queue d) (lsts k);
                    a \<leftarrow> ll_val node (lsts k);
                    k \<leftarrow> on_lists (ll_delete_node node) k;
                    awake a k }
          else Some (k\<lparr>sems := (sems k)(s \<mapsto> d\<lparr>sem_count := sem_count d + 1\<rparr>)\<rparr>) }"

section \<open>Waking\<close>

lemma slept_range: "0 \<le> sint (slept now since)" "sint (slept now since) \<le> 1000"
proof -
  have le: "slept now since \<le> 1000" by (auto simp: slept_def)
  then have "uint (slept now since) \<le> uint (1000 :: u32)" by (simp only: word_le_def)
  then have u: "uint (slept now since) \<le> 1000" by simp
  have "signed_take_bit 31 (uint (slept now since)) = uint (slept now since)"
  proof (rule signed_take_bit_int_eq_self)
    show "- (2 ^ 31) \<le> uint (slept now since)" by (rule order_trans [of _ 0]) simp_all
  qed (use u in simp)
  then have "sint (slept now since) = uint (slept now since)" by (simp add: sint_uint)
  then show "0 \<le> sint (slept now since)" "sint (slept now since) \<le> 1000" using u by simp_all
qed

definition add_first :: "addr \<Rightarrow> addr \<times> addr \<Rightarrow> lists \<Rightarrow> lists" where
  "add_first q x L = L(q \<mapsto> x # the (L q))"

lemma ready_add_first:
  assumes "q \<in> set (scheduler_queue k)" and "distinct (scheduler_queue k)"
  obtains A B where "ready k L = A @ B" and "ready k (add_first q x L) = A @ x # B"
proof -
  obtain us vs where qs: "scheduler_queue k = us @ q # vs" using split_list assms(1) by metis
  then have "q \<notin> set us" "q \<notin> set vs" using assms(2) by auto
  then have eq: "map (\<lambda>q'. the (add_first q x L q')) us = map (\<lambda>q'. the (L q')) us"
      "map (\<lambda>q'. the (add_first q x L q')) vs = map (\<lambda>q'. the (L q')) vs" by (auto simp: add_first_def)
  have "the (add_first q x L q) = x # the (L q)" by (simp add: add_first_def)
  then show ?thesis using that [of "concat (map (\<lambda>q'. the (L q')) us)" "the (L q) @ concat (map (\<lambda>q'. the (L q')) vs)"]
    by (simp add: ready_def qs eq)
qed

lemma prepend_dom:
  assumes "ll_prepend l v h = Some (new, h')"
  shows "dom (nodes h') \<subseteq> insert new (dom (nodes h))"
  using assms by (auto simp: ll_prepend_def dest!: insert_dom)

text \<open>The descriptor of a process that wakes.\<close>

definition woken :: "u32 \<Rightarrow> nat \<Rightarrow> process_context \<Rightarrow> process_context" where
  "woken now j p = p\<lparr>sleep_time := slept now (sleep_time p), curr_sched_queue_index := j, proc_status := RUNNING\<rparr>"

definition wake_queue :: "u32 \<Rightarrow> process_context \<Rightarrow> nat option" where
  "wake_queue now p = queue_of_priority (priority_of (p\<lparr>sleep_time := slept now (sleep_time p)\<rparr>))"

lemma wake_queue_some:
  assumes "static_priority p = 0"
  obtains j where "wake_queue now p = Some j" and "j < 10"
  using queue_of_priority_some [OF slept_range] assms by (auto simp: wake_queue_def priority_of_def)

lemma awake_runs:
  assumes "ll_val (current_process k) (lsts k) = Some c" and "procs k c = Some pc" and "procs k a = Some p"
    and "c \<noteq> a" and "pid pc \<noteq> pid p" and "proc_status p = SLEEPING" and "wake_queue (systime k) p = Some j"
    and "j < length (scheduler_queue k)" and "ll_prepend (scheduler_queue k ! j) a (lsts k) = Some (n, h')"
  shows "awake a k = Some (k\<lparr>procs := (procs k)(a \<mapsto> woken (systime k) j p), lsts := h', force_scheduling := 1\<rparr>)"
  using assms
  by (simp add: awake_def CURRENT_PROCESS_CONTEXT_def upd_proc_def adjust_sched_queue_def wake_queue_def ready_queue_def
      ret_lists_def woken_def)

lemma wf_awake:
  assumes wf: "sched_wf k L" and cur: "(current_process k, c) \<in> set (ready k L)" "procs k c = Some pc"
    and a: "procs k a = Some p" "pid pc \<noteq> pid p" "proc_status p = SLEEPING" "static_priority p = 0" "a \<notin> snd ` set (ready k L)"
    and km: "kmalloc sizeof_llist_node (dmem (lsts k)) = Some (n, m)" "kpanics m = kpanics (dmem (lsts k))"
  obtains j h' where "wake_queue (systime k) p = Some j" and "j < 10"
    and "awake a k = Some (k\<lparr>procs := (procs k)(a \<mapsto> woken (systime k) j p), lsts := h', force_scheduling := 1\<rparr>)"
    and "sched_wf (k\<lparr>procs := (procs k)(a \<mapsto> woken (systime k) j p), lsts := h', force_scheduling := 1\<rparr>)
           (add_first (scheduler_queue k ! j) (n, a) L)"
proof -
  obtain j where j: "wake_queue (systime k) p = Some j" "j < 10" by (rule wake_queue_some [OF a(4)])
  let ?q = "scheduler_queue k ! j"
  have q: "?q \<in> set (scheduler_queue k)" using j(2) sched_wfD(2) [OF wf] by simp
  obtain xs where xs: "L ?q = Some xs" by (rule wf_queue [OF wf q])
  obtain h' where h': "ll_prepend ?q a (lsts k) = Some (n, h')" "dl_fam h' (L(?q \<mapsto> (n, a) # xs))"
      "llists h' = llists (lsts k)" "dmem h' = m"
    by (rule fam_prepend [OF sched_wfD(1) [OF wf] xs km, of a])
  have ca: "c \<noteq> a" using cur(2) a(1,2) by auto
  have run: "awake a k = Some (k\<lparr>procs := (procs k)(a \<mapsto> woken (systime k) j p), lsts := h', force_scheduling := 1\<rparr>)"
    by (rule awake_runs [OF wf_val(1) [OF wf cur(1)] cur(2) a(1) ca a(2,3) j(1) _ h'(1)]) (use j(2) sched_wfD(2) [OF wf] in simp)
  let ?k = "k\<lparr>procs := (procs k)(a \<mapsto> woken (systime k) j p), lsts := h', force_scheduling := 1\<rparr>"
    and ?L = "add_first ?q (n, a) L"
  obtain A B where AB: "ready k L = A @ B" "ready k ?L = A @ (n, a) # B"
    by (rule ready_add_first [OF q sched_wfD(3) [OF wf]])
  have rd: "ready ?k ?L = A @ (n, a) # B" using AB(2) by (simp add: ready_def)
  obtain a0 p0 where z: "(process_0 k, a0) \<in> set (ready k L)" "procs k a0 = Some p0" "pid p0 = 0" "proc_status p0 = RUNNING"
    using sched_wfD(8) [OF wf] by blast
  have inv: "km_inv (dmem (lsts k))" using dl_famD(1) [OF sched_wfD(1) [OF wf]] by (simp add: dl_inv_def)
  note fresh = km.alloc_fresh [OF inv km]
  have "sched_wf ?k ?L"
  proof (rule sched_wfI [of _ _ a0 p0])
    show "dl_fam (lsts ?k) ?L" using h'(2) xs by (simp add: add_first_def)
    show "set (scheduler_queue ?k) \<subseteq> dom ?L" using sched_wfD(4) [OF wf] by (auto simp: add_first_def)
    have "distinct (map snd (A @ B))" "a \<notin> snd ` set (A @ B)" using sched_wfD(5) [OF wf] a(5) unfolding AB(1) by blast+
    then show "distinct (map snd (ready ?k ?L))" unfolding rd by auto
    have "snd ` set (A @ B) \<subseteq> dom (procs k)" using sched_wfD(6) [OF wf] unfolding AB(1) .
    then show "snd ` set (ready ?k ?L) \<subseteq> dom (procs ?k)" unfolding rd by auto
    have dk: "dom (procs ?k) = dom (procs k)" using a(1) by auto
    have "dom (procs k) \<subseteq> km_live (dmem h') - dom (nodes h') - dom (llists h')"
    proof
      fix x assume "x \<in> dom (procs k)"
      then have x: "x \<in> km_live (dmem (lsts k))" "x \<notin> dom (nodes (lsts k))" "x \<notin> dom (llists (lsts k))"
        using sched_wfD(7) [OF wf] by blast+
      moreover have "x \<noteq> n" using x(1) fresh by blast
      ultimately show "x \<in> km_live (dmem h') - dom (nodes h') - dom (llists h')"
        using prepend_dom [OF h'(1)] h'(3,4) fresh by auto
    qed
    then show "dom (procs ?k) \<subseteq> km_live (dmem (lsts ?k)) - dom (nodes (lsts ?k)) - dom (llists (lsts ?k))"
      unfolding dk by simp
    show "(process_0 ?k, a0) \<in> set (ready ?k ?L)" unfolding rd using z(1) AB(1) by simp
    have "a0 \<noteq> a" using z(2,4) a(1,3) by auto
    then show "procs ?k a0 = Some p0" using z(2) by simp
  qed (use z sched_wfD(2,3) [OF wf] in simp_all)
  then show ?thesis using that j run by blast
qed

text \<open>A node that is not ready leaves its list.\<close>

lemma wf_drop_other:
  assumes wf: "sched_wf k L" and l: "L l = Some xs" "(n, a) \<in> set xs" "l \<notin> set (scheduler_queue k)"
  obtains h' m where "ll_delete_node n (lsts k) = Some h'" and "sched_wf (k\<lparr>lsts := h'\<rparr>) (drop_node n L)"
    and "ready (k\<lparr>lsts := h'\<rparr>) (drop_node n L) = ready k L"
    and "kmalloc sizeof_llist_node (dmem h') = Some (n, m)" and "kpanics m = kpanics (dmem h')"
proof -
  obtain h' m where h': "ll_delete_node n (lsts k) = Some h'" "dl_fam h' (drop_node n L)" "llists h' = llists (lsts k)"
      "km_live (dmem h') = km_live (dmem (lsts k)) - {n}" "dom (nodes h') \<subseteq> dom (nodes (lsts k))"
      and m: "kmalloc sizeof_llist_node (dmem h') = Some (n, m)" "kpanics m = kpanics (dmem h')"
    by (rule fam_drop [OF sched_wfD(1) [OF wf] l(1,2)]) blast
  have "n \<notin> fst ` set (ready k L)"
  proof
    assume "n \<in> fst ` set (ready k L)"
    then obtain b where "(n, b) \<in> set (ready k L)" by auto
    then obtain q ys where q: "q \<in> set (scheduler_queue k)" "L q = Some ys" "(n, b) \<in> set ys" by (rule wf_ready [OF wf])
    then show False using fam_node_unique [OF sched_wfD(1) [OF wf] l(1,2) q(2,3)] l(3) by blast
  qed
  then have rd: "ready (k\<lparr>lsts := h'\<rparr>) (drop_node n L) = ready k L"
    using ready_drop [OF sched_wfD(4) [OF wf], of n] filter_other [of n "ready k L"] by (simp add: ready_def)
  obtain a0 p0 where z: "(process_0 k, a0) \<in> set (ready k L)" "procs k a0 = Some p0" "pid p0 = 0" "proc_status p0 = RUNNING"
    using sched_wfD(8) [OF wf] by blast
  have n: "n \<in> dom (nodes (lsts k))" using fam_val [OF sched_wfD(1) [OF wf] l(1,2)] node_dom by blast
  have dp: "dom (procs k) \<subseteq> km_live (dmem h') - dom (nodes h') - dom (llists h')"
    unfolding h'(3) by (rule frame_sets [OF sched_wfD(7) [OF wf] n]) (use h'(4,5) in auto)
  have "sched_wf (k\<lparr>lsts := h'\<rparr>) (drop_node n L)"
    by (rule sched_wfI [of _ _ a0 p0], unfold rd) (use h'(2) z dp sched_wfD(2-6) [OF wf] in simp_all)
  then show ?thesis using that h'(1) rd m by blast
qed

text \<open>A list is created, or a list that is not a ready queue grows.\<close>

lemma wf_new:
  assumes wf: "sched_wf k L" and few: "card (km_live (dmem (lsts k))) < 7000"
  obtains l h' where "new_dllist (lsts k) = Some (l, h')" and "sched_wf (k\<lparr>lsts := h'\<rparr>) (L(l \<mapsto> []))" and "l \<notin> dom L"
    and "card (km_live (dmem h')) \<le> 2 + card (km_live (dmem (lsts k)))"
proof -
  obtain l h' where h': "new_dllist (lsts k) = Some (l, h')" "dl_fam h' (L(l \<mapsto> []))" "l \<notin> dom L"
      "card (km_live (dmem h')) \<le> 2 + card (km_live (dmem (lsts k)))" "kpanics (dmem h') = kpanics (dmem (lsts k))"
    by (rule fam_new [OF sched_wfD(1) [OF wf] few])
  obtain s where s: "llists h' l = Some \<lparr>sentinel_node = s, data_destructor = 0\<rparr>"
    using h'(1) by (auto simp: new_dllist_def dc_new_dllist_def)
  note f = new_dllist_fields [OF h'(1) s]
  obtain m where m: "kmalloc sizeof_llist (dmem (lsts k)) = Some (l, m)" "kmalloc sizeof_llist_node m = Some (s, dmem h')"
    using f(3) by blast
  have inv: "km_inv (dmem (lsts k))" using dl_famD(1) [OF sched_wfD(1) [OF wf]] by (simp add: dl_inv_def)
  have pm: "kpanics m = kpanics (dmem (lsts k))" "kpanics (dmem h') = kpanics m"
    using kpanics_kmalloc [OF m(1)] kpanics_kmalloc [OF m(2)] h'(5) by linarith+
  note k1 = kmalloc_spec [OF inv m(1) pm(1)]
  note k2 = kmalloc_spec [OF k1(4) m(2) pm(2)]
  have rd: "ready (k\<lparr>lsts := h'\<rparr>) (L(l \<mapsto> [])) = ready k L"
  proof -
    have "the ((L(l \<mapsto> [])) q) = the (L q)" if "q \<in> set (scheduler_queue k)" for q
      using that h'(3) sched_wfD(4) [OF wf] by auto
    then show ?thesis unfolding ready_def by (auto intro!: arg_cong [of _ _ concat])
  qed
  obtain a0 p0 where z: "(process_0 k, a0) \<in> set (ready k L)" "procs k a0 = Some p0" "pid p0 = 0" "proc_status p0 = RUNNING"
    using sched_wfD(8) [OF wf] by blast
  have dp: "dom (procs k) \<subseteq> km_live (dmem h') - dom (nodes h') - dom (llists h')"
  proof
    fix x assume "x \<in> dom (procs k)"
    then have x: "x \<in> km_live (dmem (lsts k))" "x \<notin> dom (nodes (lsts k))" "x \<notin> dom (llists (lsts k))"
      using sched_wfD(7) [OF wf] by blast+
    moreover have "x \<noteq> l" "x \<noteq> s" using x(1) k1(5,7) k2(5) by auto
    ultimately show "x \<in> km_live (dmem h') - dom (nodes h') - dom (llists h')" using k1(7) k2(7) by (simp add: f(1,2))
  qed
  have "set (scheduler_queue k) \<subseteq> dom (L(l \<mapsto> []))" using sched_wfD(4) [OF wf] by auto
  then have "sched_wf (k\<lparr>lsts := h'\<rparr>) (L(l \<mapsto> []))"
    by (intro sched_wfI [of _ _ a0 p0], unfold rd) (use h'(2) z dp sched_wfD(2,3,5,6) [OF wf] in simp_all)
  then show ?thesis using that h'(1,3,4) by blast
qed

lemma wf_append_other:
  assumes wf: "sched_wf k L" and l: "L l = Some xs" "l \<notin> set (scheduler_queue k)"
    and km: "kmalloc sizeof_llist_node (dmem (lsts k)) = Some (n, m)" "kpanics m = kpanics (dmem (lsts k))"
  obtains h' where "ll_append l v (lsts k) = Some (n, h')" and "sched_wf (k\<lparr>lsts := h'\<rparr>) (L(l \<mapsto> xs @ [(n, v)]))"
    and "ready (k\<lparr>lsts := h'\<rparr>) (L(l \<mapsto> xs @ [(n, v)])) = ready k L"
proof -
  obtain h' where h': "ll_append l v (lsts k) = Some (n, h')" "dl_fam h' (L(l \<mapsto> xs @ [(n, v)]))"
      "llists h' = llists (lsts k)" "dmem h' = m"
    by (rule fam_append [OF sched_wfD(1) [OF wf] l(1) km, of v])
  have inv: "km_inv (dmem (lsts k))" using dl_famD(1) [OF sched_wfD(1) [OF wf]] by (simp add: dl_inv_def)
  note fresh = km.alloc_fresh [OF inv km]
  have rd: "ready (k\<lparr>lsts := h'\<rparr>) (L(l \<mapsto> xs @ [(n, v)])) = ready k L"
  proof -
    have "the ((L(l \<mapsto> xs @ [(n, v)])) q) = the (L q)" if "q \<in> set (scheduler_queue k)" for q using that l(2) by auto
    then show ?thesis unfolding ready_def by (auto intro!: arg_cong [of _ _ concat])
  qed
  obtain a0 p0 where z: "(process_0 k, a0) \<in> set (ready k L)" "procs k a0 = Some p0" "pid p0 = 0" "proc_status p0 = RUNNING"
    using sched_wfD(8) [OF wf] by blast
  have dp: "dom (procs k) \<subseteq> km_live (dmem h') - dom (nodes h') - dom (llists h')"
  proof
    fix x assume "x \<in> dom (procs k)"
    then have x: "x \<in> km_live (dmem (lsts k))" "x \<notin> dom (nodes (lsts k))" "x \<notin> dom (llists (lsts k))"
      using sched_wfD(7) [OF wf] by blast+
    moreover have "x \<noteq> n" using x(1) fresh by blast
    ultimately show "x \<in> km_live (dmem h') - dom (nodes h') - dom (llists h')"
      using append_dom [OF h'(1)] h'(3,4) fresh by auto
  qed
  have "set (scheduler_queue k) \<subseteq> dom (L(l \<mapsto> xs @ [(n, v)]))" using sched_wfD(4) [OF wf] by auto
  then have "sched_wf (k\<lparr>lsts := h'\<rparr>) (L(l \<mapsto> xs @ [(n, v)]))"
    by (intro sched_wfI [of _ _ a0 p0], unfold rd) (use h'(2) z dp sched_wfD(2,3,5,6) [OF wf] in simp_all)
  then show ?thesis using that h'(1) rd by blast
qed

section \<open>Waiting\<close>

text \<open>
  \<open>sem_down\<close> takes a semaphore that is free, and otherwise puts the process at the end of the
  queue and to sleep. \<open>suspend\<close> is the identity here, so that the state at the point of giving
  up the processor is seen.
\<close>

lemma sem_down_takes:
  assumes "sched_wf k L" and "(current_process k, c) \<in> set (ready k L)" and "sems k s = Some d" and "sem_count d \<noteq> 0"
  shows "sem_down suspend s k = Some (k\<lparr>sems := (sems k)(s \<mapsto> d\<lparr>sem_count := sem_count d - 1\<rparr>)\<rparr>)"
  using wf_val(1) [OF assms(1,2)] assms(3,4) by (simp add: sem_down_def CURRENT_PROCESS_CONTEXT_def)

lemma sem_down_waits:
  assumes wf: "sched_wf k L" and cur: "(current_process k, c) \<in> set (ready k L)" "procs k c = Some p"
    and d: "sems k s = Some d" "sem_count d = 0" "L (wait_queue d) = Some ws" "wait_queue d \<notin> set (scheduler_queue k)"
    and km: "kmalloc sizeof_llist_node (dmem (lsts k)) = Some (n, m)" "kpanics m = kpanics (dmem (lsts k))"
  shows "\<exists>h'. sem_down suspend s k = Some (suspend (k\<lparr>lsts := h', procs := (procs k)(c \<mapsto> p\<lparr>sleep_time := systime k, proc_status := SLEEPING\<rparr>)\<rparr>))
     \<and> dl_fam h' (L(wait_queue d \<mapsto> ws @ [(n, c)]))"
proof -
  obtain h' where h': "ll_append (wait_queue d) c (lsts k) = Some (n, h')" "sched_wf (k\<lparr>lsts := h'\<rparr>) (L(wait_queue d \<mapsto> ws @ [(n, c)]))"
      "ready (k\<lparr>lsts := h'\<rparr>) (L(wait_queue d \<mapsto> ws @ [(n, c)])) = ready k L"
    by (rule wf_append_other [OF wf d(3,4) km, of c])
  have "ll_val (current_process k) h' = Some c" using wf_val(1) [OF h'(2), of "current_process k" c] cur(1) h'(3) by simp
  then have "sem_down suspend s k = Some (suspend (k\<lparr>lsts := h', procs := (procs k)(c \<mapsto> p\<lparr>sleep_time := systime k, proc_status := SLEEPING\<rparr>)\<rparr>))"
    using h'(1) wf_val(1) [OF wf cur(1)] cur(2) d(1,2)
    by (simp add: sem_down_def CURRENT_PROCESS_CONTEXT_def ret_lists_def sleep_def sleep_and_unlock_def upd_proc_def)
  then show ?thesis using sched_wfD(1) [OF h'(2)] by auto
qed

section \<open>Properties\<close>

text \<open>C14: \<open>sem_up\<close> on a semaphore with waiting processes wakes the one that has waited longest: its node
  moves, at the same address, from the head of the wait queue to the head of the ready queue
  of its time asleep, the process is running, and the count stays; the state stays
  well-formed and rescheduling is requested.\<close>

theorem sem_up_wakes_first:
  assumes wf: "sched_wf k L" and cur: "(current_process k, c) \<in> set (ready k L)" "procs k c = Some pc"
    and d: "sems k s = Some d" "L (wait_queue d) = Some ((n, a) # ws)" "wait_queue d \<notin> set (scheduler_queue k)"
    and a: "procs k a = Some p" "pid pc \<noteq> pid p" "proc_status p = SLEEPING" "static_priority p = 0" "a \<notin> snd ` set (ready k L)"
  shows "\<exists>j k'. wake_queue (systime k) p = Some j \<and> sem_up s k = Some k'
     \<and> sched_wf k' (add_first (scheduler_queue k ! j) (n, a) (L(wait_queue d \<mapsto> ws)))
     \<and> procs k' = (procs k)(a \<mapsto> woken (systime k) j p) \<and> sems k' = sems k \<and> force_scheduling k' = 1"
proof -
  note dl = dl_famD(3) [OF sched_wfD(1) [OF wf] d(2)]
  have ll: "ll_empty (wait_queue d) (lsts k) = Some False" "ll_first (wait_queue d) (lsts k) = Some n"
    using ll_empty_spec [OF dl] dl_list_ends [OF dl] by auto
  have val: "ll_val n (lsts k) = Some a" using fam_val [OF sched_wfD(1) [OF wf] d(2)] by simp
  obtain h1 m where h1: "ll_delete_node n (lsts k) = Some h1" "sched_wf (k\<lparr>lsts := h1\<rparr>) (drop_node n L)"
      "ready (k\<lparr>lsts := h1\<rparr>) (drop_node n L) = ready k L"
      "kmalloc sizeof_llist_node (dmem h1) = Some (n, m)" "kpanics m = kpanics (dmem h1)"
    by (rule wf_drop_other [OF wf d(2) _ d(3), of n a]) simp_all
  let ?k = "k\<lparr>lsts := h1\<rparr>"
  obtain j h' where j: "wake_queue (systime ?k) p = Some j" "j < 10"
      "awake a ?k = Some (?k\<lparr>procs := (procs ?k)(a \<mapsto> woken (systime ?k) j p), lsts := h', force_scheduling := 1\<rparr>)"
      "sched_wf (?k\<lparr>procs := (procs ?k)(a \<mapsto> woken (systime ?k) j p), lsts := h', force_scheduling := 1\<rparr>)
         (add_first (scheduler_queue ?k ! j) (n, a) (drop_node n L))"
    by (rule wf_awake [OF h1(2), of c pc a p n m]) (use cur a h1 in simp_all)
  have dr: "drop_node n L = L(wait_queue d \<mapsto> ws)"
    using drop_node_eq [OF sched_wfD(1) [OF wf], of "wait_queue d" "[]" n a ws] d(2) by simp
  have "sem_up s k = Some (?k\<lparr>procs := (procs ?k)(a \<mapsto> woken (systime ?k) j p), lsts := h', force_scheduling := 1\<rparr>)"
    using ll val h1(1) j(3) d(1) wf_val(1) [OF wf cur(1)]
    by (simp add: sem_up_def CURRENT_PROCESS_CONTEXT_def on_lists_def)
  then show ?thesis using j(1,4) unfolding dr
    by (intro exI [of _ j] exI [of _ "k\<lparr>procs := (procs k)(a \<mapsto> woken (systime k) j p), lsts := h', force_scheduling := 1\<rparr>"] conjI)
      simp_all
qed

text \<open>A state in which process 1 waits for a semaphore.\<close>

lemma one_waiting:
  obtains k L c a n d where "sched_wf k L" and "ready k L = [(current_process k, c)]"
    and "procs k = [c \<mapsto> ready_proc 0, a \<mapsto> (ready_proc 1)\<lparr>proc_status := SLEEPING\<rparr>]" and "c \<noteq> a"
    and "sems k = [1 \<mapsto> d]" and "sem_count d = 0" and "L (wait_queue d) = Some [(n, a)]"
    and "wait_queue d \<notin> set (scheduler_queue k)"
proof -
  let ?p = "(ready_proc 1)\<lparr>proc_status := SLEEPING\<rparr>"
  obtain k L c a n where k: "sched_wf k L" "ready k L = [(current_process k, c), (n, a)]"
      "procs k = [c \<mapsto> ready_proc 0, a \<mapsto> ?p]" "c \<noteq> a" "card (km_live (dmem (lsts k))) \<le> 24" "sems k = Map.empty"
    by (rule two_ready)
  have na: "(n, a) \<in> set (ready k L)" unfolding k(2) by simp
  have pa: "procs k a = Some ?p" using k(3) by simp
  have ne: "current_process k \<noteq> n" using wf_val(1) [OF k(1) na] wf_val(1) [OF k(1), of "current_process k" c] k(2,4) by auto
  obtain h1 where h1: "sched_wf (k\<lparr>lsts := h1\<rparr>) (drop_node n L)" "km_live (dmem h1) = km_live (dmem (lsts k)) - {n}"
    by (rule wf_drop [OF k(1) na pa]) simp_all
  let ?k1 = "k\<lparr>lsts := h1\<rparr>"
  have rd1: "ready ?k1 (drop_node n L) = [(current_process k, c)]"
    using ready_drop [OF sched_wfD(4) [OF k(1)], of n] ne k(2) by (simp add: ready_def)
  have "finite (km_live (dmem (lsts k)))" using sched_wfD(1) [OF k(1)] km_live_finite by (auto simp: dl_fam_def dl_inv_def)
  then have c1: "card (km_live (dmem (lsts ?k1))) \<le> 24" 
    using h1(2) k(5) card_Diff1_le [of "km_live (dmem (lsts k))" n] by simp
  obtain w h2 where w: "new_dllist (lsts ?k1) = Some (w, h2)" "sched_wf (?k1\<lparr>lsts := h2\<rparr>) ((drop_node n L)(w \<mapsto> []))"
      "w \<notin> dom (drop_node n L)" "card (km_live (dmem h2)) \<le> 2 + card (km_live (dmem (lsts ?k1)))"
    by (rule wf_new [OF h1(1)]) (use c1 in simp_all)
  let ?k2 = "?k1\<lparr>lsts := h2\<rparr>" and ?L2 = "(drop_node n L)(w \<mapsto> [])"
  have ws: "w \<notin> set (scheduler_queue k)" using w(3) sched_wfD(4) [OF k(1)] by auto
  have "the (?L2 q) = the (drop_node n L q)" if "q \<in> set (scheduler_queue k)" for q using that ws by auto
  then have rd2: "ready ?k2 ?L2 = [(current_process k, c)]"
    unfolding rd1 [symmetric] ready_def by (auto intro!: arg_cong [of _ _ concat])
  obtain n1 m where n1: "kmalloc sizeof_llist_node (dmem (lsts ?k2)) = Some (n1, m)" "kpanics m = kpanics (dmem (lsts ?k2))"
    using node_alloc_runs [OF dl_famD(1) [OF sched_wfD(1) [OF w(2)]]] w(4) c1 by auto
  obtain h3 where h3: "sched_wf (?k2\<lparr>lsts := h3\<rparr>) (?L2(w \<mapsto> [] @ [(n1, a)]))"
      "ready (?k2\<lparr>lsts := h3\<rparr>) (?L2(w \<mapsto> [] @ [(n1, a)])) = ready ?k2 ?L2"
    by (rule wf_append_other [OF w(2) _ _ n1, of w "[]" a]) (use ws in simp_all)
  let ?k3 = "?k2\<lparr>lsts := h3, sems := [1 \<mapsto> \<lparr>wait_queue = w, sem_count = 0\<rparr>]\<rparr>" and ?L3 = "?L2(w \<mapsto> [(n1, a)])"
  have "sched_wf ?k3 ?L3" using h3(1) by (subst sched_wf_cong [of _ "?k2\<lparr>lsts := h3\<rparr>"]) simp_all
  moreover have "ready ?k3 ?L3 = [(current_process k, c)]" using h3(2) rd2 by (simp add: ready_def)
  ultimately show ?thesis
    using that [of ?k3 ?L3 c a "\<lparr>wait_queue = w, sem_count = 0\<rparr>" n1] k(3,4) ws by simp
qed

theorem sem_up_wakes_first_witness:
  "\<exists>k L c a n d k'. sched_wf k L \<and> ready k L = [(current_process k, c)] \<and> sems k 1 = Some d
     \<and> L (wait_queue d) = Some [(n, a)] \<and> sem_up 1 k = Some k'
     \<and> (\<exists>j. sched_wf k' (add_first (scheduler_queue k ! j) (n, a) (L(wait_queue d \<mapsto> [])))) \<and> sems k' = sems k"
proof -
  obtain k L c a n d where k: "sched_wf k L" "ready k L = [(current_process k, c)]"
      "procs k = [c \<mapsto> ready_proc 0, a \<mapsto> (ready_proc 1)\<lparr>proc_status := SLEEPING\<rparr>]" "c \<noteq> a" "sems k = [1 \<mapsto> d]"
      "L (wait_queue d) = Some [(n, a)]" "wait_queue d \<notin> set (scheduler_queue k)" by (rule one_waiting)
  have "\<exists>j k'. wake_queue (systime k) ((ready_proc 1)\<lparr>proc_status := SLEEPING\<rparr>) = Some j \<and> sem_up 1 k = Some k'
     \<and> sched_wf k' (add_first (scheduler_queue k ! j) (n, a) (L(wait_queue d \<mapsto> [])))
     \<and> procs k' = (procs k)(a \<mapsto> woken (systime k) j ((ready_proc 1)\<lparr>proc_status := SLEEPING\<rparr>)) \<and> sems k' = sems k
     \<and> force_scheduling k' = 1"
    by (rule sem_up_wakes_first [OF k(1) _ _ _ k(6,7), of c "ready_proc 0"]) (use k in \<open>simp_all add: ready_proc_def\<close>)
  then show ?thesis using k(1,2,5,6) by fastforce
qed

end
