(* ===== verification/Ext2_Disk.thy ===== *)
theory Ext2_Disk
  imports Hashtable Loops
begin

text \<open>
  The file system on its medium (\<^verbatim>\<open>src/include/ext2/ext2.h\<close>, \<^verbatim>\<open>ext2_utils_2.h\<close>): superblock, group
  descriptors, bitmaps and inodes, the tables that cache them, and their form on disk.

  The medium is a store of bytes; \<open>READ_DISK\<close> and \<open>WRITE_DISK\<close> move whole sectors, as the drivers do.
  A buffer is a list of bytes. Inode objects are shared by pointer and live in a store; a
  cached group descriptor or bitmap is reached through its table, which is indexed by the
  group. The statistics counters of \<^verbatim>\<open>t_system\<close> are left out.
\<close>

unbundle bit_operations_syntax

section \<open>Words in buffers\<close>

definition get_bytes :: "nat \<Rightarrow> nat \<Rightarrow> u8 list \<Rightarrow> u8 list" where
  "get_bytes i n b = take n (drop i b)"

definition put_bytes :: "nat \<Rightarrow> u8 list \<Rightarrow> u8 list \<Rightarrow> u8 list" where
  "put_bytes i v b = take i b @ v @ drop (i + length v) b"

definition bytes16 :: "u16 \<Rightarrow> u8 list" where
  "bytes16 w = [ucast w, ucast (drop_bit 8 w)]"

definition bytes32 :: "u32 \<Rightarrow> u8 list" where
  "bytes32 w = [ucast w, ucast (drop_bit 8 w), ucast (drop_bit 16 w), ucast (drop_bit 24 w)]"

definition word16 :: "u8 list \<Rightarrow> u16" where
  "word16 b = ucast (b ! 0) OR push_bit 8 (ucast (b ! 1))"

definition word32 :: "u8 list \<Rightarrow> u32" where
  "word32 b = ucast (b ! 0) OR push_bit 8 (ucast (b ! 1)) OR push_bit 16 (ucast (b ! 2)) OR push_bit 24 (ucast (b ! 3))"

text \<open>
  \<^verbatim>\<open>READ_BYTE\<close>, \<^verbatim>\<open>READ_WORD\<close>, \<^verbatim>\<open>READ_DWORD\<close> and their counterparts. The offsets used with them in this theory
  lie inside the buffer; where they come from the disk the access is checked first.
\<close>

definition READ_BYTE :: "u8 list \<Rightarrow> nat \<Rightarrow> u8" where
  "READ_BYTE b i = b ! i"

definition READ_WORD :: "u8 list \<Rightarrow> nat \<Rightarrow> u16" where
  "READ_WORD b i = word16 (get_bytes i 2 b)"

definition READ_DWORD :: "u8 list \<Rightarrow> nat \<Rightarrow> u32" where
  "READ_DWORD b i = word32 (get_bytes i 4 b)"

definition WRITE_BYTE :: "u8 \<Rightarrow> nat \<Rightarrow> u8 list \<Rightarrow> u8 list" where
  "WRITE_BYTE w i b = put_bytes i [w] b"

definition WRITE_WORD :: "u16 \<Rightarrow> nat \<Rightarrow> u8 list \<Rightarrow> u8 list" where
  "WRITE_WORD w i b = put_bytes i (bytes16 w) b"

definition WRITE_DWORD :: "u32 \<Rightarrow> nat \<Rightarrow> u8 list \<Rightarrow> u8 list" where
  "WRITE_DWORD w i b = put_bytes i (bytes32 w) b"

section \<open>State\<close>

definition BLOCK_SIZE :: nat where "BLOCK_SIZE = 1024"
definition SECTOR_SIZE :: nat where "SECTOR_SIZE = 512"
definition EXT2_N_BLOCKS :: nat where "EXT2_N_BLOCKS = 15"
definition PREALLOCATED_BLOCKS :: nat where "PREALLOCATED_BLOCKS = 8"
definition INODE_CACHE_SIZE :: nat where "INODE_CACHE_SIZE = 1000"

text \<open>The fields of the superblock in the order of the disk.\<close>

record superblock =
  s_inodes_count :: u32
  s_blocks_count :: u32
  s_r_blocks_count :: u32
  s_free_blocks_count :: u32
  s_free_inodes_count :: u32
  s_first_data_block :: u32
  s_log_block_size :: u32
  s_log_frag_size :: u32
  s_blocks_per_group :: u32
  s_frags_per_group :: u32
  s_inodes_per_group :: u32
  s_mtime :: u32
  s_wtime :: u32
  s_mnt_count :: u16
  s_max_mnt_count :: u16
  s_magic :: u16
  s_state :: u16
  s_errors :: u16
  s_minor_rev_level :: u16
  s_lastcheck :: u32
  s_checkinterval :: u32
  s_creator_os :: u32
  s_rev_level :: u32
  s_def_resuid :: u16
  s_def_resgid :: u16
  s_first_ino :: u32
  s_inode_size :: u16
  s_block_group_nr :: u16
  s_feature_compat :: u32
  s_feature_incompat :: u32
  s_feature_ro_compat :: u32
  s_uuid :: "u8 list"
  s_volume_name :: "u8 list"
  s_last_mounted :: "u8 list"
  s_algorithm_usage_bitmap :: u32
  s_prealloc_blocks :: u8
  s_prealloc_dir_blocks :: u8
  s_padding1 :: u16
  s_reserved :: "u8 list"

text \<open>Of \<^verbatim>\<open>bg_reserved\<close> only the three bytes the code copies.\<close>

record group_block =
  bg_block_bitmap :: u32
  bg_inode_bitmap :: u32
  bg_inode_table :: u32
  bg_free_blocks_count :: u16
  bg_free_inodes_count :: u16
  bg_used_dirs_count :: u16
  bg_pad :: u16
  bg_reserved :: "u8 list"

text \<open>A block of block addresses with the blocks they refer to, as far as they have been read.\<close>

datatype indirect_block = Indirect (ind_block: "u32 list") (block_map: "indirect_block option list")

text \<open>
  \<^verbatim>\<open>last_file_block_num\<close> and \<^verbatim>\<open>first_preallocated_block\<close> are signed in the source and kept as their
  bit pattern, \<open>-1\<close> for none. The pointer of an inode to its file system is left out: there is one.
\<close>

record inode =
  i_status :: u8
  counter :: u32
  i_number :: u16
  last_block_num :: u32
  last_file_block_num :: u32
  preallocated_block_count :: u8
  first_preallocated_block :: u32
  indirect_block_1 :: "indirect_block option"
  indirect_block_2 :: "indirect_block option"
  i_mode :: u16
  i_uid :: u16
  i_size :: u32
  i_atime :: u32
  i_ctime :: u32
  i_mtime :: u32
  i_dtime :: u32
  i_gid :: u16
  i_links_count :: u16
  i_blocks :: u32
  i_flags :: u32
  osd1 :: u32
  i_block :: "u32 list"
  i_generation :: u32
  i_file_acl :: u32
  i_dir_acl :: u32
  i_faddr :: u32
  osd2_1 :: u32
  osd2_2 :: u32
  osd2_3 :: u32

text \<open>
  The file system. The tables of groups have \<open>groups\<close> entries; \<open>group_block_num\<close> is the same number in a
  byte. \<open>cache\<close> maps inode numbers to inode objects, \<open>cache_list\<close> has them in the order they came.
\<close>

record fs =
  disk :: "nat \<Rightarrow> u8"
  sb :: superblock
  partition_start_sector :: u32
  groups :: nat
  group_block_num :: u8
  group_block_list :: "nat \<rightharpoonup> group_block"
  group_block_list_status :: "nat \<Rightarrow> bool"
  group_block_bitmap_list :: "nat \<rightharpoonup> u8 list"
  group_block_bitmap_list_status :: "nat \<Rightarrow> bool"
  group_inode_bitmap_list :: "nat \<rightharpoonup> u8 list"
  group_inode_bitmap_list_status :: "nat \<Rightarrow> bool"
  cache :: "nat hashtable"
  cache_list :: "nat list"
  inodes :: "nat \<rightharpoonup> inode"
  next_inode :: nat
  fs_panics :: nat

definition fs_panic :: "fs \<Rightarrow> fs" where
  "fs_panic s = s\<lparr>fs_panics := fs_panics s + 1\<rparr>"

definition upd_inode :: "nat \<Rightarrow> (inode \<Rightarrow> inode) \<Rightarrow> fs \<Rightarrow> fs option" where
  "upd_inode a f s = do { i \<leftarrow> inodes s a; Some (s\<lparr>inodes := (inodes s)(a \<mapsto> f i)\<rparr>) }"

definition upd_sb :: "(superblock \<Rightarrow> superblock) \<Rightarrow> fs \<Rightarrow> fs" where
  "upd_sb f s = s\<lparr>sb := f (sb s)\<rparr>"

definition upd_group :: "nat \<Rightarrow> (group_block \<Rightarrow> group_block) \<Rightarrow> fs \<Rightarrow> fs option" where
  "upd_group g f s = do { d \<leftarrow> group_block_list s g; Some (s\<lparr>group_block_list := (group_block_list s)(g \<mapsto> f d)\<rparr>) }"

section \<open>The medium\<close>

definition READ_DISK :: "nat \<Rightarrow> u32 \<Rightarrow> fs \<Rightarrow> u8 list" where
  "READ_DISK sector_count lba s = map (\<lambda>i. disk s (unat lba * SECTOR_SIZE + i)) [0..<sector_count * SECTOR_SIZE]"

definition WRITE_DISK :: "nat \<Rightarrow> u32 \<Rightarrow> u8 list \<Rightarrow> fs \<Rightarrow> fs" where
  "WRITE_DISK sector_count lba b s =
     s\<lparr>disk := (\<lambda>a. if unat lba * SECTOR_SIZE \<le> a \<and> a < unat lba * SECTOR_SIZE + sector_count * SECTOR_SIZE
                    then b ! (a - unat lba * SECTOR_SIZE) else disk s a)\<rparr>"

definition FROM_BLOCK_TO_LBA :: "u32 \<Rightarrow> fs \<Rightarrow> u32" where
  "FROM_BLOCK_TO_LBA block_num s = partition_start_sector s + block_num * 1024 div 512"

definition READ_BLOCK :: "u32 \<Rightarrow> fs \<Rightarrow> u8 list" where
  "READ_BLOCK block_num s = READ_DISK 2 (FROM_BLOCK_TO_LBA block_num s) s"

definition WRITE_BLOCK :: "u32 \<Rightarrow> u8 list \<Rightarrow> fs \<Rightarrow> fs" where
  "WRITE_BLOCK block_num b s = WRITE_DISK 2 (FROM_BLOCK_TO_LBA block_num s) b s"

section \<open>Superblock\<close>

definition decode_superblock :: "u8 list \<Rightarrow> superblock" where
  "decode_superblock b =
     \<lparr>s_inodes_count = READ_DWORD b 0, s_blocks_count = READ_DWORD b 4, s_r_blocks_count = READ_DWORD b 8,
      s_free_blocks_count = READ_DWORD b 12, s_free_inodes_count = READ_DWORD b 16,
      s_first_data_block = READ_DWORD b 20, s_log_block_size = READ_DWORD b 24, s_log_frag_size = READ_DWORD b 28,
      s_blocks_per_group = READ_DWORD b 32, s_frags_per_group = READ_DWORD b 36,
      s_inodes_per_group = READ_DWORD b 40, s_mtime = READ_DWORD b 44, s_wtime = READ_DWORD b 48,
      s_mnt_count = READ_WORD b 52, s_max_mnt_count = READ_WORD b 54, s_magic = READ_WORD b 56,
      s_state = READ_WORD b 58, s_errors = READ_WORD b 60, s_minor_rev_level = READ_WORD b 62,
      s_lastcheck = READ_DWORD b 64, s_checkinterval = READ_DWORD b 68, s_creator_os = READ_DWORD b 72,
      s_rev_level = READ_DWORD b 76, s_def_resuid = READ_WORD b 80, s_def_resgid = READ_WORD b 82,
      s_first_ino = READ_DWORD b 84, s_inode_size = READ_WORD b 88, s_block_group_nr = READ_WORD b 90,
      s_feature_compat = READ_DWORD b 92, s_feature_incompat = READ_DWORD b 96,
      s_feature_ro_compat = READ_DWORD b 100, s_uuid = get_bytes 104 16 b, s_volume_name = get_bytes 120 16 b,
      s_last_mounted = get_bytes 136 64 b, s_algorithm_usage_bitmap = READ_DWORD b 200,
      s_prealloc_blocks = READ_BYTE b 204, s_prealloc_dir_blocks = READ_BYTE b 205, s_padding1 = READ_WORD b 206,
      s_reserved = get_bytes 208 816 b\<rparr>"

definition read_superblock :: "fs \<Rightarrow> fs" where
  "read_superblock s = s\<lparr>sb := decode_superblock (READ_DISK 2 (2 + partition_start_sector s) s)\<rparr>"

text \<open>The buffer is fresh memory, of which every byte is written; \<open>b\<close> is its contents.\<close>

definition encode_superblock :: "superblock \<Rightarrow> u8 list \<Rightarrow> u8 list" where
  "encode_superblock x b =
     (let b = WRITE_DWORD (s_inodes_count x) 0 b; b = WRITE_DWORD (s_blocks_count x) 4 b;
          b = WRITE_DWORD (s_r_blocks_count x) 8 b; b = WRITE_DWORD (s_free_blocks_count x) 12 b;
          b = WRITE_DWORD (s_free_inodes_count x) 16 b; b = WRITE_DWORD (s_first_data_block x) 20 b;
          b = WRITE_DWORD (s_log_block_size x) 24 b; b = WRITE_DWORD (s_log_frag_size x) 28 b;
          b = WRITE_DWORD (s_blocks_per_group x) 32 b; b = WRITE_DWORD (s_frags_per_group x) 36 b;
          b = WRITE_DWORD (s_inodes_per_group x) 40 b; b = WRITE_DWORD (s_mtime x) 44 b;
          b = WRITE_DWORD (s_wtime x) 48 b; b = WRITE_WORD (s_mnt_count x) 52 b;
          b = WRITE_WORD (s_max_mnt_count x) 54 b; b = WRITE_WORD (s_magic x) 56 b;
          b = WRITE_WORD (s_state x) 58 b; b = WRITE_WORD (s_errors x) 60 b;
          b = WRITE_WORD (s_minor_rev_level x) 62 b; b = WRITE_DWORD (s_lastcheck x) 64 b;
          b = WRITE_DWORD (s_checkinterval x) 68 b; b = WRITE_DWORD (s_creator_os x) 72 b;
          b = WRITE_DWORD (s_rev_level x) 76 b; b = WRITE_WORD (s_def_resuid x) 80 b;
          b = WRITE_WORD (s_def_resgid x) 82 b; b = WRITE_DWORD (s_first_ino x) 84 b;
          b = WRITE_WORD (s_inode_size x) 88 b; b = WRITE_WORD (s_block_group_nr x) 90 b;
          b = WRITE_DWORD (s_feature_compat x) 92 b; b = WRITE_DWORD (s_feature_incompat x) 96 b;
          b = WRITE_DWORD (s_feature_ro_compat x) 100 b; b = put_bytes 104 (take 16 (s_uuid x)) b;
          b = put_bytes 120 (take 16 (s_volume_name x)) b; b = put_bytes 136 (take 64 (s_last_mounted x)) b;
          b = WRITE_DWORD (s_algorithm_usage_bitmap x) 200 b; b = WRITE_BYTE (s_prealloc_blocks x) 204 b;
          b = WRITE_BYTE (s_prealloc_dir_blocks x) 205 b; b = WRITE_WORD (s_padding1 x) 206 b
      in put_bytes 208 (take 816 (s_reserved x)) b)"

definition write_superblock :: "fs \<Rightarrow> fs" where
  "write_superblock s =
     WRITE_DISK 2 (2 + partition_start_sector s) (encode_superblock (sb s) (replicate BLOCK_SIZE 0)) s"

section \<open>Group descriptors\<close>

definition group_lba :: "nat \<Rightarrow> fs \<Rightarrow> u32" where
  "group_lba g s = 4 + partition_start_sector s + of_nat (32 * g div SECTOR_SIZE)"

definition decode_group :: "nat \<Rightarrow> u8 list \<Rightarrow> group_block" where
  "decode_group o' b =
     \<lparr>bg_block_bitmap = READ_DWORD b (0 + o'), bg_inode_bitmap = READ_DWORD b (4 + o'),
      bg_inode_table = READ_DWORD b (8 + o'), bg_free_blocks_count = READ_WORD b (12 + o'),
      bg_free_inodes_count = READ_WORD b (14 + o'), bg_used_dirs_count = READ_WORD b (16 + o'),
      bg_pad = READ_WORD b (18 + o'), bg_reserved = get_bytes (20 + o') 3 b\<rparr>"

definition encode_group :: "group_block \<Rightarrow> nat \<Rightarrow> u8 list \<Rightarrow> u8 list" where
  "encode_group x o' b =
     (let b = WRITE_DWORD (bg_block_bitmap x) (0 + o') b; b = WRITE_DWORD (bg_inode_bitmap x) (4 + o') b;
          b = WRITE_DWORD (bg_inode_table x) (8 + o') b; b = WRITE_WORD (bg_free_blocks_count x) (12 + o') b;
          b = WRITE_WORD (bg_free_inodes_count x) (14 + o') b; b = WRITE_WORD (bg_used_dirs_count x) (16 + o') b;
          b = WRITE_WORD (bg_pad x) (18 + o') b
      in put_bytes (20 + o') (take 3 (bg_reserved x)) b)"

text \<open>The descriptor of a group is read once and then kept in the table.\<close>

definition read_group_block :: "nat \<Rightarrow> fs \<Rightarrow> (group_block \<times> fs) option" where
  "read_group_block g s =
     (if g < groups s
      then (case group_block_list s g of
              Some d \<Rightarrow> Some (d, s)
            | None \<Rightarrow> (let d = decode_group (32 * g mod SECTOR_SIZE) (READ_DISK 1 (group_lba g s) s)
                       in Some (d, s\<lparr>group_block_list := (group_block_list s)(g \<mapsto> d)\<rparr>)))
      else None)"

definition write_group_block :: "nat \<Rightarrow> bool \<Rightarrow> fs \<Rightarrow> fs option" where
  "write_group_block g store_on_disk s =
     (if g < groups s
      then if store_on_disk
           then do { d \<leftarrow> group_block_list s g;
                     let s = s\<lparr>group_block_list_status := (group_block_list_status s)(g := False)\<rparr>;
                     let b = encode_group d (32 * g mod SECTOR_SIZE) (READ_DISK 1 (group_lba g s) s);
                     Some (WRITE_DISK 1 (group_lba g s) b s) }
           else Some (s\<lparr>group_block_list_status := (group_block_list_status s)(g := True)\<rparr>)
      else None)"

section \<open>Bitmaps\<close>

definition bitmap_lba :: "u32 \<Rightarrow> fs \<Rightarrow> u32" where
  "bitmap_lba bitmap s = partition_start_sector s + bitmap * 1024 div 512"

definition read_inode_bitmap :: "u32 \<Rightarrow> nat \<Rightarrow> fs \<Rightarrow> (u8 list \<times> fs) option" where
  "read_inode_bitmap bitmap g s =
     (if g < groups s
      then (case group_inode_bitmap_list s g of
              Some b \<Rightarrow> Some (b, s)
            | None \<Rightarrow> (let b = READ_DISK 2 (bitmap_lba bitmap s) s
                       in Some (b, s\<lparr>group_inode_bitmap_list := (group_inode_bitmap_list s)(g \<mapsto> b)\<rparr>)))
      else None)"

definition write_inode_bitmap :: "u32 \<Rightarrow> u8 list \<Rightarrow> nat \<Rightarrow> bool \<Rightarrow> fs \<Rightarrow> fs option" where
  "write_inode_bitmap bitmap b g store_on_disk s =
     (if g < groups s
      then Some (if store_on_disk
                 then WRITE_DISK 2 (bitmap_lba bitmap s) b
                        (s\<lparr>group_inode_bitmap_list_status := (group_inode_bitmap_list_status s)(g := False)\<rparr>)
                 else s\<lparr>group_inode_bitmap_list_status := (group_inode_bitmap_list_status s)(g := True)\<rparr>)
      else None)"

definition read_block_bitmap :: "u32 \<Rightarrow> nat \<Rightarrow> fs \<Rightarrow> (u8 list \<times> fs) option" where
  "read_block_bitmap bitmap g s =
     (if g < groups s
      then (case group_block_bitmap_list s g of
              Some b \<Rightarrow> Some (b, s)
            | None \<Rightarrow> (let b = READ_DISK 2 (bitmap_lba bitmap s) s
                       in Some (b, s\<lparr>group_block_bitmap_list := (group_block_bitmap_list s)(g \<mapsto> b)\<rparr>)))
      else None)"

definition write_block_bitmap :: "u32 \<Rightarrow> u8 list \<Rightarrow> nat \<Rightarrow> bool \<Rightarrow> fs \<Rightarrow> fs option" where
  "write_block_bitmap bitmap b g store_on_disk s =
     (if g < groups s
      then Some (if store_on_disk
                 then WRITE_DISK 2 (bitmap_lba bitmap s) b
                        (s\<lparr>group_block_bitmap_list_status := (group_block_bitmap_list_status s)(g := False)\<rparr>)
                 else s\<lparr>group_block_bitmap_list_status := (group_block_bitmap_list_status s)(g := True)\<rparr>)
      else None)"

text \<open>A bitmap is changed through the pointer kept in the table.\<close>

definition put_inode_bitmap :: "nat \<Rightarrow> u8 list \<Rightarrow> fs \<Rightarrow> fs" where
  "put_inode_bitmap g b s = s\<lparr>group_inode_bitmap_list := (group_inode_bitmap_list s)(g \<mapsto> b)\<rparr>"

definition put_block_bitmap :: "nat \<Rightarrow> u8 list \<Rightarrow> fs \<Rightarrow> fs" where
  "put_block_bitmap g b s = s\<lparr>group_block_bitmap_list := (group_block_bitmap_list s)(g \<mapsto> b)\<rparr>"

section \<open>Synchronisation\<close>

text \<open>
  \<open>d\<close> is the descriptor the local variable \<^verbatim>\<open>group_block\<close> points to, if any: for a bitmap whose group
  descriptor is cached but not changed it is the one of an earlier round.
\<close>

definition sync_group :: "nat \<Rightarrow> group_block option \<times> fs \<Rightarrow> (group_block option \<times> fs) option" where
  "sync_group i = (\<lambda>(d, s).
     do { (d, s) \<leftarrow> (if group_block_list_status s i
                     then do { e \<leftarrow> group_block_list s i; s \<leftarrow> write_group_block i True s; Some (Some e, s) }
                     else Some (d, s));
          (d, s) \<leftarrow> (if group_block_bitmap_list_status s i
                     then do { (d, s) \<leftarrow> (if group_block_list s i = None
                                          then do { (e, s) \<leftarrow> read_group_block i s; Some (Some e, s) }
                                          else Some (d, s));
                               e \<leftarrow> d; b \<leftarrow> group_block_bitmap_list s i;
                               s \<leftarrow> write_block_bitmap (bg_block_bitmap e) b i True s;
                               Some (d, s) }
                     else Some (d, s));
          if group_inode_bitmap_list_status s i
          then do { (d, s) \<leftarrow> (if group_block_list s i = None
                               then do { (e, s) \<leftarrow> read_group_block i s; Some (Some e, s) }
                               else Some (d, s));
                    e \<leftarrow> d; b \<leftarrow> group_inode_bitmap_list s i;
                    s \<leftarrow> write_inode_bitmap (bg_inode_bitmap e) b i True s;
                    Some (d, s) }
          else Some (d, s) })"

definition sync_fs :: "fs \<Rightarrow> fs option" where
  "sync_fs s =
     do { (_, s) \<leftarrow> for_each sync_group [0..<unat (group_block_num s)] (None, s);
          Some (write_superblock s) }"

section \<open>Inode objects\<close>

definition empty_indirect :: indirect_block where
  "empty_indirect = Indirect (replicate 256 0) (replicate 256 None)"

definition indirect_block_init :: indirect_block where
  "indirect_block_init = empty_indirect"

text \<open>\<open>inode_init\<close> leaves \<open>status\<close> as it finds it in fresh memory, here \<open>st0\<close>.\<close>

definition blank_inode :: "u8 \<Rightarrow> inode" where
  "blank_inode st0 =
     \<lparr>i_status = st0, counter = 0, i_number = 0, last_block_num = 0, last_file_block_num = -1,
      preallocated_block_count = 0, first_preallocated_block = -1, indirect_block_1 = None, indirect_block_2 = None,
      i_mode = 0, i_uid = 0, i_size = 0, i_atime = 0, i_ctime = 0, i_mtime = 0, i_dtime = 0, i_gid = 0,
      i_links_count = 0, i_blocks = 0, i_flags = 0, osd1 = 0, i_block = replicate EXT2_N_BLOCKS 0,
      i_generation = 0, i_file_acl = 0, i_dir_acl = 0, i_faddr = 0, osd2_1 = 0, osd2_2 = 0, osd2_3 = 0\<rparr>"

definition inode_init :: "u8 \<Rightarrow> fs \<Rightarrow> nat \<times> fs" where
  "inode_init st0 s =
     (next_inode s, s\<lparr>inodes := (inodes s)(next_inode s \<mapsto> blank_inode st0), next_inode := next_inode s + 1\<rparr>)"

definition inode_free_indirect_block :: "nat \<Rightarrow> fs \<Rightarrow> fs option" where
  "inode_free_indirect_block a = upd_inode a (\<lambda>i. i\<lparr>indirect_block_1 := None, indirect_block_2 := None\<rparr>)"

definition inode_free :: "nat \<Rightarrow> fs \<Rightarrow> fs option" where
  "inode_free a s = do { s \<leftarrow> inode_free_indirect_block a s; Some (s\<lparr>inodes := (inodes s)(a := None)\<rparr>) }"

section \<open>Inodes on disk\<close>

definition inode_lba :: "u32 \<Rightarrow> group_block \<Rightarrow> fs \<Rightarrow> u32" where
  "inode_lba n d s =
     (let g = (n - 1) div s_inodes_per_group (sb s);
          group_i_number = n - g * s_inodes_per_group (sb s) - 1
      in partition_start_sector s + (group_i_number * 128 div 1024 + bg_inode_table d) * 2)"

definition inode_offset :: "u32 \<Rightarrow> nat" where
  "inode_offset n = unat ((n - 1) * 128 mod 1024)"

text \<open>\<^verbatim>\<open>i_gid\<close> and \<^verbatim>\<open>i_links_count\<close> are read as double words and cut to their size.\<close>

definition decode_inode :: "nat \<Rightarrow> u8 list \<Rightarrow> inode \<Rightarrow> inode" where
  "decode_inode o' b i =
     i\<lparr>i_mode := READ_WORD b o', i_uid := READ_WORD b (o' + 2), i_size := READ_DWORD b (o' + 4),
       i_atime := READ_DWORD b (o' + 8), i_ctime := READ_DWORD b (o' + 12), i_mtime := READ_DWORD b (o' + 16),
       i_dtime := READ_DWORD b (o' + 20), i_gid := ucast (READ_DWORD b (o' + 24)),
       i_links_count := ucast (READ_DWORD b (o' + 26)), i_blocks := READ_DWORD b (o' + 28),
       i_flags := READ_DWORD b (o' + 32), osd1 := READ_DWORD b (o' + 36),
       i_block := map (\<lambda>k. READ_DWORD b (o' + 40 + 4 * k)) [0..<15],
       i_generation := READ_DWORD b (o' + 100), i_file_acl := READ_DWORD b (o' + 104),
       i_dir_acl := READ_DWORD b (o' + 108), i_faddr := READ_DWORD b (o' + 112), osd2_1 := READ_DWORD b (o' + 116),
       osd2_2 := READ_DWORD b (o' + 120), osd2_3 := READ_DWORD b (o' + 124)\<rparr>"

text \<open>\<^verbatim>\<open>osd1\<close> and \<^verbatim>\<open>osd2_3\<close> are written as words, so their upper halves stay.\<close>

definition encode_inode :: "inode \<Rightarrow> nat \<Rightarrow> u8 list \<Rightarrow> u8 list" where
  "encode_inode i o' b =
     (let b = WRITE_WORD (i_mode i) o' b; b = WRITE_WORD (i_uid i) (o' + 2) b; b = WRITE_DWORD (i_size i) (o' + 4) b;
          b = WRITE_DWORD (i_atime i) (o' + 8) b; b = WRITE_DWORD (i_ctime i) (o' + 12) b;
          b = WRITE_DWORD (i_mtime i) (o' + 16) b; b = WRITE_DWORD (i_dtime i) (o' + 20) b;
          b = WRITE_WORD (i_gid i) (o' + 24) b; b = WRITE_WORD (i_links_count i) (o' + 26) b;
          b = WRITE_DWORD (i_blocks i) (o' + 28) b; b = WRITE_DWORD (i_flags i) (o' + 32) b;
          b = WRITE_WORD (ucast (osd1 i)) (o' + 36) b;
          b = fold (\<lambda>k. WRITE_DWORD (i_block i ! k) (o' + 40 + 4 * k)) [0..<15] b;
          b = WRITE_DWORD (i_generation i) (o' + 100) b; b = WRITE_DWORD (i_file_acl i) (o' + 104) b;
          b = WRITE_DWORD (i_dir_acl i) (o' + 108) b; b = WRITE_DWORD (i_faddr i) (o' + 112) b;
          b = WRITE_DWORD (osd2_1 i) (o' + 116) b; b = WRITE_DWORD (osd2_2 i) (o' + 120) b
      in WRITE_WORD (ucast (osd2_3 i)) (o' + 124) b)"

end
