(* ===== verification/Ext2_Alloc.thy ===== *)
theory Ext2_Alloc
  imports Ext2_Disk
begin

text \<open>
  Allocation of blocks and inodes from the bitmaps (\<^verbatim>\<open>ext2_utils_1.h\<close>, \<^verbatim>\<open>ext2_utils_2.h\<close>, \<^verbatim>\<open>ext2.c\<close>).
  Numbers are words as in the source, \<open>-1\<close> for none; a bitmap is indexed by the number of a
  bit. An index outside a bitmap is \<open>None\<close>.
\<close>

section \<open>Bits\<close>

definition bit_at :: "u8 list \<Rightarrow> nat \<Rightarrow> bool" where
  "bit_at b k = bit (b ! (k div 8)) (k mod 8)"

definition test_bit :: "u8 list \<Rightarrow> nat \<Rightarrow> bool option" where
  "test_bit b k = (if k div 8 < length b then Some (bit_at b k) else None)"

definition mark :: "nat \<Rightarrow> u8 list \<Rightarrow> u8 list option" where
  "mark k b = (if k div 8 < length b then Some (b[k div 8 := b ! (k div 8) OR push_bit (k mod 8) 1]) else None)"

definition unmark :: "nat \<Rightarrow> u8 list \<Rightarrow> u8 list option" where
  "unmark k b = (if k div 8 < length b then Some (b[k div 8 := b ! (k div 8) AND NOT (push_bit (k mod 8) 1)]) else None)"

text \<open>The first clear bit from bit \<open>k\<close> on, among the next \<open>n\<close>; \<open>pos\<close> places the bits in the buffer.\<close>

fun first_clear :: "(nat \<Rightarrow> nat) \<Rightarrow> u8 list \<Rightarrow> nat \<Rightarrow> nat \<Rightarrow> nat option option" where
  "first_clear pos b k 0 = Some None"
| "first_clear pos b k (Suc n) =
     do { t \<leftarrow> test_bit b (pos k); if t then first_clear pos b (k + 1) n else Some (Some k) }"

text \<open>\<^verbatim>\<open>RELATIVE_BITMAP_BYTE\<close> and \<^verbatim>\<open>RELATIVE_BITMAP_BIT\<close> of a block, as the number of the bit.\<close>

definition relative_bit :: "u32 \<Rightarrow> u32 \<Rightarrow> nat option" where
  "relative_bit block_index blocks_per_group =
     (if blocks_per_group = 0 then None else Some (unat ((block_index - 1) mod blocks_per_group)))"

definition TOT_FS_GROUP :: "fs \<Rightarrow> u32 option" where
  "TOT_FS_GROUP s =
     (if s_blocks_per_group (sb s) = 0 then None
      else let q = s_blocks_count (sb s) div s_blocks_per_group (sb s) in Some (if q = 0 then q else q + 1))"

definition bitmap_block :: "u32 \<Rightarrow> u32 \<Rightarrow> u32 \<Rightarrow> u32 option" where
  "bitmap_block tot_fs_block block_per_group group_block_index =
     (if 1024 * (group_block_index + 1) > tot_fs_block
      then (if block_per_group = 0 then None else Some ((tot_fs_block mod block_per_group) * 8))
      else Some (1024 * 8))"

section \<open>Blocks\<close>

text \<open>The first free block of a group, which is marked; \<open>-1\<close> when there is none.\<close>

definition find_free_block :: "u8 list \<Rightarrow> u32 \<Rightarrow> fs \<Rightarrow> (u32 \<times> u8 list) option" where
  "find_free_block b g s =
     do { let per_group = s_blocks_per_group (sb s);
          block_count \<leftarrow> bitmap_block (s_blocks_count (sb s)) per_group g;
          _ \<leftarrow> (if per_group = 0 then None else Some ());
          found \<leftarrow> first_clear (\<lambda>i. i mod unat per_group) b 0 (unat block_count);
          case found of
            None \<Rightarrow> Some (-1, b)
          | Some i \<Rightarrow> do { b \<leftarrow> mark (i mod unat per_group) b; Some (of_nat i + g * 8192 + 1, b) } }"

definition mark_range :: "(nat \<Rightarrow> u8 list \<Rightarrow> u8 list option) \<Rightarrow> u32 \<Rightarrow> nat \<Rightarrow> u32 \<Rightarrow> u8 list \<Rightarrow> u8 list option" where
  "mark_range f first n per_group =
     for_each (\<lambda>j b. do { k \<leftarrow> relative_bit (first + of_nat j) per_group; f k b }) [0..<n]"

text \<open>The blocks of a preallocation are given back.\<close>

definition discard_prealloc_block :: "nat \<Rightarrow> nat \<Rightarrow> fs \<Rightarrow> fs option" where
  "discard_prealloc_block g a s =
     do { i \<leftarrow> inodes s a;
          b \<leftarrow> group_block_bitmap_list s g;
          b \<leftarrow> mark_range unmark (first_preallocated_block i) (unat (preallocated_block_count i)) (s_blocks_per_group (sb s)) b;
          s \<leftarrow> upd_group g (\<lambda>d. d\<lparr>bg_free_blocks_count := bg_free_blocks_count d + ucast (preallocated_block_count i)\<rparr>) (put_block_bitmap g b s);
          let s = upd_sb (\<lambda>x. x\<lparr>s_free_blocks_count := s_free_blocks_count x + ucast (preallocated_block_count i)\<rparr>) s;
          upd_inode a (\<lambda>i. i\<lparr>first_preallocated_block := -1, preallocated_block_count := 0\<rparr>) s }"

definition inode_prealloc_block_free :: "nat \<Rightarrow> fs \<Rightarrow> fs option" where
  "inode_prealloc_block_free a s =
     do { i \<leftarrow> inodes s a;
          if preallocated_block_count i > 0
          then do { _ \<leftarrow> (if s_blocks_per_group (sb s) = 0 then None else Some ());
                    let g = unat (first_preallocated_block i div s_blocks_per_group (sb s));
                    (d, s) \<leftarrow> read_group_block g s;
                    (_, s) \<leftarrow> read_block_bitmap (bg_block_bitmap d) g s;
                    s \<leftarrow> discard_prealloc_block g a s;
                    b \<leftarrow> group_block_bitmap_list s g;
                    s \<leftarrow> write_block_bitmap (bg_block_bitmap d) b g False s;
                    write_group_block g False s }
          else Some s }"

text \<open>The eight blocks after \<open>block\<close> are set aside for the file when all of them are free.\<close>

definition count_clear :: "u32 \<Rightarrow> u32 \<Rightarrow> u8 list \<Rightarrow> nat option" where
  "count_clear first per_group b =
     for_each (\<lambda>j n. do { k \<leftarrow> relative_bit (first + of_nat j) per_group; t \<leftarrow> test_bit b k; Some (if t then n else n + 1) })
       [0..<8] 0"

definition prealloc_block :: "nat \<Rightarrow> nat \<Rightarrow> u32 \<Rightarrow> fs \<Rightarrow> fs option" where
  "prealloc_block g a block s =
     do { let rel_block = block mod 8192;
          let per_group = s_blocks_per_group (sb s);
          _ \<leftarrow> (if per_group = 0 then None else Some ());
          block_count \<leftarrow> bitmap_block (s_blocks_count (sb s)) per_group (block div per_group);
          b \<leftarrow> group_block_bitmap_list s g;
          free_block \<leftarrow> (if rel_block + 9 < block_count then count_clear (rel_block + 1) per_group b else Some 0);
          if free_block = PREALLOCATED_BLOCKS
          then do { s \<leftarrow> upd_inode a (\<lambda>i. i\<lparr>preallocated_block_count := 8, first_preallocated_block := block + 1\<rparr>) s;
                    s \<leftarrow> upd_group g (\<lambda>d. d\<lparr>bg_free_blocks_count := bg_free_blocks_count d - 8\<rparr>) s;
                    let s = upd_sb (\<lambda>x. x\<lparr>s_free_blocks_count := s_free_blocks_count x - 8\<rparr>) s;
                    b \<leftarrow> mark_range mark (rel_block + 1) 8 per_group b;
                    Some (put_block_bitmap g b s) }
          else Some s }"

definition INDIRECT_0_LIMIT :: u32 where "INDIRECT_0_LIMIT = 11"
definition INDIRECT_1_LIMIT :: u32 where "INDIRECT_1_LIMIT = 267"
definition INDIRECT_2_LIMIT :: u32 where "INDIRECT_2_LIMIT = 65803"
definition INDIRECT_3_LIMIT :: u32 where "INDIRECT_3_LIMIT = 16777216 + 131072 + 267"

definition nth_opt :: "'a list \<Rightarrow> nat \<Rightarrow> 'a option" where
  "nth_opt xs k = (if k < length xs then Some (xs ! k) else None)"

text \<open>The block address of a file block, through the indirect blocks that have been read.\<close>

definition read_indirect_block :: "inode \<Rightarrow> u32 \<Rightarrow> u32 option" where
  "read_indirect_block i key =
     (if key > INDIRECT_0_LIMIT \<and> key \<le> INDIRECT_1_LIMIT
      then do { t \<leftarrow> indirect_block_1 i; nth_opt (ind_block t) (unat (key - INDIRECT_0_LIMIT - 1)) }
      else if key > INDIRECT_1_LIMIT \<and> key \<le> INDIRECT_2_LIMIT
      then do { t \<leftarrow> indirect_block_2 i;
                m \<leftarrow> nth_opt (block_map t) (unat ((key - INDIRECT_1_LIMIT - 1) div 256));
                u \<leftarrow> m;
                nth_opt (ind_block u) (unat ((key - INDIRECT_1_LIMIT - 1) mod 256)) }
      else if key > INDIRECT_2_LIMIT \<and> key \<le> INDIRECT_3_LIMIT then None
      else nth_opt (i_block i) (unat key))"

definition FIRST_DATA_BLOCK :: "group_block \<Rightarrow> fs \<Rightarrow> u32" where
  "FIRST_DATA_BLOCK d s =
     (let t = s_inodes_per_group (sb s) * 128 in (if t mod 1024 = 0 then t div 1024 else t div 1024 + 1) + bg_inode_table d)"

text \<open>
  The block a new file block should be near. After a gap in the file the code takes the
  number of a file block for the address of a block.
\<close>

partial_function (option) preferred_before :: "inode \<Rightarrow> u32 \<Rightarrow> u32 option" where
  "preferred_before i offset =
     (if offset = -1 then Some (-1)
      else do { v \<leftarrow> read_indirect_block i (offset - 1);
                if v = 0 then preferred_before i (offset - 1) else Some offset })"

definition preferred_block :: "nat \<Rightarrow> u32 \<Rightarrow> fs \<Rightarrow> (u32 \<times> fs) option" where
  "preferred_block a block_num s =
     do { i \<leftarrow> inodes s a;
          _ \<leftarrow> (if s_inodes_per_group (sb s) = 0 then None else Some ());
          if last_file_block_num i \<noteq> -1 \<and> block_num = last_file_block_num i + 1
          then do { v \<leftarrow> read_indirect_block i (last_file_block_num i); Some (v + 1, s) }
          else if last_file_block_num i \<noteq> -1
          then do { v \<leftarrow> preferred_before i block_num; Some (v, s) }
          else do { (d, s) \<leftarrow> read_group_block (unat ((ucast (i_number i) - 1) div s_inodes_per_group (sb s))) s;
                    Some (FIRST_DATA_BLOCK d s, s) } }"

text \<open>The sixteen blocks after the preferred one.\<close>

fun near_block :: "u32 \<Rightarrow> u32 \<Rightarrow> u32 \<Rightarrow> nat \<Rightarrow> nat \<Rightarrow> u8 list \<Rightarrow> (u32 \<times> u8 list) option" where
  "near_block preferred block_count per_group i 0 b = Some (-1, b)"
| "near_block preferred block_count per_group i (Suc n) b =
     (if (preferred + 1 + of_nat i) mod 8192 < block_count
      then do { k \<leftarrow> relative_bit (preferred + 1 + of_nat i) per_group;
                t \<leftarrow> test_bit b k;
                if t then near_block preferred block_count per_group (i + 1) n b
                else do { b \<leftarrow> mark k b; Some (preferred + 1 + of_nat i, b) } }
      else Some (-1, b))"

text \<open>The groups in turn, until one has a free block.\<close>

fun any_group_block :: "nat list \<Rightarrow> fs \<Rightarrow> (u32 \<times> nat \<times> fs) option" where
  "any_group_block [] s = Some (-1, 0, s)"
| "any_group_block (g # gs) s =
     do { (d, s) \<leftarrow> read_group_block g s;
          (b, s) \<leftarrow> read_block_bitmap (bg_block_bitmap d) g s;
          (block, b) \<leftarrow> find_free_block b (of_nat g) s;
          if block \<noteq> -1 then Some (block, g, put_block_bitmap g b s) else any_group_block gs s }"

text \<open>
  The search of \<open>alloc_block\<close>: the preferred block, the blocks after it, its group, any group.
  The result is the block and the group whose descriptor and bitmap were looked at last.
\<close>

definition search_block :: "u32 \<Rightarrow> nat \<Rightarrow> u32 \<Rightarrow> fs \<Rightarrow> (u32 \<times> nat \<times> fs) option" where
  "search_block preferred g inode_group s =
     do { b \<leftarrow> group_block_bitmap_list s g;
          let per_group = s_blocks_per_group (sb s);
          k \<leftarrow> relative_bit preferred per_group;
          t \<leftarrow> test_bit b k;
          (block, b) \<leftarrow> (if \<not> t then do { b \<leftarrow> mark k b; Some (preferred, b) }
                         else do { block_count \<leftarrow> bitmap_block (s_blocks_count (sb s)) per_group inode_group;
                                   near_block preferred block_count per_group 0 16 b });
          (block, b) \<leftarrow> (if block = -1 then find_free_block b (of_nat g) s else Some (block, b));
          let s = put_block_bitmap g b s;
          if block \<noteq> -1 then Some (block, g, s)
          else do { tot \<leftarrow> TOT_FS_GROUP s;
                    (block, h, s) \<leftarrow> any_group_block [0..<unat tot] s;
                    Some (block, if block \<noteq> -1 then h else g, s) } }"

definition alloc_block :: "nat \<Rightarrow> u32 \<Rightarrow> fs \<Rightarrow> (u32 \<times> fs) option" where
  "alloc_block a block_num s =
     do { _ \<leftarrow> TOT_FS_GROUP s;
          let per_group = s_blocks_per_group (sb s);
          i \<leftarrow> inodes s a;
          let inode_group = (ucast (i_number i) - 1) div s_inodes_per_group (sb s);
          (preferred, s) \<leftarrow> preferred_block a block_num s;
          let g = unat ((preferred - 1) div per_group);
          s \<leftarrow> (if preallocated_block_count i > 0
               then do { let ag = unat ((first_preallocated_block i + ucast (preallocated_block_count i) - 1) div per_group);
                         if g \<noteq> ag
                         then do { (d, s) \<leftarrow> read_group_block ag s;
                                   (_, s) \<leftarrow> read_block_bitmap (bg_block_bitmap d) ag s;
                                   discard_prealloc_block ag a s }
                         else Some s }
               else Some s);
          (d, s) \<leftarrow> read_group_block g s;
          (b, s) \<leftarrow> read_block_bitmap (bg_block_bitmap d) g s;
          i \<leftarrow> inodes s a;
          let reuse = (preferred = first_preallocated_block i \<and> preferred \<noteq> -1);
          (block, g, s) \<leftarrow>
            (if reuse \<and> preallocated_block_count i > 0
             then do { k \<leftarrow> relative_bit preferred per_group;
                       b \<leftarrow> mark k b;
                       s \<leftarrow> upd_inode a (\<lambda>i. i\<lparr>first_preallocated_block := first_preallocated_block i + 1,
                                              preallocated_block_count := preallocated_block_count i - 1\<rparr>) (put_block_bitmap g b s);
                       Some (preferred, g, s) }
             else do { s \<leftarrow> (if reuse then upd_inode a (\<lambda>i. i\<lparr>first_preallocated_block := -1\<rparr>) s else Some s);
                       search_block preferred g inode_group s });
          if block \<noteq> -1
          then do { j \<leftarrow> inodes s a;
                    let from_preallocated = (reuse \<and> preallocated_block_count i > 0);
                    s \<leftarrow> (if \<not> from_preallocated \<and> first_preallocated_block j \<noteq> -1
                         then discard_prealloc_block g a s else Some s);
                    j \<leftarrow> inodes s a;
                    s \<leftarrow> (if first_preallocated_block j = -1 then prealloc_block g a block s else Some s);
                    d \<leftarrow> group_block_list s g;
                    b \<leftarrow> group_block_bitmap_list s g;
                    s \<leftarrow> write_block_bitmap (bg_block_bitmap d) b g False s;
                    s \<leftarrow> (if \<not> from_preallocated
                         then do { s \<leftarrow> upd_group g (\<lambda>d. d\<lparr>bg_free_blocks_count := bg_free_blocks_count d - 1\<rparr>) s;
                                   Some (upd_sb (\<lambda>x. x\<lparr>s_free_blocks_count := s_free_blocks_count x - 1\<rparr>) s) }
                         else Some s);
                    s \<leftarrow> write_group_block g False s;
                    s \<leftarrow> upd_inode a (\<lambda>i. i\<lparr>last_file_block_num := block_num\<rparr>) s;
                    Some (block, s) }
          else Some (-1, s) }"

text \<open>
  A block for block addresses. From another group than that of the inode the code adds the
  first block of the group of the inode to an address that is absolute already.
\<close>

definition take_block :: "nat \<Rightarrow> fs \<Rightarrow> (u32 \<times> fs) option" where
  "take_block g s =
     do { (d, s) \<leftarrow> read_group_block g s;
          (b, s) \<leftarrow> read_block_bitmap (bg_block_bitmap d) g s;
          (block, b) \<leftarrow> find_free_block b (of_nat g) s;
          let s = put_block_bitmap g b s;
          if block \<noteq> -1
          then do { s \<leftarrow> write_block_bitmap (bg_block_bitmap d) b g False s;
                    s \<leftarrow> upd_group g (\<lambda>d. d\<lparr>bg_free_blocks_count := bg_free_blocks_count d - 1\<rparr>) s;
                    s \<leftarrow> write_group_block g False s;
                    Some (block, upd_sb (\<lambda>x. x\<lparr>s_free_blocks_count := s_free_blocks_count x - 1\<rparr>) s) }
          else Some (-1, s) }"

fun take_block_elsewhere :: "u32 \<Rightarrow> nat list \<Rightarrow> fs \<Rightarrow> (u32 \<times> fs) option" where
  "take_block_elsewhere g [] s = Some (-1, s)"
| "take_block_elsewhere g (h # hs) s =
     (if h \<noteq> unat g
      then do { (block, s) \<leftarrow> take_block h s;
                if block \<noteq> -1 then Some (s_blocks_per_group (sb s) * g + block, s) else take_block_elsewhere g hs s }
      else take_block_elsewhere g hs s)"

definition alloc_indirect_block :: "nat \<Rightarrow> fs \<Rightarrow> (u32 \<times> fs) option" where
  "alloc_indirect_block a s =
     do { i \<leftarrow> inodes s a;
          _ \<leftarrow> (if s_inodes_per_group (sb s) = 0 then None else Some ());
          let g = (ucast (i_number i) - 1) div s_inodes_per_group (sb s);
          tot \<leftarrow> TOT_FS_GROUP s;
          (block, s) \<leftarrow> take_block (unat g) s;
          if block \<noteq> -1 then Some (block, s) else take_block_elsewhere g [0..<unat tot] s }"

section \<open>Inodes\<close>

text \<open>The first free inode of a group; a directory goes only to a group with more free inodes than average.\<close>

definition find_free_inode :: "u32 \<Rightarrow> u32 \<Rightarrow> fs \<Rightarrow> (u32 \<times> fs) option" where
  "find_free_inode g condition s =
     do { (d, s) \<leftarrow> read_group_block (unat g) s;
          tot \<leftarrow> TOT_FS_GROUP s;
          _ \<leftarrow> (if tot = 0 then None else Some ());
          let avg_free_inode = s_free_inodes_count (sb s) div tot;
          let avg_free_block = s_free_blocks_count (sb s) div tot;
          let per_group = s_inodes_per_group (sb s);
          if (ucast (bg_free_inodes_count d) > avg_free_inode \<and> ucast (bg_free_blocks_count d) > avg_free_block \<and> condition = 1)
             \<or> (ucast (bg_free_inodes_count d) > avg_free_inode \<and> condition = 1) \<or> condition = 0
          then do { (b, s) \<leftarrow> read_inode_bitmap (bg_inode_bitmap d) (unat g) s;
                    found \<leftarrow> first_clear (\<lambda>k. k) b 0 (8 * unat (per_group div 8));
                    case found of
                      None \<Rightarrow> Some (-1, s)
                    | Some k \<Rightarrow>
                        do { b \<leftarrow> mark k b;
                             let s = put_inode_bitmap (unat g) b s;
                             s \<leftarrow> write_inode_bitmap (bg_inode_bitmap d) b (unat g) False s;
                             s \<leftarrow> upd_group (unat g) (\<lambda>d. d\<lparr>bg_free_inodes_count := bg_free_inodes_count d - 1,
                                    bg_used_dirs_count := (if condition = 1 then bg_used_dirs_count d + 1 else bg_used_dirs_count d)\<rparr>) s;
                             s \<leftarrow> write_group_block (unat g) False s;
                             Some (of_nat k + 1 + g * per_group,
                                   upd_sb (\<lambda>x. x\<lparr>s_free_inodes_count := s_free_inodes_count x - 1\<rparr>) s) } }
          else Some (-1, s) }"

text \<open>The groups at distances 1, 2, 4 and so on.\<close>

partial_function (option) far_groups :: "u32 \<Rightarrow> u32 \<Rightarrow> u32 \<Rightarrow> fs \<Rightarrow> (u32 \<times> fs) option" where
  "far_groups g offset tot s =
     (if g + offset < tot
      then do { (n, s) \<leftarrow> find_free_inode (g + offset) 0 s;
                if n = -1 then far_groups g (push_bit 1 offset) tot s else Some (n, s) }
      else Some (-1, s))"

partial_function (option) next_groups :: "u32 \<Rightarrow> u32 \<Rightarrow> u32 \<Rightarrow> fs \<Rightarrow> (u32 \<times> fs) option" where
  "next_groups g tot condition s =
     (if g < tot
      then do { (n, s) \<leftarrow> find_free_inode g condition s;
                if n = -1 then next_groups (g + 1) tot condition s else Some (n, s) }
      else Some (-1, s))"

text \<open>The last loop for files does not advance, so that it ends only when group 0 has a free inode.\<close>

partial_function (option) stuck_group :: "u32 \<Rightarrow> fs \<Rightarrow> (u32 \<times> fs) option" where
  "stuck_group bound s =
     (if 0 < bound
      then do { (n, s) \<leftarrow> find_free_inode 0 0 s; if n = -1 then stuck_group bound s else Some (n, s) }
      else Some (-1, s))"

definition alloc_inode :: "nat \<Rightarrow> u32 \<Rightarrow> fs \<Rightarrow> (u32 \<times> fs) option" where
  "alloc_inode parent_dir type s =
     do { tot \<leftarrow> TOT_FS_GROUP s;
          p \<leftarrow> inodes s parent_dir;
          _ \<leftarrow> (if s_inodes_per_group (sb s) = 0 then None else Some ());
          let g = (ucast (i_number p) - 1) div s_inodes_per_group (sb s);
          if type = 0
          then do { (n, s) \<leftarrow> find_free_inode g 0 s;
                    (n, s) \<leftarrow> (if n = -1 then far_groups g 1 tot s else Some (n, s));
                    (n, s) \<leftarrow> (if n = -1 then next_groups (g + 2) tot 0 s else Some (n, s));
                    if n = -1 then stuck_group (g - 1) s else Some (n, s) }
          else if type = 1
          then do { (n, s) \<leftarrow> next_groups 0 tot 1 s;
                    (n, s) \<leftarrow> (if n = -1 then next_groups g tot 1 s else Some (n, s));
                    if n = -1 then next_groups 0 g 1 s else Some (n, s) }
          else Some (-1, s) }"

end
