(* ===== verification/Ext2_Dir.thy ===== *)
theory Ext2_Dir
  imports Ext2_Alloc
begin

text \<open>
  Inodes through their cache (\<^verbatim>\<open>ext2_inode_cache.h\<close>, \<^verbatim>\<open>ext2_utils_2.h\<close>), directories, path names and the
  release of inodes (\<^verbatim>\<open>ext2_utils_1.h\<close>). Path and file names are lists of characters without their
  terminator. The cache is flushed when it is full, which itself may enter an inode; the
  operations take the flush as an argument \<open>fl\<close>, and \<open>flush_inode_cache\<close> bounds the nesting.
\<close>

section \<open>Inode cache\<close>

definition get_inode_cache :: "u32 \<Rightarrow> fs \<Rightarrow> (nat option \<times> fs) option" where
  "get_inode_cache n s =
     (case hashtable_get (cache s) (unat n) of
        None \<Rightarrow> Some (None, s)
      | Some a \<Rightarrow> do { s \<leftarrow> upd_inode a (\<lambda>i. i\<lparr>counter := counter i + 1\<rparr>) s; Some (Some a, s) })"

text \<open>The test for a second entry looks up the key \<open>1\<close>, the value of a comparison.\<close>

definition put_inode_cache :: "(fs \<Rightarrow> fs option) \<Rightarrow> nat \<Rightarrow> fs \<Rightarrow> fs option" where
  "put_inode_cache fl a s =
     do { s \<leftarrow> (if 4 * (elements (cache s) + 1) > 3 * ht_size (cache s) then fl s else Some s);
          i \<leftarrow> inodes s a;
          let s = (if hashtable_get (cache s) (if i_number i \<noteq> 0 then 1 else 0) \<noteq> None then fs_panic s else s);
          t \<leftarrow> hashtable_put (cache s) (unat (i_number i)) a;
          Some (s\<lparr>cache := t, cache_list := cache_list s @ [a]\<rparr>) }"

definition remove_inode_cache :: "u32 \<Rightarrow> fs \<Rightarrow> fs option" where
  "remove_inode_cache n s =
     do { (found, t) \<leftarrow> hashtable_remove (cache s) (unat n);
          let s = s\<lparr>cache := t\<rparr>;
          let s = (if hashtable_get (cache s) (unat n) \<noteq> None then fs_panic s else s);
          case found of
            None \<Rightarrow> Some s
          | Some a \<Rightarrow> inode_free a (s\<lparr>cache_list := remove1 a (cache_list s)\<rparr>) }"

section \<open>Reading and writing inodes\<close>

definition load_inode :: "u32 \<Rightarrow> inode \<Rightarrow> fs \<Rightarrow> (inode \<times> fs) option" where
  "load_inode n i s =
     do { _ \<leftarrow> (if s_inodes_per_group (sb s) = 0 then None else Some ());
          (d, s) \<leftarrow> read_group_block (unat ((n - 1) div s_inodes_per_group (sb s))) s;
          Some (decode_inode (inode_offset n) (READ_DISK 2 (inode_lba n d s) s) i, s) }"

definition store_inode :: "inode \<Rightarrow> fs \<Rightarrow> fs option" where
  "store_inode i s =
     do { let n = ucast (i_number i);
          _ \<leftarrow> (if s_inodes_per_group (sb s) = 0 \<or> i_number i = 0 then None else Some ());
          (d, s) \<leftarrow> read_group_block (unat ((n - 1) div s_inodes_per_group (sb s))) s;
          let lba = inode_lba n d s;
          Some (WRITE_DISK 2 lba (encode_inode i (inode_offset n) (READ_DISK 2 lba s)) s) }"

definition read_inode :: "(fs \<Rightarrow> fs option) \<Rightarrow> u32 \<Rightarrow> fs \<Rightarrow> (nat \<times> fs) option" where
  "read_inode fl n s =
     do { (found, s) \<leftarrow> get_inode_cache n s;
          case found of
            Some a \<Rightarrow> Some (a, s)
          | None \<Rightarrow>
              do { let (a, s) = inode_init 0 s;
                   (i, s) \<leftarrow> load_inode n ((blank_inode 0)\<lparr>i_number := ucast n\<rparr>) s;
                   s \<leftarrow> upd_inode a (\<lambda>_. i\<lparr>counter := counter i + 1\<rparr>) s;
                   s \<leftarrow> put_inode_cache fl a s;
                   Some (a, s) } }"

text \<open>
  \<open>write_inode\<close> enters an inode that is not cached. For one that is, the lookup has raised the
  counter of the cached object and the counter of the given one is lowered.
\<close>

definition write_inode :: "(fs \<Rightarrow> fs option) \<Rightarrow> nat \<Rightarrow> bool \<Rightarrow> fs \<Rightarrow> fs option" where
  "write_inode fl a store_on_disk s =
     do { i \<leftarrow> inodes s a;
          (found, s) \<leftarrow> get_inode_cache (ucast (i_number i)) s;
          s \<leftarrow> (if found = None then put_inode_cache fl a s else upd_inode a (\<lambda>i. i\<lparr>counter := counter i - 1\<rparr>) s);
          if store_on_disk
          then do { s \<leftarrow> upd_inode a (\<lambda>i. i\<lparr>i_status := 0\<rparr>) s; i \<leftarrow> inodes s a; store_inode i s }
          else upd_inode a (\<lambda>i. i\<lparr>i_status := 1\<rparr>) s }"

text \<open>
  Unused inodes are written if they have changed, and freed. Writing enters the inode, which
  has just been removed from the map, again, so that its address stays in the cache after
  the object is gone.
\<close>

definition flush_one :: "(fs \<Rightarrow> fs option) \<Rightarrow> nat \<Rightarrow> fs \<Rightarrow> fs option" where
  "flush_one fl a s =
     do { i \<leftarrow> inodes s a;
          (_, t) \<leftarrow> hashtable_remove (cache s) (unat (i_number i));
          let s = s\<lparr>cache := t\<rparr>;
          s \<leftarrow> (if i_status i = 1 then write_inode fl a True s else Some s);
          let s = s\<lparr>cache_list := remove1 a (cache_list s)\<rparr>;
          s \<leftarrow> inode_prealloc_block_free a s;
          inode_free a s }"

definition flush_all :: "(fs \<Rightarrow> fs option) \<Rightarrow> fs \<Rightarrow> fs option" where
  "flush_all fl s =
     do { unused \<leftarrow> for_each (\<lambda>a acc. do { i \<leftarrow> inodes s a; Some (if counter i = 0 then acc @ [a] else acc) }) (cache_list s) [];
          _ \<leftarrow> (if length unused \<le> elements (cache s) then Some () else None);
          s \<leftarrow> for_each (flush_one fl) unused s;
          sync_fs s }"

fun flush_inode_cache :: "nat \<Rightarrow> fs \<Rightarrow> fs option" where
  "flush_inode_cache 0 s = None"
| "flush_inode_cache (Suc n) s = flush_all (flush_inode_cache n) s"

section \<open>Directory blocks\<close>

text \<open>The fields of the entry at an offset, which must lie in the block.\<close>

definition entry_at :: "u8 list \<Rightarrow> nat \<Rightarrow> (u32 \<times> nat \<times> nat \<times> u8) option" where
  "entry_at b e =
     (if e + 8 \<le> length b
      then Some (READ_DWORD b e, unat (READ_WORD b (e + 4)), unat (READ_BYTE b (e + 6)), READ_BYTE b (e + 7))
      else None)"

text \<open>
  \<^verbatim>\<open>strncmp\<close> of the whole first string: zero when the second one begins with it. An empty name makes
  the result undefined, and so does running off the buffer before a difference.
\<close>

fun same_prefix :: "string \<Rightarrow> u8 list \<Rightarrow> bool option" where
  "same_prefix [] b = Some True"
| "same_prefix (c # cs) [] = None"
| "same_prefix (c # cs) (x # xs) = (if of_char c = x then same_prefix cs xs else Some False)"

definition strncmp_eq :: "string \<Rightarrow> u8 list \<Rightarrow> bool option" where
  "strncmp_eq name b = (if name = [] then None else same_prefix name b)"

partial_function (option) find_entry :: "string \<Rightarrow> u8 list \<Rightarrow> nat \<Rightarrow> u32 option option" where
  "find_entry name b e =
     (if e < BLOCK_SIZE
      then do { (n, rec_len, name_len, _) \<leftarrow> entry_at b e;
                eq \<leftarrow> (if n \<noteq> 0 then strncmp_eq name (drop (e + 8) b) else Some False);
                if eq \<and> name_len = length name then Some (Some n) else find_entry name b (e + rec_len) }
      else Some None)"

text \<open>The blocks of a directory up to the first empty one; the slots before \<open>limit\<close> are looked at.\<close>

definition dir_blocks :: "nat \<Rightarrow> inode \<Rightarrow> nat" where
  "dir_blocks limit i = length (takeWhile (\<lambda>k. i_block i ! k \<noteq> 0) [0..<limit])"

fun find_in_blocks :: "string \<Rightarrow> u32 list \<Rightarrow> fs \<Rightarrow> u32 option option" where
  "find_in_blocks name [] s = Some None"
| "find_in_blocks name (blk # blks) s =
     do { found \<leftarrow> find_entry name (READ_BLOCK blk s) 0;
          case found of Some n \<Rightarrow> Some (Some n) | None \<Rightarrow> find_in_blocks name blks s }"

text \<open>A directory without a block leaves the result of the search unset.\<close>

definition read_dir_inode :: "(fs \<Rightarrow> fs option) \<Rightarrow> string \<Rightarrow> nat \<Rightarrow> fs \<Rightarrow> (nat option \<times> fs) option" where
  "read_dir_inode fl name parent_dir s =
     do { p \<leftarrow> inodes s parent_dir;
          let k = dir_blocks 12 p;
          _ \<leftarrow> (if k = 0 then None else Some ());
          found \<leftarrow> find_in_blocks name (take k (i_block p)) s;
          case found of
            Some n \<Rightarrow> do { (a, s) \<leftarrow> read_inode fl n s; Some (Some a, s) }
          | None \<Rightarrow> Some (None, s) }"

definition FILE :: u8 where "FILE = 1"
definition DIRECTORY :: u8 where "DIRECTORY = 2"

definition ENTRY_PAD :: "nat \<Rightarrow> nat" where
  "ENTRY_PAD entry_len = (if entry_len mod 4 \<noteq> 0 then 4 - entry_len mod 4 else 0)"

text \<open>The bytes of an entry up to its name.\<close>

definition entry_bytes :: "u32 \<Rightarrow> nat \<Rightarrow> string \<Rightarrow> u8 \<Rightarrow> u8 list" where
  "entry_bytes n rec_len name ftype =
     bytes32 n @ bytes16 (of_nat rec_len) @ [of_nat (length name), ftype] @ map of_char name"

text \<open>
  The end of the chain of entries in a block: the offset where a new entry of \<open>len\<close> bytes fits
  behind the last one, or nothing. The subtraction is unsigned.
\<close>

partial_function (option) find_space :: "nat \<Rightarrow> u8 list \<Rightarrow> nat \<Rightarrow> (nat \<times> nat) option option" where
  "find_space len b e =
     do { (_, rec_len, name_len, _) \<leftarrow> entry_at b e;
          let new_entry = e + 8 + name_len + ENTRY_PAD (e + 8 + name_len);
          let free_space = unat ((1024 :: u32) - of_nat new_entry);
          if e + rec_len = BLOCK_SIZE \<and> free_space \<ge> len then Some (Some (e, new_entry))
          else if e + rec_len = BLOCK_SIZE then Some None
          else find_space len b (e + rec_len) }"

definition insert_entry :: "nat \<Rightarrow> nat \<Rightarrow> u32 \<Rightarrow> string \<Rightarrow> u8 \<Rightarrow> u8 list \<Rightarrow> u8 list option" where
  "insert_entry e new_entry n name ftype b =
     (if new_entry + 8 + length name \<le> length b
      then Some (put_bytes new_entry (entry_bytes n (BLOCK_SIZE - new_entry) name ftype)
                  (WRITE_WORD (of_nat (new_entry - e)) (e + 4) b))
      else None)"

text \<open>
  The last block is searched for room; a new block is allocated when there is none. The buffer of
  the last block is written back unchanged in that case. The result is \<open>0\<close> or \<open>-1\<close>.
\<close>

definition link_parent :: "(fs \<Rightarrow> fs option) \<Rightarrow> u8 \<Rightarrow> nat \<Rightarrow> fs \<Rightarrow> fs option" where
  "link_parent fl ftype parent_dir s =
     (if ftype = DIRECTORY
      then do { s \<leftarrow> upd_inode parent_dir (\<lambda>i. i\<lparr>i_links_count := i_links_count i + 1\<rparr>) s; write_inode fl parent_dir True s }
      else Some s)"

definition add_entry_to_dir :: "(fs \<Rightarrow> fs option) \<Rightarrow> string \<Rightarrow> nat \<Rightarrow> u32 \<Rightarrow> u8 \<Rightarrow> fs \<Rightarrow> (u32 \<times> fs) option" where
  "add_entry_to_dir fl name parent_dir n ftype s =
     do { let new_entry_len = 8 + length name + ENTRY_PAD (8 + length name);
          p \<leftarrow> inodes s parent_dir;
          let i = dir_blocks 13 p;
          _ \<leftarrow> (if i = 0 then None else Some ());
          let last_block = i_block p ! (i - 1);
          let b = READ_BLOCK last_block s;
          room \<leftarrow> find_space new_entry_len b 0;
          case room of
            Some (e, new_entry) \<Rightarrow>
              do { b \<leftarrow> insert_entry e new_entry n name ftype b;
                   s \<leftarrow> link_parent fl ftype parent_dir (WRITE_BLOCK last_block b s);
                   Some (0, s) }
          | None \<Rightarrow>
              (if i + 1 < 12
               then do { (blk, s) \<leftarrow> alloc_block parent_dir (of_nat i) s;
                         s \<leftarrow> upd_inode parent_dir (\<lambda>p. p\<lparr>i_block := (i_block p)[i := blk], i_status := 1\<rparr>) s;
                         _ \<leftarrow> (if 8 + length name \<le> BLOCK_SIZE then Some () else None);
                         let s = WRITE_BLOCK last_block b s;
                         let s = WRITE_BLOCK blk (put_bytes 0 (entry_bytes n BLOCK_SIZE name ftype) (replicate BLOCK_SIZE 0)) s;
                         s \<leftarrow> upd_inode parent_dir (\<lambda>p. p\<lparr>i_size := i_size p + 1024, i_blocks := i_blocks p + 2,
                                i_links_count := (if ftype = DIRECTORY then i_links_count p + 1 else i_links_count p)\<rparr>) s;
                         s \<leftarrow> write_inode fl parent_dir True s;
                         Some (0, s) }
               else Some (-1, s)) }"

section \<open>Release of an inode\<close>

text \<open>The blocks of a file by group, in the order they are met; \<^verbatim>\<open>fill_group_hash_1\<close> to \<^verbatim>\<open>3\<close>.\<close>

definition block_words :: "u32 \<Rightarrow> fs \<Rightarrow> u32 list" where
  "block_words blk s = map (\<lambda>k. READ_DWORD (READ_BLOCK blk s) (4 * k)) [0..<256]"

text \<open>
  The loops over a block of addresses read the word after the last one before they stop. A
  block that is full is therefore undefined.
\<close>

definition used_words :: "u32 list \<Rightarrow> u32 list option" where
  "used_words ws = (let us = takeWhile (\<lambda>w. w \<noteq> 0) ws in if length us < length ws then Some us else None)"

definition indirect_blocks :: "u32 \<Rightarrow> fs \<Rightarrow> u32 list option" where
  "indirect_blocks blk s = do { ws \<leftarrow> used_words (block_words blk s); Some (blk # ws) }"

fun double_blocks :: "u32 list \<Rightarrow> fs \<Rightarrow> u32 list option" where
  "double_blocks [] s = Some []"
| "double_blocks (blk # blks) s = do { xs \<leftarrow> indirect_blocks blk s; ys \<leftarrow> double_blocks blks s; Some (xs @ ys) }"

definition file_blocks :: "inode \<Rightarrow> fs \<Rightarrow> u32 list option" where
  "file_blocks i s =
     do { let direct = takeWhile (\<lambda>w. w \<noteq> 0) (take 12 (i_block i));
          single \<leftarrow> (if i_block i ! 12 \<noteq> 0 then indirect_blocks (i_block i ! 12) s else Some []);
          double \<leftarrow> (if i_block i ! 13 \<noteq> 0
                    then do { ws \<leftarrow> used_words (block_words (i_block i ! 13) s);
                              xs \<leftarrow> double_blocks ws s;
                              Some (i_block i ! 13 # xs) }
                    else Some []);
          Some (direct @ single @ double) }"

definition group_of :: "u32 \<Rightarrow> fs \<Rightarrow> nat" where
  "group_of blk s = unat ((blk - 1) div s_blocks_per_group (sb s))"

text \<open>The bits of the blocks of one group are cleared and its counters raised.\<close>

definition release_group :: "u32 list \<Rightarrow> nat \<Rightarrow> fs \<Rightarrow> fs option" where
  "release_group blks g s =
     do { (d, s) \<leftarrow> read_group_block g s;
          (b, s) \<leftarrow> read_block_bitmap (bg_block_bitmap d) g s;
          let mine = filter (\<lambda>blk. group_of blk s = g) blks;
          b \<leftarrow> for_each (\<lambda>blk b. do { k \<leftarrow> relative_bit blk (s_blocks_per_group (sb s)); unmark k b }) mine b;
          s \<leftarrow> upd_group g (\<lambda>d. d\<lparr>bg_free_blocks_count := bg_free_blocks_count d + of_nat (length mine)\<rparr>) (put_block_bitmap g b s);
          let s = upd_sb (\<lambda>x. x\<lparr>s_free_blocks_count := s_free_blocks_count x + of_nat (length mine)\<rparr>) s;
          s \<leftarrow> write_block_bitmap (bg_block_bitmap d) b g False s;
          write_group_block g False s }"

definition free_inode :: "(fs \<Rightarrow> fs option) \<Rightarrow> nat \<Rightarrow> fs \<Rightarrow> fs option" where
  "free_inode fl a s =
     do { s \<leftarrow> inode_prealloc_block_free a s;
          i \<leftarrow> inodes s a;
          let per_group = s_inodes_per_group (sb s);
          _ \<leftarrow> (if per_group = 0 then None else Some ());
          let g = unat ((ucast (i_number i) - 1) div per_group);
          (d, s) \<leftarrow> read_group_block g s;
          s \<leftarrow> upd_group g (\<lambda>d. d\<lparr>bg_free_inodes_count := bg_free_inodes_count d + 1,
                 bg_used_dirs_count := (if i_mode i AND 0x4000 \<noteq> 0 then bg_used_dirs_count d - 1 else bg_used_dirs_count d)\<rparr>) s;
          let s = upd_sb (\<lambda>x. x\<lparr>s_free_inodes_count := s_free_inodes_count x + 1\<rparr>) s;
          s \<leftarrow> write_group_block g False s;
          (b, s) \<leftarrow> read_inode_bitmap (bg_inode_bitmap d) g s;
          b \<leftarrow> unmark (unat ((ucast (i_number i) - 1) mod per_group)) b;
          s \<leftarrow> write_inode_bitmap (bg_inode_bitmap d) b g False (put_inode_bitmap g b s);
          tot \<leftarrow> TOT_FS_GROUP s;
          blks \<leftarrow> file_blocks i s;
          _ \<leftarrow> (if tot = 0 \<and> blks \<noteq> [] then None else Some ());
          s \<leftarrow> for_each (release_group blks) (rev (remdups (rev (map (\<lambda>blk. group_of blk s) blks)))) s;
          s \<leftarrow> upd_inode a (\<lambda>i. i\<lparr>i_mode := 0, i_uid := 0, i_size := 0, i_atime := 0, i_ctime := 0, i_mtime := 0,
                 i_dtime := 0, i_gid := 0, i_links_count := 0, i_blocks := 0, i_flags := 0\<rparr>) s;
          write_inode fl a True s }"

end
