(* ===== verification/Ext2_Bytes.thy ===== *)
theory Ext2_Bytes
  imports Ext2_Dir
begin

text \<open>
  What is written to the disk is read back: fields of buffers, sectors, the superblock, group
  descriptors and inodes. Writing one inode leaves all others alone.
\<close>

section \<open>Fields of a buffer\<close>

lemma length_put_bytes [simp]: "i + length v \<le> length b \<Longrightarrow> length (put_bytes i v b) = length b"
  by (simp add: put_bytes_def)

lemma get_put_same: "i + length v \<le> length b \<Longrightarrow> n = length v \<Longrightarrow> get_bytes i n (put_bytes i v b) = v"
  by (simp add: get_bytes_def put_bytes_def min_def)

lemma nth_put_bytes:
  "j + length v \<le> length b \<Longrightarrow> k < length b \<Longrightarrow>
   put_bytes j v b ! k = (if j \<le> k \<and> k < j + length v then v ! (k - j) else b ! k)"
  by (auto simp: put_bytes_def nth_append min_def)

lemma nth_get_bytes: "k < n \<Longrightarrow> i + n \<le> length b \<Longrightarrow> get_bytes i n b ! k = b ! (i + k)"
  by (simp add: get_bytes_def)

lemma length_get_bytes [simp]: "i + n \<le> length b \<Longrightarrow> length (get_bytes i n b) = n"
  by (simp add: get_bytes_def)

lemma get_put_other:
  assumes "j + length v \<le> length b" and "i + n \<le> length b" and "i + n \<le> j \<or> j + length v \<le> i"
  shows "get_bytes i n (put_bytes j v b) = get_bytes i n b"
  using assms by (intro nth_equalityI) (auto simp: nth_get_bytes nth_put_bytes)

lemma get_put_inside:
  assumes "j + length v \<le> length b" and "j \<le> i" and "i + n \<le> j + length v"
  shows "get_bytes i n (put_bytes j v b) = get_bytes (i - j) n v"
  using assms by (intro nth_equalityI) (auto simp: nth_get_bytes nth_put_bytes)

lemma length_bytes16 [simp]: "length (bytes16 w) = 2"
  by (simp add: bytes16_def)

lemma length_bytes32 [simp]: "length (bytes32 w) = 4"
  by (simp add: bytes32_def)

lemma word16_bytes16 [simp]: "word16 (bytes16 w) = w"
  unfolding word16_def bytes16_def
  by (rule bit_word_eqI) (auto simp: bit_simps nth_Cons' not_less dest: less_imp_Suc_add)

lemma word32_bytes32 [simp]: "word32 (bytes32 w) = w"
proof (rule bit_word_eqI)
  fix n assume "n < LENGTH(32)"
  then consider "n < 8" | "8 \<le> n" "n < 16" | "16 \<le> n" "n < 24" | "24 \<le> n" "n < 32" by fastforce
  then show "bit (word32 (bytes32 w)) n = bit w n"
    by cases (auto simp: word32_def bytes32_def bit_simps)
qed

lemma ucast_word32: "4 \<le> length v \<Longrightarrow> ucast (word32 v) = word16 (take 2 v)"
  by (rule bit_word_eqI) (auto simp: word32_def word16_def bit_simps)

lemma ucast_READ_DWORD:
  assumes "i + 4 \<le> length b"
  shows "ucast (READ_DWORD b i) = READ_WORD b i"
proof -
  have "length (get_bytes i 4 b) = 4" using assms by simp
  then show ?thesis
    using ucast_word32 [of "get_bytes i 4 b"] by (simp add: READ_DWORD_def READ_WORD_def) (simp add: get_bytes_def min_def)
qed

text \<open>
  Layout: a buffer that is written field after field is the concatenation of the fields, and a
  field is read from the concatenation by skipping those before it.
\<close>

named_theorems layout

lemma put_bytes_append [layout]: "length p \<le> i \<Longrightarrow> put_bytes i v (p @ r) = p @ put_bytes (i - length p) v r"
  by (simp add: put_bytes_def)

lemma put_bytes_0 [layout]: "put_bytes 0 v r = v @ drop (length v) r"
  by (simp add: put_bytes_def)

lemma get_bytes_append [layout]: "length p \<le> i \<Longrightarrow> get_bytes i n (p @ r) = get_bytes (i - length p) n r"
  by (simp add: get_bytes_def)

lemma get_bytes_Cons [layout]: "0 < i \<Longrightarrow> get_bytes i n (c # r) = get_bytes (i - 1) n r"
  by (cases i) (simp_all add: get_bytes_def)

lemma get_bytes_first [layout]: "length p = n \<Longrightarrow> get_bytes 0 n (p @ r) = p"
  by (simp add: get_bytes_def)

lemma get_bytes_all [layout]: "length p = n \<Longrightarrow> get_bytes 0 n p = p"
  by (simp add: get_bytes_def)

lemmas fields = WRITE_BYTE_def WRITE_WORD_def WRITE_DWORD_def READ_WORD_def READ_DWORD_def layout

section \<open>Sectors\<close>

lemma length_READ_DISK [simp]: "length (READ_DISK n lba s) = n * SECTOR_SIZE"
  by (simp add: READ_DISK_def)

lemma READ_WRITE_DISK_same:
  "length b = n * SECTOR_SIZE \<Longrightarrow> READ_DISK n lba (WRITE_DISK n lba b s) = b"
  by (intro nth_equalityI) (auto simp: READ_DISK_def WRITE_DISK_def)

lemma READ_WRITE_DISK_other:
  assumes "unat k + m \<le> unat lba \<or> unat lba + n \<le> unat k"
  shows "READ_DISK m k (WRITE_DISK n lba b s) = READ_DISK m k s"
proof -
  have "\<not> (unat lba * SECTOR_SIZE \<le> a \<and> a < unat lba * SECTOR_SIZE + n * SECTOR_SIZE)"
    if "unat k * SECTOR_SIZE \<le> a" "a < unat k * SECTOR_SIZE + m * SECTOR_SIZE" for a
  proof -
    have "(unat k + m) * SECTOR_SIZE \<le> unat lba * SECTOR_SIZE \<or> (unat lba + n) * SECTOR_SIZE \<le> unat k * SECTOR_SIZE"
      using assms by (meson mult_le_mono1)
    then show ?thesis using that by (auto simp: algebra_simps)
  qed
  then show ?thesis by (intro nth_equalityI) (auto simp: READ_DISK_def WRITE_DISK_def)
qed

section \<open>Superblock\<close>

text \<open>The byte arrays of a superblock have the lengths of the source.\<close>

definition superblock_ok :: "superblock \<Rightarrow> bool" where
  "superblock_ok x = (length (s_uuid x) = 16 \<and> length (s_volume_name x) = 16 \<and> length (s_last_mounted x) = 64 \<and>
     length (s_reserved x) = 816)"

lemma encode_superblock_layout:
  assumes "superblock_ok x" and "length b = 1024"
  shows "encode_superblock x b =
    bytes32 (s_inodes_count x) @ bytes32 (s_blocks_count x) @ bytes32 (s_r_blocks_count x) @ bytes32 (s_free_blocks_count x) @
    bytes32 (s_free_inodes_count x) @ bytes32 (s_first_data_block x) @ bytes32 (s_log_block_size x) @ bytes32 (s_log_frag_size x) @
    bytes32 (s_blocks_per_group x) @ bytes32 (s_frags_per_group x) @ bytes32 (s_inodes_per_group x) @ bytes32 (s_mtime x) @
    bytes32 (s_wtime x) @ bytes16 (s_mnt_count x) @ bytes16 (s_max_mnt_count x) @ bytes16 (s_magic x) @ bytes16 (s_state x) @
    bytes16 (s_errors x) @ bytes16 (s_minor_rev_level x) @ bytes32 (s_lastcheck x) @ bytes32 (s_checkinterval x) @
    bytes32 (s_creator_os x) @ bytes32 (s_rev_level x) @ bytes16 (s_def_resuid x) @ bytes16 (s_def_resgid x) @
    bytes32 (s_first_ino x) @ bytes16 (s_inode_size x) @ bytes16 (s_block_group_nr x) @ bytes32 (s_feature_compat x) @
    bytes32 (s_feature_incompat x) @ bytes32 (s_feature_ro_compat x) @ s_uuid x @ s_volume_name x @ s_last_mounted x @
    bytes32 (s_algorithm_usage_bitmap x) @ [s_prealloc_blocks x] @ [s_prealloc_dir_blocks x] @ bytes16 (s_padding1 x) @
    s_reserved x"
  using assms by (simp add: encode_superblock_def superblock_ok_def Let_def fields del: append_Cons append_Nil)

lemma decode_encode_superblock:
  assumes "superblock_ok x" and "length b = 1024"
  shows "decode_superblock (encode_superblock x b) = x" and "length (encode_superblock x b) = 1024"
  using assms
  by (simp_all add: encode_superblock_layout decode_superblock_def superblock_ok_def fields READ_BYTE_def nth_append)

section \<open>Inodes\<close>

text \<open>The 128 bytes of an inode. Of two fields the upper halves are those of the disk, \<open>h1\<close> and \<open>h2\<close>.\<close>

definition inode_image :: "inode \<Rightarrow> u8 list \<Rightarrow> u8 list \<Rightarrow> u8 list" where
  "inode_image i h1 h2 =
     bytes16 (i_mode i) @ bytes16 (i_uid i) @ bytes32 (i_size i) @ bytes32 (i_atime i) @ bytes32 (i_ctime i) @
     bytes32 (i_mtime i) @ bytes32 (i_dtime i) @ bytes16 (i_gid i) @ bytes16 (i_links_count i) @ bytes32 (i_blocks i) @
     bytes32 (i_flags i) @ bytes16 (ucast (osd1 i)) @ h1 @ concat (map bytes32 (i_block i)) @
     bytes32 (i_generation i) @ bytes32 (i_file_acl i) @ bytes32 (i_dir_acl i) @ bytes32 (i_faddr i) @
     bytes32 (osd2_1 i) @ bytes32 (osd2_2 i) @ bytes16 (ucast (osd2_3 i)) @ h2"

lemma length_concat_bytes32 [simp]: "length (concat (map bytes32 ws)) = 4 * length ws"
  by (induction ws) simp_all

lemma length_inode_image [simp]:
  "length (i_block i) = 15 \<Longrightarrow> length h1 = 2 \<Longrightarrow> length h2 = 2 \<Longrightarrow> length (inode_image i h1 h2) = 128"
  by (simp add: inode_image_def)

text \<open>Words written one after the other.\<close>

lemma put_bytes_twice:
  "k = j + length u \<Longrightarrow> j \<le> length b \<Longrightarrow> put_bytes k v (put_bytes j u b) = put_bytes j (u @ v) b"
  by (simp add: put_bytes_def min_def ac_simps)

lemma fold_WRITE_DWORD:
  assumes "j \<le> length b" and "n \<le> length ws"
  shows "fold (\<lambda>k. WRITE_DWORD (ws ! k) (j + 4 * k)) [0..<n] b = put_bytes j (concat (map bytes32 (take n ws))) b"
  using assms(2)
proof (induction n)
  case (Suc n)
  then show ?case using assms(1)
    by (simp add: WRITE_DWORD_def put_bytes_twice take_Suc_conv_app_nth)
qed (simp add: put_bytes_def)

lemma get_bytes_concat:
  "k < length ws \<Longrightarrow> get_bytes (4 * k) 4 (concat (map bytes32 ws) @ r) = bytes32 (ws ! k)"
proof (induction ws arbitrary: k)
  case (Cons w ws)
  then show ?case by (cases k) (simp_all add: layout)
qed simp

lemma put_bytes_2: "put_bytes 2 v r = take 2 r @ v @ drop (2 + length v) r"
  by (simp add: put_bytes_def)

lemma get_bytes_two: "length u + length h = n \<Longrightarrow> get_bytes 0 n (u @ h @ r) = u @ h"
  by (simp add: get_bytes_def)

lemma encode_inode_image:
  assumes "length p = o'" and "length m = 128" and "length (i_block i) = 15"
  shows "encode_inode i o' (p @ m @ r) = p @ inode_image i (take 2 (drop 38 m)) (drop 126 m) @ r"
  using assms
  by (simp add: encode_inode_def inode_image_def Let_def fold_WRITE_DWORD fields put_bytes_2)

text \<open>An inode \<open>j\<close> with the disk fields of \<open>i\<close>.\<close>

definition with_fields :: "inode \<Rightarrow> u32 \<Rightarrow> u32 \<Rightarrow> inode \<Rightarrow> inode" where
  "with_fields i o1 o3 j =
     j\<lparr>i_mode := i_mode i, i_uid := i_uid i, i_size := i_size i, i_atime := i_atime i, i_ctime := i_ctime i,
       i_mtime := i_mtime i, i_dtime := i_dtime i, i_gid := i_gid i, i_links_count := i_links_count i,
       i_blocks := i_blocks i, i_flags := i_flags i, osd1 := o1, i_block := i_block i, i_generation := i_generation i,
       i_file_acl := i_file_acl i, i_dir_acl := i_dir_acl i, i_faddr := i_faddr i, osd2_1 := osd2_1 i,
       osd2_2 := osd2_2 i, osd2_3 := o3\<rparr>"

lemma decode_inode_image:
  assumes "length p = o'" and "length h1 = 2" and "length h2 = 2" and "length (i_block i) = 15"
  shows "decode_inode o' (p @ inode_image i h1 h2 @ r) j =
    with_fields i (word32 (bytes16 (ucast (osd1 i)) @ h1)) (word32 (bytes16 (ucast (osd2_3 i)) @ h2)) j"
proof -
  have blk: "READ_DWORD (p @ inode_image i h1 h2 @ r) (o' + 40 + 4 * k) = i_block i ! k" if "k < 15" for k
    using assms that by (simp add: inode_image_def fields get_bytes_concat)
  have "map (\<lambda>k. READ_DWORD (p @ inode_image i h1 h2 @ r) (o' + 40 + 4 * k)) [0..<15] = map ((!) (i_block i)) [0..<15]"
    using blk by (intro map_cong) auto
  also have "\<dots> = i_block i" using map_nth [of "i_block i"] assms(4) by simp
  finally have "map (\<lambda>k. READ_DWORD (p @ inode_image i h1 h2 @ r) (o' + 40 + 4 * k)) [0..<15] = i_block i" .
  then show ?thesis using assms
    by (simp add: decode_inode_def with_fields_def ucast_READ_DWORD)
      (simp add: inode_image_def fields get_bytes_two)
qed

section \<open>Inodes on disk\<close>

text \<open>The bytes of the disk that hold inode \<open>n\<close> of a group with descriptor \<open>d\<close>.\<close>

definition inode_place :: "u32 \<Rightarrow> group_block \<Rightarrow> fs \<Rightarrow> nat" where
  "inode_place n d s = unat (inode_lba n d s) * SECTOR_SIZE + inode_offset n"

lemma unat_slot: "unat (w * 128 mod (1024 :: u32)) = unat w mod 8 * 128"
proof -
  have "unat (w * 128 mod 1024) = (unat w * 128 mod 2 ^ 32) mod 1024" by (simp add: unat_mod unat_word_ariths)
  also have "\<dots> = unat w * 128 mod 1024" by (simp add: mod_mod_cancel)
  also have "\<dots> = unat w mod 8 * 128" using mod_mult_mult2 [of "unat w" 128 8] by simp
  finally show ?thesis .
qed

lemma inode_offset_slot: "inode_offset n = unat (n - 1) mod 8 * 128"
  by (simp only: inode_offset_def unat_slot)

lemma inode_offset_bounds: "inode_offset n + 128 \<le> 1024"
  using mod_less_divisor [of 8 "unat (n - 1)"] unfolding inode_offset_slot by linarith

lemma cut_block:
  assumes "o' + n \<le> length b"
  shows "b = take o' b @ take n (drop o' b) @ drop (o' + n) b"
  by (metis add.commute append_take_drop_id drop_drop)

lemma length_split:
  "o' + n \<le> length b \<Longrightarrow> length (take o' b) = o' \<and> length (take n (drop o' b)) = n"
  by simp

lemma encode_inode_at:
  assumes "o' + 128 \<le> length b" and "length (i_block i) = 15"
  obtains h1 h2 where "length h1 = 2" "length h2 = 2"
    "encode_inode i o' b = put_bytes o' (inode_image i h1 h2) b"
proof -
  let ?m = "take 128 (drop o' b)"
  have m: "length ?m = 128" "length (take o' b) = o'" using assms(1) by auto
  have e: "encode_inode i o' b = take o' b @ inode_image i (take 2 (drop 38 ?m)) (drop 126 ?m) @ drop (o' + 128) b"
    using encode_inode_image [OF m(2) m(1) assms(2), of "drop (o' + 128) b"] cut_block [OF assms(1)] by metis
  have h: "length (take 2 (drop 38 ?m)) = 2" "length (drop 126 ?m) = 2" using m(1) by simp_all
  show ?thesis
    by (rule that [OF h]) (subst e, simp only: put_bytes_def length_inode_image [OF assms(2) h])
qed

text \<open>What is decoded depends only on the 128 bytes.\<close>

lemma READ_get_bytes:
  "k + 2 \<le> n \<Longrightarrow> o' + n \<le> length b \<Longrightarrow> READ_WORD b (o' + k) = READ_WORD (get_bytes o' n b) k"
  "k + 4 \<le> n \<Longrightarrow> o' + n \<le> length b \<Longrightarrow> READ_DWORD b (o' + k) = READ_DWORD (get_bytes o' n b) k"
  by (simp_all add: READ_WORD_def READ_DWORD_def get_bytes_def min_def drop_take ac_simps)

lemma decode_inode_local:
  assumes "o' + 128 \<le> length b"
  shows "decode_inode o' b j = decode_inode 0 (get_bytes o' 128 b) j"
proof -
  have w: "READ_WORD b o' = READ_WORD (get_bytes o' 128 b) 0" using READ_get_bytes(1) [of 0 128 o' b] assms by simp
  have w2: "READ_WORD b (Suc (Suc o')) = READ_WORD (get_bytes o' 128 b) (Suc (Suc 0))"
    using READ_get_bytes(1) [of 2 128 o' b] assms by (simp add: numeral_2_eq_2)
  have blk: "map (\<lambda>k. READ_DWORD b (o' + 40 + 4 * k)) [0..<15] = map (\<lambda>k. READ_DWORD (get_bytes o' 128 b) (40 + 4 * k)) [0..<15]"
    using READ_get_bytes(2) [of "40 + 4 * k" 128 o' b for k] assms by (intro map_cong) (auto simp: ac_simps)
  show ?thesis using assms
    by (simp add: decode_inode_def w w2 blk READ_get_bytes [where n = 128])
qed

definition disk_range :: "nat \<Rightarrow> nat \<Rightarrow> fs \<Rightarrow> u8 list" where
  "disk_range a n s = map (\<lambda>k. disk s (a + k)) [0..<n]"

lemma length_disk_range [simp]: "length (disk_range a n s) = n"
  by (simp add: disk_range_def)

lemma get_bytes_READ_DISK:
  "o' + n \<le> m * SECTOR_SIZE \<Longrightarrow> get_bytes o' n (READ_DISK m lba s) = disk_range (unat lba * SECTOR_SIZE + o') n s"
  by (intro nth_equalityI) (auto simp: nth_get_bytes READ_DISK_def disk_range_def ac_simps)

lemma disk_range_cong:
  "(\<And>k. a \<le> k \<Longrightarrow> k < a + n \<Longrightarrow> disk t k = disk s k) \<Longrightarrow> disk_range a n t = disk_range a n s"
  by (simp add: disk_range_def)

text \<open>A block that is read, changed in a range and written changes that range of the disk.\<close>

lemma WRITE_DISK_put_bytes:
  assumes "o' + length v \<le> n * SECTOR_SIZE"
  shows "WRITE_DISK n lba (put_bytes o' v (READ_DISK n lba s)) s =
    s\<lparr>disk := (\<lambda>a. if unat lba * SECTOR_SIZE + o' \<le> a \<and> a < unat lba * SECTOR_SIZE + o' + length v
                  then v ! (a - (unat lba * SECTOR_SIZE + o')) else disk s a)\<rparr>"
proof -
  have "put_bytes o' v (READ_DISK n lba s) ! (a - unat lba * SECTOR_SIZE) =
      (if unat lba * SECTOR_SIZE + o' \<le> a \<and> a < unat lba * SECTOR_SIZE + o' + length v
       then v ! (a - (unat lba * SECTOR_SIZE + o')) else disk s a)"
    if "unat lba * SECTOR_SIZE \<le> a" "a < unat lba * SECTOR_SIZE + n * SECTOR_SIZE" for a
    using that assms by (auto simp: nth_put_bytes READ_DISK_def)
  then have "(if unat lba * SECTOR_SIZE \<le> a \<and> a < unat lba * SECTOR_SIZE + n * SECTOR_SIZE
       then put_bytes o' v (READ_DISK n lba s) ! (a - unat lba * SECTOR_SIZE) else disk s a) =
      (if unat lba * SECTOR_SIZE + o' \<le> a \<and> a < unat lba * SECTOR_SIZE + o' + length v
       then v ! (a - (unat lba * SECTOR_SIZE + o')) else disk s a)" for a
    using assms by auto
  then show ?thesis by (simp only: WRITE_DISK_def)
qed

lemma read_group_block_caches:
  assumes "read_group_block g s = Some (d, t)"
  shows "g < groups s" "t = s\<lparr>group_block_list := (group_block_list s)(g \<mapsto> d)\<rparr>"
  using assms by (auto simp: read_group_block_def Let_def map_upd_triv split: if_splits option.splits)

lemma read_group_block_cached: "g < groups s \<Longrightarrow> group_block_list s g = Some d \<Longrightarrow> read_group_block g s = Some (d, s)"
  by (simp add: read_group_block_def)

definition group_of_inode :: "u32 \<Rightarrow> fs \<Rightarrow> nat" where
  "group_of_inode n s = unat ((n - 1) div s_inodes_per_group (sb s))"

lemma store_inode_effect:
  assumes "store_inode i s = Some t" and "length (i_block i) = 15"
  obtains d h1 h2 u where "read_group_block (group_of_inode (ucast (i_number i)) s) s = Some (d, u)"
    "length h1 = 2" "length h2 = 2" "s_inodes_per_group (sb s) \<noteq> 0"
    "t = u\<lparr>disk := (\<lambda>a. if inode_place (ucast (i_number i)) d s \<le> a \<and> a < inode_place (ucast (i_number i)) d s + 128
        then inode_image i h1 h2 ! (a - inode_place (ucast (i_number i)) d s) else disk s a)\<rparr>"
proof -
  let ?n = "ucast (i_number i) :: u32"
  obtain d u where u: "read_group_block (group_of_inode ?n s) s = Some (d, u)" "s_inodes_per_group (sb s) \<noteq> 0"
    and t: "t = WRITE_DISK 2 (inode_lba ?n d u) (encode_inode i (inode_offset ?n) (READ_DISK 2 (inode_lba ?n d u) u)) u"
    using assms(1) by (auto simp: store_inode_def group_of_inode_def Let_def bind_eq_Some_conv split: if_splits)
  have lba: "inode_lba ?n d u = inode_lba ?n d s" and disk: "disk u = disk s"
    using read_group_block_caches(2) [OF u(1)] by (simp_all add: inode_lba_def)
  obtain h1 h2 where h: "length h1 = 2" "length h2 = 2"
    "encode_inode i (inode_offset ?n) (READ_DISK 2 (inode_lba ?n d u) u)
      = put_bytes (inode_offset ?n) (inode_image i h1 h2) (READ_DISK 2 (inode_lba ?n d u) u)"
    using encode_inode_at [of "inode_offset ?n" "READ_DISK 2 (inode_lba ?n d u) u" i] inode_offset_bounds [of ?n] assms(2)
    by (auto simp: SECTOR_SIZE_def)
  show ?thesis
    using that [OF u(1) h(1,2) u(2)] t WRITE_DISK_put_bytes [of "inode_offset ?n" "inode_image i h1 h2" 2] inode_offset_bounds [of ?n]
      h assms(2) lba disk by (simp add: inode_place_def SECTOR_SIZE_def cong: if_cong)
qed

lemma load_inode_range:
  assumes "s_inodes_per_group (sb s) \<noteq> 0" and "read_group_block (group_of_inode n s) s = Some (d, t)"
  shows "load_inode n j s = Some (decode_inode 0 (disk_range (inode_place n d s) 128 s) j, t)"
proof -
  have t: "inode_lba n d t = inode_lba n d s" "disk t = disk s"
    using read_group_block_caches(2) [OF assms(2)] by (simp_all add: inode_lba_def)
  then have "READ_DISK 2 (inode_lba n d t) t = READ_DISK 2 (inode_lba n d s) s" by (simp add: READ_DISK_def)
  then show ?thesis
    using assms inode_offset_bounds [of n] decode_inode_local [of "inode_offset n" "READ_DISK 2 (inode_lba n d s) s"]
      get_bytes_READ_DISK [of "inode_offset n" 128 2 "inode_lba n d s" s]
    by (simp add: load_inode_def group_of_inode_def inode_place_def SECTOR_SIZE_def)
qed

text \<open>The places of the inodes of a group, when the table is made of whole blocks and fits the disk.\<close>

definition table_fits :: "group_block \<Rightarrow> fs \<Rightarrow> bool" where
  "table_fits d s = (8 dvd unat (s_inodes_per_group (sb s)) \<and> unat (s_inodes_per_group (sb s)) * 128 < 2 ^ 32 \<and>
     unat (partition_start_sector s) + (unat (s_inodes_per_group (sb s)) div 8 + unat (bg_inode_table d)) * 2 < 2 ^ 32)"

lemma unat_table_block:
  fixes w :: u32
  assumes "unat w * 128 < 2 ^ 32"
  shows "unat (w * 128 div 1024) = unat w div 8"
  using assms by (simp add: unat_div unat_word_ariths)

lemma unat_table_lba:
  fixes p b t :: u32
  assumes "unat p + (unat b + unat t) * 2 < 2 ^ 32"
  shows "unat (p + (b + t) * 2) = unat p + (unat b + unat t) * 2"
  using assms by (simp add: unat_word_ariths)

lemma inode_place_eq:
  assumes "table_fits d s" and "s_inodes_per_group (sb s) \<noteq> 0"
  shows "inode_place n d s = (unat (partition_start_sector s) + 2 * unat (bg_inode_table d)) * 512
    + unat (n - 1) mod unat (s_inodes_per_group (sb s)) * 128"
proof -
  let ?k = "s_inodes_per_group (sb s)"
  define r where "r = unat (n - 1) mod unat ?k"
  have k: "0 < unat ?k" using assms(2) by (simp add: unat_gt_0)
  have r: "r < unat ?k" using k by (simp add: r_def)
  have "n - (n - 1) div ?k * ?k - 1 = (n - 1) mod ?k" using div_mult_mod_eq [of "n - 1" ?k] by (simp add: algebra_simps)
  then have gi: "unat (n - (n - 1) div ?k * ?k - 1) = r" by (simp add: r_def unat_mod)
  have fits: "r * 128 < 2 ^ 32" "unat (partition_start_sector s) + (r div 8 + unat (bg_inode_table d)) * 2 < 2 ^ 32"
    using assms(1) r div_le_mono [of r "unat ?k" 8] by (auto simp: table_fits_def)
  have tb: "unat ((n - (n - 1) div ?k * ?k - 1) * 128 div 1024) = r div 8"
    using unat_table_block fits(1) gi by metis
  have lba: "unat (inode_lba n d s) = unat (partition_start_sector s) + (r div 8 + unat (bg_inode_table d)) * 2"
    unfolding inode_lba_def Let_def by (subst unat_table_lba) (simp_all only: tb fits(2))
  have "8 dvd unat ?k" using assms(1) by (simp add: table_fits_def)
  then have "unat (n - 1) mod 8 = r mod 8" by (simp add: r_def mod_mod_cancel)
  then have o': "inode_offset n = r mod 8 * 128" by (simp add: inode_offset_slot)
  have "r * 128 = r div 8 * 1024 + r mod 8 * 128" using div_mult_mod_eq [of r 8] by linarith
  then show ?thesis unfolding inode_place_def lba o' SECTOR_SIZE_def r_def [symmetric] by (simp add: algebra_simps)
qed

text \<open>Two inodes of one group do not share a byte.\<close>

lemma inode_places_disjoint:
  assumes "table_fits d s" and "s_inodes_per_group (sb s) \<noteq> 0" and "group_of_inode m s = group_of_inode n s" and "m \<noteq> n"
  shows "inode_place m d s + 128 \<le> inode_place n d s \<or> inode_place n d s + 128 \<le> inode_place m d s"
proof -
  let ?k = "unat (s_inodes_per_group (sb s))"
  have "unat (m - 1) div ?k = unat (n - 1) div ?k" using assms(3) by (simp add: group_of_inode_def unat_div)
  moreover have "unat (m - 1) \<noteq> unat (n - 1)" using assms(4) by (metis diff_add_cancel word_unat_eq_iff)
  ultimately have "unat (m - 1) mod ?k \<noteq> unat (n - 1) mod ?k" by (metis div_mult_mod_eq)
  then have "unat (m - 1) mod ?k * 128 + 128 \<le> unat (n - 1) mod ?k * 128
    \<or> unat (n - 1) mod ?k * 128 + 128 \<le> unat (m - 1) mod ?k * 128" by linarith
  then show ?thesis by (auto simp: inode_place_eq [OF assms(1,2)])
qed

lemma ucast_upper_half: "length h = 2 \<Longrightarrow> ucast (word32 (bytes16 (ucast w) @ h)) = (ucast w :: u16)"
  by (simp add: ucast_word32 take_append)

lemma disk_range_image:
  assumes "length v = n" and "disk t = (\<lambda>k. if a \<le> k \<and> k < a + n then v ! (k - a) else disk s k)"
  shows "disk_range a n t = v"
  using assms by (intro nth_equalityI) (auto simp: disk_range_def)

section \<open>A sample\<close>

text \<open>A file system of two groups of 8192 blocks with 16 inodes each, all bytes zero.\<close>

definition sample_sb :: superblock where
  "sample_sb =
     \<lparr>s_inodes_count = 32, s_blocks_count = 16384, s_r_blocks_count = 0, s_free_blocks_count = 16000,
      s_free_inodes_count = 20, s_first_data_block = 1, s_log_block_size = 0, s_log_frag_size = 0,
      s_blocks_per_group = 8192, s_frags_per_group = 8192, s_inodes_per_group = 16, s_mtime = 0, s_wtime = 0,
      s_mnt_count = 0, s_max_mnt_count = 0, s_magic = 0xEF53, s_state = 1, s_errors = 1, s_minor_rev_level = 0,
      s_lastcheck = 0, s_checkinterval = 0, s_creator_os = 0, s_rev_level = 0, s_def_resuid = 0, s_def_resgid = 0,
      s_first_ino = 11, s_inode_size = 128, s_block_group_nr = 0, s_feature_compat = 0, s_feature_incompat = 0,
      s_feature_ro_compat = 0, s_uuid = replicate 16 0, s_volume_name = replicate 16 0, s_last_mounted = replicate 64 0,
      s_algorithm_usage_bitmap = 0, s_prealloc_blocks = 0, s_prealloc_dir_blocks = 0, s_padding1 = 0,
      s_reserved = replicate 816 0\<rparr>"

definition sample_group :: "nat \<Rightarrow> group_block" where
  "sample_group g =
     \<lparr>bg_block_bitmap = of_nat (3 + 8192 * g), bg_inode_bitmap = of_nat (4 + 8192 * g), bg_inode_table = of_nat (5 + 8192 * g),
      bg_free_blocks_count = 8000, bg_free_inodes_count = 10, bg_used_dirs_count = 0, bg_pad = 0, bg_reserved = [0, 0, 0]\<rparr>"

definition sample_fs :: fs where
  "sample_fs =
     \<lparr>disk = (\<lambda>_. 0), sb = sample_sb, partition_start_sector = 2048, groups = 2, group_block_num = 2,
      group_block_list = (\<lambda>g. if g < 2 then Some (sample_group g) else None), group_block_list_status = (\<lambda>_. False),
      group_block_bitmap_list = Map.empty, group_block_bitmap_list_status = (\<lambda>_. False),
      group_inode_bitmap_list = Map.empty, group_inode_bitmap_list_status = (\<lambda>_. False),
      cache = hashtable_init INODE_CACHE_SIZE, cache_list = [], inodes = Map.empty, next_inode = 1, fs_panics = 0\<rparr>"

lemma sample_sel [simp]:
  "disk sample_fs = (\<lambda>_. 0)" "sb sample_fs = sample_sb" "groups sample_fs = 2" "partition_start_sector sample_fs = 2048"
  "group_block_list sample_fs = (\<lambda>g. if g < 2 then Some (sample_group g) else None)"
  "group_block_bitmap_list sample_fs = Map.empty" "group_inode_bitmap_list sample_fs = Map.empty" "inodes sample_fs = Map.empty"
  by (simp_all add: sample_fs_def)

lemmas sample_defs = sample_fs_def sample_sb_def sample_group_def

section \<open>Properties\<close>

text \<open>The superblock that is written is the one that is read afterwards, whatever is in
  memory then; no other sector of the disk changes.\<close>

lemma superblock_roundtrip:
  assumes "superblock_ok (sb s)"
  shows "sb (read_superblock ((write_superblock s)\<lparr>sb := x\<rparr>)) = sb s \<and>
    (\<forall>k. unat k + 1 \<le> unat (2 + partition_start_sector s) \<or> unat (2 + partition_start_sector s) + 2 \<le> unat k
           \<longrightarrow> READ_DISK 1 k (write_superblock s) = READ_DISK 1 k s)"
proof -
  let ?b = "encode_superblock (sb s) (replicate BLOCK_SIZE 0)"
  have b: "length ?b = 2 * SECTOR_SIZE" "decode_superblock ?b = sb s"
    using decode_encode_superblock [OF assms, of "replicate BLOCK_SIZE 0"] by (simp_all add: BLOCK_SIZE_def SECTOR_SIZE_def)
  have "partition_start_sector (write_superblock s) = partition_start_sector s"
    and "READ_DISK n k (t\<lparr>sb := x\<rparr>) = READ_DISK n k t" for n k t
    by (simp_all add: write_superblock_def WRITE_DISK_def READ_DISK_def)
  then have "sb (read_superblock ((write_superblock s)\<lparr>sb := x\<rparr>)) = sb s"
    using READ_WRITE_DISK_same [OF b(1), of "2 + partition_start_sector s" s] b(2)
    by (simp add: read_superblock_def) (simp add: write_superblock_def)
  then show ?thesis by (auto simp: write_superblock_def READ_WRITE_DISK_other)
qed

text \<open>The round trip on the sample.\<close>

lemma superblock_roundtrip_witness:
  "sb (read_superblock ((write_superblock sample_fs)\<lparr>sb := sample_sb\<lparr>s_free_blocks_count := 0\<rparr>\<rparr>)) = sample_sb"
  using superblock_roundtrip [of sample_fs "sample_sb\<lparr>s_free_blocks_count := 0\<rparr>"]
  by (simp add: superblock_ok_def sample_defs)

text \<open>C17: An inode that is written is read back with all its fields, the upper halves of two
  reserved fields excepted, and every other inode of its group is read as before. The
  number of inodes per group must be a multiple of eight.\<close>

theorem inode_roundtrip:
  assumes "read_group_block (group_of_inode (ucast (i_number i)) s) s = Some (d, u)" and "table_fits d s"
    and "s_inodes_per_group (sb s) \<noteq> 0" and "i_number i \<noteq> 0" and "length (i_block i) = 15"
  shows "\<exists>t o1 o3. store_inode i s = Some t \<and> load_inode (ucast (i_number i)) j t = Some (with_fields i o1 o3 j, t) \<and>
    ucast o1 = (ucast (osd1 i) :: u16) \<and> ucast o3 = (ucast (osd2_3 i) :: u16) \<and>
    (\<forall>m. m \<noteq> ucast (i_number i) \<and> group_of_inode m s = group_of_inode (ucast (i_number i)) s
       \<longrightarrow> map_option fst (load_inode m j t) = map_option fst (load_inode m j s))"
proof -
  let ?n = "ucast (i_number i) :: u32"
  let ?p = "inode_place ?n d s"
  obtain t where t: "store_inode i s = Some t"
    using assms(1,3,4) by (simp add: store_inode_def group_of_inode_def Let_def)
  obtain d' h1 h2 u' where e: "read_group_block (group_of_inode ?n s) s = Some (d', u')" "length h1 = 2" "length h2 = 2"
    "s_inodes_per_group (sb s) \<noteq> 0" "t = u'\<lparr>disk := (\<lambda>a. if inode_place ?n d' s \<le> a \<and> a < inode_place ?n d' s + 128
        then inode_image i h1 h2 ! (a - inode_place ?n d' s) else disk s a)\<rparr>"
    by (rule store_inode_effect [OF t assms(5)])
  have d: "d' = d" "u' = u" using e(1) assms(1) by auto
  have u: "u = s\<lparr>group_block_list := (group_block_list s)(group_of_inode ?n s \<mapsto> d)\<rparr>" "group_of_inode ?n s < groups s"
    using read_group_block_caches [OF assms(1)] by auto
  have disk: "disk t = (\<lambda>a. if ?p \<le> a \<and> a < ?p + 128 then inode_image i h1 h2 ! (a - ?p) else disk s a)"
    using e(5) unfolding d by simp
  have frame: "group_of_inode m t = group_of_inode m s" "inode_place m d t = inode_place m d s"
      "s_inodes_per_group (sb t) \<noteq> 0" for m
    using e(5) d u assms(3) by (simp_all add: group_of_inode_def inode_place_def inode_lba_def)
  have load: "load_inode m j t = Some (decode_inode 0 (disk_range (inode_place m d s) 128 t) j, t)"
    if "group_of_inode m s = group_of_inode ?n s" for m
    using load_inode_range [of t m d t j] read_group_block_cached [of "group_of_inode m t" t d] frame e(5) d u that by simp
  have "disk_range ?p 128 t = inode_image i h1 h2"
    by (rule disk_range_image [OF _ disk]) (simp add: e(2,3) assms(5))
  then have "load_inode ?n j t = Some (with_fields i (word32 (bytes16 (ucast (osd1 i)) @ h1)) (word32 (bytes16 (ucast (osd2_3 i)) @ h2)) j, t)"
    using load [of ?n] decode_inode_image [of "[]" 0 h1 h2 i "[]" j] e(2,3) assms(5) by simp
  moreover have "map_option fst (load_inode m j t) = map_option fst (load_inode m j s)"
    if m: "m \<noteq> ?n" "group_of_inode m s = group_of_inode ?n s" for m
  proof -
    have "disk_range (inode_place m d s) 128 t = disk_range (inode_place m d s) 128 s"
      using inode_places_disjoint [OF assms(2,3) m(2,1)] by (intro disk_range_cong) (auto simp: disk)
    then show ?thesis using load [OF m(2)] load_inode_range [OF assms(3), of m d u j] assms(1) m(2) by simp
  qed
  ultimately show ?thesis using t ucast_upper_half [OF e(2), of "osd1 i"] ucast_upper_half [OF e(3), of "osd2_3 i"]
    by (intro exI [of _ t] exI [of _ "word32 (bytes16 (ucast (osd1 i)) @ h1)"] exI [of _ "word32 (bytes16 (ucast (osd2_3 i)) @ h2)"]
        conjI allI impI) simp_all
qed

theorem inode_roundtrip_witness:
  "\<exists>t o1 o3. store_inode ((blank_inode 0)\<lparr>i_number := 18, i_size := 5000\<rparr>) sample_fs = Some t \<and>
     load_inode 18 (blank_inode 0) t = Some (with_fields ((blank_inode 0)\<lparr>i_number := 18, i_size := 5000\<rparr>) o1 o3 (blank_inode 0), t) \<and>
     map_option fst (load_inode 19 (blank_inode 0) t) = map_option fst (load_inode 19 (blank_inode 0) sample_fs)"
proof -
  let ?i = "(blank_inode 0)\<lparr>i_number := 18, i_size := 5000\<rparr>"
  have "read_group_block (group_of_inode (ucast (i_number ?i)) sample_fs) sample_fs = Some (sample_group 1, sample_fs)"
    by (simp add: read_group_block_def group_of_inode_def sample_fs_def sample_sb_def)
  moreover have "table_fits (sample_group 1) sample_fs" by (simp add: table_fits_def sample_defs)
  moreover have "length (i_block ?i) = 15" by (simp add: blank_inode_def EXT2_N_BLOCKS_def)
  moreover have "s_inodes_per_group (sb sample_fs) \<noteq> 0" "i_number ?i \<noteq> 0" by (simp_all add: sample_defs)
  ultimately obtain t o1 o3 where t: "store_inode ?i sample_fs = Some t"
    "load_inode (ucast (i_number ?i)) (blank_inode 0) t = Some (with_fields ?i o1 o3 (blank_inode 0), t)"
    "\<forall>m. m \<noteq> ucast (i_number ?i) \<and> group_of_inode m sample_fs = group_of_inode (ucast (i_number ?i)) sample_fs
       \<longrightarrow> map_option fst (load_inode m (blank_inode 0) t) = map_option fst (load_inode m (blank_inode 0) sample_fs)"
    using inode_roundtrip [of ?i sample_fs "sample_group 1" sample_fs "blank_inode 0"] by blast
  have "group_of_inode 19 sample_fs = group_of_inode 18 sample_fs" by (simp add: group_of_inode_def sample_defs)
  then have "map_option fst (load_inode 19 (blank_inode 0) t) = map_option fst (load_inode 19 (blank_inode 0) sample_fs)"
    using t(3) [rule_format, of 19] by simp
  moreover have "load_inode 18 (blank_inode 0) t = Some (with_fields ?i o1 o3 (blank_inode 0), t)" using t(2) by simp
  ultimately show ?thesis using t(1) by blast
qed

end
