(* ===== verification/Ext2_Free.thy ===== *)
theory Ext2_Free
  imports Ext2_Bytes
begin

text \<open>
  The allocation of inodes and blocks from the bitmaps of a group: exactly the first clear bit is
  taken, or there is none. The search of all groups goes one group too far.
\<close>

section \<open>Bits of a bitmap\<close>

lemma test_bit_Some [simp]: "k div 8 < length b \<Longrightarrow> test_bit b k = Some (bit_at b k)"
  by (simp add: test_bit_def)

lemma mark_Some:
  assumes "k div 8 < length b"
  obtains c where "mark k b = Some c" "length c = length b"
    "\<And>j. j div 8 < length b \<Longrightarrow> bit_at c j = (j = k \<or> bit_at b j)"
proof -
  let ?c = "b[k div 8 := b ! (k div 8) OR push_bit (k mod 8) 1]"
  have "bit_at ?c j = (j = k \<or> bit_at b j)" if j: "j div 8 < length b" for j
  proof (cases "j div 8 = k div 8")
    case True
    then have "(j = k) = (j mod 8 = k mod 8)" by (metis div_mult_mod_eq)
    moreover have "j mod 8 < 8" "k mod 8 < 8" by simp_all
    ultimately show ?thesis using True assms by (auto simp: bit_at_def bit_simps)
  next
    case False
    then show ?thesis by (auto simp: bit_at_def)
  qed
  then show ?thesis using that [of ?c] assms by (simp add: mark_def)
qed

lemma first_clear_cases:
  assumes "\<And>j. k \<le> j \<Longrightarrow> j < k + n \<Longrightarrow> pos j div 8 < length b"
  shows "first_clear pos b k n = Some None \<and> (\<forall>j. k \<le> j \<and> j < k + n \<longrightarrow> bit_at b (pos j)) \<or>
    (\<exists>i. first_clear pos b k n = Some (Some i) \<and> k \<le> i \<and> i < k + n \<and> \<not> bit_at b (pos i) \<and> (\<forall>j. k \<le> j \<and> j < i \<longrightarrow> bit_at b (pos j)))"
  using assms
proof (induction n arbitrary: k)
  case (Suc n)
  show ?case
  proof (cases "bit_at b (pos k)")
    case True
    then have eq: "first_clear pos b k (Suc n) = first_clear pos b (k + 1) n" using Suc.prems [of k] by simp
    have all: "(\<forall>j. k + 1 \<le> j \<and> j < m \<longrightarrow> bit_at b (pos j)) \<Longrightarrow> (\<forall>j. k \<le> j \<and> j < m \<longrightarrow> bit_at b (pos j))" for m
      using True by (metis Suc_eq_plus1 Suc_leI le_neq_implies_less)
    consider "first_clear pos b (k + 1) n = Some None" "\<forall>j. k + 1 \<le> j \<and> j < k + 1 + n \<longrightarrow> bit_at b (pos j)"
      | i where "first_clear pos b (k + 1) n = Some (Some i)" "k + 1 \<le> i" "i < k + 1 + n" "\<not> bit_at b (pos i)"
          "\<forall>j. k + 1 \<le> j \<and> j < i \<longrightarrow> bit_at b (pos j)"
      using Suc.IH [of "k + 1"] Suc.prems by fastforce
    then show ?thesis
    proof cases
      case 1
      then show ?thesis using eq all [of "k + Suc n"] by simp
    next
      case (2 i)
      then show ?thesis using eq all [of i] by (intro disjI2 exI [of _ i]) simp
    qed
  next
    case False
    then show ?thesis using Suc.prems [of k] by auto
  qed
qed auto

section \<open>Inodes\<close>

lemma read_inode_bitmap_caches:
  assumes "read_inode_bitmap m g s = Some (b, t)"
  shows "g < groups s" "t = s\<lparr>group_inode_bitmap_list := (group_inode_bitmap_list s)(g \<mapsto> b)\<rparr>"
  using assms by (auto simp: read_inode_bitmap_def Let_def map_upd_triv split: if_splits option.splits)

text \<open>C38: Allocation of an inode for a file: when the bitmap of the group has a clear bit the first one, and
  only that one, is set, the counters of the group and of the file system go down by one and the
  number of that inode is returned; otherwise the result is \<open>-1\<close> and nothing is taken.\<close>

theorem find_free_inode_takes:
  assumes "read_group_block (unat g) s = Some (d, u)" and "read_inode_bitmap (bg_inode_bitmap d) (unat g) u = Some (b, v)"
    and "TOT_FS_GROUP s = Some tot" and "tot \<noteq> 0" and "unat (s_inodes_per_group (sb s)) \<le> 8 * length b"
  shows "(\<exists>k c t. k < 8 * (unat (s_inodes_per_group (sb s)) div 8) \<and> \<not> bit_at b k \<and> (\<forall>j<k. bit_at b j) \<and>
      find_free_inode g 0 s = Some (of_nat k + 1 + g * s_inodes_per_group (sb s), t) \<and>
      group_inode_bitmap_list t = (group_inode_bitmap_list s)(unat g \<mapsto> c) \<and> length c = length b \<and>
      (\<forall>j. j div 8 < length b \<longrightarrow> bit_at c j = (j = k \<or> bit_at b j)) \<and> group_inode_bitmap_list_status t (unat g) \<and>
      group_block_list t (unat g) = Some (d\<lparr>bg_free_inodes_count := bg_free_inodes_count d - 1\<rparr>) \<and>
      sb t = (sb s)\<lparr>s_free_inodes_count := s_free_inodes_count (sb s) - 1\<rparr> \<and> disk t = disk s)
    \<or> (\<forall>j < 8 * (unat (s_inodes_per_group (sb s)) div 8). bit_at b j) \<and> find_free_inode g 0 s = Some (-1, v)"
proof -
  let ?n = "8 * (unat (s_inodes_per_group (sb s)) div 8)"
  have u: "unat g < groups s" "u = s\<lparr>group_block_list := (group_block_list s)(unat g \<mapsto> d)\<rparr>"
    using read_group_block_caches [OF assms(1)] by auto
  have v: "v = u\<lparr>group_inode_bitmap_list := (group_inode_bitmap_list u)(unat g \<mapsto> b)\<rparr>"
    using read_inode_bitmap_caches [OF assms(2)] by auto
  have tot: "TOT_FS_GROUP u = Some tot" using assms(3) u(2) by (auto simp: TOT_FS_GROUP_def split: if_splits)
  have n: "8 * unat (s_inodes_per_group (sb u) div 8) = ?n" using u(2) by (simp add: unat_div)
  have room: "j div 8 < length b" if "j < ?n" for j using that assms(5) by linarith
  consider "first_clear (\<lambda>k. k) b 0 ?n = Some None" "\<forall>j<?n. bit_at b j"
    | k where "first_clear (\<lambda>k. k) b 0 ?n = Some (Some k)" "k < ?n" "\<not> bit_at b k" "\<forall>j<k. bit_at b j"
    using first_clear_cases [of 0 ?n "\<lambda>k. k" b] room by auto
  then show ?thesis
  proof cases
    case 1
    then show ?thesis using assms(1,2,4) tot n by (simp add: find_free_inode_def Let_def)
  next
    case 2
    obtain c where c: "mark k b = Some c" "length c = length b" "\<And>j. j div 8 < length b \<Longrightarrow> bit_at c j = (j = k \<or> bit_at b j)"
      using mark_Some room [OF 2(2)] by blast
    have "\<exists>t. find_free_inode g 0 s = Some (of_nat k + 1 + g * s_inodes_per_group (sb s), t) \<and>
        group_inode_bitmap_list t = (group_inode_bitmap_list s)(unat g \<mapsto> c) \<and> group_inode_bitmap_list_status t (unat g) \<and>
        group_block_list t (unat g) = Some (d\<lparr>bg_free_inodes_count := bg_free_inodes_count d - 1\<rparr>) \<and>
        sb t = (sb s)\<lparr>s_free_inodes_count := s_free_inodes_count (sb s) - 1\<rparr> \<and> disk t = disk s"
      using assms(1,2,4) tot n 2(1) c(1) u v
      by (simp add: find_free_inode_def Let_def put_inode_bitmap_def write_inode_bitmap_def upd_group_def write_group_block_def upd_sb_def)
    then show ?thesis using 2(2-4) c(2,3) by blast
  qed
qed

theorem find_free_inode_takes_witness:
  "\<exists>t. find_free_inode 1 0 sample_fs = Some (17, t) \<and> s_free_inodes_count (sb t) = 19"
proof -
  let ?b = "replicate 1024 0 :: u8 list"
  let ?v = "sample_fs\<lparr>group_inode_bitmap_list := [1 \<mapsto> ?b]\<rparr>"
  have b: "READ_DISK 2 lba sample_fs = ?b" for lba
    by (simp add: READ_DISK_def SECTOR_SIZE_def map_replicate_const)
  have clear: "\<not> bit_at ?b 0" by (simp add: bit_at_def)
  have "read_group_block (unat 1) sample_fs = Some (sample_group 1, sample_fs)" by (simp add: read_group_block_def)
  moreover have "read_inode_bitmap (bg_inode_bitmap (sample_group 1)) (unat 1) sample_fs = Some (?b, ?v)"
    by (simp add: read_inode_bitmap_def b Let_def)
  moreover have "TOT_FS_GROUP sample_fs = Some 3" by (simp add: TOT_FS_GROUP_def sample_defs)
  ultimately show ?thesis
    using find_free_inode_takes [of 1 sample_fs "sample_group 1" sample_fs ?b ?v 3] clear
    by (fastforce simp: sample_sb_def)
qed

section \<open>Blocks\<close>

definition full :: "u8 list \<Rightarrow> bool" where
  "full b = (length b = 1024 \<and> (\<forall>j<8192. bit_at b j))"

lemma relative_bit_8192: "relative_bit blk 8192 = Some (unat ((blk - 1) mod 8192))" "unat (w mod (8192 :: u32)) < 8192"
  by (simp_all add: relative_bit_def unat_mod)

lemma full_test: "full b \<Longrightarrow> k < 8192 \<Longrightarrow> test_bit b k = Some True"
  by (simp add: full_def)

lemma bitmap_block_whole:
  assumes "g < unat (n div 8192 :: u32)"
  shows "bitmap_block n 8192 (of_nat g) = Some 8192"
proof -
  have q: "8192 * (g + 1) \<le> unat n" using assms by (simp add: unat_div)
  moreover have "unat n < 2 ^ 32" using unsigned_less [of n] by simp
  ultimately have g: "1024 * (g + 1) < 2 ^ 32" "unat (of_nat g :: u32) = g" by (simp_all add: unat_of_nat take_bit_nat_eq_self_iff)
  then have "unat (1024 * (of_nat g + 1 :: u32)) = 1024 * (g + 1)" by (simp add: unat_word_ariths)
  then have "\<not> 1024 * (of_nat g + 1 :: u32) > n" using q by (simp add: word_less_nat_alt)
  then show ?thesis by (simp add: bitmap_block_def)
qed

lemma find_free_block_full:
  assumes "s_blocks_per_group (sb s) = 8192" and "g < unat (s_blocks_count (sb s) div 8192)" and "full b"
  shows "find_free_block b (of_nat g) s = Some (-1, b)"
proof -
  have "first_clear (\<lambda>i. i mod 8192) b 0 8192 = Some None"
    using first_clear_cases [of 0 8192 "\<lambda>i. i mod 8192" b] assms(3) by (auto simp: full_def)
  then show ?thesis using bitmap_block_whole [OF assms(2)] assms(1) by (simp add: find_free_block_def Let_def)
qed

lemma near_block_full: "full b \<Longrightarrow> near_block preferred block_count 8192 i n b = Some (-1, b)"
  by (induction n arbitrary: i) (simp_all add: relative_bit_8192 full_test)

text \<open>Every group the tables hold is cached and full.\<close>

definition all_full :: "fs \<Rightarrow> bool" where
  "all_full s = (\<forall>g<groups s. \<exists>d b. group_block_list s g = Some d \<and> group_block_bitmap_list s g = Some b \<and> full b)"

lemma any_group_block_full:
  assumes "s_blocks_per_group (sb s) = 8192" and "groups s = unat (s_blocks_count (sb s) div 8192)" and "all_full s"
  shows "set gs \<subseteq> {..<groups s} \<Longrightarrow> any_group_block (gs @ [groups s]) s = None"
proof (induction gs)
  case Nil
  then show ?case by (simp add: read_group_block_def)
next
  case (Cons g gs)
  obtain d b where "group_block_list s g = Some d" "group_block_bitmap_list s g = Some b" "full b"
    using assms(3) Cons.prems by (auto simp: all_full_def)
  then show ?case using Cons find_free_block_full [OF assms(1), of g b] assms(2)
    by (simp add: read_group_block_def read_block_bitmap_def)
qed

text \<open>C39: On a full disk the search for a block does not report that there is none: it goes on to a
  group behind the tables, whose number of entries is rounded down when the file system is opened
  while the number of groups to search is one more.\<close>

theorem full_disk_search_overruns:
  assumes "s_blocks_per_group (sb s) = 8192" and "groups s = unat (s_blocks_count (sb s) div 8192)" and "all_full s" and "g < groups s"
  shows "search_block preferred g inode_group s = None"
proof -
  obtain b where b: "group_block_bitmap_list s g = Some b" "full b" using assms(3,4) by (auto simp: all_full_def)
  have s: "put_block_bitmap g b s = s" using b(1) by (simp add: put_block_bitmap_def map_upd_triv)
  let ?q = "s_blocks_count (sb s) div 8192"
  have "unat (s_blocks_count (sb s)) < 2 ^ 32" using unsigned_less [of "s_blocks_count (sb s)"] by simp
  then have q: "unat ?q \<noteq> 0" "unat ?q < 2 ^ 32 div 8192 + 1" using assms(2,4) by (simp_all add: unat_div)
  have "unat (?q + 1) = groups s + 1" using q(2) assms(2) by (simp add: unat_word_ariths)
  then have tot: "TOT_FS_GROUP s = Some (?q + 1)" "[0..<unat (?q + 1)] = [0..<groups s] @ [groups s]"
    using assms(1) q(1) by (auto simp: TOT_FS_GROUP_def Let_def)
  have "\<exists>n. bitmap_block (s_blocks_count (sb s)) 8192 inode_group = Some n" by (simp add: bitmap_block_def)
  then obtain n where "bitmap_block (s_blocks_count (sb s)) 8192 inode_group = Some n" ..
  moreover have "any_group_block ([0..<groups s] @ [groups s]) s = None" by (rule any_group_block_full [OF assms(1-3)]) auto
  ultimately show ?thesis using b s assms tot find_free_block_full [OF assms(1), of g b]
    by (simp add: search_block_def relative_bit_8192 full_test near_block_full Let_def)
qed

theorem full_disk_search_overruns_witness:
  "search_block 20 1 0 (sample_fs\<lparr>group_block_bitmap_list := (\<lambda>_. Some (replicate 1024 255))\<rparr>) = None"
proof -
  let ?s = "sample_fs\<lparr>group_block_bitmap_list := (\<lambda>_. Some (replicate 1024 255))\<rparr>"
  have "bit (255 :: u8) k" if "k < 8" for k using that by (auto simp: bit_numeral_rec less_Suc_eq numeral_eq_Suc)
  then have "full (replicate 1024 255)" by (simp add: full_def bit_at_def less_mult_imp_div_less)
  then have "all_full ?s" by (simp add: all_full_def)
  then show ?thesis using full_disk_search_overruns [of ?s 1 20 0] by (simp add: sample_sb_def)
qed

end
