(* ===== verification/Ext2_Path.thy ===== *)
theory Ext2_Path
  imports Ext2_Dir
begin

text \<open>
  Path names, the search for an inode and the removal of directory entries
  (\<^verbatim>\<open>ext2_utils_1.h\<close>, \<^verbatim>\<open>ext2_utils_2.h\<close>). The names of the root and of the current directory are those
  of the current process and are arguments.
\<close>

section \<open>Path names\<close>

definition NAME_MAX :: nat where "NAME_MAX = 50"

text \<open>A string copied with its terminator must fit the buffer of the caller.\<close>

definition fits :: "string \<Rightarrow> string option" where
  "fits cs = (if length cs < NAME_MAX then Some cs else None)"

definition slashes :: "string \<Rightarrow> nat" where
  "slashes cs = length (filter (\<lambda>c. c = CHR ''/'') cs)"

definition is_relative :: "string \<Rightarrow> bool" where
  "is_relative cs = (take 2 cs = ''./'')"

text \<open>
  The loop that copies the parent: up to the \<open>n\<close>-th separator, which is included. It reads on behind
  the string when there are fewer.
\<close>

fun copy_until :: "nat \<Rightarrow> string \<Rightarrow> (string \<times> string) option" where
  "copy_until 0 cs = Some ([], cs)"
| "copy_until (Suc n) [] = None"
| "copy_until (Suc n) (c # cs) =
     do { (p, r) \<leftarrow> copy_until (if c = CHR ''/'' then n else Suc n) cs; Some (c # p, r) }"

definition find_file_name :: "string \<Rightarrow> string option" where
  "find_file_name full_path = fits full_path"

definition find_parent_path_and_filename :: "string \<Rightarrow> (string \<times> string) option" where
  "find_parent_path_and_filename full_path =
     do { let path = (if take 1 full_path = ''/'' then drop 1 full_path
                      else if is_relative full_path then drop 2 full_path else full_path);
          let index = slashes path;
          if index = 0 \<and> take 1 full_path = ''/''
          then do { file_name \<leftarrow> find_file_name (drop 1 full_path); Some (''/'', file_name) }
          else if index = 0 \<and> is_relative full_path
          then do { file_name \<leftarrow> find_file_name (drop 2 full_path); Some (''./'', file_name) }
          else if index = 0
          then do { file_name \<leftarrow> find_file_name full_path; Some (''./'', file_name) }
          else do { (p, r) \<leftarrow> copy_until (index + 1) full_path;
                    _ \<leftarrow> (if length p \<le> NAME_MAX then Some () else None);
                    file_name \<leftarrow> find_file_name r;
                    Some (butlast p, file_name) } }"

text \<open>Without a separator the first character of the name is lost.\<close>

definition extract_filename :: "string \<Rightarrow> string \<times> string" where
  "extract_filename fullpath =
     (let marks = filter (\<lambda>i. fullpath ! i = CHR ''/'') [0..<length fullpath];
          last_element = (if marks = [] then 0 else List.last marks)
      in (take last_element fullpath, drop (last_element + 1) fullpath))"

section \<open>Search\<close>

definition inode_decrease_counter :: "nat \<Rightarrow> fs \<Rightarrow> fs option" where
  "inode_decrease_counter a = upd_inode a (\<lambda>i. i\<lparr>counter := counter i - 1\<rparr>)"

text \<open>
  \<open>name\<close> is the component read so far. A component that is not found ends the search, and so does a
  path that ends with a separator; the directory reached then keeps its reference.
\<close>

fun lookup_walk :: "(fs \<Rightarrow> fs option) \<Rightarrow> string \<Rightarrow> string \<Rightarrow> nat \<Rightarrow> fs \<Rightarrow> (nat option \<times> fs) option" where
  "lookup_walk fl name [] dir s =
     do { name \<leftarrow> fits name;
          if name = [] then Some (None, s)
          else do { (r, s) \<leftarrow> read_dir_inode fl name dir s;
                    s \<leftarrow> inode_decrease_counter dir s;
                    Some (r, s) } }"
| "lookup_walk fl name (c # cs) dir s =
     do { name \<leftarrow> fits name;
          if c \<noteq> CHR ''/'' then lookup_walk fl (name @ [c]) cs dir s
          else do { (r, s) \<leftarrow> read_dir_inode fl name dir s;
                    case r of
                      None \<Rightarrow> Some (None, s)
                    | Some a \<Rightarrow> do { s \<leftarrow> inode_decrease_counter dir s; lookup_walk fl [] cs a s } } }"

definition lookup_inode :: "(fs \<Rightarrow> fs option) \<Rightarrow> u32 \<Rightarrow> u32 \<Rightarrow> string \<Rightarrow> fs \<Rightarrow> (nat option \<times> fs) option" where
  "lookup_inode fl root_dir current_dir path s =
     (if path = ''/'' then do { (a, s) \<leftarrow> read_inode fl root_dir s; Some (Some a, s) }
      else if path = ''./'' then do { (a, s) \<leftarrow> read_inode fl current_dir s; Some (Some a, s) }
      else if take 1 path = ''/''
      then do { (a, s) \<leftarrow> read_inode fl root_dir s; lookup_walk fl [] (drop 1 path) a s }
      else if is_relative path
      then do { (a, s) \<leftarrow> read_inode fl current_dir s; lookup_walk fl [] (drop 2 path) a s }
      else Some (None, s))"

section \<open>Removal\<close>

text \<open>The entries of a block that are in use.\<close>

partial_function (option) count_entries :: "u8 list \<Rightarrow> nat \<Rightarrow> nat option" where
  "count_entries b e =
     (if e < BLOCK_SIZE
      then do { (n, rec_len, _, _) \<leftarrow> entry_at b e;
                k \<leftarrow> count_entries b (e + rec_len);
                Some (if n \<noteq> 0 then k + 1 else k) }
      else Some 0)"

definition num_dir_entry :: "nat \<Rightarrow> fs \<Rightarrow> nat option" where
  "num_dir_entry dir s =
     do { p \<leftarrow> inodes s dir;
          for_each (\<lambda>blk k. do { j \<leftarrow> count_entries (READ_BLOCK blk s) 0; Some (k + j) }) (take (dir_blocks 13 p) (i_block p)) 0 }"

text \<open>The entry of an inode, with the offset of the one before it in the block.\<close>

partial_function (option) find_number :: "u32 \<Rightarrow> u8 list \<Rightarrow> nat \<Rightarrow> nat \<Rightarrow> (nat \<times> nat) option option" where
  "find_number n b prev e =
     (if e < BLOCK_SIZE
      then do { (m, rec_len, _, _) \<leftarrow> entry_at b e;
                if m = n then Some (Some (prev, e)) else find_number n b e (e + rec_len) }
      else Some None)"

text \<open>The first entry of a block is only cleared; any other one is joined to the one before it.\<close>

definition unlink_entry :: "nat \<Rightarrow> nat \<Rightarrow> u8 list \<Rightarrow> u8 list" where
  "unlink_entry prev e b =
     (if e = 0 then WRITE_DWORD 0 0 b
      else WRITE_WORD (READ_WORD b (prev + 4) + READ_WORD b (e + 4)) (prev + 4) b)"

fun unlink_in_blocks :: "u32 \<Rightarrow> u32 list \<Rightarrow> fs \<Rightarrow> (bool \<times> fs) option" where
  "unlink_in_blocks n [] s = Some (False, s)"
| "unlink_in_blocks n (blk # blks) s =
     do { let b = READ_BLOCK blk s;
          found \<leftarrow> find_number n b 0 0;
          case found of
            Some (prev, e) \<Rightarrow> Some (True, WRITE_BLOCK blk (unlink_entry prev e b) s)
          | None \<Rightarrow> unlink_in_blocks n blks s }"

definition del_dir_entry :: "(fs \<Rightarrow> fs option) \<Rightarrow> nat \<Rightarrow> nat \<Rightarrow> fs \<Rightarrow> (u32 \<times> fs) option" where
  "del_dir_entry fl dir a s =
     do { p \<leftarrow> inodes s dir;
          i \<leftarrow> inodes s a;
          (found, s) \<leftarrow> unlink_in_blocks (ucast (i_number i)) (take (dir_blocks 13 p) (i_block p)) s;
          if found
          then do { s \<leftarrow> free_inode fl a s;
                    i \<leftarrow> inodes s a;
                    s \<leftarrow> remove_inode_cache (ucast (i_number i)) s;
                    Some (1, s) }
          else Some (-1, s) }"

text \<open>
  All entries of a directory are freed, those of subdirectories first. The first argument bounds
  the number of entries and the depth.
\<close>

definition dir_buffer :: "inode \<Rightarrow> fs \<Rightarrow> u8 list" where
  "dir_buffer p s = concat (map (\<lambda>blk. READ_BLOCK blk s) (take (dir_blocks 13 p) (i_block p)))"

fun del_entries :: "nat \<Rightarrow> (fs \<Rightarrow> fs option) \<Rightarrow> u8 list \<Rightarrow> nat \<Rightarrow> nat \<Rightarrow> nat \<Rightarrow> fs \<Rightarrow> fs option" where
  "del_entries 0 fl b e dir up s = None"
| "del_entries (Suc k) fl b e dir up s =
     (if e < length b
      then do { (n, rec_len, _, ftype) \<leftarrow> entry_at b e;
                p \<leftarrow> inodes s dir;
                q \<leftarrow> inodes s up;
                s \<leftarrow> (if n \<noteq> ucast (i_number p) \<and> n \<noteq> ucast (i_number q)
                     then do { (a, s) \<leftarrow> read_inode fl n s;
                               i \<leftarrow> inodes s a;
                               s \<leftarrow> (if ftype = DIRECTORY then del_entries k fl (dir_buffer i s) 0 a dir s else Some s);
                               s \<leftarrow> inode_decrease_counter a s;
                               free_inode fl a s }
                     else Some s);
                del_entries k fl b (e + rec_len) dir up s }
      else Some s)"

definition del_full_dir :: "nat \<Rightarrow> (fs \<Rightarrow> fs option) \<Rightarrow> nat \<Rightarrow> nat \<Rightarrow> fs \<Rightarrow> fs option" where
  "del_full_dir k fl dir up s = do { p \<leftarrow> inodes s dir; del_entries k fl (dir_buffer p s) 0 dir up s }"

text \<open>
  \<open>free_indirect_block\<close> divides the address, which counts from one, without the subtraction that is
  made elsewhere, and clears the bits of \<^verbatim>\<open>2 >> byte_bit\<close>. The counter of the group stays.
\<close>

definition free_indirect_block :: "nat \<Rightarrow> fs \<Rightarrow> fs option" where
  "free_indirect_block a s =
     do { i \<leftarrow> inodes s a;
          let per_group = s_blocks_per_group (sb s);
          _ \<leftarrow> (if per_group = 0 then None else Some ());
          blk \<leftarrow> nth_opt (i_block i) 12;
          let g = unat (blk div per_group);
          (d, s) \<leftarrow> read_group_block g s;
          (b, s) \<leftarrow> read_block_bitmap (bg_block_bitmap d) g s;
          k \<leftarrow> relative_bit (blk mod per_group) per_group;
          x \<leftarrow> nth_opt b (k div 8);
          let s = put_block_bitmap g (b[k div 8 := x AND (255 AND NOT (drop_bit (k mod 8) 2))]) s;
          s \<leftarrow> write_block_bitmap (bg_block_bitmap d) b g False s;
          write_group_block g False s }"

section \<open>Partitions\<close>

text \<open>The first sector of the second partition of a master boot record; its bytes are signed.\<close>

definition lookup_partition :: "fs \<Rightarrow> u32" where
  "lookup_partition s =
     (let b = READ_DISK 1 0 s;
          o' = 446 + 16 + 1;
          head = scast (b ! o');
          sector = scast (b ! (o' + 1)) AND 0x3F;
          cylinder = push_bit 2 (scast (b ! (o' + 1)) AND 0xc0) OR scast (b ! (o' + 2))
      in (cylinder * 16 + head) * 63 + sector - 1)"

text \<open>
  One sector of the table of partitions is read; it holds four entries. The bytes behind it in the
  buffer are unset.
\<close>

definition lookup_gpt_partition :: "u8 \<Rightarrow> fs \<Rightarrow> u32 option" where
  "lookup_gpt_partition partition_number s =
     (let b = READ_DISK 1 2 s; o' = 32 + (unat partition_number - 1) * 128
      in if 1 \<le> unat partition_number \<and> o' + 4 \<le> length b
         then Some (ucast (b ! o') + push_bit 8 (ucast (b ! (o' + 1))) + push_bit 16 (ucast (b ! (o' + 2)))
                    + push_bit 24 (ucast (b ! (o' + 3))))
         else None)"

end
