(* ===== verification/Ext2_Io.thy ===== *)
theory Ext2_Io
  imports Ext2_Path
begin

text \<open>
  The transfer of file data (\<^verbatim>\<open>_read_write\<close> and \<^verbatim>\<open>_read\<close> of \<^verbatim>\<open>src/ext2/ext2.c\<close>). Both translate a range of file
  blocks to sectors, allocating on the way when they write, and move the data block by
  block or, with DMA, in runs of adjacent sectors. The contents of fresh buffers are
  arguments; a run must fit the DMA buffer, whose capacity is the length of its list.
\<close>

section \<open>Sectors of file blocks\<close>

text \<open>
  Indirect blocks to be written at the end of a transfer: the sector and which buffer of the inode
  it takes. The list exists only when writing.
\<close>

datatype ind_ref = Ref1 | Ref2 | Ref2_at nat

type_synonym pending = "(u32 \<times> ind_ref) list option"

definition add_pending :: "u32 \<times> ind_ref \<Rightarrow> pending \<Rightarrow> pending option" where
  "add_pending x pend = do { l \<leftarrow> pend; Some (Some (l @ [x])) }"

definition read_ind :: "u32 \<Rightarrow> fs \<Rightarrow> indirect_block" where
  "read_ind blk s = Indirect (block_words blk s) (replicate 256 None)"

definition set_ind :: "nat \<Rightarrow> u32 \<Rightarrow> indirect_block \<Rightarrow> indirect_block" where
  "set_ind k w t = Indirect ((ind_block t)[k := w]) (block_map t)"

definition set_map :: "nat \<Rightarrow> indirect_block \<Rightarrow> indirect_block \<Rightarrow> indirect_block" where
  "set_map k u t = Indirect (ind_block t) ((block_map t)[k := Some u])"

text \<open>An allocation that fails ends the call with \<open>-1\<close>: \<open>Inl\<close>. Otherwise \<open>Inr\<close> holds the sector, if set.\<close>

type_synonym placed = "(unit + u32 option) \<times> pending \<times> fs"

definition rw_direct :: "nat \<Rightarrow> u32 \<Rightarrow> pending \<Rightarrow> fs \<Rightarrow> placed option" where
  "rw_direct a i pend s =
     do { t \<leftarrow> inodes s a;
          w \<leftarrow> nth_opt (i_block t) (unat i);
          (w, s) \<leftarrow> (if w = 0
                     then do { (data_block, s) \<leftarrow> alloc_block a i s;
                               s \<leftarrow> upd_inode a (\<lambda>t. t\<lparr>i_blocks := i_blocks t + 2, i_block := (i_block t)[unat i := data_block], i_status := 1\<rparr>) s;
                               Some (data_block, s) }
                     else Some (w, s));
          Some (Inr (Some (FROM_BLOCK_TO_LBA w s)), pend, s) }"

definition rw_single :: "nat \<Rightarrow> u32 \<Rightarrow> pending \<Rightarrow> fs \<Rightarrow> placed option" where
  "rw_single a i pend s =
     do { let k = unat (i - INDIRECT_0_LIMIT - 1);
          t \<leftarrow> inodes s a;
          w \<leftarrow> nth_opt (i_block t) 12;
          (block_addr, s) \<leftarrow>
            (if w = 0
             then do { (blk, s) \<leftarrow> alloc_indirect_block a s;
                       if blk = -1 then Some (None, fs_panic s)
                       else do { s \<leftarrow> upd_inode a (\<lambda>t. t\<lparr>i_status := 1, i_block := (i_block t)[12 := blk],
                                        i_blocks := i_blocks t + 2, indirect_block_1 := Some indirect_block_init\<rparr>) s;
                                 Some (Some blk, s) } }
             else Some (Some w, s));
          case block_addr of
            None \<Rightarrow> Some (Inl (), pend, s)
          | Some block_addr \<Rightarrow>
              do { t \<leftarrow> inodes s a;
                   s \<leftarrow> (if indirect_block_1 t = None
                        then upd_inode a (\<lambda>t. t\<lparr>indirect_block_1 := Some (read_ind (i_block t ! 12) s)\<rparr>) s else Some s);
                   t \<leftarrow> inodes s a;
                   u \<leftarrow> indirect_block_1 t;
                   w \<leftarrow> nth_opt (ind_block u) k;
                   (w, pend, s) \<leftarrow>
                     (if w = 0
                      then do { (data_block, s) \<leftarrow> alloc_block a i s;
                                s \<leftarrow> upd_inode a (\<lambda>t. t\<lparr>indirect_block_1 := map_option (set_ind k data_block) (indirect_block_1 t),
                                       i_blocks := i_blocks t + 2\<rparr>) s;
                                pend \<leftarrow> add_pending (FROM_BLOCK_TO_LBA block_addr s, Ref1) pend;
                                Some (data_block, pend, s) }
                      else Some (w, pend, s));
                   Some (Inr (Some (FROM_BLOCK_TO_LBA w s)), pend, s) } }"

text \<open>The block of addresses for entry \<open>k\<close> of the doubly indirect block: read, or allocated.\<close>

definition rw_second :: "nat \<Rightarrow> nat \<Rightarrow> pending \<Rightarrow> fs \<Rightarrow> (bool \<times> pending \<times> fs) option" where
  "rw_second a k pend s =
     do { t \<leftarrow> inodes s a;
          u \<leftarrow> indirect_block_2 t;
          m \<leftarrow> nth_opt (block_map u) k;
          w \<leftarrow> nth_opt (ind_block u) k;
          if m \<noteq> None then Some (True, pend, s)
          else if w \<noteq> 0
          then do { s \<leftarrow> upd_inode a (\<lambda>t. t\<lparr>indirect_block_2 := Some (set_map k (read_ind w s) u)\<rparr>) s; Some (True, pend, s) }
          else do { (blk, s) \<leftarrow> alloc_indirect_block a s;
                    s \<leftarrow> upd_inode a (\<lambda>t. t\<lparr>i_blocks := i_blocks t + 2\<rparr>) s;
                    if blk = -1 then Some (False, pend, fs_panic s)
                    else do { s \<leftarrow> upd_inode a (\<lambda>t. t\<lparr>indirect_block_2 := Some (set_map k indirect_block_init (set_ind k blk u))\<rparr>) s;
                              t \<leftarrow> inodes s a;
                              pend \<leftarrow> add_pending (FROM_BLOCK_TO_LBA (i_block t ! 13) s, Ref2) pend;
                              Some (True, pend, s) } } }"

definition rw_double :: "nat \<Rightarrow> u32 \<Rightarrow> pending \<Rightarrow> fs \<Rightarrow> placed option" where
  "rw_double a i pend s =
     do { let k = unat ((i - INDIRECT_1_LIMIT - 1) div 256);
          let l = unat ((i - INDIRECT_1_LIMIT - 1) mod 256);
          t \<leftarrow> inodes s a;
          w \<leftarrow> nth_opt (i_block t) 13;
          (ok, pend, s) \<leftarrow>
            (if w = 0
             then do { (blk, s) \<leftarrow> alloc_indirect_block a s;
                       if blk = -1 then Some (False, pend, fs_panic s)
                       else do { s \<leftarrow> upd_inode a (\<lambda>t. t\<lparr>i_status := 1, i_block := (i_block t)[13 := blk],
                                        i_blocks := i_blocks t + 2, indirect_block_2 := Some indirect_block_init\<rparr>) s;
                                 pend \<leftarrow> add_pending (FROM_BLOCK_TO_LBA blk s, Ref2) pend;
                                 Some (True, pend, s) } }
             else Some (True, pend, s));
          if \<not> ok then Some (Inl (), pend, s)
          else do { t \<leftarrow> inodes s a;
                    s \<leftarrow> (if indirect_block_2 t = None
                         then upd_inode a (\<lambda>t. t\<lparr>indirect_block_2 := Some (read_ind (i_block t ! 13) s)\<rparr>) s else Some s);
                    (ok, pend, s) \<leftarrow> rw_second a k pend s;
                    if \<not> ok then Some (Inl (), pend, s)
                    else do { t \<leftarrow> inodes s a;
                              u \<leftarrow> indirect_block_2 t;
                              m \<leftarrow> nth_opt (block_map u) k;
                              v \<leftarrow> m;
                              w \<leftarrow> nth_opt (ind_block v) l;
                              (w, pend, s) \<leftarrow>
                                (if w = 0
                                 then do { (data_block, s) \<leftarrow> alloc_block a i s;
                                           s \<leftarrow> upd_inode a (\<lambda>t. t\<lparr>i_blocks := i_blocks t + 2,
                                                  indirect_block_2 := Some (set_map k (set_ind l data_block v) u)\<rparr>) s;
                                           pend \<leftarrow> add_pending (FROM_BLOCK_TO_LBA (ind_block u ! k) s, Ref2_at k) pend;
                                           Some (data_block, pend, s) }
                                 else Some (w, pend, s));
                              Some (Inr (Some (FROM_BLOCK_TO_LBA w s)), pend, s) } } }"

text \<open>Blocks behind the doubly indirect ones are not supported: the sector stays what it was, \<open>lba\<close>.\<close>

definition rw_place :: "nat \<Rightarrow> u32 \<Rightarrow> u32 option \<Rightarrow> pending \<Rightarrow> fs \<Rightarrow> placed option" where
  "rw_place a i lba pend s =
     (if i > INDIRECT_0_LIMIT \<and> i \<le> INDIRECT_1_LIMIT then rw_single a i pend s
      else if i > INDIRECT_1_LIMIT \<and> i \<le> INDIRECT_2_LIMIT then rw_double a i pend s
      else if i > INDIRECT_2_LIMIT \<and> i \<le> INDIRECT_3_LIMIT then Some (Inr lba, pend, s)
      else rw_direct a i pend s)"

text \<open>The translation of \<open>_read\<close>, which never allocates: a block that is missing is read from block 0.\<close>

definition read_place :: "nat \<Rightarrow> u32 \<Rightarrow> u32 option \<Rightarrow> fs \<Rightarrow> (u32 option \<times> fs) option" where
  "read_place a i lba s =
     do { t \<leftarrow> inodes s a;
          if i > INDIRECT_0_LIMIT \<and> i \<le> INDIRECT_1_LIMIT
          then do { s \<leftarrow> (if indirect_block_1 t = None
                         then upd_inode a (\<lambda>t. t\<lparr>indirect_block_1 := Some (read_ind (i_block t ! 12) s)\<rparr>) s else Some s);
                    t \<leftarrow> inodes s a;
                    u \<leftarrow> indirect_block_1 t;
                    w \<leftarrow> nth_opt (ind_block u) (unat (i - INDIRECT_0_LIMIT - 1));
                    Some (Some (FROM_BLOCK_TO_LBA w s), s) }
          else if i > INDIRECT_1_LIMIT \<and> i \<le> INDIRECT_2_LIMIT
          then do { let k = unat ((i - INDIRECT_1_LIMIT - 1) div 256);
                    s \<leftarrow> (if indirect_block_2 t = None
                         then upd_inode a (\<lambda>t. t\<lparr>indirect_block_2 := Some (read_ind (i_block t ! 13) s)\<rparr>) s else Some s);
                    t \<leftarrow> inodes s a;
                    u \<leftarrow> indirect_block_2 t;
                    m \<leftarrow> nth_opt (block_map u) k;
                    w \<leftarrow> nth_opt (ind_block u) k;
                    s \<leftarrow> (if m = None
                         then upd_inode a (\<lambda>t. t\<lparr>indirect_block_2 := Some (set_map k (read_ind w s) u)\<rparr>) s else Some s);
                    t \<leftarrow> inodes s a;
                    u \<leftarrow> indirect_block_2 t;
                    m \<leftarrow> nth_opt (block_map u) k;
                    v \<leftarrow> m;
                    w \<leftarrow> nth_opt (ind_block v) (unat ((i - INDIRECT_1_LIMIT - 1) mod 256));
                    Some (Some (FROM_BLOCK_TO_LBA w s), s) }
          else if i > INDIRECT_2_LIMIT \<and> i \<le> INDIRECT_3_LIMIT then Some (lba, s)
          else do { w \<leftarrow> nth_opt (i_block t) (unat i); Some (Some (FROM_BLOCK_TO_LBA w s), s) } }"

section \<open>Block by block\<close>

text \<open>The bytes taken from one block, and those left.\<close>

definition chunk :: "u32 \<Rightarrow> bool \<Rightarrow> u32 \<Rightarrow> u32 \<times> u32" where
  "chunk first_data_offset later byte_to_rw =
     (if byte_to_rw \<ge> 1024
      then if first_data_offset = 0 \<or> later then (1024, byte_to_rw - 1024)
           else (1024 - first_data_offset, byte_to_rw - (1024 - first_data_offset))
      else if first_data_offset = 0 \<or> later then (byte_to_rw, 0)
      else if 1024 - first_data_offset > byte_to_rw then (byte_to_rw, 0)
      else (1024 - first_data_offset, byte_to_rw - (1024 - first_data_offset)))"

text \<open>
  The local variables of a transfer. \<open>x_iob\<close> is the block buffer; \<open>x_buf\<close> is the buffer of the caller:
  what has been read so far, or the data to write.
\<close>

record transfer =
  x_offset :: u32
  x_left :: u32
  x_first :: u32
  x_done :: u32
  x_iob :: "u8 list"
  x_buf :: "u8 list"

definition moved :: "u32 \<Rightarrow> u32 \<Rightarrow> transfer \<Rightarrow> transfer" where
  "moved n left x = x\<lparr>x_offset := x_offset x + n, x_left := left, x_done := x_done x + n, x_first := 0\<rparr>"

definition copy_in :: "bool \<Rightarrow> u32 \<Rightarrow> transfer \<Rightarrow> fs \<Rightarrow> transfer" where
  "copy_in later lba x s =
     (let (n, left) = chunk (x_first x) later (x_left x); b = READ_DISK 2 lba s
      in moved n left (x\<lparr>x_iob := b, x_buf := x_buf x @ get_bytes (unat (x_first x)) (unat n) b\<rparr>))"

text \<open>Only a write that starts inside block 0 reads the block first.\<close>

definition copy_out :: "bool \<Rightarrow> u32 \<Rightarrow> u32 \<Rightarrow> transfer \<Rightarrow> fs \<Rightarrow> (transfer \<times> fs) option" where
  "copy_out later i lba x s =
     (let (n, left) = chunk (x_first x) later (x_left x);
          b = (if i = 0 \<and> x_first x > 0 then READ_DISK 2 lba s else x_iob x);
          d = get_bytes (unat (x_done x)) (unat n) (x_buf x);
          b' = put_bytes (unat (x_first x)) d b
      in if length d = unat n then Some (moved n left (x\<lparr>x_iob := b'\<rparr>), WRITE_DISK 2 lba b' s) else None)"

section \<open>DMA\<close>

text \<open>The runs of adjacent blocks; \<open>d_list\<close> is unset until the first block is met.\<close>

record dma =
  first_lba :: u32
  last_lba :: u32
  dma_sector_count :: u32
  dma_lba_list :: "(u32 \<times> u16) list option"
  dma_lba_list_size :: u32

definition dma_start :: dma where
  "dma_start = \<lparr>first_lba = 0, last_lba = 0, dma_sector_count = 0, dma_lba_list = None, dma_lba_list_size = 0\<rparr>"

definition add_run :: "u32 \<Rightarrow> u32 \<Rightarrow> dma \<Rightarrow> dma option" where
  "add_run lba count d =
     do { l \<leftarrow> dma_lba_list d;
          Some (d\<lparr>dma_lba_list := Some (l @ [(lba, ucast count)]), dma_lba_list_size := dma_lba_list_size d + 1\<rparr>) }"

definition dma_step :: "bool \<Rightarrow> u32 \<Rightarrow> dma \<Rightarrow> dma option" where
  "dma_step is_last lba d =
     (if first_lba d = 0 \<and> \<not> is_last
      then Some (d\<lparr>first_lba := lba, last_lba := lba, dma_lba_list := Some [], dma_sector_count := 2\<rparr>)
      else if first_lba d = 0
      then Some (d\<lparr>dma_lba_list := Some [(lba, 2)], dma_sector_count := 2, dma_lba_list_size := 1\<rparr>)
      else if lba = last_lba d + 2 \<and> \<not> is_last
      then Some (d\<lparr>dma_sector_count := dma_sector_count d + 2, last_lba := lba\<rparr>)
      else if is_last \<and> lba = last_lba d + 2
      then add_run (first_lba d) (dma_sector_count d + 2) (d\<lparr>dma_sector_count := dma_sector_count d + 2\<rparr>)
      else if is_last
      then do { d \<leftarrow> add_run (first_lba d) (dma_sector_count d) d; add_run lba 2 (d\<lparr>dma_sector_count := 2\<rparr>) }
      else do { d \<leftarrow> add_run (first_lba d) (dma_sector_count d) d;
                Some (d\<lparr>dma_sector_count := 2, last_lba := lba, first_lba := lba\<rparr>) })"

text \<open>Bytes moved by run \<open>i\<close> of \<open>n\<close>, and their offset in the DMA buffer.\<close>

definition run_bytes :: "nat \<Rightarrow> nat \<Rightarrow> u32 \<Rightarrow> transfer \<Rightarrow> u32 \<times> u32" where
  "run_bytes i n len x =
     (if i = 0 \<and> n > 1 then (len - x_first x, x_first x)
      else if i = 0 \<and> n = 1 then (x_left x, x_first x)
      else if i = n - 1 \<and> len + x_done x > x_left x \<and> i > 0 then (x_left x - x_done x, 0)
      else (len, 0))"

text \<open>
  One run. A write that does not start at a block boundary reads its first block to address 0.
  \<open>x_iob\<close> is the DMA buffer.
\<close>

definition run_in :: "nat \<Rightarrow> nat \<Rightarrow> u32 \<times> u16 \<Rightarrow> transfer \<Rightarrow> fs \<Rightarrow> transfer option" where
  "run_in i n r x s =
     (let (lba, count) = r; len = ucast count * 512; (k, o') = run_bytes i n len x;
          b = put_bytes 0 (READ_DISK (unat count) lba s) (x_iob x);
          d = get_bytes (unat o') (unat k) b
      in if unat count * SECTOR_SIZE \<le> length (x_iob x) \<and> length d = unat k
         then Some (x\<lparr>x_iob := b, x_buf := x_buf x @ d, x_done := x_done x + k\<rparr>) else None)"

definition run_out :: "nat \<Rightarrow> nat \<Rightarrow> u32 \<times> u16 \<Rightarrow> transfer \<Rightarrow> fs \<Rightarrow> (transfer \<times> fs) option" where
  "run_out i n r x s =
     (let (lba, count) = r; len = ucast count * 512; (k, o') = run_bytes i n len x;
          d = get_bytes (unat (x_done x)) (unat k) (x_buf x);
          b = put_bytes (unat o') d (x_iob x)
      in if \<not> (i = 0 \<and> x_first x > 0) \<and> length d = unat k \<and> unat o' + unat k \<le> length (x_iob x)
            \<and> unat count * SECTOR_SIZE \<le> length (x_iob x)
         then Some (x\<lparr>x_iob := b, x_done := x_done x + k\<rparr>, WRITE_DISK (unat count) lba (take (unat count * SECTOR_SIZE) b) s)
         else None)"

text \<open>The runs in turn. A call without a block leaves the list unset.\<close>

definition run_step :: "u8 \<Rightarrow> nat \<Rightarrow> (u32 \<times> u16) list \<Rightarrow> nat \<Rightarrow> transfer \<times> fs \<Rightarrow> (transfer \<times> fs) option" where
  "run_step op_type n l i = (\<lambda>(x, s).
     do { r \<leftarrow> nth_opt l i;
          if op_type = 0 then do { x \<leftarrow> run_in i n r x s; Some (x, s) }
          else if op_type = 1 then run_out i n r x s
          else Some (let (k, _) = run_bytes i n (ucast (snd r) * 512) x in x\<lparr>x_done := x_done x + k\<rparr>, s) })"

definition dma_transfer :: "u8 \<Rightarrow> dma \<Rightarrow> transfer \<Rightarrow> fs \<Rightarrow> (transfer \<times> fs) option" where
  "dma_transfer op_type d x s =
     do { l \<leftarrow> dma_lba_list d;
          (x, s) \<leftarrow> for_each (run_step op_type (unat (dma_lba_list_size d)) l) [0..<unat (dma_lba_list_size d)] (x, s);
          Some (x\<lparr>x_offset := x_offset x + x_done x\<rparr>, s) }"

section \<open>Transfers\<close>

text \<open>The loop over the blocks; the flag is false when the call ends with \<open>-1\<close>.\<close>

type_synonym loop_state = "u32 option \<times> pending \<times> dma \<times> transfer \<times> fs"

definition rw_step ::
  "u8 \<Rightarrow> bool \<Rightarrow> nat \<Rightarrow> u32 \<Rightarrow> u32 \<Rightarrow> nat \<Rightarrow> loop_state \<Rightarrow> (bool \<times> loop_state) option" where
  "rw_step op_type is_dma a first_block last_block j = (\<lambda>(lba, pend, d, x, s).
     do { let i = (of_nat j :: u32);
          (r, pend, s) \<leftarrow> rw_place a i lba pend s;
          case r of
            Inl _ \<Rightarrow> Some (False, lba, pend, d, x, s)
          | Inr l \<Rightarrow>
              do { v \<leftarrow> l;
                   if is_dma then do { d \<leftarrow> dma_step (i = last_block) v d; Some (True, l, pend, d, x, s) }
                   else if op_type = 0 then Some (True, l, pend, d, copy_in (i > first_block) v x s, s)
                   else if op_type = 1
                   then do { (x, s) \<leftarrow> copy_out (i > first_block) i v x s; Some (True, l, pend, d, x, s) }
                   else Some (True, l, pend, d, (let (n, left) = chunk (x_first x) (i > first_block) (x_left x) in moved n left x), s) } })"

fun rw_loop ::
  "u8 \<Rightarrow> bool \<Rightarrow> nat \<Rightarrow> u32 \<Rightarrow> u32 \<Rightarrow> nat list \<Rightarrow> loop_state \<Rightarrow> (bool \<times> loop_state) option" where
  "rw_loop op_type is_dma a first_block last_block [] c = Some (True, c)"
| "rw_loop op_type is_dma a first_block last_block (j # js) c =
     do { (ok, c) \<leftarrow> rw_step op_type is_dma a first_block last_block j c;
          if ok then rw_loop op_type is_dma a first_block last_block js c else Some (False, c) }"

definition read_step :: "bool \<Rightarrow> nat \<Rightarrow> u32 \<Rightarrow> u32 \<Rightarrow> nat \<Rightarrow> u32 option \<times> dma \<times> transfer \<times> fs \<Rightarrow> (u32 option \<times> dma \<times> transfer \<times> fs) option" where
  "read_step is_dma a first_block last_block j = (\<lambda>(lba, d, x, s).
     do { let i = (of_nat j :: u32);
          (l, s) \<leftarrow> read_place a i lba s;
          v \<leftarrow> l;
          if is_dma then do { d \<leftarrow> dma_step (i = last_block) v d; Some (l, d, x, s) }
          else Some (l, d, copy_in (i > first_block) v x s, s) })"

text \<open>The blocks of addresses that have changed are written with their contents at the end.\<close>

definition ind_bytes :: "indirect_block \<Rightarrow> u8 list" where
  "ind_bytes t = concat (map bytes32 (ind_block t))"

definition flush_pending :: "nat \<Rightarrow> (u32 \<times> ind_ref) list \<Rightarrow> fs \<Rightarrow> fs option" where
  "flush_pending a =
     for_each (\<lambda>(lba, r) s.
       do { t \<leftarrow> inodes s a;
            u \<leftarrow> (case r of
                   Ref1 \<Rightarrow> indirect_block_1 t
                 | Ref2 \<Rightarrow> indirect_block_2 t
                 | Ref2_at k \<Rightarrow> do { v \<leftarrow> indirect_block_2 t; m \<leftarrow> nth_opt (block_map v) k; m });
            Some (WRITE_DISK 2 lba (ind_bytes u) s) })"

text \<open>
  The transfer of \<open>_read_write\<close> for a file at offset \<open>off\<close>: the result of the call, the new offset
  and what was read.
\<close>

definition rw_transfer ::
  "u8 list \<Rightarrow> nat \<Rightarrow> u32 \<Rightarrow> u8 list \<Rightarrow> u32 \<Rightarrow> u8 \<Rightarrow> bool \<Rightarrow> fs \<Rightarrow> (u32 \<times> u32 \<times> u8 list \<times> fs) option" where
  "rw_transfer junk a off buf count op_type is_dma s =
     do { t \<leftarrow> inodes s a;
          let first_block = off div 1024;
          let end_of_file = (i_size t < off + (count - 1) \<and> op_type = 0);
          let last_block = (if end_of_file then i_size t div 1024 else (off + (count - 1)) div 1024);
          let left = (if end_of_file then i_size t - off else count);
          let x = \<lparr>x_offset = off, x_left = left, x_first = off mod 1024, x_done = 0, x_iob = junk,
                   x_buf = (if op_type = 1 then buf else [])\<rparr>;
          (ok, lba, pend, d, x, s) \<leftarrow>
            rw_loop op_type is_dma a first_block last_block [unat first_block..<unat last_block + 1]
              (None, if op_type = 1 then Some [] else None, dma_start, x, s);
          if \<not> ok then Some (-1, x_offset x, x_buf x, s)
          else do { (x, s) \<leftarrow> (if is_dma then dma_transfer op_type d x s else Some (x, s));
                    s \<leftarrow> (if op_type = 1
                         then do { l \<leftarrow> pend;
                                   s \<leftarrow> flush_pending a l s;
                                   upd_inode a (\<lambda>t. if x_offset x > i_size t then t\<lparr>i_size := x_offset x\<rparr> else t) s }
                         else Some s);
                    Some (x_done x, x_offset x, x_buf x, s) } }"

definition read_transfer ::
  "u8 list \<Rightarrow> nat \<Rightarrow> u32 \<Rightarrow> u32 \<Rightarrow> bool \<Rightarrow> fs \<Rightarrow> (u32 \<times> u32 \<times> u8 list \<times> fs) option" where
  "read_transfer junk a off count is_dma s =
     do { t \<leftarrow> inodes s a;
          let first_block = off div 1024;
          let end_of_file = (i_size t < off + (count - 1));
          let last_block = (if end_of_file then i_size t div 1024 - 1 else (off + (count - 1)) div 1024);
          let left = (if end_of_file then i_size t - off else count);
          let x = \<lparr>x_offset = off, x_left = left, x_first = off mod 1024, x_done = 0, x_iob = junk, x_buf = []\<rparr>;
          (lba, d, x, s) \<leftarrow> for_each (read_step is_dma a first_block last_block) [unat first_block..<unat last_block + 1] (None, dma_start, x, s);
          (x, s) \<leftarrow> (if is_dma then dma_transfer 0 d x s else Some (x, s));
          Some (x_done x, x_offset x, x_buf x, s) }"

end
