(* ===== verification/Ext2_File.thy ===== *)
theory Ext2_File
  imports Ext2_Io
begin

text \<open>
  The calls of the file system (\<^verbatim>\<open>src/ext2/ext2.c\<close>) and the program loader on top of them
  (\<^verbatim>\<open>src/elf_loader/elf_loader.c\<close>). The state is the file system with the open files and the part of
  the current process the calls use. Every call runs between \<^verbatim>\<open>sem_down\<close> and \<^verbatim>\<open>sem_up\<close> on the
  semaphore of the file system, so that it is one step here. Results are the numbers the
  calls return, \<open>-1\<close> for an error.
\<close>

record t_file =
  f_inode :: nat
  file_offset :: u32

record files =
  fsys :: fs
  file_store :: "nat \<rightharpoonup> t_file"
  next_file :: nat
  fd_table :: "nat hashtable"
  next_fd :: u32
  root_dir_inode_number :: u32
  current_dir_inode_number :: u32
  mount_map :: "nat hashtable"

definition O_CREAT :: u32 where "O_CREAT = 1"
definition O_APPEND :: u32 where "O_APPEND = 2"
definition O_RDWR :: u32 where "O_RDWR = 4"
definition PROCESS_INIT_FILE :: nat where "PROCESS_INIT_FILE = 10"
definition MOUNT_MAP_SIZE :: nat where "MOUNT_MAP_SIZE = 10"

definition on_fs :: "(fs \<Rightarrow> fs option) \<Rightarrow> files \<Rightarrow> files option" where
  "on_fs f c = do { s \<leftarrow> f (fsys c); Some (c\<lparr>fsys := s\<rparr>) }"

definition from_fs :: "(fs \<Rightarrow> ('a \<times> fs) option) \<Rightarrow> files \<Rightarrow> ('a \<times> files) option" where
  "from_fs f c = do { (r, s) \<leftarrow> f (fsys c); Some (r, c\<lparr>fsys := s\<rparr>) }"

section \<open>The file system as a whole\<close>

definition init_inode_cache :: "fs \<Rightarrow> fs" where
  "init_inode_cache s = s\<lparr>cache := hashtable_init INODE_CACHE_SIZE, cache_list := []\<rparr>"

definition free_inode_cache :: "fs \<Rightarrow> fs option" where
  "free_inode_cache s = do { s \<leftarrow> for_each inode_free (cache_list s) s; Some (s\<lparr>cache_list := []\<rparr>) }"

text \<open>The tables hold one entry per 8192 blocks, rounded down.\<close>

definition init_ext2 :: "u8 \<Rightarrow> fs \<Rightarrow> fs option" where
  "init_ext2 partition_num s =
     do { p \<leftarrow> lookup_gpt_partition partition_num s;
          let s = read_superblock (s\<lparr>partition_start_sector := p\<rparr>);
          let n = s_blocks_count (sb s) div (1024 * 8);
          Some (init_inode_cache (s\<lparr>groups := unat n, group_block_num := ucast n,
                  group_block_list := Map.empty, group_block_list_status := (\<lambda>_. False),
                  group_block_bitmap_list := Map.empty, group_block_bitmap_list_status := (\<lambda>_. False),
                  group_inode_bitmap_list := Map.empty, group_inode_bitmap_list_status := (\<lambda>_. False)\<rparr>)) }"

definition free_ext2 :: "fs \<Rightarrow> fs option" where
  "free_ext2 s =
     free_inode_cache (s\<lparr>groups := 0, group_block_list := Map.empty, group_block_bitmap_list := Map.empty,
       group_inode_bitmap_list := Map.empty\<rparr>)"

section \<open>Open files\<close>

definition file_init :: "nat \<Rightarrow> files \<Rightarrow> (nat \<times> files) option" where
  "file_init a c =
     do { c \<leftarrow> on_fs (upd_inode a (\<lambda>i. i\<lparr>counter := counter i + 1\<rparr>)) c;
          Some (next_file c, c\<lparr>file_store := (file_store c)(next_file c \<mapsto> \<lparr>f_inode = a, file_offset = 0\<rparr>),
                               next_file := next_file c + 1\<rparr>) }"

definition file_free :: "nat \<Rightarrow> files \<Rightarrow> files option" where
  "file_free f c =
     do { x \<leftarrow> file_store c f;
          c \<leftarrow> on_fs (inode_decrease_counter (f_inode x)) c;
          Some (c\<lparr>file_store := (file_store c)(f := None)\<rparr>) }"

definition put_fd :: "u32 \<Rightarrow> nat \<Rightarrow> files \<Rightarrow> files option" where
  "put_fd fd f c = do { t \<leftarrow> hashtable_put (fd_table c) (unat fd) f; Some (c\<lparr>fd_table := t\<rparr>) }"

text \<open>
  The table of a child process. Only numbers below the number of buckets are copied, and every copy
  starts at offset 0.
\<close>

definition clone_file_desc :: "files \<Rightarrow> (nat hashtable \<times> files) option" where
  "clone_file_desc c =
     for_each (\<lambda>i (t, c).
       case hashtable_get (fd_table c) i of
         None \<Rightarrow> Some (t, c)
       | Some f \<Rightarrow> do { x \<leftarrow> file_store c f;
                        (g, c) \<leftarrow> file_init (f_inode x) c;
                        t \<leftarrow> hashtable_put t i g;
                        Some (t, c) })
       [0..<ht_size (fd_table c)] (hashtable_init PROCESS_INIT_FILE, c)"

definition lookup :: "(fs \<Rightarrow> fs option) \<Rightarrow> string \<Rightarrow> files \<Rightarrow> (nat option \<times> files) option" where
  "lookup fl path c = from_fs (lookup_inode fl (root_dir_inode_number c) (current_dir_inode_number c) path) c"

text \<open>
  A new file. The number of the inode has 16 bits, so that the test for a failed allocation never
  holds; \<open>st0\<close> is the fresh memory of the inode.
\<close>

definition create_file :: "(fs \<Rightarrow> fs option) \<Rightarrow> u8 \<Rightarrow> u32 \<Rightarrow> string \<Rightarrow> files \<Rightarrow> (u32 \<times> files) option" where
  "create_file fl st0 fd full_path c =
     do { let (a, s) = inode_init st0 (fsys c);
          c \<leftarrow> on_fs (upd_inode a (\<lambda>i. i\<lparr>i_status := 1\<rparr>)) (c\<lparr>fsys := s\<rparr>);
          (parent_path, file_name) \<leftarrow> find_parent_path_and_filename full_path;
          (r, c) \<leftarrow> lookup fl parent_path c;
          parent_dir \<leftarrow> r;
          (n, c) \<leftarrow> from_fs (alloc_inode parent_dir 0) c;
          c \<leftarrow> on_fs (upd_inode a (\<lambda>i. i\<lparr>i_number := ucast n\<rparr>)) c;
          (ret, c) \<leftarrow> from_fs (add_entry_to_dir fl file_name parent_dir (ucast (ucast n :: u16)) FILE) c;
          if ret = -1
          then do { c \<leftarrow> on_fs (inode_prealloc_block_free a) c; c \<leftarrow> on_fs (inode_free a) c; Some (-1, c) }
          else do { (f, c) \<leftarrow> file_init a c;
                    c \<leftarrow> put_fd fd f c;
                    c \<leftarrow> on_fs (inode_decrease_counter parent_dir) c;
                    c \<leftarrow> on_fs (upd_inode a (\<lambda>i. i\<lparr>i_mode := 0x81FF, i_links_count := 1, i_atime := 0, i_ctime := 0,
                            i_mtime := 0, i_dtime := 0\<rparr>)) c;
                    c \<leftarrow> on_fs (write_inode fl a True) c;
                    Some (fd, c) } }"

definition open_file :: "(fs \<Rightarrow> fs option) \<Rightarrow> u8 \<Rightarrow> string \<Rightarrow> u32 \<Rightarrow> files \<Rightarrow> (u32 \<times> files) option" where
  "open_file fl st0 full_path flags c =
     do { let fd = next_fd c;
          (r, c) \<leftarrow> lookup fl full_path (c\<lparr>next_fd := next_fd c + 1\<rparr>);
          case r of
            None \<Rightarrow> if flags AND O_CREAT \<noteq> 0 then create_file fl st0 fd full_path c else Some (-1, c)
          | Some a \<Rightarrow> do { (f, c) \<leftarrow> file_init a c; c \<leftarrow> put_fd fd f c; Some (fd, c) } }"

text \<open>The result of \<open>_close\<close> is \<open>-1\<close> in every case.\<close>

definition close_file :: "(fs \<Rightarrow> fs option) \<Rightarrow> u32 \<Rightarrow> files \<Rightarrow> (u32 \<times> files) option" where
  "close_file fl fd c =
     do { (r, t) \<leftarrow> hashtable_remove (fd_table c) (unat fd);
          let c = c\<lparr>fd_table := t\<rparr>;
          case r of
            None \<Rightarrow> Some (-1, c\<lparr>fsys := fs_panic (fsys c)\<rparr>)
          | Some f \<Rightarrow>
              do { x \<leftarrow> file_store c f;
                   i \<leftarrow> inodes (fsys c) (f_inode x);
                   c \<leftarrow> (if i_status i = 1 then on_fs (write_inode fl (f_inode x) True) c else Some c);
                   c \<leftarrow> on_fs (inode_free_indirect_block (f_inode x)) c;
                   c \<leftarrow> on_fs sync_fs c;
                   c \<leftarrow> file_free f c;
                   Some (-1, c) } }"

definition set_offset :: "nat \<Rightarrow> u32 \<Rightarrow> files \<Rightarrow> files option" where
  "set_offset f off c = do { x \<leftarrow> file_store c f; Some (c\<lparr>file_store := (file_store c)(f \<mapsto> x\<lparr>file_offset := off\<rparr>)\<rparr>) }"

definition read_write ::
  "u8 list \<Rightarrow> u32 \<Rightarrow> u8 list \<Rightarrow> u32 \<Rightarrow> u8 \<Rightarrow> bool \<Rightarrow> files \<Rightarrow> (u32 \<times> u8 list \<times> files) option" where
  "read_write junk fd buf count op_type is_dma c =
     (case hashtable_get (fd_table c) (unat fd) of
        None \<Rightarrow> Some (-1, [], c\<lparr>fsys := fs_panic (fsys c)\<rparr>)
      | Some f \<Rightarrow>
          do { x \<leftarrow> file_store c f;
               (ret, off, out, s) \<leftarrow> rw_transfer junk (f_inode x) (file_offset x) buf count op_type is_dma (fsys c);
               c \<leftarrow> set_offset f off (c\<lparr>fsys := s\<rparr>);
               Some (ret, out, c) })"

definition read_file :: "u8 list \<Rightarrow> u32 \<Rightarrow> u32 \<Rightarrow> bool \<Rightarrow> files \<Rightarrow> (u32 \<times> u8 list \<times> files) option" where
  "read_file junk fd count is_dma c =
     (case hashtable_get (fd_table c) (unat fd) of
        None \<Rightarrow> Some (-1, [], c)
      | Some f \<Rightarrow>
          do { x \<leftarrow> file_store c f;
               (ret, off, out, s) \<leftarrow> read_transfer junk (f_inode x) (file_offset x) count is_dma (fsys c);
               c \<leftarrow> set_offset f off (c\<lparr>fsys := s\<rparr>);
               Some (ret, out, c) })"

text \<open>
  Offsets are unsigned, so that only the upper bounds are tested. \<open>SEEK_END\<close> changes the size of the
  file in place of the offset.
\<close>

definition seek_file :: "u32 \<Rightarrow> u32 \<Rightarrow> u32 \<Rightarrow> files \<Rightarrow> (u32 \<times> files) option" where
  "seek_file fd offset whence c =
     do { f \<leftarrow> hashtable_get (fd_table c) (unat fd);
          x \<leftarrow> file_store c f;
          i \<leftarrow> inodes (fsys c) (f_inode x);
          if whence = 0
          then if offset > i_size i then Some (-1, c) else do { c \<leftarrow> set_offset f offset c; Some (offset, c) }
          else if whence = 1
          then if file_offset x + offset > i_size i then Some (-1, c)
               else do { c \<leftarrow> set_offset f (file_offset x + offset) c; Some (offset, c) }
          else if whence = 2
          then if i_size i + offset > i_size i then Some (-1, c)
               else do { c \<leftarrow> on_fs (upd_inode (f_inode x) (\<lambda>i. i\<lparr>i_size := i_size i + offset\<rparr>)) c; Some (offset, c) }
          else Some (offset, c) }"

section \<open>Directories\<close>

text \<open>\<open>remove_entry\<close> is \<open>_rm\<close> up to its exit, where the references are given back.\<close>

definition remove_entry :: "(fs \<Rightarrow> fs option) \<Rightarrow> nat \<Rightarrow> nat \<Rightarrow> files \<Rightarrow> (u32 \<times> files) option" where
  "remove_entry fl a dir c =
     do { i \<leftarrow> inodes (fsys c) a;
          (ret, c) \<leftarrow>
            (if i_mode i AND 0x4000 \<noteq> 0
             then do { n \<leftarrow> num_dir_entry a (fsys c);
                       if n = 2
                       then do { c \<leftarrow> on_fs (upd_inode dir (\<lambda>p. p\<lparr>i_links_count := i_links_count p - 1\<rparr>)) c;
                                 c \<leftarrow> on_fs (write_inode fl dir True) c;
                                 from_fs (del_dir_entry fl dir a) c }
                       else Some (-1, c) }
             else if i_mode i AND 0x8000 \<noteq> 0 then from_fs (del_dir_entry fl dir a) c
             else Some (-1, c));
          c \<leftarrow> on_fs sync_fs c;
          Some (ret, c) }"

text \<open>At the exit a missing inode is followed, and so is one that has just been freed.\<close>

definition rm :: "(fs \<Rightarrow> fs option) \<Rightarrow> string \<Rightarrow> files \<Rightarrow> (u32 \<times> files) option" where
  "rm fl fullpath c =
     do { (path, _) \<leftarrow> find_parent_path_and_filename fullpath;
          (r, c) \<leftarrow> lookup fl fullpath c;
          (q, c) \<leftarrow> lookup fl path c;
          (ret, c) \<leftarrow> (case (r, q) of (Some a, Some dir) \<Rightarrow> remove_entry fl a dir c | _ \<Rightarrow> Some (-1, c));
          a \<leftarrow> r;
          c \<leftarrow> on_fs (inode_decrease_counter a) c;
          dir \<leftarrow> q;
          c \<leftarrow> on_fs (inode_decrease_counter dir) c;
          Some (ret, c) }"

text \<open>The block of a new directory. The numbers are shorter than 16 bits, so the upper bytes are 0.\<close>

definition dir_block :: "u16 \<Rightarrow> u16 \<Rightarrow> u8 list" where
  "dir_block n parent =
     put_bytes 0 ([ucast n, ucast (drop_bit 8 n), 0, 0, 0xC, 0, 1, 2, 0x2E, 0, 0, 0,
                   ucast parent, ucast (drop_bit 8 parent), 0, 0, 0xF4, 3, 2, 2, 0x2E, 0x2E, 0, 0]) (replicate BLOCK_SIZE 0)"

definition mkdir :: "(fs \<Rightarrow> fs option) \<Rightarrow> u8 \<Rightarrow> string \<Rightarrow> files \<Rightarrow> (u32 \<times> files) option" where
  "mkdir fl st0 full_path c =
     do { let (a, s) = inode_init st0 (fsys c);
          c \<leftarrow> on_fs (upd_inode a (\<lambda>i. i\<lparr>i_status := 1\<rparr>)) (c\<lparr>fsys := s\<rparr>);
          (parent_path, file_name) \<leftarrow> find_parent_path_and_filename full_path;
          (r, c) \<leftarrow> lookup fl parent_path c;
          parent_dir \<leftarrow> r;
          (n, c) \<leftarrow> from_fs (alloc_inode parent_dir 1) c;
          c \<leftarrow> on_fs (upd_inode a (\<lambda>i. i\<lparr>i_number := ucast n\<rparr>)) c;
          (block_num, c) \<leftarrow> from_fs (alloc_block a 0) c;
          (ret, c) \<leftarrow>
            (if block_num = -1
             then do { c \<leftarrow> on_fs (inode_decrease_counter parent_dir) c; c \<leftarrow> on_fs (inode_free a) c; Some (-1, c) }
             else do { c \<leftarrow> on_fs (upd_inode a (\<lambda>i. i\<lparr>i_block := (i_block i)[0 := block_num], i_mode := 0x41FF, i_size := 1024,
                               i_links_count := 2, i_blocks := 2, counter := counter i + 1\<rparr>)) c;
                       c \<leftarrow> on_fs (write_inode fl a True) c;
                       i \<leftarrow> inodes (fsys c) a;
                       p \<leftarrow> inodes (fsys c) parent_dir;
                       let c = c\<lparr>fsys := WRITE_BLOCK block_num (dir_block (i_number i) (i_number p)) (fsys c)\<rparr>;
                       (ret, c) \<leftarrow> from_fs (add_entry_to_dir fl file_name parent_dir (ucast (i_number i)) DIRECTORY) c;
                       c \<leftarrow> (if ret = -1
                            then do { c \<leftarrow> on_fs (inode_prealloc_block_free a) c; on_fs (free_inode fl a) c }
                            else Some c);
                       c \<leftarrow> on_fs (inode_decrease_counter a) c;
                       c \<leftarrow> on_fs (inode_decrease_counter parent_dir) c;
                       Some (ret, c) });
          c \<leftarrow> on_fs sync_fs c;
          Some (ret, c) }"

text \<open>The two cases of \<open>_chdir\<close> are interchanged. It has no result.\<close>

definition chdir :: "(fs \<Rightarrow> fs option) \<Rightarrow> string \<Rightarrow> files \<Rightarrow> files option" where
  "chdir fl path c =
     do { (r, c) \<leftarrow> lookup fl path c;
          case r of None \<Rightarrow> None | Some a \<Rightarrow> on_fs (inode_decrease_counter a) c }"

record stat =
  st_ino :: u16
  st_mode :: u16
  st_uid :: u16
  st_gid :: u16
  st_size :: u32
  st_atime :: u32
  st_mtime :: u32
  st_ctime :: u32

definition stat_file :: "(fs \<Rightarrow> fs option) \<Rightarrow> string \<Rightarrow> stat \<Rightarrow> files \<Rightarrow> (u32 \<times> stat \<times> files) option" where
  "stat_file fl pathname x c =
     do { (r, c) \<leftarrow> lookup fl pathname c;
          case r of
            None \<Rightarrow> Some (-1, x, c)
          | Some a \<Rightarrow>
              do { i \<leftarrow> inodes (fsys c) a;
                   c \<leftarrow> on_fs (inode_decrease_counter a) c;
                   Some (0, \<lparr>st_ino = i_number i, st_mode = i_mode i, st_uid = i_uid i, st_gid = i_gid i, st_size = i_size i,
                             st_atime = i_atime i, st_mtime = i_mtime i, st_ctime = i_ctime i\<rparr>, c) } }"

section \<open>Mounts\<close>

text \<open>A mount point is entered by the number of its inode; the table holds the inode object.\<close>

definition mount :: "(fs \<Rightarrow> fs option) \<Rightarrow> string \<Rightarrow> files \<Rightarrow> (u32 \<times> files) option" where
  "mount fl pathname c =
     do { (r, c) \<leftarrow> lookup fl pathname c;
          case r of
            None \<Rightarrow> Some (-1, c)
          | Some a \<Rightarrow>
              do { i \<leftarrow> inodes (fsys c) a;
                   t \<leftarrow> hashtable_put (mount_map c) (unat (i_number i)) a;
                   c \<leftarrow> on_fs (inode_decrease_counter a) (c\<lparr>mount_map := t\<rparr>);
                   Some (0, c) } }"

text \<open>The inode object is freed although the cache may still hold it.\<close>

definition umount :: "u32 \<Rightarrow> files \<Rightarrow> (u32 \<times> files) option" where
  "umount inode_number c =
     do { (r, t) \<leftarrow> hashtable_remove (mount_map c) (unat inode_number);
          let c = c\<lparr>mount_map := t\<rparr>;
          case r of
            None \<Rightarrow> Some (-1, c)
          | Some a \<Rightarrow> (if inodes (fsys c) a = None then None
                       else Some (0, c\<lparr>fsys := (fsys c)\<lparr>inodes := (inodes (fsys c))(a := None)\<rparr>\<rparr>)) }"

section \<open>Program loader\<close>

record elf_file =
  elf_fd :: u32
  elf_offset :: u32
  elf_size :: u32

text \<open>
  Headers are the bytes read into fresh memory: a short read leaves the rest, \<open>junk\<close>, as it was. The
  structures have 52 and 32 bytes.
\<close>

definition read_struct :: "nat \<Rightarrow> u8 list \<Rightarrow> u8 list \<Rightarrow> u32 \<Rightarrow> files \<Rightarrow> (u8 list \<times> files) option" where
  "read_struct n iob junk fd c = do { (_, d, c) \<leftarrow> read_file iob fd (of_nat n) False c; Some (put_bytes 0 d junk, c) }"

fun find_segment :: "u8 list \<Rightarrow> (nat \<Rightarrow> u8 list) \<Rightarrow> u32 \<Rightarrow> nat \<Rightarrow> nat \<Rightarrow> files \<Rightarrow> ((u32 \<times> u32) option \<times> files) option" where
  "find_segment iob junk fd i 0 c = Some (None, c)"
| "find_segment iob junk fd i (Suc n) c =
     do { (h, c) \<leftarrow> read_struct 32 iob (junk i) fd c;
          if READ_DWORD h 0 = 1 then Some (Some (READ_DWORD h 4, READ_DWORD h 20), c)
          else find_segment iob junk fd (i + 1) n c }"

text \<open>The result of \<open>_stat\<close> is not looked at; \<open>x\<close> is the fresh memory it may leave unset.\<close>

definition elf_loader_init ::
  "(fs \<Rightarrow> fs option) \<Rightarrow> u8 list \<Rightarrow> u8 list \<Rightarrow> (nat \<Rightarrow> u8 list) \<Rightarrow> stat \<Rightarrow> string \<Rightarrow> elf_file \<Rightarrow> files \<Rightarrow> (u32 \<times> elf_file \<times> files) option" where
  "elf_loader_init fl iob header prg x path e c =
     do { let e = e\<lparr>elf_fd := -1\<rparr>;
          (_, x, c) \<leftarrow> stat_file fl path x c;
          if st_mode x AND 0x8000 \<noteq> 0x8000 then Some (-1, e, c)
          else do { (fd, c) \<leftarrow> open_file fl 0 path (O_RDWR OR O_APPEND) c;
                    if fd = -1 then Some (-1, e, c)
                    else do { (h, c) \<leftarrow> read_struct 52 iob header fd c;
                              (_, c) \<leftarrow> seek_file fd (READ_DWORD h 28) 0 c;
                              (r, c) \<leftarrow> find_segment iob prg fd 0 (unat (READ_WORD h 44)) c;
                              case r of
                                None \<Rightarrow> Some (-1, e, c)
                              | Some (off, n) \<Rightarrow> Some (0, e\<lparr>elf_fd := fd, elf_offset := off, elf_size := n\<rparr>, c) } } }"

definition elf_loader_free :: "(fs \<Rightarrow> fs option) \<Rightarrow> elf_file \<Rightarrow> files \<Rightarrow> files option" where
  "elf_loader_free fl e c =
     (if elf_fd e \<noteq> -1 then do { (_, c) \<leftarrow> close_file fl (elf_fd e) c; Some c } else Some c)"

text \<open>The page of a fault: what is read, the new contents of the page \<open>page\<close>.\<close>

definition elf_loader_read :: "u8 list \<Rightarrow> elf_file \<Rightarrow> u32 \<Rightarrow> u8 list \<Rightarrow> files \<Rightarrow> (u8 list \<times> files) option" where
  "elf_loader_read iob e fault_addr page c =
     do { let offset = (fault_addr AND NOT 0xFFF) - 0x100000 + elf_offset e;
          (_, c) \<leftarrow> seek_file (elf_fd e) offset 0 c;
          (_, d, c) \<leftarrow> read_file iob (elf_fd e) 0x1000 False c;
          Some (put_bytes 0 d page, c) }"

end
