(* ===== verification/Ext2_Entries.thy ===== *)
theory Ext2_Entries
  imports Ext2_File Ext2_Bytes
begin

text \<open>
  A directory block is a chain of entries, each with the number of an inode, its length and a
  name. As a specification it is the list of these, searched from the front. The searches of the
  source find what the list says and end; entering a name appends to the list and removing an
  inode takes its entry out.
\<close>

type_synonym entry = "u32 \<times> nat \<times> u8 list"

section \<open>Chains\<close>

text \<open>The entries of \<open>b\<close> from offset \<open>e\<close> to offset \<open>f\<close>.\<close>

fun links :: "u8 list \<Rightarrow> nat \<Rightarrow> entry list \<Rightarrow> nat \<Rightarrow> bool" where
  "links b e [] f = (e = f)"
| "links b e ((n, len, name) # xs) f =
     (READ_DWORD b e = n \<and> unat (READ_WORD b (e + 4)) = len \<and> unat (READ_BYTE b (e + 6)) = length name \<and>
      get_bytes (e + 8) (length name) b = name \<and> 8 + length name \<le> len \<and> e + len \<le> BLOCK_SIZE \<and> links b (e + len) xs f)"

definition chain :: "u8 list \<Rightarrow> entry list \<Rightarrow> bool" where
  "chain b xs = (length b = BLOCK_SIZE \<and> links b 0 xs BLOCK_SIZE)"

definition dir_lookup :: "string \<Rightarrow> entry list \<Rightarrow> u32 option" where
  "dir_lookup cs xs = map_option fst (find (\<lambda>(n, _, name). n \<noteq> 0 \<and> name = map of_char cs) xs)"

definition dir_size :: "entry list \<Rightarrow> nat" where
  "dir_size xs = sum_list (map (\<lambda>(_, len, _). len) xs)"

lemma dir_size_simps [simp]:
  "dir_size [] = 0" "dir_size ((n, len, name) # xs) = len + dir_size xs" "dir_size (xs @ ys) = dir_size xs + dir_size ys"
  by (simp_all add: dir_size_def)

text \<open>A comparison with a name of \<open>k\<close> characters stays inside the block for every entry.\<close>

fun room :: "nat \<Rightarrow> nat \<Rightarrow> entry list \<Rightarrow> bool" where
  "room k e [] = True"
| "room k e ((_, len, _) # xs) = (e + 8 + k \<le> BLOCK_SIZE \<and> room k (e + len) xs)"

lemma links_end: "links b e xs f \<Longrightarrow> f = e + dir_size xs"
  by (induction b e xs f rule: links.induct) auto

lemma entries_append: "links b e (xs @ ys) f = (links b e xs (e + dir_size xs) \<and> links b (e + dir_size xs) ys f)"
  by (induction b e xs f rule: links.induct) (auto simp: ac_simps)

lemma room_append: "room k e (xs @ ys) = (room k e xs \<and> room k (e + dir_size xs) ys)"
  by (induction k e xs rule: room.induct) (auto simp: ac_simps)

lemma get_bytes_cong:
  "length c = length b \<Longrightarrow> (\<And>k. i \<le> k \<Longrightarrow> k < i + n \<Longrightarrow> k < length b \<Longrightarrow> c ! k = b ! k) \<Longrightarrow> get_bytes i n c = get_bytes i n b"
  by (intro nth_equalityI) (auto simp: get_bytes_def)

text \<open>Entries depend only on the bytes they occupy.\<close>

lemma links_cong:
  assumes "links b e xs f" and "length c = length b" and "length b = BLOCK_SIZE" and "\<And>k. e \<le> k \<Longrightarrow> k < f \<Longrightarrow> c ! k = b ! k"
  shows "links c e xs f"
  using assms
proof (induction b e xs f rule: links.induct)
  case (2 b e n len name xs f)
  have f: "f = e + len + dir_size xs" using links_end [OF "2.prems"(1)] by simp
  have same: "get_bytes i m c = get_bytes i m b" if "e \<le> i" "i + m \<le> e + len" for i m
    using "2.prems"(2,4) f that by (intro get_bytes_cong) auto
  have "c ! (e + 6) = b ! (e + 6)" using "2.prems"(1,4) f by auto
  moreover have "get_bytes e 4 c = get_bytes e 4 b" "get_bytes (e + 4) 2 c = get_bytes (e + 4) 2 b"
    "get_bytes (e + 8) (length name) c = get_bytes (e + 8) (length name) b"
    using same [of e 4] same [of "e + 4" 2] same [of "e + 8" "length name"] "2.prems"(1) by auto
  moreover have "links c (e + len) xs f" using 2 f by auto
  ultimately show ?case using "2.prems"(1) by (simp add: READ_DWORD_def READ_WORD_def READ_BYTE_def)
qed simp

section \<open>Search\<close>

lemma same_prefix_eq:
  "length cs \<le> length b \<Longrightarrow> same_prefix cs b = Some (take (length cs) b = map of_char cs)"
  by (induction cs b rule: same_prefix.induct) auto

lemma entry_at_links:
  assumes "links b e ((n, len, name) # xs) f" and "length b = BLOCK_SIZE"
  shows "entry_at b e = Some (n, len, length name, READ_BYTE b (e + 7))"
proof -
  have "e + 8 \<le> length b" using assms by auto
  then show ?thesis using assms(1) by (simp add: entry_at_def)
qed

lemma find_entry_links:
  assumes "links b e xs BLOCK_SIZE" and "length b = BLOCK_SIZE" and "room (length cs) e xs" and "cs \<noteq> []"
  shows "find_entry cs b e = Some (dir_lookup cs xs)"
  using assms(1,3)
proof (induction xs arbitrary: e)
  case Nil
  then show ?case by (simp add: find_entry.simps dir_lookup_def)
next
  case (Cons x xs)
  obtain n len name where x: "x = (n, len, name)" by (cases x)
  have l: "links b e ((n, len, name) # xs) BLOCK_SIZE" using Cons.prems(1) x by simp
  then have e: "e < BLOCK_SIZE" "get_bytes (e + 8) (length name) b = name" by auto
  have fits: "length cs \<le> length (drop (e + 8) b)" using Cons.prems(2) assms(2) x by auto
  have "(take (length cs) (drop (e + 8) b) = map of_char cs \<and> length name = length cs) = (name = map of_char cs)"
    using e(2) by (auto simp: get_bytes_def)
  then have eq: "strncmp_eq cs (drop (e + 8) b) = Some q \<Longrightarrow> (q \<and> length name = length cs) = (name = map of_char cs)" for q
    using same_prefix_eq [OF fits] assms(4) by (auto simp: strncmp_eq_def)
  obtain q where q: "strncmp_eq cs (drop (e + 8) b) = Some q" using same_prefix_eq [OF fits] assms(4) by (simp add: strncmp_eq_def)
  have ih: "find_entry cs b (e + len) = Some (dir_lookup cs xs)" using Cons.IH [of "e + len"] l Cons.prems(2) x by simp
  show ?case
    using entry_at_links [OF l assms(2)] e(1) q eq [OF q] ih
    by (subst find_entry.simps) (auto simp: x dir_lookup_def)
qed

section \<open>Insertion\<close>

lemma find_space_links:
  assumes "links b e (xs @ [(n0, len0, name0)]) BLOCK_SIZE" and "length b = BLOCK_SIZE"
    and "e' = e + dir_size xs" and "new = e' + 8 + length name0 + ENTRY_PAD (e' + 8 + length name0)"
  shows "find_space len b e = Some (if len \<le> unat ((1024 :: u32) - of_nat new) then Some (e', new) else None)"
  using assms(1,3)
proof (induction xs arbitrary: e)
  case Nil
  then show ?case using entry_at_links [of b e n0 len0 name0 "[]" BLOCK_SIZE] assms(2,4)
    by (subst find_space.simps) (auto simp: Let_def)
next
  case (Cons x xs)
  obtain n l name where x: "x = (n, l, name)" by (cases x)
  have lk: "links b e ((n, l, name) # xs @ [(n0, len0, name0)]) BLOCK_SIZE" using Cons.prems(1) x by simp
  have "8 \<le> len0" using lk by (auto simp: entries_append)
  then have "e + l \<noteq> BLOCK_SIZE" using links_end [OF lk] by auto
  moreover have "find_space len b (e + l) = Some (if len \<le> unat ((1024 :: u32) - of_nat new) then Some (e', new) else None)"
    using Cons.IH [of "e + l"] lk Cons.prems(2) x by simp
  ultimately show ?case using entry_at_links [OF lk assms(2)]
    by (subst find_space.simps) (simp add: Let_def)
qed

lemma READ_put_inside:
  assumes "j + length v \<le> length b"
  shows "k + 4 \<le> length v \<Longrightarrow> READ_DWORD (put_bytes j v b) (j + k) = READ_DWORD v k"
    and "k + 2 \<le> length v \<Longrightarrow> READ_WORD (put_bytes j v b) (j + k) = READ_WORD v k"
    and "k < length v \<Longrightarrow> READ_BYTE (put_bytes j v b) (j + k) = v ! k"
  using assms get_put_inside [of j v b "j + k" 4] get_put_inside [of j v b "j + k" 2]
  by (auto simp: READ_DWORD_def READ_WORD_def READ_BYTE_def nth_put_bytes)

lemma length_entry_bytes [simp]: "length (entry_bytes n len name ft) = 8 + length name"
  by (simp add: entry_bytes_def)

lemma entry_bytes_fields:
  assumes "len \<le> 1024" and "length name < 256"
  shows "READ_DWORD (entry_bytes n len name ft) 0 = n" "unat (READ_WORD (entry_bytes n len name ft) 4) = len"
    "unat (entry_bytes n len name ft ! 6) = length name"
    "get_bytes 8 (length name) (entry_bytes n len name ft) = map of_char name"
proof -
  show "READ_DWORD (entry_bytes n len name ft) 0 = n" by (simp add: entry_bytes_def fields)
  show "unat (READ_WORD (entry_bytes n len name ft) 4) = len"
    using assms by (simp add: entry_bytes_def fields unat_of_nat take_bit_nat_eq_self_iff)
  show "unat (entry_bytes n len name ft ! 6) = length name"
    using assms by (simp add: entry_bytes_def nth_append unat_of_nat take_bit_nat_eq_self_iff)
  show "get_bytes 8 (length name) (entry_bytes n len name ft) = map of_char name" by (simp add: entry_bytes_def fields)
qed

lemma unat_u16: "k < 65536 \<Longrightarrow> unat (of_nat k :: u16) = k"
  by (simp add: unat_of_nat take_bit_nat_eq_self_iff)

text \<open>An entry written behind the last one shortens that one and becomes the last.\<close>

lemma insert_entry_links:
  assumes "links b 0 (xs @ [(n0, len0, name0)]) BLOCK_SIZE" and b: "length b = BLOCK_SIZE" and e: "e = dir_size xs"
    and new: "e + 8 + length name0 \<le> new" "new + 8 + length name \<le> BLOCK_SIZE" and name: "length name < 256"
  shows "\<exists>c. insert_entry e new n name ft b = Some c \<and>
    chain c (xs @ [(n0, new - e, name0), (n, BLOCK_SIZE - new, map of_char name)])"
proof -
  let ?m = "WRITE_WORD (of_nat (new - e)) (e + 4) b"
  let ?v = "entry_bytes n (BLOCK_SIZE - new) name ft"
  let ?c = "put_bytes new ?v ?m"
  have first: "links b 0 xs e" "links b e [(n0, len0, name0)] BLOCK_SIZE"
    using assms(1) by (simp_all add: entries_append e)
  have m: "length ?m = BLOCK_SIZE" using b new by (simp add: WRITE_WORD_def)
  have c: "length ?c = BLOCK_SIZE" and fits: "new + length ?v \<le> length ?m" using m new by simp_all
  have nth: "?c ! k = b ! k" if "k < new" "k < e + 4 \<or> e + 6 \<le> k" for k
    using that m new b by (auto simp: nth_put_bytes WRITE_WORD_def)
  have "links ?c 0 xs e" using links_cong [OF first(1), of ?c] c b new nth by simp
  moreover have "links ?c e [(n0, new - e, name0)] new"
  proof -
    have "get_bytes e 4 ?c = get_bytes e 4 b" "get_bytes (e + 8) (length name0) ?c = get_bytes (e + 8) (length name0) b"
      using c b new nth by (auto intro!: get_bytes_cong)
    moreover have "?c ! (e + 6) = b ! (e + 6)" using nth new by simp
    moreover have "READ_WORD ?c (e + 4) = of_nat (new - e)"
      using get_put_other [of new ?v ?m "e + 4" 2] m new fits
      by (simp add: READ_WORD_def) (simp add: WRITE_WORD_def get_put_same b)
    moreover have "unat (of_nat (new - e) :: u16) = new - e" using new by (intro unat_u16) (simp add: BLOCK_SIZE_def)
    ultimately show ?thesis using first(2) new by (simp add: READ_DWORD_def READ_BYTE_def)
  qed
  moreover have "links ?c new [(n, BLOCK_SIZE - new, map of_char name)] BLOCK_SIZE"
  proof -
    have "get_bytes (new + 8) (length name) ?c = map of_char name"
      using get_put_inside [of new ?v ?m "new + 8" "length name"] fits entry_bytes_fields(4) [of "BLOCK_SIZE - new" name n ft] name
      by (simp add: BLOCK_SIZE_def)
    moreover have "READ_DWORD ?c new = n" using READ_put_inside(1) [OF fits, of 0] entry_bytes_fields(1) [OF _ name] by (simp add: BLOCK_SIZE_def)
    moreover have "unat (READ_WORD ?c (new + 4)) = BLOCK_SIZE - new"
      using READ_put_inside(2) [OF fits, of 4] entry_bytes_fields(2) [OF _ name] by (simp add: BLOCK_SIZE_def)
    moreover have "unat (READ_BYTE ?c (new + 6)) = length name"
      using READ_put_inside(3) [OF fits, of 6] entry_bytes_fields(3) [OF _ name] by (simp add: BLOCK_SIZE_def)
    ultimately show ?thesis using new by simp
  qed
  ultimately have "chain ?c (xs @ [(n0, new - e, name0), (n, BLOCK_SIZE - new, map of_char name)])"
    using c new e by (simp add: chain_def entries_append)
  then show ?thesis using new b by (simp add: insert_entry_def)
qed

section \<open>Removal\<close>

text \<open>The first entry with number \<open>n\<close> is found with the one before it.\<close>

lemma find_number_links:
  assumes "links b e (xs @ (n, len, name) # ys) BLOCK_SIZE" and "length b = BLOCK_SIZE" and "n \<notin> fst ` set xs"
  shows "find_number n b prev e =
    Some (Some (if xs = [] then prev else e + dir_size (butlast xs), e + dir_size xs))"
  using assms(1,3)
proof (induction xs arbitrary: e prev)
  case Nil
  then have "entry_at b e = Some (n, len, length name, READ_BYTE b (e + 7))" and "e < BLOCK_SIZE"
    using entry_at_links [of b e n len name ys BLOCK_SIZE] assms(2) by auto
  then show ?case by (subst find_number.simps) simp
next
  case (Cons x xs)
  obtain m l nm where x: "x = (m, l, nm)" by (cases x)
  have lk: "links b e ((m, l, nm) # xs @ (n, len, name) # ys) BLOCK_SIZE" using Cons.prems(1) x by simp
  then have e: "e < BLOCK_SIZE" by auto
  have "m \<noteq> n" using Cons.prems(2) x by auto
  moreover have "find_number n b e (e + l) = Some (Some (if xs = [] then e else e + l + dir_size (butlast xs), e + l + dir_size xs))"
    using Cons.IH [of "e + l" e] lk Cons.prems(2) by simp
  ultimately show ?case using entry_at_links [OF lk assms(2)] e x
    by (subst find_number.simps) (auto simp: ac_simps)
qed

lemma find_number_absent:
  assumes "links b e xs BLOCK_SIZE" and "length b = BLOCK_SIZE" and "n \<notin> fst ` set xs"
  shows "find_number n b prev e = Some None"
  using assms(1,3)
proof (induction xs arbitrary: e prev)
  case Nil
  then show ?case by (simp add: find_number.simps)
next
  case (Cons x xs)
  obtain m l nm where x: "x = (m, l, nm)" by (cases x)
  have lk: "links b e ((m, l, nm) # xs) BLOCK_SIZE" using Cons.prems(1) x by simp
  then have "e < BLOCK_SIZE" by auto
  then show ?case using entry_at_links [OF lk assms(2)] Cons.IH [of "e + l" e] lk Cons.prems(2) x
    by (subst find_number.simps) auto
qed

lemma unlink_first:
  assumes "chain b ((n, len, name) # ys)"
  shows "chain (unlink_entry prev 0 b) ((0, len, name) # ys)"
proof -
  let ?c = "put_bytes 0 (bytes32 0) b"
  have b: "length b = BLOCK_SIZE" and l: "links b 0 ((n, len, name) # ys) BLOCK_SIZE" using assms by (auto simp: chain_def)
  have c: "length ?c = length b" and nth: "?c ! k = b ! k" if "4 \<le> k" "k < BLOCK_SIZE" for k
    using that b by (simp_all add: BLOCK_SIZE_def nth_put_bytes)
  have lc: "length ?c = length b" using b by (simp add: BLOCK_SIZE_def)
  have "8 + length name \<le> len" "len \<le> BLOCK_SIZE" using l by auto
  then have "READ_DWORD ?c 0 = 0" "get_bytes 4 2 ?c = get_bytes 4 2 b" "?c ! 6 = b ! 6"
    "get_bytes 8 (length name) ?c = get_bytes 8 (length name) b" "links ?c len ys BLOCK_SIZE"
    using b lc nth l links_cong [of b len ys BLOCK_SIZE ?c] get_put_other [of 0 "bytes32 0" b 8 "length name"]
      get_put_other [of 0 "bytes32 0" b 4 2]
    by (auto simp: READ_DWORD_def get_put_same BLOCK_SIZE_def)
  then show ?thesis using l b lc by (simp add: unlink_entry_def chain_def WRITE_DWORD_def READ_WORD_def READ_BYTE_def)
qed

lemma unlink_other:
  assumes "chain b (xs @ (m, l, nm) # (n, len, name) # ys)"
  shows "chain (unlink_entry (dir_size xs) (dir_size xs + l) b) (xs @ (m, l + len, nm) # ys)"
proof -
  let ?p = "dir_size xs"
  let ?c = "put_bytes (?p + 4) (bytes16 (READ_WORD b (?p + 4) + READ_WORD b (?p + l + 4))) b"
  have b: "length b = BLOCK_SIZE" and first: "links b 0 xs ?p"
    and mid: "links b ?p ((m, l, nm) # (n, len, name) # ys) BLOCK_SIZE"
    using assms by (simp_all add: chain_def entries_append)
  have bounds: "8 + length nm \<le> l" "?p + l + len \<le> BLOCK_SIZE" "8 \<le> len" using mid by auto
  have lc: "length ?c = length b" using b bounds by simp
  have nth: "?c ! k = b ! k" if "k < ?p + 4 \<or> ?p + 6 \<le> k" "k < BLOCK_SIZE" for k
    using that b bounds by (auto simp: nth_put_bytes)
  have wl: "unat (READ_WORD b (?p + 4)) = l" "unat (READ_WORD b (?p + l + 4)) = len" using mid by auto
  have "unat (READ_WORD b (?p + 4) + READ_WORD b (?p + l + 4)) = l + len"
    using bounds by (simp add: unat_word_ariths wl BLOCK_SIZE_def)
  then have "unat (READ_WORD ?c (?p + 4)) = l + len" using b bounds by (simp add: READ_WORD_def get_put_same)
  moreover have "get_bytes ?p 4 ?c = get_bytes ?p 4 b" "get_bytes (?p + 8) (length nm) ?c = get_bytes (?p + 8) (length nm) b"
    "?c ! (?p + 6) = b ! (?p + 6)"
    using b lc nth bounds by (auto intro!: get_bytes_cong)
  moreover have "links ?c (?p + l + len) ys BLOCK_SIZE" "links ?c 0 xs ?p"
    using links_cong [of b "?p + l + len" ys BLOCK_SIZE ?c] links_cong [OF first, of ?c] mid b lc nth bounds by auto
  ultimately show ?thesis using mid b lc bounds
    by (simp add: unlink_entry_def chain_def entries_append WRITE_WORD_def READ_DWORD_def READ_BYTE_def ac_simps)
qed

section \<open>Directories of several blocks\<close>

text \<open>Blocks that lie on the disk, where addresses do not wrap around.\<close>

definition on_disk :: "fs \<Rightarrow> u32 \<Rightarrow> bool" where
  "on_disk s blk = (unat blk * 1024 < 2 ^ 32 \<and> unat (partition_start_sector s) + 2 * unat blk < 2 ^ 32)"

lemma unat_block_lba:
  assumes "on_disk s blk"
  shows "unat (FROM_BLOCK_TO_LBA blk s) = unat (partition_start_sector s) + 2 * unat blk"
proof -
  have "unat blk * 1024 mod 2 ^ 32 = unat blk * 1024" using assms unfolding on_disk_def by (metis mod_less)
  then have "unat (blk * 1024 div 512) = 2 * unat blk" by (simp add: unat_div unat_word_ariths)
  then show ?thesis using assms by (simp add: FROM_BLOCK_TO_LBA_def on_disk_def unat_word_ariths)
qed

lemma length_READ_BLOCK [simp]: "length (READ_BLOCK blk s) = BLOCK_SIZE"
  by (simp add: READ_BLOCK_def BLOCK_SIZE_def SECTOR_SIZE_def)

lemma READ_WRITE_BLOCK_same: "length b = BLOCK_SIZE \<Longrightarrow> READ_BLOCK blk (WRITE_BLOCK blk b s) = b"
  using READ_WRITE_DISK_same [of b 2 "FROM_BLOCK_TO_LBA blk s" s]
  by (simp add: READ_BLOCK_def WRITE_BLOCK_def FROM_BLOCK_TO_LBA_def BLOCK_SIZE_def SECTOR_SIZE_def WRITE_DISK_def)

lemma READ_WRITE_BLOCK_other:
  assumes "on_disk s x" and "on_disk s blk" and "x \<noteq> blk"
  shows "READ_BLOCK x (WRITE_BLOCK blk b s) = READ_BLOCK x s"
proof -
  have "unat x \<noteq> unat blk" using assms(3) by (simp add: word_unat_eq_iff)
  then have "READ_DISK 2 (FROM_BLOCK_TO_LBA x s) (WRITE_DISK 2 (FROM_BLOCK_TO_LBA blk s) b s) = READ_DISK 2 (FROM_BLOCK_TO_LBA x s) s"
    by (intro READ_WRITE_DISK_other) (auto simp: unat_block_lba [OF assms(1)] unat_block_lba [OF assms(2)])
  then show ?thesis by (simp add: READ_BLOCK_def WRITE_BLOCK_def FROM_BLOCK_TO_LBA_def WRITE_DISK_def)
qed

definition dir_holds :: "fs \<Rightarrow> u32 list \<Rightarrow> entry list list \<Rightarrow> bool" where
  "dir_holds s blks vs = (list_all2 (\<lambda>blk v. chain (READ_BLOCK blk s) v) blks vs \<and> distinct blks \<and> list_all (on_disk s) blks)"

definition rooms :: "nat \<Rightarrow> entry list list \<Rightarrow> bool" where
  "rooms k vs = list_all (room k 0) vs"

lemma dir_lookup_append:
  "dir_lookup cs (xs @ ys) = (case dir_lookup cs xs of None \<Rightarrow> dir_lookup cs ys | Some n \<Rightarrow> Some n)"
  by (induction xs) (auto simp: dir_lookup_def)

lemma of_char_u8_inj: "(of_char c :: u8) = of_char d \<Longrightarrow> c = d"
proof (cases c, cases d)
  fix b0 b1 b2 b3 b4 b5 b6 b7 c0 c1 c2 c3 c4 c5 c6 c7
  assume cd: "c = Char b0 b1 b2 b3 b4 b5 b6 b7" "d = Char c0 c1 c2 c3 c4 c5 c6 c7" and eq: "(of_char c :: u8) = of_char d"
  have "bit (of_char c :: u8) k = [b0, b1, b2, b3, b4, b5, b6, b7] ! k" "bit (of_char d :: u8) k = [c0, c1, c2, c3, c4, c5, c6, c7] ! k"
    if "k < 8" for k
    using that by (simp_all add: cd bit_horner_sum_bit_iff del: horner_sum_simps)
  then have "\<forall>k<8. [b0, b1, b2, b3, b4, b5, b6, b7] ! k = [c0, c1, c2, c3, c4, c5, c6, c7] ! k" using eq by metis
  then have "[b0, b1, b2, b3, b4, b5, b6, b7] = [c0, c1, c2, c3, c4, c5, c6, c7]" by (intro nth_equalityI) simp_all
  then show "c = d" by (simp add: cd)
qed

lemma map_of_char_eq: "(map of_char cs = (map of_char ds :: u8 list)) = (cs = ds)"
  using inj_map_eq_map [of "of_char :: char \<Rightarrow> u8"] of_char_u8_inj by (auto simp: inj_def)

lemma dir_lookup_single: "n \<noteq> 0 \<Longrightarrow> dir_lookup cs [(n, l, map of_char name)] = (if cs = name then Some n else None)"
  by (auto simp: dir_lookup_def map_of_char_eq)

lemma find_in_blocks_chains:
  assumes "list_all2 (\<lambda>blk v. chain (READ_BLOCK blk s) v) blks vs" and "rooms (length cs) vs" and "cs \<noteq> []"
  shows "find_in_blocks cs blks s = Some (dir_lookup cs (concat vs))"
  using assms(1,2)
proof (induction blks vs rule: list_all2_induct)
  case Nil
  then show ?case by (simp add: dir_lookup_def)
next
  case (Cons blk blks v vs)
  then show ?case using find_entry_links [of "READ_BLOCK blk s" 0 v cs] assms(3)
    by (auto simp: chain_def rooms_def dir_lookup_append split: option.splits)
qed

lemma dir_holds_write:
  assumes "dir_holds s (xs @ blk # ys) (us @ v # ws)" and "length us = length xs" and "chain b v'"
  shows "dir_holds (WRITE_BLOCK blk b s) (xs @ blk # ys) (us @ v' # ws)"
proof -
  have h: "list_all2 (\<lambda>x v. chain (READ_BLOCK x s) v) xs us" "list_all2 (\<lambda>x v. chain (READ_BLOCK x s) v) ys ws"
    "distinct (xs @ blk # ys)" "list_all (on_disk s) (xs @ blk # ys)"
    using assms(1,2) by (auto simp: dir_holds_def list_all2_append)
  have other: "READ_BLOCK x (WRITE_BLOCK blk b s) = READ_BLOCK x s" if "x \<in> set xs \<union> set ys" for x
    using that h(3,4) by (intro READ_WRITE_BLOCK_other) (auto simp: list_all_iff)
  have "on_disk (WRITE_BLOCK blk b s) = on_disk s" by (auto simp: on_disk_def WRITE_BLOCK_def WRITE_DISK_def)
  moreover have "list_all2 (\<lambda>x v. chain (READ_BLOCK x (WRITE_BLOCK blk b s)) v) xs us"
    using h(1) by (rule list.rel_mono_strong) (simp add: other)
  moreover have "list_all2 (\<lambda>x v. chain (READ_BLOCK x (WRITE_BLOCK blk b s)) v) ys ws"
    using h(2) by (rule list.rel_mono_strong) (simp add: other)
  moreover have "READ_BLOCK blk (WRITE_BLOCK blk b s) = b" using assms(3) by (intro READ_WRITE_BLOCK_same) (simp add: chain_def)
  ultimately show ?thesis using h(3,4) assms(2,3) by (simp add: dir_holds_def list_all2_append)
qed

lemma add_entry_appends:
  assumes "inodes s dir = Some p" and "length (i_block p) = 15" and k: "0 < dir_blocks 13 p" "dir_blocks 13 p \<le> 12"
    and holds: "dir_holds s (take (dir_blocks 13 p) (i_block p)) (us @ [xs @ [(n0, len0, name0)]])"
    and e: "e = dir_size xs" and new: "new = e + 8 + length name0 + ENTRY_PAD (e + 8 + length name0)"
    and fits: "new + 8 + length name + ENTRY_PAD (8 + length name) \<le> BLOCK_SIZE" and "length name < 256"
  shows "\<exists>t. add_entry_to_dir fl name dir n FILE s = Some (0, t) \<and> inodes t = inodes s \<and>
    dir_holds t (take (dir_blocks 13 p) (i_block p)) (us @ [xs @ [(n0, new - e, name0), (n, BLOCK_SIZE - new, map of_char name)]])"
proof -
  let ?k = "dir_blocks 13 p"
  let ?blk = "i_block p ! (?k - 1)"
  let ?b = "READ_BLOCK ?blk s"
  have blks: "take ?k (i_block p) = take (?k - 1) (i_block p) @ [?blk]"
    using k assms(2) take_Suc_conv_app_nth [of "?k - 1" "i_block p"] by simp
  have len: "length us = length (take (?k - 1) (i_block p))"
  proof -
    have "length (take ?k (i_block p)) = length (us @ [xs @ [(n0, len0, name0)]])"
      using holds unfolding dir_holds_def by (blast dest: list_all2_lengthD)
    then show ?thesis using k assms(2) by simp
  qed
  have b: "length ?b = BLOCK_SIZE" "links ?b 0 (xs @ [(n0, len0, name0)]) BLOCK_SIZE"
    using holds len by (simp_all add: dir_holds_def blks list_all2_append chain_def)
  have "unat ((1024 :: u32) - of_nat new) = 1024 - new"
    using fits by (simp add: BLOCK_SIZE_def unat_sub word_le_nat_alt unat_of_nat take_bit_nat_eq_self_iff)
  then have space: "find_space (8 + length name + ENTRY_PAD (8 + length name)) ?b 0 = Some (Some (e, new))"
    using find_space_links [OF b(2,1), of e new] e new fits by (simp add: BLOCK_SIZE_def)
  obtain c where c: "insert_entry e new n name FILE ?b = Some c"
    "chain c (xs @ [(n0, new - e, name0), (n, BLOCK_SIZE - new, map of_char name)])"
    using insert_entry_links [OF b(2,1) e, of new name n FILE] new fits assms(9) by auto
  have "add_entry_to_dir fl name dir n FILE s = Some (0, WRITE_BLOCK ?blk c s)"
    using assms(1) k space c(1) by (simp add: add_entry_to_dir_def Let_def link_parent_def FILE_def DIRECTORY_def)
  moreover have "dir_holds (WRITE_BLOCK ?blk c s) (take ?k (i_block p))
      (us @ [xs @ [(n0, new - e, name0), (n, BLOCK_SIZE - new, map of_char name)]])"
    using dir_holds_write [of s "take (?k - 1) (i_block p)" ?blk "[]" us "xs @ [(n0, len0, name0)]" "[]", OF _ len c(2)] holds
    by (simp add: blks)
  ultimately show ?thesis by (simp add: WRITE_BLOCK_def WRITE_DISK_def)
qed

text \<open>The specification of removal: the first entry with the number goes.\<close>

fun remove_number :: "u32 \<Rightarrow> entry list \<Rightarrow> entry list" where
  "remove_number n [] = []"
| "remove_number n ((m, len, name) # xs) = (if m = n then xs else (m, len, name) # remove_number n xs)"

lemma remove_number_first: "n \<notin> fst ` set xs \<Longrightarrow> remove_number n (xs @ (n, len, name) # ys) = xs @ ys"
  by (induction n xs rule: remove_number.induct) auto

lemma dir_lookup_cong:
  "dir_lookup cs (xs @ (m, l, nm) # ys) = dir_lookup cs (xs @ (m, l', nm) # ys)"
  "dir_lookup cs (xs @ (0, l, nm) # ys) = dir_lookup cs (xs @ ys)"
  by (induction xs) (auto simp: dir_lookup_def)

lemma room_mono: "room k e xs \<Longrightarrow> e' \<le> e \<Longrightarrow> room k e' xs"
  by (induction k e xs arbitrary: e' rule: room.induct) auto

text \<open>Removal in the block that holds the entry.\<close>

lemma unlink_block:
  assumes "chain b (xs @ (n, len, name) # ys)" and "n \<notin> fst ` set xs"
  shows "\<exists>prev e v. find_number n b 0 0 = Some (Some (prev, e)) \<and> chain (unlink_entry prev e b) v \<and>
    (\<forall>cs us ws. dir_lookup cs (us @ v @ ws) = dir_lookup cs (us @ xs @ ys @ ws)) \<and>
    (\<forall>k. room k 0 (xs @ (n, len, name) # ys) \<longrightarrow> room k 0 v)"
proof (cases xs rule: rev_cases)
  case Nil
  have "find_number n b 0 0 = Some (Some (0, 0))"
    using find_number_links [of b 0 "[]" n len name ys 0] assms(1) Nil by (simp add: chain_def)
  moreover have "chain (unlink_entry 0 0 b) ((0, len, name) # ys)" using unlink_first [of b n len name ys 0] assms(1) Nil by simp
  ultimately show ?thesis using dir_lookup_cong(2) [of _ _ len name] Nil
    by (intro exI [of _ "0 :: nat"] exI [of _ "(0, len, name) # ys"]) simp
next
  case (snoc zs x)
  obtain m l nm where x: "x = (m, l, nm)" by (cases x)
  have xs: "xs = zs @ [(m, l, nm)]" using snoc x by simp
  have l: "links b 0 (xs @ (n, len, name) # ys) BLOCK_SIZE" "length b = BLOCK_SIZE" using assms(1) by (auto simp: chain_def)
  have "find_number n b 0 0 = Some (Some (dir_size zs, dir_size zs + l))"
    using find_number_links [OF l assms(2), of 0] by (simp add: xs)
  moreover have "chain (unlink_entry (dir_size zs) (dir_size zs + l) b) (zs @ (m, l + len, nm) # ys)"
    using unlink_other [of b zs m l nm n len name ys] assms(1) by (simp add: xs)
  moreover have "dir_lookup cs (us @ (zs @ (m, l + len, nm) # ys) @ ws) = dir_lookup cs (us @ xs @ ys @ ws)" for cs us ws
    using dir_lookup_cong(1) [of cs "us @ zs" m "l + len" nm "ys @ ws" l] by (simp add: xs)
  moreover have "room k 0 (xs @ (n, len, name) # ys) \<longrightarrow> room k 0 (zs @ (m, l + len, nm) # ys)" for k
    by (auto simp: xs room_append ac_simps)
  ultimately show ?thesis by blast
qed

lemma unlink_skips:
  assumes "list_all2 (\<lambda>x v. chain (READ_BLOCK x s) v) xs us" and "n \<notin> fst ` set (concat us)"
  shows "unlink_in_blocks n (xs @ ys) s = unlink_in_blocks n ys s"
  using assms
proof (induction xs us rule: list_all2_induct)
  case (Cons x xs v us)
  then have "find_number n (READ_BLOCK x s) 0 0 = Some None"
    by (intro find_number_absent [of _ _ v]) (auto simp: chain_def)
  moreover have "unlink_in_blocks n (xs @ ys) s = unlink_in_blocks n ys s" using Cons by (auto simp: image_Un)
  ultimately show ?case by (simp add: Let_def)
qed simp

lemma unlink_in_blocks_removes:
  assumes holds: "dir_holds s blks vs" and n: "n \<in> fst ` set (concat vs)"
  shows "\<exists>t vs'. unlink_in_blocks n blks s = Some (True, t) \<and> inodes t = inodes s \<and> dir_holds t blks vs' \<and>
    (\<forall>cs. dir_lookup cs (concat vs') = dir_lookup cs (remove_number n (concat vs))) \<and> (\<forall>k. rooms k vs \<longrightarrow> rooms k vs')"
proof -
  obtain us v ws where v: "vs = us @ v # ws" "n \<in> fst ` set v" "\<forall>u\<in>set us. n \<notin> fst ` set u"
  proof -
    have "\<exists>v\<in>set vs. n \<in> fst ` set v" using n by (auto simp: image_UN)
    then show ?thesis using that split_list_first_prop [of vs "\<lambda>v. n \<in> fst ` set v"] by blast
  qed
  obtain xs a ys where a: "v = xs @ a # ys" "fst a = n" "\<forall>x\<in>set xs. fst x \<noteq> n"
    using split_list_first_prop [of v "\<lambda>x. fst x = n"] v(2) by blast
  obtain len name where a': "a = (n, len, name)" using a(2) by (cases a) auto
  obtain ps blk qs where blks: "blks = ps @ blk # qs" "length ps = length us"
    using holds unfolding dir_holds_def v(1) list_all2_append2 list_all2_Cons2 by (metis list_all2_lengthD)
  have h: "list_all2 (\<lambda>x v. chain (READ_BLOCK x s) v) ps us" "chain (READ_BLOCK blk s) (xs @ (n, len, name) # ys)"
    using holds blks v(1) a(1) a' by (auto simp: dir_holds_def list_all2_append)
  have xs: "n \<notin> fst ` set xs" using a(3) by auto
  obtain prev e v' where e: "find_number n (READ_BLOCK blk s) 0 0 = Some (Some (prev, e))"
    "chain (unlink_entry prev e (READ_BLOCK blk s)) v'"
    "\<forall>cs us ws. dir_lookup cs (us @ v' @ ws) = dir_lookup cs (us @ xs @ ys @ ws)" "\<forall>k. room k 0 v \<longrightarrow> room k 0 v'"
    using unlink_block [OF h(2) xs] a(1) a' by auto
  let ?t = "WRITE_BLOCK blk (unlink_entry prev e (READ_BLOCK blk s)) s"
  have "unlink_in_blocks n blks s = Some (True, ?t)"
    using unlink_skips [OF h(1), of n "blk # qs"] v(3) e(1) blks(1) by (auto simp: Let_def)
  moreover have "dir_holds ?t blks (us @ v' # ws)"
    using dir_holds_write [of s ps blk qs us v ws, OF _ _ e(2)] holds blks v(1) by simp
  moreover have "remove_number n (concat vs) = concat us @ xs @ ys @ concat ws"
    using remove_number_first [of n "concat us @ xs" len name "ys @ concat ws"] v(1,3) a(1) a' xs by auto
  moreover have "\<forall>k. rooms k vs \<longrightarrow> rooms k (us @ v' # ws)" using e(4) v(1) by (auto simp: rooms_def)
  ultimately show ?thesis using e(3) by (intro exI [of _ ?t] exI [of _ "us @ v' # ws"]) (simp add: WRITE_BLOCK_def WRITE_DISK_def)
qed

section \<open>The block of a new directory\<close>

lemma ucast_split: "word32 [ucast (n :: u16), ucast (drop_bit 8 n), 0, 0] = ucast n"
  by (rule bit_word_eqI) (auto simp: word32_def bit_simps dest: bit_imp_le_length)

lemma dir_block_chain: "chain (dir_block n parent) [(ucast n, 12, [0x2E]), (ucast parent, 1012, [0x2E, 0x2E])]"
proof -
  let ?v = "[ucast n, ucast (drop_bit 8 n), 0, 0, 0xC, 0, 1, 2, 0x2E, 0, 0, 0,
    ucast parent, ucast (drop_bit 8 parent), 0, 0, 0xF4, 3, 2, 2, 0x2E, 0x2E, 0, 0 :: u8]"
  define b where "b = put_bytes 0 ?v (replicate BLOCK_SIZE 0)"
  have fits: "0 + length ?v \<le> length (replicate BLOCK_SIZE (0 :: u8))" by (simp add: BLOCK_SIZE_def)
  have r: "READ_DWORD b 0 = ucast n" "READ_DWORD b 12 = ucast parent" "READ_WORD b 4 = 12" "READ_WORD b 16 = 1012"
    "READ_BYTE b 6 = 1" "READ_BYTE b 18 = 2"
    using READ_put_inside(1) [OF fits, of 0] READ_put_inside(1) [OF fits, of 12] READ_put_inside(2) [OF fits, of 4]
      READ_put_inside(2) [OF fits, of 16] READ_put_inside(3) [OF fits, of 6] READ_put_inside(3) [OF fits, of 18]
    by (simp_all add: b_def READ_DWORD_def READ_WORD_def get_bytes_def ucast_split) (simp_all add: word16_def)
  have "get_bytes 8 1 b = [0x2E]" "get_bytes 20 (Suc (Suc 0)) b = [0x2E, 0x2E]"
    using get_put_inside [of 0 ?v "replicate BLOCK_SIZE 0" 8 1] get_put_inside [of 0 ?v "replicate BLOCK_SIZE 0" 20 "Suc (Suc 0)"] fits
    by (simp_all add: b_def get_bytes_def)
  moreover have "length b = BLOCK_SIZE" using length_put_bytes [OF fits] by (simp add: b_def)
  moreover have "dir_block n parent = b" by (simp add: dir_block_def b_def)
  moreover have "unat (READ_WORD b 4) = 12" "unat (READ_WORD b 16) = 1012" "unat (READ_BYTE b 6) = 1" "unat (READ_BYTE b 18) = 2"
    by (simp_all add: r)
  ultimately show ?thesis using r(1,2) by (simp add: chain_def BLOCK_SIZE_def)
qed

definition sample_dir :: fs where
  "sample_dir = (WRITE_BLOCK 100 (dir_block 2 2) sample_fs)\<lparr>inodes := [7 \<mapsto> (blank_inode 0)\<lparr>i_block := 100 # replicate 14 0\<rparr>]\<rparr>"

definition sample_view :: "entry list" where
  "sample_view = [(2, 12, [0x2E]), (2, 1012, [0x2E, 0x2E])]"

lemma sample_dir_holds: "dir_holds sample_dir [100] [sample_view]"
proof -
  have "length (dir_block 2 2) = BLOCK_SIZE" using dir_block_chain by (auto simp: chain_def)
  then have "READ_BLOCK 100 (WRITE_BLOCK 100 (dir_block 2 2) sample_fs) = dir_block 2 2" by (rule READ_WRITE_BLOCK_same)
  then have "READ_BLOCK 100 sample_dir = dir_block 2 2"
    by (simp add: sample_dir_def READ_BLOCK_def READ_DISK_def FROM_BLOCK_TO_LBA_def)
  then show ?thesis using dir_block_chain [of 2 2]
    by (simp add: dir_holds_def sample_view_def on_disk_def sample_dir_def WRITE_BLOCK_def WRITE_DISK_def sample_fs_def)
qed

section \<open>Properties\<close>

text \<open>C16: Entering a name in the last block of a directory: the name is then found with its inode,
  and every other name that the searches can reach is found or not found as before.\<close>

theorem add_entry_then_lookup:
  assumes "inodes s dir = Some p" and "length (i_block p) = 15" and "0 < dir_blocks 13 p" and "dir_blocks 13 p \<le> 12"
    and "dir_holds s (take (dir_blocks 13 p) (i_block p)) (us @ [xs @ [(n0, len0, name0)]])"
    and "e = dir_size xs" and "new = e + 8 + length name0 + ENTRY_PAD (e + 8 + length name0)"
    and "new + 8 + length name + ENTRY_PAD (8 + length name) \<le> BLOCK_SIZE" and "length name < 256" and "name \<noteq> []" and "n \<noteq> 0"
    and "dir_lookup name (concat (us @ [xs @ [(n0, len0, name0)]])) = None" and "rooms (length name) (us @ [xs @ [(n0, len0, name0)]])"
  shows "\<exists>t. add_entry_to_dir fl name dir n FILE s = Some (0, t) \<and> inodes t = inodes s \<and>
    find_in_blocks name (take (dir_blocks 13 p) (i_block p)) t = Some (Some n) \<and>
    (\<forall>cs. cs \<noteq> name \<and> cs \<noteq> [] \<and> rooms (length cs) (us @ [xs @ [(n0, len0, name0)]]) \<and> new + 8 + length cs \<le> BLOCK_SIZE
      \<longrightarrow> find_in_blocks cs (take (dir_blocks 13 p) (i_block p)) t = find_in_blocks cs (take (dir_blocks 13 p) (i_block p)) s)"
proof -
  let ?blks = "take (dir_blocks 13 p) (i_block p)"
  let ?vs = "us @ [xs @ [(n0, len0, name0)]]"
  let ?ws = "us @ [xs @ [(n0, new - e, name0), (n, BLOCK_SIZE - new, map of_char name)]]"
  obtain t where t: "add_entry_to_dir fl name dir n FILE s = Some (0, t)" "inodes t = inodes s" "dir_holds t ?blks ?ws"
    using add_entry_appends [OF assms(1-9)] by blast
  have rooms: "rooms (length cs) ?ws" if "rooms (length cs) ?vs" "new + 8 + length cs \<le> BLOCK_SIZE" for cs :: string
    using that assms(6,7) by (auto simp: rooms_def room_append)
  have new: "find_in_blocks cs ?blks t = Some (dir_lookup cs (concat ?ws))"
    if "rooms (length cs) ?vs" "new + 8 + length cs \<le> BLOCK_SIZE" "cs \<noteq> []" for cs
    using find_in_blocks_chains [of t ?blks ?ws cs] t(3) rooms that by (simp add: dir_holds_def)
  have old: "find_in_blocks cs ?blks s = Some (dir_lookup cs (concat ?vs))" if "rooms (length cs) ?vs" "cs \<noteq> []" for cs
    using find_in_blocks_chains [of s ?blks ?vs cs] assms(5) that by (simp add: dir_holds_def)
  have look: "dir_lookup cs (concat ?ws) = (case dir_lookup cs (concat ?vs) of None \<Rightarrow> if cs = name then Some n else None | Some m \<Rightarrow> Some m)" for cs
    using dir_lookup_append [of cs "concat us @ xs @ [(n0, len0, name0)]" "[(n, BLOCK_SIZE - new, map of_char name)]"]
      dir_lookup_cong(1) [of cs "concat us @ xs" n0 "new - e" name0 "[(n, BLOCK_SIZE - new, map of_char name)]" len0] assms(11)
    by (simp add: dir_lookup_single split: option.splits)
  have "find_in_blocks name ?blks t = Some (Some n)" using new [of name] look [of name] assms(8,10,12,13) by simp
  moreover have "find_in_blocks cs ?blks t = find_in_blocks cs ?blks s"
    if "cs \<noteq> name" "cs \<noteq> []" "rooms (length cs) ?vs" "new + 8 + length cs \<le> BLOCK_SIZE" for cs
    using new [of cs] old [of cs] look [of cs] that by (simp split: option.splits)
  ultimately show ?thesis using t(1,2) by blast
qed

theorem add_entry_then_lookup_witness:
  "\<exists>t. add_entry_to_dir Some ''a'' 7 11 FILE sample_dir = Some (0, t) \<and> find_in_blocks ''a'' [100] t = Some (Some 11) \<and>
     find_in_blocks ''..'' [100] t = find_in_blocks ''..'' [100] sample_dir"
proof -
  let ?p = "(blank_inode 0)\<lparr>i_block := 100 # replicate 14 0\<rparr>"
  let ?vs = "[] @ [[(2, 12, [0x2E])] @ [(2, 1012, [0x2E, 0x2E])]] :: entry list list"
  have blks: "dir_blocks 13 ?p = 1" "take (dir_blocks 13 ?p) (i_block ?p) = [100]" "length (i_block ?p) = 15"
    by (simp_all add: dir_blocks_def upt_rec)
  have holds: "dir_holds sample_dir (take (dir_blocks 13 ?p) (i_block ?p)) ?vs"
    using sample_dir_holds unfolding blks(2) by (simp add: sample_view_def)
  have rooms: "rooms (length ''a'') ?vs" "rooms (length ''..'') ?vs" by (simp_all add: rooms_def BLOCK_SIZE_def)
  have p: "inodes sample_dir 7 = Some ?p" by (simp add: sample_dir_def)
  have e: "12 = dir_size [(2, 12, [0x2E])]" "24 = 12 + 8 + length [0x2E, 0x2E :: u8] + ENTRY_PAD (12 + 8 + length [0x2E, 0x2E :: u8])"
    "24 + 8 + length ''a'' + ENTRY_PAD (8 + length ''a'') \<le> BLOCK_SIZE"
    by (simp_all add: ENTRY_PAD_def BLOCK_SIZE_def)
  have q: "0 < dir_blocks 13 ?p" "dir_blocks 13 ?p \<le> 12" "length ''a'' < 256" "''a'' \<noteq> []" "(11 :: u32) \<noteq> 0"
    by (simp_all add: blks(1))
  have l: "dir_lookup ''a'' (concat ?vs) = None" by (simp add: dir_lookup_def)
  obtain t where t: "add_entry_to_dir Some ''a'' 7 11 FILE sample_dir = Some (0, t)" "find_in_blocks ''a'' [100] t = Some (Some 11)"
    "\<forall>cs. cs \<noteq> ''a'' \<and> cs \<noteq> [] \<and> rooms (length cs) ?vs \<and> 24 + 8 + length cs \<le> BLOCK_SIZE
      \<longrightarrow> find_in_blocks cs [100] t = find_in_blocks cs [100] sample_dir"
    using add_entry_then_lookup [OF p blks(3) q(1,2) holds e q(3-5) l rooms(1), of Some] unfolding blks(2) by blast
  have "find_in_blocks ''..'' [100] t = find_in_blocks ''..'' [100] sample_dir"
    by (rule t(3) [rule_format]) (use rooms(2) in \<open>simp add: BLOCK_SIZE_def\<close>)
  then show ?thesis using t(1,2) by blast
qed

text \<open>C18: Removing the entry of an inode: the searches then find what the directory without that
  entry says.\<close>

theorem unlink_then_lookup:
  assumes "dir_holds s blks vs" and "n \<in> fst ` set (concat vs)"
  shows "\<exists>t. unlink_in_blocks n blks s = Some (True, t) \<and> inodes t = inodes s \<and>
    (\<forall>cs. cs \<noteq> [] \<and> rooms (length cs) vs \<longrightarrow> find_in_blocks cs blks t = Some (dir_lookup cs (remove_number n (concat vs))))"
proof -
  obtain t vs' where t: "unlink_in_blocks n blks s = Some (True, t)" "inodes t = inodes s" "dir_holds t blks vs'"
    "\<forall>cs. dir_lookup cs (concat vs') = dir_lookup cs (remove_number n (concat vs))" "\<forall>k. rooms k vs \<longrightarrow> rooms k vs'"
    using unlink_in_blocks_removes [OF assms] by blast
  then have "find_in_blocks cs blks t = Some (dir_lookup cs (remove_number n (concat vs)))" if "cs \<noteq> []" "rooms (length cs) vs" for cs
    using find_in_blocks_chains [of t blks vs' cs] that by (simp add: dir_holds_def)
  then show ?thesis using t(1,2) by blast
qed

theorem unlink_then_lookup_witness:
  "\<exists>t. unlink_in_blocks 2 [100] sample_dir = Some (True, t) \<and> find_in_blocks ''.'' [100] t = Some None \<and>
     find_in_blocks ''..'' [100] t = Some (Some 2)"
proof -
  obtain t where t: "unlink_in_blocks 2 [100] sample_dir = Some (True, t)"
    "\<forall>cs. cs \<noteq> [] \<and> rooms (length cs) [sample_view] \<longrightarrow>
       find_in_blocks cs [100] t = Some (dir_lookup cs (remove_number 2 (concat [sample_view])))"
    using unlink_then_lookup [OF sample_dir_holds, of 2] by (auto simp: sample_view_def)
  have r: "rooms (length ''.'') [sample_view]" "rooms (length ''..'') [sample_view]"
    by (simp_all add: rooms_def sample_view_def BLOCK_SIZE_def)
  have l: "dir_lookup ''.'' (remove_number 2 (concat [sample_view])) = None"
    "dir_lookup ''..'' (remove_number 2 (concat [sample_view])) = Some 2"
    by (simp_all add: dir_lookup_def sample_view_def)
  have "find_in_blocks ''.'' [100] t = Some None" "find_in_blocks ''..'' [100] t = Some (Some 2)"
    using t(2) [rule_format, OF conjI [OF _ r(1)]] t(2) [rule_format, OF conjI [OF _ r(2)]] unfolding l by blast+
  then show ?thesis using t(1) by blast
qed

end
