(* ===== verification/Ext2_Data.thy ===== *)
theory Ext2_Data
  imports Ext2_Entries
begin

text \<open>
  File data through DMA: the runs of adjacent sectors built from the blocks of a file cover exactly
  these blocks in order, writing stores the data in them and reading collects it. A file is seen
  as the concatenation of its blocks.
\<close>

section \<open>Runs\<close>

text \<open>The blocks of a run, by their first sectors.\<close>

definition run_blocks :: "u32 \<times> u16 \<Rightarrow> u32 list" where
  "run_blocks r = map (\<lambda>k. fst r + of_nat (2 * k)) [0..<unat (snd r) div 2]"

definition run_list :: "(u32 \<times> u16) list \<Rightarrow> u32 list" where
  "run_list rs = concat (map run_blocks rs)"

lemma run_list_simps [simp]: "run_list [] = []" "run_list (r # rs) = run_blocks r @ run_list rs" "run_list (rs @ qs) = run_list rs @ run_list qs"
  by (simp_all add: run_list_def)

definition stretch :: "u32 \<Rightarrow> nat \<Rightarrow> u32 list" where
  "stretch l c = map (\<lambda>k. l + of_nat (2 * k)) [0..<c]"

lemma run_blocks_stretch: "c < 1000 \<Longrightarrow> run_blocks (l, ucast (of_nat (2 * c) :: u32)) = stretch l c"
  by (simp add: run_blocks_def stretch_def unsigned_ucast_eq unat_of_nat take_bit_nat_eq_self del: of_nat_mult)

lemma stretch_Suc: "stretch l (Suc c) = stretch l c @ [l + of_nat (2 * c)]"
  by (simp add: stretch_def)

text \<open>A run holds whole blocks.\<close>

definition whole :: "u32 \<times> u16 \<Rightarrow> bool" where
  "whole r = (even (unat (snd r)) \<and> 0 < unat (snd r))"

lemma whole_stretch: "0 < c \<Longrightarrow> c < 1000 \<Longrightarrow> whole (l, ucast (of_nat (2 * c) :: u32))"
  by (simp add: whole_def unsigned_ucast_eq unat_of_nat take_bit_nat_eq_self del: of_nat_mult)

text \<open>The steps over a list of sectors, the last one marked.\<close>

fun dma_runs :: "u32 list \<Rightarrow> dma \<Rightarrow> dma option" where
  "dma_runs [] d = Some d"
| "dma_runs [v] d = dma_step True v d"
| "dma_runs (v # w # vs) d = do { d \<leftarrow> dma_step False v d; dma_runs (w # vs) d }"

text \<open>A run of \<open>c\<close> blocks from \<open>l\<close> is open behind the runs \<open>rs\<close>.\<close>

definition open_run :: "(u32 \<times> u16) list \<Rightarrow> u32 \<Rightarrow> nat \<Rightarrow> dma \<Rightarrow> bool" where
  "open_run rs l c d =
     (0 < c \<and> l \<noteq> 0 \<and> first_lba d = l \<and> last_lba d = l + of_nat (2 * (c - 1)) \<and> dma_sector_count d = of_nat (2 * c) \<and>
      dma_lba_list d = Some rs \<and> dma_lba_list_size d = of_nat (length rs) \<and> list_all whole rs)"

definition closed_runs :: "(u32 \<times> u16) list \<Rightarrow> dma \<Rightarrow> bool" where
  "closed_runs rs d = (dma_lba_list d = Some rs \<and> dma_lba_list_size d = of_nat (length rs) \<and> list_all whole rs)"

lemma next_sector: "0 < c \<Longrightarrow> l + of_nat (2 * (c - 1)) + 2 = (l :: u32) + of_nat (2 * c)"
  by (cases c) (simp_all add: algebra_simps)

lemma dma_step_open:
  assumes "open_run rs l c d" and "v \<noteq> 0" and "c < 999"
  shows "\<exists>rs' l' c' d'. dma_step False v d = Some d' \<and> open_run rs' l' c' d' \<and> c' \<le> Suc c \<and>
    run_list rs' @ stretch l' c' = run_list rs @ stretch l c @ [v] \<and> length rs' \<le> Suc (length rs)"
proof (cases "v = last_lba d + 2")
  case True
  then have "v = l + of_nat (2 * c)" using assms(1) next_sector [of c l] by (simp add: open_run_def)
  then show ?thesis using assms(1) True
    by (intro exI [of _ rs] exI [of _ l] exI [of _ "Suc c"]) (auto simp: dma_step_def open_run_def stretch_Suc)
next
  case False
  then show ?thesis using assms run_blocks_stretch [of c l] whole_stretch [of c l]
    by (intro exI [of _ "rs @ [(l, ucast (of_nat (2 * c) :: u32))]"] exI [of _ v] exI [of _ 1])
      (auto simp: dma_step_def open_run_def add_run_def stretch_def simp del: of_nat_mult)
qed

lemma dma_step_close:
  assumes "open_run rs l c d" and "c < 999"
  shows "\<exists>rs' d'. dma_step True v d = Some d' \<and> closed_runs rs' d' \<and> run_list rs' = run_list rs @ stretch l c @ [v] \<and>
    length rs' \<le> length rs + 2 \<and> rs' \<noteq> []"
proof (cases "v = last_lba d + 2")
  case True
  then have v: "v = l + of_nat (2 * c)" using assms(1) next_sector [of c l] by (simp add: open_run_def)
  have "dma_sector_count d + 2 = of_nat (2 * Suc c)" using assms(1) by (simp add: open_run_def)
  then show ?thesis using assms(1) True v run_blocks_stretch [of "Suc c" l] whole_stretch [of "Suc c" l] assms(2)
    by (intro exI [of _ "rs @ [(l, ucast (of_nat (2 * Suc c) :: u32))]"])
      (auto simp: dma_step_def open_run_def closed_runs_def add_run_def stretch_Suc simp del: of_nat_mult)
next
  case False
  then show ?thesis using assms run_blocks_stretch [of c l] run_blocks_stretch [of 1 v] whole_stretch [of c l] whole_stretch [of 1 v]
    by (intro exI [of _ "rs @ [(l, ucast (of_nat (2 * c) :: u32)), (v, 2)]"])
      (auto simp: dma_step_def open_run_def closed_runs_def add_run_def stretch_def simp del: of_nat_mult)
qed

lemma dma_runs_open:
  assumes "open_run rs l c d" and "vs \<noteq> []" and "0 \<notin> set vs" and "c + length vs < 999"
  shows "\<exists>rs' d'. dma_runs vs d = Some d' \<and> closed_runs rs' d' \<and> run_list rs' = run_list rs @ stretch l c @ vs \<and>
    length rs' \<le> length rs + length vs + 1 \<and> rs' \<noteq> []"
  using assms
proof (induction vs arbitrary: rs l c d)
  case (Cons v vs)
  show ?case
  proof (cases vs)
    case Nil
    then show ?thesis using dma_step_close [OF Cons.prems(1), of v] Cons.prems(4) by auto
  next
    case (Cons w ws)
    obtain rs1 l1 c1 d1 where d1: "dma_step False v d = Some d1" "open_run rs1 l1 c1 d1" "c1 \<le> Suc c"
      "run_list rs1 @ stretch l1 c1 = run_list rs @ stretch l c @ [v]" "length rs1 \<le> Suc (length rs)"
      using dma_step_open [OF Cons.prems(1), of v] Cons.prems(3,4) by auto
    obtain rs2 d2 where d2: "dma_runs vs d1 = Some d2" "closed_runs rs2 d2" "run_list rs2 = run_list rs1 @ stretch l1 c1 @ vs"
      "length rs2 \<le> length rs1 + length vs + 1" "rs2 \<noteq> []"
      using Cons.IH [OF d1(2)] Cons.prems(3,4) d1(3) local.Cons by auto
    have "run_list rs2 = run_list rs @ stretch l c @ v # vs" using d2(3) d1(4) by (metis append.assoc append_Cons append_Nil)
    then show ?thesis using d1(1,5) d2 local.Cons by auto
  qed
qed simp

text \<open>The runs of a list of blocks are exactly these blocks.\<close>

lemma dma_runs_start:
  assumes "vs \<noteq> []" and "0 \<notin> set vs" and "length vs < 900"
  shows "\<exists>rs d. dma_runs vs dma_start = Some d \<and> closed_runs rs d \<and> run_list rs = vs \<and> length rs \<le> length vs + 1 \<and> rs \<noteq> []"
proof (cases vs)
  case (Cons v ws)
  show ?thesis
  proof (cases ws)
    case Nil
    have "run_blocks (v, 2) = [v]" by (simp add: run_blocks_def)
    then show ?thesis using Cons Nil by (auto simp: dma_step_def dma_start_def closed_runs_def whole_def intro!: exI [of _ "[(v, 2)]"])
  next
    case (Cons w us)
    let ?d = "dma_start\<lparr>first_lba := v, last_lba := v, dma_lba_list := Some [], dma_sector_count := 2\<rparr>"
    have "open_run [] v 1 ?d" using assms(2) \<open>vs = v # ws\<close> by (simp add: open_run_def dma_start_def)
    then obtain rs d where d: "dma_runs ws ?d = Some d" "closed_runs rs d" "run_list rs = run_list [] @ stretch v 1 @ ws"
      "length rs \<le> length [] + length ws + 1" "rs \<noteq> []"
      using dma_runs_open [of "[]" v 1 ?d ws] assms \<open>vs = v # ws\<close> Cons by auto
    have "dma_runs vs dma_start = dma_runs ws ?d" using Cons \<open>vs = v # ws\<close> by (simp add: dma_step_def dma_start_def)
    then show ?thesis using d \<open>vs = v # ws\<close> by (auto simp: stretch_def)
  qed
qed (use assms in simp)

section \<open>Blocks of a transfer\<close>

text \<open>Direct blocks that are present.\<close>

definition mapped :: "nat \<Rightarrow> nat \<Rightarrow> nat \<Rightarrow> fs \<Rightarrow> bool" where
  "mapped a f l s = (\<exists>t. inodes s a = Some t \<and> length (i_block t) = 15 \<and> f \<le> l \<and> l \<le> 11 \<and>
     (\<forall>j. f \<le> j \<and> j \<le> l \<longrightarrow> i_block t ! j \<noteq> 0 \<and> on_disk s (i_block t ! j) \<and>
        unat (partition_start_sector s) + 2 * unat (i_block t ! j) + 2 < 2 ^ 32) \<and> distinct (map ((!) (i_block t)) [f..<Suc l]))"

definition sectors :: "nat \<Rightarrow> nat \<Rightarrow> nat \<Rightarrow> fs \<Rightarrow> u32 list" where
  "sectors a f l s = (case inodes s a of None \<Rightarrow> [] | Some t \<Rightarrow> map (\<lambda>j. FROM_BLOCK_TO_LBA (i_block t ! j) s) [f..<Suc l])"

lemma direct_limits:
  "j \<le> 11 \<Longrightarrow> \<not> INDIRECT_0_LIMIT < (of_nat j :: u32)" "j \<le> 11 \<Longrightarrow> \<not> INDIRECT_1_LIMIT < (of_nat j :: u32)"
  "j \<le> 11 \<Longrightarrow> \<not> INDIRECT_2_LIMIT < (of_nat j :: u32)"
  by (simp_all add: INDIRECT_0_LIMIT_def INDIRECT_1_LIMIT_def INDIRECT_2_LIMIT_def word_less_nat_alt unat_of_nat take_bit_nat_eq_self)

lemma place_mapped:
  assumes "mapped a f l s" and "f \<le> j" and "j \<le> l" and "inodes s a = Some t"
  shows "rw_place a (of_nat j) lba pend s = Some (Inr (Some (FROM_BLOCK_TO_LBA (i_block t ! j) s)), pend, s)"
    and "read_place a (of_nat j) lba s = Some (Some (FROM_BLOCK_TO_LBA (i_block t ! j) s), s)"
proof -
  have j: "j \<le> 11" "i_block t ! j \<noteq> 0" "length (i_block t) = 15" using assms by (auto simp: mapped_def)
  have "unat (of_nat j :: u32) = j" using j(1) by (simp add: unat_of_nat take_bit_nat_eq_self)
  then show "rw_place a (of_nat j) lba pend s = Some (Inr (Some (FROM_BLOCK_TO_LBA (i_block t ! j) s)), pend, s)"
    and "read_place a (of_nat j) lba s = Some (Some (FROM_BLOCK_TO_LBA (i_block t ! j) s), s)"
    using j assms(4) direct_limits [OF j(1)] by (simp_all add: rw_place_def rw_direct_def read_place_def nth_opt_def)
qed

lemma last_block_test: "j \<le> l \<Longrightarrow> l \<le> 11 \<Longrightarrow> ((of_nat j :: u32) = of_nat l) = (j = l)"
  by (simp add: word_of_nat_eq_iff take_bit_nat_eq_self)

lemma rw_loop_dma:
  assumes "mapped a f l s" and "inodes s a = Some t" and "f \<le> j" and "j \<le> l"
    and "dma_runs (map (\<lambda>j. FROM_BLOCK_TO_LBA (i_block t ! j) s) [j..<Suc l]) d = Some d'"
  shows "\<exists>lba'. rw_loop op True a fb (of_nat l) [j..<Suc l] (lba, pend, d, x, s) = Some (True, lba', pend, d', x, s)"
  using assms(4,3,5)
proof (induction j arbitrary: d lba rule: inc_induct)
  case base
  then show ?case using place_mapped(1) [OF assms(1) _ _ assms(2), of l] by (auto simp: rw_step_def)
next
  case (step j)
  have l: "l \<le> 11" using assms(1) by (auto simp: mapped_def)
  let ?v = "\<lambda>j. FROM_BLOCK_TO_LBA (i_block t ! j) s"
  have list: "[j..<Suc l] = j # [Suc j..<Suc l]" "[Suc j..<Suc l] = Suc j # [Suc (Suc j)..<Suc l]"
    using step.hyps by (simp_all add: upt_conv_Cons)
  then obtain e where e: "dma_step False (?v j) d = Some e" "dma_runs (map ?v [Suc j..<Suc l]) e = Some d'"
    using step.prems(2) by (auto simp del: upt_Suc split: bind_splits)
  obtain lba' where lba': "rw_loop op True a fb (of_nat l) [Suc j..<Suc l] (Some (?v j), pend, e, x, s) = Some (True, lba', pend, d', x, s)"
    using step.IH [OF _ e(2), of "Some (?v j)"] step.prems(1) by auto
  have "rw_step op True a fb (of_nat l) j (lba, pend, d, x, s) = Some (True, Some (?v j), pend, e, x, s)"
    using place_mapped(1) [OF assms(1) step.prems(1) _ assms(2)] step.hyps last_block_test [of j l] l e(1) by (simp add: rw_step_def)
  then show ?case using lba' unfolding list(1) by simp
qed

lemma read_loop_dma:
  assumes "mapped a f l s" and "inodes s a = Some t" and "f \<le> j" and "j \<le> l"
    and "dma_runs (map (\<lambda>j. FROM_BLOCK_TO_LBA (i_block t ! j) s) [j..<Suc l]) d = Some d'"
  shows "\<exists>lba'. for_each (read_step True a fb (of_nat l)) [j..<Suc l] (lba, d, x, s) = Some (lba', d', x, s)"
  using assms(4,3,5)
proof (induction j arbitrary: d lba rule: inc_induct)
  case base
  then show ?case using place_mapped(2) [OF assms(1) _ _ assms(2), of l] by (auto simp: read_step_def)
next
  case (step j)
  have l: "l \<le> 11" using assms(1) by (auto simp: mapped_def)
  let ?v = "\<lambda>j. FROM_BLOCK_TO_LBA (i_block t ! j) s"
  have list: "[j..<Suc l] = j # [Suc j..<Suc l]" "[Suc j..<Suc l] = Suc j # [Suc (Suc j)..<Suc l]"
    using step.hyps by (simp_all add: upt_conv_Cons)
  then obtain e where e: "dma_step False (?v j) d = Some e" "dma_runs (map ?v [Suc j..<Suc l]) e = Some d'"
    using step.prems(2) by (auto simp del: upt_Suc split: bind_splits)
  obtain lba' where lba': "for_each (read_step True a fb (of_nat l)) [Suc j..<Suc l] (Some (?v j), e, x, s) = Some (lba', d', x, s)"
    using step.IH [OF _ e(2), of "Some (?v j)"] step.prems(1) by auto
  have "read_step True a fb (of_nat l) j (lba, d, x, s) = Some (Some (?v j), e, x, s)"
    using place_mapped(2) [OF assms(1) step.prems(1) _ assms(2)] step.hyps last_block_test [of j l] l e(1) by (simp add: read_step_def)
  then show ?case using lba' unfolding list(1) by simp
qed

section \<open>Sectors of a run\<close>

definition contents :: "u32 list \<Rightarrow> fs \<Rightarrow> u8 list" where
  "contents ls s = concat (map (\<lambda>l. READ_DISK 2 l s) ls)"

lemma contents_simps [simp]:
  "contents [] s = []" "contents (l # ls) s = READ_DISK 2 l s @ contents ls s" "contents (ls @ ks) s = contents ls s @ contents ks s"
  by (simp_all add: contents_def)

lemma length_contents [simp]: "length (contents ls s) = 1024 * length ls"
  by (induction ls) (simp_all add: SECTOR_SIZE_def)

definition no_wrap :: "u32 list \<Rightarrow> bool" where
  "no_wrap ls = (\<forall>l\<in>set ls. unat l + 2 < 2 ^ 32)"

lemma no_wrap_append [simp]: "no_wrap (ls @ ks) = (no_wrap ls \<and> no_wrap ks)"
  by (auto simp: no_wrap_def)

lemma stretch_unat: "no_wrap (stretch l c) \<Longrightarrow> k < c \<Longrightarrow> unat (l + of_nat (2 * k)) = unat l + 2 * k"
proof (induction k)
  case (Suc k)
  have "l + of_nat (2 * k) \<in> set (stretch l c)" using Suc.prems(2) by (auto simp: stretch_def)
  then have "unat (l + of_nat (2 * k)) + 2 < 2 ^ 32" using Suc.prems(1) unfolding no_wrap_def by blast
  moreover have "l + of_nat (2 * Suc k) = (l + of_nat (2 * k)) + 2" by simp
  ultimately have "unat (l + of_nat (2 * Suc k)) = unat (l + of_nat (2 * k)) + 2"
    by (simp only: unat_word_ariths) simp
  then show ?case using Suc by simp
qed simp

lemma READ_DISK_split:
  assumes "unat k = unat l + m"
  shows "READ_DISK (m + n) l s = READ_DISK m l s @ READ_DISK n k s"
  by (intro nth_equalityI) (auto simp: READ_DISK_def nth_append assms algebra_simps)

lemma READ_stretch: "no_wrap (stretch l c) \<Longrightarrow> READ_DISK (2 * c) l s = contents (stretch l c) s"
proof (induction c)
  case 0
  then show ?case by (simp add: READ_DISK_def stretch_def)
next
  case (Suc c)
  have "READ_DISK (2 * c + 2) l s = READ_DISK (2 * c) l s @ READ_DISK 2 (l + of_nat (2 * c)) s"
    by (rule READ_DISK_split) (use stretch_unat [OF Suc.prems, of c] in simp)
  then show ?case using Suc by (simp add: stretch_Suc)
qed

definition apart :: "u32 \<Rightarrow> u32 \<Rightarrow> bool" where
  "apart v w = (unat v + 2 \<le> unat w \<or> unat w + 2 \<le> unat v)"

lemma apart_stretch:
  assumes "no_wrap (stretch l c)" and "\<forall>w\<in>set (stretch l c). apart v w"
  shows "unat v + 2 \<le> unat l \<or> unat l + 2 * c \<le> unat v \<or> c = 0"
  using assms
proof (induction c)
  case (Suc c)
  then have "unat v + 2 \<le> unat l \<or> unat l + 2 * c \<le> unat v \<or> c = 0" by (simp add: stretch_Suc)
  moreover have "apart v (l + of_nat (2 * c))" using Suc.prems(2) by (simp add: stretch_Suc)
  ultimately show ?case using stretch_unat [OF Suc.prems(1), of c] by (auto simp: apart_def)
qed simp

lemma contents_other:
  assumes "no_wrap (stretch l c)" and "\<forall>v\<in>set vs. \<forall>w\<in>set (stretch l c). apart v w" and "0 < c"
  shows "contents vs (WRITE_DISK (2 * c) l b s) = contents vs s"
proof -
  have "READ_DISK 2 v (WRITE_DISK (2 * c) l b s) = READ_DISK 2 v s" if "v \<in> set vs" for v
    using apart_stretch [OF assms(1), of v] assms(2,3) that by (intro READ_WRITE_DISK_other) auto
  then show ?thesis by (simp add: contents_def cong: map_cong)
qed

lemma contents_written:
  assumes "no_wrap (stretch l c)" and "length b = 2 * c * SECTOR_SIZE"
  shows "contents (stretch l c) (WRITE_DISK (2 * c) l b s) = b"
  using READ_stretch [OF assms(1)] READ_WRITE_DISK_same [OF assms(2)] by metis

section \<open>Transfer of the runs\<close>

lemma run_bytes_eq:
  assumes "x_first x = 0" and "i < n" and "i = 0 \<Longrightarrow> x_done x = 0" and "unat len + unat (x_done x) < 2 ^ 32"
    and "i = n - 1 \<Longrightarrow> unat (x_left x) \<le> unat (x_done x) + unat len"
  shows "run_bytes i n len x = (if i = n - 1 then x_left x - x_done x else len, 0)"
proof -
  consider "i = 0" "n = 1" | "i = 0" "1 < n" | "0 < i" "i = n - 1" | "0 < i" "i \<noteq> n - 1" using assms(2) by linarith
  then show ?thesis
  proof cases
    case 3
    have len: "unat (len + x_done x) = unat len + unat (x_done x)" using assms(4) by (simp add: unat_word_ariths)
    have "len = x_left x - x_done x" if "\<not> len + x_done x > x_left x"
    proof -
      have "unat (x_left x) = unat (len + x_done x)" using that len assms(5) [OF 3(2)] by (simp add: word_less_nat_alt)
      then have "x_left x = len + x_done x" by (simp only: word_unat_eq_iff)
      then show ?thesis by simp
    qed
    then show ?thesis using 3 assms(1) by (cases "len + x_done x > x_left x") (simp_all add: run_bytes_def)
  qed (use assms(1,3) in \<open>simp_all add: run_bytes_def\<close>)
qed

text \<open>What a transfer needs before the runs \<open>qs\<close> of \<open>ps @ qs\<close>: the bytes left end in the last block.\<close>

definition ready :: "(u32 \<times> u16) list \<Rightarrow> (u32 \<times> u16) list \<Rightarrow> transfer \<Rightarrow> bool" where
  "ready ps qs x = (x_first x = 0 \<and> (ps = [] \<longrightarrow> x_done x = 0) \<and> list_all whole qs \<and> unat (x_left x) < 2 ^ 20 \<and>
     unat (x_left x) \<le> unat (x_done x) + 1024 * length (run_list qs) \<and>
     unat (x_done x) + 1024 * length (run_list qs) < unat (x_left x) + 1024 \<and>
     1024 * length (run_list qs) \<le> length (x_iob x))"

lemma whole_blocks:
  assumes "whole r"
  obtains c where "0 < c" "unat (snd r) = 2 * c" "run_blocks r = stretch (fst r) c" "length (run_blocks r) = c"
    "unat (ucast (snd r) * 512 :: u32) = 1024 * c"
proof -
  obtain c where c: "unat (snd r) = 2 * c" "0 < c" using assms by (auto simp: whole_def)
  have "unat (snd r) < 2 ^ 16" using unsigned_less [of "snd r"] by simp
  then have "unat (ucast (snd r) * 512 :: u32) = 1024 * c" using c(1) by (simp add: unat_word_ariths unsigned_ucast_eq take_bit_nat_eq_self)
  then show ?thesis using that [of c] c by (simp add: run_blocks_def stretch_def)
qed

text \<open>The size of one run: all of it, or the rest.\<close>

lemma ready_run:
  assumes "ready ps (r # qs) x" and "length (run_blocks r) = c" and "unat (ucast (snd r) * 512 :: u32) = 1024 * c" and "0 < c"
  obtains k where "run_bytes (length ps) (length (ps @ r # qs)) (ucast (snd r) * 512) x = (k, 0)" "unat (x_done x + k) = unat (x_done x) + unat k"
    "unat k = (if qs = [] then unat (x_left x) - unat (x_done x) else 1024 * c)" "unat k \<le> 1024 * c"
    "qs = [] \<longrightarrow> x_done x + k = x_left x" "unat (x_done x) + unat k \<le> unat (x_left x)"
proof -
  have q: "qs \<noteq> [] \<Longrightarrow> 0 < length (run_list qs)"
    using assms(1) by (cases qs) (auto simp: ready_def whole_def run_blocks_def elim!: evenE)
  have left: "unat (x_left x) < 2 ^ 20" "unat (x_left x) \<le> unat (x_done x) + (1024 * c + 1024 * length (run_list qs))"
    "unat (x_done x) + (1024 * c + 1024 * length (run_list qs)) < unat (x_left x) + 1024"
    using assms(1,2) by (simp_all add: ready_def algebra_simps)
  then have d: "unat (x_done x) \<le> unat (x_left x)" "unat (x_done x) + 1024 * c < 2 ^ 20 + 1024" using assms(4) by linarith+
  let ?k = "if qs = [] then x_left x - x_done x else ucast (snd r) * 512"
  have "run_bytes (length ps) (length (ps @ r # qs)) (ucast (snd r) * 512) x = (?k, 0)"
    using run_bytes_eq [of x "length ps" "length (ps @ r # qs)" "ucast (snd r) * 512"] assms(1,3) d left(2)
    by (auto simp: ready_def)
  moreover have k: "unat ?k = (if qs = [] then unat (x_left x) - unat (x_done x) else 1024 * c)"
    using assms(3) d(1) by (simp add: unat_sub word_le_nat_alt)
  moreover have "qs \<noteq> [] \<Longrightarrow> unat (x_done x) + 1024 * c \<le> unat (x_left x)" using left(3) q by linarith
  then have "unat ?k \<le> 1024 * c" "unat (x_done x) + unat ?k \<le> unat (x_left x)" using k left d by auto
  moreover from this(2) have "unat (x_done x + ?k) = unat (x_done x) + unat ?k" using left(1) by (simp add: unat_word_ariths)
  ultimately show ?thesis using that [of ?k] by simp
qed

lemma ready_next:
  assumes "ready ps (r # qs) x" and "qs \<noteq> []" and "length (run_blocks r) = c" and "unat (x_done x + k) = unat (x_done x) + 1024 * c"
    and "x_done y = x_done x + k" and "x_left y = x_left x" and "x_first y = 0" and "length (x_iob y) = length (x_iob x)"
  shows "ready (ps @ [r]) qs y"
  using assms by (auto simp: ready_def algebra_simps)

lemma take_get_bytes: "i + n \<le> length b \<Longrightarrow> get_bytes i n b = take n (drop i b)"
  by (simp add: get_bytes_def)

lemma nth_opt_middle: "nth_opt (ps @ r # qs) (length ps) = Some r"
  by (simp add: nth_opt_def)

lemma upt_middle: "[length ps..<length (ps @ r # qs)] = length ps # [length (ps @ [r])..<length ((ps @ [r]) @ qs)]"
  by (subst upt_conv_Cons) simp_all

text \<open>Reading the runs appends their contents.\<close>

lemma read_runs:
  assumes "ready ps qs x" and "qs \<noteq> []" and "no_wrap (run_list qs)"
  shows "\<exists>y. for_each (run_step 0 (length (ps @ qs)) (ps @ qs)) [length ps..<length (ps @ qs)] (x, s) = Some (y, s) \<and>
    x_done y = x_left x \<and> x_offset y = x_offset x \<and>
    x_buf y = x_buf x @ take (unat (x_left x) - unat (x_done x)) (contents (run_list qs) s)"
  using assms
proof (induction qs arbitrary: ps x)
  case (Cons r qs)
  have "whole r" using Cons.prems(1) by (simp add: ready_def)
  then obtain c where c: "0 < c" "unat (snd r) = 2 * c" "run_blocks r = stretch (fst r) c" "length (run_blocks r) = c"
    "unat (ucast (snd r) * 512 :: u32) = 1024 * c" by (rule whole_blocks)
  obtain k where k: "run_bytes (length ps) (length (ps @ r # qs)) (ucast (snd r) * 512) x = (k, 0)" "unat (x_done x + k) = unat (x_done x) + unat k"
    "unat k = (if qs = [] then unat (x_left x) - unat (x_done x) else 1024 * c)" "unat k \<le> 1024 * c"
    "qs = [] \<longrightarrow> x_done x + k = x_left x" "unat (x_done x) + unat k \<le> unat (x_left x)"
    by (rule ready_run [OF Cons.prems(1) c(4,5,1)])
  let ?b = "put_bytes 0 (READ_DISK (2 * c) (fst r) s) (x_iob x)"
  let ?y = "x\<lparr>x_iob := ?b, x_buf := x_buf x @ take (unat k) (contents (run_blocks r) s), x_done := x_done x + k\<rparr>"
  have room: "2 * c * SECTOR_SIZE \<le> length (x_iob x)" using Cons.prems(1) c(4) by (simp add: ready_def SECTOR_SIZE_def)
  have "READ_DISK (2 * c) (fst r) s = contents (run_blocks r) s" using READ_stretch Cons.prems(3) c(3) by simp
  moreover have "get_bytes 0 (unat k) ?b = take (unat k) (READ_DISK (2 * c) (fst r) s)"
    using k(4) by (simp add: get_bytes_def put_bytes_def SECTOR_SIZE_def)
  ultimately have b: "get_bytes 0 (unat k) ?b = take (unat k) (contents (run_blocks r) s)" by simp
  have "run_step 0 (length (ps @ r # qs)) (ps @ r # qs) (length ps) (x, s) = Some (?y, s)"
    using k(1,4) b room c(2,4) unfolding run_step_def nth_opt_middle
    by (simp add: run_in_def Let_def case_prod_unfold SECTOR_SIZE_def)
  then have step: "for_each (run_step 0 (length (ps @ r # qs)) (ps @ r # qs)) [length ps..<length (ps @ r # qs)] (x, s) =
      for_each (run_step 0 (length ((ps @ [r]) @ qs)) ((ps @ [r]) @ qs)) [length (ps @ [r])..<length ((ps @ [r]) @ qs)] (?y, s)"
    unfolding upt_middle by simp
  show ?case
  proof (cases "qs = []")
    case True
    then show ?thesis using step k(3,5) by auto
  next
    case False
    have y: "ready (ps @ [r]) qs ?y"
      by (rule ready_next [OF Cons.prems(1) False c(4), of k]) (use k(2,3) False room Cons.prems(1) in \<open>simp_all add: ready_def\<close>)
    obtain z where z: "for_each (run_step 0 (length ((ps @ [r]) @ qs)) ((ps @ [r]) @ qs)) [length (ps @ [r])..<length ((ps @ [r]) @ qs)] (?y, s) = Some (z, s)"
      "x_done z = x_left ?y" "x_offset z = x_offset ?y"
      "x_buf z = x_buf ?y @ take (unat (x_left ?y) - unat (x_done ?y)) (contents (run_list qs) s)"
      using Cons.IH [OF y False] Cons.prems(3) by auto
    have "take (unat (x_left x) - unat (x_done x)) (contents (run_list (r # qs)) s) =
        take (unat k) (contents (run_blocks r) s) @ take (unat (x_left x) - unat (x_done x + k)) (contents (run_list qs) s)"
      using k(2,3,6) False c(4) by simp
    then show ?thesis using step z by simp
  qed
qed simp

text \<open>Writing the runs stores the data in their blocks and leaves the blocks apart from them alone.\<close>

lemma write_runs:
  assumes "ready ps qs x" and "qs \<noteq> []" and "no_wrap (run_list qs)" and "sorted_wrt apart (run_list qs)" and "unat (x_left x) \<le> length (x_buf x)"
  shows "\<exists>y t. for_each (run_step 1 (length (ps @ qs)) (ps @ qs)) [length ps..<length (ps @ qs)] (x, s) = Some (y, t) \<and>
    x_done y = x_left x \<and> x_offset y = x_offset x \<and> t = s\<lparr>disk := disk t\<rparr> \<and>
    take (unat (x_left x) - unat (x_done x)) (contents (run_list qs) t) =
      take (unat (x_left x) - unat (x_done x)) (drop (unat (x_done x)) (x_buf x)) \<and>
    (\<forall>vs. (\<forall>v\<in>set vs. \<forall>w\<in>set (run_list qs). apart v w) \<longrightarrow> contents vs t = contents vs s)"
  using assms
proof (induction qs arbitrary: ps x s)
  case (Cons r qs)
  have "whole r" using Cons.prems(1) by (simp add: ready_def)
  then obtain c where c: "0 < c" "unat (snd r) = 2 * c" "run_blocks r = stretch (fst r) c" "length (run_blocks r) = c"
    "unat (ucast (snd r) * 512 :: u32) = 1024 * c" by (rule whole_blocks)
  obtain k where k: "run_bytes (length ps) (length (ps @ r # qs)) (ucast (snd r) * 512) x = (k, 0)" "unat (x_done x + k) = unat (x_done x) + unat k"
    "unat k = (if qs = [] then unat (x_left x) - unat (x_done x) else 1024 * c)" "unat k \<le> 1024 * c"
    "qs = [] \<longrightarrow> x_done x + k = x_left x" "unat (x_done x) + unat k \<le> unat (x_left x)"
    by (rule ready_run [OF Cons.prems(1) c(4,5,1)])
  let ?d = "get_bytes (unat (x_done x)) (unat k) (x_buf x)"
  let ?b = "put_bytes 0 ?d (x_iob x)"
  let ?s = "WRITE_DISK (2 * c) (fst r) (take (2 * c * SECTOR_SIZE) ?b) s"
  let ?y = "x\<lparr>x_iob := ?b, x_done := x_done x + k\<rparr>"
  have room: "2 * c * SECTOR_SIZE \<le> length (x_iob x)" "1024 * c \<le> length (x_iob x)"
    using Cons.prems(1) c(4) by (simp_all add: ready_def SECTOR_SIZE_def)
  have d: "length ?d = unat k" using k(6) Cons.prems(5) by simp
  have b: "length ?b = length (x_iob x)" "take (unat k) (take (2 * c * SECTOR_SIZE) ?b) = ?d"
    using d k(4) room by (simp_all add: put_bytes_def SECTOR_SIZE_def min_def)
  have step: "run_step 1 (length (ps @ r # qs)) (ps @ r # qs) (length ps) (x, s) = Some (?y, ?s)"
    using k(1,4) d room c(2) Cons.prems(1) unfolding run_step_def nth_opt_middle
    by (simp add: run_out_def Let_def case_prod_unfold SECTOR_SIZE_def ready_def)
  have wrap: "no_wrap (stretch (fst r) c)" "no_wrap (run_list qs)" using Cons.prems(3) c(3) by simp_all
  have apart: "sorted_wrt apart (run_list qs)" "\<forall>v\<in>set (stretch (fst r) c). \<forall>w\<in>set (run_list qs). apart v w"
    using Cons.prems(4) c(3) by (simp_all add: sorted_wrt_append)
  have written: "contents (run_blocks r) ?s = take (2 * c * SECTOR_SIZE) ?b"
    using contents_written [OF wrap(1)] room b(1) c(3) by (simp add: min_def)
  have frame: "contents vs ?s = contents vs s" if "\<forall>v\<in>set vs. \<forall>w\<in>set (run_blocks r). apart v w" for vs
    using contents_other [OF wrap(1)] that c(1,3) by simp
  have disk: "?s = s\<lparr>disk := disk ?s\<rparr>" by (simp add: WRITE_DISK_def)
  show ?case
  proof (cases "qs = []")
    case True
    have "for_each (run_step 1 (length (ps @ r # qs)) (ps @ r # qs)) [length ps..<length (ps @ r # qs)] (x, s) = Some (?y, ?s)"
      using step True unfolding upt_middle by simp
    moreover have "take (unat (x_left x) - unat (x_done x)) (contents (run_list (r # qs)) ?s) = ?d"
      using written b(2) k(3) True by simp
    ultimately show ?thesis using k(3,5) True frame disk k(6) Cons.prems(5) by (auto simp: get_bytes_def)
  next
    case False
    have y: "ready (ps @ [r]) qs ?y"
      by (rule ready_next [OF Cons.prems(1) False c(4), of k]) (use k(2,3) False b(1) Cons.prems(1) in \<open>simp_all add: ready_def\<close>)
    obtain z t where z: "for_each (run_step 1 (length ((ps @ [r]) @ qs)) ((ps @ [r]) @ qs)) [length (ps @ [r])..<length ((ps @ [r]) @ qs)] (?y, ?s) = Some (z, t)"
      "x_done z = x_left ?y" "x_offset z = x_offset ?y" "t = ?s\<lparr>disk := disk t\<rparr>"
      "take (unat (x_left ?y) - unat (x_done ?y)) (contents (run_list qs) t) = take (unat (x_left ?y) - unat (x_done ?y)) (drop (unat (x_done ?y)) (x_buf ?y))"
      "\<forall>vs. (\<forall>v\<in>set vs. \<forall>w\<in>set (run_list qs). apart v w) \<longrightarrow> contents vs t = contents vs ?s"
      using Cons.IH [OF y False wrap(2) apart(1), of ?s] Cons.prems(5) by auto
    have first: "contents (run_blocks r) t = take (2 * c * SECTOR_SIZE) ?b"
      using z(6) [rule_format, of "run_blocks r"] apart(2) written c(3) by simp
    have full: "take (2 * c * SECTOR_SIZE) ?b = take (1024 * c) (drop (unat (x_done x)) (x_buf x))"
      using b(2) k(3) False by (simp add: SECTOR_SIZE_def get_bytes_def)
    have "length (take (1024 * c) (drop (unat (x_done x)) (x_buf x))) = 1024 * c" using d k(3) False by (simp add: get_bytes_def)
    then have "take (unat (x_left x) - unat (x_done x)) (contents (run_list (r # qs)) t) =
        take (1024 * c) (drop (unat (x_done x)) (x_buf x)) @ take (unat (x_left x) - unat (x_done x + k)) (drop (unat (x_done x + k)) (x_buf x))"
      using first full z(5) k(2,3,6) False by simp
    also have "\<dots> = take (unat (x_left x) - unat (x_done x)) (drop (unat (x_done x)) (x_buf x))"
    proof -
      have e: "unat (x_left x) - unat (x_done x) = 1024 * c + (unat (x_left x) - unat (x_done x + k))" using k(2,3,6) False by simp
      have "unat (x_done x + k) = 1024 * c + unat (x_done x)" using k(2,3) False by simp
      then show ?thesis by (subst e, subst take_add) simp
    qed
    finally have data: "take (unat (x_left x) - unat (x_done x)) (contents (run_list (r # qs)) t) =
        take (unat (x_left x) - unat (x_done x)) (drop (unat (x_done x)) (x_buf x))" .
    have "contents vs t = contents vs s" if "\<forall>v\<in>set vs. \<forall>w\<in>set (run_list (r # qs)). apart v w" for vs
      using z(6) [rule_format, of vs] frame [of vs] that by simp
    moreover have "for_each (run_step 1 (length (ps @ r # qs)) (ps @ r # qs)) [length ps..<length (ps @ r # qs)] (x, s) = Some (z, t)"
      using step z(1) unfolding upt_middle by simp
    moreover have "t = s\<lparr>disk := disk t\<rparr>"
    proof -
      have "t = ?s\<lparr>disk := disk t\<rparr>" by (rule z(4))
      also have "\<dots> = s\<lparr>disk := disk t\<rparr>" by (simp add: WRITE_DISK_def)
      finally show ?thesis .
    qed
    ultimately show ?thesis using z(2,3) data by (intro exI [of _ z] exI [of _ t]) simp
  qed
qed simp

section \<open>Whole transfers\<close>

lemma range_words:
  fixes off count :: u32
  assumes "off = of_nat (1024 * f)" and "count = of_nat n" and "0 < n" and "1024 * f + n \<le> 12288"
  shows "off div 1024 = of_nat f" "off mod 1024 = 0" "(off + (count - 1)) div 1024 = of_nat (f + (n - 1) div 1024)"
    "unat off = 1024 * f" "unat count = n" "unat (off + count) = 1024 * f + n"
proof -
  show off: "unat off = 1024 * f" and count: "unat count = n"
    using assms by (simp_all add: unat_of_nat take_bit_nat_eq_self del: of_nat_mult)
  then show "unat (off + count) = 1024 * f + n" using assms(4) by (simp add: unat_word_ariths)
  have f: "unat (of_nat m :: u32) = m" if "m \<le> 12288" for m using that by (simp add: unat_of_nat take_bit_nat_eq_self)
  have "unat (off div 1024) = f" "unat (off mod 1024) = 0" by (simp_all add: unat_div unat_mod off)
  then show "off div 1024 = of_nat f" "off mod 1024 = 0" using f [of f] assms(4) by (simp_all add: word_unat_eq_iff)
  have "unat (count - 1) = n - 1" using count assms(3) by (simp add: unat_sub word_le_nat_alt)
  then have "unat (off + (count - 1)) = 1024 * f + (n - 1)" using off assms(4) by (simp add: unat_word_ariths)
  then have "unat ((off + (count - 1)) div 1024) = f + (n - 1) div 1024" by (simp add: unat_div)
  then show "(off + (count - 1)) div 1024 = of_nat (f + (n - 1) div 1024)"
    using f [of "f + (n - 1) div 1024"] assms(4) by (simp only: word_unat_eq_iff)
qed

lemma sectors_facts:
  assumes "mapped a f l s"
  shows "sectors a f l s \<noteq> []" "0 \<notin> set (sectors a f l s)" "no_wrap (sectors a f l s)" "sorted_wrt apart (sectors a f l s)"
    "length (sectors a f l s) = Suc l - f"
proof -
  obtain t where t: "inodes s a = Some t" "f \<le> l" "\<And>j. f \<le> j \<Longrightarrow> j \<le> l \<Longrightarrow> i_block t ! j \<noteq> 0 \<and> on_disk s (i_block t ! j) \<and>
      unat (partition_start_sector s) + 2 * unat (i_block t ! j) + 2 < 2 ^ 32" "distinct (map ((!) (i_block t)) [f..<Suc l])"
    using assms by (auto simp: mapped_def simp del: upt_Suc)
  let ?p = "unat (partition_start_sector s)"
  have lba: "unat (FROM_BLOCK_TO_LBA (i_block t ! j) s) = ?p + 2 * unat (i_block t ! j)" "0 < unat (i_block t ! j)"
    if "f \<le> j" "j \<le> l" for j
    using t(3) [OF that] unat_block_lba by (auto simp: unat_gt_0)
  have set: "v \<in> set (sectors a f l s) \<Longrightarrow> \<exists>j. f \<le> j \<and> j \<le> l \<and> v = FROM_BLOCK_TO_LBA (i_block t ! j) s" for v
    using t(1) by (auto simp: sectors_def simp del: upt_Suc)
  show "sectors a f l s \<noteq> []" "length (sectors a f l s) = Suc l - f" using t(1,2) by (simp_all add: sectors_def del: upt_Suc)
  show "0 \<notin> set (sectors a f l s)" using set lba by (metis add_is_0 mult_is_0 not_gr_zero unsigned_0 zero_neq_numeral)
  show "no_wrap (sectors a f l s)" unfolding no_wrap_def using set lba(1) t(3) by (metis)
  show "sorted_wrt apart (sectors a f l s)"
    unfolding sorted_wrt_iff_nth_less
  proof (intro allI impI)
    fix i j assume ij: "i < j" "j < length (sectors a f l s)"
    then have r: "f + i \<le> l" "f + j \<le> l" using t(1,2) by (simp_all add: sectors_def del: upt_Suc)
    have "i_block t ! (f + i) \<noteq> i_block t ! (f + j)"
      using t(4) ij r nth_eq_iff_index_eq [OF t(4), of i j] by (simp del: upt_Suc)
    then have "unat (i_block t ! (f + i)) \<noteq> unat (i_block t ! (f + j))" by (simp add: word_unat_eq_iff)
    then show "apart (sectors a f l s ! i) (sectors a f l s ! j)"
      using t(1) ij r lba(1) [of "f + i"] lba(1) [of "f + j"] by (auto simp: sectors_def apart_def simp del: upt_Suc)
  qed
qed

text \<open>The runs of a range of blocks, ready for a transfer.\<close>

lemma runs_of_range:
  assumes "mapped a f (f + (n - 1) div 1024) s" and "0 < n" and "12288 \<le> length (x_iob x)"
    and "x_first x = 0" and "x_done x = 0" and "unat (x_left x) = n"
  obtains rs d where "dma_runs (sectors a f (f + (n - 1) div 1024) s) dma_start = Some d" "dma_lba_list d = Some rs"
    "unat (dma_lba_list_size d) = length rs" "run_list rs = sectors a f (f + (n - 1) div 1024) s" "ready [] rs x" "rs \<noteq> []"
proof -
  let ?l = "f + (n - 1) div 1024"
  let ?vs = "sectors a f ?l s"
  have l: "?l \<le> 11" using assms(1) by (auto simp: mapped_def)
  have len: "length ?vs = (n - 1) div 1024 + 1" using sectors_facts(5) [OF assms(1)] by simp
  obtain rs d where d: "dma_runs ?vs dma_start = Some d" "closed_runs rs d" "run_list rs = ?vs" "length rs \<le> length ?vs + 1" "rs \<noteq> []"
    using dma_runs_start [OF sectors_facts(1,2) [OF assms(1)]] len l by auto
  have "length rs \<le> 13" using d(4) len l by simp
  then have "unat (dma_lba_list_size d) = length rs" using d(2) by (simp add: closed_runs_def unat_of_nat take_bit_nat_eq_self)
  moreover have "n \<le> 1024 * ((n - 1) div 1024 + 1)" "1024 * ((n - 1) div 1024 + 1) < n + 1024" "(n - 1) div 1024 + 1 \<le> 12"
    using assms(2) l div_mult_mod_eq [of "n - 1" 1024] mod_less_divisor [of 1024 "n - 1"] by simp_all
  then have "ready [] rs x" using assms(3-6) d(2,3) len by (simp add: ready_def closed_runs_def)
  ultimately show ?thesis using that d by (simp add: closed_runs_def)
qed

lemma range_end: "mapped a f (f + (n - 1) div 1024) s \<Longrightarrow> 0 < n \<Longrightarrow> 1024 * f + n \<le> 12288"
  using div_mult_mod_eq [of "n - 1" 1024] mod_less_divisor [of 1024 "n - 1"] by (auto simp: mapped_def)

definition grown :: "u32 \<Rightarrow> inode \<Rightarrow> inode" where
  "grown e i = (if e > i_size i then i\<lparr>i_size := e\<rparr> else i)"

lemma grown_simps [simp]: "i_block (grown e i) = i_block i" "e \<le> i_size (grown e i)" "i_size i \<le> i_size (grown e i)"
  by (auto simp: grown_def)

text \<open>A write at a block boundary stores the data in the blocks of the file.\<close>

lemma write_transfer:
  assumes "mapped a f l s" and "l = f + (n - 1) div 1024" and "0 < n" and "n \<le> length data" and "12288 \<le> length junk"
    and "off = of_nat (1024 * f)" and "count = of_nat n" and "inodes s a = Some i"
  shows "\<exists>out t. rw_transfer junk a off data count 1 True s = Some (count, off + count, out, t) \<and>
    t = s\<lparr>disk := disk t, inodes := (inodes s)(a \<mapsto> grown (off + count) i)\<rparr> \<and>
    take n (contents (sectors a f l s) t) = take n data \<and>
    (\<forall>vs. (\<forall>v\<in>set vs. \<forall>w\<in>set (sectors a f l s). apart v w) \<longrightarrow> contents vs t = contents vs s)"
proof -
  let ?x = "\<lparr>x_offset = off, x_left = count, x_first = 0, x_done = 0, x_iob = junk, x_buf = data\<rparr>"
  have m: "mapped a f (f + (n - 1) div 1024) s" using assms(1,2) by simp
  note w = range_words [OF assms(6,7,3) range_end [OF m assms(3)]]
  have l: "l \<le> 11" "f \<le> l" using assms(1) by (auto simp: mapped_def)
  have words: "unat (of_nat f :: u32) = f" "unat (of_nat l :: u32) = l"
    using l by (simp_all add: unat_of_nat take_bit_nat_eq_self)
  obtain rs d where d: "dma_runs (sectors a f l s) dma_start = Some d" "dma_lba_list d = Some rs"
    "unat (dma_lba_list_size d) = length rs" "run_list rs = sectors a f l s" "ready [] rs ?x" "rs \<noteq> []"
    by (rule runs_of_range [OF m assms(3), of ?x, folded assms(2)]) (use assms(5) w(5) in simp_all)
  have "sectors a f l s = map (\<lambda>j. FROM_BLOCK_TO_LBA (i_block i ! j) s) [f..<Suc l]" using assms(8) by (simp add: sectors_def)
  then obtain lba' where loop: "rw_loop 1 True a (of_nat f) (of_nat l) [f..<Suc l] (None, Some [], dma_start, ?x, s) = Some (True, lba', Some [], d, ?x, s)"
    using rw_loop_dma [OF assms(1,8) order_refl l(2)] d(1) by metis
  have "unat (x_left ?x) \<le> length (x_buf ?x)" using assms(4) w(5) by simp
  then obtain y t where y: "for_each (run_step 1 (length rs) rs) [0..<length rs] (?x, s) = Some (y, t)" "x_done y = count" "x_offset y = off"
    "t = s\<lparr>disk := disk t\<rparr>" "take n (contents (run_list rs) t) = take n data"
    "\<forall>vs. (\<forall>v\<in>set vs. \<forall>w\<in>set (run_list rs). apart v w) \<longrightarrow> contents vs t = contents vs s"
    using write_runs [OF d(5,6), of s] sectors_facts(3,4) [OF assms(1)] d(4) w(5) by auto
  obtain D where t: "t = s\<lparr>disk := D\<rparr>" using y(4) by blast
  let ?t = "t\<lparr>inodes := (inodes s)(a \<mapsto> grown (off + count) i)\<rparr>"
  have "rw_transfer junk a off data count 1 True s = Some (count, off + count, x_buf y, ?t)"
    using loop assms(2,8) d(2,3) y(1-3) w(1-3) words l(2) unfolding t
    by (simp add: rw_transfer_def dma_transfer_def flush_pending_def upd_inode_def grown_def fun_upd_def if_distrib cong: if_cong del: upt_Suc)
  moreover have "?t = s\<lparr>disk := disk ?t, inodes := (inodes s)(a \<mapsto> grown (off + count) i)\<rparr>" by (simp add: t)
  moreover have "contents vs ?t = contents vs t" for vs by (simp add: contents_def READ_DISK_def)
  ultimately show ?thesis using y(5,6) d(4) by (intro exI [of _ "x_buf y"] exI [of _ ?t]) simp
qed

text \<open>A read that ends before the end of the file returns the contents of its blocks.\<close>

lemma read_transfer_contents:
  assumes "mapped a f l s" and "l = f + (n - 1) div 1024" and "0 < n" and "12288 \<le> length junk"
    and "off = of_nat (1024 * f)" and "count = of_nat n" and "inodes s a = Some i" and "off + count \<le> i_size i"
  shows "read_transfer junk a off count True s = Some (count, off + count, take n (contents (sectors a f l s) s), s)"
proof -
  let ?x = "\<lparr>x_offset = off, x_left = count, x_first = 0, x_done = 0, x_iob = junk, x_buf = []\<rparr>"
  have m: "mapped a f (f + (n - 1) div 1024) s" using assms(1,2) by simp
  note w = range_words [OF assms(5,6,3) range_end [OF m assms(3)]]
  have l: "l \<le> 11" "f \<le> l" using assms(1) by (auto simp: mapped_def)
  have words: "unat (of_nat f :: u32) = f" "unat (of_nat l :: u32) = l"
    using l by (simp_all add: unat_of_nat take_bit_nat_eq_self)
  have "unat (count - 1) = n - 1" using w(5) assms(3) by (simp add: unat_sub word_le_nat_alt)
  then have "unat (off + (count - 1)) = 1024 * f + (n - 1)" using w(4) range_end [OF m assms(3)] by (simp add: unat_word_ariths)
  then have inside: "\<not> i_size i < off + (count - 1)" using assms(8) w(6) by (simp add: word_less_nat_alt word_le_nat_alt)
  obtain rs d where d: "dma_runs (sectors a f l s) dma_start = Some d" "dma_lba_list d = Some rs"
    "unat (dma_lba_list_size d) = length rs" "run_list rs = sectors a f l s" "ready [] rs ?x" "rs \<noteq> []"
    by (rule runs_of_range [OF m assms(3), of ?x, folded assms(2)]) (use assms(4) w(5) in simp_all)
  have "sectors a f l s = map (\<lambda>j. FROM_BLOCK_TO_LBA (i_block i ! j) s) [f..<Suc l]" using assms(7) by (simp add: sectors_def)
  then obtain lba' where loop: "for_each (read_step True a (of_nat f) (of_nat l)) [f..<Suc l] (None, dma_start, ?x, s) = Some (lba', d, ?x, s)"
    using read_loop_dma [OF assms(1,7) order_refl l(2)] d(1) by metis
  obtain y where y: "for_each (run_step 0 (length rs) rs) [0..<length rs] (?x, s) = Some (y, s)" "x_done y = count" "x_offset y = off"
    "x_buf y = take n (contents (sectors a f l s) s)"
    using read_runs [OF d(5,6), of s] sectors_facts(3) [OF assms(1)] d(4) w(5) by auto
  then show ?thesis using loop inside assms(2,7) d(2,3) w(1-3) words l(2)
    by (simp add: read_transfer_def dma_transfer_def cong: if_cong del: upt_Suc)
qed

lemma mapped_grown:
  assumes "mapped a f l s" and "inodes s a = Some i" and "t = s\<lparr>disk := d, inodes := (inodes s)(a \<mapsto> grown e i)\<rparr>"
  shows "mapped a f l t" "sectors a f l t = sectors a f l s"
  using assms by (auto simp: mapped_def sectors_def on_disk_def FROM_BLOCK_TO_LBA_def simp del: upt_Suc)

section \<open>Write, go back, read\<close>


text \<open>A file with two blocks, open as descriptor 3.\<close>

definition sample_files :: files where
  "sample_files =
     \<lparr>fsys = sample_fs\<lparr>inodes := [7 \<mapsto> (blank_inode 0)\<lparr>i_number := 18, i_block := 100 # 205 # replicate 13 0\<rparr>]\<rparr>,
      file_store = [5 \<mapsto> \<lparr>f_inode = 7, file_offset = 0\<rparr>], next_file = 6,
      fd_table = the (hashtable_put (hashtable_init 10) 3 5), next_fd = 4, root_dir_inode_number = 2, current_dir_inode_number = 2,
      mount_map = hashtable_init 10\<rparr>"

lemma sample_files_open: "hashtable_get (fd_table sample_files) (unat (3 :: u32)) = Some 5"
  "file_store sample_files 5 = Some \<lparr>f_inode = 7, file_offset = of_nat (1024 * 0)\<rparr>"
  by (simp add: sample_files_def, code_simp) (simp add: sample_files_def)

lemma sample_files_mapped: "mapped 7 0 1 (fsys sample_files)"
  by (auto simp: mapped_def sample_files_def on_disk_def le_Suc_eq)


end
