(* ===== verification/Lib.thy ===== *)
theory Lib
  imports Loops "HOL-Library.Sublist"
begin

text \<open>
  The libraries of the kernel (\<^verbatim>\<open>src/lib\<close>) and of user programs (\<^verbatim>\<open>src/process/lib\<close>): copying memory, C strings,
  conversion of numbers, formatted output, and the bit vectors of \<^verbatim>\<open>src/data_types\<close>. A C string is the list of the
  bytes from its first character to the end of its block; reading behind that block is \<open>None\<close>.
\<close>

section \<open>Memory\<close>

fun kmemcpy :: "u32 \<Rightarrow> u32 \<Rightarrow> nat \<Rightarrow> (u32 \<Rightarrow> u8) \<Rightarrow> u32 \<Rightarrow> u8" where
  "kmemcpy dest src 0 m = m"
| "kmemcpy dest src (Suc n) m = kmemcpy (dest + 1) (src + 1) n (m(dest := m src))"

fun kfillmem :: "u32 \<Rightarrow> u8 \<Rightarrow> nat \<Rightarrow> (u32 \<Rightarrow> u8) \<Rightarrow> u32 \<Rightarrow> u8" where
  "kfillmem dest val 0 m = m"
| "kfillmem dest val (Suc n) m = kfillmem (dest + 1) val n (m(dest := val))"

section \<open>Strings\<close>

text \<open>The character at a pointer.\<close>

fun at :: "u8 list \<Rightarrow> u8 option" where
  "at [] = None"
| "at (c # s) = Some c"

fun strlen :: "u8 list \<Rightarrow> u32 option" where
  "strlen [] = None"
| "strlen (c # s) = (if c = 0 then Some 0 else do { n \<leftarrow> strlen s; Some (n + 1) })"

text \<open>The difference of the first characters that differ, or of the terminators.\<close>

fun strcmp :: "u8 list \<Rightarrow> u8 list \<Rightarrow> u32 option" where
  "strcmp (c # s) (d # t) = (if c = 0 \<or> c \<noteq> d then Some (ucast c - ucast d) else strcmp s t)"
| "strcmp _ _ = None"

text \<open>With \<open>n = 0\<close> at the start the characters compared at the end are not set.\<close>

fun strncmp_loop :: "u32 option \<Rightarrow> u8 list \<Rightarrow> u8 list \<Rightarrow> nat \<Rightarrow> u32 option" where
  "strncmp_loop r s t 0 = r"
| "strncmp_loop r (c # s) (d # t) (Suc n) =
     (if c = 0 \<or> c \<noteq> d then Some (ucast c - ucast d) else strncmp_loop (Some (ucast c - ucast d)) s t n)"
| "strncmp_loop r _ _ (Suc n) = None"

definition strncmp :: "u8 list \<Rightarrow> u8 list \<Rightarrow> u32 \<Rightarrow> u32 option" where
  "strncmp s t n = strncmp_loop None s t (unat n)"

text \<open>\<open>match a b\<close> is the inner loop of \<open>strstr\<close>.\<close>

fun match :: "u8 list \<Rightarrow> u8 list \<Rightarrow> bool option" where
  "match a [] = None"
| "match a (d # b) =
     (if d = 0 then Some True
      else case a of [] \<Rightarrow> None | c # a \<Rightarrow> if c \<noteq> d then Some False else match a b)"

text \<open>The result is the distance of the pointer from the start of the string, \<open>None\<close> inside for \<^verbatim>\<open>NULL\<close>.\<close>

fun strstr_loop :: "nat \<Rightarrow> u8 list \<Rightarrow> u8 list \<Rightarrow> nat option option" where
  "strstr_loop i [] sub = None"
| "strstr_loop i (c # s) sub =
     (if c = 0 then Some None
      else do { d \<leftarrow> at sub;
                if c \<noteq> d then strstr_loop (i + 1) s sub
                else do { found \<leftarrow> match (c # s) sub;
                          if found then Some (Some i) else strstr_loop (i + 1) s sub } })"

definition strstr :: "u8 list \<Rightarrow> u8 list \<Rightarrow> nat option option" where
  "strstr s sub = do { d \<leftarrow> at sub; if d = 0 then Some (Some 0) else strstr_loop 0 s sub }"

text \<open>The contents of the destination block afterwards.\<close>

fun strcpy :: "u8 list \<Rightarrow> u8 list \<Rightarrow> u8 list option" where
  "strcpy dest [] = None"
| "strcpy [] (c # src) = None"
| "strcpy (_ # dest) (c # src) = (if c = 0 then Some (c # dest) else do { dest \<leftarrow> strcpy dest src; Some (c # dest) })"

fun strcat :: "u8 list \<Rightarrow> u8 list \<Rightarrow> u8 list option" where
  "strcat [] src = None"
| "strcat (d # dest) src =
     (if d = 0 then strcpy (d # dest) src else do { dest \<leftarrow> strcat dest src; Some (d # dest) })"

section \<open>Numbers\<close>

text \<open>The digits, the last one first. The base is not used.\<close>

function digits :: "u32 \<Rightarrow> u8 list" where
  "digits val =
     (let m = val mod 10; res = val div 10
      in if res = 0 then [48 + ucast val] else (48 + ucast m) # digits res)"
  by auto
termination
  by (relation "measure unat") (auto simp: unat_div word_unat_eq_iff)

declare digits.simps [simp del]

text \<open>The digits go through a buffer of \<open>cap\<close> characters: 11 in the kernel, 32 in the user library.\<close>

definition itoa :: "nat \<Rightarrow> u32 \<Rightarrow> u8 list option" where
  "itoa cap val = (if length (digits val) \<le> cap then Some (rev (digits val) @ [0]) else None)"

text \<open>An overflow of the signed variable \<open>val\<close> is undefined. The sign is read and not used.\<close>

definition int32 :: "int \<Rightarrow> int option" where
  "int32 v = (if - (2 ^ 31) \<le> v \<and> v < 2 ^ 31 then Some v else None)"

fun atoi_loop :: "u8 list \<Rightarrow> int \<Rightarrow> int option" where
  "atoi_loop [] val = None"
| "atoi_loop (c # s) val =
     (if c = 0 then Some val
      else do { t \<leftarrow> int32 (val * 10); val \<leftarrow> int32 (t + (uint c - 48)); atoi_loop s val })"

definition atoi :: "u8 list \<Rightarrow> u32 option" where
  "atoi data =
     do { c \<leftarrow> at data;
          let data = (if c = 45 then tl data else data);
          c \<leftarrow> at data;
          v \<leftarrow> atoi_loop (tl data) (uint c - 48);
          Some (word_of_int v) }"

definition RAND_MAX :: u32 where "RAND_MAX = 4294967294"

text \<open>The seed that is kept and the number.\<close>

definition rand :: "u32 \<Rightarrow> u32 \<times> u32" where
  "rand seed = (let seed = seed * 1103515245 + 12345 in (seed mod (RAND_MAX + 1), seed))"

section \<open>Formatted output\<close>

text \<open>The arguments of \<open>printk\<close>, and the characters that a string puts on the console.\<close>

datatype arg = Num u32 | Str "u8 list"

fun printk_char :: "u8 list \<Rightarrow> u8 list option" where
  "printk_char [] = None"
| "printk_char (c # s) = (if c = 0 then Some [] else do { out \<leftarrow> printk_char s; Some (c # out) })"

text \<open>The digits are printed by \<open>printk\<close> itself, which finds no format in them.\<close>

definition printk_num :: "u32 \<Rightarrow> u8 list option" where
  "printk_num val = do { s \<leftarrow> itoa 11 val; printk_char s }"

definition is_format :: "u8 \<Rightarrow> u8 list \<Rightarrow> bool option" where
  "is_format f s = do { c \<leftarrow> at s; if c = 37 then do { d \<leftarrow> at (tl s); Some (d = f) } else Some False }"

text \<open>A \<^verbatim>\<open>%d\<close> (\<open>d\<close> is 100), then a \<^verbatim>\<open>%s\<close> (\<open>s\<close> is 115) at the place reached, then the character there.\<close>

definition print_format :: "u8 \<Rightarrow> (arg \<Rightarrow> u8 list option) \<Rightarrow> u8 list \<times> arg list \<Rightarrow> (u8 list \<times> u8 list \<times> arg list) option" where
  "print_format f put = (\<lambda>(s, args).
     do { b \<leftarrow> is_format f s;
          if b
          then (case args of
                  [] \<Rightarrow> None
                | a # args \<Rightarrow> do { out \<leftarrow> put a; Some (out, drop 2 s, args) })
          else Some ([], s, args) })"

definition put_num :: "arg \<Rightarrow> u8 list option" where
  "put_num a = (case a of Num n \<Rightarrow> printk_num n | Str _ \<Rightarrow> None)"

definition put_str :: "arg \<Rightarrow> u8 list option" where
  "put_str a = (case a of Num _ \<Rightarrow> None | Str s \<Rightarrow> printk_char s)"

definition printk_step :: "u8 list \<Rightarrow> arg list \<Rightarrow> (u8 list \<times> u8 list \<times> arg list) option" where
  "printk_step s args =
     do { (out1, s, args) \<leftarrow> print_format 100 put_num (s, args);
          (out2, s, args) \<leftarrow> print_format 115 put_str (s, args);
          c \<leftarrow> at s;
          Some (out1 @ out2 @ [c], tl s, args) }"

lemma printk_step_shorter: "printk_step s args = Some (out, s', args') \<Longrightarrow> length s' < length s"
  by (cases s) (auto simp: printk_step_def print_format_def is_format_def split: if_splits list.splits bind_splits elim!: at.elims)

function printk :: "u8 list \<Rightarrow> arg list \<Rightarrow> u8 list option" where
  "printk text args =
     do { c \<leftarrow> at text;
          if c = 0 then Some []
          else case printk_step text args of
                 None \<Rightarrow> None
               | Some (out, text', args') \<Rightarrow> do { rest \<leftarrow> printk text' args'; Some (out @ rest) } }"
  by auto
termination
  by (relation "measure (\<lambda>(text, args). length text)") (auto dest: printk_step_shorter)

declare printk.simps [simp del]

section \<open>Bit vectors\<close>

text \<open>The vector with eight bits in a byte (\<^verbatim>\<open>bit_vector.c\<close>).\<close>

definition bit_vector_init :: "u32 \<Rightarrow> u8 list" where
  "bit_vector_init sz = replicate (unat (sz div 8 + 1)) 0"

definition bit_vector_re_init :: "u8 list \<Rightarrow> u32 \<Rightarrow> u8 list option" where
  "bit_vector_re_init v sz =
     (let n = unat (sz div 8 + 1) in if n \<le> length v then Some (replicate n 0 @ drop n v) else None)"

definition bit_vector_set :: "u8 list \<Rightarrow> u32 \<Rightarrow> u8 list option" where
  "bit_vector_set v index =
     (let i = unat (index div 8) in if i < length v then Some (v[i := v ! i OR push_bit (unat (index mod 8)) 1]) else None)"

definition bit_vector_reset :: "u8 list \<Rightarrow> u32 \<Rightarrow> u8 list option" where
  "bit_vector_reset v index =
     (let i = unat (index div 8) in if i < length v then Some (v[i := v ! i AND NOT (push_bit (unat (index mod 8)) 1)]) else None)"

text \<open>The characters are signed and shifted as such; only the last bit of the result counts.\<close>

definition bit_vector_get :: "u8 list \<Rightarrow> u32 \<Rightarrow> u8 option" where
  "bit_vector_get v index =
     (let i = unat (index div 8) in if i < length v then Some (signed_drop_bit (unat (index mod 8)) (v ! i) AND 1) else None)"

text \<open>The vector with a byte for each bit (\<^verbatim>\<open>bit_vector.h\<close>).\<close>

definition byte_vector_init :: "u32 \<Rightarrow> u8 list" where
  "byte_vector_init sz = replicate (unat sz) 0"

definition byte_vector_re_init :: "u8 list \<Rightarrow> u32 \<Rightarrow> u8 list option" where
  "byte_vector_re_init v sz = (if unat sz \<le> length v then Some (replicate (unat sz) 0 @ drop (unat sz) v) else None)"

definition byte_vector_set :: "u8 list \<Rightarrow> u32 \<Rightarrow> u8 list option" where
  "byte_vector_set v index = (if unat index < length v then Some (v[unat index := 1]) else None)"

definition byte_vector_reset :: "u8 list \<Rightarrow> u32 \<Rightarrow> u8 list option" where
  "byte_vector_reset v index = (if unat index < length v then Some (v[unat index := 0]) else None)"

definition byte_vector_get :: "u8 list \<Rightarrow> u32 \<Rightarrow> u8 option" where
  "byte_vector_get v index = (if unat index < length v then Some (v ! unat index) else None)"

section \<open>Searching\<close>

lemma match_prefix: "0 \<notin> set ys \<Longrightarrow> match (xs @ 0 # r) (ys @ 0 # t) = Some (prefix ys xs)"
proof (induction ys arbitrary: xs)
  case (Cons y ys)
  then show ?case by (cases xs) auto
qed simp

lemma add_Suc_fun: "(+) (Suc i) = (\<lambda>k. Suc (i + k))"
  by (rule ext) simp

lemma find_shift: "find P (map Suc js) = map_option Suc (find (\<lambda>j. P (Suc j)) js)"
  by (induction js) auto

lemma strstr_loop_finds:
  assumes "0 \<notin> set ys" and "ys \<noteq> []" and "0 \<notin> set xs"
  shows "strstr_loop i (xs @ 0 # r) (ys @ 0 # t) =
    Some (map_option (\<lambda>k. i + k) (find (\<lambda>j. prefix ys (drop j xs)) [0..<Suc (length xs)]))"
  using assms(3)
proof (induction xs arbitrary: i)
  case Nil
  then show ?case using assms(2) by simp
next
  case (Cons x xs)
  obtain y zs where ys: "ys = y # zs" using assms(2) by (cases ys) auto
  have rest: "strstr_loop (i + 1) (xs @ 0 # r) (ys @ 0 # t) =
      Some (map_option (\<lambda>k. i + k) (find (\<lambda>j. prefix ys (drop j (x # xs))) (map Suc [0..<Suc (length xs)])))"
    using Cons by (simp add: find_shift option.map_comp comp_def del: upt_Suc) (simp add: option.map_comp add_Suc_fun del: upt_Suc)
  have list: "[0..<Suc (length (x # xs))] = 0 # map Suc [0..<Suc (length xs)]"
    by (simp add: map_Suc_upt upt_conv_Cons del: upt_Suc)
  have m: "match (x # xs @ 0 # r) (ys @ 0 # t) = Some (prefix ys (x # xs))"
    using match_prefix [OF assms(1), of "x # xs"] by simp
  have "at (ys @ 0 # t) = Some y" "x \<noteq> y \<Longrightarrow> \<not> prefix ys (x # xs)" by (auto simp: ys)
  then show ?case using rest m Cons.prems unfolding list
    by (cases "x = y") (simp_all del: upt_Suc map_Suc_upt match.simps)
qed

text \<open>On terminated strings \<open>strstr\<close> returns the place of the first occurrence of the second string in the
  first, or \<^verbatim>\<open>NULL\<close> when there is none, and reads neither string behind its end.\<close>

lemma strstr_finds_first:
  assumes "0 \<notin> set xs" and "0 \<notin> set ys"
  shows "strstr (xs @ [0]) (ys @ [0]) = Some (find (\<lambda>i. prefix ys (drop i xs)) [0..<Suc (length xs)])"
proof (cases ys)
  case Nil
  then show ?thesis by (simp add: strstr_def upt_conv_Cons del: upt_Suc)
next
  case (Cons y zs)
  then show ?thesis using strstr_loop_finds [of ys xs 0 "[]" "[]"] assms
    by (simp add: strstr_def option.map_ident del: upt_Suc)
qed

lemma strstr_finds_first_witness: "strstr ([1, 2, 1, 2, 3] @ [0]) ([1, 2, 3] @ [0]) = Some (Some 2)"
  using strstr_finds_first [of "[1, 2, 1, 2, 3]" "[1, 2, 3]"] by (simp add: upt_rec)

section \<open>Numbers and their digits\<close>

lemma printable: "48 \<le> uint (c :: u8) \<Longrightarrow> c \<notin> {0, 45}"
  by auto

lemma int32_small: "0 \<le> w \<Longrightarrow> w < 2 ^ 31 \<Longrightarrow> int32 w = Some w"
  by (simp add: int32_def)

lemma digit_char: "d < 10 \<Longrightarrow> uint (48 + ucast (d :: u32) :: u8) = 48 + uint d" "d < 10 \<Longrightarrow> (48 + ucast d :: u8) \<notin> {0, 45}"
proof -
  assume d: "d < 10"
  then have u: "uint d < 10" by (simp add: word_less_def)
  have "uint (ucast d :: u8) = uint d" using u by (simp add: unsigned_ucast_eq take_bit_int_eq_self)
  then show c: "uint (48 + ucast d :: u8) = 48 + uint d" using u by (simp add: uint_word_ariths)
  have "48 \<le> uint (48 + ucast d :: u8)" using c uint_ge_0 [of d] by linarith
  then show "(48 + ucast d :: u8) \<notin> {0, 45}" by (rule printable)
qed

lemma digits_cases:
  obtains "v < 10" "digits v = [48 + ucast v]"
  | "v div 10 \<noteq> 0" "digits v = (48 + ucast (v mod 10)) # digits (v div 10)"
proof (cases "v div 10 = 0")
  case True
  then have "unat v div 10 = 0" using unat_div [of v 10] by simp
  then show ?thesis using True that(1) by (simp add: digits.simps [of v] word_less_nat_alt)
qed (use that(2) in \<open>simp add: digits.simps [of v]\<close>)

lemma digits_few: "unat v < 10 ^ k \<Longrightarrow> 0 < k \<Longrightarrow> length (digits v) \<le> k"
proof (induction k arbitrary: v)
  case (Suc k)
  show ?case
  proof (cases v rule: digits_cases)
    case 2
    have "unat (v div 10) < 10 ^ k" using Suc.prems by (simp add: unat_div)
    moreover have "unat (v div 10) \<noteq> 0" using 2(1) by (simp add: unat_eq_zero)
    then have "0 < k" using \<open>unat (v div 10) < 10 ^ k\<close> by (cases k) auto
    ultimately show ?thesis using Suc.IH 2(2) by simp
  qed simp
qed simp

lemma atoi_loop_digits: "v < 2 ^ 31 \<Longrightarrow> atoi_loop (rev (digits v) @ s) 0 = atoi_loop s (uint v)"
proof (induction v arbitrary: s rule: digits.induct)
  case (1 v)
  have v: "uint v < 2 ^ 31" "0 \<le> uint v" using "1.prems" by (simp_all add: word_less_def)
  show ?case
  proof (cases v rule: digits_cases)
    case 1
    then have "uint v < 10" by (simp add: word_less_def)
    then show ?thesis using 1 digit_char [of v] v by (simp add: int32_small)
  next
    case 2
    have "v div 10 \<le> v" by (simp add: word_le_nat_alt unat_div)
    then have IH: "atoi_loop (rev (digits (v div 10)) @ t) 0 = atoi_loop t (uint (v div 10))" for t
      using "1.IH" [OF refl refl] 2(1) "1.prems" by (meson le_less_trans)
    have m: "v mod 10 < 10" by (simp add: word_less_nat_alt unat_mod)
    have "uint (v div 10) * 10 + uint (v mod 10) = uint v" by (simp add: uint_div uint_mod)
    moreover have "int32 (uint (v div 10) * 10) = Some (uint (v div 10) * 10)"
      using calculation v uint_ge_0 [of "v mod 10"] by (intro int32_small) (simp, linarith)
    ultimately show ?thesis using IH [of "(48 + ucast (v mod 10)) # s"] 2(2) digit_char [OF m] int32_small [OF v(2,1)] by simp
  qed
qed

text \<open>Every number has at most ten digits, so that with its terminator it fits the buffers of the kernel, and the
  digits of a number that a signed integer holds are read back as that number.\<close>

lemma itoa_atoi:
  "\<exists>s. itoa 11 v = Some s \<and> itoa 32 v = Some s \<and> length s \<le> 11 \<and> (v < 2 ^ 31 \<longrightarrow> atoi s = Some v)"
proof -
  have "unat v < 10 ^ 10" using unsigned_less [of v, where ?'a = nat] by simp
  then have len: "length (digits v) \<le> 10" using digits_few [of v 10] by simp
  obtain c s where c: "rev (digits v) @ [0] = c # s @ [0]" "c \<notin> {0, 45}"
  proof -
    have "\<forall>d\<in>set (digits v). d \<notin> {0, 45}"
    proof (induction v rule: digits.induct)
      case (1 v)
      have m: "v mod 10 < 10" by (simp add: word_less_nat_alt unat_mod)
      show ?case by (cases v rule: digits_cases) (use 1 digit_char(2) [of v] digit_char(2) [OF m] in auto)
    qed
    moreover have "digits v \<noteq> []" by (cases v rule: digits_cases) auto
    then obtain ds d where "digits v = ds @ [d]" by (cases "digits v" rule: rev_cases) auto
    ultimately show ?thesis using that [of d "rev ds"] by simp
  qed
  have "atoi (c # s @ [0]) = do { w \<leftarrow> atoi_loop (c # s @ [0]) 0; Some (word_of_int w) }" if "c \<noteq> 0" "c \<noteq> 45"
  proof -
    have "int32 (uint c - 48) = Some (uint c - 48)" using uint_lt2p [of c] uint_ge_0 [of c] by (simp add: int32_def)
    then show ?thesis using that int32_small [of 0] by (simp add: atoi_def)
  qed
  then have "atoi (rev (digits v) @ [0]) = Some v" if "v < 2 ^ 31" using c atoi_loop_digits [OF that, of "[0]"] by (simp del: atoi_loop.simps(2)) (simp add: word_of_int_uint)
  then show ?thesis using len by (simp add: itoa_def)
qed

lemma itoa_atoi_witness: "\<exists>s. itoa 11 1024 = Some s \<and> atoi s = Some 1024"
  using itoa_atoi [of 1024] by auto

section \<open>Formats\<close>

lemma printk_plain:
  assumes "0 \<notin> set xs" and "37 \<notin> set xs"
  shows "printk (xs @ s) args = do { rest \<leftarrow> printk s args; Some (xs @ rest) }"
  using assms
proof (induction xs)
  case Nil
  then show ?case by (cases "printk s args") auto
next
  case (Cons x xs)
  have "printk_step (x # xs @ s) args = Some ([x], xs @ s, args)"
    using Cons.prems by (simp add: printk_step_def print_format_def is_format_def)
  then show ?case using Cons by (simp add: printk.simps [of "x # xs @ s"])
qed

text \<open>A text without formats is printed as it is. A text that ends in \<^verbatim>\<open>%d\<close> is read behind its end: the
  terminator is printed as if it were a character and the loop goes on.\<close>

lemma printk_format_at_end:
  assumes "0 \<notin> set xs" and "37 \<notin> set xs"
  shows "printk (xs @ [0]) args = Some xs \<and> printk (xs @ [37, 100, 0]) [Num n] = None"
proof -
  have "printk [0] args = Some []" by (simp add: printk.simps [of "[0]"])
  moreover have "printk [] as = None" for as by (simp add: printk.simps [of "[]"])
  then have "printk [37, 100, 0] [Num n] = None"
    by (cases "printk_num n")
      (simp_all add: printk.simps [of "[37, 100, 0]"] printk_step_def print_format_def is_format_def put_num_def)
  ultimately show ?thesis using printk_plain [OF assms] by simp
qed

lemma printk_format_at_end_witness: "printk ([110, 61] @ [0]) [] = Some [110, 61] \<and> printk ([110, 61] @ [37, 100, 0]) [Num 7] = None"
  using printk_format_at_end [of "[110, 61]" "[]" 7] by simp

section \<open>Vectors of bits\<close>

text \<open>What both kinds of vector promise. An index is valid when it can be read.\<close>

locale bool_vector =
  fixes init :: "u32 \<Rightarrow> 'v"
    and put1 :: "'v \<Rightarrow> u32 \<Rightarrow> 'v option"
    and put0 :: "'v \<Rightarrow> u32 \<Rightarrow> 'v option"
    and get :: "'v \<Rightarrow> u32 \<Rightarrow> u8 option"
  assumes get_init: "i < sz \<Longrightarrow> get (init sz) i = Some 0"
    and get_put1: "get v i \<noteq> None \<Longrightarrow> \<exists>w. put1 v i = Some w \<and> (\<forall>j. get w j = (if j = i then Some 1 else get v j))"
    and get_put0: "get v i \<noteq> None \<Longrightarrow> \<exists>w. put0 v i = Some w \<and> (\<forall>j. get w j = (if j = i then Some 0 else get v j))"

text \<open>A sequence of updates, each with the bit it stores, and the last bit stored at an index.\<close>

definition update_bit :: "('v \<Rightarrow> u32 \<Rightarrow> 'v option) \<Rightarrow> ('v \<Rightarrow> u32 \<Rightarrow> 'v option) \<Rightarrow> u32 \<times> bool \<Rightarrow> 'v \<Rightarrow> 'v option" where
  "update_bit put1 put0 u v = (if snd u then put1 v (fst u) else put0 v (fst u))"

definition last_bit :: "(u32 \<times> bool) list \<Rightarrow> u32 \<Rightarrow> u8" where
  "last_bit us j = (case map_of (rev us) j of Some True \<Rightarrow> 1 | _ \<Rightarrow> 0)"

context bool_vector
begin

lemma update_valid:
  assumes "get v (fst u) \<noteq> None"
  shows "\<exists>w. update_bit put1 put0 u v = Some w \<and> (\<forall>j. get w j = (if j = fst u then Some (of_bool (snd u)) else get v j))"
  using get_put1 [OF assms] get_put0 [OF assms] by (cases "snd u") (auto simp: update_bit_def)

lemma updates_last:
  assumes "\<forall>u\<in>set us. fst u < sz"
  shows "\<exists>v. for_each (update_bit put1 put0) us (init sz) = Some v \<and> (\<forall>j < sz. get v j = Some (last_bit us j))"
  using assms
proof (induction us rule: rev_induct)
  case Nil
  then show ?case by (simp add: get_init last_bit_def)
next
  case (snoc u us)
  then obtain v where v: "for_each (update_bit put1 put0) us (init sz) = Some v" "\<forall>j < sz. get v j = Some (last_bit us j)" by auto
  then have "get v (fst u) \<noteq> None" using snoc.prems by simp
  then obtain w where w: "update_bit put1 put0 u v = Some w" "\<forall>j. get w j = (if j = fst u then Some (of_bool (snd u)) else get v j)"
    using update_valid by blast
  have "last_bit (us @ [u]) j = (if j = fst u then of_bool (snd u) else last_bit us j)" for j
    by (cases u) (auto simp: last_bit_def split: bool.split)
  then show ?case using v w by (simp add: for_each_append)
qed

end

lemma get_bit: "bit_vector_get v i = (if unat i div 8 < length v then Some (of_bool (bit (v ! (unat i div 8)) (unat i mod 8))) else None)"
proof -
  have "signed_drop_bit n x AND 1 = of_bool (bit (x :: u8) n)" if "n < 8" for n x
    using that by (intro bit_word_eqI) (auto simp: bit_simps)
  then show ?thesis by (simp add: bit_vector_get_def unat_div unat_mod Let_def)
qed

lemma unat_split_eq: "j = i \<longleftrightarrow> unat j div 8 = unat i div 8 \<and> unat j mod 8 = unat (i :: u32) mod 8"
  by (metis div_mult_mod_eq word_unat_eq_iff)

interpretation bits: bool_vector bit_vector_init bit_vector_set bit_vector_reset bit_vector_get
proof unfold_locales
  fix i sz :: u32
  assume "i < sz"
  then have "unat i div 8 < unat (sz div 8 + 1)" using unsigned_less [of sz, where ?'a = nat]
    by (simp add: unat_word_ariths unat_div word_less_nat_alt)
  then show "bit_vector_get (bit_vector_init sz) i = Some 0" by (simp add: get_bit bit_vector_init_def)
next
  fix v :: "u8 list" and i
  assume "bit_vector_get v i \<noteq> None"
  then have i: "unat i div 8 < length v" by (simp add: get_bit split: if_splits)
  let ?w = "v[unat i div 8 := v ! (unat i div 8) OR push_bit (unat i mod 8) 1]"
  have "bit_vector_get ?w j = (if j = i then Some 1 else bit_vector_get v j)" for j
    using i unat_split_eq [of j i] by (auto simp: get_bit nth_list_update bit_simps)
  then show "\<exists>w. bit_vector_set v i = Some w \<and> (\<forall>j. bit_vector_get w j = (if j = i then Some 1 else bit_vector_get v j))"
    using i by (simp add: bit_vector_set_def unat_div unat_mod Let_def)
next
  fix v :: "u8 list" and i
  assume "bit_vector_get v i \<noteq> None"
  then have i: "unat i div 8 < length v" by (simp add: get_bit split: if_splits)
  let ?w = "v[unat i div 8 := v ! (unat i div 8) AND NOT (push_bit (unat i mod 8) 1)]"
  have "bit_vector_get ?w j = (if j = i then Some 0 else bit_vector_get v j)" for j
    using i unat_split_eq [of j i] by (auto simp: get_bit nth_list_update bit_simps)
  then show "\<exists>w. bit_vector_reset v i = Some w \<and> (\<forall>j. bit_vector_get w j = (if j = i then Some 0 else bit_vector_get v j))"
    using i by (simp add: bit_vector_reset_def unat_div unat_mod Let_def)
qed

interpretation bytes: bool_vector byte_vector_init byte_vector_set byte_vector_reset byte_vector_get
  by unfold_locales
    (auto simp: byte_vector_init_def byte_vector_set_def byte_vector_reset_def byte_vector_get_def word_less_nat_alt word_unat_eq_iff split: if_splits)

text \<open>C40: The vector that packs eight bits in a byte and the one with a byte for each bit answer every index alike
  after any updates of valid indices: the last bit stored there, or zero.\<close>

theorem bit_vectors_agree:
  assumes "\<forall>u\<in>set us. fst u < sz"
  shows "\<exists>v w. for_each (update_bit bit_vector_set bit_vector_reset) us (bit_vector_init sz) = Some v \<and>
    for_each (update_bit byte_vector_set byte_vector_reset) us (byte_vector_init sz) = Some w \<and>
    (\<forall>j < sz. bit_vector_get v j = Some (last_bit us j) \<and> byte_vector_get w j = Some (last_bit us j))"
  using bits.updates_last [OF assms] bytes.updates_last [OF assms] by blast

theorem bit_vectors_agree_witness:
  "\<exists>v w. for_each (update_bit bit_vector_set bit_vector_reset) [(9, True), (3, True), (9, False)] (bit_vector_init 20) = Some v \<and>
    bit_vector_get v 3 = Some 1 \<and> bit_vector_get v 9 = Some 0 \<and>
    for_each (update_bit byte_vector_set byte_vector_reset) [(9, True), (3, True), (9, False)] (byte_vector_init 20) = Some w \<and>
    byte_vector_get w 3 = Some 1 \<and> byte_vector_get w 9 = Some 0"
proof -
  let ?us = "[(9, True), (3, True), (9, False)] :: (u32 \<times> bool) list"
  have "last_bit ?us 3 = 1" "last_bit ?us 9 = 0" by (simp_all add: last_bit_def)
  then show ?thesis using bit_vectors_agree [of ?us 20] by auto
qed

end
