(* ===== verification/Console.thy ===== *)
theory Console
  imports Lib
begin

text \<open>
  The console (\<^verbatim>\<open>src/console/console.c\<close>): a ring buffer of output, a window on it that the screen shows, and the
  functions of the display it draws with, which are arguments here. Each call holds the spin lock of the console
  or runs with interrupts disabled, so it is one step. The input side is in \<open>Keyboard\<close>.
\<close>

section \<open>State\<close>

definition CHAR_NULL :: u8 where "CHAR_NULL = 0x20"
definition SCREEN_WIDTH :: u32 where "SCREEN_WIDTH = 113"
definition SCREEN_LENGTH :: u32 where "SCREEN_LENGTH = 33"
definition SCREEN_AREA :: u32 where "SCREEN_AREA = SCREEN_WIDTH * SCREEN_LENGTH"

lemma screen_simps [simp]: "SCREEN_WIDTH = 113" "SCREEN_AREA = 3729" "CHAR_NULL = 32"
  by (simp_all add: SCREEN_WIDTH_def SCREEN_LENGTH_def SCREEN_AREA_def CHAR_NULL_def)

definition INC :: "u32 \<Rightarrow> u32 \<Rightarrow> u32 \<Rightarrow> u32 \<Rightarrow> u32" where
  "INC x y z w = (if x + z \<ge> y then w else x + z)"

record console =
  out_buf :: "u8 list"
  out_buf_index :: u32
  out_window_start :: u32
  out_window_end :: u32
  out_buf_len :: u32
  video_buf_index :: u32
  first_char :: u32

text \<open>\<open>junk\<close> is the block the heap gives; the window is not set.\<close>

definition init_console :: "u32 \<Rightarrow> u8 list \<Rightarrow> console \<Rightarrow> console option" where
  "init_console out_buf_mult junk c =
     (if length junk = unat (out_buf_mult * SCREEN_AREA)
      then Some (c\<lparr>out_buf := junk, out_buf_len := out_buf_mult * SCREEN_AREA, out_buf_index := -1, video_buf_index := -1, first_char := 1\<rparr>)
      else None)"

section \<open>Output\<close>

type_synonym 'v display = "u32 \<Rightarrow> u8 \<Rightarrow> 'v \<Rightarrow> 'v option"

definition buf_at :: "console \<Rightarrow> u32 \<Rightarrow> u8 option" where
  "buf_at c i = (if unat i < length (out_buf c) then Some (out_buf c ! unat i) else None)"

definition buf_put :: "u32 \<Rightarrow> u8 \<Rightarrow> console \<Rightarrow> console option" where
  "buf_put i d c = (if unat i < length (out_buf c) then Some (c\<lparr>out_buf := (out_buf c)[unat i := d]\<rparr>) else None)"

definition scroll_line :: "'v display \<Rightarrow> console \<Rightarrow> u32 \<times> u32 \<times> 'v \<Rightarrow> (u32 \<times> u32 \<times> 'v) option" where
  "scroll_line wr c = (\<lambda>(index_1, index_2, v).
     do { let index_1 = INC index_1 (out_buf_len c) 1 0;
          d \<leftarrow> buf_at c index_1;
          v \<leftarrow> wr index_2 d v;
          Some (index_1, index_2 + 1, v) })"

definition scroll_blank :: "'v display \<Rightarrow> u32 \<times> 'v \<Rightarrow> (u32 \<times> 'v) option" where
  "scroll_blank wr = (\<lambda>(index_2, v). do { v \<leftarrow> wr index_2 CHAR_NULL v; Some (index_2 + 1, v) })"

definition scroll :: "'v display \<Rightarrow> console \<times> 'v \<Rightarrow> (console \<times> 'v) option" where
  "scroll wr = (\<lambda>(c, v).
     do { let c = c\<lparr>out_window_start := INC (out_window_start c) (out_buf_len c) SCREEN_WIDTH 0,
                    out_window_end := INC (out_window_end c) (out_buf_len c) SCREEN_WIDTH (SCREEN_WIDTH - 1)\<rparr>;
          (_, index_2, v) \<leftarrow> for_each (\<lambda>_. scroll_line wr c) [0..<unat (SCREEN_AREA - SCREEN_WIDTH)] (out_window_start c - 1, 0, v);
          let c = c\<lparr>video_buf_index := index_2 - 1\<rparr>;
          (_, v) \<leftarrow> for_each (\<lambda>_. scroll_blank wr) [0..<unat SCREEN_WIDTH] (index_2, v);
          Some (c, v) })"

definition write_out_buf :: "'v display \<Rightarrow> u8 \<Rightarrow> console \<times> 'v \<Rightarrow> (console \<times> 'v) option" where
  "write_out_buf wr data = (\<lambda>(c, v).
     do { let c = c\<lparr>out_buf_index := INC (out_buf_index c) (out_buf_len c) 1 0\<rparr>;
          c \<leftarrow> buf_put (out_buf_index c) data c;
          (c, v) \<leftarrow> (if out_buf_index c = 0 \<and> first_char c \<noteq> 0
                     then Some (c\<lparr>out_window_start := 0, out_window_end := SCREEN_AREA - 1, first_char := 0\<rparr>, v)
                     else if out_buf_index c > out_window_end c \<or> out_buf_index c = 0 then scroll wr (c, v)
                     else Some (c, v));
          let c = c\<lparr>video_buf_index := INC (video_buf_index c) SCREEN_AREA 1 0\<rparr>;
          d \<leftarrow> buf_at c (out_buf_index c);
          v \<leftarrow> wr (video_buf_index c) d v;
          Some (c, v) })"

text \<open>A new line (10) fills the line with blanks.\<close>

definition write_char :: "'v display \<Rightarrow> u8 \<Rightarrow> console \<times> 'v \<Rightarrow> (console \<times> 'v) option" where
  "write_char wr data s =
     (if data = 10
      then for_each (\<lambda>_. write_out_buf wr CHAR_NULL) [0..<unat (SCREEN_WIDTH - 1 - out_buf_index (fst s) mod SCREEN_WIDTH)] s
      else write_out_buf wr data s)"

definition write_char_no_irq :: "'v display \<Rightarrow> u8 \<Rightarrow> console \<times> 'v \<Rightarrow> (console \<times> 'v) option" where
  "write_char_no_irq wr data s =
     (if data = 10
      then for_each (\<lambda>_. write_out_buf wr CHAR_NULL) [0..<unat (SCREEN_WIDTH - 1 - out_buf_index (fst s) mod SCREEN_WIDTH)] s
      else write_out_buf wr data s)"

definition update_cursor :: "'v display \<Rightarrow> (u32 \<Rightarrow> 'v \<Rightarrow> 'v option) \<Rightarrow> console \<times> 'v \<Rightarrow> (console \<times> 'v) option" where
  "update_cursor wr cur s =
     do { (c, v) \<leftarrow> (if out_buf_index (fst s) = out_window_end (fst s) then scroll wr s else Some s);
          v \<leftarrow> cur (INC (video_buf_index c) (out_buf_len c) 1 0) v;
          Some (c, v) }"

definition echo_char :: "'v display \<Rightarrow> (u32 \<Rightarrow> 'v \<Rightarrow> 'v option) \<Rightarrow> u8 \<Rightarrow> console \<times> 'v \<Rightarrow> (console \<times> 'v) option" where
  "echo_char wr cur data s = do { s \<leftarrow> write_char wr data s; update_cursor wr cur s }"

definition delete_char :: "'v display \<Rightarrow> console \<times> 'v \<Rightarrow> (console \<times> 'v) option" where
  "delete_char wr = (\<lambda>(c, v).
     do { v \<leftarrow> wr (video_buf_index c + 1) CHAR_NULL v;
          c \<leftarrow> buf_put (out_buf_index c) CHAR_NULL c;
          v \<leftarrow> wr (video_buf_index c) CHAR_NULL v;
          Some (c\<lparr>out_buf_index := out_buf_index c - 1, video_buf_index := video_buf_index c - 1\<rparr>, v) })"

definition enable_cursor :: "'v display \<Rightarrow> (u32 \<Rightarrow> 'v \<Rightarrow> 'v option) \<Rightarrow> console \<times> 'v \<Rightarrow> (console \<times> 'v) option" where
  "enable_cursor = update_cursor"

definition disable_cursor :: "'v display \<Rightarrow> (u32 \<Rightarrow> 'v \<Rightarrow> 'v option) \<Rightarrow> console \<times> 'v \<Rightarrow> (console \<times> 'v) option" where
  "disable_cursor = update_cursor"

text \<open>What \<open>printk\<close> prints goes to the console of the current process.\<close>

definition print_console :: "'v display \<Rightarrow> u8 list \<Rightarrow> arg list \<Rightarrow> console \<times> 'v \<Rightarrow> (console \<times> 'v) option" where
  "print_console wr text args s = do { out \<leftarrow> printk text args; for_each (write_char_no_irq wr) out s }"

section \<open>What the screen shows\<close>

text \<open>The first line of the text on the screen when \<open>n\<close> characters have been written.\<close>

definition top_line :: "nat \<Rightarrow> nat" where
  "top_line n = (n - 1) div 113 - 32"

text \<open>
  The text so far, new lines expanded: the ring holds its last characters, the screen its last 33 lines.
  \<open>cell\<close> is what the display shows at a place, \<open>glyph\<close> what a character looks like.
\<close>

definition ring_ok :: "u8 list \<Rightarrow> console \<Rightarrow> bool" where
  "ring_ok tx c \<longleftrightarrow> length (out_buf c) = unat (out_buf_len c) \<and> 3729 \<le> unat (out_buf_len c) \<and> 113 dvd unat (out_buf_len c) \<and>
     unat (out_buf_len c) < 2 ^ 31 \<and>
     (\<forall>j<length tx. length tx \<le> j + unat (out_buf_len c) \<longrightarrow> out_buf c ! (j mod unat (out_buf_len c)) = tx ! j)"

definition window_ok :: "nat \<Rightarrow> console \<Rightarrow> bool" where
  "window_ok n c \<longleftrightarrow> (let t = 113 * top_line n; len = unat (out_buf_len c) in
     if n = 0 then first_char c \<noteq> 0 \<and> out_buf_index c = -1 \<and> video_buf_index c = -1
     else first_char c = 0 \<and> unat (out_buf_index c) = (n - 1) mod len \<and> unat (video_buf_index c) = n - 1 - t \<and>
       unat (out_window_start c) = t mod len \<and> unat (out_window_end c) = (t + 3728) mod len)"

definition screen_ok :: "('v \<Rightarrow> nat \<Rightarrow> 'g) \<Rightarrow> (u8 \<Rightarrow> 'g) \<Rightarrow> u8 list \<Rightarrow> 'v \<Rightarrow> bool" where
  "screen_ok cell glyph tx v \<longleftrightarrow> (let t = 113 * top_line (length tx) in
     (\<forall>k<length tx - t. cell v k = glyph (tx ! (t + k))) \<and>
     (0 < t \<longrightarrow> (\<forall>k<3729. length tx \<le> t + k \<longrightarrow> cell v k = glyph 32)))"

definition expand :: "u8 list \<Rightarrow> u8 \<Rightarrow> u8 list" where
  "expand tx c =
     (if c \<noteq> 10 then tx @ [c]
      else tx @ replicate (if tx = [] then 97 else 112 - (length tx - 1) mod 113) 32)"

definition console_shows :: "('v \<Rightarrow> nat \<Rightarrow> 'g) \<Rightarrow> (u8 \<Rightarrow> 'g) \<Rightarrow> u8 list \<Rightarrow> console \<times> 'v \<Rightarrow> bool" where
  "console_shows cell glyph tx s \<longleftrightarrow> ring_ok tx (fst s) \<and> window_ok (length tx) (fst s) \<and> screen_ok cell glyph tx (snd s)"

lemma top_line_bounds: "0 < n \<Longrightarrow> 113 * top_line n \<le> n - 1" "n \<le> 113 * top_line n + 3729"
  "0 < top_line n \<Longrightarrow> 113 * top_line n + 3616 < n"
  by (auto simp: top_line_def)

lemma top_line_next:
  "0 < n \<Longrightarrow> n < 113 * top_line n + 3729 \<Longrightarrow> top_line (Suc n) = top_line n"
  "n = 113 * top_line n + 3729 \<Longrightarrow> top_line (Suc n) = Suc (top_line n)"
proof -
  assume n: "0 < n" "n < 113 * top_line n + 3729"
  show "top_line (Suc n) = top_line n"
  proof (cases "top_line n = 0")
    case True
    then show ?thesis using n by (simp add: top_line_def)
  next
    case False
    then have "n < 113 * Suc ((n - 1) div 113)" using n(2) by (simp add: top_line_def)
    moreover have "113 * ((n - 1) div 113) \<le> n" using n(1) by linarith
    ultimately have "n div 113 = (n - 1) div 113" by (intro div_nat_eqI) auto
    then show ?thesis by (simp add: top_line_def)
  qed
next
  assume n: "n = 113 * top_line n + 3729"
  then have "n div 113 = top_line n + 33" by linarith
  then show "top_line (Suc n) = Suc (top_line n)" unfolding top_line_def [of "Suc n"] by simp
qed

lemma unat_INC:
  assumes "unat x + unat z < 2 ^ 32"
  shows "unat (INC x y z w) = (if unat y \<le> unat x + unat z then unat w else unat x + unat z)"
proof -
  have "unat (x + z) = unat x + unat z" using assms by (simp add: unat_word_ariths)
  then show ?thesis by (simp add: INC_def word_le_nat_alt)
qed

lemma step_mod: "0 < (len :: nat) \<Longrightarrow> (if len \<le> m mod len + 1 then 0 else m mod len + 1) = Suc m mod len"
proof -
  assume "0 < len"
  then have "m mod len < len" by simp
  then show ?thesis by (cases "Suc (m mod len) = len") (simp_all add: mod_Suc)
qed

text \<open>Steps of a line stay on the grid of lines.\<close>

lemma line_mod:
  assumes "113 dvd len" and "113 dvd t" and "0 < (len :: nat)"
  shows "(if len \<le> t mod len + 113 then 0 else t mod len + 113) = (t + 113) mod len"
    "(if len \<le> (t + 3728) mod len + 113 then 112 else (t + 3728) mod len + 113) = (t + 3841) mod len"
proof -
  have grid: "m mod len + 113 \<le> len" if "113 dvd m" for m
  proof -
    have "113 dvd m mod len" using that assms(1) by (simp add: dvd_mod)
    then obtain a b where a: "m mod len = 113 * a" "len = 113 * b" using assms(1) by (auto elim!: dvdE)
    moreover have "m mod len < len" using assms(3) by simp
    ultimately show ?thesis by simp
  qed
  have add: "(m + 113) mod len = (if m mod len + 113 = len then 0 else m mod len + 113)" if "113 dvd m" for m
    using grid [OF that] mod_add_left_eq [of m len 113] by (cases "m mod len + 113 = len") simp_all
  show "(if len \<le> t mod len + 113 then 0 else t mod len + 113) = (t + 113) mod len"
    using grid [OF assms(2)] add [OF assms(2)] by auto
  have d: "113 dvd t + 3616" "113 dvd t + 3729" using assms(2) by (simp_all add: dvd_add_left_iff)
  have off: "(m + 112) mod len = m mod len + 112" if "113 dvd m" for m
    using grid [OF that] mod_add_left_eq [of m len 112] by simp
  have e: "(t + 3728) mod len = (t + 3616) mod len + 112" "(t + 3841) mod len = (t + 3729) mod len + 112"
    using off [OF d(1)] off [OF d(2)] by (simp_all add: add.assoc)
  have "(t + 3729) mod len = (if (t + 3616) mod len + 113 = len then 0 else (t + 3616) mod len + 113)"
    using add [OF d(1)] by (simp add: add.assoc)
  then show "(if len \<le> (t + 3728) mod len + 113 then 112 else (t + 3728) mod len + 113) = (t + 3841) mod len"
    using e grid [OF d(1)] grid [OF d(2)] by auto
qed

text \<open>Storing the next character in the ring.\<close>

lemma ring_put:
  assumes "ring_ok tx c" and "unat i = length tx mod unat (out_buf_len c)"
  obtains b where "buf_put i d c = Some (c\<lparr>out_buf := b\<rparr>)" "ring_ok (tx @ [d]) (c\<lparr>out_buf := b\<rparr>)" "buf_at (c\<lparr>out_buf := b\<rparr>) i = Some d"
proof -
  let ?len = "unat (out_buf_len c)" and ?n = "length tx"
  let ?c = "c\<lparr>out_buf := (out_buf c)[?n mod ?len := d]\<rparr>"
  have len: "length (out_buf c) = ?len" "0 < ?len" using assms(1) by (auto simp: ring_ok_def)
  then have i: "?n mod ?len < length (out_buf c)" by simp
  have "?n mod ?len \<noteq> j mod ?len" if "j < ?n" "Suc ?n \<le> j + ?len" for j
    using that unfolding Suc_le_eq by (metis add_diff_inverse_nat less_diff_conv2 less_imp_le_nat mod_eq_dvd_iff_nat nat_dvd_not_less not_less_iff_gr_or_eq zero_less_diff add.commute)
  then have "ring_ok (tx @ [d]) ?c"
    using assms(1) i by (auto simp: ring_ok_def nth_append less_Suc_eq nth_list_update)
  moreover have "buf_put i d c = Some ?c" "buf_at ?c i = Some d" using assms(2) i by (simp_all add: buf_put_def buf_at_def)
  ultimately show ?thesis using that by blast
qed

lemma next_index:
  assumes "window_ok n c" and "ring_ok tx c"
  shows "unat (INC (out_buf_index c) (out_buf_len c) 1 0) = n mod unat (out_buf_len c)"
proof (cases n)
  case 0
  then show ?thesis using assms by (simp add: window_ok_def INC_def ring_ok_def word_le_nat_alt)
next
  case (Suc m)
  have len: "0 < unat (out_buf_len c)" "unat (out_buf_len c) < 2 ^ 31" using assms(2) by (auto simp: ring_ok_def)
  have i: "unat (out_buf_index c) = m mod unat (out_buf_len c)" using assms(1) Suc by (simp add: window_ok_def Let_def)
  then have "unat (out_buf_index c) + unat (1 :: u32) < 2 ^ 32" using len mod_less_divisor [OF len(1), of m] by simp
  then show ?thesis using unat_INC [of "out_buf_index c" 1 "out_buf_len c" 0] i step_mod [OF len(1), of m] Suc by (auto split: if_splits)
qed

text \<open>The window scrolls exactly when the text has reached its end.\<close>

lemma window_full:
  assumes "window_ok n c" and "ring_ok tx c" and "0 < n" and "unat i = n mod unat (out_buf_len c)"
  shows "(i > out_window_end c \<or> i = 0) = (n = 113 * top_line n + 3729)"
proof -
  let ?len = "unat (out_buf_len c)" and ?t = "113 * top_line n"
  have len: "3729 \<le> ?len" "113 dvd ?len" using assms(2) by (auto simp: ring_ok_def)
  have e: "unat (out_window_end c) = (?t + 3728) mod ?len" using assms(1,3) by (simp add: window_ok_def Let_def)
  have iff: "(i > out_window_end c \<or> i = 0) = ((?t + 3728) mod ?len < n mod ?len \<or> n mod ?len = 0)"
    using assms(4) e by (simp add: word_less_nat_alt word_unat_eq_iff)
  show ?thesis
  proof (cases "n = ?t + 3729")
    case True
    have "x = y + 3729 \<Longrightarrow> x mod l = Suc (y + 3728) mod l" for x y l :: nat by (simp add: add.commute)
    then have "n mod ?len = Suc (?t + 3728) mod ?len" using True by blast
    then have "n mod ?len = (if Suc ((?t + 3728) mod ?len) = ?len then 0 else Suc ((?t + 3728) mod ?len))"
      using mod_Suc by (rule trans)
    then have "(?t + 3728) mod ?len < n mod ?len \<or> n mod ?len = 0" by simp
    then have full: "i > out_window_end c \<or> i = 0" by (rule iffD2 [OF iff])
    show ?thesis by (rule iffI) (rule True, rule full)
  next
    case False
    then have n: "n < ?t + 3729" using top_line_bounds(2) [of n] by simp
    have "n mod ?len \<le> (?t + 3728) mod ?len \<and> n mod ?len \<noteq> 0"
    proof (cases "top_line n = 0")
      case True
      then show ?thesis using n assms(3) len by simp
    next
      case False
      then have lo: "?t + 3616 < n" using top_line_bounds(3) [of n] by simp
      obtain a b where ab: "(?t + 3616) mod ?len = 113 * a" "?len = 113 * b"
      proof -
        have "113 dvd ?t + 3616" by (simp add: dvd_add_right_iff)
        then have "113 dvd (?t + 3616) mod ?len" using len(2) by (simp add: dvd_mod)
        then show ?thesis using that len(2) by (auto elim!: dvdE)
      qed
      then have "a < b" using mod_less_divisor [of ?len "?t + 3616"] len(1) by simp
      then have "(?t + 3616) mod ?len + k < ?len" if "k < 113" for k using ab that by simp
      then have m: "(?t + 3616 + k) mod ?len = (?t + 3616) mod ?len + k" if "k < 113" for k
        using that mod_add_left_eq [of "?t + 3616" ?len k] by simp
      define k where "k = n - (?t + 3616)"
      have k: "0 < k" "k < 113" "n = ?t + 3616 + k" using lo n by (simp_all add: k_def)
      have "n mod ?len = (?t + 3616 + k) mod ?len" using k(3) by (rule arg_cong)
      moreover have "(?t + 3728) mod ?len = (?t + 3616) mod ?len + 112" using m [of 112] by (simp add: add.assoc)
      ultimately show ?thesis using m [OF k(2)] k(1,2) by linarith
    qed
    then show ?thesis using iff False by auto
  qed
qed

section \<open>Displays\<close>

text \<open>
  What the console relies on: drawing a character that the display knows changes one place of the screen
  to its picture.
\<close>

locale display =
  fixes wr :: "'v display"
    and cell :: "'v \<Rightarrow> nat \<Rightarrow> 'g"
    and glyph :: "u8 \<Rightarrow> 'g"
    and known :: "u8 \<Rightarrow> bool"
    and good :: "'v \<Rightarrow> bool"
  assumes draws: "good v \<Longrightarrow> known d \<Longrightarrow> unat i < 3729 \<Longrightarrow>
      \<exists>w. wr i d v = Some w \<and> good w \<and> (\<forall>j<3729. cell w j = (if j = unat i then glyph d else cell v j))"
    and blank_known: "known 32"
begin

lemma scroll_lines:
  assumes "good v" and "length (out_buf c) = unat (out_buf_len c)" and "0 < unat (out_buf_len c)" and "unat (out_buf_len c) < 2 ^ 31"
    and "unat (out_window_start c) < unat (out_buf_len c)"
    and "\<forall>k<3616. known (out_buf c ! ((unat (out_window_start c) + k) mod unat (out_buf_len c)))"
  shows "\<exists>i w. for_each (\<lambda>_. scroll_line wr c) [0..<3616] (out_window_start c - 1, 0, v) = Some (i, 3616, w) \<and> good w \<and>
    (\<forall>k<3616. cell w k = glyph (out_buf c ! ((unat (out_window_start c) + k) mod unat (out_buf_len c))))"
proof -
  let ?len = "unat (out_buf_len c)" and ?p = "\<lambda>k. (unat (out_window_start c) + k) mod unat (out_buf_len c)"
  define P where "P k = (\<lambda>(i :: u32, i2, w). (unat (i + 1) = ?p k \<or> unat (i + 1) = ?len \<and> ?p k = 0) \<and> i2 = (of_nat k :: u32) \<and> good w \<and>
    (\<forall>j<k. cell w j = glyph (out_buf c ! ?p j)))" for k :: nat
  have step: "\<exists>t. scroll_line wr c s = Some t \<and> P (Suc k) t" if k: "k < 3616" and P: "P k s" for k s
  proof -
    obtain i i2 w where s: "s = (i, i2, w)" by (cases s) auto
    have p: "?p k < ?len" using assms(3) by simp
    have q: "?p k + 1 < 2 ^ 32" using p assms(4) by simp
    have u: "unat (of_nat (?p k) :: u32) = ?p k" using q by (simp add: unat_of_nat take_bit_nat_eq_self)
    then have u: "unat (of_nat (?p k) :: u32) = ?p k" "unat i2 = k" "i2 + 1 = of_nat (Suc k)" "unat (of_nat (?p k) + 1 :: u32) = ?p k + 1"
      using q k P by (simp_all add: unat_of_nat take_bit_nat_eq_self s P_def unat_word_ariths)
    have inc: "INC i (out_buf_len c) 1 0 = of_nat (?p k)"
      using P p u(1) by (auto simp: INC_def s P_def word_le_nat_alt word_unat_eq_iff)
    obtain w' where w': "wr i2 (out_buf c ! ?p k) w = Some w'" "good w'"
        "\<forall>j<3729. cell w' j = (if j = k then glyph (out_buf c ! ?p k) else cell w j)"
      using draws [of w "out_buf c ! ?p k" i2] assms(6) k P u(2) by (auto simp: s P_def)
    have "?p (Suc k) = (if ?len \<le> ?p k + 1 then 0 else ?p k + 1)" using step_mod [OF assms(3), of "unat (out_window_start c) + k"] by simp
    then have "P (Suc k) (of_nat (?p k), i2 + 1, w')"
      using P w' u k p by (auto simp: P_def s less_Suc_eq)
    then show ?thesis using w'(1) inc p u(1) assms(2) by (simp add: scroll_line_def s buf_at_def)
  qed
  have "P 0 (out_window_start c - 1, 0, v)" using assms(1,5) by (simp add: P_def)
  then obtain t where "for_each (\<lambda>_. scroll_line wr c) [0..<3616] (out_window_start c - 1, 0, v) = Some t" "P 3616 t"
    using for_upto_runs [of P 0 _ 3616 "\<lambda>_. scroll_line wr c"] step by blast
  then show ?thesis by (cases t) (auto simp: P_def)
qed

lemma scroll_blanks:
  assumes "good v"
  shows "\<exists>i w. for_each (\<lambda>_. scroll_blank wr) [0..<113] (3616, v) = Some (i, w) \<and> good w \<and>
    (\<forall>k<3729. cell w k = (if k < 3616 then cell v k else glyph 32))"
proof -
  define P where "P k = (\<lambda>(i, w). i = (of_nat (3616 + k) :: u32) \<and> good w \<and>
    (\<forall>j<3729. cell w j = (if 3616 \<le> j \<and> j < 3616 + k then glyph 32 else cell v j)))" for k :: nat
  have step: "\<exists>t. scroll_blank wr s = Some t \<and> P (Suc k) t" if k: "k < 113" and P: "P k s" for k s
  proof -
    obtain i w where s: "s = (i, w)" by (cases s) auto
    have i: "i = of_nat (3616 + k)" using P by (simp add: P_def s)
    then have u: "unat i = 3616 + k" "i + 1 = of_nat (3616 + Suc k)" using k
      by (simp add: unat_of_nat take_bit_nat_eq_self del: of_nat_add) (simp add: i)
    obtain w' where w': "wr i 32 w = Some w'" "good w'" "\<forall>j<3729. cell w' j = (if j = 3616 + k then glyph 32 else cell w j)"
      using draws [of w 32 i] blank_known P k u(1) by (auto simp: s P_def)
    then have "P (Suc k) (i + 1, w')" using P u(2) by (auto simp: P_def s)
    then show ?thesis using w'(1) by (simp add: scroll_blank_def s)
  qed
  have "P 0 (3616, v)" using assms by (auto simp: P_def)
  then obtain t where "for_each (\<lambda>_. scroll_blank wr) [0..<113] (3616, v) = Some t" "P 113 t"
    using for_upto_runs [of P 0 _ 113 "\<lambda>_. scroll_blank wr"] step by blast
  then show ?thesis by (cases t) (auto simp: P_def)
qed

lemma scroll_shows:
  assumes "good v" and "length (out_buf c) = len" and "len = unat (out_buf_len c)" and "3729 \<le> len" and "113 dvd len" and "len < 2 ^ 31"
    and "113 dvd t" and "unat (out_window_start c) = t mod len" and "unat (out_window_end c) = (t + 3728) mod len"
    and "\<forall>k<3616. known (out_buf c ! ((t + 113 + k) mod len))"
  shows "\<exists>a b w. scroll wr (c, v) = Some (c\<lparr>out_window_start := a, out_window_end := b, video_buf_index := 3615\<rparr>, w) \<and> good w \<and>
    unat a = (t + 113) mod len \<and> unat b = (t + 3841) mod len \<and>
    (\<forall>k<3729. cell w k = glyph (if k < 3616 then out_buf c ! ((t + 113 + k) mod len) else 32))"
proof -
  let ?a = "INC (out_window_start c) (out_buf_len c) 113 0" and ?b = "INC (out_window_end c) (out_buf_len c) 113 112"
  have pos: "0 < len" using assms(4) by simp
  have small: "m mod len + 113 < 2 ^ 32" for m using assms(6) mod_less_divisor [OF pos, of m] by simp
  have a: "unat ?a = (t + 113) mod len"
    using unat_INC [of "out_window_start c" 113 "out_buf_len c" 0] assms(3,8) small [of t] line_mod(1) [OF assms(5,7) pos] by (auto split: if_splits)
  have b: "unat ?b = (t + 3841) mod len"
    using unat_INC [of "out_window_end c" 113 "out_buf_len c" 112] assms(3,9) small [of "t + 3728"] line_mod(2) [OF assms(5,7) pos] by (auto split: if_splits)
  let ?c = "c\<lparr>out_window_start := ?a, out_window_end := ?b\<rparr>"
  have m: "(unat ?a + k) mod len = (t + 113 + k) mod len" for k unfolding a by (rule mod_add_left_eq)
  obtain i w where w: "for_each (\<lambda>_. scroll_line wr ?c) [0..<3616] (?a - 1, 0, v) = Some (i, 3616, w)" "good w"
    "\<forall>k<3616. cell w k = glyph (out_buf c ! ((t + 113 + k) mod len))"
    using scroll_lines [of v ?c] assms(1-4,6,10) a m pos by (auto simp del: upt_Suc)
  obtain i' w' where w': "for_each (\<lambda>_. scroll_blank wr) [0..<113] (3616, w) = Some (i', w')" "good w'"
    "\<forall>k<3729. cell w' k = (if k < 3616 then cell w k else glyph 32)"
    using scroll_blanks [OF w(2)] by auto
  have "scroll wr (c, v) = Some (c\<lparr>out_window_start := ?a, out_window_end := ?b, video_buf_index := 3615\<rparr>, w')"
    using w(1) w'(1) by (simp add: scroll_def)
  then show ?thesis using w(3) w'(2,3) a b by auto
qed

lemma write_shows:
  assumes "good v" and "ring_ok tx c" and "window_ok (length tx) c" and "screen_ok cell glyph tx v" and "list_all known tx" and "known d"
  shows "\<exists>c' w. write_out_buf wr d (c, v) = Some (c', w) \<and> good w \<and> ring_ok (tx @ [d]) c' \<and> window_ok (Suc (length tx)) c' \<and>
    screen_ok cell glyph (tx @ [d]) w \<and> out_buf_len c' = out_buf_len c"
proof -
  let ?n = "length tx" and ?len = "unat (out_buf_len c)" and ?t = "113 * top_line (length tx)"
  let ?i = "INC (out_buf_index c) (out_buf_len c) 1 0"
  have i: "unat ?i = ?n mod ?len" by (rule next_index [OF assms(3,2)])
  have "ring_ok tx (c\<lparr>out_buf_index := ?i\<rparr>)" using assms(2) by (simp add: ring_ok_def)
  then obtain b where b: "buf_put ?i d (c\<lparr>out_buf_index := ?i\<rparr>) = Some (c\<lparr>out_buf_index := ?i, out_buf := b\<rparr>)"
      "ring_ok (tx @ [d]) (c\<lparr>out_buf_index := ?i, out_buf := b\<rparr>)" "buf_at (c\<lparr>out_buf_index := ?i, out_buf := b\<rparr>) ?i = Some d"
    by (rule ring_put [where i = ?i and d = d]) (simp_all add: i)
  have ring: "ring_ok (tx @ [d]) (c\<lparr>out_buf_index := ?i, out_buf := b, out_window_start := x, out_window_end := y, first_char := f, video_buf_index := z\<rparr>)"
    for x y z f using b(2) by (simp add: ring_ok_def)
  have at: "unat ?i < length b" "b ! unat ?i = d" using b(3) by (simp_all add: buf_at_def split: if_splits)
  have len: "3729 \<le> ?len" "113 dvd ?len" "?len < 2 ^ 31" using assms(2) by (auto simp: ring_ok_def)
  consider "?n = 0" | "0 < ?n" "?n < ?t + 3729" | "0 < ?n" "?n = ?t + 3729" using top_line_bounds(2) [of ?n] by fastforce
  then show ?thesis
  proof cases
    case 1
    have z: "?i = 0" using 1 i by (simp add: unat_eq_zero)
    have f: "first_char c \<noteq> 0" "video_buf_index c = -1" using assms(3) 1 by (simp_all add: window_ok_def)
    obtain w where w: "wr 0 d v = Some w" "good w" "\<forall>j<3729. cell w j = (if j = unat (0 :: u32) then glyph d else cell v j)"
      using draws [OF assms(1,6), of 0] by auto
    let ?c = "c\<lparr>out_buf_index := ?i, out_buf := b, out_window_start := 0, out_window_end := 3728, first_char := 0, video_buf_index := 0\<rparr>"
    have "write_out_buf wr d (c, v) = Some (?c, w)"
      using b(1) f w(1) at unfolding z by (simp add: write_out_buf_def z buf_at_def Let_def) (simp add: INC_def)
    moreover have "window_ok (Suc ?n) ?c" using 1 z len by (simp add: window_ok_def top_line_def)
    moreover have "screen_ok cell glyph (tx @ [d]) w" using 1 w(3) by (simp add: screen_ok_def top_line_def)
    ultimately show ?thesis using ring w(2) by (intro exI [of _ ?c] exI [of _ w]) simp
  next
    case 2
    have top: "top_line (Suc ?n) = top_line ?n" by (rule top_line_next(1) [OF 2])
    have f: "first_char c = 0" "unat (video_buf_index c) = ?n - 1 - ?t" "unat (out_window_start c) = ?t mod ?len"
        "unat (out_window_end c) = (?t + 3728) mod ?len"
      using assms(3) 2(1) by (simp_all add: window_ok_def Let_def)
    have stay: "\<not> (?i > out_window_end c \<or> ?i = 0)" using window_full [OF assms(3,2) 2(1) i] 2(2) by simp
    have t: "?t \<le> ?n - 1" by (rule top_line_bounds(1) [OF 2(1)])
    let ?j = "INC (video_buf_index c) 3729 1 0"
    have "?n - 1 - ?t + 1 = ?n - ?t" using 2(1) t by linarith
    then have j: "unat ?j = ?n - ?t" using unat_INC [of "video_buf_index c" 1 3729 0] f(2) 2 t by (auto split: if_splits)
    obtain w where w: "wr ?j d v = Some w" "good w" "\<forall>k<3729. cell w k = (if k = ?n - ?t then glyph d else cell v k)"
    proof -
      have "unat ?j < 3729" unfolding j using 2 t by linarith
      then show ?thesis using draws [OF assms(1,6), of ?j] that unfolding j by blast
    qed
    let ?c = "c\<lparr>out_buf_index := ?i, out_buf := b, video_buf_index := ?j\<rparr>"
    have "write_out_buf wr d (c, v) = Some (?c, w)"
      using b(1) at f(1) w(1) stay by (simp add: write_out_buf_def buf_at_def Let_def)
    moreover have "window_ok (Suc ?n) ?c" using f j i top t by (simp add: window_ok_def)
    moreover have "ring_ok (tx @ [d]) ?c" using b(2) by (simp add: ring_ok_def)
    moreover have "screen_ok cell glyph (tx @ [d]) w"
      unfolding screen_ok_def Let_def
    proof (intro conjI allI impI)
      fix k assume "k < length (tx @ [d]) - 113 * top_line (length (tx @ [d]))"
      then have "k < Suc ?n - ?t" by (simp only: length_append_singleton top)
      then have k: "k < ?n - ?t \<or> k = ?n - ?t" "k < 3729" using t 2 by linarith+
      have "cell w k = glyph ((tx @ [d]) ! (?t + k))"
      proof (cases "k = ?n - ?t")
        case True
        moreover have "?t + k = ?n" using True t by linarith
        ultimately show ?thesis using w(3) k(2) by simp
      next
        case False
        moreover have "?t + k < ?n" using False k(1) by linarith
        ultimately show ?thesis using w(3) k assms(4) by (simp add: screen_ok_def Let_def nth_append)
      qed
      then show "cell w k = glyph ((tx @ [d]) ! (113 * top_line (length (tx @ [d])) + k))"
        by (simp only: length_append_singleton top)
    next
      fix k assume k: "0 < 113 * top_line (length (tx @ [d]))" "k < 3729" "length (tx @ [d]) \<le> 113 * top_line (length (tx @ [d])) + k"
      then have t': "0 < ?t" "Suc ?n \<le> ?t + k" by (simp_all only: length_append_singleton top)
      then have "k \<noteq> ?n - ?t" "?n \<le> ?t + k" using t 2(1) by linarith+
      then show "cell w k = glyph 32" using w(3) assms(4) k(2) t'(1) by (simp add: screen_ok_def Let_def)
    qed
    ultimately show ?thesis using w(2) by (intro exI [of _ ?c] exI [of _ w]) simp
  next
    case 3
    define T where "T = top_line ?n"
    have n: "?n = 113 * T + 3729" using 3(2) by (simp only: T_def)
    have top: "top_line (Suc ?n) = Suc T" unfolding T_def by (rule top_line_next(2) [OF 3(2)])
    have f: "first_char c = 0" "unat (out_window_start c) = 113 * T mod ?len" "unat (out_window_end c) = (113 * T + 3728) mod ?len"
      using assms(3) 3(1) by (simp_all add: window_ok_def Let_def T_def)
    have full: "?i > out_window_end c \<or> ?i = 0" by (rule iffD2 [OF window_full [OF assms(3,2) 3(1) i] 3(2)])
    let ?c1 = "c\<lparr>out_buf_index := ?i, out_buf := b\<rparr>"
    have old: "b ! ((113 * T + 113 + k) mod ?len) = tx ! (113 * T + 113 + k)" "113 * T + 113 + k < ?n" if "k < 3616" for k
    proof -
      show k: "113 * T + 113 + k < ?n" using that n by linarith
      moreover have "Suc ?n \<le> 113 * T + 113 + k + ?len" using n len(1) by linarith
      ultimately show "b ! ((113 * T + 113 + k) mod ?len) = tx ! (113 * T + 113 + k)"
        using b(2) by (auto simp: ring_ok_def nth_append)
    qed
    have known: "\<forall>k<3616. known (out_buf ?c1 ! ((113 * T + 113 + k) mod ?len))"
      using old assms(5) by (simp add: list_all_length)
    have buf: "out_buf ?c1 = b" by simp
    have c1: "length (out_buf ?c1) = ?len" "?len = unat (out_buf_len ?c1)" "113 dvd 113 * T"
        "unat (out_window_start ?c1) = 113 * T mod ?len" "unat (out_window_end ?c1) = (113 * T + 3728) mod ?len"
      using b(2) f(2,3) by (simp_all add: ring_ok_def)
    obtain x y v1 where v1: "scroll wr (?c1, v) = Some (?c1\<lparr>out_window_start := x, out_window_end := y, video_buf_index := 3615\<rparr>, v1)" "good v1"
        "unat x = (113 * T + 113) mod ?len" "unat y = (113 * T + 3841) mod ?len"
        "\<forall>k<3729. cell v1 k = glyph (if k < 3616 then b ! ((113 * T + 113 + k) mod ?len) else 32)"
      using scroll_shows [OF assms(1) c1(1,2) len c1(3,4,5) known] unfolding buf by blast
    obtain w where w: "wr 3616 d v1 = Some w" "good w" "\<forall>j<3729. cell w j = (if j = 3616 then glyph d else cell v1 j)"
      using draws [OF v1(2) assms(6), of 3616] by auto
    let ?c = "?c1\<lparr>out_window_start := x, out_window_end := y, video_buf_index := 3616\<rparr>"
    have "write_out_buf wr d (c, v) = Some (?c, w)"
      using b(1) at f(1) w(1) v1(1) full by (simp add: write_out_buf_def buf_at_def Let_def INC_def [of 3615])
    moreover have "window_ok (Suc ?n) ?c"
    proof -
      have "?n - 113 * Suc T = 3616" using n by simp
      moreover have "unat x = (113 + 113 * T) mod ?len" "unat y = (3841 + 113 * T) mod ?len" using v1(3,4) by (simp_all add: add.commute)
      ultimately show ?thesis using f(1) i top by (simp add: window_ok_def Let_def)
    qed
    moreover have "ring_ok (tx @ [d]) ?c" using b(2) by (simp add: ring_ok_def)
    moreover have "screen_ok cell glyph (tx @ [d]) w"
      unfolding screen_ok_def Let_def
    proof (intro conjI allI impI)
      fix k assume k: "k < length (tx @ [d]) - 113 * top_line (length (tx @ [d]))"
      then have "k \<le> 3616" using n top by simp
      then show "cell w k = glyph ((tx @ [d]) ! (113 * top_line (length (tx @ [d])) + k))"
        using w(3) v1(5) old [of k] top n by (cases "k = 3616") (auto simp: nth_append algebra_simps)
    next
      fix k assume k: "k < 3729" "length (tx @ [d]) \<le> 113 * top_line (length (tx @ [d])) + k"
      then have "3616 < k" using n top by simp
      then show "cell w k = glyph 32" using w(3) v1(5) k(1) by simp
    qed
    ultimately show ?thesis using w(2) by (intro exI [of _ ?c] exI [of _ w]) simp
  qed
qed

lemma write_out_shows:
  assumes "good (snd s)" and "console_shows cell glyph tx s" and "list_all known tx" and "known d"
  shows "\<exists>t. write_out_buf wr d s = Some t \<and> good (snd t) \<and> console_shows cell glyph (tx @ [d]) t"
  using write_shows [of "snd s" tx "fst s" d] assms by (auto simp: console_shows_def)

lemma blanks_shows:
  assumes "good (snd s)" and "console_shows cell glyph tx s" and "list_all known tx"
  shows "\<exists>t. for_each (\<lambda>_. write_out_buf wr 32) [0..<m] s = Some t \<and> good (snd t) \<and> console_shows cell glyph (tx @ replicate m 32) t"
proof -
  define P where "P k t \<longleftrightarrow> good (snd t) \<and> console_shows cell glyph (tx @ replicate k 32) t" for k t
  have known: "list_all known (tx @ replicate k 32)" for k using assms(3) blank_known by (auto simp: list_all_iff)
  have "tx @ replicate (Suc k) 32 = (tx @ replicate k 32) @ [32]" for k by (simp add: replicate_append_same)
  then have "\<exists>t. write_out_buf wr 32 u = Some t \<and> P (Suc k) t" if "P k u" for k u
    using write_out_shows [OF _ _ known blank_known, of u k] that by (simp only: P_def)
  moreover have "P 0 s" using assms(1,2) by (simp add: P_def)
  ultimately have "\<exists>t. for_each (\<lambda>_. write_out_buf wr 32) [0..<m] s = Some t \<and> P m t"
    using for_upto_runs [of P 0 s m "\<lambda>_. write_out_buf wr 32"] by blast
  then show ?thesis by (simp only: P_def)
qed

end

lemma line_rest:
  assumes "console_shows cell glyph tx s"
  shows "unat (SCREEN_WIDTH - 1 - out_buf_index (fst s) mod SCREEN_WIDTH) = (if tx = [] then 97 else 112 - (length tx - 1) mod 113)"
proof -
  let ?m = "out_buf_index (fst s) mod 113"
  have "unat ?m < 113" by (simp add: unat_mod)
  then have u: "unat (112 - ?m) = 112 - unat ?m" by (simp add: unat_sub word_le_nat_alt)
  show ?thesis
  proof (cases "tx = []")
    case True
    then have "out_buf_index (fst s) = -1" using assms by (simp add: console_shows_def window_ok_def)
    then show ?thesis using True by simp
  next
    case False
    have "113 dvd unat (out_buf_len (fst s))" using assms by (auto simp: console_shows_def ring_ok_def)
    moreover have "unat (out_buf_index (fst s)) = (length tx - 1) mod unat (out_buf_len (fst s))"
      using assms False by (simp add: console_shows_def window_ok_def Let_def)
    ultimately have "unat ?m = (length tx - 1) mod 113" by (simp add: unat_mod mod_mod_cancel)
    then show ?thesis using u False by simp
  qed
qed

context display
begin

lemma write_char_shows:
  assumes "good (snd s)" and "console_shows cell glyph tx s" and "list_all known tx" and "known d \<or> d = 10"
  shows "\<exists>t. write_char wr d s = Some t \<and> good (snd t) \<and> console_shows cell glyph (expand tx d) t \<and> list_all known (expand tx d)"
proof (cases "d = 10")
  case True
  let ?m = "if tx = [] then 97 else 112 - (length tx - 1) mod 113"
  have "expand tx d = tx @ replicate ?m 32" "list_all known (tx @ replicate ?m 32)"
    using True assms(3) blank_known by (auto simp: expand_def list_all_iff)
  moreover have "write_char wr d s = for_each (\<lambda>_. write_out_buf wr 32) [0..<?m] s"
    using True line_rest [OF assms(2)] by (simp only: write_char_def if_True screen_simps simp_thms)
  ultimately show ?thesis using blanks_shows [OF assms(1-3), of ?m] by (simp only: simp_thms)
next
  case False
  then show ?thesis using write_out_shows [OF assms(1-3), of d] assms(3,4) by (auto simp: write_char_def expand_def)
qed

lemma text_shows:
  assumes "good (snd s)" and "console_shows cell glyph tx s" and "list_all known tx" and "\<forall>d\<in>set ds. known d \<or> d = 10"
  shows "\<exists>t. for_each (write_char wr) ds s = Some t \<and> good (snd t) \<and> console_shows cell glyph (foldl expand tx ds) t"
  using assms
proof (induction ds arbitrary: s tx)
  case (Cons d ds)
  obtain t where t: "write_char wr d s = Some t" "good (snd t)" "console_shows cell glyph (expand tx d) t" "list_all known (expand tx d)"
    using write_char_shows [OF Cons.prems(1-3), of d] Cons.prems(4) by auto
  then show ?case using Cons.IH [OF t(2-4)] Cons.prems(4) by auto
qed auto

end

text \<open>A console that has just been set up shows the empty text.\<close>

lemma init_shows:
  assumes "init_console m junk c0 = Some c" and "0 < m" and "unat m * 3729 < 2 ^ 31"
  shows "console_shows cell glyph [] (c, v)"
proof -
  have u: "unat (m * 3729) = unat m * 3729" using assms(3) by (simp add: unat_word_ariths)
  have "0 < unat m" using assms(2) by (simp add: word_less_nat_alt)
  moreover have "113 dvd unat m * 3729" by (simp add: dvd_mult)
  ultimately show ?thesis using assms u
    by (auto simp: init_console_def console_shows_def ring_ok_def window_ok_def screen_ok_def top_line_def split: if_splits)
qed

end
