(* ===== verification/Framebuffer.thy ===== *)
theory Framebuffer
  imports Console
begin

text \<open>
  The frame buffer (\<^verbatim>\<open>src/framebuffer/framebuffer.c\<close>): characters drawn as pixels, and the proof that it is a
  display as the console needs it. The font is the table of \<^verbatim>\<open>charset.h\<close>, an argument here: 95 rows of 36 values. The
  mapping of the memory by \<open>map_vm_mem\<close> is that of the theory \<open>Vm\<close>.
\<close>

section \<open>State and operations\<close>

definition FONT_WIDTH :: nat where "FONT_WIDTH = 9"
definition FONT_HEIGHT :: nat where "FONT_HEIGHT = 18"
definition CURSOR :: u8 where "CURSOR = 95"

record framebuffer =
  fb :: "nat \<Rightarrow> u8"
  fb_width :: u32
  fb_height :: u32
  fb_bpp :: u32
  fb_bytes :: u32
  fb_size :: u32
  fb_text_width :: u32
  fb_text_height :: u32
  fb_text_area :: u32

type_synonym font = "nat \<Rightarrow> nat \<Rightarrow> 16 word"

definition init_fb :: "u32 \<Rightarrow> u32 \<Rightarrow> u32 \<Rightarrow> (nat \<Rightarrow> u8) \<Rightarrow> framebuffer" where
  "init_fb w h bpp m =
     (let sz = w * h * (bpp div 8); tw = w div of_nat FONT_WIDTH; th = h div of_nat FONT_HEIGHT
      in \<lparr>fb = (\<lambda>i. if i < unat sz then 0 else m i), fb_width = w, fb_height = h, fb_bpp = bpp, fb_bytes = bpp div 8, fb_size = sz,
          fb_text_width = tw, fb_text_height = th, fb_text_area = tw * th\<rparr>)"

text \<open>A pixel has four bytes; writing behind the frame buffer is \<open>None\<close>.\<close>

definition put_pixel :: "nat \<Rightarrow> nat \<Rightarrow> u8 \<Rightarrow> framebuffer \<Rightarrow> framebuffer option" where
  "put_pixel x y c s =
     (let p = unat (4 * of_nat x + 4 * of_nat y * fb_width s)
      in if p + 4 \<le> unat (fb_size s)
         then Some (s\<lparr>fb := (fb s)(p := 0xff * c, p + 1 := 0xff * c, p + 2 := 0xff * c, p + 3 := 0)\<rparr>) else None)"

text \<open>
  The rows of a character that the font lacks lie outside the table. The upper half of a row is taken
  from the value with number \<open>cy + 1\<close>.
\<close>

definition glyph_row :: "font \<Rightarrow> u8 \<Rightarrow> nat \<Rightarrow> 16 word" where
  "glyph_row font val cy = push_bit 8 (font (unat val - 32) (cy + 1)) + font (unat val - 32) (cy * 2)"

definition draw_pixel :: "font \<Rightarrow> u8 \<Rightarrow> nat \<Rightarrow> nat \<Rightarrow> nat \<times> nat \<Rightarrow> framebuffer \<Rightarrow> framebuffer option" where
  "draw_pixel font val x y = (\<lambda>(cy, cx). put_pixel (x + cx) (y + cy) (if bit (glyph_row font val cy) cx then 1 else 0))"

definition draw_char_fb :: "font \<Rightarrow> u32 \<Rightarrow> u8 \<Rightarrow> framebuffer \<Rightarrow> framebuffer option" where
  "draw_char_fb font index val s =
     (if fb_text_area s = 0 \<or> fb_text_width s = 0 \<or> val < 32 \<or> 127 \<le> val then None
      else let i = index mod fb_text_area s;
               y = unat (ucast (i div fb_text_width s * of_nat FONT_HEIGHT) :: u16);
               x = unat (ucast (i mod fb_text_width s * of_nat FONT_WIDTH) :: u16)
           in for_each (draw_pixel font val x y) (List.product [0..<FONT_HEIGHT] [0..<FONT_WIDTH]) s)"

definition update_cursor_fb :: "font \<Rightarrow> u32 \<Rightarrow> framebuffer \<Rightarrow> framebuffer option" where
  "update_cursor_fb font index s = draw_char_fb font index CURSOR s"

section \<open>Pixels\<close>

text \<open>A screen of 1024 by 600 pixels holds the 33 lines of 113 characters of the console.\<close>

definition fb_good :: "framebuffer \<Rightarrow> bool" where
  "fb_good s \<longleftrightarrow> fb_width s = 1024 \<and> fb_text_width s = 113 \<and> fb_text_area s = 3729 \<and> fb_size s = 2457600"

lemma init_fb_good: "fb_good (init_fb 1024 600 32 m)"
  by (simp add: init_fb_def fb_good_def FONT_WIDTH_def FONT_HEIGHT_def)

definition pixel :: "framebuffer \<Rightarrow> nat \<Rightarrow> nat \<Rightarrow> u8 list" where
  "pixel s x y = map (\<lambda>b. fb s (4 * (x + 1024 * y) + b)) [0..<4]"

definition colour :: "font \<Rightarrow> u8 \<Rightarrow> nat \<Rightarrow> nat \<Rightarrow> u8 list" where
  "colour font d cy cx = (let c = (if bit (glyph_row font d cy) cx then 0xff else 0) in [c, c, c, 0])"

definition fb_cell :: "framebuffer \<Rightarrow> nat \<Rightarrow> u8 list list" where
  "fb_cell s j = map (\<lambda>(cy, cx). pixel s (9 * (j mod 113) + cx) (18 * (j div 113) + cy)) (List.product [0..<18] [0..<9])"

definition fb_glyph :: "font \<Rightarrow> u8 \<Rightarrow> u8 list list" where
  "fb_glyph font d = map (\<lambda>(cy, cx). colour font d cy cx) (List.product [0..<18] [0..<9])"

lemma pixel_places:
  "X < 1024 \<Longrightarrow> x < 1024 \<Longrightarrow> X + 1024 * Y = x + 1024 * (y :: nat) \<Longrightarrow> X = x \<and> Y = y"
  "A \<noteq> B \<Longrightarrow> b < 4 \<Longrightarrow> b' < 4 \<Longrightarrow> 4 * A + b \<noteq> 4 * B + (b' :: nat)"
proof -
  assume X: "X < 1024" "x < 1024" and eq: "X + 1024 * Y = x + 1024 * y"
  have "(X + 1024 * Y) mod 1024 = X" "(x + 1024 * y) mod 1024 = x" using X by simp_all
  then show "X = x \<and> Y = y" using eq by simp
qed arith

lemma put_pixel_good:
  assumes "fb_good s" and "x < 1024" and "y < 600"
  shows "\<exists>t. put_pixel x y c s = Some t \<and> fb_good t \<and>
    (\<forall>X<1024. \<forall>Y. pixel t X Y = (if X = x \<and> Y = y then [0xff * c, 0xff * c, 0xff * c, 0] else pixel s X Y))"
proof -
  let ?p = "4 * (x + 1024 * y)"
  let ?t = "s\<lparr>fb := (fb s)(?p := 0xff * c, ?p + 1 := 0xff * c, ?p + 2 := 0xff * c, ?p + 3 := 0)\<rparr>"
  have "?p < 2457597" using assms(2,3) by simp
  then have "unat (of_nat ?p :: u32) = ?p" by (simp add: unat_of_nat take_bit_nat_eq_self del: of_nat_mult of_nat_add)
  moreover have "4 * of_nat x + 4 * of_nat y * 1024 = (of_nat ?p :: u32)" by simp
  ultimately have p: "unat (4 * of_nat x + 4 * of_nat y * 1024 :: u32) = ?p" by (simp only:)
  have "put_pixel x y c s = Some ?t"
    using assms p \<open>?p < 2457597\<close> by (simp add: put_pixel_def fb_good_def Let_def)
  moreover have "pixel ?t X Y = (if X = x \<and> Y = y then [0xff * c, 0xff * c, 0xff * c, 0] else pixel s X Y)" if "X < 1024" for X Y
  proof (cases "X = x \<and> Y = y")
    case True
    then show ?thesis by (simp add: pixel_def upt_rec)
  next
    case False
    then have "X + 1024 * Y \<noteq> x + 1024 * y" using pixel_places(1) [OF that assms(2)] by blast
    then have ne: "4 * (X + 1024 * Y) + b \<noteq> ?p + b'" if "b < 4" "b' < 4" for b b' using that pixel_places(2) by blast
    have "pixel ?t X Y = pixel s X Y"
      unfolding pixel_def using ne [of _ 0] ne [of _ 1] ne [of _ 2] ne [of _ 3] by (intro map_cong refl) (simp del: distrib_left_numeral)
    then show ?thesis using False by (simp only: if_False)
  qed
  ultimately show ?thesis using assms(1) by (auto simp: fb_good_def)
qed

lemma draw_pixels:
  assumes "fb_good s" and "set ps \<subseteq> {..<18} \<times> {..<9}" and "x \<le> 1008" and "y \<le> 576"
  shows "\<exists>t. for_each (draw_pixel font d x y) ps s = Some t \<and> fb_good t \<and>
    (\<forall>X<1024. \<forall>Y. pixel t X Y = (if x \<le> X \<and> y \<le> Y \<and> (Y - y, X - x) \<in> set ps then colour font d (Y - y) (X - x) else pixel s X Y))"
  using assms
proof (induction ps rule: rev_induct)
  case (snoc p ps)
  obtain cy cx where p: "p = (cy, cx)" "cy < 18" "cx < 9" using snoc.prems(2) by (cases p) auto
  obtain t where t: "for_each (draw_pixel font d x y) ps s = Some t" "fb_good t"
      "\<forall>X<1024. \<forall>Y. pixel t X Y = (if x \<le> X \<and> y \<le> Y \<and> (Y - y, X - x) \<in> set ps then colour font d (Y - y) (X - x) else pixel s X Y)"
    using snoc by auto
  let ?c = "if bit (glyph_row font d cy) cx then 1 else 0 :: u8"
  have xy: "x + cx < 1024" "y + cy < 600" using snoc.prems(3,4) p(2,3) by simp_all
  obtain u where u: "put_pixel (x + cx) (y + cy) ?c t = Some u" "fb_good u"
      "\<forall>X<1024. \<forall>Y. pixel u X Y = (if X = x + cx \<and> Y = y + cy then [0xff * ?c, 0xff * ?c, 0xff * ?c, 0] else pixel t X Y)"
    using put_pixel_good [OF t(2) xy, of ?c] by (elim exE conjE) (rule that)
  have col: "[0xff * ?c, 0xff * ?c, 0xff * ?c, 0] = colour font d cy cx" by (simp add: colour_def)
  have "pixel u X Y = (if x \<le> X \<and> y \<le> Y \<and> (Y - y, X - x) \<in> set (ps @ [p]) then colour font d (Y - y) (X - x) else pixel s X Y)" if "X < 1024" for X Y
  proof (cases "X = x + cx \<and> Y = y + cy")
    case True
    then show ?thesis using u(3) that col p(1) by simp
  next
    case False
    then have "x \<le> X \<and> y \<le> Y \<longrightarrow> (Y - y, X - x) \<noteq> p" using p(1) by auto
    then show ?thesis using u(3) t(3) that False by auto
  qed
  then show ?case using t(1) u(1,2) by (simp add: for_each_append draw_pixel_def p(1))
qed simp

section \<open>The frame buffer as a display\<close>

lemma cell_place:
  assumes "i < (3729 :: nat)"
  shows "9 * (i mod 113) \<le> 1008" "18 * (i div 113) \<le> 576"
proof -
  have "i div 113 < 33" using assms by (intro less_mult_imp_div_less) simp
  then show "18 * (i div 113) \<le> 576" by simp
  show "9 * (i mod 113) \<le> 1008" using mod_less_divisor [of 113 i] by linarith
qed

lemma block_eq:
  assumes "k * a + b = k * c + d" and "b < k" and "d < (k :: nat)"
  shows "a = c" "b = d"
proof -
  have "(k * a + b) div k = a" "(k * c + d) div k = c" using assms(2,3) by simp_all
  then show "a = c" using assms(1) by simp
  then show "b = d" using assms(1) by simp
qed

lemma same_cell:
  assumes "9 * (j mod 113) + cx = 9 * (i mod 113) + cx'" and "18 * (j div 113) + cy = 18 * (i div 113) + cy'"
    and "cx < 9" and "cx' < 9" and "cy < 18" and "cy' < (18 :: nat)"
  shows "j = i \<and> cx = cx' \<and> cy = cy'"
proof -
  have "j mod 113 = i mod 113" "cx = cx'" using block_eq [OF assms(1,3,4)] by auto
  moreover have "j div 113 = i div 113" "cy = cy'" using block_eq [OF assms(2,5,6)] by auto
  ultimately show ?thesis by (metis div_mult_mod_eq)
qed

definition fb_known :: "u8 \<Rightarrow> bool" where
  "fb_known d \<longleftrightarrow> 32 \<le> d \<and> d < 127"

interpretation screen: display "draw_char_fb font" fb_cell "fb_glyph font" fb_known fb_good for font
proof unfold_locales
  show "fb_known 32" by (simp add: fb_known_def)
next
  fix v d and i :: u32
  assume v: "fb_good v" and d: "fb_known d" and i: "unat i < 3729"
  let ?x = "9 * (unat i mod 113)" and ?y = "18 * (unat i div 113)" and ?ps = "List.product [0..<18] [0..<9]"
  have ps: "set ?ps = {..<18} \<times> {..<9}" by auto
  obtain w where w: "for_each (draw_pixel font d ?x ?y) ?ps v = Some w" "fb_good w"
      "\<forall>X<1024. \<forall>Y. pixel w X Y = (if ?x \<le> X \<and> ?y \<le> Y \<and> (Y - ?y, X - ?x) \<in> set ?ps then colour font d (Y - ?y) (X - ?x) else pixel v X Y)"
    using draw_pixels [OF v equalityD1 [OF ps] cell_place [OF i], of font d] by blast
  have m: "i mod 3729 = i" using i by (simp add: word_unat_eq_iff unat_mod)
  have x: "unat (ucast (i mod 113 * 9) :: u16) = ?x" and y: "unat (ucast (i div 113 * 18) :: u16) = ?y"
    using cell_place [OF i] by (simp_all add: unsigned_ucast_eq unat_word_ariths unat_mod unat_div take_bit_nat_eq_self)
  have "draw_char_fb font i d v = Some w"
    using v d w(1) m x y by (simp add: draw_char_fb_def fb_good_def fb_known_def FONT_WIDTH_def FONT_HEIGHT_def Let_def not_le not_less)
  moreover have "fb_cell w j = (if j = unat i then fb_glyph font d else fb_cell v j)" if "j < 3729" for j
  proof -
    have "pixel w (9 * (j mod 113) + cx) (18 * (j div 113) + cy) =
        (if j = unat i then colour font d cy cx else pixel v (9 * (j mod 113) + cx) (18 * (j div 113) + cy))"
      if c: "cy < 18" "cx < 9" for cy cx
    proof -
      let ?X = "9 * (j mod 113) + cx" and ?Y = "18 * (j div 113) + cy"
      have X: "?X < 1024" using cell_place(1) [OF \<open>j < 3729\<close>] c(2) by linarith
      show ?thesis
      proof (cases "j = unat i")
        case True
        then show ?thesis using w(3) X c ps by simp
      next
        case False
        have "\<not> (?x \<le> ?X \<and> ?y \<le> ?Y \<and> (?Y - ?y, ?X - ?x) \<in> set ?ps)"
        proof
          assume a: "?x \<le> ?X \<and> ?y \<le> ?Y \<and> (?Y - ?y, ?X - ?x) \<in> set ?ps"
          then have "?Y - ?y < 18" "?X - ?x < 9" using ps by auto
          then have "j = unat i" using same_cell [of j cx "unat i" "?X - ?x" cy "?Y - ?y"] a c by simp
          then show False using False by simp
        qed
        then have "pixel w ?X ?Y = pixel v ?X ?Y" using w(3) [rule_format, OF X, of ?Y] by (simp only: if_False)
        then show ?thesis using False by (simp only: if_False)
      qed
    qed
    then show ?thesis by (auto simp: fb_cell_def fb_glyph_def)
  qed
  ultimately show "\<exists>w. draw_char_fb font i d v = Some w \<and> fb_good w \<and>
      (\<forall>j<3729. fb_cell w j = (if j = unat i then fb_glyph font d else fb_cell v j))"
    using w(2) by blast
qed


definition blank_console :: console where
  "blank_console = \<lparr>out_buf = replicate 7458 0, out_buf_index = -1, out_window_start = 0, out_window_end = 0, out_buf_len = 7458,
     video_buf_index = -1, first_char = 1\<rparr>"


end
