(* ===== verification/Keyboard.thy ===== *)
theory Keyboard
  imports Sched_Start Queue
begin

text \<open>
  The keyboard driver (\<^verbatim>\<open>src/drivers/kbc/8042.c\<close>) and the reading side of the console: scan codes are translated
  by two tables and queued as pointers into them; a control key sends an interrupt to the foreground
  group. The registers of the controller and the masking of its interrupt are left out: a scan code is the
  argument of the handler, and each handler or call is one step.
\<close>

section \<open>State\<close>

text \<open>The characters of the scan codes from 0 to 127.\<close>

definition lowercase_charset :: "u8 list" where
  "lowercase_charset =
     [0, 0, 49, 50, 51, 52, 53, 54, 55, 56, 57, 48, 45, 61, 8, 0,
      113, 119, 101, 114, 116, 121, 117, 105, 111, 112, 91, 93, 13, 0, 97, 115,
      100, 102, 103, 104, 106, 107, 108, 59, 34, 0, 0, 92, 122, 120, 99, 118,
      98, 110, 109, 44, 46, 47, 0, 0, 0, 32, 0, 0, 0, 0, 0, 0,
      0, 0, 0, 0, 0, 0, 0, 0, 0, 0, 0, 0, 0, 0, 0, 0,
      0, 0, 0, 8, 0, 0, 0, 0, 0, 0, 0, 0, 0, 0, 0, 0,
      0, 0, 0, 0, 0, 0, 0, 0, 0, 0, 0, 0, 0, 0, 0, 0,
      0, 0, 0, 0, 0, 0, 0, 0, 0, 0, 0, 0, 0, 0, 0, 0]"

definition uppercase_charset :: "u8 list" where
  "uppercase_charset =
     [0, 0, 33, 64, 35, 36, 37, 94, 38, 42, 40, 41, 95, 43, 8, 0,
      81, 87, 69, 82, 84, 89, 85, 73, 79, 80, 123, 125, 13, 0, 65, 83,
      68, 70, 71, 72, 74, 75, 76, 58, 34, 0, 0, 124, 90, 88, 67, 86,
      66, 78, 77, 60, 62, 63, 0, 0, 0, 32, 0, 0, 0, 0, 0, 0,
      0, 0, 0, 0, 0, 0, 0, 0, 0, 0, 0, 0, 0, 0, 0, 0,
      0, 0, 0, 8, 0, 0, 0, 0, 0, 0, 0, 0, 0, 0, 0, 0,
      0, 0, 0, 0, 0, 0, 0, 0, 0, 0, 0, 0, 0, 0, 0, 0,
      0, 0, 0, 0, 0, 0, 0, 0, 0, 0, 0, 0, 0, 0, 0, 0]"

text \<open>\<open>lowercase_at\<close> and \<open>uppercase_at\<close> are the addresses of the tables. The lists of the queue live on the heap of the kernel.\<close>

record keyboard =
  kern :: kernel
  kqueues :: "addr \<rightharpoonup> queue"
  in_buf :: addr
  shift_state :: u32
  control_state :: u32
  lowercase_at :: addr
  uppercase_at :: addr

definition kheap :: "keyboard \<Rightarrow> qheap" where
  "kheap s = \<lparr>qdl = lsts (kern s), queues = kqueues s\<rparr>"

definition with_kheap :: "qheap \<Rightarrow> keyboard \<Rightarrow> keyboard" where
  "with_kheap h s = s\<lparr>kern := (kern s)\<lparr>lsts := qdl h\<rparr>, kqueues := queues h\<rparr>"

definition char_at :: "addr \<Rightarrow> keyboard \<Rightarrow> u8 option" where
  "char_at p s =
     (if lowercase_at s \<le> p \<and> p < lowercase_at s + 128 then Some (lowercase_charset ! (p - lowercase_at s))
      else if uppercase_at s \<le> p \<and> p < uppercase_at s + 128 then Some (uppercase_charset ! (p - uppercase_at s))
      else None)"

section \<open>Operations\<close>

definition init_kbc :: "addr \<Rightarrow> keyboard \<Rightarrow> keyboard option" where
  "init_kbc junk s = do { (q, h) \<leftarrow> new_queue junk (kheap s); Some ((with_kheap h s)\<lparr>in_buf := q\<rparr>) }"

text \<open>Only the descriptor of the queue is given back.\<close>

definition free_kbc :: "keyboard \<Rightarrow> keyboard option" where
  "free_kbc s = do { k \<leftarrow> on_heap (kfree (in_buf s)) (kern s); Some (s\<lparr>kern := k, kqueues := (kqueues s)(in_buf s := None)\<rparr>) }"

definition interrupt_group :: "kernel \<Rightarrow> kernel option" where
  "interrupt_group k =
     (if fg_pgid k = 1 then Some k
      else case hashtable_get (pgid_hash k) (unat (fg_pgid k)) of
             None \<Rightarrow> Some k
           | Some l \<Rightarrow> do { sentinel \<leftarrow> ll_sentinel l (lsts k);
                            first \<leftarrow> ll_first l (lsts k);
                            signal_group sentinel first k })"

definition queue_char :: "u8 \<Rightarrow> keyboard \<Rightarrow> keyboard option" where
  "queue_char scan_code s =
     do { let p = (if shift_state s \<noteq> 0 then uppercase_at s else lowercase_at s) + unat scan_code;
          h \<leftarrow> enqueue (in_buf s) p (kheap s);
          let s = with_kheap h s;
          Some (s\<lparr>kern := (kern s)\<lparr>console_empty := False\<rparr>\<rparr>) }"

definition int_handler_kbc :: "u8 \<Rightarrow> keyboard \<Rightarrow> keyboard option" where
  "int_handler_kbc scan_code s =
     (if scan_code = 0x2a then Some (s\<lparr>shift_state := 1\<rparr>)
      else if scan_code = 0xaa then Some (s\<lparr>shift_state := 0\<rparr>)
      else if scan_code = 0x1d then Some (s\<lparr>control_state := 1\<rparr>)
      else if scan_code = 0x9d then Some (s\<lparr>control_state := 0\<rparr>)
      else if scan_code AND 0x80 = 0 \<and> scan_code \<noteq> 56
      then if control_state s = 1 \<and> scan_code = 0x2e
           then do { k \<leftarrow> interrupt_group (kern s); Some (s\<lparr>kern := k\<rparr>) }
           else queue_char scan_code s
      else Some s)"

text \<open>The next character, or \<open>0\<close>.\<close>

definition read_buf :: "keyboard \<Rightarrow> (u8 \<times> keyboard) option" where
  "read_buf s =
     do { (p, h) \<leftarrow> dequeue (in_buf s) (kheap s);
          let s = with_kheap h s;
          if p \<noteq> 0 then do { c \<leftarrow> char_at p s; Some (c, s) }
          else Some (0, s\<lparr>kern := (kern s)\<lparr>console_empty := True\<rparr>\<rparr>) }"

text \<open>
  \<^verbatim>\<open>_read_char\<close> of the console: the process sleeps while there is no character. \<open>rest\<close> is what happens to the keyboard
  during a sleep, whose effect on the kernel is \<open>suspend\<close>.
\<close>

partial_function (option) read_char :: "(kernel \<Rightarrow> kernel) \<Rightarrow> (keyboard \<Rightarrow> keyboard) \<Rightarrow> keyboard \<Rightarrow> (u8 \<times> keyboard) option" where
  "read_char suspend rest s =
     do { (c, s) \<leftarrow> read_buf s;
          if c \<noteq> 0 then Some (c, s)
          else do { p \<leftarrow> CURRENT_PROCESS_CONTEXT (kern s);
                    k \<leftarrow> sleep suspend ((kern s)\<lparr>sleeping_process := p\<rparr>);
                    read_char suspend rest (rest (s\<lparr>kern := k\<rparr>)) } }"

section \<open>Typing and reading\<close>

text \<open>The characters of a sequence of scan codes without the control key: what the shift key decides.\<close>

fun typed :: "bool \<Rightarrow> u8 list \<Rightarrow> u8 list" where
  "typed shift [] = []"
| "typed shift (c # cs) =
     (if c = 0x2a then typed True cs
      else if c = 0xaa then typed False cs
      else if c < 128 \<and> c \<noteq> 56 then (if shift then uppercase_charset else lowercase_charset) ! unat c # typed shift cs
      else typed shift cs)"

lemma kheap_simps [simp]:
  "kheap (with_kheap h s) = h" "kheap (s\<lparr>shift_state := a\<rparr>) = kheap s" "kheap (s\<lparr>control_state := a\<rparr>) = kheap s"
  "kheap (s\<lparr>kern := (kern s)\<lparr>console_empty := b\<rparr>\<rparr>) = kheap s"
  by (simp_all add: kheap_def with_kheap_def)

lemma with_kheap_simps [simp]:
  "in_buf (with_kheap h s) = in_buf s" "shift_state (with_kheap h s) = shift_state s" "control_state (with_kheap h s) = control_state s"
  "lowercase_at (with_kheap h s) = lowercase_at s" "uppercase_at (with_kheap h s) = uppercase_at s"
  by (simp_all add: with_kheap_def)

lemma press_bit: "(c AND 0x80 = 0) = (c < (128 :: u8))"
proof -
  have "c AND 0x80 = 0 \<longleftrightarrow> \<not> bit c 7"
  proof -
    have "(0x80 :: u8) = push_bit 7 1" by simp
    then show ?thesis by (simp only: bit_iff_and_push_bit_not_eq_0 not_not)
  qed
  also have "\<dots> \<longleftrightarrow> c < 128"
  proof -
    have "bit (unat c) 7 = bit c 7" by (simp add: bit_unsigned_iff)
    moreover have "bit (unat c) 7 = odd (unat c div 128)" by (simp add: bit_iff_odd)
    moreover have "unat c < 256" using unsigned_less [of c, where ?'a = nat] by simp
    moreover have "odd (n div 128) = (128 \<le> n)" if "n < 256" for n :: nat
    proof (cases "n < 128")
      case False
      then have "n div 128 = 1" using that by (intro div_nat_eqI) auto
      then show ?thesis using False by simp
    qed simp
    ultimately show ?thesis by (auto simp: word_less_nat_alt)
  qed
  finally show ?thesis .
qed

text \<open>The tables lie apart and not at address 0.\<close>

definition tables_ok :: "keyboard \<Rightarrow> bool" where
  "tables_ok s \<longleftrightarrow> 0 < lowercase_at s \<and> lowercase_at s + 128 \<le> uppercase_at s"

text \<open>The characters waiting in the buffer.\<close>

definition waits :: "keyboard \<Rightarrow> u8 list \<Rightarrow> bool" where
  "waits s cs \<longleftrightarrow> (\<exists>ps. q_holds (in_buf s) (kheap s) ps \<and> 0 \<notin> set ps \<and> map (\<lambda>p. char_at p s) ps = map Some cs)"

definition used_blocks :: "keyboard \<Rightarrow> nat" where
  "used_blocks s = card (km_live (dmem (lsts (kern s))))"

lemma char_at_cong: "lowercase_at t = lowercase_at s \<Longrightarrow> uppercase_at t = uppercase_at s \<Longrightarrow> char_at p t = char_at p s"
  by (simp add: char_at_def)

lemma queue_char_waits:
  assumes "waits s cs" and "tables_ok s" and "used_blocks s < 7000" and "c < 128"
  shows "\<exists>t. queue_char c s = Some t \<and> waits t (cs @ [(if shift_state s \<noteq> 0 then uppercase_charset else lowercase_charset) ! unat c]) \<and>
    tables_ok t \<and> used_blocks t = Suc (used_blocks s) \<and> shift_state t = shift_state s \<and> control_state t = control_state s"
proof -
  obtain ps where ps: "q_holds (in_buf s) (kheap s) ps" "0 \<notin> set ps" "map (\<lambda>p. char_at p s) ps = map Some cs"
    using assms(1) by (auto simp: waits_def)
  let ?p = "(if shift_state s \<noteq> 0 then uppercase_at s else lowercase_at s) + unat c"
  have "unat c < 128" using assms(4) by (simp add: word_less_nat_alt)
  then have p: "?p \<noteq> 0" "char_at ?p s = Some ((if shift_state s \<noteq> 0 then uppercase_charset else lowercase_charset) ! unat c)"
    using assms(2) by (auto simp: tables_ok_def char_at_def)
  obtain h where h: "enqueue (in_buf s) ?p (kheap s) = Some h" "q_faults h = q_faults (kheap s)"
      "card (km_live (dmem (qdl h))) = Suc (card (km_live (dmem (qdl (kheap s)))))"
    by (rule enqueue_runs [OF ps(1), of ?p]) (use assms(3) in \<open>simp_all add: used_blocks_def kheap_def\<close>)
  let ?t = "with_kheap h s\<lparr>kern := (kern (with_kheap h s))\<lparr>console_empty := False\<rparr>\<rparr>"
  have t: "queue_char c s = Some ?t" using h(1) by (simp add: queue_char_def Let_def)
  have "q_holds (in_buf s) h (ps @ [?p])" using fq.enq_holds [OF ps(1) h(1,2)] .
  then have "waits ?t (cs @ [(if shift_state s \<noteq> 0 then uppercase_charset else lowercase_charset) ! unat c])"
    unfolding waits_def using ps(2,3) p
    by (intro exI [of _ "ps @ [?p]"]) (simp add: char_at_cong [of ?t s])
  moreover have "used_blocks ?t = Suc (used_blocks s)" using h(3) by (simp add: used_blocks_def with_kheap_def kheap_def)
  ultimately show ?thesis using t assms(2) by (simp add: tables_ok_def)
qed

lemma handler_waits:
  assumes "waits s cs" and "tables_ok s" and "used_blocks s < 7000" and "control_state s \<noteq> 1" and "c \<noteq> 0x1d"
  shows "\<exists>t d. int_handler_kbc c s = Some t \<and> waits t (cs @ d) \<and> tables_ok t \<and> used_blocks t \<le> Suc (used_blocks s) \<and> control_state t \<noteq> 1 \<and>
    (\<forall>rest. typed (shift_state s \<noteq> 0) (c # rest) = d @ typed (shift_state t \<noteq> 0) rest)"
proof -
  have keep: "waits (s\<lparr>shift_state := a\<rparr>) cs" "waits (s\<lparr>control_state := a\<rparr>) cs" "tables_ok (s\<lparr>shift_state := a\<rparr>)" "tables_ok (s\<lparr>control_state := a\<rparr>)"
    "used_blocks (s\<lparr>shift_state := a\<rparr>) = used_blocks s" "used_blocks (s\<lparr>control_state := a\<rparr>) = used_blocks s" for a
    using assms(1,2) char_at_cong [of "s\<lparr>shift_state := a\<rparr>" s] char_at_cong [of "s\<lparr>control_state := a\<rparr>" s]
    by (simp_all add: waits_def tables_ok_def used_blocks_def)
  consider "c = 0x2a" | "c = 0xaa" | "c = 0x9d" | "c \<notin> {0x2a, 0xaa, 0x9d}" "c < 128 \<and> c \<noteq> 56" | "c \<notin> {0x2a, 0xaa, 0x9d}" "\<not> (c < 128 \<and> c \<noteq> 56)"
    by blast
  then show ?thesis
  proof cases
    case 4
    then obtain t where t: "queue_char c s = Some t" "waits t (cs @ [(if shift_state s \<noteq> 0 then uppercase_charset else lowercase_charset) ! unat c])"
        "tables_ok t" "used_blocks t = Suc (used_blocks s)" "shift_state t = shift_state s" "control_state t = control_state s"
      using queue_char_waits [OF assms(1-3)] by blast
    have "int_handler_kbc c s = Some t" using 4 t(1) assms(4,5) by (simp add: int_handler_kbc_def press_bit)
    moreover have "typed (shift_state s \<noteq> 0) (c # rest) = [(if shift_state s \<noteq> 0 then uppercase_charset else lowercase_charset) ! unat c] @ typed (shift_state t \<noteq> 0) rest" for rest
      using 4 t(5) by simp
    ultimately show ?thesis using t(2-4,6) assms(4) by (metis order_refl)
  next
    case 5
    then have "int_handler_kbc c s = Some s" using assms(5) by (auto simp: int_handler_kbc_def press_bit)
    then show ?thesis using 5 assms by (intro exI [of _ s] exI [of _ "[]"]) auto
  qed (use keep assms in \<open>auto simp: int_handler_kbc_def intro!: exI [of _ "[]"]\<close>)
qed

lemma keys_wait:
  assumes "waits s cs" and "tables_ok s" and "used_blocks s + length codes \<le> 7000" and "control_state s \<noteq> 1" and "0x1d \<notin> set codes"
  shows "\<exists>t. for_each int_handler_kbc codes s = Some t \<and> waits t (cs @ typed (shift_state s \<noteq> 0) codes)"
  using assms
proof (induction codes arbitrary: s cs)
  case (Cons c codes)
  obtain t d where t: "int_handler_kbc c s = Some t" "waits t (cs @ d)" "tables_ok t" "used_blocks t \<le> Suc (used_blocks s)" "control_state t \<noteq> 1"
      "\<forall>rest. typed (shift_state s \<noteq> 0) (c # rest) = d @ typed (shift_state t \<noteq> 0) rest"
    using handler_waits [OF Cons.prems(1,2), of c] Cons.prems(3-5) by auto
  then obtain u where "for_each int_handler_kbc codes t = Some u" "waits u ((cs @ d) @ typed (shift_state t \<noteq> 0) codes)"
    using Cons.IH [OF t(2,3)] Cons.prems(3,5) by auto
  then show ?case using t(1,6) by (simp del: typed.simps)
qed simp

lemma read_waits:
  assumes "waits s (cs @ rs)"
  shows "\<exists>t. receive read_buf s (length cs) = Some (cs, t) \<and> waits t rs"
  using assms
proof (induction cs arbitrary: s)
  case (Cons c cs)
  obtain ps where ps: "q_holds (in_buf s) (kheap s) ps" "0 \<notin> set ps" "map (\<lambda>p. char_at p s) ps = map Some (c # cs @ rs)"
    using Cons.prems by (auto simp: waits_def)
  then obtain p qs where p: "ps = p # qs" by (cases ps) auto
  obtain h where h: "dequeue (in_buf s) (kheap s) = Some (p, h)" "q_holds (in_buf s) h qs" using fq.deq_holds ps(1) p by blast
  have "read_buf s = Some (c, with_kheap h s)"
    using h(1) ps(2,3) p char_at_cong [of "with_kheap h s" s p] by (simp add: read_buf_def Let_def)
  moreover have "waits (with_kheap h s) (cs @ rs)"
    unfolding waits_def using h(2) ps(2,3) p char_at_cong [of "with_kheap h s" s] by (intro exI [of _ qs]) simp
  ultimately show ?case using Cons.IH [of "with_kheap h s"] by auto
qed simp

text \<open>C24: Keys pressed while the buffer is empty, without the control key and with memory for them, are read in the order
  in which they were pressed: each scan code of a key gives the character of the table that the shift key selects at
  that moment. A further read finds nothing.\<close>

theorem typed_keys_are_read:
  assumes "q_holds (in_buf s) (kheap s) []" and "tables_ok s" and "used_blocks s + length codes \<le> 7000"
    and "control_state s \<noteq> 1" and "0x1d \<notin> set codes"
  shows "\<exists>t u v. for_each int_handler_kbc codes s = Some t \<and>
    receive read_buf t (length (typed (shift_state s \<noteq> 0) codes)) = Some (typed (shift_state s \<noteq> 0) codes, u) \<and> read_buf u = Some (0, v)"
proof -
  have "waits s []" using assms(1) by (simp add: waits_def)
  then obtain t where t: "for_each int_handler_kbc codes s = Some t" "waits t (typed (shift_state s \<noteq> 0) codes @ [])"
    using keys_wait [OF _ assms(2-5)] by fastforce
  obtain u where u: "receive read_buf t (length (typed (shift_state s \<noteq> 0) codes)) = Some (typed (shift_state s \<noteq> 0) codes, u)" "waits u []"
    using read_waits [OF t(2)] by blast
  have "dequeue (in_buf u) (kheap u) = Some (0, kheap u)" using u(2) fq.deq_empty by (auto simp: waits_def)
  then show ?thesis using t(1) u(1) by (simp add: read_buf_def Let_def)
qed

definition kbd0 :: keyboard where
  "kbd0 = \<lparr>kern = kernel0, kqueues = Map.empty, in_buf = 0, shift_state = 0, control_state = 0, lowercase_at = 1000, uppercase_at = 2000\<rparr>"

text \<open>The keys h, shift and i, release of shift, and the exclamation mark without shift, which is 1.\<close>

theorem typed_keys_are_read_witness:
  "\<exists>s t u. init_kbc 0 kbd0 = Some s \<and> for_each int_handler_kbc [0x23, 0x2a, 0x17, 0xaa, 0x02] s = Some t \<and>
     receive read_buf t 3 = Some ([104, 73, 49], u)"
proof -
  obtain q h where h: "new_queue 0 qheap0 = Some (q, h)" "q_holds q h []" "card (km_live (dmem (qdl h))) \<le> 3"
    using new_queue_qheap0 by metis
  have "kheap kbd0 = qheap0" by (simp add: kheap_def kbd0_def qheap0_def kernel0_def)
  then have s: "init_kbc 0 kbd0 = Some ((with_kheap h kbd0)\<lparr>in_buf := q\<rparr>)" using h(1) by (simp add: init_kbc_def)
  let ?s = "(with_kheap h kbd0)\<lparr>in_buf := q\<rparr>" and ?cs = "[0x23, 0x2a, 0x17, 0xaa, 0x02] :: u8 list"
  have t: "typed (shift_state ?s \<noteq> 0) ?cs = [104, 73, 49]"
    by (simp add: kbd0_def lowercase_charset_def uppercase_charset_def)
  have q: "q_holds (in_buf ?s) (kheap ?s) []" using h(2) by (cases h) (simp add: kheap_def with_kheap_def)
  have ok: "tables_ok ?s" "used_blocks ?s + length ?cs \<le> 7000" "control_state ?s \<noteq> 1" "0x1d \<notin> set ?cs"
    using h(3) by (simp_all add: tables_ok_def kbd0_def used_blocks_def with_kheap_def)
  have "length [104, 73, 49 :: u8] = 3" by simp
  then show ?thesis using typed_keys_are_read [OF q ok] s unfolding t by metis
qed

end
