(* ===== verification/User_Heap.thy ===== *)
theory User_Heap
  imports Fixed_Size Allocator Loops
begin

text \<open>
  The heap of user programs (\<^verbatim>\<open>src/process/lib/malloc.c\<close>): sixteen pools of fixed-size blocks in the address space of a
  process, set up at the first request. Its pools work like those of the kernel, and the heap is another
  instance of the interface \<open>allocator\<close>.
\<close>

section \<open>Pools\<close>

definition a_usr_space_init :: "nat \<Rightarrow> addr \<Rightarrow> nat \<Rightarrow> headers \<Rightarrow> a_fixed_size_desc \<times> headers" where
  "a_usr_space_init bs mem_addr sz hdr =
     (let num_block = sz div (sizeof_block_desc + bs);
          desc = \<lparr>first_block = mem_addr, has_initialized = 1, block_size = bs, current_free_block = num_block\<rparr>;
          (prev, cur, hdr) = init_blocks (num_block - 1) bs 0 mem_addr hdr;
          hdr = hdr(cur := hdr cur\<lparr>next_block := mem_addr, previous_block := prev\<rparr>)
      in (desc, hdr(mem_addr := hdr mem_addr\<lparr>previous_block := cur\<rparr>)))"

definition a_usr_space_alloc :: "a_fixed_size_desc \<Rightarrow> headers \<Rightarrow> addr \<times> a_fixed_size_desc \<times> headers" where
  "a_usr_space_alloc desc hdr =
     (let cur = first_block desc; nxt = next_block (hdr cur)
      in (cur + sizeof_block_desc, desc\<lparr>first_block := nxt, current_free_block := sub32 (current_free_block desc) 1\<rparr>,
          if nxt \<noteq> 0 then hdr(nxt := hdr nxt\<lparr>previous_block := 0\<rparr>) else hdr))"

definition a_usr_space_free :: "a_fixed_size_desc \<Rightarrow> addr \<Rightarrow> headers \<Rightarrow> a_fixed_size_desc \<times> headers" where
  "a_usr_space_free desc address hdr =
     (let cur = sub32 address sizeof_block_desc; first = first_block desc;
          hdr = hdr(cur := hdr cur\<lparr>next_block := first, previous_block := 0\<rparr>)
      in (desc\<lparr>first_block := cur, current_free_block := wrap32 (current_free_block desc + 1)\<rparr>,
          hdr(first := hdr first\<lparr>previous_block := cur\<rparr>)))"

text \<open>They are the operations of the kernel's pools.\<close>

lemma usr_space_eqs:
  "a_usr_space_init = a_fixed_size_init" "a_usr_space_alloc d h = snd (a_fixed_size_alloc d h)" "a_usr_space_free = a_fixed_size_free"
  by (simp_all add: fun_eq_iff a_usr_space_init_def a_fixed_size_init_def a_usr_space_alloc_def a_fixed_size_alloc_def
      a_usr_space_free_def a_fixed_size_free_def Let_def split: prod.split)

section \<open>The heap\<close>

definition POOL_NUM :: nat where "POOL_NUM = 16"
definition HEAP_VIRT_MEM_START_ADDR :: addr where "HEAP_VIRT_MEM_START_ADDR = 0x40000000"
definition MEM_TO_POOL :: nat where "MEM_TO_POOL = 0x20000"

text \<open>\<open>messages\<close> counts the times that the heap reports an exhausted pool.\<close>

record uheap =
  upools :: "a_fixed_size_desc list"
  uhdrs :: headers
  malloc_initialized :: int
  messages :: nat

definition u_base :: "nat \<Rightarrow> addr" where
  "u_base i = HEAP_VIRT_MEM_START_ADDR + i * MEM_TO_POOL"

definition init_pool :: "nat \<Rightarrow> uheap \<Rightarrow> uheap" where
  "init_pool i s = (let (d, h) = a_usr_space_init (2 ^ (2 + i)) (u_base i) MEM_TO_POOL (uhdrs s)
                    in s\<lparr>upools := (upools s)[i := d], uhdrs := h\<rparr>)"

definition init_malloc :: "uheap \<Rightarrow> uheap" where
  "init_malloc s = fold init_pool [0..<POOL_NUM] s"

text \<open>A request larger than all blocks prints a message and never returns.\<close>

definition malloc :: "nat \<Rightarrow> uheap \<Rightarrow> (addr \<times> uheap) option" where
  "malloc mem_size s =
     (case find (\<lambda>i. mem_size \<le> 2 ^ (2 + i)) [0..<POOL_NUM] of
        None \<Rightarrow> None
      | Some i \<Rightarrow>
          let s = (if malloc_initialized s = -1 then (init_malloc s)\<lparr>malloc_initialized := 1\<rparr> else s);
              s = (if current_free_block (upools s ! i) = 0 then s\<lparr>messages := messages s + 1\<rparr> else s);
              (a, d, h) = a_usr_space_alloc (upools s ! i) (uhdrs s)
          in if a = 0xffffffff then None else Some (a, s\<lparr>upools := (upools s)[i := d], uhdrs := h\<rparr>))"

text \<open>The pool is found from the address; beyond the last one the table of pools ends.\<close>

definition free_pool :: "addr \<Rightarrow> nat option" where
  "free_pool address = find (\<lambda>p. \<not> (p + 1) * MEM_TO_POOL < sub32 address HEAP_VIRT_MEM_START_ADDR) [0..<POOL_NUM]"

definition free_mem :: "addr \<Rightarrow> uheap \<Rightarrow> uheap option" where
  "free_mem address s =
     do { i \<leftarrow> free_pool address;
          let (d, h) = a_usr_space_free (upools s ! i) address (uhdrs s);
          Some (s\<lparr>upools := (upools s)[i := d], uhdrs := h\<rparr>) }"

section \<open>Invariant\<close>

abbreviation u_inv :: "nat \<Rightarrow> a_fixed_size_desc \<Rightarrow> headers \<Rightarrow> bool" where
  "u_inv i \<equiv> pool_inv (u_base i) (2 ^ (2 + i)) MEM_TO_POOL"

abbreviation u_live :: "nat \<Rightarrow> a_fixed_size_desc \<Rightarrow> headers \<Rightarrow> addr set" where
  "u_live i \<equiv> pool_live (u_base i) (2 ^ (2 + i)) MEM_TO_POOL"

abbreviation u_blocks :: "nat \<Rightarrow> addr set" where
  "u_blocks i \<equiv> pool_blocks (u_base i) (2 ^ (2 + i)) MEM_TO_POOL"

definition uh_inv :: "uheap \<Rightarrow> bool" where
  "uh_inv s \<longleftrightarrow> length (upools s) = POOL_NUM \<and>
     (malloc_initialized s \<noteq> -1 \<longrightarrow> (\<forall>i<POOL_NUM. u_inv i (upools s ! i) (uhdrs s)))"

definition uh_live :: "uheap \<Rightarrow> addr set" where
  "uh_live s = (if malloc_initialized s = -1 then {} else (\<Union>i<POOL_NUM. u_live i (upools s ! i) (uhdrs s)))"

lemma u_layout: "u_base i = 0x40000000 + i * 0x20000" "MEM_TO_POOL = 0x20000" "POOL_NUM = 16" "HEAP_VIRT_MEM_START_ADDR = 0x40000000"
  by (simp_all add: u_base_def HEAP_VIRT_MEM_START_ADDR_def MEM_TO_POOL_def POOL_NUM_def)

lemma u_blocks_bounds: "b \<in> u_blocks i \<Longrightarrow> u_base i \<le> b" "b \<in> u_blocks i \<Longrightarrow> b + 8 < u_base (Suc i)"
proof -
  assume "b \<in> u_blocks i"
  note B = pool_blocks_bounds [OF this]
  show "u_base i \<le> b" by (rule B)
  have "0 < (2 :: nat) ^ (2 + i)" by simp
  then show "b + 8 < u_base (Suc i)" using B(2) unfolding u_layout sizeof_block_desc_def mult_Suc by linarith
qed

lemma u_base_mono: "i < j \<Longrightarrow> u_base (Suc i) \<le> u_base j"
  by (simp add: u_layout)

lemma u_blocks_apart: "b \<in> u_blocks i \<Longrightarrow> b \<in> u_blocks j \<Longrightarrow> i = j"
proof (rule ccontr)
  assume b: "b \<in> u_blocks i" "b \<in> u_blocks j" "i \<noteq> j"
  then consider "i < j" | "j < i" by linarith
  then show False
    using u_blocks_bounds [OF b(1)] u_blocks_bounds [OF b(2)] u_base_mono [of i j] u_base_mono [of j i] by cases linarith+
qed

lemma u_limit: "i < POOL_NUM \<Longrightarrow> u_base i + MEM_TO_POOL < 2 ^ 32"
  by (simp add: u_layout)

text \<open>A change inside one pool leaves the others alone.\<close>

lemma u_frame:
  assumes "u_inv j d h" and "\<And>x. x \<in> u_blocks j \<Longrightarrow> next_block (h' x) = next_block (h x)"
  shows "u_inv j d h'" "u_live j d h' = u_live j d h"
  using pool_inv_frame(2,3) [OF assms(2) assms(1)] by simp_all

lemma init_links:
  assumes "a_fixed_size_init (2 ^ (2 + i)) (u_base i) MEM_TO_POOL h = (d, h')" and "x \<in> u_blocks j" and "i \<noteq> j"
  shows "next_block (h' x) = next_block (h x)"
proof (cases "0 < MEM_TO_POOL div (sizeof_block_desc + 2 ^ (2 + i))")
  case True
  have "x \<notin> u_blocks i" using u_blocks_apart assms(2,3) by blast
  then show ?thesis by (rule a_fixed_size_init_spec(3) [OF assms(1) True])
next
  case False
  have "u_base i \<noteq> x"
  proof
    assume "u_base i = x"
    then have "u_base j \<le> u_base i" "u_base i < u_base (Suc j)" using u_blocks_bounds [OF assms(2)] by simp_all
    then show False using assms(3) by (simp add: u_layout)
  qed
  then show ?thesis using assms(1) False by (auto simp: a_fixed_size_init_def Let_def)
qed

lemma init_pool_inv:
  assumes "a_fixed_size_init (2 ^ (2 + i)) (u_base i) MEM_TO_POOL h = (d, h')"
  shows "u_inv i d h'" "u_live i d h' = {}"
proof -
  have "u_inv i d h' \<and> u_live i d h' = {}"
  proof (cases "0 < MEM_TO_POOL div (sizeof_block_desc + 2 ^ (2 + i))")
    case True
    then show ?thesis using pool_inv_init [OF assms True] by blast
  next
    case False
    then have "u_blocks i = {}" "d = \<lparr>first_block = u_base i, has_initialized = 1, block_size = 2 ^ (2 + i), current_free_block = 0\<rparr>"
      using assms by (auto simp: pool_blocks_def a_fixed_size_init_def Let_def)
    then show ?thesis by (simp add: pool_inv_def pool_live_def pool_free_def)
  qed
  then show "u_inv i d h'" "u_live i d h' = {}" by blast+
qed

lemma init_malloc_inv:
  assumes "length (upools s) = POOL_NUM"
  shows "length (upools (init_malloc s)) = POOL_NUM" "messages (init_malloc s) = messages s"
    "i < POOL_NUM \<Longrightarrow> u_inv i (upools (init_malloc s) ! i) (uhdrs (init_malloc s))"
    "i < POOL_NUM \<Longrightarrow> u_live i (upools (init_malloc s) ! i) (uhdrs (init_malloc s)) = {}"
proof -
  have "length (upools (fold init_pool [0..<n] s)) = POOL_NUM \<and> messages (fold init_pool [0..<n] s) = messages s \<and>
      (\<forall>i<n. u_inv i (upools (fold init_pool [0..<n] s) ! i) (uhdrs (fold init_pool [0..<n] s)) \<and>
        u_live i (upools (fold init_pool [0..<n] s) ! i) (uhdrs (fold init_pool [0..<n] s)) = {})" if "n \<le> POOL_NUM" for n
    using that
  proof (induction n)
    case 0
    then show ?case using assms by simp
  next
    case (Suc n)
    let ?s = "fold init_pool [0..<n] s"
    obtain d h where d: "a_fixed_size_init (2 ^ (2 + n)) (u_base n) MEM_TO_POOL (uhdrs ?s) = (d, h)" by fastforce
    have step: "fold init_pool [0..<Suc n] s = ?s\<lparr>upools := (upools ?s)[n := d], uhdrs := h\<rparr>"
      using d by (simp add: init_pool_def usr_space_eqs)
    have "u_inv i (upools ?s ! i) h \<and> u_live i (upools ?s ! i) h = {}" if "i < n" for i
      using u_frame [of i "upools ?s ! i" "uhdrs ?s" h] init_links [OF d, of _ i] Suc that by fastforce
    then show ?case using Suc init_pool_inv [OF d] unfolding step by (simp add: nth_list_update less_Suc_eq)
  qed
  then show "length (upools (init_malloc s)) = POOL_NUM" "messages (init_malloc s) = messages s"
    "i < POOL_NUM \<Longrightarrow> u_inv i (upools (init_malloc s) ! i) (uhdrs (init_malloc s))"
    "i < POOL_NUM \<Longrightarrow> u_live i (upools (init_malloc s) ! i) (uhdrs (init_malloc s)) = {}"
    by (simp_all add: init_malloc_def)
qed

section \<open>An allocator\<close>

lemma u_live_bounds: "a \<in> u_live i d h \<Longrightarrow> u_base i < a \<and> a < u_base (Suc i)"
  using u_blocks_bounds [of _ i] by (fastforce simp: pool_live_def sizeof_block_desc_def)

lemma u_live_apart: "a \<in> u_live i d h \<Longrightarrow> a \<in> u_live j d' h' \<Longrightarrow> i = j"
  using u_blocks_apart by (auto simp: pool_live_def)

text \<open>The effect of replacing one pool.\<close>

lemma uh_replace:
  assumes "uh_inv s" and "malloc_initialized s \<noteq> -1" and "i < POOL_NUM" and "u_inv i d h"
    and "\<And>j x. j \<noteq> i \<Longrightarrow> x \<in> u_blocks j \<Longrightarrow> next_block (h x) = next_block (uhdrs s x)"
  shows "uh_inv (s\<lparr>upools := (upools s)[i := d], uhdrs := h\<rparr>)"
    "uh_live (s\<lparr>upools := (upools s)[i := d], uhdrs := h\<rparr>) = u_live i d h \<union> (uh_live s - u_live i (upools s ! i) (uhdrs s))"
proof -
  have len: "length (upools s) = POOL_NUM" and inv: "\<And>j. j < POOL_NUM \<Longrightarrow> u_inv j (upools s ! j) (uhdrs s)"
    using assms(1,2) by (auto simp: uh_inv_def)
  have other: "u_inv j (upools s ! j) h" "u_live j (upools s ! j) h = u_live j (upools s ! j) (uhdrs s)" if "j < POOL_NUM" "j \<noteq> i" for j
    using u_frame [OF inv [OF that(1)], of h] assms(5) [OF that(2)] by simp_all
  then show "uh_inv (s\<lparr>upools := (upools s)[i := d], uhdrs := h\<rparr>)"
    using len assms(3,4) by (simp add: uh_inv_def nth_list_update)
  have "u_live j ((upools s)[i := d] ! j) h = (if j = i then u_live i d h else u_live j (upools s ! j) (uhdrs s))" if "j < POOL_NUM" for j
    using other(2) [OF that] len that by (simp add: nth_list_update)
  then have new: "uh_live (s\<lparr>upools := (upools s)[i := d], uhdrs := h\<rparr>) =
      (\<Union>j<POOL_NUM. if j = i then u_live i d h else u_live j (upools s ! j) (uhdrs s))"
    using assms(2) by (simp add: uh_live_def)
  show "uh_live (s\<lparr>upools := (upools s)[i := d], uhdrs := h\<rparr>) = u_live i d h \<union> (uh_live s - u_live i (upools s ! i) (uhdrs s))"
    unfolding new using assms(2,3) u_live_apart by (fastforce simp: uh_live_def split: if_splits)
qed

text \<open>The heap after the first request has set it up.\<close>

definition ready_heap :: "uheap \<Rightarrow> uheap" where
  "ready_heap s = (if malloc_initialized s = -1 then (init_malloc s)\<lparr>malloc_initialized := 1\<rparr> else s)"

lemma ready_heap_inv:
  assumes "uh_inv s"
  shows "uh_inv (ready_heap s)" "uh_live (ready_heap s) = uh_live s" "malloc_initialized (ready_heap s) \<noteq> -1" "messages (ready_heap s) = messages s"
  using assms init_malloc_inv [of s] by (auto simp: ready_heap_def uh_inv_def uh_live_def)

lemma malloc_cases:
  assumes "malloc sz s = Some (a, t)"
  obtains i d h where "i < POOL_NUM" "sz \<le> 2 ^ (2 + i)" "a_usr_space_alloc (upools (ready_heap s) ! i) (uhdrs (ready_heap s)) = (a, d, h)"
    "t = (ready_heap s)\<lparr>messages := messages (ready_heap s) + (if current_free_block (upools (ready_heap s) ! i) = 0 then 1 else 0),
      upools := (upools (ready_heap s))[i := d], uhdrs := h\<rparr>"
  using assms by (auto simp: malloc_def ready_heap_def [symmetric] find_Some_iff Let_def split: option.splits prod.splits if_splits)

lemma init_messages: "messages (ready_heap s) = messages s"
proof -
  have "messages (fold init_pool is s) = messages s" for "is"
    by (induction "is" arbitrary: s) (simp_all add: init_pool_def Let_def split: prod.split)
  then show ?thesis by (simp add: ready_heap_def init_malloc_def)
qed

lemma malloc_fresh:
  assumes "uh_inv s" and "malloc sz s = Some (a, t)" and "messages t = messages s"
  obtains i where "i < POOL_NUM" "sz \<le> 2 ^ (2 + i)" "a - 8 \<in> u_blocks i" "8 \<le> a" "uh_inv t" "a \<notin> uh_live s" "uh_live t = insert a (uh_live s)"
proof -
  let ?s = "ready_heap s"
  note R = ready_heap_inv [OF assms(1)]
  obtain i d h where i: "i < POOL_NUM" "sz \<le> 2 ^ (2 + i)" "a_usr_space_alloc (upools ?s ! i) (uhdrs ?s) = (a, d, h)"
    "t = ?s\<lparr>messages := messages ?s + (if current_free_block (upools ?s ! i) = 0 then 1 else 0), upools := (upools ?s)[i := d], uhdrs := h\<rparr>"
    by (rule malloc_cases [OF assms(2)])
  have free: "current_free_block (upools ?s ! i) \<noteq> 0" using i(4) assms(3) R(4) by (auto split: if_splits)
  then have t: "t = ?s\<lparr>upools := (upools ?s)[i := d], uhdrs := h\<rparr>" using i(4) by simp
  obtain p where al: "a_fixed_size_alloc (upools ?s ! i) (uhdrs ?s) = (p, a, d, h)" using i(3) by (cases "a_fixed_size_alloc (upools ?s ! i) (uhdrs ?s)") (simp add: usr_space_eqs)
  have np: "\<not> p" using al free by (auto simp: a_fixed_size_alloc_def Let_def)
  have inv: "u_inv i (upools ?s ! i) (uhdrs ?s)" using R(1,3) i(1) by (simp add: uh_inv_def)
  note P = pool_inv_alloc [OF al np inv u_limit [OF i(1)]]
  have rep: "uh_inv t" "uh_live t = u_live i d h \<union> (uh_live ?s - u_live i (upools ?s ! i) (uhdrs ?s))"
    using uh_replace [OF R(1,3) i(1) P(1)] next_block_alloc [OF al] unfolding t by blast+
  have sub: "u_live i (upools ?s ! i) (uhdrs ?s) \<subseteq> uh_live ?s" using R(3) i(1) by (auto simp: uh_live_def)
  have mem: "a \<in> u_live i d h" using P(3) by simp
  have "a \<notin> uh_live ?s" using P(2) mem u_live_apart R(3) by (fastforce simp: uh_live_def)
  moreover have "uh_live t = insert a (uh_live ?s)" using rep(2) P(3) sub by auto
  moreover have "a - 8 \<in> u_blocks i" "8 \<le> a" using mem by (auto simp: pool_live_def sizeof_block_desc_def)
  ultimately show ?thesis using that i(1,2) rep(1) R(2) by simp
qed

lemma find_first:
  assumes "\<And>j. j < i \<Longrightarrow> \<not> P j" and "P i" and "i < n"
  shows "find P [0..<n] = Some (i :: nat)"
  using assms by (auto simp: find_Some_iff intro!: exI [of _ i])

lemma free_pool_live:
  assumes "a \<in> u_live i d h" and "i < POOL_NUM"
  shows "free_pool a = Some i"
proof -
  have b: "u_base i < a" "a < u_base (Suc i)" using u_live_bounds [OF assms(1)] by simp_all
  have "a < 2 ^ 32" using b(2) assms(2) by (simp add: u_layout)
  then have off: "sub32 a HEAP_VIRT_MEM_START_ADDR = a - HEAP_VIRT_MEM_START_ADDR" using b(1) by (simp add: sub32_le u_layout)
  show ?thesis unfolding free_pool_def off
  proof (rule find_first)
    fix j assume "j < i"
    then show "\<not> \<not> (j + 1) * MEM_TO_POOL < a - HEAP_VIRT_MEM_START_ADDR" using b(1) u_base_mono [of j i] by (simp add: u_layout)
  qed (use b assms(2) in \<open>simp_all add: u_layout\<close>)
qed

interpretation uh: allocator malloc free_mem uh_live uh_inv messages
proof unfold_locales
  fix sz m a m'
  assume "malloc sz m = Some (a, m')"
  then show "messages m \<le> messages m'" by (rule malloc_cases) (simp add: init_messages)
next
  fix sz m a m'
  assume *: "uh_inv m" "malloc sz m = Some (a, m')" "messages m' = messages m"
  obtain i where i: "i < POOL_NUM" "a - 8 \<in> u_blocks i" "8 \<le> a" "uh_inv m'" "a \<notin> uh_live m" "uh_live m' = insert a (uh_live m)"
    by (rule malloc_fresh [OF *])
  then have "0 < a" "a < 0xf0000000" using u_blocks_bounds [OF i(2)] by (simp_all add: u_layout)
  then show "uh_inv m' \<and> a \<notin> uh_live m \<and> uh_live m' = insert a (uh_live m) \<and> 0 < a \<and> a < 0xf0000000" using i by simp
next
  fix m a
  assume inv: "uh_inv m" and a: "a \<in> uh_live m"
  then obtain i where i: "i < POOL_NUM" "a \<in> u_live i (upools m ! i) (uhdrs m)" "malloc_initialized m \<noteq> -1"
    by (auto simp: uh_live_def split: if_splits)
  obtain d h where fr: "a_fixed_size_free (upools m ! i) a (uhdrs m) = (d, h)" by fastforce
  have pinv: "u_inv i (upools m ! i) (uhdrs m)" using inv i by (simp add: uh_inv_def)
  note P = pool_inv_free [OF fr i(2) pinv u_limit [OF i(1)]]
  have "a - sizeof_block_desc \<in> u_blocks i" using i(2) by (auto simp: pool_live_def)
  then have links: "next_block (h x) = next_block (uhdrs m x)" if "j \<noteq> i" "x \<in> u_blocks j" for j x
    using that u_blocks_apart by (intro P(3)) blast
  let ?m = "m\<lparr>upools := (upools m)[i := d], uhdrs := h\<rparr>"
  have "free_mem a m = Some ?m" using free_pool_live [OF i(2,1)] fr by (simp add: free_mem_def usr_space_eqs)
  moreover have "uh_inv ?m" using uh_replace(1) [OF inv i(3,1) P(1)] links by blast
  moreover have "uh_live ?m = uh_live m - {a}"
  proof -
    have "uh_live ?m = u_live i d h \<union> (uh_live m - u_live i (upools m ! i) (uhdrs m))"
      using uh_replace(2) [OF inv i(3,1) P(1)] links by blast
    moreover have "u_live i (upools m ! i) (uhdrs m) \<subseteq> uh_live m" using i by (auto simp: uh_live_def)
    ultimately show ?thesis using P(2) i(2) by auto
  qed
  ultimately show "\<exists>m'. free_mem a m = Some m' \<and> uh_inv m' \<and> uh_live m' = uh_live m - {a} \<and> messages m' = messages m" by simp
qed

lemma length_init_pools [simp]: "length (upools (fold init_pool is s)) = length (upools s)"
  by (induction "is" arbitrary: s) (simp_all add: init_pool_def Let_def split: prod.split)

lemma init_pool_free:
  assumes "i < length (upools s)"
  shows "current_free_block (upools (init_pool i s) ! j) =
    (if j = i then MEM_TO_POOL div (sizeof_block_desc + 2 ^ (2 + i)) else current_free_block (upools s ! j))"
  using assms by (auto simp: init_pool_def a_usr_space_init_def Let_def split: prod.split)

lemma init_free_blocks:
  assumes "length (upools s) = POOL_NUM" and "n \<le> POOL_NUM" and "i < n"
  shows "current_free_block (upools (fold init_pool [0..<n] s) ! i) = MEM_TO_POOL div (sizeof_block_desc + 2 ^ (2 + i))"
  using assms(2,3)
proof (induction n)
  case (Suc n)
  then show ?case using assms(1) init_pool_free [of n "fold init_pool [0..<n] s" i] by (auto simp: less_Suc_eq)
qed simp

lemma malloc_runs:
  assumes "uh_inv s" and "find (\<lambda>i. sz \<le> 2 ^ (2 + i)) [0..<POOL_NUM] = Some i" and "current_free_block (upools (ready_heap s) ! i) \<noteq> 0"
  shows "\<exists>a t. malloc sz s = Some (a, t) \<and> messages t = messages s"
proof -
  let ?r = "ready_heap s"
  have i: "i < POOL_NUM" using assms(2) by (auto simp: find_Some_iff)
  have "u_inv i (upools ?r ! i) (uhdrs ?r)" using ready_heap_inv [OF assms(1)] i by (simp add: uh_inv_def)
  moreover have "first_block (upools ?r ! i) \<in> set (pool_free (upools ?r ! i) (uhdrs ?r))"
    using assms(3) by (cases "current_free_block (upools ?r ! i)") (simp_all add: pool_free_def)
  ultimately have "first_block (upools ?r ! i) \<in> u_blocks i" by (auto simp: pool_inv_def)
  then have "first_block (upools ?r ! i) + 8 \<noteq> 0xffffffff" using u_blocks_bounds(2) i by (fastforce simp: u_layout)
  then show ?thesis using assms(2,3) init_messages [of s] unfolding malloc_def ready_heap_def [symmetric]
    by (simp add: a_usr_space_alloc_def Let_def sizeof_block_desc_def)
qed

section \<open>Properties\<close>

text \<open>C23: A request of a user program that is served without a message gets a block that is large enough, lies inside
  one pool of its heap and was not in use; giving it back restores the blocks in use.\<close>

theorem user_malloc_free:
  assumes "uh_inv s" and "malloc sz s = Some (a, t)" and "messages t = messages s"
  shows "a \<notin> uh_live s \<and> uh_live t = insert a (uh_live s) \<and>
    (\<exists>i<POOL_NUM. u_base i + 8 \<le> a \<and> a + sz \<le> u_base (Suc i)) \<and>
    (\<exists>u. free_mem a t = Some u \<and> uh_inv u \<and> uh_live u = uh_live s)"
proof -
  obtain i where i: "i < POOL_NUM" "sz \<le> 2 ^ (2 + i)" "a - 8 \<in> u_blocks i" "8 \<le> a" "a \<notin> uh_live s" "uh_live t = insert a (uh_live s)"
    by (rule malloc_fresh [OF assms])
  have "u_base i \<le> a - 8" "a - 8 + 8 + 2 ^ (2 + i) \<le> u_base i + MEM_TO_POOL"
    using pool_blocks_bounds [OF i(3)] by (simp_all add: sizeof_block_desc_def)
  then have "u_base i + 8 \<le> a \<and> a + sz \<le> u_base (Suc i)" using i(2,4) by (simp add: u_layout)
  then show ?thesis using i(1,5,6) uh.alloc_release [OF assms] by blast
qed

definition uheap0 :: uheap where
  "uheap0 = \<lparr>upools = replicate 16 \<lparr>first_block = 0, has_initialized = 0, block_size = 0, current_free_block = 0\<rparr>,
     uhdrs = (\<lambda>_. \<lparr>previous_block = 0, next_block = 0\<rparr>), malloc_initialized = -1, messages = 0\<rparr>"

lemma uheap0_inv: "uh_inv uheap0"
  by (simp add: uh_inv_def uheap0_def POOL_NUM_def)

text \<open>The pool of the largest blocks has none, since a block with its header is larger than the pool.\<close>

lemma last_pool:
  assumes "length (upools s) = POOL_NUM" and "malloc_initialized s = -1"
  shows "next_block (uhdrs (ready_heap s) (u_base 15)) = u_base 15" "length (upools (ready_heap s)) = POOL_NUM"
    "upools (ready_heap s) ! 15 = \<lparr>first_block = u_base 15, has_initialized = 1, block_size = 2 ^ 17, current_free_block = 0\<rparr>"
proof -
  let ?s = "fold init_pool [0..<15] s"
  have len: "length (upools (fold init_pool is s)) = POOL_NUM" for "is" using assms(1) by simp
  have none: "MEM_TO_POOL div (sizeof_block_desc + 2 ^ (2 + 15)) = 0" by (simp add: MEM_TO_POOL_def sizeof_block_desc_def)
  have fold: "fold init_pool [0..<POOL_NUM] s = init_pool 15 ?s"
    using upt_Suc_append [of 0 15] by (simp add: POOL_NUM_def)
  have r: "ready_heap s = (init_pool 15 ?s)\<lparr>malloc_initialized := 1\<rparr>" using assms(2) by (simp only: ready_heap_def init_malloc_def fold simp_thms if_True)
  show "length (upools (ready_heap s)) = POOL_NUM" using len [of "[0..<POOL_NUM]"] unfolding r fold by simp
  show "next_block (uhdrs (ready_heap s) (u_base 15)) = u_base 15"
    "upools (ready_heap s) ! 15 = \<lparr>first_block = u_base 15, has_initialized = 1, block_size = 2 ^ 17, current_free_block = 0\<rparr>"
    using len [of "[0..<15]"] none unfolding r by (simp_all add: init_pool_def a_usr_space_init_def Let_def POOL_NUM_def)
qed

text \<open>Two requests of more than 65536 bytes get the same block.\<close>

lemma large_requests_share:
  assumes "length (upools s) = POOL_NUM" and "malloc_initialized s = -1" and "65536 < sz" and "sz \<le> 131072"
  shows "\<exists>t u. malloc sz s = Some (u_base 15 + 8, t) \<and> malloc sz t = Some (u_base 15 + 8, u)"
proof -
  note L = last_pool [OF assms(1,2)]
  have pool: "find (\<lambda>i. sz \<le> 2 ^ (2 + i)) [0..<POOL_NUM] = Some 15"
  proof (rule find_first)
    fix j :: nat assume "j < 15"
    then have "(2 :: nat) ^ (2 + j) \<le> 2 ^ 16" by (intro power_increasing) auto
    then show "\<not> sz \<le> 2 ^ (2 + j)" using assms(3) by simp
  qed (use assms(4) in \<open>simp_all add: POOL_NUM_def\<close>)
  let ?r = "ready_heap s"
  have b: "u_base 15 \<noteq> 0" "u_base 15 + 8 \<noteq> 0xffffffff" by (simp_all add: u_layout)
  let ?d = "\<lparr>first_block = u_base 15, has_initialized = 1, block_size = 2 ^ 17, current_free_block = sub32 0 1\<rparr>"
  let ?h = "(uhdrs ?r)(u_base 15 := uhdrs ?r (u_base 15)\<lparr>previous_block := 0\<rparr>)"
  let ?t = "?r\<lparr>messages := messages ?r + 1, upools := (upools ?r)[15 := ?d], uhdrs := ?h\<rparr>"
  have first: "malloc sz s = Some (u_base 15 + 8, ?t)"
    using pool L b unfolding malloc_def ready_heap_def [symmetric]
    by (simp add: a_usr_space_alloc_def Let_def sizeof_block_desc_def)
  have "malloc_initialized ?r \<noteq> -1" using assms(2) by (simp add: ready_heap_def)
  then have "\<exists>u. malloc sz ?t = Some (u_base 15 + 8, u)"
    using pool L b unfolding malloc_def
    by (simp add: a_usr_space_alloc_def Let_def sizeof_block_desc_def POOL_NUM_def sub32_zero_one)
  then show ?thesis using first by blast
qed

theorem user_malloc_free_witness:
  "\<exists>a t u. malloc 100 uheap0 = Some (a, t) \<and> a \<notin> uh_live uheap0 \<and> uh_live t = insert a (uh_live uheap0) \<and> free_mem a t = Some u \<and> uh_live u = uh_live uheap0"
proof -
  have pool: "find (\<lambda>i. (100 :: nat) \<le> 2 ^ (2 + i)) [0..<POOL_NUM] = Some 5"
  proof (rule find_first)
    fix j :: nat assume "j < 5"
    then have "(2 :: nat) ^ (2 + j) \<le> 2 ^ 6" by (intro power_increasing) auto
    then show "\<not> 100 \<le> (2 :: nat) ^ (2 + j)" by simp
  qed (simp_all add: POOL_NUM_def)
  have "length (upools uheap0) = POOL_NUM" "malloc_initialized uheap0 = -1" by (simp_all add: uheap0_def POOL_NUM_def)
  then have "current_free_block (upools (ready_heap uheap0) ! 5) = MEM_TO_POOL div (sizeof_block_desc + 2 ^ (2 + 5))"
    using init_free_blocks [of uheap0 POOL_NUM 5] by (simp add: ready_heap_def init_malloc_def POOL_NUM_def)
  then obtain a t where "malloc 100 uheap0 = Some (a, t)" "messages t = messages uheap0"
    using malloc_runs [OF uheap0_inv pool] by (auto simp: MEM_TO_POOL_def sizeof_block_desc_def)
  then show ?thesis using user_malloc_free [OF uheap0_inv] by blast
qed

end
