(* ===== verification/Syscall.thy ===== *)
theory Syscall
  imports Prelude
begin

text \<open>
  System calls: the dispatch of \<^verbatim>\<open>src/syscall_handler.c\<close> and the functions of \<^verbatim>\<open>src/process/lib\<close> that user programs
  call it through. A program stores the arguments of a call in an array on its stack and passes the number of the
  call and the address of the array in registers; the handler reads the arguments from the array and stores the
  result there. The functions of the kernel that the handler calls are an argument of the model (\<open>calls\<close>), as is the
  return from the interrupt (\<open>leave\<close>) with the action that the handler asks for. Array elements that are not set hold
  \<open>stack i\<close>; an access outside the array is \<open>None\<close>.
\<close>

section \<open>The kernel side\<close>

datatype file_system = Root_fs | Scnd_fs

datatype kcall =
    Fork | Malloc u32 | Free u32 | Big_malloc u32 | Big_free u32
  | Write_char u8 | Read_char | Echo_char u8 | Enable_cursor | Disable_cursor | Update_cursor | Delete_char
  | Pause | Awake u32 | Exit u32 | Exec u32 u32 | Sleep_time u32
  | Open file_system u32 u32 | Close file_system u32 | Read file_system u32 u32 u32 u32 | Seek file_system u32 u32 u32 | Rm file_system u32 | Mkdir file_system u32
  | Chdir file_system u32 | Stat file_system u32 u32 | Read_write file_system u32 u32 u32 u32 u32
  | Open_socket u32 | Bind u32 u32 u32 u32 u32 | Recvfrom u32 u32 u32 u32 u32 | Sendto u32 u32 u32 u32 u32
  | Close_socket u32 | Listen u32 | Accept u32 | Connect u32 u32 u32 | Icmp_echo_request u32 u32 u32
  | Getpid | Getpgid u32 | Setpgid u32 u32 | Tcgetpgrp | Tcsetpgrp u32 | Signal
  | Check_free_mem | Check_open_conn | Panic | Flush_inode_cache file_system

record 'k sys =
  kernel_state :: 'k
  user_mem :: "u32 \<Rightarrow> u8"
  device_num :: u8
  net_flush :: bool

record 'k machine =
  calls :: "kcall \<Rightarrow> 'k \<Rightarrow> (u32 \<times> 'k) option"
  leave :: "u32 \<Rightarrow> 'k sys \<Rightarrow> 'k sys option"
  stack :: "nat \<Rightarrow> u32"

definition slot :: "u32 list \<Rightarrow> nat \<Rightarrow> u32 option" where
  "slot params i = (if i < length params then Some (params ! i) else None)"

definition set_slot :: "u32 list \<Rightarrow> nat \<Rightarrow> u32 \<Rightarrow> u32 list option" where
  "set_slot params i v = (if i < length params then Some (params[i := v]) else None)"

definition kernel_call :: "'k machine \<Rightarrow> kcall \<Rightarrow> 'k sys \<Rightarrow> (u32 \<times> 'k sys) option" where
  "kernel_call m c s = do { (r, k) \<leftarrow> calls m c (kernel_state s); Some (r, s\<lparr>kernel_state := k\<rparr>) }"

text \<open>A case of the switch: the result of the call goes to element \<open>i\<close>, or nowhere.\<close>

definition answer :: "'k machine \<Rightarrow> u32 list \<Rightarrow> nat \<Rightarrow> kcall \<Rightarrow> 'k sys \<Rightarrow> (u32 list \<times> 'k sys) option" where
  "answer m params i c s = do { (r, s) \<leftarrow> kernel_call m c s; params \<leftarrow> set_slot params i r; Some (params, s) }"

definition perform :: "'k machine \<Rightarrow> u32 list \<Rightarrow> kcall \<Rightarrow> 'k sys \<Rightarrow> (u32 list \<times> 'k sys) option" where
  "perform m params c s = do { (r, s) \<leftarrow> kernel_call m c s; Some (params, s) }"

definition SELECT_FS :: "'k sys \<Rightarrow> file_system" where
  "SELECT_FS s = (if device_num s = 0 then Root_fs else Scnd_fs)"

text \<open>\<^verbatim>\<open>_select_dev\<close> of the disk driver.\<close>

definition select_dev_ata :: "u32 \<Rightarrow> 'k sys \<Rightarrow> 'k sys" where
  "select_dev_ata n s = s\<lparr>device_num := ucast n\<rparr>"

text \<open>Processes, memory and the console.\<close>

definition process_calls :: "'k machine \<Rightarrow> u32 \<Rightarrow> u32 list \<Rightarrow> 'k sys \<Rightarrow> (u32 list \<times> 'k sys) option" where
  "process_calls m num p s =
     (if num = 1 then answer m p 0 Fork s
      else if num = 2 then do { a \<leftarrow> slot p 0; answer m p 1 (Malloc a) s }
      else if num = 3 then do { a \<leftarrow> slot p 0; perform m p (Free a) s }
      else if num = 150 then do { a \<leftarrow> slot p 0; answer m p 1 (Big_malloc a) s }
      else if num = 151 then do { a \<leftarrow> slot p 0; perform m p (Big_free a) s }
      else if num = 4 then do { a \<leftarrow> slot p 0; perform m p (Write_char (ucast a)) s }
      else if num = 5 then
        do { (r, s) \<leftarrow> kernel_call m Read_char s; a \<leftarrow> slot p 0; Some (p, s\<lparr>user_mem := (user_mem s)(a := ucast r)\<rparr>) }
      else if num = 6 then do { a \<leftarrow> slot p 0; perform m p (Echo_char (ucast a)) s }
      else if num = 7 then perform m p Enable_cursor s
      else if num = 8 then perform m p Disable_cursor s
      else if num = 9 then perform m p Update_cursor s
      else if num = 10 then perform m p Delete_char s
      else if num = 11 then perform m p Pause s
      else if num = 12 then do { a \<leftarrow> slot p 0; perform m p (Awake a) s }
      else if num = 13 then do { a \<leftarrow> slot p 0; perform m p (Exit a) s }
      else if num = 14 then do { a \<leftarrow> slot p 0; b \<leftarrow> slot p 1; answer m p 2 (Exec a b) s }
      else do { a \<leftarrow> slot p 0; perform m p (Sleep_time a) s })"

text \<open>Files. The change of the directory and the status of a file use the root file system whatever is selected.\<close>

definition file_calls :: "'k machine \<Rightarrow> u32 \<Rightarrow> u32 list \<Rightarrow> 'k sys \<Rightarrow> (u32 list \<times> 'k sys) option" where
  "file_calls m num p s =
     (let f = SELECT_FS s in
      if num = 18 then do { a \<leftarrow> slot p 0; b \<leftarrow> slot p 1; answer m p 2 (Open f a b) s }
      else if num = 19 then do { a \<leftarrow> slot p 0; answer m p 1 (Close f a) s }
      else if num = 20 then do { a \<leftarrow> slot p 0; b \<leftarrow> slot p 1; c \<leftarrow> slot p 2; answer m p 3 (Read f a b c 1) s }
      else if num = 36 then do { a \<leftarrow> slot p 0; b \<leftarrow> slot p 1; c \<leftarrow> slot p 2; answer m p 3 (Seek f a b c) s }
      else if num = 22 then do { a \<leftarrow> slot p 0; answer m p 1 (Rm f a) s }
      else if num = 23 then do { a \<leftarrow> slot p 0; answer m p 1 (Mkdir f a) s }
      else if num = 26 then do { a \<leftarrow> slot p 0; answer m p 1 (Chdir Root_fs a) s }
      else do { a \<leftarrow> slot p 0; b \<leftarrow> slot p 1; answer m p 2 (Stat Root_fs a b) s })"

text \<open>Sockets and process groups.\<close>

definition socket_calls :: "'k machine \<Rightarrow> u32 \<Rightarrow> u32 list \<Rightarrow> 'k sys \<Rightarrow> (u32 list \<times> 'k sys) option" where
  "socket_calls m num p s =
     (if num = 28 then do { a \<leftarrow> slot p 0; answer m p 1 (Open_socket a) s }
      else if num = 29 then
        do { a \<leftarrow> slot p 0; b \<leftarrow> slot p 1; c \<leftarrow> slot p 2; d \<leftarrow> slot p 3; e \<leftarrow> slot p 4; answer m p 5 (Bind a b c d e) s }
      else if num = 30 then
        do { a \<leftarrow> slot p 0; b \<leftarrow> slot p 1; c \<leftarrow> slot p 2; d \<leftarrow> slot p 3; e \<leftarrow> slot p 4; answer m p 5 (Recvfrom a b c d e) s }
      else if num = 31 then
        do { a \<leftarrow> slot p 0; b \<leftarrow> slot p 1; c \<leftarrow> slot p 2; d \<leftarrow> slot p 3; e \<leftarrow> slot p 4; answer m p 5 (Sendto a b c d e) s }
      else if num = 32 then do { a \<leftarrow> slot p 0; answer m p 0 (Close_socket a) s }
      else if num = 33 then do { a \<leftarrow> slot p 0; answer m p 1 (Listen a) s }
      else if num = 34 then do { a \<leftarrow> slot p 0; answer m p 3 (Accept a) s }
      else if num = 35 then do { a \<leftarrow> slot p 0; b \<leftarrow> slot p 1; c \<leftarrow> slot p 2; answer m p 3 (Connect a b c) s }
      else if num = 37 then do { a \<leftarrow> slot p 0; b \<leftarrow> slot p 1; c \<leftarrow> slot p 2; answer m p 3 (Icmp_echo_request a b c) s }
      else if num = 38 then answer m p 0 Getpid s
      else if num = 39 then do { a \<leftarrow> slot p 0; answer m p 1 (Getpgid a) s }
      else if num = 40 then do { a \<leftarrow> slot p 0; b \<leftarrow> slot p 1; answer m p 2 (Setpgid a b) s }
      else if num = 41 then answer m p 0 Tcgetpgrp s
      else do { a \<leftarrow> slot p 0; answer m p 1 (Tcsetpgrp a) s })"

text \<open>The remaining numbers. \<^verbatim>\<open>_signal\<close> takes no argument: the one passed is read and dropped.\<close>

definition other_calls :: "'k machine \<Rightarrow> u32 \<Rightarrow> u32 list \<Rightarrow> 'k sys \<Rightarrow> (u32 list \<times> 'k sys) option" where
  "other_calls m num p s =
     (if num = 101 then Some (p, s)
      else if num = 106 then do { a \<leftarrow> slot p 0; answer m p 1 (Listen a) s }
      else if num = 107 then do { a \<leftarrow> slot p 0; perform m p Signal s }
      else if num = 108 then do { a \<leftarrow> slot p 0; Some (p, select_dev_ata a s) }
      else if num = 109 then
        do { a \<leftarrow> slot p 0; b \<leftarrow> slot p 1; c \<leftarrow> slot p 2; d \<leftarrow> slot p 3; answer m p 4 (Read_write (SELECT_FS s) a b c d 1) s }
      else if num = 103 then perform m p Check_free_mem s
      else if num = 105 then perform m p Check_open_conn s
      else if num = 200 then perform m p (Flush_inode_cache Root_fs) s
      else perform m p Panic s)"

definition syscall_switch :: "'k machine \<Rightarrow> u32 \<Rightarrow> u32 list \<Rightarrow> 'k sys \<Rightarrow> (u32 list \<times> 'k sys) option" where
  "syscall_switch m num p s =
     (if 1 \<le> num \<and> num \<le> 15 \<or> num = 150 \<or> num = 151 then process_calls m num p s
      else if num \<in> {18, 19, 20, 22, 23, 26, 27, 36} then file_calls m num p s
      else if 28 \<le> num \<and> num \<le> 42 then socket_calls m num p s
      else other_calls m num p s)"

text \<open>
  What the return from the call has to do: 1 for a change of the process, 2 when the process ends. The reading of a
  character asks for a change when it has got none.
\<close>

definition on_exit_action :: "u32 \<Rightarrow> u8 \<Rightarrow> u32" where
  "on_exit_action num data =
     (if num = 5 then (if data = 0 then 1 else 0)
      else if num = 13 then 2
      else if num \<in> {11, 15, 18, 19, 20, 22, 23, 26, 36, 101, 109} then 1 else 0)"

definition syscall_handler :: "'k machine \<Rightarrow> u32 \<Rightarrow> u32 list \<Rightarrow> 'k sys \<Rightarrow> (u32 list \<times> 'k sys) option" where
  "syscall_handler m num p s =
     do { (q, s) \<leftarrow> syscall_switch m num p s;
          let data = (case slot p 0 of Some a \<Rightarrow> user_mem s a | None \<Rightarrow> 0);
          let s = (if num = 30 \<or> num = 31 \<or> num = 32 \<or> num = 35 then s\<lparr>net_flush := True\<rparr> else s);
          s \<leftarrow> leave m (on_exit_action num data) s;
          Some (q, s) }"

section \<open>The user side\<close>

definition SYSCALL :: "'k machine \<Rightarrow> u32 \<Rightarrow> u32 list \<Rightarrow> 'k sys \<Rightarrow> (u32 list \<times> 'k sys) option" where
  "SYSCALL m num params s = syscall_handler m num params s"

text \<open>The array of arguments as it is declared.\<close>

definition array :: "'k machine \<Rightarrow> nat \<Rightarrow> u32 list" where
  "array m n = map (stack m) [0..<n]"

text \<open>Processes and files. The local variable that \<^verbatim>\<open>fork\<close> tests before setting it has no effect.\<close>

definition exec :: "'k machine \<Rightarrow> u32 \<Rightarrow> u32 \<Rightarrow> 'k sys \<Rightarrow> (u32 \<times> 'k sys) option" where
  "exec m path argv s =
     do { (params, s) \<leftarrow> SYSCALL m 14 ((array m 3)[0 := path, 1 := argv]) s;
          r \<leftarrow> slot params 2;
          Some (r, s) }"

definition fork :: "'k machine \<Rightarrow> 'k sys \<Rightarrow> (u32 \<times> 'k sys) option" where
  "fork m s =
     do { (params, s) \<leftarrow> SYSCALL m 1 ((array m 2)[0 := 0]) s;
          r \<leftarrow> slot params 0;
          Some (r, s) }"

definition pause_call :: "'k machine \<Rightarrow> 'k sys \<Rightarrow> 'k sys option" where
  "pause_call m s = do { (_, s) \<leftarrow> SYSCALL m 11 [] s; Some s }"

definition sleep_call :: "'k machine \<Rightarrow> u32 \<Rightarrow> 'k sys \<Rightarrow> 'k sys option" where
  "sleep_call m time s = do { (_, s) \<leftarrow> SYSCALL m 15 ((array m 1)[0 := time]) s; Some s }"

definition close :: "'k machine \<Rightarrow> u32 \<Rightarrow> 'k sys \<Rightarrow> (u32 \<times> 'k sys) option" where
  "close m fd s =
     do { (params, s) \<leftarrow> SYSCALL m 19 ((array m 2)[0 := fd]) s;
          r \<leftarrow> slot params 1;
          Some (r, s) }"

definition read :: "'k machine \<Rightarrow> u32 \<Rightarrow> u32 \<Rightarrow> u32 \<Rightarrow> 'k sys \<Rightarrow> (u32 \<times> 'k sys) option" where
  "read m fd buf count s =
     do { (params, s) \<leftarrow> SYSCALL m 109 ((array m 5)[0 := fd, 1 := buf, 2 := count, 3 := 0]) s;
          r \<leftarrow> slot params 4;
          Some (r, s) }"

definition write_call :: "'k machine \<Rightarrow> u32 \<Rightarrow> u32 \<Rightarrow> u32 \<Rightarrow> 'k sys \<Rightarrow> (u32 \<times> 'k sys) option" where
  "write_call m fd buf count s =
     do { (params, s) \<leftarrow> SYSCALL m 109 ((array m 5)[0 := fd, 1 := buf, 2 := count, 3 := 1]) s;
          r \<leftarrow> slot params 4;
          Some (r, s) }"

definition chdir_call :: "'k machine \<Rightarrow> u32 \<Rightarrow> 'k sys \<Rightarrow> (u32 \<times> 'k sys) option" where
  "chdir_call m path s =
     do { (params, s) \<leftarrow> SYSCALL m 26 ((array m 1)[0 := path]) s;
          r \<leftarrow> slot params 1;
          Some (r, s) }"

definition lseek :: "'k machine \<Rightarrow> u32 \<Rightarrow> u32 \<Rightarrow> u32 \<Rightarrow> 'k sys \<Rightarrow> (u32 \<times> 'k sys) option" where
  "lseek m fd offset whence s =
     do { (params, s) \<leftarrow> SYSCALL m 36 ((array m 4)[0 := fd, 1 := offset, 2 := whence]) s;
          r \<leftarrow> slot params 3;
          Some (r, s) }"

definition getpid_call :: "'k machine \<Rightarrow> 'k sys \<Rightarrow> (u32 \<times> 'k sys) option" where
  "getpid_call m s =
     do { (params, s) \<leftarrow> SYSCALL m 38 (array m 1) s;
          r \<leftarrow> slot params 0;
          Some (ucast (ucast r :: u16), s) }"

definition getpgid_call :: "'k machine \<Rightarrow> u32 \<Rightarrow> 'k sys \<Rightarrow> (u32 \<times> 'k sys) option" where
  "getpgid_call m pid s =
     do { (params, s) \<leftarrow> SYSCALL m 39 (array m 2) s;
          r \<leftarrow> slot params 1;
          Some (r, s) }"

definition setpgid_call :: "'k machine \<Rightarrow> u32 \<Rightarrow> u32 \<Rightarrow> 'k sys \<Rightarrow> (u32 \<times> 'k sys) option" where
  "setpgid_call m pid pgid s =
     do { (params, s) \<leftarrow> SYSCALL m 40 ((array m 3)[0 := pid, 1 := pgid]) s;
          r \<leftarrow> slot params 2;
          Some (r, s) }"

definition tcgetpgrp_call :: "'k machine \<Rightarrow> 'k sys \<Rightarrow> (u32 \<times> 'k sys) option" where
  "tcgetpgrp_call m s =
     do { (params, s) \<leftarrow> SYSCALL m 41 (array m 1) s;
          r \<leftarrow> slot params 0;
          Some (r, s) }"

definition tcsetpgrp_call :: "'k machine \<Rightarrow> u32 \<Rightarrow> 'k sys \<Rightarrow> (u32 \<times> 'k sys) option" where
  "tcsetpgrp_call m fg_pgid s =
     do { (params, s) \<leftarrow> SYSCALL m 42 ((array m 2)[0 := fg_pgid]) s;
          r \<leftarrow> slot params 1;
          Some (r, s) }"

definition read_test :: "'k machine \<Rightarrow> 'k sys \<Rightarrow> 'k sys option" where
  "read_test m s = do { (_, s) \<leftarrow> SYSCALL m 105 (array m 1) s; Some s }"

definition signal :: "'k machine \<Rightarrow> 'k sys \<Rightarrow> 'k sys option" where
  "signal m s = do { (_, s) \<leftarrow> SYSCALL m 107 (array m 1) s; Some s }"

definition select_dev :: "'k machine \<Rightarrow> u32 \<Rightarrow> 'k sys \<Rightarrow> 'k sys option" where
  "select_dev m num s = do { (_, s) \<leftarrow> SYSCALL m 108 ((array m 1)[0 := num]) s; Some s }"

definition open_call :: "'k machine \<Rightarrow> u32 \<Rightarrow> u32 \<Rightarrow> 'k sys \<Rightarrow> (u32 \<times> 'k sys) option" where
  "open_call m fullpath flags s =
     do { (params, s) \<leftarrow> SYSCALL m 18 ((array m 3)[0 := fullpath, 1 := flags]) s;
          r \<leftarrow> slot params 2;
          Some (r, s) }"

definition flush_inode_cache_call :: "'k machine \<Rightarrow> 'k sys \<Rightarrow> 'k sys option" where
  "flush_inode_cache_call m s = do { (_, s) \<leftarrow> SYSCALL m 200 (array m 1) s; Some s }"

definition mkdir_call :: "'k machine \<Rightarrow> u32 \<Rightarrow> 'k sys \<Rightarrow> (u32 \<times> 'k sys) option" where
  "mkdir_call m fullpath s =
     do { (params, s) \<leftarrow> SYSCALL m 23 ((array m 1)[0 := fullpath]) s;
          r \<leftarrow> slot params 1;
          Some (r, s) }"

definition stat_call :: "'k machine \<Rightarrow> u32 \<Rightarrow> u32 \<Rightarrow> 'k sys \<Rightarrow> (u32 \<times> 'k sys) option" where
  "stat_call m pathname st s =
     do { (params, s) \<leftarrow> SYSCALL m 27 ((array m 3)[0 := pathname, 1 := st]) s;
          r \<leftarrow> slot params 2;
          Some (r, s) }"

definition remove :: "'k machine \<Rightarrow> u32 \<Rightarrow> 'k sys \<Rightarrow> (u32 \<times> 'k sys) option" where
  "remove m filename s =
     do { (params, s) \<leftarrow> SYSCALL m 22 ((array m 2)[0 := filename]) s;
          r \<leftarrow> slot params 1;
          Some (r, s) }"

definition exit :: "'k machine \<Rightarrow> u32 \<Rightarrow> 'k sys \<Rightarrow> 'k sys option" where
  "exit m status s = do { (_, s) \<leftarrow> SYSCALL m 13 ((array m 1)[0 := status]) s; Some s }"

definition check_free_mem :: "'k machine \<Rightarrow> 'k sys \<Rightarrow> 'k sys option" where
  "check_free_mem m s = do { (_, s) \<leftarrow> SYSCALL m 103 (array m 1) s; Some s }"

definition check_open_conn :: "'k machine \<Rightarrow> 'k sys \<Rightarrow> 'k sys option" where
  "check_open_conn m s = do { (_, s) \<leftarrow> SYSCALL m 105 (array m 1) s; Some s }"

definition panic_call :: "'k machine \<Rightarrow> 'k sys \<Rightarrow> 'k sys option" where
  "panic_call m s = do { (_, s) \<leftarrow> SYSCALL m 104 (array m 1) s; Some s }"

text \<open>
  Sockets. An address lies in the memory of the program: the family in its first two bytes, the port in the next two
  and the IP address in the last four, both with the highest byte first.
\<close>

definition sin_port :: "u32 \<Rightarrow> u32" where
  "sin_port addr = addr + 2"

definition sin_addr :: "u32 \<Rightarrow> u32" where
  "sin_addr addr = addr + 4"

definition port_of :: "u32 \<Rightarrow> 'k sys \<Rightarrow> u32" where
  "port_of port s = push_bit 8 (ucast (user_mem s port)) + ucast (user_mem s (port + 1))"

definition ip_of :: "u32 \<Rightarrow> 'k sys \<Rightarrow> u32" where
  "ip_of ip s = push_bit 24 (ucast (user_mem s ip)) + push_bit 16 (ucast (user_mem s (ip + 1))) +
     push_bit 8 (ucast (user_mem s (ip + 2))) + ucast (user_mem s (ip + 3))"

definition socket_call :: "'k machine \<Rightarrow> u32 \<Rightarrow> u32 \<Rightarrow> u32 \<Rightarrow> 'k sys \<Rightarrow> (u32 \<times> 'k sys) option" where
  "socket_call m family ty protocol s =
     do { (params, s) \<leftarrow> SYSCALL m 28 ((array m 2)[0 := ty]) s;
          r \<leftarrow> slot params 1;
          Some (r, s) }"

definition bind_call :: "'k machine \<Rightarrow> u32 \<Rightarrow> u32 \<Rightarrow> u32 \<Rightarrow> 'k sys \<Rightarrow> (u32 \<times> 'k sys) option" where
  "bind_call m sockfd addr addrlen s =
     do { (params, s) \<leftarrow> SYSCALL m 29 ((array m 4)[0 := sockfd, 1 := 0, 2 := port_of (sin_port addr) s]) s;
          r \<leftarrow> slot params 3;
          Some (r, s) }"

definition listen :: "'k machine \<Rightarrow> u32 \<Rightarrow> u32 \<Rightarrow> 'k sys \<Rightarrow> (u32 \<times> 'k sys) option" where
  "listen m sockfd backlog s =
     do { (params, s) \<leftarrow> SYSCALL m 33 ((array m 2)[0 := sockfd]) s;
          r \<leftarrow> slot params 1;
          Some (r, s) }"

definition accept :: "'k machine \<Rightarrow> u32 \<Rightarrow> u32 \<Rightarrow> u32 \<Rightarrow> 'k sys \<Rightarrow> (u32 \<times> 'k sys) option" where
  "accept m sockfd address address_len s =
     do { (params, s) \<leftarrow> SYSCALL m 34 ((array m 4)[0 := sockfd, 1 := address, 2 := address_len]) s;
          r \<leftarrow> slot params 3;
          Some (r, s) }"

definition recvfrom :: "'k machine \<Rightarrow> u32 \<Rightarrow> u32 \<Rightarrow> u32 \<Rightarrow> u32 \<Rightarrow> u32 \<Rightarrow> u32 \<Rightarrow> 'k sys \<Rightarrow> (u32 \<times> 'k sys) option" where
  "recvfrom m sockfd data data_len flags addr addrlen s =
     do { (params, s) \<leftarrow> SYSCALL m 30 ((array m 6)[0 := sockfd, 1 := sin_addr addr, 2 := sin_port addr, 3 := data, 4 := data_len]) s;
          r \<leftarrow> slot params 5;
          Some (r, s) }"

definition sendto :: "'k machine \<Rightarrow> u32 \<Rightarrow> u32 \<Rightarrow> u32 \<Rightarrow> u32 \<Rightarrow> u32 \<Rightarrow> u32 \<Rightarrow> 'k sys \<Rightarrow> (u32 \<times> 'k sys) option" where
  "sendto m sockfd data data_len flags addr addrlen s =
     do { (params, s) \<leftarrow> SYSCALL m 31 ((array m 6)[0 := sockfd, 1 := ip_of (sin_addr addr) s, 2 := port_of (sin_port addr) s, 3 := data, 4 := data_len]) s;
          r \<leftarrow> slot params 5;
          Some (r, s) }"

definition connect :: "'k machine \<Rightarrow> u32 \<Rightarrow> u32 \<Rightarrow> u32 \<Rightarrow> 'k sys \<Rightarrow> (u32 \<times> 'k sys) option" where
  "connect m sockfd address len s =
     do { (params, s) \<leftarrow> SYSCALL m 35 ((array m 5)[0 := sockfd, 1 := ip_of (sin_addr address) s, 2 := port_of (sin_port address) s]) s;
          r \<leftarrow> slot params 4;
          Some (r, s) }"

definition write_socket :: "'k machine \<Rightarrow> u32 \<Rightarrow> u32 \<Rightarrow> u32 \<Rightarrow> 'k sys \<Rightarrow> (u32 \<times> 'k sys) option" where
  "write_socket m sockfd buf count s =
     do { (params, s) \<leftarrow> SYSCALL m 31 ((array m 6)[0 := sockfd, 1 := 0, 2 := 0, 3 := buf, 4 := count]) s;
          r \<leftarrow> slot params 5;
          Some (r, s) }"

definition read_socket :: "'k machine \<Rightarrow> u32 \<Rightarrow> u32 \<Rightarrow> u32 \<Rightarrow> 'k sys \<Rightarrow> (u32 \<times> 'k sys) option" where
  "read_socket m sockfd buf count s =
     do { (params, s) \<leftarrow> SYSCALL m 30 ((array m 6)[0 := sockfd, 1 := 0, 2 := 0, 3 := buf, 4 := count]) s;
          r \<leftarrow> slot params 5;
          Some (r, s) }"

definition close_socket_call :: "'k machine \<Rightarrow> u32 \<Rightarrow> 'k sys \<Rightarrow> (u32 \<times> 'k sys) option" where
  "close_socket_call m sockfd s =
     do { (params, s) \<leftarrow> SYSCALL m 32 ((array m 1)[0 := sockfd]) s;
          r \<leftarrow> slot params 0;
          Some (r, s) }"

definition ping :: "'k machine \<Rightarrow> u32 \<Rightarrow> u16 \<Rightarrow> u16 \<Rightarrow> 'k sys \<Rightarrow> (u32 \<times> 'k sys) option" where
  "ping m dst_ip icmp_msg_id icmp_msg_seq s =
     do { (params, s) \<leftarrow> SYSCALL m 37 ((array m 4)[0 := dst_ip, 1 := ucast icmp_msg_id, 2 := ucast icmp_msg_seq]) s;
          r \<leftarrow> slot params 3;
          Some (r, s) }"

section \<open>The two sides together\<close>

text \<open>
  A request of a user program, the function of the library that serves it, and the function of the kernel that is
  meant to carry it out.
\<close>

datatype request =
    R_exec u32 u32 | R_fork | R_close u32 | R_read u32 u32 u32 | R_write u32 u32 u32 | R_chdir u32 | R_lseek u32 u32 u32
  | R_getpid | R_getpgid u32 | R_setpgid u32 u32 | R_tcgetpgrp | R_tcsetpgrp u32 | R_open u32 u32 | R_mkdir u32
  | R_stat u32 u32 | R_remove u32 | R_socket u32 u32 u32 | R_bind u32 u32 u32 | R_listen u32 u32 | R_accept u32 u32 u32
  | R_recvfrom u32 u32 u32 u32 u32 u32 | R_sendto u32 u32 u32 u32 u32 u32 | R_connect u32 u32 u32
  | R_write_socket u32 u32 u32 | R_read_socket u32 u32 u32 | R_close_socket u32 | R_ping u32 u16 u16

fun library :: "'k machine \<Rightarrow> request \<Rightarrow> 'k sys \<Rightarrow> (u32 \<times> 'k sys) option" where
  "library m (R_exec a b) = exec m a b"
| "library m R_fork = fork m"
| "library m (R_close a) = close m a"
| "library m (R_read a b c) = read m a b c"
| "library m (R_write a b c) = write_call m a b c"
| "library m (R_chdir a) = chdir_call m a"
| "library m (R_lseek a b c) = lseek m a b c"
| "library m R_getpid = getpid_call m"
| "library m (R_getpgid a) = getpgid_call m a"
| "library m (R_setpgid a b) = setpgid_call m a b"
| "library m R_tcgetpgrp = tcgetpgrp_call m"
| "library m (R_tcsetpgrp a) = tcsetpgrp_call m a"
| "library m (R_open a b) = open_call m a b"
| "library m (R_mkdir a) = mkdir_call m a"
| "library m (R_stat a b) = stat_call m a b"
| "library m (R_remove a) = remove m a"
| "library m (R_socket a b c) = socket_call m a b c"
| "library m (R_bind a b c) = bind_call m a b c"
| "library m (R_listen a b) = listen m a b"
| "library m (R_accept a b c) = accept m a b c"
| "library m (R_recvfrom a b c d e f) = recvfrom m a b c d e f"
| "library m (R_sendto a b c d e f) = sendto m a b c d e f"
| "library m (R_connect a b c) = connect m a b c"
| "library m (R_write_socket a b c) = write_socket m a b c"
| "library m (R_read_socket a b c) = read_socket m a b c"
| "library m (R_close_socket a) = close_socket_call m a"
| "library m (R_ping a b c) = ping m a b c"

fun meaning :: "request \<Rightarrow> 'k sys \<Rightarrow> kcall" where
  "meaning (R_exec a b) s = Exec a b"
| "meaning R_fork s = Fork"
| "meaning (R_close a) s = Close (SELECT_FS s) a"
| "meaning (R_read a b c) s = Read_write (SELECT_FS s) a b c 0 1"
| "meaning (R_write a b c) s = Read_write (SELECT_FS s) a b c 1 1"
| "meaning (R_chdir a) s = Chdir Root_fs a"
| "meaning (R_lseek a b c) s = Seek (SELECT_FS s) a b c"
| "meaning R_getpid s = Getpid"
| "meaning (R_getpgid a) s = Getpgid a"
| "meaning (R_setpgid a b) s = Setpgid a b"
| "meaning R_tcgetpgrp s = Tcgetpgrp"
| "meaning (R_tcsetpgrp a) s = Tcsetpgrp a"
| "meaning (R_open a b) s = Open (SELECT_FS s) a b"
| "meaning (R_mkdir a) s = Mkdir (SELECT_FS s) a"
| "meaning (R_stat a b) s = Stat Root_fs a b"
| "meaning (R_remove a) s = Rm (SELECT_FS s) a"
| "meaning (R_socket a b c) s = Open_socket b"
| "meaning (R_bind a b c) s = Bind a 0 (port_of (b + 2) s) 0 0"
| "meaning (R_listen a b) s = Listen a"
| "meaning (R_accept a b c) s = Accept a"
| "meaning (R_recvfrom a b c d e f) s = Recvfrom a (e + 4) (e + 2) b c"
| "meaning (R_sendto a b c d e f) s = Sendto a (ip_of (e + 4) s) (port_of (e + 2) s) b c"
| "meaning (R_connect a b c) s = Connect a (ip_of (b + 4) s) (port_of (b + 2) s)"
| "meaning (R_write_socket a b c) s = Sendto a 0 0 b c"
| "meaning (R_read_socket a b c) s = Recvfrom a 0 0 b c"
| "meaning (R_close_socket a) s = Close_socket a"
| "meaning (R_ping a b c) s = Icmp_echo_request a (ucast b) (ucast c)"

text \<open>The calls after which the network queues are to be served, those that change the process, and the result.\<close>

fun uses_network :: "kcall \<Rightarrow> bool" where
  "uses_network (Recvfrom a b c d e) = True"
| "uses_network (Sendto a b c d e) = True"
| "uses_network (Close_socket a) = True"
| "uses_network (Connect a b c) = True"
| "uses_network _ = False"

fun reschedules :: "kcall \<Rightarrow> bool" where
  "reschedules (Open f a b) = True"
| "reschedules (Close f a) = True"
| "reschedules (Read_write f a b c d e) = True"
| "reschedules (Seek f a b c) = True"
| "reschedules (Rm f a) = True"
| "reschedules (Mkdir f a) = True"
| "reschedules (Chdir f a) = True"
| "reschedules _ = False"

fun result :: "request \<Rightarrow> u32 \<Rightarrow> u32" where
  "result R_getpid r = ucast (ucast r :: u16)"
| "result _ r = r"

definition direct :: "'k machine \<Rightarrow> request \<Rightarrow> 'k sys \<Rightarrow> (u32 \<times> 'k sys) option" where
  "direct m r s =
     (let c = meaning r s in
      do { (v, s) \<leftarrow> kernel_call m c s;
           let s = (if uses_network c then s\<lparr>net_flush := True\<rparr> else s);
           s \<leftarrow> leave m (if reschedules c then 1 else 0) s;
           Some (result r v, s) })"

text \<open>
  The requests whose arguments and result pass through. \<^verbatim>\<open>connect\<close> returns an element that the kernel does not set and
  \<^verbatim>\<open>getpgid\<close> does not pass its argument.
\<close>

fun overruns :: "request \<Rightarrow> bool" where
  "overruns (R_bind a b c) = True"
| "overruns (R_chdir a) = True"
| "overruns (R_mkdir a) = True"
| "overruns _ = False"

fun passes :: "request \<Rightarrow> bool" where
  "passes (R_connect a b c) = False"
| "passes (R_getpgid a) = False"
| "passes r = (\<not> overruns r)"

lemmas syscall_defs =
  SYSCALL_def syscall_handler_def syscall_switch_def process_calls_def file_calls_def socket_calls_def other_calls_def on_exit_action_def
  answer_def perform_def slot_def set_slot_def array_def sin_port_def sin_addr_def Let_def

lemmas wrapper_defs =
  exec_def fork_def close_def read_def write_call_def chdir_call_def lseek_def getpid_call_def getpgid_call_def setpgid_call_def tcgetpgrp_call_def tcsetpgrp_call_def
  open_call_def mkdir_call_def stat_call_def remove_def socket_call_def bind_call_def listen_def accept_def recvfrom_def sendto_def connect_def
  write_socket_def read_socket_def close_socket_call_def ping_def


text \<open>A machine whose kernel counts the calls and answers each with twice its number.\<close>

definition counting_machine :: "nat machine" where
  "counting_machine = \<lparr>calls = \<lambda>c k. Some (of_nat (2 * Suc k), Suc k), leave = \<lambda>a s. Some s, stack = \<lambda>i. 0xDEAD\<rparr>"

definition counting_start :: "nat sys" where
  "counting_start = \<lparr>kernel_state = 0, user_mem = \<lambda>a. 0, device_num = 0, net_flush = False\<rparr>"


text \<open>\<^verbatim>\<open>bind\<close>, \<^verbatim>\<open>chdir\<close> and \<^verbatim>\<open>mkdir\<close> declare an array of arguments that is shorter than what the kernel uses, so the
  call always leaves the array: the kernel reads or writes the stack of the program behind it.\<close>

lemma syscall_array_overruns:
  assumes "overruns r"
  shows "library m r s = None"
proof -
  have "Option.bind x (\<lambda>p. None) = None" for x :: "(u32 \<times> 'a sys) option" by (cases x) simp_all
  then show ?thesis using assms by (cases r) (simp_all add: wrapper_defs syscall_defs case_prod_unfold)
qed

lemma syscall_array_overruns_witness: "library counting_machine (R_bind 3 0x2000 8) counting_start = None"
  by (rule syscall_array_overruns) simp

text \<open>The result of \<^verbatim>\<open>connect\<close> is what was on the stack, and \<^verbatim>\<open>getpgid\<close> answers the same for all processes.\<close>

lemma connect_result: "connect m fd addr len s = Some (v, t) \<Longrightarrow> v = stack m 4"
  by (auto simp: connect_def syscall_defs case_prod_unfold split: bind_splits)

lemma getpgid_ignores_pid: "getpgid_call m pid s = getpgid_call m pid' s"
  by (simp add: getpgid_call_def)

text \<open>A number that no case of the switch names ends in \<^verbatim>\<open>panic\<close> and leaves the arguments as they are.\<close>

lemma unknown_syscall:
  assumes "num \<notin> {1..15} \<union> {18, 19, 20, 22, 23, 26, 27} \<union> {28..42} \<union> {101, 103, 105, 106, 107, 108, 109, 150, 151, 200}"
  shows "syscall_switch m num p s = perform m p Panic s"
  using assms by (auto simp: syscall_switch_def other_calls_def)

end
