(* ===== verification/I8254x.thy ===== *)
theory I8254x
  imports Net_State Vm Loops
begin

text \<open>
  The driver of the network adapter (\<^verbatim>\<open>src/drivers/i8254x/i8254x.c\<close>): rings of receive and transmit descriptors that
  driver and adapter share. The driver moves received frames from the receive ring to the receive queue of the
  stack and gives the adapter a fresh buffer for each; frames to be sent are entered in the transmit ring. The
  registers are a store that the adapter may change; what \<^verbatim>\<open>kmalloc\<close> returns is a sequence of addresses, and
  \<open>ad_bufs\<close> is what the buffers hold. The interrupt that ends with the way out of \<open>Process_Life\<close> is one step here;
  what the adapter does meanwhile is the argument \<open>hw\<close>.
\<close>

unbundle bit_operations_syntax

section \<open>Registers and descriptors\<close>

definition CTRL_REG :: u32 where "CTRL_REG = 0x0000"
definition CTRL_SLU :: u32 where "CTRL_SLU = 0x40"
definition MLTC_TBL_ARRY_REG :: u32 where "MLTC_TBL_ARRY_REG = 0x5200"
definition TDBAL_REG :: u32 where "TDBAL_REG = 0x3800"
definition TDBAH_REG :: u32 where "TDBAH_REG = 0x3804"
definition TDLEN_REG :: u32 where "TDLEN_REG = 0x3808"
definition THD_REG :: u32 where "THD_REG = 0x3810"
definition TDT_REG :: u32 where "TDT_REG = 0x3818"
definition TCTRL_REG :: u32 where "TCTRL_REG = 0x400"
definition RDBAL_REG :: u32 where "RDBAL_REG = 0x2800"
definition RDBAH_REG :: u32 where "RDBAH_REG = 0x2804"
definition RDLEN_REG :: u32 where "RDLEN_REG = 0x2808"
definition RHD_REG :: u32 where "RHD_REG = 0x2810"
definition RDT_REG :: u32 where "RDT_REG = 0x2818"
definition RCTRL_REG :: u32 where "RCTRL_REG = 0x100"
definition REG_IMS :: u32 where "REG_IMS = 0xD0"
definition ICR_LSC :: u32 where "ICR_LSC = 0x4"
definition ICR_RXO :: u32 where "ICR_RXO = 0x40"
definition ICR_RXT0 :: u32 where "ICR_RXT0 = 0x80"
definition NUM_RX_DESC :: nat where "NUM_RX_DESC = 0x10"
definition NUM_TX_DESC :: nat where "NUM_TX_DESC = 0x10"

lemmas nic_consts [simp] = NUM_RX_DESC_def NUM_TX_DESC_def

record rx_desc =
  rx_low_addr :: u32
  rx_hi_addr :: u32
  rx_length :: u16
  rx_checksum :: u16
  rx_status :: u8
  rx_errors :: u8
  rx_special :: u16

record tx_desc =
  tx_low_addr :: u32
  tx_hi_addr :: u32
  tx_length :: u16
  tx_cso :: u8
  tx_cmd :: u8
  tx_status :: u8
  tx_css :: u8
  tx_special :: u16

record adapter =
  bar_type :: u8
  io_window :: u32
  nic_regs :: "u32 \<Rightarrow> u32"
  nic_mac :: mac_addr
  rx_ring :: "rx_desc list"
  tx_ring :: "tx_desc list"
  rx_cur :: u16
  tx_cur :: u16
  kmallocs :: nat
  kmalloc_at :: "nat \<Rightarrow> u32"
  ad_bufs :: "u32 \<Rightarrow> u8 list"
  ad_net :: net

text \<open>Registers lie in memory or behind a window of two ports, the first of which selects the register.\<close>

definition write_i8254x :: "u32 \<Rightarrow> u32 \<Rightarrow> adapter \<Rightarrow> adapter" where
  "write_i8254x address v a =
     (if bar_type a = 0 then a\<lparr>nic_regs := (nic_regs a)(address := v)\<rparr>
      else a\<lparr>io_window := address, nic_regs := (nic_regs a)(address := v)\<rparr>)"

definition read_i8254x :: "u32 \<Rightarrow> adapter \<Rightarrow> u32 \<times> adapter" where
  "read_i8254x address a =
     (if bar_type a = 0 then (nic_regs a address, a) else (nic_regs a address, a\<lparr>io_window := address\<rparr>))"

definition nic_kmalloc :: "adapter \<Rightarrow> u32 \<times> adapter" where
  "nic_kmalloc a = (kmalloc_at a (kmallocs a), a\<lparr>kmallocs := kmallocs a + 1\<rparr>)"

section \<open>Initialisation\<close>

definition read_mac_i8254x :: "adapter \<Rightarrow> adapter" where
  "read_mac_i8254x a = a\<lparr>nic_mac := \<lparr>mac_lo = 0x0000, mac_mi = 0xa000, mac_hi = 0x0017\<rparr>\<rparr>"

definition align_ring :: "u32 \<Rightarrow> u32" where
  "align_ring p = (p + 16) - p mod 16"

definition free_rx_desc :: "u32 \<Rightarrow> rx_desc" where
  "free_rx_desc data_buffer =
     \<lparr>rx_low_addr = FROM_VIRT_TO_PHY data_buffer, rx_hi_addr = 0, rx_length = 0, rx_checksum = 0, rx_status = 0,
      rx_errors = 0, rx_special = 0\<rparr>"

definition rx_init_desc :: "nat \<Rightarrow> adapter \<Rightarrow> adapter" where
  "rx_init_desc i a = (let (data_buffer, a) = nic_kmalloc a in a\<lparr>rx_ring := (rx_ring a)[i := free_rx_desc data_buffer]\<rparr>)"

text \<open>\<open>junk\<close> is the contents of the block for the ring before it is filled.\<close>

definition rx_init_i8254x :: "rx_desc list \<Rightarrow> adapter \<Rightarrow> adapter" where
  "rx_init_i8254x junk a =
     (let (p, a) = nic_kmalloc a;
          ring = align_ring p;
          a = fold rx_init_desc [0..<NUM_RX_DESC] (a\<lparr>rx_ring := junk\<rparr>);
          a = write_i8254x RDBAL_REG (FROM_VIRT_TO_PHY ring) a;
          a = write_i8254x RDBAH_REG 0 a;
          a = write_i8254x RDLEN_REG (of_nat NUM_RX_DESC * 16) a;
          a = a\<lparr>rx_cur := 0\<rparr>;
          a = write_i8254x RHD_REG 0 a;
          a = write_i8254x RDT_REG (of_nat NUM_RX_DESC - 1) a
      in write_i8254x RCTRL_REG (2 + 4 + 8 + 16 + 0x8000 + 0x4000000 + 0x20000 + 0x2000000) a)"

definition free_tx_desc :: tx_desc where
  "free_tx_desc =
     \<lparr>tx_low_addr = 0, tx_hi_addr = 0, tx_length = 0, tx_cso = 0, tx_cmd = 0, tx_status = 1, tx_css = 0, tx_special = 0\<rparr>"

definition tx_init_i8254x :: "adapter \<Rightarrow> adapter" where
  "tx_init_i8254x a =
     (let (p, a) = nic_kmalloc a;
          ring = align_ring p;
          a = a\<lparr>tx_ring := replicate NUM_TX_DESC free_tx_desc\<rparr>;
          a = write_i8254x TDBAL_REG (FROM_VIRT_TO_PHY ring) a;
          a = write_i8254x TDBAH_REG 0 a;
          a = write_i8254x TDLEN_REG (of_nat NUM_TX_DESC * 16) a;
          a = a\<lparr>tx_cur := 0\<rparr>;
          a = write_i8254x THD_REG 0 a;
          a = write_i8254x TDT_REG 0 a;
          a = write_i8254x TCTRL_REG (2 + 8 + 0xF0 + 0x40000 + 0x1000000) a
      in write_i8254x 0x410 0x00702008 a)"

definition start_link_i8254x :: "adapter \<Rightarrow> adapter" where
  "start_link_i8254x a = (let (c, a) = read_i8254x CTRL_REG a in write_i8254x CTRL_REG (c OR CTRL_SLU) a)"

definition reset_multicast_array :: "adapter \<Rightarrow> adapter" where
  "reset_multicast_array a = fold (\<lambda>i. write_i8254x (MLTC_TBL_ARRY_REG + of_nat i * 4) 0) [0..<0x80] a"

text \<open>The set-up without the configuration space of the bus and the descriptor of the interrupt: \<open>bar0\<close> is what was read.\<close>

definition init_8254x :: "u32 \<Rightarrow> rx_desc list \<Rightarrow> adapter \<Rightarrow> adapter" where
  "init_8254x bar0 junk a =
     (let (_, a) = nic_kmalloc a;
          a = a\<lparr>bar_type := (if bar0 AND 1 \<noteq> 0 then 1 else 0)\<rparr>;
          a = start_link_i8254x (read_mac_i8254x a);
          a = tx_init_i8254x (rx_init_i8254x junk (reset_multicast_array a))
      in write_i8254x REG_IMS (0x80 + 0x40) a)"

section \<open>Receiving and sending\<close>

text \<open>One turn of the loop of the interrupt handler on a descriptor that the adapter has completed.\<close>

definition rx_step :: "adapter \<Rightarrow> adapter option" where
  "rx_step a =
     (let cur = unat (rx_cur a) in
      if cur < length (rx_ring a)
      then let d = rx_ring a ! cur;
               frame_addr = FROM_PHY_TO_VIRT (rx_low_addr d);
               frame_len = rx_length d;
               (data_buffer, a) = nic_kmalloc a;
               a = a\<lparr>rx_ring := (rx_ring a)[cur := free_rx_desc data_buffer]\<rparr>;
               a = a\<lparr>ad_net := rcv_frame_i8254x (ad_bufs a frame_addr) frame_len (ad_net a)\<rparr>;
               old_cur = rx_cur a;
               a = a\<lparr>rx_cur := (rx_cur a + 1) mod of_nat NUM_RX_DESC\<rparr>
           in Some (write_i8254x RDT_REG (ucast old_cur) a)
      else None)"

definition rx_done :: "adapter \<Rightarrow> bool option" where
  "rx_done a =
     (if unat (rx_cur a) < length (rx_ring a) then Some (rx_status (rx_ring a ! unat (rx_cur a)) AND 1 \<noteq> 0) else None)"

partial_function (option) rx_loop :: "(adapter \<Rightarrow> adapter) \<Rightarrow> adapter \<Rightarrow> adapter option" where
  "rx_loop hw a =
     do { more \<leftarrow> rx_done a;
          if more then do { a \<leftarrow> rx_step a; rx_loop hw (hw a) } else Some a }"

text \<open>\<open>cause\<close> is the reason of the interrupt, which is cleared by reading it.\<close>

definition int_handler_i8254x :: "(adapter \<Rightarrow> adapter) \<Rightarrow> u32 \<Rightarrow> adapter \<Rightarrow> adapter option" where
  "int_handler_i8254x hw cause a =
     do { a \<leftarrow> (if cause AND ICR_LSC \<noteq> 0 then Some (start_link_i8254x a)
                 else if cause AND ICR_RXO \<noteq> 0 then Some a
                 else if cause AND ICR_RXT0 \<noteq> 0 then rx_loop hw a else Some a);
          Some (a\<lparr>ad_net := (ad_net a)\<lparr>flush_network := True\<rparr>\<rparr>) }"

definition pooling :: "(adapter \<Rightarrow> adapter) \<Rightarrow> adapter \<Rightarrow> adapter option" where
  "pooling hw a = rx_loop hw a"

text \<open>The frame lies at the kernel address \<open>frame_addr\<close>; its descriptor is entered without looking at the head.\<close>

definition tx_enter :: "u32 \<Rightarrow> u16 \<Rightarrow> adapter \<Rightarrow> adapter option" where
  "tx_enter frame_addr frame_len a =
     (let cur = unat (tx_cur a) in
      if cur < length (tx_ring a)
      then let a = a\<lparr>tx_ring := (tx_ring a)[cur :=
                     \<lparr>tx_low_addr = FROM_VIRT_TO_PHY frame_addr, tx_hi_addr = 0, tx_length = frame_len, tx_cso = 0,
                      tx_cmd = 1 + 8 + 2, tx_status = 0, tx_css = 0, tx_special = 0\<rparr>]\<rparr>;
               a = a\<lparr>tx_cur := (tx_cur a + 1) mod of_nat NUM_TX_DESC\<rparr>
           in Some (write_i8254x TDT_REG (ucast (tx_cur a)) a)
      else None)"


section \<open>What the rings hold\<close>

text \<open>The frames that the adapter has completed and the driver has not taken, from the current descriptor on. A quiet
  adapter completes no more.\<close>

definition quiet :: "adapter \<Rightarrow> adapter" where
  "quiet a = a"

definition rx_at :: "adapter \<Rightarrow> nat \<Rightarrow> rx_desc" where
  "rx_at a j = rx_ring a ! ((unat (rx_cur a) + j) mod 16)"

definition completed :: "rx_desc \<Rightarrow> bool" where
  "completed d \<longleftrightarrow> rx_status d AND 1 \<noteq> 0"

definition rx_frame :: "(u32 \<Rightarrow> u8 list) \<Rightarrow> rx_desc \<Rightarrow> u8 list \<times> u16" where
  "rx_frame bufs d = (bufs (FROM_PHY_TO_VIRT (rx_low_addr d)), rx_length d)"

definition rx_pending :: "adapter \<Rightarrow> (u8 list \<times> u16) list" where
  "rx_pending a = map (rx_frame (ad_bufs a)) (takeWhile completed (map (rx_at a) [0..<16]))"

definition rx_ok :: "adapter \<Rightarrow> bool" where
  "rx_ok a \<longleftrightarrow> length (rx_ring a) = 16 \<and> rx_cur a < 16"

definition deliver :: "(u8 list \<times> u16) list \<Rightarrow> net \<Rightarrow> net" where
  "deliver fs s = fold (\<lambda>(contents, len). rcv_frame_i8254x contents len) fs s"

lemma takeWhile_snoc: "\<not> P x \<Longrightarrow> takeWhile P (xs @ [x]) = takeWhile P xs"
  by (induction xs) auto

lemma free_not_completed [simp]: "\<not> completed (free_rx_desc p)"
  by (simp add: completed_def free_rx_desc_def)

lemma next_cur:
  assumes "(c :: u16) < 16"
  shows "unat ((c + 1) mod 16) = (unat c + 1) mod 16"
proof -
  have "unat c < 16" using assms by (simp add: word_less_nat_alt)
  then have "unat (c + 1) = unat c + 1" by (simp add: unat_word_ariths)
  then show ?thesis by (simp add: unat_mod)
qed

lemma write_i8254x_simps [simp]:
  "rx_ring (write_i8254x r v a) = rx_ring a" "tx_ring (write_i8254x r v a) = tx_ring a" "rx_cur (write_i8254x r v a) = rx_cur a"
  "tx_cur (write_i8254x r v a) = tx_cur a" "kmallocs (write_i8254x r v a) = kmallocs a" "kmalloc_at (write_i8254x r v a) = kmalloc_at a"
  "ad_bufs (write_i8254x r v a) = ad_bufs a" "ad_net (write_i8254x r v a) = ad_net a" "nic_regs (write_i8254x r v a) = (nic_regs a)(r := v)"
  by (simp_all add: write_i8254x_def)

text \<open>One turn takes the first pending frame, gives the descriptor back with a fresh buffer and tells the adapter.\<close>

lemma rx_step_takes:
  assumes "rx_ok a"
  obtains b where "rx_step a = Some b" "rx_ok b" "ad_net b = rcv_frame_i8254x (fst (rx_frame (ad_bufs a) (rx_at a 0))) (rx_length (rx_at a 0)) (ad_net a)"
    "ad_bufs b = ad_bufs a" "kmallocs b = kmallocs a + 1" "kmalloc_at b = kmalloc_at a" "nic_regs b = (nic_regs a)(RDT_REG := ucast (rx_cur a))"
    "unat (rx_cur b) = (unat (rx_cur a) + 1) mod 16" "rx_ring b = (rx_ring a)[unat (rx_cur a) := free_rx_desc (kmalloc_at a (kmallocs a))]"
proof -
  have c: "unat (rx_cur a) < 16" "length (rx_ring a) = 16" using assms by (simp_all add: rx_ok_def word_less_nat_alt)
  have n: "unat ((rx_cur a + 1) mod 16) = (unat (rx_cur a) + 1) mod 16" using assms by (intro next_cur) (simp add: rx_ok_def)
  define b where "b = write_i8254x RDT_REG (ucast (rx_cur a))
    (a\<lparr>kmallocs := kmallocs a + 1, rx_ring := (rx_ring a)[unat (rx_cur a) := free_rx_desc (kmalloc_at a (kmallocs a))],
       ad_net := rcv_frame_i8254x (fst (rx_frame (ad_bufs a) (rx_at a 0))) (rx_length (rx_at a 0)) (ad_net a), rx_cur := (rx_cur a + 1) mod 16\<rparr>)"
  have "rx_step a = Some b"
    using c by (simp add: rx_step_def b_def Let_def nic_kmalloc_def rx_at_def rx_frame_def)
  moreover have "rx_ok b" using c n by (simp add: b_def rx_ok_def word_less_nat_alt)
  ultimately show thesis using n by (intro that [of b]) (simp_all add: b_def)
qed

lemma rx_at_next:
  assumes "rx_ok a" and "rx_ring b = (rx_ring a)[unat (rx_cur a) := d]" and "unat (rx_cur b) = (unat (rx_cur a) + 1) mod 16" and "j < 16"
  shows "rx_at b j = (if j = 15 then d else rx_at a (Suc j))"
proof -
  have c: "unat (rx_cur a) < 16" "length (rx_ring a) = 16" using assms(1) by (simp_all add: rx_ok_def word_less_nat_alt)
  have e: "((unat (rx_cur a) + 1) mod 16 + j) mod 16 = (unat (rx_cur a) + Suc j) mod 16" by (simp add: mod_add_left_eq)
  have "(unat (rx_cur a) + Suc j) mod 16 = unat (rx_cur a) \<longleftrightarrow> j = 15"
    using c(1) assms(4) by (cases "unat (rx_cur a) + Suc j < 16") (auto simp: mod_if)
  then show ?thesis using c by (auto simp: rx_at_def assms(2,3) e [simplified])
qed

lemma rx_pending_next:
  assumes "rx_ok a" and "completed (rx_at a 0)" and "rx_ring b = (rx_ring a)[unat (rx_cur a) := free_rx_desc p]"
    and "unat (rx_cur b) = (unat (rx_cur a) + 1) mod 16" and "ad_bufs b = ad_bufs a"
  shows "rx_pending a = rx_frame (ad_bufs a) (rx_at a 0) # rx_pending b"
proof -
  note n = rx_at_next [OF assms(1,3,4)]
  have u: "[0..<16] = [0..<15] @ [15 :: nat]" by (simp add: upt_rec)
  have "map (rx_at b) [0..<16] = map (\<lambda>j. rx_at a (Suc j)) [0..<15] @ [free_rx_desc p]"
    unfolding u map_append by (auto simp: n)
  also have "map (\<lambda>j. rx_at a (Suc j)) [0..<15] = map (rx_at a) [1..<16]"
  proof -
    have "[1..<16] = map Suc [0..<15]" by (subst map_Suc_upt) simp
    then show ?thesis by (simp only: map_map comp_def)
  qed
  finally have b: "takeWhile completed (map (rx_at b) [0..<16]) = takeWhile completed (map (rx_at a) [1..<16])"
    by (simp add: takeWhile_snoc del: upt_Suc)
  have "[0..<16] = 0 # [1..<16 :: nat]" by (simp add: upt_rec)
  then show ?thesis using assms(2,5) b by (simp only: rx_pending_def) simp
qed

lemma rx_pending_le: "length (rx_pending a) \<le> 16" "\<not> completed (rx_at a 15) \<Longrightarrow> length (rx_pending a) \<le> 15"
proof -
  let ?xs = "map (rx_at a) [0..<16]"
  show "length (rx_pending a) \<le> 16" using length_takeWhile_le [of completed ?xs] by (simp add: rx_pending_def del: upt_Suc)
  assume n: "\<not> completed (rx_at a 15)"
  have "\<not> 15 < length (takeWhile completed ?xs)"
  proof
    assume l: "15 < length (takeWhile completed ?xs)"
    then have "takeWhile completed ?xs ! 15 = rx_at a 15" by (subst takeWhile_nth) simp_all
    then show False using l n set_takeWhileD [of "rx_at a 15" completed ?xs] nth_mem by metis
  qed
  then show "length (rx_pending a) \<le> 15" by (simp add: rx_pending_def)
qed

text \<open>The loop takes all pending frames in their order.\<close>

lemma rx_loop_takes_all:
  assumes "rx_ok a"
  shows "\<exists>b. rx_loop quiet a = Some b \<and> rx_ok b \<and> rx_pending b = [] \<and> ad_net b = deliver (rx_pending a) (ad_net a) \<and>
    unat (rx_cur b) = (unat (rx_cur a) + length (rx_pending a)) mod 16 \<and>
    (\<forall>k<16. rx_ring b ! ((unat (rx_cur a) + k) mod 16) =
       (if k < length (rx_pending a) then free_rx_desc (kmalloc_at a (kmallocs a + k)) else rx_at a k)) \<and>
    nic_regs b RDT_REG = (if rx_pending a = [] then nic_regs a RDT_REG else of_nat ((unat (rx_cur a) + length (rx_pending a) - 1) mod 16))"
  using assms
proof (induction "length (rx_pending a)" arbitrary: a)
  case (0 a)
  have c: "unat (rx_cur a) < 16" "length (rx_ring a) = 16" using 0(2) by (simp_all add: rx_ok_def word_less_nat_alt)
  have "\<not> completed (rx_at a 0)"
    using 0(1) by (simp add: rx_pending_def upt_rec [of 0] split: if_splits)
  then have "rx_loop quiet a = Some a"
    using c by (subst rx_loop.simps) (simp add: rx_done_def completed_def rx_at_def)
  then show ?case using 0 c by (intro exI [of _ a]) (simp add: deliver_def rx_at_def)
next
  case (Suc n a)
  have c: "unat (rx_cur a) < 16" "length (rx_ring a) = 16" using Suc(3) by (simp_all add: rx_ok_def word_less_nat_alt)
  have d: "completed (rx_at a 0)"
    using Suc(2) by (simp add: rx_pending_def upt_rec [of 0] split: if_splits)
  obtain b where b: "rx_step a = Some b" "rx_ok b" "ad_net b = rcv_frame_i8254x (fst (rx_frame (ad_bufs a) (rx_at a 0))) (rx_length (rx_at a 0)) (ad_net a)"
    "ad_bufs b = ad_bufs a" "kmallocs b = kmallocs a + 1" "kmalloc_at b = kmalloc_at a" "nic_regs b = (nic_regs a)(RDT_REG := ucast (rx_cur a))"
    "unat (rx_cur b) = (unat (rx_cur a) + 1) mod 16" "rx_ring b = (rx_ring a)[unat (rx_cur a) := free_rx_desc (kmalloc_at a (kmallocs a))]"
    using rx_step_takes [OF Suc(3)] .
  have p: "rx_pending a = rx_frame (ad_bufs a) (rx_at a 0) # rx_pending b" using rx_pending_next [OF Suc(3) d b(9,8,4)] .
  then have "n = length (rx_pending b)" using Suc(2) by simp
  from Suc(1) [OF this b(2)] obtain e where e: "rx_loop quiet b = Some e" "rx_ok e" "rx_pending e = []" "ad_net e = deliver (rx_pending b) (ad_net b)"
    "unat (rx_cur e) = (unat (rx_cur b) + length (rx_pending b)) mod 16"
    "\<forall>k<16. rx_ring e ! ((unat (rx_cur b) + k) mod 16) =
       (if k < length (rx_pending b) then free_rx_desc (kmalloc_at b (kmallocs b + k)) else rx_at b k)"
    "nic_regs e RDT_REG = (if rx_pending b = [] then nic_regs b RDT_REG else of_nat ((unat (rx_cur b) + length (rx_pending b) - 1) mod 16))" by blast
  have ca: "(unat (rx_cur b) + k) mod 16 = (unat (rx_cur a) + Suc k) mod 16" for k by (simp add: b(8) mod_add_left_eq)
  note n = rx_at_next [OF Suc(3) b(9,8)]
  have l: "length (rx_pending b) \<le> 15" by (rule rx_pending_le(2)) (simp add: n)
  have "rx_loop quiet a = Some e"
    using c d b(1) e(1) by (subst rx_loop.simps) (simp add: rx_done_def completed_def rx_at_def quiet_def)
  moreover have "ad_net e = deliver (rx_pending a) (ad_net a)" using e(4) b(3) by (simp add: p deliver_def rx_frame_def)
  moreover have "unat (rx_cur e) = (unat (rx_cur a) + length (rx_pending a)) mod 16" using e(5) ca by (simp add: p)
  moreover have "rx_ring e ! ((unat (rx_cur a) + k) mod 16) =
      (if k < length (rx_pending a) then free_rx_desc (kmalloc_at a (kmallocs a + k)) else rx_at a k)" if "k < 16" for k
  proof (cases k)
    case 0
    have "(unat (rx_cur b) + 15) mod 16 = unat (rx_cur a)" using c(1) ca [of 15] by (simp add: mod_if)
    then have "rx_ring e ! unat (rx_cur a) = rx_at b 15" using e(6) [rule_format, of 15] l by simp
    then show ?thesis using 0 c(1) n [of 15] by (simp add: p)
  next
    case (Suc j)
    then show ?thesis using e(6) [rule_format, of j] that n [of j] by (simp add: ca [of j, simplified] p b(5,6))
  qed
  moreover have "nic_regs e RDT_REG = of_nat ((unat (rx_cur a) + length (rx_pending a) - 1) mod 16)"
  proof (cases "rx_pending b = []")
    case True
    then show ?thesis using e(7) c(1) by (simp add: p b(7))
  next
    case False
    then obtain m where "length (rx_pending b) = Suc m" by (cases "rx_pending b") auto
    then show ?thesis using e(7) False ca [of m] by (simp add: p)
  qed
  ultimately show ?case using e(2,3) by (simp add: p)
qed

lemma rx_at_net [simp]: "rx_at (b\<lparr>ad_net := s\<rparr>) = rx_at b"
  by (simp add: rx_at_def fun_eq_iff)


text \<open>A ring at descriptor 15 with two completed frames, which lie across its end.\<close>

definition wrapped_ring :: "net \<Rightarrow> adapter" where
  "wrapped_ring s =
     \<lparr>bar_type = 0, io_window = 0, nic_regs = \<lambda>_. 0, nic_mac = \<lparr>mac_lo = 0, mac_mi = 0, mac_hi = 0\<rparr>,
      rx_ring = (replicate 16 (free_rx_desc 0xC0100000))
        [15 := (free_rx_desc 0xC0200000)\<lparr>rx_status := 1, rx_length := 60\<rparr>, 0 := (free_rx_desc 0xC0300000)\<lparr>rx_status := 3, rx_length := 64\<rparr>],
      tx_ring = [], rx_cur = 15, tx_cur = 0, kmallocs = 0, kmalloc_at = \<lambda>i. 0xC0400000 + of_nat i * 2048,
      ad_bufs = \<lambda>p. [ucast (drop_bit 20 p)], ad_net = s\<rparr>"

lemma wrapped_ring_pending: "rx_pending (wrapped_ring s) = [([2], 60), ([3], 64)]"
  by (simp add: rx_pending_def wrapped_ring_def rx_at_def completed_def rx_frame_def free_rx_desc_def upt_rec
      FROM_VIRT_TO_PHY_def FROM_PHY_TO_VIRT_def)


text \<open>Initialisation leaves a ring without completed frames, in which every descriptor has its own buffer.\<close>

lemma rx_init_descs:
  assumes "length (rx_ring a) = 16" and "n \<le> 16"
  shows "rx_ring (fold rx_init_desc [0..<n] a) =
      map (\<lambda>i. if i < n then free_rx_desc (kmalloc_at a (kmallocs a + i)) else rx_ring a ! i) [0..<16] \<and>
    kmallocs (fold rx_init_desc [0..<n] a) = kmallocs a + n \<and> kmalloc_at (fold rx_init_desc [0..<n] a) = kmalloc_at a"
  using assms(2)
proof (induction n)
  case 0
  then show ?case using assms(1) by (simp add: list_eq_iff_nth_eq del: upt_Suc)
next
  case (Suc n)
  then show ?case by (simp add: rx_init_desc_def nic_kmalloc_def list_eq_iff_nth_eq nth_list_update less_Suc_eq Let_def)
qed

lemma rx_init_ready:
  assumes "length junk = 16"
  shows "rx_ok (rx_init_i8254x junk a) \<and> rx_pending (rx_init_i8254x junk a) = [] \<and> nic_regs (rx_init_i8254x junk a) RDT_REG = 15"
proof -
  let ?a = "a\<lparr>kmallocs := kmallocs a + 1, rx_ring := junk\<rparr>"
  have r: "rx_ring (rx_init_i8254x junk a) = map (\<lambda>i. free_rx_desc (kmalloc_at a (kmallocs a + 1 + i))) [0..<16]" "rx_cur (rx_init_i8254x junk a) = 0"
    using rx_init_descs [of ?a 16] assms
    by (simp_all add: rx_init_i8254x_def nic_kmalloc_def Let_def case_prod_unfold list_eq_iff_nth_eq del: upt_Suc)
  have "\<not> completed (rx_at (rx_init_i8254x junk a) 0)" by (simp add: rx_at_def r del: upt_Suc)
  then have "rx_pending (rx_init_i8254x junk a) = []" by (simp add: rx_pending_def upt_rec [of 0])
  moreover have "nic_regs (rx_init_i8254x junk a) RDT_REG = 15"
    by (simp add: rx_init_i8254x_def nic_kmalloc_def Let_def RDT_REG_def RCTRL_REG_def)
  ultimately show ?thesis using r by (simp add: rx_ok_def del: upt_Suc)
qed

text \<open>The descriptors the adapter has still to send: from its head register up to the tail the driver writes.\<close>

definition tx_head :: "adapter \<Rightarrow> nat" where
  "tx_head a = unat (nic_regs a THD_REG)"

definition tx_waiting :: "adapter \<Rightarrow> nat" where
  "tx_waiting a = (unat (tx_cur a) + 16 - tx_head a) mod 16"

definition tx_pending :: "adapter \<Rightarrow> tx_desc list" where
  "tx_pending a = map (\<lambda>j. tx_ring a ! ((tx_head a + j) mod 16)) [0..<tx_waiting a]"

definition tx_ok :: "adapter \<Rightarrow> bool" where
  "tx_ok a \<longleftrightarrow> length (tx_ring a) = 16 \<and> tx_cur a < 16 \<and> tx_head a < 16"

definition tx_entry :: "u32 \<Rightarrow> u16 \<Rightarrow> tx_desc" where
  "tx_entry frame_addr len =
     \<lparr>tx_low_addr = FROM_VIRT_TO_PHY frame_addr, tx_hi_addr = 0, tx_length = len, tx_cso = 0, tx_cmd = 11, tx_status = 0,
      tx_css = 0, tx_special = 0\<rparr>"

text \<open>The distance of two places in a ring of sixteen.\<close>

lemma small_mod: "n < 32 \<Longrightarrow> n mod 16 = (if n < 16 then n else n - (16 :: nat))"
  by (simp add: le_mod_geq)

lemma ring_gap: "c < 16 \<Longrightarrow> h < 16 \<Longrightarrow> (c + 16 - h) mod 16 = (if h \<le> c then c - h else c + 16 - (h :: nat))"
  by (subst small_mod) auto

lemma ring_gap_next:
  assumes "c < 16" and "h < (16 :: nat)" and "(c + 16 - h) mod 16 < 15"
  shows "((c + 1) mod 16 + 16 - h) mod 16 = Suc ((c + 16 - h) mod 16)"
proof -
  have n: "(c + 1) mod 16 = (if c = 15 then 0 else c + 1)" using assms(1) by auto
  have e: "((c + 1) mod 16 + 16 - h) mod 16 = (if h \<le> (c + 1) mod 16 then (c + 1) mod 16 - h else (c + 1) mod 16 + 16 - h)"
    by (rule ring_gap) (use assms(2) in simp_all)
  show ?thesis using assms(3) unfolding e ring_gap [OF assms(1,2)] unfolding n using assms(1,2) by (auto split: if_splits)
qed

lemma ring_gap_full:
  assumes "c < 16" and "h < (16 :: nat)" and "(c + 16 - h) mod 16 = 15"
  shows "((c + 1) mod 16 + 16 - h) mod 16 = 0"
proof -
  have n: "(c + 1) mod 16 = (if c = 15 then 0 else c + 1)" using assms(1) by auto
  have e: "((c + 1) mod 16 + 16 - h) mod 16 = (if h \<le> (c + 1) mod 16 then (c + 1) mod 16 - h else (c + 1) mod 16 + 16 - h)"
    by (rule ring_gap) (use assms(2) in simp_all)
  show ?thesis using assms(3) unfolding e ring_gap [OF assms(1,2)] unfolding n using assms(1,2) by (auto split: if_splits)
qed

lemma ring_gap_index:
  assumes "c < 16" and "h < (16 :: nat)" and "j \<le> (c + 16 - h) mod 16"
  shows "(h + j) mod 16 = c \<longleftrightarrow> j = (c + 16 - h) mod 16"
proof -
  have "(c + 16 - h) mod 16 < 16" by simp
  then have "h + j < 32" using assms by linarith
  then show ?thesis using assms unfolding ring_gap [OF assms(1,2)] small_mod [OF \<open>h + j < 32\<close>] by (auto split: if_splits)
qed

lemma tx_enter_result:
  assumes "tx_ok a"
  obtains b where "tx_enter p len a = Some b" "tx_ok b" "tx_head b = tx_head a" "unat (tx_cur b) = (unat (tx_cur a) + 1) mod 16"
    "tx_ring b = (tx_ring a)[unat (tx_cur a) := tx_entry p len]"
proof -
  have c: "unat (tx_cur a) < 16" "length (tx_ring a) = 16" using assms by (simp_all add: tx_ok_def word_less_nat_alt)
  have n: "unat ((tx_cur a + 1) mod 16) = (unat (tx_cur a) + 1) mod 16" using assms by (intro next_cur) (simp add: tx_ok_def)
  define b where "b = write_i8254x TDT_REG (ucast ((tx_cur a + 1) mod 16))
    (a\<lparr>tx_ring := (tx_ring a)[unat (tx_cur a) := tx_entry p len], tx_cur := (tx_cur a + 1) mod 16\<rparr>)"
  have "tx_enter p len a = Some b" using c by (simp add: tx_enter_def b_def Let_def tx_entry_def)
  moreover have "tx_head b = tx_head a" by (simp add: b_def tx_head_def THD_REG_def TDT_REG_def)
  moreover from this have "tx_ok b" using c n assms by (simp add: tx_ok_def word_less_nat_alt) (simp add: b_def)
  ultimately show thesis using n by (intro that [of b]) (simp_all add: b_def)
qed

text \<open>Frames wait in the order in which they were entered, while there are fewer than fifteen.\<close>

lemma tx_enter_appends:
  assumes "tx_ok a" and "tx_waiting a < 15"
  shows "\<exists>b. tx_enter p len a = Some b \<and> tx_ok b \<and> tx_pending b = tx_pending a @ [tx_entry p len]"
proof -
  obtain b where b: "tx_enter p len a = Some b" "tx_ok b" "tx_head b = tx_head a" "unat (tx_cur b) = (unat (tx_cur a) + 1) mod 16"
      "tx_ring b = (tx_ring a)[unat (tx_cur a) := tx_entry p len]"
    using tx_enter_result [OF assms(1)] .
  have c: "unat (tx_cur a) < 16" "tx_head a < 16" "length (tx_ring a) = 16" using assms(1) by (simp_all add: tx_ok_def word_less_nat_alt)
  have w: "tx_waiting b = Suc (tx_waiting a)"
    using ring_gap_next [OF c(1,2)] assms(2) by (simp add: tx_waiting_def b(3,4))
  have t: "(tx_head a + j) mod 16 = unat (tx_cur a) \<longleftrightarrow> j = tx_waiting a" if "j \<le> tx_waiting a" for j
    using ring_gap_index [OF c(1,2), of j] that by (simp add: tx_waiting_def)
  have "map (\<lambda>j. tx_ring b ! ((tx_head a + j) mod 16)) [0..<tx_waiting a] = map (\<lambda>j. tx_ring a ! ((tx_head a + j) mod 16)) [0..<tx_waiting a]"
  proof (rule map_cong)
    fix j assume "j \<in> set [0..<tx_waiting a]"
    then have "(tx_head a + j) mod 16 \<noteq> unat (tx_cur a)" using t [of j] by simp
    then show "tx_ring b ! ((tx_head a + j) mod 16) = tx_ring a ! ((tx_head a + j) mod 16)" by (simp add: b(5))
  qed simp
  moreover have "tx_ring b ! ((tx_head a + tx_waiting a) mod 16) = tx_entry p len" using t [of "tx_waiting a"] c by (simp add: b(5))
  ultimately show ?thesis using b(1,2) w by (simp add: tx_pending_def b(3))
qed

text \<open>With fifteen frames waiting the ring runs over: head and tail meet and none is left to be sent.\<close>

lemma tx_ring_overruns:
  assumes "tx_ok a" and "tx_waiting a = 15"
  shows "\<exists>b. tx_enter p len a = Some b \<and> tx_pending b = []"
proof -
  obtain b where b: "tx_enter p len a = Some b" "tx_head b = tx_head a" "unat (tx_cur b) = (unat (tx_cur a) + 1) mod 16"
    using tx_enter_result [OF assms(1)] by blast
  have "unat (tx_cur a) < 16" "tx_head a < 16" using assms(1) by (simp_all add: tx_ok_def word_less_nat_alt)
  then have "tx_waiting b = 0"
    using ring_gap_full [of "unat (tx_cur a)" "tx_head a"] assms(2) by (simp add: tx_waiting_def b(2,3))
  then show ?thesis using b(1) by (simp add: tx_pending_def)
qed

end
