(* ===== verification/Ahci.thy ===== *)
theory Ahci
  imports Ext2_Bytes Semaphore
begin

text \<open>
  The driver of the disk controller (\<^verbatim>\<open>src/drivers/ahci/ahci.c\<close>): the choice of a command slot, the command in memory
  that describes a transfer, its issue and the two ways to wait for its end, by polling and by the interrupt. The
  controller is an argument \<open>hw\<close>, what it does between two looks at its registers; \<open>complete\<close> says what it makes of a
  command by its documentation. A polled transfer then implements \<open>READ_DISK\<close> and \<open>WRITE_DISK\<close>, which the file system
  stands on.
\<close>

unbundle bit_operations_syntax

section \<open>The controller\<close>

definition ATA_READ_DMA_28 :: u32 where "ATA_READ_DMA_28 = 0xC8"
definition ATA_WRITE_DMA_28 :: u32 where "ATA_WRITE_DMA_28 = 0xCA"
definition FIS_TYPE_REG_H2D :: u8 where "FIS_TYPE_REG_H2D = 0x27"
definition ATA_DEV_BUSY :: u32 where "ATA_DEV_BUSY = 0x80"
definition ATA_DEV_DRQ :: u32 where "ATA_DEV_DRQ = 0x08"
definition ATA_SPIN_TIMEOUT :: nat where "ATA_SPIN_TIMEOUT = 1000000"
definition AHCI_SECTOR_SIZE :: u32 where "AHCI_SECTOR_SIZE = 512"
definition HBA_PxIS_TFES :: u32 where "HBA_PxIS_TFES = 0x40000000"
definition HBA_PxCMD_ST :: u32 where "HBA_PxCMD_ST = 0x0001"
definition HBA_PxCMD_FRE :: u32 where "HBA_PxCMD_FRE = 0x0010"
definition HBA_PxCMD_FR :: u32 where "HBA_PxCMD_FR = 0x4000"
definition HBA_PxCMD_CR :: u32 where "HBA_PxCMD_CR = 0x8000"

lemmas ahci_consts = ATA_READ_DMA_28_def ATA_WRITE_DMA_28_def FIS_TYPE_REG_H2D_def ATA_DEV_BUSY_def ATA_DEV_DRQ_def
  ATA_SPIN_TIMEOUT_def AHCI_SECTOR_SIZE_def HBA_PxIS_TFES_def

record hba_port =
  port_is :: u32
  port_ie :: u32
  port_cmd :: u32
  port_tfd :: u32
  port_sig :: u32
  port_ssts :: u32
  port_sact :: u32
  port_ci :: u32

record fis_reg_h2d =
  fis_type :: u8
  fis_c :: bool
  fis_command :: u8
  lba0 :: u8
  lba1 :: u8
  lba2 :: u8
  fis_device :: u8
  lba3 :: u8
  lba4 :: u8
  lba5 :: u8
  countl :: u8
  counth :: u8

record hba_cmd_tbl =
  cfis :: fis_reg_h2d
  dba :: u32
  dbau :: u32
  dbc :: "22 word"
  prdt_i :: bool

record hba_cmd_header =
  cfl :: nat
  hdr_w :: bool
  prdtl :: u16
  ctba :: u32
  ctbau :: u32

record io_request =
  io_sector_count :: u32
  io_lba :: u32
  io_buffer :: u32
  io_command :: u32
  io_process :: addr

text \<open>
  The registers of the port, the command list, the command tables by their physical address, the memory by physical
  address, the medium, and of the kernel the semaphores and processes.
\<close>

record ahci =
  port :: hba_port
  cmd_list :: "hba_cmd_header list"
  cmd_tbls :: "u32 \<Rightarrow> hba_cmd_tbl"
  phys :: "u32 \<Rightarrow> u8"
  medium :: "nat \<Rightarrow> u8"
  dev_status :: u32
  serving_request :: "io_request option"
  dev_mutex :: addr
  dev_sem :: addr
  os :: kernel

definition DEVICE_IDLE :: u32 where "DEVICE_IDLE = 0"
definition DEVICE_BUSY :: u32 where "DEVICE_BUSY = 1"
definition POOLING_MODE :: u32 where "POOLING_MODE = 2"

section \<open>Commands\<close>

fun cmd_slot :: "u32 \<Rightarrow> nat list \<Rightarrow> nat option" where
  "cmd_slot slots [] = None"
| "cmd_slot slots (i # is) = (if slots AND 1 = 0 then Some i else cmd_slot (drop_bit 1 slots) is)"

definition find_cmd_slot :: "hba_port \<Rightarrow> nat option" where
  "find_cmd_slot p = cmd_slot (port_sact p OR port_ci p) [0..<31]"

definition command_fis :: "io_request \<Rightarrow> fis_reg_h2d \<Rightarrow> fis_reg_h2d" where
  "command_fis r f =
     f\<lparr>fis_type := FIS_TYPE_REG_H2D, fis_c := True, fis_command := ucast (io_command r),
       lba0 := ucast (io_lba r), lba1 := ucast (drop_bit 8 (io_lba r)), lba2 := ucast (drop_bit 16 (io_lba r)),
       lba3 := 0, lba4 := 0, lba5 := 0, fis_device := push_bit 6 1,
       countl := ucast (io_sector_count r AND 0xFF), counth := ucast (drop_bit 8 (io_sector_count r) AND 0xFF)\<rparr>"

definition command_table :: "io_request \<Rightarrow> hba_cmd_tbl \<Rightarrow> hba_cmd_tbl" where
  "command_table r t =
     t\<lparr>dba := FROM_VIRT_TO_PHY (io_buffer r), dbau := 0, dbc := ucast (io_sector_count r * AHCI_SECTOR_SIZE - 1),
       prdt_i := True, cfis := command_fis r (cfis t)\<rparr>"

fun wait_ready :: "(ahci \<Rightarrow> ahci) \<Rightarrow> nat \<Rightarrow> ahci \<Rightarrow> nat \<times> ahci" where
  "wait_ready hw 0 a = (0, a)"
| "wait_ready hw (Suc left) a =
     (if port_tfd (port a) AND (ATA_DEV_BUSY OR ATA_DEV_DRQ) \<noteq> 0 then wait_ready hw left (hw a) else (Suc left, a))"

text \<open>Writing ones to the interrupt register clears them, writing ones to the command register adds them.\<close>

definition write_is :: "u32 \<Rightarrow> ahci \<Rightarrow> ahci" where
  "write_is v a = a\<lparr>port := (port a)\<lparr>port_is := port_is (port a) AND NOT v\<rparr>\<rparr>"

definition write_ci :: "u32 \<Rightarrow> ahci \<Rightarrow> ahci" where
  "write_ci v a = a\<lparr>port := (port a)\<lparr>port_ci := port_ci (port a) OR v\<rparr>\<rparr>"

text \<open>The result is the slot of the command, \<open>None\<close> inside for \<open>-1\<close>. The structure of a command has five 32-bit words.\<close>

definition issue :: "(ahci \<Rightarrow> ahci) \<Rightarrow> io_request \<Rightarrow> ahci \<Rightarrow> (nat option \<times> ahci) option" where
  "issue hw r a =
     (let a = write_is (-1) a
      in case find_cmd_slot (port a) of
           None \<Rightarrow> Some (None, a)
         | Some slot \<Rightarrow>
             if slot < length (cmd_list a)
             then let h = (cmd_list a ! slot)\<lparr>cfl := 5, hdr_w := io_command r \<noteq> ATA_READ_DMA_28\<rparr>;
                      a = a\<lparr>cmd_list := (cmd_list a)[slot := h],
                            cmd_tbls := (cmd_tbls a)(ctba h := command_table r (cmd_tbls a (ctba h)))\<rparr>;
                      (left, a) = wait_ready hw ATA_SPIN_TIMEOUT a
                  in if left = 0 then Some (None, a)
                     else Some (Some slot, write_ci (push_bit slot 1) a)
             else None)"

text \<open>The polled transfer. Its test for a failed issue compares with 1; the slot \<open>-1\<close> then is used as a shift distance.\<close>

partial_function (option) wait_complete :: "(ahci \<Rightarrow> ahci) \<Rightarrow> nat \<Rightarrow> int \<Rightarrow> ahci \<Rightarrow> (int \<times> ahci) option" where
  "wait_complete hw slot ret a =
     (if port_ci (port a) AND push_bit slot 1 = 0 then Some (ret, a)
      else wait_complete hw slot (if port_is (port a) AND HBA_PxIS_TFES \<noteq> 0 then -1 else ret) (hw a))"

definition p_read_write_28_ahci :: "(ahci \<Rightarrow> ahci) \<Rightarrow> io_request \<Rightarrow> ahci \<Rightarrow> (int \<times> ahci) option" where
  "p_read_write_28_ahci hw r a =
     do { (slot, a) \<leftarrow> issue hw r (a\<lparr>dev_status := 1\<rparr>);
          (ret, a) \<leftarrow> (case slot of
              None \<Rightarrow> None
            | Some slot \<Rightarrow>
                if slot = 1 then Some (-1, a)
                else do { (ret, a) \<leftarrow> wait_complete hw slot 0 a;
                          Some (if port_is (port a) AND HBA_PxIS_TFES \<noteq> 0 then -1 else ret, a) });
          Some (ret, a\<lparr>dev_status := DEVICE_IDLE\<rparr>) }"

definition p_read_28_ahci :: "(ahci \<Rightarrow> ahci) \<Rightarrow> io_request \<Rightarrow> ahci \<Rightarrow> (u8 \<times> ahci) option" where
  "p_read_28_ahci hw r a = do { (ret, a) \<leftarrow> p_read_write_28_ahci hw (r\<lparr>io_command := ATA_READ_DMA_28\<rparr>) a; Some (of_int ret, a) }"

definition p_write_28_ahci :: "(ahci \<Rightarrow> ahci) \<Rightarrow> io_request \<Rightarrow> ahci \<Rightarrow> (u8 \<times> ahci) option" where
  "p_write_28_ahci hw r a = do { (ret, a) \<leftarrow> p_read_write_28_ahci hw (r\<lparr>io_command := ATA_WRITE_DMA_28\<rparr>) a; Some (of_int ret, a) }"

text \<open>
  The transfer that sleeps. \<open>suspend\<close> is what the processes do during a sleep and \<open>rest\<close> what the controller does.
  The result is the slot, or \<open>-1\<close>.
\<close>

definition down :: "(kernel \<Rightarrow> kernel) \<Rightarrow> (ahci \<Rightarrow> ahci) \<Rightarrow> addr \<Rightarrow> ahci \<Rightarrow> ahci option" where
  "down suspend rest s a = do { k \<leftarrow> sem_down suspend s (os a); Some (rest (a\<lparr>os := k\<rparr>)) }"

definition read_write_28_ahci ::
    "(kernel \<Rightarrow> kernel) \<Rightarrow> (ahci \<Rightarrow> ahci) \<Rightarrow> (ahci \<Rightarrow> ahci) \<Rightarrow> io_request \<Rightarrow> ahci \<Rightarrow> (u8 \<times> ahci) option" where
  "read_write_28_ahci suspend rest hw r a =
     do { a \<leftarrow> down suspend rest (dev_mutex a) a;
          (slot, a) \<leftarrow> issue hw r (a\<lparr>dev_status := DEVICE_BUSY\<rparr>);
          a \<leftarrow> down suspend rest (dev_sem a) a;
          let a = a\<lparr>dev_status := DEVICE_IDLE\<rparr>;
          k \<leftarrow> sem_up (dev_mutex a) (os a);
          Some (case slot of None \<Rightarrow> -1 | Some i \<Rightarrow> of_nat i, a\<lparr>os := k\<rparr>) }"

definition read_28_ahci ::
    "(kernel \<Rightarrow> kernel) \<Rightarrow> (ahci \<Rightarrow> ahci) \<Rightarrow> (ahci \<Rightarrow> ahci) \<Rightarrow> io_request \<Rightarrow> ahci \<Rightarrow> (u8 \<times> ahci) option" where
  "read_28_ahci suspend rest hw r = read_write_28_ahci suspend rest hw (r\<lparr>io_command := ATA_READ_DMA_28\<rparr>)"

definition write_28_ahci ::
    "(kernel \<Rightarrow> kernel) \<Rightarrow> (ahci \<Rightarrow> ahci) \<Rightarrow> (ahci \<Rightarrow> ahci) \<Rightarrow> io_request \<Rightarrow> ahci \<Rightarrow> (u8 \<times> ahci) option" where
  "write_28_ahci suspend rest hw r = read_write_28_ahci suspend rest hw (r\<lparr>io_command := ATA_WRITE_DMA_28\<rparr>)"

text \<open>The interrupt at the end of a transfer. No function of this driver sets the request that it looks at.\<close>

definition int_handler_ahci :: "ahci \<Rightarrow> ahci option" where
  "int_handler_ahci a =
     do { current \<leftarrow> CURRENT_PROCESS_CONTEXT (os a);
          r \<leftarrow> serving_request a;
          k \<leftarrow> (if dev_status a = DEVICE_BUSY then sem_up (dev_sem a) (os a) else Some (os a));
          p \<leftarrow> procs k current;
          q \<leftarrow> procs k (io_process r);
          let k = (if pid p \<noteq> pid q then k\<lparr>force_scheduling := 1\<rparr> else k);
          Some (write_is 1 (a\<lparr>os := k\<rparr>)) }"

text \<open>The command engine of the port, and the kind of device at it.\<close>

partial_function (option) wait_stopped :: "(ahci \<Rightarrow> ahci) \<Rightarrow> u32 \<Rightarrow> ahci \<Rightarrow> ahci option" where
  "wait_stopped hw flags a = (if port_cmd (port a) AND flags \<noteq> 0 then wait_stopped hw flags (hw a) else Some a)"

definition start_cmd :: "(ahci \<Rightarrow> ahci) \<Rightarrow> ahci \<Rightarrow> ahci option" where
  "start_cmd hw a =
     do { a \<leftarrow> wait_stopped hw HBA_PxCMD_CR a;
          Some (a\<lparr>port := (port a)\<lparr>port_cmd := port_cmd (port a) OR HBA_PxCMD_FRE OR HBA_PxCMD_ST\<rparr>\<rparr>) }"

definition stop_cmd :: "(ahci \<Rightarrow> ahci) \<Rightarrow> ahci \<Rightarrow> ahci option" where
  "stop_cmd hw a =
     wait_stopped hw (HBA_PxCMD_FR OR HBA_PxCMD_CR)
       (a\<lparr>port := (port a)\<lparr>port_cmd := port_cmd (port a) AND NOT HBA_PxCMD_ST AND NOT HBA_PxCMD_FRE\<rparr>\<rparr>)"

datatype ahci_dev = AHCI_DEV_NULL | AHCI_DEV_SATA | AHCI_DEV_SEMB | AHCI_DEV_PM | AHCI_DEV_SATAPI

definition check_type :: "hba_port \<Rightarrow> ahci_dev" where
  "check_type p =
     (let ipm = drop_bit 8 (port_ssts p) AND 0x0F; det = port_ssts p AND 0x0F in
      if det \<noteq> 3 \<or> ipm \<noteq> 1 then AHCI_DEV_NULL
      else if port_sig p = 0xEB140101 then AHCI_DEV_SATAPI
      else if port_sig p = 0xC33C0101 then AHCI_DEV_SEMB
      else if port_sig p = 0x96690101 then AHCI_DEV_PM
      else AHCI_DEV_SATA)"

section \<open>The controller by its documentation\<close>

text \<open>
  A command of the 28-bit kind has a sector address of four parts and a count of eight bits, 0 for 256. It is well formed when
  its header announces five words and one region of memory, the direction fits the command and the region is as long as the
  sectors. The controller then moves the sectors and removes the command.
\<close>

definition fis_lba :: "fis_reg_h2d \<Rightarrow> nat" where
  "fis_lba f = unat (lba0 f) + 2 ^ 8 * unat (lba1 f) + 2 ^ 16 * unat (lba2 f) + 2 ^ 24 * unat (fis_device f AND 15)"

definition fis_count :: "fis_reg_h2d \<Rightarrow> nat" where
  "fis_count f = (if countl f = 0 then 256 else unat (countl f))"

definition good_command :: "hba_cmd_header \<Rightarrow> hba_cmd_tbl \<Rightarrow> bool" where
  "good_command h t \<longleftrightarrow> cfl h = 5 \<and> prdtl h = 1 \<and> fis_type (cfis t) = 0x27 \<and> fis_c (cfis t) \<and> bit (fis_device (cfis t)) 6 \<and> dbau t = 0 \<and>
     fis_command (cfis t) = (if hdr_w h then 0xCA else 0xC8) \<and> unat (dbc t) + 1 = 512 * fis_count (cfis t)"

definition put_buffer :: "u32 \<Rightarrow> u8 list \<Rightarrow> (u32 \<Rightarrow> u8) \<Rightarrow> u32 \<Rightarrow> u8" where
  "put_buffer p bs m q = (if unat (q - p) < length bs then bs ! unat (q - p) else m q)"

definition get_buffer :: "u32 \<Rightarrow> nat \<Rightarrow> (u32 \<Rightarrow> u8) \<Rightarrow> u8 list" where
  "get_buffer p n m = map (\<lambda>i. m (p + of_nat i)) [0..<n]"

definition complete :: "nat \<Rightarrow> ahci \<Rightarrow> ahci" where
  "complete slot a =
     (let h = cmd_list a ! slot; t = cmd_tbls a (ctba h); start = 512 * fis_lba (cfis t); n = 512 * fis_count (cfis t);
          a = a\<lparr>port := (port a)\<lparr>port_ci := port_ci (port a) AND NOT (push_bit slot 1), port_is := 1\<rparr>\<rparr>
      in if hdr_w h
         then a\<lparr>medium := (\<lambda>i. if start \<le> i \<and> i < start + n then get_buffer (dba t) n (phys a) ! (i - start) else medium a i)\<rparr>
         else a\<lparr>phys := put_buffer (dba t) (map (\<lambda>i. medium a (start + i)) [0..<n]) (phys a)\<rparr>)"

text \<open>The controller obeys when it completes a single well-formed command after some time, and reports no error meanwhile.\<close>

definition obeys :: "(ahci \<Rightarrow> ahci) \<Rightarrow> bool" where
  "obeys hw \<longleftrightarrow> (\<forall>a slot. slot < length (cmd_list a) \<and> slot < 32 \<and> port_ci (port a) = push_bit slot 1 \<and> port_is (port a) = 0 \<and>
      good_command (cmd_list a ! slot) (cmd_tbls a (ctba (cmd_list a ! slot))) \<longrightarrow>
      (\<exists>n. (hw ^^ n) a = complete slot a \<and>
        (\<forall>m<n. bit (port_ci (port ((hw ^^ m) a))) slot \<and> port_is (port ((hw ^^ m) a)) AND HBA_PxIS_TFES = 0)))"

definition idle :: "ahci \<Rightarrow> bool" where
  "idle a \<longleftrightarrow> length (cmd_list a) = 32 \<and> (\<forall>h\<in>set (cmd_list a). prdtl h = 1) \<and> port_ci (port a) = 0 \<and> port_sact (port a) = 0 \<and>
     port_tfd (port a) AND 0x88 = 0"

definition fits_28 :: "io_request \<Rightarrow> bool" where
  "fits_28 r \<longleftrightarrow> 0 < io_sector_count r \<and> io_sector_count r \<le> 256 \<and> io_lba r < 0x1000000"

text \<open>The driver passes the lower 24 bits of the sector.\<close>

lemma command_fis_lba: "fis_lba (command_fis r f) = unat (io_lba r) mod 2 ^ 24"
proof -
  have "unat (io_lba r) mod 2 ^ 24 = unat (io_lba r) mod 2 ^ 8 + 2 ^ 8 * (unat (io_lba r) div 2 ^ 8 mod 2 ^ 8) + 2 ^ 16 * (unat (io_lba r) div 2 ^ 16 mod 2 ^ 8)"
    using mod_mult2_eq [of "unat (io_lba r)" "2 ^ 8" "2 ^ 8"] mod_mult2_eq [of "unat (io_lba r)" "2 ^ 16" "2 ^ 8"] by simp
  then show ?thesis
    by (simp add: fis_lba_def command_fis_def unsigned_ucast_eq take_bit_eq_mod unsigned_drop_bit_eq drop_bit_eq_div unat_div)
qed

lemma command_fis_count:
  assumes "0 < io_sector_count r" and "io_sector_count r \<le> 256"
  shows "fis_count (command_fis r f) = unat (io_sector_count r)"
proof -
  have n: "0 < unat (io_sector_count r)" "unat (io_sector_count r) \<le> 256"
    using assms by (simp_all add: word_less_nat_alt word_le_nat_alt unat_gt_0)
  have "io_sector_count r AND 0xFF = take_bit 8 (io_sector_count r)" by (simp add: take_bit_eq_mask mask_eq_exp_minus_1)
  then have u: "unat (countl (command_fis r f)) = unat (io_sector_count r) mod 256"
    by (simp add: command_fis_def unsigned_ucast_eq unsigned_take_bit_eq take_bit_eq_mod unat_mod)
  show ?thesis
  proof (cases "unat (io_sector_count r) = 256")
    case True
    then have "countl (command_fis r f) = 0" using u by (intro unsigned_word_eqI [where ?'a = nat]) simp
    then show ?thesis using True by (simp add: fis_count_def)
  next
    case False
    then have "unat (countl (command_fis r f)) = unat (io_sector_count r)" using u n by simp
    then show ?thesis using n(1) by (auto simp: fis_count_def)
  qed
qed

text \<open>The command that the driver builds is well formed and says what the request says.\<close>

lemma command_table_good:
  assumes "fits_28 r" and "io_command r = ATA_READ_DMA_28 \<or> io_command r = ATA_WRITE_DMA_28" and "prdtl h = 1"
  shows "good_command (h\<lparr>cfl := 5, hdr_w := io_command r \<noteq> ATA_READ_DMA_28\<rparr>) (command_table r t)"
proof -
  have n: "0 < unat (io_sector_count r)" "unat (io_sector_count r) \<le> 256"
    using assms(1) by (simp_all add: fits_28_def word_less_nat_alt word_le_nat_alt)
  have c: "unat (io_sector_count r * 512) = unat (io_sector_count r) * 512" using n by (simp add: unat_word_ariths)
  then have "1 \<le> io_sector_count r * 512" using n by (simp add: word_le_nat_alt)
  then have "unat (io_sector_count r * 512 - 1) = unat (io_sector_count r) * 512 - 1" using c by (simp add: unat_sub)
  then have "unat (ucast (io_sector_count r * 512 - 1) :: 22 word) = unat (io_sector_count r) * 512 - 1"
    using n by (simp add: unsigned_ucast_eq take_bit_eq_mod)
  then show ?thesis
    using n command_fis_count [of r] assms
    by (auto simp: good_command_def command_table_def fits_28_def AHCI_SECTOR_SIZE_def FIS_TYPE_REG_H2D_def ATA_READ_DMA_28_def ATA_WRITE_DMA_28_def)
      (auto simp: command_fis_def FIS_TYPE_REG_H2D_def)
qed

lemma wait_ready_idle: "port_tfd (port a) AND 0x88 = 0 \<Longrightarrow> 0 < n \<Longrightarrow> wait_ready hw n a = (n, a)"
  by (cases n) (simp_all add: ATA_DEV_BUSY_def ATA_DEV_DRQ_def)

lemma ci_bit: "(w AND 2 ^ n = 0) = (\<not> bit (w :: u32) n)"
  by (simp add: bit_iff_and_push_bit_not_eq_0)

lemma wait_complete_runs:
  assumes "(hw ^^ n) a = c" and "\<And>m. m < n \<Longrightarrow> bit (port_ci (port ((hw ^^ m) a))) slot \<and> port_is (port ((hw ^^ m) a)) AND HBA_PxIS_TFES = 0"
    and "\<not> bit (port_ci (port c)) slot"
  shows "wait_complete hw slot ret a = Some (ret, c)"
  using assms
proof (induction n arbitrary: a)
  case 0
  then show ?case by (subst wait_complete.simps) (simp add: ci_bit)
next
  case (Suc n)
  have "wait_complete hw slot ret (hw a) = Some (ret, c)"
    by (rule Suc.IH) (use Suc.prems(1,3) Suc.prems(2) [of "Suc _"] in \<open>simp_all add: funpow_swap1\<close>)
  then show ?case using Suc.prems(2) [of 0] by (subst wait_complete.simps) (simp add: ci_bit)
qed

lemma find_cmd_slot_idle: "idle a \<Longrightarrow> find_cmd_slot (port (write_is v a)) = Some 0"
  by (simp add: idle_def find_cmd_slot_def write_is_def upt_rec [of 0])

text \<open>The state in which the command is with the controller.\<close>

definition issued :: "io_request \<Rightarrow> ahci \<Rightarrow> ahci" where
  "issued r a =
     (let h = (cmd_list a ! 0)\<lparr>cfl := 5, hdr_w := io_command r \<noteq> ATA_READ_DMA_28\<rparr>
      in a\<lparr>cmd_list := (cmd_list a)[0 := h], cmd_tbls := (cmd_tbls a)(ctba h := command_table r (cmd_tbls a (ctba h))),
           port := (port a)\<lparr>port_is := 0, port_ci := 1\<rparr>\<rparr>)"

lemma issue_idle: "idle a \<Longrightarrow> issue hw r a = Some (Some 0, issued r a)"
proof -
  assume i: "idle a"
  let ?b = "write_is (-1) a"
  have b: "length (cmd_list ?b) = 32" "port_tfd (port ?b) AND 0x88 = 0" "port_ci (port a) = 0" using i by (simp_all add: idle_def write_is_def)
  show ?thesis
    using b wait_ready_idle [of _ ATA_SPIN_TIMEOUT hw]
    by (simp add: issue_def find_cmd_slot_idle [OF i] Let_def case_prod_unfold ATA_SPIN_TIMEOUT_def issued_def write_ci_def)
      (simp add: write_is_def)
qed

lemma p_read_write_runs:
  assumes "obeys hw" and "idle a" and "fits_28 r" and "io_command r = ATA_READ_DMA_28 \<or> io_command r = ATA_WRITE_DMA_28"
  shows "p_read_write_28_ahci hw r a = Some (0, (complete 0 (issued r (a\<lparr>dev_status := 1\<rparr>)))\<lparr>dev_status := DEVICE_IDLE\<rparr>)"
proof -
  let ?a = "a\<lparr>dev_status := 1\<rparr>" and ?i = "issued r (a\<lparr>dev_status := 1\<rparr>)"
  have i: "idle ?a" "length (cmd_list a) = 32" "prdtl (cmd_list a ! 0) = 1" using assms(2) by (simp_all add: idle_def)
  have "good_command (cmd_list ?i ! 0) (cmd_tbls ?i (ctba (cmd_list ?i ! 0)))"
    using command_table_good [OF assms(3,4) i(3)] i(2) by (simp add: issued_def Let_def)
  then have "0 < length (cmd_list ?i) \<and> 0 < (32 :: nat) \<and> port_ci (port ?i) = push_bit 0 1 \<and> port_is (port ?i) = 0 \<and>
      good_command (cmd_list ?i ! 0) (cmd_tbls ?i (ctba (cmd_list ?i ! 0)))"
    using i(2) by (simp add: issued_def Let_def)
  from assms(1) [unfolded obeys_def, rule_format, OF this] obtain n where n: "(hw ^^ n) ?i = complete 0 ?i"
      "\<And>m. m < n \<Longrightarrow> bit (port_ci (port ((hw ^^ m) ?i))) 0 \<and> port_is (port ((hw ^^ m) ?i)) AND HBA_PxIS_TFES = 0"
    by blast
  have c: "\<not> bit (port_ci (port (complete 0 ?i))) 0" "port_is (port (complete 0 ?i)) = 1"
    by (simp_all add: complete_def Let_def bit_and_iff bit_not_iff)
  show ?thesis
    using wait_complete_runs [OF n(1) n(2) c(1), of 0] c(2) by (simp add: p_read_write_28_ahci_def issue_idle [OF i(1)] HBA_PxIS_TFES_def)
qed


text \<open>A controller that completes each command at once.\<close>

definition prompt :: "ahci \<Rightarrow> ahci" where
  "prompt a = (case find (bit (port_ci (port a))) [0..<32] of None \<Rightarrow> a | Some slot \<Rightarrow> complete slot a)"

lemma find_only: "distinct xs \<Longrightarrow> x \<in> set xs \<Longrightarrow> (\<And>y. y \<in> set xs \<Longrightarrow> P y \<longleftrightarrow> y = x) \<Longrightarrow> find P xs = Some x"
  by (induction xs) (auto split: if_splits)

lemma prompt_obeys: "obeys prompt"
proof -
  have "\<exists>n. (prompt ^^ n) a = complete slot a \<and>
      (\<forall>m<n. bit (port_ci (port ((prompt ^^ m) a))) slot \<and> port_is (port ((prompt ^^ m) a)) AND HBA_PxIS_TFES = 0)"
    if "slot < 32" and "port_ci (port a) = push_bit slot 1" and "port_is (port a) = 0" for a slot
  proof (intro exI [of _ 1] conjI)
    have "find (bit (port_ci (port a))) [0..<32] = Some slot"
      by (rule find_only) (use that(1,2) in \<open>auto simp: bit_exp_iff\<close>)
    then show "(prompt ^^ 1) a = complete slot a" by (simp add: prompt_def)
    show "\<forall>m<1. bit (port_ci (port ((prompt ^^ m) a))) slot \<and> port_is (port ((prompt ^^ m) a)) AND HBA_PxIS_TFES = 0"
      using that by (simp add: bit_exp_iff)
  qed
  then show ?thesis unfolding obeys_def by blast
qed

definition idle_disk :: "kernel \<Rightarrow> fs \<Rightarrow> ahci" where
  "idle_disk k s =
     \<lparr>port = \<lparr>port_is = 0, port_ie = 1, port_cmd = 0x11, port_tfd = 0x50, port_sig = 0x101, port_ssts = 0x123, port_sact = 0, port_ci = 0\<rparr>,
      cmd_list = map (\<lambda>i. \<lparr>cfl = 0, hdr_w = False, prdtl = 1, ctba = of_nat (256 * i), ctbau = 0\<rparr>) [0..<32],
      cmd_tbls = \<lambda>_. \<lparr>cfis = \<lparr>fis_type = 0, fis_c = False, fis_command = 0, lba0 = 0, lba1 = 0, lba2 = 0, fis_device = 0, lba3 = 0, lba4 = 0, lba5 = 0,
        countl = 0, counth = 0\<rparr>, dba = 0, dbau = 0, dbc = 0, prdt_i = False\<rparr>,
      phys = \<lambda>_. 0, medium = disk s, dev_status = 0, serving_request = None, dev_mutex = 0, dev_sem = 0, os = k\<rparr>"


text \<open>What is written is read back into another buffer.\<close>

lemma get_put_buffer: "length bs \<le> 2 ^ 32 \<Longrightarrow> get_buffer p (length bs) (put_buffer p bs m) = bs"
  by (rule nth_equalityI) (simp_all add: get_buffer_def put_buffer_def take_bit_nat_eq_self unsigned_of_nat)

text \<open>
  When slot 0 is taken, the polled transfer reports an error although its command is with the controller, because it
  compares the slot with 1 where it means \<open>-1\<close>. The interrupt handler looks at a request that nobody sets.
\<close>

lemma slot_one_is_an_error: "issue hw r (a\<lparr>dev_status := 1\<rparr>) = Some (Some 1, b) \<Longrightarrow> p_read_write_28_ahci hw r a = Some (-1, b\<lparr>dev_status := DEVICE_IDLE\<rparr>)"
  by (simp add: p_read_write_28_ahci_def)

lemma interrupt_without_request: "serving_request a = None \<Longrightarrow> int_handler_ahci a = None"
  by (cases "CURRENT_PROCESS_CONTEXT (os a)") (simp_all add: int_handler_ahci_def)

end
